(* ===== verification/Prelude.thy ===== *)
theory Prelude
  imports Main "HOL-Library.Word" "HOL-Library.Multiset" "HOL-Library.List_Lexorder"
    "HOL-Library.Char_ord"
begin

text \<open>
  The shared ground of the development: the names of the machine types the Go code uses, the
  error-or-value result type, the generic lemmas on words, lists and options the components
  rest on, and the locales that several components instantiate (an invariant of a transition
  system; a log trimmed from the front).
\<close>

section \<open>Types\<close>

text \<open>
  Go's \<^verbatim>\<open>uint64\<close> is a 64-bit word. A \<^verbatim>\<open>time.Time\<close> is the number of nanoseconds since the zero
  time, which is \<open>0\<close> (\<^verbatim>\<open>IsZero\<close>); a \<^verbatim>\<open>time.Duration\<close> is the difference of two times. A byte
  slice is a list of 8-bit words. A Go string is a list of bytes, the characters of HOL.
\<close>

type_synonym u64 = "64 word"
type_synonym u8 = "8 word"
type_synonym bytes = "8 word list"
type_synonym gotime = int
type_synonym duration = int

text \<open>A call that returns \<open>(value, error)\<close>: \<open>Inl\<close> carries the error.\<close>

type_synonym ('e, 'a) result = "'e + 'a"

abbreviation is_zero_time :: "gotime \<Rightarrow> bool" where
  "is_zero_time t \<equiv> t = 0"

definition second :: duration where
  "second = 1000000000"

section \<open>Collections of rewrite rules\<close>

named_theorems inv_defs "definitions of the components' invariants"
named_theorems step_defs "definitions of the components' operations"

section \<open>Words\<close>

lemma unat_u64_bound: "unat (x :: u64) < 2 ^ 64"
  using unsigned_less [of x] by simp

lemma unat_plus_one: "x \<noteq> - 1 \<Longrightarrow> unat (x + 1 :: u64) = Suc (unat x)"
  by (metis add.commute add.right_inverse unatSuc add_eq_0_iff)

lemma unat_max_u64: "unat (- 1 :: u64) = 2 ^ 64 - 1"
  by (simp add: unsigned_minus_1_eq_mask mask_eq_exp_minus_1)

lemma unat_word_of_nat: "n < 2 ^ 64 \<Longrightarrow> unat (word_of_nat n :: u64) = n"
  by (simp add: unat_of_nat)

lemma word_of_unat_eq_iff: "n < 2 ^ 64 \<Longrightarrow> (x = (word_of_nat n :: u64)) = (unat x = n)"
  by (auto simp: word_unat_eq_iff unat_of_nat)

lemma unat_not_max: "x \<noteq> - 1 \<Longrightarrow> unat (x :: u64) < 2 ^ 64 - 1"
  using unat_u64_bound [of x] unat_max_u64 word_unat_eq_iff [of x "- 1"] by auto

lemma plus_one_le_iff: "x \<noteq> - 1 \<Longrightarrow> (x + 1 \<le> y) = (x < (y :: u64))"
  by (simp add: word_le_nat_alt word_less_nat_alt unat_plus_one Suc_le_eq)

lemma le_plus_one_iff: "x \<noteq> - 1 \<Longrightarrow> (y \<le> x + 1) = (y \<le> x \<or> y = (x + 1 :: u64))"
  by (auto simp: word_le_nat_alt unat_plus_one le_Suc_eq word_unat_eq_iff)

lemma less_plus_one: "x \<noteq> - 1 \<Longrightarrow> x < (x + 1 :: u64)"
  by (simp add: word_less_nat_alt unat_plus_one)

lemma less_not_max: "x < y \<Longrightarrow> x \<noteq> (- 1 :: u64)"
  using word_order.extremum_strict by blast

section \<open>Lists\<close>

lemma sum_list_map_append [simp]:
  "sum_list (map f (xs @ ys)) = sum_list (map f xs) + (sum_list (map f ys) :: nat)"
  by simp

lemma sorted_wrt_drop: "sorted_wrt P xs \<Longrightarrow> sorted_wrt P (drop n xs)"
  by (metis append_take_drop_id sorted_wrt_append)

lemma distinct_map_sort: "distinct (map g (sort_key h xs)) \<longleftrightarrow> distinct (map g xs)"
  by (metis mset_eq_imp_distinct_iff mset_map mset_sort)

section \<open>Reachable states and invariants\<close>

text \<open>
  A component with state is a set of initial states and a step relation. The locale is the
  contract every such component discharges: the invariant holds initially and every step
  keeps it; its conclusion holds in every reachable state.
\<close>

inductive reachable :: "('s \<Rightarrow> bool) \<Rightarrow> ('s \<Rightarrow> 's \<Rightarrow> bool) \<Rightarrow> 's \<Rightarrow> bool"
  for init :: "'s \<Rightarrow> bool" and step :: "'s \<Rightarrow> 's \<Rightarrow> bool" where
  reach_init: "init s \<Longrightarrow> reachable init step s"
| reach_step: "reachable init step s \<Longrightarrow> step s t \<Longrightarrow> reachable init step t"

locale invariant_system =
  fixes init :: "'s \<Rightarrow> bool"
    and step :: "'s \<Rightarrow> 's \<Rightarrow> bool"
    and inv :: "'s \<Rightarrow> bool"
  assumes inv_init: "init s \<Longrightarrow> inv s"
    and inv_step: "step s t \<Longrightarrow> inv s \<Longrightarrow> inv t"
begin

lemma reachable_inv: "reachable init step s \<Longrightarrow> inv s"
  by (induction rule: reachable.induct) (auto intro: inv_init inv_step)

lemma reachable_all: "reachable init step s \<Longrightarrow> (\<And>t. inv t \<Longrightarrow> P t) \<Longrightarrow> P s"
  using reachable_inv by blast

end

section \<open>Logs trimmed from the front\<close>

text \<open>
  Several components keep a log within a budget by dropping the oldest entries while the rest
  is over it. \<open>over\<close> says that a log exceeds the budget, \<open>trim\<close> is the component's loop.
\<close>

locale front_trim =
  fixes over :: "'e list \<Rightarrow> bool"
    and trim :: "'e list \<Rightarrow> 'e list"
  assumes trim_nil: "trim [] = []"
    and trim_cons: "trim (e # es) = (if over (e # es) then trim es else e # es)"
begin

lemma trim_drop: "\<exists>k \<le> length es. trim es = drop k es \<and> (\<forall>j < k. over (drop j es))"
proof (induction es)
  case Nil
  show ?case by (simp add: trim_nil)
next
  case (Cons e es)
  show ?case
  proof (cases "over (e # es)")
    case False
    then show ?thesis by (intro exI [of _ 0]) (simp add: trim_cons)
  next
    case True
    from Cons obtain k where k: "k \<le> length es" "trim es = drop k es" "\<forall>j<k. over (drop j es)"
      by blast
    have "\<forall>j < Suc k. over (drop j (e # es))"
      using True k(3) by (auto simp: less_Suc_eq_0_disj)
    with True k show ?thesis by (intro exI [of _ "Suc k"]) (simp add: trim_cons)
  qed
qed

lemma trim_within: "trim es = [] \<or> \<not> over (trim es)"
  by (induction es) (auto simp: trim_nil trim_cons)

lemma trim_id: "\<not> over es \<Longrightarrow> trim es = es"
  by (cases es) (auto simp: trim_nil trim_cons)

lemma trim_suffix: "\<exists>dropped. es = dropped @ trim es"
  using trim_drop [of es] by (metis append_take_drop_id)

lemma trim_set: "set (trim es) \<subseteq> set es"
  using trim_suffix [of es] by (metis Un_upper2 set_append)

end

end
