(* ===== verification/OutboundQueue.thy ===== *)
theory OutboundQueue
  imports Prelude
begin

text \<open>
  The daemon's per-connection mailbox, \<^verbatim>\<open>internal/codelima/daemon/outbound_queue.go\<close>: a queue of
  two priorities, bounded by count and by bytes. Producers never block; the writer goroutine
  blocks in \<open>Pop\<close> on a capacity-one wake channel. The theory has the operations, the queue's
  invariant, the order and conservation of frames over every run, and the wake-up protocol as
  a transition system with one consumer.
\<close>

section \<open>Data\<close>

datatype outboundPriority = outboundLow | outboundHigh

record queuedOutboundFrame =
  frame_data :: bytes
  frame_enqueuedAt :: gotime

text \<open>
  \<open>oq_wake\<close> says that the capacity-one channel \<^verbatim>\<open>wake\<close> holds its token, \<open>oq_done\<close> that the
  channel \<^verbatim>\<open>done\<close> has been closed.
\<close>

record outboundQueue =
  oq_high :: "queuedOutboundFrame list"
  oq_low :: "queuedOutboundFrame list"
  oq_bytes :: int
  oq_maxFrames :: int
  oq_maxBytes :: int
  oq_closed :: bool
  oq_wake :: bool
  oq_done :: bool

datatype popError = ErrOutboundQueueClosed | ErrContext

section \<open>Operations\<close>

definition newOutboundQueue :: "int \<Rightarrow> int \<Rightarrow> outboundQueue" where
  "newOutboundQueue maxFrames maxBytes =
     \<lparr>oq_high = [], oq_low = [], oq_bytes = 0,
      oq_maxFrames = (if maxFrames \<le> 0 then 1 else maxFrames),
      oq_maxBytes = (if maxBytes \<le> 0 then 1 else maxBytes),
      oq_closed = False, oq_wake = False, oq_done = False\<rparr>"

abbreviation blen :: "bytes \<Rightarrow> int" where
  "blen d \<equiv> int (length d)"

definition TryPush ::
  "outboundQueue \<Rightarrow> bytes \<Rightarrow> outboundPriority \<Rightarrow> gotime \<Rightarrow> outboundQueue \<times> bool" where
  "TryPush q data priority now =
     (if oq_closed q \<or> int (length (oq_high q) + length (oq_low q)) \<ge> oq_maxFrames q
         \<or> oq_bytes q + blen data > oq_maxBytes q
      then (q, False)
      else
        let frame = \<lparr>frame_data = data, frame_enqueuedAt = now\<rparr>;
            q1 = (if priority = outboundHigh
                  then q\<lparr>oq_high := oq_high q @ [frame]\<rparr>
                  else q\<lparr>oq_low := oq_low q @ [frame]\<rparr>)
        in (q1\<lparr>oq_bytes := oq_bytes q1 + blen data, oq_wake := True\<rparr>, True))"

text \<open>
  One pass of the loop of \<open>Pop\<close> under the mutex: a frame, the closed error, or the decision to
  block in the \<^verbatim>\<open>select\<close> below.
\<close>

datatype popPass = PopFrame bytes outboundQueue | PopClosed | PopBlock

definition Pop_pass :: "outboundQueue \<Rightarrow> popPass" where
  "Pop_pass q =
     (case oq_high q of
        frame # rest \<Rightarrow>
          PopFrame (frame_data frame)
            (q\<lparr>oq_high := rest, oq_bytes := oq_bytes q - blen (frame_data frame)\<rparr>)
      | [] \<Rightarrow>
          (case oq_low q of
             frame # rest \<Rightarrow>
               PopFrame (frame_data frame)
                 (q\<lparr>oq_low := rest, oq_bytes := oq_bytes q - blen (frame_data frame)\<rparr>)
           | [] \<Rightarrow> if oq_closed q then PopClosed else PopBlock))"

text \<open>\<open>Stats\<close> at the time \<open>now\<close>: depth, bytes and the age of the oldest queued frame.\<close>

definition Stats :: "outboundQueue \<Rightarrow> gotime \<Rightarrow> nat \<times> int \<times> duration" where
  "Stats q now =
     (let depth = length (oq_high q) + length (oq_low q);
          oldest0 = (case oq_high q of f # _ \<Rightarrow> frame_enqueuedAt f | [] \<Rightarrow> 0);
          oldest = (case oq_low q of
                      f # _ \<Rightarrow> if is_zero_time oldest0 \<or> frame_enqueuedAt f < oldest0
                               then frame_enqueuedAt f else oldest0
                    | [] \<Rightarrow> oldest0)
      in (depth, oq_bytes q, if is_zero_time oldest then 0 else now - oldest))"

text \<open>
  \<open>Close\<close> runs its body once: it sets \<^verbatim>\<open>closed\<close> under the mutex, then closes \<^verbatim>\<open>done\<close> outside
  it. The two halves are separate steps of the protocol below.
\<close>

definition Close_mark :: "outboundQueue \<Rightarrow> outboundQueue" where
  "Close_mark q = q\<lparr>oq_closed := True\<rparr>"

definition Close_done :: "outboundQueue \<Rightarrow> outboundQueue" where
  "Close_done q = q\<lparr>oq_done := True\<rparr>"

definition Close :: "outboundQueue \<Rightarrow> outboundQueue" where
  "Close q = (if oq_closed q then q else Close_done (Close_mark q))"

section \<open>The queue's invariant\<close>

definition frames_bytes :: "queuedOutboundFrame list \<Rightarrow> int" where
  "frames_bytes fs = sum_list (map (\<lambda>f. blen (frame_data f)) fs)"

lemma frames_bytes_simps [simp]:
  "frames_bytes [] = 0"
  "frames_bytes (f # fs) = blen (frame_data f) + frames_bytes fs"
  "frames_bytes (fs @ gs) = frames_bytes fs + frames_bytes gs"
  by (simp_all add: frames_bytes_def)

lemma frames_bytes_nonneg [simp]: "0 \<le> frames_bytes fs"
  by (induction fs) simp_all

definition queue_inv :: "outboundQueue \<Rightarrow> bool" where
  [inv_defs]: "queue_inv q \<longleftrightarrow>
     oq_bytes q = frames_bytes (oq_high q) + frames_bytes (oq_low q)
     \<and> oq_bytes q \<le> oq_maxBytes q
     \<and> int (length (oq_high q) + length (oq_low q)) \<le> oq_maxFrames q
     \<and> 1 \<le> oq_maxFrames q \<and> 1 \<le> oq_maxBytes q"

lemma queue_inv_new: "queue_inv (newOutboundQueue m b)"
  by (simp add: queue_inv_def newOutboundQueue_def)

lemma queue_inv_TryPush: "queue_inv q \<Longrightarrow> TryPush q d p t = (q', ok) \<Longrightarrow> queue_inv q'"
  by (auto simp: queue_inv_def TryPush_def Let_def split: if_splits)

lemma queue_inv_Pop: "queue_inv q \<Longrightarrow> Pop_pass q = PopFrame d q' \<Longrightarrow> queue_inv q'"
  by (auto simp: queue_inv_def Pop_pass_def split: list.splits if_splits)

lemma queue_inv_Close [simp]:
  "queue_inv (Close_mark q) = queue_inv q" "queue_inv (Close_done q) = queue_inv q"
  by (simp_all add: queue_inv_def Close_mark_def Close_done_def)

section \<open>The mailbox interface\<close>

text \<open>
  What a sender relies on: the frames queued per priority as lists, a push that appends to one
  of them or changes nothing, and the invariant. Its lemmas are used by the broadcast.
\<close>

locale mailbox =
  fixes push :: "'q \<Rightarrow> 'd \<Rightarrow> 'p \<Rightarrow> gotime \<Rightarrow> 'q \<times> bool"
    and queued :: "'q \<Rightarrow> 'p \<Rightarrow> 'd list"
    and invar :: "'q \<Rightarrow> bool"
  assumes push_accept: "push q d p t = (q', True) \<Longrightarrow>
      queued q' r = (if r = p then queued q r @ [d] else queued q r)"
    and push_reject: "push q d p t = (q', False) \<Longrightarrow> q' = q"
    and push_invar: "invar q \<Longrightarrow> invar (fst (push q d p t))"
begin

lemma push_queued:
  "queued (fst (push q d p t)) r =
     (if snd (push q d p t) \<and> r = p then queued q r @ [d] else queued q r)"
proof (cases "push q d p t")
  case (Pair q' ok)
  then show ?thesis
    using push_accept [of q d p t q' r] push_reject [of q d p t q'] by (cases ok) auto
qed

end

definition queued_frames :: "outboundQueue \<Rightarrow> outboundPriority \<Rightarrow> bytes list" where
  "queued_frames q p =
     map frame_data (if p = outboundHigh then oq_high q else oq_low q)"

interpretation oq: mailbox TryPush queued_frames queue_inv
proof unfold_locales
  fix q :: outboundQueue and d p t q' r
  show "TryPush q d p t = (q', True) \<Longrightarrow>
      queued_frames q' r = (if r = p then queued_frames q r @ [d] else queued_frames q r)"
    by (cases p; cases r) (auto simp: TryPush_def queued_frames_def Let_def split: if_splits)
  show "TryPush q d p t = (q', False) \<Longrightarrow> q' = q"
    by (auto simp: TryPush_def Let_def split: if_splits)
  show "queue_inv q \<Longrightarrow> queue_inv (fst (TryPush q d p t))"
    by (metis prod.collapse queue_inv_TryPush)
qed

section \<open>Order and conservation over runs\<close>

text \<open>
  A run of the mailbox: pushes, pops and the close, with what was accepted and what was
  delivered recorded per priority.
\<close>

datatype queueOp = OpPush bytes outboundPriority gotime | OpPop | OpClose

record queueRun =
  run_queue :: outboundQueue
  run_accepted :: "(bytes \<times> outboundPriority) list"
  run_delivered :: "(bytes \<times> outboundPriority) list"

definition pop_priority :: "outboundQueue \<Rightarrow> outboundPriority" where
  "pop_priority q = (if oq_high q \<noteq> [] then outboundHigh else outboundLow)"

fun queue_op :: "queueRun \<Rightarrow> queueOp \<Rightarrow> queueRun" where
  "queue_op r (OpPush d p t) =
     (let (q', ok) = TryPush (run_queue r) d p t
      in r\<lparr>run_queue := q',
           run_accepted := run_accepted r @ (if ok then [(d, p)] else [])\<rparr>)"
| "queue_op r OpPop =
     (case Pop_pass (run_queue r) of
        PopFrame d q' \<Rightarrow>
          r\<lparr>run_queue := q',
            run_delivered := run_delivered r @ [(d, pop_priority (run_queue r))]\<rparr>
      | _ \<Rightarrow> r)"
| "queue_op r OpClose = r\<lparr>run_queue := Close (run_queue r)\<rparr>"

definition start_run :: "int \<Rightarrow> int \<Rightarrow> queueRun" where
  "start_run m b = \<lparr>run_queue = newOutboundQueue m b, run_accepted = [], run_delivered = []\<rparr>"

abbreviation of_priority ::
  "outboundPriority \<Rightarrow> (bytes \<times> outboundPriority) list \<Rightarrow> bytes list" where
  "of_priority p xs \<equiv> map fst (filter (\<lambda>(d, q). q = p) xs)"

definition run_inv :: "queueRun \<Rightarrow> bool" where
  "run_inv r \<longleftrightarrow> queue_inv (run_queue r) \<and>
     (\<forall>p. of_priority p (run_accepted r) =
          of_priority p (run_delivered r) @ queued_frames (run_queue r) p)"

lemma queued_frames_close [simp]: "queued_frames (Close q) p = queued_frames q p"
  by (simp add: queued_frames_def Close_def Close_mark_def Close_done_def)

lemma queue_inv_Close_whole [simp]: "queue_inv (Close q) = queue_inv q"
  by (simp add: Close_def)

lemma pop_queued:
  "Pop_pass q = PopFrame d q' \<Longrightarrow>
     queued_frames q p = (if p = pop_priority q then [d] else []) @ queued_frames q' p"
  by (cases p)
     (auto simp: Pop_pass_def queued_frames_def pop_priority_def split: list.splits if_splits)

lemma queue_op_inv: "run_inv r \<Longrightarrow> run_inv (queue_op r op)"
proof (cases op)
  case (OpPush d p t)
  moreover obtain q' ok where "TryPush (run_queue r) d p t = (q', ok)" by fastforce
  moreover assume "run_inv r"
  ultimately show ?thesis
    using oq.push_queued [of "run_queue r" d p t] oq.push_invar [of "run_queue r" d p t]
    by (auto simp: run_inv_def)
next
  case OpPop
  moreover assume "run_inv r"
  ultimately show ?thesis
    by (auto simp: run_inv_def pop_queued queue_inv_Pop split: popPass.splits)
qed (simp add: run_inv_def)

lemma foldl_run_inv: "run_inv r \<Longrightarrow> run_inv (foldl queue_op r ops)"
  by (induction ops arbitrary: r) (simp_all add: queue_op_inv)

lemma run_inv_start: "run_inv (start_run m b)"
  by (simp add: run_inv_def start_run_def queue_inv_new queued_frames_def)
     (simp add: newOutboundQueue_def)

text \<open>
  Property C18: after any sequence of pushes, pops and closes on a fresh mailbox, the frames of
  each priority that were accepted are exactly those delivered, in the order they were pushed,
  followed by those still queued: no accepted frame is lost, duplicated or reordered within
  its priority, and the byte and frame budgets hold with the byte count exact.
\<close>

theorem outbound_frames_conserved:
  "let r = foldl queue_op (start_run m b) ops in
     of_priority p (run_accepted r) =
       of_priority p (run_delivered r) @ queued_frames (run_queue r) p
     \<and> queue_inv (run_queue r)"
  using foldl_run_inv [OF run_inv_start, of m b ops] by (simp add: run_inv_def Let_def)

text \<open>
  A frame is refused exactly when the mailbox is closed, already holds its maximum
  number of frames, or would exceed its byte budget; a refusal changes nothing, and the next
  frame taken is the oldest high-priority frame, or the oldest low-priority one when there is
  none.
\<close>

theorem outbound_admission_and_priority:
  "(\<not> snd (TryPush q d p t)) =
     (oq_closed q \<or> oq_maxFrames q \<le> int (length (oq_high q) + length (oq_low q))
      \<or> oq_maxBytes q < oq_bytes q + blen d)
   \<and> (\<not> snd (TryPush q d p t) \<longrightarrow> fst (TryPush q d p t) = q)
   \<and> (\<forall>d' q'. Pop_pass q = PopFrame d' q' \<longrightarrow>
        queued_frames q outboundHigh @ queued_frames q outboundLow =
        d' # queued_frames q' outboundHigh @ queued_frames q' outboundLow)"
  by (auto simp: TryPush_def Pop_pass_def queued_frames_def Let_def split: list.splits if_splits)

theorem outbound_admission_and_priority_witness:
  "fst (TryPush (Close (newOutboundQueue 1 1)) [7] outboundLow 5) = Close (newOutboundQueue 1 1)
   \<and> Pop_pass (fst (TryPush (newOutboundQueue 1 1) [7] outboundLow 5)) \<noteq> PopClosed"
proof -
  have "\<not> snd (TryPush (Close (newOutboundQueue 1 1)) [7] outboundLow 5)"
    by (simp add: TryPush_def Close_def Close_mark_def Close_done_def newOutboundQueue_def)
  then have "fst (TryPush (Close (newOutboundQueue 1 1)) [7] outboundLow 5)
      = Close (newOutboundQueue 1 1)"
    using outbound_admission_and_priority
      [of "Close (newOutboundQueue 1 1)" "[7]" outboundLow 5] by blast
  then show ?thesis
    by (simp add: TryPush_def newOutboundQueue_def Pop_pass_def)
qed

section \<open>The wake-up protocol\<close>

text \<open>
  Producers, the closer and the single consumer of a connection interleave at the granularity
  of the mutex and channel operations. The consumer is between calls, about to take the mutex
  (\<open>Trying\<close>), blocked in the \<^verbatim>\<open>select\<close> (\<open>Waiting\<close>), or back with a result.
\<close>

datatype consumer = Idle | Trying | Waiting | Got bytes | Failed popError

record mailboxState =
  ms_queue :: outboundQueue
  ms_consumer :: consumer
  ms_closing :: bool

definition mailbox_init :: "mailboxState \<Rightarrow> bool" where
  "mailbox_init s \<longleftrightarrow>
     (\<exists>m b. ms_queue s = newOutboundQueue m b) \<and> ms_consumer s = Idle \<and> \<not> ms_closing s"

inductive mailbox_step :: "mailboxState \<Rightarrow> mailboxState \<Rightarrow> bool" where
  produce: "TryPush (ms_queue s) d p t = (q', ok) \<Longrightarrow>
     mailbox_step s (s\<lparr>ms_queue := q'\<rparr>)"
| close_mark: "\<not> oq_closed (ms_queue s) \<Longrightarrow>
     mailbox_step s (s\<lparr>ms_queue := Close_mark (ms_queue s), ms_closing := True\<rparr>)"
| close_done: "ms_closing s \<Longrightarrow>
     mailbox_step s (s\<lparr>ms_queue := Close_done (ms_queue s), ms_closing := False\<rparr>)"
| call_pop: "ms_consumer s \<in> {Idle} \<union> range Got \<union> range Failed \<Longrightarrow>
     mailbox_step s (s\<lparr>ms_consumer := Trying\<rparr>)"
| take: "ms_consumer s = Trying \<Longrightarrow> Pop_pass (ms_queue s) = PopFrame d q' \<Longrightarrow>
     mailbox_step s (s\<lparr>ms_queue := q', ms_consumer := Got d\<rparr>)"
| closed: "ms_consumer s = Trying \<Longrightarrow> Pop_pass (ms_queue s) = PopClosed \<Longrightarrow>
     mailbox_step s (s\<lparr>ms_consumer := Failed ErrOutboundQueueClosed\<rparr>)"
| block: "ms_consumer s = Trying \<Longrightarrow> Pop_pass (ms_queue s) = PopBlock \<Longrightarrow>
     mailbox_step s (s\<lparr>ms_consumer := Waiting\<rparr>)"
| cancelled: "ms_consumer s = Waiting \<Longrightarrow>
     mailbox_step s (s\<lparr>ms_consumer := Failed ErrContext\<rparr>)"
| done_ready: "ms_consumer s = Waiting \<Longrightarrow> oq_done (ms_queue s) \<Longrightarrow>
     mailbox_step s (s\<lparr>ms_consumer := Failed ErrOutboundQueueClosed\<rparr>)"
| woken: "ms_consumer s = Waiting \<Longrightarrow> oq_wake (ms_queue s) \<Longrightarrow>
     mailbox_step s (s\<lparr>ms_queue := (ms_queue s)\<lparr>oq_wake := False\<rparr>, ms_consumer := Trying\<rparr>)"

definition mailbox_inv :: "mailboxState \<Rightarrow> bool" where
  [inv_defs]: "mailbox_inv s \<longleftrightarrow>
     queue_inv (ms_queue s)
     \<and> (ms_consumer s = Waiting \<and> (oq_high (ms_queue s) \<noteq> [] \<or> oq_low (ms_queue s) \<noteq> [])
          \<longrightarrow> oq_wake (ms_queue s))
     \<and> (oq_closed (ms_queue s) \<longrightarrow> oq_done (ms_queue s) \<or> ms_closing s)"

lemma TryPush_frame:
  assumes "TryPush q d p t = (q', ok)"
  shows "oq_closed q' = oq_closed q" "oq_done q' = oq_done q"
    "oq_wake q \<Longrightarrow> oq_wake q'" "ok \<Longrightarrow> oq_wake q'" "\<not> ok \<Longrightarrow> q' = q"
  using assms by (auto simp: TryPush_def Let_def split: if_splits)

lemma Pop_pass_frame:
  assumes "Pop_pass q = PopFrame d q'"
  shows "oq_closed q' = oq_closed q" "oq_done q' = oq_done q"
  using assms by (auto simp: Pop_pass_def split: list.splits if_splits)

lemma Pop_pass_block:
  "Pop_pass q = PopBlock \<longleftrightarrow> oq_high q = [] \<and> oq_low q = [] \<and> \<not> oq_closed q"
  by (auto simp: Pop_pass_def split: list.splits if_splits)

lemma Pop_pass_nonempty:
  "oq_high q \<noteq> [] \<or> oq_low q \<noteq> [] \<Longrightarrow> \<exists>d q'. Pop_pass q = PopFrame d q'"
  by (auto simp: Pop_pass_def split: list.splits)

lemma mailbox_inv_step: "mailbox_step s t \<Longrightarrow> mailbox_inv s \<Longrightarrow> mailbox_inv t"
proof (induction rule: mailbox_step.induct)
  case (produce s d p t q' ok)
  then show ?case
    using queue_inv_TryPush TryPush_frame [OF produce.hyps]
    by (cases ok) (auto simp: mailbox_inv_def)
next
  case (take s d q')
  then show ?case
    using queue_inv_Pop Pop_pass_frame [OF take.hyps(2)] by (auto simp: mailbox_inv_def)
next
  case (woken s)
  then show ?case by (auto simp: mailbox_inv_def queue_inv_def)
qed (auto simp: mailbox_inv_def Close_mark_def Close_done_def Pop_pass_block queue_inv_def)

interpretation mbx: invariant_system mailbox_init mailbox_step mailbox_inv
proof unfold_locales
  show "mailbox_init s \<Longrightarrow> mailbox_inv s" for s
    by (auto simp: mailbox_init_def mailbox_inv_def queue_inv_new)
       (auto simp: newOutboundQueue_def)
qed (rule mailbox_inv_step)

text \<open>
  Property C33: no wake-up is lost. In every reachable state of the mailbox in which the
  consumer is blocked in its \<^verbatim>\<open>select\<close> while a frame is queued, the wake token is in the
  channel, and consuming it leads the consumer to a state from which it takes a frame; and a
  blocked consumer of a closed mailbox has the close notification in front of it once the
  closer has finished.
\<close>

theorem outbound_no_lost_wakeup:
  assumes "reachable mailbox_init mailbox_step s" and "ms_consumer s = Waiting"
  shows "(oq_high (ms_queue s) \<noteq> [] \<or> oq_low (ms_queue s) \<noteq> [] \<longrightarrow>
            oq_wake (ms_queue s) \<and>
            (\<exists>t u d. mailbox_step s t \<and> mailbox_step t u \<and> ms_consumer u = Got d))
    \<and> (oq_closed (ms_queue s) \<and> \<not> ms_closing s \<longrightarrow> oq_done (ms_queue s))"
proof -
  have inv: "mailbox_inv s" using assms(1) by (rule mbx.reachable_inv)
  have "\<exists>t u d. mailbox_step s t \<and> mailbox_step t u \<and> ms_consumer u = Got d"
    if ne: "oq_high (ms_queue s) \<noteq> [] \<or> oq_low (ms_queue s) \<noteq> []"
  proof -
    let ?t = "s\<lparr>ms_queue := (ms_queue s)\<lparr>oq_wake := False\<rparr>, ms_consumer := Trying\<rparr>"
    obtain d q' where pop: "Pop_pass (ms_queue ?t) = PopFrame d q'"
      using ne Pop_pass_nonempty [of "ms_queue ?t"] by auto
    have "mailbox_step s ?t"
      using assms(2) inv ne by (intro mailbox_step.woken) (auto simp: mailbox_inv_def)
    moreover have "mailbox_step ?t (?t\<lparr>ms_queue := q', ms_consumer := Got d\<rparr>)"
      using pop by (intro mailbox_step.take) simp_all
    ultimately show ?thesis by fastforce
  qed
  with inv assms(2) show ?thesis by (auto simp: mailbox_inv_def)
qed

text \<open>The run of the witness: a consumer blocks on an empty mailbox, then a frame is pushed.\<close>

definition blocked_with_frame :: mailboxState where
  "blocked_with_frame =
     \<lparr>ms_queue = fst (TryPush (newOutboundQueue 2 10) [7] outboundLow 5),
      ms_consumer = Waiting, ms_closing = False\<rparr>"

lemma blocked_with_frame_reachable: "reachable mailbox_init mailbox_step blocked_with_frame"
proof -
  let ?q = "newOutboundQueue 2 10"
  let ?s = "\<lambda>c. \<lparr>ms_queue = ?q, ms_consumer = c, ms_closing = False\<rparr>"
  have r0: "reachable mailbox_init mailbox_step (?s Idle)"
    by (rule reach_init) (auto simp: mailbox_init_def)
  have r1: "reachable mailbox_init mailbox_step (?s Trying)"
    using reach_step [OF r0 mailbox_step.call_pop] by simp
  have r2: "reachable mailbox_init mailbox_step (?s Waiting)"
    using reach_step [OF r1 mailbox_step.block]
    by (simp add: Pop_pass_block newOutboundQueue_def)
  have "TryPush (ms_queue (?s Waiting)) [7] outboundLow 5
      = (fst (TryPush ?q [7] outboundLow 5), True)"
    by (simp add: TryPush_def newOutboundQueue_def)
  from reach_step [OF r2 mailbox_step.produce [OF this]]
  show ?thesis by (simp add: blocked_with_frame_def)
qed

theorem outbound_no_lost_wakeup_witness:
  "oq_wake (ms_queue blocked_with_frame)
   \<and> (\<exists>t u d. mailbox_step blocked_with_frame t \<and> mailbox_step t u \<and> ms_consumer u = Got d)"
proof -
  have "ms_consumer blocked_with_frame = Waiting" by (simp add: blocked_with_frame_def)
  moreover have "oq_high (ms_queue blocked_with_frame) \<noteq> []
      \<or> oq_low (ms_queue blocked_with_frame) \<noteq> []"
    by (simp add: blocked_with_frame_def TryPush_def newOutboundQueue_def)
  ultimately show ?thesis
    using outbound_no_lost_wakeup [OF blocked_with_frame_reachable] by blast
qed

end
