(* ===== verification/RendererJournal.thy ===== *)
theory RendererJournal
  imports Prelude
begin

text \<open>
  The replay journal of a terminal: \<^verbatim>\<open>renderer_journal.go\<close> (append, coalesce, trim, reset),
  \<^verbatim>\<open>renderer_journal_output.go\<close> (bounded cursor reads for attached terminals) and
  \<open>tailAfter\<close> of \<^verbatim>\<open>renderer_checkpoint.go\<close> (the events a checkpoint has not applied). The
  invariant is that the retained events are a gap-free run of identifiers ending at the newest
  one; the reads and the tail are characterised against it.
\<close>

section \<open>Data\<close>

abbreviation output_type :: string where "output_type \<equiv> ''output''"
abbreviation resize_type :: string where "resize_type \<equiv> ''resize''"

record rendererJournalEvent =
  ev_ID :: u64
  ev_FirstID :: u64
  ev_Type :: string
  ev_Data :: bytes
  ev_Cols :: int
  ev_Rows :: int
  ev_CellWidth :: int
  ev_CellHeight :: int

record rendererJournal =
  j_maxBytes :: int
  j_nextID :: u64
  j_events :: "rendererJournalEvent list"
  j_bytes :: int
  j_partial :: bool
  j_cols :: int
  j_rows :: int
  j_cellWidth :: int
  j_cellHeight :: int

record rendererJournalSnapshot =
  sn_CellWidth :: int
  sn_CellHeight :: int
  sn_Events :: "rendererJournalEvent list"
  sn_Partial :: bool
  sn_Bytes :: int
  sn_Cols :: int
  sn_Rows :: int
  sn_LastID :: u64

record rendererJournalStats =
  st_CellWidth :: int
  st_CellHeight :: int
  st_Events :: nat
  st_Bytes :: int
  st_Partial :: bool
  st_Cols :: int
  st_Rows :: int
  st_LastID :: u64

definition defaultRendererJournalBytes :: int where
  "defaultRendererJournalBytes = 1048576"

definition rendererResizeEventBytes :: int where
  "rendererResizeEventBytes = 64"

section \<open>Operations\<close>

definition rendererJournalEventBytes :: "rendererJournalEvent \<Rightarrow> int" where
  "rendererJournalEventBytes event =
     (if ev_Type event = resize_type then rendererResizeEventBytes
      else int (length (ev_Data event)))"

definition newRendererJournal :: "int \<Rightarrow> rendererJournal" where
  "newRendererJournal maxBytes =
     \<lparr>j_maxBytes = (if maxBytes \<le> 0 then defaultRendererJournalBytes else maxBytes),
      j_nextID = 0, j_events = [], j_bytes = 0, j_partial = False, j_cols = 0, j_rows = 0,
      j_cellWidth = 0, j_cellHeight = 0\<rparr>"

text \<open>The loop of \<open>trimLocked\<close> over the events, the byte count and the partial flag.\<close>

fun trim_loop ::
  "int \<Rightarrow> rendererJournalEvent list \<Rightarrow> int \<Rightarrow> bool \<Rightarrow> rendererJournalEvent list \<times> int \<times> bool" where
  "trim_loop maxBytes [] bytes partial = ([], bytes, partial)"
| "trim_loop maxBytes (removed # rest) bytes partial =
     (if bytes > maxBytes
      then trim_loop maxBytes rest (bytes - rendererJournalEventBytes removed) True
      else (removed # rest, bytes, partial))"

definition trimLocked :: "rendererJournal \<Rightarrow> rendererJournal" where
  "trimLocked j =
     (let (events, bytes, partial) = trim_loop (j_maxBytes j) (j_events j) (j_bytes j) (j_partial j)
      in j\<lparr>j_events := events, j_bytes := bytes, j_partial := partial\<rparr>)"

definition AppendOutput ::
  "rendererJournal \<Rightarrow> bytes \<Rightarrow> rendererJournal \<times> rendererJournalEvent" where
  "AppendOutput j data =
     (let event = \<lparr>ev_ID = j_nextID j + 1, ev_FirstID = 0, ev_Type = output_type,
                   ev_Data = data, ev_Cols = 0, ev_Rows = 0, ev_CellWidth = 0, ev_CellHeight = 0\<rparr>
      in (trimLocked
            (j\<lparr>j_nextID := j_nextID j + 1, j_events := j_events j @ [event],
               j_bytes := j_bytes j + rendererJournalEventBytes event\<rparr>),
          event))"

text \<open>The span of a resize that replaces \<open>prev\<close>: from the first geometry it supersedes.\<close>

definition coalesced_first :: "rendererJournalEvent \<Rightarrow> u64" where
  "coalesced_first prev =
     (if ev_FirstID prev = 0 then ev_ID prev else ev_FirstID prev)"

definition AppendResizePixels ::
  "rendererJournal \<Rightarrow> int \<Rightarrow> int \<Rightarrow> int \<Rightarrow> int \<Rightarrow> rendererJournal \<times> rendererJournalEvent" where
  "AppendResizePixels j cols rows cellWidth cellHeight =
     (let (cw, ch) = (if cellWidth > 0 \<and> cellHeight > 0 then (cellWidth, cellHeight)
                      else (j_cellWidth j, j_cellHeight j));
          event = \<lparr>ev_ID = j_nextID j + 1, ev_FirstID = 0, ev_Type = resize_type, ev_Data = [],
                   ev_Cols = cols, ev_Rows = rows, ev_CellWidth = cw, ev_CellHeight = ch\<rparr>;
          j1 = j\<lparr>j_cellWidth := cw, j_cellHeight := ch, j_nextID := j_nextID j + 1\<rparr>;
          (event1, j2) =
            (if j_events j \<noteq> [] \<and> ev_Type (last (j_events j)) = resize_type
             then let replaced = last (j_events j);
                      event1 = event\<lparr>ev_FirstID := coalesced_first replaced\<rparr>
                  in (event1,
                      j1\<lparr>j_bytes := j_bytes j - rendererJournalEventBytes replaced,
                         j_events := butlast (j_events j) @ [event1]\<rparr>)
             else (event, j1\<lparr>j_events := j_events j @ [event]\<rparr>))
      in (trimLocked
            (j2\<lparr>j_bytes := j_bytes j2 + rendererJournalEventBytes event1,
                j_cols := cols, j_rows := rows\<rparr>),
          event1))"

definition AppendResize ::
  "rendererJournal \<Rightarrow> int \<Rightarrow> int \<Rightarrow> rendererJournal \<times> rendererJournalEvent" where
  "AppendResize j cols rows = AppendResizePixels j cols rows 0 0"

definition Snapshot :: "rendererJournal \<Rightarrow> rendererJournalSnapshot" where
  "Snapshot j =
     \<lparr>sn_CellWidth = j_cellWidth j, sn_CellHeight = j_cellHeight j, sn_Events = j_events j,
      sn_Partial = j_partial j, sn_Bytes = j_bytes j, sn_Cols = j_cols j, sn_Rows = j_rows j,
      sn_LastID = j_nextID j\<rparr>"

definition JournalStats :: "rendererJournal \<Rightarrow> rendererJournalStats" where
  "JournalStats j =
     \<lparr>st_CellWidth = j_cellWidth j, st_CellHeight = j_cellHeight j,
      st_Events = length (j_events j), st_Bytes = j_bytes j, st_Partial = j_partial j,
      st_Cols = j_cols j, st_Rows = j_rows j, st_LastID = j_nextID j\<rparr>"

definition Reset :: "rendererJournal \<Rightarrow> rendererJournal" where
  "Reset j = (if j_events j = [] then j
              else j\<lparr>j_events := [], j_bytes := 0, j_partial := True\<rparr>)"

section \<open>Cursor reads\<close>

datatype readError = InvalidCursor | RetentionExceeded | ChunkExceedsLimit

definition first_id :: "rendererJournalEvent \<Rightarrow> u64" where
  "first_id event = (if ev_FirstID event = 0 then ev_ID event else ev_FirstID event)"

text \<open>
  The loop of \<open>readOutputAfter\<close>: \<open>data\<close> and \<open>through\<close> are its variables, \<open>Inl\<close> an early error
  return, \<open>Inr\<close> the values after the loop ends or breaks.
\<close>

fun read_loop ::
  "u64 \<Rightarrow> int \<Rightarrow> rendererJournalEvent list \<Rightarrow> bytes \<Rightarrow> u64 \<Rightarrow> (readError, bytes \<times> u64) result" where
  "read_loop after limit [] data through = Inr (data, through)"
| "read_loop after limit (event # rest) data through =
     (if ev_ID event \<le> after then read_loop after limit rest data through
      else if first_id event > through + 1 then Inl RetentionExceeded
      else if ev_Type event = output_type then
        (if int (length (ev_Data event)) > limit - int (length data)
         then (if data = [] then Inl ChunkExceedsLimit else Inr (data, through))
         else read_loop after limit rest (data @ ev_Data event) (ev_ID event))
      else read_loop after limit rest data (ev_ID event))"

lemma first_id_make [simp]:
  "first_id \<lparr>ev_ID = i, ev_FirstID = f, ev_Type = ty, ev_Data = d, ev_Cols = c, ev_Rows = r,
     ev_CellWidth = w, ev_CellHeight = h\<rparr> = (if f = 0 then i else f)"
  by (simp add: first_id_def)

definition readOutputAfter ::
  "rendererJournal \<Rightarrow> u64 \<Rightarrow> int \<Rightarrow> (readError, bytes \<times> u64) result" where
  "readOutputAfter j after limit =
     (if after > j_nextID j \<or> limit \<le> 0 then Inl InvalidCursor
      else case read_loop after limit (j_events j) [] after of
        Inl e \<Rightarrow> Inl e
      | Inr (data, through) \<Rightarrow>
          if through = after \<and> after \<noteq> j_nextID j then Inl RetentionExceeded
          else Inr (data, through))"

section \<open>The tail after a checkpoint\<close>

text \<open>
  The loop of \<open>tailAfter\<close> over its variables: the result's events and bytes and the expected
  identifier; the flag is false for the early return on an uncovered identifier.
\<close>

fun tail_loop ::
  "u64 \<Rightarrow> rendererJournalEvent list \<Rightarrow> rendererJournalEvent list \<Rightarrow> int \<Rightarrow> u64
     \<Rightarrow> rendererJournalEvent list \<times> int \<times> u64 \<times> bool" where
  "tail_loop applied [] events bytes expected = (events, bytes, expected, True)"
| "tail_loop applied (event # rest) events bytes expected =
     (if ev_ID event \<le> applied then tail_loop applied rest events bytes expected
      else if first_id event > expected \<or> ev_ID event < expected
      then (events, bytes, expected, False)
      else tail_loop applied rest (events @ [event])
             (bytes + rendererJournalEventBytes event) (ev_ID event + 1))"

definition tailAfter ::
  "rendererJournalSnapshot \<Rightarrow> u64 \<Rightarrow> rendererJournalSnapshot \<times> bool" where
  "tailAfter j applied =
     (let result = \<lparr>sn_CellWidth = sn_CellWidth j, sn_CellHeight = sn_CellHeight j,
                    sn_Events = [], sn_Partial = False, sn_Bytes = 0, sn_Cols = sn_Cols j,
                    sn_Rows = sn_Rows j, sn_LastID = sn_LastID j\<rparr>
      in if applied > sn_LastID j then (result, False)
         else case tail_loop applied (sn_Events j) [] 0 (applied + 1) of
           (events, bytes, expected, ok) \<Rightarrow>
             (result\<lparr>sn_Events := events, sn_Bytes := bytes\<rparr>,
              ok \<and> expected = sn_LastID j + 1))"

section \<open>The invariant\<close>

definition events_bytes :: "rendererJournalEvent list \<Rightarrow> int" where
  "events_bytes es = sum_list (map rendererJournalEventBytes es)"

lemma events_bytes_simps [simp]:
  "events_bytes [] = 0"
  "events_bytes (e # es) = rendererJournalEventBytes e + events_bytes es"
  "events_bytes (es @ fs) = events_bytes es + events_bytes fs"
  by (simp_all add: events_bytes_def)

lemma rendererJournalEventBytes_nonneg [simp]: "0 \<le> rendererJournalEventBytes e"
  by (simp add: rendererJournalEventBytes_def rendererResizeEventBytes_def)

lemma events_bytes_nonneg [simp]: "0 \<le> events_bytes es"
  by (induction es) simp_all

text \<open>
  \<open>contig a es b\<close>: the events cover the identifiers after \<open>a\<close> up to \<open>b\<close> without a gap, each
  from the first geometry it supersedes to its own identifier.
\<close>

fun contig :: "nat \<Rightarrow> rendererJournalEvent list \<Rightarrow> nat \<Rightarrow> bool" where
  "contig a [] b \<longleftrightarrow> a = b"
| "contig a (e # es) b \<longleftrightarrow>
     unat (first_id e) = Suc a \<and> a < unat (ev_ID e) \<and> contig (unat (ev_ID e)) es b"

definition event_ok :: "rendererJournalEvent \<Rightarrow> bool" where
  "event_ok e \<longleftrightarrow> (ev_Type e = output_type \<and> ev_FirstID e = 0)
     \<or> (ev_Type e = resize_type \<and> ev_Data e = [])"

definition journal_inv :: "rendererJournal \<Rightarrow> bool" where
  [inv_defs]: "journal_inv j \<longleftrightarrow>
     0 < j_maxBytes j
     \<and> j_bytes j = events_bytes (j_events j) \<and> j_bytes j \<le> j_maxBytes j
     \<and> list_all event_ok (j_events j)
     \<and> (\<exists>a. contig a (j_events j) (unat (j_nextID j)) \<and> (j_partial j \<or> a = 0))"

lemma contig_append: "contig a (xs @ ys) b \<longleftrightarrow> (\<exists>m. contig a xs m \<and> contig m ys b)"
  by (induction xs arbitrary: a) auto

lemma contig_le: "contig a es b \<Longrightarrow> a \<le> b"
  by (induction es arbitrary: a) (force dest: less_imp_le_nat)+

lemma contig_drop: "contig a es b \<Longrightarrow> \<exists>a'. contig a' (drop k es) b \<and> (k = 0 \<longrightarrow> a' = a)"
  by (metis append_take_drop_id contig_append drop0)

lemma contig_ids: "contig a es b \<Longrightarrow> e \<in> set es \<Longrightarrow> a < unat (ev_ID e) \<and> unat (ev_ID e) \<le> b"
proof (induction es arbitrary: a)
  case (Cons x es)
  show ?case
  proof (cases "e = x")
    case True
    with Cons.prems(1) show ?thesis using contig_le by auto
  next
    case False
    with Cons show ?thesis by fastforce
  qed
qed simp

lemma first_id_output: "event_ok e \<Longrightarrow> ev_Type e = output_type \<Longrightarrow> first_id e = ev_ID e"
  by (auto simp: event_ok_def first_id_def)

subsection \<open>Trimming\<close>

text \<open>\<open>trimLocked\<close> is the front trim of the journal's byte budget.\<close>

lemma trim_loop_eq:
  "bytes = events_bytes es \<Longrightarrow> trim_loop m es bytes p =
     (let kept = fst (trim_loop m es bytes p)
      in (kept, events_bytes kept, p \<or> length kept < length es))"
proof (induction m es bytes p rule: trim_loop.induct)
  case (2 m e es bytes p)
  show ?case
  proof (cases "bytes > m")
    case True
    define kept where "kept = fst (trim_loop m es (events_bytes es) True)"
    have rec: "trim_loop m (e # es) bytes p = trim_loop m es (events_bytes es) True"
      using True "2.prems" by simp
    have "trim_loop m es (events_bytes es) True = (kept, events_bytes kept, True)"
      using "2.IH" [OF True] "2.prems" by (simp add: kept_def Let_def)
    moreover have "length kept \<le> length es"
      unfolding kept_def
      by (rule trim_loop.induct [of "\<lambda>m es b p. length (fst (trim_loop m es b p)) \<le> length es"]) auto
    ultimately show ?thesis by (simp add: rec Let_def del: trim_loop.simps)
  qed (use "2.prems" in simp)
qed simp

definition kept_events :: "int \<Rightarrow> rendererJournalEvent list \<Rightarrow> rendererJournalEvent list" where
  "kept_events m es = fst (trim_loop m es (events_bytes es) False)"

lemma trim_loop_partial: "fst (trim_loop m es b p) = fst (trim_loop m es b q)"
  by (cases es) auto

interpretation jt: front_trim "\<lambda>es. events_bytes es > m" "kept_events m" for m
proof unfold_locales
  show "kept_events m [] = []" by (simp add: kept_events_def)
  show "kept_events m (e # es) =
      (if events_bytes (e # es) > m then kept_events m es else e # es)" for e es
    using trim_loop_partial [of m es "events_bytes es" True False] by (simp add: kept_events_def)
qed

lemma trimLocked_eq:
  assumes "j_bytes j = events_bytes (j_events j)"
  shows "trimLocked j = j\<lparr>j_events := kept_events (j_maxBytes j) (j_events j),
     j_bytes := events_bytes (kept_events (j_maxBytes j) (j_events j)),
     j_partial := j_partial j \<or>
       length (kept_events (j_maxBytes j) (j_events j)) < length (j_events j)\<rparr>"
proof -
  have "fst (trim_loop (j_maxBytes j) (j_events j) (j_bytes j) (j_partial j))
      = kept_events (j_maxBytes j) (j_events j)"
    using assms trim_loop_partial unfolding kept_events_def by metis
  with trim_loop_eq [OF assms, of "j_maxBytes j" "j_partial j"] show ?thesis
    by (simp add: trimLocked_def Let_def)
qed

lemma journal_inv_trim:
  assumes "0 < j_maxBytes j" "j_bytes j = events_bytes (j_events j)"
    and "list_all event_ok (j_events j)"
    and "contig a (j_events j) (unat (j_nextID j))" "j_partial j \<or> a = 0"
  shows "journal_inv (trimLocked j)"
proof -
  let ?k = "kept_events (j_maxBytes j) (j_events j)"
  obtain n where n: "n \<le> length (j_events j)" "?k = drop n (j_events j)"
    using jt.trim_drop by blast
  obtain a' where a': "contig a' ?k (unat (j_nextID j))" "n = 0 \<longrightarrow> a' = a"
    using contig_drop [OF assms(4)] n(2) by metis
  have "j_partial j \<or> length ?k < length (j_events j) \<or> a' = 0"
    using n a'(2) assms(5) by (cases "n = 0") auto
  moreover have "events_bytes ?k \<le> j_maxBytes j"
    using jt.trim_within [of "j_maxBytes j" "j_events j"] assms(1) by auto
  moreover have "list_all event_ok ?k"
    using assms(3) jt.trim_set by (metis (no_types, lifting) list_all_iff subset_iff)
  ultimately show ?thesis
    using assms(1) a'(1) unfolding journal_inv_def trimLocked_eq [OF assms(2)] by auto
qed

lemma trimLocked_frame [simp]:
  "j_nextID (trimLocked j) = j_nextID j" "j_maxBytes (trimLocked j) = j_maxBytes j"
  "j_cellWidth (trimLocked j) = j_cellWidth j" "j_cellHeight (trimLocked j) = j_cellHeight j"
  "j_cols (trimLocked j) = j_cols j" "j_rows (trimLocked j) = j_rows j"
  by (simp_all add: trimLocked_def Let_def split: prod.splits)

subsection \<open>Every operation keeps the invariant\<close>

lemma journal_inv_new: "journal_inv (newRendererJournal m)"
  by (simp add: journal_inv_def newRendererJournal_def defaultRendererJournalBytes_def)

lemma journal_inv_output:
  assumes "journal_inv j" "j_nextID j \<noteq> - 1"
  shows "journal_inv (fst (AppendOutput j d))"
proof -
  from assms(1) obtain a where a: "contig a (j_events j) (unat (j_nextID j))" "j_partial j \<or> a = 0"
    by (auto simp: journal_inv_def)
  show ?thesis
    unfolding AppendOutput_def Let_def fst_conv
    by (rule journal_inv_trim [where a = a])
      (use assms a in \<open>auto simp: journal_inv_def contig_append event_ok_def first_id_def
         unat_plus_one\<close>)
qed

lemma coalesced_first_id: "coalesced_first e = first_id e"
  by (simp add: coalesced_first_def first_id_def)

lemma contig_snoc:
  "contig a (es @ [e]) b \<longleftrightarrow>
     (\<exists>m. contig a es m \<and> unat (first_id e) = Suc m \<and> m < unat (ev_ID e)) \<and> b = unat (ev_ID e)"
  by (auto simp: contig_append)

lemma contig_coalesce:
  assumes "contig a (es @ [l]) (unat n)" "n \<noteq> - 1" "first_id e = first_id l" "ev_ID e = n + 1"
  shows "contig a (es @ [e]) (unat (n + 1))"
  using assms by (auto simp: contig_snoc unat_plus_one)

lemma journal_inv_resize:
  assumes inv: "journal_inv j" and nid: "j_nextID j \<noteq> - 1"
  shows "journal_inv (fst (AppendResizePixels j c r w h))"
proof -
  from inv obtain a where a: "contig a (j_events j) (unat (j_nextID j))" "j_partial j \<or> a = 0"
    by (auto simp: journal_inv_def)
  show ?thesis
  proof (cases "j_events j \<noteq> [] \<and> ev_Type (last (j_events j)) = resize_type")
    case False
    show ?thesis
      unfolding AppendResizePixels_def Let_def if_not_P [OF False] prod.case split_beta fst_conv
      by (rule journal_inv_trim [where a = a])
        (use inv nid a in \<open>auto simp: journal_inv_def contig_snoc event_ok_def
           unat_plus_one\<close>)
  next
    case True
    then obtain es l where es: "j_events j = es @ [l]"
      by (metis append_butlast_last_id)
    with a(1) have nz: "first_id l \<noteq> 0" by (auto simp: contig_snoc)
    from True es have ty: "ev_Type l = resize_type" by simp
    show ?thesis
      unfolding AppendResizePixels_def Let_def if_P [OF True] prod.case split_beta fst_conv
    proof (rule journal_inv_trim [where a = a], goal_cases)
      case 4
      show ?case
        using contig_coalesce [OF a(1) [unfolded es] nid] nz es
        by (simp add: coalesced_first_id)
    qed (use inv es ty a(2) in \<open>simp_all add: journal_inv_def event_ok_def\<close>)
  qed
qed

lemma journal_inv_reset: "journal_inv j \<Longrightarrow> journal_inv (Reset j)"
  by (auto simp: journal_inv_def Reset_def)

section \<open>Runs of the journal and the history they stand for\<close>

datatype journalOp = JOutput bytes | JResize int int int int | JReset

text \<open>
  \<open>jr_history\<close> is the list of all events the journal ever returned to the supervisor, which
  forwards each of them to the renderer.
\<close>

record journalRun =
  jr_journal :: rendererJournal
  jr_history :: "rendererJournalEvent list"

definition journal_append ::
  "journalRun \<Rightarrow> rendererJournal \<times> rendererJournalEvent \<Rightarrow> journalRun" where
  "journal_append r res = \<lparr>jr_journal = fst res, jr_history = jr_history r @ [snd res]\<rparr>"

fun journal_op :: "journalRun \<Rightarrow> journalOp \<Rightarrow> journalRun" where
  "journal_op r (JOutput d) = journal_append r (AppendOutput (jr_journal r) d)"
| "journal_op r (JResize c w x y) = journal_append r (AppendResizePixels (jr_journal r) c w x y)"
| "journal_op r JReset = r\<lparr>jr_journal := Reset (jr_journal r)\<rparr>"

definition journal_run :: "int \<Rightarrow> journalOp list \<Rightarrow> journalRun" where
  "journal_run m ops =
     foldl journal_op \<lparr>jr_journal = newRendererJournal m, jr_history = []\<rparr> ops"

definition output_of :: "rendererJournalEvent \<Rightarrow> bytes" where
  "output_of e = (if ev_Type e = output_type then ev_Data e else [])"

definition outputs :: "rendererJournalEvent list \<Rightarrow> bytes" where
  "outputs es = concat (map output_of es)"

lemma outputs_simps [simp]:
  "outputs [] = []" "outputs (e # es) = output_of e @ outputs es"
  "outputs (es @ fs) = outputs es @ outputs fs"
  by (simp_all add: outputs_def)

text \<open>A span of the history: the identifiers it covers, and that a resize covers resizes only.\<close>

definition span_ok :: "rendererJournalEvent list \<Rightarrow> rendererJournalEvent \<Rightarrow> bool" where
  "span_ok h e \<longleftrightarrow>
     0 < unat (first_id e) \<and> unat (first_id e) \<le> unat (ev_ID e) \<and> unat (ev_ID e) \<le> length h
     \<and> (\<forall>k. unat (first_id e) \<le> k \<and> k \<le> unat (ev_ID e) \<and> ev_Type e = resize_type
            \<longrightarrow> ev_Type (h ! (k - 1)) = resize_type)"

definition history_inv :: "journalRun \<Rightarrow> bool" where
  [inv_defs]: "history_inv r \<longleftrightarrow>
     journal_inv (jr_journal r)
     \<and> unat (j_nextID (jr_journal r)) = length (jr_history r)
     \<and> (\<forall>i < length (jr_history r). unat (ev_ID (jr_history r ! i)) = Suc i)
     \<and> list_all event_ok (jr_history r)
     \<and> list_all (span_ok (jr_history r)) (jr_history r)
     \<and> list_all (span_ok (jr_history r)) (j_events (jr_journal r))
     \<and> (\<exists>pre. outputs (jr_history r) = pre @ outputs (j_events (jr_journal r))
            \<and> (j_partial (jr_journal r) \<or> pre = []))"

text \<open>What an append does, whatever its kind: the common part of both operations.\<close>

definition append_effect :: "rendererJournal \<Rightarrow> rendererJournal \<Rightarrow> rendererJournalEvent \<Rightarrow> bool" where
  "append_effect j j' e \<longleftrightarrow>
     journal_inv j' \<and> j_nextID j' = j_nextID j + 1 \<and> ev_ID e = j_nextID j + 1 \<and> event_ok e
     \<and> set (j_events j') \<subseteq> insert e (set (j_events j))
     \<and> (\<exists>d. outputs (j_events j) @ output_of e = d @ outputs (j_events j')
            \<and> (j_partial j' \<or> (d = [] \<and> \<not> j_partial j)))
     \<and> (first_id e = ev_ID e
        \<or> (ev_Type e = resize_type \<and>
           (\<exists>l \<in> set (j_events j). ev_Type l = resize_type \<and> ev_ID l = j_nextID j
              \<and> first_id l = first_id e)))"

lemma trim_outputs:
  assumes "j_bytes j = events_bytes (j_events j)"
  shows "set (j_events (trimLocked j)) \<subseteq> set (j_events j)"
    and "\<exists>d. outputs (j_events j) = d @ outputs (j_events (trimLocked j))
            \<and> (j_partial (trimLocked j) \<or> (d = [] \<and> \<not> j_partial j))"
proof -
  let ?k = "kept_events (j_maxBytes j) (j_events j)"
  obtain n where n: "n \<le> length (j_events j)" "?k = drop n (j_events j)"
    using jt.trim_drop by blast
  show "set (j_events (trimLocked j)) \<subseteq> set (j_events j)"
    using jt.trim_set by (simp add: trimLocked_eq [OF assms])
  have "outputs (j_events j) = outputs (take n (j_events j)) @ outputs ?k"
    unfolding n(2) by (metis append_take_drop_id outputs_simps(3))
  moreover have "n = 0 \<or> length ?k < length (j_events j)" using n by auto
  ultimately show "\<exists>d. outputs (j_events j) = d @ outputs (j_events (trimLocked j))
            \<and> (j_partial (trimLocked j) \<or> (d = [] \<and> \<not> j_partial j))"
    by (auto simp: trimLocked_eq [OF assms])
qed

lemma append_effectI:
  assumes "journal_inv (trimLocked i)" "j_bytes i = events_bytes (j_events i)"
    and "j_nextID i = j_nextID j + 1" "ev_ID e = j_nextID j + 1" "event_ok e"
    and "set (j_events i) \<subseteq> insert e (set (j_events j))"
    and "outputs (j_events i) = outputs (j_events j) @ output_of e" "j_partial i = j_partial j"
    and "first_id e = ev_ID e
        \<or> (ev_Type e = resize_type \<and>
           (\<exists>l \<in> set (j_events j). ev_Type l = resize_type \<and> ev_ID l = j_nextID j
              \<and> first_id l = first_id e))"
  shows "append_effect j (trimLocked i) e"
  unfolding append_effect_def
  using assms trim_outputs [OF assms(2)] by (auto simp: subset_iff)

lemma AppendOutput_effect:
  assumes "journal_inv j" "j_nextID j \<noteq> - 1"
  shows "append_effect j (fst (AppendOutput j d)) (snd (AppendOutput j d))"
  using journal_inv_output [OF assms, of d] assms(1)
  unfolding AppendOutput_def Let_def fst_conv snd_conv
  by (intro append_effectI) (auto simp: journal_inv_def event_ok_def)

lemma AppendResize_effect:
  assumes inv: "journal_inv j" and nid: "j_nextID j \<noteq> - 1"
  shows "append_effect j (fst (AppendResizePixels j c r w h)) (snd (AppendResizePixels j c r w h))"
proof (cases "j_events j \<noteq> [] \<and> ev_Type (last (j_events j)) = resize_type")
  case False
  show ?thesis
    using journal_inv_resize [OF inv nid, of c r w h] inv
    unfolding AppendResizePixels_def Let_def if_not_P [OF False] prod.case split_beta fst_conv snd_conv
    by (intro append_effectI) (auto simp: journal_inv_def event_ok_def output_of_def)
next
  case True
  then obtain es l where es: "j_events j = es @ [l]" by (metis append_butlast_last_id)
  from inv es have l: "ev_ID l = j_nextID j" "first_id l \<noteq> 0"
    by (auto simp: journal_inv_def contig_snoc word_unat_eq_iff)
  show ?thesis
    using journal_inv_resize [OF inv nid, of c r w h] inv True l es
    unfolding AppendResizePixels_def Let_def if_P [OF True] prod.case split_beta fst_conv snd_conv
    by (intro append_effectI)
      (simp_all add: journal_inv_def event_ok_def output_of_def coalesced_first_id, auto)
qed

lemma span_ok_mono: "span_ok h e \<Longrightarrow> span_ok (h @ [x]) e"
  by (auto simp: span_ok_def nth_append)

lemma history_inv_append:
  assumes inv: "history_inv r" and len: "length (jr_history r) < 2 ^ 64 - 1"
    and eff: "append_effect (jr_journal r) (fst res) (snd res)"
  shows "history_inv (journal_append r res)"
proof -
  define j h e where "j = jr_journal r" "h = jr_history r" "e = snd res"
  note jhe = this
  have n: "unat (j_nextID j) = length h" and ids: "\<forall>i<length h. unat (ev_ID (h ! i)) = Suc i"
    using inv by (auto simp: history_inv_def jhe)
  have "j_nextID j \<noteq> - 1"
    using n len unat_max_u64 by (auto simp: jhe)
  then have id: "unat (ev_ID e) = Suc (length h)" and nx: "unat (j_nextID (fst res)) = Suc (length h)"
    using eff n by (auto simp: append_effect_def jhe unat_plus_one)
  have spans: "list_all (span_ok (h @ [e])) h" "list_all (span_ok (h @ [e])) (j_events j)"
    using inv span_ok_mono by (auto simp: history_inv_def jhe list_all_iff)
  have span_e: "span_ok (h @ [e]) e"
  proof (cases "first_id e = ev_ID e")
    case True
    then show ?thesis
      using id by (auto simp: span_ok_def nth_append le_Suc_eq dest: le_antisym)
  next
    case False
    then obtain l where l: "l \<in> set (j_events j)" "ev_Type l = resize_type"
        "ev_ID l = j_nextID j" "first_id l = first_id e" and ty: "ev_Type e = resize_type"
      using eff by (auto simp: append_effect_def jhe)
    then have "span_ok (h @ [e]) l" using spans(2) by (auto simp: list_all_iff)
    with l ty id n show ?thesis by (auto simp: span_ok_def nth_append le_Suc_eq)
  qed
  obtain pre d where "outputs h = pre @ outputs (j_events j)" "j_partial j \<or> pre = []"
      "outputs (j_events j) @ output_of e = d @ outputs (j_events (fst res))"
      "j_partial (fst res) \<or> (d = [] \<and> \<not> j_partial j)"
    using inv eff by (auto simp: history_inv_def append_effect_def jhe)
  then have "outputs (h @ [e]) = (pre @ d) @ outputs (j_events (fst res))"
      "j_partial (fst res) \<or> pre @ d = []" by auto
  moreover have "set (j_events (fst res)) \<subseteq> insert e (set (j_events j))"
    using eff by (simp add: append_effect_def jhe)
  moreover have "list_all event_ok (h @ [e])"
    using inv eff by (simp add: history_inv_def append_effect_def jhe)
  moreover have "\<forall>i < length (h @ [e]). unat (ev_ID ((h @ [e]) ! i)) = Suc i"
    using ids id by (auto simp: nth_append less_Suc_eq)
  ultimately show ?thesis
    using eff nx spans span_e unfolding history_inv_def journal_append_def
    by (simp add: append_effect_def jhe [symmetric] list_all_iff subset_iff) blast
qed

lemma length_history_op: "length (jr_history (journal_op r op)) \<le> Suc (length (jr_history r))"
  by (cases op) (simp_all add: journal_append_def)

lemma history_inv_reset:
  assumes "history_inv r"
  shows "history_inv (r\<lparr>jr_journal := Reset (jr_journal r)\<rparr>)"
proof (cases "j_events (jr_journal r) = []")
  case True
  with assms show ?thesis by (simp add: Reset_def)
next
  case False
  have "journal_inv (Reset (jr_journal r))"
    using assms journal_inv_reset by (simp add: history_inv_def)
  with False assms show ?thesis by (simp add: history_inv_def Reset_def)
qed

lemma history_inv_op:
  assumes "history_inv r" "length (jr_history r) < 2 ^ 64 - 1"
  shows "history_inv (journal_op r op)"
proof -
  have inv: "journal_inv (jr_journal r)" using assms(1) by (simp add: history_inv_def)
  have "j_nextID (jr_journal r) \<noteq> - 1"
    using assms unat_max_u64 by (auto simp: history_inv_def)
  then show ?thesis
    using history_inv_append [OF assms] AppendOutput_effect [OF inv] AppendResize_effect [OF inv]
      history_inv_reset [OF assms(1)]
    by (cases op) auto
qed

lemma history_inv_foldl:
  "history_inv r \<Longrightarrow> length (jr_history r) + length ops < 2 ^ 64 \<Longrightarrow>
     history_inv (foldl journal_op r ops)"
proof (induction ops arbitrary: r)
  case (Cons op ops)
  have "history_inv (journal_op r op)"
    using Cons.prems by (intro history_inv_op) auto
  moreover have "length (jr_history (journal_op r op)) + length ops < 2 ^ 64"
    using Cons.prems(2) length_history_op [of r op] by simp
  ultimately show ?case by (simp add: Cons.IH)
qed simp

lemma history_inv_run: "length ops < 2 ^ 64 \<Longrightarrow> history_inv (journal_run m ops)"
  unfolding journal_run_def
  by (rule history_inv_foldl) (simp_all add: history_inv_def journal_inv_new, simp add: newRendererJournal_def)

text \<open>
  after any sequence of fewer than \<open>2 ^ 64\<close> appends and resets, the journal's byte
  count is exact and within its budget, the retained events cover a gap-free range of
  identifiers ending at the newest one, and the output they retain is a suffix of the complete
  terminal output; when the journal does not report partial recovery, the range starts at the
  first event and the retained output is the complete output.
\<close>

theorem journal_retains_suffix:
  assumes "length ops < 2 ^ 64"
  shows "let r = journal_run m ops; j = jr_journal r in
     j_bytes j = events_bytes (j_events j) \<and> j_bytes j \<le> j_maxBytes j
     \<and> (\<exists>a pre. contig a (j_events j) (unat (j_nextID j))
           \<and> outputs (jr_history r) = pre @ outputs (j_events j)
           \<and> (\<not> j_partial j \<longrightarrow> a = 0 \<and> pre = []))"
  using history_inv_run [OF assms, of m]
  by (auto simp: history_inv_def journal_inv_def Let_def)

theorem journal_retains_suffix_witness:
  "j_bytes (jr_journal (journal_run 3 [JOutput [1, 2], JResize 80 24 0 0, JOutput [3]])) \<le>
   j_maxBytes (jr_journal (journal_run 3 [JOutput [1, 2], JResize 80 24 0 0, JOutput [3]]))"
  using journal_retains_suffix [of "[JOutput [1, 2], JResize 80 24 0 0, JOutput [3]]" 3] by (simp add: Let_def)

section \<open>Cursor reads against the invariant\<close>

definition covers :: "rendererJournalEvent list \<Rightarrow> u64 \<Rightarrow> u64 \<Rightarrow> bool" where
  "covers es lo hi \<longleftrightarrow>
     (\<forall>k. unat lo < k \<and> k \<le> unat hi \<longrightarrow>
        (\<exists>e \<in> set es. unat (first_id e) \<le> k \<and> k \<le> unat (ev_ID e) \<and> ev_ID e \<le> hi))"

lemma covers_refl [simp]: "covers es lo lo"
  by (auto simp: covers_def)

lemma covers_Cons: "covers es lo hi \<Longrightarrow> covers (e # es) lo hi"
  by (auto simp: covers_def)

lemma covers_step:
  assumes "first_id e \<le> lo + 1" "lo < ev_ID e" "ev_ID e \<le> hi" "covers es (ev_ID e) hi"
  shows "covers (e # es) lo hi"
  unfolding covers_def
proof (intro allI impI)
  fix k assume k: "unat lo < k \<and> k \<le> unat hi"
  have "unat (first_id e) \<le> Suc (unat lo)"
    using assms(1,2) by (simp add: word_le_nat_alt unat_plus_one less_not_max)
  with k assms(3,4) show "\<exists>e\<in>set (e # es). unat (first_id e) \<le> k \<and> k \<le> unat (ev_ID e) \<and> ev_ID e \<le> hi"
    by (cases "k \<le> unat (ev_ID e)") (auto simp: covers_def)
qed

text \<open>
  What the loop has read when it ends at \<open>through'\<close>: the output of the events in between, with
  every identifier in between covered.
\<close>

definition read_between ::
  "rendererJournalEvent list \<Rightarrow> u64 \<Rightarrow> u64 \<Rightarrow> rendererJournalEvent list" where
  "read_between es lo hi = filter (\<lambda>e. lo < ev_ID e \<and> ev_ID e \<le> hi) es"

lemma read_between_refl [simp]: "read_between es lo lo = []"
  by (auto simp: read_between_def filter_empty_conv)

lemma read_between_step:
  assumes "contig (unat (ev_ID e)) es b" "lo < ev_ID e" "ev_ID e \<le> hi"
  shows "read_between (e # es) lo hi = e # read_between es (ev_ID e) hi"
proof -
  have "\<And>x. x \<in> set es \<Longrightarrow> ev_ID e < ev_ID x"
    using contig_ids [OF assms(1)] by (simp add: word_less_nat_alt)
  with assms(2,3) show ?thesis
    by (auto simp: read_between_def intro!: filter_cong dest: less_trans)
qed

lemma read_loop_sound:
  assumes "read_loop after limit es data through = Inr (data', through')"
    and "contig m es b" and "list_all event_ok es"
    and "after \<le> through" and "through = after \<or> unat through = m"
    and "int (length data) \<le> limit"
  shows "through \<le> through' \<and> data' = data @ outputs (read_between es through through')
     \<and> covers es through through' \<and> int (length data') \<le> limit
     \<and> (through' = through \<or> unat through' \<le> b)"
  using assms
proof (induction after limit es data through arbitrary: m rule: read_loop.induct)
  case (1 after limit data through)
  then show ?case by (auto simp: read_between_def)
next
  case (2 after limit e es data through)
  have c: "contig (unat (ev_ID e)) es b" "m < unat (ev_ID e)" "list_all event_ok es"
    using "2.prems"(2,3) by auto
  have le_b: "unat (ev_ID e) \<le> b" using c(1) by (rule contig_le)
  show ?case
  proof (cases "ev_ID e \<le> after")
    case True
    then have t: "through = after \<or> unat through = unat (ev_ID e)" "\<not> through < ev_ID e"
      using "2.prems"(4,5) c(2) by (auto simp: word_le_nat_alt word_less_nat_alt)
    have "read_loop after limit es data through = Inr (data', through')"
      using True "2.prems"(1) by simp
    from "2.IH"(1) [OF True this c(1,3) "2.prems"(4) t(1) "2.prems"(6)] t(2)
    show ?thesis by (auto simp: read_between_def covers_Cons)
  next
    case False
    with "2.prems"(4,5) c(2) have lt: "through < ev_ID e"
      by (auto simp: word_less_nat_alt word_le_nat_alt)
    from False have ge: "after \<le> ev_ID e" by simp
    from False "2.prems"(1) have first: "\<not> first_id e > through + 1"
      by (auto split: if_splits)
    show ?thesis
    proof (cases "ev_Type e = output_type")
      case out: True
      show ?thesis
      proof (cases "int (length (ev_Data e)) > limit - int (length data)")
        case True
        with False first out "2.prems"(1,6) show ?thesis by (auto split: if_splits)
      next
        case fits: False
        have "read_loop after limit es (data @ ev_Data e) (ev_ID e) = Inr (data', through')"
          using False first out fits "2.prems"(1) by simp
        from "2.IH"(2) [OF False first out fits this c(1,3)] ge fits
        have "ev_ID e \<le> through' \<and> data' = (data @ ev_Data e) @ outputs (read_between es (ev_ID e) through')
           \<and> covers es (ev_ID e) through' \<and> int (length data') \<le> limit
           \<and> (through' = ev_ID e \<or> unat through' \<le> b)" by auto
        with lt first out c(1) le_b show ?thesis
          by (auto simp: read_between_step output_of_def intro!: covers_step)
      qed
    next
      case rs: False
      have "read_loop after limit es data (ev_ID e) = Inr (data', through')"
        using False first rs "2.prems"(1) by simp
      from "2.IH"(3) [OF False first rs this c(1,3)] ge "2.prems"(6)
      have "ev_ID e \<le> through' \<and> data' = data @ outputs (read_between es (ev_ID e) through')
           \<and> covers es (ev_ID e) through' \<and> int (length data') \<le> limit
           \<and> (through' = ev_ID e \<or> unat through' \<le> b)" by auto
      with lt first rs c(1) le_b show ?thesis
        by (auto simp: read_between_step output_of_def intro!: covers_step)
    qed
  qed
qed

text \<open>
  Property C32: a successful cursor read returns exactly the output bytes of the events after
  the cursor up to the cursor it returns, within the limit; every identifier in between is
  covered by a retained event, so nothing was skipped; and the cursor advances unless it was
  already at the newest event.
\<close>

theorem read_output_exact:
  assumes "journal_inv j" and "readOutputAfter j after limit = Inr (data, through)"
  shows "after \<le> through \<and> through \<le> j_nextID j
     \<and> data = outputs (read_between (j_events j) after through)
     \<and> int (length data) \<le> limit \<and> covers (j_events j) after through
     \<and> (through = after \<longleftrightarrow> after = j_nextID j)"
proof -
  from assms(2) have r: "read_loop after limit (j_events j) [] after = Inr (data, through)"
    and a: "after \<le> j_nextID j" "0 < limit" "\<not> (through = after \<and> after \<noteq> j_nextID j)"
    by (auto simp: readOutputAfter_def split: if_splits sum.splits)
  from assms(1) obtain m where m: "contig m (j_events j) (unat (j_nextID j))"
    "list_all event_ok (j_events j)" by (auto simp: journal_inv_def)
  from read_loop_sound [OF r m] a show ?thesis
    by (auto simp: word_le_nat_alt word_unat_eq_iff)
qed

definition sample_journal :: rendererJournal where
  "sample_journal = jr_journal (journal_run 100 [JOutput [1, 2], JResize 80 24 0 0, JOutput [3]])"

lemma sample_journal_inv: "journal_inv sample_journal"
  using history_inv_run [of "[JOutput [1, 2], JResize 80 24 0 0, JOutput [3]]" 100]
  by (simp add: sample_journal_def history_inv_def)

theorem read_output_exact_witness:
  "readOutputAfter sample_journal 0 2 = Inr ([1, 2], 2)
   \<and> [1, 2] = outputs (read_between (j_events sample_journal) 0 2)"
proof -
  have "readOutputAfter sample_journal 0 2 = Inr ([1, 2], 2)" by code_simp
  with read_output_exact [OF sample_journal_inv this] show ?thesis by simp
qed

subsection \<open>Progress\<close>

lemma read_loop_continues:
  assumes "contig (unat through) es b" "after < through"
    and "\<forall>e \<in> set es. int (length (ev_Data e)) \<le> limit"
  shows "\<exists>d t. read_loop after limit es data through = Inr (d, t) \<and> through \<le> t"
  using assms
proof (induction es arbitrary: data through)
  case (Cons e es)
  have e: "through < ev_ID e" "contig (unat (ev_ID e)) es b" "first_id e = through + 1"
    using Cons.prems(1)
    by (auto simp: word_less_nat_alt word_unat_eq_iff [of "first_id e"] unat_plus_one
        dest!: less_not_max [where x = through, OF word_less_nat_alt [THEN iffD2]])
  then have "\<not> ev_ID e \<le> after" "after < ev_ID e" using Cons.prems(2) by auto
  with e Cons.IH [of "ev_ID e"] Cons.prems(3) show ?case
    by (fastforce intro: less_imp_le order_trans)
qed simp

lemma read_loop_progress:
  assumes "contig m es b" "m \<le> unat after" "unat after < b"
    and "\<forall>e \<in> set es. int (length (ev_Data e)) \<le> limit"
  shows "\<exists>d t. read_loop after limit es [] after = Inr (d, t) \<and> after < t"
  using assms
proof (induction es arbitrary: m)
  case (Cons e es)
  show ?case
  proof (cases "ev_ID e \<le> after")
    case True
    with Cons show ?thesis by (auto simp: word_le_nat_alt)
  next
    case False
    then have lt: "after < ev_ID e" by simp
    then have "\<not> first_id e > after + 1"
      using Cons.prems(1,2) by (simp add: word_less_nat_alt unat_plus_one [OF less_not_max])
    moreover obtain d t where "read_loop after limit es
        (if ev_Type e = output_type then ev_Data e else []) (ev_ID e) = Inr (d, t)" "ev_ID e \<le> t"
      using read_loop_continues [of "ev_ID e" es b after limit] Cons.prems lt by fastforce
    ultimately show ?thesis
      using False lt Cons.prems(4) by (fastforce split: if_splits dest: less_le_trans)
  qed
qed simp

text \<open>
  A reader whose cursor is still inside the retained range and behind the newest
  event always makes progress: the read succeeds and returns a strictly larger cursor, as long
  as the limit admits every retained chunk.
\<close>

theorem read_output_progress:
  assumes "contig a (j_events j) (unat (j_nextID j))"
    and "a \<le> unat after" "after < j_nextID j" "0 < limit"
    and "\<forall>e \<in> set (j_events j). int (length (ev_Data e)) \<le> limit"
  shows "\<exists>data through. readOutputAfter j after limit = Inr (data, through) \<and> after < through"
proof -
  obtain d t where "read_loop after limit (j_events j) [] after = Inr (d, t)" "after < t"
    using read_loop_progress [OF assms(1,2) _ assms(5)] assms(3) by (auto simp: word_less_nat_alt)
  with assms(3,4) show ?thesis by (auto simp: readOutputAfter_def)
qed

theorem read_output_progress_witness:
  "\<exists>data through. readOutputAfter sample_journal 1 2 = Inr (data, through) \<and> 1 < through"
proof (rule read_output_progress)
  show "contig 0 (j_events sample_journal) (unat (j_nextID sample_journal))" by code_simp
  show "\<forall>e\<in>set (j_events sample_journal). int (length (ev_Data e)) \<le> 2" by code_simp
  show "1 < j_nextID sample_journal" by code_simp
qed simp_all

section \<open>The tail after a checkpoint, against the invariant\<close>

lemma tail_loop_all:
  assumes "contig m es b" "unat applied \<le> m" "unat expected = Suc m" "b < 2 ^ 64 - 1"
  shows "tail_loop applied es acc n expected
     = (acc @ es, n + events_bytes es, word_of_nat (Suc b), True)"
  using assms
proof (induction es arbitrary: m acc n expected)
  case Nil
  then show ?case
    by (simp add: word_of_unat_eq_iff [of "Suc b", symmetric] del: of_nat_Suc)
next
  case (Cons e es)
  have id: "m < unat (ev_ID e)" "unat (ev_ID e) \<le> b" "unat (first_id e) = Suc m"
    using Cons.prems(1) contig_le by auto
  then have "ev_ID e \<noteq> - 1" using Cons.prems(4) unat_max_u64 by auto
  then have "unat (ev_ID e + 1) = Suc (unat (ev_ID e))" by (rule unat_plus_one)
  moreover have "\<not> ev_ID e \<le> applied" "\<not> (expected < first_id e \<or> ev_ID e < expected)"
    using id Cons.prems(2,3) by (auto simp: word_le_nat_alt word_less_nat_alt)
  ultimately show ?case
    using Cons.IH [of "unat (ev_ID e)" "ev_ID e + 1"] Cons.prems id by simp
qed

lemma contig_filter_all: "contig m es b \<Longrightarrow> unat lo \<le> m \<Longrightarrow> filter (\<lambda>e. lo < ev_ID e) es = es"
  by (auto simp: filter_id_conv word_less_nat_alt dest!: contig_ids)

lemma tail_loop_covered:
  assumes "contig m es b" "m \<le> unat applied" "unat applied \<le> b" "b < 2 ^ 64 - 1"
  shows "\<exists>n'. tail_loop applied es acc n (applied + 1)
     = (acc @ filter (\<lambda>e. applied < ev_ID e) es, n', word_of_nat (Suc b), True)"
  using assms
proof (induction es arbitrary: m)
  case Nil
  then show ?case by (auto simp: word_unat_eq_iff unat_of_nat unat_word_ariths)
next
  case (Cons e es)
  have id: "m < unat (ev_ID e)" "unat (ev_ID e) \<le> b" "unat (first_id e) = Suc m"
    using Cons.prems(1) contig_le by auto
  show ?case
  proof (cases "ev_ID e \<le> applied")
    case True
    then have "tail_loop applied (e # es) acc n (applied + 1) = tail_loop applied es acc n (applied + 1)"
      "\<not> applied < ev_ID e" "unat (ev_ID e) \<le> unat applied"
      by (auto simp: word_le_nat_alt word_less_nat_alt)
    with Cons.IH [of "unat (ev_ID e)"] Cons.prems show ?thesis
      by (simp del: tail_loop.simps of_nat_Suc)
  next
    case False
    then have lt: "applied < ev_ID e" by simp
    have "ev_ID e \<noteq> - 1" using Cons.prems(4) id unat_max_u64 by auto
    then have "tail_loop applied es (acc @ [e]) (n + rendererJournalEventBytes e) (ev_ID e + 1)
       = ((acc @ [e]) @ es, n + rendererJournalEventBytes e + events_bytes es, word_of_nat (Suc b), True)"
      using tail_loop_all [of "unat (ev_ID e)" es b applied "ev_ID e + 1"] Cons.prems(1,4) lt
      by (simp add: unat_plus_one word_less_nat_alt)
    moreover have "\<not> (applied + 1 < first_id e \<or> ev_ID e < applied + 1)"
      using lt id Cons.prems(2)
      by (simp add: word_less_nat_alt unat_plus_one [OF less_not_max [OF lt]])
    moreover have "filter (\<lambda>e. applied < ev_ID e) es = es"
      using contig_filter_all [of "unat (ev_ID e)" es b applied] Cons.prems(1) lt
      by (simp add: word_less_nat_alt)
    ultimately show ?thesis using False lt by simp
  qed
qed

lemma tail_loop_uncovered:
  assumes "contig m es b" "unat applied < m" "b < 2 ^ 64 - 1"
  shows "case tail_loop applied es acc n (applied + 1) of
     (_, _, x, ok) \<Rightarrow> \<not> (ok \<and> x = word_of_nat b + 1)"
proof (cases es)
  case Nil
  with assms have "unat (applied + 1) < unat (word_of_nat b + 1 :: u64)"
    by (simp add: unat_word_ariths unat_of_nat)
  then have "applied + 1 \<noteq> word_of_nat b + 1" by auto
  with Nil show ?thesis by simp
next
  case (Cons e es')
  have "m < unat (ev_ID e)" "unat (first_id e) = Suc m" using assms(1) Cons by auto
  then have "\<not> ev_ID e \<le> applied" "applied + 1 < first_id e"
    using assms(2) unat_u64_bound [of "ev_ID e"]
    by (auto simp: word_le_nat_alt word_less_nat_alt unat_word_ariths)
  with Cons show ?thesis by simp
qed

text \<open>
  The tail after a checkpoint is reported complete exactly when the journal still
  retains every event the checkpoint has not applied, and it then consists of exactly the
  retained events with a later identifier, in order. \<open>a\<close> is the identifier before the oldest
  retained event.
\<close>

theorem tail_after_complete_iff:
  assumes "journal_inv j" "contig a (j_events j) (unat (j_nextID j))" "j_nextID j \<noteq> - 1"
  shows "(snd (tailAfter (Snapshot j) applied) \<longleftrightarrow> a \<le> unat applied \<and> applied \<le> j_nextID j)
     \<and> (snd (tailAfter (Snapshot j) applied) \<longrightarrow>
          sn_Events (fst (tailAfter (Snapshot j) applied)) =
          filter (\<lambda>e. applied < ev_ID e) (j_events j))"
proof -
  have b: "unat (j_nextID j) < 2 ^ 64 - 1" using assms(3) by (rule unat_not_max)
  have le: "a \<le> unat (j_nextID j)" using assms(2) by (rule contig_le)
  consider "applied > j_nextID j" | "applied \<le> j_nextID j" "a \<le> unat applied"
    | "applied \<le> j_nextID j" "unat applied < a" by fastforce
  then show ?thesis
  proof cases
    case 1
    then show ?thesis by (simp add: tailAfter_def Snapshot_def not_le)
  next
    case 2
    have "unat applied \<le> unat (j_nextID j)" using 2(1) by (simp add: word_le_nat_alt)
    from tail_loop_covered [OF assms(2) 2(2) this b, of "[]" 0] 2
    show ?thesis by (auto simp: tailAfter_def Snapshot_def Let_def)
  next
    case 3
    from tail_loop_uncovered [OF assms(2) 3(2) b, of "[]" 0] 3
    show ?thesis by (auto simp: tailAfter_def Snapshot_def Let_def split: prod.splits)
  qed
qed

theorem tail_after_complete_iff_witness:
  "snd (tailAfter (Snapshot sample_journal) 1)
   \<and> sn_Events (fst (tailAfter (Snapshot sample_journal) 1)) =
     filter (\<lambda>e. 1 < ev_ID e) (j_events sample_journal)"
proof -
  have "contig 0 (j_events sample_journal) (unat (j_nextID sample_journal))"
    "j_nextID sample_journal \<noteq> - 1" "1 \<le> j_nextID sample_journal" by code_simp+
  with tail_after_complete_iff [OF sample_journal_inv this(1,2), of 1] show ?thesis by simp
qed

end
