(* ===== verification/JournalOrder.thy ===== *)
theory JournalOrder
  imports RendererJournal
begin

text \<open>
  The renderer worker's reorder buffer, \<^verbatim>\<open>renderer_journal_order.go\<close>, with the geometry checks of
  \<^verbatim>\<open>renderer_checkpoint.go\<close>. Resizes and output reach the worker in any order; the buffer applies
  them in journal order. The theory proves that what it applies is an ordered, gap-free chain,
  that every pushed event is applied or superseded once its predecessors arrived, and, with the
  journal's history, that the complete terminal output reaches the renderer in order.
\<close>

section \<open>Data\<close>

record rendererJournalOrder =
  jo_applied :: u64
  jo_pending :: "rendererJournalEvent list"
  jo_bytes :: int
  jo_gapSince :: gotime

text \<open>
  \<open>jo_pending\<close> is the Go map from an identifier to its event, as the list of its events; the key
  of an entry is its event's identifier, and no two entries have the same one.
\<close>

datatype orderError = InvalidIdentityOrType | InvalidSpan | InvalidGeometry | GapBufferFull

definition rendererInputEventBit :: u64 where
  "rendererInputEventBit = 2 ^ 63"

definition rendererJournalMaxPendingEvents :: nat where
  "rendererJournalMaxPendingEvents = 256"

definition newJournalOrder :: rendererJournalOrder where
  "newJournalOrder = \<lparr>jo_applied = 0, jo_pending = [], jo_bytes = 0, jo_gapSince = 0\<rparr>"

definition rendererValidGeometry :: "int \<Rightarrow> int \<Rightarrow> bool" where
  "rendererValidGeometry cols rows \<longleftrightarrow>
     cols > 0 \<and> rows > 0 \<and> cols \<le> 65535 \<and> rows \<le> 65535 \<and> cols \<le> 2 ^ 20 div rows"

definition rendererValidPixels :: "int \<Rightarrow> int \<Rightarrow> bool" where
  "rendererValidPixels width height \<longleftrightarrow>
     (width = 0 \<and> height = 0)
     \<or> (width > 0 \<and> height > 0 \<and> width \<le> 4096 \<and> height \<le> 4096)"

section \<open>Operations\<close>

definition hasGap :: "rendererJournalOrder \<Rightarrow> bool" where
  "hasGap q \<longleftrightarrow> length (jo_pending q) \<noteq> 0"

definition eligible :: "u64 \<Rightarrow> rendererJournalEvent \<Rightarrow> bool" where
  "eligible applied candidate \<longleftrightarrow>
     first_id candidate \<le> applied + 1 \<and> ev_ID candidate > applied"

text \<open>The inner loop of \<open>push\<close>: the eligible pending event with the least identifier.\<close>

fun next_candidate ::
  "u64 \<Rightarrow> rendererJournalEvent list \<Rightarrow> rendererJournalEvent option \<Rightarrow> rendererJournalEvent option" where
  "next_candidate applied [] best = best"
| "next_candidate applied (c # cs) best =
     next_candidate applied cs
       (if eligible applied c \<and> (case best of None \<Rightarrow> True | Some b \<Rightarrow> ev_ID c < ev_ID b)
        then Some c else best)"

lemma next_candidate_cases:
  "next_candidate a cs best = Some e \<Longrightarrow> best = Some e \<or> e \<in> set cs \<and> eligible a e"
  by (induction a cs best rule: next_candidate.induct) (auto split: if_splits)

text \<open>
  The outer loop: apply the candidate, advance the watermark and delete what it covers, until
  no candidate is left. The result is the watermark, the pending events, their bytes and the
  events applied.
\<close>

function drain ::
  "u64 \<Rightarrow> rendererJournalEvent list \<Rightarrow> int
     \<Rightarrow> u64 \<times> rendererJournalEvent list \<times> int \<times> rendererJournalEvent list" where
  "drain applied pending bytes =
     (case next_candidate applied pending None of
        None \<Rightarrow> (applied, pending, bytes, [])
      | Some e \<Rightarrow>
          (case drain (ev_ID e) (filter (\<lambda>c. \<not> ev_ID c \<le> ev_ID e) pending)
                 (bytes - events_bytes (filter (\<lambda>c. ev_ID c \<le> ev_ID e) pending)) of
             (a, p, b, out) \<Rightarrow> (a, p, b, e # out)))"
  by pat_completeness auto
termination
proof (relation "measure (\<lambda>(a, p, b). length p)")
  fix applied pending bytes e
  assume "next_candidate applied pending None = Some e"
  then have "e \<in> set pending" using next_candidate_cases by fastforce
  then have "length (filter (\<lambda>c. \<not> ev_ID c \<le> ev_ID e) pending) < length pending"
    by (intro length_filter_less) auto
  then show "((ev_ID e, filter (\<lambda>c. \<not> ev_ID c \<le> ev_ID e) pending,
       bytes - events_bytes (filter (\<lambda>c. ev_ID c \<le> ev_ID e) pending)), applied, pending, bytes)
     \<in> measure (\<lambda>(a, p, b). length p)" by simp
qed simp

declare drain.simps [simp del]

definition push ::
  "rendererJournalOrder \<Rightarrow> rendererJournalEvent \<Rightarrow> gotime
     \<Rightarrow> (orderError, rendererJournalOrder \<times> rendererJournalEvent list) result" where
  "push q event now =
     (if ev_ID event = 0 \<or> ev_ID event \<ge> rendererInputEventBit
         \<or> (ev_Type event \<noteq> output_type \<and> ev_Type event \<noteq> resize_type)
      then Inl InvalidIdentityOrType
      else if first_id event > ev_ID event
              \<or> (ev_Type event \<noteq> resize_type \<and> first_id event \<noteq> ev_ID event)
      then Inl InvalidSpan
      else if ev_ID event \<le> jo_applied q then Inr (q, [])
      else if ev_Type event = resize_type \<and>
              (\<not> rendererValidGeometry (ev_Cols event) (ev_Rows event)
               \<or> \<not> rendererValidPixels (ev_CellWidth event) (ev_CellHeight event))
      then Inl InvalidGeometry
      else if \<not> hasGap q \<and> first_id event \<le> jo_applied q + 1
      then Inr (q\<lparr>jo_applied := ev_ID event\<rparr>, [event])
      else if \<exists>p \<in> set (jo_pending q). ev_ID p = ev_ID event then Inr (q, [])
      else if length (jo_pending q) \<ge> rendererJournalMaxPendingEvents
              \<or> rendererJournalEventBytes event > defaultRendererJournalBytes - jo_bytes q
      then Inl GapBufferFull
      else
        case drain (jo_applied q) (jo_pending q @ [event])
               (jo_bytes q + rendererJournalEventBytes event) of
          (applied, pending, bytes, out) \<Rightarrow>
            let q1 = q\<lparr>jo_applied := applied, jo_pending := pending, jo_bytes := bytes\<rparr>
            in Inr (if hasGap q1 \<and> is_zero_time (jo_gapSince q1) then q1\<lparr>jo_gapSince := now\<rparr>
                    else if \<not> hasGap q1 then q1\<lparr>jo_gapSince := 0\<rparr>
                    else q1, out))"

text \<open>\<open>gapError\<close> reports the missing identifier when a gap has lasted for the timeout.\<close>

definition gapError :: "rendererJournalOrder \<Rightarrow> gotime \<Rightarrow> duration \<Rightarrow> u64 option" where
  "gapError q now timeout =
     (if hasGap q \<and> \<not> is_zero_time (jo_gapSince q) \<and> now - jo_gapSince q \<ge> timeout
      then Some (jo_applied q + 1) else None)"

text \<open>The worker pushes a sequence of events and stops at the first error.\<close>

fun push_all ::
  "rendererJournalOrder \<Rightarrow> (rendererJournalEvent \<times> gotime) list
     \<Rightarrow> (orderError, rendererJournalOrder \<times> rendererJournalEvent list) result" where
  "push_all q [] = Inr (q, [])"
| "push_all q ((e, t) # rest) =
     (case push q e t of
        Inl err \<Rightarrow> Inl err
      | Inr (q1, out) \<Rightarrow>
          (case push_all q1 rest of
             Inl err \<Rightarrow> Inl err
           | Inr (q2, out') \<Rightarrow> Inr (q2, out @ out')))"

section \<open>The draining loop\<close>

lemma next_candidate_Some: "next_candidate a cs (Some b) \<noteq> None"
  by (induction cs arbitrary: b) auto

lemma next_candidate_None:
  "next_candidate a cs None = None \<Longrightarrow> \<forall>c \<in> set cs. \<not> eligible a c"
proof (induction cs)
  case (Cons c cs)
  then have "\<not> eligible a c" using next_candidate_Some [of a cs c] by (cases "eligible a c") simp_all
  with Cons show ?case by simp
qed simp

fun chained :: "nat \<Rightarrow> rendererJournalEvent list \<Rightarrow> nat \<Rightarrow> bool" where
  "chained a [] b \<longleftrightarrow> a = b"
| "chained a (e # es) b \<longleftrightarrow>
     unat (first_id e) \<le> Suc a \<and> a < unat (ev_ID e) \<and> chained (unat (ev_ID e)) es b"

lemma chained_append: "chained a (xs @ ys) b \<longleftrightarrow> (\<exists>m. chained a xs m \<and> chained m ys b)"
  by (induction xs arbitrary: a) auto

lemma eligible_unat:
  "eligible a e \<Longrightarrow> unat (first_id e) \<le> Suc (unat a) \<and> unat a < unat (ev_ID e)"
  by (auto simp: eligible_def word_le_nat_alt word_less_nat_alt unat_plus_one less_not_max)

text \<open>What one run of the loop guarantees.\<close>

definition drained ::
  "u64 \<Rightarrow> rendererJournalEvent list \<Rightarrow>
   u64 \<times> rendererJournalEvent list \<times> int \<times> rendererJournalEvent list \<Rightarrow> bool" where
  "drained applied pending res \<longleftrightarrow>
     (case res of (a, p, b, out) \<Rightarrow>
        chained (unat applied) out (unat a) \<and> set out \<subseteq> set pending
        \<and> p = filter (\<lambda>c. a < ev_ID c) pending
        \<and> (\<forall>c \<in> set p. \<not> eligible a c) \<and> b = events_bytes p)"

lemma events_bytes_filter:
  "events_bytes es = events_bytes (filter P es) + events_bytes (filter (\<lambda>e. \<not> P e) es)"
  by (induction es) auto

lemma chained_le: "chained a es b \<Longrightarrow> a \<le> b"
  by (induction es arbitrary: a) (force dest: less_imp_le_nat)+

lemma drain_drained:
  "bytes = events_bytes pending \<Longrightarrow> \<forall>c \<in> set pending. applied < ev_ID c \<Longrightarrow>
     drained applied pending (drain applied pending bytes)"
proof (induction applied pending bytes rule: drain.induct)
  case (1 applied pending bytes)
  show ?case
  proof (cases "next_candidate applied pending None")
    case None
    then have "drain applied pending bytes = (applied, pending, bytes, [])"
      by (simp add: drain.simps)
    with None 1 next_candidate_None [OF None] show ?thesis
      by (auto simp: drained_def intro!: filter_True [symmetric])
  next
    case (Some e)
    let ?keep = "filter (\<lambda>c. \<not> ev_ID c \<le> ev_ID e) pending"
    let ?b = "bytes - events_bytes (filter (\<lambda>c. ev_ID c \<le> ev_ID e) pending)"
    obtain a p b out where rec: "drain (ev_ID e) ?keep ?b = (a, p, b, out)"
      using prod_cases4 by blast
    have e: "e \<in> set pending" "eligible applied e"
      using next_candidate_cases [OF Some] by auto
    have "drained (ev_ID e) ?keep (drain (ev_ID e) ?keep ?b)"
    proof (rule "1.IH" [OF Some])
      show "?b = events_bytes ?keep"
        using "1.prems"(1) events_bytes_filter [of pending "\<lambda>c. ev_ID c \<le> ev_ID e"] by linarith
      show "\<forall>c \<in> set ?keep. ev_ID e < ev_ID c" by (simp add: not_le)
    qed
    then have d: "chained (unat (ev_ID e)) out (unat a)" "set out \<subseteq> set pending"
        "p = filter (\<lambda>c. a < ev_ID c) ?keep" "\<forall>c\<in>set p. \<not> eligible a c" "b = events_bytes p"
      by (auto simp: drained_def rec)
    have "ev_ID e \<le> a" using chained_le [OF d(1)] by (simp add: word_le_nat_alt)
    then have "p = filter (\<lambda>c. a < ev_ID c) pending"
      unfolding d(3) by (auto intro!: filter_cong simp: not_le dest: le_less_trans)
    moreover have "drain applied pending bytes = (a, p, b, e # out)"
      using Some rec by (simp add: drain.simps [of applied])
    ultimately show ?thesis
      using d e eligible_unat [OF e(2)] by (auto simp: drained_def)
  qed
qed

section \<open>The invariant of the buffer\<close>

definition order_inv :: "rendererJournalOrder \<Rightarrow> bool" where
  [inv_defs]: "order_inv q \<longleftrightarrow>
     jo_applied q < rendererInputEventBit
     \<and> distinct (map ev_ID (jo_pending q))
     \<and> (\<forall>c \<in> set (jo_pending q).
           jo_applied q < ev_ID c \<and> \<not> eligible (jo_applied q) c
           \<and> first_id c \<le> ev_ID c \<and> ev_ID c < rendererInputEventBit)
     \<and> jo_bytes q = events_bytes (jo_pending q)
     \<and> jo_bytes q \<le> defaultRendererJournalBytes
     \<and> length (jo_pending q) \<le> rendererJournalMaxPendingEvents"

lemma order_inv_new: "order_inv newJournalOrder"
  by (simp add: order_inv_def newJournalOrder_def rendererInputEventBit_def
      defaultRendererJournalBytes_def rendererJournalMaxPendingEvents_def)

text \<open>What a successful push guarantees besides the invariant.\<close>

definition push_effect ::
  "rendererJournalOrder \<Rightarrow> rendererJournalEvent \<Rightarrow> rendererJournalOrder
     \<Rightarrow> rendererJournalEvent list \<Rightarrow> bool" where
  "push_effect q e q' out \<longleftrightarrow>
     order_inv q'
     \<and> chained (unat (jo_applied q)) out (unat (jo_applied q'))
     \<and> set out \<subseteq> insert e (set (jo_pending q))
     \<and> (\<forall>c \<in> insert e (set (jo_pending q)).
           ev_ID c \<le> jo_applied q' \<or> ev_ID c \<in> ev_ID ` set (jo_pending q'))
     \<and> set (jo_pending q') \<subseteq> insert e (set (jo_pending q))
     \<and> length (jo_pending q') \<le> Suc (length (jo_pending q))
     \<and> jo_bytes q' \<le> jo_bytes q + rendererJournalEventBytes e"

lemma chained_last:
  "chained a out b \<Longrightarrow> a = b \<or> (\<exists>e \<in> set out. unat (ev_ID e) = b)"
proof (induction out arbitrary: a)
  case (Cons e es)
  then have "unat (ev_ID e) = b \<or> (\<exists>x \<in> set es. unat (ev_ID x) = b)" by simp
  then show ?case by auto
qed simp

lemma push_effect_drain:
  assumes inv: "order_inv q" and new: "jo_applied q < ev_ID e" "ev_ID e < rendererInputEventBit"
      "first_id e \<le> ev_ID e"
    and fresh: "\<not> (\<exists>p \<in> set (jo_pending q). ev_ID p = ev_ID e)"
    and room: "length (jo_pending q) < rendererJournalMaxPendingEvents"
      "rendererJournalEventBytes e \<le> defaultRendererJournalBytes - jo_bytes q"
    and dr: "drain (jo_applied q) (jo_pending q @ [e]) (jo_bytes q + rendererJournalEventBytes e)
      = (a, p, b, out)"
    and q': "jo_applied q' = a" "jo_pending q' = p" "jo_bytes q' = b"
  shows "push_effect q e q' out"
proof -
  let ?all = "jo_pending q @ [e]"
  have "drained (jo_applied q) ?all (a, p, b, out)"
    unfolding dr [symmetric] by (rule drain_drained) (use inv new in \<open>auto simp: order_inv_def\<close>)
  then have d: "chained (unat (jo_applied q)) out (unat a)" "set out \<subseteq> set ?all"
      "p = filter (\<lambda>c. a < ev_ID c) ?all" "\<forall>c \<in> set p. \<not> eligible a c" "b = events_bytes p"
    by (auto simp: drained_def)
  have lim: "\<forall>c \<in> set ?all. ev_ID c < rendererInputEventBit \<and> first_id c \<le> ev_ID c"
    using inv new by (auto simp: order_inv_def)
  have "a = jo_applied q \<or> (\<exists>x \<in> set out. ev_ID x = a)"
    using chained_last [OF d(1)] by (auto simp: word_unat_eq_iff)
  then have "a < rendererInputEventBit"
    using inv lim d(2) by (auto simp: order_inv_def)
  moreover have "distinct (map ev_ID p)"
    unfolding d(3) using inv fresh
    by (intro distinct_map_filter) (auto simp: order_inv_def)
  moreover have "events_bytes p \<le> events_bytes ?all"
    using events_bytes_filter [of ?all "\<lambda>c. a < ev_ID c"] d(3) by simp
  moreover have "length p \<le> length ?all" unfolding d(3) by (rule length_filter_le)
  ultimately show ?thesis
    using inv room d lim q'
    by (auto simp: push_effect_def order_inv_def not_less [symmetric])
qed

lemma push_effect_holds:
  assumes inv: "order_inv q" and push: "push q e t = Inr (q', out)"
  shows "push_effect q e q' out"
proof -
  have trivial: "push_effect q e q []"
    if "ev_ID e \<le> jo_applied q \<or> (\<exists>p \<in> set (jo_pending q). ev_ID p = ev_ID e)"
  proof -
    have "ev_ID e \<le> jo_applied q \<or> ev_ID e \<in> ev_ID ` set (jo_pending q)"
      using that by (metis image_eqI)
    with inv show ?thesis by (auto simp: push_effect_def)
  qed
  note splits = push [unfolded push_def]
  show ?thesis
  proof (cases "ev_ID e \<le> jo_applied q \<or>
      (hasGap q \<or> \<not> first_id e \<le> jo_applied q + 1) \<and> (\<exists>p \<in> set (jo_pending q). ev_ID p = ev_ID e)")
    case True
    with splits have "q' = q" "out = []" by (auto split: if_splits)
    with True trivial show ?thesis by blast
  next
    case False
    with splits have id: "jo_applied q < ev_ID e" "ev_ID e < rendererInputEventBit"
        "first_id e \<le> ev_ID e"
      by (auto split: if_splits)
    show ?thesis
    proof (cases "\<not> hasGap q \<and> first_id e \<le> jo_applied q + 1")
      case True
      with False splits have "q' = q\<lparr>jo_applied := ev_ID e\<rparr>" "out = [e]"
        by (auto split: if_splits)
      with True id inv show ?thesis
        by (auto simp: push_effect_def order_inv_def hasGap_def word_le_nat_alt word_less_nat_alt
            unat_plus_one [OF less_not_max [OF id(1)]])
    next
      case gap: False
      obtain a p b out' where dr: "drain (jo_applied q) (jo_pending q @ [e])
          (jo_bytes q + rendererJournalEventBytes e) = (a, p, b, out')" using prod_cases4 by blast
      from gap False splits dr have room: "length (jo_pending q) < rendererJournalMaxPendingEvents"
          "rendererJournalEventBytes e \<le> defaultRendererJournalBytes - jo_bytes q"
        and res: "out = out'"
          "jo_applied q' = a" "jo_pending q' = p" "jo_bytes q' = b"
        by (auto split: if_splits simp: Let_def)
      have fresh: "\<not> (\<exists>p \<in> set (jo_pending q). ev_ID p = ev_ID e)" using gap False by blast
      show ?thesis unfolding res(1) by (rule push_effect_drain [OF inv id fresh room dr res(2-4)])
    qed
  qed
qed

section \<open>Runs\<close>

definition run_effect ::
  "rendererJournalOrder \<Rightarrow> rendererJournalEvent set \<Rightarrow> rendererJournalOrder
     \<Rightarrow> rendererJournalEvent list \<Rightarrow> bool" where
  "run_effect q es q' out \<longleftrightarrow>
     order_inv q'
     \<and> chained (unat (jo_applied q)) out (unat (jo_applied q'))
     \<and> set out \<subseteq> es \<union> set (jo_pending q) \<and> set (jo_pending q') \<subseteq> es \<union> set (jo_pending q)
     \<and> (\<forall>c \<in> es \<union> set (jo_pending q).
           ev_ID c \<le> jo_applied q' \<or> ev_ID c \<in> ev_ID ` set (jo_pending q'))"

lemma run_effect_step:
  assumes e: "push_effect q e q1 out1" and r: "run_effect q1 es q2 out2"
  shows "run_effect q (insert e es) q2 (out1 @ out2)"
proof -
  have mono: "jo_applied q1 \<le> jo_applied q2"
    using r chained_le by (fastforce simp: run_effect_def word_le_nat_alt)
  have "ev_ID c \<le> jo_applied q2 \<or> ev_ID c \<in> ev_ID ` set (jo_pending q2)"
    if c: "c \<in> insert e es \<union> set (jo_pending q)" for c
  proof -
    consider "c \<in> es" | "ev_ID c \<le> jo_applied q1" | "ev_ID c \<in> ev_ID ` set (jo_pending q1)"
      using c e unfolding push_effect_def by blast
    then show ?thesis
    proof cases
      case 1
      then show ?thesis using r by (auto simp: run_effect_def)
    next
      case 2
      then show ?thesis using mono order_trans by blast
    next
      case 3
      then obtain p where p: "p \<in> set (jo_pending q1)" "ev_ID c = ev_ID p" by auto
      show ?thesis using r p by (auto simp: run_effect_def)
    qed
  qed
  moreover have "chained (unat (jo_applied q)) (out1 @ out2) (unat (jo_applied q2))"
    using e r by (auto simp: push_effect_def run_effect_def chained_append)
  moreover have "set (out1 @ out2) \<subseteq> insert e es \<union> set (jo_pending q)"
      "set (jo_pending q2) \<subseteq> insert e es \<union> set (jo_pending q)" "order_inv q2"
    using e r unfolding push_effect_def run_effect_def by auto
  ultimately show ?thesis by (simp add: run_effect_def)
qed

lemma push_all_effect:
  "order_inv q \<Longrightarrow> push_all q es = Inr (q', out) \<Longrightarrow> run_effect q (fst ` set es) q' out"
proof (induction es arbitrary: q out)
  case Nil
  then show ?case by (auto simp: run_effect_def)
next
  case (Cons x es)
  obtain e t where x: "x = (e, t)" by fastforce
  from Cons.prems(2) obtain q1 out1 out2 where
    one: "push q e t = Inr (q1, out1)" and rest: "push_all q1 es = Inr (q', out2)"
    and out: "out = out1 @ out2"
    by (auto simp: x split: sum.splits)
  have eff: "push_effect q e q1 out1" by (rule push_effect_holds [OF Cons.prems(1) one])
  then have "order_inv q1" by (simp add: push_effect_def)
  from run_effect_step [OF eff Cons.IH [OF this rest]] show ?case by (simp add: x out)
qed

section \<open>Once every identifier has arrived\<close>

lemma complete_run:
  assumes eff: "run_effect newJournalOrder es q out"
    and ids: "\<forall>k. 0 < k \<and> k \<le> n \<longrightarrow> (\<exists>e \<in> es. unat (ev_ID e) = k)"
    and max: "\<forall>e \<in> es. unat (ev_ID e) \<le> n"
  shows "unat (jo_applied q) = n \<and> jo_pending q = [] \<and> chained 0 out n"
proof -
  from eff have inv: "order_inv q" and ch: "chained 0 out (unat (jo_applied q))"
    and out: "set out \<subseteq> es" and pend: "set (jo_pending q) \<subseteq> es"
    and seen: "\<forall>c \<in> es. ev_ID c \<le> jo_applied q \<or> ev_ID c \<in> ev_ID ` set (jo_pending q)"
    by (auto simp: run_effect_def newJournalOrder_def)
  have le: "unat (jo_applied q) \<le> n"
    using chained_last [OF ch] out max by (metis subsetD zero_le)
  have "\<not> unat (jo_applied q) < n"
  proof
    assume less: "unat (jo_applied q) < n"
    then obtain e where e: "e \<in> es" "unat (ev_ID e) = Suc (unat (jo_applied q))"
      using ids [rule_format, of "Suc (unat (jo_applied q))"] by auto
    then have "\<not> ev_ID e \<le> jo_applied q" by (simp add: word_le_nat_alt)
    with seen e(1) obtain p where p: "p \<in> set (jo_pending q)" "ev_ID p = ev_ID e" by force
    have nm: "jo_applied q \<noteq> - 1" using inv p by (auto simp: order_inv_def dest: less_not_max)
    have "ev_ID p = jo_applied q + 1"
      using e(2) p(2) by (simp add: word_unat_eq_iff unat_plus_one [OF nm])
    then have "eligible (jo_applied q) p"
      using inv p(1) by (auto simp: order_inv_def eligible_def)
    with inv p(1) show False by (auto simp: order_inv_def)
  qed
  with le have n: "unat (jo_applied q) = n" by simp
  have "jo_pending q = []"
  proof (rule ccontr)
    assume "jo_pending q \<noteq> []"
    then obtain p where "p \<in> set (jo_pending q)" by (cases "jo_pending q") auto
    with inv pend max n show False by (force simp: order_inv_def word_less_nat_alt)
  qed
  with n ch show ?thesis by simp
qed

section \<open>What the native renderer sees\<close>

text \<open>
  The renderer's view of a sequence of events: the geometry in force, and every chunk of output
  with the geometry it was written under. A resize that another resize supersedes before any
  output leaves no trace.
\<close>

type_synonym geometry = "int \<times> int \<times> int \<times> int"
type_synonym native = "geometry \<times> (geometry \<times> bytes) list"

definition apply_native :: "native \<Rightarrow> rendererJournalEvent \<Rightarrow> native" where
  "apply_native s e =
     (if ev_Type e = output_type then (fst s, snd s @ [(fst s, ev_Data e)])
      else ((ev_Cols e, ev_Rows e, ev_CellWidth e, ev_CellHeight e), snd s))"

lemma native_resizes:
  "\<forall>c \<in> set es. ev_Type c = resize_type \<Longrightarrow> ev_Type e = resize_type \<Longrightarrow>
     foldl apply_native s (es @ [e]) = apply_native s e"
  by (induction es arbitrary: s) (auto simp: apply_native_def)

lemma segment_snoc:
  "a < k \<Longrightarrow> k \<le> length h \<Longrightarrow> drop a (take k h) = drop a (take (k - 1) h) @ [h ! (k - 1)]"
  by (cases k) (simp_all add: take_Suc_conv_app_nth)

lemma native_segment:
  assumes ok: "event_ok e" "span_ok h e" and e: "h ! (unat (ev_ID e) - 1) = e"
    and first: "unat (first_id e) \<le> Suc a" and a: "a < unat (ev_ID e)"
  shows "foldl apply_native s (drop a (take (unat (ev_ID e)) h)) = apply_native s e"
proof -
  let ?k = "unat (ev_ID e)"
  have k: "?k \<le> length h" using ok by (simp add: span_ok_def)
  have seg: "drop a (take ?k h) = drop a (take (?k - 1) h) @ [e]"
    using segment_snoc [OF a k] e by simp
  show ?thesis
  proof (cases "ev_Type e = output_type")
    case True
    then have "?k = Suc a" using first_id_output [OF ok(1)] first a by simp
    then show ?thesis unfolding seg by simp
  next
    case False
    then have ty: "ev_Type e = resize_type" using ok(1) by (auto simp: event_ok_def)
    have "ev_Type c = resize_type" if "c \<in> set (drop a (take (?k - 1) h))" for c
    proof -
      from that obtain i where i: "i < ?k - 1 - a" "c = h ! (a + i)"
        using k by (auto simp: in_set_conv_nth)
      with ok(2) ty first show ?thesis
        unfolding span_ok_def by (auto dest: spec [of _ "Suc (a + i)"])
    qed
    then show ?thesis unfolding seg using native_resizes ty by blast
  qed
qed

lemma native_chain:
  assumes "chained a out b" "b \<le> length h" "list_all event_ok h" "list_all (span_ok h) h"
    and "\<forall>i < length h. unat (ev_ID (h ! i)) = Suc i" "set out \<subseteq> set h"
  shows "foldl apply_native s out = foldl apply_native s (drop a (take b h))"
  using assms(1,6)
proof (induction out arbitrary: a s)
  case Nil
  then show ?case by simp
next
  case (Cons e es)
  let ?k = "unat (ev_ID e)"
  have b: "?k \<le> b" using Cons.prems(1) chained_le [of ?k es b] by simp
  obtain i where "i < length h" "h ! i = e" using Cons.prems(2) by (auto simp: in_set_conv_nth)
  then have e: "h ! (?k - 1) = e" using assms(5) by auto
  have seg: "foldl apply_native s (drop a (take ?k h)) = apply_native s e"
    using Cons.prems assms(3,4) by (intro native_segment [OF _ _ e]) (auto simp: list_all_iff)
  have "drop a (take b h) = drop a (take ?k h) @ drop ?k (take b h)"
    using Cons.prems(1) b assms(2)
    by (subst append_take_drop_id [of ?k "take b h", symmetric]) (simp add: min_def)
  then show ?case using Cons seg by simp
qed

section \<open>Pushes that cannot fail\<close>

definition valid_event :: "rendererJournalEvent \<Rightarrow> bool" where
  "valid_event e \<longleftrightarrow>
     ev_ID e \<noteq> 0 \<and> ev_ID e < rendererInputEventBit
     \<and> (ev_Type e = output_type \<and> first_id e = ev_ID e
        \<or> ev_Type e = resize_type \<and> first_id e \<le> ev_ID e
          \<and> rendererValidGeometry (ev_Cols e) (ev_Rows e)
          \<and> rendererValidPixels (ev_CellWidth e) (ev_CellHeight e))"

lemma push_ok:
  assumes "valid_event e" "length (jo_pending q) < rendererJournalMaxPendingEvents"
    and "jo_bytes q + rendererJournalEventBytes e \<le> defaultRendererJournalBytes"
  shows "\<exists>r. push q e t = Inr r"
  using assms unfolding push_def
  by (auto simp: valid_event_def Let_def split: prod.splits)

lemma push_all_ok:
  assumes "order_inv q" "\<forall>e \<in> set es. valid_event (fst e)"
    and "length (jo_pending q) + length es \<le> rendererJournalMaxPendingEvents"
    and "jo_bytes q + events_bytes (map fst es) \<le> defaultRendererJournalBytes"
  shows "\<exists>q' out. push_all q es = Inr (q', out)"
  using assms
proof (induction es arbitrary: q)
  case (Cons x es)
  obtain e t where x: "x = (e, t)" by fastforce
  have "jo_bytes q + rendererJournalEventBytes e \<le> defaultRendererJournalBytes"
    using Cons.prems(4) events_bytes_nonneg [of "map fst es"] unfolding x list.map fst_conv
      events_bytes_simps by linarith
  then have "\<exists>r. push q e t = Inr r"
    using Cons.prems by (intro push_ok) (auto simp: x)
  then obtain q1 out1 where one: "push q e t = Inr (q1, out1)" by auto
  have eff: "push_effect q e q1 out1" by (rule push_effect_holds [OF Cons.prems(1) one])
  have "\<exists>q' out. push_all q1 es = Inr (q', out)"
    using Cons.prems eff by (intro Cons.IH) (auto simp: push_effect_def x)
  then show ?case by (auto simp: x one)
qed simp

section \<open>Properties\<close>

text \<open>
  The reorder buffer applies events as an ordered chain without gaps, and stays
  within its bounds. For every sequence of pushes that succeeds, the events it hands to the
  renderer form a chain from 0 to the watermark, each starting at most one past its
  predecessor and ending beyond it; every applied event was pushed; every pushed event is at
  or below the watermark or still pending; no pending event could be applied; the byte count
  is the sum of the pending events and at most 1 MiB, and at most 256 events are pending.
\<close>

theorem journal_order_chain:
  assumes "push_all newJournalOrder es = Inr (q, out)"
  shows "chained 0 out (unat (jo_applied q)) \<and> set out \<subseteq> fst ` set es
     \<and> (\<forall>e \<in> fst ` set es. ev_ID e \<le> jo_applied q \<or> ev_ID e \<in> ev_ID ` set (jo_pending q))
     \<and> (\<forall>e \<in> set (jo_pending q). \<not> eligible (jo_applied q) e)
     \<and> jo_bytes q = events_bytes (jo_pending q) \<and> jo_bytes q \<le> defaultRendererJournalBytes
     \<and> length (jo_pending q) \<le> rendererJournalMaxPendingEvents"
  using push_all_effect [OF order_inv_new assms]
  by (auto simp: run_effect_def order_inv_def newJournalOrder_def)

definition sample_output :: "u64 \<Rightarrow> bytes \<Rightarrow> rendererJournalEvent" where
  "sample_output i d = \<lparr>ev_ID = i, ev_FirstID = 0, ev_Type = output_type, ev_Data = d,
     ev_Cols = 0, ev_Rows = 0, ev_CellWidth = 0, ev_CellHeight = 0\<rparr>"

theorem journal_order_chain_witness:
  "\<exists>q. push_all newJournalOrder
        [(sample_output 3 [9], 5), (sample_output 1 [7], 6), (sample_output 2 [8], 7)]
      = Inr (q, [sample_output 1 [7], sample_output 2 [8], sample_output 3 [9]])
     \<and> chained 0 [sample_output 1 [7], sample_output 2 [8], sample_output 3 [9]]
         (unat (jo_applied q))"
proof -
  let ?es = "[(sample_output 3 [9], 5), (sample_output 1 [7], 6), (sample_output 2 [8], 7)]"
  let ?out = "[sample_output 1 [7], sample_output 2 [8], sample_output 3 [9]]"
  let ?q = "\<lparr>jo_applied = 3, jo_pending = [], jo_bytes = 0, jo_gapSince = 0\<rparr>"
  have run: "push_all newJournalOrder ?es = Inr (?q, ?out)" by code_simp
  from journal_order_chain [OF run] run show ?thesis by blast
qed

text \<open>
  Property C11: The renderer sees exactly the terminal's history. Take any run of the journal
  and let the worker receive the events it recorded in any order, any of them more than once,
  without error. Then the watermark is the last identifier, nothing stays pending, and the
  native renderer has received every chunk of output exactly once, in order, each under the
  geometry that was in force when it was written; and it ends at the final geometry.
\<close>

theorem journal_delivery_complete:
  assumes "length ops < 2 ^ 64"
    and "fst ` set es = set (jr_history (journal_run m ops))"
    and "push_all newJournalOrder es = Inr (q, out)"
  shows "unat (jo_applied q) = length (jr_history (journal_run m ops)) \<and> jo_pending q = []
     \<and> foldl apply_native s out = foldl apply_native s (jr_history (journal_run m ops))"
proof -
  let ?h = "jr_history (journal_run m ops)"
  have h: "\<forall>i < length ?h. unat (ev_ID (?h ! i)) = Suc i" "list_all event_ok ?h"
      "list_all (span_ok ?h) ?h"
    using history_inv_run [OF assms(1)] by (auto simp: history_inv_def)
  have eff: "run_effect newJournalOrder (set ?h) q out"
    using push_all_effect [OF order_inv_new assms(3)] assms(2) by simp
  have all: "unat (jo_applied q) = length ?h \<and> jo_pending q = [] \<and> chained 0 out (length ?h)"
  proof (rule complete_run [OF eff])
    show "\<forall>k. 0 < k \<and> k \<le> length ?h \<longrightarrow> (\<exists>e \<in> set ?h. unat (ev_ID e) = k)"
      using h(1) by (metis Suc_diff_1 Suc_le_lessD nth_mem)
    show "\<forall>e \<in> set ?h. unat (ev_ID e) \<le> length ?h"
      using h(1) by (metis Suc_leI in_set_conv_nth)
  qed
  moreover have "set out \<subseteq> set ?h" using eff by (auto simp: run_effect_def newJournalOrder_def)
  ultimately show ?thesis using native_chain [of 0 out "length ?h" ?h s] h by simp
qed

theorem journal_delivery_complete_witness:
  "let h = jr_history (journal_run 100
             [JOutput [1, 2], JResize 80 24 0 0, JResize 90 24 0 0, JOutput [3]])
   in \<exists>q out. push_all newJournalOrder [(h ! 3, 1), (h ! 2, 2), (h ! 0, 3), (h ! 1, 4)] = Inr (q, out)
        \<and> length out = 3 \<and> jo_pending q = []"
proof -
  let ?ops = "[JOutput [1, 2], JResize 80 24 0 0, JResize 90 24 0 0, JOutput [3]]"
  let ?h = "jr_history (journal_run 100 ?ops)"
  let ?es = "[(?h ! 3, 1), (?h ! 2, 2), (?h ! 0, 3), (?h ! 1, 4)]"
  have set: "fst ` set ?es = set ?h" by code_simp
  have run: "\<exists>q out. push_all newJournalOrder ?es = Inr (q, out) \<and> length out = 3"
  proof -
    have "case push_all newJournalOrder ?es of Inl _ \<Rightarrow> False | Inr (q, out) \<Rightarrow> length out = 3"
      by code_simp
    then show ?thesis by (auto split: sum.splits)
  qed
  then obtain q out where r: "push_all newJournalOrder ?es = Inr (q, out)" "length out = 3" by blast
  have "jo_pending q = []" using journal_delivery_complete [OF _ set r(1)] by simp
  with r show ?thesis unfolding Let_def by blast
qed

text \<open>
  Reordering within the bounds always succeeds. If the events are well formed, at
  most 256 in number and at most 1 MiB in all, then they can be pushed in any order at all
  without an error.
\<close>

theorem journal_order_accepts:
  assumes "\<forall>e \<in> set es. valid_event (fst e)" "length es \<le> rendererJournalMaxPendingEvents"
    and "events_bytes (map fst es) \<le> defaultRendererJournalBytes"
  shows "\<exists>q out. push_all newJournalOrder es = Inr (q, out)"
  using assms by (intro push_all_ok [OF order_inv_new]) (auto simp: newJournalOrder_def)

theorem journal_order_accepts_witness:
  "\<exists>q out. push_all newJournalOrder [(sample_output 2 [9], 5), (sample_output 1 [7], 6)] = Inr (q, out)"
proof (rule journal_order_accepts)
  show "\<forall>e\<in>set [(sample_output 2 [9], 5), (sample_output 1 [7], 6)]. valid_event (fst e)"
    by code_simp
  show "length [(sample_output 2 [9], 5), (sample_output 1 [7], 6)] \<le> rendererJournalMaxPendingEvents"
    by (simp add: rendererJournalMaxPendingEvents_def)
  show "events_bytes (map fst [(sample_output 2 [9], 5), (sample_output 1 [7], 6)])
      \<le> defaultRendererJournalBytes"
    by code_simp
qed

end
