(* ===== verification/AppErrors.thy ===== *)
theory AppErrors
  imports Prelude
begin

text \<open>
  The program's errors, \<^verbatim>\<open>errors.go\<close>, their form on the daemon's wire (\<^verbatim>\<open>RPCError\<close> of
  \<^verbatim>\<open>daemon/protocol.go\<close>) and the conversions of \<^verbatim>\<open>daemon_host.go\<close>; and the functions of Go's
  \<^verbatim>\<open>strings\<close> and \<^verbatim>\<open>slices\<close> packages that several components call. The theory proves that an
  error keeps its exit code and its category when it crosses the wire.
\<close>

section \<open>Strings\<close>

text \<open>
  Go's strings are byte sequences. The byte sequences of the Unicode white space that
  \<^verbatim>\<open>strings.TrimSpace\<close> removes: ASCII, then U+0085, U+00A0, U+1680, U+2000 to U+200A, U+2028,
  U+2029, U+202F, U+205F and U+3000 in UTF-8.
\<close>

definition spaces :: "string list" where
  "spaces =
     map (\<lambda>c. [c]) [CHR 0x09, CHR 0x0A, CHR 0x0B, CHR 0x0C, CHR 0x0D, CHR '' '']
     @ [[CHR 0xC2, CHR 0x85], [CHR 0xC2, CHR 0xA0], [CHR 0xE1, CHR 0x9A, CHR 0x80]]
     @ map (\<lambda>c. [CHR 0xE2, CHR 0x80, c])
         [CHR 0x80, CHR 0x81, CHR 0x82, CHR 0x83, CHR 0x84, CHR 0x85, CHR 0x86, CHR 0x87, CHR 0x88,
          CHR 0x89, CHR 0x8A, CHR 0xA8, CHR 0xA9, CHR 0xAF]
     @ [[CHR 0xE2, CHR 0x81, CHR 0x9F], [CHR 0xE3, CHR 0x80, CHR 0x80]]"

definition lead_of :: "string list \<Rightarrow> string \<Rightarrow> string option" where
  "lead_of ws s = find (\<lambda>w. w \<noteq> [] \<and> take (length w) s = w) ws"

lemma lead_of_shorter: "lead_of ws s = Some w \<Longrightarrow> length (drop (length w) s) < length s"
  by (auto simp: lead_of_def find_Some_iff) (metis length_greater_0_conv take_eq_Nil2 diff_less)

function strip_lead :: "string list \<Rightarrow> string \<Rightarrow> string" where
  "strip_lead ws s =
     (case lead_of ws s of None \<Rightarrow> s | Some w \<Rightarrow> strip_lead ws (drop (length w) s))"
  by pat_completeness auto
termination
  by (relation "measure (\<lambda>(ws, s). length s)") (auto dest: lead_of_shorter)

declare strip_lead.simps [simp del]

definition TrimSpace :: "string \<Rightarrow> string" where
  "TrimSpace s = rev (strip_lead (map rev spaces) (rev (strip_lead spaces s)))"

definition HasPrefix :: "string \<Rightarrow> string \<Rightarrow> bool" where
  "HasPrefix s p \<longleftrightarrow> take (length p) s = p"

definition HasSuffix :: "string \<Rightarrow> string \<Rightarrow> bool" where
  "HasSuffix s p \<longleftrightarrow> HasPrefix (rev s) (rev p)"

definition ContainsAny :: "string \<Rightarrow> string \<Rightarrow> bool" where
  "ContainsAny s chars \<longleftrightarrow> list_ex (\<lambda>c. c \<in> set chars) s"

definition Compact :: "'a list \<Rightarrow> 'a list" where
  "Compact xs = remdups_adj xs"

section \<open>Errors\<close>

datatype ErrorCategory =
    CategoryInvalidArgument | CategoryNotFound | CategoryPreconditionFailed
  | CategoryUnsupportedFeature | CategoryDependencyUnavailable | CategoryExternalCommandFailed
  | CategoryMetadataCorruption | CategoryInternal

definition category_name :: "ErrorCategory \<Rightarrow> string" where
  "category_name k = (case k of
     CategoryInvalidArgument \<Rightarrow> ''InvalidArgument''
   | CategoryNotFound \<Rightarrow> ''NotFound''
   | CategoryPreconditionFailed \<Rightarrow> ''PreconditionFailed''
   | CategoryUnsupportedFeature \<Rightarrow> ''UnsupportedFeature''
   | CategoryDependencyUnavailable \<Rightarrow> ''DependencyUnavailable''
   | CategoryExternalCommandFailed \<Rightarrow> ''ExternalCommandFailed''
   | CategoryMetadataCorruption \<Rightarrow> ''MetadataCorruption''
   | CategoryInternal \<Rightarrow> ''Internal'')"

text \<open>
  A Go error value: an \<^verbatim>\<open>AppError\<close> (category, message, code, fields, wrapped error), an
  \<^verbatim>\<open>RPCError\<close> (category, message, code, fields), an error of another package with its text, an
  error that \<^verbatim>\<open>fmt.Errorf\<close> wraps with a prefix, and \<^verbatim>\<open>errors.Join\<close> of several. \<^verbatim>\<open>ErrorCategory\<close>
  is a string type, so the category of an \<^verbatim>\<open>AppError\<close> is its string.
\<close>

type_synonym fields = "(string \<times> string) list"

datatype goError =
    AppError string string int fields "goError option"
  | RPCError string string int fields
  | OtherError string
  | WrapError string goError
  | JoinError "goError list"

definition "ExitSuccess = (0 :: int)"
definition "ExitInvalidArgument = (2 :: int)"
definition "ExitDependencyUnavailable = (3 :: int)"
definition "ExitNotFound = (4 :: int)"
definition "ExitPreconditionFailed = (5 :: int)"
definition "ExitExternalFailure = (6 :: int)"
definition "ExitInternalFailure = (7 :: int)"

lemmas exit_codes = ExitSuccess_def ExitInvalidArgument_def ExitDependencyUnavailable_def
  ExitNotFound_def ExitPreconditionFailed_def ExitExternalFailure_def ExitInternalFailure_def

definition invalidArgument :: "string \<Rightarrow> fields \<Rightarrow> goError" where
  "invalidArgument msg fs = AppError (category_name CategoryInvalidArgument) msg ExitInvalidArgument fs None"

definition notFound :: "string \<Rightarrow> fields \<Rightarrow> goError" where
  "notFound msg fs = AppError (category_name CategoryNotFound) msg ExitNotFound fs None"

definition preconditionFailed :: "string \<Rightarrow> fields \<Rightarrow> goError" where
  "preconditionFailed msg fs =
     AppError (category_name CategoryPreconditionFailed) msg ExitPreconditionFailed fs None"

definition unsupportedFeature :: "string \<Rightarrow> fields \<Rightarrow> goError" where
  "unsupportedFeature msg fs =
     AppError (category_name CategoryUnsupportedFeature) msg ExitPreconditionFailed fs None"

definition dependencyUnavailable :: "string \<Rightarrow> goError option \<Rightarrow> fields \<Rightarrow> goError" where
  "dependencyUnavailable msg err fs =
     AppError (category_name CategoryDependencyUnavailable) msg ExitDependencyUnavailable fs err"

definition externalCommandFailed :: "string \<Rightarrow> goError option \<Rightarrow> fields \<Rightarrow> goError" where
  "externalCommandFailed msg err fs =
     AppError (category_name CategoryExternalCommandFailed) msg ExitExternalFailure fs err"

definition metadataCorruption :: "string \<Rightarrow> goError option \<Rightarrow> fields \<Rightarrow> goError" where
  "metadataCorruption msg err fs =
     AppError (category_name CategoryMetadataCorruption) msg ExitInternalFailure fs err"

text \<open>\<open>Error\<close> renders an error; \<^verbatim>\<open>errors.Join\<close> puts its errors on lines of their own.\<close>

fun join_lines :: "string list \<Rightarrow> string" where
  "join_lines [] = []"
| "join_lines [s] = s"
| "join_lines (s # ss) = s @ CHR 0x0A # join_lines ss"

fun error_text :: "goError \<Rightarrow> string" where
  "error_text (AppError _ msg _ _ None) = msg"
| "error_text (AppError _ msg _ _ (Some e)) = msg @ '': '' @ error_text e"
| "error_text (RPCError _ msg _ _) = msg"
| "error_text (OtherError s) = s"
| "error_text (WrapError prefix e) = prefix @ error_text e"
| "error_text (JoinError es) = join_lines (map error_text es)"

text \<open>
  \<^verbatim>\<open>errors.As\<close> walks the tree of wrapped errors in depth-first preorder and stops at the first
  error of the wanted type. The flag selects the type: \<^verbatim>\<open>AppError\<close> or \<^verbatim>\<open>RPCError\<close>.
\<close>

fun errors_as :: "bool \<Rightarrow> goError \<Rightarrow> goError option" where
  "errors_as app (AppError k msg c fs inner) =
     (if app then Some (AppError k msg c fs inner)
      else case inner of None \<Rightarrow> None | Some e \<Rightarrow> errors_as app e)"
| "errors_as app (RPCError k msg c fs) = (if app then None else Some (RPCError k msg c fs))"
| "errors_as app (OtherError s) = None"
| "errors_as app (WrapError p e) = errors_as app e"
| "errors_as app (JoinError es) =
     (case dropWhile (\<lambda>r. r = None) (map (errors_as app) es) of [] \<Rightarrow> None | r # _ \<Rightarrow> r)"

definition IsNotFound :: "goError \<Rightarrow> bool" where
  "IsNotFound err = (case errors_as True err of
     Some (AppError k _ _ _ _) \<Rightarrow> k = category_name CategoryNotFound | _ \<Rightarrow> False)"

definition exitCodeForError :: "goError option \<Rightarrow> int" where
  "exitCodeForError err = (case err of None \<Rightarrow> ExitSuccess
     | Some e \<Rightarrow> (case errors_as True e of Some (AppError _ _ c _ _) \<Rightarrow> c | _ \<Rightarrow> ExitInternalFailure))"

definition toDaemonError :: "goError option \<Rightarrow> goError option" where
  "toDaemonError err = (case err of None \<Rightarrow> None
     | Some e \<Rightarrow> (case errors_as True e of
          Some (AppError k msg c fs _) \<Rightarrow> Some (RPCError k msg c fs)
        | _ \<Rightarrow> (case errors_as False e of
             Some r \<Rightarrow> Some r
           | None \<Rightarrow> Some (RPCError ''Internal'' (error_text e) ExitInternalFailure []))))"

definition AsRPCError :: "goError \<Rightarrow> goError" where
  "AsRPCError err = (case errors_as False err of Some r \<Rightarrow> r
     | None \<Rightarrow> RPCError ''Internal'' (error_text err) ExitInternalFailure [])"

definition fromDaemonError :: "goError \<Rightarrow> goError" where
  "fromDaemonError err = (case errors_as False err of
     Some (RPCError k msg c fs) \<Rightarrow> AppError k msg c fs None | _ \<Rightarrow> err)"

section \<open>Lemmas\<close>

lemma find_first_Some:
  "(case dropWhile (\<lambda>r. r = None) (map f xs) of [] \<Rightarrow> None | r # _ \<Rightarrow> r) = Some y \<Longrightarrow>
     \<exists>x \<in> set xs. f x = Some y"
  by (induction xs) (auto split: if_splits)

lemma errors_as_app: "errors_as True e = Some a \<Longrightarrow> \<exists>k m c fs i. a = AppError k m c fs i"
proof (induction "True" e rule: errors_as.induct)
  case (5 es)
  then obtain x where "x \<in> set es" "errors_as True x = Some a"
    using find_first_Some [of "errors_as True"] find_first_Some [of "errors_as False"]
    by (metis errors_as.simps(5))
  then show ?case using 5 by blast
qed auto

lemma errors_as_rpc: "errors_as False e = Some a \<Longrightarrow> \<exists>k m c fs. a = RPCError k m c fs"
proof (induction "False" e rule: errors_as.induct)
  case (5 es)
  then obtain x where "x \<in> set es" "errors_as False x = Some a"
    using find_first_Some [of "errors_as True"] find_first_Some [of "errors_as False"]
    by (metis errors_as.simps(5))
  then show ?case using 5 by blast
qed (auto split: option.splits)

section \<open>Properties\<close>

text \<open>
  An error keeps its meaning across the daemon's wire. Converting an error to the
  daemon's form and back leaves the process exit code and the not-found classification of every
  error that is an application error or has no remote error inside; and what travels is always
  exactly an \<^verbatim>\<open>RPCError\<close>, which \<open>AsRPCError\<close> returns unchanged.
\<close>

theorem error_wire_roundtrip:
  assumes "errors_as True e \<noteq> None \<or> errors_as False e = None"
  shows "\<exists>w. toDaemonError (Some e) = Some w \<and> AsRPCError w = w
     \<and> exitCodeForError (Some (fromDaemonError w)) = exitCodeForError (Some e)
     \<and> IsNotFound (fromDaemonError w) = IsNotFound e"
proof (cases "errors_as True e")
  case None
  then show ?thesis using assms
    by (simp add: toDaemonError_def fromDaemonError_def exitCodeForError_def IsNotFound_def
        AsRPCError_def category_name_def)
next
  case (Some a)
  then obtain k m c fs i where "a = AppError k m c fs i" using errors_as_app by blast
  with Some show ?thesis
    by (simp add: toDaemonError_def fromDaemonError_def exitCodeForError_def IsNotFound_def
        AsRPCError_def)
qed

theorem error_wire_roundtrip_witness:
  "\<exists>w. toDaemonError (Some (WrapError ''start: '' (notFound ''node not found'' []))) = Some w
     \<and> exitCodeForError (Some (fromDaemonError w)) = 4 \<and> IsNotFound (fromDaemonError w)"
proof -
  let ?e = "WrapError ''start: '' (notFound ''node not found'' [])"
  have "errors_as True ?e \<noteq> None \<or> errors_as False ?e = None" by code_simp
  from error_wire_roundtrip [OF this] show ?thesis
    by (auto simp: exitCodeForError_def IsNotFound_def notFound_def exit_codes)
qed

end
