(* ===== verification/Locks.thy ===== *)
theory Locks
  imports AppErrors
begin

text \<open>
  The file locks of a metadata home, \<^verbatim>\<open>locks.go\<close>: the lock domains and per-node locks, the order
  in which one acquisition takes them, the polling loop on \<^verbatim>\<open>flock\<close>, the release of a set, and
  the operation tokens. Processes are interleaved by a step relation over the kernel's lock
  table. The theory proves that sets of locks exclude each other, that no interleaving of
  acquisitions with trimmed identifiers deadlocks, and what an operation token answers.
\<close>

section \<open>Lock files\<close>

text \<open>A clean absolute path is the list of its components; \<^verbatim>\<open>filepath.Join\<close> appends components.\<close>

type_synonym path = "string list"
type_synonym lockKey = string

definition lockNodes :: lockKey where "lockNodes = ''nodes''"
definition lockConfigurations :: lockKey where "lockConfigurations = ''configurations''"
definition lockEnvironments :: lockKey where "lockEnvironments = ''environments''"
definition lockSettings :: lockKey where "lockSettings = ''settings''"

definition nodeLockBaseName :: "string \<Rightarrow> (goError, string) result" where
  "nodeLockBaseName nodeID =
     (let name = TrimSpace nodeID
      in if name = [] \<or> name = ''.'' \<or> name = ''..'' \<or> ContainsAny name [CHR ''/'', CHR 0x5C]
         then Inl (invalidArgument ''node id is not usable as a lock name'' [(''node_id'', nodeID)])
         else Inr name)"

fun node_paths :: "path \<Rightarrow> string list \<Rightarrow> (goError, path list) result" where
  "node_paths nodeLockDir [] = Inr []"
| "node_paths nodeLockDir (nodeID # ids) =
     (case nodeLockBaseName nodeID of
        Inl err \<Rightarrow> Inl err
      | Inr name \<Rightarrow>
          (case node_paths nodeLockDir ids of
             Inl err \<Rightarrow> Inl err
           | Inr ps \<Rightarrow> Inr ((nodeLockDir @ [name @ ''.lock'']) # ps)))"

text \<open>\<open>ensureDir\<close> is the directory creation of the file system; it may fail.\<close>

definition lockPaths ::
  "(path \<Rightarrow> goError option) \<Rightarrow> path \<Rightarrow> lockKey list \<Rightarrow> string list \<Rightarrow> (goError, path list) result" where
  "lockPaths ensureDir root keys nodeIDs =
     (let lockDir = root @ [''_locks''];
          nodeLockDir = lockDir @ [''nodes'']
      in case (if keys \<noteq> [] then ensureDir lockDir else None) of
           Some err \<Rightarrow> Inl err
         | None \<Rightarrow>
             let globals = map (\<lambda>key. lockDir @ [key @ ''.lock'']) (Compact (sort keys))
             in if nodeIDs \<noteq> []
                then (case ensureDir nodeLockDir of
                        Some err \<Rightarrow> Inl err
                      | None \<Rightarrow>
                          (case node_paths nodeLockDir (Compact (sort nodeIDs)) of
                             Inl err \<Rightarrow> Inl err
                           | Inr ps \<Rightarrow> Inr (globals @ ps)))
                else Inr globals)"

section \<open>The documented order of locks\<close>

datatype lockRef = GlobalLock string | NodeLock string

fun lock_path :: "path \<Rightarrow> lockRef \<Rightarrow> path" where
  "lock_path root (GlobalLock key) = root @ [''_locks'', key @ ''.lock'']"
| "lock_path root (NodeLock name) = root @ [''_locks'', ''nodes'', name @ ''.lock'']"

lemma lock_path_inj: "inj (lock_path root)"
proof (rule injI)
  fix a b assume "lock_path root a = lock_path root b"
  then show "a = b" by (cases a; cases b) auto
qed

lemmas lock_path_eq [simp] = inj_eq [OF lock_path_inj]

text \<open>The contract's order: global domains by name, before per-node locks by name.\<close>

instantiation lockRef :: linorder
begin

fun less_eq_lockRef :: "lockRef \<Rightarrow> lockRef \<Rightarrow> bool" where
  "less_eq_lockRef (GlobalLock a) (GlobalLock b) = (a \<le> b)"
| "less_eq_lockRef (GlobalLock a) (NodeLock b) = True"
| "less_eq_lockRef (NodeLock a) (GlobalLock b) = False"
| "less_eq_lockRef (NodeLock a) (NodeLock b) = (a \<le> b)"

definition less_lockRef :: "lockRef \<Rightarrow> lockRef \<Rightarrow> bool" where
  "less_lockRef a b = (a \<le> b \<and> \<not> b \<le> a)"

instance
proof
  fix x y z :: lockRef
  show "(x < y) = (x \<le> y \<and> \<not> y \<le> x)" by (rule less_lockRef_def)
  show "x \<le> x" by (cases x) auto
  show "x \<le> y \<Longrightarrow> y \<le> z \<Longrightarrow> x \<le> z" by (cases x; cases y; cases z) auto
  show "x \<le> y \<Longrightarrow> y \<le> x \<Longrightarrow> x = y" by (cases x; cases y) auto
  show "x \<le> y \<or> y \<le> x" by (cases x; cases y) auto
qed

end

lemma lockRef_less [simp]:
  "GlobalLock a < GlobalLock b \<longleftrightarrow> a < b" "NodeLock a < NodeLock b \<longleftrightarrow> a < b"
  "GlobalLock a < NodeLock b" "\<not> NodeLock a < GlobalLock b"
  by (auto simp: less_lockRef_def)

lemma sorted_wrt_remdups_adj:
  "sorted xs \<Longrightarrow> sorted_wrt (<) (remdups_adj xs)" for xs :: "'a :: linorder list"
  by (induction xs rule: remdups_adj.induct) auto

lemma node_paths_trimmed:
  "\<forall>i \<in> set ids. TrimSpace i = i \<Longrightarrow> node_paths (root @ [''_locks'', ''nodes'']) ids = Inr ps \<Longrightarrow>
     ps = map (lock_path root) (map NodeLock ids)"
  by (induction ids arbitrary: ps)
    (auto simp: nodeLockBaseName_def Let_def split: if_splits sum.splits)

lemma lockPaths_sorted:
  assumes "lockPaths mk root keys ids = Inr ps" "\<forall>i \<in> set ids. TrimSpace i = i"
  shows "\<exists>ks ns. ps = map (lock_path root) (map GlobalLock ks @ map NodeLock ns)
     \<and> sorted_wrt (<) (map GlobalLock ks @ map NodeLock ns) \<and> set ks = set keys \<and> set ns = set ids"
proof -
  let ?ks = "remdups_adj (sort keys)" and ?ns = "remdups_adj (sort ids)"
  have "ps = map (lock_path root) (map GlobalLock ?ks @ map NodeLock ?ns)"
    using assms node_paths_trimmed [of ?ns root]
    by (auto simp: lockPaths_def Let_def Compact_def split: if_splits option.splits sum.splits)
  moreover have "sorted_wrt (<) ?ks" "sorted_wrt (<) ?ns" by (simp_all add: sorted_wrt_remdups_adj)
  ultimately show ?thesis
    by (intro exI [of _ ?ks] exI [of _ ?ns]) (auto simp: sorted_wrt_append sorted_wrt_map)
qed

section \<open>Polling for one lock\<close>

datatype flockResult = FlockOK | EWOULDBLOCK | FlockError goError
datatype lockLog = WaitingFor duration | AcquiredAfter duration

text \<open>
  One turn of the loop: what \<^verbatim>\<open>flock\<close> answers, the time since the start, and the context's
  error when the \<^verbatim>\<open>select\<close> sees it done before the retry interval is over.
\<close>

record poll =
  po_flock :: flockResult
  po_waited :: duration
  po_ctx :: "goError option"

definition lockWaitAnnounceInterval :: duration where
  "lockWaitAnnounceInterval = second"

text \<open>
  The result is the log and the return value: \<open>None\<close> while the loop still waits, \<open>Some None\<close>
  once the lock is taken, \<open>Some (Some err)\<close> for an error.
\<close>

fun flockWithContext :: "poll list \<Rightarrow> bool \<Rightarrow> lockLog list \<times> goError option option" where
  "flockWithContext [] announced = ([], None)"
| "flockWithContext (p # ps) announced =
     (case po_flock p of
        FlockOK \<Rightarrow> (if announced then [AcquiredAfter (po_waited p)] else [], Some None)
      | FlockError err \<Rightarrow> ([], Some (Some err))
      | EWOULDBLOCK \<Rightarrow>
          let say = \<not> announced \<and> po_waited p \<ge> lockWaitAnnounceInterval;
              log = (if say then [WaitingFor (po_waited p)] else [])
          in (case po_ctx p of
                Some err \<Rightarrow> (log, Some (Some err))
              | None \<Rightarrow>
                  (case flockWithContext ps (announced \<or> say) of (log', res) \<Rightarrow> (log @ log', res))))"

lemma flock_announces_once:
  "length (filter (\<lambda>l. \<exists>d. l = WaitingFor d) (fst (flockWithContext ps announced)))
     \<le> (if announced then 0 else 1)"
  by (induction ps announced rule: flockWithContext.induct)
    (auto simp: Let_def split: flockResult.splits option.splits prod.splits if_splits)

section \<open>Interleaved acquisitions\<close>

text \<open>
  A process that uses the lock layer: the set an enclosing critical section holds (the one
  nesting the contract permits), the files of the set it takes or holds, the paths its running
  \<open>acquireLockSet\<close> still has to take, and whether that call is running.
\<close>

record proc =
  pr_outer :: "path list"
  pr_files :: "path list"
  pr_todo :: "path list"
  pr_busy :: bool

definition idle_proc :: proc where
  "idle_proc = \<lparr>pr_outer = [], pr_files = [], pr_todo = [], pr_busy = False\<rparr>"

text \<open>
  The kernel's table says which process's open file holds the exclusive lock on a file. Every
  acquisition opens its own file description, so a lock held through one is refused to every
  other, of the same process too.
\<close>

record 'p lockState =
  ls_owner :: "path \<Rightarrow> 'p option"
  ls_procs :: "'p \<Rightarrow> proc"

definition LockSet_Close :: "(path \<Rightarrow> 'p option) \<Rightarrow> path list \<Rightarrow> path \<Rightarrow> 'p option" where
  "LockSet_Close owner files = foldl (\<lambda>t f. t(f := None)) owner files"

definition is_global_path :: "path \<Rightarrow> path \<Rightarrow> bool" where
  "is_global_path root l \<longleftrightarrow> length l = length root + 2"

datatype lockAction = Begin "string list" | Grant | Blocked | Return | Fail | Nest | Release

inductive lock_step :: "path \<Rightarrow> 'p lockState \<Rightarrow> lockAction \<Rightarrow> 'p \<Rightarrow> 'p lockState \<Rightarrow> bool"
  for root :: path where
  begin_acquire:
    "\<lbrakk>pr = ls_procs s p; \<not> pr_busy pr; pr_files pr = [];
      pr_outer pr = [] \<or> keys = [] \<and> list_all (is_global_path root) (pr_outer pr);
      lockPaths mk root keys ids = Inr paths\<rbrakk>
     \<Longrightarrow> lock_step root s (Begin ids) p
           (s\<lparr>ls_procs := (ls_procs s)(p := pr\<lparr>pr_todo := paths, pr_busy := True\<rparr>)\<rparr>)"
| grant:
    "\<lbrakk>pr = ls_procs s p; pr_busy pr; pr_todo pr = l # rest; ls_owner s l = None\<rbrakk>
     \<Longrightarrow> lock_step root s Grant p
           (s\<lparr>ls_owner := (ls_owner s)(l := Some p),
              ls_procs := (ls_procs s)(p := pr\<lparr>pr_files := pr_files pr @ [l], pr_todo := rest\<rparr>)\<rparr>)"
| blocked:
    "\<lbrakk>pr = ls_procs s p; pr_busy pr; pr_todo pr = l # rest; ls_owner s l \<noteq> None\<rbrakk>
     \<Longrightarrow> lock_step root s Blocked p s"
| return:
    "\<lbrakk>pr = ls_procs s p; pr_busy pr; pr_todo pr = []\<rbrakk>
     \<Longrightarrow> lock_step root s Return p (s\<lparr>ls_procs := (ls_procs s)(p := pr\<lparr>pr_busy := False\<rparr>)\<rparr>)"
| fail:
    "\<lbrakk>pr = ls_procs s p; pr_busy pr; pr_todo pr \<noteq> []\<rbrakk>
     \<Longrightarrow> lock_step root s Fail p
           (s\<lparr>ls_owner := LockSet_Close (ls_owner s) (pr_files pr),
              ls_procs := (ls_procs s)(p := pr\<lparr>pr_files := [], pr_todo := [], pr_busy := False\<rparr>)\<rparr>)"
| nest:
    "\<lbrakk>pr = ls_procs s p; \<not> pr_busy pr; pr_outer pr = [];
      list_all (is_global_path root) (pr_files pr)\<rbrakk>
     \<Longrightarrow> lock_step root s Nest p
           (s\<lparr>ls_procs := (ls_procs s)(p := pr\<lparr>pr_outer := pr_files pr, pr_files := []\<rparr>)\<rparr>)"
| release_inner:
    "\<lbrakk>pr = ls_procs s p; \<not> pr_busy pr; pr_files pr \<noteq> []\<rbrakk>
     \<Longrightarrow> lock_step root s Release p
           (s\<lparr>ls_owner := LockSet_Close (ls_owner s) (pr_files pr),
              ls_procs := (ls_procs s)(p := pr\<lparr>pr_files := []\<rparr>)\<rparr>)"
| release_outer:
    "\<lbrakk>pr = ls_procs s p; \<not> pr_busy pr; pr_files pr = []; pr_outer pr \<noteq> []\<rbrakk>
     \<Longrightarrow> lock_step root s Release p
           (s\<lparr>ls_owner := LockSet_Close (ls_owner s) (pr_outer pr),
              ls_procs := (ls_procs s)(p := pr\<lparr>pr_outer := []\<rparr>)\<rparr>)"

definition lock_init :: "'p lockState \<Rightarrow> bool" where
  "lock_init s \<longleftrightarrow> s = \<lparr>ls_owner = (\<lambda>_. None), ls_procs = (\<lambda>_. idle_proc)\<rparr>"

definition lock_next :: "path \<Rightarrow> 'p lockState \<Rightarrow> 'p lockState \<Rightarrow> bool" where
  "lock_next root s t \<longleftrightarrow> (\<exists>a p. lock_step root s a p t)"

text \<open>
  What the callers of the program keep to: the node identifiers they lock carry no surrounding
  white space (they come from \<^verbatim>\<open>newID\<close> or from records under such names). The lock layer does not
  check it.
\<close>

definition trimmed_ids :: "lockAction \<Rightarrow> bool" where
  "trimmed_ids a = (case a of Begin ids \<Rightarrow> list_all (\<lambda>i. TrimSpace i = i) ids | _ \<Rightarrow> True)"

definition trimmed_next :: "path \<Rightarrow> 'p lockState \<Rightarrow> 'p lockState \<Rightarrow> bool" where
  "trimmed_next root s t \<longleftrightarrow> (\<exists>a p. trimmed_ids a \<and> lock_step root s a p t)"

section \<open>The invariant of the lock table\<close>

abbreviation held :: "proc \<Rightarrow> path set" where
  "held pr \<equiv> set (pr_outer pr) \<union> set (pr_files pr)"

definition proc_ok :: "path \<Rightarrow> proc \<Rightarrow> bool" where
  "proc_ok root pr \<longleftrightarrow>
     (\<exists>refs. pr_outer pr @ pr_files pr @ pr_todo pr = map (lock_path root) refs \<and> sorted_wrt (<) refs)
     \<and> (\<not> pr_busy pr \<longrightarrow> pr_todo pr = [])"

definition lock_inv :: "path \<Rightarrow> 'p lockState \<Rightarrow> bool" where
  [inv_defs]: "lock_inv root s \<longleftrightarrow>
     (\<forall>p. proc_ok root (ls_procs s p))
     \<and> (\<forall>l p. ls_owner s l = Some p \<longleftrightarrow> l \<in> held (ls_procs s p))
     \<and> finite {p. ls_procs s p \<noteq> idle_proc}"

lemma LockSet_Close_apply: "LockSet_Close owner fs l = (if l \<in> set fs then None else owner l)"
  unfolding LockSet_Close_def by (induction fs arbitrary: owner) auto

lemma lock_inv_update:
  assumes inv: "lock_inv root s" and ok: "proc_ok root pr'"
    and owner: "\<And>l. owner' l = (if l \<in> held pr' then Some p
        else if l \<in> held (ls_procs s p) then None else ls_owner s l)"
    and new: "\<And>l. l \<in> held pr' \<Longrightarrow> l \<in> held (ls_procs s p) \<or> ls_owner s l = None"
  shows "lock_inv root (s\<lparr>ls_owner := owner', ls_procs := (ls_procs s)(p := pr')\<rparr>)"
proof -
  have own: "ls_owner s l = Some q \<longleftrightarrow> l \<in> held (ls_procs s q)" for l q
    using inv by (simp add: lock_inv_def)
  have "owner' l = Some q \<longleftrightarrow> l \<in> held (((ls_procs s)(p := pr')) q)" for l q
  proof (cases "q = p")
    case True
    then show ?thesis using own [of l p] by (auto simp: owner)
  next
    case False
    have "l \<notin> held (ls_procs s q)" if "l \<in> held pr' \<or> l \<in> held (ls_procs s p)"
      using that new [of l] own [of l p] own [of l q] False by (metis option.inject option.distinct(1))
    then show ?thesis using False own [of l q] by (auto simp: owner)
  qed
  moreover have "finite {q. ((ls_procs s)(p := pr')) q \<noteq> idle_proc}"
    by (rule finite_subset [of _ "insert p {q. ls_procs s q \<noteq> idle_proc}"])
      (use inv in \<open>auto simp: lock_inv_def\<close>)
  ultimately show ?thesis using inv ok by (simp add: lock_inv_def)
qed

lemma proc_ok_prefix:
  assumes "proc_ok root pr"
    and "\<exists>rest. pr_outer pr @ pr_files pr @ pr_todo pr = (pr_outer pr' @ pr_files pr' @ pr_todo pr') @ rest"
    and "\<not> pr_busy pr' \<longrightarrow> pr_todo pr' = []"
  shows "proc_ok root pr'"
proof -
  obtain refs rest where "map (lock_path root) refs = (pr_outer pr' @ pr_files pr' @ pr_todo pr') @ rest"
      "sorted_wrt (<) refs"
    using assms(1,2) unfolding proc_ok_def by metis
  then obtain us where "pr_outer pr' @ pr_files pr' @ pr_todo pr' = map (lock_path root) us"
      "sorted_wrt (<) us"
    by (metis map_eq_append_conv sorted_wrt_append)
  then show ?thesis using assms(3) by (auto simp: proc_ok_def)
qed

lemma proc_ok_begin:
  assumes ok: "proc_ok root pr" and files: "pr_files pr = []" "pr_todo pr = []"
    and nesting: "pr_outer pr = [] \<or> keys = [] \<and> list_all (is_global_path root) (pr_outer pr)"
    and ids: "\<forall>i \<in> set ids. TrimSpace i = i" and paths: "lockPaths mk root keys ids = Inr paths"
  shows "proc_ok root (pr\<lparr>pr_todo := paths, pr_busy := True\<rparr>)"
proof -
  obtain ks ns where p: "paths = map (lock_path root) (map GlobalLock ks @ map NodeLock ns)"
      "sorted_wrt (<) (map GlobalLock ks @ map NodeLock ns)" "set ks = set keys"
    using lockPaths_sorted [OF paths ids] by blast
  obtain refs where r: "pr_outer pr = map (lock_path root) refs" "sorted_wrt (<) refs"
    using ok files by (auto simp: proc_ok_def)
  have "sorted_wrt (<) (refs @ map GlobalLock ks @ map NodeLock ns)"
  proof (cases "pr_outer pr = []")
    case True
    then show ?thesis using p r by simp
  next
    case False
    then have "ks = []" and g: "\<forall>x \<in> set refs. is_global_path root (lock_path root x)"
      using nesting p(3) r(1) by (auto simp: list_all_iff)
    have "\<exists>k. x = GlobalLock k" if "x \<in> set refs" for x
      using g that by (cases x) (auto simp: is_global_path_def)
    then show ?thesis using p(2) r(2) \<open>ks = []\<close> by (fastforce simp: sorted_wrt_append)
  qed
  then show ?thesis using p(1) r(1) files
    by (auto simp: proc_ok_def intro!: exI [of _ "refs @ map GlobalLock ks @ map NodeLock ns"])
qed

lemma proc_ok_disjoint:
  assumes "proc_ok root pr"
  shows "set (pr_outer pr) \<inter> set (pr_files pr) = {}"
proof -
  obtain refs where r: "pr_outer pr @ pr_files pr @ pr_todo pr = map (lock_path root) refs"
      "sorted_wrt (<) refs"
    using assms by (auto simp: proc_ok_def)
  have "distinct (map (lock_path root) refs)"
    using r(2) by (auto simp: distinct_map strict_sorted_iff intro: inj_on_subset [OF lock_path_inj])
  then have "distinct (pr_outer pr @ pr_files pr @ pr_todo pr)" using r(1) by simp
  then show ?thesis by auto
qed

lemma lock_inv_procs:
  assumes "lock_inv root s" "proc_ok root pr'" "held pr' = held (ls_procs s p)"
  shows "lock_inv root (s\<lparr>ls_procs := (ls_procs s)(p := pr')\<rparr>)"
proof -
  have "lock_inv root (s\<lparr>ls_owner := ls_owner s, ls_procs := (ls_procs s)(p := pr')\<rparr>)"
  proof (rule lock_inv_update [OF assms(1,2)])
    show "ls_owner s l = (if l \<in> held pr' then Some p
        else if l \<in> held (ls_procs s p) then None else ls_owner s l)" for l
      using assms(1) unfolding lock_inv_def assms(3) by (metis (full_types))
  qed (use assms(3) in auto)
  then show ?thesis by simp
qed

lemma lock_inv_close:
  assumes "lock_inv root s" "proc_ok root pr'" "held pr' = held (ls_procs s p) - set fs"
    and "set fs \<subseteq> held (ls_procs s p)"
  shows "lock_inv root (s\<lparr>ls_owner := LockSet_Close (ls_owner s) fs, ls_procs := (ls_procs s)(p := pr')\<rparr>)"
proof (rule lock_inv_update [OF assms(1,2)])
  have own: "ls_owner s l = Some p \<longleftrightarrow> l \<in> held (ls_procs s p)" for l
    using assms(1) by (simp add: lock_inv_def)
  show "LockSet_Close (ls_owner s) fs l = (if l \<in> held pr' then Some p
      else if l \<in> held (ls_procs s p) then None else ls_owner s l)" for l
    unfolding LockSet_Close_apply assms(3) using own [of l] assms(4) by auto
qed (use assms(3) in auto)

lemma lock_inv_step:
  assumes "lock_step root s a p t" "lock_inv root s" "trimmed_ids a"
  shows "lock_inv root t"
  using assms
proof (induction rule: lock_step.induct)
  case (begin_acquire pr s p keys mk ids paths)
  have ok: "proc_ok root pr" using begin_acquire by (simp add: lock_inv_def)
  then have "pr_todo pr = []" using begin_acquire by (simp add: proc_ok_def)
  with begin_acquire ok show ?case by (intro lock_inv_procs proc_ok_begin) (auto simp: trimmed_ids_def list_all_iff)
next
  case (grant pr s p l rest)
  have ok: "proc_ok root (pr\<lparr>pr_files := pr_files pr @ [l], pr_todo := rest\<rparr>)"
    by (rule proc_ok_prefix [of _ pr]) (use grant in \<open>simp_all add: lock_inv_def\<close>)
  have own: "ls_owner s k = Some p \<longleftrightarrow> k \<in> held (ls_procs s p)" for k
    using grant by (simp add: lock_inv_def)
  have l: "l \<notin> held pr" "pr = ls_procs s p" "lock_inv root s" using grant own [of l] by simp_all
  show ?case
  proof (rule lock_inv_update [OF l(3) ok])
    show "((ls_owner s)(l := Some p)) k =
        (if k \<in> held (pr\<lparr>pr_files := pr_files pr @ [l], pr_todo := rest\<rparr>) then Some p
         else if k \<in> held (ls_procs s p) then None else ls_owner s k)" for k
      using own [of k] l by simp
  qed (use l grant in auto)
next
  case (return pr s p)
  have ok: "proc_ok root pr" using return by (simp add: lock_inv_def)
  show ?case by (intro lock_inv_procs proc_ok_prefix [OF ok]) (use return in simp_all)
next
  case (fail pr s p)
  have ok: "proc_ok root pr" using fail by (simp add: lock_inv_def)
  show ?case
    by (intro lock_inv_close proc_ok_prefix [OF ok]) (use fail proc_ok_disjoint [OF ok] in auto)
next
  case (nest pr s p)
  have ok: "proc_ok root pr" using nest by (simp add: lock_inv_def)
  then have "pr_todo pr = []" using nest by (simp add: proc_ok_def)
  then show ?case by (intro lock_inv_procs proc_ok_prefix [OF ok]) (use nest in simp_all)
next
  case (release_inner pr s p)
  have ok: "proc_ok root pr" using release_inner by (simp add: lock_inv_def)
  then have "pr_todo pr = []" using release_inner by (simp add: proc_ok_def)
  then show ?case
    by (intro lock_inv_close proc_ok_prefix [OF ok])
      (use release_inner proc_ok_disjoint [OF ok] in auto)
next
  case (release_outer pr s p)
  have ok: "proc_ok root pr" using release_outer by (simp add: lock_inv_def)
  have "proc_ok root (pr\<lparr>pr_outer := []\<rparr>)"
    using release_outer ok by (auto simp: proc_ok_def)
  then show ?case by (intro lock_inv_close) (use release_outer in auto)
qed simp

lemma lock_inv_init: "lock_init s \<Longrightarrow> lock_inv root s"
  by (auto simp: lock_init_def lock_inv_def proc_ok_def idle_proc_def)

interpretation lk: invariant_system lock_init "trimmed_next root" "lock_inv root" for root
  by unfold_locales (auto simp: lock_inv_init trimmed_next_def intro: lock_inv_step)

section \<open>Waiting\<close>

definition waits_for :: "'p lockState \<Rightarrow> 'p \<Rightarrow> 'p \<Rightarrow> bool" where
  "waits_for s p q \<longleftrightarrow> (\<exists>l rest. pr_busy (ls_procs s p) \<and> pr_todo (ls_procs s p) = l # rest
     \<and> ls_owner s l = Some q)"

text \<open>A process can advance without the help of another or of a cancellation.\<close>

definition can_advance :: "path \<Rightarrow> 'p lockState \<Rightarrow> 'p \<Rightarrow> bool" where
  "can_advance root s p \<longleftrightarrow> (\<exists>a t. a \<in> {Grant, Return, Release} \<and> lock_step root s a p t)"

definition wanted :: "path \<Rightarrow> 'p lockState \<Rightarrow> lockRef set" where
  "wanted root s = {r. \<exists>q rest. pr_todo (ls_procs s q) = lock_path root r # rest}"

lemma finite_wanted:
  assumes "lock_inv root s"
  shows "finite (wanted root s)"
proof -
  have "lock_path root ` wanted root s \<subseteq>
      (\<lambda>q. hd (pr_todo (ls_procs s q))) ` {q. ls_procs s q \<noteq> idle_proc}"
  proof
    fix l assume "l \<in> lock_path root ` wanted root s"
    then obtain q rest where q: "pr_todo (ls_procs s q) = l # rest" by (auto simp: wanted_def)
    then have "ls_procs s q \<noteq> idle_proc" by (auto simp: idle_proc_def)
    with q show "l \<in> (\<lambda>q. hd (pr_todo (ls_procs s q))) ` {q. ls_procs s q \<noteq> idle_proc}"
      by (intro image_eqI [of _ _ q]) auto
  qed
  moreover have "finite {q. ls_procs s q \<noteq> idle_proc}" using assms by (simp add: lock_inv_def)
  ultimately show ?thesis
    by (metis finite_imageI finite_subset finite_imageD inj_on_subset lock_path_inj top_greatest)
qed

lemma held_below_wanted:
  assumes "proc_ok root pr" "l \<in> held pr" "pr_todo pr = l' # rest"
  shows "\<exists>r r'. l = lock_path root r \<and> l' = lock_path root r' \<and> r < r'"
proof -
  obtain refs where refs: "pr_outer pr @ pr_files pr @ pr_todo pr = map (lock_path root) refs"
      "sorted_wrt (<) refs"
    using assms(1) by (auto simp: proc_ok_def)
  then have "map (lock_path root) refs = (pr_outer pr @ pr_files pr) @ (l' # rest)"
    using assms(3) by simp
  then obtain us ws where w: "refs = us @ ws" "pr_outer pr @ pr_files pr = map (lock_path root) us"
      "l' # rest = map (lock_path root) ws"
    by (metis map_eq_append_conv)
  then obtain r' vs where u: "refs = us @ r' # vs" "pr_outer pr @ pr_files pr = map (lock_path root) us"
      "l' = lock_path root r'"
    by (cases ws) auto
  moreover have "l \<in> set (pr_outer pr @ pr_files pr)" using assms(2) by simp
  ultimately show ?thesis using refs(2) unfolding u(2) by (auto simp: sorted_wrt_append)
qed

definition ahead :: "path \<Rightarrow> 'p lockState \<Rightarrow> 'p \<Rightarrow> lockRef set" where
  "ahead root s p =
     {r \<in> wanted root s. \<exists>r0. hd (pr_todo (ls_procs s p)) = lock_path root r0 \<and> r0 < r}"

lemma ahead_decreases:
  assumes inv: "lock_inv root s" and wait: "waits_for s p q"
    and todo: "pr_todo (ls_procs s q) = l' # rest"
  shows "card (ahead root s q) < card (ahead root s p)"
proof (rule psubset_card_mono)
  show "finite (ahead root s p)" using finite_wanted [OF inv] by (simp add: ahead_def)
  obtain l where l: "pr_todo (ls_procs s p) \<noteq> []" "hd (pr_todo (ls_procs s p)) = l"
      "ls_owner s l = Some q"
    using wait by (auto simp: waits_for_def)
  then have "l \<in> held (ls_procs s q)" using inv by (simp add: lock_inv_def)
  moreover have "proc_ok root (ls_procs s q)" using inv by (simp add: lock_inv_def)
  ultimately obtain r r' where r: "l = lock_path root r" "l' = lock_path root r'" "r < r'"
    using held_below_wanted todo by blast
  have "r' \<in> ahead root s p" using r l todo by (auto simp: ahead_def wanted_def)
  moreover have "r' \<notin> ahead root s q" using r todo by (auto simp: ahead_def)
  moreover have "ahead root s q \<subseteq> ahead root s p"
    using r l todo by (auto simp: ahead_def intro: less_trans)
  ultimately show "ahead root s q \<subset> ahead root s p" by blast
qed

lemma progress_chain:
  assumes inv: "lock_inv root s" and busy: "pr_busy (ls_procs s p)"
  shows "\<exists>q. (waits_for s)\<^sup>*\<^sup>* p q \<and> can_advance root s q"
  using busy
proof (induction "card (ahead root s p)" arbitrary: p rule: less_induct)
  case less
  show ?case
  proof (cases "pr_todo (ls_procs s p)")
    case Nil
    then have "can_advance root s p"
      using lock_step.return [OF refl less.prems Nil, of root] by (auto simp: can_advance_def)
    then show ?thesis by blast
  next
    case (Cons l rest)
    show ?thesis
    proof (cases "ls_owner s l")
      case None
      then have "can_advance root s p"
        using lock_step.grant [OF refl less.prems Cons None, of root] by (auto simp: can_advance_def)
      then show ?thesis by blast
    next
      case (Some q)
      with less.prems Cons have wait: "waits_for s p q" by (auto simp: waits_for_def)
      have held: "l \<in> held (ls_procs s q)" using inv Some by (simp add: lock_inv_def)
      consider "\<not> pr_busy (ls_procs s q)" | "pr_busy (ls_procs s q)" "pr_todo (ls_procs s q) = []"
        | l' rest' where "pr_busy (ls_procs s q)" "pr_todo (ls_procs s q) = l' # rest'"
        by (cases "pr_todo (ls_procs s q)") auto
      then have "\<exists>q'. (waits_for s)\<^sup>*\<^sup>* q q' \<and> can_advance root s q'"
      proof cases
        case 1
        have "pr_files (ls_procs s q) \<noteq> [] \<or>
            pr_files (ls_procs s q) = [] \<and> pr_outer (ls_procs s q) \<noteq> []" using held by auto
        then have "\<exists>t. lock_step root s Release q t"
          using lock_step.release_inner [OF refl 1, of root]
            lock_step.release_outer [OF refl 1, of root] by blast
        then have "can_advance root s q" by (auto simp: can_advance_def)
        then show ?thesis by blast
      next
        case 2
        then have "can_advance root s q"
          using lock_step.return [OF refl 2, of root] by (auto simp: can_advance_def)
        then show ?thesis by blast
      next
        case 3
        from less.hyps [OF ahead_decreases [OF inv wait 3(2)] 3(1)] show ?thesis .
      qed
      with wait show ?thesis by (meson converse_rtranclp_into_rtranclp)
    qed
  qed
qed

section \<open>Operation tokens\<close>

text \<open>The token files that exist, and which live process's open file locks each.\<close>

record 'p tokenFS =
  tk_files :: "path set"
  tk_owner :: "path \<Rightarrow> 'p option"

definition nodeOperationTokenPath :: "path \<Rightarrow> string \<Rightarrow> (goError, path) result" where
  "nodeOperationTokenPath root nodeID =
     (case nodeLockBaseName nodeID of
        Inl err \<Rightarrow> Inl err
      | Inr name \<Rightarrow> Inr (root @ [''_locks'', ''nodes'', name @ ''.op.lock'']))"

text \<open>\<open>ensureDir\<close> and \<open>openFile\<close> are the file system's answers.\<close>

definition tryAcquireNodeOperation ::
  "(path \<Rightarrow> goError option) \<Rightarrow> (path \<Rightarrow> goError option) \<Rightarrow> path \<Rightarrow> string \<Rightarrow> 'p \<Rightarrow> 'p tokenFS
     \<Rightarrow> (goError, 'p tokenFS \<times> bool) result" where
  "tryAcquireNodeOperation ensureDir openFile root nodeID p fs =
     (case nodeOperationTokenPath root nodeID of
        Inl err \<Rightarrow> Inl err
      | Inr path \<Rightarrow>
          (case ensureDir (butlast path) of
             Some err \<Rightarrow> Inl err
           | None \<Rightarrow>
               (case openFile path of
                  Some err \<Rightarrow> Inl err
                | None \<Rightarrow>
                    let fs' = fs\<lparr>tk_files := insert path (tk_files fs)\<rparr>
                    in if tk_owner fs path \<noteq> None then Inr (fs', False)
                       else Inr (fs'\<lparr>tk_owner := (tk_owner fs')(path := Some p)\<rparr>, True))))"

definition token_release :: "path \<Rightarrow> 'p tokenFS \<Rightarrow> 'p tokenFS" where
  "token_release path fs = fs\<lparr>tk_owner := (tk_owner fs)(path := None)\<rparr>"

text \<open>The kernel closes the files of a process that dies.\<close>

definition process_dies :: "'p \<Rightarrow> 'p tokenFS \<Rightarrow> 'p tokenFS" where
  "process_dies p fs = fs\<lparr>tk_owner := (\<lambda>path. if tk_owner fs path = Some p then None else tk_owner fs path)\<rparr>"

text \<open>
  \<open>nodeOperationClaimed\<close> locks the file for a moment to find out. \<open>claimed_probe\<close> is the state
  in between; the whole call returns the answer and the state after its unlock.
\<close>

definition claimed_probe :: "path \<Rightarrow> 'p \<Rightarrow> 'p tokenFS \<Rightarrow> 'p tokenFS \<times> bool" where
  "claimed_probe path p fs =
     (if tk_owner fs path \<noteq> None then (fs, True)
      else (fs\<lparr>tk_owner := (tk_owner fs)(path := Some p)\<rparr>, False))"

definition nodeOperationClaimed ::
  "(path \<Rightarrow> goError option) \<Rightarrow> path \<Rightarrow> string \<Rightarrow> 'p \<Rightarrow> 'p tokenFS \<Rightarrow> (goError, 'p tokenFS \<times> bool) result" where
  "nodeOperationClaimed openFile root nodeID p fs =
     (case nodeOperationTokenPath root nodeID of
        Inl err \<Rightarrow> Inl err
      | Inr path \<Rightarrow>
          if path \<notin> tk_files fs then Inr (fs, False)
          else (case openFile path of
                  Some err \<Rightarrow> Inl err
                | None \<Rightarrow>
                    (case claimed_probe path p fs of
                       (fs', True) \<Rightarrow> Inr (fs', True)
                     | (fs', False) \<Rightarrow> Inr (token_release path fs', False))))"

abbreviation no_error :: "path \<Rightarrow> goError option" where
  "no_error \<equiv> \<lambda>_. None"

section \<open>Properties\<close>

text \<open>
  Property C2: Acquisitions whose node identifiers carry no surrounding white space never
  deadlock. In every state that interleaved calls of this kind reach (acquisitions of any domains
  and nodes, refusals, cancellations, releases, and the one permitted nesting), a process inside
  \<open>acquireLockSet\<close> can go on itself, or waits, through a chain of holders, for a process that can:
  one that is granted its next lock, returns with its set, or is in its critical section and
  releases. Without the condition an acquisition can wait for itself (\<open>untrimmed_acquisition_stuck\<close>).
\<close>

theorem lock_deadlock_free:
  assumes "reachable lock_init (trimmed_next root) s" "pr_busy (ls_procs s p)"
  shows "\<exists>q. (waits_for s)\<^sup>*\<^sup>* p q \<and> can_advance root s q"
  using progress_chain [OF lk.reachable_inv [OF assms(1)] assms(2)] .

lemma sample_begin:
  "lock_step [''home''] \<lparr>ls_owner = (\<lambda>_. None), ls_procs = (\<lambda>_. idle_proc)\<rparr> (Begin []) (0 :: nat)
     \<lparr>ls_owner = (\<lambda>_. None), ls_procs = (\<lambda>_. idle_proc)(0 := idle_proc\<lparr>
        pr_todo := [[''home'', ''_locks'', ''configurations.lock''], [''home'', ''_locks'', ''nodes.lock'']],
        pr_busy := True\<rparr>)\<rparr>"
proof -
  have "lockPaths no_error [''home''] [lockNodes, lockConfigurations, lockNodes] [] =
      Inr [[''home'', ''_locks'', ''configurations.lock''], [''home'', ''_locks'', ''nodes.lock'']]"
    by code_simp
  from lock_step.begin_acquire [OF refl, where s = "\<lparr>ls_owner = (\<lambda>_. None), ls_procs = (\<lambda>_. idle_proc)\<rparr>"
      and p = "0 :: nat" and ids = "[]", OF _ _ _ this]
  show ?thesis by (simp add: idle_proc_def)
qed

lemma sample_next:
  "trimmed_next [''home''] \<lparr>ls_owner = (\<lambda>_. None), ls_procs = (\<lambda>_. idle_proc)\<rparr>
     (\<lparr>ls_owner = (\<lambda>_. None), ls_procs = (\<lambda>_. idle_proc)(0 := idle_proc\<lparr>
        pr_todo := [[''home'', ''_locks'', ''configurations.lock''], [''home'', ''_locks'', ''nodes.lock'']],
        pr_busy := True\<rparr>)\<rparr> :: nat lockState)"
  unfolding trimmed_next_def using sample_begin by (intro exI conjI) (auto simp: trimmed_ids_def)

theorem lock_deadlock_free_witness:
  "\<exists>(s :: nat lockState) q. reachable lock_init (trimmed_next [''home'']) s \<and> pr_busy (ls_procs s 0)
     \<and> (waits_for s)\<^sup>*\<^sup>* 0 q \<and> can_advance [''home''] s q"
proof -
  let ?s = "\<lparr>ls_owner = (\<lambda>_. None), ls_procs = (\<lambda>_. idle_proc)(0 := idle_proc\<lparr>
        pr_todo := [[''home'', ''_locks'', ''configurations.lock''], [''home'', ''_locks'', ''nodes.lock'']],
        pr_busy := True\<rparr>)\<rparr> :: nat lockState"
  have r: "reachable lock_init (trimmed_next [''home'']) ?s"
    by (rule reach_step [OF reach_init, of lock_init "\<lparr>ls_owner = (\<lambda>_. None), ls_procs = (\<lambda>_. idle_proc)\<rparr>"])
      (use sample_next in \<open>auto simp: lock_init_def\<close>)
  have b: "pr_busy (ls_procs ?s 0)" by simp
  from lock_deadlock_free [OF r b] r b show ?thesis by blast
qed

text \<open>
  Property C27: Lock sets exclude each other. In every state that acquisitions of node identifiers
  without surrounding white space reach, the kernel's table names for each locked file exactly the
  process whose set (or enclosing set) contains it, so no file is in the sets of two processes; a process that is not acquiring has nothing left to take;
  and what a process holds, followed by what it will take, is strictly ordered by the contract.
\<close>

theorem lock_sets_exclusive:
  assumes "reachable lock_init (trimmed_next root) s"
  shows "(\<forall>l p. ls_owner s l = Some p \<longleftrightarrow> l \<in> held (ls_procs s p))
     \<and> (\<forall>p q. p \<noteq> q \<longrightarrow> held (ls_procs s p) \<inter> held (ls_procs s q) = {})
     \<and> (\<forall>p. \<not> pr_busy (ls_procs s p) \<longrightarrow> pr_todo (ls_procs s p) = [])
     \<and> (\<forall>p. \<exists>refs. pr_outer (ls_procs s p) @ pr_files (ls_procs s p) @ pr_todo (ls_procs s p)
                = map (lock_path root) refs \<and> sorted_wrt (<) refs)"
proof -
  have inv: "lock_inv root s" by (rule lk.reachable_inv [OF assms])
  then have own: "\<forall>l p. ls_owner s l = Some p \<longleftrightarrow> l \<in> held (ls_procs s p)"
    and ok: "\<forall>p. proc_ok root (ls_procs s p)" by (auto simp: lock_inv_def)
  have "held (ls_procs s p) \<inter> held (ls_procs s q) = {}" if "p \<noteq> q" for p q
    using own that by (metis disjoint_iff option.inject)
  with own ok show ?thesis unfolding proc_ok_def by blast
qed

theorem lock_sets_exclusive_witness:
  "\<exists>(s :: nat lockState). reachable lock_init (trimmed_next [''home'']) s \<and> pr_busy (ls_procs s 0)
     \<and> held (ls_procs s 0) \<inter> held (ls_procs s 1) = {}"
proof -
  let ?s = "\<lparr>ls_owner = (\<lambda>_. None), ls_procs = (\<lambda>_. idle_proc)(0 := idle_proc\<lparr>
        pr_todo := [[''home'', ''_locks'', ''configurations.lock''], [''home'', ''_locks'', ''nodes.lock'']],
        pr_busy := True\<rparr>)\<rparr> :: nat lockState"
  have r: "reachable lock_init (trimmed_next [''home'']) ?s"
    by (rule reach_step [OF reach_init, of lock_init "\<lparr>ls_owner = (\<lambda>_. None), ls_procs = (\<lambda>_. idle_proc)\<rparr>"])
      (use sample_next in \<open>auto simp: lock_init_def\<close>)
  have "(0::nat) \<noteq> 1" by simp
  with lock_sets_exclusive [OF r] r have "held (ls_procs ?s 0) \<inter> held (ls_procs ?s 1) = {}" by blast
  with r show ?thesis by (intro exI [of _ ?s]) simp
qed

text \<open>
  An acquisition names its lock files in the documented order. When directories
  can be made and the node identifiers carry no surrounding white space, the call fails exactly
  if an identifier cannot name a file; otherwise its paths are, without repetition, the global
  domains asked for in order of name and then the per-node locks in order of name, each a file
  directly in its lock directory.
\<close>

theorem lock_paths_ordered:
  assumes "\<forall>i \<in> set ids. TrimSpace i = i"
  shows "case lockPaths no_error root keys ids of
       Inl err \<Rightarrow> \<exists>i \<in> set ids. i \<in> {[], ''.'', ''..''} \<or> CHR ''/'' \<in> set i \<or> CHR 0x5C \<in> set i
     | Inr ps \<Rightarrow> (\<exists>ks ns. ps = map (lock_path root) (map GlobalLock ks @ map NodeLock ns)
          \<and> sorted_wrt (<) (map GlobalLock ks @ map NodeLock ns) \<and> distinct ps
          \<and> set ks = set keys \<and> set ns = set ids)
          \<and> (\<forall>i \<in> set ids. i \<notin> {[], ''.'', ''..''} \<and> CHR ''/'' \<notin> set i)"
proof -
  have usable: "(\<exists>ps. node_paths d xs = Inr ps) \<longleftrightarrow> (\<forall>i \<in> set xs. \<exists>n. nodeLockBaseName i = Inr n)" for d xs
    by (induction xs) (auto split: sum.splits)
  have name: "(\<exists>n. nodeLockBaseName i = Inr n) \<longleftrightarrow>
      i \<notin> {[], ''.'', ''..''} \<and> CHR ''/'' \<notin> set i \<and> CHR 0x5C \<notin> set i" if "i \<in> set ids" for i
    using assms that by (auto simp: nodeLockBaseName_def Let_def ContainsAny_def list_ex_iff)
  show ?thesis
  proof (cases "lockPaths no_error root keys ids")
    case (Inl err)
    then have "node_paths (root @ [''_locks'', ''nodes'']) (remdups_adj (sort ids)) = Inl err"
      by (auto simp: lockPaths_def Let_def Compact_def split: if_splits sum.splits)
    then have "\<not> (\<forall>i \<in> set ids. \<exists>n. nodeLockBaseName i = Inr n)"
      using usable [of "root @ [''_locks'', ''nodes'']" "remdups_adj (sort ids)"] by auto
    then show ?thesis using Inl name by force
  next
    case (Inr ps)
    obtain ks ns where p: "ps = map (lock_path root) (map GlobalLock ks @ map NodeLock ns)"
        "sorted_wrt (<) (map GlobalLock ks @ map NodeLock ns)" "set ks = set keys" "set ns = set ids"
      using lockPaths_sorted [OF Inr assms] by blast
    have "distinct ps"
      using p(2) unfolding p(1) distinct_map strict_sorted_iff
      by (blast intro: inj_on_subset [OF lock_path_inj])
    moreover have "ids = [] \<or> (\<exists>d qs. node_paths d (remdups_adj (sort ids)) = Inr qs)"
      using Inr by (auto simp: lockPaths_def Let_def Compact_def split: if_splits sum.splits)
    then have "\<forall>i \<in> set ids. \<exists>n. nodeLockBaseName i = Inr n"
      using usable [where xs = "remdups_adj (sort ids)"] by auto
    then have "\<forall>i \<in> set ids. i \<notin> {[], ''.'', ''..''} \<and> CHR ''/'' \<notin> set i"
      using name by blast
    ultimately show ?thesis using p Inr by auto
  qed
qed

theorem lock_paths_ordered_witness:
  "\<exists>ps. lockPaths no_error [''home''] [lockNodes] [''b'', ''a'', ''b''] = Inr ps \<and> distinct ps"
proof -
  have t: "\<forall>i \<in> set [''b'', ''a'', ''b'']. TrimSpace i = i" by code_simp
  have r: "lockPaths no_error [''home''] [lockNodes] [''b'', ''a'', ''b''] =
      Inr [[''home'', ''_locks'', ''nodes.lock''], [''home'', ''_locks'', ''nodes'', ''a.lock''],
           [''home'', ''_locks'', ''nodes'', ''b.lock'']]" by code_simp
  from lock_paths_ordered [OF t, of "[''home'']" "[lockNodes]"] r show ?thesis by auto
qed

text \<open>
  The identifiers are sorted and compacted before they are trimmed: two spellings of one
  identifier yield the same lock file twice, which one call cannot take twice.
\<close>

lemma untrimmed_ids_collide:
  "lockPaths no_error [''home''] [] ['' a'', ''a''] =
     Inr [[''home'', ''_locks'', ''nodes'', ''a.lock''], [''home'', ''_locks'', ''nodes'', ''a.lock'']]"
  by code_simp

text \<open>Such an acquisition, which the lock layer accepts, ends up waiting for itself.\<close>

theorem untrimmed_acquisition_stuck:
  "\<exists>(s :: nat lockState) l. reachable lock_init (lock_next [''home'']) s \<and> pr_busy (ls_procs s 0)
     \<and> pr_todo (ls_procs s 0) = [l] \<and> ls_owner s l = Some 0"
proof -
  let ?l = "[''home'', ''_locks'', ''nodes'', ''a.lock'']"
  let ?s0 = "\<lparr>ls_owner = (\<lambda>_. None), ls_procs = (\<lambda>_. idle_proc)\<rparr> :: nat lockState"
  let ?s1 = "?s0\<lparr>ls_procs := (ls_procs ?s0)(0 := idle_proc\<lparr>pr_todo := [?l, ?l], pr_busy := True\<rparr>)\<rparr>"
  let ?pr = "ls_procs ?s1 0"
  let ?s2 = "?s1\<lparr>ls_owner := (ls_owner ?s1)(?l := Some 0), ls_procs := (ls_procs ?s1)(0 := ?pr\<lparr>pr_files := pr_files ?pr @ [?l], pr_todo := [?l]\<rparr>)\<rparr>"
  have "lock_step [''home''] ?s0 (Begin ['' a'', ''a'']) 0 ?s1"
    using lock_step.begin_acquire [OF refl, where s = ?s0 and p = 0 and ids = "['' a'', ''a'']", OF _ _ _ untrimmed_ids_collide]
    by (simp add: idle_proc_def)
  moreover have "lock_step [''home''] ?s1 Grant 0 ?s2"
    by (rule lock_step.grant [OF refl]) simp_all
  ultimately have "reachable lock_init (lock_next [''home'']) ?s2"
    by (intro reach_step [OF reach_step [OF reach_init]]) (auto simp: lock_init_def lock_next_def)
  then show ?thesis by (intro exI [of _ ?s2] exI [of _ ?l]) simp
qed

text \<open>
  An operation token is owned by one live process at a time. A successful
  \<open>tryAcquireNodeOperation\<close> makes every later attempt on the node report that it is owned and
  the probe report a claim, without changing who owns it; after the owner releases it or dies,
  the probe reports no claim and leaves the table as it was, and the next attempt succeeds.
\<close>

theorem operation_token_exclusive:
  assumes path: "nodeOperationTokenPath root nodeID = Inr path"
    and acq: "tryAcquireNodeOperation no_error no_error root nodeID p fs = Inr (fs1, True)"
    and freed: "fs2 = token_release path fs1 \<or> fs2 = process_dies p fs1"
  shows "tk_owner fs path = None \<and> tk_owner fs1 path = Some p
     \<and> tryAcquireNodeOperation no_error no_error root nodeID q fs1 = Inr (fs1, False)
     \<and> nodeOperationClaimed no_error root nodeID q fs1 = Inr (fs1, True)
     \<and> nodeOperationClaimed no_error root nodeID q fs2 = Inr (fs2, False)
     \<and> (\<exists>fs3. tryAcquireNodeOperation no_error no_error root nodeID q fs2 = Inr (fs3, True)
             \<and> tk_owner fs3 path = Some q)"
proof -
  have none: "tk_owner fs path = None" and fs1: "tk_files fs1 = insert path (tk_files fs)"
      "tk_owner fs1 = (tk_owner fs)(path := Some p)"
    using acq path by (auto simp: tryAcquireNodeOperation_def Let_def split: if_splits)
  have fs2: "path \<in> tk_files fs2" "tk_owner fs2 path = None"
    using freed fs1 by (auto simp: token_release_def process_dies_def)
  have "token_release path (fs2\<lparr>tk_owner := (tk_owner fs2)(path := Some q)\<rparr>) = fs2"
    using fs2 by (simp add: token_release_def fun_upd_idem)
  with fs2 path have free: "nodeOperationClaimed no_error root nodeID q fs2 = Inr (fs2, False)"
    by (simp add: nodeOperationClaimed_def claimed_probe_def)
  have own: "path \<in> tk_files fs1" "tk_owner fs1 path = Some p" using fs1 by simp_all
  then have "fs1\<lparr>tk_files := insert path (tk_files fs1)\<rparr> = fs1" by (simp add: insert_absorb)
  with own path have "tryAcquireNodeOperation no_error no_error root nodeID q fs1 = Inr (fs1, False)"
      "nodeOperationClaimed no_error root nodeID q fs1 = Inr (fs1, True)"
    by (simp_all add: tryAcquireNodeOperation_def nodeOperationClaimed_def claimed_probe_def Let_def)
  moreover have "\<exists>fs3. tryAcquireNodeOperation no_error no_error root nodeID q fs2 = Inr (fs3, True)
      \<and> tk_owner fs3 path = Some q"
    using fs2 path by (simp add: tryAcquireNodeOperation_def Let_def)
  ultimately show ?thesis using none own free by blast
qed

theorem operation_token_exclusive_witness:
  "\<exists>fs1. tryAcquireNodeOperation no_error no_error [''home''] ''n1'' (0::nat)
           \<lparr>tk_files = {}, tk_owner = (\<lambda>_. None)\<rparr> = Inr (fs1, True)
     \<and> nodeOperationClaimed no_error [''home''] ''n1'' 1 fs1 = Inr (fs1, True)"
proof -
  let ?path = "[''home'', ''_locks'', ''nodes'', ''n1.op.lock'']"
  have path: "nodeOperationTokenPath [''home''] ''n1'' = Inr ?path" by code_simp
  let ?fs1 = "\<lparr>tk_files = {?path}, tk_owner = (\<lambda>_. None)(?path := Some (0::nat))\<rparr>"
  have acq: "tryAcquireNodeOperation no_error no_error [''home''] ''n1'' (0::nat)
           \<lparr>tk_files = {}, tk_owner = (\<lambda>_. None)\<rparr> = Inr (?fs1, True)"
    using path by (simp add: tryAcquireNodeOperation_def Let_def)
  from operation_token_exclusive [OF path acq disjI1 [OF refl], of 1] acq show ?thesis by blast
qed

text \<open>
  While a probe of an unowned node holds its momentary lock, an acquisition is told that the
  node is owned, although no operation owns it.
\<close>

theorem probe_hides_free_token:
  assumes "nodeOperationTokenPath root nodeID = Inr path" "tk_owner fs path = None"
  shows "\<exists>fs'. claimed_probe path q fs = (fs', False)
     \<and> (\<exists>fs''. tryAcquireNodeOperation no_error no_error root nodeID p fs' = Inr (fs'', False))"
  using assms by (simp add: claimed_probe_def tryAcquireNodeOperation_def Let_def)

end
