(* ===== verification/NodeTypes.thy ===== *)
theory NodeTypes
  imports AppErrors
begin

text \<open>
  The node record and its statuses, \<^verbatim>\<open>types.go\<close>; the file form of a node (\<^verbatim>\<open>nodeFileWire\<close>) and of
  its bootstrap state; the presentation of \<^verbatim>\<open>node_status.go\<close>; and the rules of \<^verbatim>\<open>service.go\<close> by
  which a sighting of the runtime may or may not replace the durable state. The theory proves
  that writing a node and reading it back keeps everything durable, and that observing the
  runtime never erases a state that an operation owns.
\<close>

section \<open>Statuses\<close>

type_synonym NodeStatus = string
type_synonym ObservationStatus = string

definition "NodeStatusCreated = ''created''"
definition "NodeStatusProvisioning = ''provisioning''"
definition "NodeStatusRegistering = ''registering''"
definition "NodeStatusRunning = ''running''"
definition "NodeStatusStopped = ''stopped''"
definition "NodeStatusFailed = ''failed''"
definition "NodeStatusTerminating = ''terminating''"
definition "NodeStatusTerminated = ''terminated''"

lemmas status_defs = NodeStatusCreated_def NodeStatusProvisioning_def NodeStatusRegistering_def
  NodeStatusRunning_def NodeStatusStopped_def NodeStatusFailed_def NodeStatusTerminating_def
  NodeStatusTerminated_def

definition "ObservationRunning = ''running''"
definition "ObservationStopped = ''stopped''"

text \<open>
  \<^verbatim>\<open>strings.ToLower\<close>, as far as its result is compared with ASCII words: ASCII letters, and the
  two other code points whose lower case is an ASCII letter (U+212A and U+0130). Other code
  points keep bytes outside ASCII, so no comparison depends on them.
\<close>

definition lower_char :: "char \<Rightarrow> char" where
  "lower_char c = (if CHR ''A'' \<le> c \<and> c \<le> CHR ''Z'' then char_of (of_char c + 32 :: nat) else c)"

fun ToLower :: "string \<Rightarrow> string" where
  "ToLower [] = []"
| "ToLower (c # cs) =
     (if c = CHR 0xE2 \<and> take 2 cs = [CHR 0x84, CHR 0xAA] then CHR ''k'' # ToLower (drop 2 cs)
      else if c = CHR 0xC4 \<and> take 1 cs = [CHR 0xB0] then CHR ''i'' # ToLower (drop 1 cs)
      else lower_char c # ToLower cs)"

definition normalizeNodeLifecycleState :: "NodeStatus \<Rightarrow> NodeStatus" where
  "normalizeNodeLifecycleState state =
     (let s = TrimSpace (ToLower state)
      in if s \<in> {NodeStatusCreated, NodeStatusProvisioning, NodeStatusRegistering, NodeStatusFailed,
                NodeStatusTerminating, NodeStatusTerminated} then s else [])"

definition legacyNodeStatus :: "NodeStatus \<Rightarrow> NodeStatus" where
  "legacyNodeStatus state =
     (let s = TrimSpace (ToLower state)
      in if s \<in> {NodeStatusCreated, NodeStatusProvisioning, NodeStatusRegistering, NodeStatusRunning,
                NodeStatusStopped, NodeStatusFailed, NodeStatusTerminating, NodeStatusTerminated}
         then s else [])"

section \<open>Records\<close>

record RuntimeCommandTemplates =
  rt_Version :: "string list"
  rt_List :: "string list"
  rt_Create :: "string list"
  rt_Start :: "string list"
  rt_Stop :: "string list"
  rt_Delete :: "string list"
  rt_Clone :: "string list"
  rt_Bootstrap :: "string list"
  rt_WorkspaceSeedPrepare :: "string list"
  rt_Copy :: "string list"
  rt_ShellExec :: "string list"
  rt_ShellLogin :: "string list"

text \<open>The fields of the runtime's report that the lifecycle rules use.\<close>

record RuntimeObservation =
  ob_Name :: string
  ob_Exists :: bool
  ob_Status :: ObservationStatus

record Node =
  n_ID :: string
  n_Slug :: string
  n_ConfigurationID :: string
  n_ConfigurationSlug :: string
  n_DirectoryPath :: string
  n_ParentNodeID :: string
  n_Runtime :: string
  n_Provider :: string
  n_SandboxName :: string
  n_Image :: string
  n_VCPUs :: u8
  n_MemoryMiB :: "32 word"
  n_DiskMiB :: "32 word"
  n_Environments :: "string list"
  n_Ports :: "string list"
  n_DaemonPortForwarding :: bool
  n_Status :: NodeStatus
  n_LifecycleState :: NodeStatus
  n_AgentProfileName :: string
  n_RuntimeCommands :: RuntimeCommandTemplates
  n_BootstrapCommands :: "string list"
  n_WorkspaceMode :: string
  n_GuestWorkspacePath :: string
  n_WorkspaceMountPath :: string
  n_WorkspaceSeeded :: bool
  n_ImportHostAuth :: bool
  n_AuthImportCompleted :: bool
  n_BootstrapCompleted :: bool
  n_BootstrapCompletedAt :: "gotime option"
  n_CreatedAt :: gotime
  n_UpdatedAt :: gotime
  n_DeletedAt :: "gotime option"
  n_LastReconciledAt :: "gotime option"
  n_LastRuntimeObservation :: "RuntimeObservation option"

text \<open>Go's zero value \<^verbatim>\<open>Node{}\<close>.\<close>

definition zero_node :: Node where
  "zero_node =
     \<lparr>n_ID = [], n_Slug = [], n_ConfigurationID = [], n_ConfigurationSlug = [],
      n_DirectoryPath = [], n_ParentNodeID = [], n_Runtime = [], n_Provider = [],
      n_SandboxName = [], n_Image = [], n_VCPUs = 0, n_MemoryMiB = 0, n_DiskMiB = 0,
      n_Environments = [], n_Ports = [], n_DaemonPortForwarding = False, n_Status = [],
      n_LifecycleState = [], n_AgentProfileName = [],
      n_RuntimeCommands = \<lparr>rt_Version = [], rt_List = [], rt_Create = [], rt_Start = [], rt_Stop = [], rt_Delete = [], rt_Clone = [], rt_Bootstrap = [], rt_WorkspaceSeedPrepare = [], rt_Copy = [], rt_ShellExec = [], rt_ShellLogin = []\<rparr>,
      n_BootstrapCommands = [], n_WorkspaceMode = [], n_GuestWorkspacePath = [],
      n_WorkspaceMountPath = [], n_WorkspaceSeeded = False, n_ImportHostAuth = False,
      n_AuthImportCompleted = False, n_BootstrapCompleted = False,
      n_BootstrapCompletedAt = None, n_CreatedAt = 0, n_UpdatedAt = 0, n_DeletedAt = None,
      n_LastReconciledAt = None, n_LastRuntimeObservation = None\<rparr>"

record nodeFileWire =
  w_ID :: string
  w_Slug :: string
  w_ConfigurationID :: string
  w_DirectoryPath :: string
  w_ParentNodeID :: string
  w_Runtime :: string
  w_Provider :: string
  w_SandboxName :: string
  w_Image :: string
  w_VCPUs :: u8
  w_MemoryMiB :: "32 word"
  w_DiskMiB :: "32 word"
  w_Environments :: "string list"
  w_Ports :: "string list"
  w_DaemonPortForwarding :: bool
  w_LifecycleState :: NodeStatus
  w_Status :: NodeStatus
  w_AgentProfileName :: string
  w_RuntimeCommands :: RuntimeCommandTemplates
  w_BootstrapCommands :: "string list"
  w_WorkspaceMode :: string
  w_GuestWorkspacePath :: string
  w_WorkspaceMountPath :: string
  w_WorkspaceSeeded :: bool
  w_ImportHostAuth :: bool
  w_AuthImportCompleted :: bool
  w_BootstrapCompleted :: bool
  w_BootstrapCompletedAt :: "gotime option"
  w_CreatedAt :: gotime
  w_UpdatedAt :: gotime
  w_DeletedAt :: "gotime option"

section \<open>Operations\<close>

definition applyDefaultCommandList :: "string list \<Rightarrow> string list \<Rightarrow> string list" where
  "applyDefaultCommandList commands defaults = (if length commands > 0 then commands else defaults)"

definition ApplyDefaults ::
  "RuntimeCommandTemplates \<Rightarrow> RuntimeCommandTemplates \<Rightarrow> RuntimeCommandTemplates" where
  "ApplyDefaults t defaults =
     \<lparr>rt_Version = applyDefaultCommandList (rt_Version t) (rt_Version defaults),
      rt_List = applyDefaultCommandList (rt_List t) (rt_List defaults),
      rt_Create = applyDefaultCommandList (rt_Create t) (rt_Create defaults),
      rt_Start = applyDefaultCommandList (rt_Start t) (rt_Start defaults),
      rt_Stop = applyDefaultCommandList (rt_Stop t) (rt_Stop defaults),
      rt_Delete = applyDefaultCommandList (rt_Delete t) (rt_Delete defaults),
      rt_Clone = applyDefaultCommandList (rt_Clone t) (rt_Clone defaults),
      rt_Bootstrap = applyDefaultCommandList (rt_Bootstrap t) (rt_Bootstrap defaults),
      rt_WorkspaceSeedPrepare = applyDefaultCommandList (rt_WorkspaceSeedPrepare t) (rt_WorkspaceSeedPrepare defaults),
      rt_Copy = applyDefaultCommandList (rt_Copy t) (rt_Copy defaults),
      rt_ShellExec = applyDefaultCommandList (rt_ShellExec t) (rt_ShellExec defaults),
      rt_ShellLogin = applyDefaultCommandList (rt_ShellLogin t) (rt_ShellLogin defaults)\<rparr>"

definition nodeLifecycleState :: "Node \<Rightarrow> NodeStatus" where
  "nodeLifecycleState node =
     (if normalizeNodeLifecycleState (n_Status node) \<noteq> []
      then normalizeNodeLifecycleState (n_Status node)
      else if \<not> n_BootstrapCompleted node then normalizeNodeLifecycleState (n_LifecycleState node)
      else [])"

definition newNodeFileWire :: "Node \<Rightarrow> nodeFileWire" where
  "newNodeFileWire node =
     \<lparr>w_ID = n_ID node, w_Slug = n_Slug node, w_ConfigurationID = n_ConfigurationID node,
      w_DirectoryPath = n_DirectoryPath node, w_ParentNodeID = n_ParentNodeID node,
      w_Runtime = n_Runtime node, w_Provider = n_Provider node,
      w_SandboxName = n_SandboxName node, w_Image = n_Image node, w_VCPUs = n_VCPUs node,
      w_MemoryMiB = n_MemoryMiB node, w_DiskMiB = n_DiskMiB node,
      w_Environments = n_Environments node, w_Ports = n_Ports node,
      w_DaemonPortForwarding = n_DaemonPortForwarding node,
      w_LifecycleState = nodeLifecycleState node, w_Status = [],
      w_AgentProfileName = n_AgentProfileName node, w_RuntimeCommands = n_RuntimeCommands node,
      w_BootstrapCommands = n_BootstrapCommands node, w_WorkspaceMode = n_WorkspaceMode node,
      w_GuestWorkspacePath = n_GuestWorkspacePath node,
      w_WorkspaceMountPath = n_WorkspaceMountPath node,
      w_WorkspaceSeeded = n_WorkspaceSeeded node, w_ImportHostAuth = n_ImportHostAuth node,
      w_AuthImportCompleted = n_AuthImportCompleted node,
      w_BootstrapCompleted = n_BootstrapCompleted node,
      w_BootstrapCompletedAt = n_BootstrapCompletedAt node, w_CreatedAt = n_CreatedAt node,
      w_UpdatedAt = n_UpdatedAt node, w_DeletedAt = n_DeletedAt node\<rparr>"

definition wire_node :: "nodeFileWire \<Rightarrow> Node" where
  "wire_node w =
     (let lifecycle = normalizeNodeLifecycleState (w_LifecycleState w);
          legacy = legacyNodeStatus (w_Status w);
          lifecycleState = (if lifecycle = [] then normalizeNodeLifecycleState legacy else lifecycle);
          status = (if lifecycleState = [] then legacy else lifecycleState)
      in \<lparr>n_ID = w_ID w, n_Slug = w_Slug w, n_ConfigurationID = w_ConfigurationID w,
        n_ConfigurationSlug = [], n_DirectoryPath = w_DirectoryPath w,
        n_ParentNodeID = w_ParentNodeID w, n_Runtime = w_Runtime w, n_Provider = w_Provider w,
        n_SandboxName = w_SandboxName w, n_Image = w_Image w, n_VCPUs = w_VCPUs w,
        n_MemoryMiB = w_MemoryMiB w, n_DiskMiB = w_DiskMiB w,
        n_Environments = w_Environments w, n_Ports = w_Ports w,
        n_DaemonPortForwarding = w_DaemonPortForwarding w, n_Status = status,
        n_LifecycleState = lifecycleState, n_AgentProfileName = w_AgentProfileName w,
        n_RuntimeCommands = w_RuntimeCommands w, n_BootstrapCommands = w_BootstrapCommands w,
        n_WorkspaceMode = w_WorkspaceMode w, n_GuestWorkspacePath = w_GuestWorkspacePath w,
        n_WorkspaceMountPath = w_WorkspaceMountPath w, n_WorkspaceSeeded = w_WorkspaceSeeded w,
        n_ImportHostAuth = w_ImportHostAuth w, n_AuthImportCompleted = w_AuthImportCompleted w,
        n_BootstrapCompleted = w_BootstrapCompleted w,
        n_BootstrapCompletedAt = w_BootstrapCompletedAt w, n_CreatedAt = w_CreatedAt w,
        n_UpdatedAt = w_UpdatedAt w, n_DeletedAt = w_DeletedAt w, n_LastReconciledAt = None,
        n_LastRuntimeObservation = None\<rparr>)"

definition nodeStatusInFlight :: "NodeStatus \<Rightarrow> bool" where
  "nodeStatusInFlight status \<longleftrightarrow>
     status \<in> {NodeStatusProvisioning, NodeStatusRegistering, NodeStatusTerminating}"

definition nodeStatusAcceptsRuntimeSighting :: "NodeStatus \<Rightarrow> bool" where
  "nodeStatusAcceptsRuntimeSighting status \<longleftrightarrow>
     \<not> nodeStatusInFlight status \<and> status \<noteq> NodeStatusFailed \<and> status \<noteq> NodeStatusTerminated"

text \<open>\<open>nodeGuestShellBlocked\<close> returns the reason, empty when nothing blocks a guest shell.\<close>

definition nodeGuestShellBlocked :: "Node \<Rightarrow> string" where
  "nodeGuestShellBlocked node =
     (if n_Status node \<in> {NodeStatusProvisioning, NodeStatusRegistering}
      then ''node '' @ n_Slug node @ '' is still bootstrapping; its terminal opens when the start completes''
      else if n_Status node = NodeStatusTerminating then ''node '' @ n_Slug node @ '' is being deleted''
      else [])"

definition nodeVMStatus :: "Node \<Rightarrow> string" where
  "nodeVMStatus node =
     (case n_LastRuntimeObservation node of
        Some observation \<Rightarrow>
          if ob_Status observation \<noteq> [] then ob_Status observation
          else if \<not> ob_Exists observation then ''missing'' else ''unknown''
      | None \<Rightarrow>
          if n_Status node \<in> {NodeStatusRunning, NodeStatusStopped} then n_Status node else ''unknown'')"

definition nodeSetupStatus :: "Node \<Rightarrow> string" where
  "nodeSetupStatus node =
     (if nodeLifecycleState node \<in> {NodeStatusFailed, NodeStatusProvisioning, NodeStatusRegistering}
      then nodeLifecycleState node
      else if n_BootstrapCompleted node then ''ready'' else ''pending'')"

definition presentNode :: "Node \<Rightarrow> Node \<times> string" where
  "presentNode node = (node\<lparr>n_Status := nodeVMStatus node\<rparr>, nodeSetupStatus node)"

definition findObservation :: "RuntimeObservation list \<Rightarrow> string \<Rightarrow> RuntimeObservation option" where
  "findObservation observations instanceName = find (\<lambda>x. ob_Name x = instanceName) observations"

text \<open>
  \<open>reconcileNodeWithObservations\<close> with its optional write: \<open>load\<close> and \<open>save\<close> are the store's
  answers for this node (an error, or success).
\<close>

definition reconcileNodeWithObservations ::
  "goError option \<Rightarrow> (Node \<Rightarrow> goError option) \<Rightarrow> Node \<Rightarrow> RuntimeObservation list \<Rightarrow> bool \<Rightarrow> gotime
     \<Rightarrow> (goError, Node) result" where
  "reconcileNodeWithObservations load save node observations persist now =
     (let node = node\<lparr>n_LastReconciledAt := Some now\<rparr>;
          node = (case findObservation observations (n_SandboxName node) of
             Some observation \<Rightarrow>
               let node = node\<lparr>n_LastRuntimeObservation := Some observation\<rparr>
               in if ob_Status observation = ObservationRunning
                     \<and> nodeStatusAcceptsRuntimeSighting (n_Status node)
                  then node\<lparr>n_Status := NodeStatusRunning\<rparr>
                  else if ob_Status observation = ObservationStopped
                     \<and> nodeStatusAcceptsRuntimeSighting (n_Status node)
                  then node\<lparr>n_Status := NodeStatusStopped\<rparr>
                  else node
           | None \<Rightarrow> node\<lparr>n_LastRuntimeObservation :=
               Some \<lparr>ob_Name = n_SandboxName node, ob_Exists = False, ob_Status = []\<rparr>\<rparr>)
      in if persist
         then (case load of
                 Some err \<Rightarrow> Inl err
               | None \<Rightarrow>
                   let node = node\<lparr>n_UpdatedAt := now\<rparr>
                   in case save node of Some err \<Rightarrow> Inl err | None \<Rightarrow> Inr node)
         else Inr node)"

text \<open>
  \<open>recoverStaleNodeClaim\<close> marks a stranded node as failed; \<open>save\<close> and \<open>event\<close> are the store's
  answers. The second component says whether an event was appended.
\<close>

definition recoverStaleNodeClaim ::
  "(Node \<Rightarrow> goError option) \<Rightarrow> (NodeStatus \<Rightarrow> goError option) \<Rightarrow> gotime \<Rightarrow> Node \<Rightarrow> Node \<times> goError option" where
  "recoverStaleNodeClaim save event now node =
     (if \<not> nodeStatusInFlight (n_Status node) then (node, None)
      else let previous = n_Status node;
               node = node\<lparr>n_Status := NodeStatusFailed, n_UpdatedAt := now\<rparr>
           in case save node of Some err \<Rightarrow> (node, Some err) | None \<Rightarrow> (node, event previous))"

fun coalesce :: "string list \<Rightarrow> string" where
  "coalesce [] = []"
| "coalesce (value # values) = (if TrimSpace value \<noteq> [] then value else coalesce values)"

section \<open>Lemmas on statuses\<close>

definition durable_states :: "NodeStatus set" where
  "durable_states = {NodeStatusCreated, NodeStatusProvisioning, NodeStatusRegistering,
     NodeStatusFailed, NodeStatusTerminating, NodeStatusTerminated}"

lemma normalize_range: "normalizeNodeLifecycleState s \<in> insert [] durable_states"
  by (simp add: normalizeNodeLifecycleState_def Let_def durable_states_def)

lemma normalize_durable: "s \<in> durable_states \<Longrightarrow> normalizeNodeLifecycleState s = s"
  unfolding durable_states_def by (elim insertE emptyE; hypsubst) code_simp+

lemma normalize_nil [simp]: "normalizeNodeLifecycleState [] = []"
  by code_simp

lemma legacy_nil [simp]: "legacyNodeStatus [] = []"
  by code_simp

lemma normalize_idem [simp]:
  "normalizeNodeLifecycleState (normalizeNodeLifecycleState s) = normalizeNodeLifecycleState s"
  using normalize_range [of s] normalize_durable by auto

lemma normalize_sighting [simp]:
  "normalizeNodeLifecycleState NodeStatusRunning = []"
  "normalizeNodeLifecycleState NodeStatusStopped = []"
  by code_simp+

lemma lifecycle_idem [simp]:
  "normalizeNodeLifecycleState (nodeLifecycleState n) = nodeLifecycleState n"
  by (simp add: nodeLifecycleState_def)

text \<open>The fields of a node that its file keeps.\<close>

definition same_durable :: "Node \<Rightarrow> Node \<Rightarrow> bool" where
  "same_durable m n \<longleftrightarrow>
     n_ID m = n_ID n \<and> n_Slug m = n_Slug n \<and>
     n_ConfigurationID m = n_ConfigurationID n \<and>
     n_DirectoryPath m = n_DirectoryPath n \<and> n_ParentNodeID m = n_ParentNodeID n \<and>
     n_Runtime m = n_Runtime n \<and> n_Provider m = n_Provider n \<and>
     n_SandboxName m = n_SandboxName n \<and> n_Image m = n_Image n \<and>
     n_VCPUs m = n_VCPUs n \<and> n_MemoryMiB m = n_MemoryMiB n \<and>
     n_DiskMiB m = n_DiskMiB n \<and> n_Environments m = n_Environments n \<and>
     n_Ports m = n_Ports n \<and> n_DaemonPortForwarding m = n_DaemonPortForwarding n \<and>
     n_AgentProfileName m = n_AgentProfileName n \<and>
     n_RuntimeCommands m = n_RuntimeCommands n \<and>
     n_BootstrapCommands m = n_BootstrapCommands n \<and>
     n_WorkspaceMode m = n_WorkspaceMode n \<and>
     n_GuestWorkspacePath m = n_GuestWorkspacePath n \<and>
     n_WorkspaceMountPath m = n_WorkspaceMountPath n \<and>
     n_WorkspaceSeeded m = n_WorkspaceSeeded n \<and>
     n_ImportHostAuth m = n_ImportHostAuth n \<and>
     n_AuthImportCompleted m = n_AuthImportCompleted n \<and>
     n_BootstrapCompleted m = n_BootstrapCompleted n \<and>
     n_BootstrapCompletedAt m = n_BootstrapCompletedAt n \<and>
     n_CreatedAt m = n_CreatedAt n \<and> n_UpdatedAt m = n_UpdatedAt n \<and>
     n_DeletedAt m = n_DeletedAt n"

lemma lifecycle_wire_node:
  "w_Status w = [] \<Longrightarrow> nodeLifecycleState (wire_node w) = normalizeNodeLifecycleState (w_LifecycleState w)"
  by (simp add: wire_node_def nodeLifecycleState_def Let_def)

section \<open>Properties\<close>

text \<open>
  Writing a node and reading it back loses nothing durable. The node read has every
  durable field of the node written; its durable state is the one the node had; and writing it
  again gives the same file. In particular a sighting (running or stopped) is never written: it
  reads back as no status at all.
\<close>

theorem node_file_roundtrip:
  "same_durable (wire_node (newNodeFileWire n)) n
   \<and> nodeLifecycleState (wire_node (newNodeFileWire n)) = nodeLifecycleState n
   \<and> newNodeFileWire (wire_node (newNodeFileWire n)) = newNodeFileWire n
   \<and> n_Status (wire_node (newNodeFileWire n)) = nodeLifecycleState n
   \<and> n_Status (wire_node (newNodeFileWire n)) \<in> insert [] durable_states"
proof -
  let ?w = "newNodeFileWire n"
  have w: "w_Status ?w = []" "w_LifecycleState ?w = nodeLifecycleState n"
    by (simp_all add: newNodeFileWire_def)
  have life: "nodeLifecycleState (wire_node ?w) = nodeLifecycleState n"
    by (simp add: lifecycle_wire_node w)
  have same: "same_durable (wire_node ?w) n"
    by (simp add: same_durable_def wire_node_def Let_def newNodeFileWire_def)
  then have "newNodeFileWire (wire_node ?w) = newNodeFileWire n"
    using life by (simp add: same_durable_def newNodeFileWire_def)
  moreover have "n_Status (wire_node ?w) = nodeLifecycleState n"
    using w by (simp add: wire_node_def Let_def)
  moreover have "nodeLifecycleState n \<in> insert [] durable_states"
    using normalize_range [of "nodeLifecycleState n"] by simp
  ultimately show ?thesis using same life by simp
qed

text \<open>
  A sighting of the runtime never erases a state that an operation owns or a
  failure. Reconciling a node that is provisioning, registering, terminating, failed or
  terminated keeps its status whatever the runtime reports; a node read from its file keeps its
  durable state also when it is merely created, as long as its bootstrap is not complete; and
  every other node takes the status that the runtime reports.
\<close>

theorem reconcile_preserves_state:
  assumes r: "reconcileNodeWithObservations load save node observations persist now = Inr node'"
  shows "(nodeStatusInFlight (n_Status node) \<or> n_Status node \<in> {NodeStatusFailed, NodeStatusTerminated}
            \<longrightarrow> n_Status node' = n_Status node)
     \<and> (\<forall>w. node = wire_node w \<and> w_Status w = [] \<and> \<not> n_BootstrapCompleted node
            \<longrightarrow> nodeLifecycleState node' = nodeLifecycleState node)
     \<and> (nodeStatusAcceptsRuntimeSighting (n_Status node) \<longrightarrow>
          n_Status node' = (case findObservation observations (n_SandboxName node) of
             Some x \<Rightarrow> if ob_Status x = ObservationRunning then NodeStatusRunning
                      else if ob_Status x = ObservationStopped then NodeStatusStopped
                      else n_Status node
           | None \<Rightarrow> n_Status node))"
proof -
  define seen where "seen = findObservation observations (n_SandboxName node)"
  have status: "n_Status node' =
      (case seen of
         Some x \<Rightarrow> if nodeStatusAcceptsRuntimeSighting (n_Status node)
                  then (if ob_Status x = ObservationRunning then NodeStatusRunning
                        else if ob_Status x = ObservationStopped then NodeStatusStopped
                        else n_Status node)
                  else n_Status node
       | None \<Rightarrow> n_Status node)"
    and rest: "n_LifecycleState node' = n_LifecycleState node"
      "n_BootstrapCompleted node' = n_BootstrapCompleted node"
    using r unfolding reconcileNodeWithObservations_def seen_def
    by (auto simp: Let_def split: option.splits if_splits)
  have one: "n_Status node' = n_Status node"
    if "nodeStatusInFlight (n_Status node) \<or> n_Status node \<in> {NodeStatusFailed, NodeStatusTerminated}"
    using that status by (auto simp: nodeStatusAcceptsRuntimeSighting_def split: option.splits)
  have two: "nodeLifecycleState node' = nodeLifecycleState node"
    if w: "node = wire_node w" "w_Status w = []" "\<not> n_BootstrapCompleted node" for w
  proof -
    have "n_LifecycleState node = n_Status node" "nodeLifecycleState node = n_Status node"
      using w by (auto simp: wire_node_def nodeLifecycleState_def Let_def)
    moreover have "n_Status node' \<in> {n_Status node, NodeStatusRunning, NodeStatusStopped}"
      unfolding status by (auto split: option.splits)
    ultimately show ?thesis
      using rest w(3) lifecycle_idem [of node] by (auto simp: nodeLifecycleState_def)
  qed
  have three: "n_Status node' = (case seen of
             Some x \<Rightarrow> if ob_Status x = ObservationRunning then NodeStatusRunning
                      else if ob_Status x = ObservationStopped then NodeStatusStopped
                      else n_Status node
           | None \<Rightarrow> n_Status node)"
    if "nodeStatusAcceptsRuntimeSighting (n_Status node)"
    using that status by (cases seen) simp_all
  show ?thesis using one two three unfolding seen_def by blast
qed

theorem reconcile_preserves_state_witness:
  "\<exists>node'. reconcileNodeWithObservations None (\<lambda>_. None)
       (zero_node\<lparr>n_SandboxName := ''vm'', n_Status := ''provisioning''\<rparr>)
       [\<lparr>ob_Name = ''vm'', ob_Exists = True, ob_Status = ''running''\<rparr>] True 7 = Inr node'
     \<and> n_Status node' = ''provisioning''"
proof -
  let ?n = "zero_node\<lparr>n_SandboxName := ''vm'', n_Status := ''provisioning''\<rparr>"
  obtain node' where r: "reconcileNodeWithObservations None (\<lambda>_. None) ?n
       [\<lparr>ob_Name = ''vm'', ob_Exists = True, ob_Status = ''running''\<rparr>] True 7 = Inr node'"
    by (auto simp: reconcileNodeWithObservations_def Let_def split: option.splits)
  have "nodeStatusInFlight (n_Status ?n)" by (simp add: nodeStatusInFlight_def status_defs)
  with reconcile_preserves_state [OF r] r show ?thesis by auto
qed

end
