(* ===== verification/Utf8.thy ===== *)
theory Utf8
  imports Prelude
begin

text \<open>
  UTF-8 as Go's \<^verbatim>\<open>unicode/utf8\<close> and \<^verbatim>\<open>strings\<close> packages treat it: the size of the valid encoding at
  the head of a byte string, \<^verbatim>\<open>utf8.RuneStart\<close>, \<^verbatim>\<open>strings.ToValidUTF8\<close> with the replacement
  character, and the program's own \<open>boundedOperationText\<close> of \<^verbatim>\<open>node_operations.go\<close>.
\<close>

section \<open>Encodings\<close>

definition byte :: "char \<Rightarrow> nat" where
  "byte c = of_char c"

definition cont :: "nat \<Rightarrow> bool" where
  "cont b \<longleftrightarrow> 128 \<le> b \<and> b \<le> 191"

definition RuneStart :: "char \<Rightarrow> bool" where
  "RuneStart c \<longleftrightarrow> \<not> cont (byte c)"

text \<open>The size of the valid encoding that a byte string begins with, 0 when it is invalid.\<close>

definition second_ok :: "nat \<Rightarrow> nat \<Rightarrow> bool" where
  "second_ok b0 b1 \<longleftrightarrow>
     (if b0 = 224 then 160 \<le> b1 \<and> b1 \<le> 191
      else if b0 = 237 then 128 \<le> b1 \<and> b1 \<le> 159
      else if b0 = 240 then 144 \<le> b1 \<and> b1 \<le> 191
      else if b0 = 244 then 128 \<le> b1 \<and> b1 \<le> 143
      else cont b1)"

fun rune_size :: "string \<Rightarrow> nat" where
  "rune_size [] = 0"
| "rune_size (c # cs) =
     (if byte c < 128 then 1
      else if 194 \<le> byte c \<and> byte c \<le> 223 then
        (case cs of c1 # _ \<Rightarrow> if second_ok (byte c) (byte c1) then 2 else 0 | [] \<Rightarrow> 0)
      else if 224 \<le> byte c \<and> byte c \<le> 239 then
        (case cs of c1 # c2 # _ \<Rightarrow> if second_ok (byte c) (byte c1) \<and> cont (byte c2) then 3 else 0
         | _ \<Rightarrow> 0)
      else if 240 \<le> byte c \<and> byte c \<le> 244 then
        (case cs of c1 # c2 # c3 # _ \<Rightarrow>
           if second_ok (byte c) (byte c1) \<and> cont (byte c2) \<and> cont (byte c3) then 4 else 0
         | _ \<Rightarrow> 0)
      else 0)"

lemma rune_size_le: "rune_size s \<le> length s"
  by (cases s) (auto split: list.splits)

lemma rune_size_le4: "rune_size s \<le> 4"
  by (cases s) (auto split: list.splits)

lemma rune_size_append: "rune_size s \<noteq> 0 \<Longrightarrow> rune_size (take (rune_size s) s @ t) = rune_size s"
  by (cases s) (auto split: list.splits if_splits)

lemma rune_size_append': "rune_size s \<noteq> 0 \<Longrightarrow> rune_size (s @ t) = rune_size s"
  by (cases s) (auto split: list.splits if_splits)

function valid_utf8 :: "string \<Rightarrow> bool" where
  "valid_utf8 s =
     (if s = [] then True else if rune_size s = 0 then False else valid_utf8 (drop (rune_size s) s))"
  by pat_completeness auto
termination by (relation "measure length") auto

declare valid_utf8.simps [simp del]

lemma valid_utf8_Nil [simp]: "valid_utf8 []"
  by (simp add: valid_utf8.simps)

lemma valid_utf8_append: "valid_utf8 s \<Longrightarrow> valid_utf8 t \<Longrightarrow> valid_utf8 (s @ t)"
proof (induction s rule: valid_utf8.induct)
  case (1 s)
  show ?case
  proof (cases "s = []")
    case False
    then have r: "rune_size s \<noteq> 0" "valid_utf8 (drop (rune_size s) s)"
      using "1.prems"(1) by (auto simp: valid_utf8.simps [of s] split: if_splits)
    then have "valid_utf8 (drop (rune_size s) s @ t)" using 1 False by blast
    then have "valid_utf8 (drop (rune_size (s @ t)) (s @ t))"
      using rune_size_le [of s] by (simp add: rune_size_append' [OF r(1)])
    then show ?thesis
      using False r by (simp add: valid_utf8.simps [of "s @ t"] rune_size_append')
  qed (use 1 in simp)
qed

section \<open>Repairing text\<close>

definition replacement :: string where
  "replacement = [CHR 0xEF, CHR 0xBF, CHR 0xBD]"

definition ellipsis :: string where
  "ellipsis = [CHR 0xE2, CHR 0x80, CHR 0xA6]"

text \<open>Every maximal run of invalid bytes becomes one replacement.\<close>

function to_valid :: "bool \<Rightarrow> string \<Rightarrow> string" where
  "to_valid invalid s =
     (if s = [] then []
      else if rune_size s = 0 then (if invalid then [] else replacement) @ to_valid True (tl s)
      else take (rune_size s) s @ to_valid False (drop (rune_size s) s))"
  by pat_completeness auto
termination by (relation "measure (\<lambda>(i, s). length s)") auto

declare to_valid.simps [simp del]

definition ToValidUTF8 :: "string \<Rightarrow> string" where
  "ToValidUTF8 s = to_valid False s"

definition boundedOperationText :: "string \<Rightarrow> nat \<Rightarrow> string" where
  "boundedOperationText value limit =
     (if length value \<le> limit then value else ToValidUTF8 (take limit value) @ ellipsis)"

lemma valid_take_rune: "rune_size s \<noteq> 0 \<Longrightarrow> valid_utf8 (take (rune_size s) s)"
  using rune_size_append [of s "[]"] by (simp add: valid_utf8.simps [of "take (rune_size s) s"])

lemma valid_replacement: "valid_utf8 replacement"
  by code_simp

lemma valid_ellipsis: "valid_utf8 ellipsis"
  by code_simp

lemma to_valid_valid: "valid_utf8 (to_valid i s)"
proof (induction i s rule: to_valid.induct)
  case (1 i s)
  then show ?case
    by (subst to_valid.simps) (auto intro!: valid_utf8_append valid_take_rune valid_replacement)
qed

lemma to_valid_length: "length (to_valid i s) \<le> 3 * length s"
proof (induction i s rule: to_valid.induct)
  case (1 i s)
  show ?case
  proof (cases "s = [] \<or> rune_size s = 0")
    case True
    then show ?thesis using 1
      by (subst to_valid.simps) (cases s; auto simp: replacement_def)
  next
    case False
    then have "length (to_valid False (drop (rune_size s) s)) \<le> 3 * (length s - rune_size s)"
      using 1 by simp
    then show ?thesis using False rune_size_le [of s] by (subst to_valid.simps) simp
  qed
qed

lemma to_valid_id: "valid_utf8 s \<Longrightarrow> to_valid i s = s"
proof (induction s arbitrary: i rule: valid_utf8.induct)
  case (1 s)
  show ?case
  proof (cases "s = []")
    case False
    then have "rune_size s \<noteq> 0" "valid_utf8 (drop (rune_size s) s)"
      using "1.prems" by (auto simp: valid_utf8.simps [of s] split: if_splits)
    then show ?thesis using False 1 by (subst to_valid.simps) simp
  qed (simp add: to_valid.simps)
qed

lemma bounded_text_length: "length (boundedOperationText s n) \<le> 3 * n + 3"
  using to_valid_length [of False "take n s"]
  by (auto simp: boundedOperationText_def ToValidUTF8_def ellipsis_def min_def split: if_splits)

lemma bounded_text_valid: "valid_utf8 s \<Longrightarrow> valid_utf8 (boundedOperationText s n)"
  by (auto simp: boundedOperationText_def ToValidUTF8_def intro: valid_utf8_append to_valid_valid
      valid_ellipsis)

end
