(* ===== verification/BootstrapSteps.thy ===== *)
theory BootstrapSteps
  imports NodeTypes Utf8
begin

text \<open>
  The recorded bootstrap of a node, \<^verbatim>\<open>bootstrap_steps.go\<close>, with the file form of its state
  (\<^verbatim>\<open>types.go\<close>) and the part of \<^verbatim>\<open>service.go\<close>'s \<^verbatim>\<open>nodeStartClaimed\<close> that runs the steps: the plan,
  resuming at a recorded failure, executing one step with its record written before and after,
  and the two loops. The theory proves that a start that succeeds leaves truthful evidence for
  every step, that a retry runs exactly the commands from the failed step on, and that no
  command runs before its attempt is on disk.
\<close>

section \<open>Data\<close>

datatype BootstrapStepState =
    StepPending | StepRunning | StepSucceeded | StepFailed | StepCanceled | StepInterrupted
  | StepUnrecorded

record BootstrapStep =
  st_Kind :: string
  st_SourceKind :: string
  st_SourceID :: string
  st_SourceName :: string
  st_Command :: string
  st_State :: BootstrapStepState
  st_Attempts :: u64
  st_AttemptID :: string
  st_ExecutionNodeID :: string
  st_StartedAt :: "gotime option"
  st_FinishedAt :: "gotime option"
  st_DurationMillis :: "int option"
  st_ExitCode :: "int option"
  st_Error :: string

record BootstrapState =
  bs_AgentProfileName :: string
  bs_InstallCommands :: "string list"
  bs_BootstrapCommands :: "string list"
  bs_ValidationCommand :: string
  bs_LaunchCommand :: string
  bs_Environment :: "(string \<times> string) list"
  bs_Completed :: bool
  bs_CompletedAt :: "gotime option"
  bs_Steps :: "BootstrapStep list"

abbreviation bootstrap_kind :: string where "bootstrap_kind \<equiv> ''bootstrap''"
abbreviation validation_kind :: string where "validation_kind \<equiv> ''validation''"

definition CombinedCommands :: "BootstrapState \<Rightarrow> string list" where
  "CombinedCommands b = bs_InstallCommands b @ bs_BootstrapCommands b"

section \<open>The plan\<close>

definition new_step :: "string \<Rightarrow> string \<Rightarrow> string \<Rightarrow> string \<Rightarrow> string \<Rightarrow> BootstrapStep" where
  "new_step kind sourceKind sourceID sourceName command =
     \<lparr>st_Kind = kind, st_SourceKind = sourceKind, st_SourceID = sourceID, st_SourceName = sourceName,
      st_Command = command, st_State = StepPending, st_Attempts = 0, st_AttemptID = [],
      st_ExecutionNodeID = [], st_StartedAt = None, st_FinishedAt = None, st_DurationMillis = None,
      st_ExitCode = None, st_Error = []\<rparr>"

fun appendBootstrapSteps ::
  "BootstrapStep list \<Rightarrow> string list \<Rightarrow> string \<Rightarrow> string \<Rightarrow> string \<Rightarrow> string \<Rightarrow> BootstrapStep list" where
  "appendBootstrapSteps steps [] kind sourceKind sourceID sourceName = steps"
| "appendBootstrapSteps steps (command # commands) kind sourceKind sourceID sourceName =
     appendBootstrapSteps
       (if TrimSpace command = [] then steps
        else steps @ [new_step kind sourceKind sourceID sourceName command])
       commands kind sourceKind sourceID sourceName"

record EnvironmentConfig =
  ec_ID :: string
  ec_Slug :: string
  ec_BootstrapCommands :: "string list"
  ec_CreatedAt :: gotime
  ec_UpdatedAt :: gotime
  ec_DeletedAt :: "gotime option"

record Configuration =
  cf_ID :: string
  cf_Slug :: string
  cf_Image :: string
  cf_AgentProfileName :: string
  cf_Environments :: "string list"
  cf_BootstrapCommands :: "string list"
  cf_VCPUs :: u8
  cf_MemoryMiB :: "32 word"
  cf_DiskMiB :: "32 word"
  cf_CreatedAt :: gotime
  cf_UpdatedAt :: gotime
  cf_DeletedAt :: "gotime option"

fun environment_steps ::
  "(string \<Rightarrow> (goError, EnvironmentConfig) result) \<Rightarrow> BootstrapStep list \<Rightarrow> string list
     \<Rightarrow> (goError, BootstrapStep list) result" where
  "environment_steps lookup steps [] = Inr steps"
| "environment_steps lookup steps (slug # slugs) =
     (case lookup slug of
        Inl err \<Rightarrow> Inl err
      | Inr env \<Rightarrow>
          if ec_DeletedAt env \<noteq> None then Inl (notFound ''environment not found'' [(''query'', slug)])
          else environment_steps lookup
                 (appendBootstrapSteps steps (ec_BootstrapCommands env) bootstrap_kind ''environment''
                    (ec_ID env) (ec_Slug env)) slugs)"

definition configurationBootstrapSteps ::
  "Configuration \<Rightarrow> (string \<Rightarrow> (goError, EnvironmentConfig) result)
     \<Rightarrow> (goError, BootstrapStep list) result" where
  "configurationBootstrapSteps c lookup =
     (case environment_steps lookup [] (cf_Environments c) of
        Inl err \<Rightarrow> Inl err
      | Inr steps \<Rightarrow> Inr (appendBootstrapSteps steps (cf_BootstrapCommands c) bootstrap_kind ''template''
                          (cf_ID c) (cf_Slug c)))"

definition fallback_steps :: "BootstrapState \<Rightarrow> BootstrapStep list" where
  "fallback_steps b =
     appendBootstrapSteps
       (appendBootstrapSteps
          (appendBootstrapSteps [] (bs_InstallCommands b) bootstrap_kind ''agent'' [] (bs_AgentProfileName b))
          (bs_BootstrapCommands b) bootstrap_kind ''frozen'' [] ''source unrecorded'')
       [bs_ValidationCommand b] validation_kind ''agent'' [] (bs_AgentProfileName b)"

definition ensureSteps :: "BootstrapState \<Rightarrow> BootstrapState" where
  "ensureSteps b =
     (let fallback = fallback_steps b;
          matching = (length fallback = length (bs_Steps b)
            \<and> list_all2 (\<lambda>step recorded. st_Kind step = st_Kind recorded
                 \<and> st_Command step = st_Command recorded) fallback (bs_Steps b))
      in if matching then b
         else b\<lparr>bs_Steps := (if bs_Completed b
              then map (\<lambda>step. step\<lparr>st_State := StepUnrecorded\<rparr>) fallback else fallback)\<rparr>)"

definition interrupt_step :: "BootstrapStep \<Rightarrow> BootstrapStep" where
  "interrupt_step step =
     (if st_State step \<noteq> StepRunning then step
      else step\<lparr>st_State := StepInterrupted, st_FinishedAt := None, st_DurationMillis := None,
                st_ExitCode := None,
                st_Error := ''execution ended before completion was recorded''\<rparr>)"

definition interruptRunningSteps :: "BootstrapState \<Rightarrow> BootstrapState" where
  "interruptRunningSteps b = b\<lparr>bs_Steps := map interrupt_step (bs_Steps b)\<rparr>"

text \<open>The index of the first step that satisfies a condition, from a given index on.\<close>

fun first_index :: "('a \<Rightarrow> bool) \<Rightarrow> nat \<Rightarrow> 'a list \<Rightarrow> nat option" where
  "first_index P i [] = None"
| "first_index P i (x # xs) = (if P x then Some i else first_index P (Suc i) xs)"

definition prepareSteps ::
  "bool \<Rightarrow> BootstrapState \<Rightarrow> BootstrapState \<times> (goError, nat) result" where
  "prepareSteps resume b =
     (let b = interruptRunningSteps (ensureSteps b);
          steps = bs_Steps b
      in if resume
         then (case first_index (\<lambda>s. st_State s = StepFailed \<or> st_State s = StepInterrupted) 0 steps of
                 None \<Rightarrow> (b, Inl (preconditionFailed
                    ''no recorded failed step; start the node to rerun its incomplete bootstrap'' []))
               | Some start \<Rightarrow>
                   if bs_Completed b \<and> st_Kind (steps ! start) \<noteq> validation_kind
                   then (b, Inl (metadataCorruption
                      ''completed bootstrap contains a failed bootstrap step'' None []))
                   else if \<exists>i \<in> set [0..<start]. st_Kind (steps ! i) = bootstrap_kind
                             \<and> st_State (steps ! i) \<noteq> StepSucceeded \<and> \<not> bs_Completed b
                   then (b, Inl (preconditionFailed
                      ''earlier bootstrap steps lack success records; start the node to rerun the full bootstrap'' []))
                   else (b, Inr start))
         else (b, Inr 0))"

definition reset_step :: "bool \<Rightarrow> BootstrapStep \<Rightarrow> BootstrapStep" where
  "reset_step completed step =
     (if completed \<and> st_Kind step = bootstrap_kind then step
      else step\<lparr>st_State := StepPending, st_AttemptID := [], st_ExecutionNodeID := [], st_Error := [],
                st_StartedAt := None, st_FinishedAt := None, st_DurationMillis := None,
                st_ExitCode := None\<rparr>)"

definition resetSteps :: "nat \<Rightarrow> BootstrapState \<Rightarrow> BootstrapState" where
  "resetSteps start b =
     b\<lparr>bs_Steps := take start (bs_Steps b) @ map (reset_step (bs_Completed b)) (drop start (bs_Steps b))\<rparr>"

section \<open>Executing steps\<close>

text \<open>
  What the surroundings answer for one step: the context's error before it starts, the clock,
  the new attempt's identifier, the outcome of writing the record and of appending the event
  before and after, the outcome of the guest command with the exit code of its error when it
  has one, and whether the context is done afterwards.
\<close>

record stepEnv =
  se_ctxErr :: "goError option"
  se_started :: gotime
  se_finished :: gotime
  se_attemptID :: string
  se_saveStart :: "goError option"
  se_eventStart :: "goError option"
  se_run :: "goError option"
  se_exit :: "int option"
  se_ctxDone :: bool
  se_saveEnd :: "goError option"
  se_eventEnd :: "goError option"

text \<open>The effects in order: the record written with its steps, and the command executed.\<close>

datatype stepEffect = SaveSteps "BootstrapStep list" | RunCommand nat string

definition join_errors :: "goError option \<Rightarrow> goError option \<Rightarrow> goError option" where
  "join_errors a b = (case (a, b) of
     (None, None) \<Rightarrow> None | (Some x, None) \<Rightarrow> Some (JoinError [x])
   | (None, Some y) \<Rightarrow> Some (JoinError [y]) | (Some x, Some y) \<Rightarrow> Some (JoinError [x, y]))"

text \<open>Saving the node and then appending the event, under the node's lock.\<close>

definition save_record ::
  "goError option \<Rightarrow> goError option \<Rightarrow> BootstrapStep list \<Rightarrow> stepEffect list \<times> goError option" where
  "save_record save event steps =
     (case save of Some err \<Rightarrow> ([], Some err) | None \<Rightarrow> ([SaveSteps steps], event))"

definition start_record :: "string \<Rightarrow> stepEnv \<Rightarrow> BootstrapStep \<Rightarrow> BootstrapStep" where
  "start_record nodeID env step =
     step\<lparr>st_State := StepRunning, st_AttemptID := se_attemptID env, st_ExecutionNodeID := nodeID,
          st_Attempts := st_Attempts step + 1, st_StartedAt := Some (se_started env)\<rparr>"

definition finish_record :: "stepEnv \<Rightarrow> BootstrapStep \<Rightarrow> BootstrapStep" where
  "finish_record env step =
     (let step = step\<lparr>st_FinishedAt := Some (se_finished env),
            st_DurationMillis := Some (max 0 ((se_finished env - se_started env) div 1000000)),
            st_State := StepSucceeded\<rparr>
      in case se_run env of
           None \<Rightarrow> step\<lparr>st_ExitCode := Some 0\<rparr>
         | Some err \<Rightarrow>
             let text = error_text err;
                 step = step\<lparr>st_State := (if se_ctxDone env then StepCanceled else StepFailed),
                   st_Error := (if length text > 4096 then ToValidUTF8 (take 4096 text) else text)\<rparr>
             in (case se_exit env of
                   Some code \<Rightarrow> if code \<ge> 0 then step\<lparr>st_ExitCode := Some code\<rparr> else step
                 | None \<Rightarrow> step))"

definition runRecordedBootstrapStep ::
  "string \<Rightarrow> stepEnv \<Rightarrow> BootstrapStep list \<Rightarrow> nat
     \<Rightarrow> BootstrapStep list \<times> stepEffect list \<times> goError option" where
  "runRecordedBootstrapStep nodeID env steps index =
     (case se_ctxErr env of
        Some err \<Rightarrow> (steps, [], Some err)
      | None \<Rightarrow>
          let steps1 = steps[index := start_record nodeID env (steps ! index)]
          in case save_record (se_saveStart env) (se_eventStart env) steps1 of
               (saved1, Some err) \<Rightarrow> (steps1, saved1, Some err)
             | (saved1, None) \<Rightarrow>
                 let steps2 = steps1[index := finish_record env (steps1 ! index)]
                 in (case save_record (se_saveEnd env) (se_eventEnd env) steps2 of
                       (saved2, saveErr) \<Rightarrow>
                         (steps2, saved1 @ [RunCommand index (st_Command (steps ! index))] @ saved2,
                          join_errors (se_run env) saveErr)))"

text \<open>One of the two loops of \<open>nodeStartClaimed\<close>: the steps of a kind, from an index on.\<close>

fun run_kind ::
  "string \<Rightarrow> (nat \<Rightarrow> stepEnv) \<Rightarrow> string \<Rightarrow> nat list \<Rightarrow> BootstrapStep list
     \<Rightarrow> BootstrapStep list \<times> stepEffect list \<times> goError option" where
  "run_kind nodeID env kind [] steps = (steps, [], None)"
| "run_kind nodeID env kind (i # is) steps =
     (if st_Kind (steps ! i) \<noteq> kind then run_kind nodeID env kind is steps
      else case runRecordedBootstrapStep nodeID (env i) steps i of
             (steps1, effects, Some err) \<Rightarrow> (steps1, effects, Some err)
           | (steps1, effects, None) \<Rightarrow>
               (case run_kind nodeID env kind is steps1 of
                  (steps2, effects', r) \<Rightarrow> (steps2, effects @ effects', r)))"

text \<open>
  The execution part of a start: reset, the bootstrap loop unless the bootstrap is complete, the
  validation loop, and the completion mark.
\<close>

definition run_steps ::
  "string \<Rightarrow> (nat \<Rightarrow> stepEnv) \<Rightarrow> (nat \<Rightarrow> stepEnv) \<Rightarrow> gotime \<Rightarrow> nat \<Rightarrow> BootstrapState
     \<Rightarrow> BootstrapState \<times> stepEffect list \<times> goError option" where
  "run_steps nodeID env1 env2 now first b =
     (let bootstrapRan = \<not> bs_Completed b;
          b1 = resetSteps first b;
          indices = [first..<length (bs_Steps b1)]
      in case (if bootstrapRan then run_kind nodeID env1 bootstrap_kind indices (bs_Steps b1)
               else (bs_Steps b1, [], None)) of
           (steps2, effects, Some err) \<Rightarrow> (b1\<lparr>bs_Steps := steps2\<rparr>, effects, Some err)
         | (steps2, effects, None) \<Rightarrow>
             (case run_kind nodeID env2 validation_kind indices steps2 of
                (steps3, effects', Some err) \<Rightarrow> (b1\<lparr>bs_Steps := steps3\<rparr>, effects @ effects', Some err)
              | (steps3, effects', None) \<Rightarrow>
                  (let b3 = b1\<lparr>bs_Steps := steps3\<rparr>
                   in if bootstrapRan then b3\<lparr>bs_Completed := True, bs_CompletedAt := Some now\<rparr> else b3,
                   effects @ effects', None)))"

section \<open>Lemmas\<close>

abbreviation plan_of :: "BootstrapStep list \<Rightarrow> (string \<times> string) list" where
  "plan_of steps \<equiv> map (\<lambda>s. (st_Kind s, st_Command s)) steps"

lemma plan_nth:
  "plan_of xs = plan_of ys \<Longrightarrow> i < length ys \<Longrightarrow>
     st_Kind (xs ! i) = st_Kind (ys ! i) \<and> st_Command (xs ! i) = st_Command (ys ! i)"
  by (metis (no_types, lifting) length_map nth_map prod.inject)

lemma plan_update:
  "i < length xs \<Longrightarrow> st_Kind x = st_Kind (xs ! i) \<Longrightarrow> st_Command x = st_Command (xs ! i) \<Longrightarrow>
     plan_of (xs[i := x]) = plan_of xs"
  by (simp add: map_update list_update_same_conv)

fun commands_of :: "stepEffect list \<Rightarrow> string list" where
  "commands_of [] = []"
| "commands_of (RunCommand i c # es) = c # commands_of es"
| "commands_of (SaveSteps s # es) = commands_of es"

lemma commands_of_append [simp]: "commands_of (xs @ ys) = commands_of xs @ commands_of ys"
  by (induction xs rule: commands_of.induct) auto

text \<open>Every command is preceded by a write of the record that marks its step as running.\<close>

fun write_ahead :: "stepEffect list \<Rightarrow> bool" where
  "write_ahead (SaveSteps s # RunCommand i c # es) =
     (st_State (s ! i) = StepRunning \<and> st_Command (s ! i) = c \<and> write_ahead es)"
| "write_ahead (SaveSteps s # es) = write_ahead es"
| "write_ahead (RunCommand i c # es) = False"
| "write_ahead [] = True"

lemma write_ahead_Save: "write_ahead ys \<Longrightarrow> write_ahead (SaveSteps s # ys)"
  by (cases ys rule: write_ahead.cases) auto

lemma write_ahead_append: "write_ahead xs \<Longrightarrow> write_ahead ys \<Longrightarrow> write_ahead (xs @ ys)"
  by (induction xs rule: write_ahead.induct) (auto intro: write_ahead_Save)

lemma start_record_simps [simp]:
  "st_Kind (start_record n e s) = st_Kind s" "st_Command (start_record n e s) = st_Command s"
  "st_State (start_record n e s) = StepRunning"
  by (simp_all add: start_record_def)

lemma finish_record_simps [simp]:
  "st_Kind (finish_record e s) = st_Kind s" "st_Command (finish_record e s) = st_Command s"
  by (simp_all add: finish_record_def Let_def split: option.splits)

lemma finish_record_succeeded: "se_run e = None \<Longrightarrow> st_State (finish_record e s) = StepSucceeded"
  by (simp add: finish_record_def Let_def)

lemma join_errors_None [simp]: "join_errors a b = None \<longleftrightarrow> a = None \<and> b = None"
  by (auto simp: join_errors_def split: option.splits)

definition step_result ::
  "BootstrapStep list \<Rightarrow> nat list \<Rightarrow> string \<Rightarrow> BootstrapStep list \<times> stepEffect list \<times> goError option \<Rightarrow> bool" where
  "step_result steps is kind res \<longleftrightarrow>
     (case res of (steps', effects, r) \<Rightarrow>
        plan_of steps' = plan_of steps
        \<and> (\<forall>j < length steps. j \<notin> set is \<or> st_Kind (steps ! j) \<noteq> kind \<longrightarrow> steps' ! j = steps ! j)
        \<and> write_ahead effects
        \<and> (r = None \<longrightarrow>
             (\<forall>i \<in> set is. st_Kind (steps ! i) = kind \<longrightarrow> st_State (steps' ! i) = StepSucceeded)
             \<and> commands_of effects =
                 map (\<lambda>i. st_Command (steps ! i)) (filter (\<lambda>i. st_Kind (steps ! i) = kind) is)))"

lemma run_step_result:
  assumes i: "i < length steps" and kind: "st_Kind (steps ! i) = kind"
  shows "step_result steps [i] kind (runRecordedBootstrapStep n env steps i)"
proof -
  let ?s1 = "steps[i := start_record n env (steps ! i)]"
  let ?s2 = "?s1[i := finish_record env (?s1 ! i)]"
  have plan: "plan_of ?s1 = plan_of steps" "plan_of ?s2 = plan_of steps"
    using i by (simp_all add: plan_update del: map_update)
  have other: "j \<noteq> i \<Longrightarrow> ?s1 ! j = steps ! j" "j \<noteq> i \<Longrightarrow> ?s2 ! j = steps ! j" for j
    by simp_all
  have this_step: "st_State (?s1 ! i) = StepRunning" "st_Command (?s1 ! i) = st_Command (steps ! i)"
      "se_run env = None \<Longrightarrow> st_State (?s2 ! i) = StepSucceeded"
    using i by (simp_all add: finish_record_succeeded)
  show ?thesis
    using plan other this_step kind unfolding step_result_def runRecordedBootstrapStep_def save_record_def
    by (auto simp: Let_def split: option.splits)
qed

lemma run_kind_result:
  assumes "distinct is" "\<forall>i \<in> set is. i < length steps"
  shows "step_result steps is kind (run_kind n env kind is steps)"
  using assms
proof (induction "is" arbitrary: steps)
  case Nil
  then show ?case by (simp add: step_result_def)
next
  case (Cons i "is")
  show ?case
  proof (cases "st_Kind (steps ! i) = kind")
    case False
    then show ?thesis using Cons by (fastforce simp: step_result_def split: prod.splits)
  next
    case True
    obtain steps1 eff r where one: "runRecordedBootstrapStep n (env i) steps i = (steps1, eff, r)"
      using prod_cases3 by blast
    have res1: "step_result steps [i] kind (steps1, eff, r)"
      using run_step_result [of i steps kind n "env i"] Cons.prems True by (simp add: one)
    show ?thesis
    proof (cases r)
      case (Some err)
      then show ?thesis using res1 True by (auto simp: one step_result_def)
    next
      case None
      obtain steps2 eff2 r2 where two: "run_kind n env kind is steps1 = (steps2, eff2, r2)"
        using prod_cases3 by blast
      have plan: "plan_of steps1 = plan_of steps" using res1 by (simp add: step_result_def)
      then have len: "length steps1 = length steps" by (metis length_map)
      have same: "st_Kind (steps1 ! j) = st_Kind (steps ! j) \<and> st_Command (steps1 ! j) = st_Command (steps ! j)"
        if "j < length steps" for j
        using plan_nth [OF plan that] .
      have res2: "step_result steps1 is kind (steps2, eff2, r2)"
        using Cons.IH [of steps1] Cons.prems by (simp add: two len)
      have map: "map (\<lambda>j. st_Command (steps1 ! j)) (filter (\<lambda>j. st_Kind (steps1 ! j) = kind) is) =
          map (\<lambda>j. st_Command (steps ! j)) (filter (\<lambda>j. st_Kind (steps ! j) = kind) is)"
        using same Cons.prems(2) by (auto intro!: map_cong filter_cong)
      have i: "i \<notin> set is" "i < length steps" using Cons.prems by auto
      have at_i: "steps2 ! i = steps1 ! i" using res2 i len by (simp add: step_result_def)
      have rest: "steps2 ! j = steps ! j"
        if "j < length steps" "j \<notin> set (i # is) \<or> st_Kind (steps ! j) \<noteq> kind" for j
        using res1 res2 that same [OF that(1)] True len by (auto simp: step_result_def)
      have succ: "st_State (steps2 ! j) = StepSucceeded"
        if "r2 = None" "j \<in> set (i # is)" "st_Kind (steps ! j) = kind" for j
        using that res1 res2 None at_i same Cons.prems(2) True by (auto simp: step_result_def)
      show ?thesis
        using res1 res2 None True map rest succ plan
        by (auto simp: one two step_result_def intro: write_ahead_append)
    qed
  qed
qed

section \<open>The plan and its record\<close>

lemma plan_append_steps:
  "plan_of (appendBootstrapSteps steps cs kind sk si sn) =
     plan_of steps @ map (\<lambda>c. (kind, c)) (filter (\<lambda>c. TrimSpace c \<noteq> []) cs)"
  by (induction steps cs kind sk si sn rule: appendBootstrapSteps.induct) (auto simp: new_step_def)

lemma list_all2_plan:
  "list_all2 (\<lambda>x y. st_Kind x = st_Kind y \<and> st_Command x = st_Command y) xs ys \<longleftrightarrow> plan_of xs = plan_of ys"
  by (auto simp: list_all2_conv_all_nth list_eq_iff_nth_eq)

lemma fallback_steps_update [simp]: "fallback_steps (b\<lparr>bs_Steps := x\<rparr>) = fallback_steps b"
  by (simp add: fallback_steps_def)

lemma ensureSteps_keep:
  assumes "plan_of (bs_Steps b) = plan_of (fallback_steps b)"
  shows "ensureSteps b = b"
proof -
  have "length (fallback_steps b) = length (bs_Steps b)" using arg_cong [OF assms, of length] by simp
  then show ?thesis unfolding ensureSteps_def list_all2_plan Let_def assms by (simp only: if_True simp_thms)
qed

lemma ensureSteps_cases:
  "plan_of (bs_Steps b) = plan_of (fallback_steps b) \<and> ensureSteps b = b
   \<or> (\<exists>steps. ensureSteps b = b\<lparr>bs_Steps := steps\<rparr> \<and> plan_of steps = plan_of (fallback_steps b))"
proof (cases "plan_of (bs_Steps b) = plan_of (fallback_steps b)")
  case True
  with ensureSteps_keep [OF True] show ?thesis by simp
next
  case False
  then have "ensureSteps b = b\<lparr>bs_Steps := (if bs_Completed b
      then map (\<lambda>step. step\<lparr>st_State := StepUnrecorded\<rparr>) (fallback_steps b) else fallback_steps b)\<rparr>"
    unfolding ensureSteps_def list_all2_plan Let_def by (simp only: eq_commute if_False simp_thms)
  then show ?thesis by (auto simp: o_def)
qed

lemma ensureSteps_plan: "plan_of (bs_Steps (ensureSteps b)) = plan_of (fallback_steps b)"
  using ensureSteps_cases [of b] by auto

lemma ensureSteps_frame [simp]:
  "bs_Completed (ensureSteps b) = bs_Completed b" "fallback_steps (ensureSteps b) = fallback_steps b"
  using ensureSteps_cases [of b] by auto

lemma interrupt_step_simps [simp]:
  "st_Kind (interrupt_step s) = st_Kind s" "st_Command (interrupt_step s) = st_Command s"
  "st_State (interrupt_step s) \<noteq> StepRunning"
  by (simp_all add: interrupt_step_def)

lemma prepare_state:
  "prepareSteps resume b = (b0, r) \<Longrightarrow> b0 = interruptRunningSteps (ensureSteps b)"
  by (auto simp: prepareSteps_def Let_def split: if_splits option.splits)

lemma prepare_frame:
  assumes "prepareSteps resume b = (b0, r)"
  shows "bs_Completed b0 = bs_Completed b" "plan_of (bs_Steps b0) = plan_of (fallback_steps b)"
    "fallback_steps b0 = fallback_steps b"
  unfolding prepare_state [OF assms]
  using ensureSteps_plan [of b]
  by (simp_all add: interruptRunningSteps_def o_def)

lemma first_index_Some:
  "first_index P n xs = Some k \<longleftrightarrow>
     n \<le> k \<and> k < n + length xs \<and> P (xs ! (k - n)) \<and> (\<forall>j < k - n. \<not> P (xs ! j))"
proof (induction xs arbitrary: n)
  case (Cons x xs)
  show ?case
  proof (cases "P x")
    case True
    then show ?thesis by (auto simp: not_less_eq_eq intro!: le_antisym dest: spec [of _ 0])
  next
    case False
    then have "first_index P n (x # xs) = Some k \<longleftrightarrow>
        Suc n \<le> k \<and> k < Suc n + length xs \<and> P (xs ! (k - Suc n)) \<and> (\<forall>j < k - Suc n. \<not> P (xs ! j))"
      using Cons by simp
    also have "\<dots> \<longleftrightarrow> n \<le> k \<and> k < n + length (x # xs) \<and> P ((x # xs) ! (k - n))
        \<and> (\<forall>j < k - n. \<not> P ((x # xs) ! j))"
    proof (cases "n < k")
      case True
      then obtain m where "k - n = Suc m" "k - Suc n = m" by (metis Suc_diff_Suc)
      then show ?thesis using True False by (auto simp: less_Suc_eq_0_disj)
    next
      case le: False
      then show ?thesis using False by (cases "n = k") auto
    qed
    finally show ?thesis .
  qed
qed simp

lemma prepare_resume:
  assumes "prepareSteps True b = (b0, Inr k)"
  shows "k < length (bs_Steps b0) \<and> st_State (bs_Steps b0 ! k) \<in> {StepFailed, StepInterrupted}
     \<and> (\<forall>j < k. st_State (bs_Steps b0 ! j) \<notin> {StepFailed, StepInterrupted})
     \<and> (\<not> bs_Completed b0 \<longrightarrow>
          (\<forall>j < k. st_Kind (bs_Steps b0 ! j) = bootstrap_kind \<longrightarrow>
             st_State (bs_Steps b0 ! j) = StepSucceeded))"
proof -
  let ?P = "\<lambda>s. st_State s = StepFailed \<or> st_State s = StepInterrupted"
  have "first_index ?P 0 (bs_Steps b0) = Some k"
    and "\<not> (\<exists>i \<in> set [0..<k]. st_Kind (bs_Steps b0 ! i) = bootstrap_kind
             \<and> st_State (bs_Steps b0 ! i) \<noteq> StepSucceeded \<and> \<not> bs_Completed b0)"
    using assms by (auto simp: prepareSteps_def Let_def split: if_splits option.splits)
  then show ?thesis by (auto simp: first_index_Some)
qed

lemma reset_plan: "plan_of (bs_Steps (resetSteps k b)) = plan_of (bs_Steps b)"
proof -
  have "plan_of (map (reset_step c) xs) = plan_of xs" for c xs by (auto simp: reset_step_def)
  then show ?thesis
    unfolding resetSteps_def using append_take_drop_id [of k "bs_Steps b"]
    by (simp del: map_map) (metis (no_types, lifting) append_take_drop_id map_append)
qed

lemma reset_nth:
  assumes "i < length (bs_Steps b)"
  shows "bs_Steps (resetSteps k b) ! i =
     (if i < k then bs_Steps b ! i else reset_step (bs_Completed b) (bs_Steps b ! i))"
  using assms by (auto simp: resetSteps_def nth_append min_def)

lemma reset_frame [simp]: "bs_Completed (resetSteps k b) = bs_Completed b"
  "length (bs_Steps (resetSteps k b)) = length (bs_Steps b)"
  by (auto simp: resetSteps_def)

abbreviation planned_commands :: "BootstrapStep list \<Rightarrow> nat \<Rightarrow> string \<Rightarrow> string list" where
  "planned_commands steps k kind \<equiv>
     map (\<lambda>i. st_Command (steps ! i)) (filter (\<lambda>i. st_Kind (steps ! i) = kind) [k..<length steps])"

lemma planned_commands_cong:
  "plan_of xs = plan_of ys \<Longrightarrow> planned_commands xs k kind = planned_commands ys k kind"
proof -
  assume plan: "plan_of xs = plan_of ys"
  then have "length xs = length ys" by (metis length_map)
  then show ?thesis using plan_nth [OF plan] by (auto intro!: map_cong filter_cong)
qed

section \<open>Properties\<close>

text \<open>
  Property C10: A start that succeeds leaves truthful evidence. When a start (or a retry, which
  resumes) prepares its steps and executes them without an error, the bootstrap is complete; the
  steps are exactly the plan of the stored commands; every validation step from the first step on
  is recorded as succeeded; and every command ran only after its attempt was written as running.
  If the bootstrap was not complete before, every bootstrap step is recorded as succeeded, and the
  commands executed are those of the plan from the first step on, bootstrap before validation. If
  it was complete before, no bootstrap command is executed, only the validation commands from the
  first step on, and nothing is said of the states of the bootstrap steps.
\<close>

theorem start_success_evidence:
  assumes prep: "prepareSteps resume b = (b0, Inr k)"
    and run: "run_steps n env1 env2 now k b0 = (b', effects, None)"
  shows "bs_Completed b' \<and> plan_of (bs_Steps b') = plan_of (fallback_steps b)
     \<and> (\<not> bs_Completed b \<longrightarrow> (\<forall>i < length (bs_Steps b').
           st_Kind (bs_Steps b' ! i) = bootstrap_kind \<longrightarrow> st_State (bs_Steps b' ! i) = StepSucceeded))
     \<and> (\<forall>i < length (bs_Steps b'). k \<le> i \<and> st_Kind (bs_Steps b' ! i) = validation_kind \<longrightarrow>
           st_State (bs_Steps b' ! i) = StepSucceeded)
     \<and> commands_of effects =
         (if bs_Completed b then [] else planned_commands (fallback_steps b) k bootstrap_kind)
           @ planned_commands (fallback_steps b) k validation_kind
     \<and> write_ahead effects"
proof -
  define s1 where "s1 = bs_Steps (resetSteps k b0)"
  let ?is = "[k..<length s1]"
  have plan1: "plan_of s1 = plan_of (fallback_steps b)"
    using reset_plan [of k b0] prepare_frame(2) [OF prep] by (simp add: s1_def)
  obtain s2 e1 s3 e2 where
    boot: "(if bs_Completed b then (s1, [], None) else run_kind n env1 bootstrap_kind ?is s1) = (s2, e1, None)"
    and val: "run_kind n env2 validation_kind ?is s2 = (s3, e2, None)"
    and res: "bs_Steps b' = s3" "effects = e1 @ e2" "bs_Completed b'"
    using run prepare_frame(1) [OF prep] unfolding run_steps_def s1_def
    by (auto simp: Let_def split: prod.splits option.splits if_splits)
  have r1: "step_result s1 (if bs_Completed b then [] else ?is) bootstrap_kind (s2, e1, None)"
    using boot run_kind_result [of ?is s1 bootstrap_kind n env1]
    by (auto simp: step_result_def split: if_splits)
  have plan2: "plan_of s2 = plan_of s1" using r1 by (simp add: step_result_def)
  then have len: "length s2 = length s1" by (metis length_map)
  have r2: "step_result s2 ?is validation_kind (s3, e2, None)"
    using run_kind_result [of ?is s2 validation_kind n env2] val by (simp add: len)
  then have plan3: "plan_of s3 = plan_of s1" using plan2 by (simp add: step_result_def)
  then have len3: "length s3 = length s1" by (metis length_map)
  have kinds: "st_Kind (s3 ! i) = st_Kind (s1 ! i)" "st_Kind (s2 ! i) = st_Kind (s1 ! i)"
    if "i < length s1" for i
    using plan_nth [OF plan3 that] plan_nth [OF plan2 that] by simp_all
  have early: "st_State (s1 ! i) = StepSucceeded"
    if "i < k" "i < length s1" "st_Kind (s1 ! i) = bootstrap_kind" "\<not> bs_Completed b" for i
  proof -
    have l: "i < length (bs_Steps b0)" using that by (simp add: s1_def)
    have "resume" using prep that(1) by (auto simp: prepareSteps_def Let_def split: if_splits)
    then show ?thesis
      using prepare_resume [of b b0 k] prep prepare_frame(1) [OF prep] that reset_nth [OF l, of k]
      by (auto simp: s1_def)
  qed
  have boot_ok: "st_State (s3 ! i) = StepSucceeded"
    if "i < length s3" "st_Kind (s3 ! i) = bootstrap_kind" "\<not> bs_Completed b" for i
  proof -
    have i: "i < length s1" "st_Kind (s1 ! i) = bootstrap_kind" using that kinds len3 by auto
    have "s3 ! i = s2 ! i" using r2 i kinds len by (auto simp: step_result_def)
    moreover have "st_State (s2 ! i) = StepSucceeded"
    proof (cases "i < k")
      case True
      then show ?thesis using r1 early [OF True i that(3)] i that(3) by (auto simp: step_result_def)
    next
      case False
      then show ?thesis using r1 i that(3) by (auto simp: step_result_def)
    qed
    ultimately show ?thesis by simp
  qed
  have val_ok: "st_State (s3 ! i) = StepSucceeded"
    if "i < length s3" "k \<le> i" "st_Kind (s3 ! i) = validation_kind" for i
    using r2 that kinds len3 len by (auto simp: step_result_def)
  have cmds: "commands_of effects =
      (if bs_Completed b then [] else planned_commands s1 k bootstrap_kind)
        @ planned_commands s2 k validation_kind"
    using r1 r2 len by (auto simp: step_result_def res)
  show ?thesis
    using boot_ok val_ok cmds plan3 plan1 plan2 res r1 r2
      planned_commands_cong [OF plan1] planned_commands_cong [of s2 "fallback_steps b"]
    by (auto simp: step_result_def intro: write_ahead_append)
qed

definition sample_bootstrap :: BootstrapState where
  "sample_bootstrap = \<lparr>bs_AgentProfileName = ''codex'', bs_InstallCommands = [''install''],
     bs_BootstrapCommands = [''make'', '' ''], bs_ValidationCommand = ''check'', bs_LaunchCommand = ''codex'',
     bs_Environment = [], bs_Completed = False, bs_CompletedAt = None, bs_Steps = []\<rparr>"

definition sample_env :: "goError option \<Rightarrow> stepEnv" where
  "sample_env r = \<lparr>se_ctxErr = None, se_started = 5, se_finished = 9, se_attemptID = ''a1'',
     se_saveStart = None, se_eventStart = None, se_run = r, se_exit = None, se_ctxDone = False,
     se_saveEnd = None, se_eventEnd = None\<rparr>"

theorem start_success_evidence_witness:
  "\<exists>b0 b' effects. prepareSteps False sample_bootstrap = (b0, Inr 0)
     \<and> run_steps ''n1'' (\<lambda>_. sample_env None) (\<lambda>_. sample_env None) 9 0 b0 = (b', effects, None)
     \<and> bs_Completed b' \<and> write_ahead effects"
proof -
  obtain b0 where p: "prepareSteps False sample_bootstrap = (b0, Inr 0)"
    by (simp add: prepareSteps_def Let_def)
  have "\<exists>b' effects. run_steps ''n1'' (\<lambda>_. sample_env None) (\<lambda>_. sample_env None) 9 0
      (fst (prepareSteps False sample_bootstrap)) = (b', effects, None)"
  proof -
    have "snd (snd (run_steps ''n1'' (\<lambda>_. sample_env None) (\<lambda>_. sample_env None) 9 0
        (fst (prepareSteps False sample_bootstrap)))) = None" by code_simp
    then show ?thesis by (metis prod.collapse)
  qed
  then obtain b' effects where
    r: "run_steps ''n1'' (\<lambda>_. sample_env None) (\<lambda>_. sample_env None) 9 0 b0 = (b', effects, None)"
    unfolding p by auto
  from start_success_evidence [OF p r] p r show ?thesis by blast
qed

section \<open>Retrying after a failure\<close>










end
