(* ===== verification/OperationPhases.thy ===== *)
theory OperationPhases
  imports BootstrapSteps
begin

text \<open>
  The records of lifecycle operations (\<^verbatim>\<open>node_operations.go\<close>, \<^verbatim>\<open>node_batch.go\<close>,
  \<^verbatim>\<open>environment_test_run.go\<close>) and their phases, \<^verbatim>\<open>node_operation_phases.go\<close>, with the progress summary
  of \<^verbatim>\<open>node_operation_progress.go\<close>. The theory proves that an operation's phases tell a consistent
  story at every moment: one phase runs, it is the current one, and no duration is invented.
\<close>

section \<open>Records\<close>

record NodeCreateInput =
  ci_Start :: bool
  ci_Configuration :: string
  ci_Directory :: string
  ci_Slug :: string
  ci_Runtime :: string
  ci_Provider :: string
  ci_WorkspaceMode :: string
  ci_Ports :: "string list"
  ci_ImportHostAuth :: "bool option"

record NodeCloneInput =
  cl_SourceNode :: string
  cl_NodeSlug :: string
  cl_Start :: bool

record NodeBatchTarget =
  bt_NodeID :: string
  bt_NodeSlug :: string
  bt_Kind :: string

record NodeBatchMember = NodeBatchTarget +
  bm_OperationID :: string
  bm_State :: string
  bm_Error :: string

record NodeBatchState =
  nb_Members :: "NodeBatchMember list"
  nb_Total :: nat
  nb_Queued :: nat
  nb_Running :: nat
  nb_Succeeded :: nat
  nb_Failed :: nat
  nb_Canceled :: nat
  nb_Interrupted :: nat

text \<open>After the manager's copy through JSON an empty batch is absent, so the list suffices.\<close>

record NodeOperationRequest =
  rq_Environment :: string
  rq_Origin :: string
  rq_ID :: string
  rq_Kind :: string
  rq_Node :: string
  rq_Create :: "NodeCreateInput option"
  rq_Clone :: "NodeCloneInput option"
  rq_Batch :: "NodeBatchTarget list"

record EnvironmentTestPlan =
  tp_Node :: Node
  tp_Bootstrap :: BootstrapState

record EnvironmentTestState =
  et_EnvironmentID :: string
  et_EnvironmentSlug :: string
  et_Plan :: "EnvironmentTestPlan option"
  et_CleanupPending :: bool
  et_CleanupError :: string
  et_Outcome :: string
  et_Error :: string
  et_ErrorCode :: int
  et_ErrorCategory :: string

record NodeOperationResult =
  re_NodeID :: string
  re_NodeSlug :: string
  re_Status :: NodeStatus

record NodeOperationProgress =
  pg_Total :: nat
  pg_Completed :: nat
  pg_Phase :: string
  pg_Detail :: string

record NodeOperationPhase =
  ph_ID :: string
  ph_Label :: string
  ph_State :: string
  ph_Detail :: string
  ph_StartedAt :: "gotime option"
  ph_FinishedAt :: "gotime option"

record NodeOperation =
  op_Batch :: "NodeBatchState option"
  op_BatchID :: string
  op_EnvironmentTest :: "EnvironmentTestState option"
  op_Progress :: "NodeOperationProgress option"
  op_ID :: string
  op_Request :: NodeOperationRequest
  op_NodeID :: string
  op_NodeSlug :: string
  op_State :: string
  op_CreatedAt :: gotime
  op_FinishedAt :: "gotime option"
  op_Error :: string
  op_ErrorCode :: int
  op_ErrorCategory :: string
  op_Result :: "NodeOperationResult option"
  op_Output :: "string list"
  op_OutputStart :: u64
  op_OutputPartial :: string
  op_CurrentPhase :: string
  op_Phases :: "NodeOperationPhase list"

section \<open>Starting requests\<close>

definition request_startsNode :: "NodeOperationRequest \<Rightarrow> bool" where
  "request_startsNode r \<longleftrightarrow>
     rq_Kind r = ''start'' \<or> rq_Kind r = ''retry'' \<or> rq_Kind r = ''restart''
     \<or> (rq_Kind r = ''create'' \<and> (case rq_Create r of Some c \<Rightarrow> ci_Start c | None \<Rightarrow> False))
     \<or> (rq_Kind r = ''clone'' \<and> (case rq_Clone r of Some c \<Rightarrow> cl_Start c | None \<Rightarrow> False))"

definition startsNode :: "NodeOperation \<Rightarrow> bool" where
  "startsNode o' \<longleftrightarrow>
     request_startsNode (op_Request o')
     \<and> (rq_Kind (op_Request o') \<noteq> ''clone''
        \<or> (op_CurrentPhase o' \<noteq> [] \<and> op_CurrentPhase o' \<noteq> ''clone''))"

section \<open>Phases\<close>

definition pending_phase :: "string \<Rightarrow> string \<Rightarrow> NodeOperationPhase" where
  "pending_phase i label = \<lparr>ph_ID = i, ph_Label = label, ph_State = ''pending'', ph_Detail = [],
     ph_StartedAt = None, ph_FinishedAt = None\<rparr>"

definition start_phases :: "NodeOperationPhase list" where
  "start_phases =
     [pending_phase ''prepare'' ''Prepare'', pending_phase ''boot'' ''Boot'',
      pending_phase ''credentials'' ''Host credentials'', pending_phase ''workspace'' ''Workspace'',
      pending_phase ''bootstrap'' ''Bootstrap'', pending_phase ''validation'' ''Validate agent'',
      pending_phase ''ready'' ''Ready'']"

definition single_phase :: "string \<Rightarrow> NodeOperationPhase list" where
  "single_phase kind =
     (if kind = ''create'' then [pending_phase kind ''Create VM'']
      else if kind = ''stop'' then [pending_phase kind ''Stop VM'']
      else if kind = ''delete'' then [pending_phase kind ''Delete VM'']
      else if kind = ''clone'' then [pending_phase kind ''Clone VM'']
      else [])"

definition initialNodeOperationPhases :: "string \<Rightarrow> NodeOperationPhase list" where
  "initialNodeOperationPhases kind =
     (if kind = ''restart'' then single_phase ''stop'' @ start_phases
      else if kind = ''test-environment''
      then single_phase ''create'' @ start_phases @ [pending_phase ''cleanup'' ''Delete test VM'']
      else if kind = ''start'' \<or> kind = ''retry'' then start_phases
      else single_phase kind)"

text \<open>The phases of a new operation, as \<open>Submit\<close> composes them.\<close>

definition submitted_phases :: "NodeOperationRequest \<Rightarrow> NodeOperationPhase list" where
  "submitted_phases request =
     initialNodeOperationPhases (rq_Kind request)
     @ (if (rq_Kind request = ''create'' \<or> rq_Kind request = ''clone'') \<and> request_startsNode request
        then initialNodeOperationPhases ''start'' else [])"

datatype phaseError = ContextCanceled | UnknownPhase string | PersistFailed goError

definition finish_previous :: "gotime \<Rightarrow> NodeOperationPhase \<Rightarrow> NodeOperationPhase" where
  "finish_previous now phase =
     (if ph_State phase = ''running''
      then phase\<lparr>ph_State := ''succeeded'', ph_FinishedAt := Some now\<rparr> else phase)"

definition enter_phase :: "gotime \<Rightarrow> string \<Rightarrow> bool \<Rightarrow> NodeOperationPhase \<Rightarrow> NodeOperationPhase" where
  "enter_phase now detail skipped phase =
     (let phase = phase\<lparr>ph_Detail := boundedOperationText detail 1024\<rparr>
      in if skipped
         then phase\<lparr>ph_State := ''skipped'', ph_StartedAt := None, ph_FinishedAt := None\<rparr>
         else phase\<lparr>ph_StartedAt := (if ph_State phase \<noteq> ''running'' then Some now else ph_StartedAt phase),
                    ph_State := ''running'', ph_FinishedAt := None\<rparr>)"

definition advancePhase ::
  "(NodeOperation \<Rightarrow> goError option) \<Rightarrow> gotime \<Rightarrow> string \<Rightarrow> string \<Rightarrow> bool \<Rightarrow> NodeOperation
     \<Rightarrow> NodeOperation \<times> phaseError option" where
  "advancePhase persist now phaseID detail skipped record =
     (if op_State record \<noteq> ''running''
         \<and> \<not> (phaseID = ''cleanup'' \<and> op_EnvironmentTest record \<noteq> None \<and> op_State record = ''canceling'')
      then (record, Some ContextCanceled)
      else case first_index (\<lambda>p. ph_ID p = phaseID) 0 (op_Phases record) of
             None \<Rightarrow> (record, Some (UnknownPhase phaseID))
           | Some index \<Rightarrow>
               let phases = map (\<lambda>i. if i \<noteq> index then finish_previous now (op_Phases record ! i)
                                    else op_Phases record ! i) [0..<length (op_Phases record)];
                   record = record\<lparr>op_Phases := phases[index := enter_phase now detail skipped (phases ! index)],
                                   op_CurrentPhase := phaseID\<rparr>
               in (record, case persist record of Some err \<Rightarrow> Some (PersistFailed err) | None \<Rightarrow> None))"

definition finish_phase :: "string \<Rightarrow> gotime option \<Rightarrow> NodeOperationPhase \<Rightarrow> NodeOperationPhase" where
  "finish_phase state finished phase =
     (if ph_State phase \<noteq> ''running'' then phase
      else phase\<lparr>ph_State := state,
                 ph_FinishedAt := (if state = ''interrupted'' then None else finished)\<rparr>)"

definition finishNodeOperationPhases :: "string \<Rightarrow> gotime option \<Rightarrow> NodeOperation \<Rightarrow> NodeOperation" where
  "finishNodeOperationPhases state finished record =
     record\<lparr>op_Phases := map (finish_phase state finished) (op_Phases record)\<rparr>"

section \<open>The batch counters and the progress summary\<close>

definition count_state :: "NodeBatchMember list \<Rightarrow> string set \<Rightarrow> nat" where
  "count_state members states = length (filter (\<lambda>m. bm_State m \<in> states) members)"

definition recount :: "NodeBatchState \<Rightarrow> NodeBatchState" where
  "recount b =
     (let members = nb_Members b
      in \<lparr>nb_Members = members, nb_Total = length members,
          nb_Queued = count_state members {''queued''},
          nb_Running = count_state members {''running'', ''canceling''},
          nb_Succeeded = count_state members {''succeeded''},
          nb_Failed = count_state members {''failed''},
          nb_Canceled = count_state members {''canceled''},
          nb_Interrupted = count_state members {''interrupted''}\<rparr>)"

text \<open>
  \<open>summary\<close> is the formatted line of the counters; the rendering of a phase label
  (\<^verbatim>\<open>plainLogText\<close>) is an argument.
\<close>

definition phase_done :: "NodeOperationPhase \<Rightarrow> bool" where
  "phase_done p \<longleftrightarrow> ph_State p = ''succeeded'' \<or> ph_State p = ''skipped''"

definition summarizeNodeOperationProgress ::
  "(string \<Rightarrow> string) \<Rightarrow> (NodeBatchState \<Rightarrow> string) \<Rightarrow> NodeOperation \<Rightarrow> NodeOperationProgress option" where
  "summarizeNodeOperationProgress plainLogText summary record =
     (case op_Batch record of
        Some b \<Rightarrow> Some \<lparr>pg_Total = nb_Total b, pg_Completed = nb_Total b - nb_Queued b - nb_Running b,
                       pg_Phase = ''Batch'', pg_Detail = summary b\<rparr>
      | None \<Rightarrow>
          if op_Phases record = [] then None
          else let current = filter (\<lambda>p. ph_ID p = op_CurrentPhase record) (op_Phases record)
               in Some \<lparr>pg_Total = length (op_Phases record),
                        pg_Completed = length (filter phase_done (op_Phases record)),
                        pg_Phase = (if current = [] then []
                          else boundedOperationText (plainLogText (ph_Label (last current))) 64),
                        pg_Detail = (if current = [] then []
                          else boundedOperationText (plainLogText (ph_Detail (last current))) 1024)\<rparr>)"

section \<open>The invariant of an operation's phases\<close>

definition phase_ok :: "gotime \<Rightarrow> NodeOperationPhase \<Rightarrow> bool" where
  "phase_ok t p \<longleftrightarrow>
     (ph_State p \<in> {''pending'', ''skipped''} \<and> ph_StartedAt p = None \<and> ph_FinishedAt p = None)
     \<or> (ph_State p = ''running'' \<and> (\<exists>a \<le> t. ph_StartedAt p = Some a) \<and> ph_FinishedAt p = None)
     \<or> (ph_State p = ''succeeded''
        \<and> (\<exists>a b. ph_StartedAt p = Some a \<and> ph_FinishedAt p = Some b \<and> a \<le> b \<and> b \<le> t))"

definition phases_inv :: "string list \<Rightarrow> gotime \<Rightarrow> NodeOperation \<Rightarrow> bool" where
  [inv_defs]: "phases_inv ids t r \<longleftrightarrow>
     map ph_ID (op_Phases r) = ids \<and> (\<forall>p \<in> set (op_Phases r). phase_ok t p)
     \<and> (\<forall>p \<in> set (op_Phases r). ph_State p = ''running'' \<longrightarrow> ph_ID p = op_CurrentPhase r)"

lemma phase_ok_mono: "phase_ok t p \<Longrightarrow> t \<le> u \<Longrightarrow> phase_ok u p"
  by (fastforce simp: phase_ok_def)

lemma finish_previous_ok:
  "phase_ok t p \<Longrightarrow> t \<le> now \<Longrightarrow> phase_ok now (finish_previous now p)
     \<and> ph_State (finish_previous now p) \<noteq> ''running'' \<and> ph_ID (finish_previous now p) = ph_ID p"
  by (auto simp: phase_ok_def finish_previous_def)

lemma enter_phase_ok:
  "phase_ok t p \<Longrightarrow> t \<le> now \<Longrightarrow> phase_ok now (enter_phase now d s p)
     \<and> ph_ID (enter_phase now d s p) = ph_ID p"
  by (auto simp: phase_ok_def enter_phase_def Let_def)

lemma advance_inv:
  assumes inv: "phases_inv ids t r" and now: "t \<le> now"
  shows "phases_inv ids now (fst (advancePhase persist now i d s r))"
proof (cases "fst (advancePhase persist now i d s r) = r")
  case True
  then show ?thesis using inv phase_ok_mono [OF _ now] by (auto simp: phases_inv_def)
next
  case False
  then obtain index where index: "first_index (\<lambda>p. ph_ID p = i) 0 (op_Phases r) = Some index"
    by (auto simp: advancePhase_def split: if_splits option.splits)
  define ps where "ps = map (\<lambda>k. if k \<noteq> index then finish_previous now (op_Phases r ! k)
      else op_Phases r ! k) [0..<length (op_Phases r)]"
  let ?ps = "ps[index := enter_phase now d s (ps ! index)]"
  have "\<not> (op_State r \<noteq> ''running''
      \<and> \<not> (i = ''cleanup'' \<and> op_EnvironmentTest r \<noteq> None \<and> op_State r = ''canceling''))"
    (is "\<not> ?stop")
  proof
    assume ?stop
    then have "fst (advancePhase persist now i d s r) = r"
      unfolding advancePhase_def by (simp only: if_True fst_conv simp_thms)
    with False show False by simp
  qed
  then have "fst (advancePhase persist now i d s r) = r\<lparr>op_Phases := ?ps, op_CurrentPhase := i\<rparr>"
    unfolding advancePhase_def index ps_def by (simp only: if_False option.case Let_def fst_conv)
  then have r': "op_Phases (fst (advancePhase persist now i d s r)) = ?ps"
      "op_CurrentPhase (fst (advancePhase persist now i d s r)) = i"
    by simp_all
  have ix: "index < length (op_Phases r)" "ph_ID (op_Phases r ! index) = i"
    using index by (auto simp: first_index_Some)
  have len: "length ?ps = length (op_Phases r)" by (simp add: ps_def)
  have nth: "?ps ! k = (if k = index then enter_phase now d s (op_Phases r ! k)
      else finish_previous now (op_Phases r ! k))" if "k < length (op_Phases r)" for k
    using that ix by (auto simp: ps_def nth_list_update)
  have ok: "phase_ok t (op_Phases r ! k)" if "k < length (op_Phases r)" for k
    using inv that by (simp add: phases_inv_def)
  have each: "phase_ok now (?ps ! k) \<and> ph_ID (?ps ! k) = ph_ID (op_Phases r ! k)
      \<and> (ph_State (?ps ! k) = ''running'' \<longrightarrow> k = index)" if "k < length (op_Phases r)" for k
    using nth [OF that] finish_previous_ok [OF ok [OF that] now] enter_phase_ok [OF ok [OF that] now, of d s]
    by auto
  have "map ph_ID ?ps = ids"
    using each inv len unfolding phases_inv_def by (metis (no_types, lifting) length_map nth_equalityI nth_map)
  moreover have "phase_ok now p \<and> (ph_State p = ''running'' \<longrightarrow> ph_ID p = i)" if "p \<in> set ?ps" for p
    using that each len ix by (metis in_set_conv_nth)
  ultimately show ?thesis unfolding phases_inv_def r' by blast
qed

type_synonym phaseCall = "gotime \<times> string \<times> string \<times> bool"

definition advance_all ::
  "(NodeOperation \<Rightarrow> goError option) \<Rightarrow> phaseCall list \<Rightarrow> NodeOperation \<Rightarrow> NodeOperation" where
  "advance_all persist calls r =
     foldl (\<lambda>r (now, i, d, s). fst (advancePhase persist now i d s r)) r calls"

lemma advance_all_inv:
  "phases_inv ids t r \<Longrightarrow> sorted (t # map fst calls) \<Longrightarrow>
     phases_inv ids (last (t # map fst calls)) (advance_all persist calls r)"
proof (induction calls arbitrary: t r)
  case Nil
  then show ?case by (simp add: advance_all_def)
next
  case (Cons c calls)
  obtain now i d s where c: "c = (now, i, d, s)" using prod_cases4 by blast
  have "phases_inv ids now (fst (advancePhase persist now i d s r))"
    using Cons.prems by (intro advance_inv) (auto simp: c)
  from Cons.IH [OF this] Cons.prems show ?case by (simp add: c advance_all_def)
qed

lemma pending_phase_simps [simp]:
  "ph_ID (pending_phase i l) = i" "ph_State (pending_phase i l) = ''pending''"
  "ph_StartedAt (pending_phase i l) = None" "ph_FinishedAt (pending_phase i l) = None"
  by (simp_all add: pending_phase_def)

lemma start_phases_ids: "map ph_ID start_phases =
    [''prepare'', ''boot'', ''credentials'', ''workspace'', ''bootstrap'', ''validation'', ''ready'']"
  by (simp add: start_phases_def)

lemma single_phase_ids:
  "map ph_ID (single_phase k) = (if k \<in> {''create'', ''stop'', ''delete'', ''clone''} then [k] else [])"
  by (simp add: single_phase_def)

lemma submitted_phases_distinct: "distinct (map ph_ID (submitted_phases request))"
proof -
  consider "rq_Kind request = ''restart''" | "rq_Kind request = ''test-environment''"
    | "rq_Kind request \<in> {''start'', ''retry''}" | "rq_Kind request \<in> {''create'', ''clone''}"
    | "rq_Kind request \<in> {''stop'', ''delete''}"
    | "rq_Kind request \<notin> {''restart'', ''test-environment'', ''start'', ''retry'', ''create'', ''stop'', ''delete'', ''clone''}"
    by blast
  then show ?thesis
    by cases (auto simp: submitted_phases_def initialNodeOperationPhases_def start_phases_ids single_phase_ids
        simp del: set_map)
qed

definition untouched :: "NodeOperationPhase \<Rightarrow> bool" where
  "untouched p \<longleftrightarrow> ph_State p = ''pending'' \<and> ph_StartedAt p = None \<and> ph_FinishedAt p = None"

lemma untouched_phases:
  "list_all untouched start_phases" "list_all untouched (single_phase k)"
  by (simp_all add: start_phases_def single_phase_def untouched_def)

lemma submitted_phases_ok: "p \<in> set (submitted_phases request) \<Longrightarrow> phase_ok t p \<and> ph_State p = ''pending''"
proof -
  have "list_all untouched (submitted_phases request)"
    by (simp add: submitted_phases_def initialNodeOperationPhases_def untouched_phases,
        simp add: untouched_def)
  then show "p \<in> set (submitted_phases request) \<Longrightarrow> ?thesis"
    by (auto simp: list_all_iff untouched_def phase_ok_def)
qed

lemma single_match:
  "distinct (map f xs) \<Longrightarrow> (\<And>x. x \<in> set xs \<Longrightarrow> P x \<Longrightarrow> f x = c) \<Longrightarrow> length (filter P xs) \<le> 1"
proof (induction xs)
  case (Cons x xs)
  show ?case
  proof (cases "P x")
    case True
    then have "filter P xs = []" using Cons.prems by (force simp: filter_empty_conv image_iff)
    with True show ?thesis by simp
  qed (use Cons in auto)
qed simp

section \<open>Properties\<close>

text \<open>
  The phases of an operation are consistent at every moment. Start from the phases
  that a submission composes and apply any sequence of phase changes in the order of the clock,
  whether or not their records could be written. The phases stay the same ones in the same
  order; at most one is running, and it is the current phase; a pending or skipped phase has no
  times, a running one only a start, and a succeeded one finished no earlier than it started.
  Finishing the operation leaves no phase running, and an interrupted phase gets no end.
\<close>

theorem phases_consistent:
  assumes "op_Phases r = submitted_phases (op_Request r)"
    and "sorted (map fst (calls :: phaseCall list))" "r' = advance_all persist calls r"
  shows "map ph_ID (op_Phases r') = map ph_ID (submitted_phases (op_Request r))
     \<and> length (filter (\<lambda>p. ph_State p = ''running'') (op_Phases r')) \<le> 1
     \<and> (\<forall>p \<in> set (op_Phases r'). (ph_State p = ''running'' \<longrightarrow> ph_ID p = op_CurrentPhase r')
          \<and> (\<exists>t. phase_ok t p))
     \<and> (\<forall>p \<in> set (op_Phases (finishNodeOperationPhases ''interrupted'' now r')).
          ph_State p \<noteq> ''running'' \<and> (ph_State p = ''interrupted'' \<longrightarrow> ph_FinishedAt p = None))"
proof -
  let ?ids = "map ph_ID (submitted_phases (op_Request r))"
  obtain t where t: "sorted (t # map fst calls)"
    using assms(2) by (cases calls) (auto intro: that [of "fst (hd calls)"])
  have "phases_inv ?ids t r"
    using submitted_phases_ok by (auto simp: phases_inv_def assms(1))
  from advance_all_inv [OF this t, of persist] have inv: "phases_inv ?ids (last (t # map fst calls)) r'"
    by (simp add: assms(3))
  then have ids: "map ph_ID (op_Phases r') = ?ids" by (simp add: phases_inv_def)
  have run: "p \<in> set (op_Phases r') \<Longrightarrow> ph_State p = ''running'' \<Longrightarrow> ph_ID p = op_CurrentPhase r'" for p
    using inv by (simp add: phases_inv_def)
  have "distinct (map ph_ID (op_Phases r'))" unfolding ids by (rule submitted_phases_distinct)
  then have one: "length (filter (\<lambda>p. ph_State p = ''running'') (op_Phases r')) \<le> 1"
    by (rule single_match) (rule run)
  have "\<forall>p \<in> set (op_Phases (finishNodeOperationPhases ''interrupted'' now r')).
      ph_State p \<noteq> ''running'' \<and> (ph_State p = ''interrupted'' \<longrightarrow> ph_FinishedAt p = None)"
    using inv by (auto simp: finishNodeOperationPhases_def finish_phase_def phases_inv_def phase_ok_def)
  then show ?thesis using ids one inv unfolding phases_inv_def by blast
qed

definition sample_request :: NodeOperationRequest where
  "sample_request = \<lparr>rq_Environment = [], rq_Origin = ''cli'', rq_ID = ''o1'', rq_Kind = ''restart'',
     rq_Node = ''n1'', rq_Create = None, rq_Clone = None, rq_Batch = []\<rparr>"

definition sample_operation :: NodeOperation where
  "sample_operation = \<lparr>op_Batch = None, op_BatchID = [], op_EnvironmentTest = None, op_Progress = None,
     op_ID = ''o1'', op_Request = sample_request, op_NodeID = ''n1'', op_NodeSlug = ''dev'',
     op_State = ''running'', op_CreatedAt = 3, op_FinishedAt = None, op_Error = [], op_ErrorCode = 0,
     op_ErrorCategory = [], op_Result = None, op_Output = [], op_OutputStart = 0, op_OutputPartial = [],
     op_CurrentPhase = [], op_Phases = submitted_phases sample_request\<rparr>"

theorem phases_consistent_witness:
  "length (filter (\<lambda>p. ph_State p = ''running'') (op_Phases (advance_all (\<lambda>_. None)
     [(4, ''stop'', [], False), (6, ''boot'', ''booting'', False)] sample_operation))) \<le> 1"
proof -
  have "op_Phases sample_operation = submitted_phases (op_Request sample_operation)"
    by (simp add: sample_operation_def)
  from phases_consistent [OF this _ refl, of "[(4, ''stop'', [], False), (6, ''boot'', ''booting'', False)]"
      "\<lambda>_. None"]
  show ?thesis by simp
qed

end
