(* ===== verification/OperationOutput.thy ===== *)
theory OperationOutput
  imports OperationPhases
begin

text \<open>
  The bounded tail of a command's output, \<^verbatim>\<open>node_operation_output.go\<close>: splitting the stream into
  lines, clipping long lines, keeping the newest lines within the limits, and saving the tail in
  the operation's record. The theory proves the limits for every stream, and that the retained
  lines are the newest of the stream, numbered by their position in it.
\<close>

section \<open>The writer\<close>

record nodeOperationOutput =
  wo_lines :: "string list"
  wo_partial :: string
  wo_clipped :: bool
  wo_bytes :: int
  wo_next :: u64
  wo_version :: u64
  wo_saved :: u64
  wo_err :: "goError option"

definition operationOutputLines :: nat where "operationOutputLines = 200"
definition operationOutputBytes :: int where "operationOutputBytes = 32 * 2 ^ 10"
definition operationOutputLineBytes :: nat where "operationOutputLineBytes = 4096"

lemmas output_limits = operationOutputLines_def operationOutputBytes_def operationOutputLineBytes_def

definition lines_bytes :: "string list \<Rightarrow> int" where
  "lines_bytes ls = (\<Sum>l \<leftarrow> ls. int (length l))"

definition newNodeOperationOutput :: "NodeOperation \<Rightarrow> nodeOperationOutput" where
  "newNodeOperationOutput record =
     \<lparr>wo_lines = op_Output record, wo_partial = op_OutputPartial record, wo_clipped = False,
      wo_bytes = lines_bytes (op_Output record),
      wo_next = op_OutputStart record + word_of_nat (length (op_Output record)),
      wo_version = 0, wo_saved = 0, wo_err = None\<rparr>"

definition partial_limit :: nat where
  "partial_limit = operationOutputLineBytes - length ellipsis"

definition appendPartial :: "nodeOperationOutput \<Rightarrow> string \<Rightarrow> nodeOperationOutput" where
  "appendPartial w data =
     (if length data \<ge> partial_limit
      then w\<lparr>wo_partial := drop (length data - partial_limit) data, wo_clipped := True\<rparr>
      else let excess = length (wo_partial w) + length data - partial_limit;
               w = (if excess > 0
                    then w\<lparr>wo_partial := drop excess (wo_partial w), wo_clipped := True\<rparr> else w)
           in w\<lparr>wo_partial := wo_partial w @ data\<rparr>)"

text \<open>The loop of \<open>partialText\<close>: from \<open>start\<close> to the next byte that starts a rune.\<close>

fun skip_to_rune :: "string \<Rightarrow> string" where
  "skip_to_rune [] = []"
| "skip_to_rune (c # cs) = (if RuneStart c then c # cs else skip_to_rune cs)"

definition partialText :: "nodeOperationOutput \<Rightarrow> string" where
  "partialText w =
     (let text = ToValidUTF8 (wo_partial w);
          text = (if wo_clipped w then ellipsis @ text else text)
      in if length text > operationOutputLineBytes
         then ellipsis @ skip_to_rune
                (drop (length text - operationOutputLineBytes + length ellipsis) text)
         else text)"

definition line_limit :: "nodeOperationOutput \<Rightarrow> nat" where
  "line_limit w = (if length (wo_partial w) > 0 then operationOutputLines - 1 else operationOutputLines)"

fun trim_lines :: "nat \<Rightarrow> int \<Rightarrow> string list \<Rightarrow> int \<Rightarrow> string list \<times> int" where
  "trim_lines limit partial [] used = ([], used)"
| "trim_lines limit partial (l # ls) used =
     (if length (l # ls) > limit \<or> used + partial > operationOutputBytes
      then trim_lines limit partial ls (used - int (length l)) else (l # ls, used))"

definition trim_output :: "nodeOperationOutput \<Rightarrow> nodeOperationOutput" where
  "trim_output w =
     (case trim_lines (line_limit w) (int (length (partialText w))) (wo_lines w) (wo_bytes w) of
        (ls, used) \<Rightarrow> w\<lparr>wo_lines := ls, wo_bytes := used\<rparr>)"

definition end_of_line :: "char \<Rightarrow> bool" where
  "end_of_line c \<longleftrightarrow> c = CHR 0x0D \<or> c = CHR 0x0A"

definition finish_line :: "nodeOperationOutput \<Rightarrow> nodeOperationOutput" where
  "finish_line w =
     (let line = partialText w
      in w\<lparr>wo_lines := wo_lines w @ [line], wo_bytes := wo_bytes w + int (length line),
           wo_next := wo_next w + 1, wo_partial := [], wo_clipped := False\<rparr>)"

function write_loop :: "nodeOperationOutput \<Rightarrow> string \<Rightarrow> nodeOperationOutput" where
  "write_loop w data =
     (if data = [] then w
      else if \<exists>c \<in> set data. end_of_line c
      then write_loop
             (trim_output (finish_line (appendPartial w (takeWhile (\<lambda>c. \<not> end_of_line c) data))))
             (tl (dropWhile (\<lambda>c. \<not> end_of_line c) data))
      else appendPartial w data)"
  by pat_completeness auto
termination
proof (relation "measure (\<lambda>(w, data). length data)")
  fix w :: nodeOperationOutput and data :: string
  assume "data \<noteq> []"
  then have "length (tl (dropWhile (\<lambda>c. \<not> end_of_line c) data)) < length data"
    using length_dropWhile_le [of "\<lambda>c. \<not> end_of_line c" data]
    by (metis Suc_pred' length_greater_0_conv length_tl less_Suc_eq_le diff_le_mono)
  then show "((trim_output (finish_line (appendPartial w (takeWhile (\<lambda>c. \<not> end_of_line c) data))),
      tl (dropWhile (\<lambda>c. \<not> end_of_line c) data)), w, data) \<in> measure (\<lambda>(w, data). length data)"
    by simp
qed simp

declare write_loop.simps [simp del]

definition Write :: "nodeOperationOutput \<Rightarrow> string \<Rightarrow> nodeOperationOutput \<times> nat" where
  "Write w data =
     (if length data = 0 then (w, 0)
      else (trim_output (write_loop (w\<lparr>wo_version := wo_version w + 1\<rparr>) data), length data))"

definition flush ::
  "(NodeOperation \<Rightarrow> goError option) \<Rightarrow> nodeOperationOutput \<Rightarrow> NodeOperation
     \<Rightarrow> nodeOperationOutput \<times> NodeOperation \<times> goError option" where
  "flush persist w record =
     (if wo_saved w = wo_version w then (w, record, None)
      else let record = record\<lparr>op_Output := wo_lines w,
                 op_OutputStart := wo_next w - word_of_nat (length (wo_lines w)),
                 op_OutputPartial := partialText w\<rparr>;
               err = persist record
           in (if err = None then w\<lparr>wo_saved := wo_version w\<rparr> else w, record, err))"

definition Close_output ::
  "(NodeOperation \<Rightarrow> goError option) \<Rightarrow> nodeOperationOutput \<Rightarrow> NodeOperation
     \<Rightarrow> nodeOperationOutput \<times> NodeOperation \<times> goError option" where
  "Close_output persist w record =
     (case flush persist w record of (w, record, err) \<Rightarrow> (w, record, join_errors (wo_err w) err))"

section \<open>The limits\<close>

definition trimmed :: "nat \<Rightarrow> int \<Rightarrow> string list \<Rightarrow> bool" where
  "trimmed limit partial ls \<longleftrightarrow> length ls > limit \<or> lines_bytes ls + partial > operationOutputBytes"

definition kept_lines :: "nat \<Rightarrow> int \<Rightarrow> string list \<Rightarrow> string list" where
  "kept_lines limit partial ls = fst (trim_lines limit partial ls (lines_bytes ls))"

lemma lines_bytes_simps [simp]:
  "lines_bytes [] = 0" "lines_bytes (l # ls) = int (length l) + lines_bytes ls"
  "lines_bytes (xs @ ys) = lines_bytes xs + lines_bytes ys"
  by (simp_all add: lines_bytes_def)

interpretation ol: front_trim "trimmed limit partial" "kept_lines limit partial" for limit partial
  by unfold_locales (auto simp: kept_lines_def trimmed_def)

lemma trim_lines_eq:
  "trim_lines limit partial ls (lines_bytes ls) =
     (kept_lines limit partial ls, lines_bytes (kept_lines limit partial ls))"
  by (induction ls) (auto simp: kept_lines_def)

lemma trim_output_eq:
  assumes "wo_bytes w = lines_bytes (wo_lines w)"
  shows "trim_output w = w\<lparr>wo_lines := kept_lines (line_limit w) (int (length (partialText w))) (wo_lines w),
     wo_bytes := lines_bytes (kept_lines (line_limit w) (int (length (partialText w))) (wo_lines w))\<rparr>"
  unfolding trim_output_def assms trim_lines_eq by simp

lemma trim_output_frame [simp]:
  "wo_partial (trim_output w) = wo_partial w" "wo_clipped (trim_output w) = wo_clipped w"
  "wo_next (trim_output w) = wo_next w" "wo_version (trim_output w) = wo_version w"
  by (simp_all add: trim_output_def split: prod.splits)

lemma partialText_cong:
  "wo_partial v = wo_partial w \<Longrightarrow> wo_clipped v = wo_clipped w \<Longrightarrow> partialText v = partialText w"
  by (simp add: partialText_def)

lemma skip_to_rune_length: "length (skip_to_rune s) \<le> length s"
  by (induction s) auto

lemma partialText_length: "length (partialText w) \<le> operationOutputLineBytes"
proof -
  define t where "t = (if wo_clipped w then ellipsis @ ToValidUTF8 (wo_partial w)
      else ToValidUTF8 (wo_partial w))"
  have "length (ellipsis @ skip_to_rune (drop (length t - operationOutputLineBytes + length ellipsis) t))
      \<le> operationOutputLineBytes" if "length t > operationOutputLineBytes"
    using skip_to_rune_length [of "drop (length t - operationOutputLineBytes + length ellipsis) t"] that
    by (simp add: ellipsis_def operationOutputLineBytes_def)
  then show ?thesis by (auto simp: partialText_def t_def Let_def)
qed

definition output_inv :: "nodeOperationOutput \<Rightarrow> bool" where
  [inv_defs]: "output_inv w \<longleftrightarrow>
     wo_bytes w = lines_bytes (wo_lines w)
     \<and> (\<forall>l \<in> set (wo_lines w). length l \<le> operationOutputLineBytes)"

definition within_limits :: "nodeOperationOutput \<Rightarrow> bool" where
  "within_limits w \<longleftrightarrow>
     length (wo_lines w) + (if wo_partial w = [] then 0 else 1) \<le> operationOutputLines
     \<and> lines_bytes (wo_lines w) + int (length (partialText w)) \<le> operationOutputBytes"

lemma trim_output_inv:
  assumes "output_inv w"
  shows "output_inv (trim_output w) \<and> within_limits (trim_output w)"
proof -
  let ?k = "kept_lines (line_limit w) (int (length (partialText w))) (wo_lines w)"
  have eq: "trim_output w = w\<lparr>wo_lines := ?k, wo_bytes := lines_bytes ?k\<rparr>"
    using assms trim_output_eq by (simp add: output_inv_def)
  have pt: "partialText (trim_output w) = partialText w" by (rule partialText_cong) simp_all
  have ls: "wo_lines (trim_output w) = ?k" by (simp add: eq)
  have "?k = [] \<or> \<not> trimmed (line_limit w) (int (length (partialText w))) ?k"
    by (rule ol.trim_within)
  then have "within_limits (trim_output w)"
    using partialText_length [of w] unfolding within_limits_def pt ls trim_output_frame
    by (auto simp: trimmed_def line_limit_def output_limits split: if_splits)
  moreover have "output_inv (trim_output w)"
    using assms ol.trim_set [of "line_limit w" "int (length (partialText w))" "wo_lines w"]
    by (auto simp: eq output_inv_def)
  ultimately show ?thesis by simp
qed

lemma appendPartial_frame [simp]:
  "wo_lines (appendPartial w d) = wo_lines w" "wo_bytes (appendPartial w d) = wo_bytes w"
  "wo_next (appendPartial w d) = wo_next w"
  by (simp_all add: appendPartial_def Let_def)

lemma appendPartial_inv [simp]: "output_inv (appendPartial w d) = output_inv w"
  by (simp add: output_inv_def)

lemma finish_line_inv: "output_inv w \<Longrightarrow> output_inv (finish_line w)"
  using partialText_length [of w] by (auto simp: output_inv_def finish_line_def Let_def)

lemma write_loop_inv: "output_inv w \<Longrightarrow> output_inv (write_loop w data)"
proof (induction w data rule: write_loop.induct)
  case (1 w data)
  let ?w = "trim_output (finish_line (appendPartial w (takeWhile (\<lambda>c. \<not> end_of_line c) data)))"
  have "output_inv ?w" using 1(2) finish_line_inv trim_output_inv by simp
  then show ?case using 1 by (subst write_loop.simps) auto
qed

lemma Write_inv:
  assumes "output_inv w" "data \<noteq> []"
  shows "output_inv (fst (Write w data)) \<and> within_limits (fst (Write w data))"
proof -
  have "output_inv (w\<lparr>wo_version := wo_version w + 1\<rparr>)" using assms by (simp add: output_inv_def)
  then show ?thesis using assms(2) by (simp add: Write_def write_loop_inv trim_output_inv)
qed

section \<open>The lines of a stream\<close>

fun split_lines :: "string \<Rightarrow> string \<Rightarrow> string list \<times> string" where
  "split_lines acc [] = ([], acc)"
| "split_lines acc (c # cs) =
     (if end_of_line c then (case split_lines [] cs of (ls, r) \<Rightarrow> (acc # ls, r))
      else split_lines (acc @ [c]) cs)"

lemma split_lines_append:
  "split_lines acc (xs @ ys) =
     (case split_lines acc xs of (l1, r1) \<Rightarrow> case split_lines r1 ys of (l2, r2) \<Rightarrow> (l1 @ l2, r2))"
  by (induction acc xs rule: split_lines.induct) (auto split: prod.splits)

lemma split_lines_none:
  "\<forall>c \<in> set xs. \<not> end_of_line c \<Longrightarrow> split_lines acc xs = ([], acc @ xs)"
  by (induction xs arbitrary: acc) auto

lemma split_lines_first:
  assumes "\<exists>c \<in> set data. end_of_line c"
  shows "split_lines acc data =
     (case split_lines [] (tl (dropWhile (\<lambda>c. \<not> end_of_line c) data)) of
        (ls, r) \<Rightarrow> ((acc @ takeWhile (\<lambda>c. \<not> end_of_line c) data) # ls, r))"
  using assms
proof (induction data arbitrary: acc)
  case (Cons c data)
  then show ?case by (cases "end_of_line c") (simp_all split: prod.splits)
qed simp

text \<open>A segment of the stream that the writer keeps as it is.\<close>

definition plain_line :: "string \<Rightarrow> bool" where
  "plain_line s \<longleftrightarrow> length s < partial_limit \<and> valid_utf8 s"

lemma appendPartial_plain:
  "length (wo_partial w @ d) < partial_limit \<Longrightarrow> appendPartial w d = w\<lparr>wo_partial := wo_partial w @ d\<rparr>"
  by (simp add: appendPartial_def)

lemma partialText_plain:
  "\<not> wo_clipped w \<Longrightarrow> plain_line (wo_partial w) \<Longrightarrow> partialText w = wo_partial w"
  by (auto simp: partialText_def plain_line_def ToValidUTF8_def to_valid_id partial_limit_def
      operationOutputLineBytes_def Let_def)

text \<open>
  The writer holds the newest of the lines \<open>all\<close>, numbers them by their position, and has the
  unfinished line \<open>r\<close> in its buffer.
\<close>

definition holds :: "nodeOperationOutput \<Rightarrow> string list \<Rightarrow> string \<Rightarrow> bool" where
  "holds w all r \<longleftrightarrow>
     output_inv w \<and> (\<exists>old. all = old @ wo_lines w) \<and> wo_next w = word_of_nat (length all)
     \<and> \<not> wo_clipped w \<and> wo_partial w = r"

lemma holds_trim: "holds w all r \<Longrightarrow> holds (trim_output w) all r"
proof -
  assume h: "holds w all r"
  let ?k = "kept_lines (line_limit w) (int (length (partialText w))) (wo_lines w)"
  have "wo_lines (trim_output w) = ?k"
    using h trim_output_eq [of w] by (simp add: holds_def output_inv_def)
  moreover obtain old where "wo_lines w = old @ ?k" using ol.trim_suffix by blast
  moreover obtain older where "all = older @ wo_lines w" using h by (auto simp: holds_def)
  ultimately have "all = (older @ old) @ wo_lines (trim_output w)" by simp
  then show "holds (trim_output w) all r" using h trim_output_inv [of w] unfolding holds_def by auto
qed

lemma holds_finish:
  assumes "holds w all r" "plain_line r"
  shows "holds (finish_line w) (all @ [r]) []"
proof -
  have "partialText w = r" using assms partialText_plain [of w] by (simp add: holds_def)
  then show ?thesis
    using assms finish_line_inv [of w] by (auto simp: holds_def finish_line_def Let_def)
qed

lemma holds_append:
  "holds w all r \<Longrightarrow> length (r @ d) < partial_limit \<Longrightarrow> holds (appendPartial w d) all (r @ d)"
  using appendPartial_plain [of w d] by (auto simp: holds_def output_inv_def)

lemma holds_write_loop:
  assumes "holds w all r" "split_lines r data = (ls, r')" "\<forall>l \<in> set ls. plain_line l"
    and "length r' < partial_limit"
  shows "holds (write_loop w data) (all @ ls) r'"
  using assms
proof (induction w data arbitrary: all r ls rule: write_loop.induct)
  case (1 w data)
  show ?case
  proof (cases "data = []")
    case True
    then show ?thesis using 1 by (simp add: write_loop.simps)
  next
    case False
    show ?thesis
    proof (cases "\<exists>c \<in> set data. end_of_line c")
      case nl: True
      let ?t = "takeWhile (\<lambda>c. \<not> end_of_line c) data"
      let ?rest = "tl (dropWhile (\<lambda>c. \<not> end_of_line c) data)"
      let ?w = "trim_output (finish_line (appendPartial w ?t))"
      obtain ls' where ls': "split_lines [] ?rest = (ls', r')" "ls = (r @ ?t) # ls'"
        using "1.prems"(2) split_lines_first [OF nl, of r] by (auto split: prod.splits)
      have line: "plain_line (r @ ?t)" using "1.prems"(3) ls' by simp
      have "holds ?w (all @ [r @ ?t]) []"
        by (rule holds_trim, rule holds_finish, rule holds_append)
          (use "1.prems"(1) line in \<open>auto simp: plain_line_def\<close>)
      from "1.IH" [OF False nl this ls'(1)] "1.prems"(3,4) ls'(2)
      have "holds (write_loop ?w ?rest) (all @ ls) r'" by simp
      then show ?thesis using False nl by (simp add: write_loop.simps [of w])
    next
      case no: False
      then have "ls = []" "r' = r @ data" using "1.prems"(2) split_lines_none [of data r] by auto
      then show ?thesis using 1 False no holds_append by (simp add: write_loop.simps)
    qed
  qed
qed

lemma holds_Write:
  assumes "holds w all r" "split_lines r data = (ls, r')" "\<forall>l \<in> set ls. plain_line l"
    and "length r' < partial_limit"
  shows "holds (fst (Write w data)) (all @ ls) r'"
proof (cases "data = []")
  case True
  then show ?thesis using assms by (simp add: Write_def)
next
  case False
  have "holds (w\<lparr>wo_version := wo_version w + 1\<rparr>) all r"
    using assms(1) by (simp add: holds_def output_inv_def)
  from holds_write_loop [OF this assms(2-4)] show ?thesis
    using False holds_trim by (simp add: Write_def)
qed

definition write_all :: "nodeOperationOutput \<Rightarrow> string list \<Rightarrow> nodeOperationOutput" where
  "write_all w chunks = foldl (\<lambda>w d. fst (Write w d)) w chunks"

lemma plain_prefix: "split_lines r (xs @ ys) = (ls, r') \<Longrightarrow> split_lines r xs = (l1, r1) \<Longrightarrow>
    \<forall>l \<in> set ls. plain_line l \<Longrightarrow> length r' < partial_limit \<Longrightarrow>
    (\<forall>l \<in> set l1. plain_line l) \<and> length r1 < partial_limit"
proof -
  have len: "length acc \<le> length (hd (fst (split_lines acc zs) @ [snd (split_lines acc zs)]))" for acc zs
    by (induction acc zs rule: split_lines.induct) (auto split: prod.splits)
  assume a: "split_lines r (xs @ ys) = (ls, r')" "split_lines r xs = (l1, r1)"
    "\<forall>l \<in> set ls. plain_line l" "length r' < partial_limit"
  obtain l2 where l2: "split_lines r1 ys = (l2, r')" "ls = l1 @ l2"
    using a(1,2) by (auto simp: split_lines_append split: prod.splits)
  have "length r1 < partial_limit"
    using len [of r1 ys] a(3,4) l2 by (cases l2) (auto simp: plain_line_def)
  then show ?thesis using a(3) l2 by simp
qed

lemma holds_write_all:
  assumes "holds w all r" "split_lines r (concat chunks) = (ls, r')" "\<forall>l \<in> set ls. plain_line l"
    and "length r' < partial_limit"
  shows "holds (write_all w chunks) (all @ ls) r'"
  using assms
proof (induction chunks arbitrary: w all r ls)
  case Nil
  then show ?case by (simp add: write_all_def)
next
  case (Cons d chunks)
  obtain l1 r1 where one: "split_lines r d = (l1, r1)" by fastforce
  obtain l2 where two: "split_lines r1 (concat chunks) = (l2, r')" "ls = l1 @ l2"
    using Cons.prems(2) one by (auto simp: split_lines_append split: prod.splits)
  have p: "\<forall>l \<in> set l1. plain_line l" "length r1 < partial_limit"
    using plain_prefix [of r d "concat chunks" ls r' l1 r1] Cons.prems one by auto
  from Cons.IH [OF holds_Write [OF Cons.prems(1) one p] two(1)] Cons.prems(3,4) two(2)
  show ?case by (simp add: write_all_def)
qed

section \<open>Properties\<close>

text \<open>
  The retained output is bounded for every stream. Whatever is written and however
  it is cut into chunks, after each write there are at most 200 lines, the unfinished one
  included; no line exceeds 4096 bytes; the lines and the rendered unfinished line together are
  at most 32 KiB; and the byte counter is exact.
\<close>

theorem output_bounded:
  assumes "output_inv w" "data \<noteq> []"
  shows "let w' = fst (Write w data)
     in length (wo_lines w') + (if wo_partial w' = [] then 0 else 1) \<le> 200
        \<and> (\<forall>l \<in> set (wo_lines w'). length l \<le> 4096) \<and> length (partialText w') \<le> 4096
        \<and> wo_bytes w' + int (length (partialText w')) \<le> 32768
        \<and> wo_bytes w' = lines_bytes (wo_lines w') \<and> output_inv w'"
  using Write_inv [OF assms] partialText_length [of "fst (Write w data)"]
  by (simp add: Let_def within_limits_def output_inv_def output_limits)

theorem output_bounded_witness:
  "length (wo_lines (fst (Write (newNodeOperationOutput sample_operation) ''a''))) \<le> 200"
proof -
  have i: "output_inv (newNodeOperationOutput sample_operation)"
    by (simp add: output_inv_def newNodeOperationOutput_def sample_operation_def)
  have "''a'' \<noteq> []" by simp
  from output_bounded [OF i this] show ?thesis by (auto simp: Let_def split: if_splits)
qed

text \<open>
  The retained lines are the newest lines of the stream, in order and unchanged,
  however the stream is cut into chunks. For a stream whose lines are valid UTF-8 of less than
  4093 bytes, a new writer that received it holds a suffix of its lines, counts all of them (so
  the number it saves for its first line is that line's position in the stream), and holds the
  unfinished line in its buffer.
\<close>

theorem output_newest_lines:
  assumes "op_Output record = []" "op_OutputPartial record = []" "op_OutputStart record = 0"
    and "split_lines [] (concat chunks) = (ls, r)"
    and "\<forall>l \<in> set ls. length l < 4093 \<and> valid_utf8 l" "length r < 4093"
  shows "let w = write_all (newNodeOperationOutput record) chunks
     in (\<exists>old. ls = old @ wo_lines w
            \<and> wo_next w - word_of_nat (length (wo_lines w)) = word_of_nat (length old))
        \<and> wo_next w = word_of_nat (length ls) \<and> wo_partial w = r"
proof -
  let ?w = "write_all (newNodeOperationOutput record) chunks"
  have limit: "partial_limit = 4093"
    by (simp add: partial_limit_def operationOutputLineBytes_def ellipsis_def)
  have "holds (newNodeOperationOutput record) [] []"
    using assms(1-3) by (simp add: holds_def newNodeOperationOutput_def output_inv_def)
  from holds_write_all [OF this assms(4)] assms(5,6) have h: "holds ?w ls r"
    by (simp add: plain_line_def limit)
  then obtain old where old: "ls = old @ wo_lines ?w" by (auto simp: holds_def)
  have nx: "wo_next ?w = word_of_nat (length ls)" using h by (simp add: holds_def)
  have "wo_next ?w - word_of_nat (length (wo_lines ?w)) = word_of_nat (length old)"
    unfolding nx arg_cong [OF old, of length] by simp
  with old nx h show ?thesis by (auto simp: Let_def holds_def)
qed

theorem output_newest_lines_witness:
  "wo_next (write_all (newNodeOperationOutput sample_operation) [''ab'', [CHR ''c'', CHR 0x0A], ''d'']) = 1"
proof -
  have s: "split_lines [] (concat [''ab'', [CHR ''c'', CHR 0x0A], ''d'']) = ([''abc''], ''d'')"
    by (simp add: end_of_line_def)
  have "op_Output sample_operation = []" "op_OutputPartial sample_operation = []"
      "op_OutputStart sample_operation = 0"
    by (simp_all add: sample_operation_def)
  moreover have "\<forall>l \<in> set [''abc'']. length l < 4093 \<and> valid_utf8 l" by code_simp
  ultimately show ?thesis using output_newest_lines [OF _ _ _ s] by (simp add: Let_def)
qed

text \<open>
  A chunk of exactly the line limit replaces an empty buffer without losing a byte, and yet the
  line is marked as clipped; cut into two chunks it is not.
\<close>

theorem exact_limit_marked_clipped:
  assumes "length data = partial_limit" "wo_partial w = []" "\<not> wo_clipped w"
  shows "wo_partial (appendPartial w data) = data \<and> wo_clipped (appendPartial w data)
     \<and> (let w' = appendPartial (appendPartial w (take 1 data)) (drop 1 data)
        in wo_partial w' = data \<and> \<not> wo_clipped w')"
proof -
  have "partial_limit > 1" by (simp add: partial_limit_def operationOutputLineBytes_def ellipsis_def)
  then show ?thesis using assms by (auto simp: appendPartial_def Let_def)
qed

end
