(* ===== verification/NodeOperations.thy ===== *)
theory NodeOperations
  imports OperationOutput
begin

text \<open>
  The manager of lifecycle operations, \<^verbatim>\<open>node_operations.go\<close>, with the batches of \<^verbatim>\<open>node_batch.go\<close>
  and the conflict rule of \<^verbatim>\<open>tui_operations.go\<close>: admission of a request, repeated delivery,
  pruning, completion, cancellation, closing, recovery of the records on disk, the batch
  runner's pass, and the paged history. Every operation that runs under the manager's mutex is
  one function of its state; the file system, the store, the clock, the identifiers and the
  outcome of the work are arguments.
\<close>

section \<open>State\<close>

datatype cancelCause = CanceledByUser | DaemonClosed | OtherCause goError

text \<open>
  \<open>rn_active\<close> says that the cancel function is present, \<open>rn_cause\<close> what the operation's context
  was canceled with. The map of records is a list of them, each under its own identifier.
\<close>

record runningNodeOperation =
  rn_record :: NodeOperation
  rn_keys :: "string list"
  rn_active :: bool
  rn_cause :: "cancelCause option"

record nodeOperations =
  mo_records :: "runningNodeOperation list"
  mo_closed :: bool

abbreviation rn_ID :: "runningNodeOperation \<Rightarrow> string" where
  "rn_ID r \<equiv> op_ID (rn_record r)"

definition lookup_op :: "nodeOperations \<Rightarrow> string \<Rightarrow> runningNodeOperation option" where
  "lookup_op m i = find (\<lambda>r. rn_ID r = i) (mo_records m)"

definition update_op ::
  "string \<Rightarrow> (runningNodeOperation \<Rightarrow> runningNodeOperation) \<Rightarrow> nodeOperations \<Rightarrow> nodeOperations" where
  "update_op i f m = m\<lparr>mo_records := map (\<lambda>r. if rn_ID r = i then f r else r) (mo_records m)\<rparr>"

definition nodeOperationRetention :: duration where
  "nodeOperationRetention = 7 * 24 * 3600 * second"

definition nodeBatchLimit :: nat where "nodeBatchLimit = 64"
definition nodeBatchParallelism :: nat where "nodeBatchParallelism = 4"
definition nodeOperationLimit :: nat where "nodeOperationLimit = 16"

definition errNodeOperationsClosed :: string where
  "errNodeOperationsClosed = ''daemon stopped before operation completed''"

definition errNodeOperationCanceled :: string where
  "errNodeOperationCanceled = ''operation canceled by user''"

abbreviation live_state :: "string \<Rightarrow> bool" where
  "live_state s \<equiv> s = ''running'' \<or> s = ''canceling''"

definition operationExpired :: "gotime \<Rightarrow> NodeOperation \<Rightarrow> bool" where
  "operationExpired now record \<longleftrightarrow>
     \<not> (case op_EnvironmentTest record of Some t \<Rightarrow> et_CleanupPending t | None \<Rightarrow> False)
     \<and> \<not> live_state (op_State record)
     \<and> now - (case op_FinishedAt record of Some t \<Rightarrow> t | None \<Rightarrow> op_CreatedAt record)
         > nodeOperationRetention"

definition operationConflicts :: "string list \<Rightarrow> string list \<Rightarrow> bool" where
  "operationConflicts active requested \<longleftrightarrow>
     active \<noteq> [] \<and> requested \<noteq> []
     \<and> (let activeKeys = filter (\<lambda>k. TrimSpace k \<noteq> []) active
        in \<exists>k \<in> set requested. k \<in> set activeKeys)"

section \<open>Requests\<close>

text \<open>\<open>store\<close> resolves an identifier or slug to a node.\<close>

definition normalize ::
  "(string \<Rightarrow> (goError, Node) result) \<Rightarrow> NodeOperationRequest
     \<Rightarrow> (goError, Node \<times> string list) result" where
  "normalize store request =
     (if rq_Origin request \<notin> {[], ''tui'', ''cli''}
      then Inl (invalidArgument ''operation origin must be tui or cli'' [])
      else if (rq_Kind request \<noteq> ''create'' \<and> rq_Create request \<noteq> None)
              \<or> (rq_Kind request \<noteq> ''clone'' \<and> rq_Clone request \<noteq> None)
              \<or> (rq_Kind request \<noteq> ''batch'' \<and> rq_Batch request \<noteq> [])
              \<or> (rq_Kind request \<noteq> ''test-environment'' \<and> rq_Environment request \<noteq> [])
      then Inl (invalidArgument ''operation inputs do not match its kind'' [])
      else if rq_Kind request = ''batch'' then Inr (zero_node, [])
      else if rq_Kind request = ''test-environment'' then
        (if rq_Environment request = [] \<or> rq_Node request \<noteq> []
         then Inl (invalidArgument ''environment is required and real nodes cannot be test targets'' [])
         else Inr (zero_node, []))
      else if rq_Kind request \<in> {''start'', ''retry'', ''restart'', ''stop'', ''delete'', ''clone''} then
        (if rq_Kind request = ''clone'' \<and> rq_Clone request = None
         then Inl (invalidArgument ''clone input is required'' [])
         else case store (case rq_Clone request of Some c \<Rightarrow> cl_SourceNode c | None \<Rightarrow> rq_Node request) of
                Inl err \<Rightarrow> Inl err
              | Inr node \<Rightarrow>
                  Inr (node, [''node:'' @ n_ID node, ''slug:'' @ n_Slug node]
                    @ (case rq_Clone request of Some c \<Rightarrow> [''slug:'' @ cl_NodeSlug c] | None \<Rightarrow> [])))
      else if rq_Kind request = ''create'' then
        (case rq_Create request of
           None \<Rightarrow> Inl (invalidArgument ''create input is required'' [])
         | Some c \<Rightarrow> Inr (zero_node\<lparr>n_Slug := ci_Slug c\<rparr>, [''slug:'' @ ci_Slug c]))
      else Inl (invalidArgument ''unknown lifecycle operation'' []))"

definition environmentTestKeys :: "EnvironmentTestState \<Rightarrow> string list" where
  "environmentTestKeys state =
     (let n = (case et_Plan state of Some plan \<Rightarrow> tp_Node plan | None \<Rightarrow> zero_node)
      in [''environment-test:'' @ et_EnvironmentID state, ''node:'' @ n_ID n, ''slug:'' @ n_Slug n])"

text \<open>
  \<open>prepareBatch\<close>: \<open>canonical\<close> says that a string is a canonical UUID, \<open>nodeByID\<close> reads a node,
  \<open>newIDs\<close> are the identifiers of the children in order.
\<close>

fun batch_members ::
  "(string \<Rightarrow> bool) \<Rightarrow> (string \<Rightarrow> (goError, Node) result) \<Rightarrow> (nat \<Rightarrow> string) \<Rightarrow> string list
     \<Rightarrow> NodeBatchTarget list \<Rightarrow> (goError, NodeBatchMember list \<times> string list) result" where
  "batch_members canonical nodeByID newID seen [] = Inr ([], [])"
| "batch_members canonical nodeByID newID seen (target # targets) =
     (if bt_Kind target \<notin> {''start'', ''retry'', ''restart'', ''stop'', ''delete''}
      then Inl (invalidArgument ''unsupported batch action'' [])
      else if \<not> canonical (bt_NodeID target) \<or> bt_NodeSlug target = []
      then Inl (invalidArgument ''batch targets require canonical node IDs and names'' [])
      else if bt_NodeID target \<in> set seen
      then Inl (invalidArgument ''batch contains a duplicate node'' [])
      else case nodeByID (bt_NodeID target) of
             Inl err \<Rightarrow> Inl err
           | Inr node \<Rightarrow>
               if n_Slug node \<noteq> bt_NodeSlug target \<or> n_DeletedAt node \<noteq> None
               then Inl (preconditionFailed ''batch target changed; review the nodes again''
                      [(''node_id'', bt_NodeID target)])
               else (case batch_members canonical nodeByID newID (bt_NodeID target # seen) targets of
                       Inl err \<Rightarrow> Inl err
                     | Inr (members, keys) \<Rightarrow>
                         Inr (\<lparr>bt_NodeID = bt_NodeID target, bt_NodeSlug = bt_NodeSlug target,
                               bt_Kind = bt_Kind target, bm_OperationID = newID (length seen),
                               bm_State = ''queued'', bm_Error = []\<rparr> # members,
                              [''node:'' @ n_ID node, ''slug:'' @ n_Slug node] @ keys)))"

definition empty_batch :: NodeBatchState where
  "empty_batch = \<lparr>nb_Members = [], nb_Total = 0, nb_Queued = 0, nb_Running = 0, nb_Succeeded = 0,
     nb_Failed = 0, nb_Canceled = 0, nb_Interrupted = 0\<rparr>"

definition prepareBatch ::
  "(string \<Rightarrow> bool) \<Rightarrow> (string \<Rightarrow> (goError, Node) result) \<Rightarrow> (nat \<Rightarrow> string) \<Rightarrow> NodeOperationRequest
     \<Rightarrow> (goError, NodeBatchState \<times> string list) result" where
  "prepareBatch canonical nodeByID newID request =
     (if rq_Node request \<noteq> [] \<or> rq_Batch request = [] \<or> length (rq_Batch request) > nodeBatchLimit
      then Inl (invalidArgument ''batch requires 1-64 captured targets and no single node'' [])
      else case batch_members canonical nodeByID newID [] (rq_Batch request) of
             Inl err \<Rightarrow> Inl err
           | Inr (members, keys) \<Rightarrow> Inr (recount (empty_batch\<lparr>nb_Members := members\<rparr>), keys))"

section \<open>Admission\<close>

definition repeatedRequestLocked ::
  "gotime \<Rightarrow> nodeOperations \<Rightarrow> NodeOperationRequest \<Rightarrow> (goError, NodeOperation) result option" where
  "repeatedRequestLocked now m request =
     (case lookup_op m (rq_ID request) of
        None \<Rightarrow> None
      | Some previous \<Rightarrow>
          if operationExpired now (rn_record previous) then None
          else if (op_Request (rn_record previous))\<lparr>rq_Origin := []\<rparr> \<noteq> request\<lparr>rq_Origin := []\<rparr>
          then Some (Inl (preconditionFailed ''operation id already belongs to another request'' []))
          else Some (Inr (rn_record previous)))"

text \<open>\<open>remove\<close> deletes the file of a record; a file that is gone already is no error.\<close>

fun prune_records ::
  "(string \<Rightarrow> goError option) \<Rightarrow> gotime \<Rightarrow> runningNodeOperation list
     \<Rightarrow> runningNodeOperation list \<times> goError option" where
  "prune_records remove now [] = ([], None)"
| "prune_records remove now (r # rs) =
     (if \<not> operationExpired now (rn_record r)
      then (case prune_records remove now rs of (rs', err) \<Rightarrow> (r # rs', err))
      else case remove (rn_ID r) of
             Some err \<Rightarrow> (r # rs, Some err)
           | None \<Rightarrow> prune_records remove now rs)"

definition pruneLocked ::
  "(string \<Rightarrow> goError option) \<Rightarrow> gotime \<Rightarrow> nodeOperations \<Rightarrow> nodeOperations \<times> goError option" where
  "pruneLocked remove now m =
     (case prune_records remove now (mo_records m) of (rs, err) \<Rightarrow> (m\<lparr>mo_records := rs\<rparr>, err))"

definition executingCountLocked :: "nodeOperations \<Rightarrow> nat" where
  "executingCountLocked m = length (filter (\<lambda>r. rn_active r \<and> op_Batch (rn_record r) = None) (mo_records m))"

definition active_roots :: "nodeOperations \<Rightarrow> nat" where
  "active_roots m = length (filter (\<lambda>r. rn_active r \<and> op_BatchID (rn_record r) = []) (mo_records m))"

definition conflicting :: "nodeOperations \<Rightarrow> string list \<Rightarrow> bool" where
  "conflicting m keys \<longleftrightarrow> (\<exists>r \<in> set (mo_records m). rn_active r \<and> operationConflicts (rn_keys r) keys)"

definition new_record ::
  "gotime \<Rightarrow> NodeOperationRequest \<Rightarrow> Node \<Rightarrow> NodeBatchState option \<Rightarrow> EnvironmentTestState option
     \<Rightarrow> NodeOperation" where
  "new_record now request node batch test =
     \<lparr>op_Batch = batch, op_BatchID = [], op_EnvironmentTest = test, op_Progress = None,
      op_ID = rq_ID request, op_Request = request, op_NodeID = n_ID node, op_NodeSlug = n_Slug node,
      op_State = ''running'', op_CreatedAt = now, op_FinishedAt = None, op_Error = [], op_ErrorCode = 0,
      op_ErrorCategory = [], op_Result = None, op_Output = [], op_OutputStart = 0, op_OutputPartial = [],
      op_CurrentPhase = [], op_Phases = submitted_phases request\<rparr>"

text \<open>The second half of \<open>Submit\<close>, under the mutex, once the request is resolved.\<close>

definition submit_admit ::
  "(NodeOperation \<Rightarrow> goError option) \<Rightarrow> (string \<Rightarrow> goError option) \<Rightarrow> gotime
     \<Rightarrow> NodeOperationRequest \<Rightarrow> Node \<Rightarrow> string list \<Rightarrow> NodeBatchState option
     \<Rightarrow> EnvironmentTestState option \<Rightarrow> nodeOperations
     \<Rightarrow> nodeOperations \<times> (goError, NodeOperation) result" where
  "submit_admit persist remove now request node keys batch test m =
     (if mo_closed m then (m, Inl (OtherError errNodeOperationsClosed))
      else case repeatedRequestLocked now m request of
             Some res \<Rightarrow> (m, res)
           | None \<Rightarrow>
               (case pruneLocked remove now m of
                  (m, Some err) \<Rightarrow> (m, Inl err)
                | (m, None) \<Rightarrow>
                    if conflicting m keys
                    then (m, Inl (preconditionFailed ''node already has an active operation'' []))
                    else if active_roots m \<ge> nodeOperationLimit
                            \<or> (rq_Kind request \<noteq> ''batch'' \<and> executingCountLocked m \<ge> nodeOperationLimit)
                    then (m, Inl (preconditionFailed ''16 lifecycle operations are already running'' []))
                    else let record = new_record now request node batch test
                         in case persist record of
                              Some err \<Rightarrow> (m, Inl err)
                            | None \<Rightarrow>
                                (m\<lparr>mo_records := mo_records m @
                                     [\<lparr>rn_record = record, rn_keys = keys, rn_active = True, rn_cause = None\<rparr>]\<rparr>,
                                 Inr record)))"

text \<open>
  What the surroundings answer to one submission: the context's error, whether the request is
  over 64 KiB, the canonical form of its identifier, the store, the batch's inputs, the
  preparation of an environment test, and the files and the clock.
\<close>

record submitEnv =
  sv_ctx :: "goError option"
  sv_oversize :: bool
  sv_uuid :: "string \<Rightarrow> string option"
  sv_store :: "string \<Rightarrow> (goError, Node) result"
  sv_nodeByID :: "string \<Rightarrow> (goError, Node) result"
  sv_newID :: "nat \<Rightarrow> string"
  sv_test :: "string \<Rightarrow> (goError, EnvironmentTestState) result"
  sv_persist :: "NodeOperation \<Rightarrow> goError option"
  sv_remove :: "string \<Rightarrow> goError option"
  sv_now :: gotime
  sv_countLabel :: "nat \<Rightarrow> string"

definition resolve_request ::
  "submitEnv \<Rightarrow> NodeOperationRequest
     \<Rightarrow> (goError, Node \<times> string list \<times> NodeBatchState option \<times> EnvironmentTestState option) result" where
  "resolve_request env request =
     (case normalize (sv_store env) request of
        Inl err \<Rightarrow> Inl err
      | Inr (node, keys) \<Rightarrow>
          if rq_Kind request = ''batch''
          then (case prepareBatch (\<lambda>s. sv_uuid env s = Some s) (sv_nodeByID env) (sv_newID env) request of
                  Inl err \<Rightarrow> Inl err
                | Inr (batch, keys) \<Rightarrow>
                    Inr (node\<lparr>n_Slug := sv_countLabel env (nb_Total batch)\<rparr>, keys, Some batch, None))
          else if rq_Kind request = ''test-environment''
          then (case sv_test env (rq_Environment request) of
                  Inl err \<Rightarrow> Inl err
                | Inr test \<Rightarrow>
                    Inr (case et_Plan test of Some plan \<Rightarrow> tp_Node plan | None \<Rightarrow> zero_node,
                         environmentTestKeys test, None, Some test))
          else Inr (node, keys, None, None))"

definition Submit ::
  "submitEnv \<Rightarrow> NodeOperationRequest \<Rightarrow> nodeOperations
     \<Rightarrow> nodeOperations \<times> (goError, NodeOperation) result" where
  "Submit env request m =
     (case sv_ctx env of
        Some err \<Rightarrow> (m, Inl err)
      | None \<Rightarrow>
          if sv_oversize env then (m, Inl (invalidArgument ''operation request exceeds 64 KiB'' []))
          else case sv_uuid env (rq_ID request) of
                 None \<Rightarrow> (m, Inl (invalidArgument ''operation id must be a UUID'' []))
               | Some i \<Rightarrow>
                   let request = request\<lparr>rq_ID := i\<rparr>
                   in case repeatedRequestLocked (sv_now env) m request of
                        Some res \<Rightarrow> (m, res)
                      | None \<Rightarrow>
                          (case resolve_request env request of
                             Inl err \<Rightarrow> (m, Inl err)
                           | Inr (node, keys, batch, test) \<Rightarrow>
                               submit_admit (sv_persist env) (sv_remove env) (sv_now env)
                                 request node keys batch test m))"

section \<open>Running, completing, canceling\<close>

definition bindCreatedNode ::
  "(NodeOperation \<Rightarrow> goError option) \<Rightarrow> string \<Rightarrow> Node \<Rightarrow> nodeOperations \<Rightarrow> nodeOperations" where
  "bindCreatedNode persist i node m =
     update_op i (\<lambda>r. r\<lparr>rn_record := (rn_record r)\<lparr>op_NodeID := n_ID node, op_NodeSlug := n_Slug node\<rparr>,
                        rn_keys := rn_keys r @ [''node:'' @ n_ID node]\<rparr>) m"

text \<open>
  The end of \<open>run\<close>. The outcome of the work is its error and the node it returned; \<open>stop\<close> is the
  outcome of the stop that follows a cancellation of a start.
\<close>

record workOutcome =
  wk_err :: "goError option"
  wk_node :: Node
  wk_cleanup :: string
  wk_stop :: "(goError, Node) result"
  wk_executed :: gotime
  wk_finished :: gotime

definition phase_outcome :: "goError option \<Rightarrow> cancelCause option \<Rightarrow> string" where
  "phase_outcome err cause =
     (if cause = Some DaemonClosed then ''interrupted''
      else if cause = Some CanceledByUser then ''canceled''
      else if err \<noteq> None then ''failed'' else ''succeeded'')"

definition bounded_error :: "string \<Rightarrow> string" where
  "bounded_error e = (if length e > 4096 then ToValidUTF8 (take 4096 e) else e)"

definition wire_code :: "goError \<Rightarrow> int \<times> string" where
  "wire_code err =
     (case AsRPCError (the (toDaemonError (Some err))) of RPCError k _ c _ \<Rightarrow> (c, k) | _ \<Rightarrow> (0, []))"

definition stop_error :: "workOutcome \<Rightarrow> cancelCause option \<Rightarrow> goError option" where
  "stop_error work cause =
     (if cause = Some CanceledByUser \<and> wk_cleanup work \<noteq> []
      then (case wk_stop work of Inl e \<Rightarrow> Some e | Inr _ \<Rightarrow> None) else None)"

definition final_error :: "workOutcome \<Rightarrow> cancelCause option \<Rightarrow> goError option" where
  "final_error work cause =
     (case stop_error work cause of
        None \<Rightarrow> wk_err work
      | Some e \<Rightarrow> join_errors (wk_err work) (Some (WrapError ''cancel could not stop VM: '' e)))"

definition final_node :: "workOutcome \<Rightarrow> cancelCause option \<Rightarrow> Node" where
  "final_node work cause =
     (if cause = Some CanceledByUser \<and> wk_cleanup work \<noteq> []
      then (case wk_stop work of Inl _ \<Rightarrow> wk_node work | Inr n \<Rightarrow> n) else wk_node work)"

definition complete_record ::
  "workOutcome \<Rightarrow> cancelCause option \<Rightarrow> NodeOperation \<Rightarrow> NodeOperation" where
  "complete_record work cause record =
     (let record = finishNodeOperationPhases (phase_outcome (wk_err work) cause)
                     (Some (wk_executed work)) record;
          node = final_node work cause;
          record = record\<lparr>op_FinishedAt := Some (wk_finished work), op_State := ''succeeded''\<rparr>;
          record = (case final_error work cause of None \<Rightarrow> record
                    | Some e \<Rightarrow> record\<lparr>op_State := ''failed'', op_Error := error_text e,
                        op_ErrorCode := fst (wire_code e), op_ErrorCategory := snd (wire_code e)\<rparr>);
          record = (if cause = Some CanceledByUser \<and> stop_error work cause = None
                    then record\<lparr>op_State := ''canceled''\<rparr> else record);
          record = (if cause = Some DaemonClosed
                    then record\<lparr>op_State := ''interrupted'', op_Error := errNodeOperationsClosed,
                                op_FinishedAt := None\<rparr> else record);
          record = (if n_ID node \<noteq> []
                    then record\<lparr>op_NodeID := n_ID node, op_NodeSlug := n_Slug node,
                           op_Result := Some \<lparr>re_NodeID = n_ID node, re_NodeSlug = n_Slug node,
                                              re_Status = n_Status node\<rparr>\<rparr>
                    else record)
      in record\<lparr>op_Error := bounded_error (op_Error record)\<rparr>)"

definition save_completed ::
  "(NodeOperation \<Rightarrow> goError option) \<Rightarrow> goError option \<Rightarrow> NodeOperation \<Rightarrow> NodeOperation" where
  "save_completed persist err record =
     (case persist record of
        None \<Rightarrow> record
      | Some saveErr \<Rightarrow>
          record\<lparr>op_State := ''failed'',
                 op_Error := (case join_errors err (Some saveErr) of Some e \<Rightarrow> error_text e | None \<Rightarrow> []),
                 op_ErrorCode := ExitInternalFailure, op_ErrorCategory := ''Internal''\<rparr>)"

definition complete_op ::
  "(NodeOperation \<Rightarrow> goError option) \<Rightarrow> workOutcome \<Rightarrow> string \<Rightarrow> nodeOperations \<Rightarrow> nodeOperations" where
  "complete_op persist work i m =
     update_op i (\<lambda>r. r\<lparr>rn_record := save_completed persist (final_error work (rn_cause r))
                          (complete_record work (rn_cause r) (rn_record r)),
                        rn_active := False\<rparr>) m"

definition set_cause :: "cancelCause \<Rightarrow> runningNodeOperation \<Rightarrow> runningNodeOperation" where
  "set_cause cause r = (if rn_cause r = None then r\<lparr>rn_cause := Some cause\<rparr> else r)"

text \<open>A batch's context is the parent of its children's, so canceling it cancels them.\<close>

definition cancel_tree :: "cancelCause \<Rightarrow> string \<Rightarrow> nodeOperations \<Rightarrow> nodeOperations" where
  "cancel_tree cause i m =
     m\<lparr>mo_records := map (\<lambda>r. if rn_ID r = i \<or> op_BatchID (rn_record r) = i \<and> i \<noteq> []
                              then set_cause cause r else r) (mo_records m)\<rparr>"

definition Cancel ::
  "(NodeOperation \<Rightarrow> goError option) \<Rightarrow> string \<Rightarrow> nodeOperations \<Rightarrow> nodeOperations \<times> goError option" where
  "Cancel persist i m =
     (case lookup_op m i of
        None \<Rightarrow> (m, Some (notFound ''operation not found'' []))
      | Some operation \<Rightarrow>
          if \<not> rn_active operation then (m, None)
          else case persist ((rn_record operation)\<lparr>op_State := ''canceling''\<rparr>) of
                 Some err \<Rightarrow> (m, Some err)
               | None \<Rightarrow>
                   (cancel_tree CanceledByUser i
                      (update_op i (\<lambda>r. r\<lparr>rn_record := (rn_record r)\<lparr>op_State := ''canceling''\<rparr>\<rparr>) m), None))"

definition Close_operations :: "nodeOperations \<Rightarrow> nodeOperations" where
  "Close_operations m =
     m\<lparr>mo_closed := True,
       mo_records := map (\<lambda>r. if rn_active r then set_cause DaemonClosed r else r) (mo_records m)\<rparr>"

definition Active :: "nodeOperations \<Rightarrow> bool" where
  "Active m \<longleftrightarrow> (\<exists>r \<in> set (mo_records m). rn_active r)"

definition Get :: "gotime \<Rightarrow> string \<Rightarrow> nodeOperations \<Rightarrow> (goError, NodeOperation) result" where
  "Get now i m =
     (case lookup_op m i of
        None \<Rightarrow> Inl (notFound ''operation not found'' [(''operation_id'', i)])
      | Some r \<Rightarrow>
          if operationExpired now (rn_record r)
          then Inl (notFound ''operation not found'' [(''operation_id'', i)])
          else Inr (rn_record r))"

section \<open>Batches\<close>

definition cause_text :: "cancelCause \<Rightarrow> string" where
  "cause_text cause = (case cause of CanceledByUser \<Rightarrow> errNodeOperationCanceled
     | DaemonClosed \<Rightarrow> errNodeOperationsClosed | OtherCause e \<Rightarrow> error_text e)"

text \<open>The first loop of a pass: a member takes the state of its child, or ends unstarted.\<close>

definition sync_member ::
  "nodeOperations \<Rightarrow> cancelCause option \<Rightarrow> NodeBatchMember \<Rightarrow> NodeBatchMember" where
  "sync_member m cause member =
     (case lookup_op m (bm_OperationID member) of
        Some child \<Rightarrow> member\<lparr>bm_State := op_State (rn_record child),
                            bm_Error := boundedOperationText (op_Error (rn_record child)) 512\<rparr>
      | None \<Rightarrow>
          (case cause of
             Some c \<Rightarrow>
               if bm_State member = ''queued''
               then member\<lparr>bm_State := (if c = DaemonClosed then ''interrupted'' else ''canceled''),
                           bm_Error := cause_text c\<rparr>
               else member
           | None \<Rightarrow> member))"

definition child_record :: "gotime \<Rightarrow> NodeOperation \<Rightarrow> NodeBatchMember \<Rightarrow> NodeOperation" where
  "child_record now root member =
     (let request = \<lparr>rq_Environment = [], rq_Origin = rq_Origin (op_Request root),
            rq_ID = bm_OperationID member, rq_Kind = bt_Kind member, rq_Node = bt_NodeID member,
            rq_Create = None, rq_Clone = None, rq_Batch = []\<rparr>
      in (new_record now request zero_node None None)
           \<lparr>op_BatchID := op_ID root, op_NodeID := bt_NodeID member, op_NodeSlug := bt_NodeSlug member,
            op_Phases := initialNodeOperationPhases (bt_Kind member)\<rparr>)"

text \<open>The second loop: start queued members while both limits leave room.\<close>

fun spawn_members ::
  "(NodeOperation \<Rightarrow> goError option) \<Rightarrow> gotime \<Rightarrow> NodeOperation \<Rightarrow> nat \<Rightarrow> nat \<Rightarrow> NodeBatchMember list
     \<Rightarrow> NodeBatchMember list \<times> runningNodeOperation list" where
  "spawn_members persist now root batchRunning active [] = ([], [])"
| "spawn_members persist now root batchRunning active (member # members) =
     (if bm_State member \<noteq> ''queued'' \<or> batchRunning \<ge> nodeBatchParallelism \<or> active \<ge> nodeOperationLimit
      then (case spawn_members persist now root batchRunning active members of
              (ms, kids) \<Rightarrow> (member # ms, kids))
      else let record = child_record now root member
           in case persist record of
                Some err \<Rightarrow>
                  (case spawn_members persist now root batchRunning active members of
                     (ms, kids) \<Rightarrow>
                       (member\<lparr>bm_State := ''failed'',
                               bm_Error := boundedOperationText (error_text err) 512\<rparr> # ms, kids))
              | None \<Rightarrow>
                  (case spawn_members persist now root (batchRunning + 1) (active + 1) members of
                     (ms, kids) \<Rightarrow>
                       (member\<lparr>bm_State := ''running''\<rparr> # ms,
                        \<lparr>rn_record = record, rn_keys = [], rn_active = True, rn_cause = None\<rparr> # kids)))"

definition batch_settled :: "NodeBatchState \<Rightarrow> bool" where
  "batch_settled b \<longleftrightarrow> nb_Queued b + nb_Running b = 0"

definition finish_batch ::
  "(NodeBatchState \<Rightarrow> string) \<Rightarrow> gotime \<Rightarrow> cancelCause option \<Rightarrow> NodeBatchState \<Rightarrow> NodeOperation
     \<Rightarrow> NodeOperation" where
  "finish_batch summary now cause batch record =
     (let record = record\<lparr>op_State := ''succeeded'', op_FinishedAt := Some now\<rparr>;
          record = (if nb_Succeeded batch \<noteq> nb_Total batch
                    then record\<lparr>op_State := ''failed'', op_Error := summary batch\<rparr> else record)
      in case cause of
           Some CanceledByUser \<Rightarrow> record\<lparr>op_State := ''canceled''\<rparr>
         | Some DaemonClosed \<Rightarrow> record\<lparr>op_State := ''interrupted'', op_FinishedAt := None\<rparr>
         | _ \<Rightarrow> record)"

text \<open>
  One pass of \<open>runBatch\<close> over the batch \<open>r\<close>, under the mutex: the new root and the children it
  starts. A record that did not change is not written again, which only saves a write.
\<close>

definition batch_pass ::
  "(NodeOperation \<Rightarrow> goError option) \<Rightarrow> (NodeBatchState \<Rightarrow> string) \<Rightarrow> gotime \<Rightarrow> nodeOperations
     \<Rightarrow> runningNodeOperation \<Rightarrow> NodeBatchState \<Rightarrow> runningNodeOperation \<times> runningNodeOperation list" where
  "batch_pass persist summary now m r batch =
     (let root = rn_record r;
          members1 = map (sync_member m (rn_cause r)) (nb_Members batch);
          batch1 = recount (batch\<lparr>nb_Members := members1\<rparr>);
          (members2, kids) =
            (if rn_cause r = None
             then spawn_members persist now root (nb_Running batch1) (executingCountLocked m) members1
             else (members1, []));
          batch2 = recount (batch1\<lparr>nb_Members := members2\<rparr>);
          root = root\<lparr>op_Batch := Some batch2\<rparr>
      in if batch_settled batch2
         then let root = finish_batch summary now (rn_cause r) batch2 root
              in (r\<lparr>rn_record := (case persist root of
                       None \<Rightarrow> root
                     | Some err \<Rightarrow> root\<lparr>op_State := ''failed'', op_Error := error_text err\<rparr>),
                    rn_active := False\<rparr>, kids)
         else (r\<lparr>rn_record := root\<rparr>, kids))"

definition runBatch ::
  "(NodeOperation \<Rightarrow> goError option) \<Rightarrow> (NodeBatchState \<Rightarrow> string) \<Rightarrow> gotime \<Rightarrow> string
     \<Rightarrow> nodeOperations \<Rightarrow> nodeOperations" where
  "runBatch persist summary now i m =
     (case lookup_op m i of
        None \<Rightarrow> m
      | Some r \<Rightarrow>
          (case op_Batch (rn_record r) of
             None \<Rightarrow> m
           | Some batch \<Rightarrow>
               (case batch_pass persist summary now m r batch of
                  (r', kids) \<Rightarrow>
                    (let m1 = update_op i (\<lambda>_. r') m in m1\<lparr>mo_records := mo_records m1 @ kids\<rparr>))))"

definition batchSummary :: "NodeOperation \<Rightarrow> NodeBatchState option" where
  "batchSummary record =
     (case op_Batch record of
        None \<Rightarrow> None
      | Some b \<Rightarrow> Some (b\<lparr>nb_Members :=
          (if live_state (op_State record)
           then map (\<lambda>member. member\<lparr>bm_Error := [],
                    bt_NodeSlug := boundedOperationText (bt_NodeSlug member) 128\<rparr>) (nb_Members b)
           else [])\<rparr>))"

section \<open>Recovery\<close>

text \<open>One record read back from disk by \<open>newNodeOperations\<close>; an expired one is removed.\<close>

definition recover_record :: "NodeOperation \<Rightarrow> NodeOperation" where
  "recover_record record =
     (if live_state (op_State record)
      then finishNodeOperationPhases ''interrupted'' None
             (record\<lparr>op_State := ''interrupted'', op_Error := errNodeOperationsClosed,
                     op_FinishedAt := None\<rparr>)
      else record)"

definition recover_member ::
  "nodeOperations \<Rightarrow> string \<Rightarrow> NodeBatchMember \<Rightarrow> NodeBatchMember" where
  "recover_member m root member =
     (case lookup_op m (bm_OperationID member) of
        Some child \<Rightarrow>
          if op_BatchID (rn_record child) = root \<and> op_NodeID (rn_record child) = bt_NodeID member
          then member\<lparr>bm_State := op_State (rn_record child),
                      bm_Error := boundedOperationText (op_Error (rn_record child)) 512\<rparr>
          else if bm_State member = ''queued'' \<or> live_state (bm_State member)
          then member\<lparr>bm_State := ''interrupted'', bm_Error := errNodeOperationsClosed\<rparr>
          else member
      | None \<Rightarrow>
          if bm_State member = ''queued'' \<or> live_state (bm_State member)
          then member\<lparr>bm_State := ''interrupted'', bm_Error := errNodeOperationsClosed\<rparr>
          else member)"

definition recoverBatches :: "nodeOperations \<Rightarrow> nodeOperations" where
  "recoverBatches m =
     m\<lparr>mo_records := map (\<lambda>r.
        case op_Batch (rn_record r) of
          Some batch \<Rightarrow>
            if op_State (rn_record r) \<noteq> ''interrupted'' then r
            else r\<lparr>rn_record := (rn_record r)\<lparr>op_Batch := Some (recount
                   (batch\<lparr>nb_Members := map (recover_member m (rn_ID r)) (nb_Members batch)\<rparr>))\<rparr>\<rparr>
        | None \<Rightarrow> r) (mo_records m)\<rparr>"

text \<open>
  The loop over the files: \<open>remove\<close> deletes the file of an expired record, \<open>persist\<close> writes a
  record that was running; the first failure ends the loading.
\<close>

definition recovered_entry :: "NodeOperation \<Rightarrow> runningNodeOperation" where
  "recovered_entry record = \<lparr>rn_record = recover_record record, rn_keys = [], rn_active = False, rn_cause = None\<rparr>"

fun load_records ::
  "(NodeOperation \<Rightarrow> goError option) \<Rightarrow> (string \<Rightarrow> goError option) \<Rightarrow> gotime \<Rightarrow> NodeOperation list
     \<Rightarrow> (goError, runningNodeOperation list) result" where
  "load_records persist remove now [] = Inr []"
| "load_records persist remove now (f # fs) =
     (if operationExpired now f
      then (case remove (op_ID f) of
              Some err \<Rightarrow> Inl err
            | None \<Rightarrow> load_records persist remove now fs)
      else case (if live_state (op_State f) then persist (recover_record f) else None) of
             Some err \<Rightarrow> Inl err
           | None \<Rightarrow> map_sum id (\<lambda>rs. recovered_entry f # rs) (load_records persist remove now fs))"

text \<open>
  \<open>canonical\<close> says that a string is a UUID in canonical form, \<open>workspace\<close> is the private directory
  of a test node.
\<close>

definition environmentTestSlug :: "string \<Rightarrow> string" where
  "environmentTestSlug i = ''env-test-'' @ filter (\<lambda>c. c \<noteq> CHR ''-'') i"

definition validateEnvironmentTestPlan ::
  "(string \<Rightarrow> bool) \<Rightarrow> (string \<Rightarrow> string) \<Rightarrow> EnvironmentTestPlan option \<Rightarrow> goError option" where
  "validateEnvironmentTestPlan canonical workspace plan =
     (case plan of
        None \<Rightarrow> Some (OtherError ''environment test plan is unavailable'')
      | Some plan \<Rightarrow>
          (let n = tp_Node plan
           in if \<not> canonical (n_ID n) then Some (OtherError ''invalid test node identity'')
              else if n_Slug n \<noteq> environmentTestSlug (n_ID n) \<or> n_SandboxName n \<noteq> n_Slug n
                      \<or> n_DirectoryPath n \<noteq> workspace (n_ID n) \<or> n_WorkspaceMode n \<noteq> ''copy''
                      \<or> n_WorkspaceMountPath n \<noteq> [] \<or> n_ImportHostAuth n \<or> n_Ports n \<noteq> []
              then Some (OtherError ''environment test ownership does not match its private node'')
              else None))"

text \<open>A test whose cleanup is pending is taken up again: it runs, with its keys.\<close>

definition pending_test :: "NodeOperation \<Rightarrow> EnvironmentTestState option" where
  "pending_test record =
     (case op_EnvironmentTest record of
        Some t \<Rightarrow> if et_CleanupPending t then Some t else None
      | None \<Rightarrow> None)"

definition interrupted_test :: "EnvironmentTestState \<Rightarrow> EnvironmentTestState" where
  "interrupted_test t =
     (if et_Outcome t = [] then t\<lparr>et_Outcome := ''interrupted'', et_Error := errNodeOperationsClosed\<rparr> else t)"

definition resumed_record :: "EnvironmentTestState \<Rightarrow> NodeOperation \<Rightarrow> NodeOperation" where
  "resumed_record t record =
     record\<lparr>op_EnvironmentTest := Some (interrupted_test t), op_State := ''running'', op_FinishedAt := None\<rparr>"

definition resume_test ::
  "(EnvironmentTestPlan option \<Rightarrow> goError option) \<Rightarrow> (NodeOperation \<Rightarrow> goError option) \<Rightarrow> runningNodeOperation
     \<Rightarrow> (goError, runningNodeOperation) result" where
  "resume_test validate persist r =
     (case pending_test (rn_record r) of
        None \<Rightarrow> Inr r
      | Some t \<Rightarrow>
          (case validate (et_Plan t) of
             Some err \<Rightarrow> Inl err
           | None \<Rightarrow>
               if map_option (\<lambda>p. n_ID (tp_Node p)) (et_Plan t) \<noteq> Some (op_NodeID (rn_record r))
                  \<or> rq_Kind (op_Request (rn_record r)) \<noteq> ''test-environment''
               then Inl (OtherError ''test cleanup receipt has inconsistent node ownership'')
               else (case persist (resumed_record t (rn_record r)) of
                       Some err \<Rightarrow> Inl err
                     | None \<Rightarrow> Inr (r\<lparr>rn_record := resumed_record t (rn_record r),
                                     rn_keys := environmentTestKeys t, rn_active := True\<rparr>))))"

fun resume_tests ::
  "(EnvironmentTestPlan option \<Rightarrow> goError option) \<Rightarrow> (NodeOperation \<Rightarrow> goError option)
     \<Rightarrow> runningNodeOperation list \<Rightarrow> (goError, runningNodeOperation list) result" where
  "resume_tests validate persist [] = Inr []"
| "resume_tests validate persist (r # rs) =
     (case resume_test validate persist r of
        Inl err \<Rightarrow> Inl err
      | Inr r' \<Rightarrow> map_sum id (\<lambda>rs'. r' # rs') (resume_tests validate persist rs))"

text \<open>
  The whole of \<open>newNodeOperations\<close> on the records it read, in the order of their files: \<open>recoverBatches\<close>
  writes every interrupted batch, then the pending tests are taken up. The source's loops over
  the map of records have no fixed order, which matters only for which of several failures is
  reported.
\<close>

definition batch_write_error ::
  "(NodeOperation \<Rightarrow> goError option) \<Rightarrow> runningNodeOperation list \<Rightarrow> goError option" where
  "batch_write_error persist rs =
     (case find (\<lambda>r. op_Batch (rn_record r) \<noteq> None \<and> op_State (rn_record r) = ''interrupted''
                     \<and> persist (rn_record r) \<noteq> None) rs of
        Some r \<Rightarrow> persist (rn_record r) | None \<Rightarrow> None)"

definition load_operations ::
  "(EnvironmentTestPlan option \<Rightarrow> goError option) \<Rightarrow> (NodeOperation \<Rightarrow> goError option)
     \<Rightarrow> (string \<Rightarrow> goError option) \<Rightarrow> gotime \<Rightarrow> NodeOperation list \<Rightarrow> (goError, nodeOperations) result" where
  "load_operations validate persist remove now files =
     (case load_records persist remove now files of
        Inl err \<Rightarrow> Inl err
      | Inr rs \<Rightarrow>
          (let m = recoverBatches \<lparr>mo_records = rs, mo_closed = False\<rparr>
           in case batch_write_error persist (mo_records m) of
                Some err \<Rightarrow> Inl err
              | None \<Rightarrow> map_sum id (\<lambda>rs. m\<lparr>mo_records := rs\<rparr>) (resume_tests validate persist (mo_records m))))"

section \<open>The run of an environment test\<close>

text \<open>
  The three sections of \<open>runEnvironmentTest\<close> under the mutex: after the commands ran, after an
  attempt to clean up failed, and at the end. \<open>runErr\<close> and \<open>cleanupErr\<close> are the outcomes of the
  service's calls.
\<close>

definition environmentTestOutcome :: "cancelCause option \<Rightarrow> goError option \<Rightarrow> string" where
  "environmentTestOutcome cause err =
     (if cause = Some DaemonClosed then ''interrupted''
      else if cause = Some CanceledByUser then ''canceled''
      else if err \<noteq> None then ''failed'' else ''succeeded'')"

definition on_test ::
  "(EnvironmentTestState \<Rightarrow> NodeOperation \<Rightarrow> NodeOperation) \<Rightarrow> NodeOperation \<Rightarrow> NodeOperation" where
  "on_test f record = (case op_EnvironmentTest record of None \<Rightarrow> record | Some t \<Rightarrow> f t record)"

definition test_ran ::
  "gotime \<Rightarrow> cancelCause option \<Rightarrow> goError option \<Rightarrow> NodeOperation \<Rightarrow> NodeOperation" where
  "test_ran now cause runErr = on_test (\<lambda>t record.
     let t = t\<lparr>et_Outcome := environmentTestOutcome cause runErr\<rparr>;
         t = (case runErr of None \<Rightarrow> t
              | Some e \<Rightarrow> t\<lparr>et_Error := boundedOperationText (error_text e) 4096,
                  et_ErrorCode := fst (wire_code e), et_ErrorCategory := snd (wire_code e)\<rparr>)
     in finishNodeOperationPhases (et_Outcome t) (Some now) (record\<lparr>op_EnvironmentTest := Some t\<rparr>))"

definition test_cleanup_failed :: "goError \<Rightarrow> NodeOperation \<Rightarrow> NodeOperation" where
  "test_cleanup_failed cleanupErr = on_test (\<lambda>t record.
     record\<lparr>op_EnvironmentTest := Some (t\<lparr>et_CleanupError := boundedOperationText (error_text cleanupErr) 4096\<rparr>)\<rparr>)"

definition test_finished ::
  "gotime \<Rightarrow> goError option \<Rightarrow> goError option \<Rightarrow> NodeOperation \<Rightarrow> NodeOperation" where
  "test_finished now cleanupErr runErr = on_test (\<lambda>t record.
     let t = (if cleanupErr = None then t\<lparr>et_CleanupPending := False, et_CleanupError := []\<rparr> else t);
         record = record\<lparr>op_EnvironmentTest := Some t, op_State := et_Outcome t, op_Error := et_Error t,
                    op_ErrorCode := et_ErrorCode t, op_ErrorCategory := et_ErrorCategory t,
                    op_FinishedAt := Some now\<rparr>;
         record = (if cleanupErr \<noteq> None
                   then record\<lparr>op_State := ''interrupted'',
                          op_Error := ''test cleanup is pending: '' @ et_CleanupError t, op_FinishedAt := None\<rparr>
                   else case runErr of
                          Some e \<Rightarrow> if op_State record = ''succeeded''
                                    then record\<lparr>op_State := ''failed'',
                                           op_Error := boundedOperationText (error_text e) 4096\<rparr>
                                    else record
                        | None \<Rightarrow> record)
     in finishNodeOperationPhases (if cleanupErr \<noteq> None then ''interrupted'' else ''succeeded'') (Some now) record)"

definition save_test :: "(NodeOperation \<Rightarrow> goError option) \<Rightarrow> NodeOperation \<Rightarrow> NodeOperation" where
  "save_test persist record =
     (case persist record of
        None \<Rightarrow> record
      | Some e \<Rightarrow> record\<lparr>op_State := ''failed'', op_Error := boundedOperationText (error_text e) 4096\<rparr>)"

definition runEnvironmentTest_end ::
  "(NodeOperation \<Rightarrow> goError option) \<Rightarrow> gotime \<Rightarrow> goError option \<Rightarrow> goError option \<Rightarrow> string
     \<Rightarrow> nodeOperations \<Rightarrow> nodeOperations" where
  "runEnvironmentTest_end persist now cleanupErr runErr i m =
     update_op i (\<lambda>r. if op_EnvironmentTest (rn_record r) = None then r
                      else r\<lparr>rn_record := save_test persist (test_finished now cleanupErr runErr (rn_record r)),
                             rn_active := False\<rparr>) m"

section \<open>History\<close>

definition nodeOperationHistoryTime :: "NodeOperation \<Rightarrow> gotime" where
  "nodeOperationHistoryTime record =
     (case op_FinishedAt record of Some t \<Rightarrow> t | None \<Rightarrow> op_CreatedAt record)"

definition newer :: "NodeOperation \<Rightarrow> NodeOperation \<Rightarrow> bool" where
  "newer a b \<longleftrightarrow> op_CreatedAt a > op_CreatedAt b \<or> (op_CreatedAt a = op_CreatedAt b \<and> op_ID a > op_ID b)"

fun latest_start ::
  "gotime \<Rightarrow> string \<Rightarrow> runningNodeOperation list \<Rightarrow> NodeOperation option \<Rightarrow> NodeOperation option" where
  "latest_start now nodeID [] latest = latest"
| "latest_start now nodeID (r # rs) latest =
     (let record = rn_record r
      in latest_start now nodeID rs
           (if op_NodeID record \<noteq> nodeID \<or> operationExpired now record \<or> \<not> startsNode record then latest
            else case latest of
                   None \<Rightarrow> Some record
                 | Some l \<Rightarrow> if newer record l then Some record else latest))"

definition LatestStart :: "gotime \<Rightarrow> string \<Rightarrow> nodeOperations \<Rightarrow> (goError, NodeOperation) result" where
  "LatestStart now nodeID m =
     (case latest_start now nodeID (mo_records m) None of
        None \<Rightarrow> Inl (notFound ''no retained start operation for node'' [(''node_id'', nodeID)])
      | Some record \<Rightarrow> Inr record)"

text \<open>The summary of a record that a listing shows.\<close>

definition zero_create :: NodeCreateInput where
  "zero_create = \<lparr>ci_Start = True, ci_Configuration = [], ci_Directory = [], ci_Slug = [], ci_Runtime = [],
     ci_Provider = [], ci_WorkspaceMode = [], ci_Ports = [], ci_ImportHostAuth = None\<rparr>"

definition list_summary ::
  "(string \<Rightarrow> string) \<Rightarrow> (NodeBatchState \<Rightarrow> string) \<Rightarrow> NodeOperation \<Rightarrow> NodeOperation" where
  "list_summary plainLogText summary record =
     (let request = op_Request record;
          starts = request_startsNode request
      in record\<lparr>
           op_Progress := summarizeNodeOperationProgress plainLogText summary record,
           op_Batch := batchSummary record,
           op_Request := \<lparr>rq_Environment = [], rq_Origin = rq_Origin request, rq_ID = op_ID record,
              rq_Kind = rq_Kind request, rq_Node = [],
              rq_Create = (if rq_Kind request = ''create'' \<and> starts then Some zero_create else None),
              rq_Clone = (if rq_Kind request = ''clone'' \<and> starts
                 then Some \<lparr>cl_SourceNode = [], cl_NodeSlug = [], cl_Start = True\<rparr> else None),
              rq_Batch = []\<rparr>,
           op_Result := None, op_Output := [], op_OutputPartial := [], op_Phases := [],
           op_EnvironmentTest := map_option (\<lambda>t. t\<lparr>et_Plan := None\<rparr>) (op_EnvironmentTest record),
           op_NodeSlug := boundedOperationText (op_NodeSlug record) 1024,
           op_Error := boundedOperationText (op_Error record) 4096\<rparr>)"

text \<open>Newest first; records of the same time in descending order of their identifiers.\<close>

definition sort_history :: "NodeOperation list \<Rightarrow> NodeOperation list" where
  "sort_history records = rev (sort_key nodeOperationHistoryTime (sort_key op_ID records))"

definition List_operations ::
  "(string \<Rightarrow> string) \<Rightarrow> (NodeBatchState \<Rightarrow> string) \<Rightarrow> gotime \<Rightarrow> nodeOperations \<Rightarrow> NodeOperation list" where
  "List_operations plainLogText summary now m =
     sort_history (map (\<lambda>r. list_summary plainLogText summary (rn_record r))
       (filter (\<lambda>r. \<not> operationExpired now (rn_record r)) (mo_records m)))"

record NodeOperationsPage =
  pa_Running :: "NodeOperation list"
  pa_History :: "NodeOperation list"
  pa_Next :: string

text \<open>Shrinking the page while its encoding is too large; at least one entry stays.\<close>

function shrink_page ::
  "(NodeOperation list \<Rightarrow> bool) \<Rightarrow> NodeOperation list \<Rightarrow> nat \<Rightarrow> nat \<Rightarrow> nat" where
  "shrink_page fits history start end =
     (if end - start > 1 \<and> \<not> fits (drop start (take end history))
      then shrink_page fits history start (end - 1) else end)"
  by pat_completeness auto
termination by (relation "measure (\<lambda>(f, h, s, e). e)") auto

declare shrink_page.simps [simp del]

definition page_of ::
  "(NodeOperation list \<Rightarrow> NodeOperation list \<Rightarrow> bool) \<Rightarrow> NodeOperation list \<Rightarrow> string \<Rightarrow> nat
     \<Rightarrow> (goError, NodeOperationsPage) result" where
  "page_of fits records before limit =
     (let running = filter (\<lambda>r. live_state (op_State r)) records;
          history = filter (\<lambda>r. \<not> live_state (op_State r)) records;
          start = (if before = [] then Some 0
                   else map_option Suc (first_index (\<lambda>r. op_ID r = before) 0 history))
      in case start of
           None \<Rightarrow> Inl (notFound ''operation page cursor expired; reload history'' [])
         | Some start \<Rightarrow>
             let end = shrink_page (fits running) history start (min (length history) (start + limit))
             in Inr \<lparr>pa_Running = running, pa_History = drop start (take end history),
                     pa_Next = (if end < length history then op_ID (history ! (end - 1)) else [])\<rparr>)"

definition ListPage ::
  "(string \<Rightarrow> string) \<Rightarrow> (NodeBatchState \<Rightarrow> string) \<Rightarrow> (NodeOperation list \<Rightarrow> NodeOperation list \<Rightarrow> bool)
     \<Rightarrow> (string \<Rightarrow> goError option) \<Rightarrow> gotime \<Rightarrow> string \<Rightarrow> int \<Rightarrow> nodeOperations
     \<Rightarrow> nodeOperations \<times> (goError, NodeOperationsPage) result" where
  "ListPage plainLogText summary fits remove now before limit m =
     (if limit < 0 \<or> limit > 100
      then (m, Inl (invalidArgument ''operation page limit must be between 1 and 100'' []))
      else case pruneLocked remove now m of
             (m, Some err) \<Rightarrow> (m, Inl err)
           | (m, None) \<Rightarrow>
               (m, page_of fits (List_operations plainLogText summary now m) before
                     (if limit = 0 then 50 else nat limit)))"

section \<open>Keys are never blank\<close>

lemma lead_of_Some:
  "lead_of ws s = Some w \<Longrightarrow> w \<in> set ws \<and> w \<noteq> [] \<and> take (length w) s = w"
  by (auto simp: lead_of_def find_Some_iff)

lemma strip_lead_last:
  "\<forall>w \<in> set ws. c \<notin> set w \<Longrightarrow> \<exists>ys. strip_lead ws (xs @ [c]) = ys @ [c]"
proof (induction "length xs" arbitrary: xs rule: less_induct)
  case less
  show ?case
  proof (cases "lead_of ws (xs @ [c])")
    case None
    then show ?thesis by (subst strip_lead.simps) auto
  next
    case (Some w)
    then have w: "w \<in> set ws" "w \<noteq> []" "take (length w) (xs @ [c]) = w"
      by (auto simp: lead_of_def find_Some_iff)
    have "c \<notin> set w" using less.prems w(1) by blast
    have len: "length w \<le> length xs"
    proof (rule ccontr)
      assume "\<not> length w \<le> length xs"
      then have "w = xs @ [c]" using w(3) by simp
      with \<open>c \<notin> set w\<close> show False by simp
    qed
    have "strip_lead ws (xs @ [c]) = strip_lead ws (drop (length w) (xs @ [c]))"
      by (simp only: strip_lead.simps [of ws "xs @ [c]"] Some option.case)
    then have "strip_lead ws (xs @ [c]) = strip_lead ws (drop (length w) xs @ [c])" using len by simp
    moreover have "length (drop (length w) xs) < length xs"
      using w(2) len by (metis length_drop diff_less length_greater_0_conv le_zero_eq gr_zeroI)
    ultimately show ?thesis using less by metis
  qed
qed

lemma TrimSpace_keeps:
  assumes no: "\<forall>w \<in> set spaces. c \<notin> set w"
  shows "TrimSpace (c # cs) \<noteq> []"
proof -
  have "lead_of spaces (c # cs) = None"
  proof (rule ccontr)
    assume "lead_of spaces (c # cs) \<noteq> None"
    then obtain w where w: "w \<in> set spaces" "w \<noteq> []" "take (length w) (c # cs) = w"
      using lead_of_Some by blast
    obtain x xs where "w = x # xs" using w(2) by (cases w) auto
    then have "c \<in> set w" using w(3) by auto
    with no w(1) show False by blast
  qed
  then have "strip_lead spaces (c # cs) = c # cs" by (subst strip_lead.simps) simp
  moreover have "\<exists>ys. strip_lead (map rev spaces) (rev cs @ [c]) = ys @ [c]"
    using no by (intro strip_lead_last) auto
  ultimately show ?thesis by (auto simp: TrimSpace_def)
qed

lemma key_not_blank [simp]:
  "TrimSpace (''node:'' @ x) \<noteq> []" "TrimSpace (''slug:'' @ x) \<noteq> []"
  "TrimSpace (''environment-test:'' @ x) \<noteq> []"
proof -
  have "\<forall>w \<in> set spaces. CHR ''n'' \<notin> set w" "\<forall>w \<in> set spaces. CHR ''s'' \<notin> set w"
      "\<forall>w \<in> set spaces. CHR ''e'' \<notin> set w" by code_simp+
  then show "TrimSpace (''node:'' @ x) \<noteq> []" "TrimSpace (''slug:'' @ x) \<noteq> []"
    "TrimSpace (''environment-test:'' @ x) \<noteq> []"
    by (simp_all add: TrimSpace_keeps)
qed

lemma normalize_keys: "normalize store r = Inr (n, ks) \<Longrightarrow> \<forall>k \<in> set ks. TrimSpace k \<noteq> []"
  using key_not_blank
  by (auto simp: normalize_def split: if_splits sum.splits option.splits)

lemma batch_members_keys:
  "batch_members c nb ni seen ts = Inr (ms, ks) \<Longrightarrow> \<forall>k \<in> set ks. TrimSpace k \<noteq> []"
  using key_not_blank
  by (induction c nb ni seen ts arbitrary: ms ks rule: batch_members.induct)
    (auto split: if_splits sum.splits)

lemma batch_members_ids:
  "inj ni \<Longrightarrow> batch_members c nb ni seen ts = Inr (ms, ks) \<Longrightarrow>
     distinct (map bm_OperationID ms) \<and> (\<forall>x \<in> set ms. \<exists>k \<ge> length seen. bm_OperationID x = ni k)"
proof (induction c nb ni seen ts arbitrary: ms ks rule: batch_members.induct)
  case (2 c nb ni seen t ts)
  obtain node ms' ks' where n: "nb (bt_NodeID t) = Inr node"
      "batch_members c nb ni (bt_NodeID t # seen) ts = Inr (ms', ks')"
    and ms: "ms = \<lparr>bt_NodeID = bt_NodeID t, bt_NodeSlug = bt_NodeSlug t, bt_Kind = bt_Kind t,
        bm_OperationID = ni (length seen), bm_State = ''queued'', bm_Error = []\<rparr> # ms'"
    and g: "bt_Kind t \<in> {''start'', ''retry'', ''restart'', ''stop'', ''delete''}" "c (bt_NodeID t)"
      "bt_NodeSlug t \<noteq> []" "bt_NodeID t \<notin> set seen" "\<not> (n_Slug node \<noteq> bt_NodeSlug t \<or> n_DeletedAt node \<noteq> None)"
    using "2.prems"(2) by (auto split: if_splits sum.splits)
  have ih: "distinct (map bm_OperationID ms')"
      "\<forall>x \<in> set ms'. \<exists>k \<ge> Suc (length seen). bm_OperationID x = ni k"
    using 2 g n by auto
  have "bm_OperationID x \<noteq> ni (length seen)" if "x \<in> set ms'" for x
    using ih(2) that injD [OF "2.prems"(1)] by (metis not_less_eq_eq order_refl)
  then have "ni (length seen) \<notin> bm_OperationID ` set ms'" by (metis imageE)
  then have "distinct (map bm_OperationID ms)" using ih(1) by (simp add: ms)
  moreover have "\<exists>k \<ge> length seen. bm_OperationID x = ni k" if "x \<in> set ms" for x
    using that ih(2) by (auto simp: ms intro: Suc_leD)
  ultimately show ?case by blast
qed auto

section \<open>The invariant of the manager\<close>

text \<open>The outcome of a test is never the name of a state in which an operation is under way.\<close>

definition outcome_ok :: "EnvironmentTestState option \<Rightarrow> bool" where
  "outcome_ok test \<longleftrightarrow> (\<forall>t. test = Some t \<longrightarrow> et_Outcome t \<notin> {''running'', ''canceling'', ''queued''})"

definition record_ok :: "runningNodeOperation \<Rightarrow> bool" where
  "record_ok r \<longleftrightarrow>
     rn_ID r \<noteq> [] \<and> (rn_active r \<longleftrightarrow> live_state (op_State (rn_record r)))
     \<and> op_State (rn_record r) \<noteq> ''queued''
     \<and> (\<forall>k \<in> set (rn_keys r). TrimSpace k \<noteq> [])
     \<and> (\<forall>b. op_Batch (rn_record r) = Some b \<longrightarrow> distinct ([] # map bm_OperationID (nb_Members b)))
     \<and> outcome_ok (op_EnvironmentTest (rn_record r))"

definition exclusive :: "runningNodeOperation list \<Rightarrow> bool" where
  "exclusive rs \<longleftrightarrow> (\<forall>r \<in> set rs. \<forall>q \<in> set rs.
     rn_active r \<and> rn_active q \<and> rn_ID r \<noteq> rn_ID q \<longrightarrow> set (rn_keys r) \<inter> set (rn_keys q) = {})"

definition manager_inv :: "nodeOperations \<Rightarrow> bool" where
  [inv_defs]: "manager_inv m \<longleftrightarrow>
     distinct (map rn_ID (mo_records m)) \<and> list_all record_ok (mo_records m)
     \<and> exclusive (mo_records m)
     \<and> executingCountLocked m \<le> nodeOperationLimit \<and> active_roots m \<le> nodeOperationLimit"

text \<open>A change of records one by one that keeps the invariant.\<close>

definition tame :: "(runningNodeOperation \<Rightarrow> runningNodeOperation) \<Rightarrow> runningNodeOperation \<Rightarrow> bool" where
  "tame f r \<longleftrightarrow>
     rn_ID (f r) = rn_ID r \<and> record_ok (f r) \<and> (rn_active (f r) \<longrightarrow> rn_active r)
     \<and> op_BatchID (rn_record (f r)) = op_BatchID (rn_record r)
     \<and> (op_Batch (rn_record (f r)) = None \<longleftrightarrow> op_Batch (rn_record r) = None)"

lemma length_filter_map_le:
  "(\<And>x. x \<in> set xs \<Longrightarrow> P (f x) \<Longrightarrow> P x) \<Longrightarrow> length (filter P (map f xs)) \<le> length (filter P xs)"
  by (induction xs) (auto simp: le_SucI)

lemma length_filter_conj_le: "length (filter (\<lambda>x. P x \<and> Q x) xs) \<le> length (filter Q xs)"
  by (induction xs) (auto simp: le_SucI)

lemma manager_inv_map:
  assumes inv: "manager_inv m" and tame: "\<forall>r \<in> set (mo_records m). tame f r"
    and excl: "exclusive (map f (mo_records m))"
    and m': "mo_records m' = map f (mo_records m)"
  shows "manager_inv m'"
proof -
  have "map rn_ID (map f (mo_records m)) = map rn_ID (mo_records m)" using tame by (auto simp: tame_def)
  moreover have "list_all record_ok (map f (mo_records m))" using tame by (auto simp: list_all_iff tame_def)
  moreover have "executingCountLocked m' \<le> executingCountLocked m"
    unfolding executingCountLocked_def m'
    by (rule length_filter_map_le) (use tame in \<open>auto simp: tame_def\<close>)
  moreover have "active_roots m' \<le> active_roots m"
    unfolding active_roots_def m'
    by (rule length_filter_map_le) (use tame in \<open>auto simp: tame_def\<close>)
  ultimately show ?thesis using inv excl unfolding manager_inv_def m' by (metis order_trans)
qed

lemma exclusive_map:
  assumes "exclusive rs" "\<forall>r \<in> set rs. tame f r \<and> set (rn_keys (f r)) \<subseteq> set (rn_keys r)"
  shows "exclusive (map f rs)"
  using assms unfolding exclusive_def tame_def by (simp, meson disjoint_iff subsetD)

lemma manager_inv_tame:
  assumes "manager_inv m" "mo_records m' = map f (mo_records m)"
    and "\<forall>r \<in> set (mo_records m). tame f r \<and> set (rn_keys (f r)) \<subseteq> set (rn_keys r)"
  shows "manager_inv m'"
  using assms by (intro manager_inv_map [OF assms(1) _ _ assms(2)] exclusive_map) (auto simp: manager_inv_def)

lemma manager_inv_closed: "manager_inv (m\<lparr>mo_closed := c\<rparr>) = manager_inv m"
  by (simp add: manager_inv_def executingCountLocked_def active_roots_def)

lemma manager_inv_subseq:
  assumes "manager_inv m" and sub: "\<exists>P. rs = filter P (mo_records m)"
  shows "manager_inv (m\<lparr>mo_records := rs\<rparr>)"
proof -
  obtain P where rs: "rs = filter P (mo_records m)" using sub by blast
  have le: "length (filter Q rs) \<le> length (filter Q (mo_records m))" for Q
    unfolding rs filter_filter by (rule length_filter_conj_le)
  have "distinct (map rn_ID rs)" using assms(1) by (simp add: manager_inv_def rs distinct_map_filter)
  then show ?thesis
    using assms(1) le [of "\<lambda>r. rn_active r \<and> op_Batch (rn_record r) = None"]
      le [of "\<lambda>r. rn_active r \<and> op_BatchID (rn_record r) = []"]
    by (auto simp: manager_inv_def executingCountLocked_def active_roots_def exclusive_def list_all_iff rs)
qed

lemma manager_inv_append:
  assumes inv: "manager_inv m" and ok: "list_all record_ok kids"
    and ids: "distinct (map rn_ID (mo_records m @ kids))"
    and excl: "exclusive (mo_records m @ kids)"
    and counts: "executingCountLocked m + length (filter (\<lambda>r. op_Batch (rn_record r) = None) kids)
        \<le> nodeOperationLimit"
      "active_roots m + length (filter (\<lambda>r. op_BatchID (rn_record r) = []) kids) \<le> nodeOperationLimit"
  shows "manager_inv (m\<lparr>mo_records := mo_records m @ kids\<rparr>)"
proof -
  have "length (filter (\<lambda>r. rn_active r \<and> P r) kids) \<le> length (filter P kids)" for P
    by (induction kids) (auto simp: le_SucI)
  from this [of "\<lambda>r. op_Batch (rn_record r) = None"] this [of "\<lambda>r. op_BatchID (rn_record r) = []"]
  show ?thesis using assms
    by (simp add: manager_inv_def executingCountLocked_def active_roots_def)
qed

section \<open>Each operation keeps the invariant\<close>

lemma lookup_op_Some: "lookup_op m i = Some r \<Longrightarrow> r \<in> set (mo_records m) \<and> rn_ID r = i"
  by (auto simp: lookup_op_def find_Some_iff)

lemma lookup_op_None: "lookup_op m i = None \<longleftrightarrow> i \<notin> rn_ID ` set (mo_records m)"
  by (auto simp: lookup_op_def find_None_iff)

lemma lookup_op_unique:
  assumes "distinct (map rn_ID (mo_records m))" "r \<in> set (mo_records m)"
  shows "lookup_op m (rn_ID r) = Some r"
proof -
  have "\<exists>q. lookup_op m (rn_ID r) = Some q"
    using lookup_op_None [of m "rn_ID r"] assms(2) by auto
  then obtain q where q: "lookup_op m (rn_ID r) = Some q" by blast
  then have "q \<in> set (mo_records m)" "rn_ID q = rn_ID r" using lookup_op_Some by blast+
  then have "q = r" using assms by (simp add: distinct_map inj_on_def)
  with q show ?thesis by simp
qed

lemma prune_records_filter:
  "prune_records remove now rs = (rs', err) \<Longrightarrow> distinct (map rn_ID rs) \<Longrightarrow>
     (\<exists>P. rs' = filter P rs \<and> (\<forall>r \<in> set rs. \<not> P r \<longrightarrow> operationExpired now (rn_record r)))
     \<and> (err = None \<longrightarrow> (\<forall>r \<in> set rs'. \<not> operationExpired now (rn_record r)))"
proof (induction rs arbitrary: rs')
  case (Cons r rs)
  have fresh: "r \<notin> set rs" using Cons.prems(2) by auto
  show ?case
  proof (cases "operationExpired now (rn_record r)")
    case False
    then obtain rs'' where rec: "prune_records remove now rs = (rs'', err)" "rs' = r # rs''"
      using Cons.prems(1) by (auto split: prod.splits)
    from Cons.IH [OF rec(1)] Cons.prems(2) obtain P where
      P: "rs'' = filter P rs" "\<forall>r \<in> set rs. \<not> P r \<longrightarrow> operationExpired now (rn_record r)"
      and e: "err = None \<longrightarrow> (\<forall>r \<in> set rs''. \<not> operationExpired now (rn_record r))" by auto
    have "rs' = filter (\<lambda>x. x = r \<or> P x) (r # rs)"
      using P(1) rec(2) fresh by (auto intro!: filter_cong)
    then show ?thesis using P(2) e rec(2) False by auto
  next
    case expired: True
    show ?thesis
    proof (cases "remove (rn_ID r)")
      case (Some x)
      then have "prune_records remove now (r # rs) = (r # rs, Some x)" using expired by simp
      then have "rs' = filter (\<lambda>_. True) (r # rs)" "err \<noteq> None" using Cons.prems(1) by auto
      then show ?thesis by blast
    next
      case None
      then have rec: "prune_records remove now rs = (rs', err)" using Cons.prems(1) expired by simp
      from Cons.IH [OF rec] Cons.prems(2) obtain P where
        P: "rs' = filter P rs" "\<forall>r \<in> set rs. \<not> P r \<longrightarrow> operationExpired now (rn_record r)"
        and e: "err = None \<longrightarrow> (\<forall>r \<in> set rs'. \<not> operationExpired now (rn_record r))" by auto
      have "rs' = filter (\<lambda>x. x \<noteq> r \<and> P x) (r # rs)"
        using P(1) fresh by (auto intro!: filter_cong)
      moreover have "\<forall>x \<in> set (r # rs). \<not> (x \<noteq> r \<and> P x) \<longrightarrow> operationExpired now (rn_record x)"
        using P(2) expired by auto
      ultimately show ?thesis using e by blast
    qed
  qed
qed auto

lemma prune_inv:
  assumes "manager_inv m" "pruneLocked remove now m = (m', err)"
  shows "manager_inv m' \<and> mo_closed m' = mo_closed m
     \<and> set (mo_records m') \<subseteq> set (mo_records m)
     \<and> (\<forall>r \<in> set (mo_records m). r \<notin> set (mo_records m') \<longrightarrow> operationExpired now (rn_record r))
     \<and> (err = None \<longrightarrow> (\<forall>r \<in> set (mo_records m'). \<not> operationExpired now (rn_record r)))"
proof -
  obtain rs where rs: "prune_records remove now (mo_records m) = (rs, err)" "m' = m\<lparr>mo_records := rs\<rparr>"
    using assms(2) by (auto simp: pruneLocked_def split: prod.splits)
  have d: "distinct (map rn_ID (mo_records m))" using assms(1) by (simp add: manager_inv_def)
  obtain P where P: "rs = filter P (mo_records m)"
      "\<forall>r \<in> set (mo_records m). \<not> P r \<longrightarrow> operationExpired now (rn_record r)"
    and e: "err = None \<longrightarrow> (\<forall>r \<in> set rs. \<not> operationExpired now (rn_record r))"
    using prune_records_filter [OF rs(1) d] by blast
  have "manager_inv m'" unfolding rs(2) by (rule manager_inv_subseq [OF assms(1)]) (use P in blast)
  then show ?thesis using P e by (auto simp: rs(2))
qed

text \<open>Admission.\<close>

lemma repeated_None:
  "repeatedRequestLocked now m request = None \<longleftrightarrow>
     (\<forall>r. lookup_op m (rq_ID request) = Some r \<longrightarrow> operationExpired now (rn_record r))"
  by (auto simp: repeatedRequestLocked_def split: option.splits if_splits)

lemma admit_cases:
  assumes "submit_admit persist remove now request node keys batch test m = (m', res)"
  obtains (same) "m' = m" "\<not> (\<exists>r. res = Inr r \<and> repeatedRequestLocked now m request = None)"
    | (pruned) err where "m' = fst (pruneLocked remove now m)" "res = Inl err"
    | (added) m1 where "\<not> mo_closed m" "repeatedRequestLocked now m request = None"
        "pruneLocked remove now m = (m1, None)" "\<not> conflicting m1 keys"
        "active_roots m1 < nodeOperationLimit"
        "rq_Kind request = ''batch'' \<or> executingCountLocked m1 < nodeOperationLimit"
        "persist (new_record now request node batch test) = None"
        "m' = m1\<lparr>mo_records := mo_records m1 @ [\<lparr>rn_record = new_record now request node batch test,
            rn_keys = keys, rn_active = True, rn_cause = None\<rparr>]\<rparr>"
        "res = Inr (new_record now request node batch test)"
proof (cases "mo_closed m \<or> repeatedRequestLocked now m request \<noteq> None")
  case True
  then have "m' = m \<and> ((\<exists>e. res = Inl e) \<or> repeatedRequestLocked now m request \<noteq> None)"
    using assms by (cases "mo_closed m") (auto simp: submit_admit_def)
  then show thesis using same by auto
next
  case open_m: False
  obtain m1 err where p: "pruneLocked remove now m = (m1, err)" by fastforce
  show thesis
  proof (cases "err \<noteq> None \<or> conflicting m1 keys \<or> active_roots m1 \<ge> nodeOperationLimit
      \<or> (rq_Kind request \<noteq> ''batch'' \<and> executingCountLocked m1 \<ge> nodeOperationLimit)
      \<or> persist (new_record now request node batch test) \<noteq> None")
    case True
    then have "m' = m1 \<and> (\<exists>e. res = Inl e)"
      using assms open_m p unfolding submit_admit_def Let_def
      by (cases err; cases "conflicting m1 keys"; cases "persist (new_record now request node batch test)")
        (auto split: if_splits)
    then show thesis using pruned p by auto
  next
    case False
    then have "\<not> (rq_Kind request \<noteq> ''batch'' \<and> executingCountLocked m1 \<ge> nodeOperationLimit)"
        "err = None" by blast+
    with False have "m' = m1\<lparr>mo_records := mo_records m1 @ [\<lparr>rn_record = new_record now request node batch test,
            rn_keys = keys, rn_active = True, rn_cause = None\<rparr>]\<rparr>
        \<and> res = Inr (new_record now request node batch test)"
      using assms open_m p by (auto simp: submit_admit_def Let_def)
    with False open_m p show thesis by (intro added [of m1]) (auto simp: not_le)
  qed
qed

lemma new_record_simps [simp]:
  "op_ID (new_record now request node batch test) = rq_ID request"
  "op_State (new_record now request node batch test) = ''running''"
  "op_Batch (new_record now request node batch test) = batch"
  "op_BatchID (new_record now request node batch test) = []"
  "op_Request (new_record now request node batch test) = request"
  "op_EnvironmentTest (new_record now request node batch test) = test"
  by (simp_all add: new_record_def)

lemma admit_inv:
  assumes inv: "manager_inv m"
    and admit: "submit_admit persist remove now request node keys batch test m = (m', res)"
    and keys: "\<forall>k \<in> set keys. TrimSpace k \<noteq> []"
    and batch: "\<forall>b. batch = Some b \<longrightarrow> distinct ([] # map bm_OperationID (nb_Members b))"
      "rq_ID request \<noteq> []" "rq_Kind request = ''batch'' \<longrightarrow> batch \<noteq> None" "outcome_ok test"
  shows "manager_inv m'"
proof (rule admit_cases [OF admit])
  fix err assume "m' = fst (pruneLocked remove now m)"
  then show ?thesis using prune_inv [OF inv, of remove now] by (cases "pruneLocked remove now m") auto
next
  let ?new = "\<lparr>rn_record = new_record now request node batch test, rn_keys = keys, rn_active = True,
      rn_cause = None\<rparr>"
  fix m1
  assume rep: "repeatedRequestLocked now m request = None" and prune: "pruneLocked remove now m = (m1, None)"
    and conf: "\<not> conflicting m1 keys" and roots: "active_roots m1 < nodeOperationLimit"
    and exec: "rq_Kind request = ''batch'' \<or> executingCountLocked m1 < nodeOperationLimit"
    and m': "m' = m1\<lparr>mo_records := mo_records m1 @ [?new]\<rparr>"
  have p: "manager_inv m1" "set (mo_records m1) \<subseteq> set (mo_records m)"
      "\<forall>r \<in> set (mo_records m1). \<not> operationExpired now (rn_record r)"
    using prune_inv [OF inv prune] by auto
  have fresh: "rq_ID request \<notin> rn_ID ` set (mo_records m1)"
  proof
    assume "rq_ID request \<in> rn_ID ` set (mo_records m1)"
    then obtain r where r: "r \<in> set (mo_records m1)" "rn_ID r = rq_ID request" by auto
    have "distinct (map rn_ID (mo_records m))" using inv by (simp add: manager_inv_def)
    then have "lookup_op m (rq_ID request) = Some r"
      using lookup_op_unique [of m r] r p(2) by (metis subsetD)
    then show False using rep r(1) p(3) by (auto simp: repeated_None)
  qed
  have disjoint: "set (rn_keys r) \<inter> set keys = {}" if "r \<in> set (mo_records m1)" "rn_active r" for r
  proof -
    have "\<not> operationConflicts (rn_keys r) keys" using conf that by (auto simp: conflicting_def)
    moreover have "\<forall>k \<in> set (rn_keys r). TrimSpace k \<noteq> []"
      using p(1) that by (auto simp: manager_inv_def list_all_iff record_ok_def)
    ultimately show ?thesis by (auto simp: operationConflicts_def Let_def)
  qed
  have "manager_inv (m1\<lparr>mo_records := mo_records m1 @ [?new]\<rparr>)"
  proof (rule manager_inv_append [OF p(1)])
    show "list_all record_ok [?new]" using keys batch by (simp add: record_ok_def)
    show "distinct (map rn_ID (mo_records m1 @ [?new]))"
      using fresh p(1) by (simp add: manager_inv_def)
    show "exclusive (mo_records m1 @ [?new])"
      using p(1) disjoint by (auto simp: manager_inv_def exclusive_def)
    show "executingCountLocked m1 + length (filter (\<lambda>r. op_Batch (rn_record r) = None) [?new])
        \<le> nodeOperationLimit"
      using exec batch p(1) by (auto simp: manager_inv_def)
    show "active_roots m1 + length (filter (\<lambda>r. op_BatchID (rn_record r) = []) [?new]) \<le> nodeOperationLimit"
      using roots by simp
  qed
  then show ?thesis by (simp add: m')
qed (use inv in simp)

lemma resolve_ok:
  assumes "resolve_request env request = Inr (node, keys, batch, test)" "inj (sv_newID env)"
    "[] \<notin> range (sv_newID env)"
  shows "(\<forall>k \<in> set keys. TrimSpace k \<noteq> [])
     \<and> (\<forall>b. batch = Some b \<longrightarrow> distinct ([] # map bm_OperationID (nb_Members b)))
     \<and> (rq_Kind request = ''batch'' \<longrightarrow> batch \<noteq> None)"
proof -
  obtain node' keys' where n: "normalize (sv_store env) request = Inr (node', keys')"
    using assms(1) by (auto simp: resolve_request_def split: sum.splits)
  show ?thesis
  proof (cases "rq_Kind request = ''batch''")
    case True
    then obtain b where b: "prepareBatch (\<lambda>s. sv_uuid env s = Some s) (sv_nodeByID env) (sv_newID env) request
        = Inr (b, keys)" "batch = Some b"
      using assms(1) n by (auto simp: resolve_request_def split: sum.splits)
    then obtain ms where ms: "batch_members (\<lambda>s. sv_uuid env s = Some s) (sv_nodeByID env) (sv_newID env) []
        (rq_Batch request) = Inr (ms, keys)" "nb_Members b = ms"
      by (auto simp: prepareBatch_def recount_def Let_def split: if_splits sum.splits)
    show ?thesis
      using batch_members_keys [OF ms(1)] batch_members_ids [OF assms(2) ms(1)] assms(3) b(2) ms(2)
      by (auto simp: image_iff)
  next
    case False
    show ?thesis
    proof (cases "rq_Kind request = ''test-environment''")
      case True
      then show ?thesis using assms(1) n False key_not_blank
        by (auto simp: resolve_request_def environmentTestKeys_def Let_def split: sum.splits)
    next
      case other: False
      then have "keys = keys'" "batch = None" using assms(1) n False by (auto simp: resolve_request_def)
      then show ?thesis using normalize_keys [OF n] False by simp
    qed
  qed
qed

text \<open>Completion, cancellation, closing.\<close>

lemma update_op_records: "mo_records (update_op i f m) = map (\<lambda>r. if rn_ID r = i then f r else r) (mo_records m)"
  by (simp add: update_op_def)

lemma tame_id: "record_ok r \<Longrightarrow> tame (\<lambda>r. r) r"
  by (simp add: tame_def)

lemma update_op_inv:
  assumes inv: "manager_inv m"
    and tame: "\<And>r. r \<in> set (mo_records m) \<Longrightarrow> rn_ID r = i \<Longrightarrow>
        tame f r \<and> set (rn_keys (f r)) \<subseteq> set (rn_keys r)"
  shows "manager_inv (update_op i f m)"
proof (rule manager_inv_tame [OF inv update_op_records])
  have "record_ok r" if "r \<in> set (mo_records m)" for r
    using inv that by (auto simp: manager_inv_def list_all_iff)
  then show "\<forall>r \<in> set (mo_records m). tame (\<lambda>r. if rn_ID r = i then f r else r) r
      \<and> set (rn_keys (if rn_ID r = i then f r else r)) \<subseteq> set (rn_keys r)"
    using tame by (auto simp: tame_def)
qed

lemma complete_record_simps [simp]:
  "op_ID (complete_record work cause record) = op_ID record"
  "op_Batch (complete_record work cause record) = op_Batch record"
  "op_BatchID (complete_record work cause record) = op_BatchID record"
  "op_Request (complete_record work cause record) = op_Request record"
  "op_EnvironmentTest (complete_record work cause record) = op_EnvironmentTest record"
  by (simp_all add: complete_record_def finishNodeOperationPhases_def Let_def split: option.splits)

lemma complete_record_state:
  "op_State (complete_record work cause record) =
     (if cause = Some DaemonClosed then ''interrupted''
      else if cause = Some CanceledByUser \<and> stop_error work cause = None then ''canceled''
      else if final_error work cause = None then ''succeeded'' else ''failed'')"
  by (cases "final_error work cause") (auto simp: complete_record_def finishNodeOperationPhases_def Let_def)

lemma save_completed_simps [simp]:
  "op_ID (save_completed persist err record) = op_ID record"
  "op_Batch (save_completed persist err record) = op_Batch record"
  "op_BatchID (save_completed persist err record) = op_BatchID record"
  "op_EnvironmentTest (save_completed persist err record) = op_EnvironmentTest record"
  "op_State (save_completed persist err record) =
     (if persist record = None then op_State record else ''failed'')"
  by (simp_all add: save_completed_def split: option.splits)

lemma complete_inv:
  assumes "manager_inv m"
  shows "manager_inv (complete_op persist work i m)"
  unfolding complete_op_def
proof (rule update_op_inv [OF assms])
  fix r assume "r \<in> set (mo_records m)"
  then have "record_ok r" using assms by (auto simp: manager_inv_def list_all_iff)
  then show "tame (\<lambda>r. r\<lparr>rn_record := save_completed persist (final_error work (rn_cause r))
        (complete_record work (rn_cause r) (rn_record r)), rn_active := False\<rparr>) r \<and>
      set (rn_keys (r\<lparr>rn_record := save_completed persist (final_error work (rn_cause r))
        (complete_record work (rn_cause r) (rn_record r)), rn_active := False\<rparr>)) \<subseteq> set (rn_keys r)"
    by (simp add: tame_def record_ok_def complete_record_state)
qed

lemma set_cause_simps [simp]:
  "rn_record (set_cause c r) = rn_record r" "rn_keys (set_cause c r) = rn_keys r"
  "rn_active (set_cause c r) = rn_active r"
  by (simp_all add: set_cause_def)

lemma set_cause_ok: "record_ok (set_cause c r) = record_ok r"
  by (simp add: record_ok_def)

lemma cancel_tree_inv: "manager_inv m \<Longrightarrow> manager_inv (cancel_tree c i m)"
  by (rule manager_inv_tame [where f = "\<lambda>r. if rn_ID r = i \<or> op_BatchID (rn_record r) = i \<and> i \<noteq> []
        then set_cause c r else r"])
    (auto simp: cancel_tree_def tame_def set_cause_ok manager_inv_def list_all_iff)

lemma cancel_inv:
  assumes inv: "manager_inv m" and c: "Cancel persist i m = (m', err)"
  shows "manager_inv m'"
proof (cases "\<exists>r. lookup_op m i = Some r \<and> rn_active r
    \<and> persist ((rn_record r)\<lparr>op_State := ''canceling''\<rparr>) = None")
  case False
  then have "m' = m" using c by (auto simp: Cancel_def split: option.splits if_splits)
  then show ?thesis using inv by simp
next
  case True
  then obtain r where r: "lookup_op m i = Some r" "rn_active r"
      "persist ((rn_record r)\<lparr>op_State := ''canceling''\<rparr>) = None" by blast
  let ?f = "\<lambda>r. r\<lparr>rn_record := (rn_record r)\<lparr>op_State := ''canceling''\<rparr>\<rparr>"
  have d: "distinct (map rn_ID (mo_records m))" using inv by (simp add: manager_inv_def)
  have "manager_inv (update_op i ?f m)"
  proof (rule update_op_inv [OF inv])
    fix q assume q: "q \<in> set (mo_records m)" "rn_ID q = i"
    then have "q = r" using lookup_op_unique [OF d q(1)] r(1) by simp
    moreover have "record_ok q" using inv q(1) by (auto simp: manager_inv_def list_all_iff)
    ultimately show "tame ?f q \<and> set (rn_keys (?f q)) \<subseteq> set (rn_keys q)"
      using r(2) by (simp add: tame_def record_ok_def)
  qed
  moreover have "m' = cancel_tree CanceledByUser i (update_op i ?f m)" using c r by (simp add: Cancel_def)
  ultimately show ?thesis by (simp add: cancel_tree_inv)
qed

lemma close_inv: "manager_inv m \<Longrightarrow> manager_inv (Close_operations m)"
  by (rule manager_inv_tame [where f = "\<lambda>r. if rn_active r then set_cause DaemonClosed r else r"])
    (auto simp: Close_operations_def tame_def set_cause_ok manager_inv_def list_all_iff)

text \<open>The sections of an environment test.\<close>

lemma finish_phases_simps [simp]:
  "op_ID (finishNodeOperationPhases st fin f) = op_ID f" "op_State (finishNodeOperationPhases st fin f) = op_State f"
  "op_Batch (finishNodeOperationPhases st fin f) = op_Batch f"
  "op_BatchID (finishNodeOperationPhases st fin f) = op_BatchID f"
  "op_Request (finishNodeOperationPhases st fin f) = op_Request f"
  "op_EnvironmentTest (finishNodeOperationPhases st fin f) = op_EnvironmentTest f"
  by (simp_all add: finishNodeOperationPhases_def)

lemma test_ran_simps [simp]:
  "op_ID (test_ran now cause e f) = op_ID f" "op_State (test_ran now cause e f) = op_State f"
  "op_Batch (test_ran now cause e f) = op_Batch f" "op_BatchID (test_ran now cause e f) = op_BatchID f"
  "op_Request (test_ran now cause e f) = op_Request f"
  "outcome_ok (op_EnvironmentTest f) \<Longrightarrow> outcome_ok (op_EnvironmentTest (test_ran now cause e f))"
  by (auto simp: test_ran_def on_test_def Let_def outcome_ok_def environmentTestOutcome_def split: option.splits)

lemma test_cleanup_failed_simps [simp]:
  "op_ID (test_cleanup_failed e f) = op_ID f" "op_State (test_cleanup_failed e f) = op_State f"
  "op_Batch (test_cleanup_failed e f) = op_Batch f" "op_BatchID (test_cleanup_failed e f) = op_BatchID f"
  "op_Request (test_cleanup_failed e f) = op_Request f"
  "outcome_ok (op_EnvironmentTest f) \<Longrightarrow> outcome_ok (op_EnvironmentTest (test_cleanup_failed e f))"
  by (auto simp: test_cleanup_failed_def on_test_def outcome_ok_def split: option.splits)

lemma test_finished_simps [simp]:
  "op_ID (test_finished now ce re f) = op_ID f" "op_Batch (test_finished now ce re f) = op_Batch f"
  "op_BatchID (test_finished now ce re f) = op_BatchID f" "op_Request (test_finished now ce re f) = op_Request f"
  "outcome_ok (op_EnvironmentTest f) \<Longrightarrow> outcome_ok (op_EnvironmentTest (test_finished now ce re f))"
  by (auto simp: test_finished_def on_test_def Let_def outcome_ok_def split: option.splits)

lemma test_finished_state:
  assumes "op_EnvironmentTest f = Some t"
  shows "op_State (test_finished now ce re f) =
    (if ce \<noteq> None then ''interrupted''
     else if re \<noteq> None \<and> et_Outcome t = ''succeeded'' then ''failed'' else et_Outcome t)"
  using assms by (auto simp: test_finished_def on_test_def Let_def split: option.splits)

lemma save_test_simps [simp]:
  "op_ID (save_test persist f) = op_ID f" "op_Batch (save_test persist f) = op_Batch f"
  "op_BatchID (save_test persist f) = op_BatchID f" "op_Request (save_test persist f) = op_Request f"
  "op_EnvironmentTest (save_test persist f) = op_EnvironmentTest f"
  "op_State (save_test persist f) = (if persist f = None then op_State f else ''failed'')"
  by (simp_all add: save_test_def split: option.splits)

lemma test_end_inv:
  assumes "manager_inv m"
  shows "manager_inv (runEnvironmentTest_end persist now ce re i m)"
  unfolding runEnvironmentTest_end_def
proof (rule update_op_inv [OF assms])
  let ?f = "\<lambda>r. if op_EnvironmentTest (rn_record r) = None then r
      else r\<lparr>rn_record := save_test persist (test_finished now ce re (rn_record r)), rn_active := False\<rparr>"
  fix r assume "r \<in> set (mo_records m)"
  then have ok: "record_ok r" using assms by (auto simp: manager_inv_def list_all_iff)
  then have o: "outcome_ok (op_EnvironmentTest (rn_record r))" by (simp add: record_ok_def)
  show "tame ?f r \<and> set (rn_keys (?f r)) \<subseteq> set (rn_keys r)"
  proof (cases "op_EnvironmentTest (rn_record r)")
    case None
    then show ?thesis using ok by (simp add: tame_def)
  next
    case (Some t)
    then have "et_Outcome t \<notin> {''running'', ''canceling'', ''queued''}" using o by (simp add: outcome_ok_def)
    then show ?thesis using ok o Some test_finished_state [OF Some, of now ce re]
      by (simp add: tame_def record_ok_def)
  qed
qed

text \<open>A new node's identity: no other active operation holds its key.\<close>

lemma bind_inv:
  assumes inv: "manager_inv m"
    and fresh: "\<forall>r \<in> set (mo_records m). rn_active r \<and> rn_ID r \<noteq> i \<longrightarrow> ''node:'' @ n_ID node \<notin> set (rn_keys r)"
  shows "manager_inv (bindCreatedNode persist i node m)"
proof -
  define k where "k = ''node:'' @ n_ID node"
  let ?f = "\<lambda>r. if rn_ID r = i
      then r\<lparr>rn_record := (rn_record r)\<lparr>op_NodeID := n_ID node, op_NodeSlug := n_Slug node\<rparr>,
             rn_keys := rn_keys r @ [k]\<rparr> else r"
  have ok: "\<forall>r \<in> set (mo_records m). record_ok r" using inv by (simp add: manager_inv_def list_all_iff)
  have blank: "TrimSpace k \<noteq> []" unfolding k_def by (rule key_not_blank)
  have tame: "\<forall>r \<in> set (mo_records m). tame ?f r"
    using ok blank by (auto simp: tame_def record_ok_def)
  have excl: "exclusive (mo_records m)" using inv by (simp add: manager_inv_def)
  have keys: "set (rn_keys (?f r)) \<inter> set (rn_keys (?f q)) = {}"
    if "r \<in> set (mo_records m)" "q \<in> set (mo_records m)" "rn_active r" "rn_active q" "rn_ID r \<noteq> rn_ID q" for r q
  proof -
    have "set (rn_keys r) \<inter> set (rn_keys q) = {}" using excl that by (simp add: exclusive_def)
    moreover have "rn_ID r = i \<Longrightarrow> k \<notin> set (rn_keys q)" "rn_ID q = i \<Longrightarrow> k \<notin> set (rn_keys r)"
      using fresh [folded k_def] that by auto
    ultimately show ?thesis using that(5) by (cases "rn_ID r = i"; cases "rn_ID q = i") simp_all
  qed
  have "exclusive (map ?f (mo_records m))"
    unfolding exclusive_def set_map ball_simps
  proof (intro ballI impI)
    fix r q assume "r \<in> set (mo_records m)" "q \<in> set (mo_records m)"
      "rn_active (?f r) \<and> rn_active (?f q) \<and> rn_ID (?f r) \<noteq> rn_ID (?f q)"
    then show "set (rn_keys (?f r)) \<inter> set (rn_keys (?f q)) = {}"
      by (intro keys) (auto split: if_splits)
  qed
  then show ?thesis
    unfolding bindCreatedNode_def k_def [symmetric]
    by (intro manager_inv_map [OF inv tame]) (simp_all add: update_op_records)
qed

end
