(* ===== verification/OperationRuns.thy ===== *)
theory OperationRuns
  imports NodeOperations
begin

text \<open>
  Runs of the manager of lifecycle operations: the batch runner and the recovery keep the
  manager's invariant, every interleaving of its operations does, and the properties of
  admission, completion, batches, recovery and the paged history.
\<close>

section \<open>A pass of the batch runner\<close>

definition queued_ids :: "NodeBatchMember list \<Rightarrow> string list" where
  "queued_ids ms = map bm_OperationID (filter (\<lambda>x. bm_State x = ''queued'') ms)"

definition running_members :: "NodeBatchMember list \<Rightarrow> nat" where
  "running_members ms = count_state ms {''running'', ''canceling''}"

lemma count_state_simps [simp]:
  "count_state [] S = 0" "count_state (x # xs) S = (if bm_State x \<in> S then 1 else 0) + count_state xs S"
  by (simp_all add: count_state_def)

lemma child_record_simps [simp]:
  "op_ID (child_record now root x) = bm_OperationID x" "op_State (child_record now root x) = ''running''"
  "op_Batch (child_record now root x) = None" "op_BatchID (child_record now root x) = op_ID root"
  "op_EnvironmentTest (child_record now root x) = None"
  "rq_Create (op_Request (child_record now root x)) = None" "rq_Clone (op_Request (child_record now root x)) = None"
  by (simp_all add: child_record_def Let_def)

definition is_child :: "NodeOperation \<Rightarrow> runningNodeOperation \<Rightarrow> bool" where
  "is_child root k \<longleftrightarrow> rn_active k \<and> rn_keys k = [] \<and> op_Batch (rn_record k) = None
     \<and> op_BatchID (rn_record k) = op_ID root \<and> op_State (rn_record k) = ''running''
     \<and> op_EnvironmentTest (rn_record k) = None \<and> rq_Create (op_Request (rn_record k)) = None
     \<and> rq_Clone (op_Request (rn_record k)) = None"

lemma spawn_result:
  assumes "spawn_members persist now root br act members = (ms, kids)"
    and "distinct (map bm_OperationID members)"
  shows "map bm_OperationID ms = map bm_OperationID members \<and> list_all (is_child root) kids
     \<and> set (map rn_ID kids) \<subseteq> set (queued_ids members) \<and> distinct (map rn_ID kids)
     \<and> act + length kids \<le> max act nodeOperationLimit
     \<and> br + length kids \<le> max br nodeBatchParallelism
     \<and> running_members ms = running_members members + length kids"
  using assms
proof (induction persist now root br act members arbitrary: ms kids rule: spawn_members.induct)
  case (1 persist now root br act)
  then show ?case by (simp add: queued_ids_def)
next
  case (2 persist now root br act x xs)
  have d: "distinct (map bm_OperationID xs)" "bm_OperationID x \<notin> bm_OperationID ` set xs"
    using "2.prems"(2) by auto
  have sub: "set (queued_ids xs) \<subseteq> bm_OperationID ` set xs" by (auto simp: queued_ids_def)
  consider (skip) "bm_State x \<noteq> ''queued'' \<or> br \<ge> nodeBatchParallelism \<or> act \<ge> nodeOperationLimit"
    | (fail) e where "bm_State x = ''queued''" "br < nodeBatchParallelism" "act < nodeOperationLimit"
        "persist (child_record now root x) = Some e"
    | (run) "bm_State x = ''queued''" "br < nodeBatchParallelism" "act < nodeOperationLimit"
        "persist (child_record now root x) = None"
    by (metis not_le option.exhaust)
  then show ?case
  proof cases
    case skip
    then obtain ms' where rec: "spawn_members persist now root br act xs = (ms', kids)" "ms = x # ms'"
      using "2.prems"(1) by (auto split: prod.splits)
    from "2.IH"(1) [OF skip rec(1) d(1)] rec(2) show ?thesis
      by (auto simp: queued_ids_def running_members_def)
  next
    case fail
    then have g: "\<not> (bm_State x \<noteq> ''queued'' \<or> br \<ge> nodeBatchParallelism \<or> act \<ge> nodeOperationLimit)" by auto
    obtain ms' where rec: "spawn_members persist now root br act xs = (ms', kids)"
        "ms = x\<lparr>bm_State := ''failed'', bm_Error := boundedOperationText (error_text e) 512\<rparr> # ms'"
      using "2.prems"(1) fail g by (auto simp: Let_def split: prod.splits)
    from "2.IH"(3) [OF g refl fail(4) rec(1) d(1)] rec(2) fail(1) show ?thesis
      by (auto simp: queued_ids_def running_members_def)
  next
    case run
    then have g: "\<not> (bm_State x \<noteq> ''queued'' \<or> br \<ge> nodeBatchParallelism \<or> act \<ge> nodeOperationLimit)" by auto
    obtain ms' kids' where rec: "spawn_members persist now root (br + 1) (act + 1) xs = (ms', kids')"
        "ms = x\<lparr>bm_State := ''running''\<rparr> # ms'"
        "kids = \<lparr>rn_record = child_record now root x, rn_keys = [], rn_active = True, rn_cause = None\<rparr> # kids'"
      using "2.prems"(1) run g by (auto simp: Let_def split: prod.splits)
    from "2.IH"(2) [OF g refl run(4) rec(1) d(1)] rec(2,3) run sub d(2) show ?thesis
      by (auto simp: queued_ids_def running_members_def is_child_def)
  qed
qed

lemma sync_member_simps [simp]: "bm_OperationID (sync_member m c x) = bm_OperationID x"
  by (simp add: sync_member_def split: option.splits)

lemma sync_queued:
  assumes "manager_inv m" "bm_State (sync_member m None x) = ''queued''"
  shows "bm_OperationID x \<notin> rn_ID ` set (mo_records m)"
proof -
  have "lookup_op m (bm_OperationID x) = None"
  proof (rule ccontr)
    assume "lookup_op m (bm_OperationID x) \<noteq> None"
    then obtain r where r: "lookup_op m (bm_OperationID x) = Some r" by auto
    then have "record_ok r" using lookup_op_Some assms(1) by (auto simp: manager_inv_def list_all_iff)
    then show False using assms(2) r by (simp add: sync_member_def record_ok_def)
  qed
  then show ?thesis by (simp add: lookup_op_None)
qed

lemma recount_simps [simp]:
  "nb_Members (recount b) = nb_Members b" "nb_Running (recount b) = running_members (nb_Members b)"
  by (simp_all add: recount_def Let_def running_members_def)

lemma finish_batch_simps [simp]:
  "op_ID (finish_batch summary now cause b r) = op_ID r"
  "op_Batch (finish_batch summary now cause b r) = op_Batch r"
  "op_BatchID (finish_batch summary now cause b r) = op_BatchID r"
  "op_Request (finish_batch summary now cause b r) = op_Request r"
  "op_EnvironmentTest (finish_batch summary now cause b r) = op_EnvironmentTest r"
  "op_State (finish_batch summary now cause b r) \<noteq> ''running''"
  "op_State (finish_batch summary now cause b r) \<noteq> ''canceling''"
  "op_State (finish_batch summary now cause b r) \<noteq> ''queued''"
  by (auto simp: finish_batch_def Let_def split: option.splits cancelCause.splits)

definition pass_members ::
  "(NodeOperation \<Rightarrow> goError option) \<Rightarrow> gotime \<Rightarrow> nodeOperations \<Rightarrow> runningNodeOperation
     \<Rightarrow> NodeBatchState \<Rightarrow> NodeBatchMember list \<times> runningNodeOperation list" where
  "pass_members persist now m r batch =
     (let members = map (sync_member m (rn_cause r)) (nb_Members batch)
      in if rn_cause r = None
         then spawn_members persist now (rn_record r) (running_members members) (executingCountLocked m) members
         else (members, []))"

lemma batch_pass_members:
  assumes "batch_pass persist summary now m r batch = (r', kids)"
    and "pass_members persist now m r batch = (ms, kids')"
  shows "kids = kids' \<and> rn_ID r' = rn_ID r \<and> rn_keys r' = rn_keys r \<and> rn_cause r' = rn_cause r
     \<and> op_BatchID (rn_record r') = op_BatchID (rn_record r) \<and> op_Request (rn_record r') = op_Request (rn_record r)
     \<and> op_EnvironmentTest (rn_record r') = op_EnvironmentTest (rn_record r)
     \<and> (\<exists>b. op_Batch (rn_record r') = Some b \<and> nb_Members b = ms \<and> b = recount b)
     \<and> (if batch_settled (recount (batch\<lparr>nb_Members := ms\<rparr>))
        then \<not> rn_active r' \<and> \<not> live_state (op_State (rn_record r')) \<and> op_State (rn_record r') \<noteq> ''queued''
        else rn_active r' = rn_active r \<and> op_State (rn_record r') = op_State (rn_record r))"
proof -
  let ?b1 = "recount (batch\<lparr>nb_Members := map (sync_member m (rn_cause r)) (nb_Members batch)\<rparr>)"
  let ?b2 = "recount (?b1\<lparr>nb_Members := ms\<rparr>)"
  have same: "?b2 = recount (batch\<lparr>nb_Members := ms\<rparr>)" by (simp add: recount_def Let_def)
  have idem: "recount ?b2 = ?b2" by (simp add: recount_def Let_def)
  have nb: "nb_Running ?b1 = running_members (map (sync_member m (rn_cause r)) (nb_Members batch))" by simp
  have pass: "(if rn_cause r = None
             then spawn_members persist now (rn_record r) (nb_Running ?b1) (executingCountLocked m)
                    (map (sync_member m (rn_cause r)) (nb_Members batch))
             else (map (sync_member m (rn_cause r)) (nb_Members batch), [])) = (ms, kids')"
    unfolding nb using assms(2) unfolding pass_members_def Let_def .
  show ?thesis
  proof (cases "batch_settled ?b2")
    case True
    then show ?thesis
      using assms(1) idem unfolding batch_pass_def pass Let_def prod.case same [symmetric]
      by (auto split: option.splits)
  next
    case False
    then show ?thesis
      using assms(1) idem unfolding batch_pass_def pass Let_def prod.case same [symmetric] by auto
  qed
qed

text \<open>The children a pass starts: fresh, at most as many as both limits leave room for.\<close>

lemma pass_kids:
  assumes inv: "manager_inv m" and r: "r \<in> set (mo_records m)" and b: "op_Batch (rn_record r) = Some batch"
    and pm: "pass_members persist now m r batch = (ms, kids)"
  shows "map bm_OperationID ms = map bm_OperationID (nb_Members batch) \<and> list_all (is_child (rn_record r)) kids
      \<and> set (map rn_ID kids) \<inter> ({[]} \<union> rn_ID ` set (mo_records m)) = {} \<and> distinct (map rn_ID kids)
      \<and> executingCountLocked m + length kids \<le> nodeOperationLimit"
proof -
  let ?members = "map (sync_member m (rn_cause r)) (nb_Members batch)"
  have dm: "distinct (map bm_OperationID ?members)" "[] \<notin> set (map bm_OperationID ?members)"
    using inv r b by (auto simp: manager_inv_def list_all_iff record_ok_def o_def)
  have ids: "map bm_OperationID ?members = map bm_OperationID (nb_Members batch)" by (simp add: o_def)
  have lim: "executingCountLocked m \<le> nodeOperationLimit" using inv by (simp add: manager_inv_def)
  show ?thesis
  proof (cases "rn_cause r")
    case None
    then have "spawn_members persist now (rn_record r) (running_members ?members) (executingCountLocked m)
        ?members = (ms, kids)"
      using pm unfolding pass_members_def Let_def by simp
    note res = spawn_result [OF this dm(1)]
    have "k \<notin> rn_ID ` set (mo_records m) \<and> k \<noteq> []" if "k \<in> set (map rn_ID kids)" for k
    proof -
      have "k \<in> set (queued_ids ?members)" using res that by blast
      then obtain x where x: "x \<in> set (nb_Members batch)" "k = bm_OperationID x"
          "bm_State (sync_member m None x) = ''queued''"
        by (auto simp: queued_ids_def None)
      have "k \<in> set (map bm_OperationID ?members)" using x(1,2) by (auto simp: image_iff)
      then show ?thesis using sync_queued [OF inv x(3)] x(2) dm(2) by metis
    qed
    then have "set (map rn_ID kids) \<inter> ({[]} \<union> rn_ID ` set (mo_records m)) = {}" by blast
    moreover have "executingCountLocked m + length kids \<le> nodeOperationLimit"
      using res lim by (simp add: max_def split: if_splits)
    ultimately show ?thesis using res unfolding ids by blast
  next
    case (Some c)
    then have "ms = ?members" "kids = []" using pm unfolding pass_members_def Let_def by simp_all
    then show ?thesis using ids lim by simp
  qed
qed

text \<open>Adding fresh children of a batch to a manager that has room for them.\<close>

lemma add_kids_inv:
  assumes inv: "manager_inv m" and kids: "list_all (is_child root) kids" "op_ID root \<noteq> []"
      "set (map rn_ID kids) \<inter> ({[]} \<union> rn_ID ` set (mo_records m)) = {}" "distinct (map rn_ID kids)"
    and room: "executingCountLocked m + length kids \<le> nodeOperationLimit"
  shows "manager_inv (m\<lparr>mo_records := mo_records m @ kids\<rparr>)"
proof (rule manager_inv_append [OF inv])
  show "list_all record_ok kids"
    using kids(1,3) by (auto simp: list_all_iff is_child_def record_ok_def image_iff outcome_ok_def)
  show "distinct (map rn_ID (mo_records m @ kids))"
    using inv kids(3,4) by (auto simp: manager_inv_def)
  show "exclusive (mo_records m @ kids)"
    unfolding exclusive_def
  proof (intro ballI impI)
    fix a b assume ab: "a \<in> set (mo_records m @ kids)" "b \<in> set (mo_records m @ kids)"
      "rn_active a \<and> rn_active b \<and> rn_ID a \<noteq> rn_ID b"
    show "set (rn_keys a) \<inter> set (rn_keys b) = {}"
    proof (cases "a \<in> set kids \<or> b \<in> set kids")
      case True
      then show ?thesis using kids(1) by (auto simp: list_all_iff is_child_def)
    next
      case False
      then show ?thesis using ab inv by (simp add: manager_inv_def exclusive_def)
    qed
  qed
  show "executingCountLocked m + length (filter (\<lambda>r. op_Batch (rn_record r) = None) kids) \<le> nodeOperationLimit"
    using room length_filter_le [of "\<lambda>r. op_Batch (rn_record r) = None" kids] by linarith
  have "filter (\<lambda>q. op_BatchID (rn_record q) = []) kids = []"
    using kids(1,2) by (auto simp: filter_empty_conv list_all_iff is_child_def)
  then show "active_roots m + length (filter (\<lambda>r. op_BatchID (rn_record r) = []) kids) \<le> nodeOperationLimit"
    using inv by (simp add: manager_inv_def)
qed

text \<open>The root after a pass stays well formed and keeps its identity.\<close>

lemma pass_root_ok:
  assumes inv: "manager_inv m" and r: "lookup_op m i = Some r" and b: "op_Batch (rn_record r) = Some batch"
    and pass: "batch_pass persist summary now m r batch = (r', kids)"
    and q: "q \<in> set (mo_records m)" "rn_ID q = i"
  shows "tame (\<lambda>_. r') q \<and> set (rn_keys r') \<subseteq> set (rn_keys q)"
proof -
  obtain ms kids' where pm: "pass_members persist now m r batch = (ms, kids')" by fastforce
  note res = batch_pass_members [OF pass pm]
  have ri: "r \<in> set (mo_records m)" "rn_ID r = i" using lookup_op_Some [OF r] by auto
  have rok: "record_ok r" using inv ri by (auto simp: manager_inv_def list_all_iff)
  have "map bm_OperationID ms = map bm_OperationID (nb_Members batch)"
    using pass_kids [OF inv ri(1) b pm] by blast
  moreover have "distinct ([] # map bm_OperationID (nb_Members batch))" using rok b by (simp add: record_ok_def)
  ultimately have "distinct ([] # map bm_OperationID ms)" by metis
  then have "\<forall>b. op_Batch (rn_record r') = Some b \<longrightarrow> distinct ([] # map bm_OperationID (nb_Members b))"
    using res by auto
  moreover have "(rn_active r' \<longleftrightarrow> live_state (op_State (rn_record r'))) \<and> op_State (rn_record r') \<noteq> ''queued''"
    using res rok by (auto simp: record_ok_def split: if_splits)
  ultimately have "record_ok r'" using res rok unfolding record_ok_def by simp
  moreover have "q = r"
    using lookup_op_unique [OF _ q(1)] q(2) r inv by (simp add: manager_inv_def)
  ultimately show ?thesis using res b by (auto simp: tame_def split: if_splits)
qed

lemma runBatch_eq:
  assumes "lookup_op m i = Some r" "op_Batch (rn_record r) = Some batch"
    and "batch_pass persist summary now m r batch = (r', kids)"
  shows "runBatch persist summary now i m =
    (update_op i (\<lambda>_. r') m)\<lparr>mo_records := mo_records (update_op i (\<lambda>_. r') m) @ kids\<rparr>"
  using assms by (simp add: runBatch_def Let_def)

lemma runBatch_skip:
  "\<not> (\<exists>r b. lookup_op m i = Some r \<and> op_Batch (rn_record r) = Some b) \<Longrightarrow> runBatch persist summary now i m = m"
  by (auto simp: runBatch_def split: option.splits)

lemma runBatch_inv:
  assumes inv: "manager_inv m"
  shows "manager_inv (runBatch persist summary now i m)"
proof (cases "\<exists>r b. lookup_op m i = Some r \<and> op_Batch (rn_record r) = Some b")
  case False
  then show ?thesis using inv by (simp add: runBatch_skip)
next
  case True
  then obtain r batch where r: "lookup_op m i = Some r" and b: "op_Batch (rn_record r) = Some batch" by blast
  obtain r' kids where pass: "batch_pass persist summary now m r batch = (r', kids)" by fastforce
  obtain ms kids' where pm: "pass_members persist now m r batch = (ms, kids')" by fastforce
  note res = batch_pass_members [OF pass pm]
  have ri: "r \<in> set (mo_records m)" "rn_ID r = i" using lookup_op_Some [OF r] by auto
  have rid: "op_ID (rn_record r) \<noteq> []" using inv ri(1) by (auto simp: manager_inv_def list_all_iff record_ok_def)
  note kids = pass_kids [OF inv ri(1) b pm]
  have kk: "kids = kids'" using res by blast
  define m1 where "m1 = update_op i (\<lambda>_. r') m"
  have inv1: "manager_inv m1" unfolding m1_def by (rule update_op_inv [OF inv pass_root_ok [OF inv r b pass]])
  have "map rn_ID (mo_records m1) = map rn_ID (mo_records m)"
    using res ri by (auto simp: m1_def update_op_records)
  then have ids: "rn_ID ` set (mo_records m1) = rn_ID ` set (mo_records m)" by (metis set_map)
  have "executingCountLocked m1 \<le> executingCountLocked m"
    unfolding executingCountLocked_def m1_def update_op_records
    by (rule length_filter_map_le)
      (use pass_root_ok [OF inv r b pass] in \<open>auto simp: tame_def split: if_splits\<close>)
  moreover have "executingCountLocked m + length kids \<le> nodeOperationLimit" using kids kk by blast
  ultimately have room: "executingCountLocked m1 + length kids \<le> nodeOperationLimit" by linarith
  have "set (map rn_ID kids) \<inter> ({[]} \<union> rn_ID ` set (mo_records m1)) = {}" using kids kk ids by simp
  from add_kids_inv [OF inv1 _ rid this _ room] kids kk
  show ?thesis unfolding runBatch_eq [OF r b pass] m1_def by blast
qed

section \<open>Recovery\<close>

lemma recover_record_simps [simp]:
  "op_ID (recover_record f) = op_ID f" "op_Batch (recover_record f) = op_Batch f"
  "op_BatchID (recover_record f) = op_BatchID f" "op_Request (recover_record f) = op_Request f"
  "op_EnvironmentTest (recover_record f) = op_EnvironmentTest f" "op_NodeID (recover_record f) = op_NodeID f"
  "op_State (recover_record f) = (if live_state (op_State f) then ''interrupted'' else op_State f)"
  by (simp_all add: recover_record_def finishNodeOperationPhases_def)

text \<open>A record of the daemon's own on disk.\<close>

definition file_ok :: "NodeOperation \<Rightarrow> bool" where
  "file_ok f \<longleftrightarrow> op_ID f \<noteq> [] \<and> op_State f \<noteq> ''queued'' \<and> outcome_ok (op_EnvironmentTest f)
     \<and> (\<forall>b. op_Batch f = Some b \<longrightarrow> distinct ([] # map bm_OperationID (nb_Members b)))"

definition loaded :: "gotime \<Rightarrow> NodeOperation list \<Rightarrow> nodeOperations" where
  "loaded now files =
     \<lparr>mo_records = map recovered_entry (filter (\<lambda>f. \<not> operationExpired now f) files), mo_closed = False\<rparr>"

lemma recovered_entry_simps [simp]:
  "rn_record (recovered_entry f) = recover_record f" "rn_keys (recovered_entry f) = []"
  "\<not> rn_active (recovered_entry f)" "rn_cause (recovered_entry f) = None"
  by (simp_all add: recovered_entry_def)

lemma load_records_result:
  "load_records persist remove now files = Inr rs \<Longrightarrow> rs = mo_records (loaded now files)"
proof (induction persist remove now files arbitrary: rs rule: load_records.induct)
  case (2 persist remove now f fs)
  show ?case
  proof (cases "operationExpired now f")
    case True
    then show ?thesis using 2 by (auto simp: loaded_def split: option.splits)
  next
    case False
    from False "2.prems" obtain rs' where
      "(if live_state (op_State f) then persist (recover_record f) else None) = None"
      "load_records persist remove now fs = Inr rs'" "rs = recovered_entry f # rs'"
      by (auto split: option.splits sum.splits if_splits simp: map_sum_def)
    then show ?thesis using "2.IH"(2) [OF False] False by (auto simp: loaded_def)
  qed
qed (simp add: loaded_def)

lemma load_records_complete:
  "\<forall>x. persist x = None \<Longrightarrow> \<forall>i. remove i = None \<Longrightarrow>
     load_records persist remove now files = Inr (mo_records (loaded now files))"
  by (induction files) (auto simp: loaded_def)

text \<open>The list of the records after the pending tests are taken up.\<close>

lemma resume_tests_result:
  "resume_tests validate persist rs = Inr rs' \<Longrightarrow> list_all2 (\<lambda>r r'. resume_test validate persist r = Inr r') rs rs'"
proof (induction rs arbitrary: rs')
  case (Cons r rs)
  then obtain r' rs'' where "resume_test validate persist r = Inr r'"
      "resume_tests validate persist rs = Inr rs''" "rs' = r' # rs''"
    by (cases "resume_test validate persist r"; cases "resume_tests validate persist rs") auto
  with Cons.IH show ?case by simp
qed simp

lemma resume_test_cases:
  assumes "resume_test validate persist r = Inr r'"
  obtains (rest) "pending_test (rn_record r) = None" "r' = r"
    | (resumed) t plan where "pending_test (rn_record r) = Some t" "et_Plan t = Some plan" "validate (et_Plan t) = None"
        "op_NodeID (rn_record r) = n_ID (tp_Node plan)" "rq_Kind (op_Request (rn_record r)) = ''test-environment''"
        "r' = r\<lparr>rn_record := resumed_record t (rn_record r), rn_keys := environmentTestKeys t, rn_active := True\<rparr>"
  using assms by (auto simp: resume_test_def split: option.splits if_splits)

lemma loaded_inv:
  assumes "distinct (map op_ID files)" "list_all file_ok files"
  shows "manager_inv (loaded now files)"
proof -
  have "map rn_ID (mo_records (loaded now files)) = map op_ID (filter (\<lambda>f. \<not> operationExpired now f) files)"
    by (simp add: loaded_def)
  then have "distinct (map rn_ID (mo_records (loaded now files)))"
    using assms(1) by (simp add: distinct_map_filter)
  moreover have "list_all record_ok (mo_records (loaded now files))"
    using assms(2) by (auto simp: loaded_def list_all_iff file_ok_def record_ok_def)
  moreover have "\<forall>r \<in> set (mo_records (loaded now files)). \<not> rn_active r" by (auto simp: loaded_def)
  ultimately show ?thesis
    by (simp add: manager_inv_def exclusive_def executingCountLocked_def active_roots_def filter_empty_conv)
qed

lemma recover_member_simps [simp]: "bm_OperationID (recover_member m root x) = bm_OperationID x"
  by (simp add: recover_member_def split: option.splits)

definition recover_root :: "nodeOperations \<Rightarrow> runningNodeOperation \<Rightarrow> runningNodeOperation" where
  "recover_root m r =
     (case op_Batch (rn_record r) of
        Some batch \<Rightarrow>
          if op_State (rn_record r) \<noteq> ''interrupted'' then r
          else r\<lparr>rn_record := (rn_record r)\<lparr>op_Batch := Some (recount
                 (batch\<lparr>nb_Members := map (recover_member m (rn_ID r)) (nb_Members batch)\<rparr>))\<rparr>\<rparr>
      | None \<Rightarrow> r)"

lemma recoverBatches_records: "mo_records (recoverBatches m) = map (recover_root m) (mo_records m)"
  by (simp add: recoverBatches_def recover_root_def)

lemma recoverBatches_inv: "manager_inv m \<Longrightarrow> manager_inv (recoverBatches m)"
proof (rule manager_inv_tame [OF _ recoverBatches_records])
  assume inv: "manager_inv m"
  show "\<forall>r \<in> set (mo_records m). tame (recover_root m) r
      \<and> set (rn_keys (recover_root m r)) \<subseteq> set (rn_keys r)"
  proof
    fix r assume "r \<in> set (mo_records m)"
    then have "record_ok r" using inv by (auto simp: manager_inv_def list_all_iff)
    then show "tame (recover_root m) r \<and> set (rn_keys (recover_root m r)) \<subseteq> set (rn_keys r)"
      by (auto simp: tame_def record_ok_def recover_root_def o_def split: option.splits)
  qed
qed simp


section \<open>A manager that was loaded\<close>

text \<open>
  The receipts of tests whose cleanup is pending. \<open>sl\<close> is the slug that each node identity was
  created with; no code changes it later.
\<close>

definition receipts :: "NodeOperation list \<Rightarrow> EnvironmentTestState list" where
  "receipts files = List.map_filter pending_test files"

definition plan_node :: "EnvironmentTestState \<Rightarrow> Node" where
  "plan_node t = (case et_Plan t of Some plan \<Rightarrow> tp_Node plan | None \<Rightarrow> zero_node)"

definition receipts_ok :: "(string \<Rightarrow> string) \<Rightarrow> NodeOperation list \<Rightarrow> bool" where
  "receipts_ok sl files \<longleftrightarrow>
     length (receipts files) \<le> nodeOperationLimit
     \<and> distinct (concat (map environmentTestKeys (receipts files)))
     \<and> (\<forall>t \<in> set (receipts files). n_Slug (plan_node t) = sl (n_ID (plan_node t)))"

lemma receipts_simps [simp]:
  "receipts [] = []"
  "receipts (f # fs) = (case pending_test f of Some t \<Rightarrow> t # receipts fs | None \<Rightarrow> receipts fs)"
  by (simp_all add: receipts_def List.map_filter_simps split: option.splits)

lemma pending_not_expired: "pending_test f = Some t \<Longrightarrow> \<not> operationExpired now f"
  by (auto simp: pending_test_def operationExpired_def split: option.splits if_splits)

lemma receipts_unexpired: "receipts (filter (\<lambda>f. \<not> operationExpired now f) files) = receipts files"
  by (induction files) (auto split: option.splits dest: pending_not_expired)

definition resumed_entry :: "NodeOperation \<Rightarrow> runningNodeOperation \<Rightarrow> bool" where
  "resumed_entry f r \<longleftrightarrow> rn_ID r = op_ID f \<and> record_ok r
     \<and> (case pending_test f of
          None \<Rightarrow> \<not> rn_active r
        | Some t \<Rightarrow> rn_active r \<and> rn_keys r = environmentTestKeys t
            \<and> rq_Kind (op_Request (rn_record r)) = ''test-environment'')"

lemma resumed_entry_active:
  "resumed_entry f r \<Longrightarrow> rn_active r \<Longrightarrow> \<exists>t. pending_test f = Some t \<and> rn_keys r = environmentTestKeys t
     \<and> rq_Kind (op_Request (rn_record r)) = ''test-environment''"
  by (auto simp: resumed_entry_def split: option.splits)

lemma receipts_mem:
  "list_all2 resumed_entry fs rs \<Longrightarrow> r \<in> set rs \<Longrightarrow> rn_active r \<Longrightarrow>
     \<exists>t \<in> set (receipts fs). rn_keys r = environmentTestKeys t
       \<and> rq_Kind (op_Request (rn_record r)) = ''test-environment''"
  by (induction rule: list_all2_induct) (auto dest!: resumed_entry_active split: option.splits)

lemma exclusive_Cons:
  assumes "exclusive rs" "\<And>q. q \<in> set rs \<Longrightarrow> rn_active r \<Longrightarrow> rn_active q \<Longrightarrow> set (rn_keys r) \<inter> set (rn_keys q) = {}"
  shows "exclusive (r # rs)"
  unfolding exclusive_def
proof (intro ballI impI)
  fix a b assume ab: "a \<in> set (r # rs)" "b \<in> set (r # rs)" "rn_active a \<and> rn_active b \<and> rn_ID a \<noteq> rn_ID b"
  show "set (rn_keys a) \<inter> set (rn_keys b) = {}"
  proof (cases "a = r \<or> b = r")
    case True
    then show ?thesis using ab assms(2) [of a] assms(2) [of b] by auto
  next
    case False
    then show ?thesis using ab assms(1) by (auto simp: exclusive_def)
  qed
qed

lemma resumed_exclusive:
  "list_all2 resumed_entry fs rs \<Longrightarrow> distinct (concat (map environmentTestKeys (receipts fs))) \<Longrightarrow> exclusive rs"
proof (induction rule: list_all2_induct)
  case Nil
  show ?case by (simp add: exclusive_def)
next
  case (Cons f fs r rs)
  have "distinct (concat (map environmentTestKeys (receipts fs)))"
    using Cons.prems by (auto split: option.splits)
  note rest = Cons.IH [OF this]
  show ?case
  proof (rule exclusive_Cons [OF rest])
    fix q assume q: "q \<in> set rs" "rn_active r" "rn_active q"
    obtain t where t: "pending_test f = Some t" "rn_keys r = environmentTestKeys t"
      using resumed_entry_active [OF Cons.hyps(1) q(2)] by blast
    obtain u where u: "u \<in> set (receipts fs)" "rn_keys q = environmentTestKeys u"
      using receipts_mem [OF Cons.hyps(2) q(1,3)] by blast
    have "set (environmentTestKeys t) \<inter> set (concat (map environmentTestKeys (receipts fs))) = {}"
      using Cons.prems t(1) by simp
    then show "set (rn_keys r) \<inter> set (rn_keys q) = {}" using t(2) u by auto
  qed
qed

lemma resumed_count:
  "list_all2 resumed_entry fs rs \<Longrightarrow> length (filter rn_active rs) = length (receipts fs)"
  by (induction rule: list_all2_induct) (auto simp: resumed_entry_def split: option.splits)

lemma environmentTestKeys_ok: "\<forall>k \<in> set (environmentTestKeys t). TrimSpace k \<noteq> []"
  using key_not_blank by (auto simp: environmentTestKeys_def Let_def)

lemma resumed_record_simps [simp]:
  "op_ID (resumed_record t f) = op_ID f" "op_State (resumed_record t f) = ''running''"
  "op_Batch (resumed_record t f) = op_Batch f" "op_Request (resumed_record t f) = op_Request f"
  "op_BatchID (resumed_record t f) = op_BatchID f" "op_Phases (resumed_record t f) = op_Phases f"
  "op_EnvironmentTest (resumed_record t f) = Some (interrupted_test t)" "op_FinishedAt (resumed_record t f) = None"
  by (simp_all add: resumed_record_def)

lemma recover_root_tests [simp]:
  "op_EnvironmentTest (rn_record (recover_root m r)) = op_EnvironmentTest (rn_record r)"
  "rn_ID (recover_root m r) = rn_ID r" "rn_active (recover_root m r) = rn_active r"
  by (simp_all add: recover_root_def split: option.splits)

lemma pending_recovered: "pending_test (rn_record (recover_root m (recovered_entry f))) = pending_test f"
  by (simp add: pending_test_def)

lemma load_operations_resumed:
  assumes "load_operations validate persist remove now files = Inr m"
  shows "\<not> mo_closed m \<and> list_all2 (\<lambda>f r. resume_test validate persist
      (recover_root (loaded now files) (recovered_entry f)) = Inr r)
      (filter (\<lambda>f. \<not> operationExpired now f) files) (mo_records m)"
proof -
  obtain rs where rs: "load_records persist remove now files = Inr rs"
    using assms by (auto simp: load_operations_def split: sum.splits)
  have l: "\<lparr>mo_records = rs, mo_closed = False\<rparr> = loaded now files"
    using load_records_result [OF rs] by (simp add: loaded_def)
  obtain rs' where rs': "resume_tests validate persist (mo_records (recoverBatches (loaded now files))) = Inr rs'"
      "m = (recoverBatches (loaded now files))\<lparr>mo_records := rs'\<rparr>"
    using assms rs l by (auto simp: load_operations_def Let_def map_sum_def split: option.splits sum.splits)
  have "list_all2 (\<lambda>r r'. resume_test validate persist r = Inr r')
      (map (recover_root (loaded now files)) (mo_records (loaded now files))) rs'"
    using resume_tests_result [OF rs'(1)] by (simp add: recoverBatches_records)
  moreover have "\<not> mo_closed (recoverBatches (loaded now files))" by (simp add: recoverBatches_def loaded_def)
  ultimately show ?thesis by (simp add: rs'(2) list_all2_map1 loaded_def)
qed

lemma resumed_entry_file:
  assumes "manager_inv (recoverBatches (loaded now files))" "f \<in> set files" "\<not> operationExpired now f"
    and "resume_test validate persist (recover_root (loaded now files) (recovered_entry f)) = Inr r"
  shows "resumed_entry f r"
proof -
  let ?q = "recover_root (loaded now files) (recovered_entry f)"
  have "?q \<in> set (mo_records (recoverBatches (loaded now files)))"
    using assms(2,3) by (auto simp: recoverBatches_records loaded_def)
  then have ok: "record_ok ?q" using assms(1) by (auto simp: manager_inv_def list_all_iff)
  show ?thesis
  proof (rule resume_test_cases [OF assms(4)])
    assume "pending_test (rn_record ?q) = None" "r = ?q"
    then show ?thesis using ok by (auto simp: resumed_entry_def pending_recovered)
  next
    fix t plan assume t: "pending_test (rn_record ?q) = Some t" "rq_Kind (op_Request (rn_record ?q)) = ''test-environment''"
      "r = ?q\<lparr>rn_record := resumed_record t (rn_record ?q), rn_keys := environmentTestKeys t, rn_active := True\<rparr>"
    have "outcome_ok (Some t)"
      using ok t(1) by (auto simp: record_ok_def pending_test_def split: option.splits if_splits)
    then have "outcome_ok (Some (interrupted_test t))" by (simp add: outcome_ok_def interrupted_test_def)
    then show ?thesis using ok t environmentTestKeys_ok
      by (auto simp: resumed_entry_def pending_recovered record_ok_def)
  qed
qed

lemma load_operations_entries:
  assumes "distinct (map op_ID files)" "list_all file_ok files"
    and "load_operations validate persist remove now files = Inr m"
  shows "list_all2 resumed_entry (filter (\<lambda>f. \<not> operationExpired now f) files) (mo_records m)"
proof -
  have inv: "manager_inv (recoverBatches (loaded now files))"
    by (rule recoverBatches_inv [OF loaded_inv [OF assms(1,2)]])
  have "list_all2 (\<lambda>f r. resume_test validate persist (recover_root (loaded now files) (recovered_entry f)) = Inr r)
      (filter (\<lambda>f. \<not> operationExpired now f) files) (mo_records m)"
    using load_operations_resumed [OF assms(3)] by blast
  then show ?thesis
    by (rule list.rel_mono_strong) (auto intro: resumed_entry_file [OF inv])
qed

section \<open>Slug keys\<close>

text \<open>
  An operation on a node holds the key of its slug beside that of its identity, and one that
  creates or clones a node holds the key of the slug that the request asks for: the reason why a
  node that is being created cannot get a second operation. \<open>created_slug\<close> is the slug that the
  new node gets (\<open>createNode\<close> takes the request's, \<open>cloneNode\<close> trims it first).
\<close>

definition requested_slug :: "NodeOperationRequest \<Rightarrow> string option" where
  "requested_slug request =
     (if rq_Kind request = ''create'' then map_option ci_Slug (rq_Create request)
      else if rq_Kind request = ''clone'' then map_option cl_NodeSlug (rq_Clone request) else None)"

definition created_slug :: "NodeOperationRequest \<Rightarrow> string option" where
  "created_slug request =
     (if rq_Kind request = ''create'' then map_option ci_Slug (rq_Create request)
      else if rq_Kind request = ''clone'' then map_option (\<lambda>c. TrimSpace (cl_NodeSlug c)) (rq_Clone request)
      else None)"

definition keyed :: "(string \<Rightarrow> string) \<Rightarrow> string list \<Rightarrow> bool" where
  "keyed sl keys \<longleftrightarrow> (\<forall>i. ''node:'' @ i \<in> set keys \<longrightarrow> ''slug:'' @ sl i \<in> set keys)"

definition slugged :: "(string \<Rightarrow> string) \<Rightarrow> runningNodeOperation \<Rightarrow> bool" where
  "slugged sl r \<longleftrightarrow> keyed sl (rn_keys r)
     \<and> (\<forall>s. requested_slug (op_Request (rn_record r)) = Some s \<longrightarrow> ''slug:'' @ s \<in> set (rn_keys r))"

definition slugs_ok :: "(string \<Rightarrow> string) \<Rightarrow> nodeOperations \<Rightarrow> bool" where
  "slugs_ok sl m \<longleftrightarrow> (\<forall>r \<in> set (mo_records m). rn_active r \<longrightarrow> slugged sl r)"

lemma slugs_ok_map:
  assumes "slugs_ok sl m" "mo_records m' = map f (mo_records m)"
    and "\<And>r. r \<in> set (mo_records m) \<Longrightarrow> rn_active (f r) \<Longrightarrow> rn_active r \<and> rn_keys (f r) = rn_keys r
      \<and> op_Request (rn_record (f r)) = op_Request (rn_record r)"
  shows "slugs_ok sl m'"
  using assms by (auto simp: slugs_ok_def slugged_def)

lemma slugs_ok_update:
  assumes "slugs_ok sl m"
    and "\<And>r. r \<in> set (mo_records m) \<Longrightarrow> rn_ID r = i \<Longrightarrow> rn_active (f r) \<Longrightarrow> rn_active r \<and> rn_keys (f r) = rn_keys r
      \<and> op_Request (rn_record (f r)) = op_Request (rn_record r)"
  shows "slugs_ok sl (update_op i f m)"
  using assms by (intro slugs_ok_map [OF assms(1) update_op_records]) auto

lemma slugs_ok_append:
  "slugs_ok sl m \<Longrightarrow> list_all (slugged sl) kids \<Longrightarrow> slugs_ok sl (m\<lparr>mo_records := mo_records m @ kids\<rparr>)"
  by (auto simp: slugs_ok_def list_all_iff)

lemma slugs_ok_sub:
  "slugs_ok sl m \<Longrightarrow> set (mo_records m') \<subseteq> set (mo_records m) \<Longrightarrow> slugs_ok sl m'"
  by (auto simp: slugs_ok_def)

text \<open>What the store and the preparation of a test answer.\<close>

definition good_env :: "(string \<Rightarrow> string) \<Rightarrow> submitEnv \<Rightarrow> bool" where
  "good_env sl env \<longleftrightarrow> inj (sv_newID env) \<and> [] \<notin> range (sv_newID env)
     \<and> (\<forall>q n. sv_store env q = Inr n \<longrightarrow> n_Slug n = sl (n_ID n))
     \<and> (\<forall>q n. sv_nodeByID env q = Inr n \<longrightarrow> n_Slug n = sl (n_ID n))
     \<and> (\<forall>q t. sv_test env q = Inr t \<longrightarrow> n_Slug (plan_node t) = sl (n_ID (plan_node t)) \<and> et_Outcome t = [])"

lemma normalize_slugged:
  assumes "normalize store request = Inr (node, keys)" "\<And>q n. store q = Inr n \<Longrightarrow> n_Slug n = sl (n_ID n)"
  shows "keyed sl keys \<and> (\<forall>s. requested_slug request = Some s \<longrightarrow> ''slug:'' @ s \<in> set keys)"
  using assms
  by (auto simp: normalize_def requested_slug_def keyed_def split: if_splits sum.splits option.splits)

lemma batch_members_keyed:
  "batch_members c nodeByID ni seen ts = Inr (ms, ks) \<Longrightarrow> (\<And>q n. nodeByID q = Inr n \<Longrightarrow> n_Slug n = sl (n_ID n)) \<Longrightarrow>
     keyed sl ks"
  by (induction c nodeByID ni seen ts arbitrary: ms ks rule: batch_members.induct)
    (auto simp: keyed_def split: if_splits sum.splits)

lemma test_keys_keyed: "n_Slug (plan_node t) = sl (n_ID (plan_node t)) \<Longrightarrow> keyed sl (environmentTestKeys t)"
  by (auto simp: keyed_def environmentTestKeys_def plan_node_def Let_def)

lemma resolve_slugged:
  assumes "resolve_request env request = Inr (node, keys, batch, test)" "good_env sl env"
  shows "keyed sl keys \<and> (\<forall>s. requested_slug request = Some s \<longrightarrow> ''slug:'' @ s \<in> set keys) \<and> outcome_ok test"
proof -
  obtain node' keys' where n: "normalize (sv_store env) request = Inr (node', keys')"
    using assms(1) by (auto simp: resolve_request_def split: sum.splits)
  consider (b) "rq_Kind request = ''batch''" | (t) "rq_Kind request = ''test-environment''"
    | (other) "rq_Kind request \<notin> {''batch'', ''test-environment''}" by blast
  then show ?thesis
  proof cases
    case b
    then obtain ms where "batch_members (\<lambda>s. sv_uuid env s = Some s) (sv_nodeByID env) (sv_newID env) []
        (rq_Batch request) = Inr (ms, keys)" "test = None"
      using assms(1) n by (auto simp: resolve_request_def prepareBatch_def split: sum.splits if_splits)
    then show ?thesis using batch_members_keyed [of _ "sv_nodeByID env"] assms(2) b
      by (auto simp: good_env_def requested_slug_def outcome_ok_def)
  next
    case t
    then obtain x where "sv_test env (rq_Environment request) = Inr x" "keys = environmentTestKeys x" "test = Some x"
      using assms(1) n by (auto simp: resolve_request_def split: sum.splits)
    then show ?thesis using test_keys_keyed [of x sl] assms(2) t
      by (auto simp: good_env_def requested_slug_def outcome_ok_def)
  next
    case other
    then have "keys = keys'" "test = None" using assms(1) n by (auto simp: resolve_request_def)
    then show ?thesis using normalize_slugged [OF n, of sl] assms(2) by (auto simp: good_env_def outcome_ok_def)
  qed
qed

text \<open>The slug keys make a new node's identity free.\<close>

lemma bound_key_free:
  assumes inv: "manager_inv m" "slugs_ok sl m"
    and r: "lookup_op m i = Some r" "rn_active r" "''slug:'' @ sl j \<in> set (rn_keys r)"
    and q: "q \<in> set (mo_records m)" "rn_active q" "rn_ID q \<noteq> i"
  shows "''node:'' @ j \<notin> set (rn_keys q)"
proof
  assume "''node:'' @ j \<in> set (rn_keys q)"
  then have "''slug:'' @ sl j \<in> set (rn_keys q)" using inv(2) q by (auto simp: slugs_ok_def slugged_def keyed_def)
  moreover have "set (rn_keys r) \<inter> set (rn_keys q) = {}"
    using inv(1) q r(2) lookup_op_Some [OF r(1)] by (auto simp: manager_inv_def exclusive_def)
  ultimately show False using r(3) by blast
qed


section \<open>Interleaved operations\<close>

text \<open>
  The steps of the manager, each atomic under its mutex. A submission resolves its request
  before it takes the mutex for admission, so the step is the admission of any request that was
  resolved at some time; identifiers are non-empty and new ones are distinct. The node that
  an operation binds is the one that its request created.
\<close>

inductive ops_step :: "(string \<Rightarrow> string) \<Rightarrow> nodeOperations \<Rightarrow> nodeOperations \<Rightarrow> bool"
  for sl :: "string \<Rightarrow> string" where
  admit: "\<lbrakk>good_env sl env; rq_ID request \<noteq> []; resolve_request env request = Inr (node, keys, batch, test);
      submit_admit persist remove now request node keys batch test m = (m', res)\<rbrakk> \<Longrightarrow> ops_step sl m m'"
| prune: "pruneLocked remove now m = (m', err) \<Longrightarrow> ops_step sl m m'"
| bind: "\<lbrakk>lookup_op m i = Some r; rn_active r; created_slug (op_Request (rn_record r)) = Some (n_Slug node);
      n_Slug node = sl (n_ID node)\<rbrakk> \<Longrightarrow> ops_step sl m (bindCreatedNode persist i node m)"
| phase: "ops_step sl m (update_op i (\<lambda>r. r\<lparr>rn_record := fst (advancePhase persist now p d s (rn_record r))\<rparr>) m)"
| saved: "ops_step sl m (update_op i (\<lambda>r. r\<lparr>rn_record := fst (snd (flush persist w (rn_record r)))\<rparr>) m)"
| complete: "ops_step sl m (complete_op persist work i m)"
| test_ran: "ops_step sl m (update_op i (\<lambda>r. r\<lparr>rn_record := test_ran now (rn_cause r) e (rn_record r)\<rparr>) m)"
| test_retry: "ops_step sl m (update_op i (\<lambda>r. r\<lparr>rn_record := test_cleanup_failed e (rn_record r)\<rparr>) m)"
| test_end: "ops_step sl m (runEnvironmentTest_end persist now cleanupErr runErr i m)"
| cancel: "Cancel persist i m = (m', err) \<Longrightarrow> ops_step sl m m'"
| batch: "ops_step sl m (runBatch persist summary now i m)"
| close: "ops_step sl m (Close_operations m)"

text \<open>
  The manager starts with what it loaded. Of the records on disk at most 16 have a pending
  cleanup, of different environments and private nodes; this is what a manager leaves on disk
  whose writes succeeded, since those operations were active.
\<close>

definition ops_init :: "(string \<Rightarrow> string) \<Rightarrow> nodeOperations \<Rightarrow> bool" where
  "ops_init sl m \<longleftrightarrow> (\<exists>validate persist remove now files. distinct (map op_ID files) \<and> list_all file_ok files
     \<and> receipts_ok sl files \<and> load_operations validate persist remove now files = Inr m)"

text \<open>The clones that run name the child without surrounding white space.\<close>

definition clones_trimmed :: "nodeOperations \<Rightarrow> bool" where
  "clones_trimmed m \<longleftrightarrow> (\<forall>r \<in> set (mo_records m). rn_active r \<longrightarrow>
     requested_slug (op_Request (rn_record r)) = created_slug (op_Request (rn_record r)))"

definition ops_next :: "(string \<Rightarrow> string) \<Rightarrow> nodeOperations \<Rightarrow> nodeOperations \<Rightarrow> bool" where
  "ops_next sl m m' \<longleftrightarrow> ops_step sl m m' \<and> clones_trimmed m"

definition ops_inv :: "(string \<Rightarrow> string) \<Rightarrow> nodeOperations \<Rightarrow> bool" where
  "ops_inv sl m \<longleftrightarrow> manager_inv m \<and> slugs_ok sl m"

lemma load_inv:
  assumes "ops_init sl m"
  shows "ops_inv sl m"
proof -
  obtain validate persist remove now files where
    f: "distinct (map op_ID files)" "list_all file_ok files" "receipts_ok sl files"
      "load_operations validate persist remove now files = Inr m" using assms by (auto simp: ops_init_def)
  let ?fs = "filter (\<lambda>f. \<not> operationExpired now f) files"
  have e: "list_all2 resumed_entry ?fs (mo_records m)" by (rule load_operations_entries [OF f(1,2,4)])
  have ids: "map rn_ID (mo_records m) = map op_ID ?fs"
    using e by (induction rule: list_all2_induct) (auto simp: resumed_entry_def)
  have ok: "list_all record_ok (mo_records m)"
    using e by (induction rule: list_all2_induct) (auto simp: resumed_entry_def)
  have "distinct (map rn_ID (mo_records m))" unfolding ids using f(1) by (simp add: distinct_map_filter)
  moreover have "exclusive (mo_records m)"
    using resumed_exclusive [OF e] f(3) by (simp add: receipts_unexpired receipts_ok_def)
  moreover have active: "length (filter rn_active (mo_records m)) \<le> nodeOperationLimit"
    using resumed_count [OF e] f(3) by (simp add: receipts_unexpired receipts_ok_def)
  moreover have le: "length (filter (\<lambda>r. rn_active r \<and> P r) rs) \<le> length (filter rn_active rs)"
    for P and rs :: "runningNodeOperation list"
    by (induction rs) auto
  ultimately have "manager_inv m" using ok
    by (auto simp: manager_inv_def executingCountLocked_def active_roots_def intro: order_trans [OF le active])
  moreover have "slugs_ok sl m"
    unfolding slugs_ok_def
  proof (intro ballI impI)
    fix r assume "r \<in> set (mo_records m)" "rn_active r"
    from receipts_mem [OF e this] obtain t where t: "t \<in> set (receipts files)" "rn_keys r = environmentTestKeys t"
        "rq_Kind (op_Request (rn_record r)) = ''test-environment''" by (auto simp: receipts_unexpired)
    then show "slugged sl r" using f(3) test_keys_keyed [of t sl]
      by (simp add: slugged_def receipts_ok_def requested_slug_def)
  qed
  ultimately show ?thesis by (simp add: ops_inv_def)
qed

lemma advance_frame:
  assumes "fst (advancePhase persist now p d s r) = r'"
  shows "op_ID r' = op_ID r \<and> op_State r' = op_State r \<and> op_Batch r' = op_Batch r \<and> op_BatchID r' = op_BatchID r
     \<and> op_Request r' = op_Request r \<and> op_EnvironmentTest r' = op_EnvironmentTest r"
  using assms unfolding advancePhase_def by (auto simp: Let_def split: if_splits option.splits)

lemma flush_frame:
  "op_ID (fst (snd (flush persist w r))) = op_ID r" "op_State (fst (snd (flush persist w r))) = op_State r"
  "op_Batch (fst (snd (flush persist w r))) = op_Batch r" "op_BatchID (fst (snd (flush persist w r))) = op_BatchID r"
  "op_Request (fst (snd (flush persist w r))) = op_Request r"
  "op_EnvironmentTest (fst (snd (flush persist w r))) = op_EnvironmentTest r"
  by (simp_all add: flush_def Let_def)

lemma record_change_inv:
  assumes inv: "manager_inv m"
    and f: "\<And>r. op_ID (g r) = op_ID (rn_record r) \<and> op_State (g r) = op_State (rn_record r)
        \<and> op_Batch (g r) = op_Batch (rn_record r) \<and> op_BatchID (g r) = op_BatchID (rn_record r)
        \<and> (outcome_ok (op_EnvironmentTest (rn_record r)) \<longrightarrow> outcome_ok (op_EnvironmentTest (g r)))"
  shows "manager_inv (update_op i (\<lambda>r. r\<lparr>rn_record := g r\<rparr>) m)"
proof (rule update_op_inv [OF inv])
  fix r assume "r \<in> set (mo_records m)"
  then have "record_ok r" using inv by (auto simp: manager_inv_def list_all_iff)
  then show "tame (\<lambda>r. r\<lparr>rn_record := g r\<rparr>) r \<and> set (rn_keys (r\<lparr>rn_record := g r\<rparr>)) \<subseteq> set (rn_keys r)"
    using f [of r] by (simp add: tame_def record_ok_def)
qed

lemma record_change_slugs:
  assumes "slugs_ok sl m" "\<And>r. op_Request (g r) = op_Request (rn_record r)"
  shows "slugs_ok sl (update_op i (\<lambda>r. r\<lparr>rn_record := g r\<rparr>) m)"
  by (rule slugs_ok_update [OF assms(1)]) (simp add: assms(2))

lemma record_change_ops:
  assumes "ops_inv sl m"
    and "\<And>r. op_ID (g r) = op_ID (rn_record r) \<and> op_State (g r) = op_State (rn_record r)
        \<and> op_Batch (g r) = op_Batch (rn_record r) \<and> op_BatchID (g r) = op_BatchID (rn_record r)
        \<and> (outcome_ok (op_EnvironmentTest (rn_record r)) \<longrightarrow> outcome_ok (op_EnvironmentTest (g r)))"
    and "\<And>r. op_Request (g r) = op_Request (rn_record r)"
  shows "ops_inv sl (update_op i (\<lambda>r. r\<lparr>rn_record := g r\<rparr>) m)"
  using assms record_change_inv record_change_slugs by (simp add: ops_inv_def)

lemma admit_ops:
  assumes inv: "ops_inv sl m" and env: "good_env sl env" and request: "rq_ID request \<noteq> []"
    and res: "resolve_request env request = Inr (node, keys, batch, test)"
    and admit: "submit_admit persist remove now request node keys batch test m = (m', res')"
  shows "ops_inv sl m'"
proof -
  note ok = resolve_ok [OF res] resolve_slugged [OF res env]
  have "manager_inv m'"
    by (rule admit_inv [OF _ admit]) (use inv ok env request in \<open>auto simp: ops_inv_def good_env_def\<close>)
  moreover have "slugs_ok sl m'"
  proof (rule admit_cases [OF admit])
    fix err assume "m' = fst (pruneLocked remove now m)"
    then show ?thesis using inv prune_inv [of m remove now] slugs_ok_sub [of sl m]
      by (cases "pruneLocked remove now m") (auto simp: ops_inv_def)
  next
    fix m1 assume "pruneLocked remove now m = (m1, None)"
      "m' = m1\<lparr>mo_records := mo_records m1 @ [\<lparr>rn_record = new_record now request node batch test,
            rn_keys = keys, rn_active = True, rn_cause = None\<rparr>]\<rparr>"
    moreover from this have "slugs_ok sl m1"
      using inv prune_inv [of m remove now] slugs_ok_sub [of sl m] by (auto simp: ops_inv_def)
    ultimately show ?thesis using ok(2) by (simp add: slugs_ok_append slugged_def)
  qed (use inv in \<open>simp add: ops_inv_def\<close>)
  ultimately show ?thesis by (simp add: ops_inv_def)
qed

lemma bind_ops:
  assumes inv: "ops_inv sl m" and trimmed: "clones_trimmed m" and r: "lookup_op m i = Some r" "rn_active r"
    and node: "created_slug (op_Request (rn_record r)) = Some (n_Slug node)" "n_Slug node = sl (n_ID node)"
  shows "ops_inv sl (bindCreatedNode persist i node m)"
proof -
  have mem: "r \<in> set (mo_records m)" "rn_ID r = i" using lookup_op_Some [OF r(1)] by auto
  have "requested_slug (op_Request (rn_record r)) = Some (sl (n_ID node))"
    using trimmed mem(1) r(2) node by (auto simp: clones_trimmed_def)
  then have key: "''slug:'' @ sl (n_ID node) \<in> set (rn_keys r)"
    using inv mem(1) r(2) by (auto simp: ops_inv_def slugs_ok_def slugged_def)
  have "manager_inv (bindCreatedNode persist i node m)"
    by (rule bind_inv) (use inv r key bound_key_free [of m sl i r "n_ID node"] in \<open>auto simp: ops_inv_def\<close>)
  moreover have uniq: "q = r" if "q \<in> set (mo_records m)" "rn_ID q = i" for q
    using inv that r(1) lookup_op_unique [of m q] by (auto simp: ops_inv_def manager_inv_def)
  have "slugs_ok sl (bindCreatedNode persist i node m)"
    using inv key uniq r(2) by (auto simp: slugs_ok_def slugged_def keyed_def bindCreatedNode_def
        update_op_records ops_inv_def split: if_splits)
  ultimately show ?thesis by (simp add: ops_inv_def)
qed

lemma runBatch_slugs:
  assumes inv: "manager_inv m" "slugs_ok sl m"
  shows "slugs_ok sl (runBatch persist summary now i m)"
proof (cases "\<exists>r b. lookup_op m i = Some r \<and> op_Batch (rn_record r) = Some b")
  case False
  then show ?thesis using inv by (simp add: runBatch_skip)
next
  case True
  then obtain r batch where r: "lookup_op m i = Some r" and b: "op_Batch (rn_record r) = Some batch" by blast
  obtain r' kids where pass: "batch_pass persist summary now m r batch = (r', kids)" by fastforce
  obtain ms kids' where pm: "pass_members persist now m r batch = (ms, kids')" by fastforce
  note res = batch_pass_members [OF pass pm]
  have ri: "r \<in> set (mo_records m)" "rn_ID r = i" using lookup_op_Some [OF r] by auto
  have "list_all (is_child (rn_record r)) kids" using pass_kids [OF inv(1) ri(1) b pm] res by blast
  then have "list_all (slugged sl) kids"
    by (auto simp: list_all_iff is_child_def slugged_def keyed_def requested_slug_def)
  moreover have "slugs_ok sl (update_op i (\<lambda>_. r') m)"
  proof (rule slugs_ok_update [OF inv(2)])
    fix q assume q: "q \<in> set (mo_records m)" "rn_ID q = i" "rn_active r'"
    have "q = r" using lookup_op_unique [of m q] inv(1) q r by (auto simp: manager_inv_def)
    then show "rn_active q \<and> rn_keys r' = rn_keys q \<and> op_Request (rn_record r') = op_Request (rn_record q)"
      using res q(3) by (auto split: if_splits)
  qed
  ultimately show ?thesis unfolding runBatch_eq [OF r b pass] by (rule slugs_ok_append [rotated])
qed

lemma cancel_slugs:
  assumes "slugs_ok sl m" "Cancel persist i m = (m', err)" "manager_inv m"
  shows "slugs_ok sl m'"
proof (cases "m' = m")
  case False
  let ?f = "\<lambda>r. r\<lparr>rn_record := (rn_record r)\<lparr>op_State := ''canceling''\<rparr>\<rparr>"
  have m': "m' = cancel_tree CanceledByUser i (update_op i ?f m)"
    using assms(2) False by (auto simp: Cancel_def split: option.splits if_splits)
  have "slugs_ok sl (update_op i ?f m)" by (rule slugs_ok_update [OF assms(1)]) simp
  then show ?thesis unfolding m'
    by (rule slugs_ok_map [where f = "\<lambda>r. if rn_ID r = i \<or> op_BatchID (rn_record r) = i \<and> i \<noteq> []
          then set_cause CanceledByUser r else r"])
      (auto simp: cancel_tree_def split: if_splits)
qed (use assms in simp)

lemma ops_step_inv: "ops_step sl m m' \<Longrightarrow> clones_trimmed m \<Longrightarrow> ops_inv sl m \<Longrightarrow> ops_inv sl m'"
proof (induction rule: ops_step.induct)
  case (admit env request node keys batch test persist remove now m m' res)
  then show ?case by (blast intro: admit_ops)
next
  case (prune remove now m m' err)
  then show ?case using prune_inv [of m remove now m' err] slugs_ok_sub [of sl m m'] by (simp add: ops_inv_def)
next
  case (bind m i r node persist)
  then show ?case by (blast intro: bind_ops)
next
  case (phase m i persist now p d s)
  show ?case by (rule record_change_ops [OF phase(2)]) (use advance_frame [OF refl] in auto)
next
  case (saved m i persist w)
  show ?case by (rule record_change_ops [OF saved(2)]) (auto simp: flush_frame)
next
  case (complete m persist work i)
  then show ?case unfolding ops_inv_def complete_op_def
    by (auto intro!: slugs_ok_update complete_inv [unfolded complete_op_def])
next
  case (test_ran m i now e)
  show ?case by (rule record_change_ops [OF test_ran(2)]) auto
next
  case (test_retry m i e)
  show ?case by (rule record_change_ops [OF test_retry(2)]) auto
next
  case (test_end m persist now cleanupErr runErr i)
  then show ?case unfolding ops_inv_def
    by (auto intro!: test_end_inv) (auto simp: runEnvironmentTest_end_def intro!: slugs_ok_update split: if_splits)
next
  case (cancel persist i m m' err)
  then show ?case using cancel_inv cancel_slugs by (auto simp: ops_inv_def)
next
  case (batch m persist summary now i)
  then show ?case by (simp add: ops_inv_def runBatch_inv runBatch_slugs)
next
  case (close m)
  have "slugs_ok sl (Close_operations m)"
    by (rule slugs_ok_map [of sl m _ "\<lambda>r. if rn_active r then set_cause DaemonClosed r else r"])
      (use close in \<open>auto simp: ops_inv_def Close_operations_def split: if_splits\<close>)
  with close show ?case by (simp add: ops_inv_def close_inv)
qed

interpretation ops: invariant_system "ops_init sl" "ops_next sl" "ops_inv sl" for sl
  by unfold_locales (auto simp: ops_next_def intro: load_inv ops_step_inv)


section \<open>Admission and repeated delivery\<close>

text \<open>
  Property C1: Operations that run at the same time never touch the same node, and the limits
  hold. The manager starts with what it loads from disk, where at most 16 records have a pending
  test cleanup, of different environments and private nodes, and every node keeps its slug (\<open>sl\<close>).
  Then, in every state that it reaches by any interleaving of its operations in which the running
  clones name their child without surrounding white space, two active operations hold disjoint keys
  (node identities and slugs), at most 16 operations execute and at most 16 requests are active,
  identifiers are unique, and an operation is active exactly while its record says that it is
  running or canceling. \<open>bindCreatedNode\<close> checks nothing: that the new node is free follows from the
  slug keys. A clone that pads its slug breaks this (\<open>untrimmed_clone_shares_node\<close>).
\<close>

theorem operations_exclusive_and_bounded:
  assumes "reachable (ops_init sl) (ops_next sl) m"
  shows "(\<forall>r \<in> set (mo_records m). \<forall>q \<in> set (mo_records m). rn_active r \<and> rn_active q \<and> rn_ID r \<noteq> rn_ID q
            \<longrightarrow> set (rn_keys r) \<inter> set (rn_keys q) = {})
     \<and> executingCountLocked m \<le> 16 \<and> active_roots m \<le> 16 \<and> distinct (map rn_ID (mo_records m))
     \<and> (\<forall>r \<in> set (mo_records m). rn_active r \<longleftrightarrow> live_state (op_State (rn_record r)))"
proof -
  have "manager_inv m" using ops.reachable_inv [OF assms] by (simp add: ops_inv_def)
  then show ?thesis
    unfolding manager_inv_def exclusive_def record_ok_def list_all_iff nodeOperationLimit_def by blast
qed

text \<open>
  A run with two active operations: a clone of the node \<open>n1\<close> whose child gets the slug \<open>s\<close>, and a
  start of the node \<open>n2\<close> with the slug \<open>dev2\<close>.
\<close>

definition sample_slug :: "string \<Rightarrow> string" where
  "sample_slug i = (if i = ''n1'' then ''src'' else if i = ''n2'' then ''dev2'' else ''dev3'')"

definition slug_node :: "string \<Rightarrow> Node" where
  "slug_node i = zero_node\<lparr>n_ID := i, n_Slug := sample_slug i\<rparr>"

definition slug_env :: submitEnv where
  "slug_env = \<lparr>sv_ctx = None, sv_oversize = False, sv_uuid = (\<lambda>s. Some s), sv_store = (\<lambda>q. Inr (slug_node q)),
     sv_nodeByID = (\<lambda>q. Inr (slug_node q)), sv_newID = (\<lambda>n. replicate (Suc n) CHR ''a''),
     sv_test = (\<lambda>_. Inl (OtherError [])), sv_persist = (\<lambda>_. None), sv_remove = (\<lambda>_. None),
     sv_now = 5, sv_countLabel = (\<lambda>_. ''nodes'')\<rparr>"

definition clone_request :: "string \<Rightarrow> NodeOperationRequest" where
  "clone_request s = \<lparr>rq_Environment = [], rq_Origin = ''cli'', rq_ID = ''o1'', rq_Kind = ''clone'', rq_Node = [],
     rq_Create = None, rq_Clone = Some \<lparr>cl_SourceNode = ''n1'', cl_NodeSlug = s, cl_Start = True\<rparr>, rq_Batch = []\<rparr>"

definition start_request :: NodeOperationRequest where
  "start_request = \<lparr>rq_Environment = [], rq_Origin = ''cli'', rq_ID = ''o2'', rq_Kind = ''start'', rq_Node = ''n2'',
     rq_Create = None, rq_Clone = None, rq_Batch = []\<rparr>"

definition clone_entry :: "string \<Rightarrow> runningNodeOperation" where
  "clone_entry s = \<lparr>rn_record = new_record 5 (clone_request s) (slug_node ''n1'') None None,
     rn_keys = [''node:n1'', ''slug:src'', ''slug:'' @ s], rn_active = True, rn_cause = None\<rparr>"

definition start_entry :: runningNodeOperation where
  "start_entry = \<lparr>rn_record = new_record 5 start_request (slug_node ''n2'') None None,
     rn_keys = [''node:n2'', ''slug:dev2''], rn_active = True, rn_cause = None\<rparr>"

lemma slug_env_good: "good_env sample_slug slug_env"
  by (auto simp: good_env_def slug_env_def slug_node_def inj_def)

lemma empty_manager_init: "ops_init sl \<lparr>mo_records = [], mo_closed = False\<rparr>"
proof -
  have "load_operations (\<lambda>_. None) (\<lambda>_. None) (\<lambda>_. None) 0 [] = Inr \<lparr>mo_records = [], mo_closed = False\<rparr>"
    by (simp add: load_operations_def recoverBatches_def batch_write_error_def)
  moreover have "receipts_ok sl []" by (simp add: receipts_ok_def)
  ultimately show ?thesis unfolding ops_init_def
    by (intro exI [of _ "\<lambda>_. None"] exI [of _ 0] exI [of _ "[]"]) simp
qed

lemma clone_admitted:
  "ops_step sample_slug \<lparr>mo_records = [], mo_closed = False\<rparr> \<lparr>mo_records = [clone_entry s], mo_closed = False\<rparr>"
proof (rule ops_step.admit [OF slug_env_good])
  show "rq_ID (clone_request s) \<noteq> []" by (simp add: clone_request_def)
  show "resolve_request slug_env (clone_request s) =
      Inr (slug_node ''n1'', [''node:n1'', ''slug:src'', ''slug:'' @ s], None, None)"
    by (simp add: resolve_request_def slug_env_def clone_request_def normalize_def slug_node_def sample_slug_def)
  show "submit_admit (\<lambda>_. None) (\<lambda>_. None) 5 (clone_request s) (slug_node ''n1'')
      [''node:n1'', ''slug:src'', ''slug:'' @ s] None None \<lparr>mo_records = [], mo_closed = False\<rparr> =
      (\<lparr>mo_records = [clone_entry s], mo_closed = False\<rparr>,
       Inr (new_record 5 (clone_request s) (slug_node ''n1'') None None))"
    by (simp add: submit_admit_def repeatedRequestLocked_def lookup_op_def pruneLocked_def conflicting_def
        active_roots_def executingCountLocked_def nodeOperationLimit_def clone_entry_def Let_def)
qed

lemma start_admitted:
  assumes "s \<noteq> ''dev2''"
  shows "ops_step sample_slug \<lparr>mo_records = [clone_entry s], mo_closed = False\<rparr>
    \<lparr>mo_records = [clone_entry s, start_entry], mo_closed = False\<rparr>"
proof (rule ops_step.admit [OF slug_env_good])
  show "rq_ID start_request \<noteq> []" by (simp add: start_request_def)
  show "resolve_request slug_env start_request = Inr (slug_node ''n2'', [''node:n2'', ''slug:dev2''], None, None)"
    by (simp add: resolve_request_def slug_env_def start_request_def normalize_def slug_node_def sample_slug_def)
  show "submit_admit (\<lambda>_. None) (\<lambda>_. None) 5 start_request (slug_node ''n2'') [''node:n2'', ''slug:dev2''] None None
      \<lparr>mo_records = [clone_entry s], mo_closed = False\<rparr> =
      (\<lparr>mo_records = [clone_entry s, start_entry], mo_closed = False\<rparr>,
       Inr (new_record 5 start_request (slug_node ''n2'') None None))"
    using assms
    by (simp add: submit_admit_def repeatedRequestLocked_def lookup_op_def pruneLocked_def conflicting_def
        active_roots_def executingCountLocked_def nodeOperationLimit_def clone_entry_def start_entry_def Let_def
        clone_request_def start_request_def operationConflicts_def operationExpired_def)
qed

definition bound_operations :: "string \<Rightarrow> string \<Rightarrow> nodeOperations" where
  "bound_operations s i =
     bindCreatedNode (\<lambda>_. None) ''o1'' (slug_node i) \<lparr>mo_records = [clone_entry s, start_entry], mo_closed = False\<rparr>"

lemma clone_bound:
  assumes "TrimSpace s = sample_slug i"
  shows "ops_step sample_slug \<lparr>mo_records = [clone_entry s, start_entry], mo_closed = False\<rparr> (bound_operations s i)"
  unfolding bound_operations_def
proof (rule ops_step.bind)
  show "lookup_op \<lparr>mo_records = [clone_entry s, start_entry], mo_closed = False\<rparr> ''o1'' = Some (clone_entry s)"
    by (simp add: lookup_op_def clone_entry_def clone_request_def)
  show "rn_active (clone_entry s)" by (simp add: clone_entry_def)
  show "created_slug (op_Request (rn_record (clone_entry s))) = Some (n_Slug (slug_node i))"
    using assms by (simp add: clone_entry_def created_slug_def clone_request_def slug_node_def)
  show "n_Slug (slug_node i) = sample_slug (n_ID (slug_node i))" by (simp add: slug_node_def)
qed

theorem operations_exclusive_and_bounded_witness:
  "map rn_active (mo_records (bound_operations ''dev3'' ''n3'')) = [True, True]
     \<and> map rn_ID (mo_records (bound_operations ''dev3'' ''n3'')) = [''o1'', ''o2'']
     \<and> set (rn_keys (mo_records (bound_operations ''dev3'' ''n3'') ! 0))
         \<inter> set (rn_keys (mo_records (bound_operations ''dev3'' ''n3'') ! 1)) = {}"
proof -
  let ?m0 = "\<lparr>mo_records = [], mo_closed = False\<rparr>"
  let ?m1 = "\<lparr>mo_records = [clone_entry ''dev3''], mo_closed = False\<rparr>"
  let ?m2 = "\<lparr>mo_records = [clone_entry ''dev3'', start_entry], mo_closed = False\<rparr>"
  let ?m3 = "bound_operations ''dev3'' ''n3''"
  have t: "TrimSpace ''dev3'' = ''dev3''" by code_simp
  then have trimmed: "clones_trimmed ?m1" "clones_trimmed ?m2" "clones_trimmed ?m0"
    by (simp_all add: clones_trimmed_def requested_slug_def created_slug_def clone_entry_def clone_request_def
        start_entry_def start_request_def)
  have "reachable (ops_init sample_slug) (ops_next sample_slug) ?m0"
    by (rule reach_init) (rule empty_manager_init)
  then have "reachable (ops_init sample_slug) (ops_next sample_slug) ?m1"
    by (rule reach_step) (simp add: ops_next_def trimmed clone_admitted)
  then have "reachable (ops_init sample_slug) (ops_next sample_slug) ?m2"
    by (rule reach_step) (simp add: ops_next_def trimmed start_admitted)
  then have "reachable (ops_init sample_slug) (ops_next sample_slug) ?m3"
    by (rule reach_step) (simp add: ops_next_def trimmed clone_bound t sample_slug_def)
  note ok = operations_exclusive_and_bounded [OF this]
  have rs: "\<exists>r q. mo_records ?m3 = [r, q] \<and> rn_ID r = ''o1'' \<and> rn_ID q = ''o2'' \<and> rn_active r \<and> rn_active q"
    by (simp add: bound_operations_def bindCreatedNode_def update_op_def clone_entry_def start_entry_def
        clone_request_def start_request_def)
  then obtain r q where "mo_records ?m3 = [r, q]" "rn_ID r = ''o1''" "rn_ID q = ''o2''" "rn_active r" "rn_active q" by blast
  with ok show ?thesis by auto
qed

text \<open>
  Without the condition on clones the keys are not exclusive. A clone that asks for the slug
  \<open>' dev2'\<close> holds the key of that text, the child gets the slug \<open>dev2\<close>, and a start of the
  child that comes in before the clone binds it is admitted: two active operations on one node.
\<close>

theorem untrimmed_clone_shares_node:
  "reachable (ops_init sample_slug) (ops_step sample_slug) (bound_operations '' dev2'' ''n2'')
     \<and> map rn_active (mo_records (bound_operations '' dev2'' ''n2'')) = [True, True]
     \<and> ''node:n2'' \<in> set (rn_keys (mo_records (bound_operations '' dev2'' ''n2'') ! 0))
     \<and> ''node:n2'' \<in> set (rn_keys (mo_records (bound_operations '' dev2'' ''n2'') ! 1))"
proof -
  let ?m0 = "\<lparr>mo_records = [], mo_closed = False\<rparr>"
  have t: "TrimSpace '' dev2'' = sample_slug ''n2''" by code_simp
  have "reachable (ops_init sample_slug) (ops_step sample_slug) ?m0" by (rule reach_init) (rule empty_manager_init)
  then have "reachable (ops_init sample_slug) (ops_step sample_slug)
      \<lparr>mo_records = [clone_entry '' dev2''], mo_closed = False\<rparr>" by (rule reach_step) (rule clone_admitted)
  then have "reachable (ops_init sample_slug) (ops_step sample_slug)
      \<lparr>mo_records = [clone_entry '' dev2'', start_entry], mo_closed = False\<rparr>"
    by (rule reach_step) (rule start_admitted, simp)
  then have "reachable (ops_init sample_slug) (ops_step sample_slug) (bound_operations '' dev2'' ''n2'')"
    by (rule reach_step) (rule clone_bound [OF t])
  then show ?thesis
    by (simp add: bound_operations_def bindCreatedNode_def update_op_def clone_entry_def start_entry_def
        clone_request_def start_request_def slug_node_def)
qed

lemma submit_request:
  assumes "Submit env request m = (m1, Inr record)"
  shows "\<exists>i. sv_uuid env (rq_ID request) = Some i \<and> op_ID record = i
     \<and> (op_Request record)\<lparr>rq_Origin := []\<rparr> = request\<lparr>rq_ID := i, rq_Origin := []\<rparr>"
proof -
  obtain i where i: "sv_ctx env = None" "\<not> sv_oversize env" "sv_uuid env (rq_ID request) = Some i"
    using assms by (auto simp: Submit_def split: option.splits if_splits)
  have rep: "op_ID record = i \<and> (op_Request record)\<lparr>rq_Origin := []\<rparr> = request\<lparr>rq_ID := i, rq_Origin := []\<rparr>"
    if "repeatedRequestLocked now m' (request\<lparr>rq_ID := i\<rparr>) = Some (Inr record)" for now m'
    using that lookup_op_Some [of m' i]
    by (auto simp: repeatedRequestLocked_def split: option.splits if_splits)
  show ?thesis
  proof (cases "repeatedRequestLocked (sv_now env) m (request\<lparr>rq_ID := i\<rparr>)")
    case (Some res)
    then have "res = Inr record" using assms i by (simp add: Submit_def Let_def)
    then show ?thesis using rep Some i by blast
  next
    case None
    then obtain node keys batch test where
      admit: "submit_admit (sv_persist env) (sv_remove env) (sv_now env) (request\<lparr>rq_ID := i\<rparr>) node keys batch test m
        = (m1, Inr record)"
      using assms i by (auto simp: Submit_def Let_def split: sum.splits)
    then have "record = new_record (sv_now env) (request\<lparr>rq_ID := i\<rparr>) node batch test"
      using None by (elim admit_cases) auto
    then show ?thesis using i by simp
  qed
qed

text \<open>
  Delivering a request twice runs it once. After a submission was accepted, a
  second delivery of the same request finds the retained operation and returns its current
  record without changing anything, whatever has become of the node in between (the store is
  not even asked); and a different request under the same identifier is refused.
\<close>

theorem resubmit_idempotent:
  assumes sub: "Submit env request m = (m1, Inr record)"
    and kept: "lookup_op m2 (op_ID record) = Some r" "op_Request (rn_record r) = op_Request record"
      "\<not> operationExpired (sv_now env2) (rn_record r)"
    and again: "sv_ctx env2 = None" "\<not> sv_oversize env2"
      "sv_uuid env2 (rq_ID request) = sv_uuid env (rq_ID request)"
  shows "Submit env2 request m2 = (m2, Inr (rn_record r))
     \<and> (\<forall>other. rq_ID other = rq_ID request
          \<and> other\<lparr>rq_ID := op_ID record, rq_Origin := []\<rparr> \<noteq> (op_Request record)\<lparr>rq_Origin := []\<rparr>
          \<longrightarrow> (\<exists>err. Submit env2 other m2 = (m2, Inl err)))"
proof -
  obtain i where i: "sv_uuid env (rq_ID request) = Some i" "op_ID record = i"
      "(op_Request record)\<lparr>rq_Origin := []\<rparr> = request\<lparr>rq_ID := i, rq_Origin := []\<rparr>"
    using submit_request [OF sub] by blast
  have rep: "repeatedRequestLocked (sv_now env2) m2 (q\<lparr>rq_ID := i\<rparr>) =
      Some (if q\<lparr>rq_ID := i, rq_Origin := []\<rparr> \<noteq> (op_Request record)\<lparr>rq_Origin := []\<rparr>
            then Inl (preconditionFailed ''operation id already belongs to another request'' [])
            else Inr (rn_record r))" for q
    using kept i(2) by (auto simp: repeatedRequestLocked_def)
  show ?thesis
    using again i rep by (auto simp: Submit_def Let_def)
qed

definition sample_env_submit :: submitEnv where
  "sample_env_submit = \<lparr>sv_ctx = None, sv_oversize = False, sv_uuid = (\<lambda>s. Some s),
     sv_store = (\<lambda>_. Inr (zero_node\<lparr>n_ID := ''n1'', n_Slug := ''dev''\<rparr>)),
     sv_nodeByID = (\<lambda>_. Inr zero_node), sv_newID = (\<lambda>n. replicate (Suc n) CHR ''a''),
     sv_test = (\<lambda>_. Inl (OtherError [])), sv_persist = (\<lambda>_. None), sv_remove = (\<lambda>_. None),
     sv_now = 5, sv_countLabel = (\<lambda>_. ''nodes'')\<rparr>"

theorem resubmit_idempotent_witness:
  "\<exists>m1 record. Submit sample_env_submit sample_request \<lparr>mo_records = [], mo_closed = False\<rparr> = (m1, Inr record)
     \<and> Submit (sample_env_submit\<lparr>sv_store := \<lambda>_. Inl (OtherError ''deleted'')\<rparr>) sample_request m1 = (m1, Inr record)"
proof -
  let ?m = "\<lparr>mo_records = [], mo_closed = False\<rparr>"
  let ?env2 = "sample_env_submit\<lparr>sv_store := \<lambda>_. Inl (OtherError ''deleted'')\<rparr>"
  define rec0 where "rec0 = new_record 5 sample_request (zero_node\<lparr>n_ID := ''n1'', n_Slug := ''dev''\<rparr>) None None"
  define r where "r = \<lparr>rn_record = rec0, rn_keys = [''node:n1'', ''slug:dev''], rn_active = True, rn_cause = None\<rparr>"
  have sub: "Submit sample_env_submit sample_request ?m = (\<lparr>mo_records = [r], mo_closed = False\<rparr>, Inr rec0)"
    unfolding rec0_def r_def
    by (simp add: Submit_def sample_env_submit_def repeatedRequestLocked_def lookup_op_def resolve_request_def
        normalize_def sample_request_def submit_admit_def pruneLocked_def conflicting_def active_roots_def
        executingCountLocked_def nodeOperationLimit_def Let_def)
  have kept: "lookup_op \<lparr>mo_records = [r], mo_closed = False\<rparr> (op_ID rec0) = Some r"
      "op_Request (rn_record r) = op_Request rec0" "\<not> operationExpired (sv_now ?env2) (rn_record r)"
    by (simp_all add: lookup_op_def r_def rec0_def operationExpired_def)
  have "Submit ?env2 sample_request \<lparr>mo_records = [r], mo_closed = False\<rparr> =
      (\<lparr>mo_records = [r], mo_closed = False\<rparr>, Inr (rn_record r))"
    using resubmit_idempotent [OF sub kept] by (simp add: sample_env_submit_def)
  with sub show ?thesis by (auto simp: r_def)
qed

section \<open>Completion\<close>

text \<open>
  Property C37: A completed operation reports what happened. When the work of an operation ends,
  the operation is no longer active, no phase is left running, and, if its record can be
  written, its state is: interrupted, without an end time, if the daemon closed; canceled if
  the user canceled it and the stop of a started machine (if any) succeeded; otherwise failed
  exactly when the work or that stop failed, and succeeded when neither did. If the record
  cannot be written, the state is failed with an internal error.
\<close>

theorem operation_completion:
  assumes "manager_inv m" "lookup_op m i = Some r"
  shows "\<exists>q. lookup_op (complete_op persist work i m) i = Some q \<and> \<not> rn_active q
     \<and> (\<forall>p \<in> set (op_Phases (rn_record q)). ph_State p \<noteq> ''running'')
     \<and> (if persist (complete_record work (rn_cause r) (rn_record r)) = None
        then op_State (rn_record q) =
               (if rn_cause r = Some DaemonClosed then ''interrupted''
                else if rn_cause r = Some CanceledByUser
                        \<and> (wk_cleanup work = [] \<or> (\<exists>n. wk_stop work = Inr n)) then ''canceled''
                else if wk_err work = None \<and> rn_cause r \<noteq> Some CanceledByUser then ''succeeded'' else ''failed'')
             \<and> (op_FinishedAt (rn_record q) = None \<longleftrightarrow> rn_cause r = Some DaemonClosed)
        else op_State (rn_record q) = ''failed'' \<and> op_ErrorCode (rn_record q) = 7)"
proof -
  define q where "q = r\<lparr>rn_record := save_completed persist (final_error work (rn_cause r))
      (complete_record work (rn_cause r) (rn_record r)), rn_active := False\<rparr>"
  have r: "r \<in> set (mo_records m)" "rn_ID r = i" using lookup_op_Some [OF assms(2)] by auto
  have "q \<in> set (mo_records (complete_op persist work i m))"
    using r by (auto simp: complete_op_def update_op_records q_def)
  moreover have "distinct (map rn_ID (mo_records (complete_op persist work i m)))"
    using complete_inv [OF assms(1)] by (simp add: manager_inv_def)
  ultimately have look: "lookup_op (complete_op persist work i m) i = Some q"
    using lookup_op_unique [of "complete_op persist work i m" q] r by (simp add: q_def)
  have phases: "op_Phases (save_completed persist e y) = op_Phases y"
      "op_Phases (complete_record work cause y) = op_Phases (finishNodeOperationPhases
         (phase_outcome (wk_err work) cause) (Some (wk_executed work)) y)" for e y cause
    by (simp_all add: save_completed_def complete_record_def Let_def split: option.splits)
  have "\<forall>p \<in> set (op_Phases (rn_record q)). ph_State p \<noteq> ''running''"
    by (auto simp: q_def phases finishNodeOperationPhases_def finish_phase_def phase_outcome_def)
  moreover have "op_FinishedAt (complete_record work cause y) = None \<longleftrightarrow> cause = Some DaemonClosed"
      for cause y
    by (cases "final_error work cause") (auto simp: complete_record_def Let_def)
  moreover have "op_State (complete_record work cause y) =
      (if cause = Some DaemonClosed then ''interrupted''
       else if cause = Some CanceledByUser \<and> (wk_cleanup work = [] \<or> (\<exists>n. wk_stop work = Inr n)) then ''canceled''
       else if wk_err work = None \<and> cause \<noteq> Some CanceledByUser then ''succeeded'' else ''failed'')" for cause y
    unfolding complete_record_state
    by (cases "wk_stop work") (auto simp: stop_error_def final_error_def)
  ultimately show ?thesis using look
    by (auto simp: q_def save_completed_def exit_codes split: option.splits)
qed

definition sample_work :: workOutcome where
  "sample_work = \<lparr>wk_err = Some (OtherError ''boot failed''), wk_node = zero_node, wk_cleanup = [],
     wk_stop = Inr zero_node, wk_executed = 8, wk_finished = 9\<rparr>"

definition sample_manager :: nodeOperations where
  "sample_manager = \<lparr>mo_records = [\<lparr>rn_record = sample_operation, rn_keys = [''node:n1''], rn_active = True,
     rn_cause = None\<rparr>], mo_closed = False\<rparr>"

lemma sample_manager_inv: "manager_inv sample_manager"
  using key_not_blank(1) [of "''n1''"]
  by (simp add: outcome_ok_def manager_inv_def sample_manager_def record_ok_def exclusive_def sample_operation_def
      executingCountLocked_def active_roots_def nodeOperationLimit_def)

theorem operation_completion_witness:
  "\<exists>q. lookup_op (complete_op (\<lambda>_. None) sample_work ''o1'' sample_manager) ''o1'' = Some q
     \<and> op_State (rn_record q) = ''failed''"
proof -
  have "lookup_op sample_manager ''o1'' = Some \<lparr>rn_record = sample_operation, rn_keys = [''node:n1''],
      rn_active = True, rn_cause = None\<rparr>"
    by (simp add: lookup_op_def sample_manager_def sample_operation_def)
  from operation_completion [OF sample_manager_inv this, of "\<lambda>_. None" sample_work]
  show ?thesis by (auto simp: sample_work_def)
qed

end
