(* ===== verification/OperationHistory.thy ===== *)
theory OperationHistory
  imports OperationRuns
begin

text \<open>
  What the batch runner achieves in one pass, what a restart makes of interrupted operations, and
  the paged history.
\<close>

section \<open>The batch runner\<close>

definition open_member :: "NodeBatchMember \<Rightarrow> bool" where
  "open_member x \<longleftrightarrow> bm_State x \<in> {''queued'', ''running'', ''canceling''}"

lemma count_state_0: "count_state ms S = 0 \<longleftrightarrow> (\<forall>x \<in> set ms. bm_State x \<notin> S)"
  by (auto simp: count_state_def filter_empty_conv)

lemma batch_settled_iff: "batch_settled (recount b) \<longleftrightarrow> (\<forall>x \<in> set (nb_Members b). \<not> open_member x)"
  by (auto simp: batch_settled_def recount_def Let_def count_state_0 open_member_def)

lemma all_succeeded_iff:
  "nb_Succeeded (recount b) = nb_Total (recount b) \<longleftrightarrow> (\<forall>x \<in> set (nb_Members b). bm_State x = ''succeeded'')"
proof -
  have "length (filter P xs) = length xs \<longleftrightarrow> (\<forall>x \<in> set xs. P x)" for P and xs :: "NodeBatchMember list"
    by (induction xs) (auto, metis Suc_n_not_le_n length_filter_le)
  then show ?thesis by (simp add: recount_def Let_def count_state_def)
qed

text \<open>The runner leaves a member queued only when one of the two limits is reached.\<close>

lemma spawn_conserving:
  assumes "spawn_members persist now root br act members = (ms, kids)" "x \<in> set ms" "bm_State x = ''queued''"
  shows "br + length kids \<ge> nodeBatchParallelism \<or> act + length kids \<ge> nodeOperationLimit"
  using assms
proof (induction persist now root br act members arbitrary: ms kids rule: spawn_members.induct)
  case (2 persist now root br act y ys)
  consider (skip) "bm_State y \<noteq> ''queued'' \<or> br \<ge> nodeBatchParallelism \<or> act \<ge> nodeOperationLimit"
    | (go) "\<not> (bm_State y \<noteq> ''queued'' \<or> br \<ge> nodeBatchParallelism \<or> act \<ge> nodeOperationLimit)"
    by blast
  then show ?case
  proof cases
    case skip
    then obtain ms' where rec: "spawn_members persist now root br act ys = (ms', kids)" "ms = y # ms'"
      using "2.prems"(1) by (auto split: prod.splits)
    show ?thesis
    proof (cases "x = y")
      case True
      then show ?thesis using skip "2.prems"(3) by auto
    next
      case False
      then show ?thesis using "2.IH"(1) [OF skip rec(1)] rec(2) "2.prems"(2,3) by auto
    qed
  next
    case go
    show ?thesis
    proof (cases "persist (child_record now root y)")
      case None
      then obtain ms' kids' where rec: "spawn_members persist now root (br + 1) (act + 1) ys = (ms', kids')"
          "ms = y\<lparr>bm_State := ''running''\<rparr> # ms'" "length kids = Suc (length kids')"
        using "2.prems"(1) go by (auto simp: Let_def split: prod.splits)
      then have "x \<in> set ms'" using "2.prems"(2,3) by auto
      from "2.IH"(2) [OF go refl None rec(1) this "2.prems"(3)] rec(3) show ?thesis by simp
    next
      case (Some e)
      then obtain ms' where rec: "spawn_members persist now root br act ys = (ms', kids)"
          "ms = y\<lparr>bm_State := ''failed'', bm_Error := boundedOperationText (error_text e) 512\<rparr> # ms'"
        using "2.prems"(1) go by (auto simp: Let_def split: prod.splits)
      then have "x \<in> set ms'" using "2.prems"(2,3) by auto
      from "2.IH"(3) [OF go refl Some rec(1) this "2.prems"(3)] show ?thesis .
    qed
  qed
qed simp

lemma executing_after_pass:
  assumes r: "lookup_op m i = Some r" "op_Batch (rn_record r) \<noteq> None" "op_Batch (rn_record r') \<noteq> None"
    and "distinct (map rn_ID (mo_records m))" and kids: "list_all (is_child root) kids"
  shows "executingCountLocked ((update_op i (\<lambda>_. r') m)\<lparr>mo_records := mo_records (update_op i (\<lambda>_. r') m) @ kids\<rparr>)
    = executingCountLocked m + length kids"
proof -
  have old: "(let q' = (if rn_ID q = i then r' else q) in rn_active q' \<and> op_Batch (rn_record q') = None)
      = (rn_active q \<and> op_Batch (rn_record q) = None)" if "q \<in> set (mo_records m)" for q
  proof (cases "rn_ID q = i")
    case True
    then have "q = r" using lookup_op_unique [OF assms(4) that] r(1) by simp
    then show ?thesis using True r by auto
  qed simp
  have "length (filter P (map f xs)) = length (filter Q xs)"
    if "\<forall>x \<in> set xs. P (f x) = Q x" for P Q f and xs :: "runningNodeOperation list"
    using that by (induction xs) auto
  from this [of "mo_records m" "\<lambda>q. rn_active q \<and> op_Batch (rn_record q) = None"
      "\<lambda>q. if rn_ID q = i then r' else q" "\<lambda>q. rn_active q \<and> op_Batch (rn_record q) = None"] old
  have "length (filter (\<lambda>q. rn_active q \<and> op_Batch (rn_record q) = None) (mo_records (update_op i (\<lambda>_. r') m)))
      = executingCountLocked m"
    by (simp add: update_op_records executingCountLocked_def Let_def)
  moreover have "filter (\<lambda>q. rn_active q \<and> op_Batch (rn_record q) = None) kids = kids"
    using kids by (auto simp: filter_id_conv list_all_iff is_child_def)
  ultimately show ?thesis by (simp add: executingCountLocked_def)
qed

text \<open>A pass over a batch that is being canceled starts nothing and leaves nothing queued.\<close>

lemma pass_canceled:
  assumes inv: "manager_inv m" and pm: "pass_members persist now m r batch = (ms, kids)" and c: "rn_cause r \<noteq> None"
  shows "kids = [] \<and> (\<forall>x \<in> set ms. bm_State x \<noteq> ''queued'')"
proof -
  have "bm_State (sync_member m (rn_cause r) x) \<noteq> ''queued''" for x
  proof (cases "lookup_op m (bm_OperationID x)")
    case (Some q)
    then have "record_ok q" using lookup_op_Some [OF Some] inv by (auto simp: manager_inv_def list_all_iff)
    then show ?thesis using Some by (simp add: sync_member_def record_ok_def)
  qed (use c in \<open>auto simp: sync_member_def split: if_splits\<close>)
  then show ?thesis using pm c by (auto simp: pass_members_def Let_def)
qed

text \<open>The state of the root after a pass that settles its batch.\<close>

definition root_outcome :: "cancelCause option \<Rightarrow> NodeBatchMember list \<Rightarrow> string" where
  "root_outcome cause ms =
     (case cause of
        Some DaemonClosed \<Rightarrow> ''interrupted''
      | Some CanceledByUser \<Rightarrow> ''canceled''
      | _ \<Rightarrow> if \<forall>x \<in> set ms. bm_State x = ''succeeded'' then ''succeeded'' else ''failed'')"

lemma finish_batch_outcome:
  "op_State (finish_batch summary now cause (recount b) rec0) = root_outcome cause (nb_Members b)"
  unfolding finish_batch_def root_outcome_def Let_def all_succeeded_iff
  by (auto split: option.splits cancelCause.splits)

lemma pass_outcome:
  assumes "batch_pass persist summary now m r batch = (r', kids)"
    and "pass_members persist now m r batch = (ms, kids')"
    and settled: "\<forall>x \<in> set ms. \<not> open_member x" and saved: "\<forall>x. persist x = None"
  shows "op_State (rn_record r') = root_outcome (rn_cause r) ms"
proof -
  let ?b1 = "recount (batch\<lparr>nb_Members := map (sync_member m (rn_cause r)) (nb_Members batch)\<rparr>)"
  let ?b2 = "?b1\<lparr>nb_Members := ms\<rparr>"
  have nb: "nb_Running ?b1 = running_members (map (sync_member m (rn_cause r)) (nb_Members batch))" by simp
  have pass: "(if rn_cause r = None
             then spawn_members persist now (rn_record r) (nb_Running ?b1) (executingCountLocked m)
                    (map (sync_member m (rn_cause r)) (nb_Members batch))
             else (map (sync_member m (rn_cause r)) (nb_Members batch), [])) = (ms, kids')"
    unfolding nb using assms(2) unfolding pass_members_def Let_def .
  have set: "batch_settled (recount ?b2)" unfolding batch_settled_iff using settled by simp
  have "rn_record r' = finish_batch summary now (rn_cause r) (recount ?b2) ((rn_record r)\<lparr>op_Batch := Some (recount ?b2)\<rparr>)"
    using assms(1) set saved unfolding batch_pass_def pass Let_def prod.case by auto
  then show ?thesis by (simp add: finish_batch_outcome)
qed

text \<open>
  A pass of the batch runner makes progress within the limits. The batch stays
  active exactly while a member is queued or running; no more than 16 operations execute; a
  batch that is not canceled leaves a member queued only when 4 of its members run or 16
  operations execute; a batch that is being canceled starts nothing and leaves nothing queued;
  and when it ends (with its record written) it is interrupted if the daemon closed, canceled
  if the user canceled it, and otherwise succeeded exactly when every member succeeded.
\<close>

theorem batch_pass_progress:
  assumes inv: "manager_inv m" and r: "lookup_op m i = Some r" "op_Batch (rn_record r) = Some batch" "rn_active r"
  shows "\<exists>r' b. lookup_op (runBatch persist summary now i m) i = Some r' \<and> op_Batch (rn_record r') = Some b
     \<and> map bm_OperationID (nb_Members b) = map bm_OperationID (nb_Members batch)
     \<and> (rn_active r' \<longleftrightarrow> (\<exists>x \<in> set (nb_Members b). open_member x))
     \<and> executingCountLocked (runBatch persist summary now i m) \<le> 16
     \<and> (rn_cause r = None \<and> (\<exists>x \<in> set (nb_Members b). bm_State x = ''queued'')
          \<longrightarrow> nb_Running b \<ge> 4 \<or> executingCountLocked (runBatch persist summary now i m) = 16)
     \<and> (rn_cause r \<noteq> None \<longrightarrow> (\<forall>x \<in> set (nb_Members b). bm_State x \<noteq> ''queued'')
          \<and> length (mo_records (runBatch persist summary now i m)) = length (mo_records m))
     \<and> (\<not> rn_active r' \<and> (\<forall>x. persist x = None)
          \<longrightarrow> op_State (rn_record r') = root_outcome (rn_cause r) (nb_Members b))"
proof -
  obtain r' kids where pass: "batch_pass persist summary now m r batch = (r', kids)" by fastforce
  obtain ms kids' where pm: "pass_members persist now m r batch = (ms, kids')" by fastforce
  note res = batch_pass_members [OF pass pm]
  have ri: "r \<in> set (mo_records m)" "rn_ID r = i" using lookup_op_Some [OF r(1)] by auto
  have d: "distinct (map rn_ID (mo_records m))" using inv by (simp add: manager_inv_def)
  note kids = pass_kids [OF inv ri(1) r(2) pm]
  have kk: "kids' = kids" using res by blast
  obtain b where b: "op_Batch (rn_record r') = Some b" "nb_Members b = ms" "b = recount b" using res by blast
  define m' where "m' = runBatch persist summary now i m"
  note run = runBatch_eq [OF r(1,2) pass, folded m'_def]
  have inv': "manager_inv m'" unfolding m'_def by (rule runBatch_inv [OF inv])
  have "r' \<in> set (mo_records m')" "rn_ID r' = i" using ri res by (auto simp: run update_op_records)
  then have look: "lookup_op m' i = Some r'" using lookup_op_unique [of m' r'] inv' by (simp add: manager_inv_def)
  have exec: "executingCountLocked m' = executingCountLocked m + length kids"
    unfolding run using executing_after_pass [OF r(1) _ _ d] r(2) b(1) kids kk by blast
  have act: "rn_active r' \<longleftrightarrow> (\<exists>x \<in> set ms. open_member x)"
    using res r(3) by (auto simp: batch_settled_iff split: if_splits)
  have le: "executingCountLocked m' \<le> 16" using inv' by (simp add: manager_inv_def nodeOperationLimit_def)
  have queued: "nb_Running b \<ge> 4 \<or> executingCountLocked m' = 16"
    if c: "rn_cause r = None" and q: "\<exists>x \<in> set ms. bm_State x = ''queued''"
  proof -
    let ?members = "map (sync_member m None) (nb_Members batch)"
    have sp: "spawn_members persist now (rn_record r) (running_members ?members) (executingCountLocked m)
        ?members = (ms, kids)"
      using pm c kk unfolding pass_members_def Let_def by simp
    have "distinct (map bm_OperationID ?members)"
      using inv ri r(2) by (auto simp: manager_inv_def list_all_iff record_ok_def o_def)
    then have "nb_Running b = running_members ?members + length kids"
      using spawn_result [OF sp] b(2,3) recount_simps(2) [of b] by metis
    then show ?thesis using spawn_conserving [OF sp] q le exec
      by (auto simp: nodeBatchParallelism_def nodeOperationLimit_def)
  qed
  have canceled: "(\<forall>x \<in> set ms. bm_State x \<noteq> ''queued'') \<and> length (mo_records m') = length (mo_records m)"
    if "rn_cause r \<noteq> None"
    using pass_canceled [OF inv pm that] kk by (simp add: run update_op_records)
  have outcome: "op_State (rn_record r') = root_outcome (rn_cause r) ms"
    if "\<not> rn_active r'" "\<forall>x. persist x = None"
    using pass_outcome [OF pass pm] act that by blast
  show ?thesis
    unfolding m'_def [symmetric]
    using look b(1,2) kids act le queued canceled outcome by blast
qed

definition sample_batch :: NodeBatchState where
  "sample_batch = recount (empty_batch\<lparr>nb_Members :=
     [\<lparr>bt_NodeID = ''n1'', bt_NodeSlug = ''dev'', bt_Kind = ''start'', bm_OperationID = ''c1'',
       bm_State = ''queued'', bm_Error = []\<rparr>]\<rparr>)"

definition batch_manager :: nodeOperations where
  "batch_manager = \<lparr>mo_records = [\<lparr>rn_record = sample_operation\<lparr>op_Batch := Some sample_batch\<rparr>, rn_keys = [''node:n1''],
     rn_active = True, rn_cause = Some CanceledByUser\<rparr>], mo_closed = False\<rparr>"

lemma batch_manager_inv: "manager_inv batch_manager"
  using key_not_blank(1) [of "''n1''"]
  by (simp add: outcome_ok_def manager_inv_def batch_manager_def record_ok_def exclusive_def sample_operation_def
      executingCountLocked_def active_roots_def nodeOperationLimit_def sample_batch_def recount_def Let_def)

theorem batch_pass_progress_witness:
  "length (mo_records (runBatch (\<lambda>_. None) (\<lambda>_. []) 9 ''o1'' batch_manager)) = 1"
proof -
  have "lookup_op batch_manager ''o1'' = Some (hd (mo_records batch_manager))"
      "op_Batch (rn_record (hd (mo_records batch_manager))) = Some sample_batch"
      "rn_active (hd (mo_records batch_manager))" "rn_cause (hd (mo_records batch_manager)) \<noteq> None"
      "length (mo_records batch_manager) = 1"
    by (simp_all add: lookup_op_def batch_manager_def sample_operation_def)
  with batch_pass_progress [OF batch_manager_inv this(1-3), of "\<lambda>_. None" "\<lambda>_. []" 9] show ?thesis by auto
qed

section \<open>Restart\<close>

lemma recover_record_phases:
  "live_state (op_State f) \<Longrightarrow> \<forall>p \<in> set (op_Phases (recover_record f)). ph_State p \<noteq> ''running''"
  by (auto simp: recover_record_def finishNodeOperationPhases_def finish_phase_def)

lemma recover_root_frame:
  "op_State (rn_record (recover_root m r)) = op_State (rn_record r)"
  "op_Phases (rn_record (recover_root m r)) = op_Phases (rn_record r)"
  "rn_ID (recover_root m r) = rn_ID r" "rn_active (recover_root m r) = rn_active r"
  by (simp_all add: recover_root_def split: option.splits)

lemma recover_root_done: "op_State (rn_record r) \<noteq> ''interrupted'' \<Longrightarrow> recover_root m r = r"
  by (simp add: recover_root_def split: option.splits)

lemma recover_record_done: "op_State (recover_record f) \<noteq> ''interrupted'' \<Longrightarrow> recover_record f = f"
  by (cases "live_state (op_State f)") (simp_all add: recover_record_def finishNodeOperationPhases_def)

lemma recover_member_closed:
  assumes "\<forall>q \<in> set (mo_records m). \<not> live_state (op_State (rn_record q)) \<and> op_State (rn_record q) \<noteq> ''queued''"
  shows "\<not> open_member (recover_member m root x)"
proof (cases "lookup_op m (bm_OperationID x)")
  case None
  then show ?thesis by (auto simp: recover_member_def open_member_def)
next
  case (Some q)
  then have "\<not> live_state (op_State (rn_record q)) \<and> op_State (rn_record q) \<noteq> ''queued''"
    using assms lookup_op_Some by blast
  then show ?thesis using Some by (auto simp: recover_member_def open_member_def)
qed

text \<open>
  What a restart makes of the record \<open>f\<close> that it finds on disk: a test whose cleanup is pending
  runs again with its outcome kept, everything else is at rest.
\<close>

definition at_rest :: "NodeOperation \<Rightarrow> runningNodeOperation \<Rightarrow> bool" where
  "at_rest f r \<longleftrightarrow>
     \<not> rn_active r \<and> \<not> live_state (op_State (rn_record r))
     \<and> (live_state (op_State f) \<longrightarrow> op_State (rn_record r) = ''interrupted'')
     \<and> (op_State (rn_record r) = ''interrupted'' \<longrightarrow> (\<forall>b. op_Batch (rn_record r) = Some b
          \<longrightarrow> (\<forall>x \<in> set (nb_Members b). \<not> open_member x) \<and> b = recount b))
     \<and> (op_State (rn_record r) \<noteq> ''interrupted'' \<longrightarrow> rn_record r = f)"

definition cleaning_up :: "EnvironmentTestState \<Rightarrow> runningNodeOperation \<Rightarrow> bool" where
  "cleaning_up t r \<longleftrightarrow>
     rn_active r \<and> op_State (rn_record r) = ''running'' \<and> op_FinishedAt (rn_record r) = None
     \<and> rn_keys r = environmentTestKeys t
     \<and> (\<exists>u. op_EnvironmentTest (rn_record r) = Some u \<and> et_CleanupPending u \<and> et_Plan u = et_Plan t
          \<and> et_Outcome u = (if et_Outcome t = [] then ''interrupted'' else et_Outcome t))"

definition recovered :: "NodeOperation \<Rightarrow> runningNodeOperation \<Rightarrow> bool" where
  "recovered f r \<longleftrightarrow>
     rn_ID r = op_ID f
     \<and> (live_state (op_State f) \<longrightarrow> (\<forall>p \<in> set (op_Phases (rn_record r)). ph_State p \<noteq> ''running''))
     \<and> (case pending_test f of None \<Rightarrow> at_rest f r | Some t \<Rightarrow> cleaning_up t r)"

lemma loaded_closed:
  assumes "list_all file_ok files" "q \<in> set (mo_records (loaded now files))"
  shows "\<not> live_state (op_State (rn_record q)) \<and> op_State (rn_record q) \<noteq> ''queued''"
proof -
  obtain f where "rn_record q = recover_record f" "f \<in> set files" using assms(2) by (auto simp: loaded_def)
  then show ?thesis using assms(1) by (simp add: list_all_iff file_ok_def)
qed

lemma recover_root_members:
  assumes "list_all file_ok files" "op_State (rn_record r) = ''interrupted''"
    and "op_Batch (rn_record (recover_root (loaded now files) r)) = Some b"
  shows "(\<forall>x \<in> set (nb_Members b). \<not> open_member x) \<and> b = recount b"
proof -
  obtain c where "op_Batch (rn_record r) = Some c"
      "b = recount (c\<lparr>nb_Members := map (recover_member (loaded now files) (rn_ID r)) (nb_Members c)\<rparr>)"
    using assms(2,3) by (auto simp: recover_root_def split: option.splits)
  then show ?thesis using recover_member_closed loaded_closed [OF assms(1)] by (auto simp: recount_def Let_def)
qed

lemma recover_root_at_rest:
  assumes "list_all file_ok files"
  shows "at_rest f (recover_root (loaded now files) (recovered_entry f))"
proof (cases "op_State (recover_record f) = ''interrupted''")
  case True
  then have "op_State (rn_record (recovered_entry f)) = ''interrupted''" by simp
  note members = recover_root_members [OF assms this]
  show ?thesis unfolding at_rest_def recover_root_frame using members True by auto
next
  case False
  have "recover_root (loaded now files) (recovered_entry f) = recovered_entry f"
    using False recover_root_done [of "recovered_entry f"] by simp
  moreover have "recover_record f = f" by (rule recover_record_done [OF False])
  moreover have "\<not> live_state (op_State f)" using False unfolding recover_record_simps by presburger
  ultimately show ?thesis using False by (simp add: at_rest_def)
qed

lemma resume_recovered:
  assumes "list_all file_ok files"
    and "resume_test validate persist (recover_root (loaded now files) (recovered_entry f)) = Inr r"
  shows "recovered f r"
proof (rule resume_test_cases [OF assms(2)])
  let ?q = "recover_root (loaded now files) (recovered_entry f)"
  note phases = recover_record_phases [of f]
  assume "pending_test (rn_record ?q) = None" "r = ?q"
  then show ?thesis using recover_root_at_rest [OF assms(1), of f now] phases
    by (simp add: recovered_def pending_recovered recover_root_frame)
next
  let ?q = "recover_root (loaded now files) (recovered_entry f)"
  note phases = recover_record_phases [of f]
  fix t plan assume "pending_test (rn_record ?q) = Some t"
    "r = ?q\<lparr>rn_record := resumed_record t (rn_record ?q), rn_keys := environmentTestKeys t, rn_active := True\<rparr>"
  moreover from this have "et_CleanupPending t"
    by (auto simp: pending_test_def split: option.splits if_splits)
  ultimately show ?thesis using phases
    by (simp add: recovered_def pending_recovered recover_root_frame cleaning_up_def interrupted_test_def)
qed

text \<open>The receipt of a pending test that the loading accepts.\<close>

definition receipt_valid :: "(EnvironmentTestPlan option \<Rightarrow> goError option) \<Rightarrow> NodeOperation \<Rightarrow> bool" where
  "receipt_valid validate f \<longleftrightarrow> (\<forall>t. pending_test f = Some t \<longrightarrow>
     validate (et_Plan t) = None \<and> map_option (\<lambda>p. n_ID (tp_Node p)) (et_Plan t) = Some (op_NodeID f)
     \<and> rq_Kind (op_Request f) = ''test-environment'')"

lemma resume_tests_complete:
  assumes "\<forall>x. persist x = None" "\<forall>r \<in> set rs. receipt_valid validate (rn_record r)"
  shows "\<exists>rs'. resume_tests validate persist rs = Inr rs'"
  using assms(2)
proof (induction rs)
  case (Cons r rs)
  then obtain rs' where "resume_tests validate persist rs = Inr rs'" by auto
  moreover have "\<exists>r'. resume_test validate persist r = Inr r'"
    using Cons.prems assms(1) by (auto simp: resume_test_def receipt_valid_def split: option.splits)
  ultimately show ?case by auto
qed simp

lemma receipt_valid_recovered:
  "receipt_valid validate f \<Longrightarrow> receipt_valid validate (rn_record (recover_root m (recovered_entry f)))"
  by (auto simp: receipt_valid_def pending_recovered) (auto simp: recover_root_def split: option.splits)

text \<open>
  Property C22: A restart leaves nothing half done. The manager is loaded from the records that
  its predecessor wrote (with non-empty identifiers, no record queued, distinct members in a
  batch). If loading succeeds, the manager holds exactly the unexpired records, in order, with
  no phase left running where the operation was. An environment test whose cleanup is pending is
  running again, active with its keys, keeping its outcome or counted as interrupted if it had
  none. Every other record is inactive: what was running or canceling is interrupted, the members
  of an interrupted batch are no longer queued or running and its counters agree with them, and
  the rest is as it was written. Loading succeeds whenever every write and removal does and the
  receipts of the pending cleanups are valid.
\<close>

theorem restart_recovers:
  assumes "list_all file_ok files"
  shows "(\<forall>m. load_operations validate persist remove now files = Inr m
            \<longrightarrow> list_all2 recovered (filter (\<lambda>f. \<not> operationExpired now f) files) (mo_records m))
     \<and> ((\<forall>x. persist x = None) \<and> (\<forall>i. remove i = None) \<and> list_all (receipt_valid validate) files
            \<longrightarrow> (\<exists>m. load_operations validate persist remove now files = Inr m))"
proof (intro conjI allI impI)
  fix m assume "load_operations validate persist remove now files = Inr m"
  from load_operations_resumed [OF this]
  show "list_all2 recovered (filter (\<lambda>f. \<not> operationExpired now f) files) (mo_records m)"
    by (auto elim!: list_all2_mono intro: resume_recovered [OF assms])
next
  let ?m = "recoverBatches (loaded now files)"
  assume ok: "(\<forall>x. persist x = None) \<and> (\<forall>i. remove i = None) \<and> list_all (receipt_valid validate) files"
  then have files: "load_records persist remove now files = Inr (mo_records (loaded now files))"
    by (intro load_records_complete) auto
  have "\<forall>r \<in> set (mo_records ?m). receipt_valid validate (rn_record r)"
    using ok receipt_valid_recovered [of validate] by (auto simp: recoverBatches_records loaded_def list_all_iff)
  then obtain rs where rs: "resume_tests validate persist (mo_records ?m) = Inr rs"
    using resume_tests_complete ok by blast
  have l: "\<lparr>mo_records = mo_records (loaded now files), mo_closed = False\<rparr> = loaded now files"
    by (simp add: loaded_def)
  have "batch_write_error persist (mo_records ?m) = None" using ok by (auto simp: batch_write_error_def split: option.splits)
  then show "\<exists>m. load_operations validate persist remove now files = Inr m"
    using files l rs by (simp add: load_operations_def)
qed

text \<open>An interrupted start beside a test whose cleanup is pending.\<close>

definition sample_test_node :: Node where
  "sample_test_node = zero_node\<lparr>n_ID := ''t-1'', n_Slug := ''env-test-t1'', n_SandboxName := ''env-test-t1'',
     n_WorkspaceMode := ''copy''\<rparr>"

definition sample_test :: EnvironmentTestState where
  "sample_test = \<lparr>et_EnvironmentID = ''e1'', et_EnvironmentSlug = ''py'',
     et_Plan = Some \<lparr>tp_Node = sample_test_node, tp_Bootstrap = sample_bootstrap\<rparr>, et_CleanupPending = True,
     et_CleanupError = [], et_Outcome = [], et_Error = [], et_ErrorCode = 0, et_ErrorCategory = []\<rparr>"

definition sample_test_operation :: NodeOperation where
  "sample_test_operation = sample_operation\<lparr>op_ID := ''o2'', op_NodeID := ''t-1'', op_EnvironmentTest := Some sample_test,
     op_Request := sample_request\<lparr>rq_ID := ''o2'', rq_Kind := ''test-environment'', rq_Node := [],
       rq_Environment := ''py''\<rparr>\<rparr>"

theorem restart_recovers_witness:
  "\<exists>m. load_operations (validateEnvironmentTestPlan (\<lambda>_. True) (\<lambda>_. [])) (\<lambda>_. None) (\<lambda>_. None) 9
        [sample_operation, sample_test_operation] = Inr m
     \<and> map rn_active (mo_records m) = [False, True]
     \<and> map (\<lambda>r. op_State (rn_record r)) (mo_records m) = [''interrupted'', ''running'']"
proof -
  let ?v = "validateEnvironmentTestPlan (\<lambda>_. True) (\<lambda>_. [])"
  let ?fs = "[sample_operation, sample_test_operation]"
  have ok: "list_all file_ok ?fs" "filter (\<lambda>f. \<not> operationExpired 9 f) ?fs = ?fs"
    by (simp_all add: file_ok_def outcome_ok_def operationExpired_def sample_operation_def sample_test_operation_def
        sample_test_def)
  have pending: "pending_test sample_operation = None" "pending_test sample_test_operation = Some sample_test"
    by (simp_all add: pending_test_def sample_operation_def sample_test_operation_def sample_test_def)
  have "list_all (receipt_valid ?v) ?fs"
    by (simp add: receipt_valid_def pending)
      (simp add: sample_test_def sample_test_operation_def validateEnvironmentTestPlan_def sample_test_node_def zero_node_def
        environmentTestSlug_def Let_def)
  then obtain m where m: "load_operations ?v (\<lambda>_. None) (\<lambda>_. None) 9 ?fs = Inr m"
    using restart_recovers [OF ok(1), of ?v "\<lambda>_. None" "\<lambda>_. None" 9] by auto
  with restart_recovers [OF ok(1), of ?v "\<lambda>_. None" "\<lambda>_. None" 9] ok(2)
  have "list_all2 recovered ?fs (mo_records m)" by metis
  then obtain r q where "mo_records m = [r, q]" "recovered sample_operation r" "recovered sample_test_operation q"
    by (auto simp: list_all2_Cons1)
  moreover have "live_state (op_State sample_operation)" by (simp add: sample_operation_def)
  ultimately show ?thesis using m pending by (auto simp: recovered_def at_rest_def cleaning_up_def)
qed

section \<open>The paged history\<close>

lemma shrink_page_bounds:
  "start < end \<Longrightarrow> start < shrink_page fits history start end \<and> shrink_page fits history start end \<le> end"
proof (induction fits history start "end" rule: shrink_page.induct)
  case (1 fits history start e)
  show ?case
  proof (cases "e - start > 1 \<and> \<not> fits (drop start (take e history))")
    case True
    then have "start < shrink_page fits history start (e - 1) \<and> shrink_page fits history start (e - 1) \<le> e - 1"
      using "1.IH" [OF True] True by linarith
    moreover have "shrink_page fits history start e = shrink_page fits history start (e - 1)"
      using True by (subst shrink_page.simps) simp
    ultimately show ?thesis by linarith
  next
    case False
    then have "shrink_page fits history start e = e" by (subst shrink_page.simps) auto
    then show ?thesis using 1 by simp
  qed
qed

lemma shrink_page_same: "e \<le> start \<Longrightarrow> shrink_page fits history start e = e"
  by (subst shrink_page.simps) simp

text \<open>A client that follows the cursors; \<open>n\<close> bounds the number of pages it asks for.\<close>

fun follow_pages ::
  "(NodeOperation list \<Rightarrow> NodeOperation list \<Rightarrow> bool) \<Rightarrow> NodeOperation list \<Rightarrow> nat \<Rightarrow> nat \<Rightarrow> string
     \<Rightarrow> NodeOperation list option" where
  "follow_pages fits records limit 0 before = None"
| "follow_pages fits records limit (Suc n) before =
     (case page_of fits records before limit of
        Inl _ \<Rightarrow> None
      | Inr p \<Rightarrow> if pa_Next p = [] then Some (pa_History p)
                 else map_option (append (pa_History p)) (follow_pages fits records limit n (pa_Next p)))"

lemma cursor_index:
  assumes "distinct (map op_ID history)" "k < length history"
  shows "first_index (\<lambda>r. op_ID r = op_ID (history ! k)) 0 history = Some k"
proof -
  have "op_ID (history ! j) \<noteq> op_ID (history ! k)" if "j < k" for j
    using assms that nth_eq_iff_index_eq [OF assms(1), of j k] by auto
  then show ?thesis using assms(2) by (auto simp: first_index_Some)
qed

lemma follow_pages_from:
  assumes history: "history = filter (\<lambda>r. \<not> live_state (op_State r)) records"
    and d: "distinct (map op_ID history)" "[] \<notin> set (map op_ID history)" and limit: "0 < limit"
    and start: "start \<le> length history" "before = (if start = 0 then [] else op_ID (history ! (start - 1)))"
    and n: "length history - start < n"
  shows "follow_pages fits records limit n before = Some (drop start history)"
  using start n
proof (induction n arbitrary: start before)
  case (Suc n)
  define running where "running = filter (\<lambda>r. live_state (op_State r)) records"
  define e where "e = shrink_page (fits running) history start (min (length history) (start + limit))"
  have at: "(if before = [] then Some 0 else map_option Suc (first_index (\<lambda>r. op_ID r = before) 0 history)) = Some start"
  proof (cases "start = 0")
    case False
    then have "start - 1 < length history" using Suc.prems(1) by simp
    then have "op_ID (history ! (start - 1)) \<in> set (map op_ID history)"
        "first_index (\<lambda>r. op_ID r = op_ID (history ! (start - 1))) 0 history = Some (start - 1)"
      using cursor_index [OF d(1)] by simp_all
    then show ?thesis using False d(2) Suc.prems(2) by auto
  qed (use Suc.prems(2) in simp)
  have page: "page_of fits records before limit = Inr \<lparr>pa_Running = running, pa_History = drop start (take e history),
      pa_Next = (if e < length history then op_ID (history ! (e - 1)) else [])\<rparr>"
    unfolding page_of_def Let_def history [symmetric] running_def [symmetric] at by (simp add: e_def)
  show ?case
  proof (cases "e < length history")
    case True
    have "start < length history"
      using True Suc.prems(1) shrink_page_same [of "length history" start "fits running" history]
      by (cases "start = length history") (auto simp: e_def)
    then have e: "start < e" "e \<le> length history"
      using shrink_page_bounds [of start "min (length history) (start + limit)" "fits running" history] limit
      by (auto simp: e_def)
    have "history ! (e - 1) \<in> set history" using True by simp
    then have "op_ID (history ! (e - 1)) \<noteq> []" using d(2) by force
    moreover have "follow_pages fits records limit n (op_ID (history ! (e - 1))) = Some (drop e history)"
      using Suc.IH [of e] Suc.prems(3) e by simp
    moreover have "drop start (take e history) @ drop e history = drop start history"
      using e by (metis append_take_drop_id drop_append length_take min.absorb2 less_imp_le diff_is_0_eq drop0)
    ultimately show ?thesis using True by (simp add: page)
  next
    case False
    then show ?thesis by (simp add: page)
  qed
qed simp

lemma list_operations_ids:
  "map op_ID (sort_history rs) = rev (map op_ID (sort_key nodeOperationHistoryTime (sort_key op_ID rs)))"
  by (simp add: sort_history_def rev_map)

lemma list_operations_set:
  "set (map op_ID (List_operations plainLogText summary now m)) =
     op_ID ` rn_record ` set (filter (\<lambda>r. \<not> operationExpired now (rn_record r)) (mo_records m))"
  by (auto simp: List_operations_def sort_history_def list_summary_def Let_def image_iff)

lemma list_operations_distinct:
  assumes "manager_inv m"
  shows "distinct (map op_ID (List_operations plainLogText summary now m))
    \<and> [] \<notin> set (map op_ID (List_operations plainLogText summary now m))"
proof -
  have "mset (map op_ID (sort_history rs)) = mset (map op_ID rs)" for rs
    by (simp add: sort_history_def)
  moreover have "map op_ID (map (\<lambda>r. list_summary plainLogText summary (rn_record r)) rs) = map rn_ID rs" for rs
    by (simp add: list_summary_def Let_def)
  moreover have "distinct (map rn_ID (filter P (mo_records m)))" for P
    using assms by (simp add: manager_inv_def distinct_map_filter)
  ultimately have "distinct (map op_ID (List_operations plainLogText summary now m))"
    unfolding List_operations_def by (metis mset_eq_imp_distinct_iff)
  moreover have "[] \<notin> set (map op_ID (List_operations plainLogText summary now m))"
    unfolding list_operations_set using assms by (auto simp: manager_inv_def list_all_iff record_ok_def)
  ultimately show ?thesis by blast
qed

text \<open>
  Property C34: Following the cursors shows the whole history once. Whatever the page limit
  (from 1) and however pages shrink to fit a message, a client that starts without a cursor and
  passes on each page's cursor ends after at most one page per finished operation, and the
  pages together are the listing's finished operations in its order, each exactly once.
\<close>

theorem pages_cover_history:
  assumes "manager_inv m" "0 < limit" "records = List_operations plainLogText summary now m"
  shows "follow_pages fits records limit (Suc (length records)) []
      = Some (filter (\<lambda>r. \<not> live_state (op_State r)) records)
    \<and> distinct (map op_ID records)
    \<and> set (map op_ID records) = op_ID ` rn_record ` {r \<in> set (mo_records m). \<not> operationExpired now (rn_record r)}"
proof -
  note ids = list_operations_distinct [OF assms(1), of plainLogText summary now, folded assms(3)]
  have "distinct (map op_ID (filter (\<lambda>r. \<not> live_state (op_State r)) records))"
    using ids by (simp only: distinct_map_filter)
  moreover have "[] \<notin> set (map op_ID (filter (\<lambda>r. \<not> live_state (op_State r)) records))" using ids by auto
  moreover have "length (filter (\<lambda>r. \<not> live_state (op_State r)) records) - 0 < Suc (length records)"
    using le_imp_less_Suc [OF length_filter_le [of "\<lambda>r. \<not> live_state (op_State r)" records]] by (simp only: diff_zero)
  ultimately have "follow_pages fits records limit (Suc (length records)) []
      = Some (drop 0 (filter (\<lambda>r. \<not> live_state (op_State r)) records))"
    using follow_pages_from [OF refl _ _ assms(2), of records 0 "[]" "Suc (length records)" fits] by simp
  moreover have "set (map op_ID records) = op_ID ` rn_record ` {r \<in> set (mo_records m). \<not> operationExpired now (rn_record r)}"
    unfolding assms(3) list_operations_set by simp
  ultimately show ?thesis using ids by simp
qed

theorem pages_cover_history_witness:
  "set (map op_ID (List_operations (\<lambda>s. s) (\<lambda>_. []) 9 sample_manager)) = {''o1''}"
proof -
  have "set (map op_ID (List_operations (\<lambda>s. s) (\<lambda>_. []) 9 sample_manager)) =
      op_ID ` rn_record ` {r \<in> set (mo_records sample_manager). \<not> operationExpired 9 (rn_record r)}"
    using pages_cover_history [OF sample_manager_inv zero_less_one refl] by blast
  moreover have "{r \<in> set (mo_records sample_manager). \<not> operationExpired 9 (rn_record r)} = set (mo_records sample_manager)"
    by (auto simp: sample_manager_def operationExpired_def sample_operation_def nodeOperationRetention_def
        nodeOperationHistoryTime_def)
  ultimately show ?thesis by (simp add: sample_manager_def sample_operation_def)
qed

end
