(* ===== verification/AttachGate.thy ===== *)
theory AttachGate
  imports JournalOrder "HOL-Library.Multiset" "HOL-Library.Sublist"
begin

text \<open>
  \<^verbatim>\<open>internal/codelima/terminal_attach_gate.go\<close>: the gate that gives each reply to a terminal query
  either to the native renderer or to the physical terminal that is attached to the session.

  The mutex makes every method atomic. A closure \<^verbatim>\<open>deliver\<close> is named by a number, and a method
  returns the replies that it delivers, in order. Closing a channel that is nil or closed
  already panics in Go: the result is then \<open>None\<close>.
\<close>

unbundle bit_operations_syntax

section \<open>The gate\<close>

definition rawAttachmentResponseLimit :: int where "rawAttachmentResponseLimit = 256 * 2 ^ 10"
definition rawAttachmentIdleTimeout :: duration where "rawAttachmentIdleTimeout = 15 * second"

record rawAttachmentReply =
  rr_id :: u64
  rr_data :: string
  rr_deliver :: nat

datatype doneChan = NilChan | OpenChan | ClosedChan

record rawAttachmentGate =
  ag_owner :: string
  ag_id :: string
  ag_pending :: bool
  ag_start :: u64
  ag_ack :: u64
  ag_sent :: u64
  ag_suppressed :: u64
  ag_held :: "rawAttachmentReply list"
  ag_heldBytes :: int
  ag_deadline :: gotime
  ag_done :: doneChan

definition zero_gate :: rawAttachmentGate where
  "zero_gate = \<lparr>ag_owner = [], ag_id = [], ag_pending = False, ag_start = 0, ag_ack = 0, ag_sent = 0,
     ag_suppressed = 0, ag_held = [], ag_heldBytes = 0, ag_deadline = 0, ag_done = NilChan\<rparr>"

definition gate_begin ::
  "gotime \<Rightarrow> string \<Rightarrow> string \<Rightarrow> u64 \<Rightarrow> rawAttachmentGate \<Rightarrow> rawAttachmentGate \<times> string option" where
  "gate_begin now owner i start g =
     (if ag_id g \<noteq> []
      then (g, Some ''this session is already attached; detach its current terminal first'')
      else (g\<lparr>ag_owner := owner, ag_id := i, ag_start := start, ag_pending := True, ag_ack := start,
              ag_sent := start, ag_deadline := now + rawAttachmentIdleTimeout, ag_done := OpenChan\<rparr>, None))"

text \<open>The bytes of a list of replies, and the loop of \<open>commit\<close> over the held replies.\<close>

definition reply_bytes :: "rawAttachmentReply list \<Rightarrow> int" where
  "reply_bytes rs = sum_list (map (\<lambda>r. int (length (rr_data r))) rs)"

definition gate_commit ::
  "string \<Rightarrow> u64 \<Rightarrow> rawAttachmentGate \<Rightarrow> rawAttachmentGate \<times> rawAttachmentReply list \<times> string option" where
  "gate_commit i through g =
     (if ag_id g \<noteq> i \<or> \<not> ag_pending g \<or> through < ag_start g
      then (g, [], Some ''terminal attachment changed during capture'')
      else let due = filter (\<lambda>r. rr_id r \<le> through) (ag_held g)
           in (g\<lparr>ag_pending := False, ag_ack := through, ag_sent := through,
                 ag_held := filter (\<lambda>r. \<not> rr_id r \<le> through) (ag_held g),
                 ag_heldBytes := ag_heldBytes g - reply_bytes due\<rparr>, due, None))"

definition gate_endLocked ::
  "rawAttachmentGate \<Rightarrow> (rawAttachmentGate \<times> rawAttachmentReply list) option" where
  "gate_endLocked g =
     (if ag_done g \<noteq> OpenChan then None
      else Some (g\<lparr>ag_suppressed := (if ag_pending g then ag_suppressed g else max (ag_suppressed g) (ag_ack g)),
                   ag_held := [], ag_heldBytes := 0, ag_id := [], ag_owner := [], ag_pending := False,
                   ag_done := ClosedChan\<rparr>,
                 filter (\<lambda>r. ag_pending g \<or> rr_id r > ag_ack g) (ag_held g)))"

text \<open>A reply to no query (identifier 0) or to an input event is nobody's to answer twice.\<close>

definition immediate :: "u64 \<Rightarrow> bool" where
  "immediate i \<longleftrightarrow> i = 0 \<or> (i AND rendererInputEventBit) \<noteq> 0"

definition gate_effect ::
  "rawAttachmentReply \<Rightarrow> rawAttachmentGate \<Rightarrow> (rawAttachmentGate \<times> rawAttachmentReply list) option" where
  "gate_effect r g =
     (if immediate (rr_id r) then Some (g, [r])
      else if rr_id r \<le> ag_suppressed g then Some (g, [])
      else if ag_id g = [] \<or> (ag_pending g \<and> rr_id r \<le> ag_start g) then Some (g, [r])
      else if \<not> ag_pending g \<and> rr_id r \<le> ag_ack g then Some (g, [])
      else if int (length (rr_data r)) > rawAttachmentResponseLimit - ag_heldBytes g
      then map_option (\<lambda>(g', out). (g', out @ [r])) (gate_endLocked g)
      else Some (g\<lparr>ag_held := ag_held g @ [r], ag_heldBytes := ag_heldBytes g + int (length (rr_data r))\<rparr>, []))"

definition gate_response ::
  "nat \<Rightarrow> u64 \<Rightarrow> string \<Rightarrow> rawAttachmentGate \<Rightarrow> (rawAttachmentGate \<times> rawAttachmentReply list) option" where
  "gate_response write i data g = gate_effect \<lparr>rr_id = i, rr_data = data, rr_deliver = write\<rparr> g"

definition gate_validateLocked ::
  "gotime \<Rightarrow> string \<Rightarrow> string \<Rightarrow> rawAttachmentGate \<Rightarrow> rawAttachmentGate \<times> string option" where
  "gate_validateLocked now owner i g =
     (if ag_id g = [] \<or> ag_id g \<noteq> i \<or> ag_owner g \<noteq> owner \<or> ag_pending g
      then (g, Some ''terminal attachment is no longer active'')
      else (g\<lparr>ag_deadline := now + rawAttachmentIdleTimeout\<rparr>, None))"

definition gate_delivered ::
  "gotime \<Rightarrow> string \<Rightarrow> string \<Rightarrow> u64 \<Rightarrow> rawAttachmentGate \<Rightarrow> rawAttachmentGate \<times> string option" where
  "gate_delivered now owner i through g =
     (case gate_validateLocked now owner i g of
        (g, Some err) \<Rightarrow> (g, Some err)
      | (g, None) \<Rightarrow> (g\<lparr>ag_sent := max (ag_sent g) through\<rparr>, None))"

definition gate_acknowledge ::
  "gotime \<Rightarrow> string \<Rightarrow> string \<Rightarrow> u64 \<Rightarrow> rawAttachmentGate \<Rightarrow> rawAttachmentGate \<times> string option" where
  "gate_acknowledge now owner i through g =
     (case gate_validateLocked now owner i g of
        (g, Some err) \<Rightarrow> (g, Some err)
      | (g, None) \<Rightarrow>
          if through < ag_ack g \<or> through > ag_sent g
          then (g, Some ''invalid terminal attachment output cursor'')
          else (g\<lparr>ag_ack := through, ag_suppressed := max (ag_suppressed g) through,
                  ag_held := filter (\<lambda>r. rr_id r > through) (ag_held g),
                  ag_heldBytes := ag_heldBytes g - reply_bytes (filter (\<lambda>r. \<not> rr_id r > through) (ag_held g))\<rparr>,
                None))"

definition gate_end ::
  "string \<Rightarrow> rawAttachmentGate \<Rightarrow> (rawAttachmentGate \<times> rawAttachmentReply list) option" where
  "gate_end i g = (if ag_id g = i \<and> i \<noteq> [] then gate_endLocked g else Some (g, []))"

definition gate_expired :: "string \<Rightarrow> gotime \<Rightarrow> rawAttachmentGate \<Rightarrow> bool" where
  "gate_expired i now g \<longleftrightarrow> ag_id g = i \<and> now > ag_deadline g"

section \<open>Runs\<close>

text \<open>Any sequence of calls; each returns what it delivers. \<open>None\<close> is a panic.\<close>

datatype gateCall =
    Begin gotime string string u64
  | Commit string u64
  | Effect rawAttachmentReply
  | Delivered gotime string string u64
  | Acknowledge gotime string string u64
  | End string

fun gate_call :: "gateCall \<Rightarrow> rawAttachmentGate \<Rightarrow> (rawAttachmentGate \<times> rawAttachmentReply list) option" where
  "gate_call (Begin now owner i start) g = Some (fst (gate_begin now owner i start g), [])"
| "gate_call (Commit i through) g = (case gate_commit i through g of (g', out, _) \<Rightarrow> Some (g', out))"
| "gate_call (Effect r) g = gate_effect r g"
| "gate_call (Delivered now owner i through) g = Some (fst (gate_delivered now owner i through g), [])"
| "gate_call (Acknowledge now owner i through) g = Some (fst (gate_acknowledge now owner i through g), [])"
| "gate_call (End i) g = gate_end i g"

fun gate_run :: "gateCall list \<Rightarrow> rawAttachmentGate \<Rightarrow> (rawAttachmentGate \<times> rawAttachmentReply list) option" where
  "gate_run [] g = Some (g, [])"
| "gate_run (c # cs) g =
     (case gate_call c g of
        None \<Rightarrow> None
      | Some (g', out) \<Rightarrow> map_option (\<lambda>(g'', out'). (g'', out @ out')) (gate_run cs g'))"

fun call_replies :: "gateCall \<Rightarrow> rawAttachmentReply list" where
  "call_replies (Effect r) = [r]"
| "call_replies _ = []"

text \<open>Identifiers of attachments are fresh UUIDs, so they are never empty.\<close>

fun call_ok :: "gateCall \<Rightarrow> bool" where
  "call_ok (Begin now owner i start) = (i \<noteq> [])"
| "call_ok _ = True"

text \<open>
  The output up to this event belongs to an attached terminal, or was in the screen that an
  attachment captured.
\<close>

definition answered :: "rawAttachmentGate \<Rightarrow> u64" where
  "answered g = (if ag_id g \<noteq> [] \<and> \<not> ag_pending g then max (ag_suppressed g) (ag_ack g) else ag_suppressed g)"

definition gate_inv :: "rawAttachmentGate \<Rightarrow> bool" where
  [inv_defs]: "gate_inv g \<longleftrightarrow>
     (ag_id g = [] \<longrightarrow> ag_held g = [] \<and> \<not> ag_pending g) \<and> (ag_id g \<noteq> [] \<longrightarrow> ag_done g = OpenChan)
     \<and> ag_heldBytes g = reply_bytes (ag_held g) \<and> ag_heldBytes g \<le> rawAttachmentResponseLimit
     \<and> (\<forall>r \<in> set (ag_held g). \<not> immediate (rr_id r) \<and> rr_id r > (if ag_pending g then ag_start g else ag_ack g))"

lemma reply_bytes_simps [simp]:
  "reply_bytes [] = 0" "reply_bytes (r # rs) = int (length (rr_data r)) + reply_bytes rs"
  "reply_bytes (rs @ ss) = reply_bytes rs + reply_bytes ss"
  by (simp_all add: reply_bytes_def)

lemma reply_bytes_nonneg [simp]: "0 \<le> reply_bytes rs"
  by (induction rs) simp_all

lemma reply_bytes_split: "reply_bytes rs = reply_bytes (filter P rs) + reply_bytes (filter (\<lambda>r. \<not> P r) rs)"
  by (induction rs) auto

lemma reply_bytes_filter_le: "reply_bytes (filter P rs) \<le> reply_bytes rs"
  by (simp add: reply_bytes_split [of rs P])

text \<open>
  What one call does with the reply it brings and with the replies it holds: they are delivered,
  still held, or dropped because the output they answer belongs to the attached terminal.
\<close>

definition accounted ::
  "rawAttachmentReply list \<Rightarrow> rawAttachmentGate \<Rightarrow> rawAttachmentReply list \<Rightarrow> rawAttachmentGate \<Rightarrow> bool" where
  "accounted new g out g' \<longleftrightarrow>
     (\<exists>dropped. mset (ag_held g) + mset new = mset out + mset (ag_held g') + mset dropped
        \<and> (\<forall>r \<in> set dropped. \<not> immediate (rr_id r) \<and> rr_id r \<le> answered g'))
     \<and> answered g \<le> answered g'"

lemma accountedI:
  "mset (ag_held g) + mset new = mset out + mset (ag_held g') + mset dropped \<Longrightarrow>
   (\<And>r. r \<in> set dropped \<Longrightarrow> \<not> immediate (rr_id r) \<and> rr_id r \<le> answered g') \<Longrightarrow>
   answered g \<le> answered g' \<Longrightarrow> accounted new g out g'"
  by (auto simp: accounted_def)

lemma begin_correct:
  assumes "gate_inv g" "i \<noteq> []"
  shows "gate_inv (fst (gate_begin now owner i start g)) \<and> accounted [] g [] (fst (gate_begin now owner i start g))"
proof
  show "gate_inv (fst (gate_begin now owner i start g))"
    using assms by (auto simp: gate_inv_def gate_begin_def)
  show "accounted [] g [] (fst (gate_begin now owner i start g))"
    by (rule accountedI [of _ _ _ _ "[]"]) (auto simp: gate_begin_def answered_def)
qed

lemma mset_filter_split: "mset xs = mset (filter P xs) + mset (filter (\<lambda>x. \<not> P x) xs)"
  by simp

lemma commit_correct:
  assumes "gate_inv g" "gate_commit i through g = (g', out, err)"
  shows "gate_inv g' \<and> accounted [] g out g'"
proof (cases "ag_id g \<noteq> i \<or> \<not> ag_pending g \<or> through < ag_start g")
  case True
  then have "g' = g" "out = []" using assms(2) by (auto simp: gate_commit_def split: if_splits)
  then show ?thesis using assms(1) by (auto intro: accountedI [of _ _ _ _ "[]"])
next
  case False
  then have g': "g' = g\<lparr>ag_pending := False, ag_ack := through, ag_sent := through,
        ag_held := filter (\<lambda>r. \<not> rr_id r \<le> through) (ag_held g),
        ag_heldBytes := ag_heldBytes g - reply_bytes (filter (\<lambda>r. rr_id r \<le> through) (ag_held g))\<rparr>"
      and out: "out = filter (\<lambda>r. rr_id r \<le> through) (ag_held g)"
    using assms(2) by (auto simp: gate_commit_def Let_def)
  have "gate_inv g'"
    using assms(1) False reply_bytes_split [of "ag_held g" "\<lambda>r. rr_id r \<le> through"]
      reply_bytes_filter_le [of "\<lambda>r. \<not> rr_id r \<le> through" "ag_held g"]
    by (auto simp: gate_inv_def g' simp del: reply_bytes_nonneg)
  moreover have "accounted [] g out g'"
    by (rule accountedI [of _ _ _ _ "[]"]) (use False in \<open>auto simp: g' out answered_def\<close>)
  ultimately show ?thesis by blast
qed

lemma end_correct:
  assumes inv: "gate_inv g" and act: "ag_id g \<noteq> []"
  shows "\<exists>g' out. gate_endLocked g = Some (g', out) \<and> gate_inv g' \<and> accounted [] g out g'
    \<and> ag_id g' = [] \<and> out = ag_held g"
proof -
  have all: "filter (\<lambda>r. ag_pending g \<or> rr_id r > ag_ack g) (ag_held g) = ag_held g"
    using inv by (auto simp: gate_inv_def filter_id_conv)
  define g' where "g' = g\<lparr>ag_suppressed := (if ag_pending g then ag_suppressed g else max (ag_suppressed g) (ag_ack g)),
      ag_held := [], ag_heldBytes := 0, ag_id := [], ag_owner := [], ag_pending := False, ag_done := ClosedChan\<rparr>"
  have "gate_endLocked g = Some (g', ag_held g)"
    using inv act all by (simp add: gate_endLocked_def g'_def gate_inv_def)
  moreover have "gate_inv g'" by (simp add: gate_inv_def g'_def rawAttachmentResponseLimit_def)
  moreover have "accounted [] g (ag_held g) g'"
    by (rule accountedI [of _ _ _ _ "[]"]) (use act in \<open>auto simp: g'_def answered_def\<close>)
  ultimately show ?thesis by (simp add: g'_def)
qed

lemma effect_correct:
  assumes inv: "gate_inv g"
  shows "\<exists>g' out. gate_effect r g = Some (g', out) \<and> gate_inv g' \<and> accounted [r] g out g'"
proof -
  consider (now) "immediate (rr_id r) \<or> \<not> rr_id r \<le> ag_suppressed g \<and> (ag_id g = [] \<or> (ag_pending g \<and> rr_id r \<le> ag_start g))"
    | (drop) "\<not> immediate (rr_id r)" "rr_id r \<le> ag_suppressed g \<or> (ag_id g \<noteq> [] \<and> \<not> ag_pending g \<and> rr_id r \<le> ag_ack g)"
    | (full) "\<not> immediate (rr_id r)" "\<not> rr_id r \<le> ag_suppressed g" "ag_id g \<noteq> []"
        "\<not> (ag_pending g \<and> rr_id r \<le> ag_start g)" "\<not> (\<not> ag_pending g \<and> rr_id r \<le> ag_ack g)"
        "int (length (rr_data r)) > rawAttachmentResponseLimit - ag_heldBytes g"
    | (hold) "\<not> immediate (rr_id r)" "\<not> rr_id r \<le> ag_suppressed g" "ag_id g \<noteq> []"
        "\<not> (ag_pending g \<and> rr_id r \<le> ag_start g)" "\<not> (\<not> ag_pending g \<and> rr_id r \<le> ag_ack g)"
        "int (length (rr_data r)) \<le> rawAttachmentResponseLimit - ag_heldBytes g"
    by linarith
  then show ?thesis
  proof cases
    case now
    then have "gate_effect r g = Some (g, [r])" by (auto simp: gate_effect_def)
    moreover have "accounted [r] g [r] g" by (rule accountedI [of _ _ _ _ "[]"]) auto
    ultimately show ?thesis using inv by blast
  next
    case drop
    then have "gate_effect r g = Some (g, [])" by (auto simp: gate_effect_def)
    moreover have "accounted [r] g [] g"
      by (rule accountedI [of _ _ _ _ "[r]"]) (use drop in \<open>auto simp: answered_def le_max_iff_disj\<close>)
    ultimately show ?thesis using inv by blast
  next
    case full
    obtain g' where g': "gate_endLocked g = Some (g', ag_held g)" "gate_inv g'" "accounted [] g (ag_held g) g'"
      using end_correct [OF inv full(3)] by blast
    then have "gate_effect r g = Some (g', ag_held g @ [r])" using full by (auto simp: gate_effect_def)
    moreover have "accounted [r] g (ag_held g @ [r]) g'" using g'(3) by (auto simp: accounted_def)
    ultimately show ?thesis using g'(2) by blast
  next
    case hold
    define g' where "g' = g\<lparr>ag_held := ag_held g @ [r], ag_heldBytes := ag_heldBytes g + int (length (rr_data r))\<rparr>"
    have "gate_effect r g = Some (g', [])" using hold by (auto simp: gate_effect_def g'_def)
    moreover have "gate_inv g'" using inv hold by (auto simp: gate_inv_def g'_def)
    moreover have "accounted [r] g [] g'"
      by (rule accountedI [of _ _ _ _ "[]"]) (auto simp: g'_def answered_def)
    ultimately show ?thesis by blast
  qed
qed

lemma validate_cases:
  assumes "gate_validateLocked now owner i g = (h, err)"
  obtains (refused) e where "h = g" "err = Some e"
  | (valid) d where "h = g\<lparr>ag_deadline := d\<rparr>" "err = None" "ag_id g \<noteq> []" "\<not> ag_pending g"
  using assms by (auto simp: gate_validateLocked_def split: if_splits)

lemma deadline_frame [simp]:
  "gate_inv (g\<lparr>ag_deadline := d\<rparr>) = gate_inv g" "answered (g\<lparr>ag_deadline := d\<rparr>) = answered g"
  "gate_inv (g\<lparr>ag_sent := x\<rparr>) = gate_inv g" "answered (g\<lparr>ag_sent := x\<rparr>) = answered g"
  by (simp_all add: gate_inv_def answered_def)

lemma delivered_correct:
  assumes "gate_inv g"
  shows "gate_inv (fst (gate_delivered now owner i through g))
    \<and> accounted [] g [] (fst (gate_delivered now owner i through g))"
  using assms by (auto simp: gate_delivered_def gate_validateLocked_def intro: accountedI [of _ _ _ _ "[]"])

lemma acknowledge_correct:
  assumes inv: "gate_inv g"
  shows "gate_inv (fst (gate_acknowledge now owner i through g))
    \<and> accounted [] g [] (fst (gate_acknowledge now owner i through g))"
proof -
  obtain h err where v: "gate_validateLocked now owner i g = (h, err)" by fastforce
  have hi: "gate_inv h" "ag_held h = ag_held g" "answered h = answered g"
      and valid: "err = None \<Longrightarrow> ag_id h \<noteq> [] \<and> \<not> ag_pending h"
    using v inv by (cases rule: validate_cases, simp_all)+
  show ?thesis
  proof (cases "err = None \<and> ag_ack h \<le> through \<and> through \<le> ag_sent h")
    case False
    then have "fst (gate_acknowledge now owner i through g) = h"
      using v by (auto simp: gate_acknowledge_def split: option.splits)
    then show ?thesis using hi by (auto intro!: accountedI [of _ _ _ _ "[]"])
  next
    case True
    define g' where "g' = h\<lparr>ag_ack := through, ag_suppressed := max (ag_suppressed h) through,
        ag_held := filter (\<lambda>r. rr_id r > through) (ag_held h),
        ag_heldBytes := ag_heldBytes h - reply_bytes (filter (\<lambda>r. \<not> rr_id r > through) (ag_held h))\<rparr>"
    have e: "fst (gate_acknowledge now owner i through g) = g'"
      using v True by (auto simp: gate_acknowledge_def g'_def)
    have act: "ag_id h \<noteq> []" "\<not> ag_pending h" using valid True by blast+
    have "gate_inv g'"
      using hi(1) act reply_bytes_split [of "ag_held h" "\<lambda>r. rr_id r > through"]
        reply_bytes_filter_le [of "\<lambda>r. rr_id r > through" "ag_held h"]
      by (auto simp: gate_inv_def g'_def simp del: reply_bytes_nonneg)
    moreover have "accounted [] g [] g'"
    proof (rule accountedI [of _ _ _ _ "filter (\<lambda>r. \<not> rr_id r > through) (ag_held h)"])
      have "answered h \<le> answered g'" using act True by (auto simp: answered_def g'_def le_max_iff_disj)
      then show "answered g \<le> answered g'" by (simp only: hi(3))
      show "mset (ag_held g) + mset [] = mset [] + mset (ag_held g') + mset (filter (\<lambda>r. \<not> rr_id r > through) (ag_held h))"
        by (simp add: hi(2) [symmetric] g'_def)
      fix r assume "r \<in> set (filter (\<lambda>r. \<not> rr_id r > through) (ag_held h))"
      then show "\<not> immediate (rr_id r) \<and> rr_id r \<le> answered g'"
        using hi(1) act by (auto simp: gate_inv_def answered_def g'_def le_max_iff_disj)
    qed
    ultimately show ?thesis by (simp add: e)
  qed
qed

lemma call_correct:
  assumes "gate_inv g" "call_ok c"
  shows "\<exists>g' out. gate_call c g = Some (g', out) \<and> gate_inv g' \<and> accounted (call_replies c) g out g'"
proof (cases c)
  case (Begin now owner i start)
  then show ?thesis using begin_correct [OF assms(1)] assms(2) by simp
next
  case (Commit i through)
  obtain g' out err where "gate_commit i through g = (g', out, err)" by (metis prod_cases3)
  then show ?thesis using commit_correct [OF assms(1)] Commit by simp
next
  case (Effect r)
  then show ?thesis using effect_correct [OF assms(1)] by simp
next
  case (Delivered now owner i through)
  then show ?thesis using delivered_correct [OF assms(1)] by simp
next
  case (Acknowledge now owner i through)
  then show ?thesis using acknowledge_correct [OF assms(1)] by simp
next
  case (End i)
  show ?thesis
  proof (cases "ag_id g = i \<and> i \<noteq> []")
    case True
    then show ?thesis using end_correct [OF assms(1)] End by (auto simp: gate_end_def)
  next
    case False
    then have "gate_end i g = Some (g, [])" by (auto simp: gate_end_def)
    moreover have "accounted [] g [] g" by (rule accountedI [of _ _ _ _ "[]"]) auto
    ultimately show ?thesis using End assms(1) by simp
  qed
qed

lemma accounted_trans:
  assumes "accounted new g out h" "accounted new' h out' g'"
  shows "accounted (new @ new') g (out @ out') g'"
proof -
  obtain d where d: "mset (ag_held g) + mset new = mset out + mset (ag_held h) + mset d"
      "\<forall>r \<in> set d. \<not> immediate (rr_id r) \<and> rr_id r \<le> answered h"
    using assms(1) by (auto simp: accounted_def)
  obtain d' where d': "mset (ag_held h) + mset new' = mset out' + mset (ag_held g') + mset d'"
      "\<forall>r \<in> set d'. \<not> immediate (rr_id r) \<and> rr_id r \<le> answered g'"
    using assms(2) by (auto simp: accounted_def)
  have up: "answered g \<le> answered h" "answered h \<le> answered g'" using assms by (auto simp: accounted_def)
  show ?thesis
  proof (rule accountedI [of _ _ _ _ "d @ d'"])
    have "mset (ag_held g) + mset (new @ new') = mset out + mset d + (mset (ag_held h) + mset new')"
      using d(1) by (simp add: algebra_simps)
    then show "mset (ag_held g) + mset (new @ new') = mset (out @ out') + mset (ag_held g') + mset (d @ d')"
      unfolding d'(1) by (simp add: algebra_simps)
  qed (use d(2) d'(2) up in auto)
qed

lemma run_correct:
  assumes "gate_inv g" "list_all call_ok cs"
  shows "\<exists>g' out. gate_run cs g = Some (g', out) \<and> gate_inv g' \<and> accounted (concat (map call_replies cs)) g out g'"
  using assms
proof (induction cs arbitrary: g)
  case Nil
  have "accounted [] g [] g" by (rule accountedI [of _ _ _ _ "[]"]) auto
  with Nil show ?case by simp
next
  case (Cons c cs)
  obtain h out where h: "gate_call c g = Some (h, out)" "gate_inv h" "accounted (call_replies c) g out h"
    using call_correct [OF Cons.prems(1), of c] Cons.prems(2) by auto
  obtain g' out' where g': "gate_run cs h = Some (g', out')" "gate_inv g'"
      "accounted (concat (map call_replies cs)) h out' g'"
    using Cons.IH [OF h(2)] Cons.prems(2) by auto
  show ?case using h g' accounted_trans [OF h(3) g'(3)] by simp
qed

lemma zero_gate_inv: "gate_inv zero_gate" "answered zero_gate = 0" "ag_held zero_gate = []"
  by (simp_all add: gate_inv_def zero_gate_def answered_def rawAttachmentResponseLimit_def)

text \<open>
  Property C19: Every query reply is answered once. Whatever the order of attachments, captures,
  acknowledgements, detachments and replies, the gate never panics, and every reply that the
  renderer produced is delivered exactly once, or still held, or dropped once; a reply is
  dropped only when the output it answers was acknowledged by an attached terminal or was part
  of a captured screen. The held bytes are counted exactly and stay within 256 KiB.
\<close>

theorem attach_replies_accounted:
  assumes "list_all call_ok cs"
  shows "\<exists>g out dropped. gate_run cs zero_gate = Some (g, out)
     \<and> mset (concat (map call_replies cs)) = mset out + mset (ag_held g) + mset dropped
     \<and> (\<forall>r \<in> set dropped. \<not> immediate (rr_id r) \<and> rr_id r \<le> answered g)
     \<and> ag_heldBytes g = reply_bytes (ag_held g) \<and> ag_heldBytes g \<le> 256 * 1024"
proof -
  obtain g out where g: "gate_run cs zero_gate = Some (g, out)" "gate_inv g"
      "accounted (concat (map call_replies cs)) zero_gate out g"
    using run_correct [OF zero_gate_inv(1) assms] by blast
  obtain d where "mset (concat (map call_replies cs)) = mset out + mset (ag_held g) + mset d"
      "\<forall>r \<in> set d. \<not> immediate (rr_id r) \<and> rr_id r \<le> answered g"
    using g(3) unfolding accounted_def zero_gate_inv(3) by auto
  then show ?thesis using g(1,2) by (auto simp: gate_inv_def rawAttachmentResponseLimit_def)
qed

definition sample_calls :: "gateCall list" where
  "sample_calls = [Begin 0 ''tui'' ''a1'' 3, Effect \<lparr>rr_id = 4, rr_data = ''q4'', rr_deliver = 0\<rparr>, Commit ''a1'' 4,
     Effect \<lparr>rr_id = 5, rr_data = ''q5'', rr_deliver = 0\<rparr>, Delivered 1 ''tui'' ''a1'' 5,
     Acknowledge 2 ''tui'' ''a1'' 5, Effect \<lparr>rr_id = 6, rr_data = ''q6'', rr_deliver = 0\<rparr>, End ''a1'']"

theorem attach_replies_accounted_witness:
  "\<exists>g out. gate_run sample_calls zero_gate = Some (g, out) \<and> ag_heldBytes g \<le> 256 * 1024
     \<and> map rr_data out = [''q4'', ''q6'']"
proof -
  have "list_all call_ok sample_calls" by (simp add: sample_calls_def)
  from attach_replies_accounted [OF this] obtain g out where
    g: "gate_run sample_calls zero_gate = Some (g, out)" "ag_heldBytes g \<le> 256 * 1024" by blast
  have "map_option (\<lambda>(_, out). map rr_data out) (gate_run sample_calls zero_gate) = Some [''q4'', ''q6'']"
    by code_simp
  with g show ?thesis by auto
qed

section \<open>Order\<close>

definition queries :: "rawAttachmentReply list \<Rightarrow> rawAttachmentReply list" where
  "queries rs = filter (\<lambda>r. \<not> immediate (rr_id r)) rs"

text \<open>
  The replies delivered so far and those held are, in this order, replies that were produced in
  this order; every held reply answers at most the newest event.
\<close>

definition in_order :: "rawAttachmentReply list \<Rightarrow> rawAttachmentReply list \<Rightarrow> rawAttachmentGate \<Rightarrow> bool" where
  "in_order produced out g \<longleftrightarrow> subseq (queries out @ ag_held g) (queries produced)
     \<and> sorted (map rr_id (ag_held g))"

lemma queries_simps [simp]:
  "queries [] = []" "queries (xs @ ys) = queries xs @ queries ys"
  "queries [r] = (if immediate (rr_id r) then [] else [r])"
  by (simp_all add: queries_def)

lemma held_queries: "gate_inv g \<Longrightarrow> queries (ag_held g) = ag_held g"
  by (auto simp: gate_inv_def queries_def filter_id_conv)

lemma sorted_split:
  assumes "sorted (map rr_id rs)"
  shows "filter (\<lambda>r. rr_id r \<le> x) rs @ filter (\<lambda>r. \<not> rr_id r \<le> x) rs = rs"
  using assms
proof (induction rs)
  case (Cons r rs)
  show ?case
  proof (cases "rr_id r \<le> x")
    case False
    then have "filter (\<lambda>r. rr_id r \<le> x) rs = []" using Cons.prems by (fastforce simp: filter_empty_conv)
    moreover from this have "filter (\<lambda>r. \<not> rr_id r \<le> x) rs = rs" by (auto simp: filter_empty_conv filter_id_conv)
    ultimately show ?thesis using False by simp
  qed (use Cons in simp)
qed simp

lemma subseq_filter_tail: "subseq (xs @ ys) zs \<Longrightarrow> subseq (xs @ filter P ys) zs"
  by (rule subseq_order.trans [of _ "xs @ ys"]) (auto intro: list_emb_append_mono)

lemma in_order_frame:
  "in_order produced out g \<Longrightarrow> ag_held g' = filter P (ag_held g) \<Longrightarrow> in_order produced out g'"
  by (auto simp: in_order_def intro: subseq_filter_tail sorted_filter)

lemma effect_cases:
  assumes eff: "gate_effect r g = Some (g', o')" and q: "\<not> immediate (rr_id r)" and inv: "gate_inv g"
  obtains (now) "ag_id g = [] \<or> (ag_pending g \<and> rr_id r \<le> ag_start g)" "g' = g" "o' = [r]"
  | (drop) "g' = g" "o' = []"
  | (full) "ag_id g \<noteq> []" "o' = ag_held g @ [r]" "ag_held g' = []"
  | (hold) "g' = g\<lparr>ag_held := ag_held g @ [r], ag_heldBytes := ag_heldBytes g + int (length (rr_data r))\<rparr>" "o' = []"
proof -
  show thesis
  proof (cases "rr_id r \<le> ag_suppressed g \<or> ag_id g = [] \<or> (ag_pending g \<and> rr_id r \<le> ag_start g)
      \<or> (\<not> ag_pending g \<and> rr_id r \<le> ag_ack g)")
    case True
    then have "gate_effect r g = Some (g, []) \<or> (ag_id g = [] \<or> ag_pending g \<and> rr_id r \<le> ag_start g)
        \<and> gate_effect r g = Some (g, [r])"
      using q by (auto simp: gate_effect_def)
    then show thesis using eff now drop by auto
  next
    case False
    then have act: "ag_id g \<noteq> []" by blast
    obtain h where h: "gate_endLocked g = Some (h, ag_held g)" using end_correct [OF inv act] by blast
    then have "ag_held h = []" by (auto simp: gate_endLocked_def split: if_splits)
    show thesis
    proof (cases "int (length (rr_data r)) > rawAttachmentResponseLimit - ag_heldBytes g")
      case True
      then have "gate_effect r g = Some (h, ag_held g @ [r])" using q False h by (auto simp: gate_effect_def)
      then have "g' = h" "o' = ag_held g @ [r]" using eff by simp_all
      then show thesis using full act \<open>ag_held h = []\<close> by blast
    next
      case fits: False
      then have "gate_effect r g =
          Some (g\<lparr>ag_held := ag_held g @ [r], ag_heldBytes := ag_heldBytes g + int (length (rr_data r))\<rparr>, [])"
        using q False by (auto simp: gate_effect_def)
      then show thesis using eff hold by simp
    qed
  qed
qed

lemma effect_in_order:
  assumes inv: "gate_inv g" and ord: "in_order produced out g"
    and mono: "sorted (map rr_id (queries (produced @ [r])))" and eff: "gate_effect r g = Some (g', o')"
  shows "in_order (produced @ [r]) (out @ o') g'"
proof (cases "immediate (rr_id r)")
  case True
  then show ?thesis using eff ord by (auto simp: gate_effect_def in_order_def)
next
  case q: False
  have sub: "subseq (queries out @ ag_held g) (queries produced)" "sorted (map rr_id (ag_held g))"
    using ord by (auto simp: in_order_def)
  have le: "rr_id h \<le> rr_id r" if "h \<in> set (ag_held g)" for h
  proof -
    have "h \<in> set (queries produced)"
      using that sub(1) list_emb_set [OF sub(1), of h] by auto
    then show ?thesis using mono q by (auto simp: sorted_append)
  qed
  have more: "subseq ((queries out @ ag_held g) @ [r]) (queries produced @ [r])" by (rule list_emb_append_mono [OF sub(1)]) simp
  have drop: "subseq (queries out @ ag_held g) (queries produced @ [r])" using sub(1) by (rule subseq_rev_drop_many)
  from eff q inv show ?thesis
  proof (cases rule: effect_cases)
    case now
    have "ag_held g = []"
    proof (cases "ag_id g = []")
      case False
      then have "\<forall>h \<in> set (ag_held g). False" using now(1) inv le by (fastforce simp: gate_inv_def)
      then show ?thesis by (cases "ag_held g") auto
    qed (use inv in \<open>simp add: gate_inv_def\<close>)
    then show ?thesis using now more q by (simp add: in_order_def)
  next
    case drop
    then show ?thesis using sub \<open>subseq (queries out @ ag_held g) (queries produced @ [r])\<close> q by (simp add: in_order_def)
  next
    case full
    then show ?thesis using more q held_queries [OF inv] by (simp add: in_order_def)
  next
    case hold
    then show ?thesis using more q sub(2) le by (simp add: in_order_def sorted_append)
  qed
qed

lemma call_in_order:
  assumes inv: "gate_inv g" and ord: "in_order produced out g"
    and mono: "sorted (map rr_id (queries (produced @ call_replies c)))" and call: "gate_call c g = Some (g', o')"
  shows "in_order (produced @ call_replies c) (out @ o') g'"
proof (cases c)
  case (Begin now owner i start)
  then show ?thesis using call ord in_order_frame [OF ord, of g' "\<lambda>_. True"] by (auto simp: gate_begin_def split: if_splits)
next
  case (Commit i through)
  show ?thesis
  proof (cases "ag_id g \<noteq> i \<or> \<not> ag_pending g \<or> through < ag_start g")
    case True
    then show ?thesis using call Commit ord by (auto simp: gate_commit_def)
  next
    case False
    then have "o' = filter (\<lambda>r. rr_id r \<le> through) (ag_held g)"
        "ag_held g' = filter (\<lambda>r. \<not> rr_id r \<le> through) (ag_held g)"
      using call Commit by (auto simp: gate_commit_def Let_def)
    moreover have "queries (filter P (ag_held g)) = filter P (ag_held g)" for P
      using inv by (auto simp: gate_inv_def queries_def intro!: filter_cong)
    ultimately show ?thesis
      using ord Commit sorted_split [of "ag_held g" through] sorted_filter [of rr_id "ag_held g"]
      by (simp add: in_order_def)
  qed
next
  case (Effect r)
  then show ?thesis using effect_in_order [OF inv ord] mono call by simp
next
  case (Delivered now owner i through)
  then show ?thesis using call ord in_order_frame [OF ord, of g' "\<lambda>_. True"]
    by (auto simp: gate_delivered_def gate_validateLocked_def split: if_splits)
next
  case (Acknowledge now owner i through)
  then have "\<exists>P. ag_held g' = filter P (ag_held g)" "o' = []"
    using call filter_True [of "ag_held g" "\<lambda>_. True"]
    by (auto simp: gate_acknowledge_def gate_validateLocked_def split: if_splits intro: exI [of _ "\<lambda>_. True"])
  then show ?thesis using Acknowledge in_order_frame [OF ord] by auto
next
  case (End i)
  show ?thesis
  proof (cases "ag_id g = i \<and> i \<noteq> []")
    case True
    then obtain h where "gate_endLocked g = Some (h, ag_held g)" using end_correct [OF inv] by auto
    then have "o' = ag_held g" "ag_held g' = []"
      using call End True by (auto simp: gate_end_def gate_endLocked_def split: if_splits)
    then show ?thesis using ord End held_queries [OF inv] by (simp add: in_order_def)
  next
    case False
    then have "g' = g" "o' = []" using call End by (auto simp: gate_end_def)
    then show ?thesis using ord End by simp
  qed
qed

lemma run_in_order:
  assumes "gate_inv g" "in_order produced out g" "list_all call_ok cs"
    and "sorted (map rr_id (queries (produced @ concat (map call_replies cs))))" "gate_run cs g = Some (g', o')"
  shows "in_order (produced @ concat (map call_replies cs)) (out @ o') g'"
  using assms
proof (induction cs arbitrary: g produced out o')
  case (Cons c cs)
  obtain h o1 where h: "gate_call c g = Some (h, o1)" "gate_inv h"
    using call_correct [OF Cons.prems(1), of c] Cons.prems(3) by auto
  obtain o2 where o2: "gate_run cs h = Some (g', o2)" "o' = o1 @ o2" using Cons.prems(5) h(1) by auto
  have "in_order (produced @ call_replies c) (out @ o1) h"
    using call_in_order [OF Cons.prems(1,2) _ h(1)] Cons.prems(4) by (simp add: sorted_append)
  from Cons.IH [OF h(2) this _ _ o2(1)] show ?case using Cons.prems(3,4) o2(2) by simp
qed simp

text \<open>
  Query replies keep their order. When the renderer produces its replies in the
  order of the output they answer, the replies that the gate delivers to the program, however
  long some were held back by an attachment, reach it in the order in which they were produced.
\<close>

theorem attach_replies_ordered:
  assumes "list_all call_ok cs" "gate_run cs zero_gate = Some (g, out)"
    and "sorted (map rr_id (queries (concat (map call_replies cs))))"
  shows "subseq (queries out) (queries (concat (map call_replies cs)))"
proof -
  have "in_order [] [] zero_gate" by (simp add: in_order_def zero_gate_inv)
  from run_in_order [OF zero_gate_inv(1) this assms(1) _ assms(2)] assms(3)
  have "subseq (queries out @ ag_held g) (queries (concat (map call_replies cs)))" by (simp add: in_order_def)
  then show ?thesis by (rule subseq_order.trans [rotated]) (rule subseq_rev_drop_many [OF subseq_order.refl])
qed

theorem attach_replies_ordered_witness:
  "\<exists>g out. gate_run sample_calls zero_gate = Some (g, out)
     \<and> subseq (queries out) (queries (concat (map call_replies sample_calls)))"
proof -
  have ok: "list_all call_ok sample_calls" by (simp add: sample_calls_def)
  have "sorted (map rr_id (queries (concat (map call_replies sample_calls))))" by code_simp
  moreover obtain g out where "gate_run sample_calls zero_gate = Some (g, out)"
    using run_correct [OF zero_gate_inv(1) ok] by blast
  ultimately show ?thesis using attach_replies_ordered [OF ok] by blast
qed

end
