(* ===== verification/TerminalBytes.thy ===== *)
theory TerminalBytes
  imports Utf8 "HOL-Library.Sublist"
begin

text \<open>
  Two byte-stream recognizers: \<^verbatim>\<open>rawAttachInput\<close> of \<^verbatim>\<open>internal/codelima/terminal_attach_input.go\<close>,
  which finds the detach key in what the user types, and \<^verbatim>\<open>VTBoundary\<close> of
  \<^verbatim>\<open>internal/terminalstate/vt_boundary.go\<close>, which knows whether a terminal's output stands between
  complete sequences.
\<close>

section \<open>Input of an attached terminal\<close>

record rawAttachInput =
  ai_pending :: string
  ai_paste :: bool



definition esc :: char where "esc = CHR 0x1B"




definition flush_input :: "rawAttachInput \<Rightarrow> rawAttachInput \<times> string" where
  "flush_input f = (f\<lparr>ai_pending := []\<rparr>, ai_pending f)"









section \<open>The boundary of terminal output\<close>

record VTBoundary =
  vb_State :: nat
  vb_UTF8 :: nat
  vb_OSC :: bool

definition vtGround :: nat where [simp]: "vtGround = 0"
definition vtEscape :: nat where [simp]: "vtEscape = 1"
definition vtCSI :: nat where [simp]: "vtCSI = 2"
definition vtString :: nat where [simp]: "vtString = 3"
definition vtStringEscape :: nat where [simp]: "vtStringEscape = 4"

definition Ground :: "VTBoundary \<Rightarrow> bool" where
  "Ground v \<longleftrightarrow> vb_State v = vtGround \<and> vb_UTF8 v = 0"

text \<open>A byte outside of a control string that does not begin a sequence: the last switch.\<close>

definition vt_plain :: "VTBoundary \<Rightarrow> nat \<Rightarrow> VTBoundary" where
  "vt_plain v b =
     (if vb_State v = vtEscape
      then if b = 91 then v\<lparr>vb_State := vtCSI\<rparr>
           else if b \<in> {80, 88, 93, 94, 95} then v\<lparr>vb_State := vtString, vb_OSC := (b = 93)\<rparr>
           else if 48 \<le> b \<and> b \<le> 126 then v\<lparr>vb_State := vtGround\<rparr> else v
      else if vb_State v = vtCSI
      then if 64 \<le> b \<and> b \<le> 126 then v\<lparr>vb_State := vtGround\<rparr> else v
      else v)"

definition vt_command :: "VTBoundary \<Rightarrow> nat \<Rightarrow> VTBoundary" where
  "vt_command v b =
     (if b = 24 \<or> b = 26 \<or> b = 156 then v\<lparr>vb_State := vtGround\<rparr>
      else let v = (if vb_State v = vtStringEscape \<and> b \<noteq> 92 \<and> b \<noteq> 27 then v\<lparr>vb_State := vtEscape\<rparr> else v)
           in if vb_State v = vtString \<or> vb_State v = vtStringEscape
              then if b = 7 \<and> vb_OSC v \<or> b = 92 \<and> vb_State v = vtStringEscape then v\<lparr>vb_State := vtGround\<rparr>
                   else if b = 27 then v\<lparr>vb_State := vtStringEscape\<rparr>
                   else v\<lparr>vb_State := vtString\<rparr>
              else if b = 27 then v\<lparr>vb_State := vtEscape\<rparr>
              else if b = 155 then v\<lparr>vb_State := vtCSI\<rparr>
              else if b \<in> {144, 152, 157, 158, 159} then v\<lparr>vb_State := vtString, vb_OSC := (b = 157)\<rparr>
              else vt_plain v b)"

definition vt_feed :: "VTBoundary \<Rightarrow> nat \<Rightarrow> VTBoundary" where
  "vt_feed v b =
     (if vb_UTF8 v > 0 \<and> cont b then v\<lparr>vb_UTF8 := vb_UTF8 v - 1\<rparr>
      else let v = v\<lparr>vb_UTF8 := 0\<rparr>
           in if 194 \<le> b \<and> b \<le> 223 then v\<lparr>vb_UTF8 := 1\<rparr>
              else if 224 \<le> b \<and> b \<le> 239 then v\<lparr>vb_UTF8 := 2\<rparr>
              else if 240 \<le> b \<and> b \<le> 244 then v\<lparr>vb_UTF8 := 3\<rparr>
              else vt_command v b)"

definition Feed :: "VTBoundary \<Rightarrow> string \<Rightarrow> VTBoundary" where
  "Feed v data = foldl (\<lambda>v c. vt_feed v (byte c)) v data"

lemma Feed_simps [simp]:
  "Feed v [] = v" "Feed v (c # cs) = Feed (vt_feed v (byte c)) cs" "Feed v (xs @ ys) = Feed (Feed v xs) ys"
  by (simp_all add: Feed_def)

text \<open>
  The complete units of terminal output: a character, a control sequence with its parameters and
  final byte, a two-byte escape, and a control string with its terminator (BEL for OSC, or ST).
\<close>

definition character_token :: "string \<Rightarrow> bool" where
  "character_token t \<longleftrightarrow> t \<noteq> [] \<and> rune_size t = length t \<and> hd t \<noteq> esc"

definition csi_token :: "string \<Rightarrow> bool" where
  "csi_token t \<longleftrightarrow> (\<exists>ps f. t = esc # CHR ''['' # ps @ [f] \<and> (\<forall>p \<in> set ps. 32 \<le> byte p \<and> byte p \<le> 63)
     \<and> 64 \<le> byte f \<and> byte f \<le> 126)"

definition escape_token :: "string \<Rightarrow> bool" where
  "escape_token t \<longleftrightarrow> (\<exists>f. t = [esc, f] \<and> 48 \<le> byte f \<and> byte f \<le> 126 \<and> byte f \<notin> {91, 80, 88, 93, 94, 95})"

definition string_token :: "string \<Rightarrow> bool" where
  "string_token t \<longleftrightarrow> (\<exists>k body terminator. t = esc # k # body @ terminator \<and> byte k \<in> {80, 88, 93, 94, 95}
     \<and> (\<forall>b \<in> set body. 32 \<le> byte b \<and> byte b \<le> 126)
     \<and> (terminator = [esc, CHR 0x5C] \<or> terminator = [CHR 0x07] \<and> byte k = 93))"

definition vt_token :: "string \<Rightarrow> bool" where
  "vt_token t \<longleftrightarrow> character_token t \<or> csi_token t \<or> escape_token t \<or> string_token t"

definition closed_unit :: "string \<Rightarrow> bool" where
  "closed_unit t \<longleftrightarrow> t \<noteq> [] \<and> (\<forall>v. Ground v \<longrightarrow> Ground (Feed v t)
     \<and> (\<forall>j. 0 < j \<and> j < length t \<longrightarrow> \<not> Ground (Feed v (take j t))))"

lemma byte_esc [simp]: "byte esc = 27" "byte (CHR ''['') = 91" "byte (CHR 0x5C) = 92" "byte (CHR 0x07) = 7"
  by (simp_all add: byte_def esc_def)

lemma byte_eq_iff: "byte a = byte b \<longleftrightarrow> a = b"
  by (simp add: byte_def)

lemma vt_ascii: "b < 128 \<Longrightarrow> vt_feed v b = vt_command (v\<lparr>vb_UTF8 := 0\<rparr>) b"
  by (simp add: vt_feed_def cont_def)

lemma Ground_plain:
  "Ground v \<Longrightarrow> b < 128 \<Longrightarrow> b \<noteq> 27 \<Longrightarrow> Ground (vt_command (v\<lparr>vb_UTF8 := 0\<rparr>) b)"
  by (auto simp: Ground_def vt_command_def vt_plain_def)

lemma character_closed:
  assumes "character_token t"
  shows "closed_unit t"
proof -
  have hd: "t \<noteq> []" "rune_size t = length t" "byte (hd t) \<noteq> 27"
    using assms by (auto simp: character_token_def byte_esc(1) [symmetric] byte_eq_iff simp del: byte_esc)
  obtain c cs where t: "t = c # cs" using hd(1) by (cases t) auto
  consider (one) "byte c < 128" "cs = []"
    | (two) c1 where "194 \<le> byte c" "byte c \<le> 223" "cont (byte c1)" "cs = [c1]"
    | (three) c1 c2 where "224 \<le> byte c" "byte c \<le> 239" "cont (byte c1)" "cont (byte c2)" "cs = [c1, c2]"
    | (four) c1 c2 c3 where "240 \<le> byte c" "byte c \<le> 244" "cont (byte c1)" "cont (byte c2)" "cont (byte c3)" "cs = [c1, c2, c3]"
    using hd(2) unfolding t by (auto simp: second_ok_def cont_def split: if_splits list.splits)
  then show ?thesis
  proof cases
    case one
    then show ?thesis using hd(3) Ground_plain by (auto simp: closed_unit_def t vt_ascii)
  next
    case two
    then show ?thesis by (auto simp: closed_unit_def t vt_feed_def Ground_def less_Suc_eq)
  next
    case three
    then show ?thesis by (auto simp: closed_unit_def t vt_feed_def Ground_def less_Suc_eq)
  next
    case four
    then show ?thesis by (auto simp: closed_unit_def t vt_feed_def Ground_def less_Suc_eq)
  qed
qed

text \<open>Inside of a control sequence or string, the payload keeps the state.\<close>

lemma Feed_stays:
  assumes "\<forall>c \<in> set cs. vt_feed v (byte c) = v"
  shows "Feed v cs = v"
  using assms by (induction cs) auto

lemma take_payload:
  assumes "j \<le> length ps"
  shows "take (2 + j) (a # b # ps @ qs) = a # b # take j ps"
  using assms by simp

lemma escape_closed: "escape_token t \<Longrightarrow> closed_unit t"
  by (auto simp: escape_token_def closed_unit_def less_Suc_eq Ground_def vt_ascii vt_command_def vt_plain_def)

lemma csi_closed:
  assumes "csi_token t"
  shows "closed_unit t"
proof -
  obtain ps f where t: "t = esc # CHR ''['' # ps @ [f]" and ps: "\<forall>p \<in> set ps. 32 \<le> byte p \<and> byte p \<le> 63"
    and f: "64 \<le> byte f" "byte f \<le> 126"
    using assms by (auto simp: csi_token_def)
  have start: "Feed v [esc, CHR ''[''] = v\<lparr>vb_State := vtCSI\<rparr>" if "Ground v" for v
    using that by (simp add: Ground_def vt_ascii vt_command_def vt_plain_def)
  have stay: "Feed (v\<lparr>vb_State := vtCSI\<rparr>) qs = v\<lparr>vb_State := vtCSI\<rparr>"
    if "Ground v" "set qs \<subseteq> set ps" for v qs
  proof (rule Feed_stays, rule ballI)
    fix c assume "c \<in> set qs"
    then have "32 \<le> byte c" "byte c \<le> 63" using that ps by auto
    then show "vt_feed (v\<lparr>vb_State := vtCSI\<rparr>) (byte c) = v\<lparr>vb_State := vtCSI\<rparr>"
      using that(1) by (simp add: Ground_def vt_ascii vt_command_def vt_plain_def)
  qed
  have prefix: "Feed v (esc # CHR ''['' # qs) = v\<lparr>vb_State := vtCSI\<rparr>" if "Ground v" "set qs \<subseteq> set ps" for v qs
    using start [OF that(1)] stay [OF that] by simp
  have "Ground (Feed v t)" if "Ground v" for v
    using prefix [OF that, of ps] f that by (simp add: t Ground_def vt_ascii vt_command_def vt_plain_def)
  moreover have "\<not> Ground (Feed v (take j t))" if g: "Ground v" "0 < j" "j < length t" for v j
  proof (cases "j = 1")
    case True
    then show ?thesis using g by (simp add: t Ground_def vt_ascii vt_command_def)
  next
    case False
    define i where "i = j - 2"
    have i: "j = 2 + i" "i \<le> length ps" using False g by (auto simp: t i_def)
    have "take j t = esc # CHR ''['' # take i ps" unfolding t i(1) by (rule take_payload [OF i(2)])
    then have "Feed v (take j t) = v\<lparr>vb_State := vtCSI\<rparr>"
      using prefix [OF g(1) set_take_subset, of i] by (simp only:)
    then show ?thesis by (simp add: Ground_def)
  qed
  ultimately show ?thesis by (auto simp: closed_unit_def t)
qed

lemma string_closed:
  assumes "string_token t"
  shows "closed_unit t"
proof -
  obtain k body e where t: "t = esc # k # body @ e" and k: "byte k \<in> {80, 88, 93, 94, 95}"
    and body: "\<forall>b \<in> set body. 32 \<le> byte b \<and> byte b \<le> 126"
    and e: "e = [esc, CHR 0x5C] \<or> e = [CHR 0x07] \<and> byte k = 93"
    using assms by (auto simp: string_token_def)
  have start: "Feed v [esc, k] = v\<lparr>vb_State := vtString, vb_OSC := (byte k = 93)\<rparr>" if "Ground v" for v
    using that k by (auto simp: Ground_def vt_ascii vt_command_def vt_plain_def)
  have stay: "Feed (v\<lparr>vb_State := vtString, vb_OSC := o'\<rparr>) qs = v\<lparr>vb_State := vtString, vb_OSC := o'\<rparr>"
    if "Ground v" "set qs \<subseteq> set body" for v qs o'
  proof (rule Feed_stays, rule ballI)
    fix c assume "c \<in> set qs"
    then have "32 \<le> byte c" "byte c \<le> 126" using that body by auto
    then show "vt_feed (v\<lparr>vb_State := vtString, vb_OSC := o'\<rparr>) (byte c) = v\<lparr>vb_State := vtString, vb_OSC := o'\<rparr>"
      using that(1) by (simp add: Ground_def vt_ascii vt_command_def)
  qed
  have prefix: "Feed v (esc # k # qs) = v\<lparr>vb_State := vtString, vb_OSC := (byte k = 93)\<rparr>"
    if "Ground v" "set qs \<subseteq> set body" for v qs
    using start [OF that(1)] stay [OF that] by simp
  have whole: "Feed v (esc # k # body @ e') = Feed (v\<lparr>vb_State := vtString, vb_OSC := (byte k = 93)\<rparr>) e'"
    if "Ground v" for v e'
    using prefix [OF that, of body] by simp
  have "Ground (Feed v t)" if "Ground v" for v
    using whole [OF that, of e] e that unfolding t by (auto simp: Ground_def vt_ascii vt_command_def)
  moreover have "\<not> Ground (Feed v (take j t))" if g: "Ground v" "0 < j" "j < length t" for v j
  proof -
    have "j = 1 \<or> (j = 2 + (j - 2) \<and> j - 2 \<le> length body) \<or> (j = 3 + length body \<and> e = [esc, CHR 0x5C])"
      using g e by (auto simp: t)
    then consider "j = 1" | i where "j = 2 + i" "i \<le> length body" | "j = 3 + length body" "e = [esc, CHR 0x5C]"
      by blast
    then show ?thesis
    proof cases
      case 1
      then show ?thesis using g by (simp add: t Ground_def vt_ascii vt_command_def)
    next
      case (2 i)
      then have "take j t = esc # k # take i body" unfolding t 2(1) by (intro take_payload)
      then have "Feed v (take j t) = v\<lparr>vb_State := vtString, vb_OSC := (byte k = 93)\<rparr>"
        using prefix [OF g(1) set_take_subset, of i] by (simp only:)
      then show ?thesis by (simp add: Ground_def)
    next
      case 3
      then have "take j t = esc # k # body @ [esc]" by (simp add: t numeral_3_eq_3)
      then show ?thesis using whole [OF g(1), of "[esc]"] g by (simp add: Ground_def vt_ascii vt_command_def)
    qed
  qed
  ultimately show ?thesis by (auto simp: closed_unit_def t)
qed

lemma token_closed: "vt_token t \<Longrightarrow> closed_unit t"
  using character_closed csi_closed escape_closed string_closed by (auto simp: vt_token_def)

text \<open>
  Property C38: The boundary is found exactly. For output that consists of complete units
  (characters in UTF-8, control sequences, escapes and terminated control strings), the tracker
  reports ground after a prefix of the bytes exactly when the prefix ends between two units,
  however the bytes were cut into reads.
\<close>

theorem vt_boundary_exact:
  assumes "Ground v" "list_all vt_token ts" "n \<le> length (concat ts)"
  shows "Ground (Feed v (take n (concat ts))) \<longleftrightarrow> (\<exists>k. n = length (concat (take k ts)))"
  using assms
proof (induction ts arbitrary: v n)
  case (Cons t ts)
  have t: "closed_unit t" using Cons.prems token_closed by simp
  show ?case
  proof (cases "n < length t")
    case True
    then have "Ground (Feed v (take n (concat (t # ts)))) \<longleftrightarrow> n = 0"
      using t Cons.prems(1) by (cases "n = 0") (auto simp: closed_unit_def)
    moreover have "(\<exists>k. n = length (concat (take k (t # ts)))) \<longleftrightarrow> n = 0"
    proof
      assume "\<exists>k. n = length (concat (take k (t # ts)))"
      then obtain k where "n = length (concat (take k (t # ts)))" by blast
      then show "n = 0" using True by (cases k) auto
    qed (auto intro: exI [of _ 0])
    ultimately show ?thesis by simp
  next
    case False
    have "Ground (Feed v t)" using t Cons.prems(1) by (simp add: closed_unit_def)
    then have "Ground (Feed v (take n (concat (t # ts)))) \<longleftrightarrow> (\<exists>k. n - length t = length (concat (take k ts)))"
      using Cons.IH [of "Feed v t" "n - length t"] Cons.prems False by simp
    also have "\<dots> \<longleftrightarrow> (\<exists>k. n = length (concat (take k (t # ts))))"
    proof
      assume "\<exists>k. n - length t = length (concat (take k ts))"
      then obtain k where "n - length t = length (concat (take k ts))" by blast
      then show "\<exists>k. n = length (concat (take k (t # ts)))" using False by (intro exI [of _ "Suc k"]) simp
    next
      assume "\<exists>k. n = length (concat (take k (t # ts)))"
      then obtain k where k: "n = length (concat (take k (t # ts)))" by blast
      then have "k \<noteq> 0" using False t by (cases k) (auto simp: closed_unit_def)
      then show "\<exists>k. n - length t = length (concat (take k ts))" using k by (cases k) auto
    qed
    finally show ?thesis .
  qed
qed simp

theorem vt_boundary_exact_witness:
  "\<not> Ground (Feed \<lparr>vb_State = 0, vb_UTF8 = 0, vb_OSC = False\<rparr> (take 2 (concat [''a'', esc # ''[1m''])))"
proof -
  have tokens: "list_all vt_token [''a'', esc # ''[1m'']"
  proof -
    have "character_token ''a''" by code_simp
    moreover have "csi_token (esc # ''[1m'')"
      unfolding csi_token_def by (rule exI [of _ "''1''"], rule exI [of _ "CHR ''m''"]) (simp add: byte_def)
    ultimately show ?thesis by (simp add: vt_token_def)
  qed
  have "\<not> (\<exists>k. (2::nat) = length (concat (take k [''a'', esc # ''[1m''])))"
    by (auto simp: take_Cons split: nat.splits)
  then show ?thesis
    using vt_boundary_exact [OF _ tokens, of "\<lparr>vb_State = 0, vb_UTF8 = 0, vb_OSC = False\<rparr>" 2] by (simp add: Ground_def)
qed

end
