(* ===== verification/Float64.thy ===== *)
theory Float64
  imports Complex_Main "HOL-Library.Log_Nat"
begin

text \<open>
  The arithmetic of \<^verbatim>\<open>float64\<close> on the values that a percentage meets: a float is the rational number
  it stands for, and every operation rounds its exact result to the nearest number with a
  significand of 53 bits, ties to even, as the language prescribes. The operands are zero or lie
  between \<open>2 ^ -64\<close> and \<open>2 ^ 71\<close>, so that overflow and subnormal numbers do not occur.
\<close>

type_synonym float64 = rat

definition round_even :: "rat \<Rightarrow> int" where
  "round_even q =
     (let f = \<lfloor>q\<rfloor>; d = q - of_int f
      in if d < 1 / 2 \<or> d = 1 / 2 \<and> even f then f else f + 1)"

text \<open>The exponent \<open>e\<close> of a positive number with \<open>2 ^ e \<le> x < 2 ^ (e + 1)\<close>.\<close>

definition binade :: "rat \<Rightarrow> int" where
  "binade x =
     (case quotient_of x of
        (a, b) \<Rightarrow>
          let e = bitlen a - bitlen b
          in if x < 2 powi e then e - 1 else e)"

definition fl64 :: "rat \<Rightarrow> float64" where
  "fl64 x =
     (if x \<le> 0 then 0
      else let ulp = 2 powi (binade x - 52) in of_int (round_even (x / ulp)) * ulp)"

lemma two_powi_pos [simp]: "0 < (2 :: rat) powi e"
  by (simp add: power_int_def)

lemma two_powi_add: "(2 :: rat) powi (m + n) = 2 powi m * 2 powi n"
  by (rule power_int_add) simp

lemma two_powi_less: "m < n \<Longrightarrow> (2 :: rat) powi m < 2 powi n"
  by (rule power_int_strict_increasing) simp_all

lemma two_powi_nat: "0 \<le> e \<Longrightarrow> (2 :: rat) powi e = of_int (2 ^ nat e)"
  by (simp add: power_int_def)

lemma floorlog_powi:
  assumes "0 < n"
  shows "2 powi (int (floorlog 2 n) - 1) \<le> (of_nat n :: rat)" "(of_nat n :: rat) < 2 powi int (floorlog 2 n)"
proof -
  have b: "2 ^ (floorlog 2 n - 1) \<le> n" "n < 2 ^ floorlog 2 n" using floorlog_bounds [of n 2] assms by auto
  have "0 < floorlog 2 n" using assms floorlog_eq_zero_iff [of 2 n] by simp
  then have "2 powi (int (floorlog 2 n) - 1) = (of_nat (2 ^ (floorlog 2 n - 1)) :: rat)"
    by (simp add: power_int_def nat_diff_distrib)
  then show "2 powi (int (floorlog 2 n) - 1) \<le> (of_nat n :: rat)" using b(1) by (simp only: of_nat_le_iff)
  have "(of_nat n :: rat) < of_nat (2 ^ floorlog 2 n)" using b(2) by (simp only: of_nat_less_iff)
  then show "(of_nat n :: rat) < 2 powi int (floorlog 2 n)" by simp
qed

lemma binade_bounds:
  assumes "0 < x"
  shows "2 powi binade x \<le> x" "x < 2 powi (binade x + 1)"
proof -
  obtain a b where q: "quotient_of x = (a, b)" by fastforce
  have b: "0 < b" and x: "x = of_int a / of_int b" using quotient_of_denom_pos [OF q] quotient_of_div [OF q] by auto
  have a: "0 < a" using assms b x by (simp add: zero_less_divide_iff)
  define l k where "l = int (floorlog 2 (nat a))" and "k = int (floorlog 2 (nat b))"
  have an: "2 powi (l - 1) \<le> (of_int a :: rat)" "(of_int a :: rat) < 2 powi l"
    using floorlog_powi [of "nat a"] a by (simp_all add: l_def)
  have bn: "2 powi (k - 1) \<le> (of_int b :: rat)" "(of_int b :: rat) < 2 powi k"
    using floorlog_powi [of "nat b"] b by (simp_all add: k_def)
  have b0: "(0 :: rat) < of_int b" using b by simp
  have "2 powi (l - k - 1) * of_int b \<le> (2 :: rat) powi (l - k - 1) * 2 powi k"
    by (rule mult_left_mono) (use bn(2) in simp_all)
  also have "\<dots> = 2 powi (l - 1)" by (simp add: two_powi_add [symmetric])
  also have "\<dots> \<le> of_int a" by (rule an(1))
  finally have low: "2 powi (l - k - 1) \<le> x" using b0 by (simp add: x pos_le_divide_eq)
  have "(of_int a :: rat) < 2 powi l" by (rule an(2))
  also have "\<dots> = 2 powi (l - k + 1) * 2 powi (k - 1)" by (simp add: two_powi_add [symmetric])
  also have "\<dots> \<le> 2 powi (l - k + 1) * of_int b" by (rule mult_left_mono) (use bn(1) in simp_all)
  finally have high: "x < 2 powi (l - k + 1)" using b0 by (simp add: x pos_divide_less_eq)
  have e: "binade x = (if x < 2 powi (l - k) then l - k - 1 else l - k)"
    by (simp add: binade_def q l_def k_def bitlen_def Let_def)
  show "2 powi binade x \<le> x" "x < 2 powi (binade x + 1)" using low high by (auto simp: e)
qed

lemma round_even_near: "\<bar>of_int (round_even q) - q\<bar> \<le> 1 / 2"
proof -
  have "of_int \<lfloor>q\<rfloor> \<le> q" "q < of_int \<lfloor>q\<rfloor> + 1" by linarith+
  then show ?thesis by (auto simp: round_even_def Let_def abs_le_iff)
qed

lemma round_even_le: "q \<le> of_int n \<Longrightarrow> round_even q \<le> n"
proof -
  assume q: "q \<le> of_int n"
  have f: "\<lfloor>q\<rfloor> \<le> n" using q by linarith
  show ?thesis
  proof (cases "\<lfloor>q\<rfloor> = n")
    case True
    then have "q = of_int n" using q of_int_floor_le [of q] by simp
    then show ?thesis by (simp add: round_even_def)
  next
    case False
    then show ?thesis using f by (auto simp: round_even_def Let_def)
  qed
qed

lemma round_even_int: "round_even (of_int n) = n"
  by (simp add: round_even_def)

lemma fl64_nonneg: "0 \<le> fl64 x"
proof (cases "x \<le> 0")
  case False
  have "0 \<le> round_even (x / 2 powi (binade x - 52))"
    using False by (simp add: round_even_def Let_def zero_le_floor order.strict_implies_order)
  then show ?thesis using False by (simp add: fl64_def Let_def order.strict_implies_order)
qed (simp add: fl64_def)

text \<open>One rounding changes a number by at most \<open>2 ^ -53\<close> of it.\<close>

lemma fl64_error:
  assumes "0 \<le> x"
  shows "\<bar>fl64 x - x\<bar> \<le> x / 2 ^ 53"
proof (cases "x = 0")
  case False
  then have x: "0 < x" using assms by simp
  let ?u = "(2 :: rat) powi (binade x - 52)"
  have "fl64 x - x = (of_int (round_even (x / ?u)) - x / ?u) * ?u"
    using x by (simp add: fl64_def Let_def left_diff_distrib)
  then have "\<bar>fl64 x - x\<bar> = \<bar>of_int (round_even (x / ?u)) - x / ?u\<bar> * ?u" by (simp add: abs_mult)
  also have "\<dots> \<le> 1 / 2 * ?u" using round_even_near by (rule mult_right_mono) simp
  also have "\<dots> = 2 powi binade x / 2 ^ 53"
    by (simp add: power_int_diff) 
  also have "\<dots> \<le> x / 2 ^ 53" using binade_bounds(1) [OF x] by (simp add: divide_right_mono)
  finally show ?thesis .
qed (simp add: fl64_def)

text \<open>Whole numbers below \<open>2 ^ 53\<close> are floats, and rounding does not go beyond them.\<close>

lemma whole_ulps:
  assumes "0 < x" "x \<le> of_int n" "n < 2 ^ 53"
  obtains m :: int where "of_int n = of_int m * (2 :: rat) powi (binade x - 52)"
proof -
  have "2 powi binade x \<le> x" by (rule binade_bounds(1) [OF assms(1)])
  also have "\<dots> < (2 :: rat) ^ 53"
  proof -
    have "(of_int n :: rat) < of_int (2 ^ 53)" using assms(3) by (simp only: of_int_less_iff)
    then show ?thesis using assms(2) by simp
  qed
  finally have "2 powi binade x < (2 :: rat) powi 53" by simp
  then have "binade x < 53" using two_powi_less [of 53 "binade x"] by (metis not_less_iff_gr_or_eq order.asym)
  then have e: "0 \<le> 52 - binade x" by simp
  have "of_int (n * 2 ^ nat (52 - binade x)) * (2 :: rat) powi (binade x - 52)
      = of_int n * (2 powi (52 - binade x) * 2 powi (binade x - 52))"
    using two_powi_nat [OF e] by simp
  also have "\<dots> = of_int n" by (simp add: two_powi_add [symmetric])
  finally show thesis using that by metis
qed

lemma fl64_le:
  assumes "x \<le> of_int n" "0 \<le> n" "n < 2 ^ 53"
  shows "fl64 x \<le> of_int n"
proof (cases "x \<le> 0")
  case False
  let ?u = "(2 :: rat) powi (binade x - 52)"
  from False assms obtain m where m: "of_int n = of_int m * ?u" using whole_ulps by (metis not_le)
  have "x / ?u \<le> of_int m" using assms(1) m by (simp add: pos_divide_le_eq)
  then have "of_int (round_even (x / ?u)) \<le> (of_int m :: rat)" using round_even_le by simp
  then show ?thesis using False m by (simp add: fl64_def Let_def)
qed (use assms in \<open>simp add: fl64_def\<close>)

lemma fl64_whole:
  assumes "0 \<le> n" "n < 2 ^ 53"
  shows "fl64 (of_int n) = of_int n"
proof (cases "n = 0")
  case False
  let ?u = "(2 :: rat) powi (binade (of_int n) - 52)"
  have n: "(0 :: rat) < of_int n" using assms False by simp
  obtain m where m: "of_int n = of_int m * ?u" using whole_ulps [OF n order.refl assms(2)] by blast
  then have "of_int n / ?u = of_int m" by (simp add: nonzero_divide_eq_eq)
  then have "round_even (of_int n / ?u) = m" by (simp add: round_even_int)
  then show ?thesis using n m by (simp add: fl64_def Let_def)
qed (simp add: fl64_def)

end
