(* ===== verification/MetricsHistory.thy ===== *)
theory MetricsHistory
  imports Prelude Float64
begin

text \<open>
  Telemetry of the running nodes: the samples and counters that \<^verbatim>\<open>dynamic_forwarding.go\<close> and
  \<^verbatim>\<open>metrics_telemetry.go\<close> keep per node, and the bounded history of \<^verbatim>\<open>metrics_history.go\<close>, a ring
  of at most 3600 points.

  A map of Go is a partial function; the forwarder's mutex makes every method atomic. The
  \<^verbatim>\<open>float64\<close> operations of a percentage round as in \<^verbatim>\<open>Float64\<close>; pointers to values are options,
  so the copies that \<^verbatim>\<open>cloneMetricPoint\<close> and \<^verbatim>\<open>cloneNodeUsageDetails\<close> make are the values themselves.
\<close>

section \<open>Samples\<close>

record guestCPUCounters =
  gc_Total :: u64
  gc_Idle :: u64

record guestResourceUsage =
  gu_UsedBytes :: u64
  gu_TotalBytes :: u64

record nodeCPUUsageSample =
  us_Percent :: float64
  us_CPUSampledAt :: gotime

record nodeResourceUsageSample =
  rs_Memory :: guestResourceUsage
  rs_Disk :: guestResourceUsage
  rs_SampledAt :: gotime

record CPUCoreUsage =
  co_Index :: int
  co_UsagePercent :: "float64 option"

record NodeUsageDetails =
  ud_Architecture :: string
  ud_KVMAccessible :: "bool option"
  ud_CPUCores :: "CPUCoreUsage list"
  ud_MemoryAvailableBytes :: "u64 option"
  ud_MemoryCachedBytes :: "u64 option"
  ud_SwapUsedBytes :: "u64 option"
  ud_SwapTotalBytes :: "u64 option"
  ud_UptimeSeconds :: "float64 option"

record nodeUsageDetailsSample =
  ds_Details :: NodeUsageDetails
  ds_SampledAt :: gotime

text \<open>The fields of an observation that telemetry reads; \<open>CPUCores\<close> in the order of its keys.\<close>

record forwardingGuestObservation =
  fo_CPU :: guestCPUCounters
  fo_Memory :: guestResourceUsage
  fo_Disk :: guestResourceUsage
  fo_CPUCores :: "(int \<times> guestCPUCounters) list"
  fo_Details :: NodeUsageDetails

record NodeMetricPoint =
  mp_SampledAt :: gotime
  mp_CPUUsagePercent :: "float64 option"
  mp_MemoryUsedBytes :: "u64 option"
  mp_MemoryTotalBytes :: "u64 option"
  mp_DiskUsedBytes :: "u64 option"
  mp_DiskTotalBytes :: "u64 option"

record NodeUsageEvent =
  ue_NodeID :: string
  ue_MetricsEpoch :: string
  ue_Point :: NodeMetricPoint
  ue_Details :: "NodeUsageDetails option"

definition guestCPUUsagePercent :: "guestCPUCounters \<Rightarrow> guestCPUCounters \<Rightarrow> float64 \<times> bool" where
  "guestCPUUsagePercent previous current =
     (if gc_Total previous = 0 \<or> gc_Total current \<le> gc_Total previous \<or> gc_Idle current < gc_Idle previous
      then (0, False)
      else let totalDelta = gc_Total current - gc_Total previous;
               idleDelta = gc_Idle current - gc_Idle previous
           in if idleDelta > totalDelta then (0, False)
              else (fl64 (fl64 (fl64 (of_int (uint (totalDelta - idleDelta))) * 100) / fl64 (of_int (uint totalDelta))), True))"

definition validGuestResourceUsage :: "guestResourceUsage \<Rightarrow> bool" where
  "validGuestResourceUsage u \<longleftrightarrow> gu_TotalBytes u > 0 \<and> gu_UsedBytes u \<le> gu_TotalBytes u"

section \<open>The ring\<close>

definition nodeMetricRetention :: duration where "nodeMetricRetention = 3600 * second"
definition maxNodeMetricSamples :: nat where "maxNodeMetricSamples = 3600"

record nodeMetricsHistory =
  mh_points :: "NodeMetricPoint list"
  mh_head :: nat

definition empty_history :: nodeMetricsHistory where
  "empty_history = \<lparr>mh_points = [], mh_head = 0\<rparr>"

definition appendPoint :: "NodeMetricPoint \<Rightarrow> nodeMetricsHistory \<Rightarrow> nodeMetricsHistory" where
  "appendPoint point h =
     (let points = mh_points h; n = length points; last_at = (mh_head h + n - 1) mod n
      in if is_zero_time (mp_SampledAt point) then h
         else if n > 0 \<and> mp_SampledAt point < mp_SampledAt (points ! last_at) then h
         else if n > 0 \<and> mp_SampledAt point = mp_SampledAt (points ! last_at)
         then h\<lparr>mh_points := points[last_at := point]\<rparr>
         else if n < maxNodeMetricSamples then h\<lparr>mh_points := points @ [point]\<rparr>
         else h\<lparr>mh_points := points[mh_head h := point], mh_head := (mh_head h + 1) mod maxNodeMetricSamples\<rparr>)"

definition latestAt :: "nodeMetricsHistory \<Rightarrow> gotime" where
  "latestAt h =
     (let n = length (mh_points h)
      in if n = 0 then 0 else mp_SampledAt (mh_points h ! ((mh_head h + n - 1) mod n)))"

definition after_points :: "gotime \<Rightarrow> gotime \<Rightarrow> nodeMetricsHistory \<Rightarrow> NodeMetricPoint list" where
  "after_points now after h =
     (let n = length (mh_points h); cutoff = now - nodeMetricRetention
      in filter (\<lambda>point. \<not> (mp_SampledAt point < cutoff \<or> mp_SampledAt point > now \<or> \<not> mp_SampledAt point > after))
           (map (\<lambda>i. mh_points h ! ((mh_head h + i) mod n)) [0..<n]))"

section \<open>The telemetry of the forwarder\<close>

record metricsForwarder =
  mf_cpu :: "string \<rightharpoonup> nodeCPUUsageSample"
  mf_resources :: "string \<rightharpoonup> nodeResourceUsageSample"
  mf_counters :: "string \<rightharpoonup> guestCPUCounters"
  mf_coreCounters :: "string \<rightharpoonup> (int \<rightharpoonup> guestCPUCounters)"
  mf_usageDetails :: "string \<rightharpoonup> nodeUsageDetailsSample"
  mf_metricsHistory :: "string \<rightharpoonup> nodeMetricsHistory"
  mf_metricsEpoch :: string

definition resource_used :: "guestResourceUsage option \<Rightarrow> u64 option \<times> u64 option" where
  "resource_used u =
     (case u of
        Some u \<Rightarrow> if validGuestResourceUsage u then (Some (gu_UsedBytes u), Some (gu_TotalBytes u)) else (None, None)
      | None \<Rightarrow> (None, None))"

definition nodeUsageEventLocked :: "string \<Rightarrow> gotime \<Rightarrow> metricsForwarder \<Rightarrow> NodeUsageEvent" where
  "nodeUsageEventLocked nodeID sampledAt f =
     (let memory = resource_used (map_option rs_Memory (mf_resources f nodeID));
          disk = resource_used (map_option rs_Disk (mf_resources f nodeID))
      in \<lparr>ue_NodeID = nodeID, ue_MetricsEpoch = mf_metricsEpoch f,
          ue_Point = \<lparr>mp_SampledAt = sampledAt, mp_CPUUsagePercent = map_option us_Percent (mf_cpu f nodeID),
             mp_MemoryUsedBytes = fst memory, mp_MemoryTotalBytes = snd memory,
             mp_DiskUsedBytes = fst disk, mp_DiskTotalBytes = snd disk\<rparr>,
          ue_Details = map_option ds_Details (mf_usageDetails f nodeID)\<rparr>)"

definition ensure_epoch :: "string \<Rightarrow> metricsForwarder \<Rightarrow> metricsForwarder" where
  "ensure_epoch newID f = (if mf_metricsEpoch f = [] then f\<lparr>mf_metricsEpoch := newID\<rparr> else f)"

definition recordMetricsHistoryLocked :: "string \<Rightarrow> NodeUsageEvent \<Rightarrow> metricsForwarder \<Rightarrow> metricsForwarder" where
  "recordMetricsHistoryLocked newID event f =
     (let f = ensure_epoch newID f;
          history = (case mf_metricsHistory f (ue_NodeID event) of Some h \<Rightarrow> h | None \<Rightarrow> empty_history)
      in f\<lparr>mf_metricsHistory := (mf_metricsHistory f)(ue_NodeID event \<mapsto> appendPoint (ue_Point event) history)\<rparr>)"

definition core_usage :: "(int \<rightharpoonup> guestCPUCounters) option \<Rightarrow> int \<times> guestCPUCounters \<Rightarrow> CPUCoreUsage" where
  "core_usage previous core =
     (case core of (index, current) \<Rightarrow>
        \<lparr>co_Index = index,
         co_UsagePercent =
           (case Option.bind previous (\<lambda>p. p index) of
              Some p \<Rightarrow> (case guestCPUUsagePercent p current of (percent, valid) \<Rightarrow> if valid then Some percent else None)
            | None \<Rightarrow> None)\<rparr>)"

definition recordUsageDetailsLocked ::
  "string \<Rightarrow> forwardingGuestObservation \<Rightarrow> gotime \<Rightarrow> metricsForwarder \<Rightarrow> metricsForwarder" where
  "recordUsageDetailsLocked nodeID observation sampled f =
     (let cores = map (core_usage (mf_coreCounters f nodeID)) (fo_CPUCores observation);
          details = (fo_Details observation)\<lparr>ud_CPUCores := ud_CPUCores (fo_Details observation) @ cores\<rparr>;
          f = f\<lparr>mf_coreCounters := (mf_coreCounters f)(nodeID \<mapsto> map_of (fo_CPUCores observation))\<rparr>
      in if ud_CPUCores details = [] \<and> ud_MemoryAvailableBytes details = None \<and> ud_MemoryCachedBytes details = None
            \<and> ud_SwapTotalBytes details = None \<and> ud_UptimeSeconds details = None
            \<and> ud_Architecture details = [] \<and> ud_KVMAccessible details = None
         then f\<lparr>mf_usageDetails := (mf_usageDetails f)(nodeID := None)\<rparr>
         else f\<lparr>mf_usageDetails := (mf_usageDetails f)(nodeID \<mapsto> \<lparr>ds_Details = details, ds_SampledAt = sampled\<rparr>)\<rparr>)"

definition zero_usage :: guestResourceUsage where
  "zero_usage = \<lparr>gu_UsedBytes = 0, gu_TotalBytes = 0\<rparr>"

definition record_cpu :: "string \<Rightarrow> guestCPUCounters \<Rightarrow> gotime \<Rightarrow> metricsForwarder \<Rightarrow> metricsForwarder" where
  "record_cpu nodeID cpu sampledAt f =
     (if gc_Total cpu = 0
      then f\<lparr>mf_cpu := (mf_cpu f)(nodeID := None), mf_counters := (mf_counters f)(nodeID := None)\<rparr>
      else let f' = f\<lparr>mf_counters := (mf_counters f)(nodeID \<mapsto> cpu)\<rparr>
           in case mf_counters f nodeID of
                None \<Rightarrow> f'\<lparr>mf_cpu := (mf_cpu f)(nodeID := None)\<rparr>
              | Some previous \<Rightarrow>
                  (case guestCPUUsagePercent previous cpu of
                     (percent, valid) \<Rightarrow>
                       f'\<lparr>mf_cpu := (mf_cpu f)(nodeID :=
                          (if valid then Some \<lparr>us_Percent = percent, us_CPUSampledAt = sampledAt\<rparr> else None))\<rparr>))"

definition record_resources ::
  "string \<Rightarrow> forwardingGuestObservation \<Rightarrow> gotime \<Rightarrow> metricsForwarder \<Rightarrow> metricsForwarder" where
  "record_resources nodeID observation sampledAt f =
     (let sample = \<lparr>rs_Memory = (if validGuestResourceUsage (fo_Memory observation) then fo_Memory observation else zero_usage),
            rs_Disk = (if validGuestResourceUsage (fo_Disk observation) then fo_Disk observation else zero_usage),
            rs_SampledAt = sampledAt\<rparr>
      in f\<lparr>mf_resources := (mf_resources f)(nodeID :=
           (if gu_TotalBytes (rs_Memory sample) = 0 \<and> gu_TotalBytes (rs_Disk sample) = 0 then None else Some sample))\<rparr>)"

text \<open>The event is what is broadcast once the lock is released.\<close>

definition recordNodeUsage ::
  "string \<Rightarrow> string \<Rightarrow> forwardingGuestObservation \<Rightarrow> gotime \<Rightarrow> metricsForwarder \<Rightarrow> metricsForwarder \<times> NodeUsageEvent" where
  "recordNodeUsage newID nodeID observation sampledAt f =
     (let f = ensure_epoch newID f;
          f = record_cpu nodeID (fo_CPU observation) sampledAt f;
          f = record_resources nodeID observation sampledAt f;
          f = recordUsageDetailsLocked nodeID observation sampledAt f;
          event = nodeUsageEventLocked nodeID sampledAt f
      in (recordMetricsHistoryLocked newID event f, event))"

definition clearNodeUsage ::
  "string \<Rightarrow> string \<Rightarrow> gotime \<Rightarrow> metricsForwarder \<Rightarrow> metricsForwarder \<times> NodeUsageEvent" where
  "clearNodeUsage newID nodeID now f =
     (let f = f\<lparr>mf_cpu := (mf_cpu f)(nodeID := None), mf_resources := (mf_resources f)(nodeID := None),
               mf_counters := (mf_counters f)(nodeID := None), mf_coreCounters := (mf_coreCounters f)(nodeID := None),
               mf_usageDetails := (mf_usageDetails f)(nodeID := None)\<rparr>;
          event = nodeUsageEventLocked nodeID now f
      in (if mf_metricsHistory f nodeID \<noteq> None then recordMetricsHistoryLocked newID event f else f, event))"

text \<open>
  What a failure of a node and its retirement do to the telemetry, in \<^verbatim>\<open>recordNodeFailure\<close> and
  \<^verbatim>\<open>retireNodeLocked\<close>: a failure forgets the samples, a retirement also the details, and marks the gap
  in the history with an empty point.
\<close>

definition drop_usage :: "string \<Rightarrow> metricsForwarder \<Rightarrow> metricsForwarder" where
  "drop_usage nodeID m =
     m\<lparr>mf_cpu := (mf_cpu m)(nodeID := None), mf_resources := (mf_resources m)(nodeID := None),
       mf_counters := (mf_counters m)(nodeID := None)\<rparr>"

definition retire_usage :: "string \<Rightarrow> string \<Rightarrow> gotime \<Rightarrow> metricsForwarder \<Rightarrow> metricsForwarder" where
  "retire_usage newID nodeID now m =
     (let m = drop_usage nodeID m;
          m = m\<lparr>mf_coreCounters := (mf_coreCounters m)(nodeID := None),
                mf_usageDetails := (mf_usageDetails m)(nodeID := None)\<rparr>;
          point = \<lparr>mp_SampledAt = now, mp_CPUUsagePercent = None, mp_MemoryUsedBytes = None,
                   mp_MemoryTotalBytes = None, mp_DiskUsedBytes = None, mp_DiskTotalBytes = None\<rparr>
      in if mf_metricsHistory m nodeID \<noteq> None
         then recordMetricsHistoryLocked newID
                \<lparr>ue_NodeID = nodeID, ue_MetricsEpoch = [], ue_Point = point, ue_Details = None\<rparr> m
         else m)"

text \<open>What \<^verbatim>\<open>Close\<close> leaves of it.\<close>

definition close_usage :: "metricsForwarder \<Rightarrow> metricsForwarder" where
  "close_usage m = m\<lparr>mf_cpu := Map.empty, mf_resources := Map.empty, mf_counters := Map.empty\<rparr>"

definition pruneMetricsHistoryLocked :: "gotime \<Rightarrow> metricsForwarder \<Rightarrow> metricsForwarder" where
  "pruneMetricsHistoryLocked now f =
     f\<lparr>mf_metricsHistory := (\<lambda>i. case mf_metricsHistory f i of
          Some h \<Rightarrow> if latestAt h < now - nodeMetricRetention then None else Some h
        | None \<Rightarrow> None)\<rparr>"

record NodeMetricsSnapshot =
  ns_NodeID :: string
  ns_Epoch :: string
  ns_History :: "NodeMetricPoint list"
  ns_Latest :: "NodeUsageEvent option"

definition metricsSnapshot ::
  "string \<Rightarrow> gotime \<Rightarrow> string \<Rightarrow> string \<Rightarrow> gotime \<Rightarrow> metricsForwarder \<Rightarrow> metricsForwarder \<times> NodeMetricsSnapshot" where
  "metricsSnapshot newID now nodeID epoch after f =
     (let f = pruneMetricsHistoryLocked now (ensure_epoch newID f);
          after = (if epoch \<noteq> mf_metricsEpoch f then 0 else after)
      in (f, \<lparr>ns_NodeID = nodeID, ns_Epoch = mf_metricsEpoch f,
              ns_History = (case mf_metricsHistory f nodeID of Some h \<Rightarrow> after_points now after h | None \<Rightarrow> []),
              ns_Latest = map_option (\<lambda>h. nodeUsageEventLocked nodeID (latestAt h) f) (mf_metricsHistory f nodeID)\<rparr>))"

section \<open>The ring is a bounded list\<close>

text \<open>The points in the order of their times, and what an append means for them.\<close>

definition ring :: "nodeMetricsHistory \<Rightarrow> NodeMetricPoint list" where
  "ring h = rotate (mh_head h) (mh_points h)"

definition newest :: "nat \<Rightarrow> 'a list \<Rightarrow> 'a list" where
  "newest n xs = drop (length xs - n) xs"

definition spec_append :: "NodeMetricPoint \<Rightarrow> NodeMetricPoint list \<Rightarrow> NodeMetricPoint list" where
  "spec_append p ps =
     (if is_zero_time (mp_SampledAt p) \<or> ps \<noteq> [] \<and> mp_SampledAt p < mp_SampledAt (last ps) then ps
      else if ps \<noteq> [] \<and> mp_SampledAt p = mp_SampledAt (last ps) then butlast ps @ [p]
      else newest maxNodeMetricSamples (ps @ [p]))"

definition ring_inv :: "nodeMetricsHistory \<Rightarrow> bool" where
  [inv_defs]: "ring_inv h \<longleftrightarrow>
     length (mh_points h) \<le> maxNodeMetricSamples
     \<and> (mh_head h = 0 \<or> mh_head h < length (mh_points h) \<and> length (mh_points h) = maxNodeMetricSamples)
     \<and> sorted_wrt (<) (map mp_SampledAt (ring h)) \<and> (\<forall>p \<in> set (ring h). \<not> is_zero_time (mp_SampledAt p))"

lemma ring_length [simp]: "length (ring h) = length (mh_points h)"
  by (simp add: ring_def)

lemma ring_nth: "i < length (mh_points h) \<Longrightarrow> ring h ! i = mh_points h ! ((mh_head h + i) mod length (mh_points h))"
  by (simp add: ring_def nth_rotate)

lemma ring_last:
  assumes "mh_points h \<noteq> []"
  shows "mh_points h ! ((mh_head h + length (mh_points h) - 1) mod length (mh_points h)) = last (ring h)"
proof -
  have "ring h \<noteq> []" using assms ring_length [of h] by (metis length_0_conv)
  moreover have "mh_head h + (length (mh_points h) - 1) = mh_head h + length (mh_points h) - 1"
    using assms by (cases "mh_points h") auto
  ultimately show ?thesis using ring_nth [of "length (mh_points h) - 1" h] assms by (simp add: last_conv_nth)
qed

text \<open>Overwriting the entry at distance \<open>i\<close> from the head.\<close>

lemma mod_add_inj:
  assumes "i < n" "j < n"
  shows "(k + i) mod n = (k + j) mod n \<longleftrightarrow> i = (j :: nat)"
proof -
  have "(k + x) mod n = (if k mod n + x < n then k mod n + x else k mod n + x - n)" if "x < n" for x
  proof -
    have r: "k mod n < n" using that by simp
    have "(k + x) mod n = (k mod n + x) mod n" by (simp add: mod_add_left_eq)
    also have "\<dots> = (if k mod n + x < n then k mod n + x else k mod n + x - n)"
    proof (cases "k mod n + x < n")
      case False
      then have "(k mod n + x) mod n = (k mod n + x - n) mod n" by (simp add: le_mod_geq)
      also have "\<dots> = k mod n + x - n"
      proof (rule mod_less)
        show "k mod n + x - n < n" using that r by linarith
      qed
      finally show ?thesis using False by simp
    qed simp
    finally show ?thesis .
  qed
  from this [OF assms(1)] this [OF assms(2)] assms show ?thesis by (auto split: if_splits)
qed

lemma rotate_update:
  assumes "i < length xs"
  shows "rotate k (xs[(k + i) mod length xs := x]) = (rotate k xs)[i := x]"
proof (rule nth_equalityI)
  fix j assume "j < length (rotate k (xs[(k + i) mod length xs := x]))"
  then have j: "j < length xs" by simp
  then show "rotate k (xs[(k + i) mod length xs := x]) ! j = (rotate k xs)[i := x] ! j"
  proof (cases "j = i")
    case True
    have "(k + i) mod length xs < length xs" using assms by (cases xs) auto
    then show ?thesis using True j by (simp add: nth_rotate)
  next
    case False
    then have "(k + i) mod length xs \<noteq> (k + j) mod length xs" using mod_add_inj [OF assms j, of k] by simp
    then show ?thesis using False j by (simp add: nth_rotate)
  qed
qed simp

lemma append_overwrites_last:
  assumes "mh_points h \<noteq> []"
  shows "rotate (mh_head h) ((mh_points h)[(mh_head h + length (mh_points h) - 1) mod length (mh_points h) := p])
    = butlast (ring h) @ [p]"
proof -
  let ?n = "length (mh_points h)"
  have "mh_head h + (?n - 1) = mh_head h + ?n - 1" "?n - 1 < ?n" using assms by (cases "mh_points h"; simp)+
  then have "rotate (mh_head h) ((mh_points h)[(mh_head h + ?n - 1) mod ?n := p]) = (ring h)[?n - 1 := p]"
    using rotate_update [of "?n - 1" "mh_points h" "mh_head h" p] by (simp add: ring_def)
  moreover have "ring h \<noteq> []" using assms ring_length [of h] by (metis length_0_conv)
  moreover have "xs[length xs - 1 := p] = butlast xs @ [p]" if "xs \<noteq> []" for xs :: "NodeMetricPoint list"
    using that by (induction xs rule: rev_induct) (auto simp: list_update_append)
  ultimately show ?thesis by (metis ring_length)
qed

lemma append_overwrites_oldest:
  assumes "mh_head h < length (mh_points h)"
  shows "rotate ((mh_head h + 1) mod length (mh_points h)) ((mh_points h)[mh_head h := p]) = tl (ring h) @ [p]"
proof -
  let ?n = "length (mh_points h)"
  have "rotate ((mh_head h + 1) mod ?n) ((mh_points h)[mh_head h := p]) = rotate (Suc (mh_head h)) ((mh_points h)[mh_head h := p])"
    using rotate_conv_mod [of "Suc (mh_head h)" "(mh_points h)[mh_head h := p]"] by simp
  also have "\<dots> = rotate1 ((ring h)[0 := p])"
  proof -
    have "0 < length (mh_points h)" using assms by linarith
    then show ?thesis using rotate_update [of 0 "mh_points h" "mh_head h" p] assms by (simp add: ring_def)
  qed
  also have "\<dots> = tl (ring h) @ [p]"
    using assms ring_length [of h] by (cases "ring h") auto
  finally show ?thesis .
qed

lemma newest_full: "length xs = n \<Longrightarrow> 0 < n \<Longrightarrow> newest n (xs @ [x]) = tl xs @ [x]"
  by (cases xs) (auto simp: newest_def)

lemma newest_fits: "length xs \<le> n \<Longrightarrow> newest n xs = xs"
  by (simp add: newest_def)

lemma append_refines:
  assumes "ring_inv h"
  shows "ring (appendPoint p h) = spec_append p (ring h)"
proof (cases "mh_points h = []")
  case True
  moreover have "mh_head h = 0" using assms True by (simp add: ring_inv_def maxNodeMetricSamples_def)
  ultimately show ?thesis
    by (simp add: ring_def spec_append_def appendPoint_def newest_def maxNodeMetricSamples_def)
next
  case False
  note last = ring_last [OF False]
  have ne: "ring h \<noteq> []" using False ring_length [of h] by (metis length_0_conv)
  consider (zero) "is_zero_time (mp_SampledAt p)"
    | (old) "\<not> is_zero_time (mp_SampledAt p)" "mp_SampledAt p < mp_SampledAt (last (ring h))"
    | (same) "\<not> is_zero_time (mp_SampledAt p)" "mp_SampledAt p = mp_SampledAt (last (ring h))"
    | (new) "\<not> is_zero_time (mp_SampledAt p)" "mp_SampledAt p > mp_SampledAt (last (ring h))"
    by linarith
  then show ?thesis
  proof cases
    case zero
    then show ?thesis by (simp add: appendPoint_def spec_append_def)
  next
    case old
    then show ?thesis using last False ne by (simp add: appendPoint_def spec_append_def Let_def)
  next
    case same
    then have "appendPoint p h = h\<lparr>mh_points := (mh_points h)
        [(mh_head h + length (mh_points h) - 1) mod length (mh_points h) := p]\<rparr>"
      using last False by (simp add: appendPoint_def Let_def)
    then show ?thesis using append_overwrites_last [OF False] same ne by (simp add: ring_def [of "_\<lparr>mh_points := _\<rparr>"] spec_append_def)
  next
    case new
    then have spec: "spec_append p (ring h) = newest maxNodeMetricSamples (ring h @ [p])" by (simp add: spec_append_def)
    have app: "appendPoint p h = (if length (mh_points h) < maxNodeMetricSamples then h\<lparr>mh_points := mh_points h @ [p]\<rparr>
        else h\<lparr>mh_points := (mh_points h)[mh_head h := p], mh_head := (mh_head h + 1) mod maxNodeMetricSamples\<rparr>)"
      using last False new by (simp add: appendPoint_def Let_def)
    show ?thesis
    proof (cases "length (mh_points h) < maxNodeMetricSamples")
      case True
      then have "mh_head h = 0" using assms by (auto simp: ring_inv_def)
      then have "ring (appendPoint p h) = ring h @ [p]" using True by (simp add: app ring_def)
      then show ?thesis using True by (simp only: spec) (simp add: newest_fits)
    next
      case full: False
      then have n: "length (mh_points h) = maxNodeMetricSamples" "mh_head h < length (mh_points h)"
        using assms False by (auto simp: ring_inv_def maxNodeMetricSamples_def)
      then show ?thesis
        using append_overwrites_oldest [OF n(2), of p] newest_full [of "ring h" maxNodeMetricSamples p]
        by (simp add: app spec full ring_def [of "_\<lparr>mh_points := _, mh_head := _\<rparr>"] maxNodeMetricSamples_def)
    qed
  qed
qed

lemma sorted_butlast_snoc:
  "sorted_wrt (<) (map f xs) \<Longrightarrow> xs \<noteq> [] \<Longrightarrow> f (last xs) = f p \<Longrightarrow> sorted_wrt (<) (map f (butlast xs @ [p]))"
  by (induction xs rule: rev_induct) (auto simp: sorted_wrt_append)

lemma sorted_last_max: "sorted_wrt (<) (map f xs) \<Longrightarrow> x \<in> set xs \<Longrightarrow> f x \<le> (f (last xs) :: int)"
  by (induction xs rule: rev_induct) (auto simp: sorted_wrt_append)

lemma spec_append_inv:
  assumes "sorted_wrt (<) (map mp_SampledAt ps)" "\<forall>q \<in> set ps. \<not> is_zero_time (mp_SampledAt q)"
  shows "sorted_wrt (<) (map mp_SampledAt (spec_append p ps))
    \<and> (\<forall>q \<in> set (spec_append p ps). \<not> is_zero_time (mp_SampledAt q))"
proof -
  have snoc: "sorted_wrt (<) (map mp_SampledAt (ps @ [p]))" if newer: "ps \<noteq> [] \<longrightarrow> mp_SampledAt (last ps) < mp_SampledAt p"
  proof -
    have "mp_SampledAt q < mp_SampledAt p" if "q \<in> set ps" for q
      using sorted_last_max [OF assms(1) that] newer that by fastforce
    then show ?thesis using assms(1) by (auto simp: sorted_wrt_append)
  qed
  show ?thesis
  proof (cases "is_zero_time (mp_SampledAt p) \<or> ps \<noteq> [] \<and> mp_SampledAt p < mp_SampledAt (last ps)")
    case True
    then show ?thesis using assms by (simp add: spec_append_def)
  next
    case False
    show ?thesis
    proof (cases "ps \<noteq> [] \<and> mp_SampledAt p = mp_SampledAt (last ps)")
      case True
      then have "spec_append p ps = butlast ps @ [p]" using False by (simp add: spec_append_def)
      then show ?thesis
        using sorted_butlast_snoc [OF assms(1), of p] True False assms(2) in_set_butlastD [of _ ps] by auto
    next
      case new: False
      then have "spec_append p ps = newest maxNodeMetricSamples (ps @ [p])" using False by (auto simp: spec_append_def)
      moreover have "sorted_wrt (<) (map mp_SampledAt (ps @ [p]))" using False new by (intro snoc) linarith
      moreover have "\<forall>q \<in> set (ps @ [p]). \<not> is_zero_time (mp_SampledAt q)" using False assms(2) by auto
      ultimately show ?thesis
        unfolding newest_def by (metis drop_map sorted_wrt_drop in_set_dropD)
    qed
  qed
qed

lemma append_shape:
  assumes "ring_inv h"
  shows "length (mh_points (appendPoint p h)) \<le> maxNodeMetricSamples"
    and "mh_head (appendPoint p h) = 0 \<or> mh_head (appendPoint p h) < length (mh_points (appendPoint p h))
      \<and> length (mh_points (appendPoint p h)) = maxNodeMetricSamples"
proof -
  define n where "n = maxNodeMetricSamples"
  have inv: "length (mh_points h) \<le> n" "mh_head h = 0 \<or> mh_head h < length (mh_points h) \<and> length (mh_points h) = n"
    using assms by (auto simp: ring_inv_def n_def)
  have pos: "0 < n" by (simp add: n_def maxNodeMetricSamples_def)
  have "appendPoint p h = h\<lparr>mh_points := (mh_points h)
        [(mh_head h + length (mh_points h) - 1) mod length (mh_points h) := p]\<rparr> \<or> appendPoint p h = h
      \<or> length (mh_points h) < n \<and> appendPoint p h = h\<lparr>mh_points := mh_points h @ [p]\<rparr>
      \<or> \<not> length (mh_points h) < n \<and> appendPoint p h = h\<lparr>mh_points := (mh_points h)[mh_head h := p], mh_head := (mh_head h + 1) mod n\<rparr>"
    unfolding appendPoint_def Let_def n_def by argo
  then show "length (mh_points (appendPoint p h)) \<le> maxNodeMetricSamples"
    and "mh_head (appendPoint p h) = 0 \<or> mh_head (appendPoint p h) < length (mh_points (appendPoint p h))
      \<and> length (mh_points (appendPoint p h)) = maxNodeMetricSamples"
    using inv pos mod_less_divisor [OF pos, of "mh_head h + 1"] unfolding n_def [symmetric] by fastforce+
qed

lemma append_inv:
  assumes "ring_inv h"
  shows "ring_inv (appendPoint p h)"
proof -
  have "length (mh_points (appendPoint p h)) \<le> maxNodeMetricSamples"
    "mh_head (appendPoint p h) = 0 \<or> mh_head (appendPoint p h) < length (mh_points (appendPoint p h))
      \<and> length (mh_points (appendPoint p h)) = maxNodeMetricSamples"
    by (rule append_shape [OF assms])+
  then show ?thesis
    using spec_append_inv [of "ring h" p] assms unfolding ring_inv_def append_refines [OF assms] by blast
qed

lemma after_points_ring:
  "after_points now after h =
     filter (\<lambda>p. now - nodeMetricRetention \<le> mp_SampledAt p \<and> mp_SampledAt p \<le> now \<and> after < mp_SampledAt p) (ring h)"
proof -
  have "map (\<lambda>i. mh_points h ! ((mh_head h + i) mod length (mh_points h))) [0..<length (mh_points h)] = ring h"
    by (rule nth_equalityI) (simp_all add: ring_nth)
  then show ?thesis unfolding after_points_def Let_def by (auto intro!: filter_cong)
qed

lemma latestAt_ring: "latestAt h = (if ring h = [] then 0 else mp_SampledAt (last (ring h)))"
proof (cases "mh_points h = []")
  case False
  then have "ring h \<noteq> []" using ring_length [of h] by (metis length_0_conv)
  then show ?thesis using ring_last [OF False] False by (simp add: latestAt_def Let_def)
qed (simp add: latestAt_def ring_def)

lemma empty_history_inv: "ring_inv empty_history" "ring empty_history = []"
  by (simp_all add: ring_inv_def ring_def empty_history_def)

lemma appends_refine:
  assumes "ring_inv h"
  shows "ring_inv (foldl (\<lambda>h p. appendPoint p h) h ps)
    \<and> ring (foldl (\<lambda>h p. appendPoint p h) h ps) = foldl (\<lambda>xs p. spec_append p xs) (ring h) ps"
  using assms by (induction ps arbitrary: h) (simp_all add: append_inv append_refines)

text \<open>
  Property C30: The ring behaves like a bounded list. After any sequence of appends the points,
  read from the head around the ring, are those of a plain list that ignores points without a
  time and points older than the newest, replaces the newest by one of the same time, and
  otherwise appends and keeps the newest 3600; their times increase strictly; and the newest
  time and a query over a time range are read off this list.
\<close>

theorem metrics_ring_refines:
  "ring (foldl (\<lambda>h p. appendPoint p h) empty_history ps) = foldl (\<lambda>xs p. spec_append p xs) [] ps
   \<and> length (foldl (\<lambda>xs p. spec_append p xs) [] ps) \<le> 3600
   \<and> sorted_wrt (<) (map mp_SampledAt (foldl (\<lambda>xs p. spec_append p xs) [] ps))
   \<and> latestAt (foldl (\<lambda>h p. appendPoint p h) empty_history ps)
       = (if foldl (\<lambda>xs p. spec_append p xs) [] ps = [] then 0
          else mp_SampledAt (last (foldl (\<lambda>xs p. spec_append p xs) [] ps)))
   \<and> after_points now after (foldl (\<lambda>h p. appendPoint p h) empty_history ps)
       = filter (\<lambda>p. now - 3600 * second \<le> mp_SampledAt p \<and> mp_SampledAt p \<le> now \<and> after < mp_SampledAt p)
           (foldl (\<lambda>xs p. spec_append p xs) [] ps)"
proof -
  define h where "h = foldl (\<lambda>h p. appendPoint p h) empty_history ps"
  have inv: "ring_inv h" and r: "ring h = foldl (\<lambda>xs p. spec_append p xs) [] ps"
    using appends_refine [OF empty_history_inv(1), of ps] by (simp_all add: h_def empty_history_inv)
  have "length (ring h) \<le> 3600" using inv by (simp add: ring_inv_def maxNodeMetricSamples_def)
  then show ?thesis
    unfolding h_def [symmetric] latestAt_ring after_points_ring nodeMetricRetention_def r [symmetric]
    using inv by (simp add: ring_inv_def)
qed

section \<open>Telemetry\<close>

text \<open>
  A percentage between 0 and 100, up to the rounding of three operations, and memory and disk both
  absent or used within total.
\<close>

definition percent_limit :: float64 where
  "percent_limit = 100 + 1 / 10 ^ 12"

definition usage_ok :: "u64 option \<Rightarrow> u64 option \<Rightarrow> bool" where
  "usage_ok used total' \<longleftrightarrow>
     (case (used, total') of (None, None) \<Rightarrow> True | (Some u, Some t) \<Rightarrow> 0 < t \<and> u \<le> t | _ \<Rightarrow> False)"

definition point_ok :: "NodeMetricPoint \<Rightarrow> bool" where
  "point_ok p \<longleftrightarrow> (\<forall>c. mp_CPUUsagePercent p = Some c \<longrightarrow> 0 \<le> c \<and> c \<le> percent_limit)
     \<and> usage_ok (mp_MemoryUsedBytes p) (mp_MemoryTotalBytes p) \<and> usage_ok (mp_DiskUsedBytes p) (mp_DiskTotalBytes p)"

lemma percent_value:
  assumes "guestCPUUsagePercent previous current = (c, True)"
  obtains n t :: nat where "n \<le> t" "0 < t" "t \<le> unat (gc_Total current - gc_Total previous)"
    "c = fl64 (fl64 (fl64 (of_nat n) * 100) / fl64 (of_nat t))"
proof -
  define t i where "t = gc_Total current - gc_Total previous" and "i = gc_Idle current - gc_Idle previous"
  have ti: "i \<le> t" "c = fl64 (fl64 (fl64 (of_int (uint (t - i))) * 100) / fl64 (of_int (uint t)))"
      "gc_Total previous < gc_Total current"
    using assms unfolding guestCPUUsagePercent_def Let_def t_def [symmetric] i_def [symmetric]
    by (auto split: if_splits)
  have "unat (t - i) \<le> unat t" using ti(1) by (simp add: word_le_nat_alt unat_sub)
  moreover have "0 < unat t" using ti(3) by (auto simp: t_def unat_gt_0)
  moreover have "(of_int (uint w) :: rat) = of_nat (unat w)" for w :: u64 by simp
  ultimately show thesis using that [of "unat (t - i)" "unat t"] ti(2) by (simp add: t_def)
qed

lemma fl64_upper: "0 \<le> x \<Longrightarrow> x \<le> y \<Longrightarrow> fl64 x \<le> y * (1 + 1 / 2 ^ 53)"
  using fl64_error [of x] unfolding abs_le_iff by (simp add: field_simps)

lemma fl64_lower: "0 \<le> x \<Longrightarrow> x * (1 - 1 / 2 ^ 53) \<le> fl64 x"
  using fl64_error [of x] unfolding abs_le_iff by (simp add: field_simps)

lemma percent_bounds:
  assumes "guestCPUUsagePercent previous current = (c, True)"
  shows "0 \<le> c \<and> c \<le> percent_limit"
proof -
  obtain n t :: nat where nt: "n \<le> t" "0 < t" "c = fl64 (fl64 (fl64 (of_nat n) * 100) / fl64 (of_nat t))"
    using percent_value [OF assms] by metis
  let ?e = "1 / 2 ^ 53 :: rat" and ?t = "of_nat t :: rat"
  have t: "0 < ?t" "of_nat n \<le> ?t" using nt by simp_all
  have "fl64 (of_nat n) \<le> ?t * (1 + ?e)" by (rule fl64_upper) (use t in simp_all)
  then have "fl64 (of_nat n) * 100 \<le> ?t * (1 + ?e) * 100" by simp
  then have num: "fl64 (fl64 (of_nat n) * 100) \<le> ?t * (1 + ?e) * 100 * (1 + ?e)"
    by (intro fl64_upper) (simp_all add: fl64_nonneg)
  have den: "?t * (1 - ?e) \<le> fl64 ?t" by (rule fl64_lower) simp
  have pos: "0 < ?t * (1 - ?e)" using t by simp
  have "fl64 (fl64 (of_nat n) * 100) / fl64 ?t \<le> (?t * (1 + ?e) * 100 * (1 + ?e)) / (?t * (1 - ?e))"
    by (rule frac_le) (use num den pos t in simp_all)
  also have "\<dots> = (1 + ?e) * 100 * (1 + ?e) / (1 - ?e)" using t by simp
  finally have "c \<le> (1 + ?e) * 100 * (1 + ?e) / (1 - ?e) * (1 + ?e)"
    unfolding nt(3) by (intro fl64_upper divide_nonneg_nonneg fl64_nonneg)
  also have "\<dots> \<le> percent_limit" unfolding percent_limit_def by simp
  finally show ?thesis using fl64_nonneg nt(3) by simp
qed

text \<open>
  With counters that advance by less than \<open>2 ^ 46\<close> between two samples the percentage is at most 100;
  with larger ones it can be above.
\<close>

lemma percent_at_most_100:
  assumes "guestCPUUsagePercent previous current = (c, True)"
    and "unat (gc_Total current - gc_Total previous) < 2 ^ 46"
  shows "c \<le> 100"
proof -
  obtain n t :: nat where nt: "n \<le> t" "0 < t" "t < 2 ^ 46" "c = fl64 (fl64 (fl64 (of_nat n) * 100) / fl64 (of_nat t))"
    using percent_value [OF assms(1)] assms(2) by (metis le_less_trans)
  have w: "fl64 (of_nat k) = of_nat k" if "k < 2 ^ 53" for k
  proof -
    have "int k < 2 ^ 53" using that by (metis of_nat_less_iff of_nat_numeral of_nat_power)
    then show ?thesis using fl64_whole [of "int k"] by simp
  qed
  have "n < 2 ^ 53" "t < 2 ^ 53" "n * 100 < 2 ^ 53" using nt(1,3) by simp_all
  then have "c = fl64 (of_nat (n * 100) / of_nat t)"
    using w [of n] w [of t] w [of "n * 100"] nt(4) by (simp only: of_nat_mult of_nat_numeral)
  moreover have "of_nat (n * 100) / of_nat t \<le> (of_int 100 :: rat)"
  proof -
    have "(of_nat n :: rat) \<le> of_nat t" using nt(1) by simp
    then show ?thesis using nt(2) by (simp add: pos_divide_le_eq)
  qed
  ultimately show ?thesis using fl64_le [of _ 100] by simp
qed

lemma percent_above_100:
  "100 < fst (guestCPUUsagePercent \<lparr>gc_Total = 1, gc_Idle = 0\<rparr> \<lparr>gc_Total = 6297940907059450, gc_Idle = 0\<rparr>)"
  by code_simp

definition telemetry_inv :: "metricsForwarder \<Rightarrow> bool" where
  [inv_defs]: "telemetry_inv f \<longleftrightarrow>
     (\<forall>i s. mf_cpu f i = Some s \<longrightarrow> 0 \<le> us_Percent s \<and> us_Percent s \<le> percent_limit)
     \<and> (\<forall>i h. mf_metricsHistory f i = Some h \<longrightarrow> ring_inv h \<and> (\<forall>p \<in> set (ring h). point_ok p))"

lemma spec_append_set: "set (spec_append p ps) \<subseteq> insert p (set ps)"
proof -
  have "set (newest n (ps @ [p])) \<subseteq> insert p (set ps)" for n
    using set_drop_subset [of _ "ps @ [p]"] by (fastforce simp: newest_def)
  then show ?thesis by (auto simp: spec_append_def dest: in_set_butlastD)
qed

lemma event_ok:
  assumes "telemetry_inv f"
  shows "point_ok (ue_Point (nodeUsageEventLocked i t f)) \<and> ue_NodeID (nodeUsageEventLocked i t f) = i"
proof -
  have "usage_ok (fst (resource_used u)) (snd (resource_used u))" for u
    by (auto simp: usage_ok_def resource_used_def validGuestResourceUsage_def split: option.splits)
  then show ?thesis using assms by (auto simp: point_ok_def nodeUsageEventLocked_def Let_def telemetry_inv_def)
qed

lemma record_history_inv:
  assumes "telemetry_inv f" "point_ok (ue_Point e)"
  shows "telemetry_inv (recordMetricsHistoryLocked newID e f)"
proof -
  define h where "h = (case mf_metricsHistory f (ue_NodeID e) of Some h \<Rightarrow> h | None \<Rightarrow> empty_history)"
  have h: "ring_inv h" "\<forall>p \<in> set (ring h). point_ok p"
    using assms(1) empty_history_inv by (auto simp: h_def telemetry_inv_def split: option.splits)
  then have "ring_inv (appendPoint (ue_Point e) h)" "\<forall>p \<in> set (ring (appendPoint (ue_Point e) h)). point_ok p"
    using assms(2) spec_append_set [of "ue_Point e" "ring h"] by (auto simp: append_inv append_refines)
  moreover have "recordMetricsHistoryLocked newID e f = (ensure_epoch newID f)
      \<lparr>mf_metricsHistory := (mf_metricsHistory f)(ue_NodeID e \<mapsto> appendPoint (ue_Point e) h)\<rparr>"
    by (simp add: recordMetricsHistoryLocked_def ensure_epoch_def h_def Let_def)
  ultimately show ?thesis using assms(1) by (auto simp: telemetry_inv_def ensure_epoch_def)
qed

lemma record_cpu_inv: "telemetry_inv f \<Longrightarrow> telemetry_inv (record_cpu i c t f)"
  using percent_bounds
  by (fastforce simp: telemetry_inv_def record_cpu_def Let_def split: option.splits prod.splits)

lemma record_frame [simp]:
  "telemetry_inv (record_resources i ob t f) = telemetry_inv f"
  "telemetry_inv (recordUsageDetailsLocked i ob t f) = telemetry_inv f"
  "telemetry_inv (ensure_epoch e f) = telemetry_inv f"
  by (simp_all add: telemetry_inv_def record_resources_def recordUsageDetailsLocked_def ensure_epoch_def Let_def)

text \<open>
  The steps under the forwarder's mutex that write the telemetry: a sample, a clearing, the failure
  and the retirement of a node, a poll, and the end.
\<close>

inductive telemetry_step :: "metricsForwarder \<Rightarrow> metricsForwarder \<Rightarrow> bool" where
  sample: "telemetry_step f (fst (recordNodeUsage newID nodeID observation sampledAt f))"
| clear: "telemetry_step f (fst (clearNodeUsage newID nodeID now f))"
| failure: "telemetry_step f (drop_usage nodeID f)"
| retire: "telemetry_step f (retire_usage newID nodeID now f)"
| close: "telemetry_step f (close_usage f)"
| poll: "telemetry_step f (fst (metricsSnapshot newID now nodeID epoch after f))"

definition telemetry_init :: "metricsForwarder \<Rightarrow> bool" where
  "telemetry_init f \<longleftrightarrow> (\<exists>epoch. f = \<lparr>mf_cpu = Map.empty, mf_resources = Map.empty, mf_counters = Map.empty,
     mf_coreCounters = Map.empty, mf_usageDetails = Map.empty, mf_metricsHistory = Map.empty, mf_metricsEpoch = epoch\<rparr>)"

lemma prune_telemetry_inv: "telemetry_inv f \<Longrightarrow> telemetry_inv (pruneMetricsHistoryLocked now f)"
  by (auto simp: telemetry_inv_def pruneMetricsHistoryLocked_def split: option.splits if_splits)

lemma drop_usage_inv: "telemetry_inv f \<Longrightarrow> telemetry_inv (drop_usage i f)"
  by (auto simp: telemetry_inv_def drop_usage_def)

lemma retire_usage_inv:
  assumes "telemetry_inv f"
  shows "telemetry_inv (retire_usage newID i now f)"
proof -
  let ?m = "drop_usage i f"
  have "telemetry_inv (?m\<lparr>mf_coreCounters := c, mf_usageDetails := d\<rparr>)" for c d
    using drop_usage_inv [OF assms, of i] by (simp add: telemetry_inv_def)
  moreover have "point_ok \<lparr>mp_SampledAt = now, mp_CPUUsagePercent = None, mp_MemoryUsedBytes = None,
      mp_MemoryTotalBytes = None, mp_DiskUsedBytes = None, mp_DiskTotalBytes = None\<rparr>"
    by (simp add: point_ok_def usage_ok_def)
  ultimately show ?thesis unfolding retire_usage_def Let_def by (simp add: record_history_inv)
qed

lemma telemetry_step_inv: "telemetry_step f g \<Longrightarrow> telemetry_inv f \<Longrightarrow> telemetry_inv g"
proof (induction rule: telemetry_step.induct)
  case (sample f newID nodeID observation sampledAt)
  then show ?case by (auto simp: recordNodeUsage_def Let_def intro!: record_history_inv event_ok [THEN conjunct1] record_cpu_inv)
next
  case (clear f newID nodeID now)
  define f1 where "f1 = f\<lparr>mf_cpu := (mf_cpu f)(nodeID := None), mf_resources := (mf_resources f)(nodeID := None),
      mf_counters := (mf_counters f)(nodeID := None), mf_coreCounters := (mf_coreCounters f)(nodeID := None),
      mf_usageDetails := (mf_usageDetails f)(nodeID := None)\<rparr>"
  have "telemetry_inv f1" using clear by (auto simp: telemetry_inv_def f1_def)
  then show ?case unfolding clearNodeUsage_def Let_def f1_def [symmetric]
    using record_history_inv event_ok by simp
next
  case (failure f nodeID)
  then show ?case by (simp add: drop_usage_inv)
next
  case (retire f newID nodeID now)
  then show ?case by (simp add: retire_usage_inv)
next
  case (close f)
  then show ?case by (simp add: telemetry_inv_def close_usage_def)
next
  case (poll f newID now nodeID epoch after)
  then show ?case by (simp add: metricsSnapshot_def Let_def prune_telemetry_inv)
qed

interpretation telemetry: invariant_system telemetry_init telemetry_step telemetry_inv
proof
  show "telemetry_inv f" if "telemetry_init f" for f using that by (auto simp: telemetry_init_def telemetry_inv_def)
  show "telemetry_inv g" if "telemetry_step f g" "telemetry_inv f" for f g using that by (rule telemetry_step_inv)
qed

text \<open>
  Property C29: A poll of the metrics returns exactly what it should. In every state that samples,
  clearings, failures and retirements of nodes, polls and the end of the forwarder lead to, each
  retained point has a CPU percentage that is not negative and at most 100 up to the rounding of its
  three float operations (at most \<open>10 ^ -12\<close> above it), and memory and disk usage within their totals;
  a poll with the current epoch returns exactly the retained points of the last hour that are newer
  than the client's cursor, oldest first and without duplicates, and one with another epoch all of
  the last hour, although histories whose newest point is over an hour old are discarded on the way.
\<close>

theorem metrics_poll_exact:
  assumes "reachable telemetry_init telemetry_step f" "mf_metricsEpoch f \<noteq> []" "mf_metricsHistory f nodeID = Some h"
  shows "ns_History (snd (metricsSnapshot newID now nodeID epoch after f))
      = filter (\<lambda>p. now - 3600 * second \<le> mp_SampledAt p \<and> mp_SampledAt p \<le> now
          \<and> (if epoch = mf_metricsEpoch f then after else 0) < mp_SampledAt p) (ring h)
    \<and> sorted_wrt (<) (map mp_SampledAt (ring h)) \<and> (\<forall>p \<in> set (ring h). point_ok p)"
proof -
  have inv: "telemetry_inv f" by (rule telemetry.reachable_inv [OF assms(1)])
  then have h: "ring_inv h" "\<forall>p \<in> set (ring h). point_ok p" using assms(3) by (auto simp: telemetry_inv_def)
  let ?keep = "\<lambda>p. now - nodeMetricRetention \<le> mp_SampledAt p \<and> mp_SampledAt p \<le> now
      \<and> (if epoch = mf_metricsEpoch f then after else 0) < mp_SampledAt p"
  have "ns_History (snd (metricsSnapshot newID now nodeID epoch after f)) = filter ?keep (ring h)"
  proof (cases "latestAt h < now - nodeMetricRetention")
    case True
    have "\<not> ?keep p" if "p \<in> set (ring h)" for p
      using sorted_last_max [of mp_SampledAt "ring h" p] h(1) that True
      by (auto simp: ring_inv_def latestAt_ring split: if_splits)
    then have "filter ?keep (ring h) = []" unfolding filter_empty_conv by blast
    then show ?thesis using True assms(2,3)
      by (simp add: metricsSnapshot_def ensure_epoch_def pruneMetricsHistoryLocked_def Let_def)
  next
    case False
    then show ?thesis using assms(2,3)
      by (simp add: metricsSnapshot_def ensure_epoch_def pruneMetricsHistoryLocked_def Let_def after_points_ring)
  qed
  then show ?thesis using h by (simp add: ring_inv_def nodeMetricRetention_def)
qed

definition idle_observation :: forwardingGuestObservation where
  "idle_observation = \<lparr>fo_CPU = \<lparr>gc_Total = 0, gc_Idle = 0\<rparr>, fo_Memory = \<lparr>gu_UsedBytes = 1, gu_TotalBytes = 2\<rparr>,
     fo_Disk = zero_usage, fo_CPUCores = [],
     fo_Details = \<lparr>ud_Architecture = [], ud_KVMAccessible = None, ud_CPUCores = [], ud_MemoryAvailableBytes = None,
       ud_MemoryCachedBytes = None, ud_SwapUsedBytes = None, ud_SwapTotalBytes = None, ud_UptimeSeconds = None\<rparr>\<rparr>"

definition no_telemetry :: metricsForwarder where
  "no_telemetry = \<lparr>mf_cpu = Map.empty, mf_resources = Map.empty, mf_counters = Map.empty, mf_coreCounters = Map.empty,
     mf_usageDetails = Map.empty, mf_metricsHistory = Map.empty, mf_metricsEpoch = ''e''\<rparr>"

theorem metrics_poll_exact_witness:
  "map mp_SampledAt (ns_History (snd (metricsSnapshot [] 8 ''n1'' ''e'' 0
     (fst (recordNodeUsage [] ''n1'' idle_observation 7 no_telemetry))))) = [7]"
proof -
  define f where "f = fst (recordNodeUsage [] ''n1'' idle_observation 7 no_telemetry)"
  have "telemetry_init no_telemetry" by (simp add: telemetry_init_def no_telemetry_def)
  then have "reachable telemetry_init telemetry_step no_telemetry" by (rule reach_init)
  moreover have "telemetry_step no_telemetry f" unfolding f_def by (rule telemetry_step.sample)
  ultimately have r: "reachable telemetry_init telemetry_step f" by (rule reach_step)
  obtain h where h: "mf_metricsHistory f ''n1'' = Some h" "map mp_SampledAt (ring h) = [7]" "mf_metricsEpoch f = ''e''"
    unfolding f_def
    by (auto simp: recordNodeUsage_def recordMetricsHistoryLocked_def ensure_epoch_def no_telemetry_def record_cpu_def
        record_resources_def recordUsageDetailsLocked_def idle_observation_def Let_def appendPoint_def empty_history_def
        nodeUsageEventLocked_def maxNodeMetricSamples_def ring_def)
  then obtain p where p: "ring h = [p]" "mp_SampledAt p = 7" by auto
  from metrics_poll_exact [OF r _ h(1), of "[]" 8 "''e''" 0] h(3) p show ?thesis
    by (simp add: f_def second_def)
qed

end
