(* ===== verification/Dispatch.thy ===== *)
theory Dispatch
  imports Prelude "HOL-Library.Multiset" "HOL-Library.AList"
begin

text \<open>
  \<^verbatim>\<open>internal/codelima/daemon/dispatch.go\<close>: the delivery classes of daemon methods and the lanes that
  one connection's requests run on.

  A Go map of lanes is an association list with distinct keys, in the order of creation. A
  buffered channel is its queue: a send succeeds while the buffer has room. The handler of a
  request answers it with one response (\<open>dispatchRequest\<close>, \<open>dispatchLatestValueRequest\<close>); what it
  computes does not matter here. The parameters of a request are given by the outcome of
  decoding them.
\<close>

section \<open>Delivery classes\<close>

datatype DeliveryClass =
    ClassQuery | ClassInput | ClassReplaceable | ClassOwnership | ClassControl | ClassLifecycle

definition ClassifyMethod :: "string \<Rightarrow> DeliveryClass" where
  "ClassifyMethod m =
     (if m \<in> {''terminal.send_text'', ''terminal.send_keys'', ''terminal.send_input'', ''terminal.send_event'',
              ''terminal.scroll'', ''terminal.interact''} then ClassInput
      else if m \<in> {''terminal.resize'', ''terminal.focus''} then ClassReplaceable
      else if m = ''input.takeover'' then ClassOwnership
      else if m \<in> {''terminal.open'', ''terminal.close'', ''terminal.move'', ''terminal.restart_renderer'',
                   ''terminal.attach'', ''terminal.attach_read'', ''terminal.detach'', ''operation.submit'',
                   ''operation.cancel'', ''activity.append'', ''daemon.stop'', ''ports.pin''} then ClassControl
      else if m \<in> {''node.start'', ''node.stop'', ''daemon.update''} then ClassLifecycle
      else ClassQuery)"

definition MutatingInputMethod :: "string \<Rightarrow> bool" where
  "MutatingInputMethod m \<longleftrightarrow> ClassifyMethod m \<noteq> ClassQuery"

definition SeatArbitratedMethod :: "string \<Rightarrow> bool" where
  "SeatArbitratedMethod m \<longleftrightarrow>
     ClassifyMethod m = ClassReplaceable \<or> m = ''terminal.interact'' \<or> m = ''terminal.attach''
     \<or> m = ''terminal.attach_read''"

text \<open>No parameters, parameters that do not decode, or the decoded \<^verbatim>\<open>terminal_id\<close> (empty when absent).\<close>

datatype rpcParams = NoParams | UndecodableParams | TargetParams string

record Request =
  re_ID :: u64
  re_Method :: string
  re_Params :: rpcParams

definition requestTerminalKey :: "rpcParams \<Rightarrow> string" where
  "requestTerminalKey p = (case p of NoParams \<Rightarrow> [] | UndecodableParams \<Rightarrow> [] | TargetParams t \<Rightarrow> t)"

section \<open>Latest-value lanes\<close>

record pendingLatestValue =
  pl_request :: Request
  pl_superseded :: "u64 list"

text \<open>
  \<open>lv_wake\<close> is the channel of capacity 1, \<open>lv_signals\<close> the number of pushes that have stored their
  value and not yet signalled it, \<open>lv_draining\<close> that the lane's goroutine is in its inner loop.
\<close>

record latestValueLane =
  lv_pending :: "(string \<times> pendingLatestValue) list"
  lv_wake :: bool
  lv_maxDepth :: nat
  lv_signals :: nat
  lv_draining :: bool

definition new_latest :: "nat \<Rightarrow> latestValueLane" where
  "new_latest depth = \<lparr>lv_pending = [], lv_wake = False, lv_maxDepth = depth, lv_signals = 0, lv_draining = False\<rparr>"

text \<open>The part of \<open>push\<close> under the mutex, then the signal.\<close>

definition lane_push :: "Request \<Rightarrow> latestValueLane \<Rightarrow> latestValueLane \<times> bool" where
  "lane_push request v =
     (case map_of (lv_pending v) (re_Method request) of
        Some previous \<Rightarrow>
          if length (pl_superseded previous) + 1 \<ge> lv_maxDepth v then (v, False)
          else (v\<lparr>lv_pending := AList.update (re_Method request)
                   \<lparr>pl_request = request, pl_superseded = pl_superseded previous @ [re_ID (pl_request previous)]\<rparr>
                   (lv_pending v), lv_signals := lv_signals v + 1\<rparr>, True)
      | None \<Rightarrow>
          (v\<lparr>lv_pending := AList.update (re_Method request) \<lparr>pl_request = request, pl_superseded = []\<rparr>
               (lv_pending v), lv_signals := lv_signals v + 1\<rparr>, True))"

definition lane_signal :: "latestValueLane \<Rightarrow> latestValueLane" where
  "lane_signal v = v\<lparr>lv_wake := True, lv_signals := lv_signals v - 1\<rparr>"

text \<open>\<open>take\<close> removes the entry of some method: Go does not say which. \<open>m\<close> is its choice.\<close>

definition lane_take :: "string \<Rightarrow> latestValueLane \<Rightarrow> latestValueLane \<times> pendingLatestValue option" where
  "lane_take m v = (v\<lparr>lv_pending := AList.delete m (lv_pending v)\<rparr>, map_of (lv_pending v) m)"

definition entry_ids :: "pendingLatestValue \<Rightarrow> u64 list" where
  "entry_ids e = re_ID (pl_request e) # pl_superseded e"

section \<open>The lanes of a connection\<close>

definition maxLanesPerConnection :: nat where "maxLanesPerConnection = 64"

record connectionLanes =
  cl_queueSize :: nat
  cl_maxInFlight :: nat
  cl_closed :: bool
  cl_query :: "Request list"
  cl_control :: "Request list"
  cl_input :: "(string \<times> Request list) list"
  cl_latest :: "(string \<times> latestValueLane) list"

definition newConnectionLanes :: "nat \<Rightarrow> nat \<Rightarrow> connectionLanes" where
  "newConnectionLanes queueSize maxInFlight =
     \<lparr>cl_queueSize = queueSize, cl_maxInFlight = maxInFlight, cl_closed = False, cl_query = [], cl_control = [],
      cl_input = [], cl_latest = []\<rparr>"

text \<open>
  The lane of a terminal: its own, or a new one, or the shared lane once 64 exist. Both classes
  do this alike; \<open>fresh\<close> is the lane that is made.
\<close>

definition route :: "'v \<Rightarrow> string \<Rightarrow> (string \<times> 'v) list \<Rightarrow> (string \<times> 'v) list \<times> string" where
  "route fresh key lanes =
     (if key \<in> fst ` set lanes then (lanes, key)
      else if length lanes \<ge> maxLanesPerConnection \<and> [] \<in> fst ` set lanes then (lanes, [])
      else let key = (if length lanes \<ge> maxLanesPerConnection then [] else key)
           in (lanes @ [(key, fresh)], key))"

definition inputLane :: "string \<Rightarrow> connectionLanes \<Rightarrow> (connectionLanes \<times> string) option" where
  "inputLane key l =
     (if cl_closed l then None
      else case route [] key (cl_input l) of (lanes, k) \<Rightarrow> Some (l\<lparr>cl_input := lanes\<rparr>, k))"

definition latestValueLane_of :: "string \<Rightarrow> connectionLanes \<Rightarrow> (connectionLanes \<times> string) option" where
  "latestValueLane_of key l =
     (if cl_closed l then None
      else case route (new_latest (cl_queueSize l)) key (cl_latest l) of (lanes, k) \<Rightarrow> Some (l\<lparr>cl_latest := lanes\<rparr>, k))"

text \<open>What becomes of a request at once.\<close>

datatype dispatchOutcome = Queued string | Spawned | Inline | Refused string | Ignored

definition dispatchInput :: "Request \<Rightarrow> connectionLanes \<Rightarrow> connectionLanes \<times> dispatchOutcome" where
  "dispatchInput request l =
     (case inputLane (requestTerminalKey (re_Params request)) l of
        None \<Rightarrow> (l, Ignored)
      | Some (l, k) \<Rightarrow>
          (case map_of (cl_input l) k of
             None \<Rightarrow> (l, Ignored)
           | Some queue \<Rightarrow>
               if length queue < cl_queueSize l
               then (l\<lparr>cl_input := AList.update k (queue @ [request]) (cl_input l)\<rparr>, Queued k)
               else (l, Refused ''terminal input queue is full'')))"

definition dispatchLatestValue :: "Request \<Rightarrow> connectionLanes \<Rightarrow> connectionLanes \<times> dispatchOutcome" where
  "dispatchLatestValue request l =
     (case latestValueLane_of (requestTerminalKey (re_Params request)) l of
        None \<Rightarrow> (l, Ignored)
      | Some (l, k) \<Rightarrow>
          (case map_of (cl_latest l) k of
             None \<Rightarrow> (l, Ignored)
           | Some lane \<Rightarrow>
               (case lane_push request lane of
                  (lane', ok) \<Rightarrow>
                    if ok then (l\<lparr>cl_latest := AList.update k lane' (cl_latest l)\<rparr>, Queued k)
                    else (l, Refused ''too many in-flight daemon requests''))))"

definition dispatchConcurrent :: "bool \<Rightarrow> Request \<Rightarrow> connectionLanes \<Rightarrow> connectionLanes \<times> dispatchOutcome" where
  "dispatchConcurrent control request l =
     (if length (if control then cl_control l else cl_query l) < cl_maxInFlight l
      then (if control then l\<lparr>cl_control := cl_control l @ [request]\<rparr> else l\<lparr>cl_query := cl_query l @ [request]\<rparr>,
            Spawned)
      else (l, Refused ''too many in-flight daemon requests''))"

definition dispatch_request :: "Request \<Rightarrow> connectionLanes \<Rightarrow> connectionLanes \<times> dispatchOutcome" where
  "dispatch_request request l =
     (case ClassifyMethod (re_Method request) of
        ClassInput \<Rightarrow> dispatchInput request l
      | ClassReplaceable \<Rightarrow> dispatchLatestValue request l
      | ClassOwnership \<Rightarrow> (l, Inline)
      | ClassControl \<Rightarrow> dispatchConcurrent True request l
      | ClassLifecycle \<Rightarrow> dispatchConcurrent True request l
      | ClassQuery \<Rightarrow> dispatchConcurrent False request l)"

definition close_lanes :: "connectionLanes \<Rightarrow> connectionLanes" where
  "close_lanes l = l\<lparr>cl_closed := True\<rparr>"

end
