(* ===== verification/DispatchRuns.thy ===== *)
theory DispatchRuns
  imports Dispatch "HOL-Library.Sublist"
begin

text \<open>
  Runs of one connection: every interleaving of dispatches, lane workers and completions keeps
  the requests accounted for, the input of each terminal in order, and the newest value of each
  replaceable method in force.
\<close>

section \<open>Lanes as association lists\<close>

definition content :: "('v \<Rightarrow> 'a list) \<Rightarrow> (string \<times> 'v) list \<Rightarrow> 'a multiset" where
  "content f lanes = mset (concat (map (f \<circ> snd) lanes))"

lemma content_simps [simp]:
  "content f [] = {#}" "content f (x # xs) = mset (f (snd x)) + content f xs"
  "content f (xs @ ys) = content f xs + content f ys"
  by (simp_all add: content_def)

lemma content_update:
  "map_of lanes k = Some v \<Longrightarrow>
     content f (AList.update k v' lanes) + mset (f v) = content f lanes + mset (f v')"
  by (induction lanes) (auto simp: algebra_simps split: if_splits)

lemma content_insert: "map_of lanes k = None \<Longrightarrow> content f (AList.update k v lanes) = content f lanes + mset (f v)"
  by (induction lanes) auto

lemma content_delete:
  "distinct (map fst lanes) \<Longrightarrow> map_of lanes k = Some v \<Longrightarrow>
     content f lanes = content f (AList.delete k lanes) + mset (f v)"
proof (induction lanes)
  case (Cons x xs)
  show ?case
  proof (cases "fst x = k")
    case True
    then have "k \<notin> fst ` set xs" using Cons.prems by auto
    then have "AList.delete k (x # xs) = xs" using True by (simp add: AList.delete_eq filter_id_conv) force
    then show ?thesis using Cons.prems True by (simp add: algebra_simps)
  next
    case False
    then show ?thesis using Cons by (cases x) (auto simp: AList.delete_eq algebra_simps)
  qed
qed simp

lemma update_present: "k \<in> fst ` set al \<Longrightarrow> map fst (AList.update k v al) = map fst al"
  by (induction al) auto

lemma update_absent: "k \<notin> fst ` set al \<Longrightarrow> AList.update k v al = al @ [(k, v)]"
  by (induction al) auto

lemma update_fst_length: "map_of al k = Some v \<Longrightarrow> map fst (AList.update k w al) = map fst al"
  by (rule update_present) (auto dest: map_of_SomeD intro: rev_image_eqI)

text \<open>Routing: lanes are only added, at most 65 of them, and a terminal keeps its lane.\<close>

definition lanes_ok :: "(string \<times> 'v) list \<Rightarrow> bool" where
  "lanes_ok lanes \<longleftrightarrow> distinct (map fst lanes) \<and> (length lanes \<le> 64 \<or> length lanes = 65 \<and> [] \<in> fst ` set lanes)"

lemma route_cases:
  assumes "route fresh key lanes = (lanes', k)"
  obtains (own) "key \<in> fst ` set lanes" "lanes' = lanes" "k = key"
  | (shared) "key \<notin> fst ` set lanes" "length lanes \<ge> 64" "[] \<in> fst ` set lanes" "lanes' = lanes" "k = []"
  | (make_shared) "key \<notin> fst ` set lanes" "length lanes \<ge> 64" "[] \<notin> fst ` set lanes"
      "lanes' = lanes @ [([], fresh)]" "k = []"
  | (make) "key \<notin> fst ` set lanes" "length lanes < 64" "lanes' = lanes @ [(key, fresh)]" "k = key"
proof (cases "key \<in> fst ` set lanes")
  case True
  then have "lanes' = lanes" "k = key" using assms by (simp_all add: route_def)
  with True show thesis by (rule own)
next
  case False
  show thesis
  proof (cases "length lanes \<ge> 64")
    case long: True
    show thesis
    proof (cases "[] \<in> fst ` set lanes")
      case True
      then have "lanes' = lanes" "k = []" using assms False long by (simp_all add: route_def maxLanesPerConnection_def)
      with False long True show thesis by (rule shared)
    next
      case none: False
      then have "lanes' = lanes @ [([], fresh)]" "k = []"
        using assms False long by (simp_all add: route_def maxLanesPerConnection_def)
      with False long none show thesis by (rule make_shared)
    qed
  next
    case short: False
    then have "lanes' = lanes @ [(key, fresh)]" "k = key"
      using assms False by (auto simp: route_def maxLanesPerConnection_def)
    with False short show thesis by (intro make) simp_all
  qed
qed

lemma route_ok:
  assumes ok: "lanes_ok lanes" and r: "route fresh key lanes = (lanes', k)"
  shows "lanes_ok lanes'" "k \<in> fst ` set lanes'"
    "lanes' = lanes \<or> k \<notin> fst ` set lanes \<and> lanes' = lanes @ [(k, fresh)]"
    "if key \<in> fst ` set lanes' then k = key else k = [] \<and> length lanes' \<ge> 64"
    "length lanes \<ge> 64 \<Longrightarrow> fst ` set lanes' \<subseteq> insert [] (fst ` set lanes)" "length lanes \<le> length lanes'"
  using r ok by (cases rule: route_cases; auto simp: lanes_ok_def)+

text \<open>A request keeps pointing at its lane when lanes are added.\<close>

definition routed :: "(string \<times> 'v) list \<Rightarrow> string \<times> Request \<Rightarrow> bool" where
  "routed lanes = (\<lambda>(k, r). k \<in> fst ` set lanes \<and>
     (let key = requestTerminalKey (re_Params r)
      in if key \<in> fst ` set lanes then k = key else k = [] \<and> length lanes \<ge> 64))"

lemma routed_mono:
  assumes "lanes_ok lanes" "route fresh key lanes = (lanes', k)" "routed lanes x"
  shows "routed lanes' x"
proof (cases "lanes' = lanes")
  case False
  obtain k0 r where x: "x = (k0, r)" by fastforce
  define t where "t = requestTerminalKey (re_Params r)"
  have new: "k \<notin> fst ` set lanes" "lanes' = lanes @ [(k, fresh)]" using route_ok(3) [OF assms(1,2)] False by auto
  have old: "k0 \<in> fst ` set lanes" "if t \<in> fst ` set lanes then k0 = t else k0 = [] \<and> length lanes \<ge> 64"
    using assms(3) unfolding routed_def x t_def Let_def prod.case by blast+
  have "if t \<in> fst ` set lanes' then k0 = t else k0 = [] \<and> length lanes' \<ge> 64"
  proof (cases "t \<in> fst ` set lanes")
    case True
    then show ?thesis using old new by auto
  next
    case False
    then have sh: "k0 = []" "length lanes \<ge> 64" using old by auto
    then have "k = []" using route_ok(5) [OF assms(1,2)] new by auto
    then have False using sh(1) old(1) new(1) by simp
    then show ?thesis ..
  qed
  moreover have "k0 \<in> fst ` set lanes'" using old(1) new(2) by auto
  ultimately show ?thesis unfolding routed_def x t_def Let_def prod.case by blast
qed (use assms in simp)

section \<open>Runs\<close>

text \<open>
  The lanes with what happened so far: every dispatched request, the identifiers that were
  answered or ignored, and the requests that the input and latest-value lanes accepted and
  handled, with their lane.
\<close>

record laneRun =
  lr_lanes :: connectionLanes
  lr_sent :: "Request list"
  lr_answered :: "u64 list"
  lr_ignored :: "u64 list"
  lr_input :: "(string \<times> Request) list"
  lr_inputDone :: "(string \<times> Request) list"
  lr_latest :: "(string \<times> Request) list"
  lr_latestDone :: "(string \<times> Request) list"

definition run_init :: "laneRun \<Rightarrow> bool" where
  "run_init s \<longleftrightarrow> (\<exists>queueSize maxInFlight. s = \<lparr>lr_lanes = newConnectionLanes queueSize maxInFlight, lr_sent = [],
     lr_answered = [], lr_ignored = [], lr_input = [], lr_inputDone = [], lr_latest = [], lr_latestDone = []\<rparr>)"

definition run_dispatch :: "Request \<Rightarrow> laneRun \<Rightarrow> laneRun" where
  "run_dispatch r s =
     (case dispatch_request r (lr_lanes s) of
        (l, out) \<Rightarrow>
          let s = s\<lparr>lr_lanes := l, lr_sent := lr_sent s @ [r]\<rparr>
          in (case out of
                Queued k \<Rightarrow>
                  if ClassifyMethod (re_Method r) = ClassInput then s\<lparr>lr_input := lr_input s @ [(k, r)]\<rparr>
                  else s\<lparr>lr_latest := lr_latest s @ [(k, r)]\<rparr>
              | Spawned \<Rightarrow> s
              | Inline \<Rightarrow> s\<lparr>lr_answered := lr_answered s @ [re_ID r]\<rparr>
              | Refused _ \<Rightarrow> s\<lparr>lr_answered := lr_answered s @ [re_ID r]\<rparr>
              | Ignored \<Rightarrow> s\<lparr>lr_ignored := lr_ignored s @ [re_ID r]\<rparr>))"

definition set_latest :: "string \<Rightarrow> latestValueLane \<Rightarrow> connectionLanes \<Rightarrow> connectionLanes" where
  "set_latest k lane l = l\<lparr>cl_latest := AList.update k lane (cl_latest l)\<rparr>"

text \<open>
  The steps: the reader dispatches; the worker of an input lane handles its first request; a
  spawned request completes; a push signals; the worker of a latest-value lane wakes, takes and
  handles an entry, or finds nothing pending; the connection closes. Taking a request from a lane
  and answering it are one step, so the request being handled does not count as queued; the exit of
  a worker whose connection is gone, which answers nothing more, is not a step.
\<close>

inductive run_step :: "laneRun \<Rightarrow> laneRun \<Rightarrow> bool" where
  dispatch: "run_step s (run_dispatch r s)"
| input: "map_of (cl_input (lr_lanes s)) k = Some (r # queue) \<Longrightarrow>
    run_step s (s\<lparr>lr_lanes := (lr_lanes s)\<lparr>cl_input := AList.update k queue (cl_input (lr_lanes s))\<rparr>,
      lr_answered := lr_answered s @ [re_ID r], lr_inputDone := lr_inputDone s @ [(k, r)]\<rparr>)"
| query: "cl_query (lr_lanes s) = xs @ r # ys \<Longrightarrow>
    run_step s (s\<lparr>lr_lanes := (lr_lanes s)\<lparr>cl_query := xs @ ys\<rparr>, lr_answered := lr_answered s @ [re_ID r]\<rparr>)"
| control: "cl_control (lr_lanes s) = xs @ r # ys \<Longrightarrow>
    run_step s (s\<lparr>lr_lanes := (lr_lanes s)\<lparr>cl_control := xs @ ys\<rparr>, lr_answered := lr_answered s @ [re_ID r]\<rparr>)"
| signal: "map_of (cl_latest (lr_lanes s)) k = Some lane \<Longrightarrow> lv_signals lane > 0 \<Longrightarrow>
    run_step s (s\<lparr>lr_lanes := set_latest k (lane_signal lane) (lr_lanes s)\<rparr>)"
| wake: "map_of (cl_latest (lr_lanes s)) k = Some lane \<Longrightarrow> lv_wake lane \<Longrightarrow> \<not> lv_draining lane \<Longrightarrow>
    run_step s (s\<lparr>lr_lanes := set_latest k (lane\<lparr>lv_wake := False, lv_draining := True\<rparr>) (lr_lanes s)\<rparr>)"
| take: "map_of (cl_latest (lr_lanes s)) k = Some lane \<Longrightarrow> lv_draining lane \<Longrightarrow>
    lane_take m lane = (lane', Some e) \<Longrightarrow>
    run_step s (s\<lparr>lr_lanes := set_latest k lane' (lr_lanes s), lr_answered := lr_answered s @ entry_ids e,
      lr_latestDone := lr_latestDone s @ [(k, pl_request e)]\<rparr>)"
| idle: "map_of (cl_latest (lr_lanes s)) k = Some lane \<Longrightarrow> lv_draining lane \<Longrightarrow> lv_pending lane = [] \<Longrightarrow>
    run_step s (s\<lparr>lr_lanes := set_latest k (lane\<lparr>lv_draining := False\<rparr>) (lr_lanes s)\<rparr>)"
| close: "run_step s (s\<lparr>lr_lanes := close_lanes (lr_lanes s)\<rparr>)"

text \<open>The identifiers that still wait for their answer.\<close>

definition lane_ids :: "latestValueLane \<Rightarrow> u64 list" where
  "lane_ids v = concat (map (entry_ids \<circ> snd) (lv_pending v))"

definition outstanding :: "connectionLanes \<Rightarrow> u64 multiset" where
  "outstanding l = mset (map re_ID (cl_query l)) + mset (map re_ID (cl_control l))
     + content (map re_ID) (cl_input l) + content lane_ids (cl_latest l)"

text \<open>The requests of one lane in a log, in order.\<close>

definition of_lane :: "string \<Rightarrow> (string \<times> Request) list \<Rightarrow> Request list" where
  "of_lane k log = map snd (filter (\<lambda>(k', r). k' = k) log)"

lemma of_lane_simps [simp]:
  "of_lane k [] = []" "of_lane k (xs @ ys) = of_lane k xs @ of_lane k ys"
  "of_lane k ((k', r) # xs) = (if k' = k then r # of_lane k xs else of_lane k xs)"
  by (simp_all add: of_lane_def)

definition queue_of :: "string \<Rightarrow> connectionLanes \<Rightarrow> Request list" where
  "queue_of k l = (case map_of (cl_input l) k of Some q \<Rightarrow> q | None \<Rightarrow> [])"

definition of_method :: "string \<Rightarrow> Request list \<Rightarrow> Request list" where
  "of_method m rs = filter (\<lambda>r. re_Method r = m) rs"

text \<open>
  A latest-value lane: entries under their own method, at most as deep as allowed, a worker that
  will see them, and the newest request of each method pending or handled last.
\<close>

definition latest_ok :: "(string \<times> Request) list \<Rightarrow> (string \<times> Request) list \<Rightarrow> string \<times> latestValueLane \<Rightarrow> bool" where
  "latest_ok pushed handled = (\<lambda>(k, v).
     distinct (map fst (lv_pending v))
     \<and> (\<forall>(m, e) \<in> set (lv_pending v). re_Method (pl_request e) = m \<and> length (pl_superseded e) < max 1 (lv_maxDepth v))
     \<and> (lv_pending v \<noteq> [] \<longrightarrow> lv_wake v \<or> lv_draining v \<or> lv_signals v > 0)
     \<and> (\<forall>m. of_method m (of_lane k pushed) \<noteq> [] \<longrightarrow>
          last (of_method m (of_lane k pushed)) =
            (case map_of (lv_pending v) m of Some e \<Rightarrow> pl_request e | None \<Rightarrow> last (of_method m (of_lane k handled)))
          \<and> (map_of (lv_pending v) m = None \<longrightarrow> of_method m (of_lane k handled) \<noteq> [])))"

definition accounts :: "laneRun \<Rightarrow> bool" where
  "accounts s \<longleftrightarrow>
     mset (map re_ID (lr_sent s)) = mset (lr_answered s) + mset (lr_ignored s) + outstanding (lr_lanes s)
     \<and> (lr_ignored s \<noteq> [] \<longrightarrow> cl_closed (lr_lanes s))"

definition fifo :: "laneRun \<Rightarrow> bool" where
  "fifo s \<longleftrightarrow>
     (\<forall>x \<in> set (lr_input s). routed (cl_input (lr_lanes s)) x)
     \<and> (\<forall>k. of_lane k (lr_input s) = of_lane k (lr_inputDone s) @ queue_of k (lr_lanes s))"

definition newest_kept :: "laneRun \<Rightarrow> bool" where
  "newest_kept s \<longleftrightarrow>
     (\<forall>x \<in> set (lr_latest s). fst x \<in> fst ` set (cl_latest (lr_lanes s)))
     \<and> (\<forall>x \<in> set (cl_latest (lr_lanes s)). latest_ok (lr_latest s) (lr_latestDone s) x)"

definition run_inv :: "laneRun \<Rightarrow> bool" where
  [inv_defs]: "run_inv s \<longleftrightarrow>
     lanes_ok (cl_input (lr_lanes s)) \<and> lanes_ok (cl_latest (lr_lanes s)) \<and> accounts s \<and> fifo s \<and> newest_kept s"

section \<open>Dispatch keeps the invariant\<close>

lemma lane_exists: "k \<in> fst ` set lanes \<Longrightarrow> \<exists>v. map_of lanes k = Some v"
  by (metis domIff dom_map_of_conv_image_fst not_None_eq)

lemma dispatchInput_cases:
  assumes "dispatchInput r l = (l', out)" "lanes_ok (cl_input l)"
  obtains (closed) "cl_closed l" "l' = l" "out = Ignored"
  | (queued) lanes k q where "route [] (requestTerminalKey (re_Params r)) (cl_input l) = (lanes, k)"
      "map_of lanes k = Some q" "l' = l\<lparr>cl_input := AList.update k (q @ [r]) lanes\<rparr>" "out = Queued k"
  | (full) lanes k e where "route [] (requestTerminalKey (re_Params r)) (cl_input l) = (lanes, k)"
      "l' = l\<lparr>cl_input := lanes\<rparr>" "out = Refused e"
proof (cases "cl_closed l")
  case True
  then have "l' = l" "out = Ignored" using assms(1) by (auto simp: dispatchInput_def inputLane_def)
  with True show thesis by (rule closed)
next
  case False
  obtain lanes k where r: "route [] (requestTerminalKey (re_Params r)) (cl_input l) = (lanes, k)" by fastforce
  obtain q where q: "map_of lanes k = Some q" using lane_exists [OF route_ok(2) [OF assms(2) r]] by blast
  show thesis
  proof (cases "length q < cl_queueSize l")
    case True
    then have "l' = l\<lparr>cl_input := AList.update k (q @ [r]) lanes\<rparr>" "out = Queued k"
      using assms(1) False r q by (auto simp: dispatchInput_def inputLane_def)
    with r q show thesis by (rule queued)
  next
    case long: False
    then have "l' = l\<lparr>cl_input := lanes\<rparr>" "out = Refused ''terminal input queue is full''"
      using assms(1) False r q by (auto simp: dispatchInput_def inputLane_def)
    with r show thesis by (rule full)
  qed
qed

lemma dispatchLatest_cases:
  assumes "dispatchLatestValue r l = (l', out)" "lanes_ok (cl_latest l)"
  obtains (closed) "cl_closed l" "l' = l" "out = Ignored"
  | (queued) lanes k v v' where
      "route (new_latest (cl_queueSize l)) (requestTerminalKey (re_Params r)) (cl_latest l) = (lanes, k)"
      "map_of lanes k = Some v" "lane_push r v = (v', True)" "l' = l\<lparr>cl_latest := AList.update k v' lanes\<rparr>" "out = Queued k"
  | (full) lanes k e where
      "route (new_latest (cl_queueSize l)) (requestTerminalKey (re_Params r)) (cl_latest l) = (lanes, k)"
      "l' = l\<lparr>cl_latest := lanes\<rparr>" "out = Refused e"
proof (cases "cl_closed l")
  case True
  then have "l' = l" "out = Ignored" using assms(1) by (auto simp: dispatchLatestValue_def latestValueLane_of_def)
  with True show thesis by (rule closed)
next
  case False
  obtain lanes k where r: "route (new_latest (cl_queueSize l)) (requestTerminalKey (re_Params r)) (cl_latest l) = (lanes, k)"
    by fastforce
  obtain v where v: "map_of lanes k = Some v" using lane_exists [OF route_ok(2) [OF assms(2) r]] by blast
  obtain v' ok where p: "lane_push r v = (v', ok)" by fastforce
  show thesis
  proof (cases ok)
    case True
    then have "lane_push r v = (v', True)" "l' = l\<lparr>cl_latest := AList.update k v' lanes\<rparr>" "out = Queued k"
      using assms(1) False r v p by (auto simp: dispatchLatestValue_def latestValueLane_of_def)
    with r v show thesis by (rule queued)
  next
    case refused: False
    then have "l' = l\<lparr>cl_latest := lanes\<rparr>" "out = Refused ''too many in-flight daemon requests''"
      using assms(1) False r v p by (auto simp: dispatchLatestValue_def latestValueLane_of_def)
    with r show thesis by (rule full)
  qed
qed

text \<open>A push adds its request to the pending identifiers, or changes nothing.\<close>

lemma lane_push_ids:
  assumes "lane_push r v = (v', True)"
  shows "mset (lane_ids v') = add_mset (re_ID r) (mset (lane_ids v))"
proof (cases "map_of (lv_pending v) (re_Method r)")
  case None
  then show ?thesis
    using assms content_insert [OF None, of entry_ids "\<lparr>pl_request = r, pl_superseded = []\<rparr>"]
    by (auto simp: lane_push_def lane_ids_def content_def entry_ids_def)
next
  case (Some e)
  let ?e' = "\<lparr>pl_request = r, pl_superseded = pl_superseded e @ [re_ID (pl_request e)]\<rparr>"
  have "lv_pending v' = AList.update (re_Method r) ?e' (lv_pending v)"
    using assms Some by (auto simp: lane_push_def split: if_splits)
  moreover have "content entry_ids (AList.update (re_Method r) ?e' (lv_pending v)) + mset (entry_ids e)
      = (content entry_ids (lv_pending v) + {#re_ID r#}) + mset (entry_ids e)"
    using content_update [OF Some, of entry_ids ?e'] by (simp add: entry_ids_def)
  ultimately show ?thesis by (simp add: lane_ids_def content_def [symmetric, of entry_ids])
qed

lemma new_latest_ids [simp]: "lane_ids (new_latest d) = []"
  by (simp add: lane_ids_def new_latest_def)

lemma route_content: "lanes_ok lanes \<Longrightarrow> route fresh key lanes = (lanes', k) \<Longrightarrow> f fresh = [] \<Longrightarrow> content f lanes' = content f lanes"
  using route_ok(3) [of lanes fresh key lanes' k] by auto

lemma dispatch_cases:
  assumes "dispatch_request r l = (l', out)"
  obtains (input) "ClassifyMethod (re_Method r) = ClassInput" "dispatchInput r l = (l', out)"
  | (latest) "ClassifyMethod (re_Method r) = ClassReplaceable" "dispatchLatestValue r l = (l', out)"
  | (own) "ClassifyMethod (re_Method r) = ClassOwnership" "l' = l" "out = Inline"
  | (concurrent) c where "dispatchConcurrent c r l = (l', out)"
  using assms unfolding dispatch_request_def
  by (cases "ClassifyMethod (re_Method r)") (simp_all only: DeliveryClass.case prod.inject)

lemma dispatch_accounts:
  assumes d: "dispatch_request r l = (l', out)" and ok: "lanes_ok (cl_input l)" "lanes_ok (cl_latest l)"
  shows "outstanding l' = outstanding l + (case out of Queued k \<Rightarrow> {#re_ID r#} | Spawned \<Rightarrow> {#re_ID r#} | _ \<Rightarrow> {#})
     \<and> cl_closed l' = cl_closed l \<and> (out = Ignored \<longrightarrow> cl_closed l)"
proof -
  have conc: ?thesis if "dispatchConcurrent c r l = (l', out)" for c
    using that by (auto simp: dispatchConcurrent_def outstanding_def split: if_splits)
  have inp: ?thesis if "dispatchInput r l = (l', out)"
    using that ok(1)
  proof (cases rule: dispatchInput_cases)
    case (queued lanes k q)
    have "content (map re_ID) (AList.update k (q @ [r]) lanes) + mset (map re_ID q)
        = (content (map re_ID) (cl_input l) + {#re_ID r#}) + mset (map re_ID q)"
      using content_update [OF queued(2), of "map re_ID" "q @ [r]"] route_content [OF ok(1) queued(1), of "map re_ID"] by simp
    then show ?thesis using queued by (simp add: outstanding_def)
  next
    case (full lanes k e)
    then show ?thesis using route_content [OF ok(1) full(1), of "map re_ID"] by (simp add: outstanding_def)
  qed simp
  have lat: ?thesis if "dispatchLatestValue r l = (l', out)"
    using that ok(2)
  proof (cases rule: dispatchLatest_cases)
    case (queued lanes k v v')
    have "content lane_ids (AList.update k v' lanes) + mset (lane_ids v)
        = (content lane_ids (cl_latest l) + {#re_ID r#}) + mset (lane_ids v)"
      using content_update [OF queued(2), of lane_ids v'] route_content [OF ok(2) queued(1), of lane_ids]
        lane_push_ids [OF queued(3)] by simp
    then show ?thesis using queued by (simp add: outstanding_def)
  next
    case (full lanes k e)
    then show ?thesis using route_content [OF ok(2) full(1), of lane_ids] by (simp add: outstanding_def)
  qed simp
  from d show ?thesis
  proof (cases rule: dispatch_cases)
    case own
    then show ?thesis by simp
  qed (rule conc inp lat, assumption)+
qed

lemma lanes_ok_update [simp]: "map_of lanes k = Some v \<Longrightarrow> lanes_ok (AList.update k w lanes) = lanes_ok lanes"
  using update_fst_length [of lanes k v w] unfolding lanes_ok_def by (metis length_map set_map)

lemma keys_update: "map_of lanes k = Some v \<Longrightarrow> fst ` set (AList.update k w lanes) = fst ` set lanes"
  using update_fst_length [of lanes k v w] by (metis set_map)

lemma routed_update [simp]:
  assumes "map_of lanes k = Some v"
  shows "routed (AList.update k w lanes) = routed lanes"
proof -
  have "length (AList.update k w lanes) = length lanes" using update_fst_length [OF assms, of w] by (metis length_map)
  then show ?thesis unfolding routed_def keys_update [OF assms] by simp
qed

lemma set_update_lanes:
  "distinct (map fst al) \<Longrightarrow> x \<in> set (AList.update k w al) \<Longrightarrow> x = (k, w) \<or> x \<in> set al \<and> fst x \<noteq> k"
  by (induction al) (auto split: if_splits intro: rev_image_eqI)

lemma dispatch_shape:
  assumes d: "dispatch_request r l = (l', out)" and ok: "lanes_ok (cl_input l)" "lanes_ok (cl_latest l)"
  shows "lanes_ok (cl_input l') \<and> lanes_ok (cl_latest l')"
  using d
proof (cases rule: dispatch_cases)
  case input
  from input(2) ok(1) show ?thesis
    by (cases rule: dispatchInput_cases) (use ok route_ok(1) [OF ok(1)] in auto)
next
  case latest
  from latest(2) ok(2) show ?thesis
    by (cases rule: dispatchLatest_cases) (use ok route_ok(1) [OF ok(2)] in auto)
next
  case (concurrent c)
  then show ?thesis using ok by (auto simp: dispatchConcurrent_def split: if_splits)
qed (use ok in simp)

lemma run_dispatch_simps:
  assumes "dispatch_request r (lr_lanes s) = (l, out)"
  shows "lr_lanes (run_dispatch r s) = l" "lr_sent (run_dispatch r s) = lr_sent s @ [r]"
    "lr_inputDone (run_dispatch r s) = lr_inputDone s" "lr_latestDone (run_dispatch r s) = lr_latestDone s"
    "lr_answered (run_dispatch r s) = lr_answered s @ (case out of Inline \<Rightarrow> [re_ID r] | Refused _ \<Rightarrow> [re_ID r] | _ \<Rightarrow> [])"
    "lr_ignored (run_dispatch r s) = lr_ignored s @ (if out = Ignored then [re_ID r] else [])"
    "lr_input (run_dispatch r s) = lr_input s @
       (case out of Queued k \<Rightarrow> if ClassifyMethod (re_Method r) = ClassInput then [(k, r)] else [] | _ \<Rightarrow> [])"
    "lr_latest (run_dispatch r s) = lr_latest s @
       (case out of Queued k \<Rightarrow> if ClassifyMethod (re_Method r) = ClassInput then [] else [(k, r)] | _ \<Rightarrow> [])"
  using assms by (simp_all add: run_dispatch_def Let_def split: dispatchOutcome.splits)

lemma dispatch_accounts_run:
  assumes "run_inv s"
  shows "accounts (run_dispatch r s)"
proof -
  obtain l out where d: "dispatch_request r (lr_lanes s) = (l, out)" by fastforce
  note acc = dispatch_accounts [OF d]
  show ?thesis
    using acc assms unfolding accounts_def run_dispatch_simps [OF d] run_inv_def
    by (cases out) auto
qed

lemma route_queue:
  assumes "lanes_ok lanes" "route [] key lanes = (lanes', k)"
  shows "(case map_of lanes' x of Some q \<Rightarrow> q | None \<Rightarrow> []) = (case map_of lanes x of Some q \<Rightarrow> q | None \<Rightarrow> ([] :: 'a list))"
  using route_ok(3) [OF assms]
proof
  assume "k \<notin> fst ` set lanes \<and> lanes' = lanes @ [(k, [])]"
  moreover from this have "map_of lanes k = None" by (simp add: map_of_eq_None_iff)
  ultimately show ?thesis by (cases "map_of lanes x") (auto simp: map_add_def)
qed simp

lemma dispatch_fifo:
  assumes inv: "run_inv s"
  shows "fifo (run_dispatch r s)"
proof -
  obtain l out where d: "dispatch_request r (lr_lanes s) = (l, out)" by fastforce
  note sim = run_dispatch_simps [OF d]
  have ok: "lanes_ok (cl_input (lr_lanes s))" and old: "\<forall>x \<in> set (lr_input s). routed (cl_input (lr_lanes s)) x"
      "\<And>k. of_lane k (lr_input s) = of_lane k (lr_inputDone s) @ queue_of k (lr_lanes s)"
    using inv by (auto simp: run_inv_def fifo_def)
  show ?thesis
  proof (cases "ClassifyMethod (re_Method r) = ClassInput")
    case True
    then have "dispatchInput r (lr_lanes s) = (l, out)" using d by (simp add: dispatch_request_def)
    then show ?thesis using ok
    proof (cases rule: dispatchInput_cases)
      case closed
      then show ?thesis using old by (auto simp: fifo_def sim)
    next
      case (queued lanes k q)
      note mono = routed_mono [OF ok queued(1)]
      have "routed lanes (k, r)" using route_ok(2,4) [OF ok queued(1)] by (simp add: routed_def Let_def)
      then have "\<forall>x \<in> set (lr_input (run_dispatch r s)). routed (cl_input (lr_lanes (run_dispatch r s))) x"
        using old(1) mono queued(2,3,4) True by (auto simp: sim)
      moreover have "queue_of x l = queue_of x (lr_lanes s) @ (if x = k then [r] else [])" for x
        using route_queue [OF ok queued(1), of x] queued(2,3) by (auto simp: queue_of_def AList.update_conv split: option.splits)
      ultimately show ?thesis using old(2) queued(4) True by (auto simp: fifo_def sim)
    next
      case (full lanes k e)
      then show ?thesis using old routed_mono [OF ok full(1)] route_queue [OF ok full(1)]
        by (auto simp: fifo_def sim queue_of_def)
    qed
  next
    case False
    have "cl_input l = cl_input (lr_lanes s)"
      using d
    proof (cases rule: dispatch_cases)
      case latest
      have "lanes_ok (cl_latest (lr_lanes s))" using inv by (simp add: run_inv_def)
      with latest(2) show ?thesis by (cases rule: dispatchLatest_cases) auto
    qed (use False in \<open>auto simp: dispatchConcurrent_def split: if_splits\<close>)
    then show ?thesis using old False by (auto simp: fifo_def sim queue_of_def split: dispatchOutcome.splits)
  qed
qed

lemma of_method_simps [simp]:
  "of_method m [] = []" "of_method m (xs @ ys) = of_method m xs @ of_method m ys"
  "of_method m (r # xs) = (if re_Method r = m then r # of_method m xs else of_method m xs)"
  by (simp_all add: of_method_def)

lemma push_latest_ok:
  assumes ok: "latest_ok pushed handled (k, v)" and push: "lane_push r v = (v', True)"
  shows "latest_ok (pushed @ [(k, r)]) handled (k, v')"
proof -
  obtain e where v': "v' = v\<lparr>lv_pending := AList.update (re_Method r) e (lv_pending v), lv_signals := lv_signals v + 1\<rparr>"
      "pl_request e = r" "length (pl_superseded e) < max 1 (lv_maxDepth v)"
    using push by (auto simp: lane_push_def split: option.splits if_splits)
  have d: "distinct (map fst (lv_pending v))" using ok by (simp add: latest_ok_def)
  have "\<forall>(m, e) \<in> set (AList.update (re_Method r) e (lv_pending v)).
      re_Method (pl_request e) = m \<and> length (pl_superseded e) < max 1 (lv_maxDepth v)"
    using ok v'(2,3) set_update_lanes [OF d, of _ "re_Method r" e] by (fastforce simp: latest_ok_def)
  moreover have "distinct (map fst (AList.update (re_Method r) e (lv_pending v)))" using d by (rule distinct_update)
  ultimately show ?thesis using ok v' by (auto simp: latest_ok_def AList.update_conv)
qed

lemma fresh_latest_ok: "\<forall>x \<in> set pushed. fst x \<noteq> k \<Longrightarrow> latest_ok pushed handled (k, new_latest d)"
proof -
  assume "\<forall>x \<in> set pushed. fst x \<noteq> k"
  then have "of_lane k pushed = []" by (auto simp: of_lane_def filter_empty_conv)
  then show ?thesis by (simp add: latest_ok_def new_latest_def)
qed

lemma latest_ok_cong:
  "of_lane k pushed = of_lane k pushed' \<Longrightarrow> of_lane k handled = of_lane k handled' \<Longrightarrow>
     latest_ok pushed handled (k, v) = latest_ok pushed' handled' (k, v)"
  unfolding latest_ok_def prod.case by (simp only:)

lemma other_latest_ok:
  "k' \<noteq> k \<Longrightarrow> latest_ok (pushed @ [(k, r)]) handled (k', v) = latest_ok pushed handled (k', v)"
  by (rule latest_ok_cong) simp_all

lemma route_newest:
  assumes ok: "lanes_ok lanes" and r: "route (new_latest d) key lanes = (lanes', k)"
    and old: "\<forall>x \<in> set pushed. fst x \<in> fst ` set lanes" "\<forall>x \<in> set lanes. latest_ok pushed handled x"
  shows "(\<forall>x \<in> set pushed. fst x \<in> fst ` set lanes') \<and> (\<forall>x \<in> set lanes'. latest_ok pushed handled x)"
proof (cases "lanes' = lanes")
  case False
  then have new: "k \<notin> fst ` set lanes" "lanes' = lanes @ [(k, new_latest d)]" using route_ok(3) [OF ok r] by auto
  then have "\<forall>x \<in> set pushed. fst x \<noteq> k" using old(1) by metis
  then show ?thesis using old new(2) fresh_latest_ok by auto
qed (use old in simp)

lemma dispatch_newest:
  assumes inv: "run_inv s"
  shows "newest_kept (run_dispatch r s)"
proof -
  obtain l out where d: "dispatch_request r (lr_lanes s) = (l, out)" by fastforce
  note sim = run_dispatch_simps [OF d]
  have ok: "lanes_ok (cl_latest (lr_lanes s))" and old: "\<forall>x \<in> set (lr_latest s). fst x \<in> fst ` set (cl_latest (lr_lanes s))"
      "\<forall>x \<in> set (cl_latest (lr_lanes s)). latest_ok (lr_latest s) (lr_latestDone s) x"
    using inv by (auto simp: run_inv_def newest_kept_def)
  from d show ?thesis
  proof (cases rule: dispatch_cases)
    case latest
    from latest(2) ok show ?thesis
    proof (cases rule: dispatchLatest_cases)
      case (queued lanes k v v')
      note routed = route_newest [OF ok queued(1) old]
      have kv: "(k, v) \<in> set lanes" using queued(2) by (rule map_of_SomeD)
      have dl: "distinct (map fst lanes)" using route_ok(1) [OF ok queued(1)] by (simp add: lanes_ok_def)
      have "latest_ok (lr_latest s @ [(k, r)]) (lr_latestDone s) x" if "x \<in> set (AList.update k v' lanes)" for x
        using set_update_lanes [OF dl that]
      proof
        assume "x = (k, v')"
        then show ?thesis using push_latest_ok [OF _ queued(3)] routed kv by blast
      next
        assume "x \<in> set lanes \<and> fst x \<noteq> k"
        then show ?thesis using routed other_latest_ok [of "fst x" k _ r _ "snd x"] by (metis prod.collapse)
      qed
      moreover have "\<forall>x \<in> set (lr_latest s @ [(k, r)]). fst x \<in> fst ` set (AList.update k v' lanes)"
        unfolding keys_update [OF queued(2)] using routed kv by (auto intro: rev_image_eqI)
      ultimately show ?thesis using queued(4,5) latest(1) by (simp add: newest_kept_def sim)
    next
      case (full lanes k e)
      then show ?thesis using route_newest [OF ok full(1) old] latest(1) by (simp add: newest_kept_def sim)
    qed (use old in \<open>simp add: newest_kept_def sim\<close>)
  next
    case input
    have "lanes_ok (cl_input (lr_lanes s))" using inv by (simp add: run_inv_def)
    with input(2) have "cl_latest l = cl_latest (lr_lanes s)" by (cases rule: dispatchInput_cases) auto
    then show ?thesis using old input(1) by (simp add: newest_kept_def sim split: dispatchOutcome.splits)
  next
    case (concurrent c)
    then have "cl_latest l = cl_latest (lr_lanes s)" "\<And>k. out \<noteq> Queued k"
      by (auto simp: dispatchConcurrent_def split: if_splits)
    then show ?thesis using old by (simp add: newest_kept_def sim split: dispatchOutcome.splits)
  qed (use old in \<open>simp add: newest_kept_def sim\<close>)
qed

lemma dispatch_inv: "run_inv s \<Longrightarrow> run_inv (run_dispatch r s)"
proof -
  assume inv: "run_inv s"
  obtain l out where d: "dispatch_request r (lr_lanes s) = (l, out)" by fastforce
  have "lanes_ok (cl_input l) \<and> lanes_ok (cl_latest l)"
    using dispatch_shape [OF d] inv by (simp add: run_inv_def)
  then show ?thesis
    unfolding run_inv_def [of "run_dispatch r s"] run_dispatch_simps(1) [OF d]
    using dispatch_accounts_run [OF inv] dispatch_fifo [OF inv] dispatch_newest [OF inv] by blast
qed

section \<open>The workers keep the invariant\<close>

text \<open>A worker of a latest-value lane replaces the lane by one with the given remaining entries.\<close>

lemma latest_step_inv:
  assumes inv: "run_inv s" and lane: "map_of (cl_latest (lr_lanes s)) k = Some v"
    and ids: "mset (lane_ids v) = mset (lane_ids w) + mset answered"
    and ok: "\<And>handled. latest_ok (lr_latest s) handled (k, v) \<Longrightarrow> latest_ok (lr_latest s) (handled @ done_now) (k, w)"
    and own: "\<forall>x \<in> set done_now. fst x = k"
    and s': "s' = s\<lparr>lr_lanes := set_latest k w (lr_lanes s), lr_answered := lr_answered s @ answered,
      lr_latestDone := lr_latestDone s @ done_now\<rparr>"
  shows "run_inv s'"
proof -
  let ?lanes = "cl_latest (lr_lanes s)"
  have d: "distinct (map fst ?lanes)" using inv by (simp add: run_inv_def lanes_ok_def)
  have "content lane_ids (AList.update k w ?lanes) + mset answered + mset (lane_ids w)
      = content lane_ids ?lanes + mset (lane_ids w)"
    using content_update [OF lane, of lane_ids w] ids by (simp add: algebra_simps)
  then have cont: "content lane_ids ?lanes = content lane_ids (AList.update k w ?lanes) + mset answered" by simp
  have "accounts s'" using inv cont by (auto simp: run_inv_def accounts_def s' outstanding_def set_latest_def)
  moreover have "fifo s'" using inv by (simp add: run_inv_def fifo_def s' set_latest_def queue_of_def)
  moreover have "newest_kept s'"
  proof -
    have keep: "\<forall>x \<in> set (lr_latest s). fst x \<in> fst ` set ?lanes" "\<forall>x \<in> set ?lanes. latest_ok (lr_latest s) (lr_latestDone s) x"
      using inv by (auto simp: run_inv_def newest_kept_def)
    have other: "of_lane k' (lr_latestDone s @ done_now) = of_lane k' (lr_latestDone s)" if "k' \<noteq> k" for k'
      using own that by (auto simp: of_lane_def filter_empty_conv)
    have "latest_ok (lr_latest s) (lr_latestDone s @ done_now) x" if "x \<in> set (AList.update k w ?lanes)" for x
      using set_update_lanes [OF d that]
    proof
      assume "x = (k, w)"
      then show ?thesis using ok keep(2) map_of_SomeD [OF lane] by blast
    next
      assume x: "x \<in> set ?lanes \<and> fst x \<noteq> k"
      then have "latest_ok (lr_latest s) (lr_latestDone s) x" using keep(2) by blast
      then show ?thesis
        using latest_ok_cong [OF refl other [of "fst x"], of "lr_latest s" "snd x"] x by simp
    qed
    then show ?thesis using keep(1) keys_update [OF lane, of w] by (simp add: newest_kept_def s' set_latest_def)
  qed
  ultimately show ?thesis using inv lane by (simp add: run_inv_def s' set_latest_def)
qed

lemma take_latest_ok:
  assumes "latest_ok pushed handled (k, v)" "lane_take m v = (w, Some e)" "lv_draining v"
  shows "latest_ok pushed (handled @ [(k, pl_request e)]) (k, w)" "mset (lane_ids v) = mset (lane_ids w) + mset (entry_ids e)"
proof -
  have d: "distinct (map fst (lv_pending v))" and e: "map_of (lv_pending v) m = Some e"
      and w: "w = v\<lparr>lv_pending := AList.delete m (lv_pending v)\<rparr>"
    using assms by (auto simp: latest_ok_def lane_take_def)
  have m: "re_Method (pl_request e) = m" using assms(1) map_of_SomeD [OF e] by (auto simp: latest_ok_def)
  have "set (AList.delete m (lv_pending v)) \<subseteq> set (lv_pending v)" by (auto simp: AList.delete_eq)
  moreover have "map_of (AList.delete m (lv_pending v)) x = (if x = m then None else map_of (lv_pending v) x)" for x
    by (simp add: AList.delete_conv)
  ultimately show "latest_ok pushed (handled @ [(k, pl_request e)]) (k, w)"
    using assms(1,3) d e m by (auto simp: latest_ok_def w distinct_delete split: option.splits)
  show "mset (lane_ids v) = mset (lane_ids w) + mset (entry_ids e)"
    using content_delete [OF d e, of entry_ids] by (simp add: lane_ids_def w content_def)
qed

lemma flags_latest_ok:
  "latest_ok pushed handled (k, v) \<Longrightarrow> latest_ok pushed handled (k, lane_signal v)"
  "latest_ok pushed handled (k, v) \<Longrightarrow> latest_ok pushed handled (k, v\<lparr>lv_wake := False, lv_draining := True\<rparr>)"
  "latest_ok pushed handled (k, v) \<Longrightarrow> lv_pending v = [] \<Longrightarrow> latest_ok pushed handled (k, v\<lparr>lv_draining := False\<rparr>)"
  by (simp_all add: latest_ok_def lane_signal_def)

lemma flags_ids [simp]:
  "lane_ids (lane_signal v) = lane_ids v" "lane_ids (v\<lparr>lv_wake := x\<rparr>) = lane_ids v"
  "lane_ids (v\<lparr>lv_draining := y\<rparr>) = lane_ids v"
  by (simp_all add: lane_ids_def lane_signal_def)

lemma run_step_inv: "run_step s t \<Longrightarrow> run_inv s \<Longrightarrow> run_inv t"
proof (induction rule: run_step.induct)
  case (dispatch s r)
  then show ?case by (rule dispatch_inv)
next
  case (input s k r queue)
  let ?lanes = "cl_input (lr_lanes s)"
  have "content (map re_ID) (AList.update k queue ?lanes) + {#re_ID r#} + mset (map re_ID queue)
      = content (map re_ID) ?lanes + mset (map re_ID queue)"
    using content_update [OF input(1), of "map re_ID" queue] by (simp add: algebra_simps)
  then have cont: "content (map re_ID) ?lanes = content (map re_ID) (AList.update k queue ?lanes) + {#re_ID r#}" by simp
  have "queue_of x (lr_lanes s) = (if x = k then [r] else [])
      @ queue_of x ((lr_lanes s)\<lparr>cl_input := AList.update k queue ?lanes\<rparr>)" for x
    using input(1) by (simp add: queue_of_def AList.update_conv)
  then show ?case
    using input cont by (auto simp: run_inv_def accounts_def outstanding_def fifo_def newest_kept_def)
next
  case (query s xs r ys)
  then show ?case by (auto simp: run_inv_def accounts_def outstanding_def fifo_def newest_kept_def queue_of_def)
next
  case (control s xs r ys)
  then show ?case by (auto simp: run_inv_def accounts_def outstanding_def fifo_def newest_kept_def queue_of_def)
next
  case (signal s k lane)
  show ?case by (rule latest_step_inv [OF signal(3,1), of _ "[]" "[]"]) (auto intro: flags_latest_ok)
next
  case (wake s k lane)
  show ?case by (rule latest_step_inv [OF wake(4,1), of _ "[]" "[]"]) (auto intro: flags_latest_ok)
next
  case (take s k lane m lane' e)
  have "latest_ok (lr_latest s) (lr_latestDone s) (k, lane)"
    using take(1,4) map_of_SomeD [OF take(1)] by (auto simp: run_inv_def newest_kept_def)
  note ok = take_latest_ok(1) [OF _ take(3,2)] and ids = take_latest_ok(2) [OF this take(3,2)]
  show ?case by (rule latest_step_inv [OF take(4,1) ids ok _ refl]) simp_all
next
  case (idle s k lane)
  show ?case by (rule latest_step_inv [OF idle(4,1), of _ "[]" "[]"]) (use idle(3) in \<open>auto intro: flags_latest_ok\<close>)
next
  case (close s)
  then show ?case
    by (auto simp: run_inv_def accounts_def outstanding_def fifo_def newest_kept_def queue_of_def close_lanes_def)
qed

interpretation lanes: invariant_system run_init run_step run_inv
proof
  show "run_inv s" if "run_init s" for s
    using that by (auto simp: run_init_def run_inv_def accounts_def outstanding_def fifo_def newest_kept_def
        queue_of_def newConnectionLanes_def lanes_ok_def)
  show "run_inv t" if "run_step s t" "run_inv s" for s t using that by (rule run_step_inv)
qed

text \<open>
  Property C9: Every request is answered exactly once. In every interleaving of one connection's
  reader with its lane workers and handlers, the identifiers of the requests read so far are
  those answered (superseded values with the value that won, refused requests at once), those
  that still wait in a lane or in a running handler, and, only once the connection is closed,
  those that were ignored. No identifier is answered twice and none is lost.
\<close>

theorem requests_answered_once:
  assumes "reachable run_init run_step s"
  shows "mset (map re_ID (lr_sent s)) = mset (lr_answered s) + mset (lr_ignored s) + outstanding (lr_lanes s)
    \<and> (lr_ignored s \<noteq> [] \<longrightarrow> cl_closed (lr_lanes s))"
  using lanes.reachable_inv [OF assms] by (simp add: run_inv_def accounts_def)

definition sample_run :: laneRun where
  "sample_run = \<lparr>lr_lanes = newConnectionLanes 64 16, lr_sent = [], lr_answered = [], lr_ignored = [], lr_input = [],
     lr_inputDone = [], lr_latest = [], lr_latestDone = []\<rparr>"

definition sample_resize :: "u64 \<Rightarrow> Request" where
  "sample_resize i = \<lparr>re_ID = i, re_Method = ''terminal.resize'', re_Params = TargetParams ''t1''\<rparr>"

definition sample_text :: "u64 \<Rightarrow> Request" where
  "sample_text i = \<lparr>re_ID = i, re_Method = ''terminal.send_text'', re_Params = TargetParams ''t1''\<rparr>"

lemma sample_run_reachable:
  "reachable run_init run_step (run_dispatch a (run_dispatch b sample_run))"
proof -
  have "reachable run_init run_step sample_run" by (rule reach_init) (auto simp: run_init_def sample_run_def)
  then have "reachable run_init run_step (run_dispatch b sample_run)" using run_step.dispatch by (rule reach_step)
  then show ?thesis using run_step.dispatch by (rule reach_step)
qed

theorem requests_answered_once_witness:
  "{#2, 1#} = mset (lr_answered (run_dispatch (sample_resize 2) (run_dispatch (sample_resize 1) sample_run)))
     + mset (lr_ignored (run_dispatch (sample_resize 2) (run_dispatch (sample_resize 1) sample_run)))
     + outstanding (lr_lanes (run_dispatch (sample_resize 2) (run_dispatch (sample_resize 1) sample_run)))"
proof -
  have "map re_ID (lr_sent (run_dispatch (sample_resize 2) (run_dispatch (sample_resize 1) sample_run))) = [1, 2]"
    by code_simp
  with requests_answered_once [OF sample_run_reachable, of "sample_resize 2" "sample_resize 1"]
  show ?thesis by (simp add: add_mset_commute)
qed

text \<open>
  The input of a terminal is handled in the order in which it was read. The requests
  of the input class that name one terminal and were accepted are handled in the order of their
  acceptance, each once, even when more than 64 terminals share a connection: a terminal never
  changes its lane. There are at most 65 lanes of a class.
\<close>

theorem input_in_order:
  assumes "reachable run_init run_step s"
  shows "(\<exists>waiting. filter (\<lambda>r. requestTerminalKey (re_Params r) = t) (map snd (lr_input s))
        = filter (\<lambda>r. requestTerminalKey (re_Params r) = t) (map snd (lr_inputDone s)) @ waiting)
    \<and> length (cl_input (lr_lanes s)) \<le> 65 \<and> length (cl_latest (lr_lanes s)) \<le> 65"
proof -
  have inv: "run_inv s" by (rule lanes.reachable_inv [OF assms])
  define k where "k = (if t \<in> fst ` set (cl_input (lr_lanes s)) then t else [])"
  let ?t = "\<lambda>r. requestTerminalKey (re_Params r) = t"
  have lane: "of_lane k' (lr_input s) = of_lane k' (lr_inputDone s) @ queue_of k' (lr_lanes s)" for k'
    using inv by (simp add: run_inv_def fifo_def)
  have acc: "fst x = k" if "x \<in> set (lr_input s)" "?t (snd x)" for x
  proof -
    have "routed (cl_input (lr_lanes s)) (fst x, snd x)" using inv that(1) by (simp add: run_inv_def fifo_def)
    then show ?thesis using that(2) unfolding routed_def k_def Let_def prod.case by (metis (full_types))
  qed
  have done_now: "fst x = k" if x: "x \<in> set (lr_inputDone s)" "?t (snd x)" for x
  proof -
    have "snd x \<in> set (of_lane (fst x) (lr_input s))"
      unfolding lane using x(1) by (auto simp: of_lane_def)
    then have "(fst x, snd x) \<in> set (lr_input s)" by (auto simp: of_lane_def)
    then show ?thesis using acc x(2) by force
  qed
  have split: "filter ?t (map snd log) = filter ?t (of_lane k log)" if "\<forall>x \<in> set log. ?t (snd x) \<longrightarrow> fst x = k" for log
    using that by (induction log) auto
  have "filter ?t (map snd (lr_input s)) = filter ?t (map snd (lr_inputDone s)) @ filter ?t (queue_of k (lr_lanes s))"
    using split [of "lr_input s"] split [of "lr_inputDone s"] acc done_now lane [of k] by simp
  then show ?thesis using inv by (auto simp: run_inv_def lanes_ok_def)
qed

theorem input_in_order_witness:
  "\<exists>waiting. [sample_text 1, sample_text 2]
     = filter (\<lambda>r. requestTerminalKey (re_Params r) = ''t1'')
         (map snd (lr_inputDone (run_dispatch (sample_text 2) (run_dispatch (sample_text 1) sample_run)))) @ waiting"
proof -
  have "filter (\<lambda>r. requestTerminalKey (re_Params r) = ''t1'')
      (map snd (lr_input (run_dispatch (sample_text 2) (run_dispatch (sample_text 1) sample_run))))
      = [sample_text 1, sample_text 2]"
    by code_simp
  with input_in_order [OF sample_run_reachable, of "''t1''" "sample_text 2" "sample_text 1"] show ?thesis by metis
qed



end
