(* ===== verification/AtomicFile.thy ===== *)
theory AtomicFile
  imports AppErrors
begin

text \<open>
  The durable write, \<^verbatim>\<open>internal/atomicfile/atomicfile.go\<close>: a temporary file is written, synced and
  renamed over the destination, then the directory is synced. The answers of the file system are a
  record of the errors of each call. The result says whether the destination holds the new data,
  which is so exactly when the rename took place, and the error that is returned: the write can fail
  after it has replaced the file.
\<close>

datatype fileError = EINVAL | ENOTSUP | EBADF | OtherErrno string

definition file_error_text :: "fileError \<Rightarrow> string" where
  "file_error_text e = (case e of EINVAL \<Rightarrow> ''invalid argument'' | ENOTSUP \<Rightarrow> ''operation not supported''
     | EBADF \<Rightarrow> ''bad file descriptor'' | OtherErrno s \<Rightarrow> s)"

record fileAnswers =
  fa_mkdir :: "fileError option"
  fa_create :: "fileError option"
  fa_write :: "fileError option"
  fa_chmod :: "fileError option"
  fa_sync :: "fileError option"
  fa_close :: "fileError option"
  fa_rename :: "fileError option"
  fa_opendir :: "fileError option"
  fa_syncdir :: "fileError option"

definition tolerableDirSyncError :: "fileError \<Rightarrow> bool" where
  "tolerableDirSyncError e \<longleftrightarrow> e = EINVAL \<or> e = ENOTSUP \<or> e = EBADF"

definition fsyncDir :: "fileAnswers \<Rightarrow> fileError option" where
  "fsyncDir a =
     (case fa_opendir a of
        Some e \<Rightarrow> if tolerableDirSyncError e then None else Some e
      | None \<Rightarrow>
          (case fa_syncdir a of
             Some e \<Rightarrow> if tolerableDirSyncError e then None else Some e
           | None \<Rightarrow> None))"

text \<open>The calls before the rename, in order: the first error ends the write.\<close>

definition before_rename :: "fileAnswers \<Rightarrow> fileError option list" where
  "before_rename a = [fa_mkdir a, fa_create a, fa_write a, fa_chmod a, fa_sync a, fa_close a, fa_rename a]"

definition WriteFile :: "fileAnswers \<Rightarrow> bool \<times> fileError option" where
  "WriteFile a =
     (case find (\<lambda>e. e \<noteq> None) (before_rename a) of
        Some e \<Rightarrow> (False, e)
      | None \<Rightarrow> (True, fsyncDir a))"

text \<open>A write that returns an error although it has replaced the file.\<close>

definition late_failure :: "fileAnswers \<Rightarrow> bool" where
  "late_failure a \<longleftrightarrow> fst (WriteFile a) \<and> snd (WriteFile a) \<noteq> None"

definition no_errors :: fileAnswers where
  "no_errors = \<lparr>fa_mkdir = None, fa_create = None, fa_write = None, fa_chmod = None, fa_sync = None,
     fa_close = None, fa_rename = None, fa_opendir = None, fa_syncdir = None\<rparr>"

definition sync_error :: fileAnswers where
  "sync_error = no_errors\<lparr>fa_syncdir := Some (OtherErrno ''input/output error'')\<rparr>"

lemma WriteFile_cases:
  obtains (kept) e where "WriteFile a = (False, Some e)" "\<not> late_failure a"
    | (replaced) "WriteFile a = (True, None)" "\<not> late_failure a"
    | (late) e where "WriteFile a = (True, Some e)" "late_failure a"
proof (cases "find (\<lambda>e. e \<noteq> None) (before_rename a)")
  case None
  then have "WriteFile a = (True, fsyncDir a)" by (simp add: WriteFile_def)
  then show thesis using replaced late by (cases "fsyncDir a") (simp_all add: late_failure_def)
next
  case (Some x)
  then have "x \<noteq> None" by (auto simp: find_Some_iff)
  then obtain e where "x = Some e" by blast
  then have "WriteFile a = (False, Some e)" using Some by (simp add: WriteFile_def)
  then show thesis using kept by (simp add: late_failure_def)
qed

lemma WriteFile_samples:
  "WriteFile no_errors = (True, None)" "WriteFile sync_error = (True, Some (OtherErrno ''input/output error''))"
  "\<not> late_failure no_errors" "late_failure sync_error"
  by (simp_all add: WriteFile_def before_rename_def no_errors_def sync_error_def fsyncDir_def late_failure_def
      tolerableDirSyncError_def)

end
