(* ===== verification/Forwarding.thy ===== *)
theory Forwarding
  imports MetricsHistory NodeTypes "HOL-Library.AList" "HOL-Library.Product_Lexorder"
begin

text \<open>
  The route table of the port forwarder, \<^verbatim>\<open>dynamic_forwarding.go\<close>: the peer lifecycle of a node
  (\<^verbatim>\<open>forwardingNodeState\<close>), the routes that scans of a guest discover, the memory of removed
  routes, the host listeners with the node each generic host name goes to, and the decision that
  \<^verbatim>\<open>ServeHTTP\<close> takes for a request. The theory proves that the choice of a generic route is the
  least claim in the order of discovery, whatever the order in which a map is traversed.

  A Go map is an association list with one entry per key; a loop over a map is a fold over its
  entries in the order of the list, which stands for an arbitrary order. A peer is a number; its
  keepalive monitor, the HTTP transport of a route, log lines and the process names of a port are
  left out. The configurable durations have the values \<^verbatim>\<open>newDynamicForwarder\<close> gives them.
\<close>

section \<open>Data\<close>

definition forwardingRouteGrace :: duration where "forwardingRouteGrace = 15 * second"
definition forwardingStopGrace :: duration where "forwardingStopGrace = 15 * second"
definition forwardingBackoffInitial :: duration where "forwardingBackoffInitial = second"
definition forwardingBackoffMaximum :: duration where "forwardingBackoffMaximum = 30 * second"
definition forwardingWarnInterval :: duration where "forwardingWarnInterval = 30 * second"
definition forwardingClaimMemory :: duration where "forwardingClaimMemory = 120 * second"
definition codexLoginCallbackPort :: int where "codexLoginCallbackPort = 1455"

record dynamicRouteKey =
  rk_node :: string
  rk_port :: int

record routeDiscoveryMemory =
  rm_nodeID :: string
  rm_discoveredAt :: gotime
  rm_removedAt :: gotime

record dynamicForwardingRoute =
  ro_key :: dynamicRouteKey
  ro_nodeID :: string
  ro_peer :: "nat option"
  ro_discoveredAt :: gotime
  ro_seenAt :: gotime
  ro_lapsedAt :: gotime
  ro_lapsed :: bool

record dynamicPortServer =
  ps_port :: int
  ps_listening :: bool
  ps_defaultNode :: string
  ps_status :: string
  ps_lastErr :: string

record forwardingNodeState =
  fs_node :: Node
  fs_peer :: "nat option"
  fs_lastHealthyAt :: gotime
  fs_failures :: nat
  fs_firstFailureAt :: gotime
  fs_notRunningSince :: gotime
  fs_routesLapsed :: bool
  fs_backoff :: duration
  fs_backoffUntil :: gotime
  fs_lastWarnAt :: gotime
  fs_lastErr :: string

text \<open>The content of the policy file, \<^verbatim>\<open>forwarding_policy.go\<close>.\<close>

record routingClaim =
  rc_NodeID :: string
  rc_Node :: string
  rc_Port :: int
  rc_DiscoveredAt :: gotime
  rc_RemovedAt :: gotime

record routingPin =
  rp_Port :: int
  rp_NodeID :: string

record routingPolicy =
  po_Version :: int
  po_Claims :: "routingClaim list"
  po_Pins :: "routingPin list"

record dynamicForwarder =
  df_policyClosed :: bool
  df_policyHandoff :: bool
  df_policyPath :: string
  df_policyErr :: "string option"
  df_policyWriteErr :: string
  df_policySaved :: "routingPolicy option"
  df_pins :: "(int \<times> string) list"
  df_restored :: "(dynamicRouteKey \<times> routeDiscoveryMemory) list"
  df_inventory :: "(string \<times> Node) list"
  df_nodes :: "(string \<times> forwardingNodeState) list"
  df_routes :: "(dynamicRouteKey \<times> dynamicForwardingRoute) list"
  df_discovered :: "(dynamicRouteKey \<times> routeDiscoveryMemory) list"
  df_known :: "string list"
  df_servers :: "(int \<times> dynamicPortServer) list"
  df_tcpServers :: "int list"
  df_metrics :: metricsForwarder
  df_lastErr :: string
  df_lastErrAt :: gotime
  df_inventoryErr :: string
  df_inventoryErrSince :: gotime
  df_inventoryWarnAt :: gotime

definition newDynamicForwarder :: "string \<Rightarrow> string \<Rightarrow> dynamicForwarder" where
  "newDynamicForwarder policyPath epoch =
     \<lparr>df_policyClosed = False, df_policyHandoff = False, df_policyPath = policyPath, df_policyErr = None,
      df_policyWriteErr = [], df_policySaved = None, df_pins = [], df_restored = [], df_inventory = [],
      df_nodes = [], df_routes = [], df_discovered = [], df_known = [], df_servers = [], df_tcpServers = [],
      df_metrics = \<lparr>mf_cpu = Map.empty, mf_resources = Map.empty, mf_counters = Map.empty,
        mf_coreCounters = Map.empty, mf_usageDetails = Map.empty, mf_metricsHistory = Map.empty,
        mf_metricsEpoch = epoch\<rparr>,
      df_lastErr = [], df_lastErrAt = 0, df_inventoryErr = [], df_inventoryErrSince = 0,
      df_inventoryWarnAt = 0\<rparr>"

section \<open>The state of a node\<close>

definition new_node_state :: "Node \<Rightarrow> forwardingNodeState" where
  "new_node_state node =
     \<lparr>fs_node = node, fs_peer = None, fs_lastHealthyAt = 0, fs_failures = 0, fs_firstFailureAt = 0,
      fs_notRunningSince = 0, fs_routesLapsed = False, fs_backoff = 0, fs_backoffUntil = 0,
      fs_lastWarnAt = 0, fs_lastErr = []\<rparr>"

definition confirmedStopped :: "gotime \<Rightarrow> duration \<Rightarrow> forwardingNodeState \<Rightarrow> bool" where
  "confirmedStopped now grace s =
     (if is_zero_time (fs_notRunningSince s) \<or> now - fs_notRunningSince s < grace then False
      else fs_peer s = None \<or> fs_routesLapsed s)"

definition noteHealthy :: "gotime \<Rightarrow> forwardingNodeState \<Rightarrow> forwardingNodeState" where
  "noteHealthy now s =
     s\<lparr>fs_lastHealthyAt := now, fs_failures := 0, fs_firstFailureAt := 0, fs_routesLapsed := False,
       fs_backoff := 0, fs_backoffUntil := 0, fs_lastWarnAt := 0, fs_lastErr := []\<rparr>"

definition health :: "forwardingNodeState \<Rightarrow> string" where
  "health s =
     (if fs_routesLapsed s then ''lapsed''
      else if fs_failures s > 0 then ''suspect''
      else if fs_peer s = None then ''connecting''
      else ''healthy'')"

definition applicationRoutesReady :: "Node \<Rightarrow> bool" where
  "applicationRoutesReady node \<longleftrightarrow>
     n_BootstrapCompleted node \<and> (n_Status node = NodeStatusRunning \<or> n_Status node = NodeStatusStopped)"

definition nextForwardingBackoff :: "duration \<Rightarrow> duration" where
  "nextForwardingBackoff current =
     (if current \<le> 0 then forwardingBackoffInitial else min (current * 2) forwardingBackoffMaximum)"

section \<open>Routes\<close>

definition route_key :: "Node \<Rightarrow> int \<Rightarrow> dynamicRouteKey" where
  "route_key node port = \<lparr>rk_node = ToLower (n_SandboxName node), rk_port = port\<rparr>"

definition newDynamicForwardingRoute :: "Node \<Rightarrow> int \<Rightarrow> nat option \<Rightarrow> gotime \<Rightarrow> dynamicForwardingRoute" where
  "newDynamicForwardingRoute node port peer discoveredAt =
     \<lparr>ro_key = route_key node port, ro_nodeID = n_ID node, ro_peer = peer, ro_discoveredAt = discoveredAt,
      ro_seenAt = discoveredAt, ro_lapsedAt = 0, ro_lapsed = False\<rparr>"

definition setPeer :: "nat option \<Rightarrow> dynamicForwardingRoute \<Rightarrow> dynamicForwardingRoute" where
  "setPeer peer route = (if peer = None then route else route\<lparr>ro_peer := peer\<rparr>)"

text \<open>The value of \<^verbatim>\<open>f.pins[port]\<close>, the empty string when there is none.\<close>

definition pin_at :: "int \<Rightarrow> dynamicForwarder \<Rightarrow> string" where
  "pin_at port f = (case map_of (df_pins f) port of Some i \<Rightarrow> i | None \<Rightarrow> [])"

text \<open>\<^verbatim>\<open>if f.pins[port] == id { delete(f.pins, port) }\<close>\<close>

definition unpin :: "int \<Rightarrow> string \<Rightarrow> dynamicForwarder \<Rightarrow> dynamicForwarder" where
  "unpin port i f = (if pin_at port f = i then f\<lparr>df_pins := AList.delete port (df_pins f)\<rparr> else f)"

definition removeRouteLocked ::
  "gotime \<Rightarrow> dynamicRouteKey \<times> dynamicForwardingRoute \<Rightarrow> dynamicForwarder \<Rightarrow> dynamicForwarder" where
  "removeRouteLocked now = (\<lambda>(key, route) f.
     let f = f\<lparr>df_discovered := AList.update key
               \<lparr>rm_nodeID = ro_nodeID route, rm_discoveredAt = ro_discoveredAt route, rm_removedAt = now\<rparr>
               (df_discovered f)\<rparr>;
         f = unpin (rk_port key) (ro_nodeID route) f
     in f\<lparr>df_routes := AList.delete key (df_routes f)\<rparr>)"

definition removeNodeRoutesLocked :: "string \<Rightarrow> gotime \<Rightarrow> dynamicForwarder \<Rightarrow> dynamicForwarder" where
  "removeNodeRoutesLocked nodeID now f =
     (let f = f\<lparr>df_pins := filter (\<lambda>(port, i). i \<noteq> nodeID) (df_pins f),
               df_restored := filter (\<lambda>(key, claim). rm_nodeID claim \<noteq> nodeID) (df_restored f)\<rparr>
      in fold (removeRouteLocked now) (filter (\<lambda>(key, route). ro_nodeID route = nodeID) (df_routes f)) f)"

definition lapseNodeRoutesLocked :: "string \<Rightarrow> gotime \<Rightarrow> dynamicForwarder \<Rightarrow> dynamicForwarder" where
  "lapseNodeRoutesLocked nodeID now f =
     f\<lparr>df_routes := map (\<lambda>(key, route).
         (key, if ro_nodeID route \<noteq> nodeID \<or> ro_lapsed route then route
               else route\<lparr>ro_lapsed := True, ro_lapsedAt := now\<rparr>)) (df_routes f)\<rparr>"

definition discoveryTimeLocked ::
  "string \<Rightarrow> dynamicRouteKey \<Rightarrow> gotime \<Rightarrow> dynamicForwarder \<Rightarrow> dynamicForwarder \<times> gotime" where
  "discoveryTimeLocked nodeID key now f =
     (let saved = map_of (df_restored f) key;
          f = (if saved = None then f else f\<lparr>df_restored := AList.delete key (df_restored f)\<rparr>);
          time = (if rk_port key = codexLoginCallbackPort then now
                  else case map_of (df_discovered f) key of
                         None \<Rightarrow> now
                       | Some memory \<Rightarrow>
                           if rm_nodeID memory \<noteq> nodeID \<or> is_zero_time (rm_removedAt memory)
                              \<or> now - rm_removedAt memory > forwardingClaimMemory
                           then now else rm_discoveredAt memory)
      in (f, case saved of
               Some s \<Rightarrow> if rm_nodeID s = nodeID then rm_discoveredAt s else time
             | None \<Rightarrow> time))"

definition pruneDiscoveryMemoryLocked :: "gotime \<Rightarrow> dynamicForwarder \<Rightarrow> dynamicForwarder" where
  "pruneDiscoveryMemoryLocked now f =
     f\<lparr>df_discovered := filter (\<lambda>(key, memory).
         \<not> (\<not> is_zero_time (rm_removedAt memory) \<and> now - rm_removedAt memory > forwardingClaimMemory))
         (df_discovered f)\<rparr>"

section \<open>A successful scan\<close>

definition scan_port ::
  "Node \<Rightarrow> nat option \<Rightarrow> gotime \<Rightarrow> int \<Rightarrow> dynamicForwarder \<Rightarrow> dynamicForwarder" where
  "scan_port node peer now port f =
     (let key = route_key node port
      in case map_of (df_routes f) key of
           Some route \<Rightarrow>
             f\<lparr>df_routes := AList.update key
                 (setPeer peer (route\<lparr>ro_seenAt := now, ro_lapsed := False,
                    ro_lapsedAt := (if ro_lapsed route then 0 else ro_lapsedAt route)\<rparr>)) (df_routes f)\<rparr>
         | None \<Rightarrow>
             (case discoveryTimeLocked (n_ID node) key now f of
                (f, time) \<Rightarrow>
                  f\<lparr>df_routes := AList.update key
                      ((newDynamicForwardingRoute node port peer time)\<lparr>ro_seenAt := now\<rparr>) (df_routes f)\<rparr>))"

definition drop_restored :: "dynamicRouteKey \<times> routeDiscoveryMemory \<Rightarrow> dynamicForwarder \<Rightarrow> dynamicForwarder" where
  "drop_restored = (\<lambda>(key, claim) f.
     unpin (rk_port key) (rm_nodeID claim) (f\<lparr>df_restored := AList.delete key (df_restored f)\<rparr>))"

definition applyScanResult ::
  "Node \<Rightarrow> nat option \<Rightarrow> int list \<Rightarrow> gotime \<Rightarrow> dynamicForwarder \<Rightarrow> dynamicForwarder" where
  "applyScanResult node peer ports now f =
     (if df_policyHandoff f then f
      else
        let (f, node) =
              (case map_of (df_nodes f) (n_ID node) of
                 Some state \<Rightarrow> (f\<lparr>df_nodes := AList.update (n_ID node) (noteHealthy now state) (df_nodes f)\<rparr>,
                                fs_node state)
               | None \<Rightarrow> (f, node));
            ports = (if applicationRoutesReady node then ports else []);
            wanted = map (route_key node) ports;
            f = fold (scan_port node peer now) ports f;
            f = fold (removeRouteLocked now)
                  (filter (\<lambda>(key, route). ro_nodeID route = n_ID node \<and> key \<notin> set wanted) (df_routes f)) f
        in fold drop_restored
             (filter (\<lambda>(key, claim). rm_nodeID claim = n_ID node \<and> key \<notin> set wanted) (df_restored f)) f)"

section \<open>Peers and failures\<close>

definition adoptPeer :: "Node \<Rightarrow> nat \<Rightarrow> dynamicForwarder \<Rightarrow> dynamicForwarder" where
  "adoptPeer node peer f =
     (case map_of (df_nodes f) (n_ID node) of
        None \<Rightarrow> f
      | Some state \<Rightarrow>
          f\<lparr>df_nodes := AList.update (n_ID node) (state\<lparr>fs_peer := Some peer\<rparr>) (df_nodes f),
            df_routes := map (\<lambda>(key, route).
              (key, if ro_nodeID route = n_ID node then setPeer (Some peer) route else route)) (df_routes f)\<rparr>)"

definition retirePeer :: "Node \<Rightarrow> dynamicForwarder \<Rightarrow> dynamicForwarder" where
  "retirePeer node f =
     (case map_of (df_nodes f) (n_ID node) of
        None \<Rightarrow> f
      | Some state \<Rightarrow> f\<lparr>df_nodes := AList.update (n_ID node) (state\<lparr>fs_peer := None\<rparr>) (df_nodes f)\<rparr>)"

text \<open>One connect or scan failure as it changes the state of the node; the flag says that its routes lapse.\<close>

definition note_failure :: "gotime \<Rightarrow> string \<Rightarrow> forwardingNodeState \<Rightarrow> forwardingNodeState \<times> bool" where
  "note_failure now err s =
     (let first = (if is_zero_time (fs_firstFailureAt s) then now else fs_firstFailureAt s);
          backoff = nextForwardingBackoff (fs_backoff s);
          s = s\<lparr>fs_failures := fs_failures s + 1, fs_firstFailureAt := first, fs_lastErr := err,
                fs_backoff := backoff, fs_backoffUntil := now + backoff\<rparr>;
          lapse = (\<not> fs_routesLapsed s \<and> fs_failures s \<ge> 2 \<and> now - first \<ge> forwardingRouteGrace);
          s = (if lapse then s\<lparr>fs_routesLapsed := True, fs_peer := None\<rparr> else s);
          warn = (is_zero_time (fs_lastWarnAt s) \<or> now - fs_lastWarnAt s \<ge> forwardingWarnInterval)
      in (if warn then s\<lparr>fs_lastWarnAt := now\<rparr> else s, lapse))"

definition recordNodeFailure :: "Node \<Rightarrow> string \<Rightarrow> gotime \<Rightarrow> dynamicForwarder \<Rightarrow> dynamicForwarder" where
  "recordNodeFailure node err now f =
     (case map_of (df_nodes f) (n_ID node) of
        None \<Rightarrow> f
      | Some state \<Rightarrow>
          (case note_failure now err state of
             (state, lapse) \<Rightarrow>
               let f = f\<lparr>df_nodes := AList.update (n_ID node) state (df_nodes f), df_lastErr := err,
                         df_lastErrAt := now, df_metrics := drop_usage (n_ID node) (df_metrics f)\<rparr>
               in if lapse then lapseNodeRoutesLocked (n_ID node) now f else f))"

section \<open>Membership\<close>

definition retireNodeLocked :: "string \<Rightarrow> string \<Rightarrow> gotime \<Rightarrow> dynamicForwarder \<Rightarrow> dynamicForwarder" where
  "retireNodeLocked newID nodeID now f =
     removeNodeRoutesLocked nodeID now (f\<lparr>df_nodes := AList.delete nodeID (df_nodes f),
       df_metrics := retire_usage newID nodeID now (df_metrics f)\<rparr>)"

definition ensure_node :: "string \<Rightarrow> Node \<Rightarrow> dynamicForwarder \<Rightarrow> dynamicForwarder" where
  "ensure_node nodeID node f =
     (if map_of (df_nodes f) nodeID = None
      then f\<lparr>df_nodes := AList.update nodeID (new_node_state node) (df_nodes f)\<rparr> else f)"

text \<open>One saved claim meets the inventory.\<close>

definition sync_restored ::
  "(string \<times> Node) list \<Rightarrow> gotime \<Rightarrow> dynamicRouteKey \<times> routeDiscoveryMemory \<Rightarrow> dynamicForwarder
     \<Rightarrow> dynamicForwarder" where
  "sync_restored present now = (\<lambda>(key, claim) f.
     case map_of present (rm_nodeID claim) of
       None \<Rightarrow> drop_restored (key, claim) f
     | Some node \<Rightarrow>
         if rk_node key \<noteq> ToLower (n_SandboxName node) then drop_restored (key, claim) f
         else
           let f = ensure_node (rm_nodeID claim) node f
           in if applicationRoutesReady node
              then let f = (if map_of (df_routes f) key = None
                            then f\<lparr>df_routes := AList.update key
                                    ((newDynamicForwardingRoute node (rk_port key) None (rm_discoveredAt claim))
                                       \<lparr>ro_lapsed := True, ro_lapsedAt := now, ro_seenAt := 0\<rparr>) (df_routes f)\<rparr>
                            else f)
                   in f\<lparr>df_restored := AList.delete key (df_restored f)\<rparr>
              else f)"

text \<open>One known node meets the inventory; the second component collects the nodes to scan.\<close>

definition note_listed :: "bool \<Rightarrow> Node \<Rightarrow> gotime \<Rightarrow> forwardingNodeState \<Rightarrow> forwardingNodeState" where
  "note_listed isRunning node now state =
     (let state = state\<lparr>fs_node := node\<rparr>
      in if isRunning then state\<lparr>fs_notRunningSince := 0\<rparr>
         else if is_zero_time (fs_notRunningSince state) then state\<lparr>fs_notRunningSince := now\<rparr>
         else state)"

definition sync_node ::
  "string \<Rightarrow> (string \<times> Node) list \<Rightarrow> (string \<times> Node) list \<Rightarrow> gotime \<Rightarrow> string \<times> forwardingNodeState
     \<Rightarrow> dynamicForwarder \<times> Node list \<Rightarrow> dynamicForwarder \<times> Node list" where
  "sync_node newID present running now = (\<lambda>(i, state) (f, targets).
     case map_of present i of
       None \<Rightarrow> (retireNodeLocked newID i now f, targets)
     | Some node \<Rightarrow>
         let state = note_listed (map_of running i \<noteq> None) node now state;
             f = (if applicationRoutesReady node then f else removeNodeRoutesLocked i now f);
             f = f\<lparr>df_nodes := AList.update i state (df_nodes f)\<rparr>
         in if map_of running i \<noteq> None then (f, targets)
            else if confirmedStopped now forwardingStopGrace state then (retireNodeLocked newID i now f, targets)
            else (f, if fs_peer state \<noteq> None then targets @ [node] else targets))"

definition by_id :: "Node list \<Rightarrow> (string \<times> Node) list" where
  "by_id nodes = fold (\<lambda>node. AList.update (n_ID node) node) nodes []"

definition is_running :: "Node \<Rightarrow> bool" where
  "is_running node \<longleftrightarrow>
     (case n_LastRuntimeObservation node of None \<Rightarrow> False | Some ob \<Rightarrow> ob_Status ob = ObservationRunning)"

definition syncMembership ::
  "string \<Rightarrow> Node list \<Rightarrow> gotime \<Rightarrow> dynamicForwarder \<Rightarrow> dynamicForwarder \<times> Node list" where
  "syncMembership newID nodes now f =
     (let present = by_id nodes; running = by_id (filter is_running nodes)
      in if df_policyHandoff f then (f, [])
         else
           let f = f\<lparr>df_inventory := present\<rparr>;
               f = fold (sync_restored present now) (df_restored f) f;
               f = f\<lparr>df_inventoryErr := [], df_inventoryErrSince := 0, df_inventoryWarnAt := 0\<rparr>;
               (f, targets) = fold (sync_node newID present running now) (df_nodes f) (f, []);
               f = fold (\<lambda>(i, node). ensure_node i node) running f;
               f = f\<lparr>df_known := map (\<lambda>(i, state). ToLower (n_SandboxName (fs_node state))) (df_nodes f)\<rparr>;
               f = pruneDiscoveryMemoryLocked now f;
               f = f\<lparr>df_metrics := pruneMetricsHistoryLocked now (df_metrics f)\<rparr>
           in (f, sort_key n_SandboxName (targets @ map snd running)))"

definition retainMembership :: "string \<Rightarrow> gotime \<Rightarrow> dynamicForwarder \<Rightarrow> dynamicForwarder \<times> Node list" where
  "retainMembership err now f =
     (let warn = (now - df_inventoryWarnAt f \<ge> forwardingWarnInterval)
      in (f\<lparr>df_inventoryErr := err,
            df_inventoryErrSince := (if is_zero_time (df_inventoryErrSince f) then now else df_inventoryErrSince f),
            df_lastErr := err, df_lastErrAt := now,
            df_inventoryWarnAt := (if warn then now else df_inventoryWarnAt f)\<rparr>,
          sort_key n_SandboxName (map (\<lambda>(i, state). fs_node state) (df_nodes f))))"

section \<open>The node a generic host goes to\<close>

definition claims_better :: "bool \<Rightarrow> dynamicForwardingRoute \<Rightarrow> dynamicForwardingRoute \<Rightarrow> bool" where
  "claims_better wantNewest route selected \<longleftrightarrow>
     (if wantNewest then ro_discoveredAt route > ro_discoveredAt selected
      else ro_discoveredAt route < ro_discoveredAt selected)
     \<or> (ro_discoveredAt route = ro_discoveredAt selected
        \<and> rk_node (ro_key route) < rk_node (ro_key selected))"

definition select_step ::
  "int \<Rightarrow> bool \<Rightarrow> bool \<Rightarrow> dynamicRouteKey \<times> dynamicForwardingRoute \<Rightarrow> dynamicForwardingRoute option
     \<Rightarrow> dynamicForwardingRoute option" where
  "select_step port wantNewest includeLapsed = (\<lambda>(key, route) selected.
     if rk_port key \<noteq> port \<or> (ro_lapsed route \<and> \<not> includeLapsed) then selected
     else case selected of
            None \<Rightarrow> Some route
          | Some s \<Rightarrow> if claims_better wantNewest route s then Some route else selected)"

definition selectClaimantLocked :: "int \<Rightarrow> bool \<Rightarrow> bool \<Rightarrow> dynamicForwarder \<Rightarrow> string" where
  "selectClaimantLocked port wantNewest includeLapsed f =
     (case fold (select_step port wantNewest includeLapsed) (df_routes f) None of
        None \<Rightarrow> []
      | Some selected \<Rightarrow> rk_node (ro_key selected))"

definition preferredClaimantLocked :: "int \<Rightarrow> dynamicForwarder \<Rightarrow> string" where
  "preferredClaimantLocked port f =
     (let wantNewest = (port = codexLoginCallbackPort);
          fallback = (let node = selectClaimantLocked port wantNewest False f
                      in if node \<noteq> [] then node else selectClaimantLocked port wantNewest True f)
      in if pin_at port f = [] then fallback
         else case find (\<lambda>(key, route). rk_port key = port \<and> ro_nodeID route = pin_at port f) (df_routes f) of
                Some (key, route) \<Rightarrow> rk_node key
              | None \<Rightarrow> fallback)"

section \<open>Host listeners\<close>

definition serving :: "dynamicPortServer \<Rightarrow> bool" where
  "serving server \<longleftrightarrow> ps_status server = ''serving''"

text \<open>
  Published TCP mappings reserve host ports: \<open>wanted\<close> are the host ports that ready nodes publish.
  A wanted port gets an entry in \<^verbatim>\<open>tcpServers\<close> and loses its HTTP listener.
\<close>

definition reconcileTCPServers :: "int list \<Rightarrow> dynamicForwarder \<Rightarrow> dynamicForwarder" where
  "reconcileTCPServers wanted f =
     f\<lparr>df_tcpServers := wanted,
       df_servers := filter (\<lambda>(port, server). \<not> (port \<in> set wanted \<and> ps_listening server)) (df_servers f)\<rparr>"

definition keep_server :: "dynamicForwarder \<Rightarrow> int \<times> dynamicPortServer \<Rightarrow> int \<times> dynamicPortServer" where
  "keep_server f = (\<lambda>(port, server).
     (port, if serving server then server\<lparr>ps_defaultNode := preferredClaimantLocked port f\<rparr> else server))"

definition conflicted :: "int \<Rightarrow> string \<Rightarrow> dynamicPortServer" where
  "conflicted port err =
     \<lparr>ps_port = port, ps_listening = False, ps_defaultNode = [], ps_status = ''conflicted'', ps_lastErr = err\<rparr>"

text \<open>\<open>listen\<close> is \<^verbatim>\<open>listenLoopbacks\<close>: the error of binding a port, if any.\<close>

definition open_server ::
  "(int \<Rightarrow> string option) \<Rightarrow> gotime \<Rightarrow> int \<Rightarrow> dynamicForwarder \<Rightarrow> dynamicForwarder" where
  "open_server listen now port f =
     (if port \<in> set (df_tcpServers f)
      then f\<lparr>df_servers := AList.update port
               (conflicted port ''host port reserved by a published TCP mapping'') (df_servers f)\<rparr>
      else if (case map_of (df_servers f) port of Some current \<Rightarrow> serving current | None \<Rightarrow> False) then f
      else case listen port of
             Some err \<Rightarrow>
               f\<lparr>df_servers := AList.update port (conflicted port err) (df_servers f),
                 df_lastErr := err, df_lastErrAt := now\<rparr>
           | None \<Rightarrow>
               f\<lparr>df_servers := AList.update port
                   \<lparr>ps_port = port, ps_listening = True, ps_defaultNode = preferredClaimantLocked port f,
                    ps_status = ''serving'', ps_lastErr = []\<rparr> (df_servers f)\<rparr>)"

definition reconcileServers :: "(int \<Rightarrow> string option) \<Rightarrow> gotime \<Rightarrow> dynamicForwarder \<Rightarrow> dynamicForwarder" where
  "reconcileServers listen now f =
     (let wanted = remdups (map (rk_port \<circ> fst) (df_routes f));
          f = f\<lparr>df_servers := map (keep_server f) (filter (\<lambda>(port, server). port \<in> set wanted) (df_servers f))\<rparr>
      in fold (open_server listen now) wanted f)"

section \<open>Requests\<close>

text \<open>
  What \<^verbatim>\<open>ServeHTTP\<close> does with a request: the host of a request names a node, is generic, or is
  neither; the request is proxied over the route of a node or answered with a status.
\<close>

datatype requestHost = NodeHost string | GenericHost | ForeignHost

datatype httpOutcome = Proxied dynamicForwardingRoute | Answered int

definition ServeHTTP :: "int \<Rightarrow> requestHost \<Rightarrow> dynamicForwarder \<Rightarrow> httpOutcome" where
  "ServeHTTP port host f =
     (let nodeName =
            (case host of
               NodeHost node \<Rightarrow> Some node
             | GenericHost \<Rightarrow>
                 (case map_of (df_servers f) port of
                    None \<Rightarrow> None
                  | Some server \<Rightarrow> if ps_defaultNode server = [] then None else Some (ps_defaultNode server))
             | ForeignHost \<Rightarrow> None)
      in case nodeName of
           None \<Rightarrow> Answered 421
         | Some node \<Rightarrow>
             (case map_of (df_routes f) \<lparr>rk_node = node, rk_port = port\<rparr> of
                None \<Rightarrow> Answered (if node \<in> set (df_known f) then 404 else 421)
              | Some route \<Rightarrow> if ro_lapsed route then Answered 502 else Proxied route))"

section \<open>The choice is the least claim\<close>

text \<open>
  The reference of the selection loop: order the routes of the port by the time of discovery and
  then by name (for the Codex callback port the newest first) and take the first.
\<close>

definition claim_rank :: "bool \<Rightarrow> dynamicForwardingRoute \<Rightarrow> gotime \<times> string" where
  "claim_rank wantNewest r = (if wantNewest then - ro_discoveredAt r else ro_discoveredAt r, rk_node (ro_key r))"

definition claim_eligible :: "int \<Rightarrow> bool \<Rightarrow> dynamicRouteKey \<times> dynamicForwardingRoute \<Rightarrow> bool" where
  "claim_eligible port includeLapsed = (\<lambda>(key, route). rk_port key = port \<and> (ro_lapsed route \<longrightarrow> includeLapsed))"

definition claimants :: "int \<Rightarrow> bool \<Rightarrow> dynamicForwarder \<Rightarrow> dynamicForwardingRoute list" where
  "claimants port includeLapsed f = map snd (filter (claim_eligible port includeLapsed) (df_routes f))"

fun first_of :: "'a list \<Rightarrow> 'a option" where
  "first_of [] = None"
| "first_of (x # _) = Some x"

lemma claims_better_rank: "claims_better w r s \<longleftrightarrow> claim_rank w r < claim_rank w s"
  by (auto simp: claims_better_def claim_rank_def less_prod_def)

lemma hd_insort_key:
  "hd (insort_key k a xs) = (if xs = [] \<or> k a \<le> k (hd xs) then a else hd xs)"
  by (cases xs) auto

lemma fold_least:
  "fold (\<lambda>x selected. case selected of None \<Rightarrow> Some x | Some s \<Rightarrow> if k x < k s then Some x else selected) xs (Some a)
     = Some (hd (sort_key (k :: 'a \<Rightarrow> 'b :: linorder) (a # xs)))"
proof (induction xs arbitrary: a)
  case (Cons x xs)
  then show ?case by (cases xs) (auto simp: hd_insort_key)
qed simp

lemma fold_least_first:
  "fold (\<lambda>x selected. case selected of None \<Rightarrow> Some x | Some s \<Rightarrow> if k x < k s then Some x else selected) xs None
     = first_of (sort_key (k :: 'a \<Rightarrow> 'b :: linorder) xs)"
proof (cases xs)
  case (Cons a ys)
  have "sort_key k xs \<noteq> []" using Cons by (metis length_0_conv length_sort list.distinct(1))
  then have "first_of (sort_key k xs) = Some (hd (sort_key k xs))" by (cases "sort_key k xs") auto
  then show ?thesis using fold_least [of k ys a] Cons by simp
qed simp

lemma select_step_eligible:
  "select_step port w il x s =
     (if claim_eligible port il x
      then case s of None \<Rightarrow> Some (snd x) | Some t \<Rightarrow> if claim_rank w (snd x) < claim_rank w t then Some (snd x) else s
      else s)"
  unfolding select_step_def claim_eligible_def by (cases x; cases s) (auto simp: claims_better_rank)

lemma select_fold:
  "fold (select_step port w il) xs selected =
     fold (\<lambda>x selected. case selected of None \<Rightarrow> Some x | Some s \<Rightarrow> if claim_rank w x < claim_rank w s then Some x else selected)
       (map snd (filter (claim_eligible port il) xs)) selected"
  by (induction xs arbitrary: selected) (simp_all add: select_step_eligible)

lemma select_reference:
  "selectClaimantLocked port w il f =
     (case first_of (sort_key (claim_rank w) (claimants port il f)) of None \<Rightarrow> [] | Some r \<Rightarrow> rk_node (ro_key r))"
  unfolding selectClaimantLocked_def select_fold fold_least_first claimants_def ..

lemma first_sorted_least:
  assumes "first_of (sort_key k xs) = Some s"
  shows "s \<in> set xs \<and> (\<forall>x \<in> set xs. (k s :: 'b :: linorder) \<le> k x)"
proof -
  obtain ys where ys: "sort_key k xs = s # ys" using assms by (cases "sort_key k xs") auto
  have "sorted (map k (s # ys))" using sorted_sort_key [of k xs] ys by simp
  moreover have "set xs = set (s # ys)" using set_sort [of k xs] ys by simp
  ultimately show ?thesis by auto
qed

lemma first_of_None: "first_of (sort_key k xs) = None \<longleftrightarrow> xs = []"
  by (metis first_of.elims length_0_conv length_sort option.distinct(1) first_of.simps(1))

end
