(* ===== verification/ForwardingPolicy.thy ===== *)
theory ForwardingPolicy
  imports Forwarding AtomicFile
begin

text \<open>
  The durable routing preferences, \<^verbatim>\<open>forwarding_policy.go\<close>: the file of claims and pins, its
  validation, the snapshot that is written, and the pin of a bare port. The theory proves that a
  snapshot of a consistent forwarder validates and that loading it gives the same pins and the
  same claims back.

  The JSON of a policy is the policy itself; \<open>jsonLen\<close> is the length of its encoding, and the file
  holds one byte more (the newline). \<open>uuidParse\<close> stands for \<^verbatim>\<open>uuid.Parse\<close> of a package outside the
  repository: whether a text is a UUID.
\<close>

section \<open>The file\<close>

definition routingPolicyLimit :: int where "routingPolicyLimit = 16 * 2 ^ 20"

datatype policyFile = NoFile | FileError string | BadJSON string | PolicyJSON routingPolicy

definition alnum :: "char \<Rightarrow> bool" where
  "alnum c \<longleftrightarrow> CHR ''0'' \<le> c \<and> c \<le> CHR ''9'' \<or> CHR ''A'' \<le> c \<and> c \<le> CHR ''Z'' \<or> CHR ''a'' \<le> c \<and> c \<le> CHR ''z''"

text \<open>\<open>validateSandboxName\<close> with the pattern \<^verbatim>\<open>^[[:alnum:]][[:alnum:]._ -]*$\<close>: whether a name is valid.\<close>

definition valid_sandbox_name :: "string \<Rightarrow> bool" where
  "valid_sandbox_name name \<longleftrightarrow> \<not> (length name = 0 \<or> length name > 128
     \<or> \<not> (alnum (hd name) \<and> list_all (\<lambda>c. alnum c \<or> c \<in> set ''._ -'') (tl name))
     \<or> CHR '' '' \<in> set name)"

fun check_claims ::
  "(string \<Rightarrow> bool) \<Rightarrow> routingClaim list \<Rightarrow> dynamicRouteKey list \<Rightarrow> routingPin list
     \<Rightarrow> (string, routingPin list) result" where
  "check_claims uuidParse [] claims active = Inr active"
| "check_claims uuidParse (claim # rest) claims active =
     (let key = \<lparr>rk_node = rc_Node claim, rk_port = rc_Port claim\<rparr>
      in if \<not> uuidParse (rc_NodeID claim) then Inl ''invalid claim node ID''
         else if \<not> valid_sandbox_name (rc_Node claim) \<or> rc_Port claim < 1024 \<or> rc_Port claim > 65535
                 \<or> is_zero_time (rc_DiscoveredAt claim) \<or> key \<in> set claims
         then Inl ''invalid or duplicate routing claim''
         else check_claims uuidParse rest (key # claims)
                (if is_zero_time (rc_RemovedAt claim)
                 then \<lparr>rp_Port = rc_Port claim, rp_NodeID = rc_NodeID claim\<rparr> # active else active))"

fun check_pins :: "routingPin list \<Rightarrow> routingPin list \<Rightarrow> int list \<Rightarrow> string option" where
  "check_pins active [] pins = None"
| "check_pins active (pin # rest) pins =
     (if pin \<notin> set active \<or> rp_Port pin \<in> set pins then Some ''pin has no unique active claim''
      else check_pins active rest (rp_Port pin # pins))"

definition validateRoutingPolicy :: "(string \<Rightarrow> bool) \<Rightarrow> routingPolicy \<Rightarrow> string option" where
  "validateRoutingPolicy uuidParse saved =
     (if po_Version saved \<noteq> 1 then Some ''unsupported routing preferences version''
      else case check_claims uuidParse (po_Claims saved) [] [] of
             Inl err \<Rightarrow> Some err
           | Inr active \<Rightarrow> check_pins active (po_Pins saved) [])"

section \<open>Loading\<close>

definition claim_key :: "routingClaim \<Rightarrow> dynamicRouteKey" where
  "claim_key claim = \<lparr>rk_node = rc_Node claim, rk_port = rc_Port claim\<rparr>"

definition claim_memory :: "routingClaim \<Rightarrow> routeDiscoveryMemory" where
  "claim_memory claim =
     \<lparr>rm_nodeID = rc_NodeID claim, rm_discoveredAt = rc_DiscoveredAt claim, rm_removedAt = rc_RemovedAt claim\<rparr>"

definition load_claim :: "routingClaim \<Rightarrow> dynamicForwarder \<Rightarrow> dynamicForwarder" where
  "load_claim claim f =
     (if is_zero_time (rc_RemovedAt claim)
      then f\<lparr>df_restored := AList.update (claim_key claim) (claim_memory claim) (df_restored f)\<rparr>
      else f\<lparr>df_discovered := AList.update (claim_key claim) (claim_memory claim) (df_discovered f)\<rparr>)"

definition load_pin :: "routingPin \<Rightarrow> dynamicForwarder \<Rightarrow> dynamicForwarder" where
  "load_pin pin f = f\<lparr>df_pins := AList.update (rp_Port pin) (rp_NodeID pin) (df_pins f)\<rparr>"

definition read_policy ::
  "(string \<Rightarrow> bool) \<Rightarrow> (routingPolicy \<Rightarrow> int) \<Rightarrow> policyFile \<Rightarrow> (string, routingPolicy option) result" where
  "read_policy uuidParse jsonLen file =
     (case file of
        NoFile \<Rightarrow> Inr None
      | FileError err \<Rightarrow> Inl err
      | BadJSON err \<Rightarrow> Inl err
      | PolicyJSON saved \<Rightarrow>
          if jsonLen saved + 1 > routingPolicyLimit then Inl ''routing preferences exceed the size limit''
          else case validateRoutingPolicy uuidParse saved of
                 Some err \<Rightarrow> Inl err
               | None \<Rightarrow> Inr (Some saved))"

definition loadRoutingPolicy ::
  "(string \<Rightarrow> bool) \<Rightarrow> (routingPolicy \<Rightarrow> int) \<Rightarrow> policyFile \<Rightarrow> dynamicForwarder \<Rightarrow> dynamicForwarder" where
  "loadRoutingPolicy uuidParse jsonLen file f =
     (if df_policyPath f = [] then f
      else case read_policy uuidParse jsonLen file of
             Inl err \<Rightarrow> f\<lparr>df_policyErr := Some (''read routing preferences: '' @ err)\<rparr>
           | Inr None \<Rightarrow> f
           | Inr (Some saved) \<Rightarrow>
               fold load_pin (po_Pins saved)
                 (fold load_claim (po_Claims saved) (f\<lparr>df_restored := [], df_pins := []\<rparr>)))"

section \<open>Saving\<close>

definition all_claims :: "dynamicForwarder \<Rightarrow> (dynamicRouteKey \<times> routeDiscoveryMemory) list" where
  "all_claims f =
     fold (\<lambda>(key, route). AList.update key
         \<lparr>rm_nodeID = ro_nodeID route, rm_discoveredAt = ro_discoveredAt route, rm_removedAt = 0\<rparr>) (df_routes f)
       (fold (\<lambda>(key, claim). AList.update key claim) (df_restored f) (df_discovered f))"

definition to_claim :: "dynamicRouteKey \<times> routeDiscoveryMemory \<Rightarrow> routingClaim" where
  "to_claim = (\<lambda>(key, claim).
     \<lparr>rc_NodeID = rm_nodeID claim, rc_Node = rk_node key, rc_Port = rk_port key,
      rc_DiscoveredAt = rm_discoveredAt claim, rc_RemovedAt = rm_removedAt claim\<rparr>)"

definition to_pin :: "int \<times> string \<Rightarrow> routingPin" where
  "to_pin = (\<lambda>(port, i). \<lparr>rp_Port = port, rp_NodeID = i\<rparr>)"

definition routingPolicySnapshot ::
  "(int \<times> string) list option \<Rightarrow> dynamicForwarder \<Rightarrow> (string, routingPolicy) result" where
  "routingPolicySnapshot pins f =
     (case df_policyErr f of
        Some err \<Rightarrow> Inl err
      | None \<Rightarrow>
          let pins = (case pins of None \<Rightarrow> df_pins f | Some pins \<Rightarrow> pins)
          in Inr \<lparr>po_Version = 1,
                  po_Claims = sort_key (\<lambda>c. (rc_Node c, rc_Port c)) (map to_claim (all_claims f)),
                  po_Pins = sort_key rp_Port (map to_pin pins)\<rparr>)"

text \<open>
  The write: \<open>disk\<close> is what the file system answers to \<^verbatim>\<open>atomicWriteFile\<close>. The result carries the
  policy that is new in the file, if any, and the error; when the error comes after the rename there
  are both, and the forwarder does not remember the policy as saved.
\<close>

definition write_file ::
  "(routingPolicy \<Rightarrow> int) \<Rightarrow> fileAnswers \<Rightarrow> routingPolicy \<Rightarrow> dynamicForwarder
     \<Rightarrow> dynamicForwarder \<times> routingPolicy option \<times> string option" where
  "write_file jsonLen disk saved f =
     (if df_policyPath f = [] then (f, None, None)
      else if jsonLen saved > routingPolicyLimit
      then (f, None, Some ''routing preferences exceed the size limit'')
      else if df_policySaved f = Some saved then (f, None, None)
      else case WriteFile disk of
             (replaced, Some err) \<Rightarrow>
               (f, if replaced then Some saved else None, Some (''save routing preferences: '' @ file_error_text err))
           | (replaced, None) \<Rightarrow> (f\<lparr>df_policySaved := Some saved\<rparr>, Some saved, None))"

definition writeRoutingPolicy ::
  "(routingPolicy \<Rightarrow> int) \<Rightarrow> fileAnswers \<Rightarrow> routingPolicy \<Rightarrow> dynamicForwarder
     \<Rightarrow> dynamicForwarder \<times> routingPolicy option \<times> string option" where
  "writeRoutingPolicy jsonLen disk saved f =
     (case write_file jsonLen disk saved f of
        (f, written, err) \<Rightarrow>
          (f\<lparr>df_policyWriteErr := (case err of None \<Rightarrow> [] | Some e \<Rightarrow> e)\<rparr>, written, err))"

definition save_snapshot ::
  "(routingPolicy \<Rightarrow> int) \<Rightarrow> fileAnswers \<Rightarrow> (int \<times> string) list option \<Rightarrow> dynamicForwarder
     \<Rightarrow> dynamicForwarder \<times> routingPolicy option \<times> string option" where
  "save_snapshot jsonLen disk pins f =
     (case routingPolicySnapshot pins f of
        Inl err \<Rightarrow> (f, None, Some err)
      | Inr saved \<Rightarrow> writeRoutingPolicy jsonLen disk saved f)"

definition shutting_down :: goError where
  "shutting_down = RPCError ''Unavailable'' ''port forwarding is shutting down'' ExitDependencyUnavailable []"

definition as_error :: "string option \<Rightarrow> goError option" where
  "as_error err = map_option OtherError err"

definition persistRoutingPolicy ::
  "(routingPolicy \<Rightarrow> int) \<Rightarrow> fileAnswers \<Rightarrow> dynamicForwarder
     \<Rightarrow> dynamicForwarder \<times> routingPolicy option \<times> goError option" where
  "persistRoutingPolicy jsonLen disk f =
     (if df_policyClosed f then (f, None, None)
      else case save_snapshot jsonLen disk None f of (f, written, err) \<Rightarrow> (f, written, as_error err))"

definition prepareRoutingHandoff ::
  "(routingPolicy \<Rightarrow> int) \<Rightarrow> fileAnswers \<Rightarrow> dynamicForwarder
     \<Rightarrow> dynamicForwarder \<times> routingPolicy option \<times> goError option" where
  "prepareRoutingHandoff jsonLen disk f =
     (if df_policyClosed f then (f, None, Some shutting_down)
      else case save_snapshot jsonLen disk None f of
             (f, written, Some err) \<Rightarrow> (f, written, as_error (Some err))
           | (f, written, None) \<Rightarrow> (f\<lparr>df_policyHandoff := True\<rparr>, written, None))"

definition resumeRoutingAfterHandoff :: "dynamicForwarder \<Rightarrow> dynamicForwarder" where
  "resumeRoutingAfterHandoff f = f\<lparr>df_policyHandoff := False\<rparr>"

section \<open>Pinning a bare port\<close>

text \<open>
  \<^verbatim>\<open>pinBarePort\<close> releases \<^verbatim>\<open>mu\<close> while it writes the file, so it has two parts: the check with the
  write, and the commit of the pins it wrote.
\<close>

definition pin_stale :: goError where
  "pin_stale = RPCError ''PreconditionFailed'' ''the selected HTTP route is no longer available; refresh Ports''
     ExitPreconditionFailed []"

definition pin_prepare ::
  "(routingPolicy \<Rightarrow> int) \<Rightarrow> fileAnswers \<Rightarrow> string \<Rightarrow> int \<Rightarrow> dynamicForwarder
     \<Rightarrow> dynamicForwarder \<times> routingPolicy option \<times> (goError, (int \<times> string) list) result" where
  "pin_prepare jsonLen disk nodeID port f =
     (if df_policyClosed f then (f, None, Inl shutting_down)
      else
        let key = (case find (\<lambda>(key, route). ro_nodeID route = nodeID \<and> rk_port key = port) (df_routes f) of
                     Some (key, route) \<Rightarrow> rk_node key
                   | None \<Rightarrow> [])
        in if key = [] \<or> (case map_of (df_servers f) port of None \<Rightarrow> True | Some server \<Rightarrow> \<not> serving server)
           then (f, None, Inl pin_stale)
           else
             let pins = AList.update port nodeID (df_pins f)
             in case save_snapshot jsonLen disk (Some pins) f of
                  (f, written, Some err) \<Rightarrow> (f, written, Inl (OtherError err))
                | (f, written, None) \<Rightarrow> (f, written, Inr pins))"

definition pin_commit :: "int \<Rightarrow> (int \<times> string) list \<Rightarrow> dynamicForwarder \<Rightarrow> dynamicForwarder" where
  "pin_commit port pins f =
     (let f = f\<lparr>df_pins := pins\<rparr>
      in case map_of (df_servers f) port of
           None \<Rightarrow> f
         | Some current \<Rightarrow>
             f\<lparr>df_servers := AList.update port
                 (current\<lparr>ps_defaultNode := preferredClaimantLocked port f\<rparr>) (df_servers f)\<rparr>)"

definition pinBarePort ::
  "(routingPolicy \<Rightarrow> int) \<Rightarrow> fileAnswers \<Rightarrow> string \<Rightarrow> int \<Rightarrow> dynamicForwarder
     \<Rightarrow> dynamicForwarder \<times> routingPolicy option \<times> goError option" where
  "pinBarePort jsonLen disk nodeID port f =
     (case pin_prepare jsonLen disk nodeID port f of
        (f, written, Inl err) \<Rightarrow> (f, written, Some err)
      | (f, written, Inr pins) \<Rightarrow> (pin_commit port pins f, written, None))"

section \<open>Shutdown\<close>

text \<open>
  \<^verbatim>\<open>Close\<close> after its loop has ended and its last save is done: later requests find the policy
  closed.
\<close>

definition Close_forwarder :: "dynamicForwarder \<Rightarrow> dynamicForwarder" where
  "Close_forwarder f =
     f\<lparr>df_policyClosed := True, df_tcpServers := [], df_servers := [], df_nodes := [], df_routes := [],
       df_metrics := close_usage (df_metrics f)\<rparr>"

section \<open>Association lists\<close>

lemma map_of_fold_update:
  "distinct (map fst xs) \<Longrightarrow>
    map_of (fold (\<lambda>(k, v). AList.update k (g v)) xs al) k =
      (case map_of xs k of Some v \<Rightarrow> Some (g v) | None \<Rightarrow> map_of al k)"
proof (induction xs arbitrary: al)
  case (Cons x xs)
  obtain a v where x: "x = (a, v)" by fastforce
  have "map_of xs a = None" using Cons.prems x by (simp add: map_of_eq_None_iff)
  then show ?case using Cons x by (auto simp: update_conv' split: option.splits)
qed simp

lemma distinct_fold_update:
  "distinct (map fst al) \<Longrightarrow> distinct (map fst (fold (\<lambda>(k, v). AList.update k (g v)) xs al))"
  by (induction xs arbitrary: al) (auto simp: distinct_update split: prod.splits)

lemma update_fresh: "k \<notin> fst ` set al \<Longrightarrow> AList.update k v al = al @ [(k, v)]"
  by (induction al) auto

lemma fold_update_fresh:
  "distinct (map kf xs) \<Longrightarrow> kf ` set xs \<inter> fst ` set al = {} \<Longrightarrow>
    fold (\<lambda>x. AList.update (kf x) (vf x)) xs al = al @ map (\<lambda>x. (kf x, vf x)) xs"
  by (induction xs arbitrary: al) (auto simp: update_fresh)

lemma map_of_filter_distinct:
  "distinct (map fst xs) \<Longrightarrow>
    map_of (filter (\<lambda>(k, v). P k v) xs) k = (case map_of xs k of Some v \<Rightarrow> if P k v then Some v else None | None \<Rightarrow> None)"
proof (induction xs)
  case (Cons x xs)
  obtain a v where x: "x = (a, v)" by fastforce
  have "map_of xs a = None" using Cons.prems x by (simp add: map_of_eq_None_iff)
  then show ?case using Cons x by auto
qed simp

lemma distinct_map_filter: "distinct (map f xs) \<Longrightarrow> distinct (map f (filter P xs))"
  by (induction xs) auto

section \<open>What a valid file is\<close>

definition claim_ok :: "(string \<Rightarrow> bool) \<Rightarrow> dynamicRouteKey \<Rightarrow> string \<Rightarrow> gotime \<Rightarrow> bool" where
  "claim_ok uuidParse key i time \<longleftrightarrow>
     uuidParse i \<and> valid_sandbox_name (rk_node key) \<and> 1024 \<le> rk_port key \<and> rk_port key \<le> 65535 \<and> time \<noteq> 0"

definition claim_pin :: "routingClaim \<Rightarrow> routingPin" where
  "claim_pin c = \<lparr>rp_Port = rc_Port c, rp_NodeID = rc_NodeID c\<rparr>"

definition good_claim :: "(string \<Rightarrow> bool) \<Rightarrow> routingClaim \<Rightarrow> bool" where
  "good_claim uuidParse c \<longleftrightarrow> claim_ok uuidParse (claim_key c) (rc_NodeID c) (rc_DiscoveredAt c)"

lemma check_claims_iff:
  "check_claims u cs seen act = Inr act' \<longleftrightarrow>
     list_all (good_claim u) cs \<and> distinct (map claim_key cs) \<and> claim_key ` set cs \<inter> set seen = {}
     \<and> act' = rev (map claim_pin (filter (\<lambda>c. rc_RemovedAt c = 0) cs)) @ act"
proof (induction cs arbitrary: seen act)
  case (Cons c cs)
  show ?case
    by (auto simp: Cons.IH Let_def good_claim_def claim_ok_def claim_key_def claim_pin_def)
qed auto

lemma check_pins_iff:
  "check_pins act ps seen = None \<longleftrightarrow>
     set ps \<subseteq> set act \<and> distinct (map rp_Port ps) \<and> rp_Port ` set ps \<inter> set seen = {}"
  by (induction ps arbitrary: seen) auto

lemma validate_iff:
  "validateRoutingPolicy u p = None \<longleftrightarrow>
     po_Version p = 1 \<and> list_all (good_claim u) (po_Claims p) \<and> distinct (map claim_key (po_Claims p))
     \<and> distinct (map rp_Port (po_Pins p))
     \<and> set (po_Pins p) \<subseteq> claim_pin ` {c \<in> set (po_Claims p). rc_RemovedAt c = 0}"
proof (cases "check_claims u (po_Claims p) [] []")
  case (Inl e)
  then have "\<not> (list_all (good_claim u) (po_Claims p) \<and> distinct (map claim_key (po_Claims p)))"
    using check_claims_iff [of u "po_Claims p" "[]" "[]" "rev (map claim_pin (filter (\<lambda>c. rc_RemovedAt c = 0) (po_Claims p)))"]
    by auto
  with Inl show ?thesis by (auto simp: validateRoutingPolicy_def)
next
  case (Inr act)
  from Inr [unfolded check_claims_iff]
  have "list_all (good_claim u) (po_Claims p)" "distinct (map claim_key (po_Claims p))"
    "set act = claim_pin ` {c \<in> set (po_Claims p). rc_RemovedAt c = 0}" by auto
  with Inr show ?thesis by (auto simp: validateRoutingPolicy_def check_pins_iff)
qed

section \<open>Consistent tables\<close>

definition keys_ok :: "dynamicForwarder \<Rightarrow> bool" where
  "keys_ok f \<longleftrightarrow> distinct (map fst (df_pins f)) \<and> distinct (map fst (df_restored f))
     \<and> distinct (map fst (df_routes f)) \<and> distinct (map fst (df_discovered f))"

definition routes_ok :: "(string \<Rightarrow> bool) \<Rightarrow> dynamicForwarder \<Rightarrow> bool" where
  "routes_ok u f \<longleftrightarrow> (\<forall>k r. map_of (df_routes f) k = Some r \<longrightarrow>
     ro_key r = k \<and> claim_ok u k (ro_nodeID r) (ro_discoveredAt r))"

definition restored_ok :: "(string \<Rightarrow> bool) \<Rightarrow> dynamicForwarder \<Rightarrow> bool" where
  "restored_ok u f \<longleftrightarrow> (\<forall>k c. map_of (df_restored f) k = Some c \<longrightarrow>
     claim_ok u k (rm_nodeID c) (rm_discoveredAt c) \<and> rm_removedAt c = 0)"

definition discovered_ok :: "(string \<Rightarrow> bool) \<Rightarrow> dynamicForwarder \<Rightarrow> bool" where
  "discovered_ok u f \<longleftrightarrow> (\<forall>k c. map_of (df_discovered f) k = Some c \<longrightarrow>
     claim_ok u k (rm_nodeID c) (rm_discoveredAt c) \<and> rm_removedAt c \<noteq> 0)"

definition claimed :: "dynamicForwarder \<Rightarrow> int \<Rightarrow> string \<Rightarrow> bool" where
  "claimed f p i \<longleftrightarrow> (\<exists>k. rk_port k = p \<and> ((\<exists>r. map_of (df_routes f) k = Some r \<and> ro_nodeID r = i)
      \<or> (\<exists>c. map_of (df_restored f) k = Some c \<and> rm_nodeID c = i)))"

definition supported :: "(int \<times> string) list \<Rightarrow> dynamicForwarder \<Rightarrow> bool" where
  "supported pins f \<longleftrightarrow> (\<forall>p i. map_of pins p = Some i \<longrightarrow> claimed f p i)"

definition apart :: "dynamicForwarder \<Rightarrow> bool" where
  "apart f \<longleftrightarrow> (\<forall>k. map_of (df_routes f) k = None \<or> map_of (df_restored f) k = None)"

definition tables_ok :: "(string \<Rightarrow> bool) \<Rightarrow> dynamicForwarder \<Rightarrow> bool" where
  "tables_ok u f \<longleftrightarrow> keys_ok f \<and> routes_ok u f \<and> restored_ok u f \<and> discovered_ok u f
     \<and> supported (df_pins f) f \<and> apart f"

definition route_claim :: "dynamicForwardingRoute \<Rightarrow> routeDiscoveryMemory" where
  "route_claim r = \<lparr>rm_nodeID = ro_nodeID r, rm_discoveredAt = ro_discoveredAt r, rm_removedAt = 0\<rparr>"

lemma all_claims_map:
  assumes "keys_ok f"
  shows "map_of (all_claims f) k = (case map_of (df_routes f) k of Some r \<Rightarrow> Some (route_claim r)
      | None \<Rightarrow> (case map_of (df_restored f) k of Some c \<Rightarrow> Some c | None \<Rightarrow> map_of (df_discovered f) k))"
    and "distinct (map fst (all_claims f))"
proof -
  have d: "distinct (map fst (df_routes f))" "distinct (map fst (df_restored f))" "distinct (map fst (df_discovered f))"
    using assms by (simp_all add: keys_ok_def)
  have eq: "all_claims f = fold (\<lambda>(k, r). AList.update k (route_claim r)) (df_routes f)
      (fold (\<lambda>(k, c). AList.update k (id c)) (df_restored f) (df_discovered f))"
    by (simp add: all_claims_def route_claim_def id_def)
  show "map_of (all_claims f) k = (case map_of (df_routes f) k of Some r \<Rightarrow> Some (route_claim r)
      | None \<Rightarrow> (case map_of (df_restored f) k of Some c \<Rightarrow> Some c | None \<Rightarrow> map_of (df_discovered f) k))"
    unfolding eq map_of_fold_update [OF d(1)] map_of_fold_update [OF d(2)] by (simp split: option.splits)
  show "distinct (map fst (all_claims f))"
    unfolding eq by (intro distinct_fold_update d(3))
qed

section \<open>A snapshot validates\<close>

definition policy_of :: "(int \<times> string) list \<Rightarrow> dynamicForwarder \<Rightarrow> routingPolicy" where
  "policy_of pins f =
     \<lparr>po_Version = 1, po_Claims = sort_key (\<lambda>c. (rc_Node c, rc_Port c)) (map to_claim (all_claims f)),
      po_Pins = sort_key rp_Port (map to_pin pins)\<rparr>"

lemma snapshot_policy:
  "df_policyErr f = None \<Longrightarrow> routingPolicySnapshot pins f = Inr (policy_of (case pins of None \<Rightarrow> df_pins f | Some ps \<Rightarrow> ps) f)"
  by (simp add: routingPolicySnapshot_def policy_of_def)

lemma to_claim_simps [simp]:
  "claim_key (to_claim (k, c)) = k" "claim_memory (to_claim (k, c)) = c" "rc_RemovedAt (to_claim (k, c)) = rm_removedAt c"
  "rc_NodeID (to_claim (k, c)) = rm_nodeID c" "rc_DiscoveredAt (to_claim (k, c)) = rm_discoveredAt c"
  "claim_pin (to_claim (k, c)) = \<lparr>rp_Port = rk_port k, rp_NodeID = rm_nodeID c\<rparr>"
  by (simp_all add: to_claim_def claim_key_def claim_memory_def claim_pin_def)

lemma claim_keys: "map claim_key (map to_claim xs) = map fst xs"
  by (auto simp: to_claim_simps)

lemma all_claims_set:
  "keys_ok f \<Longrightarrow> (k, c) \<in> set (all_claims f) \<longleftrightarrow> map_of (all_claims f) k = Some c"
  using all_claims_map(2) [of f] by (simp add: map_of_eq_Some_iff)

lemma claimed_active:
  assumes "tables_ok u f" "claimed f p i"
  shows "\<exists>k c. (k, c) \<in> set (all_claims f) \<and> rk_port k = p \<and> rm_nodeID c = i \<and> rm_removedAt c = 0"
proof -
  note k = all_claims_map(1) [of f] all_claims_set [of f]
  have t: "keys_ok f" "restored_ok u f" "apart f" using assms(1) by (simp_all add: tables_ok_def)
  from assms(2) consider
      k r where "rk_port k = p" "map_of (df_routes f) k = Some r" "ro_nodeID r = i"
    | k c where "rk_port k = p" "map_of (df_restored f) k = Some c" "rm_nodeID c = i"
    unfolding claimed_def by blast
  then show ?thesis
  proof cases
    case 1
    then have "(k, route_claim r) \<in> set (all_claims f)" using k [OF t(1)] by simp
    with 1 show ?thesis by (force simp: route_claim_def)
  next
    case 2
    then have "map_of (df_routes f) k = None" using t(3) unfolding apart_def by (metis option.distinct(1))
    then have "(k, c) \<in> set (all_claims f)" using k [OF t(1)] 2 by simp
    moreover have "rm_removedAt c = 0" using t(2) 2 by (simp add: restored_ok_def)
    ultimately show ?thesis using 2 by blast
  qed
qed

lemma all_claims_ok:
  assumes "tables_ok u f" "(k, c) \<in> set (all_claims f)"
  shows "claim_ok u k (rm_nodeID c) (rm_discoveredAt c)"
proof -
  have t: "keys_ok f" "routes_ok u f" "restored_ok u f" "discovered_ok u f" using assms(1) by (simp_all add: tables_ok_def)
  from assms(2) have "map_of (all_claims f) k = Some c" using all_claims_set [OF t(1)] by simp
  then show ?thesis using t(2-4) unfolding all_claims_map(1) [OF t(1)]
    by (auto simp: routes_ok_def restored_ok_def discovered_ok_def route_claim_def split: option.splits)
qed

lemma policy_valid:
  assumes "tables_ok u f" "distinct (map fst pins)" "supported pins f"
  shows "validateRoutingPolicy u (policy_of pins f) = None"
proof -
  have k: "keys_ok f" using assms(1) by (simp add: tables_ok_def)
  have "list_all (good_claim u) (po_Claims (policy_of pins f))"
    using all_claims_ok [OF assms(1)] by (auto simp: policy_of_def list_all_iff good_claim_def)
  moreover have "distinct (map claim_key (po_Claims (policy_of pins f)))"
    unfolding policy_of_def routingPolicy.simps distinct_map_sort claim_keys by (rule all_claims_map(2) [OF k])
  moreover have "distinct (map rp_Port (po_Pins (policy_of pins f)))"
  proof -
    have "map rp_Port (map to_pin pins) = map fst pins" by (auto simp: to_pin_def)
    then show ?thesis unfolding policy_of_def routingPolicy.simps distinct_map_sort using assms(2) by (simp only:)
  qed
  moreover have "set (po_Pins (policy_of pins f)) \<subseteq> claim_pin ` {c \<in> set (po_Claims (policy_of pins f)). rc_RemovedAt c = 0}"
  proof
    fix x assume "x \<in> set (po_Pins (policy_of pins f))"
    then obtain p i where x: "(p, i) \<in> set pins" "x = \<lparr>rp_Port = p, rp_NodeID = i\<rparr>"
      by (auto simp: policy_of_def to_pin_def)
    then have "claimed f p i" using assms(2,3) by (auto simp: supported_def map_of_eq_Some_iff)
    from claimed_active [OF assms(1) this] obtain k c where
      c: "(k, c) \<in> set (all_claims f)" "rk_port k = p" "rm_nodeID c = i" "rm_removedAt c = 0" by blast
    then have "to_claim (k, c) \<in> {c \<in> set (po_Claims (policy_of pins f)). rc_RemovedAt c = 0}"
      by (simp add: policy_of_def)
    moreover have "x = claim_pin (to_claim (k, c))" using c x by simp
    ultimately show "x \<in> claim_pin ` {c \<in> set (po_Claims (policy_of pins f)). rc_RemovedAt c = 0}" by blast
  qed
  ultimately show ?thesis unfolding validate_iff by (simp add: policy_of_def)
qed

section \<open>Loading a valid file\<close>

definition claim_entry :: "routingClaim \<Rightarrow> dynamicRouteKey \<times> routeDiscoveryMemory" where
  "claim_entry c = (claim_key c, claim_memory c)"

lemma fold_load_claim:
  "fold load_claim cs f = f\<lparr>
     df_restored := fold (\<lambda>c. AList.update (claim_key c) (claim_memory c)) (filter (\<lambda>c. rc_RemovedAt c = 0) cs) (df_restored f),
     df_discovered := fold (\<lambda>c. AList.update (claim_key c) (claim_memory c)) (filter (\<lambda>c. rc_RemovedAt c \<noteq> 0) cs) (df_discovered f)\<rparr>"
  by (induction cs arbitrary: f) (simp_all add: load_claim_def)

lemma fold_load_pin:
  "fold load_pin ps f = f\<lparr>df_pins := fold (\<lambda>p. AList.update (rp_Port p) (rp_NodeID p)) ps (df_pins f)\<rparr>"
  by (induction ps arbitrary: f) (simp_all add: load_pin_def)

lemma load_valid:
  assumes "validateRoutingPolicy u p = None" "jsonLen p < routingPolicyLimit" "path \<noteq> []"
  shows "loadRoutingPolicy u jsonLen (PolicyJSON p) (newDynamicForwarder path epoch) =
     (newDynamicForwarder path epoch)\<lparr>
       df_restored := map claim_entry (filter (\<lambda>c. rc_RemovedAt c = 0) (po_Claims p)),
       df_discovered := map claim_entry (filter (\<lambda>c. rc_RemovedAt c \<noteq> 0) (po_Claims p)),
       df_pins := map (\<lambda>x. (rp_Port x, rp_NodeID x)) (po_Pins p)\<rparr>"
proof -
  have d: "distinct (map claim_key (po_Claims p))" "distinct (map rp_Port (po_Pins p))"
    using assms(1) by (simp_all add: validate_iff)
  have "loadRoutingPolicy u jsonLen (PolicyJSON p) (newDynamicForwarder path epoch) =
     fold load_pin (po_Pins p) (fold load_claim (po_Claims p) (newDynamicForwarder path epoch))"
    using assms by (simp add: loadRoutingPolicy_def read_policy_def newDynamicForwarder_def)
  also have "... = (newDynamicForwarder path epoch)\<lparr>
       df_restored := map claim_entry (filter (\<lambda>c. rc_RemovedAt c = 0) (po_Claims p)),
       df_discovered := map claim_entry (filter (\<lambda>c. rc_RemovedAt c \<noteq> 0) (po_Claims p)),
       df_pins := map (\<lambda>x. (rp_Port x, rp_NodeID x)) (po_Pins p)\<rparr>"
    unfolding fold_load_claim fold_load_pin claim_entry_def
    by (simp add: newDynamicForwarder_def fold_update_fresh [OF distinct_map_filter [OF d(1)]] fold_update_fresh [OF d(2)])
  finally show ?thesis .
qed

lemma pin_eta [simp]: "\<lparr>rp_Port = rp_Port x, rp_NodeID = rp_NodeID x\<rparr> = x"
  by (cases x) simp

lemma entry_simps [simp]:
  "fst (claim_entry c) = claim_key c" "snd (claim_entry c) = claim_memory c" "to_claim (claim_entry c) = c"
  by (simp_all add: claim_entry_def to_claim_def claim_key_def claim_memory_def)

lemma map_of_entries:
  "map_of (map claim_entry cs) k = Some m \<Longrightarrow> \<exists>c \<in> set cs. claim_key c = k \<and> claim_memory c = m"
  by (auto dest!: map_of_SomeD simp: claim_entry_def)

lemma map_of_entriesI:
  "distinct (map claim_key cs) \<Longrightarrow> c \<in> set cs \<Longrightarrow> map_of (map claim_entry cs) (claim_key c) = Some (claim_memory c)"
  by (subst map_of_eq_Some_iff) (auto simp: comp_def claim_entry_def image_iff)

lemma load_tables:
  assumes "validateRoutingPolicy u p = None" "jsonLen p < routingPolicyLimit" "path \<noteq> []"
  shows "tables_ok u (loadRoutingPolicy u jsonLen (PolicyJSON p) (newDynamicForwarder path epoch))"
proof -
  let ?act = "filter (\<lambda>c. rc_RemovedAt c = 0) (po_Claims p)"
  let ?old = "filter (\<lambda>c. rc_RemovedAt c \<noteq> 0) (po_Claims p)"
  let ?g = "loadRoutingPolicy u jsonLen (PolicyJSON p) (newDynamicForwarder path epoch)"
  note g = load_valid [where jsonLen = jsonLen and epoch = epoch, OF assms]
  have v: "list_all (good_claim u) (po_Claims p)" "distinct (map claim_key (po_Claims p))"
      "distinct (map rp_Port (po_Pins p))" "set (po_Pins p) \<subseteq> claim_pin ` set ?act"
    using assms(1) by (auto simp: validate_iff)
  have d: "distinct (map claim_key ?act)" "distinct (map claim_key ?old)"
    using v(2) by (rule distinct_map_filter)+
  have good: "\<And>c. c \<in> set (po_Claims p) \<Longrightarrow> claim_ok u (claim_key c) (rc_NodeID c) (rc_DiscoveredAt c)"
    using v(1) by (simp add: list_all_iff good_claim_def)
  have "keys_ok ?g" unfolding g keys_ok_def
    using v(3) d by (simp add: newDynamicForwarder_def comp_def)
  moreover have "routes_ok u ?g" "apart ?g" unfolding g by (simp_all add: routes_ok_def apart_def newDynamicForwarder_def)
  moreover have "restored_ok u ?g" unfolding g restored_ok_def
    by (auto simp: claim_memory_def intro: good dest!: map_of_entries)
  moreover have "discovered_ok u ?g" unfolding g discovered_ok_def
    by (auto simp: claim_memory_def intro: good dest!: map_of_entries)
  moreover have "supported (df_pins ?g) ?g" unfolding supported_def
  proof (intro allI impI)
    fix q i assume "map_of (df_pins ?g) q = Some i"
    then have "\<lparr>rp_Port = q, rp_NodeID = i\<rparr> \<in> set (po_Pins p)" unfolding g
      by (auto dest!: map_of_SomeD)
    then obtain c where c: "c \<in> set ?act" "claim_pin c = \<lparr>rp_Port = q, rp_NodeID = i\<rparr>" using v(4) by (auto simp del: set_filter)
    have "map_of (df_restored ?g) (claim_key c) = Some (claim_memory c)" unfolding g using map_of_entriesI [OF d(1) c(1)] by simp
    moreover have "rk_port (claim_key c) = q" "rm_nodeID (claim_memory c) = i"
      using c(2) by (simp_all add: claim_pin_def claim_key_def claim_memory_def)
    ultimately show "claimed ?g q i" unfolding claimed_def by blast
  qed
  ultimately show ?thesis by (simp add: tables_ok_def)
qed

text \<open>A loaded file, saved again, is the same file.\<close>

lemma sort_key_unique:
  assumes "mset xs = mset ys" "sorted (map k ys)" "distinct (map k ys)"
  shows "sort_key (k :: 'a \<Rightarrow> 'b :: linorder) xs = ys"
proof (rule map_sorted_distinct_set_unique [of k])
  have d: "distinct (map k (sort_key k xs))"
    unfolding distinct_map_sort using assms(1,3) by (metis mset_eq_imp_distinct_iff mset_map)
  have s: "set (sort_key k xs) = set ys" using assms(1) by (metis set_mset_mset set_sort)
  show "inj_on k (set (sort_key k xs) \<union> set ys)" using s assms(3) by (simp add: distinct_map)
  show "sorted (map k (sort_key k xs))" "distinct (map k (sort_key k xs))" "sorted (map k ys)" "distinct (map k ys)"
      "set (sort_key k xs) = set ys"
    using d s assms by simp_all
qed

lemma loaded_claims:
  assumes "distinct (map claim_key cs)"
    and "df_routes g = []" "df_restored g = map claim_entry (filter (\<lambda>c. rc_RemovedAt c = 0) cs)"
      "df_discovered g = map claim_entry (filter (\<lambda>c. rc_RemovedAt c \<noteq> 0) cs)"
  shows "mset (map to_claim (all_claims g)) = mset cs"
proof -
  let ?act = "filter (\<lambda>c. rc_RemovedAt c = 0) cs" and ?old = "filter (\<lambda>c. rc_RemovedAt c \<noteq> 0) cs"
  have i: "inj_on claim_key (set cs)" using assms(1) by (simp add: distinct_map)
  have "claim_key ` set ?act \<inter> fst ` set (map claim_entry ?old) = {}"
    using i by (auto dest: inj_onD)
  then have "fold (\<lambda>(key, claim). AList.update key claim) (map claim_entry ?act) (map claim_entry ?old)
      = map claim_entry ?old @ map claim_entry ?act"
    using fold_update_fresh [OF distinct_map_filter [OF assms(1)], of "\<lambda>c. rc_RemovedAt c = 0" "map claim_entry ?old" claim_memory]
    by (simp add: fold_map comp_def claim_entry_def)
  then have "map to_claim (all_claims g) = ?old @ ?act"
    unfolding all_claims_def assms(2-4) by (simp add: comp_def)
  then show ?thesis by (simp add: mset_filter union_commute)
qed

lemma load_save:
  assumes "validateRoutingPolicy u p = None" "jsonLen p < routingPolicyLimit" "path \<noteq> []"
    and "sorted (map (\<lambda>c. (rc_Node c, rc_Port c)) (po_Claims p))" "sorted (map rp_Port (po_Pins p))"
    and "g = loadRoutingPolicy u jsonLen (PolicyJSON p) (newDynamicForwarder path epoch)"
  shows "policy_of (df_pins g) g = p"
proof -
  note g = assms(6) [unfolded load_valid [where jsonLen = jsonLen and epoch = epoch, OF assms(1-3)]]
  have v: "po_Version p = 1" "distinct (map claim_key (po_Claims p))" "distinct (map rp_Port (po_Pins p))"
    using assms(1) by (auto simp: validate_iff)
  have c: "mset (map to_claim (all_claims g)) = mset (po_Claims p)"
    by (rule loaded_claims [OF v(2)]) (simp_all add: g newDynamicForwarder_def)
  have dc: "distinct (map (\<lambda>c. (rc_Node c, rc_Port c)) (po_Claims p))"
    using v(2) unfolding distinct_map by (auto simp: inj_on_def claim_key_def)
  have "map to_pin (df_pins g) = po_Pins p"
    unfolding g by (simp add: to_pin_def comp_def)
  then have "po_Pins (policy_of (df_pins g) g) = po_Pins p"
    using sort_key_unique [OF refl assms(5) v(3)] by (simp add: policy_of_def)
  moreover have "po_Claims (policy_of (df_pins g) g) = po_Claims p"
    unfolding policy_of_def using sort_key_unique [OF c assms(4) dc] by simp
  ultimately show ?thesis using v(1) by (simp add: policy_of_def)
qed

lemma policy_sorted:
  "sorted (map (\<lambda>c. (rc_Node c, rc_Port c)) (po_Claims (policy_of pins f)))" "sorted (map rp_Port (po_Pins (policy_of pins f)))"
  by (simp_all add: policy_of_def)

text \<open>What a restart finds: the pins and every active claim, with its owner and its time.\<close>

lemma load_snapshot:
  assumes "tables_ok u f" "distinct (map fst pins)" "supported pins f" "jsonLen (policy_of pins f) < routingPolicyLimit" "path \<noteq> []"
    and "g = loadRoutingPolicy u jsonLen (PolicyJSON (policy_of pins f)) (newDynamicForwarder path epoch)"
  shows "map_of (df_pins g) = map_of pins"
    and "map_of (df_restored g) k = (case map_of (df_routes f) k of Some r \<Rightarrow> Some (route_claim r) | None \<Rightarrow> map_of (df_restored f) k)"
proof -
  have v: "validateRoutingPolicy u (policy_of pins f) = None" by (rule policy_valid [OF assms(1-3)])
  note g = assms(6) [unfolded load_valid [where jsonLen = jsonLen and epoch = epoch, OF v assms(4,5)]]
  have t: "keys_ok f" "restored_ok u f" "discovered_ok u f" using assms(1) by (simp_all add: tables_ok_def)
  have "set (df_pins g) = set pins"
    unfolding g by (auto simp: policy_of_def to_pin_def image_image split_def)
  moreover have "distinct (map fst (df_pins g))"
    unfolding g using v by (simp add: validate_iff comp_def)
  ultimately show "map_of (df_pins g) = map_of pins" using assms(2) by (metis map_of_inject_set)
  let ?act = "filter (\<lambda>c. rc_RemovedAt c = 0) (po_Claims (policy_of pins f))"
  have s: "(k, c) \<in> set (df_restored g) \<longleftrightarrow> (k, c) \<in> set (all_claims f) \<and> rm_removedAt c = 0" for c
    unfolding g by (force simp: policy_of_def claim_entry_def)
  have "distinct (map fst (df_restored g))"
    unfolding g using v by (simp add: validate_iff comp_def distinct_map_filter)
  then have m: "map_of (df_restored g) k = Some c \<longleftrightarrow> map_of (all_claims f) k = Some c \<and> rm_removedAt c = 0" for c
    using s [of c] all_claims_set [OF t(1)] by (simp add: map_of_eq_Some_iff)
  have a: "(case map_of (df_routes f) k of Some r \<Rightarrow> Some (route_claim r) | None \<Rightarrow> map_of (df_restored f) k) = Some c
      \<longleftrightarrow> map_of (all_claims f) k = Some c \<and> rm_removedAt c = 0" for c
    unfolding all_claims_map(1) [OF t(1)] using t(2,3)
    by (auto simp: restored_ok_def discovered_ok_def route_claim_def split: option.splits)
  show "map_of (df_restored g) k = (case map_of (df_routes f) k of Some r \<Rightarrow> Some (route_claim r) | None \<Rightarrow> map_of (df_restored f) k)"
    using m a by (metis not_Some_eq)
qed

end
