(* ===== verification/ForwardingTables.thy ===== *)
theory ForwardingTables
  imports ForwardingPolicy
begin

text \<open>
  The consistency of the forwarder's tables under discovery: removing and adding routes, an
  inventory (\<^verbatim>\<open>syncMembership\<close>) and a scan (\<^verbatim>\<open>applyScanResult\<close>). Every pin keeps a claim, saved claims
  and routes stay apart, and a pass over the inventory decides every saved claim.
\<close>

section \<open>Frames\<close>

text \<open>What the policy sees of the routes: their keys, owners and times.\<close>

definition route_ids :: "dynamicForwarder \<Rightarrow> (dynamicRouteKey \<times> dynamicRouteKey \<times> string \<times> gotime) list" where
  "route_ids f = map (\<lambda>(k, r). (k, ro_key r, ro_nodeID r, ro_discoveredAt r)) (df_routes f)"

lemma route_ids_map:
  "map_of (route_ids f) k = map_option (\<lambda>r. (ro_key r, ro_nodeID r, ro_discoveredAt r)) (map_of (df_routes f) k)"
  unfolding route_ids_def by (simp add: map_of_map)

lemma route_ids_keys: "map fst (route_ids f) = map fst (df_routes f)"
  by (simp add: route_ids_def comp_def split_def)

lemma same_routes:
  assumes "route_ids f' = route_ids f"
  shows "map fst (df_routes f') = map fst (df_routes f)"
    and "map_of (df_routes f') k = None \<longleftrightarrow> map_of (df_routes f) k = None"
    and "map_of (df_routes f') k = Some r' \<Longrightarrow> \<exists>r. map_of (df_routes f) k = Some r \<and> ro_key r = ro_key r'
       \<and> ro_nodeID r = ro_nodeID r' \<and> ro_discoveredAt r = ro_discoveredAt r'"
proof -
  show "map fst (df_routes f') = map fst (df_routes f)" using assms route_ids_keys by metis
  have e: "map_option (\<lambda>r. (ro_key r, ro_nodeID r, ro_discoveredAt r)) (map_of (df_routes f') k)
      = map_option (\<lambda>r. (ro_key r, ro_nodeID r, ro_discoveredAt r)) (map_of (df_routes f) k)"
    using assms route_ids_map [of f k] route_ids_map [of f' k] by simp
  then show "map_of (df_routes f') k = None \<longleftrightarrow> map_of (df_routes f) k = None"
    by (cases "map_of (df_routes f) k") auto
  show "map_of (df_routes f') k = Some r' \<Longrightarrow> \<exists>r. map_of (df_routes f) k = Some r \<and> ro_key r = ro_key r'
       \<and> ro_nodeID r = ro_nodeID r' \<and> ro_discoveredAt r = ro_discoveredAt r'"
    using e by (cases "map_of (df_routes f) k") auto
qed

lemma claimed_frame:
  assumes "route_ids f' = route_ids f" "df_restored f' = df_restored f" "claimed f p i"
  shows "claimed f' p i"
  using assms(3) same_routes(3) [OF assms(1) [symmetric]] unfolding claimed_def assms(2) by metis

lemma supported_frame:
  assumes "route_ids f' = route_ids f" "df_restored f' = df_restored f" "supported pins f"
  shows "supported pins f'"
  using assms(3) claimed_frame [OF assms(1,2)] by (auto simp: supported_def)

lemma tables_frame:
  assumes "route_ids f' = route_ids f" "df_restored f' = df_restored f" "df_discovered f' = df_discovered f"
    and "df_pins f' = df_pins f" "tables_ok u f"
  shows "tables_ok u f'"
proof -
  note sr = same_routes [OF assms(1)]
  have "keys_ok f'" using assms(5) sr(1) by (simp add: tables_ok_def keys_ok_def assms(2-4))
  moreover have "routes_ok u f'" using assms(5) sr(3) unfolding tables_ok_def routes_ok_def by metis
  moreover have "restored_ok u f'" "discovered_ok u f'"
    using assms(5) by (simp_all add: tables_ok_def restored_ok_def discovered_ok_def assms(2,3))
  moreover have "supported (df_pins f') f'"
    using supported_frame [OF assms(1,2)] assms(5) by (simp add: tables_ok_def assms(4))
  moreover have "apart f'" using assms(5) sr(2) by (simp add: tables_ok_def apart_def assms(2))
  ultimately show ?thesis by (simp add: tables_ok_def)
qed

definition nodes_ok :: "(string \<Rightarrow> bool) \<Rightarrow> dynamicForwarder \<Rightarrow> bool" where
  "nodes_ok u f \<longleftrightarrow> distinct (map fst (df_nodes f)) \<and> (\<forall>i s. map_of (df_nodes f) i = Some s \<longrightarrow>
     n_ID (fs_node s) = i \<and> u i \<and> valid_sandbox_name (n_SandboxName (fs_node s)))"

text \<open>Saved claims are only there before the first inventory.\<close>

definition settled :: "dynamicForwarder \<Rightarrow> bool" where
  "settled f \<longleftrightarrow> df_restored f = [] \<or> (df_nodes f = [] \<and> df_routes f = [])"

definition forwarder_ok :: "(string \<Rightarrow> bool) \<Rightarrow> dynamicForwarder \<Rightarrow> bool" where
  "forwarder_ok u f \<longleftrightarrow> tables_ok u f \<and> nodes_ok u f \<and> settled f"

section \<open>Removing\<close>

lemma unpin_simps [simp]:
  "df_restored (unpin p i f) = df_restored f" "df_routes (unpin p i f) = df_routes f"
  "df_discovered (unpin p i f) = df_discovered f" "df_nodes (unpin p i f) = df_nodes f"
  by (simp_all add: unpin_def)

lemma unpin_map:
  "map_of (df_pins (unpin p i f)) q = Some j \<Longrightarrow> map_of (df_pins f) q = Some j \<and> (q = p \<longrightarrow> j \<noteq> i)"
  by (auto simp: unpin_def pin_at_def delete_conv' split: if_splits option.splits)

lemma unpin_distinct: "distinct (map fst (df_pins f)) \<Longrightarrow> distinct (map fst (df_pins (unpin p i f)))"
  by (simp add: unpin_def distinct_delete)

text \<open>Dropping a claim together with its pin keeps the tables consistent.\<close>

lemma drop_restored_tables:
  assumes "tables_ok u f" "\<forall>c. map_of (df_restored f) k = Some c \<longrightarrow> rm_nodeID c = rm_nodeID claim"
  shows "tables_ok u (drop_restored (k, claim) f)"
proof -
  let ?g = "drop_restored (k, claim) f"
  have g: "df_routes ?g = df_routes f" "df_discovered ?g = df_discovered f" "df_restored ?g = AList.delete k (df_restored f)"
    by (simp_all add: drop_restored_def)
  have pins: "map_of (df_pins ?g) q = Some j \<Longrightarrow> map_of (df_pins f) q = Some j \<and> (q = rk_port k \<longrightarrow> j \<noteq> rm_nodeID claim)" for q j
    unfolding drop_restored_def by (auto dest!: unpin_map)
  have t: "keys_ok f" "routes_ok u f" "restored_ok u f" "discovered_ok u f" "supported (df_pins f) f" "apart f"
    using assms(1) by (simp_all add: tables_ok_def)
  have "keys_ok ?g" using t(1) g unpin_distinct
    by (simp add: keys_ok_def distinct_delete) (simp add: drop_restored_def unpin_distinct)
  moreover have "routes_ok u ?g" "discovered_ok u ?g" using t by (simp_all add: routes_ok_def discovered_ok_def g)
  moreover have "restored_ok u ?g" using t(3) by (simp add: restored_ok_def g delete_conv')
  moreover have "apart ?g" using t(6) by (auto simp: apart_def g delete_conv')
  moreover have "supported (df_pins ?g) ?g" unfolding supported_def
  proof (intro allI impI)
    fix q j assume "map_of (df_pins ?g) q = Some j"
    from pins [OF this] have q: "map_of (df_pins f) q = Some j" "q = rk_port k \<longrightarrow> j \<noteq> rm_nodeID claim" by auto
    then have "claimed f q j" using t(5) by (simp add: supported_def)
    then show "claimed ?g q j" using q(2) assms(2) unfolding claimed_def g delete_conv' by (metis fun_upd_other)
  qed
  ultimately show ?thesis by (simp add: tables_ok_def)
qed

lemma removeRoute_simps [simp]:
  "df_restored (removeRouteLocked now x f) = df_restored f"
  "df_routes (removeRouteLocked now x f) = AList.delete (fst x) (df_routes f)"
  "df_nodes (removeRouteLocked now x f) = df_nodes f"
  by (simp_all add: removeRouteLocked_def Let_def split_def)

lemma removeRoute_tables:
  assumes "tables_ok u f" "now \<noteq> 0" "claim_ok u k (ro_nodeID route) (ro_discoveredAt route)"
    and "\<forall>r. map_of (df_routes f) k = Some r \<longrightarrow> ro_nodeID r = ro_nodeID route"
  shows "tables_ok u (removeRouteLocked now (k, route) f)"
proof -
  let ?g = "removeRouteLocked now (k, route) f"
  let ?m = "\<lparr>rm_nodeID = ro_nodeID route, rm_discoveredAt = ro_discoveredAt route, rm_removedAt = now\<rparr>"
  have g: "df_discovered ?g = AList.update k ?m (df_discovered f)"
    by (simp add: removeRouteLocked_def Let_def)
  have pins: "map_of (df_pins ?g) q = Some j \<Longrightarrow> map_of (df_pins f) q = Some j \<and> (q = rk_port k \<longrightarrow> j \<noteq> ro_nodeID route)" for q j
    unfolding removeRouteLocked_def by (auto simp: Let_def dest!: unpin_map)
  have t: "keys_ok f" "routes_ok u f" "restored_ok u f" "discovered_ok u f" "supported (df_pins f) f" "apart f"
    using assms(1) by (simp_all add: tables_ok_def)
  have "distinct (map fst (df_pins ?g))"
    using t(1) unfolding removeRouteLocked_def by (simp add: Let_def keys_ok_def unpin_distinct)
  then have "keys_ok ?g" using t(1) g by (simp add: keys_ok_def distinct_delete distinct_update)
  moreover have "routes_ok u ?g" using t(2) by (simp add: routes_ok_def delete_conv')
  moreover have "restored_ok u ?g" using t(3) by (simp add: restored_ok_def)
  moreover have "discovered_ok u ?g" using t(4) assms(2,3) by (simp add: discovered_ok_def g update_conv')
  moreover have "apart ?g" using t(6) by (auto simp: apart_def delete_conv')
  moreover have "supported (df_pins ?g) ?g" unfolding supported_def
  proof (intro allI impI)
    fix q j assume "map_of (df_pins ?g) q = Some j"
    from pins [OF this] have q: "map_of (df_pins f) q = Some j" "q = rk_port k \<longrightarrow> j \<noteq> ro_nodeID route" by auto
    then have "claimed f q j" using t(5) by (simp add: supported_def)
    then show "claimed ?g q j" using q(2) assms(4) unfolding claimed_def removeRoute_simps delete_conv' fst_conv
      by (metis fun_upd_other)
  qed
  ultimately show ?thesis by (simp add: tables_ok_def)
qed

lemma remove_routes:
  assumes "tables_ok u f" "now \<noteq> 0" "set L \<subseteq> set (df_routes f)"
  shows "tables_ok u (fold (removeRouteLocked now) L f)"
proof -
  have t: "distinct (map fst (df_routes f))" "routes_ok u f" using assms(1) by (simp_all add: tables_ok_def keys_ok_def)
  let ?P = "\<lambda>g. tables_ok u g \<and> map_of (df_routes g) \<subseteq>\<^sub>m map_of (df_routes f)"
  have "?P (fold (removeRouteLocked now) L f)"
  proof (rule fold_invariant [of L "\<lambda>x. x \<in> set (df_routes f)"])
    show "?P f" using assms(1) by simp
    show "\<And>x. x \<in> set L \<Longrightarrow> x \<in> set (df_routes f)" using assms(3) by blast
    fix x g assume x: "x \<in> set (df_routes f)" and g: "?P g"
    obtain k r where kr: "x = (k, r)" by fastforce
    have f: "map_of (df_routes f) k = Some r" using x kr t(1) by simp
    have "tables_ok u (removeRouteLocked now (k, r) g)"
    proof (rule removeRoute_tables)
      show "claim_ok u k (ro_nodeID r) (ro_discoveredAt r)" using f t(2) by (simp add: routes_ok_def)
      show "\<forall>r'. map_of (df_routes g) k = Some r' \<longrightarrow> ro_nodeID r' = ro_nodeID r"
        using g f by (auto simp: map_le_def dom_def)
    qed (use g assms(2) in simp_all)
    moreover have "map_of (df_routes (removeRouteLocked now (k, r) g)) \<subseteq>\<^sub>m map_of (df_routes f)"
      using g by (auto simp: delete_conv' map_le_def)
    ultimately show "?P (removeRouteLocked now x g)" using kr by simp
  qed
  then show ?thesis by blast
qed

lemma fold_remove_simps [simp]:
  "df_restored (fold (removeRouteLocked now) L f) = df_restored f"
  "df_nodes (fold (removeRouteLocked now) L f) = df_nodes f"
  "df_routes (fold (removeRouteLocked now) L f) = filter (\<lambda>(k, r). k \<notin> fst ` set L) (df_routes f)"
proof -
  show "df_restored (fold (removeRouteLocked now) L f) = df_restored f"
    "df_nodes (fold (removeRouteLocked now) L f) = df_nodes f" by (induction L arbitrary: f) simp_all
  show "df_routes (fold (removeRouteLocked now) L f) = filter (\<lambda>(k, r). k \<notin> fst ` set L) (df_routes f)"
  proof (induction L arbitrary: f)
    case (Cons x L)
    have "filter (\<lambda>(k, r). k \<notin> fst ` set L) (AList.delete (fst x) (df_routes f))
        = filter (\<lambda>(k, r). k \<notin> fst ` set (x # L)) (df_routes f)"
      unfolding AList.delete_eq filter_filter by (rule filter_cong) auto
    then show ?case by (simp add: Cons.IH)
  qed (simp add: filter_True split_def)
qed

lemma forget_node_tables:
  assumes "tables_ok u f"
  shows "tables_ok u (f\<lparr>df_pins := filter (\<lambda>(port, i). i \<noteq> nodeID) (df_pins f),
      df_restored := filter (\<lambda>(key, claim). rm_nodeID claim \<noteq> nodeID) (df_restored f)\<rparr>)" (is "tables_ok u ?g")
proof -
  have t: "keys_ok f" "routes_ok u f" "restored_ok u f" "discovered_ok u f" "supported (df_pins f) f" "apart f"
    using assms(1) by (simp_all add: tables_ok_def)
  have d: "distinct (map fst (df_pins f))" "distinct (map fst (df_restored f))" using t(1) by (simp_all add: keys_ok_def)
  note mf = map_of_filter_distinct [OF d(1), of "\<lambda>port i. i \<noteq> nodeID"]
    map_of_filter_distinct [OF d(2), of "\<lambda>key claim. rm_nodeID claim \<noteq> nodeID"]
  have "keys_ok ?g" using t(1) d by (simp add: keys_ok_def distinct_map_filter)
  moreover have "routes_ok u ?g" "discovered_ok u ?g" using t by (simp_all add: routes_ok_def discovered_ok_def)
  moreover have "restored_ok u ?g" using t(3) by (auto simp: restored_ok_def mf split: option.splits if_splits)
  moreover have "apart ?g" using t(6) by (auto simp: apart_def mf split: option.splits)
  moreover have "supported (df_pins ?g) ?g" unfolding supported_def
  proof (intro allI impI)
    fix q j assume "map_of (df_pins ?g) q = Some j"
    then have q: "map_of (df_pins f) q = Some j" "j \<noteq> nodeID" by (auto simp: mf split: option.splits if_splits)
    then have "claimed f q j" using t(5) by (simp add: supported_def)
    then show "claimed ?g q j" using q(2) unfolding claimed_def by (auto simp: mf)
  qed
  ultimately show ?thesis by (simp add: tables_ok_def)
qed

lemma removeNodeRoutes_tables:
  assumes "tables_ok u f" "now \<noteq> 0"
  shows "tables_ok u (removeNodeRoutesLocked nodeID now f)"
  unfolding removeNodeRoutesLocked_def Let_def
  by (rule remove_routes [OF forget_node_tables [OF assms(1)] assms(2)]) auto

lemma removeNodeRoutes_simps [simp]:
  "df_nodes (removeNodeRoutesLocked i now f) = df_nodes f"
  "df_restored (removeNodeRoutesLocked i now f) = filter (\<lambda>(key, claim). rm_nodeID claim \<noteq> i) (df_restored f)"
  by (simp_all add: removeNodeRoutesLocked_def Let_def)

lemma tables_ignore [simp]:
  "tables_ok u (f\<lparr>df_nodes := x1\<rparr>) = tables_ok u f" "tables_ok u (f\<lparr>df_metrics := x2\<rparr>) = tables_ok u f"
  "tables_ok u (f\<lparr>df_inventory := x3\<rparr>) = tables_ok u f" "tables_ok u (f\<lparr>df_known := x4\<rparr>) = tables_ok u f"
  "tables_ok u (f\<lparr>df_inventoryErr := x5\<rparr>) = tables_ok u f" "tables_ok u (f\<lparr>df_inventoryErrSince := x6\<rparr>) = tables_ok u f"
  "tables_ok u (f\<lparr>df_inventoryWarnAt := x6\<rparr>) = tables_ok u f"
  by (simp_all add: tables_ok_def keys_ok_def routes_ok_def restored_ok_def discovered_ok_def supported_def claimed_def apart_def)

lemma nodes_ignore [simp]:
  "nodes_ok u (f\<lparr>df_metrics := x2\<rparr>) = nodes_ok u f"
  "nodes_ok u (f\<lparr>df_inventory := x3\<rparr>) = nodes_ok u f" "nodes_ok u (f\<lparr>df_known := x4\<rparr>) = nodes_ok u f"
  "nodes_ok u (f\<lparr>df_inventoryErr := x5\<rparr>) = nodes_ok u f" "nodes_ok u (f\<lparr>df_inventoryErrSince := x6\<rparr>) = nodes_ok u f"
  "nodes_ok u (f\<lparr>df_inventoryWarnAt := x6\<rparr>) = nodes_ok u f" "nodes_ok u (f\<lparr>df_routes := x7\<rparr>) = nodes_ok u f"
  "nodes_ok u (f\<lparr>df_restored := x8\<rparr>) = nodes_ok u f" "nodes_ok u (removeNodeRoutesLocked i now f) = nodes_ok u f"
  "nodes_ok u (f\<lparr>df_discovered := x8\<rparr>) = nodes_ok u f"
  by (simp_all add: nodes_ok_def)

section \<open>Adding and refreshing\<close>

lemma new_route_tables:
  assumes "tables_ok u f" "map_of (df_routes f) k = None" "ro_key r = k" "claim_ok u k (ro_nodeID r) (ro_discoveredAt r)"
    and "\<forall>c. map_of (df_restored f) k = Some c \<longrightarrow> rm_nodeID c = ro_nodeID r"
  shows "tables_ok u (f\<lparr>df_routes := AList.update k r (df_routes f), df_restored := AList.delete k (df_restored f)\<rparr>)"
    (is "tables_ok u ?g")
proof -
  have t: "keys_ok f" "routes_ok u f" "restored_ok u f" "discovered_ok u f" "supported (df_pins f) f" "apart f"
    using assms(1) by (simp_all add: tables_ok_def)
  have "keys_ok ?g" using t(1) by (simp add: keys_ok_def distinct_update distinct_delete)
  moreover have "routes_ok u ?g" using t(2) assms(3,4) by (simp add: routes_ok_def update_conv')
  moreover have "restored_ok u ?g" "discovered_ok u ?g" using t by (simp_all add: restored_ok_def discovered_ok_def delete_conv')
  moreover have "apart ?g" using t(6) by (auto simp: apart_def update_conv' delete_conv')
  moreover have "supported (df_pins ?g) ?g"
  proof -
    have "claimed ?g q j" if "claimed f q j" for q j
    proof -
      from that obtain k' where k': "rk_port k' = q" "(\<exists>r. map_of (df_routes f) k' = Some r \<and> ro_nodeID r = j)
          \<or> (\<exists>c. map_of (df_restored f) k' = Some c \<and> rm_nodeID c = j)" unfolding claimed_def by blast
      show ?thesis
      proof (cases "k' = k")
        case True
        then have "ro_nodeID r = j" using k'(2) assms(2,5) by auto
        then show ?thesis using True k'(1) unfolding claimed_def by (auto simp: update_conv')
      next
        case False
        then show ?thesis using k' unfolding claimed_def by (auto simp: update_conv' delete_conv')
      qed
    qed
    then show ?thesis using t(5) by (simp add: supported_def)
  qed
  ultimately show ?thesis by (simp add: tables_ok_def)
qed

lemma refresh_route_ids:
  assumes "map_of (df_routes f) k = Some r" "ro_key r' = ro_key r" "ro_nodeID r' = ro_nodeID r"
    "ro_discoveredAt r' = ro_discoveredAt r"
  shows "route_ids (f\<lparr>df_routes := AList.update k r' (df_routes f)\<rparr>) = route_ids f"
proof -
  have "map_of xs k = Some r \<Longrightarrow> map (\<lambda>(k, r). (k, ro_key r, ro_nodeID r, ro_discoveredAt r)) (AList.update k r' xs)
      = map (\<lambda>(k, r). (k, ro_key r, ro_nodeID r, ro_discoveredAt r)) xs" for xs
    by (induction xs) (auto simp: assms split: if_splits)
  then show ?thesis using assms(1) by (simp add: route_ids_def)
qed

section \<open>The inventory\<close>

lemma alnum_lower: "\<forall>c :: char. (alnum c \<longrightarrow> alnum (lower_char c)) \<and> (alnum c \<longrightarrow> c \<noteq> CHR 0xE2 \<and> c \<noteq> CHR 0xC4)"
  by code_simp

lemma punctuation_lower: "c \<in> set ''._ -'' \<Longrightarrow> lower_char c = c \<and> c \<noteq> CHR 0xE2 \<and> c \<noteq> CHR 0xC4"
  by (auto simp: lower_char_def)

lemma ToLower_ascii: "list_all (\<lambda>c. c \<noteq> CHR 0xE2 \<and> c \<noteq> CHR 0xC4) cs \<Longrightarrow> ToLower cs = map lower_char cs"
  by (induction cs) auto

lemma valid_lower:
  assumes "valid_sandbox_name n"
  shows "valid_sandbox_name (ToLower n)"
proof -
  from assms obtain c cs where n: "n = c # cs" "alnum c" "list_all (\<lambda>c. alnum c \<or> c \<in> set ''._ -'') cs"
      "length n \<le> 128" "CHR '' '' \<notin> set n"
    by (cases n) (auto simp: valid_sandbox_name_def)
  have a: "alnum x \<or> x \<in> set ''._ -''" if "x \<in> set n" for x using n(1-3) that by (auto simp: list_all_iff)
  have l: "ToLower n = map lower_char n"
  proof (rule ToLower_ascii)
    show "list_all (\<lambda>c. c \<noteq> CHR 0xE2 \<and> c \<noteq> CHR 0xC4) n"
      unfolding list_all_iff using a alnum_lower punctuation_lower by blast
  qed
  have b: "alnum (lower_char x) \<or> lower_char x \<in> set ''._ -''" if "x \<in> set n" for x
    using a [OF that] alnum_lower punctuation_lower by metis
  have "\<not> alnum CHR '' ''" by code_simp
  have "CHR '' '' \<notin> set (map lower_char n)"
  proof -
    have "lower_char x \<noteq> CHR '' ''" if "x \<in> set n" for x
    proof (cases "alnum x")
      case True
      then have "alnum (lower_char x)" using alnum_lower by blast
      then show ?thesis using \<open>\<not> alnum CHR '' ''\<close> by metis
    next
      case False
      then have "lower_char x = x" using a [OF that] punctuation_lower by blast
      then show ?thesis using n(5) that by metis
    qed
    then show ?thesis by (metis imageE list.set_map)
  qed
  moreover have "list_all (\<lambda>c. alnum c \<or> c \<in> set ''._ -'') (map lower_char cs)"
    using b n(1) by (simp add: list_all_iff)
  moreover have "alnum (lower_char c)" using n(2) alnum_lower by blast
  ultimately show ?thesis unfolding l using n(1,4) by (simp add: valid_sandbox_name_def)
qed

definition inventory_ok :: "(string \<Rightarrow> bool) \<Rightarrow> Node list \<Rightarrow> bool" where
  "inventory_ok u nodes \<longleftrightarrow> list_all (\<lambda>n. u (n_ID n) \<and> valid_sandbox_name (n_SandboxName n)) nodes"

lemma by_id_map: "map_of (by_id nodes) i = Some n \<Longrightarrow> n \<in> set nodes \<and> n_ID n = i"
proof (induction nodes rule: rev_induct)
  case (snoc x xs)
  then show ?case by (cases "i = n_ID x") (simp_all add: by_id_def update_conv')
qed (simp add: by_id_def)

lemma by_id_distinct: "distinct (map fst (by_id nodes))"
  unfolding by_id_def by (induction nodes rule: rev_induct) (auto simp: distinct_update)

text \<open>What the loops of a pass may assume of an entry of the inventory.\<close>

definition present_ok :: "(string \<Rightarrow> bool) \<Rightarrow> (string \<times> Node) list \<Rightarrow> bool" where
  "present_ok u present \<longleftrightarrow> (\<forall>i n. map_of present i = Some n \<longrightarrow> n_ID n = i \<and> u i \<and> valid_sandbox_name (n_SandboxName n))"

lemma by_id_ok: "inventory_ok u nodes \<Longrightarrow> present_ok u (by_id nodes)"
  unfolding present_ok_def using by_id_map by (auto simp: inventory_ok_def list_all_iff)

lemma inventory_filter: "inventory_ok u nodes \<Longrightarrow> inventory_ok u (filter P nodes)"
  by (simp add: inventory_ok_def list_all_iff)

lemma update_node_ok:
  assumes "nodes_ok u f" "n_ID (fs_node s) = i" "u i" "valid_sandbox_name (n_SandboxName (fs_node s))"
  shows "nodes_ok u (f\<lparr>df_nodes := AList.update i s (df_nodes f)\<rparr>)"
  using assms by (simp add: nodes_ok_def distinct_update update_conv')

lemma ensure_node_ok:
  assumes "nodes_ok u f" "n_ID node = i" "u i" "valid_sandbox_name (n_SandboxName node)"
  shows "nodes_ok u (ensure_node i node f)" "tables_ok u (ensure_node i node f) = tables_ok u f"
    "map_of (df_nodes (ensure_node i node f)) i \<noteq> None"
  using update_node_ok [OF assms(1), of "new_node_state node" i] assms
  by (simp_all add: ensure_node_def new_node_state_def update_conv' del: map_of_eq_None_iff)

lemma ensure_node_simps [simp]:
  "df_restored (ensure_node i n f) = df_restored f" "df_routes (ensure_node i n f) = df_routes f"
  "df_pins (ensure_node i n f) = df_pins f" "df_discovered (ensure_node i n f) = df_discovered f"
  by (simp_all add: ensure_node_def)

lemma drop_restored_simps [simp]:
  "df_nodes (drop_restored x f) = df_nodes f" "df_routes (drop_restored x f) = df_routes f"
  "df_restored (drop_restored x f) = AList.delete (fst x) (df_restored f)"
  "nodes_ok u (drop_restored x f) = nodes_ok u f"
  by (simp_all add: drop_restored_def split_def nodes_ok_def)

lemma restored_same: "g\<lparr>df_restored := df_restored g\<rparr> = g"
  by simp

lemma sync_restored_ok:
  assumes "tables_ok u f" "nodes_ok u f" "present_ok u present"
    and "claim_ok u k (rm_nodeID claim) (rm_discoveredAt claim)"
    and "\<forall>c. map_of (df_restored f) k = Some c \<longrightarrow> c = claim"
  shows "tables_ok u (sync_restored present now (k, claim) f) \<and> nodes_ok u (sync_restored present now (k, claim) f)"
proof -
  have dropped: ?thesis if "sync_restored present now (k, claim) f = drop_restored (k, claim) f"
    unfolding that using assms(1,2,5) by (simp add: drop_restored_tables)
  show ?thesis
  proof (cases "map_of present (rm_nodeID claim)")
    case None
    then show ?thesis by (intro dropped) (simp add: sync_restored_def)
  next
    case (Some node)
    then have n: "n_ID node = rm_nodeID claim" "u (rm_nodeID claim)" "valid_sandbox_name (n_SandboxName node)"
      using assms(3) by (auto simp: present_ok_def)
    note e = ensure_node_ok [OF assms(2) n]
    let ?r = "(newDynamicForwardingRoute node (rk_port k) None (rm_discoveredAt claim))
        \<lparr>ro_lapsed := True, ro_lapsedAt := now, ro_seenAt := 0\<rparr>"
    let ?e = "ensure_node (rm_nodeID claim) node f"
    consider "rk_node k \<noteq> ToLower (n_SandboxName node)" | "rk_node k = ToLower (n_SandboxName node)" "\<not> applicationRoutesReady node"
      | "rk_node k = ToLower (n_SandboxName node)" "applicationRoutesReady node" "map_of (df_routes f) k = None"
      | "rk_node k = ToLower (n_SandboxName node)" "applicationRoutesReady node" "map_of (df_routes f) k \<noteq> None" by blast
    then show ?thesis
    proof cases
      case 1
      then show ?thesis by (intro dropped) (simp add: sync_restored_def Some)
    next
      case 2
      then show ?thesis using e assms(1) by (simp add: sync_restored_def Some)
    next
      case 3
      have k: "route_key node (rk_port k) = k" using 3(1) by (simp add: route_key_def)
      have "tables_ok u (?e\<lparr>df_routes := AList.update k ?r (df_routes ?e), df_restored := AList.delete k (df_restored ?e)\<rparr>)"
        using e(2) assms(1,4,5) 3(3) k n(1)
        by (intro new_route_tables) (simp_all add: newDynamicForwardingRoute_def del: map_of_eq_None_iff)
      moreover have "sync_restored present now (k, claim) f =
          ?e\<lparr>df_routes := AList.update k ?r (df_routes ?e), df_restored := AList.delete k (df_restored ?e)\<rparr>"
        using 3 Some by (simp add: sync_restored_def Let_def del: map_of_eq_None_iff)
      ultimately show ?thesis using e(1) by simp
    next
      case 4
      then have "map_of (df_restored f) k = None" using assms(1) unfolding tables_ok_def apart_def by metis
      then have d: "AList.delete k (df_restored ?e) = df_restored ?e" by (simp add: map_of_eq_None_iff)
      have "sync_restored present now (k, claim) f = ?e\<lparr>df_restored := AList.delete k (df_restored ?e)\<rparr>"
        using 4 Some by (simp add: sync_restored_def Let_def del: map_of_eq_None_iff not_None_eq)
      also have "... = ?e" unfolding d by (rule restored_same)
      finally have "sync_restored present now (k, claim) f = ?e" .
      then show ?thesis using e assms(1) by simp
    qed
  qed
qed

text \<open>A saved claim that a pass has not yet decided belongs to a known node that is not ready.\<close>

definition waiting :: "(string \<times> Node) list \<Rightarrow> string \<Rightarrow> dynamicForwarder \<Rightarrow> bool" where
  "waiting present i f \<longleftrightarrow> (\<exists>n. map_of present i = Some n \<and> \<not> applicationRoutesReady n) \<and> i \<in> fst ` set (df_nodes f)"

lemma ensure_node_keys: "fst ` set (df_nodes (ensure_node i n f)) = insert i (fst ` set (df_nodes f))"
  by (auto simp: ensure_node_def dom_update map_of_eq_None_iff)

lemma sync_restored_effect:
  "fst ` set (df_nodes f) \<subseteq> fst ` set (df_nodes (sync_restored present now (k, claim) f))"
  "df_restored (sync_restored present now (k, claim) f) = AList.delete k (df_restored f)
    \<or> df_restored (sync_restored present now (k, claim) f) = df_restored f
      \<and> waiting present (rm_nodeID claim) (sync_restored present now (k, claim) f)"
  by (auto simp: sync_restored_def Let_def waiting_def ensure_node_keys split: option.splits)

lemma sync_claims_from:
  assumes "tables_ok u g" "nodes_ok u g" "present_ok u present" "restored_ok u f" "distinct (map fst (df_restored f))"
    and "set L \<subseteq> set (df_restored f)" "set (df_restored g) \<subseteq> set (df_restored f)"
    and "\<forall>(k, c) \<in> set (df_restored g). (k, c) \<in> set L \<or> waiting present (rm_nodeID c) g"
  shows "tables_ok u (fold (sync_restored present now) L g) \<and> nodes_ok u (fold (sync_restored present now) L g)
    \<and> (\<forall>(k, c) \<in> set (df_restored (fold (sync_restored present now) L g)).
         waiting present (rm_nodeID c) (fold (sync_restored present now) L g))"
  using assms(1,2,6-8)
proof (induction L arbitrary: g)
  case (Cons x L)
  obtain k claim where x: "x = (k, claim)" by fastforce
  let ?h = "sync_restored present now (k, claim) g"
  have kf: "map_of (df_restored f) k = Some claim" using Cons.prems(3) x assms(5) by simp
  have one: "\<forall>c. map_of (df_restored g) k = Some c \<longrightarrow> c = claim"
  proof (intro allI impI)
    fix c assume "map_of (df_restored g) k = Some c"
    then have "(k, c) \<in> set (df_restored f)" using Cons.prems(4) by (auto dest: map_of_SomeD)
    then show "c = claim" using kf assms(5) by simp
  qed
  have ok: "tables_ok u ?h \<and> nodes_ok u ?h"
    using kf assms(4) one by (intro sync_restored_ok Cons.prems assms(3)) (simp_all add: restored_ok_def)
  note eff = sync_restored_effect [where f = g and present = present and now = now and k = k and claim = claim]
  have sub: "set (df_restored ?h) \<subseteq> set (df_restored g)" using eff(2) by (auto simp: AList.delete_eq)
  have wait: "(k', c) \<in> set L \<or> waiting present (rm_nodeID c) ?h" if "(k', c) \<in> set (df_restored ?h)" for k' c
  proof -
    have "(k', c) \<in> set (x # L) \<or> waiting present (rm_nodeID c) ?h"
      using that sub Cons.prems(5) eff(1) unfolding waiting_def by blast
    moreover have "waiting present (rm_nodeID c) ?h" if "(k', c) = x"
      using eff(2) \<open>(k', c) \<in> set (df_restored ?h)\<close> that x by (auto simp: AList.delete_eq)
    ultimately show ?thesis by auto
  qed
  have "set L \<subseteq> set (df_restored f)" "set (df_restored ?h) \<subseteq> set (df_restored f)"
    using Cons.prems(3,4) sub by auto
  then show ?case using Cons.IH [of ?h] ok wait x by auto
qed auto

lemma sync_claims:
  assumes "tables_ok u f" "nodes_ok u f" "present_ok u present"
  shows "tables_ok u (fold (sync_restored present now) (df_restored f) f)
    \<and> nodes_ok u (fold (sync_restored present now) (df_restored f) f)
    \<and> (\<forall>(k, c) \<in> set (df_restored (fold (sync_restored present now) (df_restored f) f)).
         waiting present (rm_nodeID c) (fold (sync_restored present now) (df_restored f) f))"
  using assms by (intro sync_claims_from [of u f present f]) (auto simp: tables_ok_def keys_ok_def)

lemma retireNode_ok:
  assumes "tables_ok u f" "nodes_ok u f" "now \<noteq> 0"
  shows "tables_ok u (retireNodeLocked newID i now f)" "nodes_ok u (retireNodeLocked newID i now f)"
    "df_restored (retireNodeLocked newID i now f) = filter (\<lambda>(key, claim). rm_nodeID claim \<noteq> i) (df_restored f)"
proof -
  show "tables_ok u (retireNodeLocked newID i now f)"
    unfolding retireNodeLocked_def Let_def using assms by (intro removeNodeRoutes_tables) simp_all
  show "nodes_ok u (retireNodeLocked newID i now f)"
    unfolding retireNodeLocked_def Let_def using assms(2) by (simp add: nodes_ok_def distinct_delete delete_conv')
  show "df_restored (retireNodeLocked newID i now f) = filter (\<lambda>(key, claim). rm_nodeID claim \<noteq> i) (df_restored f)"
    unfolding retireNodeLocked_def Let_def by simp
qed

lemma sync_node_ok:
  assumes "tables_ok u f" "nodes_ok u f" "present_ok u present" "now \<noteq> 0"
    and "sync_node newID present running now (i, s) (f, targets) = (f', targets')"
  shows "tables_ok u f' \<and> nodes_ok u f' \<and>
    (df_restored f' = filter (\<lambda>(key, claim). rm_nodeID claim \<noteq> i) (df_restored f)
     \<or> df_restored f' = df_restored f \<and> (\<exists>n. map_of present i = Some n \<and> applicationRoutesReady n))"
proof (cases "map_of present i")
  case None
  then show ?thesis using retireNode_ok [OF assms(1,2,4), of newID i] assms(5) by (auto simp: sync_node_def)
next
  case (Some node)
  then have n: "n_ID node = i" "u i" "valid_sandbox_name (n_SandboxName node)" using assms(3) by (auto simp: present_ok_def)
  let ?f1 = "if applicationRoutesReady node then f else removeNodeRoutesLocked i now f"
  define s' where "s' = note_listed (map_of running i \<noteq> None) node now s"
  have s': "fs_node s' = node"
      "f' = ?f1\<lparr>df_nodes := AList.update i s' (df_nodes ?f1)\<rparr>
        \<or> f' = retireNodeLocked newID i now (?f1\<lparr>df_nodes := AList.update i s' (df_nodes ?f1)\<rparr>)"
    using assms(5) unfolding sync_node_def Let_def s'_def [symmetric]
    by (simp_all add: s'_def note_listed_def Let_def Some split: if_splits)
  let ?f2 = "?f1\<lparr>df_nodes := AList.update i s' (df_nodes ?f1)\<rparr>"
  have "tables_ok u ?f1" "nodes_ok u ?f1" using assms(1,2,4) removeNodeRoutes_tables by simp_all
  then have f2: "tables_ok u ?f2" "nodes_ok u ?f2" using n s'(1) by (simp_all add: update_node_ok del: if_image_distrib)
  have r2: "df_restored ?f2 = (if applicationRoutesReady node then df_restored f
      else filter (\<lambda>(key, claim). rm_nodeID claim \<noteq> i) (df_restored f))" by simp
  from s'(2) show ?thesis
  proof
    assume "f' = ?f2"
    then show ?thesis using f2 r2 Some by simp
  next
    assume f': "f' = retireNodeLocked newID i now ?f2"
    have "df_restored f' = filter (\<lambda>(key, claim). rm_nodeID claim \<noteq> i) (df_restored f)"
      unfolding f' retireNode_ok(3) [OF f2 assms(4)] r2 by simp
    then show ?thesis using retireNode_ok(1,2) [OF f2 assms(4)] f' by simp
  qed
qed

lemma sync_nodes:
  assumes "tables_ok u f" "nodes_ok u f" "present_ok u present" "now \<noteq> 0"
    and "\<forall>(k, c) \<in> set (df_restored f). (\<exists>n. map_of present (rm_nodeID c) = Some n \<and> \<not> applicationRoutesReady n)
      \<and> rm_nodeID c \<in> fst ` set L"
    and "fold (sync_node newID present running now) L (f, targets) = (f', targets')"
  shows "tables_ok u f' \<and> nodes_ok u f' \<and> df_restored f' = []"
  using assms(1,2,5,6)
proof (induction L arbitrary: f targets)
  case Nil
  then show ?case by (cases "df_restored f") auto
next
  case (Cons x L)
  obtain i s where x: "x = (i, s)" by fastforce
  obtain g t where g: "sync_node newID present running now (i, s) (f, targets) = (g, t)" by fastforce
  note ok = sync_node_ok [OF Cons.prems(1,2) assms(3,4) g]
  have "\<forall>(k, c) \<in> set (df_restored g). (\<exists>n. map_of present (rm_nodeID c) = Some n \<and> \<not> applicationRoutesReady n)
      \<and> rm_nodeID c \<in> fst ` set L"
    using ok Cons.prems(3) x by fastforce
  then show ?case using Cons.IH [of g t] ok Cons.prems(4) g x by simp
qed

lemma ensure_nodes_ok:
  assumes "nodes_ok u f" "present_ok u running" "set L \<subseteq> set running" "distinct (map fst running)"
  shows "nodes_ok u (fold (\<lambda>(i, node). ensure_node i node) L f)
    \<and> tables_ok u (fold (\<lambda>(i, node). ensure_node i node) L f) = tables_ok u f
    \<and> df_restored (fold (\<lambda>(i, node). ensure_node i node) L f) = df_restored f"
  using assms(1,3)
proof (induction L arbitrary: f)
  case (Cons x L)
  obtain i n where x: "x = (i, n)" by fastforce
  then have "map_of running i = Some n" using Cons.prems(2) assms(4) by simp
  then have "n_ID n = i" "u i" "valid_sandbox_name (n_SandboxName n)" using assms(2) by (auto simp: present_ok_def)
  note e = ensure_node_ok [OF Cons.prems(1) this]
  show ?case using Cons.IH [of "ensure_node i n f"] Cons.prems(2) e x by simp
qed simp

lemma prune_tables:
  assumes "tables_ok u f"
  shows "tables_ok u (pruneDiscoveryMemoryLocked now f)"
proof -
  let ?g = "pruneDiscoveryMemoryLocked now f"
  have t: "keys_ok f" "discovered_ok u f" using assms by (simp_all add: tables_ok_def)
  have d: "distinct (map fst (df_discovered f))" using t(1) by (simp add: keys_ok_def)
  have "keys_ok ?g" using t(1) d by (simp add: keys_ok_def pruneDiscoveryMemoryLocked_def distinct_map_filter)
  moreover have "discovered_ok u ?g" using t(2)
    by (auto simp: discovered_ok_def pruneDiscoveryMemoryLocked_def map_of_filter_distinct [OF d] split: option.splits if_splits)
  ultimately show ?thesis using assms
    by (simp add: tables_ok_def routes_ok_def restored_ok_def supported_def claimed_def apart_def pruneDiscoveryMemoryLocked_def)
qed

lemma prune_simps [simp]:
  "df_restored (pruneDiscoveryMemoryLocked now f) = df_restored f" "nodes_ok u (pruneDiscoveryMemoryLocked now f) = nodes_ok u f"
  by (simp_all add: pruneDiscoveryMemoryLocked_def)

text \<open>A discovery pass decides every saved claim.\<close>

lemma syncMembership_ok:
  assumes "tables_ok u f" "nodes_ok u f" "inventory_ok u nodes" "now \<noteq> 0" "\<not> df_policyHandoff f"
    and "syncMembership newID nodes now f = (f', targets)"
  shows "tables_ok u f' \<and> nodes_ok u f' \<and> df_restored f' = []"
proof -
  let ?present = "by_id nodes" and ?running = "by_id (filter is_running nodes)"
  let ?f0 = "f\<lparr>df_inventory := ?present\<rparr>"
  let ?f1 = "fold (sync_restored ?present now) (df_restored f) ?f0"
  let ?f2 = "?f1\<lparr>df_inventoryErr := [], df_inventoryErrSince := 0, df_inventoryWarnAt := 0\<rparr>"
  obtain f3 t where f3: "fold (sync_node newID ?present ?running now) (df_nodes ?f2) (?f2, []) = (f3, t)" by fastforce
  let ?f4 = "fold (\<lambda>(i, node). ensure_node i node) ?running f3"
  have p: "present_ok u ?present" "present_ok u ?running"
    using by_id_ok assms(3) inventory_filter by blast+
  have s1: "tables_ok u ?f1 \<and> nodes_ok u ?f1 \<and> (\<forall>(k, c) \<in> set (df_restored ?f1). waiting ?present (rm_nodeID c) ?f1)"
    using sync_claims [of u ?f0 ?present now] assms(1,2) p(1) by simp
  have s3: "tables_ok u f3 \<and> nodes_ok u f3 \<and> df_restored f3 = []"
    using s1 f3 by (intro sync_nodes [of u ?f2 ?present now _ newID ?running "[]" f3 t] p assms(4)) (auto simp: waiting_def)
  have s4: "nodes_ok u ?f4 \<and> tables_ok u ?f4 \<and> df_restored ?f4 = []"
    using ensure_nodes_ok [OF _ p(2) subset_refl by_id_distinct, of f3] s3 by simp
  have "f' = (pruneDiscoveryMemoryLocked now
      (?f4\<lparr>df_known := map (\<lambda>(i, state). ToLower (n_SandboxName (fs_node state))) (df_nodes ?f4)\<rparr>))
      \<lparr>df_metrics := pruneMetricsHistoryLocked now (df_metrics (pruneDiscoveryMemoryLocked now
        (?f4\<lparr>df_known := map (\<lambda>(i, state). ToLower (n_SandboxName (fs_node state))) (df_nodes ?f4)\<rparr>)))\<rparr>"
    using assms(5,6) f3 unfolding syncMembership_def Let_def by simp
  then show ?thesis using s4 by (simp add: prune_tables)
qed

section \<open>A scan\<close>

lemma discoveryTime_ok:
  assumes "df_restored f = []" "discovered_ok u f" "now \<noteq> 0" "discoveryTimeLocked i k now f = (g, t)"
  shows "g = f" "t \<noteq> 0"
  using assms unfolding discoveryTimeLocked_def discovered_ok_def claim_ok_def Let_def
  by (auto split: option.splits if_splits)

lemma scan_port_ok:
  assumes "tables_ok u f" "df_restored f = []" "now \<noteq> 0" "u (n_ID node)" "valid_sandbox_name (n_SandboxName node)"
    "1024 \<le> port" "port \<le> 65535"
  shows "tables_ok u (scan_port node peer now port f) \<and> df_restored (scan_port node peer now port f) = []
    \<and> df_nodes (scan_port node peer now port f) = df_nodes f"
proof (cases "map_of (df_routes f) (route_key node port)")
  case (Some route)
  let ?r = "setPeer peer (route\<lparr>ro_seenAt := now, ro_lapsed := False,
      ro_lapsedAt := (if ro_lapsed route then 0 else ro_lapsedAt route)\<rparr>)"
  have s: "scan_port node peer now port f = f\<lparr>df_routes := AList.update (route_key node port) ?r (df_routes f)\<rparr>"
    using Some by (simp add: scan_port_def Let_def)
  have "route_ids (f\<lparr>df_routes := AList.update (route_key node port) ?r (df_routes f)\<rparr>) = route_ids f"
    by (rule refresh_route_ids [OF Some]) (simp_all add: setPeer_def)
  then have "tables_ok u (f\<lparr>df_routes := AList.update (route_key node port) ?r (df_routes f)\<rparr>)"
    by (rule tables_frame) (simp_all add: assms(1))
  then show ?thesis using s assms(2) by simp
next
  case None
  obtain g t where gt: "discoveryTimeLocked (n_ID node) (route_key node port) now f = (g, t)" by fastforce
  have g: "g = f" "t \<noteq> 0"
    using discoveryTime_ok [OF assms(2) _ assms(3) gt] assms(1) by (auto simp: tables_ok_def)
  let ?r = "(newDynamicForwardingRoute node port peer t)\<lparr>ro_seenAt := now\<rparr>"
  have s: "scan_port node peer now port f = f\<lparr>df_routes := AList.update (route_key node port) ?r (df_routes f)\<rparr>"
    using None gt g(1) by (simp add: scan_port_def Let_def)
  have "tables_ok u (f\<lparr>df_routes := AList.update (route_key node port) ?r (df_routes f),
      df_restored := AList.delete (route_key node port) (df_restored f)\<rparr>)"
    using assms None g(2) valid_lower
    by (intro new_route_tables) (simp_all add: newDynamicForwardingRoute_def claim_ok_def route_key_def del: map_of_eq_None_iff)
  moreover have "f\<lparr>df_routes := AList.update (route_key node port) ?r (df_routes f),
      df_restored := AList.delete (route_key node port) (df_restored f)\<rparr>
      = f\<lparr>df_routes := AList.update (route_key node port) ?r (df_routes f)\<rparr>"
    using assms(2) by simp
  ultimately have "tables_ok u (scan_port node peer now port f)" unfolding s by (simp only:)
  then show ?thesis using s assms(2) by simp
qed

lemma scan_ports_ok:
  assumes "tables_ok u f" "df_restored f = []" "now \<noteq> 0" "u (n_ID node)" "valid_sandbox_name (n_SandboxName node)"
    "\<forall>port \<in> set ports. 1024 \<le> port \<and> port \<le> 65535"
  shows "tables_ok u (fold (scan_port node peer now) ports f) \<and> df_restored (fold (scan_port node peer now) ports f) = []
    \<and> df_nodes (fold (scan_port node peer now) ports f) = df_nodes f"
  using assms(1,2,6)
proof (induction ports arbitrary: f)
  case (Cons p ports)
  show ?case using Cons.IH [of "scan_port node peer now p f"] Cons.prems scan_port_ok [OF Cons.prems(1,2) assms(3-5), of p peer] by simp
qed simp

lemma applyScan_ok:
  assumes "forwarder_ok u f" "now \<noteq> 0" "map_of (df_nodes f) (n_ID node) \<noteq> None"
    "\<forall>port \<in> set ports. 1024 \<le> port \<and> port \<le> 65535"
  shows "forwarder_ok u (applyScanResult node peer ports now f)"
proof (cases "df_policyHandoff f")
  case True
  then show ?thesis using assms(1) by (simp add: applyScanResult_def)
next
  case False
  obtain s where s: "map_of (df_nodes f) (n_ID node) = Some s" using assms(3) by blast
  have ok: "tables_ok u f" "nodes_ok u f" "df_restored f = []"
    using assms(1,3) by (auto simp: forwarder_ok_def settled_def)
  have n: "n_ID (fs_node s) = n_ID node" "u (n_ID node)" "valid_sandbox_name (n_SandboxName (fs_node s))"
    using ok(2) s by (auto simp: nodes_ok_def)
  let ?ports = "if applicationRoutesReady (fs_node s) then ports else []"
  let ?f1 = "f\<lparr>df_nodes := AList.update (n_ID node) (noteHealthy now s) (df_nodes f)\<rparr>"
  let ?f2 = "fold (scan_port (fs_node s) peer now) ?ports ?f1"
  let ?L = "filter (\<lambda>(key, route). ro_nodeID route = n_ID (fs_node s) \<and> key \<notin> set (map (route_key (fs_node s)) ?ports)) (df_routes ?f2)"
  have f1: "tables_ok u ?f1" "nodes_ok u ?f1"
    using ok(1) update_node_ok [OF ok(2), of "noteHealthy now s"] n by (simp_all add: noteHealthy_def)
  have f2: "tables_ok u ?f2 \<and> df_restored ?f2 = [] \<and> df_nodes ?f2 = df_nodes ?f1"
    using f1(1) ok(3) n assms(2,4) by (intro scan_ports_ok) simp_all
  have f3: "tables_ok u (fold (removeRouteLocked now) ?L ?f2)"
    using f2 assms(2) by (intro remove_routes) auto
  have "applyScanResult node peer ports now f = fold (removeRouteLocked now) ?L ?f2"
    using False s f2 unfolding applyScanResult_def Let_def by simp
  moreover have "nodes_ok u (fold (removeRouteLocked now) ?L ?f2)" using f1(2) f2 by (simp add: nodes_ok_def)
  ultimately show ?thesis using f3 f2 by (simp add: forwarder_ok_def settled_def)
qed

end
