(* ===== verification/ForwardingRuns.thy ===== *)
theory ForwardingRuns
  imports ForwardingTables
begin

text \<open>
  The forwarder over time: discovery passes, failures, pins, saves, handoffs, crashes and restarts
  as interleaved steps. The theory proves that the tables stay consistent, so that every file the
  forwarder writes is one it can load; that a pin takes effect only after it is on disk, and leaves
  nothing behind when it fails; and that a request for a pinned port never reaches another node.
\<close>

section \<open>Steps outside the policy lock\<close>

text \<open>
  These steps hold only \<^verbatim>\<open>mu\<close> and may run while a pin is being written: they leave the keys, owners
  and times of the routes alone, and with them everything the policy file is made of.
\<close>

definition policy_same :: "dynamicForwarder \<Rightarrow> dynamicForwarder \<Rightarrow> bool" where
  "policy_same f g \<longleftrightarrow> route_ids g = route_ids f \<and> df_restored g = df_restored f \<and> df_discovered g = df_discovered f
     \<and> df_pins g = df_pins f \<and> df_policyClosed g = df_policyClosed f \<and> df_policyHandoff g = df_policyHandoff f
     \<and> df_policyPath g = df_policyPath f \<and> df_policyErr g = df_policyErr f \<and> df_policySaved g = df_policySaved f"

lemma policy_same_refl [simp]: "policy_same f f"
  by (simp add: policy_same_def)

lemma policy_same_trans: "policy_same f g \<Longrightarrow> policy_same g h \<Longrightarrow> policy_same f h"
  by (simp add: policy_same_def)

lemma policy_same_claims:
  assumes "policy_same f g"
  shows "all_claims g = all_claims f" "policy_of pins g = policy_of pins f"
proof -
  have "all_claims f = fold (\<lambda>(k, (_, i, t)). AList.update k \<lparr>rm_nodeID = i, rm_discoveredAt = t, rm_removedAt = 0\<rparr>) (route_ids f)
      (fold (\<lambda>(key, claim). AList.update key claim) (df_restored f) (df_discovered f))" for f
    unfolding all_claims_def route_ids_def by (simp add: fold_map comp_def split_def)
  then show a: "all_claims g = all_claims f" using assms unfolding policy_same_def by metis
  show "policy_of pins g = policy_of pins f" unfolding policy_of_def a ..
qed

lemma map_route_ids:
  assumes "\<And>k r. ro_key (h k r) = ro_key r \<and> ro_nodeID (h k r) = ro_nodeID r \<and> ro_discoveredAt (h k r) = ro_discoveredAt r"
  shows "route_ids (f\<lparr>df_routes := map (\<lambda>(k, r). (k, h k r)) (df_routes f)\<rparr>) = route_ids f"
  using assms by (simp add: route_ids_def comp_def split_def)

lemma adopt_same: "policy_same f (adoptPeer node peer f)"
  using map_route_ids [of "\<lambda>k r. if ro_nodeID r = n_ID node then setPeer (Some peer) r else r" f]
  by (auto simp: adoptPeer_def policy_same_def setPeer_def route_ids_def split: option.splits)

lemma retirePeer_same: "policy_same f (retirePeer node f)"
  by (auto simp: retirePeer_def policy_same_def route_ids_def split: option.splits)

lemma lapse_same: "policy_same f (lapseNodeRoutesLocked i now f)"
  using map_route_ids [of "\<lambda>k r. if ro_nodeID r \<noteq> i \<or> ro_lapsed r then r else r\<lparr>ro_lapsed := True, ro_lapsedAt := now\<rparr>" f]
  by (simp add: lapseNodeRoutesLocked_def policy_same_def)

lemma failure_same: "policy_same f (recordNodeFailure node err now f)"
proof (cases "map_of (df_nodes f) (n_ID node)")
  case None
  then show ?thesis by (simp add: recordNodeFailure_def)
next
  case (Some s)
  obtain s' lapse where s': "note_failure now err s = (s', lapse)" by fastforce
  let ?g = "f\<lparr>df_nodes := AList.update (n_ID node) s' (df_nodes f), df_lastErr := err,
      df_lastErrAt := now, df_metrics := drop_usage (n_ID node) (df_metrics f)\<rparr>"
  have "policy_same f ?g" by (simp add: policy_same_def route_ids_def)
  then show ?thesis using policy_same_trans [OF _ lapse_same] Some s' by (simp add: recordNodeFailure_def Let_def)
qed

lemma retain_same: "policy_same f (fst (retainMembership err now f))"
  by (simp add: retainMembership_def Let_def policy_same_def route_ids_def)

lemma tcp_same: "policy_same f (reconcileTCPServers wanted f)"
  by (simp add: reconcileTCPServers_def policy_same_def route_ids_def)

lemma open_server_same: "policy_same f (open_server listen now p f)"
  by (auto simp: open_server_def policy_same_def route_ids_def split: option.splits)

lemma servers_same: "policy_same f (reconcileServers listen now f)"
proof -
  have "policy_same f (fold (open_server listen now) L g)" if "policy_same f g" for L g
    using that by (induction L arbitrary: g) (simp_all add: policy_same_trans [OF _ open_server_same])
  moreover have "policy_same f (f\<lparr>df_servers := x\<rparr>)" for x by (simp add: policy_same_def route_ids_def)
  ultimately show ?thesis unfolding reconcileServers_def Let_def by blast
qed

inductive free_step :: "dynamicForwarder \<Rightarrow> dynamicForwarder \<Rightarrow> bool" where
  adopt: "free_step f (adoptPeer node peer f)"
| lose: "free_step f (retirePeer node f)"
| failure: "free_step f (recordNodeFailure node err now f)"
| retain: "free_step f (fst (retainMembership err now f))"
| publish: "free_step f (reconcileTCPServers wanted f)"
| serve: "free_step f (reconcileServers listen now f)"

lemma free_same: "free_step f g \<Longrightarrow> policy_same f g"
  by (induction rule: free_step.induct)
    (simp_all add: adopt_same retirePeer_same failure_same retain_same tcp_same servers_same)

lemma open_servers_nodes: "df_nodes (fold (open_server listen now) L f) = df_nodes f"
  by (induction L arbitrary: f) (simp_all add: open_server_def split: option.splits)

lemma same_node_update:
  assumes "map_of (df_nodes f) i = Some s" "fs_node s' = fs_node s"
  shows "nodes_ok u f \<Longrightarrow> nodes_ok u (f\<lparr>df_nodes := AList.update i s' (df_nodes f)\<rparr>)"
  using assms by (simp add: nodes_ok_def distinct_update update_conv')

lemma note_failure_node: "fs_node (fst (note_failure now err s)) = fs_node s"
  by (simp add: note_failure_def Let_def)

lemma free_nodes:
  assumes "free_step f g" "nodes_ok u f"
  shows "nodes_ok u g \<and> (df_nodes f = [] \<longrightarrow> df_nodes g = [])"
  using assms
proof cases
  case (adopt node peer)
  then show ?thesis using assms(2) same_node_update [of f "n_ID node"]
    by (auto simp: adoptPeer_def split: option.splits)
next
  case (lose node)
  then show ?thesis using assms(2) same_node_update [of f "n_ID node"]
    by (auto simp: retirePeer_def split: option.splits)
next
  case (failure node err now)
  show ?thesis
  proof (cases "map_of (df_nodes f) (n_ID node)")
    case None
    then show ?thesis using failure assms(2) by (simp add: recordNodeFailure_def)
  next
    case (Some s)
    have "nodes_ok u (f\<lparr>df_nodes := AList.update (n_ID node) (fst (note_failure now err s)) (df_nodes f)\<rparr>)"
      by (rule same_node_update [OF Some note_failure_node assms(2)])
    moreover have "df_nodes g = AList.update (n_ID node) (fst (note_failure now err s)) (df_nodes f)"
      unfolding failure recordNodeFailure_def by (simp add: Some Let_def lapseNodeRoutesLocked_def split: prod.splits)
    ultimately show ?thesis using Some by (auto simp: nodes_ok_def)
  qed
qed (use assms(2) in \<open>simp_all add: retainMembership_def Let_def reconcileTCPServers_def reconcileServers_def nodes_ok_def open_servers_nodes\<close>)

lemma free_ok:
  assumes "free_step f g" "forwarder_ok u f"
  shows "forwarder_ok u g"
proof -
  have s: "policy_same f g" by (rule free_same [OF assms(1)])
  have "tables_ok u g" using s assms(2) tables_frame unfolding policy_same_def forwarder_ok_def by blast
  moreover have "nodes_ok u g" "df_nodes f = [] \<longrightarrow> df_nodes g = []"
    using free_nodes [OF assms(1)] assms(2) by (auto simp: forwarder_ok_def)
  moreover have "df_routes f = [] \<longrightarrow> df_routes g = []"
    using s by (auto simp: policy_same_def route_ids_def)
  ultimately show ?thesis using s assms(2) by (auto simp: forwarder_ok_def settled_def policy_same_def)
qed

section \<open>The run of a forwarder and its file\<close>

record forwardRun =
  fr_f :: dynamicForwarder
  fr_file :: policyFile
  fr_pin :: "(int \<times> (int \<times> string) list) option"
  fr_late :: bool

definition saved_file :: "routingPolicy option \<Rightarrow> policyFile \<Rightarrow> policyFile" where
  "saved_file written file = (case written of None \<Rightarrow> file | Some p \<Rightarrow> PolicyJSON p)"

text \<open>
  \<open>fr_pin\<close> is the pin whose file is written and whose commit is still to come; it holds the policy
  lock. A pass waits for the scans it started, so a scan concerns a known node. A crash or a handoff
  replaces the forwarder by one that loads the file, at any moment. \<open>fr_late\<close> remembers that the last
  write of the file reported an error although it had replaced the file. A pin does not look
  at the handoff flag: the daemon's update gate keeps requests out during a handoff.
\<close>

definition late_after :: "routingPolicy option \<Rightarrow> bool \<Rightarrow> bool \<Rightarrow> bool" where
  "late_after written failed late \<longleftrightarrow> (if written = None then late else failed)"

definition after_save :: "dynamicForwarder \<Rightarrow> routingPolicy option \<Rightarrow> bool \<Rightarrow> forwardRun \<Rightarrow> forwardRun" where
  "after_save g written failed s =
     s\<lparr>fr_f := g, fr_file := saved_file written (fr_file s), fr_late := late_after written failed (fr_late s)\<rparr>"

inductive forward_step :: "(string \<Rightarrow> bool) \<Rightarrow> (routingPolicy \<Rightarrow> int) \<Rightarrow> forwardRun \<Rightarrow> forwardRun \<Rightarrow> bool"
  for u jsonLen where
  free: "free_step (fr_f s) g \<Longrightarrow> forward_step u jsonLen s (s\<lparr>fr_f := g\<rparr>)"
| pass: "fr_pin s = None \<Longrightarrow> \<not> df_policyClosed (fr_f s) \<Longrightarrow> inventory_ok u nodes \<Longrightarrow> now \<noteq> 0 \<Longrightarrow>
    syncMembership newID nodes now (fr_f s) = (g, targets) \<Longrightarrow> forward_step u jsonLen s (s\<lparr>fr_f := g\<rparr>)"
| scan: "fr_pin s = None \<Longrightarrow> \<not> df_policyClosed (fr_f s) \<Longrightarrow> map_of (df_nodes (fr_f s)) (n_ID node) \<noteq> None \<Longrightarrow>
    now \<noteq> 0 \<Longrightarrow> \<forall>port \<in> set ports. 1024 \<le> port \<and> port \<le> 65535 \<Longrightarrow>
    forward_step u jsonLen s (s\<lparr>fr_f := applyScanResult node peer ports now (fr_f s)\<rparr>)"
| persist: "fr_pin s = None \<Longrightarrow> persistRoutingPolicy jsonLen disk (fr_f s) = (g, written, err) \<Longrightarrow>
    forward_step u jsonLen s (after_save g written (err \<noteq> None) s)"
| handoff: "fr_pin s = None \<Longrightarrow> prepareRoutingHandoff jsonLen disk (fr_f s) = (g, written, err) \<Longrightarrow>
    forward_step u jsonLen s (after_save g written (err \<noteq> None) s)"
| resume: "fr_pin s = None \<Longrightarrow> forward_step u jsonLen s (s\<lparr>fr_f := resumeRoutingAfterHandoff (fr_f s)\<rparr>)"
| pin_begin: "fr_pin s = None \<Longrightarrow> pin_prepare jsonLen disk nodeID port (fr_f s) = (g, written, Inr pins) \<Longrightarrow>
    forward_step u jsonLen s ((after_save g written False s)\<lparr>fr_pin := Some (port, pins)\<rparr>)"
| pin_refused: "fr_pin s = None \<Longrightarrow> pin_prepare jsonLen disk nodeID port (fr_f s) = (g, written, Inl err) \<Longrightarrow>
    forward_step u jsonLen s (after_save g written True s)"
| pin_end: "fr_pin s = Some (port, pins) \<Longrightarrow>
    forward_step u jsonLen s (s\<lparr>fr_f := pin_commit port pins (fr_f s), fr_pin := None\<rparr>)"
| close: "fr_pin s = None \<Longrightarrow> forward_step u jsonLen s (s\<lparr>fr_f := Close_forwarder (fr_f s)\<rparr>)"
| restart: "path \<noteq> [] \<Longrightarrow> forward_step u jsonLen s
    (s\<lparr>fr_f := loadRoutingPolicy u jsonLen (fr_file s) (newDynamicForwarder path epoch), fr_pin := None, fr_late := False\<rparr>)"

definition forward_init :: "forwardRun \<Rightarrow> bool" where
  "forward_init s \<longleftrightarrow> (\<exists>path epoch. path \<noteq> [] \<and>
     s = \<lparr>fr_f = newDynamicForwarder path epoch, fr_file = NoFile, fr_pin = None, fr_late = False\<rparr>)"

definition stored_ok :: "(string \<Rightarrow> bool) \<Rightarrow> (routingPolicy \<Rightarrow> int) \<Rightarrow> policyFile \<Rightarrow> bool" where
  "stored_ok u jsonLen file \<longleftrightarrow> file = NoFile \<or> (\<exists>p. file = PolicyJSON p \<and> validateRoutingPolicy u p = None
     \<and> jsonLen p \<le> routingPolicyLimit)"

definition readable :: "(routingPolicy \<Rightarrow> int) \<Rightarrow> policyFile \<Rightarrow> bool" where
  "readable jsonLen file \<longleftrightarrow> (\<forall>p. file = PolicyJSON p \<longrightarrow> jsonLen p \<noteq> routingPolicyLimit)"

definition forward_inv :: "(string \<Rightarrow> bool) \<Rightarrow> (routingPolicy \<Rightarrow> int) \<Rightarrow> forwardRun \<Rightarrow> bool" where
  "forward_inv u jsonLen s \<longleftrightarrow>
     stored_ok u jsonLen (fr_file s) \<and> df_policyPath (fr_f s) \<noteq> []
     \<and> (df_policyErr (fr_f s) = None \<or> \<not> readable jsonLen (fr_file s))
     \<and> (df_policyClosed (fr_f s) \<or> forwarder_ok u (fr_f s))
     \<and> (\<forall>p. df_policySaved (fr_f s) = Some p \<and> \<not> fr_late s \<longrightarrow> fr_file s = PolicyJSON p)
     \<and> (\<forall>port pins. fr_pin s = Some (port, pins) \<longrightarrow> \<not> df_policyClosed (fr_f s) \<and> distinct (map fst pins)
          \<and> supported pins (fr_f s) \<and> df_policyErr (fr_f s) = None
          \<and> (\<not> fr_late s \<longrightarrow> fr_file s = PolicyJSON (policy_of pins (fr_f s))))"

section \<open>What a save does\<close>

lemma write_cases:
  assumes "write_file jsonLen disk p f = (g, written, err)" "df_policyPath f \<noteq> []"
  shows "err \<noteq> None \<and> written = None \<and> g = f
    \<or> err \<noteq> None \<and> written = Some p \<and> g = f \<and> late_failure disk \<and> jsonLen p \<le> routingPolicyLimit
    \<or> err = None \<and> written = None \<and> g = f \<and> df_policySaved f = Some p \<and> jsonLen p \<le> routingPolicyLimit
    \<or> err = None \<and> written = Some p \<and> g = f\<lparr>df_policySaved := Some p\<rparr> \<and> jsonLen p \<le> routingPolicyLimit"
  using assms by (cases disk rule: WriteFile_cases) (auto simp: write_file_def split: if_splits)

lemma after_save_none [simp]: "after_save (fr_f s) None failed s = s"
  by (simp add: after_save_def saved_file_def late_after_def)

abbreviation pins_for :: "(int \<times> string) list option \<Rightarrow> dynamicForwarder \<Rightarrow> (int \<times> string) list" where
  "pins_for pins f \<equiv> (case pins of None \<Rightarrow> df_pins f | Some ps \<Rightarrow> ps)"

lemma save_effect:
  assumes "save_snapshot jsonLen disk pins f = (g, written, err)" "df_policyPath f \<noteq> []"
  obtains v w where "g = f\<lparr>df_policySaved := v, df_policyWriteErr := w\<rparr>"
    and "written \<noteq> None \<or> err = None \<Longrightarrow> df_policyErr f = None \<and> jsonLen (policy_of (pins_for pins f) f) \<le> routingPolicyLimit"
    and "err = None \<Longrightarrow> v = Some (policy_of (pins_for pins f) f)
      \<and> (written = None \<longrightarrow> df_policySaved f = Some (policy_of (pins_for pins f) f))"
    and "err \<noteq> None \<Longrightarrow> v = df_policySaved f \<and> (written = None \<or> late_failure disk)"
    and "written = None \<or> written = Some (policy_of (pins_for pins f) f)"
proof (cases "df_policyErr f")
  case (Some e)
  then have "(g, written, err) = (f, None, Some e)"
    using assms(1) by (simp add: save_snapshot_def routingPolicySnapshot_def)
  then have "g = f\<lparr>df_policySaved := df_policySaved f, df_policyWriteErr := df_policyWriteErr f\<rparr>" "err \<noteq> None" "written = None"
    by simp_all
  then show thesis using that by blast
next
  case None
  let ?p = "policy_of (pins_for pins f) f"
  have w: "writeRoutingPolicy jsonLen disk ?p f = (g, written, err)"
    using assms(1) None by (simp add: save_snapshot_def snapshot_policy)
  obtain g' where g': "write_file jsonLen disk ?p f = (g', written, err)" "g = g'\<lparr>df_policyWriteErr := (case err of None \<Rightarrow> [] | Some e \<Rightarrow> e)\<rparr>"
    using w by (auto simp: writeRoutingPolicy_def split: prod.splits)
  show thesis
  proof (cases "err = None \<and> written \<noteq> None")
    case True
    then show thesis using that [where v = "Some ?p" and w = "[]"] write_cases [OF g'(1) assms(2)] g'(2) None by auto
  next
    case False
    then show thesis
      using that [where v = "df_policySaved f" and w = "case err of None \<Rightarrow> [] | Some e \<Rightarrow> e"]
        write_cases [OF g'(1) assms(2)] g'(2) None by auto
  qed
qed

lemma forwarder_ignore [simp]:
  "forwarder_ok u (f\<lparr>df_policySaved := v\<rparr>) = forwarder_ok u f" "forwarder_ok u (f\<lparr>df_policyWriteErr := w\<rparr>) = forwarder_ok u f"
  "forwarder_ok u (f\<lparr>df_policyHandoff := h\<rparr>) = forwarder_ok u f" "forwarder_ok u (f\<lparr>df_policyErr := e\<rparr>) = forwarder_ok u f"
  by (simp_all add: forwarder_ok_def nodes_ok_def settled_def tables_ok_def keys_ok_def routes_ok_def restored_ok_def
      discovered_ok_def supported_def claimed_def apart_def)

lemma policy_ignore [simp]:
  "policy_of pins (f\<lparr>df_policySaved := v\<rparr>) = policy_of pins f" "policy_of pins (f\<lparr>df_policyWriteErr := w\<rparr>) = policy_of pins f"
  "supported pins (f\<lparr>df_policySaved := v\<rparr>) = supported pins f" "supported pins (f\<lparr>df_policyWriteErr := w\<rparr>) = supported pins f"
  by (simp_all add: policy_of_def all_claims_def supported_def claimed_def)

lemma ok_facts:
  assumes "forwarder_ok u f"
  shows "tables_ok u f" "distinct (map fst (df_pins f))" "supported (df_pins f) f"
  using assms by (simp_all add: forwarder_ok_def tables_ok_def keys_ok_def)

text \<open>A save, successful or not, of consistent pins keeps file and forwarder in step.\<close>

lemma save_keeps:
  assumes "save_snapshot jsonLen disk pins (fr_f s) = (g, written, err)"
    and "forward_inv u jsonLen s" "fr_pin s = None" "\<not> df_policyClosed (fr_f s)"
    and "distinct (map fst (pins_for pins (fr_f s)))" "supported (pins_for pins (fr_f s)) (fr_f s)"
  shows "forward_inv u jsonLen (after_save g written (err \<noteq> None) s)"
proof -
  let ?f = "fr_f s" let ?p = "policy_of (pins_for pins ?f) ?f"
  have i: "stored_ok u jsonLen (fr_file s)" "df_policyPath ?f \<noteq> []" "df_policyErr ?f = None \<or> \<not> readable jsonLen (fr_file s)"
      "forwarder_ok u ?f" "\<forall>p. df_policySaved ?f = Some p \<and> \<not> fr_late s \<longrightarrow> fr_file s = PolicyJSON p"
    using assms(2,4) by (simp_all add: forward_inv_def)
  obtain v w where g: "g = ?f\<lparr>df_policySaved := v, df_policyWriteErr := w\<rparr>"
    and len: "written \<noteq> None \<or> err = None \<Longrightarrow> df_policyErr ?f = None \<and> jsonLen ?p \<le> routingPolicyLimit"
    and ok: "err = None \<Longrightarrow> v = Some ?p \<and> (written = None \<longrightarrow> df_policySaved ?f = Some ?p)"
    and bad: "err \<noteq> None \<Longrightarrow> v = df_policySaved ?f \<and> (written = None \<or> late_failure disk)"
    and written: "written = None \<or> written = Some ?p"
    by (rule save_effect [OF assms(1) i(2)]) blast
  have valid: "validateRoutingPolicy u ?p = None" using policy_valid [OF ok_facts(1) [OF i(4)] assms(5,6)] .
  have "stored_ok u jsonLen (saved_file written (fr_file s))"
    using written valid len i(1) by (auto simp: saved_file_def stored_ok_def)
  moreover have "df_policyErr ?f = None \<or> \<not> readable jsonLen (saved_file written (fr_file s))"
    using written len i(3) by (auto simp: saved_file_def)
  moreover have "saved_file written (fr_file s) = PolicyJSON p"
    if "v = Some p" "\<not> late_after written (err \<noteq> None) (fr_late s)" for p
    using that written ok bad i(5) by (cases "err = None") (auto simp: saved_file_def late_after_def split: if_splits)
  ultimately show ?thesis using i(2,4) assms(3) g by (simp add: forward_inv_def after_save_def)
qed

section \<open>What a discovery pass leaves alone\<close>

definition policy_fields :: "dynamicForwarder \<Rightarrow> string \<times> string option \<times> routingPolicy option \<times> bool \<times> bool" where
  "policy_fields f = (df_policyPath f, df_policyErr f, df_policySaved f, df_policyClosed f, df_policyHandoff f)"

lemma fold_keeps: "(\<And>x f. h (g x f) = h f) \<Longrightarrow> h (fold g xs f) = h f"
  by (induction xs arbitrary: f) simp_all

lemma unpin_fields [simp]: "policy_fields (unpin p i f) = policy_fields f"
  by (simp add: unpin_def policy_fields_def)

lemma removeRoute_fields [simp]: "policy_fields (removeRouteLocked now x f) = policy_fields f"
proof (cases x)
  case (Pair k r)
  have "policy_fields (g\<lparr>df_routes := y\<rparr>) = policy_fields g" "policy_fields (g\<lparr>df_discovered := z\<rparr>) = policy_fields g" for g y z
    by (simp_all add: policy_fields_def)
  then show ?thesis unfolding removeRouteLocked_def Pair Let_def by simp
qed

lemma drop_restored_fields [simp]: "policy_fields (drop_restored x f) = policy_fields f"
  unfolding drop_restored_def split_def unpin_fields by (simp add: policy_fields_def)

lemma removeNodeRoutes_fields [simp]: "policy_fields (removeNodeRoutesLocked i now f) = policy_fields f"
proof -
  have "policy_fields (f\<lparr>df_pins := y, df_restored := z\<rparr>) = policy_fields f" for y z by (simp add: policy_fields_def)
  then show ?thesis unfolding removeNodeRoutesLocked_def Let_def by (simp add: fold_keeps [of policy_fields])
qed

lemma nodes_fields [simp]: "policy_fields (f\<lparr>df_nodes := y\<rparr>) = policy_fields f" "policy_fields (f\<lparr>df_metrics := m\<rparr>) = policy_fields f"
  "policy_fields (f\<lparr>df_routes := r\<rparr>) = policy_fields f" "policy_fields (f\<lparr>df_restored := c\<rparr>) = policy_fields f"
  "policy_fields (f\<lparr>df_discovered := c\<rparr>) = policy_fields f" "policy_fields (f\<lparr>df_known := k\<rparr>) = policy_fields f"
  "policy_fields (f\<lparr>df_inventory := n\<rparr>) = policy_fields f"
  "policy_fields (f\<lparr>df_inventoryErr := e, df_inventoryErrSince := t, df_inventoryWarnAt := t'\<rparr>) = policy_fields f"
  by (simp_all add: policy_fields_def)

lemma retireNode_fields [simp]: "policy_fields (retireNodeLocked newID i now f) = policy_fields f"
  unfolding retireNodeLocked_def Let_def by (simp add: policy_fields_def [of "f\<lparr>df_nodes := y, df_metrics := z\<rparr>" for y z] policy_fields_def [of f])

lemma ensure_node_fields [simp]: "policy_fields (ensure_node i n f) = policy_fields f"
  by (simp add: ensure_node_def)

lemma sync_restored_fields [simp]: "policy_fields (sync_restored present now x f) = policy_fields f"
  by (cases x) (simp add: sync_restored_def Let_def split: option.splits)

lemma sync_node_fields: "policy_fields (fst (sync_node newID present running now x ft)) = policy_fields (fst ft)"
  by (cases x; cases ft) (simp add: sync_node_def Let_def split: option.splits)

lemma sync_fields: "policy_fields (fst (syncMembership newID nodes now f)) = policy_fields f"
proof -
  have "(policy_fields \<circ> fst) (fold (sync_node newID present running now) L ft) = policy_fields (fst ft)" for present running L ft
    by (subst fold_keeps [of "policy_fields \<circ> fst"]) (simp_all add: sync_node_fields)
  moreover have "policy_fields (fold (\<lambda>(i, node). ensure_node i node) L g) = policy_fields g" for L g
    by (rule fold_keeps) (simp add: split_def)
  moreover have "policy_fields (fold (sync_restored present now) L g) = policy_fields g" for present L g
    by (rule fold_keeps) simp
  moreover have "policy_fields (pruneDiscoveryMemoryLocked now g) = policy_fields g" for g
    by (simp add: pruneDiscoveryMemoryLocked_def)
  ultimately show ?thesis unfolding syncMembership_def Let_def by (simp add: split_def)
qed

lemma scan_port_fields [simp]: "policy_fields (scan_port node peer now port f) = policy_fields f"
  by (simp add: scan_port_def discoveryTimeLocked_def Let_def split: option.splits)

lemma applyScan_fields: "policy_fields (applyScanResult node peer ports now f) = policy_fields f"
  unfolding applyScanResult_def Let_def
  by (simp add: fold_keeps [of policy_fields] split: option.splits)

section \<open>The invariant\<close>

lemma find_member: "find P xs = Some x \<Longrightarrow> x \<in> set xs \<and> P x"
  by (induction xs) (auto split: if_splits)

lemma pin_prepare_saves:
  assumes "pin_prepare jsonLen disk nodeID port f = (g, written, r)" "r \<noteq> Inl shutting_down" "r \<noteq> Inl pin_stale"
  obtains key route server e where "\<not> df_policyClosed f" "(key, route) \<in> set (df_routes f)" "ro_nodeID route = nodeID"
    "rk_port key = port" "map_of (df_servers f) port = Some server" "serving server"
    "save_snapshot jsonLen disk (Some (AList.update port nodeID (df_pins f))) f = (g, written, e)"
    "r = (case e of None \<Rightarrow> Inr (AList.update port nodeID (df_pins f)) | Some err \<Rightarrow> Inl (OtherError err))"
proof -
  let ?p = "\<lambda>(key, route). ro_nodeID route = nodeID \<and> rk_port key = port"
  let ?pins = "AList.update port nodeID (df_pins f)"
  have c: "\<not> df_policyClosed f" using assms by (auto simp: pin_prepare_def)
  have stale: False if "find ?p (df_routes f) = None \<or> map_of (df_servers f) port = None
      \<or> (\<exists>server. map_of (df_servers f) port = Some server \<and> \<not> serving server)"
    using that assms c by (auto simp: pin_prepare_def Let_def split: if_splits)
  then obtain key route where kr: "find ?p (df_routes f) = Some (key, route)" by fastforce
  from stale obtain server where server: "map_of (df_servers f) port = Some server" "serving server" by fastforce
  obtain e where save: "save_snapshot jsonLen disk (Some ?pins) f = (g, written, e)"
      "r = (case e of None \<Rightarrow> Inr ?pins | Some err \<Rightarrow> Inl (OtherError err))"
    using assms c kr server by (auto simp: pin_prepare_def Let_def split: if_splits prod.splits option.splits)
  have "(key, route) \<in> set (df_routes f) \<and> ?p (key, route)" using find_member [OF kr] .
  then show thesis using that [OF c _ _ _ server save] by blast
qed

lemma pin_prepare_early:
  assumes "pin_prepare jsonLen disk nodeID port f = (g, written, r)" "r = Inl shutting_down \<or> r = Inl pin_stale"
  shows "g = f" "written = None"
  using assms by (auto simp: pin_prepare_def shutting_down_def pin_stale_def Let_def split: if_splits prod.splits option.splits)

lemma new_pin_ok:
  assumes "forwarder_ok u f" "(key, route) \<in> set (df_routes f)" "ro_nodeID route = nodeID" "rk_port key = port"
  shows "distinct (map fst (AList.update port nodeID (df_pins f)))" "supported (AList.update port nodeID (df_pins f)) f"
proof -
  note ok = ok_facts [OF assms(1)]
  show "distinct (map fst (AList.update port nodeID (df_pins f)))" using ok(2) by (rule distinct_update)
  have "map_of (df_routes f) key = Some route" using ok(1) assms(2) by (simp add: tables_ok_def keys_ok_def)
  then have "claimed f port nodeID" using assms(3,4) unfolding claimed_def by blast
  then show "supported (AList.update port nodeID (df_pins f)) f" using ok(3) by (simp add: supported_def update_conv')
qed

lemma pin_commit_simps [simp]:
  "df_routes (pin_commit port pins f) = df_routes f" "df_restored (pin_commit port pins f) = df_restored f"
  "df_discovered (pin_commit port pins f) = df_discovered f" "df_nodes (pin_commit port pins f) = df_nodes f"
  "df_pins (pin_commit port pins f) = pins" "policy_fields (pin_commit port pins f) = policy_fields f"
  "policy_of ps (pin_commit port pins f) = policy_of ps f" "supported ps (pin_commit port pins f) = supported ps f"
  by (simp_all add: pin_commit_def Let_def policy_fields_def policy_of_def all_claims_def supported_def claimed_def split: option.splits)

lemma pin_commit_ok:
  assumes "forwarder_ok u f" "distinct (map fst pins)" "supported pins f"
  shows "forwarder_ok u (pin_commit port pins f)"
  using assms by (simp add: forwarder_ok_def nodes_ok_def settled_def tables_ok_def keys_ok_def routes_ok_def restored_ok_def
      discovered_ok_def apart_def)

lemma new_forwarder_ok: "forwarder_ok u (newDynamicForwarder path epoch)"
  by (simp add: newDynamicForwarder_def forwarder_ok_def nodes_ok_def settled_def tables_ok_def keys_ok_def routes_ok_def
      restored_ok_def discovered_ok_def supported_def apart_def)

lemma restart_inv:
  assumes "stored_ok u jsonLen file" "path \<noteq> []"
  shows "forward_inv u jsonLen \<lparr>fr_f = loadRoutingPolicy u jsonLen file (newDynamicForwarder path epoch), fr_file = file, fr_pin = None, fr_late = False\<rparr>"
proof -
  let ?n = "newDynamicForwarder path epoch"
  have n: "df_policyPath ?n = path" "df_policyErr ?n = None" "df_policySaved ?n = None" by (simp_all add: newDynamicForwarder_def)
  consider "file = NoFile" | p where "file = PolicyJSON p" "validateRoutingPolicy u p = None" "jsonLen p < routingPolicyLimit"
    | p where "file = PolicyJSON p" "validateRoutingPolicy u p = None" "jsonLen p = routingPolicyLimit"
    using assms(1) unfolding stored_ok_def by fastforce
  then show ?thesis
  proof cases
    case 1
    then have "loadRoutingPolicy u jsonLen file ?n = ?n" using assms(2) n(1) by (simp add: loadRoutingPolicy_def read_policy_def)
    then show ?thesis using assms new_forwarder_ok n by (simp add: forward_inv_def)
  next
    case (2 p)
    note g = load_valid [where jsonLen = jsonLen and epoch = epoch, OF 2(2,3) assms(2)]
    have t: "tables_ok u (loadRoutingPolicy u jsonLen file ?n)" unfolding 2(1) by (rule load_tables [where jsonLen = jsonLen, OF 2(2,3) assms(2)])
    then have "forwarder_ok u (loadRoutingPolicy u jsonLen file ?n)"
      unfolding 2(1) g by (simp add: forwarder_ok_def nodes_ok_def settled_def newDynamicForwarder_def)
    moreover have "df_policyPath (loadRoutingPolicy u jsonLen file ?n) = path" "df_policyErr (loadRoutingPolicy u jsonLen file ?n) = None"
        "df_policySaved (loadRoutingPolicy u jsonLen file ?n) = None"
      unfolding 2(1) g using n by simp_all
    ultimately show ?thesis using assms by (simp add: forward_inv_def)
  next
    case (3 p)
    let ?e = "''read routing preferences: '' @ ''routing preferences exceed the size limit''"
    have "loadRoutingPolicy u jsonLen file ?n = ?n\<lparr>df_policyErr := Some ?e\<rparr>"
      using assms(2) n(1) 3 by (simp add: loadRoutingPolicy_def read_policy_def)
    moreover have "forwarder_ok u (?n\<lparr>df_policyErr := Some ?e\<rparr>)"
      by (simp add: new_forwarder_ok)
    ultimately show ?thesis using assms n 3 by (simp add: forward_inv_def readable_def)
  qed
qed

lemma keep_inv:
  assumes "forward_inv u jsonLen s" "policy_fields g = policy_fields (fr_f s)" "fr_pin s = None" "\<not> df_policyClosed (fr_f s) \<Longrightarrow> forwarder_ok u g"
  shows "forward_inv u jsonLen (s\<lparr>fr_f := g\<rparr>)"
  using assms by (auto simp: forward_inv_def policy_fields_def)

lemma own_pins:
  assumes "forward_inv u jsonLen s" "\<not> df_policyClosed (fr_f s)"
  shows "distinct (map fst (pins_for None (fr_f s)))" "supported (pins_for None (fr_f s)) (fr_f s)"
  using assms ok_facts [of u "fr_f s"] by (simp_all add: forward_inv_def)

lemma free_inv:
  assumes "forward_inv u jsonLen s" "free_step (fr_f s) g"
  shows "forward_inv u jsonLen (s\<lparr>fr_f := g\<rparr>)"
proof -
  note same = free_same [OF assms(2)]
  have "supported pins g" if "supported pins (fr_f s)" for pins
    using same that supported_frame unfolding policy_same_def by blast
  then show ?thesis
    using assms same free_ok [OF assms(2)] policy_same_claims(2) [OF same]
    by (auto simp: forward_inv_def policy_same_def)
qed

lemma persist_inv:
  assumes "forward_inv u jsonLen s" "fr_pin s = None" "persistRoutingPolicy jsonLen disk (fr_f s) = (g, written, err)"
  shows "forward_inv u jsonLen (after_save g written (err \<noteq> None) s)"
proof (cases "df_policyClosed (fr_f s)")
  case True
  then have "g = fr_f s" "written = None" using assms(3) by (simp_all add: persistRoutingPolicy_def)
  then show ?thesis using assms(1) by (simp add: after_save_none)
next
  case False
  then obtain e where e: "save_snapshot jsonLen disk None (fr_f s) = (g, written, e)" "err = None \<longleftrightarrow> e = None"
    using assms(3) by (auto simp: persistRoutingPolicy_def as_error_def split: prod.splits)
  show ?thesis using save_keeps [OF e(1) assms(1,2) False own_pins [OF assms(1) False]] e(2) by simp
qed

lemma handoff_inv:
  assumes "forward_inv u jsonLen s" "fr_pin s = None" "prepareRoutingHandoff jsonLen disk (fr_f s) = (g, written, err)"
  shows "forward_inv u jsonLen (after_save g written (err \<noteq> None) s)"
proof (cases "df_policyClosed (fr_f s)")
  case True
  then have "g = fr_f s" "written = None" using assms(3) by (simp_all add: prepareRoutingHandoff_def)
  then show ?thesis using assms(1) by (simp add: after_save_none)
next
  case False
  then obtain h e where h: "save_snapshot jsonLen disk None (fr_f s) = (h, written, e)"
      "g = (if e = None then h\<lparr>df_policyHandoff := True\<rparr> else h)" "err = None \<longleftrightarrow> e = None"
    using assms(3) by (auto simp: prepareRoutingHandoff_def as_error_def split: prod.splits option.splits)
  have i: "forward_inv u jsonLen (after_save h written (err \<noteq> None) s)"
    using save_keeps [OF h(1) assms(1,2) False own_pins [OF assms(1) False]] h(3) by simp
  show ?thesis unfolding h(2) using i assms(2) by (simp add: forward_inv_def after_save_def)
qed

lemma pin_inv:
  assumes "forward_inv u jsonLen s" "fr_pin s = None" "pin_prepare jsonLen disk nodeID port (fr_f s) = (g, written, r)"
  shows "r = Inl err \<Longrightarrow> forward_inv u jsonLen (after_save g written True s)"
    and "r = Inr pins \<Longrightarrow> forward_inv u jsonLen ((after_save g written False s)\<lparr>fr_pin := Some (port, pins)\<rparr>)"
proof -
  let ?f = "fr_f s"
  have "(r = Inl err \<longrightarrow> forward_inv u jsonLen (after_save g written True s))
    \<and> (r = Inr pins \<longrightarrow> forward_inv u jsonLen ((after_save g written False s)\<lparr>fr_pin := Some (port, pins)\<rparr>))"
  proof (cases "r = Inl shutting_down \<or> r = Inl pin_stale")
    case True
    then show ?thesis using pin_prepare_early [OF assms(3) True] assms(1) by (auto simp: after_save_none)
  next
    case False
    then obtain key route server e where c: "\<not> df_policyClosed ?f"
      and kr: "(key, route) \<in> set (df_routes ?f)" "ro_nodeID route = nodeID" "rk_port key = port"
      and save: "save_snapshot jsonLen disk (Some (AList.update port nodeID (df_pins ?f))) ?f = (g, written, e)"
      and r: "r = (case e of None \<Rightarrow> Inr (AList.update port nodeID (df_pins ?f)) | Some err \<Rightarrow> Inl (OtherError err))"
      using pin_prepare_saves [OF assms(3)] by metis
    have ok: "forwarder_ok u ?f" using assms(1) c by (simp add: forward_inv_def)
    note np = new_pin_ok [OF ok kr]
    have i: "forward_inv u jsonLen (after_save g written (e \<noteq> None) s)"
      using save_keeps [OF save assms(1,2) c] np by simp
    have "forward_inv u jsonLen ((after_save g written False s)\<lparr>fr_pin := Some (port, pins)\<rparr>)" if "r = Inr pins"
    proof -
      have e: "e = None" "pins = AList.update port nodeID (df_pins ?f)" using r that by (auto split: option.splits)
      have "df_policyPath ?f \<noteq> []" using assms(1) by (simp add: forward_inv_def)
      then obtain v w where g: "g = ?f\<lparr>df_policySaved := v, df_policyWriteErr := w\<rparr>" "df_policyErr ?f = None"
          "v = Some (policy_of pins ?f)"
        using save_effect [OF save] e by (metis option.simps(5))
      then have "\<not> late_after written False (fr_late s) \<Longrightarrow> saved_file written (fr_file s) = PolicyJSON (policy_of pins ?f)"
        using i e(1) by (simp add: forward_inv_def after_save_def)
      then show ?thesis using i c np e assms(2) g by (simp add: forward_inv_def after_save_def)
    qed
    moreover have "r = Inl err \<Longrightarrow> e \<noteq> None" using r by (auto split: option.splits)
    ultimately show ?thesis using i by auto
  qed
  then show "r = Inl err \<Longrightarrow> forward_inv u jsonLen (after_save g written True s)"
    and "r = Inr pins \<Longrightarrow> forward_inv u jsonLen ((after_save g written False s)\<lparr>fr_pin := Some (port, pins)\<rparr>)"
    by blast+
qed

lemma step_inv:
  assumes "forward_step u jsonLen s t" "forward_inv u jsonLen s"
  shows "forward_inv u jsonLen t"
  using assms(1)
proof cases
  case (free g)
  then show ?thesis using free_inv [OF assms(2)] by simp
next
  case (pass nodes now newID g targets)
  have ok: "tables_ok u (fr_f s)" "nodes_ok u (fr_f s)" "forwarder_ok u (fr_f s)"
    using assms(2) pass(3) by (auto simp: forward_inv_def forwarder_ok_def)
  have "policy_fields g = policy_fields (fr_f s)" using sync_fields [of newID nodes now "fr_f s"] pass(6) by simp
  moreover have "forwarder_ok u g"
  proof (cases "df_policyHandoff (fr_f s)")
    case True
    then show ?thesis using pass(6) ok(3) by (simp add: syncMembership_def)
  next
    case False
    then show ?thesis using syncMembership_ok [OF ok(1,2) pass(4,5) False pass(6)] by (simp add: forwarder_ok_def settled_def)
  qed
  ultimately show ?thesis using keep_inv [OF assms(2) _ pass(2)] pass(1) by simp
next
  case (scan node now ports peer)
  have "forwarder_ok u (fr_f s)" using assms(2) scan(3) by (simp add: forward_inv_def)
  from applyScan_ok [OF this scan(5,4,6)] show ?thesis
    using keep_inv [OF assms(2) applyScan_fields scan(2)] scan(1) by simp
next
  case (persist disk g written err)
  then show ?thesis using persist_inv [OF assms(2)] by simp
next
  case (handoff disk g written err)
  then show ?thesis using handoff_inv [OF assms(2)] by simp
next
  case resume
  then show ?thesis using assms(2) by (auto simp: forward_inv_def resumeRoutingAfterHandoff_def)
next
  case (pin_begin disk nodeID port g written pins)
  then show ?thesis using pin_inv(2) [OF assms(2)] by simp
next
  case (pin_refused disk nodeID port g written err)
  then show ?thesis using pin_inv(1) [OF assms(2)] by simp
next
  case (pin_end port pins)
  let ?g = "pin_commit port pins (fr_f s)"
  have i: "\<not> df_policyClosed (fr_f s)" "distinct (map fst pins)" "supported pins (fr_f s)" "forwarder_ok u (fr_f s)"
    using assms(2) pin_end(2) by (auto simp: forward_inv_def)
  have "forwarder_ok u ?g" by (rule pin_commit_ok [OF i(4,2,3)])
  moreover have "policy_fields ?g = policy_fields (fr_f s)" by simp
  ultimately show ?thesis using assms(2) pin_end(1) by (simp add: forward_inv_def policy_fields_def)
next
  case close
  then show ?thesis using assms(2) by (auto simp: forward_inv_def Close_forwarder_def)
next
  case (restart path epoch)
  have "stored_ok u jsonLen (fr_file s)" using assms(2) by (simp add: forward_inv_def)
  from restart_inv [OF this restart(2), of epoch] show ?thesis by (simp add: restart(1) forward_inv_def)
qed

lemma init_inv: "forward_init s \<Longrightarrow> forward_inv u jsonLen s"
  by (auto simp: forward_init_def forward_inv_def stored_ok_def new_forwarder_ok) (simp_all add: newDynamicForwarder_def)

interpretation fw: invariant_system forward_init "forward_step u jsonLen" "forward_inv u jsonLen" for u jsonLen
  by unfold_locales (simp_all add: init_inv step_inv)

section \<open>The host listeners\<close>

lemma preferred_cong:
  assumes "df_routes g = df_routes f" "df_pins g = df_pins f"
  shows "preferredClaimantLocked p g = preferredClaimantLocked p f"
proof -
  have "pin_at p g = pin_at p f" "selectClaimantLocked p w il g = selectClaimantLocked p w il f" for w il
    by (simp_all add: pin_at_def selectClaimantLocked_def assms)
  then show ?thesis by (simp only: preferredClaimantLocked_def assms(1))
qed

definition aimed :: "dynamicForwarder \<Rightarrow> dynamicForwarder \<Rightarrow> bool" where
  "aimed f g \<longleftrightarrow> df_routes g = df_routes f \<and> df_pins g = df_pins f \<and> df_known g = df_known f
     \<and> (\<forall>p server. map_of (df_servers g) p = Some server \<and> serving server \<longrightarrow>
          p \<in> (rk_port \<circ> fst) ` set (df_routes f) \<and> ps_defaultNode server = preferredClaimantLocked p f)"

lemma aimed_update:
  assumes "aimed f g" "serving server \<Longrightarrow> p \<in> (rk_port \<circ> fst) ` set (df_routes f) \<and> ps_defaultNode server = preferredClaimantLocked p f"
  shows "aimed f (g\<lparr>df_servers := AList.update p server (df_servers g)\<rparr>)"
  unfolding aimed_def
proof (intro conjI allI impI)
  fix q t assume "map_of (df_servers (g\<lparr>df_servers := AList.update p server (df_servers g)\<rparr>)) q = Some t \<and> serving t"
  then have "q = p \<and> t = server \<or> map_of (df_servers g) q = Some t" "serving t" by (auto simp: update_conv' split: if_splits)
  then show "q \<in> (rk_port \<circ> fst) ` set (df_routes f)" "ps_defaultNode t = preferredClaimantLocked q f"
    using assms unfolding aimed_def by blast+
qed (use assms(1) in \<open>simp_all add: aimed_def\<close>)

lemma aimed_err [simp]: "aimed f (g\<lparr>df_lastErr := e, df_lastErrAt := t\<rparr>) = aimed f g"
  by (simp add: aimed_def)

lemma conflicted_idle: "\<not> serving (conflicted p e)"
  by (simp add: conflicted_def serving_def)

lemma open_server_aimed:
  assumes "aimed f g" "p \<in> (rk_port \<circ> fst) ` set (df_routes f)"
  shows "aimed f (open_server listen now p g)"
proof -
  have pc: "preferredClaimantLocked p g = preferredClaimantLocked p f" 
    by (rule preferred_cong) (use assms(1) in \<open>simp_all add: aimed_def\<close>)
  let ?s = "\<lparr>ps_port = p, ps_listening = True, ps_defaultNode = preferredClaimantLocked p g,
      ps_status = ''serving'', ps_lastErr = []\<rparr>"
  have "aimed f (g\<lparr>df_servers := AList.update p ?s (df_servers g)\<rparr>)"
    using assms pc by (intro aimed_update) simp_all
  moreover have "aimed f (g\<lparr>df_servers := AList.update p (conflicted p e) (df_servers g)\<rparr>)" for e
    by (rule aimed_update [OF assms(1)]) (simp add: conflicted_idle)
  moreover have "aimed f (g\<lparr>df_servers := AList.update p (conflicted p e) (df_servers g), df_lastErr := e, df_lastErrAt := now\<rparr>)" for e
    using calculation(2) [of e] by simp
  ultimately show ?thesis using assms(1) unfolding open_server_def by (cases "listen p") simp_all
qed

lemma reconcile_aimed: "aimed f (reconcileServers listen now f)"
proof -
  let ?w = "remdups (map (rk_port \<circ> fst) (df_routes f))"
  let ?g = "f\<lparr>df_servers := map (keep_server f) (filter (\<lambda>(port, server). port \<in> set ?w) (df_servers f))\<rparr>"
  have "aimed f ?g"
    unfolding aimed_def by (auto dest!: map_of_SomeD simp: keep_server_def serving_def split: if_splits)
  moreover have "aimed f (fold (open_server listen now) L g)" if "aimed f g" "set L \<subseteq> (rk_port \<circ> fst) ` set (df_routes f)" for L g
    using that by (induction L arbitrary: g) (simp_all add: open_server_aimed)
  ultimately show ?thesis unfolding reconcileServers_def Let_def by simp
qed

text \<open>The request over the route of a node: its answer depends on the state of that route alone.\<close>

definition over_route :: "dynamicForwardingRoute \<Rightarrow> httpOutcome" where
  "over_route r = (if ro_lapsed r then Answered 502 else Proxied r)"

lemma generic_request:
  assumes "map_of (df_servers g) port = Some server" "ps_defaultNode server = rk_node key" "rk_node key \<noteq> []"
    "map_of (df_routes g) key = Some r" "rk_port key = port"
  shows "ServeHTTP port GenericHost g = over_route r"
proof -
  have "map_of (df_routes g) \<lparr>rk_node = rk_node key, rk_port = port\<rparr> = Some r" using assms(4,5) by (cases key) simp
  then show ?thesis using assms by (simp add: ServeHTTP_def over_route_def)
qed

lemma route_names:
  assumes "tables_ok u f" "(key, r) \<in> set (df_routes f)"
  shows "map_of (df_routes f) key = Some r" "ro_key r = key" "rk_node key \<noteq> []" "u (ro_nodeID r)"
proof -
  show m: "map_of (df_routes f) key = Some r" using assms by (simp add: tables_ok_def keys_ok_def)
  then have "ro_key r = key \<and> claim_ok u key (ro_nodeID r) (ro_discoveredAt r)" using assms(1) by (simp add: tables_ok_def routes_ok_def)
  then show "ro_key r = key" "rk_node key \<noteq> []" "u (ro_nodeID r)" by (auto simp: claim_ok_def valid_sandbox_name_def)
qed

text \<open>A pinned port goes to the pinned node as long as that node has a route there.\<close>

lemma preferred_pinned:
  assumes "tables_ok u f" "\<not> u []" "map_of (df_pins f) port = Some i" "(k, r) \<in> set (df_routes f)" "rk_port k = port" "ro_nodeID r = i"
  shows "\<exists>key route. (key, route) \<in> set (df_routes f) \<and> rk_port key = port \<and> ro_nodeID route = i
    \<and> preferredClaimantLocked port f = rk_node key"
proof -
  have i: "pin_at port f = i" "i \<noteq> []" using assms route_names(4) [OF assms(1,4)] by (auto simp: pin_at_def)
  obtain x where x: "find (\<lambda>(key, route). rk_port key = port \<and> ro_nodeID route = i) (df_routes f) = Some x"
    using assms(4-6) find_None_iff [of "\<lambda>(key, route). rk_port key = port \<and> ro_nodeID route = i" "df_routes f"] by fastforce
  obtain key route where kr: "x = (key, route)" by fastforce
  have "preferredClaimantLocked port f = rk_node key" using i x kr by (simp add: preferredClaimantLocked_def Let_def)
  then show ?thesis using find_member [OF x] kr by auto
qed

text \<open>Without a pin it goes to the least claim: a live one if there is any.\<close>

lemma preferred_unpinned:
  assumes "tables_ok u f" "map_of (df_pins f) port = None" "(k, r) \<in> set (df_routes f)" "rk_port k = port"
  shows "\<exists>key route. (key, route) \<in> set (df_routes f) \<and> rk_port key = port \<and> preferredClaimantLocked port f = rk_node key
    \<and> (\<forall>(k', r') \<in> set (df_routes f). rk_port k' = port \<and> \<not> ro_lapsed r' \<longrightarrow>
         \<not> ro_lapsed route \<and> claim_rank (port = codexLoginCallbackPort) route \<le> claim_rank (port = codexLoginCallbackPort) r')"
proof -
  let ?w = "port = codexLoginCallbackPort"
  have member: "\<exists>key. (key, route) \<in> set (df_routes f) \<and> rk_port key = port \<and> rk_node (ro_key route) = rk_node key \<and> rk_node key \<noteq> []
      \<and> (ro_lapsed route \<longrightarrow> il)" if "route \<in> set (claimants port il f)" for route il
    using that route_names [OF assms(1)] by (fastforce simp: claimants_def claim_eligible_def)
  have p: "preferredClaimantLocked port f = (let node = selectClaimantLocked port ?w False f
      in if node \<noteq> [] then node else selectClaimantLocked port ?w True f)"
    using assms(2) by (simp add: preferredClaimantLocked_def Let_def pin_at_def)
  show ?thesis
  proof (cases "first_of (sort_key (claim_rank ?w) (claimants port False f))")
    case (Some route)
    note least = first_sorted_least [OF Some]
    obtain key where key: "(key, route) \<in> set (df_routes f)" "rk_port key = port" "rk_node (ro_key route) = rk_node key" "rk_node key \<noteq> []"
        "\<not> ro_lapsed route" using member [of route False] least by blast
    have "preferredClaimantLocked port f = rk_node key" using p Some key by (simp add: select_reference)
    moreover have "\<forall>(k', r') \<in> set (df_routes f). rk_port k' = port \<and> \<not> ro_lapsed r' \<longrightarrow> claim_rank ?w route \<le> claim_rank ?w r'"
      using least by (force simp: claimants_def claim_eligible_def)
    ultimately show ?thesis using key by blast
  next
    case None
    then have none: "claimants port False f = []" by (simp only: first_of_None)
    have "r \<in> set (claimants port True f)" using assms(3,4) by (force simp: claimants_def claim_eligible_def)
    then obtain route where route: "first_of (sort_key (claim_rank ?w) (claimants port True f)) = Some route"
      using first_of_None [of "claim_rank ?w" "claimants port True f"] by (cases "claimants port True f") auto
    obtain key where key: "(key, route) \<in> set (df_routes f)" "rk_port key = port" "rk_node (ro_key route) = rk_node key"
      using member [of route True] first_sorted_least [OF route] by blast
    have "preferredClaimantLocked port f = rk_node key" using p None route key by (simp add: select_reference)
    moreover have "\<forall>(k', r') \<in> set (df_routes f). \<not> (rk_port k' = port \<and> \<not> ro_lapsed r')"
      using none by (force simp: claimants_def claim_eligible_def filter_empty_conv)
    ultimately show ?thesis using key by blast
  qed
qed

text \<open>
  A policy whose encoding is exactly at the limit is written without an error, but the file is one
  byte longer and cannot be read back.
\<close>

lemma exact_limit_unreadable:
  assumes "jsonLen p = routingPolicyLimit" "df_policyPath f \<noteq> []" "df_policySaved f \<noteq> Some p"
  shows "snd (writeRoutingPolicy jsonLen no_errors p f) = (Some p, None)"
    "read_policy u jsonLen (PolicyJSON p) = Inl ''routing preferences exceed the size limit''"
  using assms by (simp_all add: writeRoutingPolicy_def write_file_def read_policy_def WriteFile_samples)

section \<open>A sample run\<close>

text \<open>A fresh forwarder meets one ready node, scans it and opens its listener.\<close>

definition sample_node :: Node where
  "sample_node = zero_node\<lparr>n_ID := ''n1'', n_SandboxName := ''Web'', n_Status := NodeStatusRunning, n_BootstrapCompleted := True,
     n_LastRuntimeObservation := Some \<lparr>ob_Name = ''Web'', ob_Exists = True, ob_Status = ObservationRunning\<rparr>\<rparr>"

definition sample_start :: dynamicForwarder where
  "sample_start = newDynamicForwarder ''forwarding.json'' ''e''"

definition sample_scanned :: dynamicForwarder where
  "sample_scanned = applyScanResult sample_node (Some 1) [3000] 6 (fst (syncMembership ''e2'' [sample_node] 5 sample_start))"

definition sample_serving :: dynamicForwarder where
  "sample_serving = reconcileServers (\<lambda>_. None) 7 sample_scanned"

abbreviation sample_uuid :: "string \<Rightarrow> bool" where "sample_uuid \<equiv> (\<lambda>i. i \<noteq> [])"

abbreviation sample_len :: "routingPolicy \<Rightarrow> int" where "sample_len \<equiv> (\<lambda>_. 100)"

lemma sample_reachable:
  "reachable forward_init (forward_step sample_uuid sample_len) \<lparr>fr_f = sample_serving, fr_file = NoFile, fr_pin = None, fr_late = False\<rparr>"
proof -
  let ?R = "reachable forward_init (forward_step sample_uuid sample_len)"
  let ?run = "\<lambda>f. \<lparr>fr_f = f, fr_file = NoFile, fr_pin = None, fr_late = False\<rparr>"
  let ?f1 = "fst (syncMembership ''e2'' [sample_node] 5 sample_start)"
  have "?R (?run sample_start)" by (rule reach_init) (auto simp: forward_init_def sample_start_def)
  moreover have "forward_step sample_uuid sample_len (?run sample_start) ((?run sample_start)\<lparr>fr_f := ?f1\<rparr>)"
  proof (rule forward_step.pass)
    show "inventory_ok sample_uuid [sample_node]" by code_simp
    show "\<not> df_policyClosed (fr_f (?run sample_start))" by code_simp
    show "syncMembership ''e2'' [sample_node] 5 (fr_f (?run sample_start)) =
      (?f1, snd (syncMembership ''e2'' [sample_node] 5 sample_start))" by simp
  qed simp_all
  ultimately have "?R (?run ?f1)" by (auto dest: reach_step)
  moreover have "forward_step sample_uuid sample_len (?run ?f1) ((?run ?f1)\<lparr>fr_f := applyScanResult sample_node (Some 1) [3000] 6 (fr_f (?run ?f1))\<rparr>)"
  proof (rule forward_step.scan)
    show "map_of (df_nodes (fr_f (?run ?f1))) (n_ID sample_node) \<noteq> None" by code_simp
    show "\<not> df_policyClosed (fr_f (?run ?f1))" by code_simp
  qed simp_all
  ultimately have "?R (?run sample_scanned)" by (auto dest: reach_step simp: sample_scanned_def)
  moreover have "forward_step sample_uuid sample_len (?run sample_scanned) ((?run sample_scanned)\<lparr>fr_f := sample_serving\<rparr>)"
    unfolding sample_serving_def by (rule forward_step.free) (simp add: free_step.serve)
  ultimately show ?thesis by (auto dest: reach_step)
qed

section \<open>Properties\<close>

text \<open>
  Property C14: what the forwarder saves it can load again. In every reachable state of an open
  forwarder that could read its file, the snapshot of the routing preferences validates. If its
  encoding is strictly below the size limit (a longer one is not written, one of exactly the limit is
  written but cannot be read back), a new process that loads it has the same pins, the same active
  claims with their owners and discovery times, and would save the same file. Whatever the writes
  answer, also an error after the file was replaced, the file on disk is absent or a policy that
  validates.
\<close>

theorem routing_policy_durable:
  assumes "reachable forward_init (forward_step u jsonLen) s" "\<not> df_policyClosed (fr_f s)" "df_policyErr (fr_f s) = None" "path \<noteq> []"
  shows "\<exists>p. routingPolicySnapshot None (fr_f s) = Inr p \<and> validateRoutingPolicy u p = None
    \<and> (jsonLen p < routingPolicyLimit \<longrightarrow>
        (let g = loadRoutingPolicy u jsonLen (PolicyJSON p) (newDynamicForwarder path epoch)
         in map_of (df_pins g) = map_of (df_pins (fr_f s))
          \<and> (\<forall>k. map_of (df_restored g) k = (case map_of (df_routes (fr_f s)) k of
                 Some r \<Rightarrow> Some (route_claim r) | None \<Rightarrow> map_of (df_restored (fr_f s)) k))
          \<and> routingPolicySnapshot None g = Inr p))
    \<and> (\<forall>q. fr_file s = PolicyJSON q \<longrightarrow> validateRoutingPolicy u q = None)"
proof -
  let ?f = "fr_f s" let ?p = "policy_of (df_pins ?f) ?f"
  let ?g = "loadRoutingPolicy u jsonLen (PolicyJSON ?p) (newDynamicForwarder path epoch)"
  have inv: "forward_inv u jsonLen s" by (rule fw.reachable_inv [OF assms(1)])
  then have ok: "forwarder_ok u ?f" using assms(2) by (simp add: forward_inv_def)
  note facts = ok_facts [OF ok]
  have v: "validateRoutingPolicy u ?p = None" by (rule policy_valid [OF facts])
  have "map_of (df_pins ?g) = map_of (df_pins ?f) \<and> (\<forall>k. map_of (df_restored ?g) k = (case map_of (df_routes ?f) k of
      Some r \<Rightarrow> Some (route_claim r) | None \<Rightarrow> map_of (df_restored ?f) k)) \<and> routingPolicySnapshot None ?g = Inr ?p"
    if len: "jsonLen ?p < routingPolicyLimit"
  proof -
    note l = load_snapshot [where jsonLen = jsonLen and epoch = epoch, OF facts len assms(4) refl]
    have "df_policyErr ?g = None"
      unfolding load_valid [where jsonLen = jsonLen and epoch = epoch, OF v len assms(4)] by (simp add: newDynamicForwarder_def)
    moreover have "policy_of (df_pins ?g) ?g = ?p"
      by (rule load_save [where jsonLen = jsonLen and epoch = epoch, OF v len assms(4) policy_sorted refl])
    ultimately show ?thesis using l by (simp add: snapshot_policy)
  qed
  then show ?thesis using v assms(3) inv by (auto simp: snapshot_policy Let_def forward_inv_def stored_ok_def)
qed

theorem routing_policy_durable_witness:
  "\<exists>p. routingPolicySnapshot None sample_serving = Inr p \<and> validateRoutingPolicy sample_uuid p = None"
proof -
  have "\<not> df_policyClosed sample_serving" "df_policyErr sample_serving = None" by code_simp+
  then show ?thesis using routing_policy_durable [OF sample_reachable, of "''p''"] by auto
qed

text \<open>
  Property C13: a generic request goes where it should. In the state that \<^verbatim>\<open>reconcileServers\<close> leaves,
  from any reachable state of an open forwarder, a request for localhost on a pinned port with a
  serving listener travels over a route of the pinned node or is answered with 502, never over a
  route of another node; on a port without a pin it goes to the first claim in the order of discovery
  (of the newest listener for the Codex callback), preferring a live route. Between a scan and the
  next reconciliation the listeners still have their old default nodes, and nothing is claimed.
\<close>

theorem generic_port_routing:
  assumes "reachable forward_init (forward_step u jsonLen) s" "\<not> df_policyClosed (fr_f s)" "\<not> u []"
    and "g = reconcileServers listen now (fr_f s)" "map_of (df_servers g) port = Some server" "serving server"
  shows "\<exists>key route. (key, route) \<in> set (df_routes (fr_f s)) \<and> rk_port key = port
    \<and> ServeHTTP port GenericHost g = over_route route
    \<and> (case map_of (df_pins (fr_f s)) port of
         Some i \<Rightarrow> ro_nodeID route = i
       | None \<Rightarrow> (\<forall>(k, r) \<in> set (df_routes (fr_f s)). rk_port k = port \<and> \<not> ro_lapsed r \<longrightarrow> \<not> ro_lapsed route
           \<and> claim_rank (port = codexLoginCallbackPort) route \<le> claim_rank (port = codexLoginCallbackPort) r))"
proof -
  let ?f = "fr_f s"
  have ok: "forwarder_ok u ?f" using fw.reachable_inv [OF assms(1)] assms(2) by (simp add: forward_inv_def)
  note t = ok_facts(1) [OF ok]
  have "aimed ?f g" unfolding assms(4) by (rule reconcile_aimed)
  then have aim: "df_routes g = df_routes ?f" "ps_defaultNode server = preferredClaimantLocked port ?f"
      "port \<in> (rk_port \<circ> fst) ` set (df_routes ?f)"
    using assms(5,6) by (auto simp: aimed_def)
  obtain k r where kr: "(k, r) \<in> set (df_routes ?f)" "rk_port k = port" using aim(3) by auto
  have serve: "ServeHTTP port GenericHost g = over_route route"
    if "(key, route) \<in> set (df_routes ?f)" "rk_port key = port" "preferredClaimantLocked port ?f = rk_node key" for key route
    using generic_request [OF assms(5), of key route] aim(1,2) that route_names [OF t that(1)] by simp
  show ?thesis
  proof (cases "map_of (df_pins ?f) port")
    case None
    from preferred_unpinned [OF t None kr] serve show ?thesis using None by auto
  next
    case (Some i)
    have "df_restored ?f = []" using ok kr by (auto simp: forwarder_ok_def settled_def)
    moreover have "claimed ?f port i" using ok_facts(3) [OF ok] Some by (simp add: supported_def)
    ultimately obtain k' r' where "(k', r') \<in> set (df_routes ?f)" "rk_port k' = port" "ro_nodeID r' = i"
      unfolding claimed_def by (auto dest: map_of_SomeD)
    from preferred_pinned [OF t assms(3) Some this] serve show ?thesis using Some by auto
  qed
qed

theorem generic_port_routing_witness:
  "\<exists>route. ServeHTTP 3000 GenericHost (reconcileServers (\<lambda>_. None) 8 sample_serving) = over_route route"
proof -
  let ?g = "reconcileServers (\<lambda>_. None) 8 sample_serving"
  have "\<not> df_policyClosed sample_serving" "map_option serving (map_of (df_servers ?g) 3000) = Some True" by code_simp+
  then obtain server where "\<not> df_policyClosed sample_serving" "map_of (df_servers ?g) 3000 = Some server" "serving server" by auto
  then show ?thesis using generic_port_routing [OF sample_reachable, of ?g "\<lambda>_. None" 8 3000 server] by auto
qed

text \<open>
  Property C15: pinning a port is all or nothing in memory, and never leaves a mixed file. When it
  fails - the forwarder is shutting down, the route or its listener is gone, the write reports an
  error - the pins, the listeners and the routes are as before, and so is the file, unless the write
  failed after it had replaced the file: then the file is the complete new policy, which validates.
  When it succeeds, the pin is set, the other pins are kept, a generic request on the port goes to the
  chosen node, and the file that was written before the pin took effect is the policy with the new
  pins. Only if nothing was written, because the forwarder takes the policy for saved, and an earlier
  write had failed after replacing the file, may the file differ; it still validates.
\<close>

theorem pin_all_or_nothing:
  assumes "reachable forward_init (forward_step u jsonLen) s" "fr_pin s = None" "\<not> u []"
    and "pinBarePort jsonLen disk nodeID port (fr_f s) = (g, written, err)"
  shows "(err \<noteq> None \<longrightarrow> df_pins g = df_pins (fr_f s) \<and> df_servers g = df_servers (fr_f s)
      \<and> df_routes g = df_routes (fr_f s) \<and> policy_of (df_pins g) g = policy_of (df_pins (fr_f s)) (fr_f s)
      \<and> (written = None \<or> late_failure disk
          \<and> written = Some (policy_of (AList.update port nodeID (df_pins (fr_f s))) (fr_f s))))
    \<and> (err = None \<longrightarrow> map_of (df_pins g) = (map_of (df_pins (fr_f s)))(port \<mapsto> nodeID)
      \<and> (written = Some (policy_of (df_pins g) g)
          \<or> written = None \<and> (fr_late s \<or> fr_file s = PolicyJSON (policy_of (df_pins g) g)))
      \<and> (\<exists>key route. (key, route) \<in> set (df_routes g) \<and> ro_nodeID route = nodeID
           \<and> ServeHTTP port GenericHost g = over_route route))
    \<and> (\<forall>p. saved_file written (fr_file s) = PolicyJSON p \<longrightarrow> validateRoutingPolicy u p = None)"
proof -
  let ?f = "fr_f s" let ?pins = "AList.update port nodeID (df_pins ?f)"
  have inv: "forward_inv u jsonLen s" by (rule fw.reachable_inv [OF assms(1)])
  obtain h r where h: "pin_prepare jsonLen disk nodeID port ?f = (h, written, r)"
      "(g, err) = (case r of Inl e \<Rightarrow> (h, Some e) | Inr pins \<Rightarrow> (pin_commit port pins h, None))"
    using assms(4) by (auto simp: pinBarePort_def split: prod.splits sum.splits)
  show ?thesis
  proof (cases "r = Inl shutting_down \<or> r = Inl pin_stale")
    case True
    have "\<forall>p. fr_file s = PolicyJSON p \<longrightarrow> validateRoutingPolicy u p = None"
      using inv by (auto simp: forward_inv_def stored_ok_def)
    then show ?thesis using pin_prepare_early [OF h(1) True] h(2) True by (auto simp: saved_file_def)
  next
    case False
    then obtain key route server e where c: "\<not> df_policyClosed ?f"
      and kr: "(key, route) \<in> set (df_routes ?f)" "ro_nodeID route = nodeID" "rk_port key = port"
      and server: "map_of (df_servers ?f) port = Some server"
      and save: "save_snapshot jsonLen disk (Some ?pins) ?f = (h, written, e)"
      and r: "r = (case e of None \<Rightarrow> Inr ?pins | Some err \<Rightarrow> Inl (OtherError err))"
      using pin_prepare_saves [OF h(1)] by metis
    have ok: "forwarder_ok u ?f" and i: "df_policyPath ?f \<noteq> []"
      "\<forall>p. df_policySaved ?f = Some p \<and> \<not> fr_late s \<longrightarrow> fr_file s = PolicyJSON p" "stored_ok u jsonLen (fr_file s)"
      using inv c by (auto simp: forward_inv_def)
    obtain v w where hf: "h = ?f\<lparr>df_policySaved := v, df_policyWriteErr := w\<rparr>"
      and same: "e = None \<Longrightarrow> written = None \<Longrightarrow> df_policySaved ?f = Some (policy_of ?pins ?f)"
      and failed: "e \<noteq> None \<Longrightarrow> written = None \<or> late_failure disk"
      and new: "written = None \<or> written = Some (policy_of ?pins ?f)"
      using save_effect [OF save i(1)] by (metis option.simps(5))
    have valid: "validateRoutingPolicy u (policy_of ?pins ?f) = None"
      by (rule policy_valid [OF ok_facts(1) [OF ok] new_pin_ok [OF ok kr]])
    then have valid_file: "\<forall>p. saved_file written (fr_file s) = PolicyJSON p \<longrightarrow> validateRoutingPolicy u p = None"
      using new i(3) by (auto simp: saved_file_def stored_ok_def)
    show ?thesis
    proof (cases e)
      case (Some x)
      then have "g = h" "err \<noteq> None" using h(2) r by auto
      then show ?thesis using hf failed new valid_file Some by auto
    next
      case None
      then have g: "g = pin_commit port ?pins h" "err = None" using h(2) r by auto
      let ?h = "h\<lparr>df_pins := ?pins\<rparr>"
      have t: "tables_ok u g" and th: "tables_ok u ?h"
        using pin_commit_ok [OF ok new_pin_ok [OF ok kr], of port] hf g new_pin_ok [OF ok kr] ok
        by (simp_all add: forwarder_ok_def tables_ok_def keys_ok_def routes_ok_def restored_ok_def discovered_ok_def supported_def claimed_def apart_def)
      have "map_of (df_pins ?h) port = Some nodeID" "(key, route) \<in> set (df_routes ?h)" using kr hf by (simp_all add: update_conv')
      from preferred_pinned [OF th assms(3) this kr(3,2)] obtain key' route' where kr':
        "(key', route') \<in> set (df_routes ?h)" "rk_port key' = port" "ro_nodeID route' = nodeID"
        "preferredClaimantLocked port ?h = rk_node key'" by blast
      have "map_of (df_servers g) port = Some (server\<lparr>ps_defaultNode := rk_node key'\<rparr>)"
        using server hf kr'(4) by (simp add: g pin_commit_def Let_def update_conv')
      moreover have m: "(key', route') \<in> set (df_routes g)" using kr'(1) g by simp
      ultimately have "ServeHTTP port GenericHost g = over_route route'"
        using generic_request [of g port _ key' route'] route_names [OF t m] kr'(2) by simp
      moreover have "written = Some (policy_of ?pins ?f)
          \<or> written = None \<and> (fr_late s \<or> fr_file s = PolicyJSON (policy_of ?pins ?f))"
        using new same [OF None] i(2) by blast
      ultimately show ?thesis using m kr'(3) valid_file g hf by (auto simp: update_conv')
    qed
  qed
qed

theorem pin_all_or_nothing_witness:
  "map_of (df_pins (fst (pinBarePort sample_len no_errors ''n1'' 3000 sample_serving))) 3000 = Some ''n1''
     \<and> df_pins (fst (pinBarePort sample_len sync_error ''n1'' 3000 sample_serving)) = df_pins sample_serving"
proof -
  obtain g written err where g: "pinBarePort sample_len no_errors ''n1'' 3000 sample_serving = (g, written, err)" by (metis prod_cases3)
  obtain h written' err' where h: "pinBarePort sample_len sync_error ''n1'' 3000 sample_serving = (h, written', err')" by (metis prod_cases3)
  have "snd (snd (pinBarePort sample_len no_errors ''n1'' 3000 sample_serving)) = None"
    "snd (snd (pinBarePort sample_len sync_error ''n1'' 3000 sample_serving)) \<noteq> None" by code_simp+
  then have "err = None" "err' \<noteq> None" using g h by simp_all
  then show ?thesis using pin_all_or_nothing [OF sample_reachable, of no_errors "''n1''" 3000 g written err]
    pin_all_or_nothing [OF sample_reachable, of sync_error "''n1''" 3000 h written' err'] g h by simp
qed

text \<open>
  A pin that is refused can come into force later. The forwarder has saved its policy; the write of
  a new pin reports an error of the directory sync, after the rename. The pin is not set, the next
  save finds its policy unchanged and writes nothing, and a restart loads the refused pin.
\<close>

theorem refused_pin_survives:
  "case persistRoutingPolicy sample_len no_errors sample_serving of (f, _, _) \<Rightarrow>
   case pinBarePort sample_len sync_error ''n1'' 3000 f of (g, written, err) \<Rightarrow>
     err \<noteq> None \<and> df_pins g = []
     \<and> snd (persistRoutingPolicy sample_len no_errors g) = (None, None)
     \<and> df_pins (loadRoutingPolicy sample_uuid sample_len (saved_file written NoFile) sample_start) = [(3000, ''n1'')]"
  by code_simp

end
