(* ===== verification/LogText.thy ===== *)
theory LogText
  imports TerminalBytes AppErrors
begin

text \<open>
  \<^verbatim>\<open>plainLogText\<close> of \<^verbatim>\<open>node_log_source.go\<close>: what is left of a line of log when control sequences and
  unprintable characters are taken out. The theory proves that text which went through it and
  through \<^verbatim>\<open>strings.TrimSpace\<close> is a fixed point of both, which is what the activity journal relies
  on when it reads a message back. \<open>isPrint\<close> stands for the tables of \<^verbatim>\<open>unicode.IsPrint\<close>, on the
  UTF-8 encoding of a rune.
\<close>

section \<open>Definitions\<close>

text \<open>Ranging over a string: its runes in UTF-8, an invalid byte as the replacement character.\<close>

function runes :: "string \<Rightarrow> string list" where
  "runes s =
     (if s = [] then []
      else if rune_size s = 0 then replacement # runes (tl s)
      else take (rune_size s) s # runes (drop (rune_size s) s))"
  by pat_completeness auto
termination by (relation "measure length") auto

declare runes.simps [simp del]

definition zero_width :: "string list" where
  "zero_width = [[CHR 0xE2, CHR 0x80, CHR 0x8C], [CHR 0xE2, CHR 0x80, CHR 0x8D]]"

definition plain_rune :: "(string \<Rightarrow> bool) \<Rightarrow> string \<Rightarrow> string" where
  "plain_rune isPrint r =
     (if r = [CHR 0x09] then ''    ''
      else if r = [CHR 0x0A] \<or> r = [CHR 0x0D] then '' ''
      else if isPrint r \<or> r \<in> set zero_width then r
      else [])"

fun plain_runes :: "(string \<Rightarrow> bool) \<Rightarrow> VTBoundary \<Rightarrow> string list \<Rightarrow> string" where
  "plain_runes isPrint boundary [] = []"
| "plain_runes isPrint boundary (r # rs) =
     (let after = Feed boundary r
      in (if Ground boundary \<and> Ground after then plain_rune isPrint r else []) @ plain_runes isPrint after rs)"

definition zero_boundary :: VTBoundary where
  "zero_boundary = \<lparr>vb_State = 0, vb_UTF8 = 0, vb_OSC = False\<rparr>"

definition plainLogText :: "(string \<Rightarrow> bool) \<Rightarrow> string \<Rightarrow> string" where
  "plainLogText isPrint text = plain_runes isPrint zero_boundary (runes (ToValidUTF8 text))"

section \<open>Runes\<close>

definition is_rune :: "string \<Rightarrow> bool" where
  "is_rune t \<longleftrightarrow> t \<noteq> [] \<and> rune_size t = length t"

lemma is_rune_append: "is_rune t \<Longrightarrow> rune_size (t @ s) = length t"
  using rune_size_append' [of t s] by (simp add: is_rune_def)

lemma runes_concat: "list_all is_rune rs \<Longrightarrow> runes (concat rs) = rs"
proof (induction rs)
  case (Cons r rs)
  then have "rune_size (r @ concat rs) = length r" "r \<noteq> []" using is_rune_append by (auto simp: is_rune_def)
  then show ?case using Cons by (subst runes.simps) simp
qed (simp add: runes.simps)

lemma concat_valid: "list_all is_rune rs \<Longrightarrow> valid_utf8 (concat rs)"
proof (induction rs)
  case (Cons r rs)
  have "valid_utf8 r" using Cons.prems valid_take_rune [of r] by (simp add: is_rune_def)
  then show ?case using Cons by (simp add: valid_utf8_append)
qed simp

lemma runes_are_runes: "list_all is_rune (runes s)"
proof (induction s rule: runes.induct)
  case (1 s)
  have "is_rune replacement" by code_simp
  moreover have "is_rune (take (rune_size s) s)" if "s \<noteq> []" "rune_size s \<noteq> 0"
    using that rune_size_append [of s "[]"] rune_size_le [of s] by (simp add: is_rune_def)
  ultimately show ?case using 1 by (subst runes.simps) simp
qed

text \<open>A rune is one start byte with its continuation bytes.\<close>

lemma rune_shape: "is_rune t \<Longrightarrow> RuneStart (hd t) \<and> list_all (\<lambda>c. \<not> RuneStart c) (tl t)"
  by (cases t) (auto simp: is_rune_def RuneStart_def second_ok_def cont_def split: if_splits list.splits)

lemma shape_unique:
  assumes "a @ r = b @ w" "r \<noteq> []" "w \<noteq> []" "RuneStart (hd r)" "RuneStart (hd w)"
    "list_all (\<lambda>c. \<not> RuneStart c) (tl r)" "list_all (\<lambda>c. \<not> RuneStart c) (tl w)"
  shows "r = w"
proof -
  have e: "x = hd x # tl x" if "x \<noteq> []" for x :: string using that by simp
  have t: "takeWhile (\<lambda>c. \<not> RuneStart c) (rev (p @ x)) = rev (tl x) \<and> dropWhile (\<lambda>c. \<not> RuneStart c) (rev (p @ x)) = hd x # rev p"
    if "x \<noteq> []" "RuneStart (hd x)" "list_all (\<lambda>c. \<not> RuneStart c) (tl x)" for p x
  proof -
    have x: "rev (p @ x) = rev (tl x) @ hd x # rev p" by (subst e [OF that(1)]) simp
    have n: "\<And>c. c \<in> set (rev (tl x)) \<Longrightarrow> \<not> RuneStart c" using that(3) by (simp add: list_all_iff)
    have "takeWhile (\<lambda>c. \<not> RuneStart c) (rev (tl x) @ hd x # rev p) = rev (tl x) @ takeWhile (\<lambda>c. \<not> RuneStart c) (hd x # rev p)"
      by (rule takeWhile_append2) (rule n)
    moreover have "dropWhile (\<lambda>c. \<not> RuneStart c) (rev (tl x) @ hd x # rev p) = dropWhile (\<lambda>c. \<not> RuneStart c) (hd x # rev p)"
      by (rule dropWhile_append2) (rule n)
    ultimately show ?thesis unfolding x using that(2) by simp
  qed
  have "tl r = tl w" "hd r = hd w" using t [of r a] t [of w b] assms by auto
  then show ?thesis using assms(2,3) e by metis
qed

section \<open>Trimming white space\<close>

lemma spaces_runes: "list_all is_rune spaces"
  by code_simp

lemma lead_of_member: "lead_of ws s = Some w \<Longrightarrow> w \<in> set ws \<and> w \<noteq> [] \<and> take (length w) s = w"
  unfolding lead_of_def by (induction ws) (auto split: if_splits)

lemma strip_lead_Nil: "strip_lead ws [] = []"
proof (cases "lead_of ws []")
  case (Some w)
  have "w \<noteq> []" "w = []" using lead_of_member [OF Some] by auto
  then show ?thesis by contradiction
qed (simp add: strip_lead.simps)

lemma strip_lead_runes:
  "list_all is_rune rs \<Longrightarrow> \<exists>k. strip_lead spaces (concat rs) = concat (drop k rs)"
proof (induction rs)
  case (Cons r rs)
  show ?case
  proof (cases "lead_of spaces (concat (r # rs))")
    case None
    then show ?thesis by (intro exI [of _ 0]) (simp add: strip_lead.simps)
  next
    case (Some w)
    note m = lead_of_member [OF Some]
    obtain s where s: "concat (r # rs) = w @ s" using m by (metis append_take_drop_id)
    have w: "is_rune w" using m spaces_runes by (simp add: list_all_iff)
    have "rune_size (concat (r # rs)) = length r" using is_rune_append Cons.prems by simp
    moreover have "rune_size (concat (r # rs)) = length w" unfolding s using is_rune_append [OF w] .
    ultimately have "length r = length w" by simp
    then have "drop (length w) (concat (r # rs)) = concat rs" by simp
    moreover have "strip_lead spaces (concat (r # rs)) = strip_lead spaces (drop (length w) (concat (r # rs)))"
      by (subst strip_lead.simps) (simp add: Some del: concat.simps)
    moreover obtain k where "strip_lead spaces (concat rs) = concat (drop k rs)" using Cons by auto
    ultimately show ?thesis by (intro exI [of _ "Suc k"]) simp
  qed
qed (simp add: strip_lead_Nil)

lemma strip_tail_runes:
  "list_all is_rune rs \<Longrightarrow> \<exists>k. rev (strip_lead (map rev spaces) (rev (concat rs))) = concat (take k rs)"
proof (induction rs rule: rev_induct)
  case (snoc r rs)
  let ?s = "concat (rs @ [r])"
  show ?case
  proof (cases "lead_of (map rev spaces) (rev ?s)")
    case None
    then show ?thesis by (intro exI [of _ "length (rs @ [r])"]) (simp add: strip_lead.simps)
  next
    case (Some v)
    note m = lead_of_member [OF Some]
    obtain w where w: "v = rev w" "w \<in> set spaces" using m by auto
    have wr: "is_rune w" "is_rune r" using w(2) spaces_runes snoc.prems by (auto simp: list_all_iff)
    have "rev ?s = v @ drop (length v) (rev ?s)" using m by (metis append_take_drop_id)
    then have "?s = rev (drop (length v) (rev ?s)) @ w" using w(1) by (metis rev_append rev_rev_ident)
    then have "concat rs @ r = rev (drop (length v) (rev ?s)) @ w" unfolding concat_append concat.simps append_Nil2 .
    then have "r = w" using shape_unique [of "concat rs" r] rune_shape [OF wr(1)] rune_shape [OF wr(2)] wr by (simp add: is_rune_def)
    then have "drop (length v) (rev ?s) = rev (concat rs)" using w(1) by simp
    moreover have "strip_lead (map rev spaces) (rev ?s) = strip_lead (map rev spaces) (drop (length v) (rev ?s))"
      by (subst strip_lead.simps) (simp add: Some del: concat_append concat.simps)
    moreover obtain k where "rev (strip_lead (map rev spaces) (rev (concat rs))) = concat (take k rs)" using snoc by auto
    moreover have "take (min k (length rs)) (rs @ [r]) = take k rs" by (cases "k \<le> length rs") simp_all
    ultimately show ?thesis by (intro exI [of _ "min k (length rs)"]) simp
  qed
qed (simp add: strip_lead_Nil)

lemma trim_runes:
  assumes "list_all is_rune rs"
  obtains rs' where "TrimSpace (concat rs) = concat rs'" "set rs' \<subseteq> set rs"
proof -
  obtain k where k: "strip_lead spaces (concat rs) = concat (drop k rs)" using strip_lead_runes [OF assms] by blast
  have "list_all is_rune (drop k rs)" using assms by (auto simp: list_all_iff dest: in_set_dropD)
  from strip_tail_runes [OF this] obtain j where
    "TrimSpace (concat rs) = concat (take j (drop k rs))" unfolding TrimSpace_def k by blast
  moreover have "set (take j (drop k rs)) \<subseteq> set rs" by (auto dest: in_set_takeD in_set_dropD)
  ultimately show thesis by (rule that)
qed

lemma strip_lead_none: "lead_of ws (strip_lead ws s) = None"
proof (induction ws s rule: strip_lead.induct)
  case (1 ws s)
  show ?case
  proof (cases "lead_of ws s")
    case None
    then show ?thesis by (simp add: strip_lead.simps)
  next
    case (Some w)
    then show ?thesis using 1 by (simp add: strip_lead.simps [of ws s])
  qed
qed

lemma strip_lead_suffix: "\<exists>p. s = p @ strip_lead ws s"
proof (induction ws s rule: strip_lead.induct)
  case (1 ws s)
  show ?case
  proof (cases "lead_of ws s")
    case None
    then show ?thesis by (simp add: strip_lead.simps)
  next
    case (Some w)
    then obtain p where "drop (length w) s = p @ strip_lead ws (drop (length w) s)" using 1 by blast
    then have "s = (take (length w) s @ p) @ strip_lead ws (drop (length w) s)" by (metis append_assoc append_take_drop_id)
    moreover have "strip_lead ws s = strip_lead ws (drop (length w) s)" using Some strip_lead.simps [of ws s] by simp
    ultimately show ?thesis by metis
  qed
qed

lemma lead_of_prefix: "lead_of ws (t @ s) = None \<Longrightarrow> lead_of ws t = None"
  unfolding lead_of_def find_None_iff
proof (intro notI)
  assume a: "\<nexists>x. x \<in> set ws \<and> x \<noteq> [] \<and> take (length x) (t @ s) = x" and "\<exists>x. x \<in> set ws \<and> x \<noteq> [] \<and> take (length x) t = x"
  then obtain x where x: "x \<in> set ws" "x \<noteq> []" "take (length x) t = x" by blast
  have "length x \<le> length t" using x(3) by (metis length_take min.cobounded1)
  then have "take (length x) (t @ s) = x" using x(3) by simp
  then show False using a x by blast
qed

lemma TrimSpace_idem: "TrimSpace (TrimSpace s) = TrimSpace s"
proof -
  let ?u = "strip_lead spaces s"
  let ?v = "strip_lead (map rev spaces) (rev ?u)"
  obtain p where "rev ?u = p @ ?v" using strip_lead_suffix by blast
  then have "?u = rev ?v @ rev p" by (metis rev_append rev_rev_ident)
  then have "lead_of spaces (rev ?v) = None" using strip_lead_none [of spaces s] lead_of_prefix by metis
  then have "strip_lead spaces (rev ?v) = rev ?v" by (simp add: strip_lead.simps)
  moreover have "strip_lead (map rev spaces) ?v = ?v" using strip_lead_none [of "map rev spaces" "rev ?u"] by (simp add: strip_lead.simps)
  ultimately show ?thesis by (simp add: TrimSpace_def)
qed

section \<open>Plain text is plain\<close>

definition plain_kept :: "(string \<Rightarrow> bool) \<Rightarrow> string \<Rightarrow> bool" where
  "plain_kept isPrint r \<longleftrightarrow> is_rune r \<and> r \<noteq> [esc] \<and> plain_rune isPrint r = r"

text \<open>What the proof needs of \<^verbatim>\<open>unicode.IsPrint\<close>: the space is printable, the escape character is not.\<close>

definition print_ok :: "(string \<Rightarrow> bool) \<Rightarrow> bool" where
  "print_ok isPrint \<longleftrightarrow> isPrint '' '' \<and> \<not> isPrint [esc]"

lemma space_kept: "print_ok isPrint \<Longrightarrow> plain_kept isPrint '' ''"
  by (simp add: plain_kept_def print_ok_def plain_rune_def is_rune_def byte_def esc_def)

lemma plain_rune_kept:
  assumes "print_ok isPrint" "is_rune r"
  shows "\<exists>ps. plain_rune isPrint r = concat ps \<and> list_all (plain_kept isPrint) ps"
proof -
  consider "plain_rune isPrint r = ''    ''" | "plain_rune isPrint r = '' ''" | "plain_rune isPrint r = []"
    | "plain_rune isPrint r = r" "r \<noteq> [esc]"
  proof (cases "plain_rune isPrint r = r")
    case True
    have "plain_rune isPrint [esc] = []" using assms(1) by (simp add: plain_rune_def print_ok_def zero_width_def esc_def)
    then have "r \<noteq> [esc]" using True by auto
    then show thesis using True that(4) by blast
  next
    case False
    then have "plain_rune isPrint r = ''    '' \<or> plain_rune isPrint r = '' '' \<or> plain_rune isPrint r = []"
      unfolding plain_rune_def by metis
    then show thesis using that(1-3) by blast
  qed
  then show ?thesis
  proof cases
    case 1
    then show ?thesis using space_kept [OF assms(1)] by (intro exI [of _ "['' '', '' '', '' '', '' '']"]) simp
  next
    case 2
    then show ?thesis using space_kept [OF assms(1)] by (intro exI [of _ "['' '']"]) simp
  next
    case 3
    then show ?thesis by (intro exI [of _ "[]"]) simp
  next
    case 4
    then show ?thesis using assms(2) by (intro exI [of _ "[r]"]) (simp add: plain_kept_def)
  qed
qed

lemma plain_runes_kept:
  assumes "print_ok isPrint" "list_all is_rune rs"
  shows "\<exists>ps. plain_runes isPrint v rs = concat ps \<and> list_all (plain_kept isPrint) ps"
  using assms(2)
proof (induction rs arbitrary: v)
  case (Cons r rs)
  obtain qs where q: "plain_runes isPrint (Feed v r) rs = concat qs" "list_all (plain_kept isPrint) qs" using Cons by auto
  obtain ps where "plain_rune isPrint r = concat ps" "list_all (plain_kept isPrint) ps"
    using plain_rune_kept [OF assms(1)] Cons.prems by auto
  then have "plain_runes isPrint v (r # rs) = concat ((if Ground v \<and> Ground (Feed v r) then ps else []) @ qs)"
    using q(1) by (cases "Ground v \<and> Ground (Feed v r)") (auto simp: Let_def)
  moreover have "list_all (plain_kept isPrint) ((if Ground v \<and> Ground (Feed v r) then ps else []) @ qs)"
    using q(2) \<open>list_all (plain_kept isPrint) ps\<close> by simp
  ultimately show ?case by blast
qed (auto intro: exI [of _ "[]"])

lemma kept_runes: "list_all (plain_kept isPrint) rs \<Longrightarrow> list_all is_rune rs"
  by (auto simp: list_all_iff plain_kept_def)

lemma kept_ground:
  assumes "plain_kept isPrint r" "Ground v"
  shows "Ground (Feed v r)"
proof -
  have "hd r \<noteq> esc"
  proof
    assume h: "hd r = esc"
    then have "rune_size r = 1" using assms(1) by (cases r) (auto simp: plain_kept_def is_rune_def byte_def esc_def)
    then have "r = [esc]" using assms(1) h by (cases r) (auto simp: plain_kept_def is_rune_def)
    then show False using assms(1) by (simp add: plain_kept_def)
  qed
  then have "closed_unit r" using assms(1) by (intro character_closed) (simp add: character_token_def plain_kept_def is_rune_def)
  then show ?thesis using assms(2) by (simp add: closed_unit_def)
qed

lemma plain_fixed:
  assumes "list_all (plain_kept isPrint) rs" "Ground v"
  shows "plain_runes isPrint v rs = concat rs"
  using assms
proof (induction rs arbitrary: v)
  case (Cons r rs)
  then show ?case using kept_ground [of isPrint r v] by (simp add: Let_def plain_kept_def)
qed simp

lemma plain_text_fixed:
  assumes "list_all (plain_kept isPrint) rs"
  shows "plainLogText isPrint (concat rs) = concat rs"
proof -
  have r: "list_all is_rune rs" by (rule kept_runes [OF assms])
  have "ToValidUTF8 (concat rs) = concat rs" unfolding ToValidUTF8_def by (rule to_valid_id [OF concat_valid [OF r]])
  then show ?thesis using plain_fixed [OF assms, of zero_boundary] runes_concat [OF r]
    by (simp add: plainLogText_def Ground_def zero_boundary_def)
qed

text \<open>A trimmed plain text is unchanged when it is cleaned and trimmed again, and it is valid UTF-8.\<close>

lemma plain_trim_fixed:
  assumes "print_ok isPrint"
  shows "TrimSpace (plainLogText isPrint (TrimSpace (plainLogText isPrint s))) = TrimSpace (plainLogText isPrint s)"
    and "valid_utf8 (TrimSpace (plainLogText isPrint s))"
proof -
  obtain ps where ps: "plainLogText isPrint s = concat ps" "list_all (plain_kept isPrint) ps"
    unfolding plainLogText_def using plain_runes_kept [OF assms runes_are_runes] by blast
  obtain qs where qs: "TrimSpace (concat ps) = concat qs" "set qs \<subseteq> set ps" using trim_runes [OF kept_runes [OF ps(2)]] .
  have k: "list_all (plain_kept isPrint) qs" using ps(2) qs(2) by (auto simp: list_all_iff)
  have "plainLogText isPrint (TrimSpace (plainLogText isPrint s)) = TrimSpace (plainLogText isPrint s)"
    unfolding ps(1) qs(1) by (rule plain_text_fixed [OF k])
  then show "TrimSpace (plainLogText isPrint (TrimSpace (plainLogText isPrint s))) = TrimSpace (plainLogText isPrint s)"
    by (simp add: TrimSpace_idem)
  show "valid_utf8 (TrimSpace (plainLogText isPrint s))"
    unfolding ps(1) qs(1) by (rule concat_valid [OF kept_runes [OF k]])
qed

end
