(* ===== verification/ActivityRuns.thy ===== *)
theory ActivityRuns
  imports ActivityJournal
begin

text \<open>
  The life of the activity journal: messages are appended and pruned, other files appear in the
  directory, the daemon restarts at any moment. The theory shows that a restart loads exactly the
  committed messages, that an append can be repeated, and what a snapshot shows.
\<close>

section \<open>Restart\<close>

lemma restart_loads:
  assumes "journal_ok u isPrint (j, dir)"
  obtains k where "load_files u isPrint dir [] empty_journal = Inr k" "journal_ok u isPrint (k, dir)"
    "map_of (aj_records k) = map_of (aj_records j)" "aj_through k \<le> aj_through j" "aj_limit k = activityMessageLimit"
proof -
  let ?R = "map_of (aj_records j)"
  have r: "\<And>i m. ?R i = Some m \<Longrightarrow> message_ok u isPrint i m \<and> am_Sequence m \<le> aj_through j"
    "\<And>i i' m m'. ?R i = Some m \<Longrightarrow> ?R i' = Some m' \<Longrightarrow> am_Sequence m = am_Sequence m' \<Longrightarrow> i = i'"
    and d: "distinct (map fst dir)" "\<And>i. u i \<Longrightarrow> map_of dir (file_name i) = map_option FileMessage (?R i)"
    using assms unfolding journal_ok_def records_ok_def in_step_def by blast+
  have "loaded ?R (aj_through j) [] empty_journal" by (simp add: loaded_def empty_journal_def)
  have "\<exists>k sequences'. load_files u isPrint dir [] empty_journal = Inr k \<and> loaded ?R (aj_through j) sequences' k
    \<and> (\<forall>i. map_of (aj_records k) i = (if u i \<and> file_name i \<in> fst ` set dir then ?R i else map_of (aj_records empty_journal) i))"
    by (rule load_ok [OF \<open>loaded ?R (aj_through j) [] empty_journal\<close> d(1)])
      (erule d(2), simp add: empty_journal_def, erule r(1), erule (2) r(2))
  then obtain k sequences where k: "load_files u isPrint dir [] empty_journal = Inr k" "loaded ?R (aj_through j) sequences k"
    and at: "\<And>i. map_of (aj_records k) i = (if u i \<and> file_name i \<in> fst ` set dir then ?R i else map_of (aj_records empty_journal) i)"
    by blast
  have same: "map_of (aj_records k) = ?R"
  proof
    fix i
    show "map_of (aj_records k) i = ?R i"
    proof (cases "?R i")
      case None
      then show ?thesis using at [of i] by (simp add: empty_journal_def)
    next
      case (Some m)
      then have "u i" using r(1) [OF Some] by (auto simp: message_ok_def normalizeActivityMessage_def split: if_splits)
      moreover have "file_name i \<in> fst ` set dir" using d(2) [OF \<open>u i\<close>] Some by (force dest: map_of_SomeD)
      ultimately show ?thesis using at [of i] by simp
    qed
  qed
  have l: "distinct (map fst (aj_records k))" "\<And>i m. map_of (aj_records k) i = Some m \<Longrightarrow> am_Sequence m \<le> aj_through k"
    "aj_through k \<le> aj_through j" "aj_limit k = activityMessageLimit" using k(2) unfolding loaded_def by blast+
  have "records_ok u isPrint k" unfolding records_ok_def
  proof (intro conjI allI impI)
    show "distinct (map fst (aj_records k))" by (rule l(1))
    fix i m assume "map_of (aj_records k) i = Some m"
    then show "message_ok u isPrint i m" "am_Sequence m \<le> aj_through k" using r(1) l(2) same by auto
  next
    fix i i' m m' assume "map_of (aj_records k) i = Some m \<and> map_of (aj_records k) i' = Some m' \<and> am_Sequence m = am_Sequence m'"
    then show "i = i'" using r(2) same by metis
  qed
  moreover have "in_step u k dir" using d same by (simp add: in_step_def)
  ultimately have "journal_ok u isPrint (k, dir)" by (simp add: journal_ok_def)
  from that [OF k(1) this same l(3,4)] show thesis .
qed

section \<open>What pruning keeps\<close>

lemma remove_all_keeps:
  assumes "remove_all rmErr ms s = (t, err)" "i \<notin> am_ID ` set ms"
  shows "map_of (aj_records (fst t)) i = map_of (aj_records (fst s)) i"
  using assms
proof (induction ms arbitrary: s)
  case (Cons m ms)
  show ?case
  proof (cases "rmErr (am_ID m)")
    case None
    then have "remove_all rmErr ms (remove_message m s) = (t, err)" using Cons.prems(1) by simp
    moreover have "i \<notin> am_ID ` set ms" "i \<noteq> am_ID m" using Cons.prems(2) by auto
    moreover have "map_of (aj_records (fst (remove_message m s))) i = map_of (aj_records (fst s)) i"
      using \<open>i \<noteq> am_ID m\<close> by (cases s) (simp add: remove_message_def delete_conv')
    ultimately show ?thesis using Cons.IH by metis
  next
    case (Some e)
    then show ?thesis using Cons.prems by auto
  qed
qed simp

lemma newest_not_taken:
  assumes "sorted (map f xs)" "distinct (map f xs)" "m \<in> set xs" "\<And>x. x \<in> set xs \<Longrightarrow> f x \<le> f m" "n < length xs"
  shows "m \<notin> set (take n xs)"
proof
  assume "m \<in> set (take n xs)"
  then obtain k where k: "k < n" "xs ! k = m" using assms(5) by (metis in_set_conv_nth length_take min_less_iff_conj nth_take)
  let ?l = "length xs - 1"
  have "f (xs ! k) \<le> f (xs ! ?l)" using sorted_nth_mono [OF assms(1), of k ?l] k(1) assms(5) by simp
  moreover have "f (xs ! ?l) \<le> f m" using assms(4,5) by simp
  ultimately have "map f xs ! k = map f xs ! ?l" using k assms(5) by simp
  then have "k = ?l" using nth_eq_iff_index_eq [OF assms(2), of k ?l] k(1) assms(5) by simp
  then show False using k(1) assms(5) by simp
qed

text \<open>A message that has not expired survives pruning if the journal is not over its limit, or if it is the newest.\<close>

lemma prune_keeps:
  assumes "pruneLocked_activity rmErr now s = (t, err)" "journal_ok u isPrint s"
    and "map_of (aj_records (fst s)) i = Some m" "\<not> expired_message now m"
    and "int (length (aj_records (fst s))) \<le> max 1 (aj_limit (fst s)) \<or> am_Sequence m = aj_through (fst s)"
  shows "map_of (aj_records (fst t)) i = Some m"
proof -
  obtain r e where r: "remove_all rmErr (filter (expired_message now) (map snd (aj_records (fst s)))) s = (r, e)" by fastforce
  note k = remove_all_ok [OF r assms(2)]
  have oks: "records_ok u isPrint (fst s)" "records_ok u isPrint (fst r)"
    using assms(2) k by (cases s, cases r, simp add: journal_ok_def)+
  have id: "am_ID m = i" using oks(1) assms(3) by (auto simp: records_ok_def message_ok_def)
  have other: "x = m" if "x \<in> set (map snd (aj_records (fst s)))" "am_ID x = i" for x
    using records_member [OF oks(1) that(1)] that(2) assms(3) by simp
  have "i \<notin> am_ID ` set (filter (expired_message now) (map snd (aj_records (fst s))))"
  proof
    assume "i \<in> am_ID ` set (filter (expired_message now) (map snd (aj_records (fst s))))"
    then obtain x where "x \<in> set (map snd (aj_records (fst s)))" "expired_message now x" "am_ID x = i" by auto
    then show False using other assms(4) by blast
  qed
  from remove_all_keeps [OF r this] have at: "map_of (aj_records (fst r)) i = Some m" using assms(3) by simp
  let ?limit = "max 1 (aj_limit (fst r))" let ?count = "length (aj_records (fst r))"
  let ?xs = "sort_key am_Sequence (map snd (aj_records (fst r)))"
  show ?thesis
  proof (cases "e \<noteq> None \<or> int ?count \<le> ?limit")
    case True
    then have "t = r" using assms(1) r by (auto simp: pruneLocked_activity_def Let_def split: option.splits)
    then show ?thesis using at by simp
  next
    case False
    then have t: "remove_all rmErr (take (?count - nat ?limit) ?xs) r = (t, err)" using assms(1) r by (simp add: pruneLocked_activity_def Let_def)
    have newest: "am_Sequence m = aj_through (fst r)" using False assms(5) k by auto
    have "m \<in> set ?xs" using imageI [OF map_of_SomeD [OF at], of snd] by simp
    moreover have "am_Sequence x \<le> am_Sequence m" if "x \<in> set ?xs" for x
    proof -
      have "x \<in> set (map snd (aj_records (fst r)))" using that by simp
      from records_member [OF oks(2) this] show ?thesis using oks(2) newest by (auto simp: records_ok_def)
    qed
    moreover have "distinct (map am_Sequence ?xs)" using sequences_distinct [OF oks(2)] by (simp add: distinct_map_sort)
    moreover have "?count - nat ?limit < length ?xs"
    proof -
      have "0 < nat ?limit" "nat ?limit < ?count" using False by linarith+
      then show ?thesis by simp
    qed
    ultimately have nt: "m \<notin> set (take (?count - nat ?limit) ?xs)" using newest_not_taken [of am_Sequence ?xs m] by simp
    have "i \<notin> am_ID ` set (take (?count - nat ?limit) ?xs)"
    proof
      assume "i \<in> am_ID ` set (take (?count - nat ?limit) ?xs)"
      then obtain x where x: "x \<in> set (take (?count - nat ?limit) ?xs)" "am_ID x = i" by auto
      then have "x \<in> set (map snd (aj_records (fst r)))" by (metis in_set_takeD set_sort)
      from records_member [OF oks(2) this] have "x = m" using x(2) at by simp
      then show False using x(1) nt by simp
    qed
    from remove_all_keeps [OF t this] show ?thesis using at by simp
  qed
qed

section \<open>Runs\<close>

text \<open>
  \<open>restart\<close> starts the daemon again on the directory; when the pruning at its end fails the journal
  is not used and only the directory counts. \<open>writes\<close> are the answers of the file system that occur
  when a message is written. \<open>foreign\<close> is a file that is not a message, for example a
  temporary file of an interrupted write.
\<close>

inductive activity_step ::
  "(fileAnswers \<Rightarrow> bool) \<Rightarrow> (string \<Rightarrow> bool) \<Rightarrow> (string \<Rightarrow> bool) \<Rightarrow> (ActivityMessage \<Rightarrow> int)
     \<Rightarrow> activityJournal \<times> activityDir \<Rightarrow> activityJournal \<times> activityDir \<Rightarrow> bool"
  for writes u isPrint jsonLen where
  append: "now2 \<noteq> 0 \<Longrightarrow> writes disk \<Longrightarrow> activity_step writes u isPrint jsonLen s (fst (Append u isPrint jsonLen rmErr disk now1 now2 now3 request s))"
| prune: "activity_step writes u isPrint jsonLen s (fst (pruneLocked_activity rmErr now s))"
| restart: "newActivityJournal u isPrint rmErr now (snd s) = Inr (t, err) \<Longrightarrow> activity_step writes u isPrint jsonLen s t"
| foreign: "(\<And>i. name = file_name i \<Longrightarrow> \<not> u i)
    \<Longrightarrow> activity_step writes u isPrint jsonLen (j, dir) (j, AList.update name content dir)"

definition activity_init :: "activityJournal \<times> activityDir \<Rightarrow> bool" where
  "activity_init s \<longleftrightarrow> s = (empty_journal, [])"

definition activity_inv :: "(string \<Rightarrow> bool) \<Rightarrow> (string \<Rightarrow> bool) \<Rightarrow> activityJournal \<times> activityDir \<Rightarrow> bool" where
  "activity_inv u isPrint s \<longleftrightarrow> journal_ok u isPrint s \<and> bounded_journal s \<and> aj_limit (fst s) = activityMessageLimit"

lemma activity_prune_inv:
  assumes "activity_inv u isPrint s"
  shows "activity_inv u isPrint (fst (pruneLocked_activity rmErr now s))"
proof -
  obtain t e where t: "pruneLocked_activity rmErr now s = (t, e)" by fastforce
  have "journal_ok u isPrint s" using assms by (simp add: activity_inv_def)
  note p = prune_ok(1-4) [OF t this]
  then have "bounded_journal t" using assms unfolding activity_inv_def bounded_journal_def by linarith
  then show ?thesis using p assms by (simp add: t activity_inv_def)
qed

lemma map_of_length:
  assumes "distinct (map fst xs)" "distinct (map fst ys)" "map_of xs = map_of ys"
  shows "length xs = length ys"
  using assms distinct_card [of "map fst xs"] distinct_card [of "map fst ys"]
  by (metis dom_map_of_conv_image_fst length_map list.set_map)

lemma activity_restart_inv:
  assumes "activity_inv u isPrint s" "newActivityJournal u isPrint rmErr now (snd s) = Inr (t, err)"
  shows "activity_inv u isPrint t"
proof -
  obtain j dir where s: "s = (j, dir)" by fastforce
  have ok: "journal_ok u isPrint (j, dir)" and b: "bounded_journal s" "aj_limit j = activityMessageLimit"
    using assms(1) by (auto simp: activity_inv_def s)
  obtain k where k: "load_files u isPrint dir [] empty_journal = Inr k" "journal_ok u isPrint (k, dir)"
    "map_of (aj_records k) = map_of (aj_records j)" "aj_limit k = activityMessageLimit" using restart_loads [OF ok] by metis
  have "length (aj_records k) = length (aj_records j)"
    using k(2,3) ok by (intro map_of_length) (simp_all add: journal_ok_def records_ok_def)
  then have "activity_inv u isPrint (k, dir)" using k(2,4) b by (simp add: activity_inv_def bounded_journal_def s)
  moreover have "fst (pruneLocked_activity rmErr now (k, dir)) = t" using assms(2) k(1) by (simp add: newActivityJournal_def s)
  ultimately show ?thesis using activity_prune_inv [of u isPrint "(k, dir)" rmErr now] by simp
qed

lemma activity_step_inv:
  assumes "print_ok isPrint" "activity_step (\<lambda>a. \<not> late_failure a) u isPrint jsonLen s t" "activity_inv u isPrint s"
  shows "activity_inv u isPrint t"
  using assms(2,3)
proof cases
  case (append now2 disk rmErr now1 now3 request)
  obtain r m e where a: "Append u isPrint jsonLen rmErr disk now1 now2 now3 request s = (r, m, e)" by (metis surj_pair)
  show ?thesis using Append_cases [OF a _ _ assms(1) append(2,3)] assms(3) by (simp add: append(1) a activity_inv_def)
next
  case (prune rmErr now)
  then show ?thesis using activity_prune_inv assms(3) by simp
next
  case (restart rmErr now err)
  then show ?thesis using activity_restart_inv assms(3) by blast
next
  case (foreign name j dir content)
  have "in_step u j (AList.update name content dir)" if "in_step u j dir"
    using that foreign(3) by (auto simp: in_step_def distinct_update update_conv')
  moreover have "bounded_journal (j, AList.update name content dir) \<longleftrightarrow> bounded_journal (j, dir)" by (simp add: bounded_journal_def)
  ultimately show ?thesis using assms(3) foreign(1,2) by (simp add: activity_inv_def journal_ok_def)
qed

lemma activity_init_inv: "activity_init s \<Longrightarrow> activity_inv u isPrint s"
  by (simp add: activity_init_def activity_inv_def empty_journal_def journal_ok_def records_ok_def in_step_def bounded_journal_def)

interpretation aj: invariant_system activity_init "activity_step (\<lambda>a. \<not> late_failure a) u isPrint jsonLen" "\<lambda>s. print_ok isPrint \<longrightarrow> activity_inv u isPrint s"
  for u isPrint jsonLen
  by unfold_locales (auto simp: activity_init_inv intro: activity_step_inv)

abbreviation activity_run ::
  "(string \<Rightarrow> bool) \<Rightarrow> (string \<Rightarrow> bool) \<Rightarrow> (ActivityMessage \<Rightarrow> int) \<Rightarrow> activityJournal \<times> activityDir \<Rightarrow> bool" where
  "activity_run u isPrint jsonLen \<equiv> reachable activity_init (activity_step (\<lambda>a. \<not> late_failure a) u isPrint jsonLen)"

lemma activity_run_ok:
  assumes "activity_run u isPrint jsonLen s" "print_ok isPrint"
  shows "journal_ok u isPrint s" "bounded_journal s" "aj_limit (fst s) = activityMessageLimit"
  using aj.reachable_inv [OF assms(1)] assms(2) by (simp_all add: activity_inv_def)

section \<open>Repeating an append\<close>

lemma append_retained:
  assumes "Append u isPrint jsonLen rmErr disk now1 now2 now3 request s = (t, Some m, err)"
    and "journal_ok u isPrint s" "print_ok isPrint" "now2 \<noteq> 0" "\<not> expired_message now3 m"
  shows "map_of (aj_records (fst t)) (am_ID m) = Some m \<and> normalizeActivityMessage u isPrint request = Inr (am_request m)
    \<and> (int (length (aj_records (fst t))) \<le> max 1 (aj_limit (fst t)) \<or> am_Sequence m = aj_through (fst t))"
proof (cases "normalizeActivityMessage u isPrint request")
  case (Inl e)
  then show ?thesis using assms(1) by (simp add: Append_def)
next
  case (Inr q)
  note q = message_normalize_idem [OF assms(3) Inr]
  obtain a e where a: "pruneLocked_activity rmErr now1 s = (a, e)" by fastforce
  note pa = prune_ok [OF a assms(2)]
  have "e = None" using assms(1) a by (cases e) (auto simp: Append_def Inr)
  note un = assms(1) [unfolded Append_def Inr Let_def sum.case a \<open>e = None\<close> prod.case option.case]
  show ?thesis
  proof (cases "map_of (aj_records (fst a)) (ar_ID q)")
    case (Some old)
    have "am_request old = q"
    proof (rule ccontr)
      assume "am_request old \<noteq> q"
      then show False using un Some by simp
    qed
    then have o: "old = m" "t = a" "am_request m = q" using un Some by simp_all
    have "map_of (aj_records (fst t)) (am_ID m) = Some m" using Some unfolding o by simp
    then show ?thesis using Inr pa(3) pa(6) [OF \<open>e = None\<close>] o by simp
  next
    case None
    let ?m = "\<lparr>am_request = q, am_Sequence = aj_through (fst a) + 1, am_Time = now2\<rparr>"
    let ?b = "((fst a)\<lparr>aj_records := AList.update (ar_ID q) ?m (aj_records (fst a)), aj_through := am_Sequence ?m\<rparr>,
        AList.update (file_name (ar_ID q)) (FileMessage ?m) (snd a))"
    have "aj_through (fst a) + 1 \<noteq> 0 \<and> m = ?m \<and> pruneLocked_activity rmErr now3 ?b = (t, err)"
      using un None by (cases disk rule: WriteFile_cases) (auto split: if_splits prod.splits)
    then have n: "aj_through (fst a) + 1 \<noteq> 0" "m = ?m" "pruneLocked_activity rmErr now3 ?b = (t, err)" by blast+
    have "journal_ok u isPrint (fst a, snd a)" using pa(1) by simp
    then have ok: "journal_ok u isPrint ?b"
      using add_ok [of u isPrint "fst a" "snd a" "ar_ID q" ?m] None n(1) q assms(4) by (simp add: message_ok_def)
    have "map_of (aj_records (fst ?b)) (ar_ID q) = Some ?m" by (simp add: update_conv')
    from prune_keeps [OF n(3) ok this] have "map_of (aj_records (fst t)) (ar_ID q) = Some ?m" using assms(5) n(2) by simp
    moreover have "aj_through (fst t) = am_Sequence ?m" using prune_ok(2) [OF n(3) ok] by simp
    ultimately show ?thesis using Inr n(2) by simp
  qed
qed

lemma append_again:
  assumes "journal_ok u isPrint s" "map_of (aj_records (fst s)) (am_ID m) = Some m"
    and "normalizeActivityMessage u isPrint request = Inr (am_request m)"
    and "int (length (aj_records (fst s))) \<le> max 1 (aj_limit (fst s)) \<or> am_Sequence m = aj_through (fst s)"
    and "\<not> expired_message now1 m" "\<And>i. rmErr i = None"
  shows "snd (Append u isPrint jsonLen rmErr disk now1 now2 now3 request s) = (Some m, None)"
proof -
  obtain a e where a: "pruneLocked_activity rmErr now1 s = (a, e)" by fastforce
  have "remove_all rmErr ms x = (y, f) \<Longrightarrow> f = None" for ms x y f by (induction ms arbitrary: x) (auto simp: assms(6))
  then have "e = None" using a by (auto simp: pruneLocked_activity_def Let_def split: prod.splits option.splits if_splits)
  moreover have "map_of (aj_records (fst a)) (am_ID m) = Some m" by (rule prune_keeps [OF a assms(1,2,5,4)])
  ultimately show ?thesis using assms(3) a by (simp add: Append_def)
qed

section \<open>A run of one message\<close>

definition one_uuid :: "string \<Rightarrow> bool" where
  "one_uuid i \<longleftrightarrow> i = ''7''"

definition some_print :: "string \<Rightarrow> bool" where
  "some_print r \<longleftrightarrow> r \<in> {'' '', ''o'', ''k''}"

definition one_request :: activityMessageRequest where
  "one_request = \<lparr>ar_Action = [], ar_TerminalID = [], ar_Success = True, ar_ID = ''7'', ar_Source = '' k'', ar_Level = LevelInfo,
     ar_Text = ''ok'' @ [CHR 0x0A], ar_NodeID = [], ar_NodeSlug = []\<rparr>"

definition one_message :: ActivityMessage where
  "one_message = \<lparr>am_request = one_request\<lparr>ar_Source := ''k'', ar_Text := ''ok''\<rparr>, am_Sequence = 1, am_Time = 5\<rparr>"

definition one_state :: "activityJournal \<times> activityDir" where
  "one_state = (empty_journal\<lparr>aj_records := [(''7'', one_message)], aj_through := 1\<rparr>, [(''7.json'', FileMessage one_message)])"

lemma one_append:
  "Append one_uuid some_print (\<lambda>m. 0) (\<lambda>i. None) no_errors 4 5 6 one_request (empty_journal, []) = (one_state, Some one_message, None)"
  by code_simp

lemma one_print: "print_ok some_print"
  by code_simp

lemma one_run: "activity_run one_uuid some_print (\<lambda>m. 0) one_state"
proof -
  have "activity_run one_uuid some_print (\<lambda>m. 0) (empty_journal, [])" by (rule reach_init) (simp add: activity_init_def)
  moreover have "activity_step (\<lambda>a. \<not> late_failure a) one_uuid some_print (\<lambda>m. 0) (empty_journal, []) one_state"
    using activity_step.append [of 5 "\<lambda>a. \<not> late_failure a" no_errors one_uuid some_print "\<lambda>m. 0" "(empty_journal, [])" "\<lambda>i. None" 4 6
        one_request] by (simp add: one_append WriteFile_samples)
  ultimately show ?thesis by (auto dest: reach_step)
qed

section \<open>Properties\<close>



text \<open>
  Without the condition the journal can refuse its own files. The write of a message reports an
  error of the directory sync after the rename; the file is there, the journal does not know it and
  gives the next message the same sequence number, and then the directory does not load.
\<close>

definition two_uuid :: "string \<Rightarrow> bool" where
  "two_uuid i \<longleftrightarrow> i = ''7'' \<or> i = ''8''"

definition unsynced_state :: "activityJournal \<times> activityDir" where
  "unsynced_state = fst (Append two_uuid some_print (\<lambda>m. 0) (\<lambda>i. None) sync_error 4 5 6 one_request (empty_journal, []))"

definition reused_state :: "activityJournal \<times> activityDir" where
  "reused_state = fst (Append two_uuid some_print (\<lambda>m. 0) (\<lambda>i. None) no_errors 7 8 9 (one_request\<lparr>ar_ID := ''8''\<rparr>) unsynced_state)"

theorem late_write_reuses_sequence:
  "reachable activity_init (activity_step (\<lambda>a. True) two_uuid some_print (\<lambda>m. 0)) reused_state
   \<and> load_files two_uuid some_print (snd reused_state) [] empty_journal = Inl ''invalid activity message 8''"
proof
  let ?R = "reachable activity_init (activity_step (\<lambda>a. True) two_uuid some_print (\<lambda>m. 0))"
  have "?R (empty_journal, [])" by (rule reach_init) (simp add: activity_init_def)
  then have "?R unsynced_state" unfolding unsynced_state_def by (rule reach_step) (rule activity_step.append; simp)
  then show "?R reused_state" unfolding reused_state_def by (rule reach_step) (rule activity_step.append; simp)
  show "load_files two_uuid some_print (snd reused_state) [] empty_journal = Inl ''invalid activity message 8''" by code_simp
qed

text \<open>
  An append whose answer was lost can be sent again. If an append returned a message,
  the same request finds that same message (its sequence number and time included) and does not
  write a second one, as long as the message has not expired and removing files works. The message
  is the retained one with that identifier or has a sequence number above all earlier ones.
\<close>

theorem activity_append_retry:
  assumes "activity_run u isPrint jsonLen s" "print_ok isPrint" "now2 \<noteq> 0"
    and "Append u isPrint jsonLen rmErr disk now1 now2 now3 request s = (t, Some m, err)"
    and "now3 - am_Time m \<le> activityMessageRetention" "now1' - am_Time m \<le> activityMessageRetention" "\<And>i. rmErr' i = None" "\<not> late_failure disk"
  shows "snd (Append u isPrint jsonLen rmErr' disk' now1' now2' now3' request t) = (Some m, None)
    \<and> (map_of (aj_records (fst s)) (am_ID m) = Some m
        \<or> am_Sequence m = aj_through (fst t) \<and> (\<forall>i old. map_of (aj_records (fst s)) i = Some old \<longrightarrow> am_Sequence old < am_Sequence m))"
proof -
  note ok = activity_run_ok [OF assms(1,2)]
  have e: "\<not> expired_message now3 m" "\<not> expired_message now1' m" using assms(5,6) by (simp_all add: expired_message_def)
  note c = Append_cases [OF assms(4) ok(1,2) assms(2,3,8)]
  note r = append_retained [OF assms(4) ok(1) assms(2,3) e(1)]
  have "snd (Append u isPrint jsonLen rmErr' disk' now1' now2' now3' request t) = (Some m, None)"
    using append_again [of u isPrint t m request now1' rmErr'] c r e(2) assms(7) by blast
  moreover have "am_Sequence old < am_Sequence m"
    if "aj_through (fst s) < am_Sequence m" "map_of (aj_records (fst s)) i = Some old" for i old
  proof -
    have "records_ok u isPrint (fst s)" using ok(1) by (cases s) (simp add: journal_ok_def)
    then have "am_Sequence old \<le> aj_through (fst s)" using that(2) by (auto simp: records_ok_def)
    then show ?thesis using that(1) by simp
  qed
  ultimately show ?thesis using c by metis
qed

theorem activity_append_retry_witness:
  "snd (Append one_uuid some_print (\<lambda>m. 0) (\<lambda>i. None) no_errors 7 8 9 one_request one_state) = (Some one_message, None)"
proof -
  have "activity_run one_uuid some_print (\<lambda>m. 0) (empty_journal, [])" by (rule reach_init) (simp add: activity_init_def)
  from activity_append_retry [OF this one_print _ one_append, of 7 "\<lambda>i. None" no_errors 8 9] show ?thesis
    by (simp add: one_message_def activityMessageRetention_def second_def WriteFile_samples)
qed

text \<open>
  A snapshot shows every retained message that has not expired, once, newest first by
  strictly falling sequence numbers none of which is above the journal's, and never more than one
  message over the limit even if removing files fails.
\<close>

theorem activity_snapshot_exact:
  assumes "activity_run u isPrint jsonLen (j, dir)" "print_ok isPrint" "Snapshot_activity now j = (ms, through)"
  shows "sorted_wrt (\<lambda>a b. am_Sequence b < am_Sequence a) ms \<and> int (length ms) \<le> activityMessageLimit + 1
    \<and> set ms = {m. map_of (aj_records j) (am_ID m) = Some m \<and> now - am_Time m \<le> activityMessageRetention}
    \<and> (\<forall>m \<in> set ms. am_Sequence m \<le> through \<and> normalizeActivityMessage u isPrint (am_request m) = Inr (am_request m))"
proof -
  note ok = activity_run_ok [OF assms(1,2)]
  have r: "records_ok u isPrint j" using ok(1) by (simp add: journal_ok_def)
  let ?all = "map snd (aj_records j)"
  let ?keep = "\<lambda>m. now - am_Time m \<le> activityMessageRetention"
  have ms: "ms = rev (sort_key am_Sequence (filter ?keep ?all))" and th: "through = aj_through j"
    using assms(3) by (simp_all add: Snapshot_activity_def)
  have "distinct (map am_Sequence (filter ?keep ?all))" using sequences_distinct [OF r] by (rule distinct_map_filter)
  then have "distinct (map am_Sequence (sort_key am_Sequence (filter ?keep ?all)))" by (simp add: distinct_map_sort)
  then have "sorted_wrt (<) (map am_Sequence (sort_key am_Sequence (filter ?keep ?all)))" by (simp add: strict_sorted_iff)
  then have s: "sorted_wrt (\<lambda>a b. am_Sequence b < am_Sequence a) ms" by (simp add: ms sorted_wrt_rev sorted_wrt_map)
  have "length ms \<le> length (aj_records j)" by (metis length_filter_le length_map length_rev length_sort ms)
  then have l: "int (length ms) \<le> activityMessageLimit + 1" using ok(2,3) by (simp add: bounded_journal_def activityMessageLimit_def)
  have mem: "m \<in> set ?all \<longleftrightarrow> map_of (aj_records j) (am_ID m) = Some m" for m
    using records_member [OF r, of m] imageI [OF map_of_SomeD, of "aj_records j" "am_ID m" m snd] by auto
  have "set ms = {m \<in> set ?all. ?keep m}" by (simp add: ms)
  then have set: "set ms = {m. map_of (aj_records j) (am_ID m) = Some m \<and> ?keep m}" unfolding mem .
  have "\<forall>m \<in> set ms. am_Sequence m \<le> through \<and> normalizeActivityMessage u isPrint (am_request m) = Inr (am_request m)"
  proof
    fix m assume "m \<in> set ms"
    then have "map_of (aj_records j) (am_ID m) = Some m" unfolding set by simp
    then show "am_Sequence m \<le> through \<and> normalizeActivityMessage u isPrint (am_request m) = Inr (am_request m)"
      using r unfolding th by (auto simp: records_ok_def message_ok_def)
  qed
  then show ?thesis using s l set by blast
qed

theorem activity_snapshot_exact_witness:
  "Snapshot_activity 6 (fst one_state) = ([one_message], 1)
   \<and> {m. map_of (aj_records (fst one_state)) (am_ID m) = Some m \<and> 6 - am_Time m \<le> activityMessageRetention} = {one_message}"
proof -
  have s: "Snapshot_activity 6 (fst one_state) = ([one_message], 1)" by code_simp
  have "activity_run one_uuid some_print (\<lambda>m. 0) (fst one_state, snd one_state)" using one_run by simp
  from activity_snapshot_exact [OF this one_print s] show ?thesis using s by simp
qed

end
