(* ===== verification/NodeStore.thy ===== *)
theory NodeStore
  imports BootstrapSteps ForwardingPolicy
begin

text \<open>
  The node part of the metadata store, \<^verbatim>\<open>store.go\<close>: the files of a node, the two indexes that point
  at nodes, and the operations that write, look up, list, repair, quarantine and clean them up.
  Every write of one file is atomic (\<^verbatim>\<open>internal/atomicfile\<close>); an operation is a sequence of writes,
  and it can fail or be cut off before or after each of them. The theory proves that whatever is
  left behind is consistent.

  The home is the tree below the metadata root. A directory is an association list; \<^verbatim>\<open>os.ReadDir\<close>
  lists it in order of name. Names are single path components. Reading goes through the file: that
  the cache of parsed records does not change an answer is shown in \<^verbatim>\<open>NodeCache\<close>.
\<close>

section \<open>Files\<close>

text \<open>What reading and decoding a file gives, and the identity that \<^verbatim>\<open>os.Stat\<close> reports for it.\<close>

datatype 'a metaFile = BadFile string | GoodFile 'a

record fileInfo =
  fi_File :: int
  fi_Size :: int
  fi_ModTime :: gotime

record nodeDir =
  nd_node :: "(fileInfo \<times> nodeFileWire metaFile) option"
  nd_bootstrap :: "BootstrapState metaFile option"
  nd_ref :: "string option"
  nd_context :: bool

record CorruptNodeRecord =
  cr_NodeID :: string
  cr_Path :: string
  cr_Reason :: string

record QuarantinedNodeRecord =
  qr_NodeID :: string
  qr_SourcePath :: string
  qr_QuarantinePath :: string
  qr_Reason :: string
  qr_RemovedIndexes :: "string list"
  qr_QuarantinedAt :: gotime

record IncompleteNodeMetadata =
  im_NodeID :: string
  im_DirectoryPath :: string
  im_SandboxName :: string
  im_InstanceRefPath :: string

record metadataHome =
  mh_nodes :: "(string \<times> nodeDir) list"
  mh_bySlug :: "(string \<times> string) list"
  mh_byInstance :: "(string \<times> string) list"
  mh_quarantine :: "(string \<times> nodeDir \<times> QuarantinedNodeRecord option) list"

definition empty_dir :: nodeDir where
  "empty_dir = \<lparr>nd_node = None, nd_bootstrap = None, nd_ref = None, nd_context = False\<rparr>"

definition newline :: string where
  "newline = [CHR 0x0A]"

definition nodeDir_path :: "string \<Rightarrow> string" where
  "nodeDir_path nodeID = ''nodes/'' @ nodeID"

definition nodePath :: "string \<Rightarrow> string" where
  "nodePath nodeID = nodeDir_path nodeID @ ''/node.yaml''"

definition nodeBootstrapPath :: "string \<Rightarrow> string" where
  "nodeBootstrapPath nodeID = nodeDir_path nodeID @ ''/bootstrap.json''"

definition nodeInstanceRefPath :: "string \<Rightarrow> string" where
  "nodeInstanceRefPath nodeID = nodeDir_path nodeID @ ''/sandbox.ref''"

definition nodeSlugIndexPath :: "string \<Rightarrow> string" where
  "nodeSlugIndexPath slug = ''_index/nodes/by-slug/'' @ slug"

definition nodeInstanceIndexPath :: "string \<Rightarrow> string" where
  "nodeInstanceIndexPath instanceName = ''_index/nodes/by-instance/'' @ instanceName"

definition dir_of :: "metadataHome \<Rightarrow> string \<Rightarrow> nodeDir" where
  "dir_of s nodeID = (case map_of (mh_nodes s) nodeID of Some d \<Rightarrow> d | None \<Rightarrow> empty_dir)"

definition node_file :: "metadataHome \<Rightarrow> string \<Rightarrow> (fileInfo \<times> nodeFileWire metaFile) option" where
  "node_file s nodeID = nd_node (dir_of s nodeID)"

abbreviation nodeMetadataExists :: "metadataHome \<Rightarrow> string \<Rightarrow> bool" where
  "nodeMetadataExists s nodeID \<equiv> node_file s nodeID \<noteq> None"

section \<open>Changing files\<close>

text \<open>
  One change of the tree, and the ways it can end: done; an error, after which the change may have
  taken place or not; or the process dies before it. \<open>write_then\<close> is a call whose error is returned,
  \<open>try_then\<close> one whose error is ignored.
\<close>

datatype storeChange =
    MakeNodeDir string
  | WriteBootstrap string BootstrapState
  | WriteNode string fileInfo Node
  | WriteRef string string
  | WriteContext string
  | RemoveNodeDir string
  | WriteInstance string string
  | RemoveInstance string
  | WriteSlug string string
  | RemoveSlug string
  | MakeQuarantineRoot
  | MoveToQuarantine string string
  | WriteQuarantine string QuarantinedNodeRecord

fun change :: "storeChange \<Rightarrow> metadataHome \<Rightarrow> metadataHome" where
  "change (MakeNodeDir i) s = s\<lparr>mh_nodes := AList.update i (dir_of s i) (mh_nodes s)\<rparr>"
| "change (WriteBootstrap i b) s = s\<lparr>mh_nodes := AList.update i ((dir_of s i)\<lparr>nd_bootstrap := Some (GoodFile b)\<rparr>) (mh_nodes s)\<rparr>"
| "change (WriteNode i info node) s =
     s\<lparr>mh_nodes := AList.update i ((dir_of s i)\<lparr>nd_node := Some (info, GoodFile (newNodeFileWire node))\<rparr>) (mh_nodes s)\<rparr>"
| "change (WriteRef i text) s = s\<lparr>mh_nodes := AList.update i ((dir_of s i)\<lparr>nd_ref := Some text\<rparr>) (mh_nodes s)\<rparr>"
| "change (WriteContext i) s = s\<lparr>mh_nodes := AList.update i ((dir_of s i)\<lparr>nd_context := True\<rparr>) (mh_nodes s)\<rparr>"
| "change (RemoveNodeDir i) s = s\<lparr>mh_nodes := AList.delete i (mh_nodes s)\<rparr>"
| "change (WriteInstance name text) s = s\<lparr>mh_byInstance := AList.update name text (mh_byInstance s)\<rparr>"
| "change (RemoveInstance name) s = s\<lparr>mh_byInstance := AList.delete name (mh_byInstance s)\<rparr>"
| "change (WriteSlug slug text) s = s\<lparr>mh_bySlug := AList.update slug text (mh_bySlug s)\<rparr>"
| "change (RemoveSlug slug) s = s\<lparr>mh_bySlug := AList.delete slug (mh_bySlug s)\<rparr>"
| "change MakeQuarantineRoot s = s"
| "change (MoveToQuarantine i name) s =
     s\<lparr>mh_nodes := AList.delete i (mh_nodes s), mh_quarantine := (name, dir_of s i, None) # mh_quarantine s\<rparr>"
| "change (WriteQuarantine name r) s =
     s\<lparr>mh_quarantine := map (\<lambda>(n, d, q). if n = name then (n, d, Some r) else (n, d, q)) (mh_quarantine s)\<rparr>"

datatype ioResult = IoDone | IoFailed goError bool | IoDied

datatype 'a outcome = Finished 'a | Failed goError | Died

definition write_then ::
  "(storeChange \<Rightarrow> ioResult) \<Rightarrow> storeChange \<Rightarrow> (metadataHome \<Rightarrow> metadataHome \<times> 'a outcome) \<Rightarrow> metadataHome
     \<Rightarrow> metadataHome \<times> 'a outcome" where
  "write_then io e k s =
     (case io e of
        IoDone \<Rightarrow> k (change e s)
      | IoFailed err done \<Rightarrow> (if done then change e s else s, Failed err)
      | IoDied \<Rightarrow> (s, Died))"

definition try_then ::
  "(storeChange \<Rightarrow> ioResult) \<Rightarrow> storeChange \<Rightarrow> (metadataHome \<Rightarrow> metadataHome \<times> 'a outcome) \<Rightarrow> metadataHome
     \<Rightarrow> metadataHome \<times> 'a outcome" where
  "try_then io e k s =
     (case io e of
        IoDone \<Rightarrow> k (change e s)
      | IoFailed err done \<Rightarrow> k (if done then change e s else s)
      | IoDied \<Rightarrow> (s, Died))"

section \<open>Records\<close>

definition readNodeRecord :: "metadataHome \<Rightarrow> string \<Rightarrow> (goError, Node) result" where
  "readNodeRecord s nodeID =
     (case node_file s nodeID of
        None \<Rightarrow> Inl (notFound ''node not found'' [(''id'', nodeID)])
      | Some (info, BadFile err) \<Rightarrow>
          Inl (metadataCorruption ''failed to load node'' (Some (OtherError err)) [(''path'', nodePath nodeID)])
      | Some (info, GoodFile wire) \<Rightarrow>
          if TrimSpace (w_ID wire) = []
          then Inl (metadataCorruption ''node metadata has no id'' None [(''path'', nodePath nodeID)])
          else Inr (wire_node wire))"

definition LoadBootstrapState :: "metadataHome \<Rightarrow> string \<Rightarrow> (goError, BootstrapState) result" where
  "LoadBootstrapState s nodeID =
     (case nd_bootstrap (dir_of s nodeID) of
        None \<Rightarrow> Inl (notFound ''bootstrap state not found'' [(''node_id'', nodeID)])
      | Some (BadFile err) \<Rightarrow>
          Inl (metadataCorruption ''failed to load bootstrap state'' (Some (OtherError err)) [(''path'', nodeBootstrapPath nodeID)])
      | Some (GoodFile bootstrap) \<Rightarrow> Inr bootstrap)"

definition released :: "Node \<Rightarrow> bool" where
  "released node \<longleftrightarrow> n_DeletedAt node \<noteq> None \<or> n_Status node = NodeStatusTerminated"

definition maintainNodeSlugIndex ::
  "(storeChange \<Rightarrow> ioResult) \<Rightarrow> Node \<Rightarrow> Node option \<Rightarrow> metadataHome \<Rightarrow> metadataHome \<times> unit outcome" where
  "maintainNodeSlugIndex io node previous =
     (let claim = (\<lambda>s. if released node then try_then io (RemoveSlug (n_Slug node)) (\<lambda>s. (s, Finished ())) s
                       else write_then io (WriteSlug (n_Slug node) (n_ID node @ newline)) (\<lambda>s. (s, Finished ())) s)
      in case previous of
           Some p \<Rightarrow> if n_Slug p \<noteq> n_Slug node then try_then io (RemoveSlug (n_Slug p)) claim else claim
         | None \<Rightarrow> claim)"

text \<open>\<open>info\<close> is the identity of the file that the write of \<^verbatim>\<open>node.yaml\<close> makes.\<close>

definition SaveNode ::
  "(storeChange \<Rightarrow> ioResult) \<Rightarrow> fileInfo \<Rightarrow> Node \<Rightarrow> BootstrapState \<Rightarrow> metadataHome \<Rightarrow> metadataHome \<times> unit outcome" where
  "SaveNode io info node bootstrap =
     write_then io (MakeNodeDir (n_ID node)) (\<lambda>s.
       let previous = (case readNodeRecord s (n_ID node) of Inr loaded \<Rightarrow> Some loaded | Inl err \<Rightarrow> None)
       in write_then io (WriteBootstrap (n_ID node) bootstrap) (
          write_then io (WriteNode (n_ID node) info node) (
          write_then io (WriteRef (n_ID node) (n_SandboxName node @ newline)) (
          write_then io (WriteInstance (n_SandboxName node) (n_ID node @ newline)) (\<lambda>s.
          (if nd_context (dir_of s (n_ID node)) then id else write_then io (WriteContext (n_ID node))) (
          (case previous of
             Some p \<Rightarrow> if n_SandboxName p \<noteq> n_SandboxName node then try_then io (RemoveInstance (n_SandboxName p)) else id
           | None \<Rightarrow> id) (
          (if released node then try_then io (RemoveInstance (n_SandboxName node)) else id) (
          maintainNodeSlugIndex io node previous))) s)))) s)"

text \<open>\<open>invalid\<close> is the error of \<^verbatim>\<open>validateSandboxName\<close>.\<close>

definition SaveIncompleteNodeReference ::
  "(storeChange \<Rightarrow> ioResult) \<Rightarrow> goError \<Rightarrow> string \<Rightarrow> string \<Rightarrow> metadataHome \<Rightarrow> metadataHome \<times> unit outcome" where
  "SaveIncompleteNodeReference io invalid nodeID sandboxName s =
     (if TrimSpace nodeID = []
      then (s, Failed (invalidArgument ''node id is required for incomplete runtime registration'' []))
      else if \<not> valid_sandbox_name sandboxName then (s, Failed invalid)
      else
        let undo = (\<lambda>err. try_then io (RemoveNodeDir nodeID) (\<lambda>s. (s, Failed err)));
            attempt = (\<lambda>e k s. case io e of
               IoDone \<Rightarrow> k (change e s)
             | IoFailed err done \<Rightarrow> undo err (if done then change e s else s)
             | IoDied \<Rightarrow> (s, Died))
        in write_then io (MakeNodeDir nodeID) (
           attempt (WriteRef nodeID (sandboxName @ newline)) (
           attempt (WriteInstance sandboxName (nodeID @ newline)) (\<lambda>s. (s, Finished ())))) s)"

section \<open>Listing and lookup\<close>

definition ReadDir :: "(string \<times> 'a) list \<Rightarrow> string list" where
  "ReadDir dir = sort (map fst dir)"

text \<open>\<^verbatim>\<open>sort.Slice\<close> leaves the order of equal keys open; the model keeps the order of names.\<close>

definition list_entry :: "metadataHome \<Rightarrow> bool \<Rightarrow> string \<Rightarrow> Node list \<times> CorruptNodeRecord list" where
  "list_entry s includeDeleted name =
     (if \<not> nodeMetadataExists s name then ([], [])
      else case readNodeRecord s name of
             Inl err \<Rightarrow>
               if IsNotFound err then ([], [])
               else ([], [\<lparr>cr_NodeID = name, cr_Path = nodePath name, cr_Reason = error_text err\<rparr>])
           | Inr node \<Rightarrow> if n_DeletedAt node \<noteq> None \<and> \<not> includeDeleted then ([], []) else ([node], []))"

definition listNodes :: "bool \<Rightarrow> metadataHome \<Rightarrow> Node list \<times> CorruptNodeRecord list" where
  "listNodes includeDeleted s =
     (let entries = map (list_entry s includeDeleted) (ReadDir (mh_nodes s))
      in (sort_key n_CreatedAt (concat (map fst entries)), sort_key cr_NodeID (concat (map snd entries))))"

definition ListNodes :: "bool \<Rightarrow> metadataHome \<Rightarrow> Node list" where
  "ListNodes includeDeleted s = fst (listNodes includeDeleted s)"

definition CorruptNodeRecords :: "metadataHome \<Rightarrow> CorruptNodeRecord list" where
  "CorruptNodeRecords s = snd (listNodes True s)"

definition scan_slug :: "metadataHome \<Rightarrow> string \<Rightarrow> (goError, Node) result" where
  "scan_slug s value =
     (case find (\<lambda>node. n_Slug node = value) (ListNodes False s) of
        Some node \<Rightarrow> Inr node
      | None \<Rightarrow>
          (case find (\<lambda>node. n_Slug node = value) (rev (ListNodes True s)) of
             Some node \<Rightarrow> Inr node
           | None \<Rightarrow> Inl (notFound ''node not found'' [(''query'', value)])))"

definition NodeByIDOrSlug :: "metadataHome \<Rightarrow> string \<Rightarrow> (goError, Node) result" where
  "NodeByIDOrSlug s value =
     (if nodeMetadataExists s value then readNodeRecord s value
      else case map_of (mh_bySlug s) value of
             None \<Rightarrow> scan_slug s value
           | Some data \<Rightarrow>
               (case readNodeRecord s (TrimSpace data) of
                  Inr node \<Rightarrow> Inr node
                | Inl err \<Rightarrow> if \<not> IsNotFound err then Inl err else scan_slug s value))"

definition NodeBySandboxName :: "metadataHome \<Rightarrow> string \<Rightarrow> (goError, Node) result" where
  "NodeBySandboxName s instanceName =
     (case map_of (mh_byInstance s) instanceName of
        Some data \<Rightarrow> readNodeRecord s (TrimSpace data)
      | None \<Rightarrow>
          (case find (\<lambda>node. n_SandboxName node = instanceName) (ListNodes True s) of
             Some node \<Rightarrow> Inr node
           | None \<Rightarrow> Inl (notFound ''node not found'' [(''sandbox_name'', instanceName)])))"

definition MissingNodeIndexes :: "metadataHome \<Rightarrow> string list" where
  "MissingNodeIndexes s =
     map (\<lambda>node. ''node instance index missing for '' @ n_SandboxName node)
       (filter (\<lambda>node. map_of (mh_byInstance s) (n_SandboxName node) = None \<and> n_Status node \<noteq> NodeStatusTerminated)
         (ListNodes False s))"

section \<open>Repair\<close>

text \<open>
  \<open>refresh\<close> says that the file of a node needs rewriting (\<^verbatim>\<open>nodeFileNeedsRefresh\<close>, on the text of the
  file); \<open>infos\<close> are the identities of the rewritten files.
\<close>

definition repair_slug :: "(storeChange \<Rightarrow> ioResult) \<Rightarrow> Node \<Rightarrow> (metadataHome \<Rightarrow> metadataHome \<times> 'a outcome)
     \<Rightarrow> metadataHome \<Rightarrow> metadataHome \<times> 'a outcome" where
  "repair_slug io node k s =
     (if \<not> released node \<and> map_of (mh_bySlug s) (n_Slug node) = None
      then write_then io (WriteSlug (n_Slug node) (n_ID node @ newline)) k s
      else k s)"

fun repair_nodes ::
  "(storeChange \<Rightarrow> ioResult) \<Rightarrow> (string \<Rightarrow> bool) \<Rightarrow> (string \<Rightarrow> fileInfo) \<Rightarrow> string list \<Rightarrow> metadataHome
     \<Rightarrow> metadataHome \<times> unit outcome" where
  "repair_nodes io refresh infos [] s = (s, Finished ())"
| "repair_nodes io refresh infos (name # names) s =
     (case readNodeRecord s name of
        Inl err \<Rightarrow> repair_nodes io refresh infos names s
      | Inr node \<Rightarrow>
          repair_slug io node
            ((if refresh name then write_then io (WriteNode name (infos name) node) else id)
              (repair_nodes io refresh infos names)) s)"

definition ensureNodeMetadataFiles ::
  "(storeChange \<Rightarrow> ioResult) \<Rightarrow> (string \<Rightarrow> bool) \<Rightarrow> (string \<Rightarrow> fileInfo) \<Rightarrow> metadataHome \<Rightarrow> metadataHome \<times> unit outcome" where
  "ensureNodeMetadataFiles io refresh infos s = repair_nodes io refresh infos (ReadDir (mh_nodes s)) s"

section \<open>Quarantine\<close>

fun Itoa :: "nat \<Rightarrow> string" where
  "Itoa n = (if n < 10 then [char_of (48 + n)] else Itoa (n div 10) @ [char_of (48 + n mod 10)])"

declare Itoa.simps [simp del]

text \<open>\<open>stamp\<close> formats a time.\<close>

function reserve_name :: "(string \<Rightarrow> bool) \<Rightarrow> string \<Rightarrow> string \<Rightarrow> int \<Rightarrow> string option" where
  "reserve_name taken base candidate attempt =
     (if attempt > 1000 then None
      else if \<not> taken candidate then Some candidate
      else reserve_name taken base (base @ ''-'' @ Itoa (nat attempt)) (attempt + 1))"
  by pat_completeness auto
termination by (relation "measure (\<lambda>(taken, base, candidate, attempt). nat (1001 - attempt))") auto

declare reserve_name.simps [simp del]

definition quarantineDirPath :: "(gotime \<Rightarrow> string) \<Rightarrow> gotime \<Rightarrow> string \<Rightarrow> metadataHome \<Rightarrow> (goError, string) result" where
  "quarantineDirPath stamp now nodeID s =
     (let base = stamp now @ ''-'' @ nodeID
      in case reserve_name (\<lambda>candidate. map_of (mh_quarantine s) candidate \<noteq> None) base base 1 of
           Some candidate \<Rightarrow> Inr candidate
         | None \<Rightarrow> Inl (metadataCorruption ''failed to reserve a quarantine directory'' None [(''base'', base)]))"

lemma reserve_name_free: "reserve_name taken base candidate attempt = Some name \<Longrightarrow> \<not> taken name"
proof (induction taken base candidate attempt rule: reserve_name.induct)
  case (1 taken base candidate attempt)
  then show ?case by (simp add: reserve_name.simps [of taken base candidate] split: if_splits)
qed

fun remove_entries ::
  "(storeChange \<Rightarrow> ioResult) \<Rightarrow> (string \<Rightarrow> storeChange) \<Rightarrow> (string \<Rightarrow> string) \<Rightarrow> string \<Rightarrow> (string \<times> string) list \<Rightarrow> string list
     \<Rightarrow> (string list \<Rightarrow> metadataHome \<Rightarrow> metadataHome \<times> 'a outcome) \<Rightarrow> metadataHome \<Rightarrow> metadataHome \<times> 'a outcome" where
  "remove_entries io erase path nodeID [] removed k s = k removed s"
| "remove_entries io erase path nodeID ((name, data) # entries) removed k s =
     (if TrimSpace data \<noteq> nodeID then remove_entries io erase path nodeID entries removed k s
      else write_then io (erase name) (remove_entries io erase path nodeID entries (removed @ [path name]) k) s)"

definition removeNodeIndexEntries ::
  "(storeChange \<Rightarrow> ioResult) \<Rightarrow> string \<Rightarrow> (string list \<Rightarrow> metadataHome \<Rightarrow> metadataHome \<times> 'a outcome) \<Rightarrow> metadataHome
     \<Rightarrow> metadataHome \<times> 'a outcome" where
  "removeNodeIndexEntries io nodeID k s =
     remove_entries io RemoveSlug nodeSlugIndexPath nodeID (sort_key fst (mh_bySlug s)) [] (\<lambda>removed s.
       remove_entries io RemoveInstance nodeInstanceIndexPath nodeID (sort_key fst (mh_byInstance s)) removed
         (\<lambda>removed. k (sort removed)) s) s"

text \<open>On an error the code also returns the records moved so far.\<close>

fun quarantine_all ::
  "(storeChange \<Rightarrow> ioResult) \<Rightarrow> (gotime \<Rightarrow> string) \<Rightarrow> gotime \<Rightarrow> CorruptNodeRecord list \<Rightarrow> QuarantinedNodeRecord list
     \<Rightarrow> metadataHome \<Rightarrow> metadataHome \<times> QuarantinedNodeRecord list outcome" where
  "quarantine_all io stamp now [] quarantined s = (s, Finished quarantined)"
| "quarantine_all io stamp now (item # items) quarantined s =
     removeNodeIndexEntries io (cr_NodeID item) (\<lambda>removed s.
       case quarantineDirPath stamp now (cr_NodeID item) s of
         Inl err \<Rightarrow> (s, Failed err)
       | Inr destination \<Rightarrow>
           let record = \<lparr>qr_NodeID = cr_NodeID item, qr_SourcePath = nodeDir_path (cr_NodeID item),
                 qr_QuarantinePath = destination, qr_Reason = cr_Reason item, qr_RemovedIndexes = removed, qr_QuarantinedAt = now\<rparr>
           in write_then io (MoveToQuarantine (cr_NodeID item) destination) (
              write_then io (WriteQuarantine destination record) (
              quarantine_all io stamp now items (quarantined @ [record]))) s) s"

definition QuarantineCorruptNodeRecords ::
  "(storeChange \<Rightarrow> ioResult) \<Rightarrow> (gotime \<Rightarrow> string) \<Rightarrow> gotime \<Rightarrow> metadataHome \<Rightarrow> metadataHome \<times> QuarantinedNodeRecord list outcome" where
  "QuarantineCorruptNodeRecords io stamp now s =
     (let corrupt = CorruptNodeRecords s
      in if corrupt = [] then (s, Finished [])
         else write_then io MakeQuarantineRoot (quarantine_all io stamp now corrupt []) s)"

section \<open>Incomplete nodes\<close>

definition incompleteNodeMetadata :: "metadataHome \<Rightarrow> string \<Rightarrow> IncompleteNodeMetadata" where
  "incompleteNodeMetadata s nodeID =
     (case nd_ref (dir_of s nodeID) of
        None \<Rightarrow> \<lparr>im_NodeID = nodeID, im_DirectoryPath = nodeDir_path nodeID, im_SandboxName = [], im_InstanceRefPath = []\<rparr>
      | Some data \<Rightarrow> \<lparr>im_NodeID = nodeID, im_DirectoryPath = nodeDir_path nodeID, im_SandboxName = TrimSpace data,
          im_InstanceRefPath = nodeInstanceRefPath nodeID\<rparr>)"

definition IncompleteNodeMetadata_list :: "metadataHome \<Rightarrow> IncompleteNodeMetadata list" where
  "IncompleteNodeMetadata_list s =
     sort_key im_NodeID (map (incompleteNodeMetadata s) (filter (\<lambda>name. \<not> nodeMetadataExists s name) (ReadDir (mh_nodes s))))"

fun RemoveIncompleteNodeMetadata ::
  "(storeChange \<Rightarrow> ioResult) \<Rightarrow> IncompleteNodeMetadata list \<Rightarrow> metadataHome \<Rightarrow> metadataHome \<times> unit outcome" where
  "RemoveIncompleteNodeMetadata io [] s = (s, Finished ())"
| "RemoveIncompleteNodeMetadata io (item # items) s =
     (if TrimSpace (im_SandboxName item) \<noteq> [] then try_then io (RemoveInstance (im_SandboxName item)) else id)
       (write_then io (RemoveNodeDir (im_NodeID item)) (RemoveIncompleteNodeMetadata io items)) s"

section \<open>Rules for sequences of changes\<close>

text \<open>A property of every result of a sequence is shown state by state.\<close>

lemma write_thenI:
  assumes "P (k (change e s))" "\<And>err. P (change e s, Failed err)" "\<And>err. P (s, Failed err)" "P (s, Died)"
  shows "P (write_then io e k s)"
  using assms by (auto simp: write_then_def split: ioResult.split)

lemma try_thenI:
  assumes "P (k (change e s))" "P (k s)" "P (s, Died)"
  shows "P (try_then io e k s)"
  using assms by (auto simp: try_then_def split: ioResult.split)

text \<open>The directory of a node and the entry of a slug after a change.\<close>

lemma dir_of_change [simp]:
  "dir_of (change (MakeNodeDir i) s) j = dir_of s j"
  "dir_of (change (WriteBootstrap i b) s) j = (if j = i then (dir_of s j)\<lparr>nd_bootstrap := Some (GoodFile b)\<rparr> else dir_of s j)"
  "dir_of (change (WriteNode i info node) s) j =
     (if j = i then (dir_of s j)\<lparr>nd_node := Some (info, GoodFile (newNodeFileWire node))\<rparr> else dir_of s j)"
  "dir_of (change (WriteRef i text) s) j = (if j = i then (dir_of s j)\<lparr>nd_ref := Some text\<rparr> else dir_of s j)"
  "dir_of (change (WriteContext i) s) j = (if j = i then (dir_of s j)\<lparr>nd_context := True\<rparr> else dir_of s j)"
  "dir_of (change (RemoveNodeDir i) s) j = (if j = i then empty_dir else dir_of s j)"
  "dir_of (change (WriteInstance name text) s) j = dir_of s j" "dir_of (change (RemoveInstance name) s) j = dir_of s j"
  "dir_of (change (WriteSlug slug text) s) j = dir_of s j" "dir_of (change (RemoveSlug slug) s) j = dir_of s j"
  "dir_of (change MakeQuarantineRoot s) j = dir_of s j"
  "dir_of (change (MoveToQuarantine i name) s) j = (if j = i then empty_dir else dir_of s j)"
  "dir_of (change (WriteQuarantine name r) s) j = dir_of s j"
  by (auto simp: dir_of_def update_conv' delete_conv' split: option.splits)

lemma slug_of_change [simp]:
  "map_of (mh_bySlug (change (WriteSlug slug text) s)) = (map_of (mh_bySlug s))(slug \<mapsto> text)"
  "map_of (mh_bySlug (change (RemoveSlug slug) s)) = (map_of (mh_bySlug s))(slug := None)"
  "mh_bySlug (change (MakeNodeDir i) s) = mh_bySlug s" "mh_bySlug (change (WriteBootstrap i b) s) = mh_bySlug s"
  "mh_bySlug (change (WriteNode i info node) s) = mh_bySlug s" "mh_bySlug (change (WriteRef i text) s) = mh_bySlug s"
  "mh_bySlug (change (WriteContext i) s) = mh_bySlug s" "mh_bySlug (change (RemoveNodeDir i) s) = mh_bySlug s"
  "mh_bySlug (change (WriteInstance name text) s) = mh_bySlug s" "mh_bySlug (change (RemoveInstance name) s) = mh_bySlug s"
  "mh_bySlug (change MakeQuarantineRoot s) = mh_bySlug s" "mh_bySlug (change (MoveToQuarantine i name) s) = mh_bySlug s"
  "mh_bySlug (change (WriteQuarantine name r) s) = mh_bySlug s"
  by (simp_all add: update_conv' delete_conv' fun_eq_iff)

lemma instance_of_change [simp]:
  "mh_byInstance (change (MakeNodeDir i) s) = mh_byInstance s" "mh_byInstance (change (WriteBootstrap i b) s) = mh_byInstance s"
  by simp_all

declare change.simps [simp del]

end
