(* ===== verification/StoreRuns.thy ===== *)
theory StoreRuns
  imports NodeStore
begin

text \<open>
  What the metadata store guarantees over its whole life: nodes are saved, registered, repaired,
  quarantined and cleaned up, every one of these operations may fail or die between any two of its
  writes, and files go bad. The theory shows what an interrupted save leaves behind, that a
  bootstrap is never asked for again once a node says it is complete, and that a node whose save
  finished is found by its slug.
\<close>

section \<open>Consistency\<close>

text \<open>An identifier that survives the trimming of an index entry.\<close>

definition plain_id :: "string \<Rightarrow> bool" where
  "plain_id i \<longleftrightarrow> i \<noteq> [] \<and> TrimSpace i = i \<and> TrimSpace (i @ newline) = i"

definition index_ok :: "metadataHome \<Rightarrow> bool" where
  "index_ok s \<longleftrightarrow> distinct (map fst (mh_nodes s)) \<and> distinct (map fst (mh_bySlug s)) \<and> distinct (map fst (mh_byInstance s))"

definition slug_entry_ok :: "metadataHome \<Rightarrow> string \<Rightarrow> string \<Rightarrow> bool" where
  "slug_entry_ok s slug data \<longleftrightarrow> (\<exists>i. data = i @ newline \<and> plain_id i \<and> node_file s i \<noteq> None
     \<and> (\<forall>info w. node_file s i = Some (info, GoodFile w) \<longrightarrow> w_Slug w = slug))"

definition record_ok :: "string set \<Rightarrow> metadataHome \<Rightarrow> string \<Rightarrow> nodeFileWire \<Rightarrow> bool" where
  "record_ok mig s i w \<longleftrightarrow> w_ID w = i \<and> plain_id i
     \<and> (w_BootstrapCompleted w \<and> i \<notin> mig \<longrightarrow> (\<exists>b. nd_bootstrap (dir_of s i) = Some (GoodFile b) \<and> bs_Completed b))"

definition home_ok :: "string set \<Rightarrow> metadataHome \<Rightarrow> bool" where
  "home_ok mig s \<longleftrightarrow> index_ok s
     \<and> (\<forall>i info w. node_file s i = Some (info, GoodFile w) \<longrightarrow> record_ok mig s i w)
     \<and> (\<forall>slug data. map_of (mh_bySlug s) slug = Some data \<longrightarrow> slug_entry_ok s slug data)"

lemma index_ok_change: "index_ok s \<Longrightarrow> index_ok (change e s)"
  by (cases e) (simp_all add: index_ok_def change.simps distinct_update distinct_delete)

lemma wire_fields [simp]:
  "w_ID (newNodeFileWire node) = n_ID node" "w_Slug (newNodeFileWire node) = n_Slug node"
  "w_BootstrapCompleted (newNodeFileWire node) = n_BootstrapCompleted node"
  "w_DeletedAt (newNodeFileWire node) = n_DeletedAt node"
  by (simp_all add: newNodeFileWire_def)

lemma node_fields [simp]:
  "n_ID (wire_node w) = w_ID w" "n_Slug (wire_node w) = w_Slug w" "n_DeletedAt (wire_node w) = w_DeletedAt w"
  "n_BootstrapCompleted (wire_node w) = w_BootstrapCompleted w"
  by (simp_all add: wire_node_def Let_def)

lemma read_good:
  "node_file s i = Some (info, GoodFile w) \<Longrightarrow> home_ok mig s \<Longrightarrow> readNodeRecord s i = Inr (wire_node w)"
  by (auto simp: readNodeRecord_def home_ok_def record_ok_def plain_id_def)

lemma read_Inr: "readNodeRecord s i = Inr n \<Longrightarrow> \<exists>info w. node_file s i = Some (info, GoodFile w) \<and> n = wire_node w"
  by (auto simp: readNodeRecord_def split: option.splits prod.splits metaFile.splits if_splits)

section \<open>Saving a node\<close>

text \<open>
  What the callers of \<^verbatim>\<open>SaveNode\<close> keep to: the slug of a node that has an index entry does not change;
  and, except for the nodes \<open>mig\<close> whose bootstrap the program migrates, a record that says the
  bootstrap is complete is saved with a bootstrap state that says so too, and a completed bootstrap
  is not taken back. The migration of a known built-in bootstrap (\<^verbatim>\<open>migrateKnownBuiltInNodeBootstrap\<close>,
  at a start) takes it back on purpose.
\<close>

definition save_ok :: "string set \<Rightarrow> Node \<Rightarrow> BootstrapState \<Rightarrow> metadataHome \<Rightarrow> bool" where
  "save_ok mig node bootstrap s \<longleftrightarrow> plain_id (n_ID node)
     \<and> (n_ID node \<notin> mig \<longrightarrow> (n_BootstrapCompleted node \<longrightarrow> bs_Completed bootstrap)
          \<and> (\<forall>info w. node_file s (n_ID node) = Some (info, GoodFile w) \<and> w_BootstrapCompleted w \<longrightarrow> bs_Completed bootstrap))
     \<and> (\<forall>slug. map_of (mh_bySlug s) slug = Some (n_ID node @ newline) \<longrightarrow> slug = n_Slug node)"

text \<open>The two stages of a save: before and after the write of \<^verbatim>\<open>node.yaml\<close>.\<close>

definition before_node :: "metadataHome \<Rightarrow> Node \<Rightarrow> BootstrapState \<Rightarrow> metadataHome \<Rightarrow> bool" where
  "before_node s node bootstrap t \<longleftrightarrow> index_ok t \<and> (\<forall>j. j \<noteq> n_ID node \<longrightarrow> dir_of t j = dir_of s j)
     \<and> nd_node (dir_of t (n_ID node)) = nd_node (dir_of s (n_ID node))
     \<and> nd_ref (dir_of t (n_ID node)) = nd_ref (dir_of s (n_ID node))
     \<and> nd_bootstrap (dir_of t (n_ID node)) \<in> {nd_bootstrap (dir_of s (n_ID node)), Some (GoodFile bootstrap)}
     \<and> mh_bySlug t = mh_bySlug s \<and> mh_byInstance t = mh_byInstance s"

definition after_node :: "metadataHome \<Rightarrow> Node \<Rightarrow> fileInfo \<Rightarrow> BootstrapState \<Rightarrow> metadataHome \<Rightarrow> bool" where
  "after_node s node info bootstrap t \<longleftrightarrow> index_ok t \<and> (\<forall>j. j \<noteq> n_ID node \<longrightarrow> dir_of t j = dir_of s j)
     \<and> nd_node (dir_of t (n_ID node)) = Some (info, GoodFile (newNodeFileWire node))
     \<and> nd_bootstrap (dir_of t (n_ID node)) = Some (GoodFile bootstrap)
     \<and> (\<forall>slug. map_of (mh_bySlug t) slug \<in> {map_of (mh_bySlug s) slug, None}
          \<or> slug = n_Slug node \<and> \<not> released node \<and> map_of (mh_bySlug t) slug = Some (n_ID node @ newline))"

lemma before_node_stages:
  assumes "index_ok s"
  shows "before_node s node bootstrap s" "before_node s node bootstrap (change (MakeNodeDir (n_ID node)) s)"
    "before_node s node bootstrap (change (WriteBootstrap (n_ID node) bootstrap) (change (MakeNodeDir (n_ID node)) s))"
  using assms by (simp_all add: before_node_def index_ok_change)

lemma after_node_first:
  assumes "before_node s node bootstrap t" "nd_bootstrap (dir_of t (n_ID node)) = Some (GoodFile bootstrap)"
  shows "after_node s node info bootstrap (change (WriteNode (n_ID node) info node) t)"
  using assms by (simp add: before_node_def after_node_def index_ok_change)

lemma after_node_keeps:
  assumes "after_node s node info bootstrap t"
  shows "after_node s node info bootstrap (change (WriteRef (n_ID node) text) t)"
    "after_node s node info bootstrap (change (WriteContext (n_ID node)) t)"
    "after_node s node info bootstrap (change (WriteInstance name text) t)"
    "after_node s node info bootstrap (change (RemoveInstance name) t)"
    "after_node s node info bootstrap (change (RemoveSlug slug) t)"
    "\<not> released node \<Longrightarrow> after_node s node info bootstrap (change (WriteSlug (n_Slug node) (n_ID node @ newline)) t)"
  using assms by (simp_all add: after_node_def index_ok_change) metis

text \<open>Every result of a save: an interrupted one is in one of the two stages, a finished one in the second with its slug claimed.\<close>

definition save_result :: "metadataHome \<Rightarrow> Node \<Rightarrow> fileInfo \<Rightarrow> BootstrapState \<Rightarrow> metadataHome \<times> unit outcome \<Rightarrow> bool" where
  "save_result s node info bootstrap = (\<lambda>(t, out).
     (before_node s node bootstrap t \<or> after_node s node info bootstrap t)
     \<and> (out = Finished () \<longrightarrow> after_node s node info bootstrap t
          \<and> (\<not> released node \<longrightarrow> map_of (mh_bySlug t) (n_Slug node) = Some (n_ID node @ newline))))"

lemma slug_result:
  assumes "after_node s node info bootstrap t"
  shows "save_result s node info bootstrap (maintainNodeSlugIndex io node previous t)"
proof -
  have claim: "save_result s node info bootstrap
      (if released node then try_then io (RemoveSlug (n_Slug node)) (\<lambda>s. (s, Finished ())) r
       else write_then io (WriteSlug (n_Slug node) (n_ID node @ newline)) (\<lambda>s. (s, Finished ())) r)"
    if r: "after_node s node info bootstrap r" for r
  proof (cases "released node")
    case True
    have "save_result s node info bootstrap (try_then io (RemoveSlug (n_Slug node)) (\<lambda>s. (s, Finished ())) r)"
      using r after_node_keeps(5) [OF r, of "n_Slug node"] True by - (rule try_thenI [where P = "save_result s node info bootstrap"], simp_all add: save_result_def)
    then show ?thesis using True by simp
  next
    case False
    have "map_of (mh_bySlug (change (WriteSlug (n_Slug node) (n_ID node @ newline)) r)) (n_Slug node) = Some (n_ID node @ newline)"
      by simp
    then have "save_result s node info bootstrap
        (write_then io (WriteSlug (n_Slug node) (n_ID node @ newline)) (\<lambda>s. (s, Finished ())) r)"
      using r after_node_keeps(6) [OF r False] by - (rule write_thenI [where P = "save_result s node info bootstrap"], simp_all add: save_result_def)
    then show ?thesis using False by simp
  qed
  show ?thesis
  proof (cases previous)
    case None
    then show ?thesis using claim [OF assms] by (simp add: maintainNodeSlugIndex_def)
  next
    case (Some p)
    have "save_result s node info bootstrap (try_then io (RemoveSlug (n_Slug p))
        (\<lambda>r. if released node then try_then io (RemoveSlug (n_Slug node)) (\<lambda>s. (s, Finished ())) r
             else write_then io (WriteSlug (n_Slug node) (n_ID node @ newline)) (\<lambda>s. (s, Finished ())) r) t)"
      using claim [OF assms] claim [OF after_node_keeps(5) [OF assms, of "n_Slug p"]] assms
      by - (rule try_thenI [where P = "save_result s node info bootstrap"], simp_all add: save_result_def)
    then show ?thesis using claim [OF assms] Some by (cases "n_Slug p = n_Slug node") (simp_all add: maintainNodeSlugIndex_def Let_def)
  qed
qed

lemma save_interrupted:
  "before_node s node bootstrap t \<Longrightarrow> save_result s node info bootstrap (t, Failed err)"
  "before_node s node bootstrap t \<Longrightarrow> save_result s node info bootstrap (t, Died)"
  "after_node s node info bootstrap t \<Longrightarrow> save_result s node info bootstrap (t, Failed err)"
  "after_node s node info bootstrap t \<Longrightarrow> save_result s node info bootstrap (t, Died)"
  by (simp_all add: save_result_def)

text \<open>Steps that keep the second stage can be put in front of the rest of a save.\<close>

lemma save_write:
  assumes "after_node s node info bootstrap t" "after_node s node info bootstrap (change e t)"
    and "save_result s node info bootstrap (k (change e t))"
  shows "save_result s node info bootstrap (write_then io e k t)"
  using assms save_interrupted(3,4) by - (rule write_thenI [where P = "save_result s node info bootstrap"], blast+)

lemma save_try:
  assumes "after_node s node info bootstrap t" "save_result s node info bootstrap (k (change e t))" "save_result s node info bootstrap (k t)"
  shows "save_result s node info bootstrap (try_then io e k t)"
  using assms save_interrupted(4) by - (rule try_thenI [where P = "save_result s node info bootstrap"], blast+)

lemma save_instances:
  assumes "after_node s node info bootstrap t"
  shows "save_result s node info bootstrap
    ((case previous of Some p \<Rightarrow> if n_SandboxName p \<noteq> n_SandboxName node then try_then io (RemoveInstance (n_SandboxName p)) else id
      | None \<Rightarrow> id) ((if released node then try_then io (RemoveInstance (n_SandboxName node)) else id) (maintainNodeSlugIndex io node previous)) t)"
proof -
  have r: "save_result s node info bootstrap ((if released node then try_then io (RemoveInstance (n_SandboxName node)) else id)
      (maintainNodeSlugIndex io node previous) r)" if "after_node s node info bootstrap r" for r
    using slug_result [OF that] slug_result [OF after_node_keeps(4) [OF that]] save_try [OF that] by simp
  show ?thesis using r [OF assms] r [OF after_node_keeps(4) [OF assms]] save_try [OF assms] by (cases previous) simp_all
qed

lemma SaveNode_result:
  assumes "index_ok s"
  shows "save_result s node info bootstrap (SaveNode io info node bootstrap s)"
proof -
  let ?i = "n_ID node"
  let ?s1 = "change (MakeNodeDir ?i) s" let ?s2 = "change (WriteBootstrap ?i bootstrap) ?s1" let ?s3 = "change (WriteNode ?i info node) ?s2"
  note b = before_node_stages [OF assms, of node bootstrap]
  have a3: "after_node s node info bootstrap ?s3" by (rule after_node_first [OF b(3)]) simp
  define previous where "previous = (case readNodeRecord ?s1 ?i of Inr loaded \<Rightarrow> Some loaded | Inl err \<Rightarrow> None)"
  define rest where "rest = (case previous of
      Some p \<Rightarrow> if n_SandboxName p \<noteq> n_SandboxName node then try_then io (RemoveInstance (n_SandboxName p)) else id
    | None \<Rightarrow> id) ((if released node then try_then io (RemoveInstance (n_SandboxName node)) else id) (maintainNodeSlugIndex io node previous))"
  define tail where "tail = write_then io (WriteRef ?i (n_SandboxName node @ newline)) (
      write_then io (WriteInstance (n_SandboxName node) (?i @ newline)) (\<lambda>s.
      (if nd_context (dir_of s ?i) then id else write_then io (WriteContext ?i)) rest s))"
  have rest: "save_result s node info bootstrap (rest r)" if "after_node s node info bootstrap r" for r
    using save_instances [OF that] by (simp add: rest_def)
  have ctx: "save_result s node info bootstrap ((if nd_context (dir_of r ?i) then id else write_then io (WriteContext ?i)) rest r)"
    if "after_node s node info bootstrap r" for r
    using rest [OF that] save_write [where k = rest, OF that after_node_keeps(2) [OF that] rest [OF after_node_keeps(2) [OF that]]] by simp
  have tail: "save_result s node info bootstrap (tail ?s3)" unfolding tail_def
    by (intro save_write a3 after_node_keeps ctx)
  have "save_result s node info bootstrap (write_then io (WriteNode ?i info node) tail ?s2)"
    using tail a3 b(3) save_interrupted by - (rule write_thenI [where P = "save_result s node info bootstrap"], blast+)
  then have "save_result s node info bootstrap
      (write_then io (WriteBootstrap ?i bootstrap) (write_then io (WriteNode ?i info node) tail) ?s1)"
    using b save_interrupted by - (rule write_thenI [where P = "save_result s node info bootstrap"], blast+)
  then have "save_result s node info bootstrap
      (write_then io (MakeNodeDir ?i) (\<lambda>s. write_then io (WriteBootstrap ?i bootstrap) (write_then io (WriteNode ?i info node)
        (write_then io (WriteRef ?i (n_SandboxName node @ newline)) (
          write_then io (WriteInstance (n_SandboxName node) (?i @ newline)) (\<lambda>s'.
          (if nd_context (dir_of s' ?i) then id else write_then io (WriteContext ?i)) (
          (case (case readNodeRecord s ?i of Inr loaded \<Rightarrow> Some loaded | Inl err \<Rightarrow> None) of
             Some p \<Rightarrow> if n_SandboxName p \<noteq> n_SandboxName node then try_then io (RemoveInstance (n_SandboxName p)) else id
           | None \<Rightarrow> id) (
          (if released node then try_then io (RemoveInstance (n_SandboxName node)) else id) (
          maintainNodeSlugIndex io node (case readNodeRecord s ?i of Inr loaded \<Rightarrow> Some loaded | Inl err \<Rightarrow> None)))) s')))) s) s)"
    using b save_interrupted unfolding tail_def rest_def previous_def
    by - (rule write_thenI [where P = "save_result s node info bootstrap"], blast+)
  then show ?thesis by (simp add: SaveNode_def Let_def)
qed

lemma home_okI:
  assumes "index_ok t" "\<And>i info w. node_file t i = Some (info, GoodFile w) \<Longrightarrow> record_ok mig t i w"
    and "\<And>slug data. map_of (mh_bySlug t) slug = Some data \<Longrightarrow> slug_entry_ok t slug data"
  shows "home_ok mig t"
  using assms by (simp add: home_ok_def)

lemma home_okD:
  assumes "home_ok mig s"
  shows "index_ok s" "node_file s i = Some (info, GoodFile w) \<Longrightarrow> record_ok mig s i w"
    "map_of (mh_bySlug s) slug = Some data \<Longrightarrow> slug_entry_ok s slug data"
  using assms unfolding home_ok_def by blast+

lemma entry_cong: "(\<And>j. node_file t j = node_file s j) \<Longrightarrow> slug_entry_ok t slug data = slug_entry_ok s slug data"
  by (simp add: slug_entry_ok_def)

lemma record_cong: "dir_of t i = dir_of s i \<Longrightarrow> record_ok mig t i w = record_ok mig s i w"
  by (simp add: record_ok_def)

lemma before_home_ok:
  assumes "home_ok mig s" "save_ok mig node bootstrap s" "before_node s node bootstrap t"
  shows "home_ok mig t"
proof (rule home_okI)
  have same: "node_file t j = node_file s j" for j using assms(3) by (cases "j = n_ID node") (auto simp: before_node_def node_file_def)
  show "index_ok t" using assms(3) by (simp add: before_node_def)
  show "slug_entry_ok t slug data" if "map_of (mh_bySlug t) slug = Some data" for slug data
    using home_okD(3) [OF assms(1)] that assms(3) by (simp add: entry_cong [OF same] before_node_def)
  show "record_ok mig t i w" if w: "node_file t i = Some (info, GoodFile w)" for i info w
  proof (cases "i = n_ID node")
    case False
    then have "dir_of t i = dir_of s i" using assms(3) by (simp add: before_node_def)
    from record_cong [OF this] show ?thesis using home_okD(2) [OF assms(1)] w same by simp
  next
    case True
    have "w_BootstrapCompleted w \<and> i \<notin> mig \<longrightarrow> bs_Completed bootstrap" using assms(2) w same True unfolding save_ok_def by metis
    then show ?thesis using True home_okD(2) [OF assms(1), of i info w] w same [of i] assms(3)
      by (auto simp: record_ok_def before_node_def)
  qed
qed

lemma after_home_ok:
  assumes "home_ok mig s" "save_ok mig node bootstrap s" "after_node s node info bootstrap t"
  shows "home_ok mig t"
proof (rule home_okI)
  have new: "node_file t (n_ID node) = Some (info, GoodFile (newNodeFileWire node))"
    and same: "\<And>j. j \<noteq> n_ID node \<Longrightarrow> node_file t j = node_file s j"
    and slugs: "\<And>slug. map_of (mh_bySlug t) slug \<in> {map_of (mh_bySlug s) slug, None}
          \<or> slug = n_Slug node \<and> \<not> released node \<and> map_of (mh_bySlug t) slug = Some (n_ID node @ newline)"
    using assms(3) unfolding after_node_def node_file_def by simp_all
  show "index_ok t" using assms(3) by (simp add: after_node_def)
  show "record_ok mig t i w" if w: "node_file t i = Some (info', GoodFile w)" for i info' w
  proof (cases "i = n_ID node")
    case False
    then have "dir_of t i = dir_of s i" using assms(3) by (simp add: after_node_def)
    from record_cong [OF this] show ?thesis using home_okD(2) [OF assms(1)] w same [OF False] by simp
  next
    case True
    then show ?thesis using new w assms(2,3) by (auto simp: record_ok_def after_node_def save_ok_def)
  qed
  show "slug_entry_ok t slug data" if d: "map_of (mh_bySlug t) slug = Some data" for slug data
  proof (cases "slug = n_Slug node \<and> data = n_ID node @ newline")
    case True
    then show ?thesis using new assms(2) by (auto simp: slug_entry_ok_def save_ok_def)
  next
    case False
    then have old: "map_of (mh_bySlug s) slug = Some data" using slugs [of slug] d by auto
    obtain i where i: "data = i @ newline" "plain_id i" "node_file s i \<noteq> None"
      "\<And>info w. node_file s i = Some (info, GoodFile w) \<Longrightarrow> w_Slug w = slug"
      using home_okD(3) [OF assms(1) old] unfolding slug_entry_ok_def by blast
    have "i \<noteq> n_ID node" using assms(2) old i(1) False by (auto simp: save_ok_def)
    then show ?thesis using i same unfolding slug_entry_ok_def by metis
  qed
qed

section \<open>Runs\<close>

definition live_file :: "metadataHome \<Rightarrow> string \<Rightarrow> nodeFileWire \<Rightarrow> bool" where
  "live_file s i w \<longleftrightarrow> (\<exists>info. node_file s i = Some (info, GoodFile w)) \<and> w_DeletedAt w = None"

text \<open>
  \<open>settled\<close> are the nodes whose last save finished. A caller that saves a node keeps to \<open>save_ok\<close>, does
  not change its slug, and has checked against the other records that the slug is free (\<^verbatim>\<open>ensureUniqueNodeSlug\<close>).
\<close>

definition settle :: "Node \<Rightarrow> unit outcome \<Rightarrow> string set \<Rightarrow> string set" where
  "settle node out settled =
     (if out = Finished () \<and> \<not> released node then insert (n_ID node) settled
      else if n_DeletedAt node \<noteq> None then settled - {n_ID node} else settled)"

definition slug_ok :: "Node \<Rightarrow> metadataHome \<Rightarrow> bool" where
  "slug_ok node s \<longleftrightarrow> (\<forall>info w. node_file s (n_ID node) = Some (info, GoodFile w) \<longrightarrow> w_Slug w = n_Slug node)
     \<and> (n_DeletedAt node = None \<longrightarrow> (\<forall>j w. j \<noteq> n_ID node \<and> live_file s j w \<longrightarrow> w_Slug w \<noteq> n_Slug node))"

definition rot :: "string \<Rightarrow> string \<Rightarrow> fileInfo \<Rightarrow> metadataHome \<Rightarrow> metadataHome" where
  "rot i why info s = s\<lparr>mh_nodes := AList.update i ((dir_of s i)\<lparr>nd_node := Some (info, BadFile why)\<rparr>) (mh_nodes s)\<rparr>"

inductive store_step :: "string set \<Rightarrow> metadataHome \<times> string set \<Rightarrow> metadataHome \<times> string set \<Rightarrow> bool"
  for mig where
  save: "save_ok mig node bootstrap s \<Longrightarrow> slug_ok node s \<Longrightarrow> SaveNode io info node bootstrap s = (t, out)
    \<Longrightarrow> store_step mig (s, settled) (t, settle node out settled)"
| register: "node_file s i = None \<Longrightarrow> store_step mig (s, settled) (fst (SaveIncompleteNodeReference io invalid i name s), settled)"
| cleanup: "set items \<subseteq> set (IncompleteNodeMetadata_list s)
    \<Longrightarrow> store_step mig (s, settled) (fst (RemoveIncompleteNodeMetadata io items s), settled)"
| quarantine: "store_step mig (s, settled) (fst (QuarantineCorruptNodeRecords io stamp now s), settled)"
| repair: "store_step mig (s, settled) (fst (ensureNodeMetadataFiles io refresh infos s), settled)"
| decay: "nodeMetadataExists s i \<Longrightarrow> store_step mig (s, settled) (rot i why info s, settled - {i})"

definition store_init :: "metadataHome \<times> string set \<Rightarrow> bool" where
  "store_init x \<longleftrightarrow> x = (\<lparr>mh_nodes = [], mh_bySlug = [], mh_byInstance = [], mh_quarantine = []\<rparr>, {})"

definition live_unique :: "metadataHome \<Rightarrow> bool" where
  "live_unique s \<longleftrightarrow> (\<forall>i j w v. live_file s i w \<and> live_file s j v \<and> w_Slug w = w_Slug v \<longrightarrow> i = j)"

definition settled_ok :: "metadataHome \<Rightarrow> string \<Rightarrow> bool" where
  "settled_ok s i \<longleftrightarrow> (\<exists>w. live_file s i w \<and> map_of (mh_bySlug s) (w_Slug w) \<in> {None, Some (i @ newline)})"

definition store_inv :: "string set \<Rightarrow> metadataHome \<times> string set \<Rightarrow> bool" where
  "store_inv mig = (\<lambda>(s, settled). home_ok mig s \<and> live_unique s \<and> (\<forall>i \<in> settled. settled_ok s i))"

lemma live_unique_file: "live_file s i w \<Longrightarrow> live_file s i v \<Longrightarrow> w = v"
  by (auto simp: live_file_def)

lemma save_inv_before:
  assumes "store_inv mig (s, settled)" "save_ok mig node bootstrap s" "before_node s node bootstrap t"
  shows "store_inv mig (t, settled)"
proof -
  have same: "node_file t j = node_file s j" for j using assms(3) by (cases "j = n_ID node") (auto simp: before_node_def node_file_def)
  then have live: "live_file t j w = live_file s j w" for j w by (simp add: live_file_def)
  have "mh_bySlug t = mh_bySlug s" using assms(3) by (simp add: before_node_def)
  then show ?thesis using assms before_home_ok by (auto simp: store_inv_def live_unique_def settled_ok_def live)
qed

lemma save_inv_after:
  assumes "store_inv mig (s, settled)" "save_ok mig node bootstrap s" "slug_ok node s" "after_node s node info bootstrap t"
    and "out = Finished () \<Longrightarrow> \<not> released node \<Longrightarrow> map_of (mh_bySlug t) (n_Slug node) = Some (n_ID node @ newline)"
  shows "store_inv mig (t, settle node out settled)"
proof -
  have inv: "home_ok mig s" "live_unique s" "\<And>i. i \<in> settled \<Longrightarrow> settled_ok s i" using assms(1) by (simp_all add: store_inv_def)
  have new: "node_file t (n_ID node) = Some (info, GoodFile (newNodeFileWire node))"
    and same: "\<And>j. j \<noteq> n_ID node \<Longrightarrow> node_file t j = node_file s j"
    and slugs: "\<And>slug. map_of (mh_bySlug t) slug \<in> {map_of (mh_bySlug s) slug, None}
          \<or> slug = n_Slug node \<and> \<not> released node \<and> map_of (mh_bySlug t) slug = Some (n_ID node @ newline)"
    using assms(4) unfolding after_node_def node_file_def by simp_all
  have live: "live_file t j w \<longleftrightarrow> (if j = n_ID node then w = newNodeFileWire node \<and> n_DeletedAt node = None else live_file s j w)" for j w
    using new same by (auto simp: live_file_def)
  have free: "w_Slug w \<noteq> n_Slug node" if "j \<noteq> n_ID node" "live_file s j w" "n_DeletedAt node = None" for j w
    using assms(3) that unfolding slug_ok_def by blast
  have "live_unique t" unfolding live_unique_def
  proof (intro allI impI)
    fix i j w v assume a: "live_file t i w \<and> live_file t j v \<and> w_Slug w = w_Slug v"
    note l = live [of i w] live [of j v]
    show "i = j"
    proof (cases "i = n_ID node")
      case True
      then have "w_Slug v = n_Slug node" "n_DeletedAt node = None" using a l by auto
      then show ?thesis using free [of j v] True a l by metis
    next
      case False
      then have i: "live_file s i w" using a l by simp
      show ?thesis
      proof (cases "j = n_ID node")
        case True
        then have "w_Slug w = n_Slug node" "n_DeletedAt node = None" using a l by auto
        then show ?thesis using free [OF False i] by simp
      next
        case j: False
        then have "live_file s j v" using a l by simp
        then show ?thesis using inv(2) i a unfolding live_unique_def by blast
      qed
    qed
  qed
  moreover have "settled_ok t i" if i: "i \<in> settle node out settled" for i
  proof (cases "i = n_ID node")
    case False
    then have "i \<in> settled" using i by (auto simp: settle_def split: if_splits)
    then obtain w where w: "live_file s i w" "map_of (mh_bySlug s) (w_Slug w) \<in> {None, Some (i @ newline)}"
      using inv(3) unfolding settled_ok_def by blast
    have "\<not> (w_Slug w = n_Slug node \<and> \<not> released node)" using free [OF False w(1)] by (auto simp: released_def)
    then have "map_of (mh_bySlug t) (w_Slug w) \<in> {None, Some (i @ newline)}" using slugs [of "w_Slug w"] w(2) by auto
    then show ?thesis using w(1) False live unfolding settled_ok_def by metis
  next
    case True
    show ?thesis
    proof (cases "out = Finished () \<and> \<not> released node")
      case fin: True
      then have "n_DeletedAt node = None" by (simp add: released_def)
      then show ?thesis using True fin assms(5) live unfolding settled_ok_def by (metis insertCI wire_fields(2))
    next
      case unf: False
      then have s: "i \<in> settled" "n_DeletedAt node = None" using i True by (auto simp: settle_def split: if_splits)
      then obtain w where w: "live_file s i w" "map_of (mh_bySlug s) (w_Slug w) \<in> {None, Some (i @ newline)}"
        using inv(3) unfolding settled_ok_def by blast
      have "w_Slug w = n_Slug node" using w(1) True assms(3) by (auto simp: slug_ok_def live_file_def)
      then have "map_of (mh_bySlug t) (n_Slug node) \<in> {None, Some (i @ newline)}" using slugs [of "n_Slug node"] w(2) True by auto
      moreover have "live_file t i (newNodeFileWire node)" using live True s(2) by simp
      ultimately show ?thesis unfolding settled_ok_def by (metis wire_fields(2))
    qed
  qed
  ultimately show ?thesis using after_home_ok [OF inv(1) assms(2,4)] by (simp add: store_inv_def)
qed

text \<open>The changes of the other operations.\<close>

definition keeps :: "(metadataHome \<Rightarrow> bool) \<Rightarrow> metadataHome \<times> 'a outcome \<Rightarrow> bool" where
  "keeps I r \<longleftrightarrow> I (fst r)"

lemma keeps_write: "I s \<Longrightarrow> I (change e s) \<Longrightarrow> keeps I (k (change e s)) \<Longrightarrow> keeps I (write_then io e k s)"
  by (auto simp: keeps_def write_then_def split: ioResult.split)

lemma keeps_try: "I s \<Longrightarrow> I (change e s) \<Longrightarrow> (\<And>r. r \<in> {s, change e s} \<Longrightarrow> keeps I (k r)) \<Longrightarrow> keeps I (try_then io e k s)"
  by (auto simp: keeps_def try_then_def split: ioResult.split)

lemma keeps_done: "I s \<Longrightarrow> keeps I (s, out)"
  by (simp add: keeps_def)

lemma store_inv_frame:
  assumes "store_inv mig (s, settled)" "index_ok t" "\<And>j. node_file t j = node_file s j"
    and "\<And>j. nd_bootstrap (dir_of t j) = nd_bootstrap (dir_of s j)" "map_of (mh_bySlug t) \<subseteq>\<^sub>m map_of (mh_bySlug s)"
  shows "store_inv mig (t, settled)"
proof -
  have live: "live_file t j w = live_file s j w" for j w using assms(3) by (simp add: live_file_def)
  have sub: "map_of (mh_bySlug t) slug = Some d \<Longrightarrow> map_of (mh_bySlug s) slug = Some d" for slug d
    using assms(5) by (force simp: map_le_def)
  have "home_ok mig t"
  proof (rule home_okI [OF assms(2)])
    show "record_ok mig t i w" if "node_file t i = Some (info, GoodFile w)" for i info w
      using assms(1,3,4) that by (auto simp: store_inv_def home_ok_def record_ok_def)
    show "slug_entry_ok t slug data" if "map_of (mh_bySlug t) slug = Some data" for slug data
      using assms(1) sub [OF that] by (auto simp: store_inv_def home_ok_def entry_cong [OF assms(3)])
  qed
  moreover have "settled_ok t i" if i: "i \<in> settled" for i
  proof -
    obtain w where w: "live_file s i w" "map_of (mh_bySlug s) (w_Slug w) \<in> {None, Some (i @ newline)}"
      using assms(1) i unfolding store_inv_def settled_ok_def by blast
    then have "map_of (mh_bySlug t) (w_Slug w) \<in> {None, Some (i @ newline)}" using sub by (cases "map_of (mh_bySlug t) (w_Slug w)") fastforce+
    then show ?thesis using w(1) live unfolding settled_ok_def by blast
  qed
  ultimately show ?thesis using assms(1) live by (simp add: store_inv_def live_unique_def)
qed

lemma store_inv_index: "store_inv mig (s, settled) \<Longrightarrow> index_ok (change e s)"
  using index_ok_change by (simp add: store_inv_def home_ok_def)

lemma store_inv_simple:
  assumes "store_inv mig (s, settled)"
  shows "store_inv mig (change (MakeNodeDir i) s, settled)" "store_inv mig (change (WriteRef i text) s, settled)"
    "store_inv mig (change (WriteInstance name text) s, settled)" "store_inv mig (change (RemoveInstance name) s, settled)"
    "store_inv mig (change (RemoveSlug slug) s, settled)" "store_inv mig (change MakeQuarantineRoot s, settled)"
    "store_inv mig (change (WriteQuarantine name r) s, settled)"
  by (rule store_inv_frame [OF assms store_inv_index [OF assms]]; simp add: node_file_def map_le_def)+

lemma store_inv_drop:
  assumes "store_inv mig (s, settled)" "\<And>info w. node_file s i \<noteq> Some (info, GoodFile w)"
    and "\<And>slug. map_of (mh_bySlug s) slug \<noteq> Some (i @ newline)"
    and "t = change (RemoveNodeDir i) s \<or> t = change (MoveToQuarantine i name) s"
  shows "store_inv mig (t, settled)"
proof -
  have d: "dir_of t j = (if j = i then empty_dir else dir_of s j)" for j using assms(4) by auto
  have b: "mh_bySlug t = mh_bySlug s" using assms(4) by auto
  have f: "node_file t j = Some (info, GoodFile w) \<longleftrightarrow> node_file s j = Some (info, GoodFile w)" for j info w
    using assms(2) by (cases "j = i") (simp_all add: node_file_def d empty_dir_def)
  then have live: "live_file t j w = live_file s j w" for j w by (simp add: live_file_def)
  have "home_ok mig t"
  proof (rule home_okI)
    show "index_ok t" using assms(4) store_inv_index [OF assms(1)] by auto
    show "record_ok mig t j w" if "node_file t j = Some (info, GoodFile w)" for j info w
    proof -
      have "j \<noteq> i" using that assms(2) f by blast
      then have "dir_of t j = dir_of s j" by (simp add: d)
      then show ?thesis using assms(1) that f by (auto simp: store_inv_def home_ok_def record_ok_def)
    qed
    show "slug_entry_ok t slug data" if e: "map_of (mh_bySlug t) slug = Some data" for slug data
    proof -
      have "slug_entry_ok s slug data" using assms(1) e b by (simp add: store_inv_def home_ok_def)
      then obtain j where j: "data = j @ newline" "plain_id j" "node_file s j \<noteq> None"
        "\<And>info w. node_file s j = Some (info, GoodFile w) \<Longrightarrow> w_Slug w = slug" unfolding slug_entry_ok_def by blast
      have "j \<noteq> i" using assms(3) e b j(1) by auto
      then have "node_file t j = node_file s j" by (simp add: node_file_def d)
      then show ?thesis using j unfolding slug_entry_ok_def by metis
    qed
  qed
  then show ?thesis using assms(1) live b by (simp add: store_inv_def live_unique_def settled_ok_def)
qed

lemma entry_node:
  assumes "store_inv mig (s, settled)" "map_of (mh_bySlug s) slug = Some data"
  obtains i where "data = i @ newline" "TrimSpace data = i" "node_file s i \<noteq> None"
  using assms unfolding store_inv_def home_ok_def slug_entry_ok_def plain_id_def by blast

lemma no_entry: "store_inv mig (s, settled) \<Longrightarrow> node_file s i = None \<Longrightarrow> map_of (mh_bySlug s) slug \<noteq> Some (i @ newline)"
  by (metis append_same_eq entry_node)

lemma register_inv:
  assumes "store_inv mig (s, settled)" "node_file s i = None"
  shows "store_inv mig (fst (SaveIncompleteNodeReference io invalid i name s), settled)"
proof -
  let ?I = "\<lambda>s. store_inv mig (s, settled) \<and> node_file s i = None"
  have drop: "?I (change (RemoveNodeDir i) r)" if "?I r" for r
    using that no_entry [of mig r settled i] store_inv_drop [of mig r settled i "change (RemoveNodeDir i) r"] by (simp add: node_file_def empty_dir_def)
  have k: "?I (change (MakeNodeDir i) r)" "?I (change (WriteRef i data) r)" "?I (change (WriteInstance name data) r)" if "?I r" for r data
    using that store_inv_simple [of mig r settled] by (simp_all add: node_file_def)
  have undo: "keeps ?I (try_then io (RemoveNodeDir i) (\<lambda>s. (s, Failed err)) r)" if "?I r" for r err
    using that drop [OF that] by (intro keeps_try) (auto intro: keeps_done)
  have attempt: "keeps ?I (case io e of IoDone \<Rightarrow> k (change e r)
      | IoFailed err done \<Rightarrow> try_then io (RemoveNodeDir i) (\<lambda>s. (s, Failed err)) (if done then change e r else r) | IoDied \<Rightarrow> (r, Died))"
    if "?I r" "?I (change e r)" "keeps ?I (k (change e r))" for r e k
    using that undo [of r] undo [of "change e r"] keeps_done [of ?I r] by (auto split: ioResult.split)
  have "keeps ?I (SaveIncompleteNodeReference io invalid i name s)"
    unfolding SaveIncompleteNodeReference_def Let_def using assms k
    by (auto intro!: keeps_done keeps_write attempt)
  then show ?thesis by (simp add: keeps_def)
qed

lemma cleanup_inv:
  assumes "store_inv mig (s, settled)" "\<forall>item \<in> set items. node_file s (im_NodeID item) = None"
  shows "store_inv mig (fst (RemoveIncompleteNodeMetadata io items s), settled)"
proof -
  let ?I = "\<lambda>s. store_inv mig (s, settled)"
  have "keeps ?I (RemoveIncompleteNodeMetadata io items s)"
    using assms
  proof (induction items arbitrary: s)
    case (Cons item items)
    have step: "keeps ?I (write_then io (RemoveNodeDir (im_NodeID item)) (RemoveIncompleteNodeMetadata io items) r)"
      if r: "?I r" "\<forall>x \<in> set (item # items). node_file r (im_NodeID x) = None" for r
    proof (rule keeps_write)
      show d: "?I (change (RemoveNodeDir (im_NodeID item)) r)"
        using store_inv_drop [of mig r settled "im_NodeID item"] no_entry [OF r(1)] r by simp
      show "keeps ?I (RemoveIncompleteNodeMetadata io items (change (RemoveNodeDir (im_NodeID item)) r))"
        using r(2) by (intro Cons.IH [OF d]) (simp add: node_file_def empty_dir_def)
    qed (rule r(1))
    have rm: "?I (change (RemoveInstance name) s)" for name using store_inv_simple(4) [OF Cons.prems(1)] .
    show ?case
      using step [OF Cons.prems] step [OF rm] Cons.prems(2)
      by (auto intro!: keeps_try simp: Cons.prems(1) rm node_file_def)
  qed (simp add: keeps_def)
  then show ?thesis by (simp add: keeps_def)
qed

lemma incomplete_items: "item \<in> set (IncompleteNodeMetadata_list s) \<Longrightarrow> node_file s (im_NodeID item) = None"
  by (auto simp: IncompleteNodeMetadata_list_def incompleteNodeMetadata_def simp del: not_None_eq split: option.splits)

section \<open>Repair\<close>

lemma claim_inv:
  assumes "store_inv mig (s, settled)" "live_file s i w" "map_of (mh_bySlug s) (w_Slug w) = None"
  shows "store_inv mig (change (WriteSlug (w_Slug w) (i @ newline)) s, settled)"
proof -
  let ?t = "change (WriteSlug (w_Slug w) (i @ newline)) s"
  have f: "node_file ?t j = node_file s j" for j by (simp add: node_file_def)
  then have live: "live_file ?t j v = live_file s j v" for j v by (simp add: live_file_def)
  have "record_ok mig s i w" using assms(1,2) unfolding store_inv_def home_ok_def live_file_def by blast
  then have p: "plain_id i" by (simp add: record_ok_def)
  have "home_ok mig ?t"
  proof (rule home_okI [OF store_inv_index [OF assms(1)]])
    show "record_ok mig ?t j v" if "node_file ?t j = Some (info, GoodFile v)" for j info v
      using assms(1) that by (simp add: f record_ok_def store_inv_def home_ok_def)
    show "slug_entry_ok ?t slug data" if "map_of (mh_bySlug ?t) slug = Some data" for slug data
    proof (cases "slug = w_Slug w")
      case True
      then show ?thesis using that p assms(2) by (auto simp: slug_entry_ok_def f live_file_def)
    next
      case False
      then show ?thesis using that assms(1) by (simp add: entry_cong [OF f] store_inv_def home_ok_def)
    qed
  qed
  moreover have "settled_ok ?t j" if j: "j \<in> settled" for j
  proof -
    obtain v where v: "live_file s j v" "map_of (mh_bySlug s) (w_Slug v) \<in> {None, Some (j @ newline)}"
      using assms(1) j unfolding store_inv_def settled_ok_def by blast
    have "w_Slug v = w_Slug w \<Longrightarrow> j = i" using v(1) assms(1,2) unfolding store_inv_def live_unique_def by blast
    then show ?thesis using v live unfolding settled_ok_def by (cases "w_Slug v = w_Slug w") auto
  qed
  ultimately show ?thesis using assms(1) live by (simp add: store_inv_def live_unique_def)
qed

lemma refresh_inv:
  assumes "store_inv mig (s, settled)" "node_file s i = Some (info, GoodFile w)"
  shows "store_inv mig (change (WriteNode i info' (wire_node w)) s, settled)"
proof -
  let ?v = "newNodeFileWire (wire_node w)" and ?t = "change (WriteNode i info' (wire_node w)) s"
  have v: "w_ID ?v = w_ID w" "w_Slug ?v = w_Slug w" "w_DeletedAt ?v = w_DeletedAt w" "w_BootstrapCompleted ?v = w_BootstrapCompleted w"
    by simp_all
  have f: "node_file ?t j = (if j = i then Some (info', GoodFile ?v) else node_file s j)" for j by (simp add: node_file_def)
  have live: "live_file ?t j x \<longleftrightarrow> (if j = i then x = ?v \<and> w_DeletedAt w = None else live_file s j x)" for j x
    by (auto simp: live_file_def f)
  have alike: "\<exists>y. live_file s j y \<and> w_Slug y = w_Slug x" if "live_file ?t j x" for j x
    using that assms(2) v by (cases "j = i") (auto simp: live live_file_def f)
  have "home_ok mig ?t"
  proof (rule home_okI [OF store_inv_index [OF assms(1)]])
    show "record_ok mig ?t j x" if "node_file ?t j = Some (info'', GoodFile x)" for j info'' x
      using assms that by (auto simp: f record_ok_def store_inv_def home_ok_def split: if_splits)
    show "slug_entry_ok ?t slug data" if "map_of (mh_bySlug ?t) slug = Some data" for slug data
    proof -
      have "slug_entry_ok s slug data" using assms(1) that by (simp add: store_inv_def home_ok_def)
      then obtain j where j: "data = j @ newline" "plain_id j" "node_file s j \<noteq> None"
        "\<And>info w. node_file s j = Some (info, GoodFile w) \<Longrightarrow> w_Slug w = slug" unfolding slug_entry_ok_def by blast
      then show ?thesis using assms(2) unfolding slug_entry_ok_def by (intro exI [of _ j]) (auto simp: f)
    qed
  qed
  moreover have "live_unique ?t" unfolding live_unique_def
  proof (intro allI impI)
    fix a b x y assume "live_file ?t a x \<and> live_file ?t b y \<and> w_Slug x = w_Slug y"
    then obtain x' y' where "live_file s a x'" "live_file s b y'" "w_Slug x' = w_Slug y'" using alike by metis
    then show "a = b" using assms(1) unfolding store_inv_def live_unique_def by blast
  qed
  moreover have "settled_ok ?t j" if j: "j \<in> settled" for j
  proof -
    obtain x where x: "live_file s j x" "map_of (mh_bySlug s) (w_Slug x) \<in> {None, Some (j @ newline)}"
      using assms(1) j unfolding store_inv_def settled_ok_def by blast
    show ?thesis
    proof (cases "j = i")
      case True
      then have "x = w" using x(1) assms(2) by (simp add: live_file_def)
      then show ?thesis using x True live v unfolding settled_ok_def live_file_def by (intro exI [of _ ?v]) (simp add: f)
    next
      case False
      then show ?thesis using x live unfolding settled_ok_def by (intro exI [of _ x]) simp
    qed
  qed
  ultimately show ?thesis by (simp add: store_inv_def)
qed

lemma repair_inv:
  assumes "store_inv mig (s, settled)"
  shows "store_inv mig (fst (repair_nodes io refresh infos names s), settled)"
proof -
  let ?I = "\<lambda>s. store_inv mig (s, settled)"
  have "keeps ?I (repair_nodes io refresh infos names s)"
    using assms
  proof (induction names arbitrary: s)
    case (Cons name names)
    show ?case
    proof (cases "readNodeRecord s name")
      case (Inl err)
      then show ?thesis using Cons by simp
    next
      case (Inr node)
      then obtain info w where w: "node_file s name = Some (info, GoodFile w)" "node = wire_node w" using read_Inr by blast
      have id: "w_ID w = name" using Cons.prems w(1) by (auto simp: store_inv_def home_ok_def record_ok_def)
      have go: "keeps ?I ((if refresh name then write_then io (WriteNode name (infos name) node) else id) (repair_nodes io refresh infos names) r)"
        if r: "?I r" "node_file r name = Some (info, GoodFile w)" for r
        using r Cons.IH refresh_inv [OF r] w(2) by (auto intro!: keeps_write)
      show ?thesis
      proof (cases "\<not> released node \<and> map_of (mh_bySlug s) (n_Slug node) = None")
        case True
        have "live_file s name w" using w True by (auto simp: live_file_def released_def)
        from claim_inv [OF Cons.prems this] have c: "?I (change (WriteSlug (n_Slug node) (n_ID node @ newline)) s)" using True w id by simp
        have "keeps ?I (write_then io (WriteSlug (n_Slug node) (n_ID node @ newline))
            ((if refresh name then write_then io (WriteNode name (infos name) node) else id) (repair_nodes io refresh infos names)) s)"
          using Cons.prems c go [OF c] w(1) by (intro keeps_write) (simp_all add: node_file_def)
        then show ?thesis using Inr True by (simp add: repair_slug_def)
      next
        case False
        then show ?thesis using Inr go [OF Cons.prems w(1)] by (auto simp: repair_slug_def)
      qed
    qed
  qed (simp add: keeps_def)
  then show ?thesis by (simp add: keeps_def)
qed

section \<open>Quarantine\<close>

lemma remove_slugs_keeps:
  assumes "store_inv mig (s, settled)"
    and "\<And>removed t. store_inv mig (t, settled) \<Longrightarrow> (\<And>j. dir_of t j = dir_of s j) \<Longrightarrow> map_of (mh_bySlug t) \<subseteq>\<^sub>m map_of (mh_bySlug s)
      \<Longrightarrow> (\<And>name data. (name, data) \<in> set entries \<Longrightarrow> TrimSpace data = i \<Longrightarrow> map_of (mh_bySlug t) name = None)
      \<Longrightarrow> keeps (\<lambda>s. store_inv mig (s, settled)) (k removed t)"
  shows "keeps (\<lambda>s. store_inv mig (s, settled)) (remove_entries io RemoveSlug path i entries removed k s)"
  using assms
proof (induction entries arbitrary: s removed)
  case (Cons entry entries)
  obtain name data where e: "entry = (name, data)" by fastforce
  show ?case
  proof (cases "TrimSpace data = i")
    case False
    have "keeps (\<lambda>s. store_inv mig (s, settled)) (remove_entries io RemoveSlug path i entries removed k s)"
    proof (rule Cons.IH [OF Cons.prems(1)])
      fix removed t assume t: "store_inv mig (t, settled)" "\<And>j. dir_of t j = dir_of s j" "map_of (mh_bySlug t) \<subseteq>\<^sub>m map_of (mh_bySlug s)"
        "\<And>name data. (name, data) \<in> set entries \<Longrightarrow> TrimSpace data = i \<Longrightarrow> map_of (mh_bySlug t) name = None"
      have "map_of (mh_bySlug t) n = None" if "(n, d) \<in> set (entry # entries)" "TrimSpace d = i" for n d
        using that t(4) [of n d] False by (auto simp: e)
      then show "keeps (\<lambda>s. store_inv mig (s, settled)) (k removed t)" by (rule Cons.prems(2) [OF t(1-3)])
    qed
    then show ?thesis by (simp add: e False)
  next
    case True
    let ?s = "change (RemoveSlug name) s"
    have rm: "store_inv mig (?s, settled)" by (rule store_inv_simple(5) [OF Cons.prems(1)])
    have "keeps (\<lambda>s. store_inv mig (s, settled)) (remove_entries io RemoveSlug path i entries (removed @ [path name]) k ?s)"
    proof (rule Cons.IH [OF rm])
      fix removed t assume t: "store_inv mig (t, settled)" "\<And>j. dir_of t j = dir_of ?s j" "map_of (mh_bySlug t) \<subseteq>\<^sub>m map_of (mh_bySlug ?s)"
        "\<And>name data. (name, data) \<in> set entries \<Longrightarrow> TrimSpace data = i \<Longrightarrow> map_of (mh_bySlug t) name = None"
      have sub: "x \<noteq> name \<and> map_of (mh_bySlug s) x = Some y" if "map_of (mh_bySlug t) x = Some y" for x y
      proof -
        have "map_of (mh_bySlug ?s) x = Some y" using t(3) that unfolding map_le_def by (metis domI)
        then show ?thesis by (simp split: if_splits)
      qed
      show "keeps (\<lambda>s. store_inv mig (s, settled)) (k removed t)"
      proof (rule Cons.prems(2) [OF t(1)])
        show "dir_of t j = dir_of s j" for j using t(2) by simp
        show "map_of (mh_bySlug t) \<subseteq>\<^sub>m map_of (mh_bySlug s)" using sub by (auto simp: map_le_def)
        show "map_of (mh_bySlug t) n = None" if "(n, d) \<in> set (entry # entries)" "TrimSpace d = i" for n d
          using that t(4) sub e by (cases "map_of (mh_bySlug t) n") auto
      qed
    qed
    then show ?thesis using Cons.prems(1) rm True by (auto simp: e intro!: keeps_write)
  qed
qed simp

lemma remove_instances_keeps:
  assumes "store_inv mig (s, settled)"
    and "\<And>removed t. store_inv mig (t, settled) \<Longrightarrow> (\<And>j. dir_of t j = dir_of s j) \<Longrightarrow> mh_bySlug t = mh_bySlug s
      \<Longrightarrow> keeps (\<lambda>s. store_inv mig (s, settled)) (k removed t)"
  shows "keeps (\<lambda>s. store_inv mig (s, settled)) (remove_entries io RemoveInstance path i entries removed k s)"
  using assms
proof (induction entries arbitrary: s removed)
  case (Cons entry entries)
  obtain name data where e: "entry = (name, data)" by fastforce
  have rm: "store_inv mig (change (RemoveInstance name) s, settled)" by (rule store_inv_simple(4) [OF Cons.prems(1)])
  have a: "keeps (\<lambda>s. store_inv mig (s, settled)) (remove_entries io RemoveInstance path i entries removed k s)" for removed
    by (rule Cons.IH [OF Cons.prems(1)]) (rule Cons.prems(2))
  have b: "keeps (\<lambda>s. store_inv mig (s, settled)) (remove_entries io RemoveInstance path i entries removed k (change (RemoveInstance name) s))" for removed
    by (rule Cons.IH [OF rm]) (rule Cons.prems(2); simp)
  show ?case using a b rm Cons.prems(1) by (auto simp: e intro!: keeps_write)
qed simp

definition not_good :: "metadataHome \<Rightarrow> string \<Rightarrow> bool" where
  "not_good s i \<longleftrightarrow> (\<forall>info w. node_file s i \<noteq> Some (info, GoodFile w))"

lemma remove_index_keeps:
  assumes "store_inv mig (s, settled)"
    and "\<And>removed t. store_inv mig (t, settled) \<Longrightarrow> (\<And>j. dir_of t j = dir_of s j) \<Longrightarrow> (\<And>slug. map_of (mh_bySlug t) slug \<noteq> Some (i @ newline))
      \<Longrightarrow> keeps (\<lambda>s. store_inv mig (s, settled)) (k removed t)"
  shows "keeps (\<lambda>s. store_inv mig (s, settled)) (removeNodeIndexEntries io i k s)"
  unfolding removeNodeIndexEntries_def
proof (rule remove_slugs_keeps [OF assms(1)])
  fix removed t assume t: "store_inv mig (t, settled)" "\<And>j. dir_of t j = dir_of s j" "map_of (mh_bySlug t) \<subseteq>\<^sub>m map_of (mh_bySlug s)"
    "\<And>name data. (name, data) \<in> set (sort_key fst (mh_bySlug s)) \<Longrightarrow> TrimSpace data = i \<Longrightarrow> map_of (mh_bySlug t) name = None"
  have none: "map_of (mh_bySlug t) slug \<noteq> Some (i @ newline)" for slug
  proof
    assume e: "map_of (mh_bySlug t) slug = Some (i @ newline)"
    then have "map_of (mh_bySlug s) slug = Some (i @ newline)" using t(3) by (force simp: map_le_def)
    moreover have "TrimSpace (i @ newline) = i" using entry_node [OF t(1) e] by fastforce
    ultimately show False using t(4) [of slug "i @ newline"] e by (simp add: map_of_SomeD)
  qed
  show "keeps (\<lambda>s. store_inv mig (s, settled)) (remove_entries io RemoveInstance nodeInstanceIndexPath i (sort_key fst (mh_byInstance t)) removed
      (\<lambda>removed. k (sort removed)) t)"
    by (rule remove_instances_keeps [OF t(1)], rule assms(2)) (use t(2) none in simp_all)
qed

lemma quarantine_all_inv:
  assumes "store_inv mig (s, settled)" "\<forall>item \<in> set items. not_good s (cr_NodeID item)"
  shows "keeps (\<lambda>s. store_inv mig (s, settled)) (quarantine_all io stamp now items quarantined s)"
  using assms
proof (induction items arbitrary: s quarantined)
  case (Cons item items)
  let ?i = "cr_NodeID item"
  show ?case unfolding quarantine_all.simps
  proof (rule remove_index_keeps [OF Cons.prems(1)])
    fix removed t assume t: "store_inv mig (t, settled)" "\<And>j. dir_of t j = dir_of s j" "\<And>slug. map_of (mh_bySlug t) slug \<noteq> Some (?i @ newline)"
    have bad: "not_good t (cr_NodeID x)" if "x \<in> set (item # items)" for x
      using Cons.prems(2) that t(2) by (auto simp: not_good_def node_file_def)
    show "keeps (\<lambda>s. store_inv mig (s, settled))
        (case quarantineDirPath stamp now ?i t of Inl err \<Rightarrow> (t, Failed err)
         | Inr destination \<Rightarrow> let record = \<lparr>qr_NodeID = ?i, qr_SourcePath = nodeDir_path ?i, qr_QuarantinePath = destination,
               qr_Reason = cr_Reason item, qr_RemovedIndexes = removed, qr_QuarantinedAt = now\<rparr>
             in write_then io (MoveToQuarantine ?i destination) (write_then io (WriteQuarantine destination record)
                  (quarantine_all io stamp now items (quarantined @ [record]))) t)"
    proof (cases "quarantineDirPath stamp now ?i t")
      case (Inl err)
      then show ?thesis using t(1) by (simp add: keeps_done)
    next
      case (Inr destination)
      let ?u = "change (MoveToQuarantine ?i destination) t"
      have u: "store_inv mig (?u, settled)"
        by (rule store_inv_drop [OF t(1)]) (use bad t(3) in \<open>auto simp: not_good_def\<close>)
      have v: "store_inv mig (change (WriteQuarantine destination r) ?u, settled)" for r by (rule store_inv_simple(7) [OF u])
      have "\<forall>x \<in> set items. not_good (change (WriteQuarantine destination r) ?u) (cr_NodeID x)" for r
        using bad by (auto simp: not_good_def node_file_def empty_dir_def)
      from Cons.IH [OF v this] show ?thesis using t(1) u v by (auto simp: Inr Let_def intro!: keeps_write)
    qed
  qed
qed (simp add: keeps_done)

lemma corrupt_not_good:
  assumes "home_ok mig s" "item \<in> set (CorruptNodeRecords s)"
  shows "not_good s (cr_NodeID item)"
proof -
  obtain name where n: "item \<in> set (snd (list_entry s True name))" using assms(2) by (auto simp: CorruptNodeRecords_def listNodes_def Let_def)
  then have "cr_NodeID item = name" "\<exists>err. readNodeRecord s name = Inl err"
    by (auto simp: list_entry_def split: if_splits sum.splits)
  then show ?thesis using read_good [OF _ assms(1), of name] by (fastforce simp: not_good_def)
qed

lemma quarantine_inv:
  assumes "store_inv mig (s, settled)"
  shows "store_inv mig (fst (QuarantineCorruptNodeRecords io stamp now s), settled)"
proof -
  have ok: "home_ok mig s" using assms by (simp add: store_inv_def)
  have root: "store_inv mig (change MakeQuarantineRoot s, settled)" by (rule store_inv_simple(6) [OF assms])
  have "\<forall>item \<in> set (CorruptNodeRecords s). not_good (change MakeQuarantineRoot s) (cr_NodeID item)"
    using corrupt_not_good [OF ok] by (simp add: not_good_def node_file_def)
  from quarantine_all_inv [OF root this] assms root
  have "keeps (\<lambda>s. store_inv mig (s, settled)) (QuarantineCorruptNodeRecords io stamp now s)"
    by (auto simp: QuarantineCorruptNodeRecords_def Let_def intro!: keeps_done keeps_write)
  then show ?thesis by (simp add: keeps_def)
qed

section \<open>All runs\<close>

lemma decay_inv:
  assumes "store_inv mig (s, settled)" "nodeMetadataExists s i"
  shows "store_inv mig (rot i why info s, settled - {i})"
proof -
  let ?t = "rot i why info s"
  have d: "dir_of ?t j = (if j = i then (dir_of s j)\<lparr>nd_node := Some (info, BadFile why)\<rparr> else dir_of s j)" for j
    by (simp add: rot_def dir_of_def update_conv')
  have f: "node_file ?t j = (if j = i then Some (info, BadFile why) else node_file s j)" for j by (simp add: node_file_def d)
  have b: "mh_bySlug ?t = mh_bySlug s" by (simp add: rot_def)
  have live: "live_file ?t j w \<longleftrightarrow> j \<noteq> i \<and> live_file s j w" for j w by (auto simp: live_file_def f)
  have "home_ok mig ?t"
  proof (rule home_okI)
    show "index_ok ?t" using assms(1) by (simp add: store_inv_def home_ok_def index_ok_def rot_def distinct_update)
    show "record_ok mig ?t j w" if "node_file ?t j = Some (info', GoodFile w)" for j info' w
      using assms(1) that by (auto simp: f d record_ok_def store_inv_def home_ok_def split: if_splits)
    show "slug_entry_ok ?t slug data" if "map_of (mh_bySlug ?t) slug = Some data" for slug data
    proof -
      have "slug_entry_ok s slug data" using assms(1) that b by (simp add: store_inv_def home_ok_def)
      then show ?thesis unfolding slug_entry_ok_def using assms(2) by (auto simp: f)
    qed
  qed
  then show ?thesis using assms(1) b by (auto simp: store_inv_def live_unique_def settled_ok_def live)
qed

lemma store_step_inv:
  assumes "store_step mig x y" "store_inv mig x"
  shows "store_inv mig y"
  using assms
proof cases
  case (save node bootstrap s io info t out settled)
  have ok: "index_ok s" using assms(2) save(1) by (simp add: store_inv_def home_ok_def)
  have r: "save_result s node info bootstrap (t, out)" using SaveNode_result [OF ok, of node info bootstrap io] save(5) by simp
  show ?thesis
  proof (cases "after_node s node info bootstrap t")
    case True
    then show ?thesis using save_inv_after [of mig s settled node bootstrap info t out] r assms(2) save(1-4) by (simp add: save_result_def)
  next
    case False
    then have b: "before_node s node bootstrap t" "out \<noteq> Finished ()" using r by (auto simp: save_result_def)
    then have "store_inv mig (t, settled)" using save_inv_before assms(2) save(1,3) by blast
    then show ?thesis using b(2) save(2) by (auto simp: settle_def store_inv_def)
  qed
next
  case (register s i settled io invalid name)
  then show ?thesis using register_inv assms(2) by simp
next
  case (cleanup items s settled io)
  then show ?thesis using cleanup_inv [of mig s settled items io] incomplete_items assms(2) by (auto simp: subset_iff)
next
  case (quarantine s settled io stamp now)
  then show ?thesis using quarantine_inv assms(2) by simp
next
  case (repair s settled io refresh infos)
  then show ?thesis using repair_inv assms(2) by (simp add: ensureNodeMetadataFiles_def)
next
  case (decay s i settled why info)
  then show ?thesis using decay_inv assms(2) by simp
qed

lemma store_init_inv: "store_init x \<Longrightarrow> store_inv mig x"
  by (simp add: store_init_def store_inv_def home_ok_def index_ok_def live_unique_def live_file_def node_file_def dir_of_def empty_dir_def)

interpretation ms: invariant_system store_init "store_step mig" "store_inv mig" for mig
  by unfold_locales (auto simp: store_init_inv intro: store_step_inv)

section \<open>Listing\<close>

lemma ReadDir_set [simp]: "set (ReadDir xs) = fst ` set xs"
  by (simp add: ReadDir_def)

lemma dir_listed: "node_file s i \<noteq> None \<Longrightarrow> i \<in> fst ` set (mh_nodes s)"
  by (auto simp: node_file_def dir_of_def empty_dir_def split: option.splits) (force dest: map_of_SomeD)

lemma listed:
  assumes "home_ok mig s"
  shows "node \<in> set (ListNodes b s) \<longleftrightarrow> (\<exists>i info w. node_file s i = Some (info, GoodFile w) \<and> node = wire_node w \<and> (b \<or> w_DeletedAt w = None))"
    (is "?l = ?r")
proof
  assume ?l
  then obtain i where "node \<in> set (fst (list_entry s b i))" by (auto simp: ListNodes_def listNodes_def Let_def)
  then have "readNodeRecord s i = Inr node" "b \<or> n_DeletedAt node = None"
    by (auto simp: list_entry_def split: if_splits sum.splits)
  then show ?r using read_Inr by fastforce
next
  assume ?r
  then obtain i info w where w: "node_file s i = Some (info, GoodFile w)" "node = wire_node w" "b \<or> w_DeletedAt w = None" by blast
  have "i \<in> fst ` set (mh_nodes s)" using dir_listed w(1) by simp
  moreover have "node \<in> set (fst (list_entry s b i))" using w read_good [OF w(1) assms] by (auto simp: list_entry_def)
  ultimately show ?l by (force simp: ListNodes_def listNodes_def Let_def)
qed

end
