(* ===== verification/StoreProperties.thy ===== *)
theory StoreProperties
  imports StoreRuns
begin

text \<open>
  The properties of the metadata store: what an interrupted save leaves, lookups by slug, and the
  quarantine of unreadable records.
\<close>

section \<open>Lookup\<close>

lemma find_unique:
  assumes "\<And>y z. y \<in> set xs \<Longrightarrow> P y \<Longrightarrow> z \<in> set xs \<Longrightarrow> P z \<Longrightarrow> y = z" "y \<in> set xs" "P y"
  shows "find P xs = Some y"
  using assms by (induction xs) auto

lemma scan_live:
  assumes "home_ok mig s" "live_unique s" "live_file s i w"
  shows "scan_slug s (w_Slug w) = Inr (wire_node w)"
proof -
  let ?P = "\<lambda>node. n_Slug node = w_Slug w"
  have mem: "wire_node w \<in> set (ListNodes False s)" using assms(3) by (auto simp: listed [OF assms(1)] live_file_def)
  have "y = z" if yz: "y \<in> set (ListNodes False s)" "?P y" "z \<in> set (ListNodes False s)" "?P z" for y z
  proof -
    obtain j v where j: "live_file s j v" "y = wire_node v" using yz(1) unfolding listed [OF assms(1)] live_file_def by blast
    obtain k u where k: "live_file s k u" "z = wire_node u" using yz(3) unfolding listed [OF assms(1)] live_file_def by blast
    have "j = k" using assms(2) j k yz(2,4) unfolding live_unique_def by (metis node_fields(2))
    then show ?thesis using j k live_unique_file by blast
  qed
  then have "find ?P (ListNodes False s) = Some (wire_node w)" using mem by (intro find_unique) auto
  then show ?thesis by (simp add: scan_slug_def)
qed

lemma scan_sound:
  assumes "scan_slug s value = Inr node"
  shows "n_Slug node = value"
  using assms by (auto simp: scan_slug_def find_Some_iff split: option.splits)

section \<open>Finished quarantines\<close>

lemma write_finished: "write_then io e k s = (t, Finished r) \<Longrightarrow> k (change e s) = (t, Finished r)"
  by (auto simp: write_then_def split: ioResult.splits)

lemma sort_filter: "sort (filter P xs) = filter P (sort xs)"
  by (rule properties_for_sort) (simp_all add: sorted_wrt_filter mset_filter)

lemma listNodes_drop:
  assumes "mh_nodes t = filter (\<lambda>x. fst x \<notin> ids) (mh_nodes s)"
    and "\<And>i. i \<in> ids \<Longrightarrow> fst (list_entry s b i) = []"
  shows "ListNodes b t = ListNodes b s" "set (CorruptNodeRecords t) = {r \<in> set (CorruptNodeRecords s). cr_NodeID r \<notin> ids}"
proof -
  have at: "map_of (filter (\<lambda>x. fst x \<notin> ids) xs) j = (if j \<in> ids then None else map_of xs j)" for xs :: "(string \<times> nodeDir) list" and j
    by (induction xs) auto
  have dirs: "dir_of t j = (if j \<in> ids then empty_dir else dir_of s j)" for j by (simp add: dir_of_def assms(1) at)
  have names: "ReadDir (mh_nodes t) = filter (\<lambda>i. i \<notin> ids) (ReadDir (mh_nodes s))"
    by (simp add: ReadDir_def assms(1) sort_filter [symmetric] filter_map comp_def)
  have same: "list_entry t c i = list_entry s c i" if "i \<notin> ids" for c i
    using that by (simp add: list_entry_def readNodeRecord_def node_file_def dirs)
  have "concat (map (\<lambda>i. fst (list_entry t b i)) (filter (\<lambda>i. i \<notin> ids) xs)) = concat (map (\<lambda>i. fst (list_entry s b i)) xs)" for xs
    by (induction xs) (simp_all add: assms(2) same)
  then show "ListNodes b t = ListNodes b s" by (simp add: ListNodes_def listNodes_def Let_def names comp_def)
  have id: "r \<in> set (snd (list_entry s True i)) \<Longrightarrow> cr_NodeID r = i" for r i by (auto simp: list_entry_def split: if_splits sum.splits)
  show "set (CorruptNodeRecords t) = {r \<in> set (CorruptNodeRecords s). cr_NodeID r \<notin> ids}"
    using same id by (force simp: CorruptNodeRecords_def listNodes_def Let_def names)
qed

lemma remove_finished:
  assumes "remove_entries io erase path i entries removed k s = (t, Finished r)" "erase = RemoveSlug \<or> erase = RemoveInstance"
  shows "\<exists>removed' u. k removed' u = (t, Finished r) \<and> mh_nodes u = mh_nodes s \<and> mh_quarantine u = mh_quarantine s"
  using assms(1)
proof (induction entries arbitrary: s removed)
  case (Cons e entries)
  obtain name data where e: "e = (name, data)" by fastforce
  let ?s = "if TrimSpace data = i then change (erase name) s else s"
  have s: "mh_nodes ?s = mh_nodes s" "mh_quarantine ?s = mh_quarantine s" using assms(2) by (auto simp: change.simps)
  have "\<exists>removed'. remove_entries io erase path i entries removed' k ?s = (t, Finished r)"
    using Cons.prems by (auto simp: e dest: write_finished split: if_splits)
  then show ?case using Cons.IH s by metis
qed auto

lemma index_finished:
  assumes "removeNodeIndexEntries io i k s = (t, Finished r)"
  obtains removed u where "k removed u = (t, Finished r)" "mh_nodes u = mh_nodes s" "mh_quarantine u = mh_quarantine s"
proof -
  note un = assms [unfolded removeNodeIndexEntries_def]
  obtain removed1 u1 where u1: "remove_entries io RemoveInstance nodeInstanceIndexPath i (sort_key fst (mh_byInstance u1)) removed1
      (\<lambda>removed. k (sort removed)) u1 = (t, Finished r)" "mh_nodes u1 = mh_nodes s" "mh_quarantine u1 = mh_quarantine s"
    using remove_finished [OF un] by blast
  obtain removed2 u2 where "k (sort removed2) u2 = (t, Finished r)" "mh_nodes u2 = mh_nodes u1" "mh_quarantine u2 = mh_quarantine u1"
    using remove_finished [OF u1(1)] by blast
  then show thesis using that u1 by metis
qed

lemma quarantine_fresh:
  assumes "quarantineDirPath stamp now i s = Inr name"
  shows "map_of (mh_quarantine s) name = None"
proof -
  have "reserve_name (\<lambda>candidate. map_of (mh_quarantine s) candidate \<noteq> None) (stamp now @ ''-'' @ i) (stamp now @ ''-'' @ i) 1 = Some name"
    using assms unfolding quarantineDirPath_def Let_def by (cases "reserve_name (\<lambda>candidate. map_of (mh_quarantine s) candidate \<noteq> None) (stamp now @ ''-'' @ i) (stamp now @ ''-'' @ i) 1") simp_all
  from reserve_name_free [OF this] show ?thesis by blast
qed

lemma map_of_stamp:
  "map_of (map (\<lambda>(n, d, q). if n = name then (n, d, Some r) else (n, d, q)) xs) x
     = (if x = name then map_option (\<lambda>(d, q). (d, Some r)) (map_of xs x) else map_of xs x)"
  by (induction xs) auto

lemma quarantine_finished:
  assumes "quarantine_all io stamp now items acc s = (t, Finished rs)" "distinct (map cr_NodeID items)"
  shows "mh_nodes t = filter (\<lambda>x. fst x \<notin> cr_NodeID ` set items) (mh_nodes s) \<and> map_of (mh_quarantine s) \<subseteq>\<^sub>m map_of (mh_quarantine t)
    \<and> (\<exists>new. rs = acc @ new \<and> map qr_NodeID new = map cr_NodeID items
        \<and> (\<forall>r \<in> set new. map_of (mh_quarantine t) (qr_QuarantinePath r) = Some (dir_of s (qr_NodeID r), Some r)))"
  using assms
proof (induction items arbitrary: s acc)
  case (Cons item items)
  let ?i = "cr_NodeID item"
  obtain removed u where u: "(case quarantineDirPath stamp now ?i u of Inl err \<Rightarrow> (u, Failed err)
      | Inr destination \<Rightarrow> let record = \<lparr>qr_NodeID = ?i, qr_SourcePath = nodeDir_path ?i, qr_QuarantinePath = destination,
               qr_Reason = cr_Reason item, qr_RemovedIndexes = removed, qr_QuarantinedAt = now\<rparr>
             in write_then io (MoveToQuarantine ?i destination) (write_then io (WriteQuarantine destination record)
                  (quarantine_all io stamp now items (acc @ [record]))) u) = (t, Finished rs)"
    "mh_nodes u = mh_nodes s" "mh_quarantine u = mh_quarantine s"
    by (rule index_finished [OF Cons.prems(1) [unfolded quarantine_all.simps]])
  obtain name where name: "quarantineDirPath stamp now ?i u = Inr name" using u(1) by (auto split: sum.splits)
  define moved where "moved = \<lparr>qr_NodeID = ?i, qr_SourcePath = nodeDir_path ?i, qr_QuarantinePath = name,
      qr_Reason = cr_Reason item, qr_RemovedIndexes = removed, qr_QuarantinedAt = now\<rparr>"
  let ?v = "change (WriteQuarantine name moved) (change (MoveToQuarantine ?i name) u)"
  have go: "quarantine_all io stamp now items (acc @ [moved]) ?v = (t, Finished rs)"
    using u(1) by (auto simp: name Let_def moved_def [symmetric] dest!: write_finished)
  have dir: "dir_of u j = dir_of s j" for j using u(2) by (simp add: dir_of_def)
  have vn: "mh_nodes ?v = filter (\<lambda>x. fst x \<noteq> ?i) (mh_nodes s)"
  proof -
    have "AList.delete ?i xs = filter (\<lambda>x. fst x \<noteq> ?i) xs" for xs :: "(string \<times> nodeDir) list" by (induction xs) auto
    then show ?thesis using u(2) by (simp add: change.simps)
  qed
  have fresh: "map_of (mh_quarantine s) name = None" using quarantine_fresh [OF name] u(3) by simp
  have vq: "map_of (mh_quarantine ?v) = (map_of (mh_quarantine s))(name \<mapsto> (dir_of s ?i, Some moved))"
    using u(3) by (auto simp: change.simps map_of_stamp fresh dir fun_eq_iff)
  from Cons.IH [OF go] Cons.prems(2) obtain new where new: "mh_nodes t = filter (\<lambda>x. fst x \<notin> cr_NodeID ` set items) (mh_nodes ?v)"
    "map_of (mh_quarantine ?v) \<subseteq>\<^sub>m map_of (mh_quarantine t)" "rs = (acc @ [moved]) @ new" "map qr_NodeID new = map cr_NodeID items"
    "\<forall>r \<in> set new. map_of (mh_quarantine t) (qr_QuarantinePath r) = Some (dir_of ?v (qr_NodeID r), Some r)" by auto
  have "mh_nodes t = filter (\<lambda>x. fst x \<notin> cr_NodeID ` set (item # items)) (mh_nodes s)" unfolding new(1) vn by (simp add: conj_commute)
  moreover have "map_of (mh_quarantine s) \<subseteq>\<^sub>m map_of (mh_quarantine t)"
    using new(2) vq fresh by (auto simp: map_le_def dom_def split: if_splits)
  moreover have "map_of (mh_quarantine t) name = Some (dir_of s ?i, Some moved)" using new(2) vq by (force simp: map_le_def)
  moreover have "dir_of ?v (qr_NodeID r) = dir_of s (qr_NodeID r)" if "r \<in> set new" for r
  proof -
    have "qr_NodeID r \<in> set (map cr_NodeID items)" using new(4) that by (metis image_eqI list.set_map)
    then have "qr_NodeID r \<noteq> ?i" using Cons.prems(2) by auto
    then show ?thesis by (simp add: dir)
  qed
  ultimately show ?case using new(3-5) by (intro conjI exI [of _ "moved # new"]) (auto simp: moved_def)
qed simp

lemma corrupt_ids_distinct:
  assumes "index_ok s"
  shows "distinct (map cr_NodeID (CorruptNodeRecords s))"
proof -
  have e: "map cr_NodeID (snd (list_entry s True i)) \<in> {[], [i]}" for i
    by (auto simp: list_entry_def split: sum.splits)
  have "distinct xs \<Longrightarrow> distinct (concat (map (\<lambda>i. map cr_NodeID (snd (list_entry s True i))) xs))
      \<and> set (concat (map (\<lambda>i. map cr_NodeID (snd (list_entry s True i))) xs)) \<subseteq> set xs" for xs
  proof (induction xs)
    case (Cons i xs)
    let ?ys = "concat (map (\<lambda>i. map cr_NodeID (snd (list_entry s True i))) xs)"
    have ih: "distinct ?ys" "set ?ys \<subseteq> set xs" "i \<notin> set ?ys" using Cons by auto
    show ?case using e [of i] ih by (cases "map cr_NodeID (snd (list_entry s True i)) = []") auto
  qed simp
  moreover have "distinct (ReadDir (mh_nodes s))" using assms by (simp add: ReadDir_def index_ok_def)
  ultimately show ?thesis by (simp add: CorruptNodeRecords_def listNodes_def Let_def map_concat comp_def distinct_map_sort)
qed

section \<open>A sample home\<close>

definition home_info :: fileInfo where
  "home_info = \<lparr>fi_File = 1, fi_Size = 2, fi_ModTime = 3\<rparr>"

definition home_node :: Node where
  "home_node = zero_node\<lparr>n_ID := ''1'', n_Slug := ''a'', n_SandboxName := ''a-1''\<rparr>"

definition home_bootstrap :: BootstrapState where
  "home_bootstrap = \<lparr>bs_AgentProfileName = [], bs_InstallCommands = [], bs_BootstrapCommands = [], bs_ValidationCommand = [],
     bs_LaunchCommand = [], bs_Environment = [], bs_Completed = False, bs_CompletedAt = None, bs_Steps = []\<rparr>"

definition empty_home :: metadataHome where
  "empty_home = \<lparr>mh_nodes = [], mh_bySlug = [], mh_byInstance = [], mh_quarantine = []\<rparr>"

definition one_home :: metadataHome where
  "one_home = \<lparr>mh_nodes = [(''1'', \<lparr>nd_node = Some (home_info, GoodFile (newNodeFileWire home_node)),
       nd_bootstrap = Some (GoodFile home_bootstrap), nd_ref = Some (''a-1'' @ newline), nd_context = True\<rparr>)],
     mh_bySlug = [(''a'', ''1'' @ newline)], mh_byInstance = [(''a-1'', ''1'' @ newline)], mh_quarantine = []\<rparr>"

definition works :: "storeChange \<Rightarrow> ioResult" where
  "works e = IoDone"

definition dies_at_slug :: "storeChange \<Rightarrow> ioResult" where
  "dies_at_slug e = (case e of WriteSlug slug data \<Rightarrow> IoDied | RemoveSlug slug \<Rightarrow> IoDied | _ \<Rightarrow> IoDone)"

lemma home_plain: "plain_id ''1''"
  by (simp add: plain_id_def newline_def) code_simp

lemma home_saved: "SaveNode works home_info home_node home_bootstrap empty_home = (one_home, Finished ())"
  by code_simp

lemma home_save_ok: "save_ok mig home_node home_bootstrap empty_home" "slug_ok home_node empty_home"
  using home_plain by (simp_all add: save_ok_def slug_ok_def live_file_def node_file_def dir_of_def empty_dir_def empty_home_def home_node_def zero_node_def)

lemma empty_reachable: "reachable store_init (store_step mig) (empty_home, {})"
  by (rule reach_init) (simp add: store_init_def empty_home_def)

lemma one_home_reachable: "reachable store_init (store_step mig) (one_home, {''1''})"
proof -
  have "settle home_node (Finished ()) {} = {''1''}" by (simp add: settle_def released_def home_node_def zero_node_def status_defs)
  then have "store_step mig (empty_home, {}) (one_home, {''1''})" using store_step.save [OF home_save_ok(1) [of mig] home_save_ok(2) home_saved, of "{}"] by simp
  then show ?thesis using empty_reachable by (auto dest: reach_step)
qed

lemma died_first_save: "snd (SaveNode dies_at_slug home_info home_node home_bootstrap empty_home) = Died"
  by code_simp

text \<open>
  Where the index can mislead. A node is renamed and the process dies between the write of its
  record and the release of its old slug: the old slug then leads to the node that no longer has
  it. And a deletion that dies before it releases the slug, followed by a creation that dies
  before it claims it, leaves a live node whose slug finds the deleted one.
\<close>

lemma rename_leaves_wrong_entry:
  "\<exists>t. SaveNode dies_at_slug home_info (home_node\<lparr>n_Slug := ''b''\<rparr>) home_bootstrap one_home = (t, Died)
     \<and> map_option n_Slug (case NodeByIDOrSlug t ''a'' of Inr n \<Rightarrow> Some n | Inl e \<Rightarrow> None) = Some ''b''"
proof -
  have "snd (SaveNode dies_at_slug home_info (home_node\<lparr>n_Slug := ''b''\<rparr>) home_bootstrap one_home) = Died
      \<and> map_option n_Slug (case NodeByIDOrSlug (fst (SaveNode dies_at_slug home_info (home_node\<lparr>n_Slug := ''b''\<rparr>) home_bootstrap one_home)) ''a''
          of Inr n \<Rightarrow> Some n | Inl e \<Rightarrow> None) = Some ''b''"
    by code_simp
  then show ?thesis by (metis prod.collapse)
qed

definition after_two_deaths :: metadataHome where
  "after_two_deaths =
     fst (SaveNode dies_at_slug home_info (home_node\<lparr>n_ID := ''2'', n_SandboxName := ''a-2''\<rparr>) home_bootstrap
       (fst (SaveNode dies_at_slug home_info (home_node\<lparr>n_DeletedAt := Some 5, n_Status := NodeStatusTerminated\<rparr>) home_bootstrap one_home)))"

lemma deaths_hide_live_node:
  "map n_ID (ListNodes False after_two_deaths) = [''2'']
     \<and> map_option n_ID (case NodeByIDOrSlug after_two_deaths ''a'' of Inr n \<Rightarrow> Some n | Inl e \<Rightarrow> None) = Some ''1''"
  by code_simp

section \<open>Properties\<close>

text \<open>
  Property C24: an interrupted save of a node does no harm. Let \<open>mig\<close> be the nodes for which the
  program takes a completed bootstrap back, as the migration of a known built-in bootstrap does at a
  start; every other save keeps a bootstrap complete once it is (\<open>save_ok\<close>), and no save changes a
  slug. Starting from any home reached in this way, let a save end anywhere: between two writes
  because the process died, or at a write that failed. Then no other node is touched; the record is
  the old or the new one, never something in between, and never disappears; the home stays
  consistent (\<open>home_ok\<close>); outside \<open>mig\<close>, a record that says its bootstrap is complete always has a
  bootstrap state that says so, so that the bootstrap is not run again; the reference that marks an
  abandoned creation is written only beside a record. A save that reports success has stored both
  files.
\<close>

theorem save_crash_safe:
  assumes "reachable store_init (store_step mig) (s, settled)" "save_ok mig node bootstrap s" "SaveNode io info node bootstrap s = (t, out)"
  shows "home_ok mig t \<and> (\<forall>j. j \<noteq> n_ID node \<longrightarrow> dir_of t j = dir_of s j)
    \<and> readNodeRecord t (n_ID node) \<in> {readNodeRecord s (n_ID node), Inr (wire_node (newNodeFileWire node))}
    \<and> (nodeMetadataExists s (n_ID node) \<longrightarrow> nodeMetadataExists t (n_ID node))
    \<and> (\<forall>i n. readNodeRecord t i = Inr n \<and> n_BootstrapCompleted n \<and> i \<notin> mig \<longrightarrow> (\<exists>b. LoadBootstrapState t i = Inr b \<and> bs_Completed b))
    \<and> (nd_ref (dir_of t (n_ID node)) \<noteq> nd_ref (dir_of s (n_ID node)) \<longrightarrow> nodeMetadataExists t (n_ID node))
    \<and> (out = Finished () \<longrightarrow> readNodeRecord t (n_ID node) = Inr (wire_node (newNodeFileWire node))
        \<and> LoadBootstrapState t (n_ID node) = Inr bootstrap)"
proof -
  have ok: "home_ok mig s" using ms.reachable_inv [OF assms(1)] by (simp add: store_inv_def)
  note r = SaveNode_result [OF home_okD(1) [OF ok], of node info bootstrap io, unfolded assms(3)]
  have stage: "before_node s node bootstrap t \<or> after_node s node info bootstrap t" using r by (simp add: save_result_def)
  have t: "home_ok mig t" using stage before_home_ok [OF ok assms(2)] after_home_ok [OF ok assms(2)] by blast
  have new: "readNodeRecord t (n_ID node) = Inr (wire_node (newNodeFileWire node))" if "after_node s node info bootstrap t"
    using read_good [OF _ t, of "n_ID node" info] that by (simp add: after_node_def node_file_def)
  have old: "readNodeRecord t (n_ID node) = readNodeRecord s (n_ID node)" if "before_node s node bootstrap t"
    using that by (simp add: before_node_def readNodeRecord_def node_file_def)
  have boot: "\<exists>b. LoadBootstrapState t i = Inr b \<and> bs_Completed b" if rec: "readNodeRecord t i = Inr n" "n_BootstrapCompleted n" "i \<notin> mig" for i n
  proof -
    obtain info' w where w: "node_file t i = Some (info', GoodFile w)" "n = wire_node w" using read_Inr [OF rec(1)] by blast
    have "record_ok mig t i w" by (rule home_okD(2) [OF t w(1)])
    then show ?thesis using rec(2,3) w(2) by (auto simp: record_ok_def LoadBootstrapState_def)
  qed
  show ?thesis
    using stage t new old boot r by (auto simp: before_node_def after_node_def save_result_def node_file_def LoadBootstrapState_def)
qed

theorem save_crash_safe_witness:
  "\<exists>t. SaveNode dies_at_slug home_info home_node home_bootstrap empty_home = (t, Died) \<and> home_ok {} t"
proof -
  obtain t where t: "SaveNode dies_at_slug home_info home_node home_bootstrap empty_home = (t, Died)"
    by (metis prod.collapse [of "SaveNode dies_at_slug home_info home_node home_bootstrap empty_home"] died_first_save)
  from save_crash_safe [OF empty_reachable [of "{}"] home_save_ok(1) t] show ?thesis using t by blast
qed

text \<open>
  What the migration risks: the process dies after it has written the bootstrap state that asks for
  the commands again and before it has written the record, which still says complete.
\<close>

definition dies_at_node :: "storeChange \<Rightarrow> ioResult" where
  "dies_at_node e = (case e of WriteNode i info node \<Rightarrow> IoDied | _ \<Rightarrow> IoDone)"

definition complete_home :: metadataHome where
  "complete_home = fst (SaveNode works home_info (home_node\<lparr>n_BootstrapCompleted := True\<rparr>) (home_bootstrap\<lparr>bs_Completed := True\<rparr>) empty_home)"

lemma migration_dies_between_files:
  "case SaveNode dies_at_node home_info home_node home_bootstrap complete_home of (t, out) \<Rightarrow>
     out = Died \<and> map_option n_BootstrapCompleted (case readNodeRecord t ''1'' of Inr n \<Rightarrow> Some n | Inl e \<Rightarrow> None) = Some True
     \<and> map_option bs_Completed (case LoadBootstrapState t ''1'' of Inr b \<Rightarrow> Some b | Inl e \<Rightarrow> None) = Some False"
  by code_simp

text \<open>
  Property C26: a slug leads to its node. The home is reached by operations that check that a slug
  is free and never change the slug of a node, as all callers of \<^verbatim>\<open>SaveNode\<close> do (\<open>slug_ok\<close>; a rename,
  which \<^verbatim>\<open>SaveNode\<close> could do, is excluded, and \<open>rename_leaves_wrong_entry\<close> shows why), with any
  interruptions on the way. Then looking up a value that is not the identifier of a node never
  returns a node with another slug; and the slug of a live node whose last save finished, if it is
  not the identifier of a node, finds exactly that node, with or without an index entry.
\<close>

theorem node_found_by_slug:
  assumes "reachable store_init (store_step mig) (s, settled)" "node_file s value = None"
  shows "(\<forall>node. NodeByIDOrSlug s value = Inr node \<longrightarrow> n_Slug node = value)
    \<and> (\<forall>i \<in> settled. \<exists>node. NodeByIDOrSlug s i = Inr node \<and> n_ID node = i
        \<and> (n_Slug node = value \<longrightarrow> NodeByIDOrSlug s value = Inr node))"
proof -
  have inv: "store_inv mig (s, settled)" by (rule ms.reachable_inv [OF assms(1)])
  then have ok: "home_ok mig s" "live_unique s" by (simp_all add: store_inv_def)
  have "n_Slug node = value" if look: "NodeByIDOrSlug s value = Inr node" for node
  proof (cases "map_of (mh_bySlug s) value")
    case None
    then show ?thesis using look assms(2) scan_sound by (simp add: NodeByIDOrSlug_def)
  next
    case (Some data)
    obtain i where i: "data = i @ newline" "plain_id i" "\<And>info w. node_file s i = Some (info, GoodFile w) \<Longrightarrow> w_Slug w = value"
      using home_okD(3) [OF ok(1) Some] unfolding slug_entry_ok_def by blast
    have trim: "TrimSpace data = i" using i by (simp add: plain_id_def)
    show ?thesis
    proof (cases "readNodeRecord s i")
      case (Inl err)
      then have "scan_slug s value = Inr node" using look assms(2) Some trim by (simp add: NodeByIDOrSlug_def split: if_splits)
      then show ?thesis by (rule scan_sound)
    next
      case (Inr n)
      then obtain info w where w: "node_file s i = Some (info, GoodFile w)" "n = wire_node w" using read_Inr by blast
      then have "node = n" using look assms(2) Some trim Inr by (simp add: NodeByIDOrSlug_def)
      then show ?thesis using i(3) [OF w(1)] w(2) by simp
    qed
  qed
  moreover have "\<exists>node. NodeByIDOrSlug s i = Inr node \<and> n_ID node = i \<and> (n_Slug node = value \<longrightarrow> NodeByIDOrSlug s value = Inr node)"
    if i: "i \<in> settled" for i
  proof -
    obtain w where w: "live_file s i w" "map_of (mh_bySlug s) (w_Slug w) \<in> {None, Some (i @ newline)}"
      using inv i unfolding store_inv_def settled_ok_def by blast
    obtain info where at: "node_file s i = Some (info, GoodFile w)" using w(1) by (auto simp: live_file_def)
    have rec: "record_ok mig s i w" by (rule home_okD(2) [OF ok(1) at])
    have read: "readNodeRecord s i = Inr (wire_node w)" by (rule read_good [OF at ok(1)])
    have trim: "TrimSpace (i @ newline) = i" using rec by (simp add: record_ok_def plain_id_def)
    have "NodeByIDOrSlug s (w_Slug w) = Inr (wire_node w)" if "node_file s (w_Slug w) = None"
      using w(2) that scan_live [OF ok w(1)] read trim by (auto simp: NodeByIDOrSlug_def)
    moreover have "NodeByIDOrSlug s i = Inr (wire_node w)" using at read by (simp add: NodeByIDOrSlug_def)
    ultimately show ?thesis using rec assms(2) by (intro exI [of _ "wire_node w"]) (auto simp: record_ok_def)
  qed
  ultimately show ?thesis by blast
qed

theorem node_found_by_slug_witness:
  "\<exists>node. NodeByIDOrSlug one_home ''a'' = Inr node \<and> n_ID node = ''1''"
proof -
  have "node_file one_home ''a'' = None" by code_simp
  from node_found_by_slug [OF one_home_reachable this]
  obtain node where "NodeByIDOrSlug one_home ''1'' = Inr node" "n_ID node = ''1''"
    "n_Slug node = ''a'' \<longrightarrow> NodeByIDOrSlug one_home ''a'' = Inr node" by blast
  moreover have "NodeByIDOrSlug one_home ''1'' = Inr (wire_node (newNodeFileWire home_node))" by code_simp
  ultimately show ?thesis by (auto simp: home_node_def)
qed

text \<open>
  a quarantine that reports success has taken every unreadable record out of service
  and nothing else. Afterwards no record is unreadable, the listings of the readable nodes are
  unchanged, each unreadable node is in the quarantine under a name of its own with all its files
  and the report of the move, and whatever was in the quarantine before is still there.
\<close>

theorem quarantine_complete:
  assumes "reachable store_init (store_step mig) (s, settled)" "QuarantineCorruptNodeRecords io stamp now s = (t, Finished records)"
  shows "CorruptNodeRecords t = [] \<and> (\<forall>includeDeleted. ListNodes includeDeleted t = ListNodes includeDeleted s)
    \<and> map qr_NodeID records = map cr_NodeID (CorruptNodeRecords s)
    \<and> (\<forall>r \<in> set records. map_of (mh_quarantine t) (qr_QuarantinePath r) = Some (dir_of s (qr_NodeID r), Some r))
    \<and> map_of (mh_quarantine s) \<subseteq>\<^sub>m map_of (mh_quarantine t)"
proof (cases "CorruptNodeRecords s = []")
  case True
  then show ?thesis using assms(2) by (simp add: QuarantineCorruptNodeRecords_def)
next
  case False
  have ok: "home_ok mig s" using ms.reachable_inv [OF assms(1)] by (simp add: store_inv_def)
  let ?s = "change MakeQuarantineRoot s" and ?c = "CorruptNodeRecords s"
  have same: "?s = s" by (simp add: change.simps)
  have "quarantine_all io stamp now ?c [] s = (t, Finished records)"
    using assms(2) False write_finished [of io MakeQuarantineRoot _ s t records] same by (simp add: QuarantineCorruptNodeRecords_def Let_def)
  note q = quarantine_finished [OF this corrupt_ids_distinct [OF home_okD(1) [OF ok]]]
  have nodes: "mh_nodes t = filter (\<lambda>x. fst x \<notin> cr_NodeID ` set ?c) (mh_nodes s)" using q by blast
  have "fst (list_entry s b i) = []" if i: "i \<in> cr_NodeID ` set ?c" for b i
  proof -
    obtain item where item: "item \<in> set ?c" "i = cr_NodeID item" using i by blast
    have "not_good s i" using corrupt_not_good [OF ok item(1)] item(2) by simp
    then have "readNodeRecord s i \<noteq> Inr n" for n using read_Inr unfolding not_good_def by blast
    then show ?thesis by (auto simp: list_entry_def split: sum.splits)
  qed
  note d = listNodes_drop [OF nodes this]
  have "set (CorruptNodeRecords t) = {}" using d(2) by auto
  then have "CorruptNodeRecords t = []" by simp
  then show ?thesis using d(1) q by auto
qed

theorem quarantine_complete_witness:
  "\<exists>t records. QuarantineCorruptNodeRecords works (\<lambda>now. ''t'') 7 (rot ''1'' ''bad'' home_info one_home) = (t, Finished records)
     \<and> map qr_NodeID records = [''1''] \<and> CorruptNodeRecords t = []"
proof -
  let ?s = "rot ''1'' ''bad'' home_info one_home"
  have "nodeMetadataExists one_home ''1''" by (simp add: one_home_def node_file_def dir_of_def)
  then have "store_step mig (one_home, {''1''}) (?s, {''1''} - {''1''})" by (rule store_step.decay)
  then have r: "reachable store_init (store_step mig) (?s, {''1''} - {''1''})" using one_home_reachable by (auto dest: reach_step)
  have "case snd (QuarantineCorruptNodeRecords works (\<lambda>now. ''t'') 7 ?s) of Finished rs \<Rightarrow> True | _ \<Rightarrow> False" by code_simp
  then obtain t records where q: "QuarantineCorruptNodeRecords works (\<lambda>now. ''t'') 7 ?s = (t, Finished records)"
    by (cases "QuarantineCorruptNodeRecords works (\<lambda>now. ''t'') 7 ?s") (auto split: outcome.splits)
  have "map cr_NodeID (CorruptNodeRecords ?s) = [''1'']" by code_simp
  then show ?thesis using quarantine_complete [OF r q] q by auto
qed

end
