(* ===== verification/NodeCache.thy ===== *)
theory NodeCache
  imports StoreProperties
begin

text \<open>
  The cache of parsed node records, \<^verbatim>\<open>metadataCache\<close> of \<^verbatim>\<open>store.go\<close>. A read takes the identity of the
  file, looks in the cache, reads and parses the file, and stores the result under the identity it
  took first. Goroutines interleave between these steps, and this or another process replaces
  files meanwhile. The theory proves that the cache changes no answer.

  The key is the node's identifier, which determines the path. A cached value is handed out as a deep
  copy (\<^verbatim>\<open>cloneNode\<close>), which is the value itself here.
\<close>

section \<open>Operations\<close>

record metadataCacheEntry =
  ce_info :: fileInfo
  ce_value :: Node

type_synonym metadataCache = "(string \<times> metadataCacheEntry) list"

definition sameMetadataFile :: "fileInfo \<Rightarrow> fileInfo \<Rightarrow> bool" where
  "sameMetadataFile cached current \<longleftrightarrow> fi_Size cached = fi_Size current \<and> fi_ModTime cached = fi_ModTime current
     \<and> fi_File cached = fi_File current"

definition statMetadataFile :: "metadataHome \<Rightarrow> string \<Rightarrow> fileInfo option" where
  "statMetadataFile s nodeID = map_option fst (node_file s nodeID)"

definition cache_lookup :: "metadataCache \<Rightarrow> string \<Rightarrow> fileInfo option \<Rightarrow> Node option" where
  "cache_lookup c path info =
     (case info of
        None \<Rightarrow> None
      | Some info \<Rightarrow>
          (case map_of c path of
             None \<Rightarrow> None
           | Some entry \<Rightarrow> if \<not> sameMetadataFile (ce_info entry) info then None else Some (ce_value entry)))"

definition cache_store :: "metadataCache \<Rightarrow> string \<Rightarrow> fileInfo option \<Rightarrow> Node \<Rightarrow> metadataCache" where
  "cache_store c path info value =
     (case info of None \<Rightarrow> c | Some info \<Rightarrow> AList.update path \<lparr>ce_info = info, ce_value = value\<rparr> c)"

definition cache_forget :: "metadataCache \<Rightarrow> string \<Rightarrow> metadataCache" where
  "cache_forget c path = AList.delete path c"

definition NodeByID :: "metadataCache \<Rightarrow> metadataHome \<Rightarrow> string \<Rightarrow> (goError, Node) result \<times> metadataCache" where
  "NodeByID c s nodeID =
     (let info = statMetadataFile s nodeID
      in case cache_lookup c nodeID info of
           Some node \<Rightarrow> (Inr node, c)
         | None \<Rightarrow>
             (case readNodeRecord s nodeID of
                Inl err \<Rightarrow> (Inl err, cache_forget c nodeID)
              | Inr node \<Rightarrow> (Inr node, cache_store c nodeID info node)))"

section \<open>Interleaved reads\<close>

text \<open>
  A read in progress: \<open>rd_seen\<close> collects what the file has held since the read began, to say what an
  answer may be.
\<close>

datatype readPhase = Looking | Reading | Parsed "(goError, Node) result" | Returned "(goError, Node) result"

record nodeReader =
  rd_id :: string
  rd_info :: "fileInfo option"
  rd_seen :: "(goError, Node) result list"
  rd_phase :: readPhase

record cacheRun =
  ca_home :: metadataHome
  ca_cache :: metadataCache
  ca_readers :: "nodeReader list"

definition begin_read :: "string \<Rightarrow> cacheRun \<Rightarrow> cacheRun" where
  "begin_read i x = x\<lparr>ca_readers := \<lparr>rd_id = i, rd_info = statMetadataFile (ca_home x) i,
     rd_seen = [readNodeRecord (ca_home x) i], rd_phase = Looking\<rparr> # ca_readers x\<rparr>"

definition advance_read :: "nodeReader \<Rightarrow> cacheRun \<Rightarrow> nodeReader \<times> metadataCache" where
  "advance_read r x =
     (case rd_phase r of
        Looking \<Rightarrow>
          (case cache_lookup (ca_cache x) (rd_id r) (rd_info r) of
             Some node \<Rightarrow> (r\<lparr>rd_phase := Returned (Inr node)\<rparr>, ca_cache x)
           | None \<Rightarrow> (r\<lparr>rd_phase := Reading\<rparr>, ca_cache x))
      | Reading \<Rightarrow> (r\<lparr>rd_phase := Parsed (readNodeRecord (ca_home x) (rd_id r))\<rparr>, ca_cache x)
      | Parsed (Inl err) \<Rightarrow> (r\<lparr>rd_phase := Returned (Inl err)\<rparr>, cache_forget (ca_cache x) (rd_id r))
      | Parsed (Inr node) \<Rightarrow> (r\<lparr>rd_phase := Returned (Inr node)\<rparr>, cache_store (ca_cache x) (rd_id r) (rd_info r) node)
      | Returned result \<Rightarrow> (r, ca_cache x))"

text \<open>
  A change of the home by any operation of any process. A written file has an identity that neither
  the cache nor a read in progress has for that node: it is a new file, put in place by a rename, even
  when its size and time are those of the file it replaces.
\<close>

definition fresh_change :: "cacheRun \<Rightarrow> metadataHome \<Rightarrow> bool" where
  "fresh_change x home \<longleftrightarrow> (\<forall>i info f. node_file home i = Some (info, f) \<and> node_file (ca_home x) i \<noteq> Some (info, f) \<longrightarrow>
     (\<forall>e. map_of (ca_cache x) i = Some e \<longrightarrow> ce_info e \<noteq> info)
     \<and> (\<forall>r \<in> set (ca_readers x). rd_id r = i \<longrightarrow> rd_info r \<noteq> Some info))"

definition change_home :: "metadataHome \<Rightarrow> cacheRun \<Rightarrow> cacheRun" where
  "change_home home x = x\<lparr>ca_home := home,
     ca_readers := map (\<lambda>r. r\<lparr>rd_seen := readNodeRecord home (rd_id r) # rd_seen r\<rparr>) (ca_readers x)\<rparr>"

inductive cache_step :: "cacheRun \<Rightarrow> cacheRun \<Rightarrow> bool" where
  begin_step: "cache_step x (begin_read i x)"
| read_step: "ca_readers x = before @ r # after \<Longrightarrow> advance_read r x = (r', c)
    \<Longrightarrow> cache_step x (x\<lparr>ca_cache := c, ca_readers := before @ r' # after\<rparr>)"
| change_step: "fresh_change x home \<Longrightarrow> cache_step x (change_home home x)"
| forget_step: "cache_step x (x\<lparr>ca_cache := cache_forget (ca_cache x) i\<rparr>)"

definition cache_init :: "cacheRun \<Rightarrow> bool" where
  "cache_init x \<longleftrightarrow> ca_cache x = [] \<and> ca_readers x = []"

section \<open>Invariant\<close>

text \<open>What the cache and the parsed reads in progress would serve under an identity.\<close>

definition claim_of :: "nodeReader \<Rightarrow> (string \<times> fileInfo \<times> Node) set" where
  "claim_of r = {(rd_id r, info, n) | info n. rd_info r = Some info \<and> rd_phase r = Parsed (Inr n)}"

definition claims :: "cacheRun \<Rightarrow> (string \<times> fileInfo \<times> Node) set" where
  "claims x = {(i, ce_info e, ce_value e) | i e. map_of (ca_cache x) i = Some e} \<union> (\<Union>r \<in> set (ca_readers x). claim_of r)"

lemma claim_of_seen [simp]: "claim_of (r\<lparr>rd_seen := v\<rparr>) = claim_of r"
  by (simp add: claim_of_def)

definition reader_ok :: "cacheRun \<Rightarrow> nodeReader \<Rightarrow> bool" where
  "reader_ok x r \<longleftrightarrow> readNodeRecord (ca_home x) (rd_id r) \<in> set (rd_seen r)
     \<and> (\<forall>result. rd_phase r = Parsed result \<or> rd_phase r = Returned result \<longrightarrow> result \<in> set (rd_seen r))
     \<and> (\<forall>info n. (rd_id r, info, n) \<in> claims x \<and> rd_info r = Some info \<longrightarrow> Inr n \<in> set (rd_seen r))"

definition cache_inv :: "cacheRun \<Rightarrow> bool" where
  "cache_inv x \<longleftrightarrow> (\<forall>i info n. (i, info, n) \<in> claims x \<and> statMetadataFile (ca_home x) i = Some info \<longrightarrow> readNodeRecord (ca_home x) i = Inr n)
     \<and> (\<forall>r \<in> set (ca_readers x). reader_ok x r)"

lemma same_identity: "sameMetadataFile a b \<longleftrightarrow> a = b"
  by (cases a; cases b) (auto simp: sameMetadataFile_def)

lemma lookup_claim: "cache_lookup (ca_cache x) i info = Some n \<Longrightarrow> \<exists>f. info = Some f \<and> (i, f, n) \<in> claims x"
  by (auto simp: cache_lookup_def claims_def same_identity split: option.splits if_splits)

lemma begin_inv:
  assumes "cache_inv x"
  shows "cache_inv (begin_read i x)"
proof -
  have c: "claims (begin_read i x) = claims x" by (simp add: claims_def begin_read_def claim_of_def)
  have h: "ca_home (begin_read i x) = ca_home x" by (simp add: begin_read_def)
  have "reader_ok (begin_read i x) r" if "r \<in> set (ca_readers (begin_read i x))" for r
  proof (cases "r \<in> set (ca_readers x)")
    case True
    then show ?thesis using assms unfolding cache_inv_def reader_ok_def c h by blast
  next
    case False
    then have r: "r = \<lparr>rd_id = i, rd_info = statMetadataFile (ca_home x) i, rd_seen = [readNodeRecord (ca_home x) i], rd_phase = Looking\<rparr>"
      using that by (simp add: begin_read_def)
    show ?thesis using assms unfolding reader_ok_def c h r cache_inv_def by auto
  qed
  then show ?thesis using assms unfolding cache_inv_def c h by blast
qed

lemma change_inv:
  assumes "cache_inv x" "fresh_change x home"
  shows "cache_inv (change_home home x)"
proof -
  have c: "claims (change_home home x) = claims x" by (simp add: claims_def change_home_def)
  have "readNodeRecord home i = Inr n" if cl: "(i, info, n) \<in> claims x" "statMetadataFile home i = Some info" for i info n
  proof -
    obtain f where f: "node_file home i = Some (info, f)" using cl(2) by (auto simp: statMetadataFile_def)
    have "node_file (ca_home x) i = Some (info, f)"
    proof (rule ccontr)
      assume "node_file (ca_home x) i \<noteq> Some (info, f)"
      then have n: "\<And>e. map_of (ca_cache x) i = Some e \<Longrightarrow> ce_info e \<noteq> info"
        "\<And>r. r \<in> set (ca_readers x) \<Longrightarrow> rd_id r = i \<Longrightarrow> rd_info r \<noteq> Some info"
        using assms(2) f unfolding fresh_change_def by blast+
      then show False using cl(1) unfolding claims_def claim_of_def by auto
    qed
    moreover from this have "statMetadataFile (ca_home x) i = Some info" by (simp add: statMetadataFile_def)
    ultimately have "readNodeRecord (ca_home x) i = Inr n" "readNodeRecord home i = readNodeRecord (ca_home x) i"
      using assms(1) cl(1) f unfolding cache_inv_def by (blast, simp add: readNodeRecord_def)
    then show ?thesis by simp
  qed
  moreover have "reader_ok (change_home home x) r" if r: "r \<in> set (ca_readers (change_home home x))" for r
  proof -
    obtain q where q: "q \<in> set (ca_readers x)" "r = q\<lparr>rd_seen := readNodeRecord home (rd_id q) # rd_seen q\<rparr>"
      using r by (auto simp: change_home_def)
    then have "reader_ok x q" using assms(1) by (simp add: cache_inv_def)
    then show ?thesis unfolding reader_ok_def c q(2) by (auto simp: change_home_def)
  qed
  moreover have "ca_home (change_home home x) = home" by (simp add: change_home_def)
  ultimately show ?thesis unfolding cache_inv_def c by metis
qed

lemma advance_effect:
  assumes "cache_inv x" "ca_readers x = before @ r # after" "advance_read r x = (r', c)"
  shows "rd_id r' = rd_id r" "rd_info r' = rd_info r" "rd_seen r' = rd_seen r"
    "\<And>result. rd_phase r' = Parsed result \<or> rd_phase r' = Returned result \<Longrightarrow> result \<in> set (rd_seen r)"
    "claims (x\<lparr>ca_cache := c, ca_readers := before @ r' # after\<rparr>)
       \<subseteq> claims x \<union> {(rd_id r, info, n) | info n. readNodeRecord (ca_home x) (rd_id r) = Inr n}"
proof -
  have ok: "reader_ok x r" using assms(1,2) by (simp add: cache_inv_def)
  have mine: "claim_of r \<subseteq> claims x" using assms(2) by (auto simp: claims_def)
  have others: "claim_of q \<subseteq> claims x" if "q \<in> set before \<union> set after" for q using assms(2) that by (auto simp: claims_def)
  show "rd_id r' = rd_id r" "rd_info r' = rd_info r" "rd_seen r' = rd_seen r"
    using assms(3) by (auto simp: advance_read_def split: readPhase.splits sum.splits option.splits)
  have hit: "Inr n \<in> set (rd_seen r)" if look: "cache_lookup (ca_cache x) (rd_id r) (rd_info r) = Some n" for n
    using lookup_claim [OF look] ok unfolding reader_ok_def by blast
  show "result \<in> set (rd_seen r)" if "rd_phase r' = Parsed result \<or> rd_phase r' = Returned result" for result
    using assms(3) that ok hit by (auto simp: advance_read_def reader_ok_def split: readPhase.splits sum.splits option.splits)
  have mine': "claim_of r' \<subseteq> claims x \<union> {(rd_id r, info, n) | info n. readNodeRecord (ca_home x) (rd_id r) = Inr n}"
    using assms(3) mine by (auto simp: advance_read_def claim_of_def split: readPhase.splits sum.splits option.splits)
  have cached: "(i, ce_info e, ce_value e) \<in> claims x" if "map_of c i = Some e" for i e
    using assms(3) that mine
    by (auto simp: advance_read_def claim_of_def cache_store_def cache_forget_def update_conv' delete_conv' claims_def
        split: readPhase.splits sum.splits option.splits if_splits)
  show "claims (x\<lparr>ca_cache := c, ca_readers := before @ r' # after\<rparr>)
       \<subseteq> claims x \<union> {(rd_id r, info, n) | info n. readNodeRecord (ca_home x) (rd_id r) = Inr n}"
    using cached others mine' unfolding claims_def [of "x\<lparr>ca_cache := c, ca_readers := before @ r' # after\<rparr>"] by fastforce
qed

lemma read_inv:
  assumes "cache_inv x" "ca_readers x = before @ r # after" "advance_read r x = (r', c)"
  shows "cache_inv (x\<lparr>ca_cache := c, ca_readers := before @ r' # after\<rparr>)"
proof -
  let ?y = "x\<lparr>ca_cache := c, ca_readers := before @ r' # after\<rparr>"
  note e = advance_effect [OF assms]
  have inv: "\<And>i info n. (i, info, n) \<in> claims x \<Longrightarrow> statMetadataFile (ca_home x) i = Some info \<Longrightarrow> readNodeRecord (ca_home x) i = Inr n"
    "\<And>q. q \<in> set (ca_readers x) \<Longrightarrow> reader_ok x q" using assms(1) unfolding cache_inv_def by blast+
  have cl: "(i, info, n) \<in> claims x \<or> readNodeRecord (ca_home x) i = Inr n" if "(i, info, n) \<in> claims ?y" for i info n
    using e(5) that by blast
  have h: "ca_home ?y = ca_home x" by simp
  have ok: "reader_ok ?y q" if q: "reader_ok x q" for q
  proof -
    have "Inr n \<in> set (rd_seen q)" if "(rd_id q, info, n) \<in> claims ?y" "rd_info q = Some info" for info n
      using cl [OF that(1)] that(2) q unfolding reader_ok_def by metis
    then show ?thesis using q unfolding reader_ok_def h by blast
  qed
  have "reader_ok ?y q" if q: "q \<in> set (ca_readers ?y)" for q
  proof (cases "q = r'")
    case True
    have "reader_ok ?y r" using ok inv(2) assms(2) by simp
    then show ?thesis using e(4) unfolding reader_ok_def True e(1-3) by blast
  next
    case False
    then show ?thesis using ok inv(2) assms(2) q by simp
  qed
  moreover have "readNodeRecord (ca_home x) i = Inr n" if "(i, info, n) \<in> claims ?y" "statMetadataFile (ca_home x) i = Some info" for i info n
    using cl [OF that(1)] inv(1) that(2) by blast
  ultimately show ?thesis unfolding cache_inv_def h by blast
qed

lemma forget_inv:
  assumes "cache_inv x"
  shows "cache_inv (x\<lparr>ca_cache := cache_forget (ca_cache x) i\<rparr>)"
proof -
  let ?y = "x\<lparr>ca_cache := cache_forget (ca_cache x) i\<rparr>"
  have sub: "k \<in> claims x" if "k \<in> claims ?y" for k
    using that by (auto simp: claims_def cache_forget_def delete_conv' split: if_splits)
  have h: "ca_home ?y = ca_home x" "ca_readers ?y = ca_readers x" by simp_all
  have "reader_ok ?y r" if "reader_ok x r" for r using that sub unfolding reader_ok_def h by blast
  then show ?thesis using assms sub unfolding cache_inv_def h by blast
qed

lemma cache_step_inv: "cache_step x y \<Longrightarrow> cache_inv x \<Longrightarrow> cache_inv y"
  by (induction rule: cache_step.induct) (auto intro: begin_inv read_inv change_inv forget_inv)

interpretation nc: invariant_system cache_init cache_step cache_inv
  by unfold_locales (simp add: cache_init_def cache_inv_def claims_def, erule (1) cache_step_inv)

section \<open>Property\<close>

definition read_start :: cacheRun where
  "read_start = \<lparr>ca_home = one_home, ca_cache = [], ca_readers = []\<rparr>"

text \<open>One step of the only read in progress.\<close>

definition advance_only :: "cacheRun \<Rightarrow> cacheRun" where
  "advance_only x = (case ca_readers x of [r] \<Rightarrow> x\<lparr>ca_cache := snd (advance_read r x), ca_readers := [fst (advance_read r x)]\<rparr> | _ \<Rightarrow> x)"

lemma advance_only_reachable:
  assumes "reachable cache_init cache_step x" "length (ca_readers x) = 1"
  shows "reachable cache_init cache_step (advance_only x)" "length (ca_readers (advance_only x)) = 1"
proof -
  obtain r where r: "ca_readers x = [r]" using assms(2) by (auto simp: length_Suc_conv)
  have "cache_step x (x\<lparr>ca_cache := snd (advance_read r x), ca_readers := [fst (advance_read r x)]\<rparr>)"
    using cache_step.read_step [of x "[]" r "[]" "fst (advance_read r x)" "snd (advance_read r x)"] r by simp
  then show "reachable cache_init cache_step (advance_only x)" using assms(1) r by (auto simp: advance_only_def dest: reach_step)
  show "length (ca_readers (advance_only x)) = 1" by (simp add: advance_only_def r)
qed

definition read_done :: cacheRun where
  "read_done = advance_only (advance_only (advance_only (begin_read ''1'' read_start)))"

lemma read_done_reachable: "reachable cache_init cache_step read_done"
proof -
  have "reachable cache_init cache_step read_start" by (rule reach_init) (simp add: cache_init_def read_start_def)
  then have b: "reachable cache_init cache_step (begin_read ''1'' read_start)" by (auto dest: reach_step intro: cache_step.begin_step)
  have "length (ca_readers (begin_read ''1'' read_start)) = 1" by (simp add: begin_read_def read_start_def)
  then show ?thesis unfolding read_done_def using b by (intro advance_only_reachable)
qed

text \<open>
  Property C25: the cache of parsed records changes no answer. In every state, asking through the
  cache gives exactly what reading the file gives. And however reads interleave with each other and
  with writes of any process, the answer of a read is one that the file itself would have given at
  some moment between the beginning and the end of that read.
\<close>

theorem node_cache_transparent:
  assumes "reachable cache_init cache_step x"
  shows "(\<forall>i. fst (NodeByID (ca_cache x) (ca_home x) i) = readNodeRecord (ca_home x) i)
    \<and> (\<forall>r \<in> set (ca_readers x). \<forall>result. rd_phase r = Returned result \<longrightarrow> result \<in> set (rd_seen r))"
proof -
  have inv: "cache_inv x" by (rule nc.reachable_inv [OF assms])
  have "fst (NodeByID (ca_cache x) (ca_home x) i) = readNodeRecord (ca_home x) i" for i
  proof (cases "cache_lookup (ca_cache x) i (statMetadataFile (ca_home x) i)")
    case None
    then show ?thesis by (auto simp: NodeByID_def Let_def split: sum.splits)
  next
    case (Some n)
    from lookup_claim [OF Some] obtain info where "statMetadataFile (ca_home x) i = Some info" "(i, info, n) \<in> claims x" by blast
    then have "readNodeRecord (ca_home x) i = Inr n" using inv unfolding cache_inv_def by blast
    then show ?thesis using Some by (simp add: NodeByID_def)
  qed
  moreover have "\<forall>r \<in> set (ca_readers x). \<forall>result. rd_phase r = Returned result \<longrightarrow> result \<in> set (rd_seen r)"
    using inv unfolding cache_inv_def reader_ok_def by blast
  ultimately show ?thesis by blast
qed

theorem node_cache_transparent_witness:
  "cache_lookup (ca_cache read_done) ''1'' (statMetadataFile (ca_home read_done) ''1'') = Some (wire_node (newNodeFileWire home_node))
   \<and> fst (NodeByID (ca_cache read_done) (ca_home read_done) ''1'') = readNodeRecord (ca_home read_done) ''1''"
proof -
  have "cache_lookup (ca_cache read_done) ''1'' (statMetadataFile (ca_home read_done) ''1'') = Some (wire_node (newNodeFileWire home_node))"
    by code_simp
  then show ?thesis using node_cache_transparent [OF read_done_reachable] by blast
qed

end
