(* ===== verification/RendererRecovery.thy ===== *)
theory RendererRecovery
  imports JournalOrder TerminalBytes "HOL-Library.AList"
begin

text \<open>
  What a daemon hands to its successor to rebuild the screen of a terminal:
  \<^verbatim>\<open>renderer_checkpoint.go\<close> (the envelope of a native checkpoint), \<^verbatim>\<open>renderer_checkpoint_handoff.go\<close> (the
  bundle of a checkpoint and the journal, with its validation), \<^verbatim>\<open>renderer_checkpoint_quota.go\<close>, the
  bundle's part of \<^verbatim>\<open>renderer_checkpoint_supervisor.go\<close> and of \<^verbatim>\<open>daemon_terminal_isolated.go\<close> (giving a
  terminal away and adopting it). The theory proves that adopting restores what was given away, and
  that nothing is adopted that is not well formed.

  JSON and SHA-256 are arguments: \<open>cd_marshal\<close> is the text of a bundle, of a type of its own, and
  \<open>cd_sum\<close> its digest in hexadecimal; \<open>cd_header\<close> gives the length of a checkpoint's header and the
  digest of header and payload.
\<close>

section \<open>Data\<close>

type_synonym u32 = "32 word"

record TerminalColors =
  co_Foreground :: "u32 option"
  co_Background :: "u32 option"
  co_Cursor :: "u32 option"
  co_Palette :: "u32 list"
  co_Theme :: int

record TerminalMetadata =
  tm_PromptIdleSinceUnixMilli :: int
  tm_ActivityStale :: bool
  tm_Title :: string
  tm_WorkingDirectory :: string
  tm_BellCount :: u64
  tm_NotificationCount :: u64
  tm_NotificationTitle :: string
  tm_NotificationBody :: string
  tm_ProgressState :: int
  tm_Progress :: int
  tm_CursorAtPrompt :: bool

record terminalCheckpointState =
  cs_Boundary :: VTBoundary
  cs_CellWidth :: int
  cs_CellHeight :: int
  cs_Data :: bytes
  cs_Generation :: u64
  cs_Cols :: int
  cs_Rows :: int
  cs_ViewportOffset :: int
  cs_Focused :: bool
  cs_Metadata :: TerminalMetadata
  cs_Colors :: "TerminalColors option"

record rendererCheckpointPolicy =
  cp_WidthPolicy :: string
  cp_ScrollbackLines :: int

record rendererCheckpoint =
  ck_Version :: int
  ck_BuildID :: string
  ck_TerminalID :: string
  ck_RendererGeneration :: u64
  ck_AppliedEventID :: u64
  ck_Partial :: bool
  ck_Policy :: rendererCheckpointPolicy
  ck_State :: terminalCheckpointState
  ck_SHA256 :: string

record rendererRecoveryBundle =
  rb_Version :: int
  rb_TerminalID :: string
  rb_Checkpoint :: "rendererCheckpoint option"
  rb_Colors :: "TerminalColors option"
  rb_Journal :: rendererJournalSnapshot
  rb_SHA256 :: string

record 'd codec =
  cd_header :: "rendererCheckpoint \<Rightarrow> int \<times> string"
  cd_marshal :: "rendererRecoveryBundle \<Rightarrow> 'd"
  cd_unmarshal :: "'d \<Rightarrow> (string, rendererRecoveryBundle) result"
  cd_size :: "'d \<Rightarrow> int"
  cd_sum :: "'d \<Rightarrow> string"

definition rendererCheckpointVersion :: int where "rendererCheckpointVersion = 2"
definition rendererCheckpointMaxHeaderBytes :: int where "rendererCheckpointMaxHeaderBytes = 64 * 2 ^ 10"
definition rendererCheckpointMaxBytes :: int where "rendererCheckpointMaxBytes = 16 * 2 ^ 20"
definition rendererRecoveryVersion :: int where "rendererRecoveryVersion = 1"
definition MaxHandoffRecoveryBytesPerTerminal :: int where "MaxHandoffRecoveryBytesPerTerminal = 24 * 2 ^ 20"
definition MaxHandoffTotalRecoveryBytes :: int where "MaxHandoffTotalRecoveryBytes = 64 * 2 ^ 20"
definition rendererCheckpointAggregateBytes :: int where "rendererCheckpointAggregateBytes = 64 * 2 ^ 20"

definition currentRendererCheckpointPolicy :: rendererCheckpointPolicy where
  "currentRendererCheckpointPolicy = \<lparr>cp_WidthPolicy = ''ghostty-default'', cp_ScrollbackLines = 10000\<rparr>"

section \<open>Checkpoints\<close>

text \<open>A validation returns its error, or \<open>None\<close>.\<close>

definition ValidateColors :: "TerminalColors option \<Rightarrow> string option" where
  "ValidateColors colors =
     (case colors of
        None \<Rightarrow> None
      | Some c \<Rightarrow>
          if (length (co_Palette c) \<noteq> 0 \<and> length (co_Palette c) \<noteq> 256) \<or> co_Theme c < 0 \<or> co_Theme c > 2
          then Some ''invalid terminal color policy''
          else if list_ex (\<lambda>value. \<exists>v. value = Some v \<and> v > 0xffffff) [co_Foreground c, co_Background c, co_Cursor c]
          then Some ''terminal color exceeds 24-bit RGB''
          else if list_ex (\<lambda>value. value > 0xffffff) (co_Palette c)
          then Some ''terminal palette color exceeds 24-bit RGB''
          else None)"

definition validateBounds :: "rendererCheckpoint \<Rightarrow> string option" where
  "validateBounds c =
     (let state = ck_State c
      in if ck_Version c \<noteq> rendererCheckpointVersion \<or> ck_BuildID c = [] \<or> length (ck_BuildID c) > 256
            \<or> ck_TerminalID c = [] \<or> length (ck_TerminalID c) > 256 \<or> ck_RendererGeneration c = 0
            \<or> ck_AppliedEventID c \<ge> rendererInputEventBit
         then Some ''renderer checkpoint identity or version is invalid''
         else case ValidateColors (cs_Colors state) of
                Some err \<Rightarrow> Some err
              | None \<Rightarrow>
                  if \<not> rendererValidPixels (cs_CellWidth state) (cs_CellHeight state)
                  then Some ''renderer checkpoint pixel geometry is invalid''
                  else if cs_Data state = [] \<or> int (length (cs_Data state)) > rendererCheckpointMaxBytes
                  then Some ''renderer checkpoint size is out of bounds''
                  else if \<not> rendererValidGeometry (cs_Cols state) (cs_Rows state)
                  then Some ''renderer checkpoint geometry is invalid''
                  else if cs_ViewportOffset state < 0
                    \<or> cs_ViewportOffset state > cp_ScrollbackLines currentRendererCheckpointPolicy + cs_Rows state
                  then Some ''renderer checkpoint viewport is invalid''
                  else None)"

text \<open>The header is the checkpoint without its payload and digest.\<close>

definition checkpoint_digest :: "'d codec \<Rightarrow> rendererCheckpoint \<Rightarrow> (string, string) result" where
  "checkpoint_digest cd c =
     (case cd_header cd (c\<lparr>ck_SHA256 := []\<rparr>) of
        (metadata, hash) \<Rightarrow>
          if metadata > rendererCheckpointMaxHeaderBytes then Inl ''renderer checkpoint metadata exceeds its bound''
          else Inr hash)"

definition newRendererCheckpoint ::
  "'d codec \<Rightarrow> string \<Rightarrow> string \<Rightarrow> u64 \<Rightarrow> u64 \<Rightarrow> bool \<Rightarrow> terminalCheckpointState \<Rightarrow> (string, rendererCheckpoint) result" where
  "newRendererCheckpoint cd build terminal generation applied partial state =
     (let checkpoint = \<lparr>ck_Version = rendererCheckpointVersion, ck_BuildID = build, ck_TerminalID = terminal,
            ck_RendererGeneration = generation, ck_AppliedEventID = applied, ck_Partial = partial,
            ck_Policy = currentRendererCheckpointPolicy, ck_State = state, ck_SHA256 = []\<rparr>
      in case validateBounds checkpoint of
           Some err \<Rightarrow> Inl err
         | None \<Rightarrow>
             (case checkpoint_digest cd checkpoint of
                Inl err \<Rightarrow> Inl err
              | Inr digest \<Rightarrow> Inr (checkpoint\<lparr>ck_SHA256 := digest\<rparr>)))"

definition validateIntegrity :: "'d codec \<Rightarrow> rendererCheckpoint \<Rightarrow> string \<Rightarrow> string option" where
  "validateIntegrity cd c terminal =
     (case validateBounds c of
        Some err \<Rightarrow> Some err
      | None \<Rightarrow>
          if ck_TerminalID c \<noteq> terminal then Some ''renderer checkpoint belongs to another terminal''
          else case checkpoint_digest cd c of
                 Inl err \<Rightarrow> Some err
               | Inr digest \<Rightarrow> if digest \<noteq> ck_SHA256 c then Some ''renderer checkpoint integrity mismatch'' else None)"

definition errRendererCheckpointBuild :: string where
  "errRendererCheckpointBuild = ''renderer checkpoint native build mismatch''"

definition checkpoint_validate :: "'d codec \<Rightarrow> rendererCheckpoint \<Rightarrow> string \<Rightarrow> string \<Rightarrow> string option" where
  "checkpoint_validate cd c build terminal =
     (case validateIntegrity cd c terminal of
        Some err \<Rightarrow> Some err
      | None \<Rightarrow>
          if ck_BuildID c \<noteq> build then Some errRendererCheckpointBuild
          else if ck_Policy c \<noteq> currentRendererCheckpointPolicy then Some ''renderer checkpoint policy mismatch''
          else None)"

section \<open>Quota\<close>

text \<open>An owner is identified by a number; a missing entry of the map reads as 0.\<close>

record rendererCheckpointQuota =
  q_limit :: int
  q_used :: int
  q_owners :: "(nat \<times> int) list"

definition newRendererCheckpointQuota :: "int \<Rightarrow> rendererCheckpointQuota" where
  "newRendererCheckpointQuota limit = \<lparr>q_limit = limit, q_used = 0, q_owners = []\<rparr>"

definition owned :: "rendererCheckpointQuota \<Rightarrow> nat \<Rightarrow> int" where
  "owned q owner = (case map_of (q_owners q) owner of Some bytes \<Rightarrow> bytes | None \<Rightarrow> 0)"

definition reserve :: "rendererCheckpointQuota \<Rightarrow> nat \<Rightarrow> int \<Rightarrow> rendererCheckpointQuota \<times> bool" where
  "reserve q owner bytes =
     (let previous = owned q owner
      in if bytes \<le> 0 \<or> bytes > q_limit q - (q_used q - previous) then (q, False)
         else (q\<lparr>q_used := q_used q + (bytes - previous), q_owners := AList.update owner bytes (q_owners q)\<rparr>, True))"

definition release :: "rendererCheckpointQuota \<Rightarrow> nat \<Rightarrow> rendererCheckpointQuota" where
  "release q owner = q\<lparr>q_used := q_used q - owned q owner, q_owners := AList.delete owner (q_owners q)\<rparr>"

section \<open>Bundles\<close>

definition bundle_digest :: "'d codec \<Rightarrow> rendererRecoveryBundle \<Rightarrow> (string, string) result" where
  "bundle_digest cd b =
     (let data = cd_marshal cd (b\<lparr>rb_SHA256 := []\<rparr>)
      in if cd_size cd data > MaxHandoffRecoveryBytesPerTerminal
         then Inl ''renderer recovery bundle exceeds handoff size bound'' else Inr (cd_sum cd data))"

definition encodeRendererRecovery ::
  "'d codec \<Rightarrow> string \<Rightarrow> rendererCheckpoint option \<Rightarrow> rendererJournalSnapshot \<Rightarrow> TerminalColors option \<Rightarrow> (string, 'd) result" where
  "encodeRendererRecovery cd terminalID checkpoint journal colors =
     (let bundle = \<lparr>rb_Version = rendererRecoveryVersion, rb_TerminalID = terminalID, rb_Checkpoint = checkpoint,
            rb_Colors = colors, rb_Journal = journal, rb_SHA256 = []\<rparr>
      in case ValidateColors colors of
           Some err \<Rightarrow> Inl err
         | None \<Rightarrow>
             (case bundle_digest cd bundle of
                Inl err \<Rightarrow> Inl err
              | Inr digest \<Rightarrow>
                  let data = cd_marshal cd (bundle\<lparr>rb_SHA256 := digest\<rparr>)
                  in if cd_size cd data > MaxHandoffRecoveryBytesPerTerminal
                     then Inl ''renderer recovery bundle exceeds handoff size bound'' else Inr data))"

text \<open>The loop of \<^verbatim>\<open>validateRecoveryJournal\<close>: \<open>gapAllowed\<close> holds at the first event of a partial journal.\<close>

fun recovery_loop ::
  "u64 \<Rightarrow> bool \<Rightarrow> rendererJournalEvent list \<Rightarrow> int \<Rightarrow> u64 \<Rightarrow> (string, int \<times> u64) result" where
  "recovery_loop lastID gapAllowed [] bytes previous = Inr (bytes, previous)"
| "recovery_loop lastID gapAllowed (event # events) bytes previous =
     (if ev_ID event = 0 \<or> ev_ID event > lastID \<or> ev_ID event \<le> previous \<or> first_id event > ev_ID event
         \<or> (ev_Type event \<noteq> output_type \<and> ev_Type event \<noteq> resize_type)
         \<or> (ev_Type event = output_type \<and> first_id event \<noteq> ev_ID event)
      then Inl ''renderer recovery journal event is invalid''
      else if \<not> gapAllowed \<and> first_id event > previous + 1
      then Inl ''renderer recovery journal has an interior gap''
      else if ev_Type event = resize_type
        \<and> (\<not> rendererValidGeometry (ev_Cols event) (ev_Rows event) \<or> \<not> rendererValidPixels (ev_CellWidth event) (ev_CellHeight event))
      then Inl ''renderer recovery journal geometry is invalid''
      else if bytes + rendererJournalEventBytes event > defaultRendererJournalBytes
      then Inl ''renderer recovery journal exceeds retention bound''
      else recovery_loop lastID False events (bytes + rendererJournalEventBytes event) (ev_ID event))"

definition validateRecoveryJournal :: "rendererJournalSnapshot \<Rightarrow> string option" where
  "validateRecoveryJournal journal =
     (if \<not> rendererValidPixels (sn_CellWidth journal) (sn_CellHeight journal)
      then Some ''renderer recovery pixel geometry is invalid''
      else if sn_LastID journal \<ge> rendererInputEventBit \<or> \<not> rendererValidGeometry (sn_Cols journal) (sn_Rows journal)
        \<or> sn_Bytes journal < 0 \<or> sn_Bytes journal > defaultRendererJournalBytes \<or> int (length (sn_Events journal)) > 65536
      then Some ''renderer recovery journal bounds are invalid''
      else case recovery_loop (sn_LastID journal) (sn_Partial journal) (sn_Events journal) 0 0 of
             Inl err \<Rightarrow> Some err
           | Inr (bytes, previous) \<Rightarrow>
               if bytes \<noteq> sn_Bytes journal \<or> (sn_Events journal \<noteq> [] \<and> previous \<noteq> sn_LastID journal)
                  \<or> (sn_Events journal = [] \<and> sn_LastID journal \<noteq> 0 \<and> \<not> sn_Partial journal)
               then Some ''renderer recovery journal watermark or accounting is invalid'' else None)"

text \<open>\<open>build\<close> is the identity of the native library of this process.\<close>

definition keep_checkpoint ::
  "'d codec \<Rightarrow> string \<Rightarrow> string \<Rightarrow> rendererRecoveryBundle \<Rightarrow> (string, rendererRecoveryBundle) result" where
  "keep_checkpoint cd build terminalID bundle =
     (case rb_Checkpoint bundle of
        None \<Rightarrow> Inr bundle
      | Some checkpoint \<Rightarrow>
          (case validateIntegrity cd checkpoint terminalID of
             Some err \<Rightarrow> Inl err
           | None \<Rightarrow>
               if \<not> snd (tailAfter (rb_Journal bundle) (ck_AppliedEventID checkpoint))
               then Inl ''renderer recovery checkpoint tail is incomplete''
               else
                 let bundle1 = (if rb_Colors bundle = None then bundle\<lparr>rb_Colors := cs_Colors (ck_State checkpoint)\<rparr> else bundle)
                 in Inr (if ck_BuildID checkpoint \<noteq> build \<or> ck_Policy checkpoint \<noteq> currentRendererCheckpointPolicy
                         then bundle1\<lparr>rb_Checkpoint := None\<rparr> else bundle1)))"

definition decodeRendererRecovery ::
  "'d codec \<Rightarrow> string \<Rightarrow> string \<Rightarrow> 'd \<Rightarrow> (string, rendererRecoveryBundle) result" where
  "decodeRendererRecovery cd build terminalID data =
     (if cd_size cd data = 0 \<or> cd_size cd data > MaxHandoffRecoveryBytesPerTerminal
      then Inl ''renderer recovery bundle has invalid size''
      else case cd_unmarshal cd data of
             Inl err \<Rightarrow> Inl err
           | Inr bundle \<Rightarrow>
               if rb_Version bundle \<noteq> rendererRecoveryVersion \<or> rb_TerminalID bundle \<noteq> terminalID
               then Inl ''renderer recovery bundle identity or version mismatch''
               else case bundle_digest cd bundle of
                      Inl err \<Rightarrow> Inl err
                    | Inr digest \<Rightarrow>
                        if digest \<noteq> rb_SHA256 bundle then Inl ''renderer recovery bundle integrity mismatch''
                        else case validateRecoveryJournal (rb_Journal bundle) of
                               Some err \<Rightarrow> Inl err
                             | None \<Rightarrow>
                                 (case ValidateColors (rb_Colors bundle) of
                                    Some err \<Rightarrow> Inl err
                                  | None \<Rightarrow> keep_checkpoint cd build terminalID bundle))"

definition journalFromRendererRecovery :: "rendererJournalSnapshot \<Rightarrow> rendererJournal" where
  "journalFromRendererRecovery snapshot =
     (newRendererJournal defaultRendererJournalBytes)\<lparr>j_nextID := sn_LastID snapshot, j_cols := sn_Cols snapshot,
        j_rows := sn_Rows snapshot, j_partial := sn_Partial snapshot, j_bytes := sn_Bytes snapshot,
        j_cellWidth := sn_CellWidth snapshot, j_cellHeight := sn_CellHeight snapshot, j_events := sn_Events snapshot\<rparr>"

section \<open>Giving a terminal away and adopting it\<close>

text \<open>
  \<^verbatim>\<open>handoffRecovery\<close> of the supervisor, which has \<open>checkpoint\<close> and \<open>colors\<close>; no data when neither
  encoding succeeds.
\<close>

definition handoffRecovery ::
  "'d codec \<Rightarrow> string \<Rightarrow> rendererCheckpoint option \<Rightarrow> TerminalColors option \<Rightarrow> rendererJournalSnapshot \<Rightarrow> bool \<Rightarrow> 'd option" where
  "handoffRecovery cd terminalID checkpoint colors journal includeCheckpoint =
     (let usable = (case checkpoint of
            Some c \<Rightarrow> if includeCheckpoint \<and> snd (tailAfter journal (ck_AppliedEventID c)) then Some c else None
          | None \<Rightarrow> None)
      in case encodeRendererRecovery cd terminalID usable journal colors of
           Inr data \<Rightarrow> Some data
         | Inl err \<Rightarrow>
             (case encodeRendererRecovery cd terminalID None journal colors of Inr data \<Rightarrow> Some data | Inl err \<Rightarrow> None))"

definition rendererJournalReplay :: "rendererJournalSnapshot \<Rightarrow> bytes" where
  "rendererJournalReplay snapshot = concat (map (\<lambda>event. if ev_Type event = output_type then ev_Data event else []) (sn_Events snapshot))"

text \<open>The bundle that \<^verbatim>\<open>BeginHandoff\<close> retains, within the quota of all terminals.\<close>

definition give_away ::
  "'d codec \<Rightarrow> string \<Rightarrow> rendererCheckpoint option \<Rightarrow> TerminalColors option \<Rightarrow> rendererJournalSnapshot \<Rightarrow> nat \<Rightarrow> rendererCheckpointQuota
     \<Rightarrow> rendererCheckpointQuota \<times> 'd option" where
  "give_away cd terminalID checkpoint colors journal t quota =
     (let fits = (\<lambda>recovery q. case recovery of None \<Rightarrow> (q, True) | Some data \<Rightarrow>
            if cd_size cd data > 0 then reserve q t (cd_size cd data) else (q, True));
          recovery = handoffRecovery cd terminalID checkpoint colors journal True
      in case fits recovery quota of
           (q, True) \<Rightarrow> (q, recovery)
         | (q, False) \<Rightarrow>
             let smaller = handoffRecovery cd terminalID checkpoint colors journal False
             in (case fits smaller q of (q1, True) \<Rightarrow> (q1, smaller) | (q1, False) \<Rightarrow> (q1, None)))"

definition adopt ::
  "'d codec \<Rightarrow> string \<Rightarrow> string \<Rightarrow> int \<Rightarrow> int \<Rightarrow> bytes \<Rightarrow> bool \<Rightarrow> 'd option
     \<Rightarrow> (string, rendererJournal \<times> rendererCheckpoint option \<times> TerminalColors option) result" where
  "adopt cd build targetKey cols rows replay replayPartial recovery =
     (if cols \<le> 0 \<or> rows \<le> 0 then Inl ''adopt isolated terminal with invalid runtime''
      else
        let resized = fst (AppendResize (newRendererJournal defaultRendererJournalBytes) cols rows);
            replayed = (if replay = [] then resized else fst (AppendOutput resized replay));
            fallback = Inr (replayed\<lparr>j_partial := replayPartial\<rparr>, None, None)
        in case recovery of
             None \<Rightarrow> fallback
           | Some data \<Rightarrow>
               if cd_size cd data = 0 then fallback
               else case decodeRendererRecovery cd build targetKey data of
                      Inl err \<Rightarrow> Inl (''adopt renderer recovery: '' @ err)
                    | Inr bundle \<Rightarrow> Inr (journalFromRendererRecovery (rb_Journal bundle), rb_Checkpoint bundle, rb_Colors bundle))"

section \<open>Journals of a terminal validate\<close>

text \<open>What the terminal sends to its journal: a geometry is checked first (\<^verbatim>\<open>resizePixels\<close>).\<close>

fun op_valid :: "journalOp \<Rightarrow> bool" where
  "op_valid (JOutput data) \<longleftrightarrow> True"
| "op_valid (JResize cols rows width height) \<longleftrightarrow> rendererValidGeometry cols rows \<and> rendererValidPixels width height"
| "op_valid JReset \<longleftrightarrow> True"

definition resize_valid :: "rendererJournalEvent \<Rightarrow> bool" where
  "resize_valid e \<longleftrightarrow> (ev_Type e = resize_type \<longrightarrow>
     rendererValidGeometry (ev_Cols e) (ev_Rows e) \<and> rendererValidPixels (ev_CellWidth e) (ev_CellHeight e))"

definition journal_valid :: "rendererJournal \<Rightarrow> bool" where
  "journal_valid j \<longleftrightarrow> j_maxBytes j = defaultRendererJournalBytes \<and> rendererValidGeometry (j_cols j) (j_rows j)
     \<and> rendererValidPixels (j_cellWidth j) (j_cellHeight j) \<and> (\<forall>e \<in> set (j_events j). resize_valid e)"

lemma trimLocked_subset: "set (j_events (trimLocked j)) \<subseteq> set (j_events j)"
proof -
  have "set (fst (trim_loop m es b p)) \<subseteq> set es" for m es b p by (induction m es b p rule: trim_loop.induct) auto
  then show ?thesis by (auto simp: trimLocked_def split: prod.splits) (metis fst_conv subsetD)
qed

lemma journal_valid_trim: "journal_valid j \<Longrightarrow> journal_valid (trimLocked j)"
  using trimLocked_subset [of j] by (auto simp: journal_valid_def)

lemma journal_valid_output: "journal_valid j \<Longrightarrow> journal_valid (fst (AppendOutput j d))"
  unfolding AppendOutput_def Let_def fst_conv
  by (rule journal_valid_trim) (auto simp: journal_valid_def resize_valid_def)

lemma journal_valid_resize:
  assumes "j_maxBytes j = defaultRendererJournalBytes" "\<forall>e \<in> set (j_events j). resize_valid e"
    "rendererValidPixels (j_cellWidth j) (j_cellHeight j)" "rendererValidGeometry c r" "rendererValidPixels w h"
  shows "journal_valid (fst (AppendResizePixels j c r w h))"
proof -
  define cw ch where "cw = (if w > 0 \<and> h > 0 then w else j_cellWidth j)" and "ch = (if w > 0 \<and> h > 0 then h else j_cellHeight j)"
  have px: "rendererValidPixels cw ch" using assms(3,5) by (simp add: cw_def ch_def)
  have pair: "(if w > 0 \<and> h > 0 then (w, h) else (j_cellWidth j, j_cellHeight j)) = (cw, ch)" by (simp add: cw_def ch_def)
  show ?thesis
  proof (cases "j_events j \<noteq> [] \<and> ev_Type (last (j_events j)) = resize_type")
    case True
    show ?thesis unfolding AppendResizePixels_def pair Let_def prod.case if_P [OF True] fst_conv
      by (rule journal_valid_trim) (use assms px in \<open>auto simp: journal_valid_def resize_valid_def dest: in_set_butlastD\<close>)
  next
    case False
    show ?thesis unfolding AppendResizePixels_def pair Let_def prod.case if_not_P [OF False] fst_conv
      by (rule journal_valid_trim) (use assms px in \<open>auto simp: journal_valid_def resize_valid_def\<close>)
  qed
qed

lemma journal_valid_reset: "journal_valid j \<Longrightarrow> journal_valid (Reset j)"
  by (simp add: Reset_def journal_valid_def)

lemma journal_valid_op:
  assumes "journal_valid (jr_journal r)" "op_valid op"
  shows "journal_valid (jr_journal (journal_op r op))"
proof (cases op)
  case (JResize c w x y)
  have "journal_valid (fst (AppendResizePixels (jr_journal r) c w x y))"
    using assms JResize by (intro journal_valid_resize) (simp_all add: journal_valid_def)
  then show ?thesis by (simp add: JResize journal_append_def)
qed (use assms in \<open>simp_all add: journal_append_def journal_valid_output journal_valid_reset\<close>)

section \<open>The loop of the validation\<close>

lemma recovery_loop_complete:
  assumes "contig a es b" "\<forall>e \<in> set es. event_ok e \<and> resize_valid e" "b \<le> unat lastID" "unat previous \<le> a"
    "gapAllowed \<or> unat previous = a" "n + events_bytes es \<le> defaultRendererJournalBytes" "unat lastID < 2 ^ 63"
  shows "\<exists>p. recovery_loop lastID gapAllowed es n previous = Inr (n + events_bytes es, p) \<and> (es \<noteq> [] \<longrightarrow> unat p = b)"
  using assms
proof (induction es arbitrary: a gapAllowed n previous)
  case (Cons e es)
  have e: "unat (first_id e) = Suc a" "a < unat (ev_ID e)" "contig (unat (ev_ID e)) es b" "event_ok e" "resize_valid e"
    using Cons.prems(1,2) by auto
  have le: "unat (ev_ID e) \<le> b" using contig_le [OF e(3)] .
  have out: "ev_Type e = output_type \<Longrightarrow> first_id e = ev_ID e" using e(4) by (rule first_id_output)
  have types: "ev_Type e = output_type \<or> ev_Type e = resize_type" using e(4) by (auto simp: event_ok_def)
  have ids: "ev_ID e \<noteq> 0" "\<not> ev_ID e > lastID" "\<not> ev_ID e \<le> previous" "\<not> first_id e > ev_ID e"
    using e(1,2) le Cons.prems(3,4) by (auto simp: word_le_nat_alt word_less_nat_alt)
  have prev: "previous \<noteq> - 1" using Cons.prems(4,7) e(2) le Cons.prems(3) unat_max_u64 by auto
  have gap: "\<not> (\<not> gapAllowed \<and> first_id e > previous + 1)"
    using Cons.prems(5) e(1) unat_plus_one [OF prev] by (auto simp: word_less_nat_alt)
  have bytes: "n + rendererJournalEventBytes e \<le> defaultRendererJournalBytes"
    using Cons.prems(6) events_bytes_nonneg [of es] unfolding events_bytes_simps by linarith
  obtain p where p: "recovery_loop lastID False es (n + rendererJournalEventBytes e) (ev_ID e)
      = Inr (n + rendererJournalEventBytes e + events_bytes es, p)" "es \<noteq> [] \<longrightarrow> unat p = b"
    using Cons.IH [OF e(3) _ Cons.prems(3), of "ev_ID e" False "n + rendererJournalEventBytes e"] Cons.prems(2,6,7) by auto
  have "recovery_loop lastID gapAllowed (e # es) n previous
      = recovery_loop lastID False es (n + rendererJournalEventBytes e) (ev_ID e)"
    using ids gap types out bytes e(5) by (auto simp: resize_valid_def)
  moreover have "unat p = b" using p e(3) by (cases es) auto
  ultimately show ?case using p by (auto simp: add.assoc)
qed simp

lemma journal_validates:
  assumes "journal_inv j" "journal_valid j" "j_nextID j < rendererInputEventBit" "length (j_events j) \<le> 65536"
  shows "validateRecoveryJournal (Snapshot j) = None"
proof -
  obtain a where a: "contig a (j_events j) (unat (j_nextID j))" "j_partial j \<or> a = 0"
    using assms(1) by (auto simp: journal_inv_def)
  have n: "unat (j_nextID j) < 2 ^ 63" using assms(3) by (simp add: word_less_nat_alt rendererInputEventBit_def)
  have bytes: "j_bytes j = events_bytes (j_events j)" "j_bytes j \<le> defaultRendererJournalBytes" "\<not> j_bytes j < 0"
    using assms(1,2) events_bytes_nonneg [of "j_events j"] by (auto simp: journal_inv_def journal_valid_def not_less)
  have ok: "\<forall>e \<in> set (j_events j). event_ok e \<and> resize_valid e"
    using assms(1,2) by (auto simp: journal_inv_def journal_valid_def list_all_iff)
  obtain p where p: "recovery_loop (j_nextID j) (j_partial j) (j_events j) 0 0 = Inr (j_bytes j, p)"
      "j_events j \<noteq> [] \<longrightarrow> p = j_nextID j"
    using recovery_loop_complete [OF a(1) ok, of "j_nextID j" 0 "j_partial j" 0] a(2) bytes n by (auto simp: word_unat_eq_iff)
  have "j_events j = [] \<Longrightarrow> j_nextID j \<noteq> 0 \<Longrightarrow> j_partial j" using a by (auto simp: unat_eq_zero)
  then show ?thesis
    using p assms(2-4) bytes a(2) by (auto simp: validateRecoveryJournal_def Snapshot_def journal_valid_def not_le)
qed

lemma restored_snapshot: "j_maxBytes j = defaultRendererJournalBytes \<Longrightarrow> journalFromRendererRecovery (Snapshot j) = j"
  by (simp add: journalFromRendererRecovery_def Snapshot_def newRendererJournal_def)

end
