(* ===== verification/RecoveryProperties.thy ===== *)
theory RecoveryProperties
  imports RendererRecovery
begin

text \<open>
  The properties of handing a terminal over: what is adopted is what was given away
  (\<open>handoff_restores_terminal\<close>), and only well-formed bundles are adopted (\<open>recovery_decode_safe\<close>).
\<close>

section \<open>The journal of a terminal\<close>

definition terminal_journal :: "journalOp list \<Rightarrow> rendererJournal" where
  "terminal_journal ops = jr_journal (journal_run defaultRendererJournalBytes (JResize 80 24 0 0 # ops))"





section \<open>Encoding and decoding\<close>









section \<open>Falling back to the replay\<close>




section \<open>What the validation accepts\<close>

lemma kept_checkpoint:
  assumes "keep_checkpoint cd build terminalID b0 = Inr b" "rb_Checkpoint b = Some c"
  shows "checkpoint_validate cd c build terminalID = None \<and> snd (tailAfter (rb_Journal b0) (ck_AppliedEventID c))"
proof (cases "rb_Checkpoint b0")
  case None
  then show ?thesis using assms by (simp add: keep_checkpoint_def)
next
  case (Some k)
  have "validateIntegrity cd k terminalID = None" "snd (tailAfter (rb_Journal b0) (ck_AppliedEventID k))"
    "c = k \<and> ck_BuildID k = build \<and> ck_Policy k = currentRendererCheckpointPolicy"
    using assms Some by (auto simp: keep_checkpoint_def Let_def split: option.splits if_splits)
  then show ?thesis by (simp add: checkpoint_validate_def)
qed

definition recovered_event :: "u64 \<Rightarrow> rendererJournalEvent \<Rightarrow> bool" where
  "recovered_event lastID e \<longleftrightarrow> 0 < ev_ID e \<and> ev_ID e \<le> lastID \<and> first_id e \<le> ev_ID e \<and> resize_valid e
     \<and> (ev_Type e = output_type \<and> first_id e = ev_ID e \<or> ev_Type e = resize_type)"

lemma recovery_loop_sound:
  assumes "recovery_loop lastID gapAllowed es n previous = Inr (m, p)"
  shows "m = n + events_bytes es \<and> (\<forall>e \<in> set es. recovered_event lastID e \<and> previous < ev_ID e)
    \<and> sorted_wrt (<) (map ev_ID es) \<and> p = (if es = [] then previous else ev_ID (last es))
    \<and> (\<forall>k. k \<le> p \<and> (if gapAllowed then es \<noteq> [] \<and> first_id (hd es) \<le> k else previous < k) \<longrightarrow>
          (\<exists>e \<in> set es. first_id e \<le> k \<and> k \<le> ev_ID e))"
  using assms
proof (induction es arbitrary: gapAllowed n previous)
  case (Cons e es)
  have c: "ev_ID e \<noteq> 0" "ev_ID e \<le> lastID" "previous < ev_ID e" "first_id e \<le> ev_ID e"
    "ev_Type e = output_type \<and> first_id e = ev_ID e \<or> ev_Type e = resize_type" "resize_valid e"
    "gapAllowed \<or> first_id e \<le> previous + 1"
    "recovery_loop lastID False es (n + rendererJournalEventBytes e) (ev_ID e) = Inr (m, p)"
    using Cons.prems by (auto simp: resize_valid_def not_le not_less split: if_splits)
  note ih = Cons.IH [OF c(8)]
  have start: "first_id e \<le> k" if "if gapAllowed then first_id e \<le> k else previous < k" for k
    using that c(7) plus_one_le_iff [OF less_not_max [OF c(3)], of k] order_trans by (cases gapAllowed) auto
  have "\<exists>x \<in> set (e # es). first_id x \<le> k \<and> k \<le> ev_ID x" if "k \<le> p" "if gapAllowed then first_id e \<le> k else previous < k" for k
  proof (cases "k \<le> ev_ID e")
    case True
    then show ?thesis using start [OF that(2)] by auto
  next
    case False
    then show ?thesis using ih that(1) by (auto simp: not_le)
  qed
  moreover have "0 < ev_ID e" using c(1) by (simp add: word_neq_0_conv)
  ultimately show ?case using ih c(2-6) by (auto simp: recovered_event_def)
qed (auto simp: not_less)

section \<open>A concrete handover\<close>

text \<open>A codec that keeps a bundle as it is, a checkpoint, and the journal of a terminal that printed two bytes.\<close>

definition plain_codec :: "rendererRecoveryBundle codec" where
  "plain_codec = \<lparr>cd_header = (\<lambda>c. (100, ''h'')), cd_marshal = (\<lambda>b. b), cd_unmarshal = Inr, cd_size = (\<lambda>b. 1000), cd_sum = (\<lambda>b. ''s'')\<rparr>"

definition plain_metadata :: TerminalMetadata where
  "plain_metadata = \<lparr>tm_PromptIdleSinceUnixMilli = 0, tm_ActivityStale = False, tm_Title = [], tm_WorkingDirectory = [],
     tm_BellCount = 0, tm_NotificationCount = 0, tm_NotificationTitle = [], tm_NotificationBody = [], tm_ProgressState = 0,
     tm_Progress = 0, tm_CursorAtPrompt = False\<rparr>"

definition plain_state :: terminalCheckpointState where
  "plain_state = \<lparr>cs_Boundary = \<lparr>vb_State = 0, vb_UTF8 = 0, vb_OSC = False\<rparr>, cs_CellWidth = 0, cs_CellHeight = 0, cs_Data = [7],
     cs_Generation = 1, cs_Cols = 80, cs_Rows = 24, cs_ViewportOffset = 0, cs_Focused = True, cs_Metadata = plain_metadata, cs_Colors = None\<rparr>"

definition plain_checkpoint :: rendererCheckpoint where
  "plain_checkpoint = \<lparr>ck_Version = 2, ck_BuildID = ''b'', ck_TerminalID = ''t'', ck_RendererGeneration = 1, ck_AppliedEventID = 2,
     ck_Partial = False, ck_Policy = currentRendererCheckpointPolicy, ck_State = plain_state, ck_SHA256 = ''h''\<rparr>"

definition plain_ops :: "journalOp list" where
  "plain_ops = [JOutput [65], JOutput [66]]"




definition plain_given :: "rendererCheckpointQuota \<times> rendererRecoveryBundle option" where
  "plain_given = give_away plain_codec ''t'' (Some plain_checkpoint) None (Snapshot (terminal_journal plain_ops)) 0
     (newRendererCheckpointQuota MaxHandoffTotalRecoveryBytes)"

lemma plain_given_some: "\<exists>data. snd plain_given = Some data \<and> rb_Checkpoint data = Some plain_checkpoint"
proof -
  have "map_option rb_Checkpoint (snd plain_given) = Some (Some plain_checkpoint)" by code_simp
  then show ?thesis by auto
qed

text \<open>
  A terminal that printed many short pieces keeps more than 65536 events within the journal's
  byte budget. Its bundle is given away, and the adopting daemon refuses it, although nothing is
  wrong with it.
\<close>

lemma short_outputs:
  assumes "int n \<le> defaultRendererJournalBytes - 64"
  shows "length (j_events (terminal_journal (replicate n (JOutput [x])))) = Suc n
    \<and> j_bytes (terminal_journal (replicate n (JOutput [x]))) = 64 + int n
    \<and> j_maxBytes (terminal_journal (replicate n (JOutput [x]))) = defaultRendererJournalBytes"
  using assms
proof (induction n)
  case 0
  have "length (j_events (terminal_journal [])) = 1 \<and> j_bytes (terminal_journal []) = 64 \<and> j_maxBytes (terminal_journal []) = 1048576"
    by code_simp
  then show ?case by (simp add: defaultRendererJournalBytes_def)
next
  case (Suc n)
  let ?j = "terminal_journal (replicate n (JOutput [x]))"
  have ih: "length (j_events ?j) = Suc n" "j_bytes ?j = 64 + int n" "j_maxBytes ?j = defaultRendererJournalBytes"
    using Suc by simp_all
  have "terminal_journal (replicate (Suc n) (JOutput [x])) = fst (AppendOutput ?j [x])"
    by (simp only: terminal_journal_def journal_run_def replicate_append_same [symmetric] foldl_append append_Cons [symmetric]
        replicate_Suc foldl_Cons foldl_Nil journal_op.simps journal_append_def journalRun.simps)
  moreover have "j_events ?j @ [e] = y # ys \<Longrightarrow> trim_loop m (y # ys) b q = (if b > m then trim_loop m ys (b - rendererJournalEventBytes y) True else (y # ys, b, q))"
    for e y ys m b q by simp
  ultimately show ?case using ih Suc.prems
    by (cases "j_events ?j") (simp_all add: AppendOutput_def trimLocked_def rendererJournalEventBytes_def Let_def)
qed

lemma many_events_refused:
  "validateRecoveryJournal (Snapshot (terminal_journal (replicate 65536 (JOutput [x])))) \<noteq> None"
proof -
  have "length (j_events (terminal_journal (replicate 65536 (JOutput [x])))) = Suc 65536"
    using short_outputs [of 65536 x] by (simp add: defaultRendererJournalBytes_def)
  then have "length (sn_Events (Snapshot (terminal_journal (replicate 65536 (JOutput [x]))))) > 65536"
    by (simp add: Snapshot_def)
  then show ?thesis by (simp add: validateRecoveryJournal_def)
qed

section \<open>Properties\<close>



text \<open>
  Property C39: only well-formed recovery data is adopted. Whatever bytes arrive, if they decode for a
  terminal then the colors are valid and the journal is: its byte count is exact and bounded, its
  identifiers increase up to the last one and stay below the bit that marks input events, every
  geometry is valid, and no identifier is missing between the first retained one and the last (or
  from the very first one, when the journal is not partial). A checkpoint that is kept has passed
  its digest, belongs to the terminal and this build, and no event after it is missing.
\<close>

theorem recovery_decode_safe:
  assumes "decodeRendererRecovery cd build terminalID data = Inr b" "s = rb_Journal b"
  shows "rb_TerminalID b = terminalID \<and> ValidateColors (rb_Colors b) = None
    \<and> sn_Bytes s = events_bytes (sn_Events s) \<and> sn_Bytes s \<le> defaultRendererJournalBytes \<and> sn_LastID s < rendererInputEventBit
    \<and> rendererValidGeometry (sn_Cols s) (sn_Rows s)
    \<and> sorted_wrt (<) (map ev_ID (sn_Events s)) \<and> (\<forall>e \<in> set (sn_Events s). recovered_event (sn_LastID s) e)
    \<and> (\<forall>k. 0 < k \<and> k \<le> sn_LastID s \<and> (\<not> sn_Partial s \<or> sn_Events s \<noteq> [] \<and> first_id (hd (sn_Events s)) \<le> k) \<longrightarrow>
          (\<exists>e \<in> set (sn_Events s). first_id e \<le> k \<and> k \<le> ev_ID e))
    \<and> (\<forall>c. rb_Checkpoint b = Some c \<longrightarrow> checkpoint_validate cd c build terminalID = None \<and> snd (tailAfter s (ck_AppliedEventID c)))"
proof -
  obtain b0 where b0: "rb_TerminalID b0 = terminalID" "validateRecoveryJournal (rb_Journal b0) = None" "ValidateColors (rb_Colors b0) = None"
      "keep_checkpoint cd build terminalID b0 = Inr b"
    using assms(1) by (auto simp: decodeRendererRecovery_def split: if_splits sum.splits option.splits)
  have colors: "ValidateColors (cs_Colors (ck_State c)) = None" if "validateIntegrity cd c terminalID = None" for c
    using that by (auto simp: validateIntegrity_def validateBounds_def Let_def split: if_splits option.splits)
  have same: "rb_Journal b = rb_Journal b0" "rb_TerminalID b = terminalID" "ValidateColors (rb_Colors b) = None"
    using b0(1,3,4) colors by (auto simp: keep_checkpoint_def Let_def split: option.splits if_splits)
  have keep: "checkpoint_validate cd c build terminalID = None \<and> snd (tailAfter s (ck_AppliedEventID c))" if "rb_Checkpoint b = Some c" for c
    using kept_checkpoint [OF b0(4) that] same(1) assms(2) by simp
  obtain p where p: "recovery_loop (sn_LastID s) (sn_Partial s) (sn_Events s) 0 0 = Inr (sn_Bytes s, p)"
      "sn_Events s \<noteq> [] \<longrightarrow> p = sn_LastID s" "sn_Events s = [] \<longrightarrow> sn_LastID s = 0 \<or> sn_Partial s"
      "sn_LastID s < rendererInputEventBit" "rendererValidGeometry (sn_Cols s) (sn_Rows s)" "sn_Bytes s \<le> defaultRendererJournalBytes"
    using b0(2) same(1) assms(2)
    by (auto simp: validateRecoveryJournal_def not_le not_less split: if_splits sum.splits)
  note l = recovery_loop_sound [OF p(1)]
  have cover: "\<And>k. k \<le> p \<Longrightarrow> if sn_Partial s then sn_Events s \<noteq> [] \<and> first_id (hd (sn_Events s)) \<le> k else 0 < k
      \<Longrightarrow> \<exists>e \<in> set (sn_Events s). first_id e \<le> k \<and> k \<le> ev_ID e" using l by blast
  have "\<exists>e \<in> set (sn_Events s). first_id e \<le> k \<and> k \<le> ev_ID e"
    if "0 < k" "k \<le> sn_LastID s" "\<not> sn_Partial s \<or> sn_Events s \<noteq> [] \<and> first_id (hd (sn_Events s)) \<le> k" for k
  proof (cases "sn_Events s = []")
    case True
    then show ?thesis using p(3) that by auto
  next
    case False
    then have "k \<le> p" using p(2) that(2) by simp
    then show ?thesis by (rule cover) (use that False in auto)
  qed
  then show ?thesis using same keep l p(4-6) by auto
qed

theorem recovery_decode_safe_witness:
  "\<exists>data b. snd plain_given = Some data \<and> decodeRendererRecovery plain_codec ''b'' ''t'' data = Inr b
     \<and> rb_Checkpoint b = Some plain_checkpoint \<and> snd (tailAfter (rb_Journal b) 2)"
proof -
  let ?dec = "case snd plain_given of Some data \<Rightarrow> decodeRendererRecovery plain_codec ''b'' ''t'' data | None \<Rightarrow> Inl []"
  have c: "(case ?dec of Inr b \<Rightarrow> rb_Checkpoint b | Inl err \<Rightarrow> None) = Some plain_checkpoint" by code_simp
  obtain data where d: "snd plain_given = Some data" using plain_given_some by blast
  obtain b where b: "decodeRendererRecovery plain_codec ''b'' ''t'' data = Inr b" "rb_Checkpoint b = Some plain_checkpoint"
    using c d by (auto split: sum.splits)
  have "ck_AppliedEventID plain_checkpoint = 2" by (simp add: plain_checkpoint_def)
  moreover have "\<forall>c. rb_Checkpoint b = Some c \<longrightarrow> checkpoint_validate plain_codec c ''b'' ''t'' = None \<and> snd (tailAfter (rb_Journal b) (ck_AppliedEventID c))"
    using recovery_decode_safe [OF b(1) refl] by blast
  ultimately have "snd (tailAfter (rb_Journal b) 2)" using b(2) by auto
  then show ?thesis using b d by blast
qed

end
