(* ===== verification/RendererSupervisor.thy ===== *)
theory RendererSupervisor
  imports RendererRecovery
begin

text \<open>
  The supervisor of a terminal's renderer worker, \<^verbatim>\<open>renderer_supervisor.go\<close> and
  \<^verbatim>\<open>renderer_checkpoint_supervisor.go\<close>: the restart policy, the start of a worker and its installation,
  the health tick, the degraded state, the admission of frames and of requests, and the retained
  checkpoint. Every function here is one critical section of the code, under its mutex (and, where
  the code holds it, the publication mutex with the callback inside); \<^verbatim>\<open>SupervisorRuns\<close> interleaves them.

  A link to a worker is identified by its generation, which only one link has. The worker process,
  the socket and the clock are arguments. \<open>s_restartWake\<close> is the channel of capacity one.
\<close>

section \<open>Policy\<close>

record rendererRestartPolicy =
  rp_MaxRestarts :: int
  rp_Window :: duration
  rp_Cooldown :: duration
  rp_HealthyReset :: duration
  rp_BackoffStep :: duration
  rp_DegradedNotice :: duration
  rp_SendGrace :: duration

definition millisecond :: duration where "millisecond = 1000000"
definition minute :: duration where "minute = 60 * second"
definition defaultRendererCommandTimeout :: duration where "defaultRendererCommandTimeout = 2 * second"
definition defaultRendererHealthInterval :: duration where "defaultRendererHealthInterval = second"
definition rendererInitDeadlinePerByte :: duration where "rendererInitDeadlinePerByte = 2000"
definition maxRendererInitDeadline :: duration where "maxRendererInitDeadline = 15 * second"

definition defaultRendererRestartPolicy :: rendererRestartPolicy where
  "defaultRendererRestartPolicy = \<lparr>rp_MaxRestarts = 5, rp_Window = minute, rp_Cooldown = 30 * second, rp_HealthyReset = minute,
     rp_BackoffStep = 25 * millisecond, rp_DegradedNotice = second, rp_SendGrace = defaultRendererCommandTimeout\<rparr>"

definition normalized :: "rendererRestartPolicy \<Rightarrow> duration \<Rightarrow> rendererRestartPolicy" where
  "normalized p commandTimeout =
     (let defaults = defaultRendererRestartPolicy
      in \<lparr>rp_MaxRestarts = (if rp_MaxRestarts p \<le> 0 then rp_MaxRestarts defaults else rp_MaxRestarts p),
          rp_Window = (if rp_Window p \<le> 0 then rp_Window defaults else rp_Window p),
          rp_Cooldown = (if rp_Cooldown p \<le> 0 then rp_Cooldown defaults else rp_Cooldown p),
          rp_HealthyReset = (if rp_HealthyReset p \<le> 0 then rp_HealthyReset defaults else rp_HealthyReset p),
          rp_BackoffStep = (if rp_BackoffStep p < 0 then rp_BackoffStep defaults else rp_BackoffStep p),
          rp_DegradedNotice = (if rp_DegradedNotice p \<le> 0 then rp_DegradedNotice defaults else rp_DegradedNotice p),
          rp_SendGrace = (if rp_SendGrace p \<le> 0 then commandTimeout else rp_SendGrace p)\<rparr>)"

definition rendererInitDeadline :: "duration \<Rightarrow> int \<Rightarrow> duration" where
  "rendererInitDeadline base journalBytes =
     (let base = (if base \<le> 0 then defaultRendererCommandTimeout else base);
          journalBytes = (if journalBytes < 0 then 0 else journalBytes);
          deadline = base + journalBytes * rendererInitDeadlinePerByte
      in if deadline > maxRendererInitDeadline then maxRendererInitDeadline else deadline)"

definition tickInterval :: "rendererRestartPolicy \<Rightarrow> duration" where
  "tickInterval policy =
     (let interval = 100 * millisecond
      in if rp_Cooldown policy < interval then max (rp_Cooldown policy) millisecond else interval)"

section \<open>State\<close>

datatype rendererState = rendererStateStarting | rendererStateReady | rendererStateRestarting | rendererStateDegraded | rendererStateClosed

text \<open>The status without the figures that it takes from the link.\<close>

record rendererSupervisorStatus =
  ss_Generation :: u64
  ss_State :: rendererState
  ss_LastProgressAt :: gotime
  ss_RestartCount :: nat
  ss_JournalBytes :: int
  ss_PartialRecovery :: bool
  ss_LastError :: string

record rendererSupervisor =
  s_terminalID :: string
  s_journal :: rendererJournal
  s_policy :: rendererRestartPolicy
  s_commandTimeout :: duration
  s_link :: "u64 option"
  s_generation :: u64
  s_replayThrough :: u64
  s_acceptFrames :: bool
  s_closed :: bool
  s_degraded :: bool
  s_degradedAt :: gotime
  s_cleanStarted :: bool
  s_forceRestart :: bool
  s_protocolMismatch :: bool
  s_healthySince :: gotime
  s_lastNotice :: gotime
  s_restarts :: "gotime list"
  s_lastError :: string
  s_lastProbe :: gotime
  s_restartWake :: bool
  s_status :: rendererSupervisorStatus
  s_checkpoint :: "rendererCheckpoint option"
  s_checkpointBusy :: bool
  s_lastCheckpoint :: gotime
  s_recoveryPartial :: bool
  s_publishedRevision :: u64
  s_checkpointDirty :: bool
  s_colors :: "TerminalColors option"
  s_colorsRevision :: u64

definition publishStatusLocked :: "gotime \<Rightarrow> rendererState \<Rightarrow> rendererSupervisor \<Rightarrow> rendererSupervisor" where
  "publishStatusLocked now st s = s\<lparr>s_status := \<lparr>ss_Generation = s_generation s, ss_State = st, ss_LastProgressAt = now,
     ss_RestartCount = length (s_restarts s), ss_JournalBytes = j_bytes (s_journal s), ss_PartialRecovery = s_recoveryPartial s,
     ss_LastError = s_lastError s\<rparr>\<rparr>"

definition newRendererSupervisor :: "gotime \<Rightarrow> string \<Rightarrow> rendererJournal \<Rightarrow> rendererRestartPolicy \<Rightarrow> duration \<Rightarrow> rendererSupervisor" where
  "newRendererSupervisor now terminalID journal restart commandTimeout =
     (let timeout = (if commandTimeout \<le> 0 then defaultRendererCommandTimeout else commandTimeout)
      in publishStatusLocked now rendererStateStarting
        \<lparr>s_terminalID = terminalID, s_journal = journal, s_policy = normalized restart timeout, s_commandTimeout = timeout,
         s_link = None, s_generation = 0, s_replayThrough = 0, s_acceptFrames = False, s_closed = False, s_degraded = False,
         s_degradedAt = 0, s_cleanStarted = False, s_forceRestart = False, s_protocolMismatch = False, s_healthySince = 0,
         s_lastNotice = 0, s_restarts = [], s_lastError = [], s_lastProbe = 0, s_restartWake = False,
         s_status = \<lparr>ss_Generation = 0, ss_State = rendererStateStarting, ss_LastProgressAt = 0, ss_RestartCount = 0,
           ss_JournalBytes = 0, ss_PartialRecovery = False, ss_LastError = []\<rparr>,
         s_checkpoint = None, s_checkpointBusy = False, s_lastCheckpoint = 0, s_recoveryPartial = False, s_publishedRevision = 0,
         s_checkpointDirty = False, s_colors = None, s_colorsRevision = 0\<rparr>)"

section \<open>Starting a worker\<close>

text \<open>The first critical section of \<^verbatim>\<open>startRenderer\<close>; nothing when the supervisor is closed.\<close>

definition start_begin :: "rendererSupervisor \<Rightarrow> rendererSupervisor option" where
  "start_begin s = (if s_closed s then None else Some (s\<lparr>s_generation := s_generation s + 1, s_acceptFrames := False\<rparr>))"

definition start_spawn_failed :: "gotime \<Rightarrow> string \<Rightarrow> rendererSupervisor \<Rightarrow> rendererSupervisor" where
  "start_spawn_failed now err s = publishStatusLocked now rendererStateRestarting (s\<lparr>s_lastError := err\<rparr>)"

definition start_superseded :: "u64 \<Rightarrow> rendererSupervisor \<Rightarrow> bool" where
  "start_superseded generation s \<longleftrightarrow> s_closed s \<or> generation \<noteq> s_generation s"

text \<open>The checkpoint and tail that the worker is initialised with, when they are usable, and the size that scales the deadline.\<close>

definition start_checkpoint ::
  "'d codec \<Rightarrow> string \<Rightarrow> string \<Rightarrow> rendererJournalSnapshot \<Rightarrow> rendererCheckpoint option
     \<Rightarrow> (rendererCheckpoint \<times> rendererJournalEvent list) option \<times> int" where
  "start_checkpoint cd build terminalID journal checkpoint =
     (let usable = (case checkpoint of
            Some c \<Rightarrow>
              if checkpoint_validate cd c build terminalID = None \<and> snd (tailAfter journal (ck_AppliedEventID c))
              then Some (c, sn_Events (fst (tailAfter journal (ck_AppliedEventID c)))) else None
          | None \<Rightarrow> None)
      in (usable, sn_Bytes journal + (case usable of Some (c, tail) \<Rightarrow> int (length (cs_Data (ck_State c))) | None \<Rightarrow> 0)))"

definition start_init_failed :: "gotime \<Rightarrow> u64 \<Rightarrow> string \<Rightarrow> bool \<Rightarrow> rendererSupervisor \<Rightarrow> rendererSupervisor" where
  "start_init_failed now generation err mismatch s =
     (let s1 = (if generation = s_generation s then s\<lparr>s_acceptFrames := False\<rparr> else s);
          s2 = (if mismatch then s1\<lparr>s_protocolMismatch := True\<rparr> else s1)
      in publishStatusLocked now rendererStateRestarting (s2\<lparr>s_lastError := err\<rparr>))"

text \<open>The reply of the worker to \<^verbatim>\<open>init\<close>.\<close>

record rendererInitResult =
  ir_Protocol :: int
  ir_Ready :: bool
  ir_BuildID :: string
  ir_PartialRecovery :: bool
  ir_RestoredCheckpoint :: bool

definition rendererWorkerProtocolVersion :: int where "rendererWorkerProtocolVersion = 6"

text \<open>The check of the reply, \<open>None\<close> when it does not decode: an error and whether it is a mismatch of the two programs.\<close>

definition verifyRendererProtocol :: "rendererInitResult option \<Rightarrow> (string \<times> bool) option" where
  "verifyRendererProtocol reply =
     (case reply of
        None \<Rightarrow> Some (''renderer worker protocol version mismatch: init reply cannot be decoded'', True)
      | Some result \<Rightarrow>
          if ir_Protocol result = rendererWorkerProtocolVersion
          then (if \<not> ir_Ready result then Some (''renderer worker did not acknowledge readiness'', False) else None)
          else Some (''renderer worker protocol version mismatch: worker announced another version'', True))"

definition start_install ::
  "gotime \<Rightarrow> u64 \<Rightarrow> rendererJournalSnapshot \<Rightarrow> rendererInitResult \<Rightarrow> rendererSupervisor \<Rightarrow> rendererSupervisor" where
  "start_install now generation journal initialized s =
     publishStatusLocked now rendererStateReady
       (s\<lparr>s_link := Some generation, s_acceptFrames := True, s_replayThrough := sn_LastID journal,
          s_recoveryPartial := ir_PartialRecovery initialized \<or> (sn_Partial journal \<and> \<not> ir_RestoredCheckpoint initialized),
          s_publishedRevision := 0, s_checkpointDirty := False, s_lastProbe := now, s_healthySince := now, s_lastCheckpoint := now,
          s_degraded := False, s_protocolMismatch := False, s_lastError := []\<rparr>)"

section \<open>Restarting\<close>

definition wake :: "rendererSupervisor \<Rightarrow> rendererSupervisor" where
  "wake s = s\<lparr>s_restartWake := True\<rparr>"

definition Restart :: "rendererSupervisor \<Rightarrow> rendererSupervisor" where
  "Restart s = (if s_closed s then s else wake (s\<lparr>s_forceRestart := True\<rparr>))"

text \<open>The flag says that the stale notification was sent.\<close>

definition requestRestart :: "gotime \<Rightarrow> string option \<Rightarrow> rendererSupervisor \<Rightarrow> rendererSupervisor \<times> bool" where
  "requestRestart now err s =
     (if s_closed s \<or> \<not> s_acceptFrames s then (s, False)
      else
        let s1 = (case err of Some e \<Rightarrow> s\<lparr>s_lastError := e\<rparr> | None \<Rightarrow> s)
        in (wake (publishStatusLocked now rendererStateRestarting (s1\<lparr>s_acceptFrames := False\<rparr>)), True))"

record rendererRestartPlan =
  pl_allowed :: bool
  pl_charge :: bool
  pl_clean :: bool

definition planRestartLocked :: "gotime \<Rightarrow> rendererJournalStats \<Rightarrow> rendererSupervisor \<Rightarrow> rendererRestartPlan \<times> rendererSupervisor" where
  "planRestartLocked now journal s =
     (let cutoff = now - rp_Window (s_policy s);
          kept = filter (\<lambda>at. at > cutoff) (s_restarts s);
          forced = s_forceRestart s;
          s1 = s\<lparr>s_restarts := kept, s_forceRestart := False\<rparr>;
          exhausted = int (length kept) \<ge> rp_MaxRestarts (s_policy s);
          poisonEscape = exhausted \<and> (st_Events journal > 0 \<or> s_checkpoint s \<noteq> None) \<and> \<not> s_cleanStarted s
      in (if s_protocolMismatch s
          then (if \<not> forced then \<lparr>pl_allowed = False, pl_charge = False, pl_clean = False\<rparr>
                else \<lparr>pl_allowed = True, pl_charge = False, pl_clean = False\<rparr>)
          else if poisonEscape then \<lparr>pl_allowed = True, pl_charge = False, pl_clean = True\<rparr>
          else if forced then \<lparr>pl_allowed = True, pl_charge = False, pl_clean = False\<rparr>
          else if exhausted then \<lparr>pl_allowed = False, pl_charge = False, pl_clean = False\<rparr>
          else \<lparr>pl_allowed = True, pl_charge = True, pl_clean = False\<rparr>, s1))"

definition enterDegradedLocked :: "gotime \<Rightarrow> rendererSupervisor \<Rightarrow> rendererSupervisor" where
  "enterDegradedLocked now s =
     publishStatusLocked now rendererStateDegraded
       (s\<lparr>s_link := None, s_acceptFrames := False, s_degraded := True, s_degradedAt := now, s_lastNotice := 0,
          s_lastError := (if s_lastError s = [] then ''renderer restart budget exhausted'' else s_lastError s)\<rparr>)"

text \<open>
  The critical section of \<^verbatim>\<open>restart\<close>, with the quota in which \<open>me\<close> is this supervisor: nothing when
  closed, or the plan it decided and the attempt number that scales the backoff.
\<close>

definition restart_begin ::
  "nat \<Rightarrow> gotime \<Rightarrow> rendererSupervisor \<Rightarrow> rendererCheckpointQuota
     \<Rightarrow> rendererSupervisor \<times> rendererCheckpointQuota \<times> (rendererRestartPlan \<times> nat) option" where
  "restart_begin me now s quota =
     (if s_closed s then (s, quota, None)
      else case planRestartLocked now (JournalStats (s_journal s)) s of
             (plan, s1) \<Rightarrow>
               if \<not> pl_allowed plan then (enterDegradedLocked now s1, quota, Some (plan, 0))
               else
                 let s2 = (if pl_charge plan then s1\<lparr>s_restarts := s_restarts s1 @ [now]\<rparr> else s1);
                     (s3, quota1) = (if pl_clean plan then (s2\<lparr>s_cleanStarted := True, s_checkpoint := None\<rparr>, release quota me) else (s2, quota))
                 in (publishStatusLocked now rendererStateRestarting (s3\<lparr>s_link := None, s_acceptFrames := False, s_degraded := False\<rparr>),
                     quota1, Some (plan, length (s_restarts s3))))"

definition restart_backoff :: "rendererRestartPolicy \<Rightarrow> nat \<Rightarrow> duration" where
  "restart_backoff policy attempt = (int attempt - 1) * rp_BackoffStep policy"

definition restart_geometry :: "rendererJournal \<Rightarrow> int \<times> int" where
  "restart_geometry journal = (if j_cols journal \<le> 0 \<or> j_rows journal \<le> 0 then (80, 24) else (j_cols journal, j_rows journal))"

section \<open>The tick\<close>

text \<open>The critical section of \<^verbatim>\<open>tick\<close>: the link it probes, whether the probe is due, and whether the cooldown is over.\<close>

definition tick_begin :: "gotime \<Rightarrow> rendererSupervisor \<Rightarrow> rendererSupervisor \<times> (u64 option \<times> bool \<times> bool) option" where
  "tick_begin now s =
     (if s_closed s then (s, None)
      else
        let probeDue = s_link s \<noteq> None \<and> now - s_lastProbe s \<ge> defaultRendererHealthInterval;
            s1 = (if probeDue then s\<lparr>s_lastProbe := now\<rparr> else s);
            s2 = (if s_link s \<noteq> None \<and> s_acceptFrames s \<and> s_restarts s \<noteq> [] \<and> now - s_healthySince s \<ge> rp_HealthyReset (s_policy s)
                  then publishStatusLocked now rendererStateReady (s1\<lparr>s_restarts := [], s_cleanStarted := False\<rparr>) else s1)
        in (s2, Some (s_link s, probeDue, s_degraded s \<and> now - s_degradedAt s \<ge> rp_Cooldown (s_policy s))))"

text \<open>What the tick does after its critical section; \<open>failure\<close> is what probing the link and its health found.\<close>

datatype tickAction = TickRestart | TickFail "string option" | TickCheckpoint | TickNothing

definition tick_action :: "u64 option \<times> bool \<times> bool \<Rightarrow> string option option \<Rightarrow> tickAction" where
  "tick_action seen failure =
     (case seen of
        (link, probeDue, cooldownDue) \<Rightarrow>
          if cooldownDue then TickRestart
          else if link = None then TickNothing
          else case failure of Some err \<Rightarrow> TickFail err | None \<Rightarrow> TickCheckpoint)"

section \<open>Frames\<close>

definition frame_admitted :: "u64 \<Rightarrow> rendererSupervisor \<Rightarrow> bool" where
  "frame_admitted generation s \<longleftrightarrow> generation = s_generation s \<and> s_acceptFrames s \<and> \<not> s_closed s"

text \<open>The second check of \<^verbatim>\<open>handleFrame\<close> with the publication: \<open>revision\<close> is given for a screen.\<close>

definition frame_publish :: "gotime \<Rightarrow> u64 \<Rightarrow> u64 option \<Rightarrow> rendererSupervisor \<Rightarrow> rendererSupervisor option" where
  "frame_publish now generation revision s =
     (if \<not> frame_admitted generation s then None
      else
        let s1 = (case revision of Some r \<Rightarrow> s\<lparr>s_publishedRevision := r\<rparr> | None \<Rightarrow> s)
        in Some (publishStatusLocked now rendererStateReady s1))"

section \<open>Requests\<close>

datatype sendError = errTerminalClosed | errRendererDegraded string | errRendererUnavailable string

definition describeLocked :: "(string \<Rightarrow> sendError) \<Rightarrow> rendererSupervisor \<Rightarrow> sendError" where
  "describeLocked cause s = cause (s_lastError s)"

definition noticeLocked :: "gotime \<Rightarrow> (string \<Rightarrow> sendError) \<Rightarrow> rendererSupervisor \<Rightarrow> rendererSupervisor \<times> sendError option" where
  "noticeLocked now cause s =
     (if now - s_lastNotice s < rp_DegradedNotice (s_policy s) then (s, None)
      else (s\<lparr>s_lastNotice := now\<rparr>, Some (describeLocked cause s)))"

text \<open>
  One turn of the loop of \<^verbatim>\<open>SendOutput\<close>: it returns, hands the event to a link, or waits. \<open>late\<close> says
  that the deadline has passed when it would wait.
\<close>

datatype sendTurn = SendReturn "sendError option" | SendTo u64 | SendWait

definition send_check :: "gotime \<Rightarrow> rendererJournalEvent \<Rightarrow> rendererSupervisor \<Rightarrow> rendererSupervisor \<times> sendTurn" where
  "send_check now event s =
     (if s_closed s then (s, SendReturn (Some errTerminalClosed))
      else if ev_ID event \<le> s_replayThrough s then (s, SendReturn None)
      else if s_degraded s then (case noticeLocked now errRendererDegraded s of (s1, err) \<Rightarrow> (s1, SendReturn err))
      else case s_link s of
             Some generation \<Rightarrow> if s_acceptFrames s then (s, SendTo generation) else (s, SendWait)
           | None \<Rightarrow> (s, SendWait))"

definition send_wait :: "gotime \<Rightarrow> gotime \<Rightarrow> rendererSupervisor \<Rightarrow> rendererSupervisor \<times> sendTurn" where
  "send_wait now deadline s =
     (if deadline - now \<le> 0 then (case noticeLocked now errRendererUnavailable s of (s1, err) \<Rightarrow> (s1, SendReturn err))
      else (s, SendWait))"

definition trySend :: "rendererSupervisor \<Rightarrow> (sendError, u64) result" where
  "trySend s =
     (if s_closed s then Inl errTerminalClosed
      else if s_degraded s then Inl (describeLocked errRendererDegraded s)
      else case s_link s of None \<Rightarrow> Inl (describeLocked errRendererUnavailable s) | Some generation \<Rightarrow> Inr generation)"

definition call :: "rendererSupervisor \<Rightarrow> (sendError, u64) result" where
  "call s =
     (if s_closed s then Inl errTerminalClosed
      else if s_degraded s then Inl (describeLocked errRendererDegraded s)
      else case s_link s of
             Some generation \<Rightarrow> if s_acceptFrames s then Inr generation else Inl (describeLocked errRendererUnavailable s)
           | None \<Rightarrow> Inl (describeLocked errRendererUnavailable s))"

section \<open>Checkpoints\<close>

definition checkpoint_cost :: "rendererCheckpoint \<Rightarrow> int" where
  "checkpoint_cost c = int (length (cs_Data (ck_State c))) + rendererCheckpointMaxHeaderBytes"

definition maybeCheckpoint :: "gotime \<Rightarrow> rendererSupervisor \<Rightarrow> rendererSupervisor \<times> bool" where
  "maybeCheckpoint now s =
     (if \<not> s_closed s \<and> s_acceptFrames s \<and> \<not> s_checkpointBusy s \<and> now - s_lastCheckpoint s \<ge> second
         \<and> (case s_checkpoint s of
              None \<Rightarrow> True
            | Some c \<Rightarrow> j_nextID (s_journal s) \<noteq> ck_AppliedEventID c \<or> s_checkpointDirty s
                \<or> s_publishedRevision s > cs_Generation (ck_State c))
      then (s\<lparr>s_checkpointBusy := True, s_lastCheckpoint := now\<rparr>, True) else (s, False))"

definition checkpoint_done :: "bool \<Rightarrow> rendererSupervisor \<Rightarrow> rendererSupervisor" where
  "checkpoint_done failed s =
     (if failed then s\<lparr>s_checkpointDirty := True, s_checkpointBusy := False\<rparr> else s\<lparr>s_checkpointBusy := False\<rparr>)"

text \<open>The first critical section of a capture: the link and generation it captures from.\<close>

definition capture_begin :: "rendererSupervisor \<Rightarrow> rendererSupervisor \<times> (u64 \<times> u64) option" where
  "capture_begin s =
     (s\<lparr>s_checkpointDirty := False\<rparr>,
      case s_link s of Some link \<Rightarrow> if \<not> s_closed s \<and> s_acceptFrames s then Some (link, s_generation s) else None | None \<Rightarrow> None)"

definition capture_valid :: "'d codec \<Rightarrow> string \<Rightarrow> u64 \<Rightarrow> u64 \<Rightarrow> rendererCheckpoint \<Rightarrow> string \<Rightarrow> bool" where
  "capture_valid cd build generation through checkpoint terminalID \<longleftrightarrow>
     checkpoint_validate cd checkpoint build terminalID = None
     \<and> ck_RendererGeneration checkpoint = generation \<and> ck_AppliedEventID checkpoint \<ge> through"

definition capture_commit ::
  "nat \<Rightarrow> u64 \<Rightarrow> u64 \<Rightarrow> rendererCheckpoint \<Rightarrow> rendererSupervisor \<Rightarrow> rendererCheckpointQuota
     \<Rightarrow> rendererSupervisor \<times> rendererCheckpointQuota \<times> bool" where
  "capture_commit me link generation checkpoint s quota =
     (if s_closed s \<or> \<not> s_acceptFrames s \<or> s_link s \<noteq> Some link \<or> s_generation s \<noteq> generation then (s, quota, False)
      else if ck_AppliedEventID checkpoint > j_nextID (s_journal s) then (s, quota, False)
      else if (case s_checkpoint s of None \<Rightarrow> True | Some c \<Rightarrow> ck_AppliedEventID checkpoint \<ge> ck_AppliedEventID c)
      then (case reserve quota me (checkpoint_cost checkpoint) of
              (quota1, False) \<Rightarrow> (s, quota1, False)
            | (quota1, True) \<Rightarrow> (s\<lparr>s_checkpoint := Some checkpoint\<rparr>, quota1, True))
      else (s, quota, True))"

definition restoreCheckpoint ::
  "'d codec \<Rightarrow> string \<Rightarrow> nat \<Rightarrow> rendererCheckpoint option \<Rightarrow> rendererSupervisor \<Rightarrow> rendererCheckpointQuota
     \<Rightarrow> rendererSupervisor \<times> rendererCheckpointQuota \<times> bool" where
  "restoreCheckpoint cd build me checkpoint s quota =
     (case checkpoint of
        None \<Rightarrow> (s, quota, False)
      | Some c \<Rightarrow>
          if checkpoint_validate cd c build (s_terminalID s) \<noteq> None \<or> s_closed s then (s, quota, False)
          else (case reserve quota me (checkpoint_cost c) of
                  (quota1, False) \<Rightarrow> (s, quota1, False)
                | (quota1, True) \<Rightarrow> (s\<lparr>s_checkpoint := Some c\<rparr>, quota1, True)))"

definition restoreColors :: "TerminalColors option \<Rightarrow> rendererSupervisor \<Rightarrow> rendererSupervisor" where
  "restoreColors colors s =
     (if colors = None \<or> s_closed s then s
      else s\<lparr>s_colors := colors, s_colorsRevision := s_colorsRevision s + 1, s_checkpointDirty := True\<rparr>)"

definition checkpoint_mutation :: "rendererSupervisor \<Rightarrow> rendererSupervisor" where
  "checkpoint_mutation s = s\<lparr>s_checkpointDirty := True\<rparr>"

definition Close_supervisor :: "nat \<Rightarrow> gotime \<Rightarrow> rendererSupervisor \<Rightarrow> rendererCheckpointQuota \<Rightarrow> rendererSupervisor \<times> rendererCheckpointQuota" where
  "Close_supervisor me now s quota =
     (if s_closed s then (s, quota)
      else (publishStatusLocked now rendererStateClosed
              (s\<lparr>s_closed := True, s_checkpoint := None, s_acceptFrames := False, s_degraded := False, s_link := None\<rparr>),
            release quota me))"

end
