(* ===== verification/SupervisorRuns.thy ===== *)
theory SupervisorRuns
  imports RendererSupervisor
begin

text \<open>
  Runs of the supervisor: the goroutine that restarts and ticks, the starts of workers in their
  phases, frames on their way to publication, captures of checkpoints, the sender of output, and the
  owner's calls, interleaved at the granularity of the critical sections of \<^verbatim>\<open>RendererSupervisor\<close>. The
  quota of checkpoints is shared with other supervisors.
\<close>

section \<open>Runs\<close>

text \<open>
  The phases of \<^verbatim>\<open>startRenderer\<close>: the process is spawned, the journal copied, the parameters read, the
  worker asked to initialise, the colors brought up to date, the link installed and its first screen
  requested.
\<close>

datatype startPhase =
    Spawning
  | Snapshotting
  | Preparing rendererJournalSnapshot
  | Initialising rendererJournalSnapshot u64
  | Colouring rendererJournalSnapshot rendererInitResult u64
  | Notifying

record starter =
  sr_generation :: u64
  sr_runner :: bool
  sr_phase :: startPhase

datatype runnerPC = Idle | Ticking "u64 option \<times> bool \<times> bool" | Cleaning bool | Waiting | Starting | Stopped

text \<open>What the terminal sees, newest first: a start of a worker, its installation, its frames, the stale mark, the end.\<close>

datatype supEvent = Started u64 | Installed u64 | Published u64 | Stale | Shut

record supRun =
  x_sup :: rendererSupervisor
  x_now :: gotime
  x_starters :: "starter list"
  x_runner :: runnerPC
  x_decoding :: "u64 list"
  x_captures :: "(u64 \<times> u64 \<times> u64) list"
  x_trace :: "supEvent list"
  x_charged :: "gotime list"
  x_started :: bool
  x_startFailed :: bool

text \<open>The end of a start: the goroutine that restarts retries after an error, the owner gets the error of its own start.\<close>

definition end_start :: "starter list \<Rightarrow> starter \<Rightarrow> starter list \<Rightarrow> bool \<Rightarrow> rendererSupervisor \<Rightarrow> supRun \<Rightarrow> supRun" where
  "end_start before r after ok s x =
     (if sr_runner r
      then x\<lparr>x_sup := (if ok then s else wake s), x_starters := before @ after, x_runner := Idle\<rparr>
      else x\<lparr>x_sup := s, x_starters := before @ after, x_startFailed := x_startFailed x \<or> \<not> ok\<rparr>)"

definition set_phase :: "starter list \<Rightarrow> starter \<Rightarrow> starter list \<Rightarrow> startPhase \<Rightarrow> supRun \<Rightarrow> supRun" where
  "set_phase before r after phase x = x\<lparr>x_starters := before @ r\<lparr>sr_phase := phase\<rparr> # after\<rparr>"

definition mark :: "bool \<Rightarrow> supEvent \<Rightarrow> supRun \<Rightarrow> supRun" where
  "mark b e x = (if b then x\<lparr>x_trace := e # x_trace x\<rparr> else x)"

definition begin_start :: "bool \<Rightarrow> rendererSupervisor \<Rightarrow> supRun \<Rightarrow> supRun" where
  "begin_start runner s x =
     x\<lparr>x_sup := s, x_starters := \<lparr>sr_generation = s_generation s, sr_runner = runner, sr_phase = Spawning\<rparr> # x_starters x,
       x_trace := Started (s_generation s) # x_trace x\<rparr>"

text \<open>One step of a start in progress. Generations are counted from one start to the next and do not wrap around.\<close>

inductive start_step :: "starter list \<Rightarrow> starter \<Rightarrow> starter list \<Rightarrow> supRun \<Rightarrow> supRun \<Rightarrow> bool"
  for before r after x where
  spawn_failed: "sr_phase r = Spawning
    \<Longrightarrow> start_step before r after x (end_start before r after False (start_spawn_failed (x_now x) err (x_sup x)) x)"
| spawned: "sr_phase r = Spawning \<Longrightarrow> \<not> start_superseded (sr_generation r) (x_sup x)
    \<Longrightarrow> start_step before r after x (set_phase before r after Snapshotting x)"
| spawned_late: "sr_phase r = Spawning \<Longrightarrow> start_superseded (sr_generation r) (x_sup x)
    \<Longrightarrow> start_step before r after x (end_start before r after False (x_sup x) x)"
| copied: "sr_phase r = Snapshotting
    \<Longrightarrow> start_step before r after x (set_phase before r after (Preparing (Snapshot (s_journal (x_sup x)))) x)"
| prepared: "sr_phase r = Preparing journal
    \<Longrightarrow> start_step before r after x (set_phase before r after (Initialising journal (s_colorsRevision (x_sup x))) x)"
| init_failed: "sr_phase r = Initialising journal revision
    \<Longrightarrow> start_step before r after x (end_start before r after False (start_init_failed (x_now x) (sr_generation r) err False (x_sup x)) x)"
| init_garbled: "sr_phase r = Initialising journal revision
    \<Longrightarrow> start_step before r after x (end_start before r after False (x_sup x) x)"
| init_refused: "sr_phase r = Initialising journal revision \<Longrightarrow> verifyRendererProtocol reply = Some (err, mismatch)
    \<Longrightarrow> start_step before r after x (end_start before r after False (start_init_failed (x_now x) (sr_generation r) err mismatch (x_sup x)) x)"
| initialised: "sr_phase r = Initialising journal revision \<Longrightarrow> verifyRendererProtocol (Some initialized) = None
    \<Longrightarrow> start_step before r after x (set_phase before r after (Colouring journal initialized revision) x)"
| colored: "sr_phase r = Colouring journal initialized revision \<Longrightarrow> s_colorsRevision (x_sup x) \<noteq> revision
    \<Longrightarrow> start_step before r after x (set_phase before r after (Colouring journal initialized (s_colorsRevision (x_sup x))) x)"
| color_failed: "sr_phase r = Colouring journal initialized revision \<Longrightarrow> s_colorsRevision (x_sup x) \<noteq> revision
    \<Longrightarrow> start_step before r after x (end_start before r after False (x_sup x) x)"
| installed_late: "sr_phase r = Colouring journal initialized revision \<Longrightarrow> s_colorsRevision (x_sup x) = revision
    \<Longrightarrow> start_superseded (sr_generation r) (x_sup x) \<Longrightarrow> start_step before r after x (end_start before r after False (x_sup x) x)"
| installed: "sr_phase r = Colouring journal initialized revision \<Longrightarrow> s_colorsRevision (x_sup x) = revision
    \<Longrightarrow> \<not> start_superseded (sr_generation r) (x_sup x)
    \<Longrightarrow> start_step before r after x (mark True (Installed (sr_generation r)) (set_phase before r after Notifying
          (x\<lparr>x_sup := start_install (x_now x) (sr_generation r) journal initialized (x_sup x)\<rparr>)))"
| notified: "sr_phase r = Notifying \<Longrightarrow> start_step before r after x (end_start before r after True (x_sup x) x)"
| notify_failed: "sr_phase r = Notifying \<Longrightarrow> requestRestart (x_now x) (Some err) (x_sup x) = (s, sent)
    \<Longrightarrow> start_step before r after x (mark sent Stale (end_start before r after False s x))"

text \<open>One step of the goroutine that restarts and ticks.\<close>

inductive runner_step :: "nat \<Rightarrow> supRun \<times> rendererCheckpointQuota \<Rightarrow> supRun \<times> rendererCheckpointQuota \<Rightarrow> bool" for me where
  restart: "x_runner x = Idle \<Longrightarrow> s_restartWake (x_sup x)
    \<Longrightarrow> restart_begin me (x_now x) ((x_sup x)\<lparr>s_restartWake := False\<rparr>) q = (s, q', Some (plan, attempt))
    \<Longrightarrow> runner_step me (x, q) (mark True Stale (x\<lparr>x_sup := s, x_runner := (if pl_allowed plan then Cleaning (pl_clean plan) else Idle),
          x_charged := x_charged x @ (if pl_charge plan then [x_now x] else [])\<rparr>), q')"
| restart_closed: "x_runner x = Idle \<Longrightarrow> s_restartWake (x_sup x) \<Longrightarrow> s_closed (x_sup x)
    \<Longrightarrow> runner_step me (x, q) (x\<lparr>x_sup := (x_sup x)\<lparr>s_restartWake := False\<rparr>\<rparr>, q)"
| clean: "x_runner x = Cleaning c
    \<Longrightarrow> runner_step me (x, q) (x\<lparr>x_sup := (if c then (x_sup x)\<lparr>s_journal := Reset (s_journal (x_sup x))\<rparr> else x_sup x), x_runner := Waiting\<rparr>, q)"
| wait_closed: "x_runner x = Waiting \<Longrightarrow> s_closed (x_sup x) \<Longrightarrow> runner_step me (x, q) (x\<lparr>x_runner := Idle\<rparr>, q)"
| start: "x_runner x = Waiting \<Longrightarrow> start_begin (x_sup x) = Some s \<Longrightarrow> s_generation (x_sup x) \<noteq> - 1
    \<Longrightarrow> runner_step me (x, q) ((begin_start True s x)\<lparr>x_runner := Starting\<rparr>, q)"
| start_closed: "x_runner x = Waiting \<Longrightarrow> start_begin (x_sup x) = None
    \<Longrightarrow> runner_step me (x, q) (x\<lparr>x_sup := wake (x_sup x), x_runner := Idle\<rparr>, q)"
| tick: "x_runner x = Idle \<Longrightarrow> tick_begin (x_now x) (x_sup x) = (s, Some seen)
    \<Longrightarrow> runner_step me (x, q) (x\<lparr>x_sup := s, x_runner := Ticking seen\<rparr>, q)"
| tick_restart: "x_runner x = Ticking seen \<Longrightarrow> tick_action seen failure = TickRestart
    \<Longrightarrow> runner_step me (x, q) (x\<lparr>x_sup := Restart (x_sup x), x_runner := Idle\<rparr>, q)"
| tick_fail: "x_runner x = Ticking seen \<Longrightarrow> tick_action seen failure = TickFail err
    \<Longrightarrow> requestRestart (x_now x) err (x_sup x) = (s, sent)
    \<Longrightarrow> runner_step me (x, q) (mark sent Stale (x\<lparr>x_sup := s, x_runner := Idle\<rparr>), q)"
| tick_checkpoint: "x_runner x = Ticking seen \<Longrightarrow> tick_action seen failure = TickCheckpoint
    \<Longrightarrow> runner_step me (x, q) (x\<lparr>x_sup := fst (maybeCheckpoint (x_now x) (x_sup x)), x_runner := Idle\<rparr>, q)"
| tick_nothing: "x_runner x = Ticking seen \<Longrightarrow> tick_action seen failure = TickNothing
    \<Longrightarrow> runner_step me (x, q) (x\<lparr>x_runner := Idle\<rparr>, q)"
| stop: "x_runner x = Idle \<Longrightarrow> s_closed (x_sup x) \<Longrightarrow> runner_step me (x, q) (x\<lparr>x_runner := Stopped\<rparr>, q)"

text \<open>The other goroutines: the terminal's owner, the link's reader, the sender of output, and captures.\<close>

inductive other_step :: "'d codec \<Rightarrow> string \<Rightarrow> nat \<Rightarrow> supRun \<times> rendererCheckpointQuota \<Rightarrow> supRun \<times> rendererCheckpointQuota \<Rightarrow> bool"
  for cd build me where
  time: "x_now x \<le> t \<Longrightarrow> other_step cd build me (x, q) (x\<lparr>x_now := t\<rparr>, q)"
| owner_start: "start_begin (x_sup x) = Some s \<Longrightarrow> s_generation (x_sup x) \<noteq> - 1
    \<Longrightarrow> other_step cd build me (x, q) ((begin_start False s x)\<lparr>x_started := True\<rparr>, q)"
| manual: "other_step cd build me (x, q) (x\<lparr>x_sup := Restart (x_sup x)\<rparr>, q)"
| admit: "frame_admitted g (x_sup x) \<Longrightarrow> other_step cd build me (x, q) (x\<lparr>x_decoding := g # x_decoding x\<rparr>, q)"
| publish: "x_decoding x = before @ g # after \<Longrightarrow> frame_publish (x_now x) g revision (x_sup x) = Some s
    \<Longrightarrow> other_step cd build me (x, q) (mark True (Published g) (x\<lparr>x_sup := s, x_decoding := before @ after\<rparr>), q)"
| discard: "x_decoding x = before @ g # after \<Longrightarrow> other_step cd build me (x, q) (x\<lparr>x_decoding := before @ after\<rparr>, q)"
| printed: "other_step cd build me (x, q) (x\<lparr>x_sup := (x_sup x)\<lparr>s_journal := fst (AppendOutput (s_journal (x_sup x)) data)\<rparr>\<rparr>, q)"
| resized: "other_step cd build me (x, q) (x\<lparr>x_sup := (x_sup x)\<lparr>s_journal := fst (AppendResizePixels (s_journal (x_sup x)) c r w h)\<rparr>\<rparr>, q)"
| send: "other_step cd build me (x, q) (x\<lparr>x_sup := fst (send_check (x_now x) event (x_sup x))\<rparr>, q)"
| send_late: "other_step cd build me (x, q) (x\<lparr>x_sup := fst (send_wait (x_now x) deadline (x_sup x))\<rparr>, q)"
| capture: "capture_begin (x_sup x) = (s, Some (link, generation)) \<Longrightarrow> through = j_nextID (s_journal s)
    \<Longrightarrow> other_step cd build me (x, q) (x\<lparr>x_sup := s, x_captures := (link, generation, through) # x_captures x\<rparr>, q)"
| captured: "x_captures x = before @ (link, generation, through) # after
    \<Longrightarrow> capture_valid cd build generation through checkpoint (s_terminalID (x_sup x))
    \<Longrightarrow> capture_commit me link generation checkpoint (x_sup x) q = (s, q', ok)
    \<Longrightarrow> other_step cd build me (x, q) (x\<lparr>x_sup := checkpoint_done (\<not> ok) s, x_captures := before @ after\<rparr>, q')"
| capture_failed: "x_captures x = before @ c # after
    \<Longrightarrow> other_step cd build me (x, q) (x\<lparr>x_sup := checkpoint_done True (x_sup x), x_captures := before @ after\<rparr>, q)"
| restore: "restoreCheckpoint cd build me checkpoint (x_sup x) q = (s, q', ok) \<Longrightarrow> other_step cd build me (x, q) (x\<lparr>x_sup := s\<rparr>, q')"
| colors: "other_step cd build me (x, q) (x\<lparr>x_sup := restoreColors colors (x_sup x)\<rparr>, q)"
| mutation: "other_step cd build me (x, q) (x\<lparr>x_sup := checkpoint_mutation (x_sup x)\<rparr>, q)"
| close: "Close_supervisor me (x_now x) (x_sup x) q = (s, q')
    \<Longrightarrow> other_step cd build me (x, q) (mark (\<not> s_closed (x_sup x)) Shut (x\<lparr>x_sup := s\<rparr>), q')"

inductive sup_step :: "'d codec \<Rightarrow> string \<Rightarrow> nat \<Rightarrow> supRun \<times> rendererCheckpointQuota \<Rightarrow> supRun \<times> rendererCheckpointQuota \<Rightarrow> bool"
  for cd build me where
  by_start: "x_starters x = before @ r # after \<Longrightarrow> start_step before r after x y \<Longrightarrow> sup_step cd build me (x, q) (y, q)"
| by_runner: "runner_step me a b \<Longrightarrow> sup_step cd build me a b"
| by_other: "other_step cd build me a b \<Longrightarrow> sup_step cd build me a b"

definition new_run :: "gotime \<Rightarrow> rendererSupervisor \<Rightarrow> supRun" where
  "new_run now s = \<lparr>x_sup = s, x_now = now, x_starters = [], x_runner = Idle, x_decoding = [], x_captures = [], x_trace = [],
     x_charged = [], x_started = False, x_startFailed = False\<rparr>"

definition sup_init :: "supRun \<Rightarrow> bool" where
  "sup_init x \<longleftrightarrow> (\<exists>now terminalID journal policy timeout. x = new_run now (newRendererSupervisor now terminalID journal policy timeout))"

end
