(* ===== verification/SupervisorInvariant.thy ===== *)
theory SupervisorInvariant
  imports SupervisorRuns
begin

text \<open>
  The invariant of the runs of a supervisor: which link is current and what the terminal has been
  shown, the restart budget over the whole run, and that a terminal without a worker is attended to.
\<close>

section \<open>The invariant\<close>

text \<open>The worker whose frames are current after a trace, and traces that only publish current frames of ever newer workers.\<close>

fun current :: "supEvent list \<Rightarrow> u64 option" where
  "current [] = None"
| "current (Installed g # t) = Some g"
| "current (Published g # t) = current t"
| "current (e # t) = None"

fun trace_ok :: "supEvent list \<Rightarrow> bool" where
  "trace_ok [] \<longleftrightarrow> True"
| "trace_ok (Published g # t) \<longleftrightarrow> current t = Some g \<and> trace_ok t"
| "trace_ok (Installed g # t) \<longleftrightarrow> (\<forall>h. Installed h \<in> set t \<longrightarrow> h < g) \<and> trace_ok t"
| "trace_ok (e # t) \<longleftrightarrow> trace_ok t"

definition budget_ok :: "rendererRestartPolicy \<Rightarrow> gotime list \<Rightarrow> bool" where
  "budget_ok p charged \<longleftrightarrow> (\<forall>i < length charged.
     int (length (filter (\<lambda>t. t > charged ! i - rp_Window p) (take (Suc i) charged))) \<le> rp_MaxRestarts p)"

definition trace_inv :: "supRun \<Rightarrow> bool" where
  "trace_inv x \<longleftrightarrow> trace_ok (x_trace x)
     \<and> current (x_trace x) = (if s_acceptFrames (x_sup x) then Some (s_generation (x_sup x)) else None)
     \<and> (\<forall>g. Installed g \<in> set (x_trace x) \<longrightarrow> g \<le> s_generation (x_sup x))"

definition starters_inv :: "supRun \<Rightarrow> bool" where
  "starters_inv x \<longleftrightarrow> distinct (map sr_generation (x_starters x))
     \<and> length (filter sr_runner (x_starters x)) = (if x_runner x = Starting then 1 else 0)
     \<and> (\<forall>r \<in> set (x_starters x). sr_generation r \<le> s_generation (x_sup x)
          \<and> (sr_phase r \<noteq> Notifying \<longrightarrow> Installed (sr_generation r) \<notin> set (x_trace x)))"

definition link_inv :: "supRun \<Rightarrow> bool" where
  "link_inv x \<longleftrightarrow> (s_acceptFrames (x_sup x) \<longrightarrow>
     s_link (x_sup x) = Some (s_generation (x_sup x)) \<and> \<not> s_closed (x_sup x) \<and> \<not> s_degraded (x_sup x))"

definition budget_inv :: "supRun \<Rightarrow> bool" where
  "budget_inv x \<longleftrightarrow> 0 < rp_MaxRestarts (s_policy (x_sup x)) \<and> 0 < rp_Window (s_policy (x_sup x)) \<and> sorted (x_charged x) \<and> (\<forall>t \<in> set (x_charged x). t \<le> x_now x)
     \<and> (s_link (x_sup x) \<noteq> None \<longrightarrow> s_healthySince (x_sup x) \<le> x_now x \<and> (\<forall>t \<in> set (x_charged x). t \<le> s_healthySince (x_sup x)))
     \<and> (rp_Window (s_policy (x_sup x)) \<le> rp_HealthyReset (s_policy (x_sup x)) \<longrightarrow>
          budget_ok (s_policy (x_sup x)) (x_charged x)
          \<and> (\<exists>k. s_restarts (x_sup x) = drop k (x_charged x)
                \<and> (\<forall>t \<in> set (take k (x_charged x)). t \<le> x_now x - rp_Window (s_policy (x_sup x)))))"

definition busy :: "supRun \<Rightarrow> bool" where
  "busy x \<longleftrightarrow> (\<exists>c. x_runner x = Cleaning c) \<or> x_runner x = Waiting \<or> (\<exists>r \<in> set (x_starters x). sr_phase r \<noteq> Notifying)"

definition attended_inv :: "supRun \<Rightarrow> bool" where
  "attended_inv x \<longleftrightarrow> s_acceptFrames (x_sup x) \<or> s_closed (x_sup x) \<or> s_degraded (x_sup x) \<or> s_restartWake (x_sup x) \<or> busy x
     \<or> \<not> x_started x \<or> x_startFailed x"

definition sup_inv :: "supRun \<times> rendererCheckpointQuota \<Rightarrow> bool" where
  [inv_defs]: "sup_inv a \<longleftrightarrow> trace_inv (fst a) \<and> starters_inv (fst a) \<and> link_inv (fst a) \<and> budget_inv (fst a) \<and> attended_inv (fst a)"

lemma current_installed: "current t = Some g \<Longrightarrow> Installed g \<in> set t"
  by (induction t rule: current.induct) auto

section \<open>Quiet steps\<close>

text \<open>Most steps change nothing that the invariant speaks of.\<close>

definition same_core :: "rendererSupervisor \<Rightarrow> rendererSupervisor \<Rightarrow> bool" where
  "same_core s t \<longleftrightarrow> s_generation t = s_generation s \<and> s_acceptFrames t = s_acceptFrames s \<and> s_closed t = s_closed s
     \<and> s_degraded t = s_degraded s \<and> s_link t = s_link s \<and> s_restarts t = s_restarts s \<and> s_healthySince t = s_healthySince s
     \<and> s_policy t = s_policy s \<and> (s_restartWake s \<longrightarrow> s_restartWake t)"

lemma publish_selectors [simp]:
  "s_generation (publishStatusLocked now st s) = s_generation s" "s_acceptFrames (publishStatusLocked now st s) = s_acceptFrames s"
  "s_closed (publishStatusLocked now st s) = s_closed s" "s_degraded (publishStatusLocked now st s) = s_degraded s"
  "s_link (publishStatusLocked now st s) = s_link s" "s_restarts (publishStatusLocked now st s) = s_restarts s"
  "s_healthySince (publishStatusLocked now st s) = s_healthySince s" "s_policy (publishStatusLocked now st s) = s_policy s"
  "s_restartWake (publishStatusLocked now st s) = s_restartWake s" "s_checkpoint (publishStatusLocked now st s) = s_checkpoint s"
  by (simp_all add: publishStatusLocked_def)

lemma wake_selectors [simp]:
  "s_generation (wake s) = s_generation s" "s_acceptFrames (wake s) = s_acceptFrames s" "s_closed (wake s) = s_closed s"
  "s_degraded (wake s) = s_degraded s" "s_link (wake s) = s_link s" "s_restarts (wake s) = s_restarts s"
  "s_healthySince (wake s) = s_healthySince s" "s_policy (wake s) = s_policy s" "s_restartWake (wake s)" "s_checkpoint (wake s) = s_checkpoint s"
  by (simp_all add: wake_def)

lemma notice_core: "same_core s (fst (noticeLocked now cause s))"
  by (simp add: noticeLocked_def same_core_def)

lemma same_core_refl: "same_core s s"
  by (simp add: same_core_def)

lemma quiet_core:
  "same_core s (Restart s)" "same_core s (fst (send_check now event s))" "same_core s (fst (send_wait now deadline s))"
  "same_core s (fst (capture_begin s))" "same_core s (fst (capture_commit me link generation checkpoint s q))"
  "same_core s (checkpoint_done failed s)" "same_core s (fst (restoreCheckpoint cd build me ck s q))"
  "same_core s (restoreColors colors s)" "same_core s (checkpoint_mutation s)" "same_core s (fst (maybeCheckpoint now s))"
  "same_core s (s\<lparr>s_journal := j\<rparr>)" "same_core s (wake s)" "same_core s (start_spawn_failed now err s)"
  "frame_publish now g revision s = Some s' \<Longrightarrow> same_core s s'"
proof -
  show "same_core s (fst (send_check now event s))"
    using notice_core [of s now errRendererDegraded] same_core_refl [of s]
    by (auto simp: send_check_def split: option.splits prod.splits if_splits)
  show "same_core s (fst (send_wait now deadline s))"
    using notice_core [of s now errRendererUnavailable] same_core_refl [of s] by (auto simp: send_wait_def split: prod.splits)
  show "same_core s (fst (capture_commit me link generation checkpoint s q))"
    by (auto simp: capture_commit_def same_core_def split: prod.splits bool.splits option.splits)
  show "same_core s (fst (restoreCheckpoint cd build me ck s q))"
    by (auto simp: restoreCheckpoint_def same_core_def split: prod.splits bool.splits option.splits)
  show "same_core s s'" if "frame_publish now g revision s = Some s'"
    using that by (auto simp: frame_publish_def Let_def same_core_def split: if_splits option.splits)
qed (auto simp: same_core_def Restart_def capture_begin_def checkpoint_done_def restoreColors_def checkpoint_mutation_def maybeCheckpoint_def
    start_spawn_failed_def)

lemma same_core_trans: "same_core s t \<Longrightarrow> same_core t u \<Longrightarrow> same_core s u"
  by (simp add: same_core_def)

definition quiet :: "supRun \<Rightarrow> supRun \<Rightarrow> bool" where
  "quiet x y \<longleftrightarrow> same_core (x_sup x) (x_sup y) \<and> x_now x \<le> x_now y \<and> x_trace y = x_trace x \<and> x_charged y = x_charged x
     \<and> x_starters y = x_starters x \<and> x_started y = x_started x \<and> x_startFailed y = x_startFailed x \<and> (busy x \<longrightarrow> busy y \<or> s_closed (x_sup x))
     \<and> (x_runner y = Starting \<longleftrightarrow> x_runner x = Starting)"

lemma quiet_inv:
  assumes "sup_inv (x, q)" "quiet x y"
  shows "sup_inv (y, q')"
proof -
  have s: "s_generation (x_sup y) = s_generation (x_sup x)" "s_acceptFrames (x_sup y) = s_acceptFrames (x_sup x)"
    "s_closed (x_sup y) = s_closed (x_sup x)" "s_degraded (x_sup y) = s_degraded (x_sup x)" "s_link (x_sup y) = s_link (x_sup x)"
    "s_restarts (x_sup y) = s_restarts (x_sup x)" "s_healthySince (x_sup y) = s_healthySince (x_sup x)" "s_policy (x_sup y) = s_policy (x_sup x)"
    "s_restartWake (x_sup x) \<Longrightarrow> s_restartWake (x_sup y)"
    "x_trace y = x_trace x" "x_charged y = x_charged x" "x_starters y = x_starters x" "x_started y = x_started x" "x_startFailed y = x_startFailed x"
    "x_runner y = Starting \<longleftrightarrow> x_runner x = Starting"
    and n: "x_now x \<le> x_now y" and b: "busy x \<Longrightarrow> busy y \<or> s_closed (x_sup x)"
    using assms(2) unfolding quiet_def same_core_def by blast+
  have i: "trace_inv x" "starters_inv x" "link_inv x" "budget_inv x" "attended_inv x" using assms(1) by (simp_all add: sup_inv_def)
  have "trace_inv y" "starters_inv y" "link_inv y" using i(1-3) unfolding trace_inv_def starters_inv_def link_inv_def s by auto
  moreover have "budget_inv y"
  proof -
    have le: "\<And>t. t \<le> x_now x \<Longrightarrow> t \<le> x_now y" "\<And>t w. t \<le> x_now x - w \<Longrightarrow> t \<le> x_now y - w" using n by auto
    show ?thesis using i(4) le unfolding budget_inv_def s by blast
  qed
  moreover have "attended_inv y" using i(5) b s(9) unfolding attended_inv_def s by blast
  ultimately show ?thesis by (simp add: sup_inv_def)
qed

section \<open>Starts\<close>

lemma begin_start_inv:
  assumes "sup_inv (x, q)" "start_begin (x_sup x) = Some s" "s_generation (x_sup x) \<noteq> - 1" "runner \<longrightarrow> x_runner x = Waiting"
  shows "sup_inv ((begin_start runner s x)\<lparr>x_runner := (if runner then Starting else x_runner x), x_started := st\<rparr>, q')"
proof -
  have s: "s = (x_sup x)\<lparr>s_generation := s_generation (x_sup x) + 1, s_acceptFrames := False\<rparr>"
    using assms(2) by (auto simp: start_begin_def split: if_splits)
  have less: "s_generation (x_sup x) < s_generation (x_sup x) + 1" by (rule less_plus_one [OF assms(3)])
  have old: "g \<le> s_generation (x_sup x) \<Longrightarrow> g < s_generation (x_sup x) + 1" for g by (rule order_le_less_trans [OF _ less])
  have i: "trace_inv x" "starters_inv x" "budget_inv x" using assms(1) by (simp_all add: sup_inv_def)
  let ?y = "(begin_start runner s x)\<lparr>x_runner := (if runner then Starting else x_runner x), x_started := st\<rparr>"
  have t: "trace_inv ?y" using i(1) old by (auto simp: trace_inv_def begin_start_def s intro: less_imp_le)
  have new: "s_generation (x_sup x) + 1 \<notin> sr_generation ` set (x_starters x)"
    using i(2) old by (force simp: starters_inv_def)
  have none: "Installed (s_generation (x_sup x) + 1) \<notin> set (x_trace x)" using i(1) old by (force simp: trace_inv_def)
  have "starters_inv ?y"
    using i(2) new none old assms(4) by (auto simp: starters_inv_def begin_start_def s intro: less_imp_le)
  moreover have "link_inv ?y" by (simp add: link_inv_def begin_start_def s)
  moreover have "budget_inv ?y" using i(3) by (simp add: budget_inv_def begin_start_def s)
  moreover have "attended_inv ?y" by (simp add: attended_inv_def busy_def begin_start_def)
  ultimately show ?thesis using t by (simp add: sup_inv_def)
qed

lemma set_phase_inv:
  assumes "sup_inv (x, q)" "x_starters x = before @ r # after" "sr_phase r \<noteq> Notifying" "phase \<noteq> Notifying"
  shows "sup_inv (set_phase before r after phase x, q')"
  using assms
  by (auto simp: sup_inv_def set_phase_def trace_inv_def starters_inv_def link_inv_def budget_inv_def attended_inv_def busy_def)

lemma core_trace: "trace_inv x \<Longrightarrow> same_core (x_sup x) (x_sup y) \<Longrightarrow> x_trace y = x_trace x \<Longrightarrow> trace_inv y"
  by (simp add: trace_inv_def same_core_def)

lemma core_link: "link_inv x \<Longrightarrow> same_core (x_sup x) (x_sup y) \<Longrightarrow> link_inv y"
  by (simp add: link_inv_def same_core_def)

lemma core_budget:
  "budget_inv x \<Longrightarrow> same_core (x_sup x) (x_sup y) \<Longrightarrow> x_charged y = x_charged x \<Longrightarrow> x_now y = x_now x \<Longrightarrow> budget_inv y"
  by (simp add: budget_inv_def same_core_def)

lemma end_start_inv:
  assumes "sup_inv (x, q)" "x_starters x = before @ r # after" "same_core (x_sup x) s" "ok \<longrightarrow> sr_phase r = Notifying"
  shows "sup_inv (end_start before r after ok s x, q')"
proof -
  let ?y = "end_start before r after ok s x"
  have i: "trace_inv x" "starters_inv x" "link_inv x" "budget_inv x" "attended_inv x" using assms(1) by (simp_all add: sup_inv_def)
  have c: "same_core (x_sup x) (x_sup ?y)"
    using assms(3) quiet_core(12) [of s] by (auto simp: end_start_def intro: same_core_trans)
  have f: "x_trace ?y = x_trace x" "x_charged ?y = x_charged x" "x_now ?y = x_now x" "x_starters ?y = before @ after"
    by (simp_all add: end_start_def)
  have "starters_inv ?y" using i(2) assms(2,3) by (auto simp: starters_inv_def end_start_def same_core_def split: if_splits)
  moreover have "attended_inv ?y"
  proof (cases ok)
    case False
    then show ?thesis by (simp add: attended_inv_def end_start_def)
  next
    case True
    have "sr_runner r \<Longrightarrow> x_runner x = Starting" using i(2) assms(2) by (auto simp: starters_inv_def split: if_splits)
    then have "busy x \<Longrightarrow> busy ?y" using assms(2,4) True by (auto simp: busy_def end_start_def)
    moreover have "x_started ?y = x_started x" "x_startFailed ?y = x_startFailed x" using True by (simp_all add: end_start_def)
    ultimately show ?thesis using i(5) c unfolding attended_inv_def same_core_def by metis
  qed
  ultimately show ?thesis using core_trace [OF i(1) c f(1)] core_link [OF i(3) c] core_budget [OF i(4) c f(2,3)] by (simp add: sup_inv_def)
qed

lemma init_failed_core:
  assumes "sup_inv (x, q)" "r \<in> set (x_starters x)" "sr_phase r \<noteq> Notifying"
  shows "same_core (x_sup x) (start_init_failed now (sr_generation r) err mismatch (x_sup x))"
proof -
  have "\<not> s_acceptFrames (x_sup x)" if "sr_generation r = s_generation (x_sup x)"
  proof
    assume "s_acceptFrames (x_sup x)"
    then have "Installed (sr_generation r) \<in> set (x_trace x)"
      using assms(1) that by (auto simp: sup_inv_def trace_inv_def intro: current_installed)
    then show False using assms by (auto simp: sup_inv_def starters_inv_def)
  qed
  then show ?thesis by (auto simp: start_init_failed_def same_core_def Let_def)
qed

lemma install_inv:
  assumes "sup_inv (x, q)" "x_starters x = before @ r # after" "sr_phase r \<noteq> Notifying" "\<not> start_superseded (sr_generation r) (x_sup x)"
  shows "sup_inv (mark True (Installed (sr_generation r)) (set_phase before r after Notifying
    (x\<lparr>x_sup := start_install (x_now x) (sr_generation r) journal initialized (x_sup x)\<rparr>)), q')"
proof -
  let ?s = "start_install (x_now x) (sr_generation r) journal initialized (x_sup x)"
  let ?y = "mark True (Installed (sr_generation r)) (set_phase before r after Notifying (x\<lparr>x_sup := ?s\<rparr>))"
  have i: "trace_inv x" "starters_inv x" "budget_inv x" using assms(1) by (simp_all add: sup_inv_def)
  have g: "sr_generation r = s_generation (x_sup x)" "\<not> s_closed (x_sup x)" using assms(4) by (auto simp: start_superseded_def)
  have s: "s_generation ?s = s_generation (x_sup x)" "s_acceptFrames ?s" "s_link ?s = Some (s_generation (x_sup x))" "\<not> s_closed ?s"
    "\<not> s_degraded ?s" "s_restarts ?s = s_restarts (x_sup x)" "s_healthySince ?s = x_now x" "s_policy ?s = s_policy (x_sup x)"
    using g by (simp_all add: start_install_def)
  have y: "x_sup ?y = ?s" "x_trace ?y = Installed (s_generation (x_sup x)) # x_trace x" "x_charged ?y = x_charged x" "x_now ?y = x_now x"
    "x_starters ?y = before @ r\<lparr>sr_phase := Notifying\<rparr> # after" "x_runner ?y = x_runner x"
    by (simp_all add: mark_def set_phase_def g(1))
  have fresh: "Installed (s_generation (x_sup x)) \<notin> set (x_trace x)" using i(2) assms(2,3) g(1) by (auto simp: starters_inv_def)
  have "h < s_generation (x_sup x)" if "Installed h \<in> set (x_trace x)" for h
    using i(1) that fresh by (metis trace_inv_def order_le_imp_less_or_eq)
  then have "trace_inv ?y" using i(1) s(1,2) unfolding trace_inv_def y by auto
  moreover have "starters_inv ?y"
  proof -
    have o: "distinct (map sr_generation (before @ r # after))" "length (filter sr_runner (before @ r # after)) = (if x_runner x = Starting then 1 else 0)"
      "\<forall>p \<in> set (before @ r # after). sr_generation p \<le> s_generation (x_sup x) \<and> (sr_phase p \<noteq> Notifying \<longrightarrow> Installed (sr_generation p) \<notin> set (x_trace x))"
      using i(2) unfolding starters_inv_def assms(2) by blast+
    have "sr_generation p \<noteq> s_generation (x_sup x)" if "p \<in> set before \<union> set after" for p using o(1) that g(1) by force
    then show ?thesis using o unfolding starters_inv_def y s(1) by (auto split: if_splits)
  qed
  moreover have "link_inv ?y" using s unfolding link_inv_def y by simp
  moreover have "budget_inv ?y" using i(3) unfolding budget_inv_def y s by auto
  moreover have "attended_inv ?y" using s(2) unfolding attended_inv_def y by simp
  ultimately show ?thesis by (simp add: sup_inv_def)
qed

lemma request_inv:
  assumes "sup_inv (x, q)" "requestRestart now err (x_sup x) = (s, sent)"
  shows "sup_inv (mark sent Stale (x\<lparr>x_sup := s\<rparr>), q')"
proof (cases sent)
  case False
  then have "s = x_sup x" using assms(2) by (auto simp: requestRestart_def Let_def split: if_splits)
  then show ?thesis using assms(1) False by (simp add: mark_def sup_inv_def)
next
  case True
  have s: "s_generation s = s_generation (x_sup x)" "\<not> s_acceptFrames s" "s_link s = s_link (x_sup x)" "s_restarts s = s_restarts (x_sup x)"
    "s_healthySince s = s_healthySince (x_sup x)" "s_policy s = s_policy (x_sup x)" "s_restartWake s"
    using assms(2) True by (auto simp: requestRestart_def Let_def split: if_splits option.splits)
  show ?thesis using assms(1) s True
    by (auto simp: sup_inv_def mark_def trace_inv_def starters_inv_def link_inv_def budget_inv_def attended_inv_def busy_def)
qed

lemma start_step_inv:
  assumes "start_step before r after x y" "x_starters x = before @ r # after" "sup_inv (x, q)"
  shows "sup_inv (y, q)"
  using assms(1)
proof cases
  case (spawn_failed err)
  then show ?thesis using end_start_inv [OF assms(3,2) quiet_core(13), where ok = False] by simp
next
  case (init_failed journal revision err)
  have "r \<in> set (x_starters x)" using assms(2) by simp
  then show ?thesis using init_failed end_start_inv [OF assms(3,2) init_failed_core [OF assms(3)], where ok = False] by simp
next
  case (init_refused journal revision reply err mismatch)
  have "r \<in> set (x_starters x)" using assms(2) by simp
  then show ?thesis using init_refused end_start_inv [OF assms(3,2) init_failed_core [OF assms(3)], where ok = False] by simp
next
  case (installed journal initialized revision)
  then show ?thesis using install_inv [OF assms(3,2)] by simp
next
  case (notify_failed err s sent)
  have i: "sup_inv (mark sent Stale (x\<lparr>x_sup := s\<rparr>), q)" by (rule request_inv [OF assms(3) notify_failed(3)])
  have e: "mark sent Stale (end_start before r after False s x) = end_start before r after False s (mark sent Stale (x\<lparr>x_sup := s\<rparr>))"
    by (simp add: mark_def end_start_def)
  show ?thesis unfolding notify_failed(1) e
    by (rule end_start_inv [OF i]) (use assms(2) in \<open>auto simp: mark_def same_core_refl\<close>)
qed (use assms(2,3) same_core_refl in \<open>auto intro!: set_phase_inv end_start_inv\<close>)

section \<open>The restart budget\<close>

text \<open>Forgetting the old restarts keeps exactly the charged ones inside the window.\<close>

lemma sorted_filter_drop:
  fixes c :: int
  assumes "sorted xs"
  shows "\<exists>k. filter (\<lambda>t. t > c) xs = drop k xs \<and> (\<forall>t \<in> set (take k xs). t \<le> c)"
  using assms
proof (induction xs)
  case (Cons a xs)
  show ?case
  proof (cases "a > c")
    case True
    then have "filter (\<lambda>t. t > c) (a # xs) = a # xs" using Cons.prems by (auto simp: filter_id_conv)
    then show ?thesis by (intro exI [of _ 0]) simp
  next
    case False
    obtain k where "filter (\<lambda>t. t > c) xs = drop k xs" "\<forall>t \<in> set (take k xs). t \<le> c" using Cons by auto
    with False show ?thesis by (intro exI [of _ "Suc k"]) auto
  qed
qed simp

lemma filter_window:
  fixes c :: int
  assumes "sorted xs" "\<forall>t \<in> set (take k xs). t \<le> c"
  shows "filter (\<lambda>t. t > c) (drop k xs) = filter (\<lambda>t. t > c) xs"
proof -
  have "filter (\<lambda>t. t > c) (take k xs) = []" using assms(2) by (auto simp: filter_empty_conv not_less)
  then show ?thesis by (metis append_self_conv2 append_take_drop_id filter_append)
qed

lemma budget_ok_snoc:
  assumes "budget_ok p charged" "int (length (filter (\<lambda>t. t > now - rp_Window p) charged)) < rp_MaxRestarts p" "0 < rp_Window p"
  shows "budget_ok p (charged @ [now])"
  using assms by (auto simp: budget_ok_def nth_append less_Suc_eq)

text \<open>A decision of the policy and what it leaves of the record of restarts.\<close>

lemma plan_result:
  assumes "planRestartLocked now stats s = (plan, s1)"
  shows "s1 = s\<lparr>s_restarts := filter (\<lambda>t. t > now - rp_Window (s_policy s)) (s_restarts s), s_forceRestart := False\<rparr>"
    "pl_charge plan \<Longrightarrow> int (length (filter (\<lambda>t. t > now - rp_Window (s_policy s)) (s_restarts s))) < rp_MaxRestarts (s_policy s)"
    "s_forceRestart s \<Longrightarrow> pl_allowed plan" "pl_charge plan \<Longrightarrow> pl_allowed plan"
  using assms by (auto simp: planRestartLocked_def Let_def split: if_splits)

lemma restart_result:
  assumes "restart_begin me now s q = (t, q', Some (plan, attempt))"
  shows "\<not> s_closed s" "s_link t = None" "\<not> s_acceptFrames t" "s_closed t = s_closed s" "s_generation t = s_generation s"
    "s_policy t = s_policy s" "\<not> pl_allowed plan \<Longrightarrow> s_degraded t"
    "s_restarts t = filter (\<lambda>x. x > now - rp_Window (s_policy s)) (s_restarts s) @ (if pl_charge plan then [now] else [])"
    "pl_charge plan \<Longrightarrow> int (length (filter (\<lambda>x. x > now - rp_Window (s_policy s)) (s_restarts s))) < rp_MaxRestarts (s_policy s)"
    "s_forceRestart s \<Longrightarrow> pl_allowed plan"
proof -
  obtain s1 where p: "planRestartLocked now (JournalStats (s_journal s)) s = (plan, s1)" and c: "\<not> s_closed s"
    using assms by (auto simp: restart_begin_def Let_def split: if_splits prod.splits)
  note r = plan_result [OF p]
  show "\<not> s_closed s" by (rule c)
  show "s_link t = None" "\<not> s_acceptFrames t" "s_closed t = s_closed s" "s_generation t = s_generation s" "s_policy t = s_policy s"
    "\<not> pl_allowed plan \<Longrightarrow> s_degraded t"
    "s_restarts t = filter (\<lambda>x. x > now - rp_Window (s_policy s)) (s_restarts s) @ (if pl_charge plan then [now] else [])"
    using assms c p r(1,4) by (auto simp: restart_begin_def Let_def enterDegradedLocked_def split: if_splits prod.splits)
  show "pl_charge plan \<Longrightarrow> int (length (filter (\<lambda>x. x > now - rp_Window (s_policy s)) (s_restarts s))) < rp_MaxRestarts (s_policy s)"
    by (rule r(2))
  show "s_forceRestart s \<Longrightarrow> pl_allowed plan" by (rule r(3))
qed

lemma restart_budget_inv:
  assumes "budget_inv x" "restart_begin me (x_now x) ((x_sup x)\<lparr>s_restartWake := False\<rparr>) q = (s, q', Some (plan, attempt))"
    "x_sup y = s" "x_now y = x_now x" "x_charged y = x_charged x @ (if pl_charge plan then [x_now x] else [])"
  shows "budget_inv y"
proof -
  let ?p = "s_policy (x_sup x)" and ?c = "x_now x - rp_Window (s_policy (x_sup x))"
  note r = restart_result [OF assms(2), simplified]
  have b: "0 < rp_MaxRestarts ?p" "0 < rp_Window ?p" "sorted (x_charged x)" "\<forall>t \<in> set (x_charged x). t \<le> x_now x"
    using assms(1) by (simp_all add: budget_inv_def)
  have "budget_ok ?p (x_charged y) \<and> (\<exists>k. s_restarts s = drop k (x_charged y) \<and> (\<forall>t \<in> set (take k (x_charged y)). t \<le> ?c))"
    if w: "rp_Window ?p \<le> rp_HealthyReset ?p"
  proof -
    obtain k where k: "s_restarts (x_sup x) = drop k (x_charged x)" "\<forall>t \<in> set (take k (x_charged x)). t \<le> ?c" "budget_ok ?p (x_charged x)"
      using assms(1) w by (auto simp: budget_inv_def)
    have f: "filter (\<lambda>t. t > ?c) (s_restarts (x_sup x)) = filter (\<lambda>t. t > ?c) (x_charged x)"
      unfolding k(1) by (rule filter_window [OF b(3) k(2)])
    obtain m where m: "filter (\<lambda>t. t > ?c) (x_charged x) = drop m (x_charged x)" "\<forall>t \<in> set (take m (x_charged x)). t \<le> ?c"
      using sorted_filter_drop [OF b(3), of ?c] by blast
    have "budget_ok ?p (x_charged y)"
      using budget_ok_snoc [OF k(3), of "x_now x"] b(2) r(9) k(3) f by (auto simp: assms(5))
    moreover have "s_restarts s = drop (min m (length (x_charged x))) (x_charged y)"
      using r(8) f m(1) by (simp add: assms(5) min_def)
    moreover have "take (min m (length (x_charged x))) (x_charged y) = take m (x_charged x)" by (simp add: assms(5) min_def)
    ultimately show ?thesis using m(2) by metis
  qed
  moreover have "sorted (x_charged y)" "\<forall>t \<in> set (x_charged y). t \<le> x_now x" using b(3,4) by (auto simp: assms(5) sorted_append)
  ultimately show ?thesis using b(1,2) r(2,6) unfolding budget_inv_def assms(3,4) by simp
qed

lemma restart_sup_inv:
  assumes "sup_inv (x, q)" "x_runner x = Idle"
    "restart_begin me (x_now x) ((x_sup x)\<lparr>s_restartWake := False\<rparr>) q = (s, q', Some (plan, attempt))"
  shows "sup_inv (mark True Stale (x\<lparr>x_sup := s, x_runner := (if pl_allowed plan then Cleaning (pl_clean plan) else Idle),
    x_charged := x_charged x @ (if pl_charge plan then [x_now x] else [])\<rparr>), q')"
proof -
  let ?y = "mark True Stale (x\<lparr>x_sup := s, x_runner := (if pl_allowed plan then Cleaning (pl_clean plan) else Idle),
    x_charged := x_charged x @ (if pl_charge plan then [x_now x] else [])\<rparr>)"
  have y: "x_sup ?y = s" "x_now ?y = x_now x" "x_charged ?y = x_charged x @ (if pl_charge plan then [x_now x] else [])"
    "x_trace ?y = Stale # x_trace x" "x_starters ?y = x_starters x" "x_runner ?y = (if pl_allowed plan then Cleaning (pl_clean plan) else Idle)"
    by (simp_all add: mark_def)
  note r = restart_result [OF assms(3), simplified]
  have i: "trace_inv x" "starters_inv x" "budget_inv x" using assms(1) by (simp_all add: sup_inv_def)
  have "trace_inv ?y" using i(1) r(3,5) unfolding trace_inv_def y by auto
  moreover have "starters_inv ?y" using i(2) assms(2) r(5) unfolding starters_inv_def y by auto
  moreover have "link_inv ?y" using r(3) unfolding link_inv_def y by simp
  moreover have "budget_inv ?y" by (rule restart_budget_inv [OF i(3) assms(3) y(1-3)])
  moreover have "attended_inv ?y" using r(7) unfolding attended_inv_def busy_def y by auto
  ultimately show ?thesis by (simp add: sup_inv_def)
qed

lemma tick_inv:
  assumes "sup_inv (x, q)" "x_runner x = Idle" "tick_begin (x_now x) (x_sup x) = (s, Some seen)"
  shows "sup_inv (x\<lparr>x_sup := s, x_runner := Ticking seen\<rparr>, q')"
proof (cases "s_link (x_sup x) \<noteq> None \<and> s_acceptFrames (x_sup x) \<and> s_restarts (x_sup x) \<noteq> []
    \<and> x_now x - s_healthySince (x_sup x) \<ge> rp_HealthyReset (s_policy (x_sup x))")
  case False
  then have "same_core (x_sup x) s" using assms(3) by (auto simp: tick_begin_def Let_def same_core_def split: if_splits)
  then show ?thesis by (intro quiet_inv [OF assms(1)]) (auto simp: quiet_def assms(2) busy_def)
next
  case True
  have s: "s_generation s = s_generation (x_sup x)" "s_acceptFrames s = s_acceptFrames (x_sup x)" "s_closed s = s_closed (x_sup x)"
    "s_degraded s = s_degraded (x_sup x)" "s_link s = s_link (x_sup x)" "s_restarts s = []" "s_healthySince s = s_healthySince (x_sup x)"
    "s_policy s = s_policy (x_sup x)" using assms(3) True by (auto simp: tick_begin_def Let_def split: if_splits)
  let ?y = "x\<lparr>x_sup := s, x_runner := Ticking seen\<rparr>"
  have i: "trace_inv x" "starters_inv x" "link_inv x" "budget_inv x" using assms(1) by (simp_all add: sup_inv_def)
  have old: "t \<le> x_now x - rp_Window (s_policy (x_sup x))"
    if "rp_Window (s_policy (x_sup x)) \<le> rp_HealthyReset (s_policy (x_sup x))" "t \<in> set (x_charged x)" for t
    using i(4) True that unfolding budget_inv_def by force
  have "trace_inv ?y" using i(1) by (simp add: trace_inv_def s)
  moreover have "starters_inv ?y" using i(2) assms(2) by (simp add: starters_inv_def s)
  moreover have "link_inv ?y" using i(3) by (simp add: link_inv_def s)
  moreover have "budget_inv ?y"
    using i(4) old by (auto simp: budget_inv_def s intro!: exI [of _ "length (x_charged x)"])
  moreover have "attended_inv ?y" using True by (simp add: attended_inv_def s)
  ultimately show ?thesis by (simp add: sup_inv_def)
qed

lemma close_sup_inv:
  assumes "sup_inv (x, q)" "Close_supervisor me now (x_sup x) q = (s, q')"
  shows "sup_inv (mark (\<not> s_closed (x_sup x)) Shut (x\<lparr>x_sup := s\<rparr>), q'')"
proof (cases "s_closed (x_sup x)")
  case True
  then have "s = x_sup x" using assms(2) by (simp add: Close_supervisor_def)
  then show ?thesis using assms(1) True by (simp add: mark_def sup_inv_def)
next
  case False
  have s: "s_closed s" "\<not> s_acceptFrames s" "s_link s = None" "s_generation s = s_generation (x_sup x)" "s_restarts s = s_restarts (x_sup x)"
    "s_policy s = s_policy (x_sup x)" using assms(2) False by (auto simp: Close_supervisor_def)
  let ?y = "mark (\<not> s_closed (x_sup x)) Shut (x\<lparr>x_sup := s\<rparr>)"
  have y: "x_sup ?y = s" "x_trace ?y = Shut # x_trace x" "x_starters ?y = x_starters x" "x_runner ?y = x_runner x" "x_charged ?y = x_charged x"
    "x_now ?y = x_now x" using False by (simp_all add: mark_def)
  have i: "trace_inv x" "starters_inv x" "budget_inv x" using assms(1) by (simp_all add: sup_inv_def)
  have "trace_inv ?y" using i(1) s(2) unfolding trace_inv_def y s(4) by simp
  moreover have "starters_inv ?y" using i(2) unfolding starters_inv_def y s(4) by simp
  moreover have "link_inv ?y" using s(2) unfolding link_inv_def y by simp
  moreover have "budget_inv ?y" using i(3) unfolding budget_inv_def y s(3,5,6) by blast
  moreover have "attended_inv ?y" using s(1) unfolding attended_inv_def y by simp
  ultimately show ?thesis by (simp add: sup_inv_def)
qed

section \<open>All steps\<close>

lemma quietI:
  assumes "same_core (x_sup x) (x_sup y)" "x_now x \<le> x_now y" "x_trace y = x_trace x" "x_charged y = x_charged x"
    "x_starters y = x_starters x" "x_started y = x_started x" "x_startFailed y = x_startFailed x" "x_runner y = x_runner x"
  shows "quiet x y"
  using assms by (simp add: quiet_def busy_def)

lemma runner_step_inv:
  assumes "runner_step me a b" "sup_inv a"
  shows "sup_inv b"
  using assms(1)
proof cases
  case (restart x q s q' plan attempt)
  then show ?thesis using assms(2) restart_sup_inv by blast
next
  case (start x s q)
  have "sup_inv ((begin_start True s x)\<lparr>x_runner := Starting, x_started := x_started x\<rparr>, q)"
    using begin_start_inv [where runner = True and st = "x_started x" and q' = q] start assms(2) by auto
  then show ?thesis using start by (simp add: begin_start_def)
next
  case (tick x s seen q)
  then show ?thesis using assms(2) tick_inv by blast
next
  case (tick_fail x seen failure err s sent q)
  have quiet: "quiet x (x\<lparr>x_runner := Idle\<rparr>)" by (simp add: quiet_def same_core_refl busy_def tick_fail)
  have "sup_inv (x\<lparr>x_runner := Idle\<rparr>, q)" using quiet_inv [OF _ quiet] assms(2) tick_fail(1) by blast
  then have "sup_inv (mark sent Stale (x\<lparr>x_runner := Idle, x_sup := s\<rparr>), q)" by (rule request_inv) (use tick_fail in simp)
  moreover have "x\<lparr>x_runner := Idle, x_sup := s\<rparr> = x\<lparr>x_sup := s, x_runner := Idle\<rparr>" by simp
  ultimately show ?thesis using tick_fail(2) by metis
next
  case (restart_closed x q)
  then show ?thesis using assms(2)
    by (auto simp: sup_inv_def trace_inv_def starters_inv_def link_inv_def budget_inv_def attended_inv_def)
next
  case (clean x c q)
  show ?thesis unfolding clean(2) by (rule quiet_inv [OF assms(2) [unfolded clean(1)]])
    (simp add: quiet_def busy_def clean(3) quiet_core(11) same_core_refl)
next
  case (wait_closed x q)
  show ?thesis unfolding wait_closed(2) by (rule quiet_inv [OF assms(2) [unfolded wait_closed(1)]])
    (simp add: quiet_def wait_closed(3,4) same_core_refl)
next
  case (start_closed x q)
  then have "s_closed (x_sup x)" by (simp add: start_begin_def split: if_splits)
  then show ?thesis unfolding start_closed(2)
    by (intro quiet_inv [OF assms(2) [unfolded start_closed(1)]]) (simp add: quiet_def start_closed(3) quiet_core(12))
next
  case (tick_restart x seen failure q)
  show ?thesis unfolding tick_restart(2) by (rule quiet_inv [OF assms(2) [unfolded tick_restart(1)]])
    (simp add: quiet_def busy_def tick_restart(3) quiet_core(1))
next
  case (tick_checkpoint x seen failure q)
  show ?thesis unfolding tick_checkpoint(2) by (rule quiet_inv [OF assms(2) [unfolded tick_checkpoint(1)]])
    (simp add: quiet_def busy_def tick_checkpoint(3) quiet_core(10))
next
  case (tick_nothing x seen failure q)
  show ?thesis unfolding tick_nothing(2) by (rule quiet_inv [OF assms(2) [unfolded tick_nothing(1)]])
    (simp add: quiet_def busy_def tick_nothing(3) same_core_refl)
next
  case (stop x q)
  show ?thesis unfolding stop(2) by (rule quiet_inv [OF assms(2) [unfolded stop(1)]])
    (simp add: quiet_def stop(3,4) same_core_refl)
qed

lemma published_inv:
  assumes "sup_inv (x, q)" "current (x_trace x) = Some g"
  shows "sup_inv (mark True (Published g) x, q')"
proof -
  let ?y = "mark True (Published g) x"
  have y: "x_sup ?y = x_sup x" "x_trace ?y = Published g # x_trace x" "x_starters ?y = x_starters x" "x_runner ?y = x_runner x"
    "x_charged ?y = x_charged x" "x_now ?y = x_now x" "x_started ?y = x_started x" "x_startFailed ?y = x_startFailed x"
    by (simp_all add: mark_def)
  have i: "trace_inv x" "starters_inv x" "link_inv x" "budget_inv x" "attended_inv x" using assms(1) by (simp_all add: sup_inv_def)
  have "trace_inv ?y" using i(1) assms(2) unfolding trace_inv_def y by simp
  moreover have "starters_inv ?y" using i(2) unfolding starters_inv_def y by simp
  moreover have "link_inv ?y" "budget_inv ?y" "attended_inv ?y"
    using i(3-5) unfolding link_inv_def budget_inv_def attended_inv_def busy_def y by simp_all
  ultimately show ?thesis by (simp add: sup_inv_def)
qed

lemma other_step_inv:
  assumes "other_step cd build me a b" "sup_inv a"
  shows "sup_inv b"
  using assms(1)
proof cases
  case (owner_start x s q)
  have "sup_inv ((begin_start False s x)\<lparr>x_runner := x_runner x, x_started := True\<rparr>, q)"
    using begin_start_inv [where runner = False and st = True and q' = q] owner_start assms(2) by auto
  then show ?thesis using owner_start by (simp add: begin_start_def)
next
  case (publish x before g after revision s q)
  have c: "same_core (x_sup x) s" by (rule quiet_core(14) [OF publish(4)])
  have g: "frame_admitted g (x_sup x)" using publish(4) by (auto simp: frame_publish_def split: if_splits)
  have i: "sup_inv (x, q)" using assms(2) publish(1) by simp
  have "sup_inv (x\<lparr>x_sup := s, x_decoding := before @ after\<rparr>, q)" by (rule quiet_inv [OF i], rule quietI) (simp_all add: c)
  moreover have "current (x_trace x) = Some g" using i g by (simp add: sup_inv_def trace_inv_def frame_admitted_def)
  ultimately show ?thesis unfolding publish(2) by (intro published_inv) simp_all
next
  case (close x q s q')
  then show ?thesis using assms(2) close_sup_inv by blast
next
  case (captured x before link generation through after checkpoint q s q' ok)
  have "s = fst (capture_commit me link generation checkpoint (x_sup x) q)" using captured(5) by simp
  then have "same_core (x_sup x) (checkpoint_done (\<not> ok) s)"
    using quiet_core(5) quiet_core(6) same_core_trans by blast
  then show ?thesis unfolding captured(2) by (intro quiet_inv [OF assms(2) [unfolded captured(1)]] quietI) simp_all
next
  case (capture x s link generation through q)
  then have "s = fst (capture_begin (x_sup x))" by simp
  then show ?thesis unfolding capture(2) by (intro quiet_inv [OF assms(2) [unfolded capture(1)]] quietI) (simp_all add: quiet_core(4))
next
  case (restore checkpoint x q s q' ok)
  then have "s = fst (restoreCheckpoint cd build me checkpoint (x_sup x) q)" by simp
  then show ?thesis unfolding restore(2) by (intro quiet_inv [OF assms(2) [unfolded restore(1)]] quietI) (simp_all add: quiet_core(7))
next
  case (time x t q)
  then show ?thesis unfolding time(2) by (intro quiet_inv [OF assms(2) [unfolded time(1)]] quietI) (simp_all add: same_core_refl)
next
  case (manual x q)
  show ?thesis unfolding manual(2) by (intro quiet_inv [OF assms(2) [unfolded manual(1)]] quietI) (simp_all add: quiet_core(1))
next
  case (admit g x q)
  show ?thesis unfolding admit(2) by (intro quiet_inv [OF assms(2) [unfolded admit(1)]] quietI) (simp_all add: same_core_refl)
next
  case (discard x before g after q)
  show ?thesis unfolding discard(2) by (intro quiet_inv [OF assms(2) [unfolded discard(1)]] quietI) (simp_all add: same_core_refl)
next
  case (printed x q data)
  show ?thesis unfolding printed(2) by (intro quiet_inv [OF assms(2) [unfolded printed(1)]] quietI) (simp_all add: quiet_core(11))
next
  case (resized x q c r w h)
  show ?thesis unfolding resized(2) by (intro quiet_inv [OF assms(2) [unfolded resized(1)]] quietI) (simp_all add: quiet_core(11))
next
  case (send x q event)
  show ?thesis unfolding send(2) by (intro quiet_inv [OF assms(2) [unfolded send(1)]] quietI) (simp_all add: quiet_core(2))
next
  case (send_late x q deadline)
  show ?thesis unfolding send_late(2) by (intro quiet_inv [OF assms(2) [unfolded send_late(1)]] quietI) (simp_all add: quiet_core(3))
next
  case (capture_failed x before c after q)
  show ?thesis unfolding capture_failed(2) by (intro quiet_inv [OF assms(2) [unfolded capture_failed(1)]] quietI) (simp_all add: quiet_core(6))
next
  case (colors x q colors)
  show ?thesis unfolding colors(2) by (intro quiet_inv [OF assms(2) [unfolded colors(1)]] quietI) (simp_all add: quiet_core(8))
next
  case (mutation x q)
  show ?thesis unfolding mutation(2) by (intro quiet_inv [OF assms(2) [unfolded mutation(1)]] quietI) (simp_all add: quiet_core(9))
qed

lemma sup_step_inv: "sup_step cd build me a b \<Longrightarrow> sup_inv a \<Longrightarrow> sup_inv b"
  by (induction rule: sup_step.induct) (auto intro: start_step_inv runner_step_inv other_step_inv)

lemma normalized_positive: "0 < rp_MaxRestarts (normalized p timeout)" "0 < rp_Window (normalized p timeout)"
  by (simp_all add: normalized_def Let_def defaultRendererRestartPolicy_def minute_def second_def)

lemma new_supervisor [simp]:
  "s_acceptFrames (newRendererSupervisor now i j p t) = False" "s_link (newRendererSupervisor now i j p t) = None"
  "s_restarts (newRendererSupervisor now i j p t) = []" "s_checkpoint (newRendererSupervisor now i j p t) = None"
  "\<exists>t'. s_policy (newRendererSupervisor now i j p t) = normalized p t'"
  by (auto simp: newRendererSupervisor_def Let_def)

lemma sup_init_inv:
  assumes "sup_init x"
  shows "sup_inv (x, q)"
proof -
  obtain now i j p t where x: "x = new_run now (newRendererSupervisor now i j p t)" using assms by (auto simp: sup_init_def)
  have "0 < rp_MaxRestarts (s_policy (newRendererSupervisor now i j p t))" "0 < rp_Window (s_policy (newRendererSupervisor now i j p t))"
    using normalized_positive new_supervisor(5) by metis+
  then show ?thesis unfolding x sup_inv_def trace_inv_def starters_inv_def link_inv_def budget_inv_def attended_inv_def new_run_def
    by (simp add: budget_ok_def)
qed

text \<open>A supervisor beside others, which change the shared quota in any way.\<close>

inductive shared_step :: "'d codec \<Rightarrow> string \<Rightarrow> nat \<Rightarrow> supRun \<times> rendererCheckpointQuota \<Rightarrow> supRun \<times> rendererCheckpointQuota \<Rightarrow> bool"
  for cd build me where
  own: "sup_step cd build me a b \<Longrightarrow> shared_step cd build me a b"
| others: "shared_step cd build me (x, q) (x, q')"

interpretation sv: invariant_system "\<lambda>a. sup_init (fst a)" "shared_step cd build me" sup_inv for cd build me
proof
  show "sup_inv a" if "sup_init (fst a)" for a using sup_init_inv [OF that, of "snd a"] by simp
  show "sup_inv b" if "shared_step cd build me a b" "sup_inv a" for a b
    using that
  proof cases
    case own
    then show ?thesis using that(2) sup_step_inv by blast
  next
    case (others x q q')
    then show ?thesis using that(2) by (simp add: sup_inv_def)
  qed
qed

end
