(* ===== verification/SupervisorProperties.thy ===== *)
theory SupervisorProperties
  imports SupervisorInvariant RecoveryProperties
begin

text \<open>
  The properties of the supervision of workers: only the current worker is shown, restarts are
  budgeted, no terminal is left without attention, and the retained checkpoints of all terminals
  together are valid and bounded.
\<close>

section \<open>Traces\<close>

lemma trace_ok_suffix: "trace_ok (a @ t) \<Longrightarrow> trace_ok t"
proof (induction a)
  case (Cons e a)
  then show ?case by (cases e) auto
qed simp

section \<open>Checkpoints of all terminals\<close>

type_synonym fleet = "(nat \<Rightarrow> supRun) \<times> rendererCheckpointQuota"

inductive fleet_step :: "'d codec \<Rightarrow> string \<Rightarrow> fleet \<Rightarrow> fleet \<Rightarrow> bool" for cd build where
  "sup_step cd build i (F i, q) (y, q') \<Longrightarrow> fleet_step cd build (F, q) (F(i := y), q')"

definition fleet_init :: "fleet \<Rightarrow> bool" where
  "fleet_init f \<longleftrightarrow> (\<forall>i. sup_init (fst f i)) \<and> snd f = newRendererCheckpointQuota rendererCheckpointAggregateBytes"

text \<open>How a step can change the retained checkpoint and the quota.\<close>

definition checkpoint_effect ::
  "'d codec \<Rightarrow> string \<Rightarrow> nat \<Rightarrow> rendererSupervisor \<times> rendererCheckpointQuota \<Rightarrow> rendererSupervisor \<times> rendererCheckpointQuota \<Rightarrow> bool" where
  "checkpoint_effect cd build me = (\<lambda>(s, q) (t, q'). s_terminalID t = s_terminalID s
     \<and> (s_checkpoint t = s_checkpoint s \<and> q' = q
        \<or> (\<exists>c. s_checkpoint t = Some c \<and> checkpoint_validate cd c build (s_terminalID s) = None \<and> reserve q me (checkpoint_cost c) = (q', True))
        \<or> s_checkpoint t = None \<and> q' = release q me))"

lemma effect_same: "s_terminalID t = s_terminalID s \<Longrightarrow> s_checkpoint t = s_checkpoint s \<Longrightarrow> checkpoint_effect cd build me (s, q) (t, q)"
  by (simp add: checkpoint_effect_def)

lemma terminalID_selectors [simp]:
  "s_terminalID (publishStatusLocked now st s) = s_terminalID s" "s_terminalID (wake s) = s_terminalID s"
  by (simp_all add: publishStatusLocked_def wake_def)

lemma notice_effect: "s_terminalID (fst (noticeLocked now cause s)) = s_terminalID s" "s_checkpoint (fst (noticeLocked now cause s)) = s_checkpoint s"
  by (simp_all add: noticeLocked_def)

lemma reserve_refused: "reserve q me n = (q', False) \<Longrightarrow> q' = q"
  by (auto simp: reserve_def Let_def split: if_splits)

lemma end_start_effect: "s_terminalID s = s_terminalID (x_sup x) \<Longrightarrow> s_checkpoint s = s_checkpoint (x_sup x)
    \<Longrightarrow> checkpoint_effect cd build me (x_sup x, q) (x_sup (end_start before r after ok s x), q)"
  by (rule effect_same) (simp_all add: end_start_def)

lemma request_effect: "requestRestart now err s = (t, sent) \<Longrightarrow> s_terminalID t = s_terminalID s \<and> s_checkpoint t = s_checkpoint s"
  by (auto simp: requestRestart_def Let_def split: if_splits option.splits)

lemma mark_sup [simp]: "x_sup (mark b e x) = x_sup x"
  by (simp add: mark_def)

lemma set_phase_sup [simp]: "x_sup (set_phase before r after phase x) = x_sup x"
  by (simp add: set_phase_def)

lemma start_step_effect:
  assumes "start_step before r after x y"
  shows "checkpoint_effect cd build me (x_sup x, q) (x_sup y, q)"
  using assms
proof cases
  case (notify_failed err s sent)
  then show ?thesis using request_effect [OF notify_failed(3)] by (auto intro: end_start_effect)
qed (auto intro!: effect_same simp: end_start_def start_spawn_failed_def start_init_failed_def start_install_def Let_def)

lemma restart_effect:
  assumes "restart_begin me now s q = (t, q', Some (plan, attempt))"
  shows "checkpoint_effect cd build me (s, q) (t, q')"
proof -
  obtain s1 where p: "planRestartLocked now (JournalStats (s_journal s)) s = (plan, s1)"
    using assms by (auto simp: restart_begin_def Let_def split: if_splits prod.splits)
  have "s_checkpoint s1 = s_checkpoint s" "s_terminalID s1 = s_terminalID s" using plan_result(1) [OF p] by simp_all
  then show ?thesis using assms p
    by (auto simp: restart_begin_def Let_def enterDegradedLocked_def checkpoint_effect_def split: if_splits prod.splits)
qed

lemma runner_step_effect:
  assumes "runner_step me (x, q) (y, q')"
  shows "checkpoint_effect cd build me (x_sup x, q) (x_sup y, q')"
  using assms
proof cases
  case (restart s plan attempt)
  then show ?thesis using restart_effect [OF restart(4), of cd build] by (simp add: checkpoint_effect_def)
next
  case (tick s seen)
  then show ?thesis by (auto intro!: effect_same simp: tick_begin_def Let_def split: if_splits)
next
  case (tick_fail seen failure err s sent)
  then show ?thesis using request_effect [OF tick_fail(5)] by (auto intro!: effect_same)
qed (auto intro!: effect_same simp: begin_start_def start_begin_def Restart_def maybeCheckpoint_def split: if_splits)

lemma other_step_effect:
  assumes "other_step cd build me (x, q) (y, q')"
  shows "checkpoint_effect cd build me (x_sup x, q) (x_sup y, q')"
  using assms
proof cases
  case (captured before link generation through after checkpoint s ok)
  have v: "checkpoint_validate cd checkpoint build (s_terminalID (x_sup x)) = None" using captured(3) by (simp add: capture_valid_def)
  have "checkpoint_effect cd build me (x_sup x, q) (s, q')"
    using captured(4) v by (auto simp: capture_commit_def checkpoint_effect_def dest: reserve_refused split: if_splits prod.splits bool.splits)
  then show ?thesis using captured(1) by (simp add: checkpoint_effect_def checkpoint_done_def)
next
  case (restore checkpoint s ok)
  then show ?thesis
    by (auto simp: restoreCheckpoint_def checkpoint_effect_def dest: reserve_refused split: if_splits prod.splits bool.splits option.splits)
next
  case (send event)
  then show ?thesis using notice_effect [of "x_now x" errRendererDegraded "x_sup x"]
    by (auto intro!: effect_same simp: send_check_def split: option.splits prod.splits if_splits)
next
  case (send_late deadline)
  then show ?thesis using notice_effect [of "x_now x" errRendererUnavailable "x_sup x"]
    by (auto intro!: effect_same simp: send_wait_def split: prod.splits)
next
  case (publish before g after revision s)
  then show ?thesis by (auto intro!: effect_same simp: frame_publish_def Let_def split: if_splits option.splits)
next
  case (close s)
  then show ?thesis by (auto simp: Close_supervisor_def checkpoint_effect_def split: if_splits)
qed (auto intro!: effect_same simp: begin_start_def start_begin_def Restart_def capture_begin_def checkpoint_done_def restoreColors_def
    checkpoint_mutation_def split: if_splits)

lemma sup_step_effect: "sup_step cd build me (x, q) (y, q') \<Longrightarrow> checkpoint_effect cd build me (x_sup x, q) (x_sup y, q')"
  by (erule sup_step.cases) (auto intro: start_step_effect runner_step_effect other_step_effect)

text \<open>The quota counts exactly the costs of the retained checkpoints.\<close>

definition retained_cost :: "supRun \<Rightarrow> int" where
  "retained_cost x = (case s_checkpoint (x_sup x) of Some c \<Rightarrow> checkpoint_cost c | None \<Rightarrow> 0)"

definition quota_inv :: "'d codec \<Rightarrow> string \<Rightarrow> fleet \<Rightarrow> bool" where
  "quota_inv cd build f \<longleftrightarrow> (case f of (F, q) \<Rightarrow>
     distinct (map fst (q_owners q)) \<and> q_used q = sum_list (map snd (q_owners q)) \<and> q_used q \<le> q_limit q
     \<and> q_limit q = rendererCheckpointAggregateBytes
     \<and> (\<forall>i. map_of (q_owners q) i = map_option checkpoint_cost (s_checkpoint (x_sup (F i))))
     \<and> (\<forall>i c. s_checkpoint (x_sup (F i)) = Some c \<longrightarrow> checkpoint_validate cd c build (s_terminalID (x_sup (F i))) = None))"

lemma sum_update:
  fixes xs :: "('k \<times> int) list"
  assumes "distinct (map fst xs)"
  shows "sum_list (map snd (AList.update k v xs)) = sum_list (map snd xs) - (case map_of xs k of Some n \<Rightarrow> n | None \<Rightarrow> 0) + v"
  using assms by (induction xs) auto

lemma sum_delete:
  fixes xs :: "('k \<times> int) list"
  assumes "distinct (map fst xs)"
  shows "sum_list (map snd (AList.delete k xs)) = sum_list (map snd xs) - (case map_of xs k of Some n \<Rightarrow> n | None \<Rightarrow> 0)"
  using assms
proof (induction xs)
  case (Cons x xs)
  obtain k' v where x: "x = (k', v)" by (cases x)
  have "k' \<notin> fst ` set xs" using Cons.prems x by simp
  then have "map_of xs k' = None" "AList.delete k' xs = xs" by (simp_all add: map_of_eq_None_iff delete_id)
  with Cons x show ?case by auto
qed simp

lemma checkpoint_cost_positive: "checkpoint_cost c > 0"
  by (simp add: checkpoint_cost_def rendererCheckpointMaxHeaderBytes_def)

lemma fleet_step_inv:
  assumes "fleet_step cd build f g" "quota_inv cd build f"
  shows "quota_inv cd build g"
  using assms(1)
proof cases
  case (1 i F q y q')
  have d: "distinct (map fst (q_owners q))" "q_used q = sum_list (map snd (q_owners q))" "q_used q \<le> q_limit q"
    "q_limit q = rendererCheckpointAggregateBytes"
    "\<And>j. map_of (q_owners q) j = map_option checkpoint_cost (s_checkpoint (x_sup (F j)))"
    "\<And>j c. s_checkpoint (x_sup (F j)) = Some c \<Longrightarrow> checkpoint_validate cd c build (s_terminalID (x_sup (F j))) = None"
    using assms(2) 1 by (simp_all add: quota_inv_def)
  have own: "owned q i \<ge> 0" using d(5) [of i] checkpoint_cost_positive by (auto simp: owned_def less_imp_le split: option.split)
  have e: "checkpoint_effect cd build i (x_sup (F i), q) (x_sup y, q')" by (rule sup_step_effect [OF 1(3)])
  then have tid: "s_terminalID (x_sup y) = s_terminalID (x_sup (F i))" by (simp add: checkpoint_effect_def)
  from e consider (same) "s_checkpoint (x_sup y) = s_checkpoint (x_sup (F i))" "q' = q"
    | (kept) c where "s_checkpoint (x_sup y) = Some c" "checkpoint_validate cd c build (s_terminalID (x_sup (F i))) = None"
        "reserve q i (checkpoint_cost c) = (q', True)"
    | (gone) "s_checkpoint (x_sup y) = None" "q' = release q i"
    by (auto simp: checkpoint_effect_def)
  then show ?thesis
  proof cases
    case same
    then show ?thesis using d tid unfolding 1(2) quota_inv_def by auto
  next
    case kept
    have q': "q' = q\<lparr>q_used := q_used q + (checkpoint_cost c - owned q i), q_owners := AList.update i (checkpoint_cost c) (q_owners q)\<rparr>"
      "checkpoint_cost c \<le> q_limit q - (q_used q - owned q i)"
      using kept(3) by (auto simp: reserve_def Let_def split: if_splits)
    show ?thesis using d(2-6) kept(1,2) tid q'(2) unfolding 1(2) quota_inv_def q'(1)
      by (auto simp: distinct_update [OF d(1)] sum_update [OF d(1)] update_conv' owned_def)
  next
    case gone
    show ?thesis using d(2-6) gone(1) tid own unfolding 1(2) quota_inv_def gone(2) release_def
      by (auto simp: distinct_delete [OF d(1)] sum_delete [OF d(1)] delete_conv' owned_def)
  qed
qed

lemma fleet_init_inv:
  assumes "fleet_init f"
  shows "quota_inv cd build f"
proof -
  have "s_checkpoint (x_sup (fst f i)) = None" for i
  proof -
    have "sup_init (fst f i)" using assms by (simp add: fleet_init_def)
    then obtain now t j p o' where "fst f i = new_run now (newRendererSupervisor now t j p o')" unfolding sup_init_def by blast
    then show ?thesis by (simp add: new_run_def)
  qed
  moreover have "snd f = newRendererCheckpointQuota rendererCheckpointAggregateBytes" using assms by (simp add: fleet_init_def)
  ultimately show ?thesis
    by (cases f) (simp add: quota_inv_def newRendererCheckpointQuota_def rendererCheckpointAggregateBytes_def)
qed

interpretation fl: invariant_system fleet_init "fleet_step cd build" "quota_inv cd build" for cd build
  by unfold_locales (rule fleet_init_inv, assumption, erule (1) fleet_step_inv)

lemma owners_sum_bound:
  assumes "distinct (map fst xs)" "\<And>k v. (k, v) \<in> set xs \<Longrightarrow> (v :: int) \<ge> 0" "finite I"
  shows "(\<Sum>i\<in>I. case map_of xs i of Some v \<Rightarrow> v | None \<Rightarrow> 0) \<le> sum_list (map snd xs)"
  using assms(1,2)
proof (induction xs)
  case (Cons x xs)
  obtain k v where x: "x = (k, v)" by (cases x)
  have "map_of xs k = None" using Cons.prems(1) x by (simp add: map_of_eq_None_iff)
  then have f: "(case map_of (x # xs) i of Some v \<Rightarrow> v | None \<Rightarrow> 0) = (if i = k then v else 0) + (case map_of xs i of Some v \<Rightarrow> v | None \<Rightarrow> 0)" for i
    by (simp add: x)
  have "(\<Sum>i\<in>I. if i = k then v else 0) \<le> v" using assms(3) Cons.prems(2) [of k v] x by (simp add: sum.delta)
  then show ?case using Cons x unfolding f sum.distrib by fastforce
qed simp

lemma restart_total:
  assumes "\<not> s_closed s"
  shows "\<exists>t q' plan n. restart_begin me now s q = (t, q', Some (plan, n))"
proof -
  obtain plan s1 where "planRestartLocked now (JournalStats (s_journal s)) s = (plan, s1)" by fastforce
  then show ?thesis using assms
    by (cases "pl_allowed plan"; cases "pl_clean plan") (simp_all add: restart_begin_def Let_def)
qed

section \<open>A concrete run\<close>

text \<open>
  A terminal starts its worker, the worker is installed and shows a screen, it fails, and the
  supervisor restarts it: the first steps of a run, up to the restart.
\<close>

definition run_start :: supRun where
  "run_start = new_run 10 (newRendererSupervisor 10 ''t'' (fst (AppendResize (newRendererJournal 0) 80 24)) defaultRendererRestartPolicy 0)"

definition owner_starts :: "supRun \<Rightarrow> supRun" where
  "owner_starts x = (case start_begin (x_sup x) of Some s \<Rightarrow> (begin_start False s x)\<lparr>x_started := True\<rparr> | None \<Rightarrow> x)"

definition only_starter :: "startPhase \<Rightarrow> supRun \<Rightarrow> supRun" where
  "only_starter phase x = (case x_starters x of [r] \<Rightarrow> set_phase [] r [] phase x | _ \<Rightarrow> x)"

definition plain_init :: rendererInitResult where
  "plain_init = \<lparr>ir_Protocol = 6, ir_Ready = True, ir_BuildID = [], ir_PartialRecovery = False, ir_RestoredCheckpoint = False\<rparr>"

definition run_initialised :: supRun where
  "run_initialised = (let x = owner_starts run_start; j = Snapshot (s_journal (x_sup x)) in
     only_starter (Colouring j plain_init 0) (only_starter (Initialising j 0) (only_starter (Preparing j) (only_starter Snapshotting x))))"

definition run_installed :: supRun where
  "run_installed = (let x = run_initialised in case x_starters x of [r] \<Rightarrow>
     mark True (Installed (sr_generation r)) (set_phase [] r [] Notifying
       (x\<lparr>x_sup := start_install (x_now x) (sr_generation r) (Snapshot (s_journal (x_sup x))) plain_init (x_sup x)\<rparr>)) | _ \<Rightarrow> x)"

definition run_notified :: supRun where
  "run_notified = (case x_starters run_installed of [r] \<Rightarrow> end_start [] r [] True (x_sup run_installed) run_installed | _ \<Rightarrow> run_installed)"

definition run_published :: supRun where
  "run_published = (let x = run_notified\<lparr>x_decoding := [1]\<rparr> in case frame_publish (x_now x) 1 (Some 1) (x_sup x) of
     Some s \<Rightarrow> mark True (Published 1) (x\<lparr>x_sup := s, x_decoding := []\<rparr>) | None \<Rightarrow> x)"

definition run_failed :: supRun where
  "run_failed = (case tick_begin 10 (x_sup run_published) of (s, Some seen) \<Rightarrow>
     (case requestRestart 10 (Some ''gone'') s of (t, sent) \<Rightarrow> mark sent Stale (run_published\<lparr>x_sup := t, x_runner := Idle\<rparr>)) | _ \<Rightarrow> run_published)"


text \<open>Each state of the example is reached from the one before.\<close>

abbreviation reached :: "'d codec \<Rightarrow> supRun \<Rightarrow> bool" where
  "reached cd x \<equiv> reachable (\<lambda>a. sup_init (fst a)) (shared_step cd ''b'' 0) (x, newRendererCheckpointQuota 0)"

lemma reached_by: "reached cd x \<Longrightarrow> sup_step cd ''b'' 0 (x, newRendererCheckpointQuota 0) (y, newRendererCheckpointQuota 0) \<Longrightarrow> reached cd y"
  by (rule reach_step) (auto intro: shared_step.own)

lemma reached_by_start:
  assumes "reached cd x" "x_starters x = [r]" "start_step [] r [] x y"
  shows "reached cd y"
  using assms by (intro reached_by [OF assms(1)] sup_step.by_start [of x "[]" r "[]"]) simp_all

lemma only_starter_phase: "x_starters x = [r] \<Longrightarrow> only_starter phase x = set_phase [] r [] phase x"
  by (simp add: only_starter_def)

lemma run_start_reached: "reached cd run_start"
  unfolding run_start_def by (rule reach_init) (unfold sup_init_def fst_conv, blast)

lemma owner_started: "reached cd (owner_starts run_start)"
proof -
  have g: "s_generation (x_sup run_start) = 0 \<and> \<not> s_closed (x_sup run_start)" by code_simp
  then obtain s where s: "start_begin (x_sup run_start) = Some s" by (simp add: start_begin_def)
  have "s_generation (x_sup run_start) \<noteq> - 1" using g by simp
  from other_step.owner_start [OF s this] show ?thesis
    using s by (intro reached_by [OF run_start_reached] sup_step.by_other) (simp add: owner_starts_def)
qed

definition first_starter :: starter where
  "first_starter = \<lparr>sr_generation = 1, sr_runner = False, sr_phase = Spawning\<rparr>"

lemma run_initialised_reached: "reached cd run_initialised"
  "x_starters run_initialised = [first_starter\<lparr>sr_phase := Colouring (Snapshot (s_journal (x_sup run_initialised))) plain_init 0\<rparr>]"
proof -
  let ?x = "owner_starts run_start" and ?j = "Snapshot (s_journal (x_sup (owner_starts run_start)))"
  have r: "x_starters ?x = [first_starter]" and free: "\<not> start_superseded 1 (x_sup ?x)" and rev: "s_colorsRevision (x_sup ?x) = 0" by code_simp+
  let ?a = "only_starter Snapshotting ?x"
  have a: "?a = ?x\<lparr>x_starters := [first_starter\<lparr>sr_phase := Snapshotting\<rparr>]\<rparr>" using r by (simp add: only_starter_phase set_phase_def)
  have ra: "reached cd ?a" unfolding only_starter_phase [OF r]
    by (rule reached_by_start [OF owner_started r start_step.spawned]) (use free in \<open>simp_all add: first_starter_def\<close>)
  let ?b = "only_starter (Preparing ?j) ?a"
  have ra': "x_starters ?a = [first_starter\<lparr>sr_phase := Snapshotting\<rparr>]" "x_sup ?a = x_sup ?x" by (simp_all add: a)
  have rb: "reached cd ?b" unfolding only_starter_phase [OF ra'(1)]
    using reached_by_start [OF ra ra'(1) start_step.copied] ra'(2) by simp
  have rb': "x_starters ?b = [first_starter\<lparr>sr_phase := Preparing ?j\<rparr>]" "x_sup ?b = x_sup ?x"
    using ra' by (simp_all add: only_starter_phase set_phase_def)
  let ?c = "only_starter (Initialising ?j 0) ?b"
  have rc: "reached cd ?c" unfolding only_starter_phase [OF rb'(1)]
    using reached_by_start [OF rb rb'(1) start_step.prepared [where journal = ?j]] rb'(2) rev by simp
  have rc': "x_starters ?c = [first_starter\<lparr>sr_phase := Initialising ?j 0\<rparr>]" "x_sup ?c = x_sup ?x"
    using rb' by (simp_all add: only_starter_phase set_phase_def)
  let ?d = "only_starter (Colouring ?j plain_init 0) ?c"
  have d: "run_initialised = ?d" by (simp add: run_initialised_def Let_def)
  show "reached cd run_initialised" unfolding d only_starter_phase [OF rc'(1)]
    using reached_by_start [OF rc rc'(1) start_step.initialised [where journal = ?j and revision = 0 and initialized = plain_init]]
    by (simp add: verifyRendererProtocol_def plain_init_def rendererWorkerProtocolVersion_def)
  show "x_starters run_initialised = [first_starter\<lparr>sr_phase := Colouring (Snapshot (s_journal (x_sup run_initialised))) plain_init 0\<rparr>]"
    unfolding d using rc' by (simp add: only_starter_phase set_phase_def)
qed

lemma run_notified_reached: "reached cd run_notified"
proof -
  let ?x = run_initialised and ?r = "first_starter\<lparr>sr_phase := Colouring (Snapshot (s_journal (x_sup run_initialised))) plain_init 0\<rparr>"
  have free: "s_colorsRevision (x_sup ?x) = 0 \<and> \<not> start_superseded 1 (x_sup ?x)" by code_simp
  have e: "run_installed = mark True (Installed 1) (set_phase [] ?r [] Notifying
       (?x\<lparr>x_sup := start_install (x_now ?x) 1 (Snapshot (s_journal (x_sup ?x))) plain_init (x_sup ?x)\<rparr>))"
    by (simp add: run_installed_def Let_def run_initialised_reached(2) first_starter_def)
  have i: "reached cd run_installed" unfolding e
    using reached_by_start [OF run_initialised_reached(1) run_initialised_reached(2) start_step.installed [of ?r "Snapshot (s_journal (x_sup ?x))" plain_init 0]] free
    by (simp add: first_starter_def)
  have s: "x_starters run_installed = [first_starter\<lparr>sr_phase := Notifying\<rparr>]" by (simp add: e mark_def set_phase_def)
  have "run_notified = end_start [] (first_starter\<lparr>sr_phase := Notifying\<rparr>) [] True (x_sup run_installed) run_installed"
    by (simp add: run_notified_def s)
  then show ?thesis using reached_by_start [OF i s start_step.notified] by simp
qed

lemma run_published_reached: "reached cd run_published"
proof -
  have adm: "frame_admitted 1 (x_sup run_notified)" and dec: "x_decoding run_notified = []" by code_simp+
  obtain s where s: "frame_publish (x_now run_notified) 1 (Some 1) (x_sup run_notified) = Some s" using adm by (simp add: frame_publish_def Let_def)
  have a: "reached cd (run_notified\<lparr>x_decoding := [1]\<rparr>)"
    using other_step.admit [OF adm, of cd "''b''" 0 "newRendererCheckpointQuota 0"] dec
    by (intro reached_by [OF run_notified_reached] sup_step.by_other) simp
  show ?thesis
    using other_step.publish [of "run_notified\<lparr>x_decoding := [1]\<rparr>" "[]" 1 "[]" "Some 1" s cd "''b''" 0 "newRendererCheckpointQuota 0"] s
    by (intro reached_by [OF a] sup_step.by_other) (simp add: run_published_def Let_def)
qed

lemma run_failed_reached: "reached cd run_failed"
proof -
  have idle: "x_runner run_published = Idle" and now: "x_now run_published = 10" by code_simp+
  have "map_option fst (snd (tick_begin 10 (x_sup run_published))) = Some (Some 1)
      \<and> map_option (snd \<circ> snd) (snd (tick_begin 10 (x_sup run_published))) = Some False" by code_simp
  then obtain s due where t: "tick_begin 10 (x_sup run_published) = (s, Some (Some 1, due, False))"
    by (cases "tick_begin 10 (x_sup run_published)") auto
  obtain u sent where u: "requestRestart 10 (Some ''gone'') s = (u, sent)" by fastforce
  let ?x = "run_published\<lparr>x_sup := s, x_runner := Ticking (Some 1, due, False)\<rparr>"
  have a: "reached cd ?x"
    using runner_step.tick [OF idle, of s "(Some 1, due, False)" 0 "newRendererCheckpointQuota 0"] t now
    by (intro reached_by [OF run_published_reached] sup_step.by_runner) simp
  have "runner_step 0 (?x, newRendererCheckpointQuota 0) (mark sent Stale (?x\<lparr>x_sup := u, x_runner := Idle\<rparr>), newRendererCheckpointQuota 0)"
    by (rule runner_step.tick_fail [of ?x "(Some 1, due, False)" "Some (Some ''gone'')" "Some ''gone''" u sent])
      (use now u in \<open>simp_all add: tick_action_def\<close>)
  then show ?thesis using reached_by [OF a sup_step.by_runner] t u by (simp add: run_failed_def)
qed


text \<open>A fleet in which terminal 0 has restored a checkpoint.\<close>

definition restored_sup :: "rendererSupervisor \<times> rendererCheckpointQuota \<times> bool" where
  "restored_sup = restoreCheckpoint plain_codec ''b'' 0 (Some plain_checkpoint) (x_sup run_start) (newRendererCheckpointQuota rendererCheckpointAggregateBytes)"

definition restored_fleet :: "nat \<Rightarrow> supRun" where
  "restored_fleet = (\<lambda>i. run_start)(0 := run_start\<lparr>x_sup := fst restored_sup\<rparr>)"

lemma restored_fleet_reached: "reachable fleet_init (fleet_step plain_codec ''b'') (restored_fleet, fst (snd restored_sup))"
proof -
  let ?q = "newRendererCheckpointQuota rendererCheckpointAggregateBytes"
  have "sup_init run_start" unfolding sup_init_def run_start_def by blast
  then have "reachable fleet_init (fleet_step plain_codec ''b'') (\<lambda>i. run_start, ?q)" by (intro reach_init) (simp add: fleet_init_def)
  moreover have "other_step plain_codec ''b'' 0 (run_start, ?q) (run_start\<lparr>x_sup := fst restored_sup\<rparr>, fst (snd restored_sup))"
    by (rule other_step.restore [of _ _ 0 "Some plain_checkpoint" _ _ _ _ "snd (snd restored_sup)"]) (simp add: restored_sup_def)
  then have "fleet_step plain_codec ''b'' (\<lambda>i. run_start, ?q) (restored_fleet, fst (snd restored_sup))"
    unfolding restored_fleet_def by (intro fleet_step.intros sup_step.by_other) simp
  ultimately show ?thesis by (rule reach_step)
qed

section \<open>Properties\<close>

text \<open>
  Property C7: only the current worker is shown. In every run of a supervisor, a published frame is
  always one of the worker that was installed last, and nothing has been started, no stale mark
  sent and the supervisor not closed since that installation. Each installed worker is newer than
  all before it, and a frame that arrives when no worker is current is not published.
\<close>

theorem frames_only_from_current_worker:
  assumes "reachable (\<lambda>a. sup_init (fst a)) (shared_step cd build me) (x, q)"
  shows "(\<forall>a g b. x_trace x = a @ Published g # b \<longrightarrow> current b = Some g)
    \<and> (\<forall>a g b h. x_trace x = a @ Installed g # b \<and> Installed h \<in> set b \<longrightarrow> h < g)
    \<and> (\<forall>now g revision. frame_publish now g revision (x_sup x) \<noteq> None \<longleftrightarrow> current (x_trace x) = Some g)"
proof -
  have i: "sup_inv (x, q)" by (rule sv.reachable_inv [OF assms])
  then have t: "trace_ok (x_trace x)" by (simp add: sup_inv_def trace_inv_def)
  have "current b = Some g" if "x_trace x = a @ Published g # b" for a g b
    using trace_ok_suffix [of a "Published g # b"] t that by simp
  moreover have "h < g" if "x_trace x = a @ Installed g # b" "Installed h \<in> set b" for a g b h
    using trace_ok_suffix [of a "Installed g # b"] t that by simp
  moreover have "frame_publish now g revision (x_sup x) \<noteq> None \<longleftrightarrow> current (x_trace x) = Some g" for now g revision
    using i by (auto simp: frame_publish_def frame_admitted_def sup_inv_def trace_inv_def link_inv_def Let_def)
  ultimately show ?thesis by blast
qed

theorem frames_only_from_current_worker_witness:
  "\<exists>b. x_trace run_published = [] @ Published 1 # b \<and> current b = Some 1"
proof -
  have t: "x_trace run_published = [] @ Published 1 # [Installed 1, Started 1]" by code_simp
  then have "current [Installed 1, Started 1] = Some 1"
    using frames_only_from_current_worker [OF run_published_reached [of plain_codec]] by blast
  then show ?thesis using t by blast
qed



text \<open>
  Property C8: once its start by the owner has succeeded, a terminal without a worker is never
  abandoned. Let the supervisor have been started by its owner, and let no start by the owner have
  failed; let it be idle and open with no accepting worker and no start in progress. Then it is in
  the cooldown of the degraded state; or it goes on by itself, in at most three
  steps, to start a new worker; or it enters the cooldown at this moment.
\<close>

theorem renderer_never_abandoned:
  assumes "reachable (\<lambda>a. sup_init (fst a)) (shared_step cd build me) (x, q)"
    and "x_started x" "\<not> x_startFailed x" "x_runner x = Idle" "x_starters x = []"
    and "\<not> s_closed (x_sup x)" "\<not> s_acceptFrames (x_sup x)"
  shows "s_degraded (x_sup x) \<and> x_now x - s_degradedAt (x_sup x) < rp_Cooldown (s_policy (x_sup x))
    \<or> (\<exists>y q' c. (runner_step me)\<^sup>*\<^sup>* (x, q) (y, q') \<and> x_runner y = Cleaning c)
    \<or> (\<exists>y q'. runner_step me (x, q) (y, q') \<and> s_degraded (x_sup y) \<and> s_degradedAt (x_sup y) = x_now x)"
proof -
  have wake: "(\<exists>y q' c. runner_step me (z, p) (y, q') \<and> x_runner y = Cleaning c)
      \<or> (\<exists>y q'. runner_step me (z, p) (y, q') \<and> s_degraded (x_sup y) \<and> s_degradedAt (x_sup y) = x_now z) \<and> \<not> s_forceRestart (x_sup z)"
    if z: "x_runner z = Idle" "s_restartWake (x_sup z)" "\<not> s_closed (x_sup z)" for z p
  proof -
    obtain s q' plan n where r: "restart_begin me (x_now z) ((x_sup z)\<lparr>s_restartWake := False\<rparr>) p = (s, q', Some (plan, n))"
      using restart_total [of "(x_sup z)\<lparr>s_restartWake := False\<rparr>" me "x_now z" p] z(3) by auto
    note st = runner_step.restart [OF z(1,2) r]
    show ?thesis
    proof (cases "pl_allowed plan")
      case True
      then show ?thesis using st by (auto simp: mark_def)
    next
      case False
      then have "s_degraded s" "s_degradedAt s = x_now z" "\<not> s_forceRestart (x_sup z)"
        using r z(3) restart_result(10) [OF r]
        by (auto simp: restart_begin_def enterDegradedLocked_def publishStatusLocked_def Let_def split: if_splits prod.splits)
      then show ?thesis using st by (intro disjI2) (auto simp: mark_def)
    qed
  qed
  have i: "sup_inv (x, q)" by (rule sv.reachable_inv [OF assms(1)])
  then have "s_degraded (x_sup x) \<or> s_restartWake (x_sup x)"
    using assms(2-7) by (auto simp: sup_inv_def attended_inv_def busy_def)
  then show ?thesis
  proof
    assume "s_restartWake (x_sup x)"
    from wake [OF assms(4) this assms(6), of q] show ?thesis by blast
  next
    assume d: "s_degraded (x_sup x)"
    show ?thesis
    proof (cases "x_now x - s_degradedAt (x_sup x) < rp_Cooldown (s_policy (x_sup x))")
      case True
      then show ?thesis using d by blast
    next
      case False
      obtain s seen where t: "tick_begin (x_now x) (x_sup x) = (s, Some seen)" and cool: "snd (snd seen)" and op: "\<not> s_closed s"
        using assms(6) d False by (auto simp: tick_begin_def Let_def)
      have a: "tick_action seen None = TickRestart" using cool by (cases seen) (simp add: tick_action_def)
      let ?y = "x\<lparr>x_sup := s, x_runner := Ticking seen\<rparr>" and ?z = "x\<lparr>x_sup := Restart s, x_runner := Idle\<rparr>"
      have s1: "runner_step me (x, q) (?y, q)" by (rule runner_step.tick [OF assms(4) t])
      have s2: "runner_step me (?y, q) (?z, q)" using runner_step.tick_restart [of ?y seen None me q] a by simp
      have z: "x_runner ?z = Idle" "s_restartWake (x_sup ?z)" "\<not> s_closed (x_sup ?z)" "s_forceRestart (x_sup ?z)"
        using op by (simp_all add: Restart_def wake_def)
      obtain y q' c where "runner_step me (?z, q) (y, q')" "x_runner y = Cleaning c" using wake [OF z(1-3), of q] z(4) by blast
      then have "(runner_step me)\<^sup>*\<^sup>* (x, q) (y, q') \<and> x_runner y = Cleaning c"
        using s1 s2 by (meson converse_rtranclp_into_rtranclp rtranclp.rtrancl_refl)
      then show ?thesis by blast
    qed
  qed
qed

theorem renderer_never_abandoned_witness:
  "\<not> s_degraded (x_sup run_failed)
   \<and> ((\<exists>y q' c. (runner_step 0)\<^sup>*\<^sup>* (run_failed, newRendererCheckpointQuota 0) (y, q') \<and> x_runner y = Cleaning c)
    \<or> (\<exists>y q'. runner_step 0 (run_failed, newRendererCheckpointQuota 0) (y, q') \<and> s_degraded (x_sup y) \<and> s_degradedAt (x_sup y) = x_now run_failed))"
proof -
  have h: "x_started run_failed" "\<not> x_startFailed run_failed" "x_runner run_failed = Idle" "x_starters run_failed = []"
    "\<not> s_closed (x_sup run_failed)" "\<not> s_acceptFrames (x_sup run_failed)" by code_simp+
  have d: "\<not> s_degraded (x_sup run_failed)" by code_simp
  from renderer_never_abandoned [OF run_failed_reached [of plain_codec] h] d show ?thesis by blast
qed

text \<open>
  Property C40: the checkpoints that all terminals of the daemon retain are valid and bounded together.
  Whatever the supervisors do, each retained checkpoint has passed its validation for its own
  terminal and this build, and the retained checkpoints of any set of terminals together, each with
  its header, take at most 64 MiB.
\<close>

theorem retained_checkpoints_bounded:
  assumes "reachable fleet_init (fleet_step cd build) (F, q)" "finite I"
  shows "(\<forall>i c. s_checkpoint (x_sup (F i)) = Some c \<longrightarrow> checkpoint_validate cd c build (s_terminalID (x_sup (F i))) = None)
    \<and> (\<Sum>i\<in>I. retained_cost (F i)) \<le> 64 * 2 ^ 20"
proof -
  have i: "quota_inv cd build (F, q)" by (rule fl.reachable_inv [OF assms(1)])
  have d: "distinct (map fst (q_owners q))" "q_used q = sum_list (map snd (q_owners q))" "q_used q \<le> 64 * 2 ^ 20"
    "\<And>j. map_of (q_owners q) j = map_option checkpoint_cost (s_checkpoint (x_sup (F j)))"
    using i by (simp_all add: quota_inv_def rendererCheckpointAggregateBytes_def)
  have pos: "v \<ge> 0" if "(k, v) \<in> set (q_owners q)" for k v
  proof -
    have "map_of (q_owners q) k = Some v" using d(1) that by simp
    then show ?thesis using d(4) [of k] checkpoint_cost_positive by (auto simp: less_imp_le)
  qed
  have "retained_cost (F j) = (case map_of (q_owners q) j of Some v \<Rightarrow> v | None \<Rightarrow> 0)" for j
    by (simp add: retained_cost_def d(4) split: option.split)
  moreover have "(\<Sum>i\<in>I. case map_of (q_owners q) i of Some v \<Rightarrow> v | None \<Rightarrow> 0) \<le> sum_list (map snd (q_owners q))"
    by (rule owners_sum_bound [OF d(1) _ assms(2)]) (rule pos)
  ultimately have "(\<Sum>i\<in>I. retained_cost (F i)) \<le> 64 * 2 ^ 20" using d(2,3) by simp
  then show ?thesis using i by (simp add: quota_inv_def)
qed

theorem retained_checkpoints_bounded_witness:
  "s_checkpoint (x_sup (restored_fleet 0)) = Some plain_checkpoint \<and> (\<Sum>i\<in>{0, 1}. retained_cost (restored_fleet i)) \<le> 64 * 2 ^ 20"
proof -
  have "s_checkpoint (x_sup (restored_fleet 0)) = Some plain_checkpoint" by code_simp
  then show ?thesis using retained_checkpoints_bounded [OF restored_fleet_reached, of "{0, 1}"] by simp
qed

end
