(* ===== verification/RendererLink.thy ===== *)
theory RendererLink
  imports RendererSupervisor
begin

text \<open>
  The link to a renderer worker, \<^verbatim>\<open>rendererLink\<close> of \<^verbatim>\<open>renderer_supervisor.go\<close>: two bounded queues to the
  worker, the requests that are pending with their deadlines, the callers that wait for replies,
  and the failure that ends the link. A call that finds its queue full returns at once; a request
  gets its whole execution budget from the moment it is first in line at the worker.

  A queue is a list with the bound \<open>l_QueueFrames\<close>. A select with several ready cases takes any of
  them: \<open>pickStop\<close> says that it took the closed stop channel. Frames carry their parameters as a
  string.
\<close>

section \<open>State\<close>

record rendererPending =
  pe_StartedAt :: gotime
  pe_Deadline :: gotime
  pe_Budget :: duration
  pe_DispatchOrder :: u64
  pe_Method :: string

record rendererWorkerFrame =
  wf_ID :: u64
  wf_Generation :: u64
  wf_NoReply :: bool
  wf_Method :: string
  wf_Params :: string

text \<open>\<open>l_waiters\<close> are the requests whose callers have a reply channel.\<close>

record rendererLink =
  l_generation :: u64
  l_commandTimeout :: duration
  l_QueueFrames :: nat
  l_outbound :: "rendererWorkerFrame list"
  l_control :: "rendererWorkerFrame list"
  l_stop :: bool
  l_done :: bool
  l_nextID :: u64
  l_dispatchOrder :: u64
  l_pending :: "(u64 \<times> rendererPending) list"
  l_waiters :: "u64 list"
  l_failure :: "string option"

datatype linkError = errRendererLinkClosed | errRendererOutboundQueueFull | linkFailure string

definition rendererReadDeadlineFactor :: int where "rendererReadDeadlineFactor = 4"

definition startRendererLink :: "u64 \<Rightarrow> duration \<Rightarrow> nat \<Rightarrow> rendererLink" where
  "startRendererLink generation commandTimeout queueFrames =
     \<lparr>l_generation = generation, l_commandTimeout = commandTimeout, l_QueueFrames = queueFrames, l_outbound = [], l_control = [],
      l_stop = False, l_done = False, l_nextID = 0, l_dispatchOrder = 0, l_pending = [], l_waiters = [], l_failure = None\<rparr>"

section \<open>Requests\<close>

definition allocate_id :: "rendererLink \<Rightarrow> u64 \<times> rendererLink" where
  "allocate_id l = (l_nextID l + 1, l\<lparr>l_nextID := l_nextID l + 1\<rparr>)"

definition notifyFrame :: "u64 \<Rightarrow> string \<Rightarrow> string \<Rightarrow> rendererLink \<Rightarrow> rendererWorkerFrame" where
  "notifyFrame frameID method params l =
     \<lparr>wf_ID = frameID, wf_Generation = l_generation l, wf_NoReply = True, wf_Method = method, wf_Params = params\<rparr>"

definition TryNotify :: "bool \<Rightarrow> rendererWorkerFrame \<Rightarrow> rendererLink \<Rightarrow> rendererLink \<times> linkError option" where
  "TryNotify pickStop frame l =
     (if length (l_outbound l) < l_QueueFrames l \<and> \<not> (l_stop l \<and> pickStop)
      then (l\<lparr>l_outbound := l_outbound l @ [frame]\<rparr>, None)
      else if l_stop l then (l, Some errRendererLinkClosed)
      else (l, Some errRendererOutboundQueueFull))"

definition request_budget :: "duration \<Rightarrow> string \<Rightarrow> duration" where
  "request_budget commandTimeout method =
     (let budget = (if commandTimeout \<le> 0 then defaultRendererCommandTimeout else commandTimeout)
      in if method = ''read'' \<or> method = ''checkpoint'' \<or> method = ''interact'' then budget * rendererReadDeadlineFactor else budget)"

definition in_outbound :: "string \<Rightarrow> bool" where
  "in_outbound method \<longleftrightarrow> method = ''checkpoint'' \<or> method = ''paste''"

definition requestFrame :: "u64 \<Rightarrow> string \<Rightarrow> string \<Rightarrow> rendererLink \<Rightarrow> rendererWorkerFrame" where
  "requestFrame frameID method params l =
     \<lparr>wf_ID = frameID, wf_Generation = l_generation l, wf_NoReply = False, wf_Method = method, wf_Params = params\<rparr>"

definition request_pending :: "gotime \<Rightarrow> string \<Rightarrow> gotime \<Rightarrow> rendererLink \<Rightarrow> rendererPending" where
  "request_pending started method requestedDeadline l =
     (let budget = request_budget (l_commandTimeout l) method
      in if \<not> is_zero_time requestedDeadline \<and> method = ''init''
         then \<lparr>pe_StartedAt = started, pe_Deadline = requestedDeadline, pe_Budget = max 0 (requestedDeadline - started),
               pe_DispatchOrder = 0, pe_Method = method\<rparr>
         else \<lparr>pe_StartedAt = started, pe_Deadline = started + budget, pe_Budget = budget, pe_DispatchOrder = 0, pe_Method = method\<rparr>)"

definition enqueueDeadline ::
  "gotime \<Rightarrow> u64 \<Rightarrow> string \<Rightarrow> string \<Rightarrow> bool \<Rightarrow> gotime \<Rightarrow> bool \<Rightarrow> rendererLink \<Rightarrow> rendererLink \<times> (linkError, u64) result" where
  "enqueueDeadline started frameID method params waiter requestedDeadline pickStop l =
     (if method = ''health'' \<and> \<not> waiter \<and> l_pending l \<noteq> [] then (l, Inr 0)
      else
        let frame = requestFrame frameID method params l;
            pending = request_pending started method requestedDeadline l;
            queue = (if in_outbound method then l_outbound l else l_control l)
        in if length queue < l_QueueFrames l \<and> \<not> (l_stop l \<and> pickStop)
           then let l1 = l\<lparr>l_pending := AList.update frameID pending (l_pending l),
                      l_waiters := (if waiter then frameID # l_waiters l else l_waiters l)\<rparr>
                in (if in_outbound method then l1\<lparr>l_outbound := l_outbound l @ [frame]\<rparr> else l1\<lparr>l_control := l_control l @ [frame]\<rparr>,
                    Inr frameID)
           else if l_stop l then (l, Inl errRendererLinkClosed)
           else (l, Inl errRendererOutboundQueueFull))"

section \<open>Deadlines\<close>

text \<open>The request that was dispatched first of those pending. The loop over the map does not depend on its order, as dispatch orders differ.\<close>

fun active_loop :: "(u64 \<times> rendererPending) list \<Rightarrow> (u64 \<times> rendererPending) option \<Rightarrow> (u64 \<times> rendererPending) option" where
  "active_loop [] active = active"
| "active_loop ((candidateID, candidate) # rest) active =
     active_loop rest
       (if pe_DispatchOrder candidate \<noteq> 0
           \<and> (case active of None \<Rightarrow> True | Some (frameID, best) \<Rightarrow> pe_DispatchOrder candidate < pe_DispatchOrder best)
        then Some (candidateID, candidate) else active)"

definition activePendingLocked :: "rendererLink \<Rightarrow> (u64 \<times> rendererPending) option" where
  "activePendingLocked l = active_loop (l_pending l) None"

definition markDispatched :: "gotime \<Rightarrow> u64 \<Rightarrow> rendererLink \<Rightarrow> rendererLink" where
  "markDispatched now frameID l =
     (case map_of (l_pending l) frameID of
        None \<Rightarrow> l
      | Some pending \<Rightarrow>
          let order = l_dispatchOrder l + 1;
              p1 = pending\<lparr>pe_DispatchOrder := order\<rparr>;
              p2 = (if activePendingLocked l = None then p1\<lparr>pe_Deadline := now + pe_Budget pending\<rparr> else p1)
          in l\<lparr>l_dispatchOrder := order, l_pending := AList.update frameID p2 (l_pending l)\<rparr>)"

definition completePendingLocked :: "gotime \<Rightarrow> u64 \<Rightarrow> rendererLink \<Rightarrow> rendererLink \<times> rendererPending option" where
  "completePendingLocked now frameID l =
     (let l1 = l\<lparr>l_pending := AList.delete frameID (l_pending l)\<rparr>
      in (if map_option fst (activePendingLocked l) = Some frameID
          then (case activePendingLocked l1 of
                  Some (nextID, next) \<Rightarrow> l1\<lparr>l_pending := AList.update nextID (next\<lparr>pe_Deadline := now + pe_Budget next\<rparr>) (l_pending l1)\<rparr>
                | None \<Rightarrow> l1)
          else l1, map_of (l_pending l) frameID))"

definition HealthError :: "gotime \<Rightarrow> duration \<Rightarrow> rendererLink \<Rightarrow> u64 option" where
  "HealthError now timeout l =
     (case activePendingLocked l of
        Some (frameID, pending) \<Rightarrow> if now \<ge> pe_Deadline pending then Some frameID else None
      | None \<Rightarrow>
          map_option fst (find (\<lambda>(frameID, pending).
            now \<ge> (if is_zero_time (pe_Deadline pending) then pe_StartedAt pending + timeout else pe_Deadline pending)) (l_pending l)))"

section \<open>Replies and failure\<close>

text \<open>
  A reply taken by the reader: the caller it wakes, or the error that ends the link when a health
  probe failed.
\<close>

definition respond :: "gotime \<Rightarrow> u64 \<Rightarrow> string \<Rightarrow> rendererLink \<Rightarrow> rendererLink \<times> u64 option \<times> string option" where
  "respond now frameID err l =
     (case completePendingLocked now frameID l of
        (l1, pending) \<Rightarrow>
          let waiter = (if frameID \<in> set (l_waiters l) then Some frameID else None);
              l2 = l1\<lparr>l_waiters := removeAll frameID (l_waiters l)\<rparr>
          in if map_option pe_Method pending = Some ''health'' \<and> err \<noteq> [] then (l2, None, Some (''renderer health failed: '' @ err))
             else (l2, waiter, None))"

definition detachWaiter :: "u64 \<Rightarrow> rendererLink \<Rightarrow> rendererLink" where
  "detachWaiter frameID l = l\<lparr>l_waiters := removeAll frameID (l_waiters l)\<rparr>"

text \<open>\<^verbatim>\<open>Fail\<close> closes the stop channel and then, in a critical section, gives its error to every waiting caller.\<close>

definition fail_begin :: "rendererLink \<Rightarrow> rendererLink" where
  "fail_begin l = l\<lparr>l_stop := True\<rparr>"

definition fail_finish :: "string \<Rightarrow> rendererLink \<Rightarrow> rendererLink \<times> u64 list" where
  "fail_finish err l = (l\<lparr>l_failure := Some err, l_waiters := [], l_pending := [], l_done := True\<rparr>, l_waiters l)"

definition Failure :: "rendererLink \<Rightarrow> string" where
  "Failure l = (case l_failure l of None \<Rightarrow> ''renderer link closed'' | Some err \<Rightarrow> err)"

record rendererLinkStats =
  ls_OutboundDepth :: nat
  ls_PendingRequests :: nat
  ls_OldestPending :: duration
  ls_CurrentOperation :: string

fun oldest_loop :: "gotime \<Rightarrow> (u64 \<times> rendererPending) list \<Rightarrow> duration \<Rightarrow> string \<Rightarrow> duration \<times> string" where
  "oldest_loop now [] oldest operation = (oldest, operation)"
| "oldest_loop now ((frameID, pending) # rest) oldest operation =
     (if now - pe_StartedAt pending > oldest then oldest_loop now rest (now - pe_StartedAt pending) (pe_Method pending)
      else oldest_loop now rest oldest operation)"

definition link_stats :: "gotime \<Rightarrow> rendererLink \<Rightarrow> rendererLinkStats" where
  "link_stats now l =
     (case oldest_loop now (l_pending l) 0 [] of
        (oldest, operation) \<Rightarrow>
          \<lparr>ls_OutboundDepth = length (l_control l) + length (l_outbound l), ls_PendingRequests = length (l_pending l),
           ls_OldestPending = oldest,
           ls_CurrentOperation = (case activePendingLocked l of Some (frameID, active) \<Rightarrow> pe_Method active | None \<Rightarrow> operation)\<rparr>)"

section \<open>Runs\<close>

text \<open>
  The run of a link: \<open>y_wire\<close> is what was written, \<open>y_outboundSent\<close> and \<open>y_controlSent\<close> everything the
  queues ever accepted, \<open>y_calls\<close> the admitted calls, \<open>y_outcomes\<close> what callers received, \<open>y_active\<close> the
  request first in line with the time since which it is. The writer looks into the control queue
  first, and waits for either queue only after it found it empty.
\<close>

datatype callOutcome = Replied string | CallFailed string

datatype writerPC = Looking | Polled | Taken rendererWorkerFrame | Writing rendererWorkerFrame | WriterGone

record linkRun =
  y_link :: rendererLink
  y_now :: gotime
  y_ids :: "u64 list"
  y_writer :: writerPC
  y_wire :: "rendererWorkerFrame list"
  y_outboundSent :: "rendererWorkerFrame list"
  y_controlSent :: "rendererWorkerFrame list"
  y_calls :: "u64 list"
  y_outcomes :: "(u64 \<times> callOutcome) list"
  y_detached :: "u64 list"
  y_active :: "(u64 \<times> gotime) option"

definition track :: "linkRun \<Rightarrow> linkRun" where
  "track y = y\<lparr>y_active := (case activePendingLocked (y_link y) of
     None \<Rightarrow> None
   | Some (i, p) \<Rightarrow> if map_option fst (y_active y) = Some i then y_active y else Some (i, y_now y))\<rparr>"

definition sent_to :: "bool \<Rightarrow> rendererWorkerFrame list \<Rightarrow> linkRun \<Rightarrow> linkRun" where
  "sent_to outbound frames y =
     (if outbound then y\<lparr>y_outboundSent := y_outboundSent y @ frames\<rparr> else y\<lparr>y_controlSent := y_controlSent y @ frames\<rparr>)"

inductive link_step :: "linkRun \<Rightarrow> linkRun \<Rightarrow> bool" where
  time: "y_now y \<le> t \<Longrightarrow> link_step y (y\<lparr>y_now := t\<rparr>)"
| allocate: "allocate_id (y_link y) = (i, l) \<Longrightarrow> l_nextID (y_link y) \<noteq> - 1 \<Longrightarrow> link_step y (y\<lparr>y_link := l, y_ids := i # y_ids y\<rparr>)"
| notify: "y_ids y = before @ i # after \<Longrightarrow> frame = notifyFrame i method params (y_link y)
    \<Longrightarrow> TryNotify pickStop frame (y_link y) = (l, err)
    \<Longrightarrow> link_step y (sent_to True (if err = None then [frame] else []) (y\<lparr>y_link := l, y_ids := before @ after\<rparr>))"
| admit: "y_ids y = before @ i # after \<Longrightarrow> enqueueDeadline (y_now y) i method params waiter requested pickStop (y_link y) = (l, Inr i)
    \<Longrightarrow> frame = requestFrame i method params (y_link y)
    \<Longrightarrow> link_step y (track (sent_to (in_outbound method) [frame]
          (y\<lparr>y_link := l, y_ids := before @ after, y_calls := (if waiter then i # y_calls y else y_calls y)\<rparr>)))"
| refuse: "y_ids y = before @ i # after \<Longrightarrow> enqueueDeadline (y_now y) i method params waiter requested pickStop (y_link y) = (l, result)
    \<Longrightarrow> result \<noteq> Inr i \<Longrightarrow> link_step y (y\<lparr>y_link := l, y_ids := before @ after\<rparr>)"
| poll: "y_writer y = Looking \<Longrightarrow> l_control (y_link y) = [] \<Longrightarrow> link_step y (y\<lparr>y_writer := Polled\<rparr>)"
| take_control: "y_writer y \<in> {Looking, Polled} \<Longrightarrow> l_control (y_link y) = frame # rest
    \<Longrightarrow> link_step y (y\<lparr>y_link := (y_link y)\<lparr>l_control := rest\<rparr>, y_writer := Taken frame\<rparr>)"
| take_outbound: "y_writer y = Polled \<Longrightarrow> l_outbound (y_link y) = frame # rest
    \<Longrightarrow> link_step y (y\<lparr>y_link := (y_link y)\<lparr>l_outbound := rest\<rparr>, y_writer := Taken frame\<rparr>)"
| writer_stop: "y_writer y = Polled \<Longrightarrow> l_stop (y_link y) \<Longrightarrow> link_step y (y\<lparr>y_writer := WriterGone\<rparr>)"
| dispatched: "y_writer y = Taken frame
    \<Longrightarrow> link_step y (track (y\<lparr>y_link := markDispatched (y_now y) (wf_ID frame) (y_link y), y_writer := Writing frame\<rparr>))"
| written: "y_writer y = Writing frame \<Longrightarrow> link_step y (y\<lparr>y_wire := y_wire y @ [frame], y_writer := Looking\<rparr>)"
| write_failed: "y_writer y = Writing frame \<Longrightarrow> link_step y (y\<lparr>y_link := fail_begin (y_link y), y_writer := WriterGone\<rparr>)"
| reply: "respond (y_now y) i err (y_link y) = (l, waiter, failed)
    \<Longrightarrow> link_step y (track (y\<lparr>y_link := (if failed = None then l else fail_begin l),
          y_outcomes := (case waiter of Some j \<Rightarrow> (j, if err = [] then Replied result else CallFailed err) # y_outcomes y | None \<Rightarrow> y_outcomes y)\<rparr>))"
| detach: "i \<in> set (y_calls y) \<Longrightarrow> link_step y (y\<lparr>y_link := detachWaiter i (y_link y), y_detached := i # y_detached y\<rparr>)"
| fail: "link_step y (y\<lparr>y_link := fail_begin (y_link y)\<rparr>)"
| failed: "l_stop (y_link y) \<Longrightarrow> \<not> l_done (y_link y) \<Longrightarrow> fail_finish err (y_link y) = (l, woken)
    \<Longrightarrow> link_step y (track (y\<lparr>y_link := l, y_outcomes := map (\<lambda>i. (i, CallFailed err)) woken @ y_outcomes y\<rparr>))"

definition link_init :: "linkRun \<Rightarrow> bool" where
  "link_init y \<longleftrightarrow> (\<exists>now generation timeout frames. y = \<lparr>y_link = startRendererLink generation timeout frames, y_now = now, y_ids = [],
     y_writer = Looking, y_wire = [], y_outboundSent = [], y_controlSent = [], y_calls = [], y_outcomes = [], y_detached = [], y_active = None\<rparr>)"

end
