(* ===== verification/LinkInvariant.thy ===== *)
theory LinkInvariant
  imports RendererLink
begin

text \<open>
  The invariant of the link to a renderer worker, in four parts: the lanes keep their order, request
  numbers and dispatch orders are unique, the request first in line has its whole budget, and
  every call is answered at most once.
\<close>

section \<open>Frames in order\<close>

fun in_flight :: "writerPC \<Rightarrow> rendererWorkerFrame list" where
  "in_flight (Taken frame) = [frame]"
| "in_flight (Writing frame) = [frame]"
| "in_flight pc = []"

lemma snoc_shuffles_single: "ys @ [x] \<in> shuffles [x] ys"
  by (induction ys) auto

lemma shuffles_snoc_left: "zs \<in> shuffles xs ys \<Longrightarrow> zs @ [x] \<in> shuffles (xs @ [x]) ys"
  by (induction xs ys arbitrary: zs rule: shuffles.induct) (auto intro: snoc_shuffles_single)

lemma shuffles_snoc_right: "zs \<in> shuffles xs ys \<Longrightarrow> zs @ [y] \<in> shuffles xs (ys @ [y])"
  using shuffles_snoc_left shuffles_commutes by metis

lemma track_sel [simp]:
  "y_link (track y) = y_link y" "y_now (track y) = y_now y" "y_ids (track y) = y_ids y" "y_writer (track y) = y_writer y"
  "y_wire (track y) = y_wire y" "y_outboundSent (track y) = y_outboundSent y" "y_controlSent (track y) = y_controlSent y"
  "y_calls (track y) = y_calls y" "y_outcomes (track y) = y_outcomes y" "y_detached (track y) = y_detached y"
  by (simp_all add: track_def)

lemma sent_to_sel [simp]:
  "y_link (sent_to b fs y) = y_link y" "y_now (sent_to b fs y) = y_now y" "y_ids (sent_to b fs y) = y_ids y"
  "y_writer (sent_to b fs y) = y_writer y" "y_wire (sent_to b fs y) = y_wire y"
  "y_outboundSent (sent_to b fs y) = y_outboundSent y @ (if b then fs else [])"
  "y_controlSent (sent_to b fs y) = y_controlSent y @ (if b then [] else fs)"
  "y_calls (sent_to b fs y) = y_calls y" "y_outcomes (sent_to b fs y) = y_outcomes y" "y_detached (sent_to b fs y) = y_detached y"
  "y_active (sent_to b fs y) = y_active y"
  by (simp_all add: sent_to_def)

lemma markDispatched_sel [simp]:
  "l_outbound (markDispatched t i l) = l_outbound l" "l_control (markDispatched t i l) = l_control l"
  "l_QueueFrames (markDispatched t i l) = l_QueueFrames l" "l_nextID (markDispatched t i l) = l_nextID l"
  "l_waiters (markDispatched t i l) = l_waiters l" "l_commandTimeout (markDispatched t i l) = l_commandTimeout l"
  by (simp_all add: markDispatched_def Let_def split: option.split)

lemma completePendingLocked_sel:
  "completePendingLocked t i l = (l1, q) \<Longrightarrow>
     l_outbound l1 = l_outbound l \<and> l_control l1 = l_control l \<and> l_QueueFrames l1 = l_QueueFrames l \<and> l_nextID l1 = l_nextID l
     \<and> l_waiters l1 = l_waiters l \<and> l_commandTimeout l1 = l_commandTimeout l \<and> l_dispatchOrder l1 = l_dispatchOrder l"
  by (auto simp: completePendingLocked_def Let_def split: option.splits if_splits)

lemma respond_effect:
  assumes "respond t i err l = (l1, waiter, failed)"
  obtains l' q where "completePendingLocked t i l = (l', q)" "l1 = l'\<lparr>l_waiters := removeAll i (l_waiters l)\<rparr>"
    "waiter \<noteq> None \<Longrightarrow> waiter = Some i \<and> i \<in> set (l_waiters l)"
    "waiter = None \<Longrightarrow> failed = None \<Longrightarrow> i \<notin> set (l_waiters l)"
  using assms unfolding respond_def Let_def by (cases "completePendingLocked t i l") (auto split: if_splits)

lemma enqueueDeadline_refused:
  assumes "enqueueDeadline t i meth params waiter requested pickStop l = (l1, r)" "r \<noteq> Inr i"
  shows "l1 = l"
  using assms unfolding enqueueDeadline_def Let_def by (simp split: if_splits)

text \<open>What an admitted request changes.\<close>

definition admitted :: "gotime \<Rightarrow> u64 \<Rightarrow> string \<Rightarrow> string \<Rightarrow> bool \<Rightarrow> gotime \<Rightarrow> rendererLink \<Rightarrow> rendererLink" where
  "admitted t i meth params waiter requested l =
     l\<lparr>l_pending := AList.update i (request_pending t meth requested l) (l_pending l),
       l_waiters := (if waiter then i # l_waiters l else l_waiters l),
       l_outbound := l_outbound l @ (if in_outbound meth then [requestFrame i meth params l] else []),
       l_control := l_control l @ (if in_outbound meth then [] else [requestFrame i meth params l])\<rparr>"

lemma enqueueDeadline_admitted:
  assumes "enqueueDeadline t i meth params waiter requested pickStop l = (l1, Inr i)" "i \<noteq> 0"
  shows "l1 = admitted t i meth params waiter requested l"
    "length (if in_outbound meth then l_outbound l else l_control l) < l_QueueFrames l"
  using assms unfolding enqueueDeadline_def Let_def admitted_def by (simp_all split: if_splits)


text \<open>Everything that was queued and not written yet is still in its queue, and both lanes arrive in order.\<close>

definition lanes_inv :: "linkRun \<Rightarrow> bool" where
  "lanes_inv y \<longleftrightarrow> (\<exists>os cs lost. y_outboundSent y = os @ l_outbound (y_link y) \<and> y_controlSent y = cs @ l_control (y_link y)
     \<and> y_wire y @ in_flight (y_writer y) @ lost \<in> shuffles os cs \<and> length lost \<le> 1 \<and> (y_writer y \<noteq> WriterGone \<longrightarrow> lost = []))
   \<and> length (l_outbound (y_link y)) \<le> l_QueueFrames (y_link y) \<and> length (l_control (y_link y)) \<le> l_QueueFrames (y_link y)"

definition same_lanes :: "linkRun \<Rightarrow> linkRun \<Rightarrow> bool" where
  "same_lanes y z \<longleftrightarrow> l_outbound (y_link z) = l_outbound (y_link y) \<and> l_control (y_link z) = l_control (y_link y)
     \<and> l_QueueFrames (y_link z) = l_QueueFrames (y_link y) \<and> y_outboundSent z = y_outboundSent y \<and> y_controlSent z = y_controlSent y
     \<and> y_wire z @ in_flight (y_writer z) = y_wire y @ in_flight (y_writer y) \<and> (y_writer z = WriterGone \<longleftrightarrow> y_writer y = WriterGone)"

lemma same_lanes_inv: "lanes_inv y \<Longrightarrow> same_lanes y z \<Longrightarrow> lanes_inv z"
  unfolding lanes_inv_def same_lanes_def by (metis append_assoc)

lemma lanes_inv_enqueue:
  assumes "lanes_inv y" "l_QueueFrames (y_link z) = l_QueueFrames (y_link y)" "y_wire z = y_wire y" "y_writer z = y_writer y"
    "l_outbound (y_link z) = l_outbound (y_link y) @ fo" "y_outboundSent z = y_outboundSent y @ fo"
    "l_control (y_link z) = l_control (y_link y) @ fc" "y_controlSent z = y_controlSent y @ fc"
    "length (l_outbound (y_link y) @ fo) \<le> l_QueueFrames (y_link y)" "length (l_control (y_link y) @ fc) \<le> l_QueueFrames (y_link y)"
  shows "lanes_inv z"
  using assms unfolding lanes_inv_def by (metis append_assoc)

lemma lanes_inv_take:
  assumes "lanes_inv y" "y_writer y \<in> {Looking, Polled}" "y_writer z = Taken f" "y_wire z = y_wire y"
    "l_QueueFrames (y_link z) = l_QueueFrames (y_link y)" "y_outboundSent z = y_outboundSent y" "y_controlSent z = y_controlSent y"
    "l_control (y_link y) = f # l_control (y_link z) \<and> l_outbound (y_link z) = l_outbound (y_link y)
     \<or> l_outbound (y_link y) = f # l_outbound (y_link z) \<and> l_control (y_link z) = l_control (y_link y)"
  shows "lanes_inv z"
proof -
  obtain os cs where h: "y_outboundSent y = os @ l_outbound (y_link y)" "y_controlSent y = cs @ l_control (y_link y)"
    "y_wire y \<in> shuffles os cs" "length (l_outbound (y_link y)) \<le> l_QueueFrames (y_link y)"
    "length (l_control (y_link y)) \<le> l_QueueFrames (y_link y)"
    using assms(1,2) unfolding lanes_inv_def by auto
  from assms(8) show ?thesis
  proof
    assume c: "l_control (y_link y) = f # l_control (y_link z) \<and> l_outbound (y_link z) = l_outbound (y_link y)"
    have "y_wire z @ in_flight (y_writer z) @ [] \<in> shuffles os (cs @ [f])"
      using h(3) assms(3,4) by (simp add: shuffles_snoc_right)
    then show ?thesis unfolding lanes_inv_def using h c assms(3-7)
      by (intro conjI exI [of _ os] exI [of _ "cs @ [f]"] exI [of _ "[]"]) auto
  next
    assume c: "l_outbound (y_link y) = f # l_outbound (y_link z) \<and> l_control (y_link z) = l_control (y_link y)"
    have "y_wire z @ in_flight (y_writer z) @ [] \<in> shuffles (os @ [f]) cs"
      using h(3) assms(3,4) by (simp add: shuffles_snoc_left)
    then show ?thesis unfolding lanes_inv_def using h c assms(3-7)
      by (intro conjI exI [of _ "os @ [f]"] exI [of _ cs] exI [of _ "[]"]) auto
  qed
qed

lemma lanes_inv_gone:
  assumes "lanes_inv y" "y_writer y \<noteq> WriterGone" "y_writer z = WriterGone" "y_wire z = y_wire y"
    "l_QueueFrames (y_link z) = l_QueueFrames (y_link y)" "l_outbound (y_link z) = l_outbound (y_link y)"
    "l_control (y_link z) = l_control (y_link y)" "y_outboundSent z = y_outboundSent y" "y_controlSent z = y_controlSent y"
  shows "lanes_inv z"
proof -
  obtain os cs where "y_outboundSent y = os @ l_outbound (y_link y)" "y_controlSent y = cs @ l_control (y_link y)"
    "y_wire y @ in_flight (y_writer y) \<in> shuffles os cs"
    using assms(1,2) unfolding lanes_inv_def by auto
  moreover have "length (in_flight (y_writer y)) \<le> 1" by (cases "y_writer y") auto
  ultimately show ?thesis using assms unfolding lanes_inv_def
    by (intro conjI exI [of _ os] exI [of _ cs] exI [of _ "in_flight (y_writer y)"]) auto
qed

lemma lanes_step:
  assumes "link_step y z" "lanes_inv y" "0 \<notin> set (y_ids y)"
  shows "lanes_inv z"
  using assms(1)
proof cases
  case (time t)
  then show ?thesis using assms(2) by (auto intro!: same_lanes_inv [of y] simp: same_lanes_def)
next
  case (allocate i l)
  then show ?thesis using assms(2) by (auto intro!: same_lanes_inv [of y] simp: same_lanes_def allocate_id_def)
next
  case (notify before i after frame meth params pickStop l err)
  show ?thesis
  proof (cases err)
    case None
    have l: "l = (y_link y)\<lparr>l_outbound := l_outbound (y_link y) @ [frame]\<rparr>" "length (l_outbound (y_link y)) < l_QueueFrames (y_link y)"
      using notify(4) None by (auto simp: TryNotify_def split: if_splits)
    have c: "length (l_control (y_link y)) \<le> l_QueueFrames (y_link y)" using assms(2) by (simp add: lanes_inv_def)
    show ?thesis unfolding notify(1)
      by (rule lanes_inv_enqueue [OF assms(2), where fo = "[frame]" and fc = "[]"]) (use l c None in simp_all)
  next
    case (Some e)
    have "l = y_link y" using notify(4) Some by (auto simp: TryNotify_def split: if_splits)
    then show ?thesis unfolding notify(1) using Some by (intro same_lanes_inv [OF assms(2)]) (simp add: same_lanes_def)
  qed
next
  case (admit before i after meth params waiter requested pickStop l frame)
  have i: "i \<noteq> 0" using admit(2) assms(3) by auto
  note e = enqueueDeadline_admitted [OF admit(3) i]
  have c: "length (l_control (y_link y)) \<le> l_QueueFrames (y_link y)" "length (l_outbound (y_link y)) \<le> l_QueueFrames (y_link y)"
    using assms(2) by (simp_all add: lanes_inv_def)
  show ?thesis unfolding admit(1)
    by (rule lanes_inv_enqueue [OF assms(2), where fo = "if in_outbound meth then [frame] else []"
          and fc = "if in_outbound meth then [] else [frame]"]) (use e c in \<open>simp_all add: admitted_def admit(4) split: if_splits\<close>)
next
  case (refuse before i after meth params waiter requested pickStop l result)
  have "l = y_link y" by (rule enqueueDeadline_refused [OF refuse(3,4)])
  then show ?thesis unfolding refuse(1) by (intro same_lanes_inv [OF assms(2)]) (simp add: same_lanes_def)
next
  case poll
  then show ?thesis using assms(2) by (auto intro!: same_lanes_inv [of y] simp: same_lanes_def)
next
  case (take_control frame rest)
  show ?thesis unfolding take_control(1) by (rule lanes_inv_take [OF assms(2), of _ frame]) (use take_control in simp_all)
next
  case (take_outbound frame rest)
  show ?thesis unfolding take_outbound(1) by (rule lanes_inv_take [OF assms(2), of _ frame]) (use take_outbound in simp_all)
next
  case writer_stop
  show ?thesis unfolding writer_stop(1) by (rule lanes_inv_gone [OF assms(2)]) (use writer_stop in simp_all)
next
  case (dispatched frame)
  show ?thesis unfolding dispatched(1) by (rule same_lanes_inv [OF assms(2)]) (use dispatched in \<open>simp add: same_lanes_def\<close>)
next
  case (written frame)
  show ?thesis unfolding written(1) by (rule same_lanes_inv [OF assms(2)]) (use written in \<open>simp add: same_lanes_def\<close>)
next
  case (write_failed frame)
  show ?thesis unfolding write_failed(1) by (rule lanes_inv_gone [OF assms(2)]) (use write_failed in \<open>simp_all add: fail_begin_def\<close>)
next
  case (reply i err l waiter failed result)
  obtain l' q where "completePendingLocked (y_now y) i (y_link y) = (l', q)" "l = l'\<lparr>l_waiters := removeAll i (l_waiters (y_link y))\<rparr>"
    using respond_effect [OF reply(2)] by metis
  then show ?thesis unfolding reply(1)
    by (intro same_lanes_inv [OF assms(2)]) (simp add: same_lanes_def fail_begin_def completePendingLocked_sel)
next
  case (detach i)
  show ?thesis unfolding detach(1) by (rule same_lanes_inv [OF assms(2)]) (simp add: same_lanes_def detachWaiter_def)
next
  case fail
  then show ?thesis using assms(2) by (auto intro!: same_lanes_inv [of y] simp: same_lanes_def fail_begin_def)
next
  case (failed err l woken)
  have "l_outbound l = l_outbound (y_link y) \<and> l_control l = l_control (y_link y) \<and> l_QueueFrames l = l_QueueFrames (y_link y)"
    using failed(4) by (auto simp: fail_finish_def)
  then show ?thesis unfolding failed(1) by (intro same_lanes_inv [OF assms(2)]) (simp add: same_lanes_def)
qed

section \<open>The request first in line\<close>

abbreviation pendings :: "rendererLink \<Rightarrow> u64 \<Rightarrow> rendererPending option" where
  "pendings l \<equiv> map_of (l_pending l)"

definition first_in_line :: "(u64 \<Rightarrow> rendererPending option) \<Rightarrow> u64 \<Rightarrow> rendererPending \<Rightarrow> bool" where
  "first_in_line m i p \<longleftrightarrow> m i = Some p \<and> pe_DispatchOrder p \<noteq> 0
     \<and> (\<forall>j q. m j = Some q \<longrightarrow> pe_DispatchOrder q \<noteq> 0 \<longrightarrow> pe_DispatchOrder p \<le> pe_DispatchOrder q)"

definition orders_differ :: "(u64 \<Rightarrow> rendererPending option) \<Rightarrow> bool" where
  "orders_differ m \<longleftrightarrow> (\<forall>i j p q. m i = Some p \<longrightarrow> m j = Some q \<longrightarrow> pe_DispatchOrder p \<noteq> 0
     \<longrightarrow> pe_DispatchOrder p = pe_DispatchOrder q \<longrightarrow> i = j)"

lemma active_loop_best:
  "case active_loop ps a of
     None \<Rightarrow> a = None \<and> (\<forall>(j, q) \<in> set ps. pe_DispatchOrder q = 0)
   | Some (i, p) \<Rightarrow> ((i, p) \<in> set ps \<and> pe_DispatchOrder p \<noteq> 0 \<or> a = Some (i, p))
       \<and> (\<forall>(j, q) \<in> set ps. pe_DispatchOrder q \<noteq> 0 \<longrightarrow> pe_DispatchOrder p \<le> pe_DispatchOrder q)
       \<and> (case a of None \<Rightarrow> True | Some (j, q) \<Rightarrow> pe_DispatchOrder p \<le> pe_DispatchOrder q)"
proof (induction ps a rule: active_loop.induct)
  case (1 active)
  then show ?case by (auto split: option.split)
next
  case (2 j q rest a)
  then show ?case by (cases a) (fastforce split: option.splits if_splits prod.splits)+
qed

lemma active_first:
  assumes "distinct (map fst (l_pending l))" "activePendingLocked l = Some (i, p)"
  shows "first_in_line (pendings l) i p"
  using active_loop_best [where ps = "l_pending l" and a = None] assms
  unfolding activePendingLocked_def first_in_line_def by (auto dest: map_of_SomeD)

lemma active_none:
  assumes "distinct (map fst (l_pending l))"
  shows "activePendingLocked l = None \<longleftrightarrow> (\<forall>j q. pendings l j = Some q \<longrightarrow> pe_DispatchOrder q = 0)"
proof
  assume "activePendingLocked l = None"
  then show "\<forall>j q. pendings l j = Some q \<longrightarrow> pe_DispatchOrder q = 0"
    using active_loop_best [where ps = "l_pending l" and a = None] unfolding activePendingLocked_def by (auto dest: map_of_SomeD)
next
  assume h: "\<forall>j q. pendings l j = Some q \<longrightarrow> pe_DispatchOrder q = 0"
  show "activePendingLocked l = None"
  proof (cases "activePendingLocked l")
    case (Some ip)
    then show ?thesis using active_first [OF assms, of "fst ip" "snd ip"] h by (auto simp: first_in_line_def)
  qed
qed

lemma first_in_line_unique:
  assumes "orders_differ m" "first_in_line m i p" "first_in_line m j q"
  shows "i = j \<and> p = q"
proof -
  have "pe_DispatchOrder p = pe_DispatchOrder q"
    using assms(2,3) by (auto simp: first_in_line_def intro: antisym)
  then have "i = j" using assms unfolding orders_differ_def first_in_line_def by blast
  then show ?thesis using assms(2,3) by (auto simp: first_in_line_def)
qed

lemma active_eq:
  assumes "distinct (map fst (l_pending l))" "orders_differ (pendings l)"
  shows "activePendingLocked l = Some (i, p) \<longleftrightarrow> first_in_line (pendings l) i p"
proof
  assume f: "first_in_line (pendings l) i p"
  then obtain j q where "activePendingLocked l = Some (j, q)"
    using active_none [OF assms(1)] by (auto simp: first_in_line_def)
  then show "activePendingLocked l = Some (i, p)"
    using first_in_line_unique [OF assms(2) f] active_first [OF assms(1)] by blast
qed (rule active_first [OF assms(1)])

section \<open>Request numbers\<close>

fun taken :: "writerPC \<Rightarrow> rendererWorkerFrame list" where
  "taken (Taken frame) = [frame]"
| "taken pc = []"

text \<open>Requests that are not dispatched yet: their numbers are known, but their frames are not written.\<close>

definition waiting_ids :: "linkRun \<Rightarrow> u64 list" where
  "waiting_ids y = map wf_ID (taken (y_writer y) @ l_control (y_link y) @ l_outbound (y_link y)) @ y_ids y"

definition ids_inv :: "linkRun \<Rightarrow> bool" where
  "ids_inv y \<longleftrightarrow> distinct (waiting_ids y)
     \<and> (\<forall>j \<in> set (waiting_ids y) \<union> dom (pendings (y_link y)) \<union> set (y_calls y). j \<noteq> 0 \<and> j \<le> l_nextID (y_link y))
     \<and> unat (l_dispatchOrder (y_link y)) + length (waiting_ids y) \<le> unat (l_nextID (y_link y))
     \<and> set (y_ids y) \<inter> (dom (pendings (y_link y)) \<union> set (y_calls y)) = {}
     \<and> distinct (map fst (l_pending (y_link y)))
     \<and> (\<forall>j p. pendings (y_link y) j = Some p \<longrightarrow> pe_DispatchOrder p \<le> l_dispatchOrder (y_link y)
          \<and> (j \<in> set (waiting_ids y) \<longrightarrow> pe_DispatchOrder p = 0))
     \<and> orders_differ (pendings (y_link y))"

abbreviation known_ids :: "linkRun \<Rightarrow> u64 set" where
  "known_ids y \<equiv> set (waiting_ids y) \<union> dom (pendings (y_link y)) \<union> set (y_calls y)"

lemma ids_invD:
  assumes "ids_inv y"
  shows "distinct (waiting_ids y)" "j \<in> known_ids y \<Longrightarrow> j \<noteq> 0" "j \<in> known_ids y \<Longrightarrow> j \<le> l_nextID (y_link y)"
    "unat (l_dispatchOrder (y_link y)) + length (waiting_ids y) \<le> unat (l_nextID (y_link y))"
    "set (y_ids y) \<inter> (dom (pendings (y_link y)) \<union> set (y_calls y)) = {}" "distinct (map fst (l_pending (y_link y)))"
    "pendings (y_link y) j = Some p \<Longrightarrow> pe_DispatchOrder p \<le> l_dispatchOrder (y_link y)"
    "pendings (y_link y) j = Some p \<Longrightarrow> j \<in> set (waiting_ids y) \<Longrightarrow> pe_DispatchOrder p = 0"
    "orders_differ (pendings (y_link y))"
  using assms unfolding ids_inv_def by blast+

lemma ids_invI:
  assumes "distinct (waiting_ids y)" "\<And>j. j \<in> known_ids y \<Longrightarrow> j \<noteq> 0 \<and> j \<le> l_nextID (y_link y)"
    "unat (l_dispatchOrder (y_link y)) + length (waiting_ids y) \<le> unat (l_nextID (y_link y))"
    "set (y_ids y) \<inter> (dom (pendings (y_link y)) \<union> set (y_calls y)) = {}" "distinct (map fst (l_pending (y_link y)))"
    "\<And>j p. pendings (y_link y) j = Some p \<Longrightarrow> pe_DispatchOrder p \<le> l_dispatchOrder (y_link y)
       \<and> (j \<in> set (waiting_ids y) \<longrightarrow> pe_DispatchOrder p = 0)"
    "orders_differ (pendings (y_link y))"
  shows "ids_inv y"
  using assms unfolding ids_inv_def by blast

lemma orders_differ_upd:
  assumes "orders_differ m" "\<And>j q. j \<noteq> i \<Longrightarrow> m j = Some q \<Longrightarrow> pe_DispatchOrder p \<noteq> 0 \<Longrightarrow> pe_DispatchOrder q \<noteq> pe_DispatchOrder p"
  shows "orders_differ (m(i \<mapsto> p))"
proof -
  have "j = k" if h: "(m(i \<mapsto> p)) j = Some q" "(m(i \<mapsto> p)) k = Some r" "pe_DispatchOrder q \<noteq> 0" "pe_DispatchOrder q = pe_DispatchOrder r" for j k q r
  proof (cases "j = i")
    case True
    then show ?thesis using h assms(2) [of k r] by (cases "k = i") auto
  next
    case False
    then have "m j = Some q" using h(1) by simp
    then show ?thesis using False h assms(1) assms(2) [of j q] unfolding orders_differ_def by (cases "k = i") (force, fastforce)
  qed
  then show ?thesis unfolding orders_differ_def by blast
qed

lemma orders_differ_del: "orders_differ m \<Longrightarrow> orders_differ (m(i := None))"
  by (auto simp: orders_differ_def split: if_splits)

lemma orders_differ_next:
  assumes "orders_differ m" "m n = Some q"
  shows "orders_differ (m(n \<mapsto> q\<lparr>pe_Deadline := d\<rparr>))"
proof (rule orders_differ_upd [OF assms(1)])
  fix j r assume "j \<noteq> n" "m j = Some r" "pe_DispatchOrder (q\<lparr>pe_Deadline := d\<rparr>) \<noteq> 0"
  then show "pe_DispatchOrder r \<noteq> pe_DispatchOrder (q\<lparr>pe_Deadline := d\<rparr>)"
    using assms unfolding orders_differ_def by (metis rendererPending.select_convs(4) rendererPending.update_convs(2) rendererPending.surjective)
qed

definition completed :: "gotime \<Rightarrow> u64 \<Rightarrow> rendererLink \<Rightarrow> rendererLink \<Rightarrow> bool" where
  "completed t i l l1 \<longleftrightarrow> distinct (map fst (l_pending l1))
     \<and> (case activePendingLocked (l\<lparr>l_pending := AList.delete i (l_pending l)\<rparr>) of
          Some (n, q) \<Rightarrow> pendings l1 = (pendings l)(i := None, n \<mapsto> (if map_option fst (activePendingLocked l) = Some i
            then q\<lparr>pe_Deadline := t + pe_Budget q\<rparr> else q))
        | None \<Rightarrow> pendings l1 = (pendings l)(i := None))"

lemma completePendingLocked_pendings:
  assumes "completePendingLocked t i l = (l1, q)" "distinct (map fst (l_pending l))"
  shows "completed t i l l1"
proof -
  let ?l = "l\<lparr>l_pending := AList.delete i (l_pending l)\<rparr>"
  have d: "distinct (map fst (l_pending ?l))" using assms(2) by (simp add: distinct_delete)
  have m: "pendings ?l = (pendings l)(i := None)" by (simp add: delete_conv')
  show ?thesis
  proof (cases "activePendingLocked ?l")
    case None
    then show ?thesis using assms d m by (auto simp: completed_def completePendingLocked_def Let_def split: if_splits)
  next
    case (Some nr)
    obtain n r where nr: "nr = (n, r)" by (cases nr)
    have "((pendings l)(i := None)) n = Some r" using active_first [OF d] Some m by (auto simp: nr first_in_line_def)
    then show ?thesis using assms d m Some nr
      by (auto simp: completed_def completePendingLocked_def Let_def update_conv' distinct_update fun_upd_idem split: if_splits)
  qed
qed

lemma active_after_delete:
  assumes "distinct (map fst (l_pending l))" "activePendingLocked (l\<lparr>l_pending := AList.delete i (l_pending l)\<rparr>) = Some (n, q)"
  shows "first_in_line ((pendings l)(i := None)) n q" "n \<noteq> i" "pendings l n = Some q"
proof -
  show f: "first_in_line ((pendings l)(i := None)) n q"
    using active_first [OF _ assms(2)] assms(1) by (simp add: distinct_delete delete_conv')
  show "n \<noteq> i" "pendings l n = Some q" using f by (auto simp: first_in_line_def split: if_splits)
qed

lemma completed_dom:
  assumes "completed t i l l1" "distinct (map fst (l_pending l))"
  shows "dom (pendings l1) = dom (pendings l) - {i}"
proof (cases "activePendingLocked (l\<lparr>l_pending := AList.delete i (l_pending l)\<rparr>)")
  case None
  then show ?thesis using assms(1) unfolding completed_def by (simp add: dom_fun_upd)
next
  case (Some nq)
  obtain n q where nq: "nq = (n, q)" by (cases nq)
  then have "n \<in> dom (pendings l) - {i}" using active_after_delete [OF assms(2)] Some by blast
  then show ?thesis using assms(1) Some nq unfolding completed_def by (simp add: insert_absorb)
qed

lemma completed_cases:
  assumes "completed t i l l1" "distinct (map fst (l_pending l))"
  obtains "activePendingLocked (l\<lparr>l_pending := AList.delete i (l_pending l)\<rparr>) = None" "pendings l1 = (pendings l)(i := None)"
  | n q d where "activePendingLocked (l\<lparr>l_pending := AList.delete i (l_pending l)\<rparr>) = Some (n, q)" "n \<noteq> i" "pendings l n = Some q"
      "pendings l1 = (pendings l)(i := None, n \<mapsto> q\<lparr>pe_Deadline := d\<rparr>)"
      "d = (if map_option fst (activePendingLocked l) = Some i then t + pe_Budget q else pe_Deadline q)"
proof (cases "activePendingLocked (l\<lparr>l_pending := AList.delete i (l_pending l)\<rparr>)")
  case None
  then show ?thesis using assms(1) that(1) unfolding completed_def by simp
next
  case (Some nq)
  obtain n q where nq: "nq = (n, q)" by (cases nq)
  let ?d = "if map_option fst (activePendingLocked l) = Some i then t + pe_Budget q else pe_Deadline q"
  have "(if map_option fst (activePendingLocked l) = Some i then q\<lparr>pe_Deadline := t + pe_Budget q\<rparr> else q) = q\<lparr>pe_Deadline := ?d\<rparr>"
    by simp
  then have "pendings l1 = (pendings l)(i := None, n \<mapsto> q\<lparr>pe_Deadline := ?d\<rparr>)"
    using assms(1) Some unfolding completed_def nq by simp
  then show ?thesis using that(2) active_after_delete(2,3) [OF assms(2) Some [unfolded nq]] Some nq by blast
qed

lemma completed_orders:
  assumes "completed t i l l1" "distinct (map fst (l_pending l))" "orders_differ (pendings l)"
  shows "orders_differ (pendings l1)"
proof -
  have o: "orders_differ ((pendings l)(i := None))" by (rule orders_differ_del [OF assms(3)])
  from assms(1,2) show ?thesis
  proof (cases rule: completed_cases)
    case 1
    then show ?thesis using o by simp
  next
    case (2 n q d)
    then show ?thesis using orders_differ_next [OF o, of n q d] by (metis fun_upd_other)
  qed
qed

lemma completed_entry:
  assumes "completed t i l l1" "distinct (map fst (l_pending l))" "pendings l1 j = Some p"
  shows "\<exists>q. pendings l j = Some q \<and> pe_DispatchOrder q = pe_DispatchOrder p \<and> pe_Budget q = pe_Budget p \<and> pe_Method q = pe_Method p"
  using assms(1,2)
proof (cases rule: completed_cases)
  case 1
  then show ?thesis using assms(3) by (metis fun_upd_other fun_upd_same option.distinct(1))
next
  case (2 n q d)
  show ?thesis
  proof (cases "j = n")
    case True
    then show ?thesis using 2 assms(3) by (metis fun_upd_same option.inject rendererPending.select_convs(3-5) rendererPending.surjective rendererPending.update_convs(2))
  next
    case False
    then show ?thesis using 2(4) assms(3) by (metis fun_upd_other fun_upd_same option.distinct(1))
  qed
qed

text \<open>Steps that keep the numbers and the requests as they are.\<close>

definition same_ids :: "linkRun \<Rightarrow> linkRun \<Rightarrow> bool" where
  "same_ids y z \<longleftrightarrow> mset (waiting_ids z) = mset (waiting_ids y) \<and> set (y_ids z) \<subseteq> set (y_ids y) \<and> y_calls z = y_calls y
     \<and> l_pending (y_link z) = l_pending (y_link y) \<and> l_nextID (y_link z) = l_nextID (y_link y)
     \<and> l_dispatchOrder (y_link z) = l_dispatchOrder (y_link y)"

lemma same_ids_inv:
  assumes "ids_inv y" "same_ids y z"
  shows "ids_inv z"
proof -
  have "distinct (waiting_ids z) = distinct (waiting_ids y)" "set (waiting_ids z) = set (waiting_ids y)"
    "length (waiting_ids z) = length (waiting_ids y)"
    using assms(2) unfolding same_ids_def by (metis mset_eq_imp_distinct_iff mset_eq_setD mset_eq_length)+
  then show ?thesis using assms unfolding ids_inv_def same_ids_def by auto
qed

lemma ids_inv_drop:
  assumes "ids_inv y" "set (waiting_ids z) \<subseteq> set (waiting_ids y)" "distinct (waiting_ids z)" "length (waiting_ids z) \<le> length (waiting_ids y)"
    "set (y_ids z) \<subseteq> set (y_ids y)" "y_calls z = y_calls y" "l_nextID (y_link z) = l_nextID (y_link y)"
    "l_dispatchOrder (y_link z) = l_dispatchOrder (y_link y)" "distinct (map fst (l_pending (y_link z)))"
    "dom (pendings (y_link z)) \<subseteq> dom (pendings (y_link y))" "orders_differ (pendings (y_link z))"
    "\<And>j p. pendings (y_link z) j = Some p \<Longrightarrow> \<exists>q. pendings (y_link y) j = Some q \<and> pe_DispatchOrder q = pe_DispatchOrder p"
  shows "ids_inv z"
proof (rule ids_invI)
  note d = ids_invD [OF assms(1)]
  have k: "known_ids z \<subseteq> known_ids y" unfolding assms(6) using assms(2,10) by (intro Un_mono) simp_all
  show "j \<noteq> 0 \<and> j \<le> l_nextID (y_link z)" if "j \<in> known_ids z" for j
    using d(2,3) [of j] subsetD [OF k that] assms(7) by simp
  have "set (y_ids z) \<inter> (dom (pendings (y_link z)) \<union> set (y_calls z)) \<subseteq> set (y_ids y) \<inter> (dom (pendings (y_link y)) \<union> set (y_calls y))"
    unfolding assms(6) by (intro Int_mono Un_mono assms(5,10) order_refl)
  then show "set (y_ids z) \<inter> (dom (pendings (y_link z)) \<union> set (y_calls z)) = {}"
    unfolding d(5) by simp
  show "unat (l_dispatchOrder (y_link z)) + length (waiting_ids z) \<le> unat (l_nextID (y_link z))"
    using d(4) assms(4,7,8) by simp
  show "pe_DispatchOrder p \<le> l_dispatchOrder (y_link z) \<and> (j \<in> set (waiting_ids z) \<longrightarrow> pe_DispatchOrder p = 0)"
    if z: "pendings (y_link z) j = Some p" for j p
  proof -
    obtain q where q: "pendings (y_link y) j = Some q" "pe_DispatchOrder q = pe_DispatchOrder p" using assms(12) [OF z] by blast
    have "pe_DispatchOrder q \<le> l_dispatchOrder (y_link y)" by (rule d(7) [OF q(1)])
    moreover have "pe_DispatchOrder q = 0" if "j \<in> set (waiting_ids z)" by (rule d(8) [OF q(1) subsetD [OF assms(2) that]])
    ultimately show ?thesis unfolding q(2) assms(8) by blast
  qed
qed (use assms in blast)+

lemma ids_inv_allocate:
  assumes "ids_inv y" "l_nextID (y_link y) \<noteq> - 1" "i = l_nextID (y_link y) + 1"
    "z = y\<lparr>y_link := (y_link y)\<lparr>l_nextID := i\<rparr>, y_ids := i # y_ids y\<rparr>"
  shows "ids_inv z"
proof -
  note d = ids_invD [OF assms(1)]
  have u: "unat i = Suc (unat (l_nextID (y_link y)))" using unatSuc [of "l_nextID (y_link y)"] assms(2,3)
    by (simp add: add.commute [of _ 1] add_eq_0_iff)
  have n: "l_nextID (y_link y) < i" "i \<noteq> 0" using u by (auto simp: word_less_nat_alt)
  have w: "mset (waiting_ids z) = add_mset i (mset (waiting_ids y))" by (simp add: assms(4) waiting_ids_def)
  have s: "set (waiting_ids z) = insert i (set (waiting_ids y))" by (metis w set_mset_mset set_mset_add_mset_insert)
  have f: "i \<notin> known_ids y" using d(3) [of i] n(1) by (meson leD)
  have z: "l_pending (y_link z) = l_pending (y_link y)" "y_calls z = y_calls y" "y_ids z = i # y_ids y" "l_nextID (y_link z) = i"
    "l_dispatchOrder (y_link z) = l_dispatchOrder (y_link y)" by (simp_all add: assms(4))
  have k: "known_ids z = insert i (known_ids y)" by (simp only: s z) blast
  show ?thesis
  proof (rule ids_invI)
    show "distinct (waiting_ids z)"
      using w f d(1) by (metis UnI1 distinct.simps(2) mset.simps(2) mset_eq_imp_distinct_iff)
    show "j \<noteq> 0 \<and> j \<le> l_nextID (y_link z)" if "j \<in> known_ids z" for j
    proof (cases "j = i")
      case True
      then show ?thesis using n(2) by (simp add: z(4))
    next
      case False
      then have "j \<in> known_ids y" using that k by blast
      then show ?thesis using d(2) [of j] d(3) [of j] n(1) unfolding z(4) by simp
    qed
    have "length (waiting_ids z) = Suc (length (waiting_ids y))" by (metis w size_mset size_add_mset)
    then show "unat (l_dispatchOrder (y_link z)) + length (waiting_ids z) \<le> unat (l_nextID (y_link z))"
      using d(4) u unfolding z by simp
    show "set (y_ids z) \<inter> (dom (pendings (y_link z)) \<union> set (y_calls z)) = {}" unfolding z using d(5) f by auto
    show "pe_DispatchOrder p \<le> l_dispatchOrder (y_link z) \<and> (j \<in> set (waiting_ids z) \<longrightarrow> pe_DispatchOrder p = 0)"
      if "pendings (y_link z) j = Some p" for j p
    proof -
      have p: "pendings (y_link y) j = Some p" using that z(1) by simp
      then have "j \<noteq> i" using f by (metis UnCI domI)
      have "pe_DispatchOrder p \<le> l_dispatchOrder (y_link y)" by (rule d(7) [OF p])
      moreover have "pe_DispatchOrder p = 0" if "j \<in> set (waiting_ids y)" by (rule d(8) [OF p that])
      ultimately show ?thesis using \<open>j \<noteq> i\<close> unfolding z s by blast
    qed
  qed (use d in \<open>simp_all only: z\<close>)
qed

lemma pendings_admitted [simp]:
  "pendings (admitted t i meth params waiter requested l) = (pendings l)(i \<mapsto> request_pending t meth requested l)"
  by (simp add: admitted_def update_conv')

lemma request_pending_sel [simp]:
  "pe_DispatchOrder (request_pending t meth requested l) = 0" "pe_Method (request_pending t meth requested l) = meth"
  by (simp_all add: request_pending_def Let_def)

lemma request_pending_budget: "meth \<noteq> ''init'' \<Longrightarrow> pe_Budget (request_pending t meth requested l) = request_budget (l_commandTimeout l) meth"
  by (simp add: request_pending_def Let_def)

lemma ids_inv_admit:
  assumes "ids_inv y" "y_ids y = before @ i # after" "y_link z = admitted t i meth params waiter requested (y_link y)"
    "y_writer z = y_writer y" "y_ids z = before @ after" "y_calls z = (if waiter then i # y_calls y else y_calls y)"
  shows "ids_inv z"
proof -
  note d = ids_invD [OF assms(1)]
  have m: "mset (waiting_ids z) = mset (waiting_ids y)"
    using assms(2-5) by (simp add: waiting_ids_def admitted_def requestFrame_def)
  have s: "set (waiting_ids z) = set (waiting_ids y)" using m by (rule mset_eq_setD)
  have l: "l_nextID (y_link z) = l_nextID (y_link y)" "l_dispatchOrder (y_link z) = l_dispatchOrder (y_link y)"
    "distinct (map fst (l_pending (y_link z)))"
    "pendings (y_link z) = (pendings (y_link y))(i \<mapsto> request_pending t meth requested (y_link y))"
    using d(6) by (simp_all add: assms(3) admitted_def update_conv' distinct_update)
  have i: "i \<in> set (waiting_ids y)" "i \<notin> dom (pendings (y_link y))" "i \<notin> set (y_calls y)"
    using assms(2) d(5) by (auto simp: waiting_ids_def)
  have k: "known_ids z \<subseteq> known_ids y" using i(1) unfolding s l(4) assms(6) by (auto split: if_splits)
  show ?thesis
  proof (rule ids_invI)
    show "distinct (waiting_ids z)" using m d(1) by (metis mset_eq_imp_distinct_iff)
    show "j \<noteq> 0 \<and> j \<le> l_nextID (y_link z)" if "j \<in> known_ids z" for j
      using d(2) [of j] d(3) [of j] subsetD [OF k that] unfolding l(1) by blast
    show "unat (l_dispatchOrder (y_link z)) + length (waiting_ids z) \<le> unat (l_nextID (y_link z))"
      using d(4) mset_eq_length [OF m] unfolding l(1,2) by simp
    have "i \<notin> set (before @ after)" using d(1) assms(2) by (simp add: waiting_ids_def)
    moreover have "set (before @ after) \<subseteq> set (y_ids y)" using assms(2) by auto
    ultimately show "set (y_ids z) \<inter> (dom (pendings (y_link z)) \<union> set (y_calls z)) = {}"
      using d(5) unfolding l(4) assms(5,6) by (auto split: if_splits)
    show "pe_DispatchOrder p \<le> l_dispatchOrder (y_link z) \<and> (j \<in> set (waiting_ids z) \<longrightarrow> pe_DispatchOrder p = 0)"
      if p: "pendings (y_link z) j = Some p" for j p
    proof (cases "j = i")
      case True
      then show ?thesis using p unfolding l(4) by auto
    next
      case False
      then have q: "pendings (y_link y) j = Some p" using p unfolding l(4) by simp
      show ?thesis using d(7) [OF q] d(8) [OF q] unfolding l(2) s by blast
    qed
    show "orders_differ (pendings (y_link z))" unfolding l(4) by (rule orders_differ_upd [OF d(9)]) simp
  qed (rule l(3))
qed

text \<open>What the writer records when it takes up a request that is pending.\<close>

definition dispatched_entry :: "gotime \<Rightarrow> rendererLink \<Rightarrow> rendererPending \<Rightarrow> rendererPending" where
  "dispatched_entry t l p = (if activePendingLocked l = None
     then p\<lparr>pe_DispatchOrder := l_dispatchOrder l + 1, pe_Deadline := t + pe_Budget p\<rparr>
     else p\<lparr>pe_DispatchOrder := l_dispatchOrder l + 1\<rparr>)"

lemma markDispatched_none: "pendings l k = None \<Longrightarrow> markDispatched t k l = l"
  by (simp add: markDispatched_def)

lemma markDispatched_some:
  assumes "pendings l k = Some p"
  shows "l_dispatchOrder (markDispatched t k l) = l_dispatchOrder l + 1"
    "pendings (markDispatched t k l) = (pendings l)(k \<mapsto> dispatched_entry t l p)"
    "distinct (map fst (l_pending l)) \<Longrightarrow> distinct (map fst (l_pending (markDispatched t k l)))"
  using assms by (simp_all add: markDispatched_def Let_def update_conv' distinct_update dispatched_entry_def)

lemma dispatched_entry_sel [simp]:
  "pe_DispatchOrder (dispatched_entry t l p) = l_dispatchOrder l + 1" "pe_Budget (dispatched_entry t l p) = pe_Budget p"
  "pe_Method (dispatched_entry t l p) = pe_Method p"
  by (simp_all add: dispatched_entry_def)

lemma next_order:
  assumes "ids_inv y" "y_writer y = Taken f"
  shows "unat (l_dispatchOrder (y_link y) + 1) = Suc (unat (l_dispatchOrder (y_link y)))"
    "l_dispatchOrder (y_link y) < l_dispatchOrder (y_link y) + 1" "l_dispatchOrder (y_link y) + 1 \<noteq> 0"
proof -
  have "length (waiting_ids y) > 0" using assms(2) by (simp add: waiting_ids_def)
  then have "unat (l_dispatchOrder (y_link y)) < unat (l_nextID (y_link y))" using ids_invD(4) [OF assms(1)] by linarith
  then have "l_dispatchOrder (y_link y) < l_nextID (y_link y)" by (simp add: word_less_nat_alt)
  then have "l_dispatchOrder (y_link y) \<noteq> - 1" by (auto simp: word_order.extremum_strict)
  then have n: "1 + l_dispatchOrder (y_link y) \<noteq> 0" by (simp add: add_eq_0_iff)
  show u: "unat (l_dispatchOrder (y_link y) + 1) = Suc (unat (l_dispatchOrder (y_link y)))"
    using unatSuc [OF n] by (simp add: add.commute)
  show "l_dispatchOrder (y_link y) < l_dispatchOrder (y_link y) + 1" using u by (simp add: word_less_nat_alt)
  show "l_dispatchOrder (y_link y) + 1 \<noteq> 0" using n by (simp add: add.commute)
qed

lemma ids_inv_dispatch:
  assumes "ids_inv y" "y_writer y = Taken f" "y_link z = markDispatched t (wf_ID f) (y_link y)" "y_writer z = Writing f"
    "y_ids z = y_ids y" "y_calls z = y_calls y"
  shows "ids_inv z"
proof (cases "pendings (y_link y) (wf_ID f)")
  case None
  note d = ids_invD [OF assms(1)]
  have l: "y_link z = y_link y" using assms(3) markDispatched_none [OF None] by simp
  have w: "waiting_ids y = wf_ID f # waiting_ids z" using assms by (simp add: waiting_ids_def l)
  show ?thesis by (rule ids_inv_drop [OF assms(1)]) (use d(1,6,9) w assms(5,6) l in auto)
next
  case (Some p)
  note d = ids_invD [OF assms(1)]
  note n = next_order [OF assms(1,2)]
  note l = markDispatched_some [OF Some, of t, folded assms(3)]
  have w: "waiting_ids y = wf_ID f # waiting_ids z" using assms by (simp add: waiting_ids_def)
  have k: "known_ids z \<subseteq> known_ids y" using w Some unfolding l(2) assms(6) by auto
  have x: "l_nextID (y_link z) = l_nextID (y_link y)" by (simp add: assms(3))
  show ?thesis
  proof (rule ids_invI)
    show "distinct (waiting_ids z)" using d(1) w by simp
    show "j \<noteq> 0 \<and> j \<le> l_nextID (y_link z)" if "j \<in> known_ids z" for j
      using d(2) [of j] d(3) [of j] subsetD [OF k that] unfolding x by blast
    show "unat (l_dispatchOrder (y_link z)) + length (waiting_ids z) \<le> unat (l_nextID (y_link z))"
      using d(4) n(1) w unfolding l(1) x by simp
    have "dom (pendings (y_link z)) = dom (pendings (y_link y))" using Some unfolding l(2) by auto
    then show "set (y_ids z) \<inter> (dom (pendings (y_link z)) \<union> set (y_calls z)) = {}" using d(5) assms(5,6) by simp
    show "distinct (map fst (l_pending (y_link z)))" by (rule l(3) [OF d(6)])
    show "pe_DispatchOrder q \<le> l_dispatchOrder (y_link z) \<and> (j \<in> set (waiting_ids z) \<longrightarrow> pe_DispatchOrder q = 0)"
      if q: "pendings (y_link z) j = Some q" for j q
    proof (cases "j = wf_ID f")
      case True
      then show ?thesis using q d(1) unfolding l(1,2) w by auto
    next
      case False
      then have r: "pendings (y_link y) j = Some q" using q unfolding l(2) by simp
      have "pe_DispatchOrder q \<le> l_dispatchOrder (y_link y)" by (rule d(7) [OF r])
      moreover have "j \<in> set (waiting_ids y)" if "j \<in> set (waiting_ids z)" using that w by simp
      ultimately show ?thesis using d(8) [OF r] n(2) unfolding l(1) by (meson less_imp_le order.trans)
    qed
    show "orders_differ (pendings (y_link z))" unfolding l(2)
    proof (rule orders_differ_upd [OF d(9)])
      fix j q assume "pendings (y_link y) j = Some q"
      from d(7) [OF this] show "pe_DispatchOrder q \<noteq> pe_DispatchOrder (dispatched_entry t (y_link y) p)" using n(2) by auto
    qed
  qed
qed

lemma respond_completed:
  assumes "respond t i err l = (l1, waiter, failed)" "distinct (map fst (l_pending l))"
  shows "completed t i l l1" "l_waiters l1 = removeAll i (l_waiters l)" "l_dispatchOrder l1 = l_dispatchOrder l"
    "l_nextID l1 = l_nextID l" "l_control l1 = l_control l" "l_outbound l1 = l_outbound l" "l_commandTimeout l1 = l_commandTimeout l"
    "waiter \<noteq> None \<Longrightarrow> waiter = Some i \<and> i \<in> set (l_waiters l)" "waiter = None \<Longrightarrow> failed = None \<Longrightarrow> i \<notin> set (l_waiters l)"
proof -
  obtain l' q where r: "completePendingLocked t i l = (l', q)" "l1 = l'\<lparr>l_waiters := removeAll i (l_waiters l)\<rparr>"
    "waiter \<noteq> None \<Longrightarrow> waiter = Some i \<and> i \<in> set (l_waiters l)" "waiter = None \<Longrightarrow> failed = None \<Longrightarrow> i \<notin> set (l_waiters l)"
    using respond_effect [OF assms(1)] by metis
  have e: "l_pending l1 = l_pending l'" by (simp add: r(2))
  show "completed t i l l1" using completePendingLocked_pendings [OF r(1) assms(2)] unfolding completed_def e .
  show "l_waiters l1 = removeAll i (l_waiters l)" "l_dispatchOrder l1 = l_dispatchOrder l"
    "l_nextID l1 = l_nextID l" "l_control l1 = l_control l" "l_outbound l1 = l_outbound l" "l_commandTimeout l1 = l_commandTimeout l"
    using completePendingLocked_sel [OF r(1)] by (simp_all add: r(2))
qed (use respond_effect [OF assms(1)] in metis)+

lemma fail_begin_sel [simp]:
  "l_pending (fail_begin l) = l_pending l" "l_nextID (fail_begin l) = l_nextID l" "l_dispatchOrder (fail_begin l) = l_dispatchOrder l"
  "l_control (fail_begin l) = l_control l" "l_outbound (fail_begin l) = l_outbound l" "l_waiters (fail_begin l) = l_waiters l"
  "l_commandTimeout (fail_begin l) = l_commandTimeout l" "l_stop (fail_begin l)"
  "activePendingLocked (fail_begin l) = activePendingLocked l"
  by (simp_all add: fail_begin_def activePendingLocked_def)

lemma ids_inv_reply:
  assumes "ids_inv y" "completed t i (y_link y) (y_link z)" "l_dispatchOrder (y_link z) = l_dispatchOrder (y_link y)"
    "l_nextID (y_link z) = l_nextID (y_link y)" "waiting_ids z = waiting_ids y" "y_ids z = y_ids y" "y_calls z = y_calls y"
  shows "ids_inv z"
proof (rule ids_inv_drop [OF assms(1)])
  note d = ids_invD [OF assms(1)]
  show "distinct (map fst (l_pending (y_link z)))" using assms(2) by (simp add: completed_def)
  show "dom (pendings (y_link z)) \<subseteq> dom (pendings (y_link y))" using completed_dom [OF assms(2) d(6)] by blast
  show "orders_differ (pendings (y_link z))" by (rule completed_orders [OF assms(2) d(6,9)])
  show "\<exists>q. pendings (y_link y) j = Some q \<and> pe_DispatchOrder q = pe_DispatchOrder p" if "pendings (y_link z) j = Some p" for j p
    using completed_entry [OF assms(2) d(6) that] by blast
qed (use assms ids_invD(1) [OF assms(1)] in simp_all)

lemma ids_step:
  assumes "link_step y z" "ids_inv y"
  shows "ids_inv z"
  using assms(1)
proof cases
  case (time t)
  then show ?thesis using assms(2) by (auto intro!: same_ids_inv [of y] simp: same_ids_def waiting_ids_def)
next
  case (allocate i l)
  show ?thesis by (rule ids_inv_allocate [OF assms(2) allocate(3), of i]) (use allocate in \<open>auto simp: allocate_id_def\<close>)
next
  case (notify before i after frame meth params pickStop l err)
  note d = ids_invD [OF assms(2)]
  have sub: "set (before @ after) \<subseteq> set (y_ids y)" using notify(2) by auto
  consider "l = y_link y" "err \<noteq> None" | "l = (y_link y)\<lparr>l_outbound := l_outbound (y_link y) @ [frame]\<rparr>" "err = None"
    using notify(4) by (auto simp: TryNotify_def split: if_splits)
  then show ?thesis
  proof cases
    case 1
    show ?thesis unfolding notify(1) by (rule ids_inv_drop [OF assms(2)]) (use 1 d(1,6,9) notify(2) in \<open>auto simp: waiting_ids_def\<close>)
  next
    case 2
    have "wf_ID frame = i" by (simp add: notify(3) notifyFrame_def)
    then show ?thesis unfolding notify(1)
      by (intro same_ids_inv [OF assms(2)]) (use 2 notify(2) sub in \<open>simp add: same_ids_def waiting_ids_def\<close>)
  qed
next
  case (admit before i after meth params waiter requested pickStop l frame)
  have "i \<noteq> 0" using ids_invD(2) [OF assms(2), of i] admit(2) by (auto simp: waiting_ids_def)
  then have l: "l = admitted (y_now y) i meth params waiter requested (y_link y)" by (rule enqueueDeadline_admitted(1) [OF admit(3)])
  show ?thesis by (rule ids_inv_admit [OF assms(2) admit(2)]) (use l in \<open>simp_all add: admit(1)\<close>)
next
  case (refuse before i after meth params waiter requested pickStop l result)
  note d = ids_invD [OF assms(2)]
  have "l = y_link y" by (rule enqueueDeadline_refused [OF refuse(3,4)])
  then show ?thesis unfolding refuse(1) using refuse(2) d(1,6,9)
    by (intro ids_inv_drop [OF assms(2)]) (auto simp: waiting_ids_def)
next
  case poll
  then show ?thesis using assms(2) by (auto intro!: same_ids_inv [of y] simp: same_ids_def waiting_ids_def)
next
  case (take_control frame rest)
  then show ?thesis using assms(2) by (auto intro!: same_ids_inv [of y] simp: same_ids_def waiting_ids_def)
next
  case (take_outbound frame rest)
  then show ?thesis using assms(2) by (auto intro!: same_ids_inv [of y] simp: same_ids_def waiting_ids_def)
next
  case writer_stop
  then show ?thesis using assms(2) by (auto intro!: same_ids_inv [of y] simp: same_ids_def waiting_ids_def)
next
  case (dispatched frame)
  show ?thesis by (rule ids_inv_dispatch [OF assms(2) dispatched(2)]) (simp_all add: dispatched(1))
next
  case (written frame)
  then show ?thesis using assms(2) by (auto intro!: same_ids_inv [of y] simp: same_ids_def waiting_ids_def)
next
  case (write_failed frame)
  then show ?thesis using assms(2) by (auto intro!: same_ids_inv [of y] simp: same_ids_def waiting_ids_def)
next
  case (reply i err l waiter failed result)
  note r = respond_completed [OF reply(2) ids_invD(6) [OF assms(2)]]
  have "completed (y_now y) i (y_link y) (fail_begin l)" using r(1) by (simp only: completed_def fail_begin_sel)
  then show ?thesis unfolding reply(1) using r
    by (intro ids_inv_reply [OF assms(2), where t = "y_now y" and i = i]) (simp_all add: waiting_ids_def)
next
  case (detach i)
  then show ?thesis using assms(2) by (auto intro!: same_ids_inv [of y] simp: same_ids_def waiting_ids_def detachWaiter_def)
next
  case fail
  then show ?thesis using assms(2) by (auto intro!: same_ids_inv [of y] simp: same_ids_def waiting_ids_def)
next
  case (failed err l woken)
  note d = ids_invD [OF assms(2)]
  have l: "l_pending l = []" "l_nextID l = l_nextID (y_link y)" "l_dispatchOrder l = l_dispatchOrder (y_link y)"
    "l_control l = l_control (y_link y)" "l_outbound l = l_outbound (y_link y)"
    using failed(4) by (auto simp: fail_finish_def)
  show ?thesis unfolding failed(1)
    by (rule ids_inv_drop [OF assms(2)]) (use l d(1) in \<open>simp_all add: waiting_ids_def orders_differ_def\<close>)
qed

section \<open>Deadlines\<close>

text \<open>The request first in line has had its whole budget since it became so.\<close>

definition budgets_ok :: "rendererLink \<Rightarrow> bool" where
  "budgets_ok l \<longleftrightarrow> (\<forall>j p. pendings l j = Some p \<longrightarrow> pe_Method p \<noteq> ''init'' \<longrightarrow> pe_Budget p = request_budget (l_commandTimeout l) (pe_Method p))"

definition watch_inv :: "linkRun \<Rightarrow> bool" where
  "watch_inv y \<longleftrightarrow> budgets_ok (y_link y)
     \<and> (case activePendingLocked (y_link y) of
          None \<Rightarrow> y_active y = None
        | Some (i, p) \<Rightarrow> (\<exists>t \<le> y_now y. y_active y = Some (i, t) \<and> pe_Deadline p = t + pe_Budget p))"

lemma watch_same:
  assumes "watch_inv y" "l_pending (y_link z) = l_pending (y_link y)" "y_active z = y_active y" "y_now y \<le> y_now z"
    "l_commandTimeout (y_link z) = l_commandTimeout (y_link y)"
  shows "watch_inv z"
proof -
  have "activePendingLocked (y_link z) = activePendingLocked (y_link y)" by (simp add: activePendingLocked_def assms(2))
  then show ?thesis using assms unfolding watch_inv_def budgets_ok_def by (fastforce split: option.splits)
qed

lemma watch_track:
  assumes "watch_inv y" "budgets_ok (y_link z)" "y_active z = y_active y" "y_now z = y_now y"
    "\<And>j q. activePendingLocked (y_link z) = Some (j, q) \<Longrightarrow> activePendingLocked (y_link y) = Some (j, q)
       \<or> map_option fst (activePendingLocked (y_link y)) \<noteq> Some j \<and> pe_Deadline q = y_now y + pe_Budget q"
  shows "watch_inv (track z)"
proof -
  have f: "map_option fst (y_active y) = map_option fst (activePendingLocked (y_link y))"
    using assms(1) unfolding watch_inv_def by (auto split: option.splits)
  show ?thesis
  proof (cases "activePendingLocked (y_link z)")
    case None
    then show ?thesis using assms(2) by (simp add: watch_inv_def track_def)
  next
    case (Some jq)
    obtain j q where jq: "jq = (j, q)" by (cases jq)
    from assms(5) [OF Some [unfolded jq]] show ?thesis
    proof
      assume a: "activePendingLocked (y_link y) = Some (j, q)"
      then obtain t where "t \<le> y_now y" "y_active y = Some (j, t)" "pe_Deadline q = t + pe_Budget q"
        using assms(1) by (auto simp: watch_inv_def)
      then show ?thesis using assms(2-4) Some by (simp add: watch_inv_def track_def jq)
    next
      assume "map_option fst (activePendingLocked (y_link y)) \<noteq> Some j \<and> pe_Deadline q = y_now y + pe_Budget q"
      then show ?thesis using assms(2-4) Some f by (simp add: watch_inv_def track_def jq)
    qed
  qed
qed

lemma first_in_line_admit:
  assumes "m i = None" "pe_DispatchOrder p = 0" "first_in_line (m(i \<mapsto> p)) j q"
  shows "first_in_line m j q"
  using assms unfolding first_in_line_def by (metis fun_upd_other fun_upd_same option.distinct(1) option.inject)

lemma dispatch_active:
  assumes "ids_inv y" "y_writer y = Taken f" "pendings (y_link y) (wf_ID f) = Some p"
    "first_in_line ((pendings (y_link y))(wf_ID f \<mapsto> dispatched_entry t (y_link y) p)) j q"
  shows "first_in_line (pendings (y_link y)) j q
    \<or> activePendingLocked (y_link y) = None \<and> pe_Deadline q = t + pe_Budget q"
proof -
  note d = ids_invD [OF assms(1)]
  note n = next_order [OF assms(1,2)]
  have k0: "pe_DispatchOrder p = 0"
    by (rule d(8) [OF assms(3)]) (simp add: waiting_ids_def assms(2))
  let ?m = "(pendings (y_link y))(wf_ID f \<mapsto> dispatched_entry t (y_link y) p)"
  show ?thesis
  proof (cases "j = wf_ID f")
    case True
    then have q: "q = dispatched_entry t (y_link y) p" using assms(4) by (simp add: first_in_line_def)
    have "pe_DispatchOrder r = 0" if r: "pendings (y_link y) i = Some r" for i r
    proof (rule ccontr)
      assume nz: "pe_DispatchOrder r \<noteq> 0"
      then have "i \<noteq> wf_ID f" using r assms(3) k0 by auto
      then have "?m i = Some r" using r by simp
      then have "pe_DispatchOrder q \<le> pe_DispatchOrder r" using assms(4) nz unfolding first_in_line_def by blast
      then show False using d(7) [OF r] n(2) q by (simp add: not_le [symmetric])
    qed
    then have "activePendingLocked (y_link y) = None" using active_none [OF d(6)] by blast
    then show ?thesis by (simp add: q dispatched_entry_def)
  next
    case False
    have "first_in_line (pendings (y_link y)) j q"
      unfolding first_in_line_def
    proof (intro conjI allI impI)
      show "pendings (y_link y) j = Some q" "pe_DispatchOrder q \<noteq> 0" using assms(4) False by (auto simp: first_in_line_def)
      fix i r assume r: "pendings (y_link y) i = Some r" "pe_DispatchOrder r \<noteq> 0"
      then have "?m i = Some r" using assms(3) k0 by auto
      then show "pe_DispatchOrder q \<le> pe_DispatchOrder r" using assms(4) r(2) unfolding first_in_line_def by blast
    qed
    then show ?thesis ..
  qed
qed

lemma complete_active:
  assumes "distinct (map fst (l_pending l))" "orders_differ (pendings l)" "completed t i l l1"
    "activePendingLocked l1 = Some (j, q)"
  shows "activePendingLocked l = Some (j, q) \<or> map_option fst (activePendingLocked l) \<noteq> Some j \<and> pe_Deadline q = t + pe_Budget q"
  using assms(3,1)
proof (cases rule: completed_cases)
  case 1
  let ?l = "l\<lparr>l_pending := AList.delete i (l_pending l)\<rparr>"
  have "pendings ?l = pendings l1" using 1(2) by (simp add: delete_conv')
  moreover have "distinct (map fst (l_pending ?l))" using assms(1) by (simp add: distinct_delete)
  moreover have "distinct (map fst (l_pending l1))" using assms(3) by (simp add: completed_def)
  ultimately have "activePendingLocked l1 = None" using 1(1) active_none [of ?l] active_none [of l1] by simp
  then show ?thesis using assms(4) by simp
next
  case (2 n r d)
  note f = active_after_delete [OF assms(1) 2(1)]
  have o: "orders_differ (pendings l1)" by (rule completed_orders [OF assms(3,1,2)])
  have "distinct (map fst (l_pending l1))" using assms(3) by (simp add: completed_def)
  then have a: "first_in_line (pendings l1) j q" using active_first assms(4) by blast
  have b: "first_in_line (pendings l1) n (r\<lparr>pe_Deadline := d\<rparr>)"
    using f(1) unfolding 2(4) first_in_line_def by (auto split: if_splits)
  have j: "j = n" "q = r\<lparr>pe_Deadline := d\<rparr>" using first_in_line_unique [OF o a b] by simp_all
  show ?thesis
  proof (cases "map_option fst (activePendingLocked l) = Some i")
    case True
    then show ?thesis using 2(2,5) j by auto
  next
    case False
    then have q: "q = r" using 2(5) j by simp
    have "first_in_line (pendings l) n r" unfolding first_in_line_def
    proof (intro conjI allI impI)
      show "pendings l n = Some r" by (rule f(3))
      show "pe_DispatchOrder r \<noteq> 0" using f(1) unfolding first_in_line_def by blast
      fix k s assume s: "pendings l k = Some s" "pe_DispatchOrder s \<noteq> 0"
      show "pe_DispatchOrder r \<le> pe_DispatchOrder s"
      proof (cases "k = i")
        case True
        obtain u b where u: "activePendingLocked l = Some (u, b)"
          using s active_none [OF assms(1)] by (metis not_None_eq surj_pair)
        then have ub: "first_in_line (pendings l) u b" "u \<noteq> i" using active_first [OF assms(1)] False by auto
        then have "((pendings l)(i := None)) u = Some b" "pe_DispatchOrder b \<noteq> 0" by (simp_all add: first_in_line_def)
        then have "pe_DispatchOrder r \<le> pe_DispatchOrder b" using f(1) unfolding first_in_line_def by blast
        also have "pe_DispatchOrder b \<le> pe_DispatchOrder s" using ub(1) s unfolding first_in_line_def by blast
        finally show ?thesis .
      next
        case False
        then have "((pendings l)(i := None)) k = Some s" using s by simp
        then show ?thesis using f(1) s(2) unfolding first_in_line_def by blast
      qed
    qed
    then have "activePendingLocked l = Some (n, r)" using active_eq [OF assms(1,2)] by blast
    then show ?thesis using j(1) q by simp
  qed
qed

lemma budgets_sub:
  assumes "budgets_ok l" "l_commandTimeout l1 = l_commandTimeout l"
    "\<And>j p. pendings l1 j = Some p \<Longrightarrow> \<exists>q. pendings l j = Some q \<and> pe_Budget q = pe_Budget p \<and> pe_Method q = pe_Method p"
  shows "budgets_ok l1"
  using assms unfolding budgets_ok_def by metis

lemma watch_step:
  assumes "link_step y z" "watch_inv y" "ids_inv y" "ids_inv z"
  shows "watch_inv z"
  using assms(1)
proof cases
  case (time t)
  then show ?thesis by (auto intro!: watch_same [OF assms(2)])
next
  case (allocate i l)
  then show ?thesis by (auto intro!: watch_same [OF assms(2)] simp: allocate_id_def)
next
  case (notify before i after frame meth params pickStop l err)
  have "l_pending l = l_pending (y_link y)" "l_commandTimeout l = l_commandTimeout (y_link y)"
    using notify(4) by (auto simp: TryNotify_def split: if_splits)
  then show ?thesis unfolding notify(1) by (intro watch_same [OF assms(2)]) simp_all
next
  case (admit before i after meth params waiter requested pickStop l frame)
  let ?l = "admitted (y_now y) i meth params waiter requested (y_link y)"
  note d = ids_invD [OF assms(3)] and e = ids_invD [OF assms(4)]
  have i: "i \<noteq> 0" "pendings (y_link y) i = None" using d(2) [of i] d(5) admit(2) by (auto simp: waiting_ids_def)
  have l: "l = ?l" by (rule enqueueDeadline_admitted(1) [OF admit(3) i(1)])
  have z: "y_link z = ?l" by (simp add: admit(1) l)
  have b: "budgets_ok ?l"
    using assms(2) unfolding watch_inv_def budgets_ok_def pendings_admitted
    by (simp add: request_pending_budget) (simp add: admitted_def)
  have "activePendingLocked (y_link y) = Some (j, q)" if "activePendingLocked ?l = Some (j, q)" for j q
  proof -
    have "first_in_line (pendings ?l) j q" using that active_first e(6) unfolding z by blast
    then have "first_in_line (pendings (y_link y)) j q"
      unfolding pendings_admitted by (rule first_in_line_admit [where i = i, rotated 2]) (use i(2) in simp_all)
    then show ?thesis using active_eq [OF d(6,9)] by blast
  qed
  then show ?thesis unfolding admit(1) using b l by (intro watch_track [OF assms(2)]) auto
next
  case (refuse before i after meth params waiter requested pickStop l result)
  have "l = y_link y" by (rule enqueueDeadline_refused [OF refuse(3,4)])
  then show ?thesis unfolding refuse(1) by (intro watch_same [OF assms(2)]) simp_all
next
  case poll
  then show ?thesis by (auto intro!: watch_same [OF assms(2)])
next
  case (take_control frame rest)
  then show ?thesis by (auto intro!: watch_same [OF assms(2)])
next
  case (take_outbound frame rest)
  then show ?thesis by (auto intro!: watch_same [OF assms(2)])
next
  case writer_stop
  then show ?thesis by (auto intro!: watch_same [OF assms(2)])
next
  case (dispatched frame)
  note d = ids_invD [OF assms(3)] and e = ids_invD [OF assms(4)]
  let ?l = "markDispatched (y_now y) (wf_ID frame) (y_link y)"
  have z: "y_link z = ?l" by (simp add: dispatched(1))
  have w: "budgets_ok (y_link y)" using assms(2) by (simp add: watch_inv_def)
  show ?thesis unfolding dispatched(1)
  proof (rule watch_track [OF assms(2)])
    show "budgets_ok (y_link (y\<lparr>y_link := ?l, y_writer := Writing frame\<rparr>))"
    proof (cases "pendings (y_link y) (wf_ID frame)")
      case None
      then show ?thesis using w by (simp add: markDispatched_none)
    next
      case (Some p)
      then show ?thesis using w unfolding budgets_ok_def
        by (simp add: markDispatched_some(2) split: if_splits)
    qed
    fix j q assume "activePendingLocked (y_link (y\<lparr>y_link := ?l, y_writer := Writing frame\<rparr>)) = Some (j, q)"
    then have a: "activePendingLocked ?l = Some (j, q)" by simp
    show "activePendingLocked (y_link y) = Some (j, q)
       \<or> map_option fst (activePendingLocked (y_link y)) \<noteq> Some j \<and> pe_Deadline q = y_now y + pe_Budget q"
    proof (cases "pendings (y_link y) (wf_ID frame)")
      case None
      then show ?thesis using a by (simp add: markDispatched_none)
    next
      case (Some p)
      have "first_in_line (pendings ?l) j q" using a active_first e(6) unfolding z by blast
      then have "first_in_line (pendings (y_link y)) j q \<or> activePendingLocked (y_link y) = None \<and> pe_Deadline q = y_now y + pe_Budget q"
        unfolding markDispatched_some(2) [OF Some] by (rule dispatch_active [OF assms(3) dispatched(2) Some])
      then show ?thesis using active_eq [OF d(6,9)] by fastforce
    qed
  qed simp_all
next
  case (written frame)
  then show ?thesis by (auto intro!: watch_same [OF assms(2)])
next
  case (write_failed frame)
  then show ?thesis by (auto intro!: watch_same [OF assms(2)])
next
  case (reply i err l waiter failed result)
  note d = ids_invD [OF assms(3)]
  note r = respond_completed [OF reply(2) d(6)]
  have b: "budgets_ok l"
    by (rule budgets_sub [of "y_link y"]) (use assms(2) r(7) completed_entry [OF r(1) d(6)] in \<open>auto simp: watch_inv_def\<close>)
  then have bf: "budgets_ok (fail_begin l)" by (simp add: budgets_ok_def)
  have a: "activePendingLocked (if failed = None then l else fail_begin l) = activePendingLocked l" by simp
  show ?thesis unfolding reply(1)
  proof (rule watch_track [OF assms(2)], goal_cases)
    case (4 j q)
    then show ?case using complete_active [OF d(6,9) r(1)] a by simp
  qed (use b bf in simp_all)
next
  case (detach i)
  then show ?thesis by (auto intro!: watch_same [OF assms(2)] simp: detachWaiter_def)
next
  case fail
  then show ?thesis by (auto intro!: watch_same [OF assms(2)])
next
  case (failed err l woken)
  have "l_pending l = []" using failed(4) by (auto simp: fail_finish_def)
  then show ?thesis unfolding failed(1)
    by (intro watch_track [OF assms(2)]) (simp_all add: budgets_ok_def activePendingLocked_def)
qed

section \<open>Answers\<close>

definition calls_inv :: "linkRun \<Rightarrow> bool" where
  "calls_inv y \<longleftrightarrow> distinct (l_waiters (y_link y)) \<and> set (l_waiters (y_link y)) \<subseteq> dom (pendings (y_link y)) \<inter> set (y_calls y)
     \<and> distinct (map fst (y_outcomes y)) \<and> fst ` set (y_outcomes y) \<union> set (y_detached y) \<subseteq> set (y_calls y)
     \<and> set (l_waiters (y_link y)) \<inter> (fst ` set (y_outcomes y) \<union> set (y_detached y)) = {}
     \<and> (\<not> l_stop (y_link y) \<longrightarrow> set (y_calls y) \<subseteq> set (l_waiters (y_link y)) \<union> fst ` set (y_outcomes y) \<union> set (y_detached y))"

lemma calls_same:
  assumes "calls_inv y" "l_waiters (y_link z) = l_waiters (y_link y)" "dom (pendings (y_link z)) = dom (pendings (y_link y))"
    "y_calls z = y_calls y" "y_outcomes z = y_outcomes y" "y_detached z = y_detached y" "l_stop (y_link y) \<Longrightarrow> l_stop (y_link z)"
  shows "calls_inv z"
  using assms unfolding calls_inv_def by (simp only:) blast

lemma calls_step:
  assumes "link_step y z" "calls_inv y" "ids_inv y"
  shows "calls_inv z"
  using assms(1)
proof cases
  case (time t)
  then show ?thesis by (auto intro!: calls_same [OF assms(2)])
next
  case (allocate i l)
  then show ?thesis by (auto intro!: calls_same [OF assms(2)] simp: allocate_id_def)
next
  case (notify before i after frame meth params pickStop l err)
  have "l_pending l = l_pending (y_link y)" "l_waiters l = l_waiters (y_link y)" "l_stop l = l_stop (y_link y)"
    using notify(4) by (auto simp: TryNotify_def split: if_splits)
  then show ?thesis unfolding notify(1) by (intro calls_same [OF assms(2)]) simp_all
next
  case (admit before i after meth params waiter requested pickStop l frame)
  note d = ids_invD [OF assms(3)]
  have i: "i \<noteq> 0" "i \<notin> set (y_calls y)" using d(2) [of i] d(5) admit(2) by (auto simp: waiting_ids_def)
  have "l = admitted (y_now y) i meth params waiter requested (y_link y)" by (rule enqueueDeadline_admitted(1) [OF admit(3) i(1)])
  then have l: "l_waiters l = (if waiter then i # l_waiters (y_link y) else l_waiters (y_link y))"
    "dom (pendings l) = insert i (dom (pendings (y_link y)))" "l_stop l = l_stop (y_link y)"
    by (auto simp: admitted_def update_conv')
  show ?thesis using assms(2) i(2) unfolding admit(1) calls_inv_def track_sel sent_to_sel
    by (cases waiter) (auto simp: l)
next
  case (refuse before i after meth params waiter requested pickStop l result)
  have "l = y_link y" by (rule enqueueDeadline_refused [OF refuse(3,4)])
  then show ?thesis unfolding refuse(1) by (intro calls_same [OF assms(2)]) simp_all
next
  case poll
  then show ?thesis by (auto intro!: calls_same [OF assms(2)])
next
  case (take_control frame rest)
  then show ?thesis by (auto intro!: calls_same [OF assms(2)])
next
  case (take_outbound frame rest)
  then show ?thesis by (auto intro!: calls_same [OF assms(2)])
next
  case writer_stop
  then show ?thesis by (auto intro!: calls_same [OF assms(2)])
next
  case (dispatched frame)
  have "dom (pendings (markDispatched (y_now y) (wf_ID frame) (y_link y))) = dom (pendings (y_link y))"
    by (cases "pendings (y_link y) (wf_ID frame)") (auto simp: markDispatched_none markDispatched_some(2))
  moreover have "l_stop (markDispatched t i l) = l_stop l" for t i l by (simp add: markDispatched_def Let_def split: option.split)
  ultimately show ?thesis unfolding dispatched(1) by (intro calls_same [OF assms(2)]) simp_all
next
  case (written frame)
  then show ?thesis by (auto intro!: calls_same [OF assms(2)])
next
  case (write_failed frame)
  then show ?thesis by (auto intro!: calls_same [OF assms(2)])
next
  case (reply i err l waiter failed result)
  note d = ids_invD [OF assms(3)]
  note r = respond_completed [OF reply(2) d(6)]
  have dom: "dom (pendings l) = dom (pendings (y_link y)) - {i}" by (rule completed_dom [OF r(1) d(6)])
  have stop: "failed = None \<Longrightarrow> l_stop (y_link y) \<longleftrightarrow> l_stop l"
    using reply(2) by (auto simp: respond_def completePendingLocked_def Let_def split: prod.splits if_splits option.splits)
  show ?thesis
  proof (cases waiter)
    case None
    show ?thesis using assms(2) r(9) [OF None] unfolding reply(1) None calls_inv_def
      by (cases failed) (auto simp: r(2) dom stop distinct_removeAll)
  next
    case (Some j)
    then have "j = i" "i \<in> set (l_waiters (y_link y))" using r(8) by auto
    then show ?thesis using assms(2) unfolding reply(1) Some calls_inv_def
      by (cases failed) (auto simp: r(2) dom stop distinct_removeAll)
  qed
next
  case (detach i)
  then show ?thesis using assms(2) unfolding calls_inv_def by (auto simp: detachWaiter_def distinct_removeAll)
next
  case fail
  then show ?thesis by (auto intro!: calls_same [OF assms(2)])
next
  case (failed err l woken)
  have l: "l_waiters l = []" "woken = l_waiters (y_link y)" "l_stop l" "l_pending l = []"
    using failed(2,4) by (auto simp: fail_finish_def)
  have "distinct (map fst (map (\<lambda>i. (i, CallFailed err)) woken @ y_outcomes y))"
    using assms(2) l(2) unfolding calls_inv_def by (auto simp: comp_def)
  then show ?thesis using assms(2) l unfolding failed(1) calls_inv_def by (auto simp: image_image)
qed

end
