(* ===== verification/LinkProperties.thy ===== *)
theory LinkProperties
  imports LinkInvariant
begin

text \<open>
  The link to a renderer worker keeps both of its queues in order, watches the request that is first
  in line with the whole of its budget, and answers every call once.
\<close>

definition link_inv :: "linkRun \<Rightarrow> bool" where
  "link_inv y \<longleftrightarrow> ids_inv y \<and> lanes_inv y \<and> watch_inv y \<and> calls_inv y"

lemma link_inv_init: "link_init y \<Longrightarrow> link_inv y"
  by (auto simp: link_init_def link_inv_def ids_inv_def lanes_inv_def watch_inv_def calls_inv_def startRendererLink_def
      waiting_ids_def orders_differ_def budgets_ok_def activePendingLocked_def)

lemma link_inv_step: "link_step y z \<Longrightarrow> link_inv y \<Longrightarrow> link_inv z"
proof -
  assume a: "link_step y z" "link_inv y"
  then have "0 \<notin> set (y_ids y)" using ids_invD(2) [of y 0] by (auto simp: link_inv_def waiting_ids_def)
  then show "link_inv z" using a ids_step lanes_step watch_step calls_step unfolding link_inv_def by blast
qed

interpretation renderer_link: invariant_system link_init link_step link_inv
  by unfold_locales (blast intro: link_inv_init link_inv_step)+

text \<open>
  Property C20: a request that was dispatched has its whole execution budget from the moment it became
  the first in line at the worker, which no later request extends or shortens: its deadline is that
  moment plus its budget, and the health check names exactly this request once the deadline has
  passed. While no request is dispatched, the health check is silent as long as every admitted
  request is within its own deadline.
\<close>

theorem link_deadline_exact:
  assumes "reachable link_init link_step y"
  shows "case activePendingLocked (y_link y) of
      Some (i, p) \<Rightarrow> (\<exists>since \<le> y_now y. y_active y = Some (i, since) \<and> pe_Deadline p = since + pe_Budget p
        \<and> (pe_Method p \<noteq> ''init'' \<longrightarrow> pe_Budget p = request_budget (l_commandTimeout (y_link y)) (pe_Method p))
        \<and> HealthError now timeout (y_link y) = (if since + pe_Budget p \<le> now then Some i else None))
    | None \<Rightarrow> y_active y = None
        \<and> (HealthError now timeout (y_link y) = None \<longleftrightarrow>
             (\<forall>(i, p) \<in> set (l_pending (y_link y)).
                now < (if is_zero_time (pe_Deadline p) then pe_StartedAt p + timeout else pe_Deadline p)))"
proof -
  have inv: "watch_inv y" "ids_inv y" using renderer_link.reachable_inv [OF assms] by (simp_all add: link_inv_def)
  show ?thesis
  proof (cases "activePendingLocked (y_link y)")
    case None
    then show ?thesis using inv(1) by (fastforce simp: watch_inv_def HealthError_def find_None_iff not_le)
  next
    case (Some ip)
    obtain i p where ip: "ip = (i, p)" by (cases ip)
    have "pendings (y_link y) i = Some p" using active_first [OF ids_invD(6) [OF inv(2)]] Some ip by (auto simp: first_in_line_def)
    then show ?thesis using inv(1) Some by (auto simp: watch_inv_def budgets_ok_def HealthError_def ip)
  qed
qed

text \<open>
  Property C21: a call that was admitted is waiting for an answer, and then the link still watches its
  request, or it was answered exactly once, or its caller went away, or the link has failed. Nobody
  who waits was answered before.
\<close>

theorem link_calls_answered:
  assumes "reachable link_init link_step y"
  shows "distinct (map fst (y_outcomes y))
    \<and> (\<forall>i \<in> set (y_calls y). i \<in> set (l_waiters (y_link y)) \<and> i \<in> fst ` set (l_pending (y_link y))
           \<and> i \<notin> fst ` set (y_outcomes y) \<and> i \<notin> set (y_detached y)
         \<or> i \<notin> set (l_waiters (y_link y)) \<and> (i \<in> fst ` set (y_outcomes y) \<or> i \<in> set (y_detached y) \<or> l_stop (y_link y)))"
proof -
  have "calls_inv y" using renderer_link.reachable_inv [OF assms] by (simp add: link_inv_def)
  then show ?thesis unfolding calls_inv_def dom_map_of_conv_image_fst by blast
qed

text \<open>
  frames reach the worker in the order in which their queue accepted them. What was
  written, with the frame the writer holds, is an interleaving of a prefix of the journal lane and a
  prefix of the control lane, the rest is still queued, and neither queue exceeds its bound; a failed
  writer loses at most the frame it held.
\<close>

theorem link_frames_in_order:
  assumes "reachable link_init link_step y"
  shows "(\<exists>outbound control lost. y_outboundSent y = outbound @ l_outbound (y_link y) \<and> y_controlSent y = control @ l_control (y_link y)
      \<and> y_wire y @ in_flight (y_writer y) @ lost \<in> shuffles outbound control
      \<and> length lost \<le> 1 \<and> (y_writer y \<noteq> WriterGone \<longrightarrow> lost = []))
    \<and> length (l_outbound (y_link y)) \<le> l_QueueFrames (y_link y) \<and> length (l_control (y_link y)) \<le> l_QueueFrames (y_link y)"
  using renderer_link.reachable_inv [OF assms] unfolding link_inv_def lanes_inv_def by blast

text \<open>A link that reads the screen: the request is admitted, taken up and dispatched.\<close>

definition sample_link :: "nat \<Rightarrow> linkRun" where
  "sample_link n =
     (let y0 = \<lparr>y_link = startRendererLink 7 1000 4, y_now = 5, y_ids = [], y_writer = Looking, y_wire = [], y_outboundSent = [],
                y_controlSent = [], y_calls = [], y_outcomes = [], y_detached = [], y_active = None\<rparr>;
          y1 = y0\<lparr>y_link := snd (allocate_id (y_link y0)), y_ids := [1]\<rparr>;
          y2 = track (sent_to False [requestFrame 1 ''read'' [] (y_link y1)] (y1\<lparr>y_link := admitted 5 1 ''read'' [] True 0 (y_link y1), y_ids := [], y_calls := [1]\<rparr>));
          y3 = y2\<lparr>y_link := (y_link y2)\<lparr>l_control := []\<rparr>, y_writer := Taken (requestFrame 1 ''read'' [] (y_link y1))\<rparr>;
          y4 = track (y3\<lparr>y_link := markDispatched 5 1 (y_link y3), y_writer := Writing (requestFrame 1 ''read'' [] (y_link y1))\<rparr>)
      in [y0, y1, y2, y3, y4] ! n)"

lemma sample_link_reachable: "reachable link_init link_step (sample_link 4)"
proof -
  have s0: "reachable link_init link_step (sample_link 0)"
    by (rule reach_init) (auto simp: link_init_def sample_link_def Let_def)
  have "link_step (sample_link 0) (sample_link 1)"
    using link_step.allocate [of "sample_link 0" 1 "snd (allocate_id (y_link (sample_link 0)))"]
    by (simp add: sample_link_def Let_def allocate_id_def startRendererLink_def)
  then have s1: "reachable link_init link_step (sample_link 1)" by (rule reach_step [OF s0])
  have "link_step (sample_link 1) (sample_link 2)"
    using link_step.admit [of "sample_link 1" "[]" 1 "[]" "''read''" "[]" True 0 False "admitted 5 1 ''read'' [] True 0 (y_link (sample_link 1))"
        "requestFrame 1 ''read'' [] (y_link (sample_link 1))"]
    by (simp add: sample_link_def Let_def allocate_id_def startRendererLink_def enqueueDeadline_def admitted_def in_outbound_def)
  then have s2: "reachable link_init link_step (sample_link 2)" by (rule reach_step [OF s1])
  have "link_step (sample_link 2) (sample_link 3)"
    using link_step.take_control [of "sample_link 2" "requestFrame 1 ''read'' [] (y_link (sample_link 1))" "[]"]
    by (simp add: sample_link_def Let_def allocate_id_def startRendererLink_def admitted_def in_outbound_def track_def sent_to_def)
  then have s3: "reachable link_init link_step (sample_link 3)" by (rule reach_step [OF s2])
  have "link_step (sample_link 3) (sample_link 4)"
    using link_step.dispatched [of "sample_link 3" "requestFrame 1 ''read'' [] (y_link (sample_link 1))"]
    by (simp add: sample_link_def Let_def requestFrame_def)
  then show ?thesis by (rule reach_step [OF s3])
qed

lemma sample_link_active:
  "activePendingLocked (y_link (sample_link 4)) =
     Some (1, \<lparr>pe_StartedAt = 5, pe_Deadline = 4005, pe_Budget = 4000, pe_DispatchOrder = 1, pe_Method = ''read''\<rparr>)"
  by code_simp

theorem link_deadline_exact_witness:
  "(\<exists>since \<le> y_now (sample_link 4). y_active (sample_link 4) = Some (1, since))
     \<and> HealthError 4004 0 (y_link (sample_link 4)) = None \<and> HealthError 4005 0 (y_link (sample_link 4)) = Some 1"
  using link_deadline_exact [OF sample_link_reachable, of 4004 0] link_deadline_exact [OF sample_link_reachable, of 4005 0]
  unfolding sample_link_active by auto

theorem link_calls_answered_witness:
  "y_calls (sample_link 4) = [1] \<and> l_waiters (y_link (sample_link 4)) = [1] \<and> 1 \<in> fst ` set (l_pending (y_link (sample_link 4)))
   \<and> 1 \<notin> set (y_detached (sample_link 4))"
proof -
  have "y_calls (sample_link 4) = [1]" "l_waiters (y_link (sample_link 4)) = [1]" by code_simp+
  then show ?thesis using link_calls_answered [OF sample_link_reachable] by simp
qed

theorem link_frames_in_order_witness:
  "length (y_controlSent (sample_link 4)) = 1
   \<and> length (l_control (y_link (sample_link 4))) \<le> l_QueueFrames (y_link (sample_link 4))"
proof -
  have "length (y_controlSent (sample_link 4)) = 1" by code_simp
  then show ?thesis using link_frames_in_order [OF sample_link_reachable] by blast
qed

end
