(* ===== verification/NodeNaming.thy ===== *)
theory NodeNaming
  imports NodeStore NodeOperations
begin

text \<open>
  What a new node is called and made of: slugs and instance names, ports, the checks of a create
  request in their order, and the records that create and clone save.
\<close>

section \<open>Slugs and instance names\<close>

definition RuntimeVM :: string where "RuntimeVM = ''vm''"
definition ProviderLima :: string where "ProviderLima = ''lima''"
definition WorkspaceModeCopy :: string where "WorkspaceModeCopy = ''copy''"
definition WorkspaceModeMounted :: string where "WorkspaceModeMounted = ''mounted''"
definition DefaultConfigurationSlug :: string where "DefaultConfigurationSlug = ''small''"

definition slug_char :: "char \<Rightarrow> bool" where
  "slug_char c \<longleftrightarrow> CHR ''a'' \<le> c \<and> c \<le> CHR ''z'' \<or> CHR ''0'' \<le> c \<and> c \<le> CHR ''9''"

fun slug_loop :: "string \<Rightarrow> string \<Rightarrow> bool \<Rightarrow> string" where
  "slug_loop [] builder lastDash = builder"
| "slug_loop (c # cs) builder lastDash =
     (if slug_char c then slug_loop cs (builder @ [c]) False
      else if c \<in> {CHR ''-'', CHR ''_'', CHR '' '', CHR ''/''} \<and> builder \<noteq> [] \<and> \<not> lastDash
      then slug_loop cs (builder @ ''-'') True
      else slug_loop cs builder lastDash)"

definition trim_dashes :: "string \<Rightarrow> string" where
  "trim_dashes s = rev (dropWhile (\<lambda>c. c = CHR ''-'') (rev (dropWhile (\<lambda>c. c = CHR ''-'') s)))"

definition slugify :: "string \<Rightarrow> string" where
  "slugify text =
     (let input = ToLower (TrimSpace text)
      in if input = [] then ''node''
         else let slug = trim_dashes (slug_loop input [] False) in if slug = [] then ''node'' else slug)"

definition validateSandboxName :: "string \<Rightarrow> goError option" where
  "validateSandboxName name =
     (if valid_sandbox_name name then None
      else Some (invalidArgument ''sandbox name must start with an alphanumeric, contain only alphanumeric, dots, hyphens, and underscores, and be at most 128 characters'' [(''sandbox_name'', name)]))"

text \<open>\<open>nodes\<close> is the listing of the nodes that are not deleted, \<open>indexed\<close> says which instance names have an index entry.\<close>

definition ensureUniqueNodeSlug :: "Node list \<Rightarrow> string \<Rightarrow> goError option" where
  "ensureUniqueNodeSlug nodes slug =
     (if \<exists>node \<in> set nodes. n_Slug node = slug then Some (preconditionFailed ''node slug already exists'' [(''slug'', slug)]) else None)"

definition base_sandbox_name :: "string \<Rightarrow> string" where
  "base_sandbox_name nodeSlug =
     (let name = slugify nodeSlug;
          name = (if length name > 128 then trim_dashes (take 128 name) else name)
      in if name = [] then ''node'' else name)"

definition generateSandboxName :: "(string \<Rightarrow> bool) \<Rightarrow> Node list \<Rightarrow> string \<Rightarrow> (goError, string) result" where
  "generateSandboxName indexed nodes nodeSlug =
     (let name = base_sandbox_name nodeSlug;
          taken = Inl (preconditionFailed ''sandbox name already exists'' [(''sandbox_name'', name)])
      in case validateSandboxName name of
           Some err \<Rightarrow> Inl err
         | None \<Rightarrow>
             if indexed name then taken
             else if \<exists>node \<in> set nodes. n_SandboxName node = name \<and> n_Status node \<noteq> NodeStatusTerminated then taken
             else Inr name)"

section \<open>Ports\<close>

definition is_digit :: "char \<Rightarrow> bool" where
  "is_digit c \<longleftrightarrow> CHR ''0'' \<le> c \<and> c \<le> CHR ''9''"

definition digits_value :: "string \<Rightarrow> int" where
  "digits_value ds = foldl (\<lambda>v c. 10 * v + (of_char c - 48)) 0 ds"

definition Atoi :: "string \<Rightarrow> int option" where
  "Atoi s =
     (let (sign, ds) = (case s of c # cs \<Rightarrow> if c = CHR ''-'' then (-1, cs) else if c = CHR ''+'' then (1, cs) else (1, s) | [] \<Rightarrow> (1, []));
          v = sign * digits_value ds
      in if ds = [] \<or> \<not> list_all is_digit ds \<or> v < - (2 ^ 63) \<or> v \<ge> 2 ^ 63 then None else Some v)"

fun split_at :: "char \<Rightarrow> string \<Rightarrow> string list" where
  "split_at sep [] = [[]]"
| "split_at sep (c # cs) =
     (if c = sep then [] # split_at sep cs
      else case split_at sep cs of part # parts \<Rightarrow> (c # part) # parts | [] \<Rightarrow> [[c]])"

fun validate_ports :: "string list \<Rightarrow> int list \<Rightarrow> (goError, (int \<times> int) list) result" where
  "validate_ports [] hostPorts = Inr []"
| "validate_ports (text # rest) hostPorts =
     (let value = TrimSpace text
      in case split_at (CHR '':'') value of
           [h, g] \<Rightarrow>
             (case (Atoi h, Atoi g) of
                (Some host, Some guest) \<Rightarrow>
                  if host < 1 \<or> host > 65535 \<or> guest < 1 \<or> guest > 65535
                  then Inl (invalidArgument ''port must use HOST:GUEST values from 1 to 65535'' [(''port'', value)])
                  else if host \<in> set hostPorts then Inl (invalidArgument ''duplicate host port'' [])
                  else (case validate_ports rest (host # hostPorts) of Inl err \<Rightarrow> Inl err | Inr ports \<Rightarrow> Inr ((host, guest) # ports))
              | _ \<Rightarrow> Inl (invalidArgument ''port must use HOST:GUEST values from 1 to 65535'' [(''port'', value)]))
         | _ \<Rightarrow> Inl (invalidArgument ''port must use HOST:GUEST numeric form'' [(''port'', value)]))"

text \<open>The normalized ports are pairs of numbers, which \<^verbatim>\<open>validatePorts\<close> prints as \<^verbatim>\<open>HOST:GUEST\<close>.\<close>

definition validatePorts :: "string list \<Rightarrow> (goError, (int \<times> int) list) result" where
  "validatePorts ports = validate_ports ports []"

fun host_conflict :: "int set \<Rightarrow> string set \<Rightarrow> string \<Rightarrow> Node list \<Rightarrow> goError option" where
  "host_conflict requested running nodeID [] = None"
| "host_conflict requested running nodeID (other # rest) =
     (if n_ID other = nodeID \<or> n_SandboxName other \<notin> running then host_conflict requested running nodeID rest
      else case validatePorts (n_Ports other) of
             Inl err \<Rightarrow> Some err
           | Inr ports \<Rightarrow>
               if \<exists>port \<in> set ports. fst port \<in> requested
               then Some (preconditionFailed ''host port is already reserved by a running node'' [(''node'', n_Slug other)])
               else host_conflict requested running nodeID rest)"

definition ensureNodeHostPortsAvailable ::
  "Node \<Rightarrow> (goError, RuntimeObservation list) result \<Rightarrow> (goError, Node list) result \<Rightarrow> goError option" where
  "ensureNodeHostPortsAvailable node runtime listing =
     (case validatePorts (n_Ports node) of
        Inl err \<Rightarrow> Some err
      | Inr [] \<Rightarrow> None
      | Inr ports \<Rightarrow>
          (case runtime of Inl err \<Rightarrow> Some err | Inr observations \<Rightarrow>
          (case listing of Inl err \<Rightarrow> Some err | Inr nodes \<Rightarrow>
             host_conflict (fst ` set ports)
               (ob_Name ` set (filter (\<lambda>x. ob_Status x = ObservationRunning) observations)) (n_ID node) nodes)))"

section \<open>Create requests\<close>

definition normalizeWorkspaceMode :: "string \<Rightarrow> string" where
  "normalizeWorkspaceMode mode =
     (let m = TrimSpace (ToLower mode)
      in if m = [] \<or> m = WorkspaceModeCopy then WorkspaceModeCopy else if m = WorkspaceModeMounted then WorkspaceModeMounted else [])"

definition nodeWorkspaceMode :: "Node \<Rightarrow> string" where
  "nodeWorkspaceMode node =
     (if normalizeWorkspaceMode (n_WorkspaceMode node) \<noteq> [] then normalizeWorkspaceMode (n_WorkspaceMode node)
      else if n_WorkspaceMountPath node \<noteq> [] then WorkspaceModeMounted else WorkspaceModeCopy)"

text \<open>
  The checks before any lock is taken. \<open>directory\<close> and \<open>settings\<close> are the answers of
  \<^verbatim>\<open>resolveNodeDirectoryPath\<close> and of the settings, the second with the default for credential import.
\<close>

definition check_create ::
  "NodeCreateInput \<Rightarrow> (goError, string) result \<Rightarrow> (goError, bool) result \<Rightarrow> (goError, string \<times> string \<times> string \<times> string \<times> bool) result" where
  "check_create input directory settings =
     (if TrimSpace (ci_Slug input) = [] then Inl (invalidArgument ''node slug is required'' [])
      else if slugify (ci_Slug input) \<noteq> ci_Slug input
      then Inl (invalidArgument ''node slug must be a lowercase slug'' [(''slug'', ci_Slug input)])
      else case directory of Inl err \<Rightarrow> Inl err | Inr directoryPath \<Rightarrow>
        let runtime = coalesce [ci_Runtime input, RuntimeVM];
            provider = coalesce [ci_Provider input, ProviderLima];
            mode = normalizeWorkspaceMode (coalesce [ci_WorkspaceMode input, WorkspaceModeMounted])
        in if runtime \<noteq> RuntimeVM then Inl (unsupportedFeature ''only the vm runtime is supported'' [(''runtime'', runtime)])
           else if provider \<noteq> ProviderLima then Inl (unsupportedFeature ''only the Lima provider is supported'' [(''provider'', provider)])
           else if mode = [] then Inl (invalidArgument ''workspace mode must be copy or mounted'' [(''workspace_mode'', ci_WorkspaceMode input)])
           else case validatePorts (ci_Ports input) of Inl err \<Rightarrow> Inl err | Inr ports \<Rightarrow>
             (case settings of Inl err \<Rightarrow> Inl err | Inr preference \<Rightarrow>
                Inr (directoryPath, runtime, provider, mode, case ci_ImportHostAuth input of Some b \<Rightarrow> b | None \<Rightarrow> preference)))"

record AgentProfile =
  ap_Name :: string
  ap_InstallCommands :: "string list"
  ap_ValidationCommand :: string
  ap_LaunchCommand :: string
  ap_Environment :: "(string \<times> string) list"

definition created_bootstrap :: "AgentProfile \<Rightarrow> BootstrapStep list \<Rightarrow> BootstrapState" where
  "created_bootstrap profile configurationSteps =
     \<lparr>bs_AgentProfileName = ap_Name profile, bs_InstallCommands = ap_InstallCommands profile,
      bs_BootstrapCommands = map st_Command configurationSteps, bs_ValidationCommand = ap_ValidationCommand profile,
      bs_LaunchCommand = ap_LaunchCommand profile, bs_Environment = ap_Environment profile, bs_Completed = False, bs_CompletedAt = None,
      bs_Steps = appendBootstrapSteps
        (appendBootstrapSteps [] (ap_InstallCommands profile) bootstrap_kind ''agent'' [] (ap_Name profile) @ configurationSteps)
        [ap_ValidationCommand profile] validation_kind ''agent'' [] (ap_Name profile)\<rparr>"

definition created_node ::
  "NodeCreateInput \<Rightarrow> string \<times> string \<times> string \<times> string \<times> bool \<Rightarrow> Configuration \<Rightarrow> BootstrapState \<Rightarrow> string \<Rightarrow> string \<Rightarrow> gotime \<Rightarrow> gotime \<Rightarrow> Node" where
  "created_node input checked configuration b nodeID sandboxName created updated =
     (case checked of (directoryPath, runtime, provider, mode, importAuth) \<Rightarrow>
        zero_node\<lparr>n_ID := nodeID, n_Slug := ci_Slug input, n_ConfigurationID := cf_ID configuration, n_ConfigurationSlug := cf_Slug configuration,
          n_DirectoryPath := directoryPath, n_Runtime := runtime, n_Provider := provider, n_SandboxName := sandboxName,
          n_Image := cf_Image configuration, n_VCPUs := cf_VCPUs configuration, n_MemoryMiB := cf_MemoryMiB configuration,
          n_DiskMiB := cf_DiskMiB configuration, n_Environments := cf_Environments configuration, n_Ports := ci_Ports input,
          n_Status := NodeStatusCreated, n_AgentProfileName := cf_AgentProfileName configuration, n_BootstrapCommands := CombinedCommands b,
          n_WorkspaceMode := mode, n_GuestWorkspacePath := directoryPath,
          n_WorkspaceMountPath := (if mode = WorkspaceModeMounted then directoryPath else []), n_ImportHostAuth := importAuth,
          n_CreatedAt := created, n_UpdatedAt := updated\<rparr>)"

definition cloned_node :: "Node \<Rightarrow> BootstrapState \<Rightarrow> string \<Rightarrow> string \<Rightarrow> string \<Rightarrow> gotime \<Rightarrow> gotime \<Rightarrow> Node" where
  "cloned_node source b slug nodeID sandboxName created updated =
     zero_node\<lparr>n_ID := nodeID, n_Slug := slug, n_ConfigurationID := n_ConfigurationID source, n_ConfigurationSlug := n_ConfigurationSlug source,
       n_DirectoryPath := n_DirectoryPath source, n_ParentNodeID := n_ID source, n_Runtime := RuntimeVM, n_Provider := ProviderLima,
       n_SandboxName := sandboxName, n_Image := n_Image source, n_VCPUs := n_VCPUs source, n_MemoryMiB := n_MemoryMiB source,
       n_DiskMiB := n_DiskMiB source, n_Environments := n_Environments source, n_Ports := n_Ports source,
       n_DaemonPortForwarding := n_DaemonPortForwarding source, n_Status := NodeStatusCreated, n_AgentProfileName := n_AgentProfileName source,
       n_RuntimeCommands := n_RuntimeCommands source, n_BootstrapCommands := n_BootstrapCommands source, n_WorkspaceMode := nodeWorkspaceMode source,
       n_GuestWorkspacePath := n_GuestWorkspacePath source, n_WorkspaceMountPath := n_WorkspaceMountPath source,
       n_WorkspaceSeeded := n_WorkspaceSeeded source, n_ImportHostAuth := n_ImportHostAuth source,
       n_AuthImportCompleted := n_AuthImportCompleted source, n_BootstrapCompleted := bs_Completed b, n_BootstrapCompletedAt := bs_CompletedAt b,
       n_CreatedAt := created, n_UpdatedAt := updated\<rparr>"

end
