(* ===== verification/ServicePrograms.thy ===== *)
theory ServicePrograms
  imports NodeNaming Locks
begin

text \<open>
  Operations of the service as programs. A program asks its surroundings (the clock, the metadata
  store, the runtime) and goes on with the answer; it is a tree that branches on every possible
  answer. \<open>run\<close> executes a program on given answers and stops, as a killed process does, where they
  end. \<open>wp\<close> is what a program guarantees whatever the answers are, with a condition on every state
  in which the process may die. The lifecycle of nodes is written and proved on top of this.
\<close>

section \<open>Programs\<close>

text \<open>
  Calls that answer with an error or success. \<open>Lock\<close> and \<open>Unlock\<close> are the metadata locks of
  \<^verbatim>\<open>withLocks\<close> and, with \<open>True\<close>, of \<^verbatim>\<open>withRollbackLocks\<close>. \<open>Ready\<close> is \<^verbatim>\<open>ensureReady\<close>: a home that was
  seeded at this revision stays as it is; the seeding and the repair of the indexes after an
  upgrade come before the operation and are not part of it (the repair itself is
  \<open>ensureNodeMetadataFiles\<close> of NodeStore).
\<close>

datatype service_call =
    Ready
  | CtxErr
  | Claim string
  | Release string
  | Lock "string list" "string list" bool
  | Unlock "string list" "string list"
  | Save Node BootstrapState
  | AppendEvent string string
  | ReserveRef string string
  | RemoveIncomplete string string
  | Phase string string bool
  | HostPorts Node
  | PrepareForwarding Node
  | StartVM Node
  | StopVM Node
  | DeleteVM string
  | ImportAuth Node
  | PrepareWorkspace Node
  | RunGuest Node string

text \<open>Calls that can make an instance; their errors say whether the instance may exist (\<^verbatim>\<open>runtimeMutationError\<close>).\<close>

datatype mutation = CreateVM Node | CloneVM Node Node

text \<open>The questions; \<open>TryClaimQ\<close> takes the claim of a node when it is free, \<open>ClaimedQ\<close> only looks.\<close>

datatype 'a prog =
    Return 'a
  | Clock "gotime \<Rightarrow> 'a prog"
  | NewID "string \<Rightarrow> 'a prog"
  | ResolveNode string "(goError, Node) result \<Rightarrow> 'a prog"
  | LoadNode string "(goError, Node) result \<Rightarrow> 'a prog"
  | LoadBootstrap string "(goError, BootstrapState) result \<Rightarrow> 'a prog"
  | ConfigurationSlug string "(goError, string) result \<Rightarrow> 'a prog"
  | ListRuntime bool "(goError, RuntimeObservation list) result \<Rightarrow> 'a prog"
  | StepExit "int option \<Rightarrow> 'a prog"
  | DirectoryQ string "(goError, string) result \<Rightarrow> 'a prog"
  | SettingsQ "(goError, bool) result \<Rightarrow> 'a prog"
  | ConfigurationQ string "(goError, Configuration) result \<Rightarrow> 'a prog"
  | ProfileQ string "(goError, AgentProfile) result \<Rightarrow> 'a prog"
  | StepsQ Configuration "(goError, BootstrapStep list) result \<Rightarrow> 'a prog"
  | NodesQ bool "(goError, Node list) result \<Rightarrow> 'a prog"
  | IndexedQ string "bool \<Rightarrow> 'a prog"
  | ClaimedQ string "(goError, bool) result \<Rightarrow> 'a prog"
  | TryClaimQ string "(goError, bool) result \<Rightarrow> 'a prog"
  | IncompleteQ "(goError, IncompleteNodeMetadata list) result \<Rightarrow> 'a prog"
  | ExistsQ string "bool \<Rightarrow> 'a prog"
  | Call service_call "goError option \<Rightarrow> 'a prog"
  | Mutate mutation "(bool \<times> goError) option \<Rightarrow> 'a prog"

primrec bindP :: "'a prog \<Rightarrow> ('a \<Rightarrow> 'b prog) \<Rightarrow> 'b prog" where
  "bindP (Return x) f = f x"
| "bindP (Clock k) f = Clock (\<lambda>t. bindP (k t) f)"
| "bindP (NewID k) f = NewID (\<lambda>i. bindP (k i) f)"
| "bindP (ResolveNode v k) f = ResolveNode v (\<lambda>r. bindP (k r) f)"
| "bindP (LoadNode i k) f = LoadNode i (\<lambda>r. bindP (k r) f)"
| "bindP (LoadBootstrap i k) f = LoadBootstrap i (\<lambda>r. bindP (k r) f)"
| "bindP (ConfigurationSlug i k) f = ConfigurationSlug i (\<lambda>r. bindP (k r) f)"
| "bindP (ListRuntime u k) f = ListRuntime u (\<lambda>r. bindP (k r) f)"
| "bindP (StepExit k) f = StepExit (\<lambda>r. bindP (k r) f)"
| "bindP (DirectoryQ x k) f = DirectoryQ x (\<lambda>r. bindP (k r) f)"
| "bindP (SettingsQ k) f = SettingsQ (\<lambda>r. bindP (k r) f)"
| "bindP (ConfigurationQ x k) f = ConfigurationQ x (\<lambda>r. bindP (k r) f)"
| "bindP (ProfileQ x k) f = ProfileQ x (\<lambda>r. bindP (k r) f)"
| "bindP (StepsQ x k) f = StepsQ x (\<lambda>r. bindP (k r) f)"
| "bindP (NodesQ x k) f = NodesQ x (\<lambda>r. bindP (k r) f)"
| "bindP (IndexedQ x k) f = IndexedQ x (\<lambda>r. bindP (k r) f)"
| "bindP (ClaimedQ x k) f = ClaimedQ x (\<lambda>r. bindP (k r) f)"
| "bindP (TryClaimQ x k) f = TryClaimQ x (\<lambda>r. bindP (k r) f)"
| "bindP (IncompleteQ k) f = IncompleteQ (\<lambda>r. bindP (k r) f)"
| "bindP (ExistsQ x k) f = ExistsQ x (\<lambda>r. bindP (k r) f)"
| "bindP (Call c k) f = Call c (\<lambda>r. bindP (k r) f)"
| "bindP (Mutate c k) f = Mutate c (\<lambda>r. bindP (k r) f)"

text \<open>A call whose error is returned, and the sequence of two programs that may fail.\<close>

type_synonym 'a action = "(goError, 'a) result prog"

definition tryP :: "'a action \<Rightarrow> ('a \<Rightarrow> 'b action) \<Rightarrow> 'b action" where
  "tryP p f = bindP p (\<lambda>r. case r of Inl err \<Rightarrow> Return (Inl err) | Inr x \<Rightarrow> f x)"

definition callP :: "service_call \<Rightarrow> unit action" where
  "callP c = Call c (\<lambda>err. Return (case err of Some e \<Rightarrow> Inl e | None \<Rightarrow> Inr ()))"

definition withLocks :: "bool \<Rightarrow> string list \<Rightarrow> string list \<Rightarrow> 'a action \<Rightarrow> 'a action" where
  "withLocks rollback keys ids body =
     Call (Lock keys ids rollback) (\<lambda>err. case err of
         Some e \<Rightarrow> Return (Inl e)
       | None \<Rightarrow> bindP body (\<lambda>r. Call (Unlock keys ids) (\<lambda>_. Return r)))"

section \<open>The surroundings\<close>

text \<open>
  The part of the machine that operations change: node records with their bootstrap states, the
  references to instances in the node directories, the instances of the runtime, and the number of
  lock sets held. \<open>v_log\<close> is the history, newest first, of calls, runtime listings and loads, each
  with its error, the locks held and the records at that time.
\<close>

datatype event = CallE service_call | MutateE mutation | SeenE "RuntimeObservation list" | LoadE string

type_synonym records = "(string \<times> nodeFileWire \<times> BootstrapState) list"

record entry =
  en_event :: event
  en_error :: "goError option"
  en_locks :: nat
  en_nodes :: records

record world =
  v_nodes :: records
  v_refs :: "(string \<times> string) list"
  v_vms :: "string set"
  v_locks :: nat
  v_log :: "entry list"

definition logged :: "event \<Rightarrow> goError option \<Rightarrow> world \<Rightarrow> world" where
  "logged e err w = w\<lparr>v_log := \<lparr>en_event = e, en_error = err, en_locks = v_locks w, en_nodes = v_nodes w\<rparr> # v_log w\<rparr>"

text \<open>How much of a failed call took place.\<close>

datatype extent = NotDone | PartDone | AllDone

definition save_world :: "Node \<Rightarrow> BootstrapState \<Rightarrow> world \<Rightarrow> world" where
  "save_world node b w = w\<lparr>v_nodes := AList.update (n_ID node) (newNodeFileWire node, b) (v_nodes w),
     v_refs := AList.update (n_ID node) (n_SandboxName node) (v_refs w)\<rparr>"

definition save_part :: "Node \<Rightarrow> BootstrapState \<Rightarrow> world \<Rightarrow> world" where
  "save_part node b w = (case map_of (v_nodes w) (n_ID node) of
     None \<Rightarrow> w | Some (wire, old) \<Rightarrow> w\<lparr>v_nodes := AList.update (n_ID node) (wire, b) (v_nodes w)\<rparr>)"

fun call_done :: "service_call \<Rightarrow> world \<Rightarrow> world" where
  "call_done (Lock keys ids rollback) w = w\<lparr>v_locks := v_locks w + 1\<rparr>"
| "call_done (Unlock keys ids) w = w\<lparr>v_locks := v_locks w - 1\<rparr>"
| "call_done (Save node b) w = save_world node b w"
| "call_done (ReserveRef i name) w = w\<lparr>v_refs := AList.update i name (v_refs w)\<rparr>"
| "call_done (RemoveIncomplete i name) w = w\<lparr>v_nodes := AList.delete i (v_nodes w), v_refs := AList.delete i (v_refs w)\<rparr>"
| "call_done (DeleteVM name) w = w\<lparr>v_vms := v_vms w - {name}\<rparr>"
| "call_done c w = w"

fun call_part :: "service_call \<Rightarrow> world \<Rightarrow> world" where
  "call_part (Save node b) w = save_part node b w"
| "call_part c w = w"

text \<open>A failed lock holds nothing; every other failed call may have been done, in part or as a whole.\<close>

definition call_effect :: "service_call \<Rightarrow> goError option \<Rightarrow> extent \<Rightarrow> world \<Rightarrow> world" where
  "call_effect c err how w =
     (let w1 = logged (CallE c) err w
      in case c of
           Unlock keys ids \<Rightarrow> call_done c w1
         | Lock keys ids rollback \<Rightarrow> if err = None then call_done c w1 else w1
         | _ \<Rightarrow> (case err of None \<Rightarrow> call_done c w1
                 | Some e \<Rightarrow> (case how of NotDone \<Rightarrow> w1 | PartDone \<Rightarrow> call_part c w1 | AllDone \<Rightarrow> call_done c w1)))"

fun target_vm :: "mutation \<Rightarrow> string" where
  "target_vm (CreateVM node) = n_SandboxName node"
| "target_vm (CloneVM source node) = n_SandboxName node"

text \<open>
  The driver's errors that are no mutation errors come from checks before the command that makes
  the instance; one of them is that no instance of this name exists.
\<close>

definition driver_allows :: "mutation \<Rightarrow> (bool \<times> goError) option \<Rightarrow> world \<Rightarrow> bool" where
  "driver_allows m err w \<longleftrightarrow> (target_vm m \<in> v_vms w \<longrightarrow> (case err of Some (mutated, e) \<Rightarrow> \<not> mutated | None \<Rightarrow> False))"

definition mutate_effect :: "mutation \<Rightarrow> (bool \<times> goError) option \<Rightarrow> bool \<Rightarrow> world \<Rightarrow> world" where
  "mutate_effect m err made w =
     (let w1 = logged (MutateE m) (map_option snd err) w;
          w2 = w1\<lparr>v_vms := insert (target_vm m) (v_vms w1)\<rparr>
      in case err of None \<Rightarrow> w2 | Some (mutated, e) \<Rightarrow> if mutated \<and> made then w2 else w1)"

definition seen :: "(goError, RuntimeObservation list) result \<Rightarrow> world \<Rightarrow> world" where
  "seen r w = (case r of Inl e \<Rightarrow> logged (SeenE []) (Some e) w | Inr observations \<Rightarrow> logged (SeenE observations) None w)"

definition stored_node :: "string \<Rightarrow> world \<Rightarrow> (goError, Node) result" where
  "stored_node i w = (case map_of (v_nodes w) i of
     Some (wire, b) \<Rightarrow> Inr (wire_node wire) | None \<Rightarrow> Inl (notFound ''node not found'' [(''id'', i)]))"

definition stored_bootstrap :: "string \<Rightarrow> world \<Rightarrow> (goError, BootstrapState) result" where
  "stored_bootstrap i w = (case map_of (v_nodes w) i of
     Some (wire, b) \<Rightarrow> Inr b | None \<Rightarrow> Inl (notFound ''bootstrap state not found'' [(''node_id'', i)]))"

section \<open>Execution\<close>

datatype answer =
    AClock gotime
  | AString string
  | ANode "(goError, Node) result"
  | ALoad "goError option"
  | AConfiguration "(goError, string) result"
  | ARuntime "(goError, RuntimeObservation list) result"
  | AExit "int option"
  | ABool bool
  | ABoolR "(goError, bool) result"
  | AConfig "(goError, Configuration) result"
  | AProfile "(goError, AgentProfile) result"
  | ASteps "(goError, BootstrapStep list) result"
  | ANodes "(goError, Node list) result"
  | AItems "(goError, IncompleteNodeMetadata list) result"
  | ACall "goError option" extent
  | AMutate "(bool \<times> goError) option" bool

text \<open>
  The process dies where the answers end, and at an answer that does not fit the question: one of
  another kind, an identifier that is not new, or one the driver does not give.
\<close>

primrec run :: "'a prog \<Rightarrow> answer list \<Rightarrow> world \<Rightarrow> world \<times> 'a option" where
  "run (Return x) = (\<lambda>as w. (w, Some x))"
| "run (Clock k) = (\<lambda>as w. case as of AClock t # as' \<Rightarrow> run (k t) as' w | _ \<Rightarrow> (w, None))"
| "run (NewID k) = (\<lambda>as w. case as of AString i # as' \<Rightarrow> if map_of (v_refs w) i = None then run (k i) as' w else (w, None) | _ \<Rightarrow> (w, None))"
| "run (ResolveNode v k) = (\<lambda>as w. case as of ANode r # as' \<Rightarrow> run (k r) as' w | _ \<Rightarrow> (w, None))"
| "run (LoadNode i k) = (\<lambda>as w. case as of
     ALoad err # as' \<Rightarrow> run (k (case err of Some e \<Rightarrow> Inl e | None \<Rightarrow> stored_node i w)) as' (logged (LoadE i) err w) | _ \<Rightarrow> (w, None))"
| "run (LoadBootstrap i k) = (\<lambda>as w. case as of
     ALoad err # as' \<Rightarrow> run (k (case err of Some e \<Rightarrow> Inl e | None \<Rightarrow> stored_bootstrap i w)) as' (logged (LoadE i) err w) | _ \<Rightarrow> (w, None))"
| "run (ConfigurationSlug i k) = (\<lambda>as w. case as of AConfiguration r # as' \<Rightarrow> run (k r) as' w | _ \<Rightarrow> (w, None))"
| "run (ListRuntime u k) = (\<lambda>as w. case as of ARuntime r # as' \<Rightarrow> run (k r) as' (seen r w) | _ \<Rightarrow> (w, None))"
| "run (StepExit k) = (\<lambda>as w. case as of AExit r # as' \<Rightarrow> run (k r) as' w | _ \<Rightarrow> (w, None))"
| "run (DirectoryQ x k) = (\<lambda>as w. case as of AConfiguration r # as' \<Rightarrow> run (k r) as' w | _ \<Rightarrow> (w, None))"
| "run (SettingsQ k) = (\<lambda>as w. case as of ABoolR r # as' \<Rightarrow> run (k r) as' w | _ \<Rightarrow> (w, None))"
| "run (ConfigurationQ x k) = (\<lambda>as w. case as of AConfig r # as' \<Rightarrow> run (k r) as' w | _ \<Rightarrow> (w, None))"
| "run (ProfileQ x k) = (\<lambda>as w. case as of AProfile r # as' \<Rightarrow> run (k r) as' w | _ \<Rightarrow> (w, None))"
| "run (StepsQ x k) = (\<lambda>as w. case as of ASteps r # as' \<Rightarrow> run (k r) as' w | _ \<Rightarrow> (w, None))"
| "run (NodesQ x k) = (\<lambda>as w. case as of ANodes r # as' \<Rightarrow> run (k r) as' w | _ \<Rightarrow> (w, None))"
| "run (IndexedQ x k) = (\<lambda>as w. case as of ABool r # as' \<Rightarrow> run (k r) as' w | _ \<Rightarrow> (w, None))"
| "run (ClaimedQ x k) = (\<lambda>as w. case as of ABoolR r # as' \<Rightarrow> run (k r) as' w | _ \<Rightarrow> (w, None))"
| "run (TryClaimQ x k) = (\<lambda>as w. case as of ABoolR r # as' \<Rightarrow> run (k r) as' w | _ \<Rightarrow> (w, None))"
| "run (IncompleteQ k) = (\<lambda>as w. case as of AItems r # as' \<Rightarrow> run (k r) as' w | _ \<Rightarrow> (w, None))"
| "run (ExistsQ x k) = (\<lambda>as w. run (k (map_of (v_nodes w) x \<noteq> None)) as w)"
| "run (Call c k) = (\<lambda>as w. case as of ACall err how # as' \<Rightarrow> run (k err) as' (call_effect c err how w) | _ \<Rightarrow> (w, None))"
| "run (Mutate m k) = (\<lambda>as w. case as of AMutate err made # as' \<Rightarrow>
     if driver_allows m err w then run (k err) as' (mutate_effect m err made w) else (w, None) | _ \<Rightarrow> (w, None))"

text \<open>
  The guarantee of a program: \<open>Q\<close> holds of its result and the world then, and \<open>C\<close> in every world in
  which the process may die.
\<close>

primrec wp :: "'a prog \<Rightarrow> ('a \<Rightarrow> world \<Rightarrow> bool) \<Rightarrow> (world \<Rightarrow> bool) \<Rightarrow> world \<Rightarrow> bool" where
  "wp (Return x) = (\<lambda>Q C w. Q x w)"
| "wp (Clock k) = (\<lambda>Q C w. C w \<and> (\<forall>t. wp (k t) Q C w))"
| "wp (NewID k) = (\<lambda>Q C w. C w \<and> (\<forall>i. map_of (v_refs w) i = None \<longrightarrow> wp (k i) Q C w))"
| "wp (ResolveNode v k) = (\<lambda>Q C w. C w \<and> (\<forall>r. wp (k r) Q C w))"
| "wp (LoadNode i k) = (\<lambda>Q C w. C w \<and> (\<forall>e. wp (k (Inl e)) Q C (logged (LoadE i) (Some e) w))
     \<and> wp (k (stored_node i w)) Q C (logged (LoadE i) None w))"
| "wp (LoadBootstrap i k) = (\<lambda>Q C w. C w \<and> (\<forall>e. wp (k (Inl e)) Q C (logged (LoadE i) (Some e) w))
     \<and> wp (k (stored_bootstrap i w)) Q C (logged (LoadE i) None w))"
| "wp (ConfigurationSlug i k) = (\<lambda>Q C w. C w \<and> (\<forall>r. wp (k r) Q C w))"
| "wp (ListRuntime u k) = (\<lambda>Q C w. C w \<and> (\<forall>r. wp (k r) Q C (seen r w)))"
| "wp (StepExit k) = (\<lambda>Q C w. C w \<and> (\<forall>r. wp (k r) Q C w))"
| "wp (DirectoryQ x k) = (\<lambda>Q C w. C w \<and> (\<forall>r. wp (k r) Q C w))"
| "wp (SettingsQ k) = (\<lambda>Q C w. C w \<and> (\<forall>r. wp (k r) Q C w))"
| "wp (ConfigurationQ x k) = (\<lambda>Q C w. C w \<and> (\<forall>r. wp (k r) Q C w))"
| "wp (ProfileQ x k) = (\<lambda>Q C w. C w \<and> (\<forall>r. wp (k r) Q C w))"
| "wp (StepsQ x k) = (\<lambda>Q C w. C w \<and> (\<forall>r. wp (k r) Q C w))"
| "wp (NodesQ x k) = (\<lambda>Q C w. C w \<and> (\<forall>r. wp (k r) Q C w))"
| "wp (IndexedQ x k) = (\<lambda>Q C w. C w \<and> (\<forall>r. wp (k r) Q C w))"
| "wp (ClaimedQ x k) = (\<lambda>Q C w. C w \<and> (\<forall>r. wp (k r) Q C w))"
| "wp (TryClaimQ x k) = (\<lambda>Q C w. C w \<and> (\<forall>r. wp (k r) Q C w))"
| "wp (IncompleteQ k) = (\<lambda>Q C w. C w \<and> (\<forall>r. wp (k r) Q C w))"
| "wp (ExistsQ x k) = (\<lambda>Q C w. C w \<and> wp (k (map_of (v_nodes w) x \<noteq> None)) Q C w)"
| "wp (Call c k) = (\<lambda>Q C w. C w \<and> (\<forall>err how. wp (k err) Q C (call_effect c err how w)))"
| "wp (Mutate m k) = (\<lambda>Q C w. C w \<and> (\<forall>err made. driver_allows m err w \<longrightarrow> wp (k err) Q C (mutate_effect m err made w)))"

lemma wp_run:
  "wp p Q C w \<Longrightarrow> case run p as w of (w', None) \<Rightarrow> C w' | (w', Some x) \<Rightarrow> Q x w'"
proof (induction p arbitrary: as w)
qed (auto split: list.split answer.split option.split)

lemma wp_bind [simp]: "wp (bindP p f) Q C w = wp p (\<lambda>x. wp (f x) Q C) C w"
  by (induction p arbitrary: w) auto

lemma wp_mono:
  assumes "wp p Q C w" "\<And>x w. Q x w \<Longrightarrow> Q' x w" "\<And>w. C w \<Longrightarrow> C' w"
  shows "wp p Q' C' w"
  using assms(1) by (induction p arbitrary: w) (auto intro: assms(2,3))

lemma wp_conj: "wp p Q C w \<Longrightarrow> wp p Q' C' w \<Longrightarrow> wp p (\<lambda>x w. Q x w \<and> Q' x w) (\<lambda>w. C w \<and> C' w) w"
  by (induction p arbitrary: w) auto

text \<open>The call that answers with an error, and sequences, in the form the proofs use.\<close>

lemma wp_tryP [simp]:
  "wp (tryP p f) Q C w = wp p (\<lambda>r w. (\<forall>e. r = Inl e \<longrightarrow> Q (Inl e) w) \<and> (\<forall>x. r = Inr x \<longrightarrow> wp (f x) Q C w)) C w"
proof -
  have "(\<lambda>x. wp (case x of Inl err \<Rightarrow> Return (Inl err) | Inr x \<Rightarrow> f x) Q C)
    = (\<lambda>r w. (\<forall>e. r = Inl e \<longrightarrow> Q (Inl e) w) \<and> (\<forall>x. r = Inr x \<longrightarrow> wp (f x) Q C w))"
    by (intro ext) (simp split: sum.split)
  then show ?thesis by (simp add: tryP_def)
qed

lemma wp_call [simp]:
  "wp (callP c) Q C w \<longleftrightarrow> C w \<and> (\<forall>how. Q (Inr ()) (call_effect c None how w)) \<and> (\<forall>e how. Q (Inl e) (call_effect c (Some e) how w))"
  by (auto simp: callP_def split: option.split)

lemma wp_withLocks [simp]:
  "wp (withLocks rollback keys ids body) Q C w \<longleftrightarrow> C w \<and> (\<forall>e how. Q (Inl e) (call_effect (Lock keys ids rollback) (Some e) how w))
     \<and> (\<forall>how. wp body (\<lambda>r w. C w \<and> (\<forall>err how. Q r (call_effect (Unlock keys ids) err how w))) C (call_effect (Lock keys ids rollback) None how w))"
  by (auto simp: withLocks_def split: option.split)

text \<open>Sequences by what their first part guarantees.\<close>

lemma wp_bindI:
  assumes "wp p A C' w" "\<And>w. C' w \<Longrightarrow> C w" "\<And>x w. A x w \<Longrightarrow> wp (f x) Q C w"
  shows "wp (bindP p f) Q C w"
  unfolding wp_bind by (rule wp_mono [OF assms(1)]) (rule assms(3,2), assumption)+

lemma wp_tryI:
  assumes "wp p A C' w" "\<And>w. C' w \<Longrightarrow> C w" "\<And>e w. A (Inl e) w \<Longrightarrow> Q (Inl e) w" "\<And>x w. A (Inr x) w \<Longrightarrow> wp (f x) Q C w"
  shows "wp (tryP p f) Q C w"
  unfolding wp_tryP by (rule wp_mono [OF assms(1)]) (auto intro: assms(2-4))

lemma wp_locksI:
  assumes "C w" "\<And>e how. Q (Inl e) (call_effect (Lock keys ids r) (Some e) how w)"
    and "\<And>how. wp p A C' (call_effect (Lock keys ids r) None how w)" "\<And>w. C' w \<Longrightarrow> C w"
    and "\<And>x w. A x w \<Longrightarrow> C w" "\<And>x w err how. A x w \<Longrightarrow> Q x (call_effect (Unlock keys ids) err how w)"
  shows "wp (withLocks r keys ids p) Q C w"
  unfolding wp_withLocks using assms by (auto intro: wp_mono [OF assms(3)])

section \<open>Effects\<close>

lemma logged_sel [simp]:
  "v_nodes (logged e err w) = v_nodes w" "v_refs (logged e err w) = v_refs w" "v_vms (logged e err w) = v_vms w" "v_locks (logged e err w) = v_locks w"
  "v_log (logged e err w) = \<lparr>en_event = e, en_error = err, en_locks = v_locks w, en_nodes = v_nodes w\<rparr> # v_log w"
  by (simp_all add: logged_def)

lemma seen_sel [simp]:
  "v_nodes (seen r w) = v_nodes w" "v_refs (seen r w) = v_refs w" "v_vms (seen r w) = v_vms w" "v_locks (seen r w) = v_locks w"
  "v_log (seen r w) = \<lparr>en_event = SeenE (case r of Inl e \<Rightarrow> [] | Inr x \<Rightarrow> x), en_error = (case r of Inl e \<Rightarrow> Some e | Inr x \<Rightarrow> None), en_locks = v_locks w, en_nodes = v_nodes w\<rparr> # v_log w"
  by (simp_all add: seen_def split: sum.split)

lemma save_sel [simp]:
  "v_vms (save_world n b w) = v_vms w" "v_locks (save_world n b w) = v_locks w" "v_log (save_world n b w) = v_log w"
  "v_vms (save_part n b w) = v_vms w" "v_locks (save_part n b w) = v_locks w" "v_log (save_part n b w) = v_log w"
  "v_refs (save_part n b w) = v_refs w"
  by (simp_all add: save_world_def save_part_def split: option.split prod.split)

lemma call_log [simp]:
  "v_log (call_effect c err how w) = \<lparr>en_event = CallE c, en_error = err, en_locks = v_locks w, en_nodes = v_nodes w\<rparr> # v_log w"
  by (cases c; cases err; cases how) (simp_all add: call_effect_def Let_def)

lemma mutate_sel [simp]:
  "v_nodes (mutate_effect m err made w) = v_nodes w" "v_refs (mutate_effect m err made w) = v_refs w" "v_locks (mutate_effect m err made w) = v_locks w"
  "v_log (mutate_effect m err made w) = \<lparr>en_event = MutateE m, en_error = map_option snd err, en_locks = v_locks w, en_nodes = v_nodes w\<rparr> # v_log w"
  by (simp_all add: mutate_effect_def Let_def split: option.split prod.split)

text \<open>Calls that change no records, no references, no instances and no locks.\<close>

fun plain_call :: "service_call \<Rightarrow> bool" where
  "plain_call (Lock keys ids rollback) = False"
| "plain_call (Unlock keys ids) = False"
| "plain_call (Save n b) = False"
| "plain_call (ReserveRef i name) = False"
| "plain_call (RemoveIncomplete i name) = False"
| "plain_call (DeleteVM name) = False"
| "plain_call c = True"

lemma plain_call_sel [simp]:
  assumes "plain_call c"
  shows "v_nodes (call_effect c err how w) = v_nodes w" "v_refs (call_effect c err how w) = v_refs w"
    "v_vms (call_effect c err how w) = v_vms w" "v_locks (call_effect c err how w) = v_locks w"
  using assms by (cases c; cases err; cases how; simp add: call_effect_def Let_def)+

lemma lock_sel [simp]:
  "v_nodes (call_effect (Lock ks is r) err how w) = v_nodes w" "v_refs (call_effect (Lock ks is r) err how w) = v_refs w"
  "v_vms (call_effect (Lock ks is r) err how w) = v_vms w" "v_locks (call_effect (Lock ks is r) err how w) = (if err = None then v_locks w + 1 else v_locks w)"
  "v_nodes (call_effect (Unlock ks is) err how w) = v_nodes w" "v_refs (call_effect (Unlock ks is) err how w) = v_refs w"
  "v_vms (call_effect (Unlock ks is) err how w) = v_vms w" "v_locks (call_effect (Unlock ks is) err how w) = v_locks w - 1"
  by (simp_all add: call_effect_def Let_def)

lemma save_call_sel [simp]:
  "v_vms (call_effect (Save n b) err how w) = v_vms w" "v_locks (call_effect (Save n b) err how w) = v_locks w"
  "v_nodes (call_effect (Save n b) None how w) = AList.update (n_ID n) (newNodeFileWire n, b) (v_nodes w)"
  "v_refs (call_effect (Save n b) None how w) = AList.update (n_ID n) (n_SandboxName n) (v_refs w)"
  by (cases err; cases how; simp add: call_effect_def Let_def save_world_def)+

lemma other_call_sel [simp]:
  "v_locks (call_effect (ReserveRef i name) err how w) = v_locks w" "v_vms (call_effect (ReserveRef i name) err how w) = v_vms w"
  "v_nodes (call_effect (ReserveRef i name) err how w) = v_nodes w"
  "v_locks (call_effect (RemoveIncomplete i name) err how w) = v_locks w" "v_vms (call_effect (RemoveIncomplete i name) err how w) = v_vms w"
  "v_locks (call_effect (DeleteVM name) err how w) = v_locks w" "v_nodes (call_effect (DeleteVM name) err how w) = v_nodes w"
  "v_refs (call_effect (DeleteVM name) err how w) = v_refs w"
  by (cases err; cases how; simp add: call_effect_def Let_def)+

end
