(* ===== verification/NodeService.thy ===== *)
theory NodeService
  imports ServicePrograms
begin

text \<open>
  The lifecycle operations of \<^verbatim>\<open>service.go\<close> and \<^verbatim>\<open>node_restart.go\<close> as programs: start, retry, stop,
  restart, delete, the creation of a reserved node, clone, and the repair of claims that a crash
  left behind. The caller is the daemon or a command without one. Log messages, the fields of
  events and the time stamps of events are left out.
\<close>

section \<open>Bootstrap migration\<close>

text \<open>
  \<open>builtIns\<close> are the built-in environments, each with the commands it used to have and the
  commands it has now; \<open>profiles\<close> the validation commands of the built-in agent profiles.
\<close>

record builtInCatalog =
  bc_environments :: "(string list list \<times> string list) list"
  bc_defaultValidation :: string
  bc_profiles :: "(string \<times> string) list"

fun replace_at :: "string list \<Rightarrow> string list \<Rightarrow> string list \<Rightarrow> string list option" where
  "replace_at [] old new = None"
| "replace_at (c # cs) old new =
     (if take (length old) (c # cs) = old then Some (new @ drop (length old) (c # cs))
      else map_option ((#) c) (replace_at cs old new))"

definition replaceBootstrapCommandSequence :: "string list \<Rightarrow> string list \<Rightarrow> string list \<Rightarrow> string list \<times> bool" where
  "replaceBootstrapCommandSequence commands old new =
     (if old = [] \<or> length old > length commands then (commands, False)
      else case replace_at commands old new of Some updated \<Rightarrow> (updated, True) | None \<Rightarrow> (commands, False))"

fun migrate_legacy :: "string list \<Rightarrow> string list list \<Rightarrow> string list \<Rightarrow> string list \<times> bool" where
  "migrate_legacy updated [] new = (updated, False)"
| "migrate_legacy updated (old # olds) new =
     (case replaceBootstrapCommandSequence updated old new of
        (updated', True) \<Rightarrow> (updated', True)
      | (updated', False) \<Rightarrow> migrate_legacy updated' olds new)"

fun migrateKnownBuiltInBootstrapCommands ::
  "(string list list \<times> string list) list \<Rightarrow> string list \<Rightarrow> string list \<times> bool" where
  "migrateKnownBuiltInBootstrapCommands [] commands = (commands, False)"
| "migrateKnownBuiltInBootstrapCommands ((olds, new) # rest) commands =
     (case migrate_legacy commands olds new of
        (updated, replaced) \<Rightarrow>
          (case migrateKnownBuiltInBootstrapCommands rest updated of (final, changed) \<Rightarrow> (final, replaced \<or> changed)))"

definition migrateKnownBuiltInNodeBootstrap ::
  "builtInCatalog \<Rightarrow> Node \<Rightarrow> BootstrapState \<Rightarrow> Node \<times> BootstrapState \<times> bool" where
  "migrateKnownBuiltInNodeBootstrap cat node b =
     (case migrateKnownBuiltInBootstrapCommands (bc_environments cat) (bs_BootstrapCommands b) of
        (commands, commandsChanged) \<Rightarrow>
          let b1 = b\<lparr>bs_BootstrapCommands := commands\<rparr>;
              profile = (if bs_ValidationCommand b1 = bc_defaultValidation cat then map_of (bc_profiles cat) (n_AgentProfileName node) else None);
              b2 = (case profile of Some validation \<Rightarrow> b1\<lparr>bs_ValidationCommand := validation\<rparr> | None \<Rightarrow> b1)
          in if \<not> commandsChanged \<and> profile = None then (node, b2, False)
             else let b3 = (if commandsChanged then b2\<lparr>bs_Completed := False, bs_CompletedAt := None\<rparr> else b2);
                      node1 = (if commandsChanged then node\<lparr>n_BootstrapCompleted := False, n_BootstrapCompletedAt := None\<rparr> else node)
                  in (node1\<lparr>n_BootstrapCommands := CombinedCommands b3\<rparr>, b3, True))"

section \<open>Shared parts\<close>

definition recover_claim :: "Node \<Rightarrow> BootstrapState \<Rightarrow> Node action" where
  "recover_claim node b =
     (if \<not> nodeStatusInFlight (n_Status node) then Return (Inr node)
      else Clock (\<lambda>now.
        let node' = node\<lparr>n_Status := NodeStatusFailed, n_UpdatedAt := now\<rparr>
        in tryP (callP (Save node' b)) (\<lambda>_.
           tryP (callP (AppendEvent (n_ID node) ''node.lifecycle.recovered'')) (\<lambda>_. Return (Inr node')))))"

definition load_claimed :: "string \<Rightarrow> (Node \<times> BootstrapState) action" where
  "load_claimed nodeID =
     LoadNode nodeID (\<lambda>r. case r of Inl err \<Rightarrow> Return (Inl err) | Inr node \<Rightarrow>
     LoadBootstrap (n_ID node) (\<lambda>r. case r of Inl err \<Rightarrow> Return (Inl err) | Inr b \<Rightarrow> Return (Inr (node, b))))"

text \<open>The first metadata phase of a stop and of the source of a clone.\<close>

definition recovered_node :: "string \<Rightarrow> (Node \<times> BootstrapState) action" where
  "recovered_node nodeID =
     withLocks False [] [nodeID]
       (tryP (load_claimed nodeID) (\<lambda>(node, b). tryP (recover_claim node b) (\<lambda>node. Return (Inr (node, b)))))"

definition observed_node :: "gotime \<Rightarrow> RuntimeObservation list \<Rightarrow> Node \<Rightarrow> Node" where
  "observed_node now observations node =
     (case reconcileNodeWithObservations None (\<lambda>_. None) node observations False now of Inr n \<Rightarrow> n | Inl e \<Rightarrow> node)"

definition reconcile_node :: "bool \<Rightarrow> Node \<Rightarrow> Node action" where
  "reconcile_node uncached node =
     ListRuntime uncached (\<lambda>r. case r of Inl err \<Rightarrow> Return (Inl err)
       | Inr observations \<Rightarrow> Clock (\<lambda>now. Return (Inr (observed_node now observations node))))"

definition reconcileNodePersisted :: "Node \<Rightarrow> Node action" where
  "reconcileNodePersisted node =
     ListRuntime False (\<lambda>r. case r of Inl err \<Rightarrow> Return (Inl err)
       | Inr observations \<Rightarrow>
           withLocks False [] [n_ID node] (Clock (\<lambda>now.
             let node' = observed_node now observations node
             in LoadBootstrap (n_ID node') (\<lambda>r. case r of Inl err \<Rightarrow> Return (Inl err)
               | Inr b \<Rightarrow> let node'' = node'\<lparr>n_UpdatedAt := now\<rparr>
                          in tryP (callP (Save node'' b)) (\<lambda>_. Return (Inr node''))))))"

definition hydrateConfigurationSlug :: "Node \<Rightarrow> Node action" where
  "hydrateConfigurationSlug node =
     (if n_ConfigurationID node = [] then Return (Inr node)
      else ConfigurationSlug (n_ConfigurationID node) (\<lambda>r. case r of Inl err \<Rightarrow> Return (Inl err)
        | Inr slug \<Rightarrow> Return (Inr (node\<lparr>n_ConfigurationSlug := slug\<rparr>))))"

text \<open>The writes of a rollback: their errors are only logged.\<close>

definition recordNodeStartRollback :: "Node \<Rightarrow> BootstrapState \<Rightarrow> string \<Rightarrow> unit prog" where
  "recordNodeStartRollback node b event =
     bindP (withLocks True [] [n_ID node]
       (Call (Save node b) (\<lambda>_. Call (AppendEvent (n_ID node) event) (\<lambda>_. Return (Inr ()))))) (\<lambda>_. Return ())"

definition restoreNodeStatus :: "string \<Rightarrow> NodeStatus \<Rightarrow> unit prog" where
  "restoreNodeStatus nodeID status =
     bindP (withLocks True [] [nodeID]
       (LoadNode nodeID (\<lambda>r. case r of Inl err \<Rightarrow> Return (Inl err) | Inr node \<Rightarrow>
          if \<not> nodeStatusInFlight (n_Status node) then Return (Inr ())
          else LoadBootstrap nodeID (\<lambda>r. case r of Inl err \<Rightarrow> Return (Inl err) | Inr b \<Rightarrow>
            Clock (\<lambda>now. callP (Save (node\<lparr>n_Status := status, n_UpdatedAt := now\<rparr>) b)))))) (\<lambda>_. Return ())"

text \<open>Ending with an error after the node was marked failed, or after its status was put back.\<close>

definition fail_start :: "Node \<Rightarrow> BootstrapState \<Rightarrow> string \<Rightarrow> goError \<Rightarrow> 'a action" where
  "fail_start node b event err =
     Clock (\<lambda>now. bindP (recordNodeStartRollback (node\<lparr>n_Status := NodeStatusFailed, n_UpdatedAt := now\<rparr>) b event) (\<lambda>_. Return (Inl err)))"

definition put_back :: "string \<Rightarrow> NodeStatus \<Rightarrow> goError \<Rightarrow> 'a action" where
  "put_back nodeID status err = bindP (restoreNodeStatus nodeID status) (\<lambda>_. Return (Inl err))"

text \<open>
  \<^verbatim>\<open>advanceOperationPhase\<close> in a start: its error is the one the deferred function of
  \<^verbatim>\<open>nodeStartClaimed\<close> looks for, and marks the node failed.
\<close>

definition advance :: "string \<Rightarrow> string \<Rightarrow> bool \<Rightarrow> Node \<Rightarrow> BootstrapState \<Rightarrow> 'a action \<Rightarrow> 'a action" where
  "advance phase detail skipped node b k =
     Call (Phase phase detail skipped) (\<lambda>err. case err of Some e \<Rightarrow> fail_start node b ''node.start.failed'' e | None \<Rightarrow> k)"

section \<open>Start\<close>

definition start_prepare :: "builtInCatalog \<Rightarrow> string \<Rightarrow> bool \<Rightarrow> string \<Rightarrow> (Node \<times> BootstrapState \<times> NodeStatus \<times> nat) action" where
  "start_prepare cat op resume nodeID =
     withLocks False [] [nodeID]
       (tryP (load_claimed nodeID) (\<lambda>(node, b).
        tryP (case migrateKnownBuiltInNodeBootstrap cat node b of
                (node', b', True) \<Rightarrow>
                  tryP (callP (Save node' b')) (\<lambda>_. tryP (callP (AppendEvent (n_ID node') ''node.bootstrap.migrated'')) (\<lambda>_. Return (Inr (node', b'))))
              | (node', b', False) \<Rightarrow> Return (Inr (node, b))) (\<lambda>(node, b).
        tryP (recover_claim node b) (\<lambda>node.
        if resume \<and> n_Status node \<noteq> NodeStatusFailed
        then Return (Inl (preconditionFailed ''only a failed node can retry a recorded step'' [(''node_id'', n_ID node)]))
        else case prepareSteps resume b of
               (b, Inl err) \<Rightarrow> Return (Inl err)
             | (b, Inr first) \<Rightarrow> Clock (\<lambda>now.
                 let node' = node\<lparr>n_BootstrapCommands := CombinedCommands b, n_Status := NodeStatusProvisioning, n_UpdatedAt := now\<rparr>
                 in tryP (callP (Save node' b)) (\<lambda>_.
                    tryP (callP (AppendEvent (n_ID node) (op @ ''.started''))) (\<lambda>_. Return (Inr (node', b, n_Status node, first)))))))))"

definition running_observed :: "Node \<Rightarrow> bool" where
  "running_observed node \<longleftrightarrow> (case n_LastRuntimeObservation node of
     None \<Rightarrow> False | Some observation \<Rightarrow> ob_Status observation = ObservationRunning)"

definition start_boot :: "bool \<Rightarrow> NodeStatus \<Rightarrow> Node \<Rightarrow> BootstrapState \<Rightarrow> Node action" where
  "start_boot forwards previous node b =
     (if running_observed node then advance ''boot'' ''VM already running'' True node b (Return (Inr node))
      else Call (HostPorts node) (\<lambda>err. case err of Some e \<Rightarrow> put_back (n_ID node) previous e | None \<Rightarrow>
        tryP (if \<not> forwards then Return (Inr node)
              else Call (PrepareForwarding node) (\<lambda>err. case err of Some e \<Rightarrow> put_back (n_ID node) previous e | None \<Rightarrow>
                let node' = node\<lparr>n_DaemonPortForwarding := True\<rparr>
                in tryP (withLocks False [] [n_ID node] (callP (Save node' b))) (\<lambda>_. Return (Inr node')))) (\<lambda>node.
        Call (StartVM node) (\<lambda>err. case err of Some e \<Rightarrow> put_back (n_ID node) previous e | None \<Rightarrow> Return (Inr node)))))"

definition start_credentials :: "Node \<Rightarrow> BootstrapState \<Rightarrow> Node action" where
  "start_credentials node b =
     advance ''credentials''
       (if n_AuthImportCompleted node then ''already completed'' else if \<not> n_ImportHostAuth node then ''disabled for this node'' else ''import host credentials'')
       (n_AuthImportCompleted node \<or> \<not> n_ImportHostAuth node) node b
       (if n_AuthImportCompleted node then Return (Inr node)
        else
          let save = Clock (\<lambda>now. let node' = node\<lparr>n_AuthImportCompleted := True, n_UpdatedAt := now\<rparr>
                in tryP (withLocks False [] [n_ID node] (callP (Save node' b))) (\<lambda>_. Return (Inr node')))
          in if \<not> n_ImportHostAuth node then save
             else Call (ImportAuth node) (\<lambda>err. case err of Some e \<Rightarrow> fail_start node b ''node.auth.import.failed'' e | None \<Rightarrow> save))"

definition start_workspace :: "Node \<Rightarrow> BootstrapState \<Rightarrow> Node action" where
  "start_workspace node b =
     (let needed = (\<not> bs_Completed b \<and> \<not> n_WorkspaceSeeded node)
      in advance ''workspace'' (if needed then n_DirectoryPath node else ''already prepared'') (\<not> needed) node b
         (if \<not> needed then Return (Inr node)
          else Call (PrepareWorkspace node) (\<lambda>err. case err of
              Some e \<Rightarrow> fail_start node b ''node.start.failed'' e
            | None \<Rightarrow> Clock (\<lambda>now. let node' = node\<lparr>n_WorkspaceSeeded := True, n_UpdatedAt := now\<rparr>
                in tryP (withLocks False [] [n_ID node] (callP (Save node' b))) (\<lambda>_. Return (Inr node'))))))"

subsection \<open>Steps\<close>

definition step_env :: "gotime \<Rightarrow> gotime \<Rightarrow> string \<Rightarrow> goError option \<Rightarrow> int option \<Rightarrow> bool \<Rightarrow> stepEnv" where
  "step_env started finished attempt err code ctxDone =
     \<lparr>se_ctxErr = None, se_started = started, se_finished = finished, se_attemptID = attempt, se_saveStart = None, se_eventStart = None,
      se_run = err, se_exit = code, se_ctxDone = ctxDone, se_saveEnd = None, se_eventEnd = None\<rparr>"

fun step_state_name :: "BootstrapStepState \<Rightarrow> string" where
  "step_state_name StepPending = ''pending''"
| "step_state_name StepRunning = ''running''"
| "step_state_name StepSucceeded = ''succeeded''"
| "step_state_name StepFailed = ''failed''"
| "step_state_name StepCanceled = ''canceled''"
| "step_state_name StepInterrupted = ''interrupted''"
| "step_state_name StepUnrecorded = ''unrecorded''"

definition step_event :: "BootstrapStepState \<Rightarrow> string" where
  "step_event state = (if state = StepFailed then ''node.bootstrap.failed'' else ''node.bootstrap.step.'' @ step_state_name state)"

definition save_steps :: "bool \<Rightarrow> Node \<Rightarrow> BootstrapState \<Rightarrow> string \<Rightarrow> unit action" where
  "save_steps rollback node b event =
     withLocks rollback [] [n_ID node] (tryP (callP (Save node b)) (\<lambda>_. callP (AppendEvent (n_ID node) event)))"

definition finish_step :: "Node \<Rightarrow> BootstrapState \<Rightarrow> nat \<Rightarrow> gotime \<Rightarrow> string \<Rightarrow> goError option \<Rightarrow> int option \<Rightarrow> bool
     \<Rightarrow> (BootstrapState \<times> goError option) prog" where
  "finish_step node b index started attempt runErr code ctxDone =
     Clock (\<lambda>finished.
       let step = finish_record (step_env started finished attempt runErr code ctxDone) (bs_Steps b ! index);
           b2 = b\<lparr>bs_Steps := (bs_Steps b)[index := step]\<rparr>
       in bindP (save_steps True node b2 (step_event (st_State step))) (\<lambda>r.
          Return (b2, join_errors runErr (case r of Inl e \<Rightarrow> Some e | Inr _ \<Rightarrow> None))))"

definition run_recorded_step :: "Node \<Rightarrow> BootstrapState \<Rightarrow> nat \<Rightarrow> (BootstrapState \<times> goError option) prog" where
  "run_recorded_step node b index =
     Call CtxErr (\<lambda>err. case err of Some e \<Rightarrow> Return (b, Some e) | None \<Rightarrow>
     Clock (\<lambda>started. NewID (\<lambda>attempt.
       let step = start_record (n_ID node) (step_env started started attempt None None False) (bs_Steps b ! index);
           b1 = b\<lparr>bs_Steps := (bs_Steps b)[index := step]\<rparr>
       in bindP (save_steps False node b1 ''node.bootstrap.step.started'') (\<lambda>r. case r of
            Inl e \<Rightarrow> Return (b1, Some e)
          | Inr _ \<Rightarrow> Call (RunGuest node (st_Command step)) (\<lambda>runErr. case runErr of
              None \<Rightarrow> finish_step node b1 index started attempt None None False
            | Some e \<Rightarrow> Call CtxErr (\<lambda>ctxErr. StepExit (\<lambda>code.
                finish_step node b1 index started attempt (Some e) code (ctxErr \<noteq> None))))))))"

definition middot :: string where "middot = '' '' @ [CHR 0xC2, CHR 0xB7] @ '' ''"

fun bootstrap_loop :: "nat \<Rightarrow> Node \<Rightarrow> nat list \<Rightarrow> BootstrapState \<Rightarrow> BootstrapState action" where
  "bootstrap_loop steps node [] b = Return (Inr b)"
| "bootstrap_loop steps node (index # rest) b =
     (let step = bs_Steps b ! index
      in if st_Kind step \<noteq> bootstrap_kind then bootstrap_loop steps node rest b
         else advance ''bootstrap'' (''step '' @ Itoa (index + 1) @ ''/'' @ Itoa steps @ middot
                @ coalesce [st_SourceName step, st_SourceKind step] @ middot @ st_Command step) False node b
           (bindP (run_recorded_step node b index) (\<lambda>(b', err). case err of
              None \<Rightarrow> bootstrap_loop steps node rest b'
            | Some e \<Rightarrow> fail_start node b' ''node.start.failed'' e)))"

fun validation_loop :: "Node \<Rightarrow> nat list \<Rightarrow> BootstrapState \<Rightarrow> BootstrapState action" where
  "validation_loop node [] b = Return (Inr b)"
| "validation_loop node (index # rest) b =
     (if st_Kind (bs_Steps b ! index) \<noteq> validation_kind then validation_loop node rest b
      else bindP (run_recorded_step node b index) (\<lambda>(b', err). case err of
             None \<Rightarrow> validation_loop node rest b'
           | Some e \<Rightarrow> fail_start node b' ''node.start.failed'' e))"

definition start_steps :: "nat \<Rightarrow> Node \<Rightarrow> BootstrapState \<Rightarrow> BootstrapState action" where
  "start_steps first node b0 =
     (let bootstrapRan = (\<not> bs_Completed b0);
          b = resetSteps first b0;
          indices = [first..<length (bs_Steps b)];
          steps = length (filter (\<lambda>s. st_Kind s = bootstrap_kind) (bs_Steps b));
          remaining = (if bootstrapRan then length (filter (\<lambda>i. st_Kind (bs_Steps b ! i) = bootstrap_kind) indices) else 0)
      in advance ''bootstrap'' (if bs_Completed b then ''already completed'' else Itoa remaining @ '' commands remaining'') (remaining = 0) node b
         (tryP (if bootstrapRan then bootstrap_loop steps node indices b else Return (Inr b)) (\<lambda>b.
          let validates = (\<exists>i \<in> set indices. st_Kind (bs_Steps b ! i) = validation_kind)
          in advance ''validation'' (if validates then bs_AgentProfileName b else ''no validation command'') (\<not> validates) node b
             (tryP (validation_loop node indices b) (\<lambda>b.
              advance ''ready'' ''save completed state and reconcile VM'' False node b (Return (Inr b)))))))"

definition start_finish :: "bool \<Rightarrow> Node \<Rightarrow> BootstrapState \<Rightarrow> Node action" where
  "start_finish bootstrapRan node b =
     Clock (\<lambda>completedAt. Clock (\<lambda>now.
       let b' = (if bootstrapRan then b\<lparr>bs_Completed := True, bs_CompletedAt := Some completedAt\<rparr> else b);
           node1 = (if bootstrapRan then node\<lparr>n_BootstrapCompleted := True, n_BootstrapCompletedAt := Some completedAt\<rparr> else node);
           node' = node1\<lparr>n_Status := NodeStatusRunning, n_UpdatedAt := now\<rparr>
       in tryP (withLocks False [] [n_ID node] (tryP (callP (Save node' b')) (\<lambda>_. callP (AppendEvent (n_ID node) ''node.started'')))) (\<lambda>_.
          tryP (reconcileNodePersisted node') hydrateConfigurationSlug)))"

definition nodeStartClaimed :: "builtInCatalog \<Rightarrow> bool \<Rightarrow> string \<Rightarrow> bool \<Rightarrow> string \<Rightarrow> Node action" where
  "nodeStartClaimed cat forwards op resume nodeID =
     tryP (start_prepare cat op resume nodeID) (\<lambda>(node, b, previous, first).
     advance ''boot'' ''checking runtime and booting VM'' False node b
     (bindP (reconcile_node True node) (\<lambda>r. case r of
          Inl err \<Rightarrow> put_back nodeID previous err
        | Inr node \<Rightarrow>
            tryP (start_boot forwards previous node b) (\<lambda>node.
            tryP (start_credentials node b) (\<lambda>node.
            tryP (start_workspace node b) (\<lambda>node.
            tryP (start_steps first node b) (\<lambda>b'.
            start_finish (\<not> bs_Completed b) node b')))))))"

text \<open>An operation on a node: resolve it, claim it, work, and release the claim.\<close>

definition with_claim :: "string \<Rightarrow> (Node \<Rightarrow> 'a action) \<Rightarrow> 'a action" where
  "with_claim value body =
     tryP (callP Ready) (\<lambda>_.
     ResolveNode value (\<lambda>r. case r of Inl err \<Rightarrow> Return (Inl err) | Inr resolved \<Rightarrow>
     tryP (callP (Claim (n_ID resolved))) (\<lambda>_.
     bindP (body resolved) (\<lambda>r. Call (Release (n_ID resolved)) (\<lambda>_. Return r)))))"

definition nodeStart :: "builtInCatalog \<Rightarrow> bool \<Rightarrow> bool \<Rightarrow> string \<Rightarrow> Node action" where
  "nodeStart cat forwards resume value =
     with_claim value (\<lambda>resolved. nodeStartClaimed cat forwards (if resume then ''node.retry'' else ''node.start'') resume (n_ID resolved))"

section \<open>Stop and restart\<close>

definition observed_down :: "Node \<Rightarrow> bool" where
  "observed_down node \<longleftrightarrow> (case n_LastRuntimeObservation node of
     None \<Rightarrow> False | Some observation \<Rightarrow> \<not> ob_Exists observation \<or> ob_Status observation = ObservationStopped)"

definition nodeStopClaimed :: "string \<Rightarrow> Node action" where
  "nodeStopClaimed nodeID =
     tryP (recovered_node nodeID) (\<lambda>(node, b).
     tryP (reconcile_node True node) (\<lambda>node.
     if observed_down node
     then Clock (\<lambda>now. let node' = node\<lparr>n_Status := NodeStatusStopped, n_UpdatedAt := now\<rparr>
            in tryP (withLocks False [] [n_ID node] (callP (Save node' b))) (\<lambda>_. hydrateConfigurationSlug node'))
     else
       tryP (callP (StopVM node)) (\<lambda>_.
       tryP (reconcile_node True node) (\<lambda>node.
       if n_LastRuntimeObservation node \<noteq> None \<and> \<not> observed_down node
       then Return (Inl (externalCommandFailed ''runtime did not confirm that the VM stopped'' None [(''node_id'', n_ID node)]))
       else Clock (\<lambda>now. let node' = node\<lparr>n_Status := NodeStatusStopped, n_UpdatedAt := now\<rparr>
              in tryP (withLocks False [] [n_ID node] (tryP (callP (Save node' b)) (\<lambda>_. callP (AppendEvent (n_ID node) ''node.stopped'')))) (\<lambda>_.
                 hydrateConfigurationSlug node'))))))"

definition NodeStop :: "string \<Rightarrow> Node action" where
  "NodeStop value = with_claim value (\<lambda>resolved. nodeStopClaimed (n_ID resolved))"

definition NodeRestart :: "builtInCatalog \<Rightarrow> bool \<Rightarrow> string \<Rightarrow> Node action" where
  "NodeRestart cat forwards value =
     with_claim value (\<lambda>node.
       tryP (callP CtxErr) (\<lambda>_.
       tryP (callP (Phase ''stop'' ''confirm the VM has stopped before booting'' False)) (\<lambda>_.
       tryP (nodeStopClaimed (n_ID node)) (\<lambda>_.
       tryP (callP CtxErr) (\<lambda>_.
       tryP (callP (Phase ''prepare'' ''start the stopped VM'' False)) (\<lambda>_.
       nodeStartClaimed cat forwards ''node.restart'' False (n_ID node)))))))"

section \<open>Delete\<close>

definition deleteNode_claimed :: "bool \<Rightarrow> string \<Rightarrow> Node action" where
  "deleteNode_claimed hydrate nodeID =
     tryP (withLocks False [lockNodes] [nodeID]
       (tryP (load_claimed nodeID) (\<lambda>(node, b). tryP (recover_claim node b) (\<lambda>node.
        Clock (\<lambda>now. let node' = node\<lparr>n_Status := NodeStatusTerminating, n_UpdatedAt := now\<rparr>
          in tryP (callP (Save node' b)) (\<lambda>_. Return (Inr (node', b)))))))) (\<lambda>(node, b).
     tryP (if hydrate then hydrateConfigurationSlug node else Return (Inr node)) (\<lambda>node.
     tryP (callP (DeleteVM (n_SandboxName node))) (\<lambda>_.
     Clock (\<lambda>deletedAt.
       let node' = node\<lparr>n_Status := NodeStatusTerminated, n_UpdatedAt := deletedAt, n_DeletedAt := Some deletedAt\<rparr>
       in tryP (withLocks False [lockNodes] [n_ID node] (tryP (callP (Save node' b)) (\<lambda>_. callP (AppendEvent (n_ID node) ''node.deleted'')))) (\<lambda>_.
          Return (Inr node'))))))"

definition deleteNode :: "bool \<Rightarrow> string \<Rightarrow> Node action" where
  "deleteNode hydrate value = with_claim value (\<lambda>resolved. deleteNode_claimed hydrate (n_ID resolved))"

section \<open>Create and clone\<close>

text \<open>Joining the error of an operation with the error of its cleanup.\<close>

definition join :: "goError \<Rightarrow> goError \<Rightarrow> goError" where
  "join a b = JoinError [a, b]"

text \<open>The deferred cleanup: the instance first, when one may exist, and its reference only once it is gone.\<close>

definition undo_node :: "bool \<Rightarrow> Node \<Rightarrow> goError \<Rightarrow> 'a action" where
  "undo_node instance_too node err =
     (let forget = bindP (withLocks True [lockNodes] [n_ID node] (callP (RemoveIncomplete (n_ID node) (n_SandboxName node))))
            (\<lambda>r. Return (Inl (case r of Inl e \<Rightarrow> join err e | Inr _ \<Rightarrow> err)))
      in if instance_too
         then Call (DeleteVM (n_SandboxName node)) (\<lambda>e. case e of Some e \<Rightarrow> Return (Inl (join err e)) | None \<Rightarrow> forget)
         else forget)"

text \<open>
  The commit of a new node: after its record is saved nothing is undone, even when the event or the
  unlocking fails. The flag of the result says whether the record was saved.
\<close>

definition commit_node :: "Node \<Rightarrow> BootstrapState \<Rightarrow> string \<Rightarrow> (bool \<times> goError option) prog" where
  "commit_node node b event =
     Call (Lock [lockNodes] [n_ID node] False) (\<lambda>err. case err of Some e \<Rightarrow> Return (False, Some e) | None \<Rightarrow>
     Call (Save node b) (\<lambda>err. case err of
         Some e \<Rightarrow> Call (Unlock [lockNodes] [n_ID node]) (\<lambda>_. Return (False, Some e))
       | None \<Rightarrow> Call (AppendEvent (n_ID node) event) (\<lambda>err.
           Call (Unlock [lockNodes] [n_ID node]) (\<lambda>_. Return (True, err)))))"

definition createReservedNode :: "bool \<Rightarrow> Node \<Rightarrow> BootstrapState \<Rightarrow> Node action" where
  "createReservedNode forwards node b =
     Mutate (CreateVM node) (\<lambda>err. case err of
         Some (mutated, e) \<Rightarrow> undo_node mutated node e
       | None \<Rightarrow>
           let node' = node\<lparr>n_DaemonPortForwarding := forwards\<rparr>
           in bindP (commit_node node' b ''node.created'') (\<lambda>(saved, err). case err of
                None \<Rightarrow> Return (Inr node')
              | Some e \<Rightarrow> if saved then Return (Inl e) else undo_node True node' e))"

text \<open>Reserving a name: the claim and the reference to the instance that is about to be made.\<close>

definition reserve_node :: "Node \<Rightarrow> unit action" where
  "reserve_node node =
     tryP (callP (Claim (n_ID node))) (\<lambda>_.
     Call (ReserveRef (n_ID node) (n_SandboxName node)) (\<lambda>err. case err of
         Some e \<Rightarrow> Call (Release (n_ID node)) (\<lambda>_. Return (Inl e))
       | None \<Rightarrow> Return (Inr ())))"

text \<open>The name of a new node, under the global lock.\<close>

definition name_node :: "string \<Rightarrow> string action" where
  "name_node slug =
     NodesQ False (\<lambda>r. case r of Inl err \<Rightarrow> Return (Inl err) | Inr nodes \<Rightarrow>
     (case ensureUniqueNodeSlug nodes slug of Some err \<Rightarrow> Return (Inl err) | None \<Rightarrow>
     IndexedQ (base_sandbox_name slug) (\<lambda>indexed.
       case generateSandboxName (\<lambda>_. indexed) [] slug of Inl err \<Rightarrow> Return (Inl err) | Inr name \<Rightarrow>
       NodesQ False (\<lambda>r. case r of Inl err \<Rightarrow> Return (Inl err) | Inr nodes \<Rightarrow> Return (generateSandboxName (\<lambda>_. indexed) nodes slug)))))"

definition name_created :: "NodeCreateInput \<Rightarrow> string \<times> string \<times> string \<times> string \<times> bool \<Rightarrow> (Node \<times> BootstrapState) action" where
  "name_created input checked =
     ConfigurationQ (coalesce [ci_Configuration input, DefaultConfigurationSlug]) (\<lambda>r. case r of Inl err \<Rightarrow> Return (Inl err) | Inr configuration \<Rightarrow>
     ProfileQ (cf_AgentProfileName configuration) (\<lambda>r. case r of Inl err \<Rightarrow> Return (Inl err) | Inr profile \<Rightarrow>
     StepsQ configuration (\<lambda>r. case r of Inl err \<Rightarrow> Return (Inl err) | Inr steps \<Rightarrow>
     tryP (name_node (ci_Slug input)) (\<lambda>sandboxName.
     NewID (\<lambda>nodeID. Clock (\<lambda>created. Clock (\<lambda>updated.
       let b = created_bootstrap profile steps; node = created_node input checked configuration b nodeID sandboxName created updated
       in tryP (reserve_node node) (\<lambda>_. Return (Inr (node, b))))))))))"

definition createNode :: "bool \<Rightarrow> NodeCreateInput \<Rightarrow> Node action" where
  "createNode forwards input =
     tryP (callP Ready) (\<lambda>_. DirectoryQ (ci_Directory input) (\<lambda>directory. SettingsQ (\<lambda>settings.
     case check_create input directory settings of Inl err \<Rightarrow> Return (Inl err) | Inr checked \<Rightarrow>
     tryP (withLocks False [lockConfigurations, lockNodes] [] (name_created input checked)) (\<lambda>(node, b).
     bindP (createReservedNode forwards node b) (\<lambda>r. Call (Release (n_ID node)) (\<lambda>_. Return r))))))"

definition NodeCreate :: "builtInCatalog \<Rightarrow> bool \<Rightarrow> NodeCreateInput \<Rightarrow> Node action" where
  "NodeCreate cat forwards input =
     tryP (createNode forwards input) (\<lambda>node. if ci_Start input then nodeStart cat forwards False (n_ID node) else Return (Inr node))"

subsection \<open>Clone\<close>

definition name_clone :: "NodeCloneInput \<Rightarrow> Node \<Rightarrow> BootstrapState \<Rightarrow> string \<Rightarrow> Node action" where
  "name_clone input source b slug =
     tryP (name_node slug) (\<lambda>sandboxName. NewID (\<lambda>nodeID. Clock (\<lambda>created. Clock (\<lambda>updated.
       let target = cloned_node source b slug nodeID sandboxName created updated
       in tryP (reserve_node target) (\<lambda>_. Return (Inr target))))))"

text \<open>The fresh instance is stopped if the driver reports it as running.\<close>

definition clone_settle :: "Node \<Rightarrow> Node action" where
  "clone_settle target =
     tryP (reconcile_node False target) (\<lambda>child.
     if running_observed child then tryP (callP (StopVM target)) (\<lambda>_. reconcile_node False target) else Return (Inr child))"

definition clone_vm :: "Node \<Rightarrow> Node \<Rightarrow> BootstrapState \<Rightarrow> Node action" where
  "clone_vm source target b =
     Mutate (CloneVM source target) (\<lambda>err. case err of
         Some (mutated, e) \<Rightarrow> undo_node mutated target e
       | None \<Rightarrow> bindP (clone_settle target) (\<lambda>r. case r of
             Inl e \<Rightarrow> undo_node True target e
           | Inr child \<Rightarrow> bindP (commit_node child b ''node.cloned'') (\<lambda>(saved, err). case err of
                 None \<Rightarrow> Return (Inr child)
               | Some e \<Rightarrow> if saved then Return (Inl e) else undo_node True target e)))"

definition clone_child :: "NodeCloneInput \<Rightarrow> Node \<Rightarrow> BootstrapState \<Rightarrow> Node action" where
  "clone_child input source b =
     (let slug = TrimSpace (cl_NodeSlug input)
      in if slug = [] then Return (Inl (invalidArgument ''node clone requires --slug'' []))
         else if slugify slug \<noteq> slug then Return (Inl (invalidArgument ''node slug must be a lowercase slug'' [(''slug'', slug)]))
         else tryP (withLocks False [lockNodes] [] (name_clone input source b slug)) (\<lambda>target.
           bindP (clone_vm source target b) (\<lambda>r. Call (Release (n_ID target)) (\<lambda>_. Return r))))"

text \<open>The source that was running is started again, however the clone ended.\<close>

definition restart_source :: "Node \<Rightarrow> (goError, Node) result \<Rightarrow> Node action" where
  "restart_source source r =
     (let failed = (\<lambda>e. Inl (case join_errors (case r of Inl err \<Rightarrow> Some err | Inr _ \<Rightarrow> None) (Some e) of Some x \<Rightarrow> x | None \<Rightarrow> e))
      in Call (StartVM source) (\<lambda>err. case err of
           Some e \<Rightarrow> Return (failed e)
         | None \<Rightarrow> bindP (reconcileNodePersisted source) (\<lambda>r2. Return (case r2 of Inl e \<Rightarrow> failed e | Inr _ \<Rightarrow> r))))"

definition clone_source :: "string \<Rightarrow> (Node \<times> BootstrapState) action" where
  "clone_source nodeID =
     tryP (recovered_node nodeID) (\<lambda>(source, b).
     tryP (hydrateConfigurationSlug source) (\<lambda>source.
     tryP (reconcile_node False source) (\<lambda>source. Return (Inr (source, b)))))"

definition cloneNode :: "NodeCloneInput \<Rightarrow> Node action" where
  "cloneNode input =
     with_claim (cl_SourceNode input) (\<lambda>resolved.
     tryP (clone_source (n_ID resolved)) (\<lambda>(source, b).
     if running_observed source
     then tryP (callP (StopVM source)) (\<lambda>_. bindP (clone_child input source b) (restart_source source))
     else clone_child input source b))"

definition startCommittedNode :: "builtInCatalog \<Rightarrow> bool \<Rightarrow> Node \<Rightarrow> Node action" where
  "startCommittedNode cat forwards node =
     bindP (nodeStart cat forwards False (n_ID node)) (\<lambda>r. case r of
         Inr started \<Rightarrow> Return (Inr started)
       | Inl err \<Rightarrow> LoadNode (n_ID node) (\<lambda>stored. Return (Inl (case stored of
             Inr _ \<Rightarrow> (case join_errors (Some err) None of Some x \<Rightarrow> x | None \<Rightarrow> err) | Inl e \<Rightarrow> join err e))))"

definition NodeClone :: "builtInCatalog \<Rightarrow> bool \<Rightarrow> NodeCloneInput \<Rightarrow> Node action" where
  "NodeClone cat forwards input =
     tryP (cloneNode input) (\<lambda>node. if cl_Start input then startCommittedNode cat forwards node else Return (Inr node))"

section \<open>Repair\<close>

fun stale_scan :: "Node list \<Rightarrow> Node list action" where
  "stale_scan [] = Return (Inr [])"
| "stale_scan (node # rest) =
     (if \<not> nodeStatusInFlight (n_Status node) then stale_scan rest
      else ClaimedQ (n_ID node) (\<lambda>r. case r of Inl err \<Rightarrow> Return (Inl err)
        | Inr isClaimed \<Rightarrow> tryP (stale_scan rest) (\<lambda>stale. Return (Inr (if isClaimed then stale else node # stale)))))"

definition staleNodeClaims :: "Node list action" where
  "staleNodeClaims = NodesQ True (\<lambda>r. case r of Inl err \<Rightarrow> Return (Inl err) | Inr nodes \<Rightarrow> stale_scan nodes)"

definition repair_claim :: "string \<Rightarrow> bool action" where
  "repair_claim nodeID =
     withLocks False [] [nodeID]
       (tryP (load_claimed nodeID) (\<lambda>(node, b).
        if \<not> nodeStatusInFlight (n_Status node) then Return (Inr False)
        else tryP (recover_claim node b) (\<lambda>_. Return (Inr True))))"

fun repair_loop :: "Node list \<Rightarrow> nat \<Rightarrow> nat action" where
  "repair_loop [] repaired = Return (Inr repaired)"
| "repair_loop (node # rest) repaired =
     TryClaimQ (n_ID node) (\<lambda>r. case r of Inl err \<Rightarrow> Return (Inl err)
       | Inr False \<Rightarrow> repair_loop rest repaired
       | Inr True \<Rightarrow> bindP (repair_claim (n_ID node)) (\<lambda>r. Call (Release (n_ID node)) (\<lambda>_. case r of
             Inl err \<Rightarrow> Return (Inl err)
           | Inr done \<Rightarrow> repair_loop rest (if done then repaired + 1 else repaired))))"

definition repairStaleNodeClaims :: "nat action" where
  "repairStaleNodeClaims = tryP staleNodeClaims (\<lambda>stale. repair_loop stale 0)"

text \<open>Cleaning up directories without a record: the instance first, then the reference to it.\<close>

fun cleanup_loop :: "RuntimeObservation list \<Rightarrow> IncompleteNodeMetadata list \<Rightarrow> string list \<Rightarrow> string list action" where
  "cleanup_loop observations [] failures = Return (Inr failures)"
| "cleanup_loop observations (item # rest) failures =
     TryClaimQ (im_NodeID item) (\<lambda>r. case r of Inl err \<Rightarrow> Return (Inl err)
       | Inr False \<Rightarrow> cleanup_loop observations rest failures
       | Inr True \<Rightarrow>
           let name = TrimSpace (im_SandboxName item);
               release = (\<lambda>k. Call (Release (im_NodeID item)) (\<lambda>_. k));
               forget = bindP (withLocks False [lockNodes] [im_NodeID item]
                   (ExistsQ (im_NodeID item) (\<lambda>exists. if exists then Return (Inr ()) else callP (RemoveIncomplete (im_NodeID item) (im_SandboxName item)))))
                 (\<lambda>r. release (case r of Inl err \<Rightarrow> Return (Inl err) | Inr _ \<Rightarrow> cleanup_loop observations rest failures))
           in if name \<noteq> [] \<and> findObservation observations name \<noteq> None
              then Call (DeleteVM name) (\<lambda>err. case err of Some e \<Rightarrow> release (cleanup_loop observations rest (failures @ [name])) | None \<Rightarrow> forget)
              else forget)"

definition NodeCleanupIncomplete :: "bool \<Rightarrow> IncompleteNodeMetadata list action" where
  "NodeCleanupIncomplete apply_it =
     tryP (callP Ready) (\<lambda>_.
     tryP (withLocks False [lockNodes] [] (IncompleteQ Return)) (\<lambda>items.
     if \<not> apply_it \<or> items = [] then Return (Inr items)
     else ListRuntime False (\<lambda>r. case r of Inl err \<Rightarrow> Return (Inl err) | Inr observations \<Rightarrow>
       tryP (cleanup_loop observations items []) (\<lambda>failures.
       if failures = [] then Return (Inr items)
       else Return (Inl (externalCommandFailed ''failed to tear down runtime instances for incomplete nodes; their metadata was kept'' None []))))))"

end
