(* ===== verification/ServiceProperties.thy ===== *)
theory ServiceProperties
  imports NodeService
begin

text \<open>
  What the lifecycle operations guarantee, whatever their surroundings answer and wherever the
  process dies: new instances never lose the reference that leads back to them, a node is marked
  deleted only after its instance is gone, slow work runs without locks under a durable claim, and
  a claim is given up again.
\<close>

section \<open>Programs with few kinds of calls\<close>

primrec only :: "(service_call \<Rightarrow> bool) \<Rightarrow> 'a prog \<Rightarrow> bool" where
  "only P (Return x) = True"
| "only P (Clock k) = (\<forall>x. only P (k x))"
| "only P (NewID k) = (\<forall>x. only P (k x))"
| "only P (ResolveNode v k) = (\<forall>x. only P (k x))"
| "only P (LoadNode i k) = (\<forall>x. only P (k x))"
| "only P (LoadBootstrap i k) = (\<forall>x. only P (k x))"
| "only P (ConfigurationSlug i k) = (\<forall>x. only P (k x))"
| "only P (ListRuntime u k) = (\<forall>x. only P (k x))"
| "only P (StepExit k) = (\<forall>x. only P (k x))"
| "only P (DirectoryQ v k) = (\<forall>x. only P (k x))"
| "only P (SettingsQ k) = (\<forall>x. only P (k x))"
| "only P (ConfigurationQ v k) = (\<forall>x. only P (k x))"
| "only P (ProfileQ v k) = (\<forall>x. only P (k x))"
| "only P (StepsQ v k) = (\<forall>x. only P (k x))"
| "only P (NodesQ v k) = (\<forall>x. only P (k x))"
| "only P (IndexedQ v k) = (\<forall>x. only P (k x))"
| "only P (ClaimedQ v k) = (\<forall>x. only P (k x))"
| "only P (TryClaimQ v k) = (\<forall>x. only P (k x))"
| "only P (IncompleteQ k) = (\<forall>x. only P (k x))"
| "only P (ExistsQ v k) = (\<forall>x. only P (k x))"
| "only P (Call c k) = (P c \<and> (\<forall>x. only P (k x)))"
| "only P (Mutate m k) = False"

lemma only_bind: "only P p \<Longrightarrow> (\<And>x. only P (f x)) \<Longrightarrow> only P (bindP p f)"
  by (induction p) auto

lemma only_tryP: "only P p \<Longrightarrow> (\<And>x. only P (f x)) \<Longrightarrow> only P (tryP p f)"
  unfolding tryP_def by (rule only_bind) (auto split: sum.split)

lemma only_call [simp]: "only P (callP c) = P c"
  by (simp add: callP_def)

lemma only_withLocks: "P (Lock ks is r) \<Longrightarrow> P (Unlock ks is) \<Longrightarrow> only P p \<Longrightarrow> only P (withLocks r ks is p)"
  unfolding withLocks_def by (auto split: option.split intro: only_bind)

text \<open>An invariant of the calls of a program is an invariant of the program.\<close>

lemma only_wp:
  assumes "only P p" "I w"
    and "\<And>c err how w. P c \<Longrightarrow> I w \<Longrightarrow> I (call_effect c err how w)"
    and "\<And>e err w. I w \<Longrightarrow> I (logged e err w)"
  shows "wp p (\<lambda>_. I) I w"
  using assms(1,2) by (induction p arbitrary: w) (auto simp: seen_def intro: assms(3,4) split: sum.split)

lemmas only_intros = only_bind only_tryP only_withLocks

text \<open>An operation on a claimed node, by what it does between the claim and the release.\<close>

definition same_state :: "world \<Rightarrow> world \<Rightarrow> bool" where
  "same_state w v \<longleftrightarrow> v_nodes v = v_nodes w \<and> v_refs v = v_refs w \<and> v_vms v = v_vms w \<and> v_locks v = v_locks w"

lemma claimed_wp:
  assumes "\<And>v. same_state w v \<Longrightarrow> C v" "\<And>e v. same_state w v \<Longrightarrow> Q (Inl e) v"
    and "\<And>resolved v. same_state w v \<Longrightarrow>
      wp (body resolved) (\<lambda>r u. C u \<and> (\<forall>err how. Q r (call_effect (Release (n_ID resolved)) err how u))) C v"
  shows "wp (with_claim value body) Q C w"
  unfolding with_claim_def using assms by (auto simp: same_state_def split: sum.split)

section \<open>New instances\<close>

text \<open>
  Instances that exist now and did not exist before are recorded in the directory of a node, and no
  instance that existed before is gone.
\<close>

definition tracked :: "world \<Rightarrow> world \<Rightarrow> bool" where
  "tracked w0 w \<longleftrightarrow> v_vms w0 \<subseteq> v_vms w \<and> (\<forall>name \<in> v_vms w - v_vms w0. \<exists>i. map_of (v_refs w) i = Some name)"

text \<open>The same with the one new name and the node that refers to it.\<close>

definition tracks :: "string set \<Rightarrow> string \<Rightarrow> string \<Rightarrow> world \<Rightarrow> bool" where
  "tracks vms i name w \<longleftrightarrow> vms \<subseteq> v_vms w \<and> v_vms w \<subseteq> insert name vms \<and> (name \<in> v_vms w - vms \<longrightarrow> map_of (v_refs w) i = Some name)"

lemma tracks_tracked: "tracks (v_vms w0) i name w \<Longrightarrow> tracked w0 w"
  by (auto simp: tracks_def tracked_def)

lemma tracks_start: "tracks (v_vms w) i name w"
  by (auto simp: tracks_def)

text \<open>Calls that neither touch instances nor the directory of a node.\<close>

fun spares :: "string \<Rightarrow> service_call \<Rightarrow> bool" where
  "spares i (Save n b) = (n_ID n \<noteq> i)"
| "spares i (ReserveRef j name) = (j \<noteq> i)"
| "spares i (RemoveIncomplete j name) = (j \<noteq> i)"
| "spares i (DeleteVM name) = False"
| "spares i c = True"

lemma spares_refs: "spares i c \<Longrightarrow> map_of (v_refs (call_effect c err how w)) i = map_of (v_refs w) i"
  by (cases c; cases err; cases how)
    (simp_all add: call_effect_def Let_def save_world_def update_conv' delete_conv')

lemma spares_vms: "spares i c \<Longrightarrow> v_vms (call_effect c err how w) = v_vms w"
  by (cases c; cases err; cases how) (simp_all add: call_effect_def Let_def)

lemma spares_tracks: "spares i c \<Longrightarrow> tracks vms i name w \<Longrightarrow> tracks vms i name (call_effect c err how w)"
  by (simp add: tracks_def spares_refs spares_vms)

lemma tracks_logged: "tracks vms i name w \<Longrightarrow> tracks vms i name (logged e err w)"
  by (simp add: tracks_def)

lemma undo_tracks:
  assumes "tracks vms (n_ID node) (n_SandboxName node) w" "if inst then n_SandboxName node \<notin> vms else v_vms w = vms"
  shows "wp (undo_node inst node err) (\<lambda>_. tracks vms (n_ID node) (n_SandboxName node)) (tracks vms (n_ID node) (n_SandboxName node)) w"
proof -
  have lock: "tracks vms (n_ID node) (n_SandboxName node) (call_effect (Lock ks is r) e how w)" if "tracks vms (n_ID node) (n_SandboxName node) w" for ks "is" r e how w
    using that by (simp add: tracks_def)
  have d: "v_vms (call_effect (DeleteVM name) None how w) = v_vms w - {name}" "v_refs (call_effect (DeleteVM name) e how w) = v_refs w"
    "v_vms (call_effect (DeleteVM name) e how w) \<in> {v_vms w, v_vms w - {name}}" for name e how w
    by (cases e; cases how; simp add: call_effect_def Let_def)+
  have f: "tracks vms i name w" if "v_vms w = vms" for i name w using that by (auto simp: tracks_def)
  show ?thesis
  proof (cases inst)
    case True
    then have n: "n_SandboxName node \<notin> vms" using assms(2) by simp
    have "v_vms w - {n_SandboxName node} = vms" using assms(1) n by (auto simp: tracks_def)
    then show ?thesis using assms(1) True n d(3) [of "n_SandboxName node" _ _ w]
      by (auto simp: undo_node_def Let_def d f tracks_def split: option.split)
  next
    case False
    then show ?thesis using assms f by (auto simp: undo_node_def Let_def)
  qed
qed

lemma commit_tracks:
  assumes "tracks vms (n_ID node) (n_SandboxName node) w"
  shows "wp (commit_node node b event) (\<lambda>_. tracks vms (n_ID node) (n_SandboxName node)) (tracks vms (n_ID node) (n_SandboxName node)) w"
proof -
  have save: "tracks vms (n_ID node) (n_SandboxName node) (call_effect (Save node b) e how w)"
    if "tracks vms (n_ID node) (n_SandboxName node) w" for e how w
    using that by (cases e; cases how) (auto simp: call_effect_def Let_def tracks_def save_world_def update_conv')
  show ?thesis unfolding commit_node_def
    by (auto simp: spares_tracks assms save split: option.split)
qed

lemma createReservedNode_tracks:
  assumes "map_of (v_refs w) (n_ID node) = Some (n_SandboxName node)"
  shows "wp (createReservedNode forwards node b) (\<lambda>_. tracks (v_vms w) (n_ID node) (n_SandboxName node)) (tracks (v_vms w) (n_ID node) (n_SandboxName node)) w"
proof -
  let ?T = "tracks (v_vms w) (n_ID node) (n_SandboxName node)"
  let ?n = "node\<lparr>n_DaemonPortForwarding := forwards\<rparr>"
  have made: "?T (mutate_effect (CreateVM node) err how w)" for err how
    using assms by (auto simp: tracks_def mutate_effect_def Let_def split: option.split prod.split)
  have undo: "wp (undo_node True ?n e) (\<lambda>_. ?T) ?T v" if "?T v" "n_SandboxName node \<notin> v_vms w" for v e
    using undo_tracks [where node = ?n and inst = True] that by simp
  have com: "wp (commit_node ?n b ''node.created'') (\<lambda>_. ?T) ?T v" if "?T v" for v
    using commit_tracks [where node = ?n] that by simp
  have fail: "wp (undo_node mutated node e) (\<lambda>_. ?T) ?T (mutate_effect (CreateVM node) (Some (mutated, e)) how w)"
    if "driver_allows (CreateVM node) (Some (mutated, e)) w" for mutated e how
    by (rule undo_tracks [OF made]) (use that in \<open>auto simp: driver_allows_def mutate_effect_def Let_def\<close>)
  have made_ok: "wp (bindP (commit_node ?n b ''node.created'') (\<lambda>(saved, err). case err of
      None \<Rightarrow> Return (Inr ?n) | Some e \<Rightarrow> if saved then Return (Inl e) else undo_node True ?n e)) (\<lambda>_. ?T) ?T (mutate_effect (CreateVM node) None how w)"
    if "driver_allows (CreateVM node) None w" for how
  proof -
    have n: "n_SandboxName node \<notin> v_vms w" using that by (auto simp: driver_allows_def)
    show ?thesis unfolding wp_bind
      by (rule wp_mono [OF com [OF made]]) (auto simp: undo n split: option.split)
  qed
  show ?thesis unfolding createReservedNode_def using fail made_ok
    by (auto simp: tracks_start Let_def split: option.split)
qed

section \<open>Names\<close>

text \<open>Everything up to the reservation leaves the instances alone; then the new node refers to its instance.\<close>

definition no_vms :: "service_call \<Rightarrow> bool" where
  "no_vms c \<longleftrightarrow> (\<forall>name. c \<noteq> DeleteVM name)"

lemma no_vms_keep: "no_vms c \<Longrightarrow> v_vms (call_effect c err how w) = v_vms w"
  by (cases c; cases err; cases how) (auto simp: call_effect_def Let_def no_vms_def)

lemma no_vms_wp: "only no_vms p \<Longrightarrow> wp p (\<lambda>_ w'. v_vms w' = v_vms w) (\<lambda>w'. v_vms w' = v_vms w) w"
  by (rule only_wp [where P = no_vms]) (simp_all add: no_vms_keep)

definition reserved :: "world \<Rightarrow> Node \<Rightarrow> world \<Rightarrow> bool" where
  "reserved w0 node w \<longleftrightarrow> v_vms w = v_vms w0 \<and> map_of (v_refs w) (n_ID node) = Some (n_SandboxName node) \<and> map_of (v_refs w0) (n_ID node) = None"

lemma reserve_wp:
  assumes "v_vms w = v_vms w0" "map_of (v_refs w) (n_ID node) = None" "map_of (v_refs w0) (n_ID node) = None"
  shows "wp (reserve_node node) (\<lambda>r w. v_vms w = v_vms w0 \<and> (\<forall>x. r = Inr x \<longrightarrow> reserved w0 node w)) (\<lambda>w. v_vms w = v_vms w0) w"
proof -
  have "map_of (v_refs (call_effect (ReserveRef i name) None how w)) i = Some name" for i name how w
    by (simp add: call_effect_def Let_def update_conv')
  then show ?thesis using assms by (auto simp: reserve_node_def reserved_def split: option.split)
qed

lemma name_node_only: "only (\<lambda>c. False) (name_node slug)"
  by (auto simp: name_node_def split: sum.split option.split)

lemma quiet_refs:
  assumes "only (\<lambda>c. False) p"
  shows "wp p (\<lambda>_ w'. v_refs w' = v_refs w \<and> v_vms w' = v_vms w) (\<lambda>w'. v_refs w' = v_refs w \<and> v_vms w' = v_vms w) w"
  by (rule only_wp [OF assms]) simp_all

lemma name_created_wp:
  "wp (name_created input checked) (\<lambda>r w. v_vms w = v_vms w0 \<and> (\<forall>node b. r = Inr (node, b) \<longrightarrow> reserved w0 node w)) (\<lambda>w. v_vms w = v_vms w0) w"
  if "v_vms w = v_vms w0" "v_refs w = v_refs w0"
proof -
  have n: "wp (name_node slug) (\<lambda>_ w. v_refs w = v_refs w0 \<and> v_vms w = v_vms w0) (\<lambda>w. v_refs w = v_refs w0 \<and> v_vms w = v_vms w0) w" for slug
    using quiet_refs [OF name_node_only, of slug w] that by simp
  have r: "wp (reserve_node (created_node input checked c b i name t u)) (\<lambda>r w. v_vms w = v_vms w0 \<and> (\<forall>x. r = Inr x \<longrightarrow> reserved w0 (created_node input checked c b i name t u) w)) (\<lambda>w. v_vms w = v_vms w0) w"
    if "v_vms w = v_vms w0" "v_refs w = v_refs w0" "map_of (v_refs w) i = None" for w i name t u c b
    by (rule reserve_wp) (use that in \<open>auto simp: created_node_def split: prod.split\<close>)
  show ?thesis unfolding name_created_def using that
    by (auto split: sum.split simp: Let_def intro!: wp_mono [OF n] wp_mono [OF r])
qed

text \<open>An operation with a part after the reservation, which releases the claim at the end.\<close>

lemma createNode_tracked:
  "wp (createNode forwards input) (\<lambda>_. tracked w0) (tracked w0) w0"
proof -
  have t: "tracked w0 w" if "v_vms w = v_vms w0" for w using that by (simp add: tracked_def)
  have made: "wp (createReservedNode forwards node b) (\<lambda>_ w. \<exists>i name. tracks (v_vms w0) i name w) (tracked w0) w" if "reserved w0 node w" for node b w
    using createReservedNode_tracks [of w node forwards b] that unfolding reserved_def
    by (auto elim!: wp_mono intro: tracks_tracked)
  have fin: "tracked w0 (call_effect (Release i) err how w)" if "tracks (v_vms w0) j name w" for i err how j name w
    by (rule tracks_tracked [OF spares_tracks [OF _ that]]) simp
  have body: "wp (createReservedNode forwards node b) (\<lambda>_ w. tracked w0 w \<and> (\<forall>err how. tracked w0 (call_effect (Release (n_ID node)) err how w))) (tracked w0) w"
    if "reserved w0 node w" for node b w
    by (rule wp_mono [OF made [OF that]]) (auto intro: fin tracks_tracked)
  have un: "reserved w0 node (call_effect (Unlock ks is) err how w)" if "reserved w0 node w" for node ks "is" err how w
    using that by (simp add: reserved_def)
  show ?thesis unfolding createNode_def
    apply (simp add: t split: sum.split)
    apply (intro allI impI)
    apply (rule wp_mono [OF name_created_wp [where ?w0.0 = w0]])
       apply (auto simp: t intro!: body un)
    done
qed

subsection \<open>Clone\<close>

lemma reconcile_node_only: "only (\<lambda>c. False) (reconcile_node uncached node)"
  by (auto simp: reconcile_node_def split: sum.split)

lemma clone_settle_only: "only (\<lambda>c. c = StopVM target) (clone_settle target)"
proof -
  have r: "only (\<lambda>c. c = StopVM target) (reconcile_node u target)" for u
    by (auto simp: reconcile_node_def split: sum.split)
  show ?thesis unfolding clone_settle_def by (auto intro!: only_intros r)
qed

lemma observed_node_fields [simp]:
  "n_ID (observed_node now obs node) = n_ID node" "n_SandboxName (observed_node now obs node) = n_SandboxName node"
  "n_BootstrapCompleted (observed_node now obs node) = n_BootstrapCompleted node" "n_LifecycleState (observed_node now obs node) = n_LifecycleState node"
  "n_DeletedAt (observed_node now obs node) = n_DeletedAt node"
  by (simp_all add: observed_node_def reconcileNodeWithObservations_def Let_def split: option.split)

text \<open>What a program returns, whatever the answers are.\<close>

lemma wp_result: "wp p Q C w \<Longrightarrow> wp p R (\<lambda>_. True) w \<Longrightarrow> wp p (\<lambda>x w. Q x w \<and> R x w) C w"
  by (drule (1) wp_conj) (simp add: wp_mono)

lemma reconcile_node_returns:
  "wp (reconcile_node u node) (\<lambda>r w. \<forall>n. r = Inr n \<longrightarrow> (\<exists>now obs. n = observed_node now obs node)) (\<lambda>_. True) w"
  by (auto simp: reconcile_node_def split: sum.split)

lemma clone_settle_returns:
  "wp (clone_settle target) (\<lambda>r w. \<forall>n. r = Inr n \<longrightarrow> (\<exists>now obs. n = observed_node now obs target)) (\<lambda>_. True) w"
  unfolding clone_settle_def wp_tryP
  by (rule wp_mono [OF reconcile_node_returns]) (auto intro!: wp_mono [OF reconcile_node_returns] split: if_split)

lemma clone_vm_tracks:
  assumes "map_of (v_refs w) (n_ID target) = Some (n_SandboxName target)"
  shows "wp (clone_vm source target b) (\<lambda>_. tracks (v_vms w) (n_ID target) (n_SandboxName target)) (tracks (v_vms w) (n_ID target) (n_SandboxName target)) w"
proof -
  let ?T = "tracks (v_vms w) (n_ID target) (n_SandboxName target)"
  have made: "?T (mutate_effect (CloneVM source target) err how w)" for err how
    using assms by (auto simp: tracks_def mutate_effect_def Let_def split: option.split prod.split)
  have undo: "wp (undo_node True target e) (\<lambda>_. ?T) ?T v" if "?T v" "n_SandboxName target \<notin> v_vms w" for v e
    by (rule undo_tracks) (use that in simp_all)
  have com: "wp (commit_node (observed_node now obs target) b ev) (\<lambda>_. ?T) ?T v" if "?T v" for v now obs ev
    using commit_tracks [where node = "observed_node now obs target"] that by simp
  have settle: "wp (clone_settle target) (\<lambda>r w. ?T w \<and> (\<forall>n. r = Inr n \<longrightarrow> (\<exists>now obs. n = observed_node now obs target))) ?T v" if "?T v" for v
    by (rule wp_result [OF only_wp [where I = ?T, OF clone_settle_only that] clone_settle_returns]) (auto intro: spares_tracks tracks_logged)
  have fail: "wp (undo_node mutated target e) (\<lambda>_. ?T) ?T (mutate_effect (CloneVM source target) (Some (mutated, e)) how w)"
    if "driver_allows (CloneVM source target) (Some (mutated, e)) w" for mutated e how
    by (rule undo_tracks [OF made]) (use that in \<open>auto simp: driver_allows_def mutate_effect_def Let_def\<close>)
  have after: "wp (case r of Inl e \<Rightarrow> undo_node True target e
      | Inr child \<Rightarrow> bindP (commit_node child b ''node.cloned'') (\<lambda>(saved, err). case err of
            None \<Rightarrow> Return (Inr child) | Some e \<Rightarrow> if saved then Return (Inl e) else undo_node True target e)) (\<lambda>_. ?T) ?T v"
    if "?T v" "\<forall>n. r = Inr n \<longrightarrow> (\<exists>now obs. n = observed_node now obs target)" "n_SandboxName target \<notin> v_vms w" for r v
    using that by (auto intro!: undo wp_mono [OF com] split: sum.split option.split)
  show ?thesis unfolding clone_vm_def wp.simps
  proof (intro conjI allI impI)
    show "?T w" by (rule tracks_start)
    fix err :: "(bool \<times> goError) option" and how assume d: "driver_allows (CloneVM source target) err w"
    show "wp (case err of Some (mutated, e) \<Rightarrow> undo_node mutated target e
       | None \<Rightarrow> bindP (clone_settle target) (\<lambda>r. case r of Inl e \<Rightarrow> undo_node True target e
           | Inr child \<Rightarrow> bindP (commit_node child b ''node.cloned'') (\<lambda>(saved, err). case err of
                 None \<Rightarrow> Return (Inr child) | Some e \<Rightarrow> if saved then Return (Inl e) else undo_node True target e)))
      (\<lambda>_. ?T) ?T (mutate_effect (CloneVM source target) err how w)"
    proof (cases err)
      case None
      then have "n_SandboxName target \<notin> v_vms w" using d by (auto simp: driver_allows_def)
      then show ?thesis using None unfolding wp_bind
        by (auto intro!: wp_mono [OF settle [OF made]] after)
    next
      case (Some me)
      then show ?thesis using fail d by (cases me) auto
    qed
  qed
qed

text \<open>Every record has the reference to its instance beside it.\<close>

definition world_ok :: "world \<Rightarrow> bool" where
  "world_ok w \<longleftrightarrow> (\<forall>i wire b. map_of (v_nodes w) i = Some (wire, b) \<longrightarrow> w_ID wire = i \<and> map_of (v_refs w) i = Some (w_SandboxName wire))"

lemma load_claimed_wp:
  "wp (load_claimed i) (\<lambda>r w'. v_nodes w' = v_nodes w \<and> v_refs w' = v_refs w \<and> v_vms w' = v_vms w \<and> v_locks w' = v_locks w
      \<and> (\<forall>node b. r = Inr (node, b) \<longrightarrow> (\<exists>wire b'. map_of (v_nodes w) i = Some (wire, b') \<and> node = wire_node wire \<and> (n_ID node = i \<longrightarrow> b = b'))))
    (\<lambda>w'. v_nodes w' = v_nodes w \<and> v_refs w' = v_refs w \<and> v_vms w' = v_vms w \<and> v_locks w' = v_locks w) w"
  by (auto simp: load_claimed_def stored_node_def stored_bootstrap_def split: sum.split option.split prod.split)

lemma recover_claim_wp:
  assumes "v_vms w = V" "map_of (v_refs w) (n_ID node) \<noteq> None"
  shows "wp (recover_claim node b) (\<lambda>r w. v_vms w = V \<and> (\<forall>n. r = Inr n \<longrightarrow> n_ID n = n_ID node \<and> map_of (v_refs w) (n_ID n) \<noteq> None)) (\<lambda>w. v_vms w = V) w"
  using assms by (auto simp: recover_claim_def Let_def update_conv')

lemma hydrate_wp:
  "wp (hydrateConfigurationSlug node) (\<lambda>r w'. w' = w \<and> (\<forall>n. r = Inr n \<longrightarrow> (\<exists>slug. n = node\<lparr>n_ConfigurationSlug := slug\<rparr>))) (\<lambda>w'. w' = w) w"
proof -
  have "node = node\<lparr>n_ConfigurationSlug := n_ConfigurationSlug node\<rparr>" by simp
  then have "\<exists>slug. node = node\<lparr>n_ConfigurationSlug := slug\<rparr>" by (rule exI)
  then show ?thesis by (auto simp: hydrateConfigurationSlug_def split: sum.split)
qed

lemma restart_source_only: "n_ID source \<noteq> i \<Longrightarrow> only (spares i) (restart_source source r)"
proof -
  assume n: "n_ID source \<noteq> i"
  have "only (spares i) (reconcileNodePersisted source)"
    unfolding reconcileNodePersisted_def using n by (auto simp: Let_def split: sum.split intro!: only_intros)
  then show ?thesis unfolding restart_source_def by (auto simp: Let_def split: option.split intro!: only_intros)
qed

lemma name_clone_wp:
  assumes "v_vms w = v_vms w0" "map_of (v_refs w) s \<noteq> None"
  shows "wp (name_clone input source b slug) (\<lambda>r w. v_vms w = v_vms w0 \<and> (\<forall>t. r = Inr t \<longrightarrow> n_ID t \<noteq> s \<and> map_of (v_refs w) (n_ID t) = Some (n_SandboxName t))) (\<lambda>w. v_vms w = v_vms w0) w"
proof -
  have n: "wp (name_node slug) (\<lambda>_ w'. v_refs w' = v_refs w \<and> v_vms w' = v_vms w) (\<lambda>w'. v_refs w' = v_refs w \<and> v_vms w' = v_vms w) w"
    by (rule quiet_refs [OF name_node_only])
  have r: "wp (reserve_node t) (\<lambda>r w. v_vms w = v_vms v \<and> (\<forall>x. r = Inr x \<longrightarrow> reserved v t w)) (\<lambda>w. v_vms w = v_vms v) v"
    if "map_of (v_refs v) (n_ID t) = None" for v t
    by (rule reserve_wp) (use that in auto)
  have i: "n_ID (cloned_node source b slug j name t u) = j" for j name t u by (simp add: cloned_node_def)
  show ?thesis unfolding name_clone_def using assms
    by (auto simp: Let_def i reserved_def intro!: wp_mono [OF n] wp_mono [OF r])
qed

text \<open>After the child: the new instance is tracked in another directory than the source's.\<close>

definition child_tracked :: "string \<Rightarrow> world \<Rightarrow> world \<Rightarrow> bool" where
  "child_tracked s w0 w \<longleftrightarrow> (\<exists>i name. i \<noteq> s \<and> tracks (v_vms w0) i name w)"

lemma child_tracked_call:
  assumes "child_tracked s w0 w" "plain_call c"
  shows "child_tracked s w0 (call_effect c err how w)"
  using assms by (simp add: child_tracked_def tracks_def)

lemma child_tracked_tracked: "child_tracked s w0 w \<Longrightarrow> tracked w0 w"
  by (auto simp: child_tracked_def intro: tracks_tracked)

lemma clone_child_wp:
  assumes "v_vms w = v_vms w0" "map_of (v_refs w) s \<noteq> None"
  shows "wp (clone_child input source b) (\<lambda>_. child_tracked s w0) (tracked w0) w"
proof -
  have t: "tracked w0 v" if "v_vms v = v_vms w0" for v using that by (simp add: tracked_def)
  have none: "child_tracked s w0 v" if "v_vms v = v_vms w0" for v
    using tracks_start [of v] that unfolding child_tracked_def by (metis not_Cons_self2)
  have vm: "wp (clone_vm source target b) (\<lambda>_. child_tracked s w0) (tracked w0) v"
    if "v_vms v = v_vms w0" "n_ID target \<noteq> s" "map_of (v_refs v) (n_ID target) = Some (n_SandboxName target)" for v target
    by (rule wp_mono [OF clone_vm_tracks [OF that(3), unfolded that(1)]])
      (use that(2) in \<open>auto simp: child_tracked_def intro: tracks_tracked\<close>)
  have vm': "wp (clone_vm source target b) (\<lambda>_ v. tracked w0 v \<and> (\<forall>err how. child_tracked s w0 (call_effect (Release (n_ID target)) err how v))) (tracked w0) v"
    if "v_vms v = v_vms w0" "n_ID target \<noteq> s" "map_of (v_refs v) (n_ID target) = Some (n_SandboxName target)" for v target
    by (rule wp_mono [OF vm [OF that]]) (auto intro: child_tracked_tracked child_tracked_call)
  show ?thesis unfolding clone_child_def Let_def
    apply (simp add: none t assms)
    apply (intro conjI impI allI)
    apply (rule wp_mono [OF name_clone_wp [where ?w0.0 = w0 and s = s]])
    using assms apply (auto simp: t none intro!: vm')
    done
qed

lemma recovered_wp:
  assumes "world_ok w0" "v_nodes w = v_nodes w0" "v_refs w = v_refs w0" "v_vms w = v_vms w0"
  shows "wp (recovered_node i) (\<lambda>r w. v_vms w = v_vms w0 \<and> (\<forall>node b. r = Inr (node, b) \<longrightarrow> map_of (v_refs w) (n_ID node) \<noteq> None)) (\<lambda>w. v_vms w = v_vms w0) w"
proof -
  have load: "wp (load_claimed i) (\<lambda>r w. v_vms w = v_vms w0 \<and> (\<forall>node b. r = Inr (node, b) \<longrightarrow> map_of (v_refs w) (n_ID node) \<noteq> None)) (\<lambda>w. v_vms w = v_vms w0) v"
    if "v_nodes v = v_nodes w0" "v_refs v = v_refs w0" "v_vms v = v_vms w0" for i v
    by (rule wp_mono [OF load_claimed_wp]) (use that assms in \<open>fastforce simp: world_ok_def wire_node_def Let_def\<close>)+
  have body: "wp (tryP (load_claimed i) (\<lambda>(node, b). tryP (recover_claim node b) (\<lambda>node. Return (Inr (node, b)))))
      (\<lambda>r w. v_vms w = v_vms w0 \<and> (\<forall>node b. r = Inr (node, b) \<longrightarrow> map_of (v_refs w) (n_ID node) \<noteq> None)) (\<lambda>w. v_vms w = v_vms w0) v"
    if "v_nodes v = v_nodes w0" "v_refs v = v_refs w0" "v_vms v = v_vms w0" for v
  proof (rule wp_tryI [OF load [OF that]], goal_cases)
    case (3 x v)
    obtain node b where x: "x = (node, b)" by (cases x)
    show ?case unfolding x prod.case by (rule wp_tryI [OF recover_claim_wp [where V = "v_vms w0"]]) (use 3 x in auto)
  qed simp_all
  show ?thesis unfolding recovered_node_def
    by (rule wp_locksI [OF _ _ body]) (use assms in auto)
qed

lemma clone_source_wp:
  assumes "world_ok w0" "v_nodes w = v_nodes w0" "v_refs w = v_refs w0" "v_vms w = v_vms w0"
  shows "wp (clone_source i) (\<lambda>r w. v_vms w = v_vms w0 \<and> (\<forall>node b. r = Inr (node, b) \<longrightarrow> map_of (v_refs w) (n_ID node) \<noteq> None)) (\<lambda>w. v_vms w = v_vms w0) w"
proof -
  have rec: "wp (reconcile_node False n) (\<lambda>r w. v_refs w = v_refs v \<and> v_vms w = v_vms v \<and> (\<forall>m. r = Inr m \<longrightarrow> n_ID m = n_ID n)) (\<lambda>w. v_refs w = v_refs v \<and> v_vms w = v_vms v) v" for n v
    by (rule wp_mono [OF wp_result [OF quiet_refs [OF reconcile_node_only] reconcile_node_returns]]) auto
  show ?thesis unfolding clone_source_def
  proof (rule wp_tryI [OF recovered_wp [OF assms]], goal_cases)
    case (3 x v)
    obtain source b where x: "x = (source, b)" by (cases x)
    show ?case unfolding x prod.case
    proof (rule wp_tryI [OF hydrate_wp], goal_cases)
      case (3 n u)
      show ?case by (rule wp_tryI [OF rec]) (use 3 \<open>v_vms v = v_vms w0 \<and> _\<close> x in auto)
    qed (use 3 in auto)
  qed simp_all
qed

lemma cloneNode_tracked:
  assumes "world_ok w0"
  shows "wp (cloneNode input) (\<lambda>_. tracked w0) (tracked w0) w0"
proof -
  have t: "tracked w0 v" if "v_vms v = v_vms w0" for v using that by (simp add: tracked_def)
  have fin: "tracked w0 (call_effect (Release i) err how w)" if "child_tracked s w0 w" for i err how s w
    by (rule child_tracked_tracked [OF child_tracked_call [OF that]]) simp
  have child: "wp (clone_child input source b) (\<lambda>_. child_tracked (n_ID source) w0) (tracked w0) v"
    if "v_vms v = v_vms w0" "map_of (v_refs v) (n_ID source) \<noteq> None" for source b v
    by (rule clone_child_wp [OF that])
  have restart: "wp (restart_source source r) (\<lambda>_. child_tracked (n_ID source) w0) (tracked w0) v"
    if j: "child_tracked (n_ID source) w0 v" for source r v
  proof -
    obtain j name where "j \<noteq> n_ID source" "tracks (v_vms w0) j name v" using j by (auto simp: child_tracked_def)
    then show ?thesis
      by (intro wp_mono [OF only_wp [where P = "spares j" and I = "tracks (v_vms w0) j name"]])
        (auto intro: restart_source_only spares_tracks tracks_logged tracks_tracked simp: child_tracked_def)
  qed
  have body: "wp (if running_observed source then tryP (callP (StopVM source)) (\<lambda>_. bindP (clone_child input source b) (restart_source source))
      else clone_child input source b) (\<lambda>_ w. tracked w0 w \<and> (\<forall>err how. tracked w0 (call_effect (Release i) err how w))) (tracked w0) v"
    if "v_vms v = v_vms w0" "map_of (v_refs v) (n_ID source) \<noteq> None" for source b v i
  proof (cases "running_observed source")
    case True
    have "wp (bindP (clone_child input source b) (restart_source source)) (\<lambda>_ w. tracked w0 w \<and> (\<forall>err how. tracked w0 (call_effect (Release i) err how w))) (tracked w0) u"
      if "v_vms u = v_vms w0" "map_of (v_refs u) (n_ID source) \<noteq> None" for u
      by (rule wp_bindI [OF child [OF that]]) (auto intro: wp_mono [OF restart] fin child_tracked_tracked)
    then show ?thesis using True that by (simp add: t del: wp_bind)
  next
    case False
    have "wp (clone_child input source b) (\<lambda>_ w. tracked w0 w \<and> (\<forall>err how. tracked w0 (call_effect (Release i) err how w))) (tracked w0) v"
      by (rule wp_mono [OF child [OF that]]) (auto intro: fin child_tracked_tracked)
    then show ?thesis using False by simp
  qed
  have after: "wp (tryP (clone_source i) (\<lambda>(source, b). if running_observed source then tryP (callP (StopVM source)) (\<lambda>_. bindP (clone_child input source b) (restart_source source))
      else clone_child input source b)) (\<lambda>_ w. tracked w0 w \<and> (\<forall>err how. tracked w0 (call_effect (Release j) err how w))) (tracked w0) v"
    if "v_nodes v = v_nodes w0" "v_refs v = v_refs w0" "v_vms v = v_vms w0" for v i j
    by (rule wp_tryI [OF clone_source_wp [OF assms that]]) (auto simp: t simp del: wp_tryP wp_bind intro!: body)
  show ?thesis unfolding cloneNode_def
    by (rule claimed_wp) (auto simp: t same_state_def simp del: wp_tryP intro!: after)
qed

section \<open>Slow work\<close>

text \<open>Work of the runtime and in the guest, which can take minutes, and listings of the runtime.\<close>

fun slow_call :: "service_call \<Rightarrow> bool" where
  "slow_call (HostPorts n) = True"
| "slow_call (PrepareForwarding n) = True"
| "slow_call (StartVM n) = True"
| "slow_call (StopVM n) = True"
| "slow_call (DeleteVM name) = True"
| "slow_call (ImportAuth n) = True"
| "slow_call (PrepareWorkspace n) = True"
| "slow_call (RunGuest n command) = True"
| "slow_call c = False"

fun slow :: "event \<Rightarrow> bool" where
  "slow (CallE c) = slow_call c"
| "slow (MutateE m) = True"
| "slow (SeenE obs) = True"
| "slow (LoadE i) = False"

fun lock_call :: "service_call \<Rightarrow> bool" where
  "lock_call (Lock ks is r) = True"
| "lock_call (Unlock ks is) = True"
| "lock_call c = False"

definition unlocked :: "world \<Rightarrow> bool" where
  "unlocked w \<longleftrightarrow> (\<forall>e \<in> set (v_log w). slow (en_event e) \<longrightarrow> en_locks e = 0)"

text \<open>A program that starts and ends without locks and never works slowly under one.\<close>

definition tidy :: "'a prog \<Rightarrow> bool" where
  "tidy p \<longleftrightarrow> (\<forall>w. v_locks w = 0 \<longrightarrow> unlocked w \<longrightarrow> wp p (\<lambda>_ w. v_locks w = 0 \<and> unlocked w) unlocked w)"

lemma tidyD: "tidy p \<Longrightarrow> v_locks w = 0 \<Longrightarrow> unlocked w \<Longrightarrow> wp p (\<lambda>_ w. v_locks w = 0 \<and> unlocked w) unlocked w"
  by (simp add: tidy_def)

lemma keeps_locks: "\<not> lock_call c \<Longrightarrow> v_locks (call_effect c err how w) = v_locks w"
  by (cases c; cases err; cases how) (simp_all add: call_effect_def Let_def)

lemma unlocked_call: "unlocked w \<Longrightarrow> slow_call c \<longrightarrow> v_locks w = 0 \<Longrightarrow> unlocked (call_effect c err how w)"
  by (simp add: unlocked_def)

lemma tidy_simple [simp, intro]:
  "tidy (Return x)"
  "(\<And>x. tidy (k1 x)) \<Longrightarrow> tidy (Clock k1)" "(\<And>x. tidy (k2 x)) \<Longrightarrow> tidy (NewID k2)" "(\<And>x. tidy (k3 x)) \<Longrightarrow> tidy (ResolveNode v k3)"
  "(\<And>x. tidy (k4 x)) \<Longrightarrow> tidy (LoadNode v k4)" "(\<And>x. tidy (k5 x)) \<Longrightarrow> tidy (LoadBootstrap v k5)" "(\<And>x. tidy (k6 x)) \<Longrightarrow> tidy (ConfigurationSlug v k6)"
  "(\<And>x. tidy (k7 x)) \<Longrightarrow> tidy (ListRuntime u k7)" "(\<And>x. tidy (k8 x)) \<Longrightarrow> tidy (StepExit k8)" "(\<And>x. tidy (k9 x)) \<Longrightarrow> tidy (DirectoryQ v k9)"
  "(\<And>x. tidy (k10 x)) \<Longrightarrow> tidy (SettingsQ k10)" "(\<And>x. tidy (k11 x)) \<Longrightarrow> tidy (Mutate m k11)"
  "(\<And>x. tidy (k12 x)) \<Longrightarrow> \<not> lock_call c \<Longrightarrow> tidy (Call c k12)"
  by (simp_all add: tidy_def unlocked_def keeps_locks)

lemma tidy_bind:
  assumes "tidy p" "\<And>x. tidy (f x)"
  shows "tidy (bindP p f)"
  unfolding tidy_def
proof (intro allI impI)
  fix w assume "v_locks w = 0" "unlocked w"
  from tidyD [OF assms(1) this] show "wp (bindP p f) (\<lambda>_ w. v_locks w = 0 \<and> unlocked w) unlocked w"
    by (rule wp_bindI) (auto intro: tidyD [OF assms(2)])
qed

lemma tidy_try: "tidy p \<Longrightarrow> (\<And>x. tidy (f x)) \<Longrightarrow> tidy (tryP p f)"
  unfolding tryP_def by (rule tidy_bind) (auto split: sum.split)

lemma tidy_call: "\<not> lock_call c \<Longrightarrow> tidy (callP c)"
  by (simp add: callP_def)

text \<open>Under a lock there is only work on the metadata.\<close>

primrec quick :: "'a prog \<Rightarrow> bool" where
  "quick (Return x) = True"
| "quick (Clock k) = (\<forall>x. quick (k x))"
| "quick (NewID k) = (\<forall>x. quick (k x))"
| "quick (ResolveNode v k) = (\<forall>x. quick (k x))"
| "quick (LoadNode i k) = (\<forall>x. quick (k x))"
| "quick (LoadBootstrap i k) = (\<forall>x. quick (k x))"
| "quick (ConfigurationSlug i k) = (\<forall>x. quick (k x))"
| "quick (ListRuntime u k) = False"
| "quick (StepExit k) = (\<forall>x. quick (k x))"
| "quick (DirectoryQ v k) = (\<forall>x. quick (k x))"
| "quick (SettingsQ k) = (\<forall>x. quick (k x))"
| "quick (ConfigurationQ v k) = (\<forall>x. quick (k x))"
| "quick (ProfileQ v k) = (\<forall>x. quick (k x))"
| "quick (StepsQ v k) = (\<forall>x. quick (k x))"
| "quick (NodesQ v k) = (\<forall>x. quick (k x))"
| "quick (IndexedQ v k) = (\<forall>x. quick (k x))"
| "quick (ClaimedQ v k) = (\<forall>x. quick (k x))"
| "quick (TryClaimQ v k) = (\<forall>x. quick (k x))"
| "quick (IncompleteQ k) = (\<forall>x. quick (k x))"
| "quick (ExistsQ v k) = (\<forall>x. quick (k x))"
| "quick (Call c k) = (\<not> lock_call c \<and> \<not> slow_call c \<and> (\<forall>x. quick (k x)))"
| "quick (Mutate m k) = False"

lemma quick_bind: "quick p \<Longrightarrow> (\<And>x. quick (f x)) \<Longrightarrow> quick (bindP p f)"
  by (induction p) auto

lemma quick_try: "quick p \<Longrightarrow> (\<And>x. quick (f x)) \<Longrightarrow> quick (tryP p f)"
  unfolding tryP_def by (rule quick_bind) (auto split: sum.split)

lemma quick_call [simp]: "quick (callP c) = (\<not> lock_call c \<and> \<not> slow_call c)"
  by (simp add: callP_def)

lemma unlocked_logged: "unlocked w \<Longrightarrow> \<not> slow e \<Longrightarrow> unlocked (logged e err w)"
  by (simp add: unlocked_def)

lemma quick_wp: "quick p \<Longrightarrow> unlocked w \<Longrightarrow> v_locks w = n \<Longrightarrow> wp p (\<lambda>_ v. v_locks v = n \<and> unlocked v) unlocked w"
  by (induction p arbitrary: w) (auto simp: unlocked_logged unlocked_call keeps_locks)

lemma tidy_locks: "quick p \<Longrightarrow> tidy (withLocks r ks is p)"
  unfolding tidy_def
proof (intro allI impI)
  fix w assume p: "quick p" and w: "v_locks w = 0" "unlocked w"
  show "wp (withLocks r ks is p) (\<lambda>_ w. v_locks w = 0 \<and> unlocked w) unlocked w"
  proof (rule wp_locksI [where C' = unlocked and A = "\<lambda>_ v. v_locks v = 1 \<and> unlocked v"])
    show "wp p (\<lambda>_ v. v_locks v = 1 \<and> unlocked v) unlocked (call_effect (Lock ks is r) None how w)" for how
      by (rule quick_wp [OF p]) (use w in \<open>simp_all add: unlocked_call\<close>)
  qed (use w in \<open>auto simp: unlocked_call\<close>)
qed

lemmas quick_intros = quick_bind quick_try
lemmas tidy_intros = tidy_locks tidy_call tidy_try tidy_bind tidy_simple

lemma tidy_parts:
  "tidy (put_back i st err)" "tidy (fail_start node b ev err)" "tidy (reconcile_node u node)" "tidy (hydrateConfigurationSlug node)"
  "tidy (reconcileNodePersisted node)" "tidy (recovered_node i)"
  unfolding put_back_def restoreNodeStatus_def fail_start_def recordNodeStartRollback_def reconcile_node_def hydrateConfigurationSlug_def
    reconcileNodePersisted_def recovered_node_def load_claimed_def recover_claim_def Let_def
  by (auto intro!: tidy_intros quick_intros split: sum.split option.split)

lemma tidy_advance: "tidy k \<Longrightarrow> tidy (advance ph d sk node b k)"
  unfolding advance_def by (auto intro!: tidy_intros tidy_parts split: option.split)

lemma tidy_start_prepare: "tidy (start_prepare cat op resume i)"
  unfolding start_prepare_def load_claimed_def recover_claim_def Let_def
  by (auto intro!: tidy_intros quick_intros split: sum.split prod.split bool.split)

lemma tidy_step: "tidy (run_recorded_step node b index)"
  unfolding run_recorded_step_def finish_step_def save_steps_def Let_def
  by (auto intro!: tidy_intros quick_intros split: sum.split option.split)

lemma tidy_loops: "tidy (bootstrap_loop n node is b)" "tidy (validation_loop node is b)"
  by (induction "is" arbitrary: b) (auto simp: Let_def intro!: tidy_intros tidy_advance tidy_step tidy_parts split: option.split)

lemma tidy_start: "tidy (nodeStartClaimed cat forwards op resume i)"
proof -
  have "tidy (start_boot forwards previous node b)" for previous node b
    unfolding start_boot_def Let_def by (auto intro!: tidy_intros tidy_advance tidy_parts split: option.split)
  moreover have "tidy (start_credentials node b)" for node b
    unfolding start_credentials_def Let_def by (auto intro!: tidy_intros tidy_advance tidy_parts split: option.split)
  moreover have "tidy (start_workspace node b)" for node b
    unfolding start_workspace_def Let_def by (auto intro!: tidy_intros tidy_advance tidy_parts split: option.split)
  moreover have "tidy (start_steps first node b)" for first node b
    unfolding start_steps_def Let_def by (auto intro!: tidy_intros tidy_advance tidy_loops)
  moreover have "tidy (start_finish ran' node b)" for ran' node b
    unfolding start_finish_def Let_def by (auto intro!: tidy_intros quick_intros tidy_parts)
  ultimately show ?thesis unfolding nodeStartClaimed_def
    by (auto intro!: tidy_intros tidy_advance tidy_parts tidy_start_prepare split: sum.split)
qed

lemma tidy_stop: "tidy (nodeStopClaimed i)"
  unfolding nodeStopClaimed_def Let_def by (auto intro!: tidy_intros quick_intros tidy_parts)

lemma tidy_claimed: "(\<And>r. tidy (body r)) \<Longrightarrow> tidy (with_claim value body)"
  unfolding with_claim_def by (auto intro!: tidy_intros split: sum.split)

lemma tidy_delete: "tidy (deleteNode_claimed hydrate i)"
  unfolding deleteNode_claimed_def load_claimed_def recover_claim_def Let_def
  by (auto intro!: tidy_intros quick_intros tidy_parts split: sum.split)

lemma tidy_undo: "tidy (undo_node inst node err)"
  unfolding undo_node_def Let_def by (auto intro!: tidy_intros split: option.split)


text \<open>The commit holds its lock over the save and the event, and gives it back on every path.\<close>

lemma tidy_commit: "tidy (commit_node node b event)"
  unfolding tidy_def commit_node_def by (auto simp: unlocked_call split: option.split)

lemma tidy_createReserved: "tidy (createReservedNode forwards node b)"
  unfolding createReservedNode_def Let_def
  by (auto intro!: tidy_intros tidy_commit tidy_undo split: option.split prod.split)

lemma quick_reserve: "quick (reserve_node node)" "quick (name_node slug)"
  unfolding reserve_node_def name_node_def
  by (auto intro!: quick_intros split: option.split sum.split)

lemma tidy_create: "tidy (createNode forwards input)"
proof -
  have "quick (name_created input checked)" for checked
    unfolding name_created_def Let_def by (auto intro!: quick_intros quick_reserve split: sum.split)
  then show ?thesis unfolding createNode_def
    by (auto intro!: tidy_intros tidy_createReserved split: sum.split prod.split)
qed

lemma tidy_clone: "tidy (cloneNode input)"
proof -
  have "quick (name_clone input source b slug)" for source b slug
    unfolding name_clone_def Let_def by (auto intro!: quick_intros quick_reserve)
  moreover have "tidy (clone_settle target)" for target
    unfolding clone_settle_def by (auto intro!: tidy_intros tidy_parts)
  ultimately have child: "tidy (clone_child input source b)" for source b
    unfolding clone_child_def clone_vm_def Let_def
    by (auto intro!: tidy_intros tidy_commit tidy_undo split: option.split sum.split prod.split)
  moreover have "tidy (restart_source source r)" for source r
    unfolding restart_source_def Let_def by (auto intro!: tidy_intros tidy_parts split: option.split)
  moreover have "tidy (clone_source i)" for i
    unfolding clone_source_def by (auto intro!: tidy_intros tidy_parts split: prod.split)
  ultimately show ?thesis unfolding cloneNode_def
    by (auto intro!: tidy_claimed tidy_intros split: prod.split)
qed

lemma tidy_operations:
  "tidy (nodeStart cat forwards resume value)" "tidy (NodeStop value)" "tidy (NodeRestart cat forwards value)"
  "tidy (deleteNode hydrate value)" "tidy (NodeCreate cat forwards input)" "tidy (NodeClone cat forwards clone)"
proof -
  show start: "tidy (nodeStart cat forwards resume value)" for resume "value"
    unfolding nodeStart_def by (intro tidy_claimed tidy_start)
  show "tidy (NodeStop value)" unfolding NodeStop_def by (intro tidy_claimed tidy_stop)
  show "tidy (NodeRestart cat forwards value)"
    unfolding NodeRestart_def by (auto intro!: tidy_claimed tidy_intros tidy_stop tidy_start)
  show "tidy (deleteNode hydrate value)" unfolding deleteNode_def by (intro tidy_claimed tidy_delete)
  show "tidy (NodeCreate cat forwards input)"
    unfolding NodeCreate_def by (auto intro!: tidy_intros tidy_create start)
  show "tidy (NodeClone cat forwards clone)"
    unfolding NodeClone_def startCommittedNode_def by (auto intro!: tidy_intros tidy_clone start split: sum.split)
qed

end
