(* ===== verification/StartPhases.thy ===== *)
theory StartPhases
  imports ServiceProperties
begin

text \<open>
  The phases of a start after its claim, as a rule: what holds of the node and the world while the
  start goes on, what holds once it has failed, and what holds wherever the process may die. The
  rule is proved once, and used for the durable claim and for the return of the claim.
\<close>

section \<open>Calls of a start\<close>

text \<open>The work of a start on the instance of a node.\<close>

fun works_on :: "service_call \<Rightarrow> string option" where
  "works_on (HostPorts n) = Some (n_ID n)"
| "works_on (PrepareForwarding n) = Some (n_ID n)"
| "works_on (StartVM n) = Some (n_ID n)"
| "works_on (ImportAuth n) = Some (n_ID n)"
| "works_on (PrepareWorkspace n) = Some (n_ID n)"
| "works_on (RunGuest n command) = Some (n_ID n)"
| "works_on c = None"

text \<open>A node whose identity and states are those of another.\<close>

definition minor :: "Node \<Rightarrow> Node \<Rightarrow> bool" where
  "minor n m \<longleftrightarrow> n_ID m = n_ID n \<and> n_Status m = n_Status n \<and> n_LifecycleState m = n_LifecycleState n \<and> n_BootstrapCompleted m = n_BootstrapCompleted n"

lemma minor_same [simp]: "minor n n"
  by (simp add: minor_def)

text \<open>The outcome of an action.\<close>

definition outcome :: "(world \<Rightarrow> bool) \<Rightarrow> ('a \<Rightarrow> world \<Rightarrow> bool) \<Rightarrow> (goError, 'a) result \<Rightarrow> world \<Rightarrow> bool" where
  "outcome E K r w = (case r of Inl e \<Rightarrow> E w | Inr x \<Rightarrow> K x w)"

lemma outcome_simps [simp]: "outcome E K (Inl e) w = E w" "outcome E K (Inr x) w = K x w"
  by (simp_all add: outcome_def)

lemma wp_try_outcome:
  assumes "wp p (outcome E A) C w" "\<And>x w. A x w \<Longrightarrow> wp (f x) (outcome E K) C w"
  shows "wp (tryP p f) (outcome E K) C w"
  by (rule wp_tryI [OF assms(1)]) (use assms(2) in auto)

section \<open>The rule\<close>

locale start_phases =
  fixes i :: string and previous :: NodeStatus and completed :: bool
    and C :: "world \<Rightarrow> bool" and E :: "world \<Rightarrow> bool" and L :: "Node \<Rightarrow> world \<Rightarrow> bool"
  assumes id: "L n w \<Longrightarrow> n_ID n = i"
    and going: "L n w \<Longrightarrow> C w" and failed: "E w \<Longrightarrow> C w"
    and going_call: "L n w \<Longrightarrow> plain_call c \<Longrightarrow> works_on c \<in> {None, Some i} \<Longrightarrow> L n (call_effect c err how w)"
    and going_lock: "L n w \<Longrightarrow> lock_call c \<Longrightarrow> L n (call_effect c err how w)"
    and going_seen: "L n w \<Longrightarrow> L n (seen r w)" "L n w \<Longrightarrow> L (observed_node now obs n) w"
    and going_save: "L n w \<Longrightarrow> minor n m \<Longrightarrow> L m (call_effect (Save m b) None how w)"
    and save_fails: "L n w \<Longrightarrow> minor n m \<Longrightarrow> E (call_effect (Save m b) (Some e) how w)"
    and lock_fails: "L n w \<Longrightarrow> E (call_effect (Lock ks is rb) (Some e) how w)"
    and failed_unlock: "E w \<Longrightarrow> E (call_effect (Unlock ks is) err how w)"
    and event_fails: "L n w \<Longrightarrow> C (call_effect (AppendEvent j ev) (Some e) how w)"
    and unlock: "C w \<Longrightarrow> C (call_effect (Unlock ks is) err how w)"
    and rollback_ends: "C w \<Longrightarrow> n_ID n = i \<Longrightarrow> n_Status n = NodeStatusFailed \<Longrightarrow> wp (recordNodeStartRollback n b ev) (\<lambda>_. E) C w"
    and restore_ends: "L n w \<Longrightarrow> wp (restoreNodeStatus i previous) (\<lambda>_. E) C w"
    and finish_ends: "L n w \<Longrightarrow> wp (start_finish (\<not> completed) n b) (outcome E (\<lambda>_. E)) C w"
begin

lemma going_calls:
  assumes "L n w"
  shows "L n (call_effect (Phase ph d sk) err how w)" "L n (call_effect CtxErr err how w)" "L n (call_effect (AppendEvent j ev) err how w)"
    "L n (call_effect (Lock ks is rb) err how w)" "L n (call_effect (Unlock ks is) err how w)"
  by (simp_all add: going_call [OF assms] going_lock [OF assms])

lemma going_works:
  assumes "L n w" "L m v"
  shows "L n (call_effect (HostPorts m) err how w)" "L n (call_effect (PrepareForwarding m) err how w)" "L n (call_effect (StartVM m) err how w)"
    "L n (call_effect (ImportAuth m) err how w)" "L n (call_effect (PrepareWorkspace m) err how w)" "L n (call_effect (RunGuest m cmd) err how w)"
  by (simp_all add: going_call [OF assms(1)] id [OF assms(2)])

lemma saved:
  assumes "L n w" "minor n m"
  shows "wp (tryP (withLocks False [] ids (callP (Save m b))) (\<lambda>_. Return (Inr m))) (outcome E L) C w"
proof -
  have l: "L n (call_effect (Lock [] ids False) None how w)" for how by (rule going_calls [OF assms(1)])
  have "L m (call_effect (Save m b) None h (call_effect (Lock [] ids False) None how w))" for h how
    by (rule going_save [OF l assms(2)])
  moreover have "E (call_effect (Save m b) (Some e) h (call_effect (Lock [] ids False) None how w))" for e h how
    by (rule save_fails [OF l assms(2)])
  ultimately show ?thesis using l assms(1)
    by (auto intro: going failed going_calls failed_unlock lock_fails)
qed

lemma fail_ends: "C w \<Longrightarrow> n_ID n = i \<Longrightarrow> wp (fail_start n b ev err) (outcome E K) C w"
  unfolding fail_start_def by (auto intro!: wp_mono [OF rollback_ends])

lemma put_back_ends: "L n w \<Longrightarrow> wp (put_back i previous err) (outcome E K) C w"
  unfolding put_back_def by (auto intro!: wp_mono [OF restore_ends])

lemma advance_ends:
  assumes "L n w" "\<And>v. L n v \<Longrightarrow> wp k (outcome E K) C v"
  shows "wp (advance ph d sk n b k) (outcome E K) C w"
proof -
  have "L n (call_effect (Phase ph d sk) err how w)" for err how by (rule going_calls [OF assms(1)])
  then show ?thesis using assms by (auto simp: advance_def intro!: fail_ends intro: going id split: option.split)
qed

lemma boot_ends:
  assumes "L node w"
  shows "wp (start_boot forwards previous node b) (outcome E L) C w"
proof -
  have boot: "wp (Call (StartVM n) (\<lambda>err. case err of Some e \<Rightarrow> put_back (n_ID n) previous e | None \<Rightarrow> Return (Inr n))) (outcome E L) C v"
    if "L n v" for n v
    using that going_works(3) [OF that that] by (auto simp: id [OF that] intro: going put_back_ends split: option.split)
  have ready: "wp (if \<not> forwards then Return (Inr node)
        else Call (PrepareForwarding node) (\<lambda>err. case err of Some e \<Rightarrow> put_back (n_ID node) previous e | None \<Rightarrow>
          let node' = node\<lparr>n_DaemonPortForwarding := True\<rparr>
          in tryP (withLocks False [] [n_ID node] (callP (Save node' b))) (\<lambda>_. Return (Inr node')))) (outcome E L) C v"
    if "L node v" for v
    using that going_works(2) [OF that that]
    by (auto simp: Let_def minor_def id [OF that] simp del: wp_tryP intro: going put_back_ends saved [where n = node] split: option.split)
  have go: "wp (case err of Some e \<Rightarrow> put_back (n_ID node) previous e | None \<Rightarrow>
      tryP (if \<not> forwards then Return (Inr node)
        else Call (PrepareForwarding node) (\<lambda>err. case err of Some e \<Rightarrow> put_back (n_ID node) previous e | None \<Rightarrow>
          let node' = node\<lparr>n_DaemonPortForwarding := True\<rparr>
          in tryP (withLocks False [] [n_ID node] (callP (Save node' b))) (\<lambda>_. Return (Inr node'))))
        (\<lambda>n. Call (StartVM n) (\<lambda>err. case err of Some e \<Rightarrow> put_back (n_ID n) previous e | None \<Rightarrow> Return (Inr n)))) (outcome E L) C v"
    if "L node v" for v err
  proof (cases err)
    case None
    then show ?thesis using wp_try_outcome [OF ready [OF that] boot] by simp
  qed (simp add: id [OF that] put_back_ends [OF that])
  show ?thesis
  proof (cases "running_observed node")
    case True
    then show ?thesis using assms by (simp add: start_boot_def) (rule advance_ends, simp_all)
  next
    case False
    then show ?thesis using go [OF going_works(1) [OF assms assms]] going [OF assms] unfolding start_boot_def by (simp del: wp_tryP)
  qed
qed

lemma credentials_ends:
  assumes "L node w"
  shows "wp (start_credentials node b) (outcome E L) C w"
proof -
  have save: "wp (Clock (\<lambda>now. let node' = node\<lparr>n_AuthImportCompleted := True, n_UpdatedAt := now\<rparr>
      in tryP (withLocks False [] [n_ID node] (callP (Save node' b))) (\<lambda>_. Return (Inr node')))) (outcome E L) C v" if "L node v" for v
    using that saved [OF that] by (auto simp: Let_def minor_def simp del: wp_tryP intro: going)
  show ?thesis unfolding start_credentials_def Let_def
    by (rule advance_ends [OF assms]) (auto simp: going_works simp del: wp.simps(2) intro!: save [unfolded Let_def] fail_ends intro: going going_works id split: option.split)
qed

lemma workspace_ends:
  assumes "L node w"
  shows "wp (start_workspace node b) (outcome E L) C w"
proof -
  have save: "wp (Clock (\<lambda>now. let node' = node\<lparr>n_WorkspaceSeeded := True, n_UpdatedAt := now\<rparr>
      in tryP (withLocks False [] [n_ID node] (callP (Save node' b))) (\<lambda>_. Return (Inr node')))) (outcome E L) C v" if "L node v" for v
    using that saved [OF that] by (auto simp: Let_def minor_def simp del: wp_tryP intro: going)
  show ?thesis unfolding start_workspace_def Let_def
    by (rule advance_ends [OF assms]) (auto simp: going_works simp del: wp.simps(2) intro!: save [unfolded Let_def] fail_ends intro: going going_works id split: option.split)
qed

text \<open>A recorded step: without an error its record was saved; with one the start fails.\<close>

lemma steps_saved:
  assumes "L n w"
  shows "wp (save_steps rb n b ev) (outcome C (\<lambda>_. L n)) C w"
proof -
  have l: "L n (call_effect (Lock [] [n_ID n] rb) err how w)" for err how by (rule going_calls [OF assms])
  have s: "L n (call_effect (Save n b) None h (call_effect (Lock [] [n_ID n] rb) None how w))" for h how by (rule going_save [OF l minor_same])
  have f: "C (call_effect (Save n b) (Some e) h (call_effect (Lock [] [n_ID n] rb) None how w))" for e h how
    by (rule failed [OF save_fails [OF l minor_same]])
  show ?thesis unfolding save_steps_def using assms l f
    by (auto intro: going unlock going_calls [OF s] going_calls [OF going_calls(3) [OF s]] going [OF going_calls(3) [OF s]] going [OF s])
qed

definition step_done :: "Node \<Rightarrow> BootstrapState \<times> goError option \<Rightarrow> world \<Rightarrow> bool" where
  "step_done n x w \<longleftrightarrow> C w \<and> (snd x = None \<longrightarrow> L n w)"

lemma finish_step_ends:
  assumes "L n w"
  shows "wp (finish_step n b index started attempt runErr code stopped) (step_done n) C w"
proof -
  have join: "join_errors a (Some e) \<noteq> None" for a e by (cases a) simp_all
  have out: "step_done n (b2, join_errors runErr (case r of Inl e \<Rightarrow> Some e | Inr _ \<Rightarrow> None)) v"
    if "outcome C (\<lambda>_. L n) r v" for r :: "(goError, unit) result" and b2 v
    using that join by (cases r) (auto simp: step_done_def intro: going)
  show ?thesis unfolding finish_step_def Let_def using assms
    by (auto intro!: wp_mono [OF steps_saved] out intro: going)
qed

lemma step_ends:
  assumes "L n w"
  shows "wp (run_recorded_step n b index) (step_done n) C w"
proof -
  have guest: "wp (case r of Inl e \<Rightarrow> Return (b1, Some e)
      | Inr _ \<Rightarrow> Call (RunGuest n cmd) (\<lambda>runErr. case runErr of
          None \<Rightarrow> finish_step n b1 index started attempt None None False
        | Some e \<Rightarrow> Call CtxErr (\<lambda>ctxErr. StepExit (\<lambda>code. finish_step n b1 index started attempt (Some e) code (ctxErr \<noteq> None)))))
      (step_done n) C v"
    if "outcome C (\<lambda>_. L n) r v" for r :: "(goError, unit) result" and b1 started attempt v cmd
  proof (cases r)
    case (Inr x)
    then have v: "L n v" using that by simp
    note g = going_works(6) [OF v v]
    show ?thesis using Inr v
      by (auto simp del: not_None_eq intro!: finish_step_ends intro: going g going_calls [OF g] split: option.split)
  qed (use that in \<open>simp add: step_done_def\<close>)
  have first: "wp (bindP (save_steps False n b1 ev) (\<lambda>r. case r of Inl e \<Rightarrow> Return (b1, Some e)
      | Inr _ \<Rightarrow> Call (RunGuest n cmd) (\<lambda>runErr. case runErr of
          None \<Rightarrow> finish_step n b1 index started attempt None None False
        | Some e \<Rightarrow> Call CtxErr (\<lambda>ctxErr. StepExit (\<lambda>code. finish_step n b1 index started attempt (Some e) code (ctxErr \<noteq> None))))))
      (step_done n) C v"
    if "L n v" for v b1 ev cmd started attempt
    by (rule wp_bindI [OF steps_saved [OF that]]) (use guest in auto)
  have stop: "step_done n (b', Some e) v" if "C v" for b' e v using that by (simp add: step_done_def)
  note c = going_calls(2) [OF assms]
  show ?thesis unfolding run_recorded_step_def Let_def wp.simps
    by (auto simp del: wp_bind not_None_eq intro!: first stop intro: going [OF assms] going [OF c] c split: option.split)
qed

lemma then_steps:
  assumes "L n w" "\<And>b' v. L n v \<Longrightarrow> wp (k b') (outcome E (\<lambda>_. L n)) C v"
  shows "wp (bindP (run_recorded_step n b index) (\<lambda>(b', err). case err of None \<Rightarrow> k b' | Some e \<Rightarrow> fail_start n b' ev e)) (outcome E (\<lambda>_. L n)) C w"
proof (rule wp_bindI [OF step_ends [OF assms(1)]])
  fix x v assume x: "step_done n x v"
  show "wp (case x of (b', err) \<Rightarrow> (case err of None \<Rightarrow> k b' | Some e \<Rightarrow> fail_start n b' ev e)) (outcome E (\<lambda>_. L n)) C v"
    using x assms(2) fail_ends [of v n] id [OF assms(1)] by (auto simp: step_done_def split: prod.split option.split)
qed

lemma loops_ends:
  assumes "L n w"
  shows "wp (bootstrap_loop steps n is b) (outcome E (\<lambda>_. L n)) C w" "wp (validation_loop n is b) (outcome E (\<lambda>_. L n)) C w"
proof -
  show "wp (bootstrap_loop steps n is b) (outcome E (\<lambda>_. L n)) C w" using assms
  proof (induction "is" arbitrary: b w)
    case (Cons x xs)
    then show ?case by (auto simp: Let_def simp del: wp_bind intro!: advance_ends then_steps)
  qed simp
  show "wp (validation_loop n is b) (outcome E (\<lambda>_. L n)) C w" using assms
  proof (induction "is" arbitrary: b w)
    case (Cons x xs)
    then show ?case by (auto simp del: wp_bind intro!: then_steps)
  qed simp
qed

lemma steps_ends:
  assumes "L n w"
  shows "wp (start_steps first n b) (outcome E (\<lambda>_. L n)) C w"
  unfolding start_steps_def Let_def
  by (rule advance_ends [OF assms]) (auto simp del: wp_tryP intro!: wp_try_outcome [where A = "\<lambda>_. L n"] advance_ends loops_ends)

theorem phases_end:
  assumes "L node w"
  shows "wp (advance ''boot'' ''checking runtime and booting VM'' False node b
     (bindP (reconcile_node True node) (\<lambda>r. case r of
          Inl err \<Rightarrow> put_back i previous err
        | Inr node \<Rightarrow>
            tryP (start_boot forwards previous node b) (\<lambda>node.
            tryP (start_credentials node b) (\<lambda>node.
            tryP (start_workspace node b) (\<lambda>node.
            tryP (start_steps first node b) (\<lambda>b'.
            start_finish (\<not> completed) node b'))))))) (outcome E (\<lambda>_. E)) C w"
proof -
  have rest: "wp (tryP (start_boot forwards previous n b) (\<lambda>node. tryP (start_credentials node b) (\<lambda>node. tryP (start_workspace node b) (\<lambda>node.
      tryP (start_steps first node b) (\<lambda>b'. start_finish (\<not> completed) node b'))))) (outcome E (\<lambda>_. E)) C v" if "L n v" for n v
    by (intro wp_try_outcome [OF boot_ends [OF that]] wp_try_outcome [OF credentials_ends] wp_try_outcome [OF workspace_ends]
      wp_try_outcome [OF steps_ends] finish_ends)
  have see: "wp (reconcile_node True n) (outcome (L n) L) C v" if "L n v" for n v
    using going_seen [OF that] going_seen(2) [OF going_seen(1) [OF that]] going [OF that]
    by (auto simp: reconcile_node_def intro: going split: sum.split)
  show ?thesis
  proof (rule advance_ends [OF assms], rule wp_bindI [OF see])
    fix r v assume "outcome (L node) L r v"
    then show "wp (case r of Inl err \<Rightarrow> put_back i previous err | Inr node \<Rightarrow> tryP (start_boot forwards previous node b) (\<lambda>node.
        tryP (start_credentials node b) (\<lambda>node. tryP (start_workspace node b) (\<lambda>node.
        tryP (start_steps first node b) (\<lambda>b'. start_finish (\<not> completed) node b'))))) (outcome E (\<lambda>_. E)) C v"
      by (cases r) (simp_all add: rest put_back_ends del: wp_tryP)
  qed
qed

end

end
