(* ===== verification/ServiceClaims.thy ===== *)
theory ServiceClaims
  imports StartPhases
begin

text \<open>
  What the records say while the runtime works: a delete marks a record only after its instance is
  gone, a start works in the guest only while the record says that it is provisioning, and an
  operation that ends gives the record a status that is not in flight.
\<close>

section \<open>Delete\<close>

text \<open>The log shows a successful removal of the instance.\<close>

definition torn :: "string \<Rightarrow> world \<Rightarrow> bool" where
  "torn name w \<longleftrightarrow> (\<exists>e \<in> set (v_log w). en_event e = CallE (DeleteVM name) \<and> en_error e = None)"

text \<open>
  One record, \<open>j\<close>, may have changed. It is still there, names the same instance, and differs in its
  deletion time only once that instance has been removed; no other instance is gone.
\<close>

definition kept :: "string \<Rightarrow> world \<Rightarrow> world \<Rightarrow> bool" where
  "kept j w0 w \<longleftrightarrow> (\<forall>i. i \<noteq> j \<longrightarrow> map_of (v_nodes w) i = map_of (v_nodes w0) i)
     \<and> (case map_of (v_nodes w0) j of
          None \<Rightarrow> map_of (v_nodes w) j = None \<and> v_vms w = v_vms w0
        | Some (wire0, b0) \<Rightarrow>
            v_vms w0 - {w_SandboxName wire0} \<subseteq> v_vms w \<and> v_vms w \<subseteq> v_vms w0
            \<and> (\<exists>wire b. map_of (v_nodes w) j = Some (wire, b) \<and> w_SandboxName wire = w_SandboxName wire0
                \<and> (w_DeletedAt wire = w_DeletedAt wire0 \<or> torn (w_SandboxName wire0) w)))"

lemma torn_call [simp]: "torn name w \<Longrightarrow> torn name (call_effect c err how w)"
  by (simp add: torn_def)

lemma torn_logged [simp]: "torn name w \<Longrightarrow> torn name (logged e err w)"
  by (simp add: torn_def)

lemma kept_start [simp]: "kept j w w"
  by (auto simp: kept_def split: option.split)

lemma kept_same: "kept j w0 w \<Longrightarrow> same_state w v \<Longrightarrow> (\<And>name. torn name w \<Longrightarrow> torn name v) \<Longrightarrow> kept j w0 v"
  by (auto simp: kept_def same_state_def split: option.splits)

lemma kept_logged [simp]: "kept j w0 w \<Longrightarrow> kept j w0 (logged e err w)"
  by (erule kept_same) (simp_all add: same_state_def)

lemma kept_plain [simp]:
  assumes "kept j w0 w" "plain_call c \<or> lock_call c"
  shows "kept j w0 (call_effect c err how w)"
proof -
  have "v_nodes (call_effect c err how w) = v_nodes w \<and> v_vms (call_effect c err how w) = v_vms w"
    using assms(2) by (cases c) simp_all
  then show ?thesis using assms(1) torn_call [of _ w c err how] by (auto simp: kept_def split: option.splits)
qed

text \<open>A save is harmless when it is of the record \<open>j\<close> as the log allows it.\<close>

definition based :: "string \<Rightarrow> world \<Rightarrow> world \<Rightarrow> Node \<Rightarrow> bool" where
  "based j w0 w n \<longleftrightarrow> n_ID n = j \<and> (\<exists>wire0 b0. map_of (v_nodes w0) j = Some (wire0, b0)
     \<and> n_SandboxName n = w_SandboxName wire0 \<and> (n_DeletedAt n = w_DeletedAt wire0 \<or> torn (w_SandboxName wire0) w))"

lemma kept_save [simp]:
  assumes "kept j w0 w" "based j w0 w n"
  shows "kept j w0 (call_effect (Save n b) err how w)"
proof -
  obtain wire0 b0 where r: "map_of (v_nodes w0) j = Some (wire0, b0)" "n_SandboxName n = w_SandboxName wire0"
      "n_DeletedAt n = w_DeletedAt wire0 \<or> torn (w_SandboxName wire0) w" and i: "n_ID n = j"
    using assms(2) by (auto simp: based_def)
  obtain wire b1 where k: "map_of (v_nodes w) j = Some (wire, b1)" "w_SandboxName wire = w_SandboxName wire0"
      "w_DeletedAt wire = w_DeletedAt wire0 \<or> torn (w_SandboxName wire0) w"
    using assms(1) r(1) by (auto simp: kept_def)
  have "v_nodes (call_effect (Save n b) err how w) \<in> {v_nodes w, AList.update j (wire, b) (v_nodes w), AList.update j (newNodeFileWire n, b) (v_nodes w)}"
    by (cases err; cases how) (simp_all add: call_effect_def Let_def save_world_def save_part_def i k(1))
  then show ?thesis using assms(1) r k torn_call [of "w_SandboxName wire0" w "Save n b" err how]
    by (auto simp: kept_def update_conv' newNodeFileWire_def)
qed

lemma kept_remove [simp]:
  assumes "kept j w0 w" "map_of (v_nodes w0) j = Some (wire0, b0)"
  shows "kept j w0 (call_effect (DeleteVM (w_SandboxName wire0)) err how w)"
proof -
  have "v_nodes (call_effect (DeleteVM (w_SandboxName wire0)) err how w) = v_nodes w
      \<and> v_vms (call_effect (DeleteVM (w_SandboxName wire0)) err how w) \<in> {v_vms w, v_vms w - {w_SandboxName wire0}}"
    by (cases err; cases how) (simp_all add: call_effect_def Let_def)
  then show ?thesis using assms torn_call [of "w_SandboxName wire0" w "DeleteVM (w_SandboxName wire0)" err how]
    by (auto simp: kept_def)
qed

lemma based_mono: "based j w0 w n \<Longrightarrow> (\<And>name. torn name w \<Longrightarrow> torn name v) \<Longrightarrow> based j w0 v n"
  by (auto simp: based_def)

lemma based_fields:
  "based j w0 w n \<Longrightarrow> n_ID m = n_ID n \<Longrightarrow> n_SandboxName m = n_SandboxName n \<Longrightarrow> n_DeletedAt m = n_DeletedAt n \<Longrightarrow> based j w0 w m"
  by (simp add: based_def)

lemma based_call [simp]: "based j w0 w n \<Longrightarrow> based j w0 (call_effect c err how w) n"
  by (erule based_mono) simp

lemma recover_claim_kept:
  assumes "kept j w0 w" "based j w0 w node"
  shows "wp (recover_claim node b) (\<lambda>r w. kept j w0 w \<and> (\<forall>n. r = Inr n \<longrightarrow> based j w0 w n)) (kept j w0) w"
proof -
  have f: "based j w0 w (node\<lparr>n_Status := NodeStatusFailed, n_UpdatedAt := now\<rparr>)" for now
    by (rule based_fields [OF assms(2)]) simp_all
  show ?thesis unfolding recover_claim_def using assms by (auto simp: Let_def f)
qed

lemma load_claimed_kept:
  assumes "world_ok w0" "v_nodes w = v_nodes w0" "v_vms w = v_vms w0"
  shows "wp (load_claimed j) (\<lambda>r w. kept j w0 w \<and> (\<forall>node b. r = Inr (node, b) \<longrightarrow> based j w0 w node)) (kept j w0) w"
  using assms
  by (auto simp: load_claimed_def stored_node_def stored_bootstrap_def kept_def based_def world_ok_def wire_node_def Let_def
      split: option.split prod.split)

text \<open>The result of a successful delete.\<close>

definition gone :: "Node \<Rightarrow> world \<Rightarrow> bool" where
  "gone node w \<longleftrightarrow> torn (n_SandboxName node) w \<and> n_Status node = NodeStatusTerminated \<and> n_DeletedAt node \<noteq> None
     \<and> n_SandboxName node \<notin> v_vms w \<and> (\<exists>b. map_of (v_nodes w) (n_ID node) = Some (newNodeFileWire node, b))"

lemma delete_body_kept:
  assumes "world_ok w0" "v_nodes w = v_nodes w0" "v_vms w = v_vms w0"
  shows "wp (deleteNode_claimed hydrate j) (\<lambda>r w. kept j w0 w \<and> (\<forall>node. r = Inr node \<longrightarrow> gone node w)) (kept j w0) w"
proof -
  let ?P = "\<lambda>(r :: (goError, Node \<times> BootstrapState) result) w. kept j w0 w \<and> (\<forall>node b. r = Inr (node, b) \<longrightarrow> based j w0 w node)"
  have mark: "wp (tryP (recover_claim node b) (\<lambda>node. Clock (\<lambda>now. let node' = node\<lparr>n_Status := NodeStatusTerminating, n_UpdatedAt := now\<rparr>
      in tryP (callP (Save node' b)) (\<lambda>_. Return (Inr (node', b)))))) ?P (kept j w0) v"
    if "kept j w0 v" "based j w0 v node" for node b v
  proof (rule wp_tryI [OF recover_claim_kept [OF that]])
    fix n u assume n: "kept j w0 u \<and> (\<forall>m. Inr n = Inr m \<longrightarrow> based j w0 u m)"
    have "based j w0 u (n\<lparr>n_Status := NodeStatusTerminating, n_UpdatedAt := now\<rparr>)" for now
      by (rule based_fields [of _ _ _ n]) (use n in simp_all)
    then show "wp (Clock (\<lambda>now. let node' = n\<lparr>n_Status := NodeStatusTerminating, n_UpdatedAt := now\<rparr>
      in tryP (callP (Save node' b)) (\<lambda>_. Return (Inr (node', b))))) ?P (kept j w0) u" using n by (simp add: Let_def)
  qed auto
  have first: "wp (withLocks False [lockNodes] [j] (tryP (load_claimed j) (\<lambda>(node, b). tryP (recover_claim node b) (\<lambda>node.
      Clock (\<lambda>now. let node' = node\<lparr>n_Status := NodeStatusTerminating, n_UpdatedAt := now\<rparr>
        in tryP (callP (Save node' b)) (\<lambda>_. Return (Inr (node', b)))))))) ?P (kept j w0) w"
  proof (rule wp_locksI)
    show "wp (tryP (load_claimed j) (\<lambda>(node, b). tryP (recover_claim node b) (\<lambda>node.
      Clock (\<lambda>now. let node' = node\<lparr>n_Status := NodeStatusTerminating, n_UpdatedAt := now\<rparr>
        in tryP (callP (Save node' b)) (\<lambda>_. Return (Inr (node', b))))))) ?P (kept j w0) (call_effect (Lock [lockNodes] [j] False) None how w)" for how
    proof (rule wp_tryI [OF load_claimed_kept [OF assms(1)]], goal_cases)
      case (5 x u)
      then show ?case by (cases x) (simp only: prod.case, rule mark, simp_all)
    qed (use assms in auto)
  qed (use assms in \<open>auto simp: kept_def split: option.split\<close>)
  have finish: "wp (withLocks False [lockNodes] [n_ID n] (tryP (callP (Save n b)) (\<lambda>_. callP (AppendEvent (n_ID n) ''node.deleted''))))
      (\<lambda>r v. kept j w0 v \<and> (\<forall>x. r = Inr x \<longrightarrow> gone n v)) (kept j w0) v"
    if "kept j w0 v" "based j w0 v n" "torn (n_SandboxName n) v" "n_Status n = NodeStatusTerminated" "n_DeletedAt n \<noteq> None" "n_SandboxName n \<notin> v_vms v" for n v b
    using that by (simp add: gone_def update_conv')
  have remove: "wp (tryP (callP (DeleteVM (n_SandboxName node))) (\<lambda>_. Clock (\<lambda>deletedAt.
       let node' = node\<lparr>n_Status := NodeStatusTerminated, n_UpdatedAt := deletedAt, n_DeletedAt := Some deletedAt\<rparr>
       in tryP (withLocks False [lockNodes] [n_ID node] (tryP (callP (Save node' b)) (\<lambda>_. callP (AppendEvent (n_ID node) ''node.deleted'')))) (\<lambda>_.
          Return (Inr node'))))) (\<lambda>r w. kept j w0 w \<and> (\<forall>node. r = Inr node \<longrightarrow> gone node w)) (kept j w0) v"
    if k: "kept j w0 v" and n: "based j w0 v node" for node b v
  proof -
    obtain wire0 b0 where s: "map_of (v_nodes w0) j = Some (wire0, b0)" "n_SandboxName node = w_SandboxName wire0" and i: "n_ID node = j"
      using n by (auto simp: based_def)
    let ?n = "\<lambda>t. node\<lparr>n_Status := NodeStatusTerminated, n_UpdatedAt := t, n_DeletedAt := Some t\<rparr>"
    have t: "torn (w_SandboxName wire0) (call_effect (DeleteVM (w_SandboxName wire0)) None how v)" for how by (simp add: torn_def)
    have x: "w_SandboxName wire0 \<notin> v_vms (call_effect (DeleteVM (w_SandboxName wire0)) None how v)" for how by (simp add: call_effect_def Let_def)
    have "based j w0 (call_effect (DeleteVM (w_SandboxName wire0)) None how v) (?n t)" for how t using t s i by (simp add: based_def)
    then have "wp (tryP (withLocks False [lockNodes] [n_ID (?n t)] (tryP (callP (Save (?n t) b)) (\<lambda>_. callP (AppendEvent (n_ID (?n t)) ''node.deleted'')))) (\<lambda>_. Return (Inr (?n t))))
        (\<lambda>r w. kept j w0 w \<and> (\<forall>node. r = Inr node \<longrightarrow> gone node w)) (kept j w0) (call_effect (DeleteVM (w_SandboxName wire0)) None how v)" for t how
      by (intro wp_tryI [OF finish [of _ "?n t"]]) (use k s t x in auto)
    then show ?thesis using k s by (simp add: Let_def s(2) del: wp_tryP)
      (simp only: wp_tryP, simp add: k s)
  qed
  show ?thesis unfolding deleteNode_claimed_def
  proof (rule wp_tryI [OF first])
    fix x :: "Node \<times> BootstrapState" and v assume x: "kept j w0 v \<and> (\<forall>node b. Inr x = Inr (node, b) \<longrightarrow> based j w0 v node)"
    obtain node b where e: "x = (node, b)" by (cases x)
    have h: "wp (if hydrate then hydrateConfigurationSlug node else Return (Inr node)) (\<lambda>r u. u = v \<and> (\<forall>n. r = Inr n \<longrightarrow> based j w0 v n)) (\<lambda>u. u = v) v"
      by (cases hydrate) (use x e in \<open>auto intro!: wp_mono [OF hydrate_wp] based_fields [of _ _ _ node]\<close>)
    show "wp (case x of (node, b) \<Rightarrow> tryP (if hydrate then hydrateConfigurationSlug node else Return (Inr node)) (\<lambda>node.
       tryP (callP (DeleteVM (n_SandboxName node))) (\<lambda>_. Clock (\<lambda>deletedAt.
       let node' = node\<lparr>n_Status := NodeStatusTerminated, n_UpdatedAt := deletedAt, n_DeletedAt := Some deletedAt\<rparr>
       in tryP (withLocks False [lockNodes] [n_ID node] (tryP (callP (Save node' b)) (\<lambda>_. callP (AppendEvent (n_ID node) ''node.deleted'')))) (\<lambda>_.
          Return (Inr node')))))) (\<lambda>r w. kept j w0 w \<and> (\<forall>node. r = Inr node \<longrightarrow> gone node w)) (kept j w0) v"
      unfolding e prod.case by (rule wp_tryI [OF h]) (use x remove in auto)
  qed auto
qed

lemma deleteNode_kept:
  assumes "world_ok w0"
  shows "wp (deleteNode hydrate v) (\<lambda>r w. \<exists>j. kept j w0 w \<and> (\<forall>node. r = Inr node \<longrightarrow> gone node w)) (\<lambda>w. \<exists>j. kept j w0 w) w0"
proof -
  have s: "kept j w0 u" if "same_state w0 u" for j u
    using that by (auto simp: kept_def same_state_def split: option.split)
  have g: "gone n (call_effect (Release i) err how u)" if "gone n u" for n i err how u
    using that by (simp add: gone_def)
  have body: "wp (deleteNode_claimed hydrate j) (\<lambda>r u. (\<exists>j. kept j w0 u) \<and> (\<forall>err how. \<exists>k. kept k w0 (call_effect (Release j) err how u)
      \<and> (\<forall>node. r = Inr node \<longrightarrow> gone node (call_effect (Release j) err how u)))) (\<lambda>w. \<exists>j. kept j w0 w) u" if "same_state w0 u" for j u
    by (rule wp_mono [OF delete_body_kept [OF assms, of u hydrate j]])
      (use that in \<open>auto simp: same_state_def intro!: exI [of _ j] g\<close>)
  show ?thesis unfolding deleteNode_def
    by (rule claimed_wp) (use s body in auto)
qed

section \<open>The claim of a start is durable\<close>

definition says_provisioning :: "string \<Rightarrow> records \<Rightarrow> bool" where
  "says_provisioning i nodes \<longleftrightarrow> (case map_of nodes i of None \<Rightarrow> False | Some (wire, b) \<Rightarrow> w_LifecycleState wire = NodeStatusProvisioning)"

text \<open>Everything a start did to an instance, it did while the stored record said so.\<close>

definition covered :: "world \<Rightarrow> bool" where
  "covered w \<longleftrightarrow> (\<forall>e \<in> set (v_log w). \<forall>c i. en_event e = CallE c \<longrightarrow> works_on c = Some i \<longrightarrow> says_provisioning i (en_nodes e))"

lemma covered_other [simp]:
  "covered (logged (LoadE i) err w) = covered w" "covered (logged (SeenE obs) err w) = covered w" "covered (seen r w) = covered w"
  "covered (mutate_effect m merr made w) = covered w"
  by (simp_all add: covered_def)

lemma covered_call [simp]:
  "covered (call_effect c err how w) \<longleftrightarrow> covered w \<and> (\<forall>i. works_on c = Some i \<longrightarrow> says_provisioning i (v_nodes w))"
  by (auto simp: covered_def)

text \<open>Programs that do not work on instances.\<close>

lemma covered_only:
  assumes "only (\<lambda>c. works_on c = None) p" "covered w"
  shows "wp p (\<lambda>_. covered) covered w"
  using assms by (induction p arbitrary: w) auto

definition provisioning :: "string \<Rightarrow> Node \<Rightarrow> bool" where
  "provisioning i n \<longleftrightarrow> n_ID n = i \<and> n_Status n = NodeStatusProvisioning"

lemma provisioning_fields [simp]:
  "provisioning i n \<Longrightarrow> provisioning i (n\<lparr>n_DaemonPortForwarding := f\<rparr>)"
  "provisioning i n \<Longrightarrow> provisioning i (n\<lparr>n_AuthImportCompleted := f, n_UpdatedAt := t\<rparr>)"
  "provisioning i n \<Longrightarrow> provisioning i (n\<lparr>n_WorkspaceSeeded := f, n_UpdatedAt := t\<rparr>)"
  by (simp_all add: provisioning_def)

lemma provisioning_id: "provisioning i n \<Longrightarrow> n_ID n = i"
  by (simp add: provisioning_def)

lemma provisioning_wire: "provisioning i n \<Longrightarrow> w_LifecycleState (newNodeFileWire n) = NodeStatusProvisioning"
proof -
  assume "provisioning i n"
  moreover have "normalizeNodeLifecycleState NodeStatusProvisioning = NodeStatusProvisioning"
    by (rule normalize_durable) (simp add: durable_states_def)
  moreover have "NodeStatusProvisioning \<noteq> []" by (simp add: status_defs)
  ultimately show ?thesis by (simp add: provisioning_def newNodeFileWire_def nodeLifecycleState_def)
qed

lemma says_plain [simp]: "plain_call c \<Longrightarrow> says_provisioning i (v_nodes (call_effect c err how w)) = says_provisioning i (v_nodes w)"
  by simp

lemma says_save [simp]:
  "provisioning i n \<Longrightarrow> says_provisioning i (AList.update (n_ID n) (newNodeFileWire n, b) nodes)"
  "provisioning i n \<Longrightarrow> says_provisioning i (AList.update i (newNodeFileWire n, b) nodes)"
  by (simp_all add: says_provisioning_def update_conv' provisioning_wire provisioning_id)

text \<open>What holds while the start goes on.\<close>

definition claim_held :: "string \<Rightarrow> Node \<Rightarrow> world \<Rightarrow> bool" where
  "claim_held i n w \<longleftrightarrow> provisioning i n \<and> covered w \<and> says_provisioning i (v_nodes w)"

lemma works_says: "claim_held i n w \<Longrightarrow> works_on c \<in> {None, Some i} \<Longrightarrow> covered (call_effect c err how w)"
  by (auto simp: claim_held_def)

lemma observed_provisioning: "provisioning i n \<Longrightarrow> provisioning i (observed_node now obs n)"
  by (simp add: provisioning_def observed_node_def reconcileNodeWithObservations_def nodeStatusAcceptsRuntimeSighting_def nodeStatusInFlight_def Let_def split: option.split)

lemma lock_no_work: "lock_call c \<Longrightarrow> works_on c = None \<and> v_nodes (call_effect c err how w) = v_nodes w"
  by (cases c) simp_all

interpretation durable_claim: start_phases i previous completed covered covered "claim_held i" for i previous completed
proof (rule start_phases.intro, goal_cases)
  case (5 n w c err how)
  then show ?case by (auto simp: claim_held_def lock_no_work)
next
  case (8 n w m b how)
  then have "provisioning i m" by (auto simp: claim_held_def provisioning_def minor_def)
  then show ?case using 8 by (simp add: claim_held_def)
next
  case (14 w n b ev)
  then show ?case by (simp add: recordNodeStartRollback_def)
next
  case (15 n w)
  then show ?case by (auto simp: claim_held_def restoreNodeStatus_def stored_node_def stored_bootstrap_def Let_def split: sum.split option.split)
next
  case (16 n w b)
  have "only (\<lambda>c. works_on c = None) (start_finish (\<not> completed) n b)"
    by (auto simp: start_finish_def reconcileNodePersisted_def hydrateConfigurationSlug_def Let_def split: sum.split intro!: only_intros)
  from covered_only [OF this] have "wp (start_finish (\<not> completed) n b) (\<lambda>_. covered) covered w" using 16 by (simp add: claim_held_def)
  then show ?case by (rule wp_mono) (simp_all add: outcome_def split: sum.split)
qed (auto simp: claim_held_def provisioning_id observed_provisioning)

text \<open>Before the claim is written there is no work on the instance; after it, the record says so.\<close>

lemma prepare_covered:
  assumes "covered w" "\<And>wire b. map_of (v_nodes w) i = Some (wire, b) \<Longrightarrow> w_ID wire = i"
  shows "wp (start_prepare cat op resume i) (\<lambda>r w. covered w \<and> (\<forall>n b p f. r = Inr (n, b, p, f) \<longrightarrow> provisioning i n \<and> says_provisioning i (v_nodes w))) covered w"
proof -
  let ?Q = "\<lambda>(r :: (goError, Node \<times> BootstrapState \<times> NodeStatus \<times> nat) result) w. covered w \<and> (\<forall>n b p f. r = Inr (n, b, p, f) \<longrightarrow> provisioning i n \<and> says_provisioning i (v_nodes w))"
  have mark: "wp (case prepareSteps resume b of (b, Inl err) \<Rightarrow> Return (Inl err) | (b, Inr first) \<Rightarrow> Clock (\<lambda>now.
      let node' = node\<lparr>n_BootstrapCommands := CombinedCommands b, n_Status := NodeStatusProvisioning, n_UpdatedAt := now\<rparr>
      in tryP (callP (Save node' b)) (\<lambda>_. tryP (callP (AppendEvent (n_ID node) ev)) (\<lambda>_. Return (Inr (node', b, n_Status node, first)))))) ?Q covered v"
    if "n_ID node = i" "covered v" for node b v ev
  proof -
    have "provisioning i (node\<lparr>n_BootstrapCommands := cs, n_Status := NodeStatusProvisioning, n_UpdatedAt := now\<rparr>)" for cs now
      using that(1) by (simp add: provisioning_def)
    from says_save(2) [OF this] this show ?thesis using that by (auto simp: Let_def split: prod.split sum.split)
  qed
  have recover: "wp (recover_claim node b) (\<lambda>r v. covered v \<and> (\<forall>n. r = Inr n \<longrightarrow> n_ID n = n_ID node)) covered v" if "covered v" for node b v
    using that by (auto simp: recover_claim_def Let_def)
  have claim: "wp (tryP (recover_claim node b) (\<lambda>node.
        if resume \<and> n_Status node \<noteq> NodeStatusFailed then Return (Inl (preconditionFailed ''only a failed node can retry a recorded step'' [(''node_id'', n_ID node)]))
        else case prepareSteps resume b of (b, Inl err) \<Rightarrow> Return (Inl err) | (b, Inr first) \<Rightarrow> Clock (\<lambda>now.
      let node' = node\<lparr>n_BootstrapCommands := CombinedCommands b, n_Status := NodeStatusProvisioning, n_UpdatedAt := now\<rparr>
      in tryP (callP (Save node' b)) (\<lambda>_. tryP (callP (AppendEvent (n_ID node) ev)) (\<lambda>_. Return (Inr (node', b, n_Status node, first))))))) ?Q covered v"
    if "n_ID node = i" "covered v" for node b v ev
    by (rule wp_tryI [OF recover [OF that(2)]]) (use mark that(1) in auto)
  have migrated: "n_ID (fst (migrateKnownBuiltInNodeBootstrap cat node b)) = n_ID node" for node b
    by (simp add: migrateKnownBuiltInNodeBootstrap_def Let_def split: prod.split)
  have migrate: "wp (case migrateKnownBuiltInNodeBootstrap cat node b of
      (node', b', True) \<Rightarrow> tryP (callP (Save node' b')) (\<lambda>_. tryP (callP (AppendEvent (n_ID node') ''node.bootstrap.migrated'')) (\<lambda>_. Return (Inr (node', b'))))
    | (node', b', False) \<Rightarrow> Return (Inr (node, b))) (\<lambda>r v. covered v \<and> (\<forall>n b. r = Inr (n, b) \<longrightarrow> n_ID n = i)) covered v"
    if "n_ID node = i" "covered v" for node b v
    using that migrated [of node b] by (auto split: prod.split bool.split)
  have load: "wp (load_claimed i) (\<lambda>r v. covered v \<and> (\<forall>n b. r = Inr (n, b) \<longrightarrow> n_ID n = i)) covered (call_effect (Lock [] [i] False) None how w)" for how
    using assms by (auto simp: load_claimed_def stored_node_def stored_bootstrap_def wire_node_def Let_def split: option.split)
  show ?thesis unfolding start_prepare_def
  proof (rule wp_locksI [where A = ?Q and C' = covered], goal_cases)
    case (3 how)
    show ?case
    proof (rule wp_tryI [OF load], goal_cases)
      case (3 x v)
      obtain node b where x: "x = (node, b)" by (cases x)
      show ?case unfolding x prod.case
      proof (rule wp_tryI [OF migrate], goal_cases)
        case (5 y u)
        then show ?case using claim by (cases y) simp
      qed (use 3 x in auto)
    qed auto
  qed (use assms in auto)
qed

lemma start_covered:
  assumes "covered w" "\<And>wire b. map_of (v_nodes w) i = Some (wire, b) \<Longrightarrow> w_ID wire = i"
  shows "wp (nodeStartClaimed cat forwards op resume i) (\<lambda>_. covered) covered w"
  unfolding nodeStartClaimed_def
proof (rule wp_tryI [OF prepare_covered [OF assms]], goal_cases)
  case (4 x v)
  obtain node b previous first where x: "x = (node, b, previous, first)" by (cases x)
  have "claim_held i node v" using 4 x by (simp add: claim_held_def)
  from durable_claim.phases_end [OF this, where completed = "bs_Completed b"] show ?case unfolding x prod.case
    by (rule wp_mono) (auto simp: outcome_def split: sum.splits)
qed auto

text \<open>Every record is stored under its own identifier; no call changes that.\<close>

definition keyed :: "world \<Rightarrow> bool" where
  "keyed w \<longleftrightarrow> (\<forall>i wire b. map_of (v_nodes w) i = Some (wire, b) \<longrightarrow> w_ID wire = i)"

lemma keyed_call: "keyed w \<Longrightarrow> keyed (call_effect c err how w)"
  by (cases c; cases err; cases how)
    (auto simp: keyed_def call_effect_def Let_def save_world_def save_part_def update_conv' delete_conv' newNodeFileWire_def split: if_splits option.splits)

lemma stop_keeps:
  assumes "covered w" "keyed w"
  shows "wp (nodeStopClaimed i) (\<lambda>_ w. covered w \<and> keyed w) (\<lambda>w. covered w \<and> keyed w) w"
proof -
  have o: "only (\<lambda>c. works_on c = None) (nodeStopClaimed i)"
    by (auto simp: nodeStopClaimed_def recovered_node_def load_claimed_def recover_claim_def reconcile_node_def hydrateConfigurationSlug_def Let_def
        split: sum.split intro!: only_intros)
  have "wp (nodeStopClaimed i) (\<lambda>_. keyed) keyed w"
    by (rule only_wp [where I = keyed, OF o assms(2)]) (simp_all add: keyed_call, simp add: keyed_def)
  from wp_conj [OF covered_only [OF o assms(1)] this] show ?thesis .
qed

lemma restart_covered:
  assumes "covered w" "keyed w"
  shows "wp (NodeRestart cat forwards v) (\<lambda>_. covered) covered w"
proof -
  have stop: "wp (nodeStopClaimed i) (\<lambda>_ v. covered v \<and> keyed v) covered u" if "covered u" "keyed u" for i u
    by (rule wp_mono [OF stop_keeps [OF that]]) auto
  have start: "wp (nodeStartClaimed cat forwards ''node.restart'' False i) (\<lambda>_. covered) covered u" if "covered u" "keyed u" for i u
    by (rule start_covered) (use that in \<open>auto simp: keyed_def\<close>)
  show ?thesis unfolding NodeRestart_def with_claim_def
    using assms by (auto simp: keyed_call simp del: wp_tryP intro!: stop start wp_tryI [where A = "\<lambda>_ v. covered v \<and> keyed v" and C' = covered] split: sum.split)
qed

section \<open>The claim of a start is returned\<close>

text \<open>Work on the metadata, and a history in which none of it failed.\<close>

fun metadata :: "event \<Rightarrow> bool" where
  "metadata (CallE (Lock ks is rb)) = True"
| "metadata (CallE (Save n b)) = True"
| "metadata (CallE (AppendEvent i ev)) = True"
| "metadata (LoadE i) = True"
| "metadata e = False"

definition clean :: "world \<Rightarrow> bool" where
  "clean w \<longleftrightarrow> (\<forall>e \<in> set (v_log w). metadata (en_event e) \<longrightarrow> en_error e = None)"

lemma clean_simps [simp]:
  "clean (call_effect c err how w) \<longleftrightarrow> clean w \<and> (metadata (CallE c) \<longrightarrow> err = None)"
  "clean (logged (LoadE i) err w) \<longleftrightarrow> clean w \<and> err = None" "clean (seen r w) = clean w"
  by (auto simp: clean_def)

text \<open>The stored record is not in flight; the other records are as they were, and the record is under its own identifier.\<close>

definition settled :: "string \<Rightarrow> records \<Rightarrow> bool" where
  "settled i nodes \<longleftrightarrow> (case map_of nodes i of None \<Rightarrow> True | Some (wire, b) \<Rightarrow> \<not> nodeStatusInFlight (n_Status (wire_node wire)))"

definition others :: "string \<Rightarrow> records \<Rightarrow> records \<Rightarrow> bool" where
  "others i nodes0 nodes \<longleftrightarrow> (\<forall>j. j \<noteq> i \<longrightarrow> map_of nodes j = map_of nodes0 j) \<and> (\<forall>wire b. map_of nodes i = Some (wire, b) \<longrightarrow> w_ID wire = i)"

lemma others_save [simp]:
  assumes "others (n_ID n) nodes0 (v_nodes w)"
  shows "others (n_ID n) nodes0 (v_nodes (call_effect (Save n b) err how w))"
  using assms by (cases err; cases how) (auto simp: others_def call_effect_def Let_def save_world_def save_part_def update_conv' newNodeFileWire_def split: option.split)

lemma others_update [simp]: "others (n_ID n) nodes0 nodes \<Longrightarrow> others (n_ID n) nodes0 (AList.update (n_ID n) (newNodeFileWire n, b) nodes)"
  by (auto simp: others_def update_conv' newNodeFileWire_def)

lemma stored_status: "n_Status (wire_node (newNodeFileWire n)) = nodeLifecycleState n"
  by (simp add: wire_node_def newNodeFileWire_def Let_def)

lemma in_flight_states: "\<not> nodeStatusInFlight []" "\<not> nodeStatusInFlight NodeStatusFailed"
  by (simp_all add: nodeStatusInFlight_def status_defs)

lemma settled_save: "settled (n_ID n) (AList.update (n_ID n) (newNodeFileWire n, b) nodes) \<longleftrightarrow> \<not> nodeStatusInFlight (nodeLifecycleState n)"
  by (simp add: settled_def update_conv' stored_status)

lemma failed_lifecycle: "n_Status n = NodeStatusFailed \<Longrightarrow> nodeLifecycleState n = NodeStatusFailed"
proof -
  assume "n_Status n = NodeStatusFailed"
  moreover have "normalizeNodeLifecycleState NodeStatusFailed = NodeStatusFailed"
    by (rule normalize_durable) (simp add: durable_states_def)
  moreover have "NodeStatusFailed \<noteq> []" by (simp add: status_defs)
  ultimately show ?thesis by (simp add: nodeLifecycleState_def)
qed

definition returned :: "string \<Rightarrow> records \<Rightarrow> world \<Rightarrow> bool" where
  "returned i nodes0 w \<longleftrightarrow> others i nodes0 (v_nodes w) \<and> (clean w \<longrightarrow> settled i (v_nodes w))"

text \<open>
  While the start goes on: a record marked as provisioning, whose flag tells whether the status it
  had before can be put back.
\<close>

definition returnable :: "string \<Rightarrow> records \<Rightarrow> NodeStatus \<Rightarrow> bool \<Rightarrow> Node \<Rightarrow> world \<Rightarrow> bool" where
  "returnable i nodes0 previous completed n w \<longleftrightarrow>
     n_ID n = i \<and> n_Status n = NodeStatusProvisioning \<and> \<not> nodeStatusInFlight (normalizeNodeLifecycleState previous)
     \<and> (completed \<longrightarrow> n_BootstrapCompleted n) \<and> (n_BootstrapCompleted n \<or> normalizeNodeLifecycleState previous \<noteq> [])
     \<and> others i nodes0 (v_nodes w)
     \<and> (clean w \<longrightarrow> (\<exists>wire b. map_of (v_nodes w) i = Some (wire, b) \<and> w_ID wire = i \<and> w_BootstrapCompleted wire = n_BootstrapCompleted n))"

lemma restore_lifecycle:
  assumes "\<not> nodeStatusInFlight (normalizeNodeLifecycleState status)" "n_BootstrapCompleted n \<or> normalizeNodeLifecycleState status \<noteq> []"
  shows "\<not> nodeStatusInFlight (nodeLifecycleState (n\<lparr>n_Status := status, n_UpdatedAt := t\<rparr>))"
  using assms in_flight_states by (auto simp: nodeLifecycleState_def)

lemma rollback_returned:
  assumes "others (n_ID n) nodes0 (v_nodes w)" "n_Status n = NodeStatusFailed"
  shows "wp (recordNodeStartRollback n b ev) (\<lambda>_. returned (n_ID n) nodes0) (\<lambda>w. others (n_ID n) nodes0 (v_nodes w)) w"
proof -
  have "settled (n_ID n) (AList.update (n_ID n) (newNodeFileWire n, b) nodes)" for nodes
    by (simp add: settled_save failed_lifecycle [OF assms(2)] in_flight_states)
  then show ?thesis using assms(1) by (auto simp: recordNodeStartRollback_def returned_def)
qed

lemma restore_returned:
  assumes "returnable i nodes0 previous completed n w"
  shows "wp (restoreNodeStatus i previous) (\<lambda>_. returned i nodes0) (\<lambda>w. others i nodes0 (v_nodes w)) w"
proof (cases "\<exists>wire b. map_of (v_nodes w) i = Some (wire, b) \<and> w_ID wire = i \<and> w_BootstrapCompleted wire = n_BootstrapCompleted n")
  case True
  then obtain wire b where m: "map_of (v_nodes w) i = Some (wire, b)" "w_ID wire = i" "w_BootstrapCompleted wire = n_BootstrapCompleted n" by auto
  let ?n = "\<lambda>now. (wire_node wire)\<lparr>n_Status := previous, n_UpdatedAt := now\<rparr>"
  have i: "n_ID (?n now) = i" "n_BootstrapCompleted (wire_node wire) = n_BootstrapCompleted n" for now
    using m by (simp_all add: wire_node_def Let_def)
  have "\<not> nodeStatusInFlight (nodeLifecycleState (?n now))" for now
    by (rule restore_lifecycle) (use assms i in \<open>auto simp: returnable_def\<close>)
  then have s: "settled i (AList.update i (newNodeFileWire (?n now), b) nodes)" for now nodes
    using settled_save [of "?n now"] i(1) by simp
  have o: "others i nodes0 (v_nodes (call_effect (Save (?n now) b) err how v))" if "others i nodes0 (v_nodes v)" for now err how v
    using others_save [of "?n now"] i(1) that by simp
  have u: "others i nodes0 (AList.update i (newNodeFileWire (?n now), b) nodes)" if "others i nodes0 nodes" for now nodes
    using others_update [of "?n now"] i(1) that by simp
  have ot: "others i nodes0 (v_nodes w)" using assms by (simp add: returnable_def)
  have st: "settled i (v_nodes w)" if "\<not> nodeStatusInFlight (n_Status (wire_node wire))" using that m by (simp add: settled_def)
  have j: "n_ID (wire_node wire) = i" using i(1) by simp
  show ?thesis unfolding restoreNodeStatus_def using ot m(1) s o u st
    by (auto simp: stored_node_def stored_bootstrap_def returned_def j)
next
  case False
  then have c: "\<not> clean w" and ot: "others i nodes0 (v_nodes w)" using assms by (auto simp: returnable_def)
  have o: "others i nodes0 (v_nodes (call_effect (Save ((wire_node wire)\<lparr>n_Status := previous, n_UpdatedAt := now\<rparr>) b) err how v))"
    if "others i nodes0 (v_nodes v)" "w_ID wire = i" for wire b now err how v
    using others_save [of "(wire_node wire)\<lparr>n_Status := previous, n_UpdatedAt := now\<rparr>"] that by (simp add: wire_node_def Let_def)
  have "w_ID wire = i" if "map_of (v_nodes w) i = Some (wire, b)" for wire b using ot that by (simp add: others_def)
  then show ?thesis unfolding restoreNodeStatus_def using ot c o
    by (auto simp: stored_node_def stored_bootstrap_def returned_def simp del: save_call_sel split: option.split sum.split)
qed

text \<open>The end of a start that succeeded: a sighting, which is not in flight once the bootstrap is complete.\<close>

definition sighted :: "Node \<Rightarrow> bool" where
  "sighted n \<longleftrightarrow> n_BootstrapCompleted n \<and> n_Status n \<in> {NodeStatusRunning, NodeStatusStopped}"

lemma sighted_lifecycle: "sighted n \<Longrightarrow> nodeLifecycleState n = []"
  by (auto simp: sighted_def nodeLifecycleState_def)

lemma sighted_observed: "sighted n \<Longrightarrow> sighted ((observed_node now obs n)\<lparr>n_UpdatedAt := t\<rparr>)"
  by (auto simp: sighted_def observed_node_def reconcileNodeWithObservations_def Let_def split: option.split)

lemma sighted_settled: "sighted n \<Longrightarrow> n_ID n = i \<Longrightarrow> settled i (AList.update i (newNodeFileWire n, b) nodes)"
  using settled_save [of n] by (simp add: sighted_lifecycle in_flight_states)

lemma persisted_returned:
  assumes "returned i nodes0 w" "sighted n" "n_ID n = i"
  shows "wp (reconcileNodePersisted n) (\<lambda>_. returned i nodes0) (\<lambda>w. others i nodes0 (v_nodes w)) w"
proof -
  let ?n = "\<lambda>now obs. (observed_node now obs n)\<lparr>n_UpdatedAt := now\<rparr>"
  have i: "n_ID (?n now obs) = i" for now obs using assms(3) by simp
  have s: "settled i (AList.update i (newNodeFileWire (?n now obs), b) nodes)" for now obs b nodes
    by (rule sighted_settled [OF sighted_observed [OF assms(2)] i])
  have o: "others i nodes0 (v_nodes (call_effect (Save (?n now obs) b) err how v))" if "others i nodes0 (v_nodes v)" for now obs b err how v
    using others_save [of "?n now obs"] i that by simp
  have u: "others i nodes0 (AList.update i (newNodeFileWire (?n now obs), b) nodes)" if "others i nodes0 nodes" for now obs b nodes
    using others_update [of "?n now obs"] i that by simp
  have ot: "others i nodes0 (v_nodes w)" and st: "clean w \<Longrightarrow> settled i (v_nodes w)" using assms(1) by (simp_all add: returned_def)
  show ?thesis unfolding reconcileNodePersisted_def Let_def using ot st s o u
    by (auto simp: stored_bootstrap_def returned_def assms(3) split: sum.split option.split)
qed

lemma save_returned:
  assumes "n_ID m = i" "others i nodes0 (v_nodes w)" "\<And>nodes. settled i (AList.update i (newNodeFileWire m, b) nodes)"
  shows "wp (withLocks False [] ids (tryP (callP (Save m b)) (\<lambda>_. callP (AppendEvent j ev)))) (\<lambda>_. returned i nodes0) (\<lambda>w. others i nodes0 (v_nodes w)) w"
  using assms others_save [of m nodes0] others_update [of m nodes0] by (auto simp: returned_def)

lemma finish_returned:
  assumes "returnable i nodes0 previous completed n w"
  shows "wp (start_finish (\<not> completed) n b) (\<lambda>_. returned i nodes0) (\<lambda>w. others i nodes0 (v_nodes w)) w"
proof -
  let ?b = "\<lambda>t. if \<not> completed then b\<lparr>bs_Completed := True, bs_CompletedAt := Some t\<rparr> else b"
  let ?m = "\<lambda>t now. (if \<not> completed then n\<lparr>n_BootstrapCompleted := True, n_BootstrapCompletedAt := Some t\<rparr> else n)\<lparr>n_Status := NodeStatusRunning, n_UpdatedAt := now\<rparr>"
  have i: "n_ID (?m t now) = i" "n_ID n = i" and g: "sighted (?m t now)" for t now
    using assms by (auto simp: returnable_def sighted_def)
  have ot: "others i nodes0 (v_nodes w)" using assms by (simp add: returnable_def)
  have save: "wp (withLocks False [] [n_ID n] (tryP (callP (Save (?m t now) (?b t))) (\<lambda>_. callP (AppendEvent (n_ID n) ''node.started''))))
      (\<lambda>_. returned i nodes0) (\<lambda>w. others i nodes0 (v_nodes w)) w" for t now
    by (rule save_returned [OF i(1) ot sighted_settled [OF g i(1)]])
  have last: "wp (tryP (reconcileNodePersisted (?m t now)) hydrateConfigurationSlug) (\<lambda>_. returned i nodes0) (\<lambda>w. others i nodes0 (v_nodes w)) v"
    if "returned i nodes0 v" for t now v
    by (rule wp_tryI [OF persisted_returned [OF that g i(1)]]) (auto intro: wp_mono [OF hydrate_wp] simp: returned_def)
  show ?thesis unfolding start_finish_def Let_def wp.simps
    by (intro conjI allI ot wp_tryI [OF save] last)
qed

interpretation returned_claim: start_phases i previous completed "\<lambda>w. others i nodes0 (v_nodes w)" "returned i nodes0" "returnable i nodes0 previous completed"
  for i previous completed nodes0
proof (rule start_phases.intro, goal_cases)
  case (5 n w c err how)
  then show ?case by (auto simp: returnable_def lock_no_work)
next
  case (7 n w now obs)
  have "provisioning i n" using 7 by (simp add: returnable_def provisioning_def)
  from observed_provisioning [OF this] show ?case using 7 by (simp add: returnable_def provisioning_def)
next
  case (8 n w m b how)
  then show ?case using others_save [of m nodes0 w b None how] by (auto simp: returnable_def minor_def update_conv' newNodeFileWire_def)
next
  case (9 n w m b e how)
  then show ?case using others_save [of m nodes0 w b "Some e" how] by (auto simp: returnable_def returned_def minor_def)
next
  case (14 w n b ev)
  then show ?case using rollback_returned [of n nodes0 w b ev] by simp
next
  case (15 n w)
  then show ?case by (rule restore_returned)
next
  case (16 n w b)
  from finish_returned [OF this] show ?case by (rule wp_mono) (simp_all add: outcome_def split: sum.split)
qed (auto simp: returnable_def returned_def)

text \<open>
  Records that a start can give back. What counts is the record after the migration of its built-in
  commands: the flag of the node agrees with the completed bootstrap, and a node without a
  completed bootstrap has a durable state.
\<close>

definition startable :: "builtInCatalog \<Rightarrow> nodeFileWire \<times> BootstrapState \<Rightarrow> bool" where
  "startable cat = (\<lambda>(wire, b). case migrateKnownBuiltInNodeBootstrap cat (wire_node wire) b of
     (node, b', migrated) \<Rightarrow> (bs_Completed b' \<longrightarrow> n_BootstrapCompleted node)
       \<and> (n_BootstrapCompleted node \<or> n_Status node \<in> durable_states))"

lemma migrated_fields:
  assumes "migrateKnownBuiltInNodeBootstrap cat node b = (node', b', m)"
  shows "n_ID node' = n_ID node" "n_Status node' = n_Status node" "\<not> m \<Longrightarrow> n_BootstrapCompleted node' = n_BootstrapCompleted node \<and> bs_Completed b' = bs_Completed b"
  using assms by (auto simp: migrateKnownBuiltInNodeBootstrap_def Let_def split: prod.splits if_splits option.splits)

lemma loaded_status: "n_Status (wire_node wire) \<in> durable_states \<union> {[], NodeStatusRunning, NodeStatusStopped}"
  using normalize_range [of "w_LifecycleState wire"] normalize_range [of "legacyNodeStatus (w_Status wire)"]
  by (auto simp: wire_node_def Let_def legacyNodeStatus_def durable_states_def)

lemma loaded_normal: "normalizeNodeLifecycleState (n_Status (wire_node wire)) \<in> {n_Status (wire_node wire), []}"
  using loaded_status [of wire] normalize_durable by auto

text \<open>Marking the node as provisioning, with the status it had.\<close>

lemma mark_returnable:
  assumes "n_ID node = i" "others i nodes0 (v_nodes w)" "\<not> nodeStatusInFlight (n_Status node)" "settled i (v_nodes w)"
    and "\<not> nodeStatusInFlight (normalizeNodeLifecycleState (n_Status node))"
    and "bs_Completed b \<longrightarrow> n_BootstrapCompleted node" "n_BootstrapCompleted node \<or> normalizeNodeLifecycleState (n_Status node) \<noteq> []"
  shows "wp (case prepareSteps resume b of (b, Inl err) \<Rightarrow> Return (Inl err) | (b, Inr first) \<Rightarrow> Clock (\<lambda>now.
      let node' = node\<lparr>n_BootstrapCommands := CombinedCommands b, n_Status := NodeStatusProvisioning, n_UpdatedAt := now\<rparr>
      in tryP (callP (Save node' b)) (\<lambda>_. tryP (callP (AppendEvent (n_ID node) ev)) (\<lambda>_. Return (Inr (node', b, n_Status node, first))))))
    (outcome (returned i nodes0) (\<lambda>(n, b, p, f). returnable i nodes0 p (bs_Completed b) n)) (\<lambda>w. others i nodes0 (v_nodes w)) w"
proof -
  obtain b0 r where p: "prepareSteps resume b = (b0, r)" by (cases "prepareSteps resume b")
  have c: "bs_Completed b0 = bs_Completed b" using prepare_frame(1) [OF p] .
  let ?m = "\<lambda>now. node\<lparr>n_BootstrapCommands := CombinedCommands b0, n_Status := NodeStatusProvisioning, n_UpdatedAt := now\<rparr>"
  have o: "others i nodes0 (v_nodes (call_effect (Save (?m now) b0) err how v))" "others i nodes0 (AList.update i (newNodeFileWire (?m now), b0) nodes)"
    if "others i nodes0 (v_nodes v)" "others i nodes0 nodes" for now err how v nodes
    using others_save [of "?m now"] others_update [of "?m now"] assms(1) that by (simp_all del: save_call_sel)
  have m: "map_of (AList.update i (newNodeFileWire (?m now), b0) nodes) i = Some (newNodeFileWire (?m now), b0)"
    "w_ID (newNodeFileWire (?m now)) = i" "w_BootstrapCompleted (newNodeFileWire (?m now)) = n_BootstrapCompleted node" for now nodes
    using assms(1) by (simp_all add: update_conv' newNodeFileWire_def)
  show ?thesis
  proof (cases r)
    case (Inl e)
    then show ?thesis using assms p by (simp add: returned_def)
  next
    case (Inr first)
    then show ?thesis using assms p c o [of w "v_nodes w"] m
      by (auto simp: Let_def returned_def returnable_def)
  qed
qed

lemma recover_returned:
  assumes "n_ID node = i" "others i nodes0 (v_nodes w)" "\<not> nodeStatusInFlight (n_Status node) \<longrightarrow> settled i (v_nodes w)"
    and "n_Status node \<in> durable_states \<union> {[], NodeStatusRunning, NodeStatusStopped}"
    and "n_BootstrapCompleted node \<or> n_Status node \<in> durable_states"
  shows "wp (recover_claim node b) (outcome (returned i nodes0) (\<lambda>n w. n_ID n = i \<and> others i nodes0 (v_nodes w) \<and> settled i (v_nodes w)
      \<and> \<not> nodeStatusInFlight (n_Status n) \<and> \<not> nodeStatusInFlight (normalizeNodeLifecycleState (n_Status n))
      \<and> n_BootstrapCompleted n = n_BootstrapCompleted node \<and> (n_BootstrapCompleted n \<or> normalizeNodeLifecycleState (n_Status n) \<noteq> [])))
    (\<lambda>w. others i nodes0 (v_nodes w)) w"
proof (cases "nodeStatusInFlight (n_Status node)")
  case True
  let ?m = "\<lambda>now. node\<lparr>n_Status := NodeStatusFailed, n_UpdatedAt := now\<rparr>"
  have f: "normalizeNodeLifecycleState NodeStatusFailed = NodeStatusFailed" "NodeStatusFailed \<noteq> []"
    by (rule normalize_durable) (simp_all add: durable_states_def status_defs)
  have s: "settled i (AList.update i (newNodeFileWire (?m now), b) nodes)" for now nodes
    using settled_save [of "?m now"] assms(1) by (simp add: failed_lifecycle in_flight_states)
  have o: "others i nodes0 (v_nodes (call_effect (Save (?m now) b) err how w))" "others i nodes0 (AList.update i (newNodeFileWire (?m now), b) (v_nodes w))" for now err how
    using others_save [of "?m now"] others_update [of "?m now"] assms(1,2) by (simp_all del: save_call_sel)
  show ?thesis using True assms(1,2) s o f in_flight_states by (auto simp: recover_claim_def Let_def returned_def)
next
  case False
  have "normalizeNodeLifecycleState (n_Status node) \<in> {n_Status node, []}" using assms(4) normalize_durable by auto
  moreover have "normalizeNodeLifecycleState (n_Status node) \<noteq> []" if "n_Status node \<in> durable_states"
    using normalize_durable [OF that] that by (auto simp: durable_states_def status_defs)
  ultimately show ?thesis using False assms in_flight_states by (auto simp: recover_claim_def)
qed

text \<open>A loaded node whose claim can be recovered and marked.\<close>

definition claimable :: "string \<Rightarrow> records \<Rightarrow> Node \<times> BootstrapState \<Rightarrow> world \<Rightarrow> bool" where
  "claimable i nodes0 = (\<lambda>(node, b) w. n_ID node = i \<and> others i nodes0 (v_nodes w) \<and> (\<not> nodeStatusInFlight (n_Status node) \<longrightarrow> settled i (v_nodes w))
     \<and> n_Status node \<in> durable_states \<union> {[], NodeStatusRunning, NodeStatusStopped}
     \<and> (bs_Completed b \<longrightarrow> n_BootstrapCompleted node) \<and> (n_BootstrapCompleted node \<or> n_Status node \<in> durable_states))"

lemma claimed_lifecycle:
  assumes "n_Status n \<in> durable_states \<union> {[], NodeStatusRunning, NodeStatusStopped}" "n_BootstrapCompleted n \<or> n_Status n \<in> durable_states"
    "\<not> nodeStatusInFlight (n_Status n)"
  shows "\<not> nodeStatusInFlight (nodeLifecycleState n)"
proof -
  have "[] \<notin> durable_states" by (simp add: durable_states_def status_defs)
  then show ?thesis using assms normalize_durable [of "n_Status n"] in_flight_states by (auto simp: nodeLifecycleState_def)
qed

lemma migrate_returned:
  assumes "map_of nodes0 i = Some (wire, b)" "w_ID wire = i" "startable cat (wire, b)" "v_nodes w = nodes0"
  shows "wp (case migrateKnownBuiltInNodeBootstrap cat (wire_node wire) b of
      (node', b', True) \<Rightarrow> tryP (callP (Save node' b')) (\<lambda>_. tryP (callP (AppendEvent (n_ID node') ''node.bootstrap.migrated'')) (\<lambda>_. Return (Inr (node', b'))))
    | (node', b', False) \<Rightarrow> Return (Inr (wire_node wire, b))) (outcome (returned i nodes0) (claimable i nodes0)) (\<lambda>w. others i nodes0 (v_nodes w)) w"
proof -
  obtain node b' m where g: "migrateKnownBuiltInNodeBootstrap cat (wire_node wire) b = (node, b', m)" by (cases "migrateKnownBuiltInNodeBootstrap cat (wire_node wire) b")
  note f = migrated_fields [OF g]
  have i: "n_ID node = i" using f(1) assms(2) by (simp add: wire_node_def Let_def)
  have st: "n_Status node \<in> durable_states \<union> {[], NodeStatusRunning, NodeStatusStopped}" using f(2) loaded_status by simp
  have c: "bs_Completed b' \<longrightarrow> n_BootstrapCompleted node" "n_BootstrapCompleted node \<or> n_Status node \<in> durable_states"
    using assms(3) g by (simp_all add: startable_def)
  have o0: "others i nodes0 nodes0" using assms(1,2) by (auto simp: others_def)
  have s0: "\<not> nodeStatusInFlight (n_Status node) \<Longrightarrow> settled i nodes0" using assms(1) f(2) by (simp add: settled_def)
  have o: "others i nodes0 (v_nodes (call_effect (Save node b') err how w))" "others i nodes0 (AList.update i (newNodeFileWire node, b') nodes0)" for err how
    using others_save [of node nodes0 w] others_update [of node nodes0 nodes0] i o0 assms(4) by (simp_all del: save_call_sel)
  have s: "settled i (AList.update i (newNodeFileWire node, b') nodes0)" if "\<not> nodeStatusInFlight (n_Status node)"
    using settled_save [of node] claimed_lifecycle [OF st c(2) that] i by simp
  show ?thesis
  proof (cases m)
    case True
    then show ?thesis using g i st c s o o0 assms(4) by (auto simp: claimable_def returned_def)
  next
    case False
    then have "claimable i nodes0 (wire_node wire, b) w" using i st c s0 o0 f assms(4) by (auto simp: claimable_def)
    then show ?thesis using False g o0 assms(4) by simp
  qed
qed

lemma claim_returned:
  assumes "claimable i nodes0 (node, b) w"
  shows "wp (tryP (recover_claim node b) (\<lambda>node.
        if resume \<and> n_Status node \<noteq> NodeStatusFailed then Return (Inl (preconditionFailed ''only a failed node can retry a recorded step'' [(''node_id'', n_ID node)]))
        else case prepareSteps resume b of (b, Inl err) \<Rightarrow> Return (Inl err) | (b, Inr first) \<Rightarrow> Clock (\<lambda>now.
      let node' = node\<lparr>n_BootstrapCommands := CombinedCommands b, n_Status := NodeStatusProvisioning, n_UpdatedAt := now\<rparr>
      in tryP (callP (Save node' b)) (\<lambda>_. tryP (callP (AppendEvent (n_ID node) ev)) (\<lambda>_. Return (Inr (node', b, n_Status node, first)))))))
    (outcome (returned i nodes0) (\<lambda>(n, b, p, f). returnable i nodes0 p (bs_Completed b) n)) (\<lambda>w. others i nodes0 (v_nodes w)) w"
proof -
  have f: "n_ID node = i" "others i nodes0 (v_nodes w)" "\<not> nodeStatusInFlight (n_Status node) \<longrightarrow> settled i (v_nodes w)"
    "n_Status node \<in> durable_states \<union> {[], NodeStatusRunning, NodeStatusStopped}" "n_BootstrapCompleted node \<or> n_Status node \<in> durable_states"
    "bs_Completed b \<longrightarrow> n_BootstrapCompleted node"
    using assms by (simp_all add: claimable_def)
  show ?thesis
  proof (rule wp_tryI [OF recover_returned [OF f(1-5)]], goal_cases)
    case (3 n u)
    then have u: "n_ID n = i" "others i nodes0 (v_nodes u)" "settled i (v_nodes u)" "\<not> nodeStatusInFlight (n_Status n)"
        "\<not> nodeStatusInFlight (normalizeNodeLifecycleState (n_Status n))"
        "bs_Completed b \<longrightarrow> n_BootstrapCompleted n" "n_BootstrapCompleted n \<or> normalizeNodeLifecycleState (n_Status n) \<noteq> []"
      using f(6) by auto
    show ?case
    proof (cases "resume \<and> n_Status n \<noteq> NodeStatusFailed")
      case True
      then show ?thesis using u by (simp add: returned_def)
    next
      case False
      then show ?thesis unfolding if_not_P [OF False] by (intro mark_returnable u)
    qed
  qed simp_all
qed

lemma prepare_returned:
  assumes "v_nodes w = nodes0" "\<And>wire b. map_of nodes0 i = Some (wire, b) \<Longrightarrow> w_ID wire = i \<and> startable cat (wire, b)"
  shows "wp (start_prepare cat op resume i) (outcome (returned i nodes0) (\<lambda>(n, b, p, f). returnable i nodes0 p (bs_Completed b) n))
    (\<lambda>w. others i nodes0 (v_nodes w)) w"
proof -
  let ?Q = "outcome (returned i nodes0) (\<lambda>(n, b, p, f). returnable i nodes0 p (bs_Completed b) n)" and ?C = "\<lambda>w. others i nodes0 (v_nodes w)"
  have o0: "others i nodes0 nodes0" using assms(2) by (auto simp: others_def)
  have load: "wp (load_claimed i) (outcome (returned i nodes0) (\<lambda>(n, b) v. v_nodes v = nodes0 \<and> (\<exists>wire. map_of nodes0 i = Some (wire, b) \<and> n = wire_node wire))) ?C v"
    if "v_nodes v = nodes0" for v
    using that o0 assms(2) [THEN conjunct1]
    by (auto simp: load_claimed_def stored_node_def stored_bootstrap_def returned_def settled_def wire_node_def Let_def split: option.split)
  show ?thesis unfolding start_prepare_def
  proof (rule wp_locksI [where A = ?Q and C' = ?C], goal_cases)
    case (3 how)
    show ?case
    proof (rule wp_tryI [OF load], goal_cases)
      case (4 x v)
      obtain node b where x: "x = (node, b)" by (cases x)
      obtain wire where m: "map_of nodes0 i = Some (wire, b)" "node = wire_node wire" and v: "v_nodes v = nodes0" using 4 x by auto
      show ?case unfolding x prod.case m(2)
        by (rule wp_tryI [OF migrate_returned [OF m(1) _ _ v]])
          (use assms(2) [OF m(1)] claim_returned in \<open>auto simp del: wp_tryP\<close>)
    qed (use assms(1) in simp_all)
  qed (use o0 assms(1) in \<open>auto simp: returned_def outcome_def returnable_def split: sum.splits\<close>)
qed

lemma start_returned:
  assumes "v_nodes w = nodes0" "\<And>wire b. map_of nodes0 i = Some (wire, b) \<Longrightarrow> w_ID wire = i \<and> startable cat (wire, b)"
  shows "wp (nodeStartClaimed cat forwards op resume i) (\<lambda>_. returned i nodes0) (\<lambda>w. others i nodes0 (v_nodes w)) w"
  unfolding nodeStartClaimed_def
proof (rule wp_tryI [OF prepare_returned [OF assms]], goal_cases)
  case (4 x v)
  obtain node b previous first where x: "x = (node, b, previous, first)" by (cases x)
  have "returnable i nodes0 previous (bs_Completed b) node v" using 4 x by simp
  from returned_claim.phases_end [OF this] show ?case unfolding x prod.case
    by (rule wp_mono) (auto simp: outcome_def split: sum.splits)
qed simp_all

lemma returned_all: "returned i nodes0 w \<Longrightarrow> clean w \<Longrightarrow> settled i (v_nodes w)"
  by (simp add: returned_def)

text \<open>Whatever the record of the node is, a start leaves the other records alone.\<close>

definition framed :: "string \<Rightarrow> records \<Rightarrow> Node \<Rightarrow> world \<Rightarrow> bool" where
  "framed i nodes0 n w \<longleftrightarrow> n_ID n = i \<and> others i nodes0 (v_nodes w)"

lemma others_store: "n_ID n = i \<Longrightarrow> others i nodes0 (v_nodes w) \<Longrightarrow> others i nodes0 (v_nodes (call_effect (Save n b) err how w))"
  using others_save [of n nodes0 w b err how] by simp

lemma restore_others:
  assumes "others i nodes0 (v_nodes w)"
  shows "wp (restoreNodeStatus i previous) (\<lambda>_ w. others i nodes0 (v_nodes w)) (\<lambda>w. others i nodes0 (v_nodes w)) w"
proof -
  have o: "others i nodes0 (v_nodes (call_effect (Save ((wire_node wire)\<lparr>n_Status := previous, n_UpdatedAt := now\<rparr>) b) err how v))"
    if "others i nodes0 (v_nodes v)" "w_ID wire = i" for wire b now err how v
    using that by (intro others_store) (simp_all add: wire_node_def Let_def)
  have "w_ID wire = i" if "map_of (v_nodes w) i = Some (wire, b)" for wire b using assms that by (simp add: others_def)
  then show ?thesis unfolding restoreNodeStatus_def using assms o
    by (auto simp: stored_node_def stored_bootstrap_def simp del: save_call_sel split: option.split sum.split)
qed

lemma finish_others:
  assumes "n_ID n = i" "others i nodes0 (v_nodes w)"
  shows "wp (start_finish fresh n b) (\<lambda>_ w. others i nodes0 (v_nodes w)) (\<lambda>w. others i nodes0 (v_nodes w)) w"
proof -
  let ?own = "\<lambda>c. case c of Save m b \<Rightarrow> n_ID m = i | _ \<Rightarrow> plain_call c \<or> lock_call c"
  have "only ?own (start_finish fresh n b)"
    using assms(1) by (auto simp: start_finish_def reconcileNodePersisted_def hydrateConfigurationSlug_def Let_def split: sum.split intro!: only_intros)
  moreover have "others i nodes0 (v_nodes (call_effect c err how v))" if "?own c" "others i nodes0 (v_nodes v)" for c err how v
  proof (cases "\<exists>m b. c = Save m b")
    case True
    then show ?thesis using that by (auto simp del: save_call_sel intro: others_store)
  next
    case False
    then have "plain_call c \<or> lock_call c" using that(1) by (cases c) auto
    then have "v_nodes (call_effect c err how v) = v_nodes v" by (auto simp: lock_no_work)
    then show ?thesis using that(2) by simp
  qed
  ultimately show ?thesis
    by (rule only_wp [where I = "\<lambda>w. others i nodes0 (v_nodes w)", OF _ assms(2)]) simp_all
qed

interpretation claim_frame: start_phases i previous completed "\<lambda>w. others i nodes0 (v_nodes w)" "\<lambda>w. others i nodes0 (v_nodes w)" "framed i nodes0"
  for i previous completed nodes0
proof (rule start_phases.intro, goal_cases)
  case (5 n w c err how)
  then show ?case by (auto simp: framed_def lock_no_work)
next
  case (8 n w m b how)
  then show ?case by (auto simp: framed_def minor_def simp del: save_call_sel intro: others_store)
next
  case (9 n w m b e how)
  then show ?case by (auto simp: framed_def minor_def simp del: save_call_sel intro: others_store)
next
  case (14 w n b ev)
  then have "others (n_ID n) nodes0 (v_nodes w)" by simp
  from rollback_returned [OF this 14(3), of b ev] show ?case by (rule wp_mono) (simp_all add: returned_def 14(2))
next
  case (15 n w)
  then show ?case by (intro restore_others) (simp add: framed_def)
next
  case (16 n w b)
  then have "n_ID n = i" "others i nodes0 (v_nodes w)" by (simp_all add: framed_def)
  from finish_others [OF this] show ?case by (rule wp_mono) (simp_all add: outcome_def split: sum.split)
qed (auto simp: framed_def)

lemma prepare_others:
  assumes "others i nodes0 (v_nodes w)"
  shows "wp (start_prepare cat op resume i) (outcome (\<lambda>w. others i nodes0 (v_nodes w)) (\<lambda>(n, b, p, f). framed i nodes0 n)) (\<lambda>w. others i nodes0 (v_nodes w)) w"
proof -
  let ?C = "\<lambda>w. others i nodes0 (v_nodes w)"
  let ?Q = "outcome ?C (\<lambda>(n :: Node, b :: BootstrapState, p :: NodeStatus, f :: nat). framed i nodes0 n)"
  have load: "wp (load_claimed i) (outcome ?C (\<lambda>(n, b). framed i nodes0 n)) ?C v" if "?C v" for v
    using that by (auto simp: load_claimed_def stored_node_def stored_bootstrap_def framed_def others_def wire_node_def Let_def split: option.split)
  have migrate: "wp (case migrateKnownBuiltInNodeBootstrap cat node b of
      (node', b', True) \<Rightarrow> tryP (callP (Save node' b')) (\<lambda>_. tryP (callP (AppendEvent (n_ID node') ''node.bootstrap.migrated'')) (\<lambda>_. Return (Inr (node', b'))))
    | (node', b', False) \<Rightarrow> Return (Inr (node, b))) (outcome ?C (\<lambda>(n, b). framed i nodes0 n)) ?C v" if "framed i nodes0 node v" for node b v
  proof -
    obtain n b' m where g: "migrateKnownBuiltInNodeBootstrap cat node b = (n, b', m)" by (cases "migrateKnownBuiltInNodeBootstrap cat node b")
    show ?thesis using that migrated_fields(1) [OF g] others_store [of n i nodes0 v b']
      by (cases m) (auto simp: g framed_def simp del: save_call_sel)
  qed
  have recover: "wp (recover_claim node b) (outcome ?C (framed i nodes0)) ?C v" if "framed i nodes0 node v" for node b v
  proof -
    have "?C (call_effect (Save (node\<lparr>n_Status := NodeStatusFailed, n_UpdatedAt := now\<rparr>) b) err how v)" for now err how
      by (rule others_store) (use that in \<open>simp_all add: framed_def\<close>)
    then show ?thesis using that by (auto simp: recover_claim_def Let_def framed_def simp del: save_call_sel)
  qed
  have mark: "wp (case prepareSteps resume b of (b, Inl err) \<Rightarrow> Return (Inl err) | (b, Inr first) \<Rightarrow> Clock (\<lambda>now.
      let node' = node\<lparr>n_BootstrapCommands := CombinedCommands b, n_Status := NodeStatusProvisioning, n_UpdatedAt := now\<rparr>
      in tryP (callP (Save node' b)) (\<lambda>_. tryP (callP (AppendEvent (n_ID node) ev)) (\<lambda>_. Return (Inr (node', b, n_Status node, first)))))) ?Q ?C v"
    if "framed i nodes0 node v" for node b v ev
  proof -
    have "?C (call_effect (Save (node\<lparr>n_BootstrapCommands := cs, n_Status := NodeStatusProvisioning, n_UpdatedAt := now\<rparr>) b) err how v)" for cs now b err how
      by (rule others_store) (use that in \<open>simp_all add: framed_def\<close>)
    then show ?thesis using that by (auto simp: Let_def framed_def simp del: save_call_sel split: prod.split sum.split)
  qed
  have claim: "wp (tryP (recover_claim node b) (\<lambda>node.
        if resume \<and> n_Status node \<noteq> NodeStatusFailed then Return (Inl (preconditionFailed ''only a failed node can retry a recorded step'' [(''node_id'', n_ID node)]))
        else case prepareSteps resume b of (b, Inl err) \<Rightarrow> Return (Inl err) | (b, Inr first) \<Rightarrow> Clock (\<lambda>now.
      let node' = node\<lparr>n_BootstrapCommands := CombinedCommands b, n_Status := NodeStatusProvisioning, n_UpdatedAt := now\<rparr>
      in tryP (callP (Save node' b)) (\<lambda>_. tryP (callP (AppendEvent (n_ID node) ev)) (\<lambda>_. Return (Inr (node', b, n_Status node, first))))))) ?Q ?C v"
    if "framed i nodes0 node v" for node b v ev
    by (rule wp_try_outcome [OF recover [OF that]]) (use mark in \<open>auto simp: framed_def\<close>)
  show ?thesis unfolding start_prepare_def
  proof (rule wp_locksI [where A = ?Q and C' = ?C], goal_cases)
    case (3 how)
    show ?case by (rule wp_try_outcome [OF load]) (use assms in \<open>auto simp del: wp_tryP intro!: wp_try_outcome [OF migrate] claim\<close>)
  qed (use assms in \<open>auto simp: outcome_def framed_def split: sum.splits\<close>)
qed

lemma start_others:
  assumes "others i nodes0 (v_nodes w)"
  shows "wp (nodeStartClaimed cat forwards op resume i) (\<lambda>_ w. others i nodes0 (v_nodes w)) (\<lambda>w. others i nodes0 (v_nodes w)) w"
  unfolding nodeStartClaimed_def
proof (rule wp_tryI [OF prepare_others [OF assms]], goal_cases)
  case (3 x v)
  obtain node b previous first where x: "x = (node, b, previous, first)" by (cases x)
  have "framed i nodes0 node v" using 3 x by simp
  from claim_frame.phases_end [OF this, where completed = "bs_Completed b"] show ?case unfolding x prod.case
    by (rule wp_mono) (auto simp: outcome_def split: sum.splits)
qed simp_all

section \<open>Stop\<close>

text \<open>The newest listing of the runtime that succeeded, and an instance that it does not show as up.\<close>

fun last_seen :: "entry list \<Rightarrow> RuntimeObservation list option" where
  "last_seen [] = None"
| "last_seen (e # es) = (case (en_event e, en_error e) of (SeenE obs, None) \<Rightarrow> Some obs | _ \<Rightarrow> last_seen es)"

definition down :: "string \<Rightarrow> RuntimeObservation list \<Rightarrow> bool" where
  "down name obs \<longleftrightarrow> (case findObservation obs name of None \<Rightarrow> True | Some x \<Rightarrow> \<not> ob_Exists x \<or> ob_Status x = ObservationStopped)"

definition stopped :: "Node \<Rightarrow> world \<Rightarrow> bool" where
  "stopped n w \<longleftrightarrow> n_Status n = NodeStatusStopped \<and> (\<exists>obs. last_seen (v_log w) = Some obs \<and> down (n_SandboxName n) obs)
     \<and> (\<exists>b. map_of (v_nodes w) (n_ID n) = Some (newNodeFileWire n, b))"

lemma observed_down_iff: "observed_down (observed_node now obs n) \<longleftrightarrow> down (n_SandboxName n) obs"
  by (simp add: observed_down_def observed_node_def reconcileNodeWithObservations_def down_def Let_def split: option.split)

lemma observed_some: "n_LastRuntimeObservation (observed_node now obs n) \<noteq> None"
  by (simp add: observed_node_def reconcileNodeWithObservations_def Let_def split: option.split)

lemma last_seen_call [simp]: "last_seen (v_log (call_effect c err how w)) = last_seen (v_log w)"
  by simp

lemma reconcile_sees:
  "wp (reconcile_node u node) (\<lambda>r w. \<forall>n. r = Inr n \<longrightarrow> (\<exists>now obs. n = observed_node now obs node \<and> last_seen (v_log w) = Some obs)) (\<lambda>_. True) w"
  by (auto simp: reconcile_node_def split: sum.split)

lemma hydrate_stopped:
  assumes "stopped n w"
  shows "wp (hydrateConfigurationSlug n) (\<lambda>r w. \<forall>m. r = Inr m \<longrightarrow> stopped m w) (\<lambda>_. True) w"
proof -
  have "newNodeFileWire (n\<lparr>n_ConfigurationSlug := slug\<rparr>) = newNodeFileWire n" for slug
    by (simp add: newNodeFileWire_def nodeLifecycleState_def)
  then have "stopped (n\<lparr>n_ConfigurationSlug := slug\<rparr>) w" for slug
    using assms by (simp add: stopped_def)
  then show ?thesis using assms by (auto simp: hydrateConfigurationSlug_def split: sum.split)
qed

lemma stop_confirmed: "wp (nodeStopClaimed i) (\<lambda>r w. \<forall>n. r = Inr n \<longrightarrow> stopped n w) (\<lambda>_. True) w"
proof -
  let ?Q = "\<lambda>(r :: (goError, Node) result) w. \<forall>n. r = Inr n \<longrightarrow> stopped n w" and ?C = "\<lambda>_ :: world. True"
  let ?m = "\<lambda>now obs n t. (observed_node now obs n)\<lparr>n_Status := NodeStatusStopped, n_UpdatedAt := t\<rparr>"
  have any: "wp p (\<lambda>_ _. True) ?C v" for p :: "(Node \<times> BootstrapState) action" and v
    by (induction p arbitrary: v) auto
  have saved: "wp (tryP (withLocks False [] ids (callP (Save (?m now obs n t) b))) (\<lambda>_. hydrateConfigurationSlug (?m now obs n t))) ?Q ?C v"
    "wp (tryP (withLocks False [] ids (tryP (callP (Save (?m now obs n t) b)) (\<lambda>_. callP (AppendEvent j ev)))) (\<lambda>_. hydrateConfigurationSlug (?m now obs n t))) ?Q ?C v"
    if "last_seen (v_log v) = Some obs" "down (n_SandboxName n) obs" for now obs n t b v ids j ev
  proof -
    have s: "stopped (?m now obs n t) u" if "v_nodes u = AList.update (n_ID n) (newNodeFileWire (?m now obs n t), b) (v_nodes v)" "last_seen (v_log u) = Some obs" for u
      using that \<open>down _ obs\<close> by (simp add: stopped_def update_conv')
    show "wp (tryP (withLocks False [] ids (callP (Save (?m now obs n t) b))) (\<lambda>_. hydrateConfigurationSlug (?m now obs n t))) ?Q ?C v"
      "wp (tryP (withLocks False [] ids (tryP (callP (Save (?m now obs n t) b)) (\<lambda>_. callP (AppendEvent j ev)))) (\<lambda>_. hydrateConfigurationSlug (?m now obs n t))) ?Q ?C v"
      using that(1) by (auto simp del: call_log intro!: hydrate_stopped s)
  qed
  have second: "wp (tryP (callP (StopVM n)) (\<lambda>_. tryP (reconcile_node True n) (\<lambda>node. if n_LastRuntimeObservation node \<noteq> None \<and> \<not> observed_down node
       then Return (Inl (externalCommandFailed ''runtime did not confirm that the VM stopped'' None [(''node_id'', n_ID node)]))
       else Clock (\<lambda>now. let node' = node\<lparr>n_Status := NodeStatusStopped, n_UpdatedAt := now\<rparr>
              in tryP (withLocks False [] [n_ID node] (tryP (callP (Save node' b)) (\<lambda>_. callP (AppendEvent (n_ID node) ''node.stopped'')))) (\<lambda>_.
                 hydrateConfigurationSlug node'))))) ?Q ?C v" for n b v
    by (rule wp_tryI [where A = "\<lambda>_ _. True" and C' = ?C], simp, simp, simp, rule wp_tryI [OF reconcile_sees])
      (auto simp: observed_some observed_down_iff Let_def simp del: wp_tryP intro!: saved)
  show ?thesis unfolding nodeStopClaimed_def
  proof (rule wp_tryI [OF any], goal_cases)
    case (3 x v)
    obtain node b where x: "x = (node, b)" by (cases x)
    show ?case unfolding x prod.case
      by (rule wp_tryI [OF reconcile_sees]) (auto simp: observed_down_iff Let_def simp del: wp_tryP not_None_eq intro!: saved second second [unfolded Let_def])
  qed auto
qed

end
