(* ===== verification/ServiceRuns.thy ===== *)
theory ServiceRuns
  imports ServiceClaims
begin

text \<open>
  The properties of the lifecycle operations, over executions with any answers and with a crash at
  any point, and executions that show them at work.
\<close>

section \<open>Sample executions\<close>

definition web :: Node where
  "web = zero_node\<lparr>n_ID := ''n1'', n_Slug := ''web'', n_SandboxName := ''web'', n_BootstrapCompleted := True\<rparr>"

definition web_bootstrap :: BootstrapState where
  "web_bootstrap = \<lparr>bs_AgentProfileName = [], bs_InstallCommands = [], bs_BootstrapCommands = [], bs_ValidationCommand = [],
     bs_LaunchCommand = [], bs_Environment = [], bs_Completed = True, bs_CompletedAt = None, bs_Steps = []\<rparr>"

definition web_world :: world where
  "web_world = \<lparr>v_nodes = [(''n1'', newNodeFileWire web, web_bootstrap)], v_refs = [(''n1'', ''web'')], v_vms = {''web''}, v_locks = 0, v_log = []\<rparr>"

definition no_catalog :: builtInCatalog where
  "no_catalog = \<lparr>bc_environments = [], bc_defaultValidation = ''true'', bc_profiles = []\<rparr>"

abbreviation fine :: answer where "fine \<equiv> ACall None AllDone"

definition observed :: "string \<Rightarrow> string \<Rightarrow> answer" where
  "observed name status = ARuntime (Inr [\<lparr>ob_Name = name, ob_Exists = True, ob_Status = status\<rparr>])"

definition stop_answers :: "Node \<Rightarrow> answer list" where
  "stop_answers n = [fine, ANode (Inr n), fine, fine, ALoad None, ALoad None, fine, observed (n_SandboxName n) ObservationRunning, AClock 1,
     fine, observed (n_SandboxName n) ObservationStopped, AClock 2, AClock 3, fine, fine, fine, fine, fine]"

text \<open>Executions are evaluated step by step; what comes after a step is left alone until it is reached.\<close>

lemma lazy_congs:
  "Clock k1 = Clock k1" "NewID k2 = NewID k2" "ResolveNode v k3 = ResolveNode v k3" "LoadNode v k4 = LoadNode v k4"
  "LoadBootstrap v k5 = LoadBootstrap v k5" "ConfigurationSlug v k6 = ConfigurationSlug v k6" "ListRuntime u k7 = ListRuntime u k7"
  "StepExit k8 = StepExit k8" "DirectoryQ v k9 = DirectoryQ v k9" "SettingsQ k10 = SettingsQ k10" "ConfigurationQ v k11 = ConfigurationQ v k11"
  "ProfileQ v k12 = ProfileQ v k12" "StepsQ cf k13 = StepsQ cf k13" "NodesQ u k14 = NodesQ u k14" "IndexedQ v k15 = IndexedQ v k15"
  "ClaimedQ v k16 = ClaimedQ v k16" "TryClaimQ v k17 = TryClaimQ v k17" "IncompleteQ k18 = IncompleteQ k18" "ExistsQ v k19 = ExistsQ v k19"
  "Call c k20 = Call c k20" "Mutate m k21 = Mutate m k21" "withLocks r ks is q = withLocks r ks is q"
  "p = p' \<Longrightarrow> bindP p f = bindP p' f" "pa = pb \<Longrightarrow> tryP pa fa = tryP pb fa"
  by simp_all

lemmas execution = tryP_def withLocks_def callP_def with_claim_def recovered_node_def load_claimed_def recover_claim_def reconcile_node_def
  hydrateConfigurationSlug_def Let_def call_effect_def logged_def seen_def stored_node_def stored_bootstrap_def save_world_def
  observed_def observed_node_def reconcileNodeWithObservations_def findObservation_def running_observed_def observed_down_def

lemma stored_fields [simp]:
  "n_ID (wire_node (newNodeFileWire n)) = n_ID n" "n_SandboxName (wire_node (newNodeFileWire n)) = n_SandboxName n"
  "n_ConfigurationID (wire_node (newNodeFileWire n)) = n_ConfigurationID n" "n_BootstrapCompleted (wire_node (newNodeFileWire n)) = n_BootstrapCompleted n"
  "n_ImportHostAuth (wire_node (newNodeFileWire n)) = n_ImportHostAuth n" "n_AuthImportCompleted (wire_node (newNodeFileWire n)) = n_AuthImportCompleted n"
  "n_DeletedAt (wire_node (newNodeFileWire n)) = n_DeletedAt n" "n_Status (wire_node (newNodeFileWire n)) = nodeLifecycleState n"
  "w_ID (newNodeFileWire n) = n_ID n" "w_SandboxName (newNodeFileWire n) = n_SandboxName n"
  by (simp_all add: wire_node_def newNodeFileWire_def Let_def)

lemma web_fields [simp]:
  "n_ID web = ''n1''" "n_SandboxName web = ''web''" "n_ConfigurationID web = []" "nodeLifecycleState web = []" "\<not> nodeStatusInFlight []"
  "ObservationRunning \<noteq> ObservationStopped" "ObservationStopped \<noteq> ObservationRunning" "nodeStatusAcceptsRuntimeSighting []"
  by code_simp+

section \<open>Properties\<close>

text \<open>
  Property C3: Create and clone never orphan an instance. Whatever the clock, the store, the runtime
  and the driver answer, and wherever the process dies, every instance that the operation made and
  that still exists is named by the reference in the directory of a node, so that cleanup can find
  it, and no instance that existed before is gone. The clone needs that the records of the store
  have their own references.
\<close>

theorem new_instances_referenced:
  "tracked w (fst (run (createNode forwards input) as w))
   \<and> (world_ok w \<longrightarrow> tracked w (fst (run (cloneNode clone) as w)))"
proof -
  have "tracked w (fst (run p as w))" if "wp p (\<lambda>_. tracked w) (tracked w) w" for p :: "Node action"
    using wp_run [OF that, of as] by (auto split: prod.splits option.splits)
  then show ?thesis using createNode_tracked cloneNode_tracked by blast
qed

definition clone_input :: NodeCloneInput where
  "clone_input = \<lparr>cl_SourceNode = ''web'', cl_NodeSlug = ''copy'', cl_Start = False\<rparr>"

definition clone_answers :: "answer list" where
  "clone_answers = [fine, ANode (Inr web), fine, fine, ALoad None, ALoad None, fine, observed ''web'' ObservationStopped, AClock 1,
     fine, ANodes (Inr [web]), ABool False, ANodes (Inr [web]), AString ''n2'', AClock 2, AClock 3, fine, fine, fine, AMutate None True]"

lemma copy_names [simp]:
  "TrimSpace ''copy'' = ''copy''" "slugify ''copy'' = ''copy''" "ensureUniqueNodeSlug [web] ''copy'' = None"
  "generateSandboxName (\<lambda>_. False) [] ''copy'' = Inr ''copy''" "generateSandboxName (\<lambda>_. False) [web] ''copy'' = Inr ''copy''"
  by code_simp+

lemma cloned_fields [simp]: "n_ID (cloned_node source b slug i name t u) = i" "n_SandboxName (cloned_node source b slug i name t u) = name"
  by (simp_all add: cloned_node_def)

text \<open>A clone that dies right after the instance was made: the reference is there and the record is not.\<close>

theorem new_instances_referenced_witness:
  "world_ok web_world \<and> (case run (cloneNode clone_input) clone_answers web_world of (w', r) \<Rightarrow>
     r = None \<and> tracked web_world w' \<and> v_vms w' = {''copy'', ''web''} \<and> map_of (v_refs w') ''n2'' = Some ''copy'' \<and> map_of (v_nodes w') ''n2'' = None)"
proof -
  have "world_ok web_world" by (simp add: world_ok_def web_world_def)
  moreover have "case run (cloneNode clone_input) clone_answers web_world of (w', r) \<Rightarrow>
      r = None \<and> v_vms w' = {''copy'', ''web''} \<and> map_of (v_refs w') ''n2'' = Some ''copy'' \<and> map_of (v_nodes w') ''n2'' = None"
    supply lazy_congs [cong]
    by (simp add: cloneNode_def clone_source_def clone_child_def name_clone_def name_node_def reserve_node_def clone_vm_def clone_settle_def clone_input_def
        clone_answers_def web_world_def driver_allows_def mutate_effect_def execution)
  ultimately show ?thesis using new_instances_referenced [of web_world False undefined clone_answers clone_input] by (auto split: prod.splits)
qed

text \<open>
  Property C5: No operation holds a metadata lock during slow work. In every execution of a start,
  retry, stop, restart, delete, create or clone, each call of the runtime, of the guest and each
  listing of instances happens with no lock held, also on the paths that undo failed work.
\<close>

theorem slow_work_unlocked:
  assumes "v_locks w = 0" "v_log w = []"
    and "p \<in> {nodeStart cat forwards resume v, NodeStop v, NodeRestart cat forwards v, deleteNode hydrate v, NodeCreate cat forwards input, NodeClone cat forwards clone}"
  shows "\<forall>e \<in> set (v_log (fst (run p as w))). slow (en_event e) \<longrightarrow> en_locks e = 0"
proof -
  have "tidy p" using assms(3) tidy_operations by blast
  then have "wp p (\<lambda>_ w. v_locks w = 0 \<and> unlocked w) unlocked w" by (rule tidyD) (use assms(1,2) in \<open>simp_all add: unlocked_def\<close>)
  from wp_run [OF this, of as] have "unlocked (fst (run p as w))" by (auto split: prod.splits option.splits)
  then show ?thesis by (simp add: unlocked_def)
qed

theorem slow_work_unlocked_witness:
  "v_locks web_world = 0 \<and> v_log web_world = []
   \<and> (\<exists>e \<in> set (v_log (fst (run (NodeStop ''web'') (stop_answers web) web_world))). en_event e = SeenE [\<lparr>ob_Name = ''web'', ob_Exists = True, ob_Status = ObservationStopped\<rparr>])
   \<and> list_all (\<lambda>e. en_locks e = 0) (filter (\<lambda>e. slow (en_event e)) (v_log (fst (run (NodeStop ''web'') (stop_answers web) web_world))))"
proof -
  have w: "v_locks web_world = 0" "v_log web_world = []" by (simp_all add: web_world_def)
  have "\<exists>e \<in> set (v_log (fst (run (NodeStop ''web'') (stop_answers web) web_world))). en_event e = SeenE [\<lparr>ob_Name = ''web'', ob_Exists = True, ob_Status = ObservationStopped\<rparr>]"
    supply lazy_congs [cong]
    by (simp add: NodeStop_def nodeStopClaimed_def stop_answers_def web_world_def execution)
  moreover have "\<forall>e \<in> set (v_log (fst (run (NodeStop ''web'') (stop_answers web) web_world))). slow (en_event e) \<longrightarrow> en_locks e = 0"
    by (rule slow_work_unlocked [OF w, of "NodeStop ''web''" no_catalog False False "''web''" False undefined clone_input]) simp
  ultimately show ?thesis using w by (simp add: list_all_iff)
qed

text \<open>
  Property C12: A node is marked as deleted only after its instance is gone. In every execution of a
  delete at most one record changes; it is never lost, keeps naming its instance, and its deletion
  time changes only after the runtime confirmed the removal of that instance; no other instance is
  removed. A delete that succeeds returns the node as terminated, stored so, with its instance gone.
\<close>

theorem delete_after_teardown:
  assumes "world_ok w" "v_log w = []"
  shows "case run (deleteNode hydrate v) as w of (w', r) \<Rightarrow>
    (\<exists>j. kept j w w') \<and> (\<forall>node. r = Some (Inr node) \<longrightarrow> gone node w')"
  using wp_run [OF deleteNode_kept [OF assms(1), of hydrate v], of as] by (auto split: prod.splits option.splits)

definition delete_answers :: "answer list" where
  "delete_answers = [fine, ANode (Inr web), fine, fine, ALoad None, ALoad None, AClock 1, fine, fine, fine, AClock 2, fine, fine, fine, fine, fine]"

theorem delete_after_teardown_witness:
  "case run (deleteNode True ''web'') delete_answers web_world of
     (w', Some (Inr node)) \<Rightarrow> v_vms w' = {} \<and> gone node w' | _ \<Rightarrow> False"
proof -
  have "world_ok web_world" "v_log web_world = []" by (simp_all add: world_ok_def web_world_def)
  note delete_after_teardown [OF this, of True "''web''" delete_answers]
  moreover have "case run (deleteNode True ''web'') delete_answers web_world of (w', Some (Inr node)) \<Rightarrow> v_vms w' = {} | _ \<Rightarrow> False"
    supply lazy_congs [cong]
    by (simp add: deleteNode_def deleteNode_claimed_def delete_answers_def web_world_def execution)
  ultimately show ?thesis by (auto split: prod.splits option.splits sum.splits)
qed

text \<open>
  Property C4: The claim of a start is durable. In every execution of a start, a retry or a restart,
  each step that boots the instance or works in the guest happens while the stored record of the node
  says that it is provisioning, so that a crash at any of them is seen afterwards.
\<close>

theorem start_claim_durable:
  assumes "world_ok w" "v_log w = []" "p \<in> {nodeStart cat forwards resume v, NodeRestart cat forwards v}"
  shows "\<forall>e \<in> set (v_log (fst (run p as w))). \<forall>c i. en_event e = CallE c \<longrightarrow> works_on c = Some i \<longrightarrow> says_provisioning i (en_nodes e)"
proof -
  have w: "covered w" "keyed w" using assms(1,2) by (auto simp: covered_def keyed_def world_ok_def)
  have "wp (nodeStart cat forwards resume v) (\<lambda>_. covered) covered w"
    unfolding nodeStart_def with_claim_def using w
    by (auto simp: keyed_def intro!: wp_mono [OF start_covered] split: sum.split)
  moreover have "wp (NodeRestart cat forwards v) (\<lambda>_. covered) covered w" by (rule restart_covered [OF w])
  ultimately have "wp p (\<lambda>_. covered) covered w" using assms(3) by blast
  from wp_run [OF this, of as] have "covered (fst (run p as w))" by (auto split: prod.splits option.splits)
  then show ?thesis by (simp add: covered_def)
qed

definition start_answers :: "answer list" where
  "start_answers = [fine, ANode (Inr web), fine, fine, ALoad None, ALoad None, AClock 1, fine, fine, fine, fine, observed ''web'' ObservationStopped, AClock 2,
     fine, fine, fine, AClock 3, fine, fine, fine, fine, fine, fine, fine, AClock 4, AClock 5, fine, fine, fine, fine,
     observed ''web'' ObservationRunning, fine, AClock 6, ALoad None, fine, fine, fine]"

lemmas start_execution = nodeStart_def nodeStartClaimed_def start_prepare_def advance_def start_boot_def start_credentials_def start_workspace_def
  start_steps_def start_finish_def reconcileNodePersisted_def start_answers_def web_world_def execution

lemma web_start [simp]:
  "migrateKnownBuiltInNodeBootstrap no_catalog n web_bootstrap = (n, web_bootstrap, False)" "prepareSteps False web_bootstrap = (web_bootstrap, Inr 0)"
  "resetSteps 0 web_bootstrap = web_bootstrap" "bs_Completed web_bootstrap" "bs_Steps web_bootstrap = []" "\<not> n_ImportHostAuth web" "\<not> n_AuthImportCompleted web"
proof -
  show "migrateKnownBuiltInNodeBootstrap no_catalog n web_bootstrap = (n, web_bootstrap, False)"
    by (simp add: migrateKnownBuiltInNodeBootstrap_def no_catalog_def web_bootstrap_def)
qed code_simp+

lemma web_starts: "case run (nodeStart no_catalog False False ''web'') start_answers web_world of
     (w', Some (Inr node)) \<Rightarrow> n_Status node = NodeStatusRunning \<and> clean w' | _ \<Rightarrow> False"
    supply lazy_congs [cong]
    by (simp add: start_execution clean_def)

definition works_on_web :: "entry \<Rightarrow> bool" where
  "works_on_web e \<longleftrightarrow> (case en_event e of CallE c \<Rightarrow> works_on c = Some ''n1'' | _ \<Rightarrow> False)"

theorem start_claim_durable_witness:
  "case run (nodeStart no_catalog False False ''web'') start_answers web_world of
     (w', Some (Inr node)) \<Rightarrow> n_Status node = NodeStatusRunning \<and> filter works_on_web (v_log w') \<noteq> []
       \<and> list_all (\<lambda>e. says_provisioning ''n1'' (en_nodes e)) (filter works_on_web (v_log w')) | _ \<Rightarrow> False"
proof -
  have w: "world_ok web_world" "v_log web_world = []" by (simp_all add: world_ok_def web_world_def)
  have "\<forall>e \<in> set (v_log (fst (run (nodeStart no_catalog False False ''web'') start_answers web_world))).
      \<forall>c i. en_event e = CallE c \<longrightarrow> works_on c = Some i \<longrightarrow> says_provisioning i (en_nodes e)"
    by (rule start_claim_durable [OF w, of _ no_catalog False False "''web''"]) simp
  then have "list_all (\<lambda>e. says_provisioning ''n1'' (en_nodes e)) (filter works_on_web (v_log (fst (run (nodeStart no_catalog False False ''web'') start_answers web_world))))"
    by (auto simp: list_all_iff works_on_web_def split: event.splits)
  moreover have "case run (nodeStart no_catalog False False ''web'') start_answers web_world of
     (w', Some (Inr node)) \<Rightarrow> n_Status node = NodeStatusRunning \<and> filter works_on_web (v_log w') \<noteq> [] | _ \<Rightarrow> False"
    supply lazy_congs [cong]
    by (simp add: start_execution works_on_web_def)
  ultimately show ?thesis by (simp split: prod.splits option.splits sum.splits)
qed

text \<open>
  Property C6: A start gives its claim back. Take a start or retry that ends, with success or any
  error, while no work on the metadata failed, and a record that, after the migration of its
  built-in commands, is not complete in the bootstrap file and incomplete in the node file, and that
  has a durable state when its bootstrap is not complete. The start leaves this record as it was or
  in a state that is not in flight. The condition is on this record alone; what happens without it
  is shown by \<open>start_leaves_in_flight\<close>.
\<close>

theorem start_returns_claim:
  assumes "world_ok w" "v_log w = []" "\<And>record. map_of (v_nodes w) i = Some record \<Longrightarrow> startable cat record"
    and "run (nodeStart cat forwards resume v) as w = (w', Some r)" "clean w'"
  shows "map_of (v_nodes w') i = map_of (v_nodes w) i \<or> settled i (v_nodes w')"
proof -
  let ?Q = "\<lambda>u. clean u \<longrightarrow> map_of (v_nodes u) i = map_of (v_nodes w) i \<or> settled i (v_nodes u)"
  have "wp (nodeStartClaimed cat forwards op resume j) (\<lambda>_ u. \<forall>err how. ?Q (call_effect (Release j) err how u)) (\<lambda>_. True) u" if "same_state w u" for op j u
  proof (cases "j = i")
    case True
    show ?thesis unfolding True
      by (rule wp_mono [OF start_returned [of u "v_nodes w" i cat forwards op resume]])
        (use that assms(1,3) in \<open>auto simp: same_state_def world_ok_def dest: returned_all\<close>)
  next
    case False
    have "others j (v_nodes w) (v_nodes u)" using that assms(1) by (auto simp: same_state_def world_ok_def others_def)
    from start_others [OF this] show ?thesis by (rule wp_mono) (use False in \<open>auto simp: others_def\<close>)
  qed
  then have "wp (nodeStart cat forwards resume v) (\<lambda>_. ?Q) (\<lambda>_. True) w"
    unfolding nodeStart_def by (intro claimed_wp) (auto simp: same_state_def)
  from wp_run [OF this, of as] assms(4,5) show ?thesis by simp
qed

theorem start_returns_claim_witness:
  "case run (nodeStart no_catalog False False ''web'') start_answers web_world of
     (w', Some (Inr node)) \<Rightarrow> clean w' \<and> (map_of (v_nodes w') ''n1'' = map_of (v_nodes web_world) ''n1'' \<or> settled ''n1'' (v_nodes w')) | _ \<Rightarrow> False"
proof -
  have w: "world_ok web_world" "v_log web_world = []" by (simp_all add: world_ok_def web_world_def)
  have s: "startable no_catalog r" if "map_of (v_nodes web_world) ''n1'' = Some r" for r
    using that by (auto simp: web_world_def startable_def web_def)
  obtain w' node where r: "run (nodeStart no_catalog False False ''web'') start_answers web_world = (w', Some (Inr node))" "clean w'"
    using web_starts by (auto split: prod.splits option.splits sum.splits)
  from start_returns_claim [OF w s r(1) r(2)] show ?thesis using r by simp
qed

text \<open>
  Property C23: A stop is confirmed by the runtime. A stop that returns a node returns it with the
  status stopped, the newest listing of the runtime shows its instance as stopped or not at all, and
  the record in the store is the file form of the returned node. The file form keeps no runtime
  status. When the bootstrap is complete the record is not in flight; when it is not complete, the
  record has the lifecycle state that was loaded before, which can be in flight
  (\<open>stop_leaves_in_flight\<close>).
\<close>

theorem stop_is_confirmed:
  assumes "run (NodeStop v) as w = (w', Some (Inr n))"
  shows "n_Status n = NodeStatusStopped \<and> (\<exists>obs. last_seen (v_log w') = Some obs \<and> down (n_SandboxName n) obs)
    \<and> (\<exists>b. map_of (v_nodes w') (n_ID n) = Some (newNodeFileWire n, b))
    \<and> (n_BootstrapCompleted n \<longrightarrow> settled (n_ID n) (v_nodes w'))"
proof -
  have "wp (NodeStop v) (\<lambda>r w. \<forall>n. r = Inr n \<longrightarrow> stopped n w) (\<lambda>_. True) w"
    unfolding NodeStop_def with_claim_def
    by (auto simp: stopped_def intro!: wp_mono [OF stop_confirmed] split: sum.split)
  from wp_run [OF this, of as] assms have s: "stopped n w'" by simp
  then have "\<not> nodeStatusInFlight (n_Status (wire_node (newNodeFileWire n)))" if "n_BootstrapCompleted n"
    using that sighted_lifecycle [of n] by (simp add: stopped_def sighted_def)
  then show ?thesis using s by (auto simp: stopped_def settled_def)
qed

theorem stop_is_confirmed_witness:
  "case run (NodeStop ''web'') (stop_answers web) web_world of
     (w', Some (Inr n)) \<Rightarrow> n_Status n = NodeStatusStopped \<and> (\<exists>obs. last_seen (v_log w') = Some obs \<and> down (n_SandboxName n) obs)
       \<and> n_BootstrapCompleted n \<and> settled (n_ID n) (v_nodes w') | _ \<Rightarrow> False"
proof -
  have "n_BootstrapCompleted web" by code_simp
  then have "case run (NodeStop ''web'') (stop_answers web) web_world of (w', Some (Inr n)) \<Rightarrow> n_BootstrapCompleted n | _ \<Rightarrow> False"
    supply lazy_congs [cong]
    by (simp add: NodeStop_def nodeStopClaimed_def stop_answers_def web_world_def execution)
  then obtain w' n where r: "run (NodeStop ''web'') (stop_answers web) web_world = (w', Some (Inr n))" "n_BootstrapCompleted n" by (auto split: prod.splits option.splits sum.splits)
  from stop_is_confirmed [OF r(1)] show ?thesis using r by simp
qed

section \<open>Executions that go wrong\<close>

text \<open>
  A stop of a node whose first start died: the stop succeeds, and the record still says that the
  node is provisioning, because the state that \<open>nodeLifecycleState\<close> falls back to is the old one.
\<close>

definition stuck :: Node where
  "stuck = zero_node\<lparr>n_ID := ''n1'', n_Slug := ''web'', n_SandboxName := ''web'', n_Status := NodeStatusProvisioning\<rparr>"

definition stuck_world :: world where
  "stuck_world = \<lparr>v_nodes = [(''n1'', newNodeFileWire stuck, web_bootstrap\<lparr>bs_Completed := False\<rparr>)], v_refs = [(''n1'', ''web'')], v_vms = {''web''}, v_locks = 0, v_log = []\<rparr>"

definition stuck_answers :: "answer list" where
  "stuck_answers = [fine, ANode (Inr stuck), fine, fine, ALoad None, ALoad None, AClock 1, fine, fine, fine, observed ''web'' ObservationRunning, AClock 2,
     fine, observed ''web'' ObservationStopped, AClock 3, AClock 4, fine, fine, fine, fine, fine]"

lemma stuck_fields [simp]:
  "n_ID stuck = ''n1''" "n_SandboxName stuck = ''web''" "n_ConfigurationID stuck = []" "nodeLifecycleState stuck = NodeStatusProvisioning"
  "nodeStatusInFlight NodeStatusProvisioning" "\<not> n_BootstrapCompleted stuck" "\<not> n_ImportHostAuth stuck" "\<not> n_AuthImportCompleted stuck" "normalizeNodeLifecycleState (n_Status stuck) = NodeStatusProvisioning"
  "normalizeNodeLifecycleState (n_LifecycleState (wire_node (newNodeFileWire stuck))) = NodeStatusProvisioning" "NodeStatusProvisioning \<noteq> []"
  by code_simp+

lemma stop_leaves_in_flight:
  "case run (NodeStop ''web'') stuck_answers stuck_world of
     (w', Some (Inr n)) \<Rightarrow> n_Status n = NodeStatusStopped \<and> clean w' \<and> \<not> settled ''n1'' (v_nodes w') | _ \<Rightarrow> False"
  supply lazy_congs [cong]
  by (simp add: NodeStop_def nodeStopClaimed_def stuck_answers_def stuck_world_def execution clean_def settled_def nodeLifecycleState_def)

text \<open>
  A start of a node whose first start died between the two files of its last save: the bootstrap
  file says that the bootstrap is complete, the node file does not. The start succeeds and runs no
  bootstrap command, so the flag of the node is never set, and the record is provisioning again.
\<close>

definition split_world :: world where
  "split_world = \<lparr>v_nodes = [(''n1'', newNodeFileWire stuck, web_bootstrap)], v_refs = [(''n1'', ''web'')], v_vms = {''web''}, v_locks = 0, v_log = []\<rparr>"

definition split_answers :: "answer list" where
  "split_answers = [fine, ANode (Inr stuck), fine, fine, ALoad None, ALoad None, AClock 0, fine, fine, AClock 1, fine, fine, fine, fine,
     observed ''web'' ObservationStopped, AClock 2,
     fine, fine, fine, AClock 3, fine, fine, fine, fine, fine, fine, fine, AClock 4, AClock 5, fine, fine, fine, fine,
     observed ''web'' ObservationRunning, fine, AClock 6, ALoad None, fine, fine, fine]"

lemma start_leaves_in_flight:
  "case run (nodeStart no_catalog False False ''web'') split_answers split_world of
     (w', Some (Inr n)) \<Rightarrow> n_Status n = NodeStatusRunning \<and> clean w' \<and> \<not> settled ''n1'' (v_nodes w') | _ \<Rightarrow> False"
  supply lazy_congs [cong]
  by (simp add: start_execution split_answers_def split_world_def clean_def settled_def nodeLifecycleState_def)

text \<open>
  A delete of a node that is deleted already, by its identifier: its slug and with it the name of
  its instance belong to a new node by now, whose instance is removed.
\<close>

definition old_web :: Node where
  "old_web = web\<lparr>n_ID := ''n0'', n_Status := NodeStatusTerminated, n_DeletedAt := Some 1\<rparr>"

definition reused_world :: world where
  "reused_world = \<lparr>v_nodes = [(''n0'', newNodeFileWire old_web, web_bootstrap), (''n1'', newNodeFileWire web, web_bootstrap)],
     v_refs = [(''n0'', ''web''), (''n1'', ''web'')], v_vms = {''web''}, v_locks = 0, v_log = []\<rparr>"

definition reused_answers :: "answer list" where
  "reused_answers = [fine, ANode (Inr old_web), fine, fine, ALoad None, ALoad None, AClock 1, fine, fine, fine, AClock 2, fine, fine, fine, fine, fine]"

lemma old_web_fields [simp]:
  "n_ID old_web = ''n0''" "n_SandboxName old_web = ''web''" "n_ConfigurationID old_web = []" "nodeLifecycleState old_web = NodeStatusTerminated"
  "\<not> nodeStatusInFlight NodeStatusTerminated"
  by code_simp+

lemma delete_takes_other_instance:
  "case run (deleteNode True ''n0'') reused_answers reused_world of
     (w', Some (Inr n)) \<Rightarrow> n_ID n = ''n0'' \<and> ''web'' \<notin> v_vms w' \<and> map_of (v_nodes w') ''n1'' = Some (newNodeFileWire web, web_bootstrap) | _ \<Rightarrow> False"
  supply lazy_congs [cong]
  by (simp add: deleteNode_def deleteNode_claimed_def reused_answers_def reused_world_def execution)

end
