(* ===== verification/Spec2Isabelle.thy ===== *)
theory Spec2Isabelle
  imports Prelude OutboundQueue RendererJournal JournalOrder AppErrors Locks NodeTypes Utf8 BootstrapSteps OperationPhases OperationOutput NodeOperations OperationRuns OperationHistory AttachGate TerminalBytes Float64 MetricsHistory Dispatch DispatchRuns AtomicFile Forwarding ForwardingPolicy ForwardingTables ForwardingRuns LogText ActivityJournal ActivityRuns NodeStore StoreRuns StoreProperties NodeCache RendererRecovery RecoveryProperties RendererSupervisor SupervisorRuns SupervisorInvariant SupervisorProperties RendererLink LinkInvariant LinkProperties NodeNaming ServicePrograms NodeService ServiceProperties StartPhases ServiceClaims ServiceRuns
begin

text \<open>
  A verification development of CodeLima, a manager of Lima virtual machines (\<^verbatim>\<open>src/internal/codelima\<close>).

  \<^bold>\<open>The program.\<close> A daemon per metadata home owns the nodes (virtual machines): it runs their
  lifecycle operations, keeps their terminals alive in renderer workers, watches their resource
  usage and forwards their ports. Clients (the command line and a terminal user interface) speak
  JSON requests over a socket. Processes that share a home coordinate by file locks. The
  development models the parts that carry this logic; each is a theory of its own.

  \<^bold>\<open>Locks and records.\<close> \<^verbatim>\<open>Locks\<close> (\<^verbatim>\<open>locks.go\<close>) models lock domains, per-node locks and operation
  tokens over the kernel's lock table, with acquisitions as interleaved steps. The steps take any
  identifiers, as the code does; when the identifiers asked for are trimmed, no set of waiting
  processes is deadlocked and lock sets exclude each other, and an acquisition with two spellings
  of one identifier is shown to wait for itself. A token has one owner. \<^verbatim>\<open>AppErrors\<close>
  (\<^verbatim>\<open>errors.go\<close>, \<^verbatim>\<open>daemon/protocol.go\<close>) models error values as trees and their form on the wire, with
  the round trip. \<^verbatim>\<open>NodeTypes\<close> (\<^verbatim>\<open>types.go\<close>, \<^verbatim>\<open>node_status.go\<close>, the reconciliation of \<^verbatim>\<open>service.go\<close>) has
  the node record, its file form and the statuses: writing and reading keeps everything durable,
  and a sighting of the runtime never erases a state that an operation owns.

  \<^bold>\<open>Atomic writes.\<close> \<^verbatim>\<open>AtomicFile\<close> (\<^verbatim>\<open>internal/atomicfile\<close>) models the replacement of a file with an answer
  of the operating system for every call: a failure before the rename leaves the file as it was, and
  a failure after it, in the sync of the directory, leaves the new contents behind an error. The
  theories that write through it say which of their guarantees survive such a late failure.

  \<^bold>\<open>The metadata store.\<close> \<^verbatim>\<open>NodeStore\<close>, \<^verbatim>\<open>StoreRuns\<close> and \<^verbatim>\<open>StoreProperties\<close> (\<^verbatim>\<open>store.go\<close>) model the files of nodes
  and their indexes, each operation as a sequence of atomic writes that can fail or be cut off
  anywhere, also after the file is in place: an interrupted save does no harm, slugs find their
  nodes, and the quarantine takes exactly the unreadable records out of service. The steps have as a
  parameter the set of nodes whose completed bootstrap is taken back by the migration of built-in
  commands; for these a crash between the two files is shown on its own. \<^verbatim>\<open>NodeCache\<close> (the cache of parsed records) shows that
  caching changes no answer under any interleaving. \<^verbatim>\<open>ActivityJournal\<close> and \<^verbatim>\<open>ActivityRuns\<close>
  (\<^verbatim>\<open>activity_journal.go\<close>, \<^verbatim>\<open>activity_action.go\<close>, with \<^verbatim>\<open>LogText\<close> for \<^verbatim>\<open>plainLogText\<close>) model the bounded journal of
  messages: as long as no write fails after its rename its files load into what it holds, appending
  is idempotent, and a snapshot is exact; after such a failure a sequence number is used twice.

  \<^bold>\<open>Lifecycle operations.\<close> \<^verbatim>\<open>BootstrapSteps\<close> (\<^verbatim>\<open>bootstrap_steps.go\<close> and the loops of \<^verbatim>\<open>nodeStartClaimed\<close>)
  shows that a start reported as successful has run every step due with a record written ahead, and
  that a retry resumes at the failed step. \<^verbatim>\<open>OperationPhases\<close>, \<^verbatim>\<open>OperationOutput\<close> (with \<^verbatim>\<open>Utf8\<close>),
  \<^verbatim>\<open>NodeOperations\<close>, \<^verbatim>\<open>OperationRuns\<close> and \<^verbatim>\<open>OperationHistory\<close> model the manager of \<^verbatim>\<open>node_operations.go\<close>
  and \<^verbatim>\<open>node_batch.go\<close> with the phases, the bounded output, admission, batches, the runs of environment
  tests with the retry of their cleanup, recovery and paging: running operations have disjoint keys
  and stay within the limits under every interleaving, if the slugs of clone requests are trimmed
  and a new node has a new identifier (an untrimmed slug is shown to break it); repeated submissions
  are idempotent; a restart that succeeds leaves no operation running but the environment tests
  whose cleanup it takes up again; and following the pages of the history shows every finished
  operation once.

  \<^bold>\<open>What an operation does.\<close> \<^verbatim>\<open>NodeNaming\<close> (\<^verbatim>\<open>slugify\<close>, \<^verbatim>\<open>generateSandboxName\<close>, \<^verbatim>\<open>validatePorts\<close> and the checks and
  records of \<^verbatim>\<open>createNode\<close> and \<^verbatim>\<open>cloneNode\<close>) says what a new node is called and made of. \<^verbatim>\<open>NodeService\<close>
  (\<^verbatim>\<open>service.go\<close>, \<^verbatim>\<open>node_restart.go\<close>, the migration of \<^verbatim>\<open>config.go\<close>) has start, retry, stop, restart,
  delete, create, clone, the repair of stale claims and the cleanup of incomplete nodes, each the whole
  handler with its rollbacks. They are programs of \<^verbatim>\<open>ServicePrograms\<close>: trees that ask the clock, the store,
  the locks, the runtime and the guest and branch on every answer. \<^verbatim>\<open>run\<close> executes a program on a list of
  answers and stops, as a killed process does, where the list ends; \<^verbatim>\<open>wp\<close> is what a program guarantees
  for all answers, with a condition on every state in which the process may die. A failed call may have
  been done not at all, in part or as a whole. \<^verbatim>\<open>ServiceProperties\<close>, \<^verbatim>\<open>StartPhases\<close> and \<^verbatim>\<open>ServiceClaims\<close> hold the
  guarantees and \<^verbatim>\<open>ServiceRuns\<close> states them over executions: no new instance is orphaned, a record is
  marked deleted only after its instance is gone, work on an instance happens under a durable claim and
  without locks, a start of a record with agreeing flags gives its claim back, and a stop is confirmed.
  Three executions show behaviour that the code does not intend: a second delete that takes the
  instance of another node, and a stop and a start that succeed and leave their record in flight.

  \<^bold>\<open>Terminals.\<close> \<^verbatim>\<open>RendererJournal\<close> and \<^verbatim>\<open>JournalOrder\<close> (\<^verbatim>\<open>renderer_journal.go\<close> with its output and order)
  model the daemon's bounded log of terminal events and the worker's reorder buffer: the log keeps
  a suffix, reads are exact, and events delivered in any order with repetitions give the worker the
  same screen. \<^verbatim>\<open>AttachGate\<close> (\<^verbatim>\<open>terminal_attach_gate.go\<close>) decides which of several attached clients
  answers a terminal query: replies are neither lost nor duplicated and keep their order.
  \<^verbatim>\<open>TerminalBytes\<close> (\<^verbatim>\<open>terminal_attach_input.go\<close>, \<^verbatim>\<open>terminalstate/vt_boundary.go\<close>) has the byte-level
  recognizers: attached input passes unchanged but for the detach key, and the boundary tracker
  agrees with a grammar of control sequences.

  \<^bold>\<open>Renderer workers.\<close> \<^verbatim>\<open>RendererRecovery\<close> and \<^verbatim>\<open>RecoveryProperties\<close> (\<^verbatim>\<open>renderer_checkpoint.go\<close>, its handoff and
  quota, the recovery part of \<^verbatim>\<open>daemon_terminal_isolated.go\<close>) model what a daemon hands to its successor:
  adopting restores what was given away, for journals of at most 65536 events, and only well-formed
  data is adopted. \<^verbatim>\<open>RendererSupervisor\<close>,
  \<^verbatim>\<open>SupervisorRuns\<close>, \<^verbatim>\<open>SupervisorInvariant\<close> and \<^verbatim>\<open>SupervisorProperties\<close> (\<^verbatim>\<open>renderer_supervisor.go\<close>,
  \<^verbatim>\<open>renderer_checkpoint_supervisor.go\<close>) interleave the critical sections of the supervisor with starts,
  frames, captures and the owner's calls: only the current worker is shown, restarts keep to their
  budget over the whole run, a started terminal without a worker is never abandoned, and the retained
  checkpoints of all terminals are valid and bounded together. \<^verbatim>\<open>RendererLink\<close>, \<^verbatim>\<open>LinkInvariant\<close> and
  \<^verbatim>\<open>LinkProperties\<close> (\<^verbatim>\<open>rendererLink\<close> in the same file) have the queues, pending requests, callers and
  deadlines of the link to one worker, with its writer, reader and health check as steps: the request
  that the worker works on has its whole budget, calls are answered once, and frames stay in order.

  \<^bold>\<open>Connections.\<close> \<^verbatim>\<open>OutboundQueue\<close> (\<^verbatim>\<open>daemon/outbound_queue.go\<close>) is the bounded two-priority mailbox of a
  connection, with its wake-up protocol: frames are conserved in order and the writer never sleeps
  on a non-empty queue. \<^verbatim>\<open>Dispatch\<close> and \<^verbatim>\<open>DispatchRuns\<close> (\<^verbatim>\<open>daemon/dispatch.go\<close>) are the lanes of a
  connection: every request is answered once, input of a terminal stays in order, and of replaceable
  values the newest wins.

  \<^bold>\<open>Telemetry and forwarding.\<close> \<^verbatim>\<open>MetricsHistory\<close> (\<^verbatim>\<open>metrics_history.go\<close>, \<^verbatim>\<open>metrics_telemetry.go\<close>, the
  samples of \<^verbatim>\<open>dynamic_forwarding.go\<close>) refines a bounded list by a ring and shows what a poll returns;
  percentages are rounded to binary64 numbers by \<^verbatim>\<open>Float64\<close>, and stay within 100 up to that rounding.
  \<^verbatim>\<open>Forwarding\<close> (\<^verbatim>\<open>dynamic_forwarding.go\<close>), \<^verbatim>\<open>ForwardingPolicy\<close> (\<^verbatim>\<open>forwarding_policy.go\<close>),
  \<^verbatim>\<open>ForwardingTables\<close> and \<^verbatim>\<open>ForwardingRuns\<close> model the route table, the durable preferences and their
  interplay over discovery passes, failures, pins, handoffs, crashes and restarts: a saved policy below
  the size limit loads back to the same pins and claims, a pin is all or nothing unless its write fails
  after the rename, and right after a reconciliation a generic request on a pinned port reaches no
  other node.

  \<^bold>\<open>How it is built.\<close> \<^verbatim>\<open>Prelude\<close> has the shared types and lemmas and two locales: \<^verbatim>\<open>invariant_system\<close> (an
  initial predicate, a step relation and an invariant), interpreted for the mailbox, the locks, the
  operation manager, the telemetry, the lanes, the forwarder, the activity journal, the metadata
  store and its cache, the supervisor, the fleet of supervisors and the link; and \<^verbatim>\<open>front_trim\<close> (a log trimmed
  from the front), interpreted for the journal and the operation output. \<^verbatim>\<open>OutboundQueue\<close> has the
  contract \<^verbatim>\<open>mailbox\<close>, interpreted on its own operations; \<^verbatim>\<open>StartPhases\<close> has \<^verbatim>\<open>start_phases\<close>, a rule for the
  phases of a start, interpreted for the durable claim, for its return and for the records it leaves alone. State is a record per Go struct; a method is
  a function that returns the new state; an error is a value; a mutex makes a method one step, and
  where the code releases it (the pin of a port, the acquisition of locks, a lane's worker) the
  method is several steps of a relation. A Go map is an association list or a partial function; a
  loop over a map follows the list, whose order is arbitrary. Times are integers in nanoseconds with
  0 the zero time; sequence numbers are 64-bit words, and wrap-around is excluded only where a bound
  on the run length excludes it. All functions are total; the only fuel is in the reference
  \<^verbatim>\<open>follow_pages\<close>, where one more than the number of records suffices. The disk, the clock, guest
  commands, listeners, worker processes, JSON texts, digests and \<^verbatim>\<open>uuid.Parse\<close> are arguments.

  \<^bold>\<open>Not modelled.\<close> The user interface and command line (layout and printing); the Lima driver, the
  layout and seeding of the store and YAML or JSON encodings, credentials import, sockets, PTYs, SSH peers and TCP
  relays (input and output); the renderer worker itself and the daemon host around the components above;
  of the service, the seeding of built-in metadata, doctor reports, listings and shells; of the forwarder,
  the parsing of host names and of guest output; the terminal emulator (a C library); release tooling and
  \<^verbatim>\<open>third_party\<close>. These parts wire the modelled ones together or are input and output of other programs.
\<close>

end
